(* ===== verification/Prelude.thy ===== *)
theory Prelude
  imports "HOL-Library.Word"
begin

text \<open>
  Shared vocabulary of the development: the machine integer types of the C code, the memory
  blocks that \<open>memcpy\<close>, \<open>memmove\<close> and \<open>memset\<close> write, the little-endian layout that a struct
  of 32-bit and 16-bit fields has on both target architectures, and the generic facts about
  words and lists that every component uses.

  Conventions of the whole model. An \<open>uint8_t\<close>, \<open>uint16_t\<close> or \<open>uint32_t\<close> is a word of that width,
  so its arithmetic wraps as in C. A \<open>size_t\<close> that counts bytes of an object in memory is a
  \<open>nat\<close>: no such count reaches \<open>2^32\<close> on a part with less than a megabyte of RAM, and every
  place where the code subtracts two sizes is covered by an invariant of its component.
  A C array is a list, written by index only inside its bounds. A pointer that the code
  tests against \<open>NULL\<close> because it is optional (a data block, an out-parameter that may be left
  out) is an option; the object a function operates on (its first argument) is the record
  itself, passed and returned.
\<close>

unbundle bit_operations_syntax

type_synonym u8 = "8 word"
type_synonym u16 = "16 word"
type_synonym u32 = "32 word"

text \<open>\<open>memory_simps\<close> collects the facts about blocks written into arrays.\<close>

named_theorems memory_simps

subsection \<open>Blocks of memory\<close>

text \<open>\<open>memcpy(&buf[at], src, length src)\<close>, for a block that lies inside the buffer.\<close>

definition blit :: "nat \<Rightarrow> 'a list \<Rightarrow> 'a list \<Rightarrow> 'a list" where
  "blit at src buf = take at buf @ src @ drop (at + length src) buf"

text \<open>\<open>&buf[at]\<close> read for \<open>n\<close> elements.\<close>

definition chunk :: "nat \<Rightarrow> nat \<Rightarrow> 'a list \<Rightarrow> 'a list" where
  "chunk at n buf = take n (drop at buf)"

text \<open>\<open>memset(&buf[at], v, n)\<close>.\<close>

definition fill :: "nat \<Rightarrow> nat \<Rightarrow> 'a \<Rightarrow> 'a list \<Rightarrow> 'a list" where
  "fill at n v buf = blit at (replicate n v) buf"

lemma length_blit [simp]: "at + length src \<le> length buf \<Longrightarrow> length (blit at src buf) = length buf"
  by (simp add: blit_def)

lemma length_chunk [simp]: "at + n \<le> length buf \<Longrightarrow> length (chunk at n buf) = n"
  by (simp add: chunk_def)

lemma blit_Nil [simp]: "at \<le> length buf \<Longrightarrow> blit at [] buf = buf"
  by (simp add: blit_def)

lemma chunk_0 [simp]: "chunk at 0 buf = []"
  by (simp add: chunk_def)

lemma nth_blit [memory_simps]:
  assumes "at + length src \<le> length buf" and "i < length buf"
  shows "blit at src buf ! i =
    (if i < at then buf ! i else if i < at + length src then src ! (i - at) else buf ! i)"
  using assms by (auto simp: blit_def nth_append min_def)

lemma nth_chunk [memory_simps]:
  "at + n \<le> length buf \<Longrightarrow> i < n \<Longrightarrow> chunk at n buf ! i = buf ! (at + i)"
  by (simp add: chunk_def)

lemma chunk_blit_same [memory_simps]:
  "at + length src \<le> length buf \<Longrightarrow> chunk at (length src) (blit at src buf) = src"
  by (simp add: blit_def chunk_def)

lemma chunk_blit_before [memory_simps]:
  "i + n \<le> at \<Longrightarrow> at + length src \<le> length buf \<Longrightarrow> chunk i n (blit at src buf) = chunk i n buf"
  by (rule nth_equalityI) (auto simp: nth_chunk nth_blit)

lemma chunk_blit_after [memory_simps]:
  "at + length src \<le> i \<Longrightarrow> i + n \<le> length buf \<Longrightarrow>
    chunk i n (blit at src buf) = chunk i n buf"
  by (rule nth_equalityI) (auto simp: nth_chunk nth_blit)

lemma chunk_append_chunk [memory_simps]:
  "chunk at m buf @ chunk (at + m) n buf = chunk at (m + n) buf"
  by (simp add: chunk_def take_add add.commute)

lemma update_blit: "i < length buf \<Longrightarrow> buf[i := x] = blit i [x] buf"
  by (simp add: blit_def upd_conv_take_nth_drop)

lemma blit_after_blit [memory_simps]:
  "at + length xs + length ys \<le> length buf \<Longrightarrow> blit (at + length xs) ys (blit at xs buf) = blit at (xs @ ys) buf"
  by (simp add: blit_def ac_simps)

lemma blit_before_blit [memory_simps]:
  "at + length xs + length ys \<le> length buf \<Longrightarrow> blit at xs (blit (at + length xs) ys buf) = blit at (xs @ ys) buf"
  by (simp add: blit_def min_def add.assoc [symmetric])

lemma take_blit [memory_simps]:
  "at + length src \<le> length buf \<Longrightarrow> take (at + length src) (blit at src buf) = take at buf @ src"
  by (simp add: blit_def)

subsection \<open>Words\<close>

lemma word_eq_unat_iff: "(a :: 'a::len word) = b \<longleftrightarrow> unat a = unat b"
  by (metis word_unat_eq_iff)

lemma bit_word_beyond: "LENGTH('a::len) \<le> n \<Longrightarrow> \<not> bit (w :: 'a word) n"
  using bit_imp_le_length by (metis leD)

lemma word_and_1_iff: "(w :: 'a::len word) AND 1 \<noteq> 0 \<longleftrightarrow> bit w 0"
  by (simp add: and_one_eq bit_0 odd_iff_mod_2_eq_one)

lemma word_xor_cancel [simp]: "(a :: 'a::len word) XOR c = b XOR c \<longleftrightarrow> a = b"
  by (metis xor.assoc xor_self_eq xor.right_neutral)

lemma xor_flip: "(a :: 'a::len word) XOR b = c \<longleftrightarrow> b = a XOR c"
proof -
  have "a XOR (a XOR x) = x" for x
    by (simp flip: xor.assoc)
  then show ?thesis by metis
qed

lemma unat_u8_lt: "unat (b :: u8) < 256"
  using unsigned_less [of b, where ?'a = nat] by simp

lemma unat_u32_lt: "unat (w :: u32) < 4294967296"
  using unsigned_less [of w, where ?'a = nat] by simp

lemma unat_drop_bit_div: "unat (drop_bit n (w :: 'a::len word)) = unat w div 2 ^ n"
  unfolding unat_drop_bit_eq by (rule drop_bit_eq_div)

lemma sum_list_replace:
  fixes xs :: "'a::ab_group_add list"
  assumes "i < length xs"
  shows "sum_list (xs[i := v]) = sum_list xs + v - xs ! i"
proof -
  have "sum_list xs = sum_list (take i xs @ xs ! i # drop (Suc i) xs)"
    using assms by (simp add: id_take_nth_drop [symmetric])
  then show ?thesis
    using assms by (simp add: upd_conv_take_nth_drop)
qed

lemma unat_of_nat_lt: "n < 2 ^ LENGTH('a::len) \<Longrightarrow> unat (of_nat n :: 'a word) = n"
  by (simp add: unat_of_nat take_bit_nat_eq_self)

subsection \<open>Little-endian layout of struct fields\<close>

definition le16 :: "u16 \<Rightarrow> u8 list" where
  "le16 w = [ucast w, ucast (drop_bit 8 w)]"

definition le32 :: "u32 \<Rightarrow> u8 list" where
  "le32 w = [ucast w, ucast (drop_bit 8 w), ucast (drop_bit 16 w), ucast (drop_bit 24 w)]"

definition of_le16 :: "u8 list \<Rightarrow> u16" where
  "of_le16 bs = ucast (bs ! 0) OR push_bit 8 (ucast (bs ! 1))"

definition of_le32 :: "u8 list \<Rightarrow> u32" where
  "of_le32 bs = ucast (bs ! 0) OR push_bit 8 (ucast (bs ! 1))
     OR push_bit 16 (ucast (bs ! 2)) OR push_bit 24 (ucast (bs ! 3))"

lemma length_le [simp]: "length (le16 v) = 2" "length (le32 w) = 4"
  by (simp_all add: le16_def le32_def)

lemma of_le16_le16 [simp]: "of_le16 (le16 w) = w"
  by (rule bit_word_eqI) (auto simp: le16_def of_le16_def bit_simps)

lemma of_le32_le32 [simp]: "of_le32 (le32 w) = w"
proof (rule bit_word_eqI)
  fix n assume "n < LENGTH(32)"
  then consider "n < 8" | "8 \<le> n" "n < 16" | "16 \<le> n" "n < 24" | "24 \<le> n" "n < 32"
    by fastforce
  then show "bit (of_le32 (le32 w)) n = bit w n"
    by cases (auto simp: le32_def of_le32_def bit_simps)
qed

lemma le32_inj: "le32 v = le32 w \<longleftrightarrow> v = w"
  by (metis of_le32_le32)

lemma length_4_cases:
  assumes "length bs = 4"
  obtains a b c d where "bs = [a, b, c, d]"
  using assms by (auto simp: length_Suc_conv numeral_eq_Suc)

lemma le32_of_le32: "length bs = 4 \<Longrightarrow> le32 (of_le32 bs) = bs"
  by (erule length_4_cases) (auto simp: le32_def of_le32_def bit_simps bit_word_beyond intro!: bit_word_eqI)

lemma le16_of_le16:
  assumes "length bs = 2"
  shows "le16 (of_le16 bs) = bs"
proof -
  obtain a b where "bs = [a, b]"
    using assms by (cases bs; cases "tl bs") auto
  then show ?thesis
    by (auto simp: le16_def of_le16_def bit_simps bit_word_beyond intro!: bit_word_eqI)
qed

text \<open>A block read field by field is the block.\<close>

lemma chunk_whole: "chunk 0 (length bs) bs = bs"
  by (simp add: chunk_def)

lemma chunk_all [memory_simps]: "length bs = n \<Longrightarrow> chunk 0 n bs = bs"
  by (simp add: chunk_def)

lemma chunk_append_left [memory_simps]: "at + n \<le> length xs \<Longrightarrow> chunk at n (xs @ ys) = chunk at n xs"
  by (simp add: chunk_def)

lemma chunk_append_right [memory_simps]:
  "length xs \<le> at \<Longrightarrow> chunk at n (xs @ ys) = chunk (at - length xs) n ys"
  by (simp add: chunk_def)

lemma chunk_update_after [memory_simps]: "at + n \<le> i \<Longrightarrow> chunk at n (xs[i := v]) = chunk at n xs"
  by (cases "at \<le> i") (simp_all add: chunk_def drop_update_swap)

lemma chunk_update_before [memory_simps]: "i < at \<Longrightarrow> chunk at n (xs[i := v]) = chunk at n xs"
  by (simp add: chunk_def)

end
