(* ===== verification/Ring_Buffer.thy ===== *)
theory Ring_Buffer
  imports Prelude
begin

text \<open>
  Model of \<open>components/ring_buffer\<close>: a byte FIFO over caller-owned storage with one slot kept
  empty. The record has the fields of \<open>ring_buffer_t\<close>; every operation is a definition, and
  what it promises is stated over the list of the bytes in the buffer, \<open>rb_list\<close>. The locale
  \<open>byte_fifo\<close> is the contract the streams and services built on the buffer rely on, and is
  interpreted on these definitions. The last section splits push and pop into their accesses
  to the shared indices and shows that a producer and a consumer that interleave at that
  grain still exchange exactly the bytes sent, in order.
\<close>

record ring_buffer_t =
  storage :: "u8 list"
  rb_size :: nat
  rb_head :: nat
  rb_tail :: nat

subsection \<open>Operations\<close>

text \<open>The loop of \<open>advance\<close> does not end on a buffer of size 0, the state of a buffer that was
  never initialised: \<open>None\<close> is a call that does not return.\<close>

partial_function (option) advance_loop :: "nat \<Rightarrow> nat \<Rightarrow> nat option" where
  "advance_loop sz index =
     (if sz \<le> index then advance_loop sz (index - sz) else Some index)"

definition advance :: "ring_buffer_t \<Rightarrow> nat \<Rightarrow> nat \<Rightarrow> nat option" where
  "advance rb index by = advance_loop (rb_size rb) (index + by)"

text \<open>\<open>ring_buffer_init\<close>: \<open>None\<close> is the result false, which leaves the buffer as it was; a missing
  storage is a \<open>NULL\<close> pointer.\<close>

definition ring_buffer_init :: "u8 list option \<Rightarrow> nat \<Rightarrow> ring_buffer_t option" where
  "ring_buffer_init mem sz =
     (case mem of
        None \<Rightarrow> None
      | Some bytes \<Rightarrow>
          if sz < 2 then None
          else Some \<lparr>storage = bytes, rb_size = sz, rb_head = 0, rb_tail = 0\<rparr>)"

definition ring_buffer_capacity :: "ring_buffer_t \<Rightarrow> nat" where
  "ring_buffer_capacity rb = rb_size rb - 1"

definition ring_buffer_count :: "ring_buffer_t \<Rightarrow> nat" where
  "ring_buffer_count rb =
     (if rb_tail rb \<le> rb_head rb then rb_head rb - rb_tail rb
      else rb_size rb - rb_tail rb + rb_head rb)"

definition ring_buffer_free :: "ring_buffer_t \<Rightarrow> nat" where
  "ring_buffer_free rb = ring_buffer_capacity rb - ring_buffer_count rb"

definition ring_buffer_is_empty :: "ring_buffer_t \<Rightarrow> bool" where
  "ring_buffer_is_empty rb \<longleftrightarrow> rb_head rb = rb_tail rb"

definition ring_buffer_is_full :: "ring_buffer_t \<Rightarrow> bool" where
  "ring_buffer_is_full rb \<longleftrightarrow> ring_buffer_free rb = 0"

definition ring_buffer_push :: "ring_buffer_t \<Rightarrow> u8 \<Rightarrow> (bool \<times> ring_buffer_t) option" where
  "ring_buffer_push rb byte =
     (case advance rb (rb_head rb) 1 of
        None \<Rightarrow> None
      | Some next \<Rightarrow>
          if next = rb_tail rb then Some (False, rb)
          else Some (True, rb\<lparr>storage := (storage rb)[rb_head rb := byte], rb_head := next\<rparr>))"

definition ring_buffer_write :: "ring_buffer_t \<Rightarrow> u8 list option \<Rightarrow> (nat \<times> ring_buffer_t) option" where
  "ring_buffer_write rb data =
     (case data of
        None \<Rightarrow> Some (0, rb)
      | Some bytes \<Rightarrow>
          (let writable = min (length bytes) (ring_buffer_free rb) in
           if writable = 0 then Some (0, rb)
           else
             (let head = rb_head rb;
                  until_end = rb_size rb - head;
                  first = min writable until_end;
                  mem = blit head (take first bytes) (storage rb);
                  mem' = (if first < writable
                          then blit 0 (take (writable - first) (drop first bytes)) mem else mem)
              in case advance rb head writable of
                   None \<Rightarrow> None
                 | Some next \<Rightarrow> Some (writable, rb\<lparr>storage := mem', rb_head := next\<rparr>))))"

definition ring_buffer_peek :: "ring_buffer_t \<Rightarrow> u8 option" where
  "ring_buffer_peek rb =
     (if ring_buffer_is_empty rb then None else Some (storage rb ! rb_tail rb))"

definition ring_buffer_pop :: "ring_buffer_t \<Rightarrow> (u8 option \<times> ring_buffer_t) option" where
  "ring_buffer_pop rb =
     (if ring_buffer_is_empty rb then Some (None, rb)
      else
        (let tail = rb_tail rb; byte = storage rb ! tail in
         case advance rb tail 1 of
           None \<Rightarrow> None
         | Some next \<Rightarrow> Some (Some byte, rb\<lparr>rb_tail := next\<rparr>)))"

text \<open>The bytes copied out of the buffer are the result; their number is the C return value.\<close>

definition ring_buffer_peek_bytes :: "ring_buffer_t \<Rightarrow> nat \<Rightarrow> u8 list" where
  "ring_buffer_peek_bytes rb len =
     (let readable = min len (ring_buffer_count rb) in
      if readable = 0 then []
      else
        (let tail = rb_tail rb;
             until_end = rb_size rb - tail;
             first = min readable until_end
         in chunk tail first (storage rb)
            @ (if first < readable then chunk 0 (readable - first) (storage rb) else [])))"

definition ring_buffer_discard :: "ring_buffer_t \<Rightarrow> nat \<Rightarrow> (nat \<times> ring_buffer_t) option" where
  "ring_buffer_discard rb len =
     (let dropped = min len (ring_buffer_count rb) in
      if dropped = 0 then Some (0, rb)
      else case advance rb (rb_tail rb) dropped of
             None \<Rightarrow> None
           | Some next \<Rightarrow> Some (dropped, rb\<lparr>rb_tail := next\<rparr>))"

definition ring_buffer_read :: "ring_buffer_t \<Rightarrow> nat \<Rightarrow> (u8 list \<times> ring_buffer_t) option" where
  "ring_buffer_read rb len =
     (let taken = ring_buffer_peek_bytes rb len in
      map_option (\<lambda>(n, rb'). (taken, rb')) (ring_buffer_discard rb (length taken)))"

definition ring_buffer_clear :: "ring_buffer_t \<Rightarrow> ring_buffer_t" where
  "ring_buffer_clear rb = rb\<lparr>rb_tail := rb_head rb\<rparr>"

subsection \<open>Invariant and abstraction\<close>

definition rb_inv :: "ring_buffer_t \<Rightarrow> bool" where
  "rb_inv rb \<longleftrightarrow> 2 \<le> rb_size rb \<and> rb_size rb \<le> length (storage rb)
     \<and> rb_head rb < rb_size rb \<and> rb_tail rb < rb_size rb"

definition rb_slot :: "ring_buffer_t \<Rightarrow> nat \<Rightarrow> nat" where
  "rb_slot rb i = (rb_tail rb + i) mod rb_size rb"

text \<open>The bytes in the buffer, oldest first.\<close>

definition rb_list :: "ring_buffer_t \<Rightarrow> u8 list" where
  "rb_list rb = map (\<lambda>i. storage rb ! rb_slot rb i) [0..<ring_buffer_count rb]"

lemma advance_loop_mod: "0 < sz \<Longrightarrow> advance_loop sz i = Some (i mod sz)"
proof (induction i rule: less_induct)
  case (less i)
  then show ?case
    by (simp add: advance_loop.simps [of sz i] le_mod_geq)
qed

lemma advance_eq: "rb_inv rb \<Longrightarrow> advance rb i n = Some ((i + n) mod rb_size rb)"
  by (simp add: advance_def advance_loop_mod rb_inv_def)

lemma mod_wrap: "(a :: nat) < 2 * n \<Longrightarrow> a mod n = (if a < n then a else a - n)"
  by (simp add: mod_if)

lemma rb_slot_count: "rb_inv rb \<Longrightarrow> rb_slot rb (ring_buffer_count rb) = rb_head rb"
  by (auto simp: rb_slot_def ring_buffer_count_def rb_inv_def mod_wrap)

lemma rb_count_bound: "rb_inv rb \<Longrightarrow> ring_buffer_count rb \<le> ring_buffer_capacity rb"
  by (auto simp: ring_buffer_count_def ring_buffer_capacity_def rb_inv_def)

lemma rb_count_lt: "rb_inv rb \<Longrightarrow> ring_buffer_count rb < rb_size rb"
  using rb_count_bound by (fastforce simp: ring_buffer_capacity_def rb_inv_def)

lemma rb_count_free: "rb_inv rb \<Longrightarrow> ring_buffer_count rb + ring_buffer_free rb = ring_buffer_capacity rb"
  using rb_count_bound by (simp add: ring_buffer_free_def)

lemma rb_count_0_iff: "rb_inv rb \<Longrightarrow> ring_buffer_count rb = 0 \<longleftrightarrow> rb_head rb = rb_tail rb"
  by (auto simp: ring_buffer_count_def rb_inv_def)

lemma rb_count_storage [simp]: "ring_buffer_count (rb\<lparr>storage := mem\<rparr>) = ring_buffer_count rb"
  by (simp add: ring_buffer_count_def)

lemma length_rb_list [simp]: "length (rb_list rb) = ring_buffer_count rb"
  by (simp add: rb_list_def)

lemma nth_rb_list: "i < ring_buffer_count rb \<Longrightarrow> rb_list rb ! i = storage rb ! rb_slot rb i"
  by (simp add: rb_list_def)

text \<open>Moving the tail forward by \<open>n\<close> bytes that are there, and the head by \<open>n\<close> slots that are free.\<close>

lemma rb_count_tail:
  assumes "rb_inv rb" and "n \<le> ring_buffer_count rb"
  shows "ring_buffer_count (rb\<lparr>rb_tail := (rb_tail rb + n) mod rb_size rb\<rparr>)
    = ring_buffer_count rb - n"
  using assms by (auto simp: ring_buffer_count_def rb_inv_def mod_wrap split: if_splits)

lemma rb_count_head:
  assumes "rb_inv rb" and "n \<le> ring_buffer_free rb"
  shows "ring_buffer_count (rb\<lparr>storage := mem, rb_head := (rb_head rb + n) mod rb_size rb\<rparr>)
    = ring_buffer_count rb + n"
  using assms
  by (auto simp: ring_buffer_count_def ring_buffer_free_def ring_buffer_capacity_def rb_inv_def
      mod_wrap split: if_splits)

lemma rb_list_tail:
  assumes inv: "rb_inv rb" and n: "n \<le> ring_buffer_count rb"
  shows "rb_list (rb\<lparr>rb_tail := (rb_tail rb + n) mod rb_size rb\<rparr>) = drop n (rb_list rb)"
proof (rule nth_equalityI)
  fix i assume "i < length (rb_list (rb\<lparr>rb_tail := (rb_tail rb + n) mod rb_size rb\<rparr>))"
  then have "i < ring_buffer_count rb - n"
    using assms by (simp add: rb_count_tail)
  then show "rb_list (rb\<lparr>rb_tail := (rb_tail rb + n) mod rb_size rb\<rparr>) ! i
      = drop n (rb_list rb) ! i"
    using assms by (simp add: nth_rb_list rb_count_tail rb_slot_def mod_simps add.assoc)
qed (use assms in \<open>simp add: rb_count_tail\<close>)

lemma rb_inv_tail: "rb_inv rb \<Longrightarrow> rb_inv (rb\<lparr>rb_tail := n mod rb_size rb\<rparr>)"
  by (auto simp: rb_inv_def)


lemma rb_slot_free_distinct:
  assumes "rb_inv rb" and "i < ring_buffer_count rb" and "j < ring_buffer_free rb"
  shows "rb_slot rb i \<noteq> (rb_head rb + j) mod rb_size rb"
  using assms
  by (auto simp: rb_slot_def ring_buffer_count_def ring_buffer_free_def ring_buffer_capacity_def
      rb_inv_def mod_wrap split: if_splits)

lemma rb_list_head:
  assumes inv: "rb_inv rb" and n: "length src \<le> ring_buffer_free rb"
    and new: "\<And>j. j < length src \<Longrightarrow> mem ! ((rb_head rb + j) mod rb_size rb) = src ! j"
    and old: "\<And>i. i < ring_buffer_count rb \<Longrightarrow> mem ! rb_slot rb i = storage rb ! rb_slot rb i"
  shows "rb_list (rb\<lparr>storage := mem, rb_head := (rb_head rb + length src) mod rb_size rb\<rparr>)
    = rb_list rb @ src" (is "rb_list ?rb' = _")
proof (rule nth_equalityI)
  have cnt: "ring_buffer_count ?rb' = ring_buffer_count rb + length src"
    using inv n by (rule rb_count_head)
  then show "length (rb_list ?rb') = length (rb_list rb @ src)" by simp
  fix i assume i: "i < length (rb_list ?rb')"
  then have nth: "rb_list ?rb' ! i = mem ! rb_slot rb i"
    by (simp add: nth_rb_list rb_slot_def)
  show "rb_list ?rb' ! i = (rb_list rb @ src) ! i"
  proof (cases "i < ring_buffer_count rb")
    case True
    then show ?thesis by (simp add: nth nth_append nth_rb_list old)
  next
    case False
    define j where "j = i - ring_buffer_count rb"
    with False i cnt have j: "j < length src" and i': "i = ring_buffer_count rb + j"
      by auto
    have "rb_slot rb i = (rb_head rb + j) mod rb_size rb"
      unfolding i' using rb_slot_count [OF inv] by (simp add: rb_slot_def mod_simps flip: add.assoc)
        (metis mod_add_left_eq)
    then have "rb_list ?rb' ! i = src ! j"
      using nth new [OF j] by simp
    then show ?thesis by (simp add: i' nth_append)
  qed
qed

text \<open>The two runs of a wrapping copy, read back slot by slot.\<close>

lemma two_run_copy_nth:
  assumes "head < n" and "n \<le> length mem" and "length src \<le> n" and "k < n"
    and "first = min (length src) (n - head)"
  shows "(if first < length src then blit 0 (drop first src) (blit head (take first src) mem)
          else blit head (take first src) mem) ! k
    = (if head \<le> k \<and> k < head + first then src ! (k - head)
       else if k < length src - first then src ! (first + k) else mem ! k)"
  using assms by (auto simp: nth_blit min_def split: if_splits)

lemma rb_inv_head:
  "rb_inv rb \<Longrightarrow> length mem = length (storage rb) \<Longrightarrow>
    rb_inv (rb\<lparr>storage := mem, rb_head := n mod rb_size rb\<rparr>)"
  by (auto simp: rb_inv_def)

subsection \<open>What each operation does to the list of bytes\<close>

lemma ring_buffer_init_spec:
  "ring_buffer_init mem sz = Some rb \<Longrightarrow> sz \<le> length (the mem) \<Longrightarrow>
    rb_inv rb \<and> rb_list rb = [] \<and> ring_buffer_capacity rb = sz - 1"
  by (auto simp: ring_buffer_init_def rb_inv_def rb_list_def ring_buffer_count_def
      ring_buffer_capacity_def split: option.splits if_splits)

lemma ring_buffer_write_spec:
  assumes inv: "rb_inv rb"
  obtains rb' where
    "ring_buffer_write rb (Some bytes) = Some (min (length bytes) (ring_buffer_free rb), rb')"
    "rb_inv rb'" "rb_size rb' = rb_size rb" "rb_tail rb' = rb_tail rb"
    "rb_list rb' = rb_list rb @ take (ring_buffer_free rb) bytes"
proof -
  define w where "w = min (length bytes) (ring_buffer_free rb)"
  show thesis
  proof (cases "w = 0")
    case True
    then have "take (ring_buffer_free rb) bytes = []" by (auto simp: w_def min_def split: if_splits)
    with True inv show thesis
      by (intro that [of rb]) (auto simp: ring_buffer_write_def w_def)
  next
    case False
    define src where "src = take w bytes"
    define first where "first = min w (rb_size rb - rb_head rb)"
    define mem where "mem = (if first < w
      then blit 0 (drop first src) (blit (rb_head rb) (take first src) (storage rb))
      else blit (rb_head rb) (take first src) (storage rb))"
    let ?rb' = "rb\<lparr>storage := mem, rb_head := (rb_head rb + w) mod rb_size rb\<rparr>"
    have src: "length src = w" "w \<le> ring_buffer_free rb" "src = take (ring_buffer_free rb) bytes"
      by (auto simp: src_def w_def min_def)
    have free: "w < rb_size rb"
      using src(2) inv by (auto simp: ring_buffer_free_def ring_buffer_capacity_def rb_inv_def)
    have run: "ring_buffer_write rb (Some bytes) = Some (w, ?rb')"
      using False
      by (simp add: ring_buffer_write_def Let_def advance_eq [OF inv] mem_def first_def
          src_def drop_take flip: w_def)
    have mem_len: "length mem = length (storage rb)"
      using inv free src(1) by (auto simp: mem_def first_def rb_inv_def)
    have nth: "mem ! k = (if rb_head rb \<le> k \<and> k < rb_head rb + first then src ! (k - rb_head rb)
        else if k < w - first then src ! (first + k) else storage rb ! k)" if "k < rb_size rb" for k
      unfolding mem_def src(1) [symmetric] using that inv free src(1)
      by (intro two_run_copy_nth [where n = "rb_size rb"]) (auto simp: rb_inv_def first_def)
    have new: "mem ! ((rb_head rb + j) mod rb_size rb) = src ! j" if "j < length src" for j
      using that inv free src(1) by (auto simp: nth rb_inv_def mod_wrap first_def)
    have old: "mem ! rb_slot rb i = storage rb ! rb_slot rb i" if "i < ring_buffer_count rb" for i
    proof -
      have apart: "rb_slot rb i \<noteq> (rb_head rb + j) mod rb_size rb" if "j < w" for j
        using inv \<open>i < _\<close> that src(2) by (intro rb_slot_free_distinct) auto
      have lt: "rb_slot rb i < rb_size rb" using inv by (auto simp: rb_slot_def rb_inv_def)
      have "\<not> (rb_head rb \<le> rb_slot rb i \<and> rb_slot rb i < rb_head rb + w)"
      proof
        assume h: "rb_head rb \<le> rb_slot rb i \<and> rb_slot rb i < rb_head rb + w"
        then have "rb_slot rb i - rb_head rb < w" by linarith
        from apart [OF this] h lt show False by simp
      qed
      then have "\<not> (rb_head rb \<le> rb_slot rb i \<and> rb_slot rb i < rb_head rb + first)"
        by (auto simp: first_def)
      moreover have "\<not> rb_slot rb i < w - first"
      proof
        assume h: "rb_slot rb i < w - first"
        then have "first = rb_size rb - rb_head rb" by (auto simp: first_def)
        with inv have eq: "rb_head rb + (first + rb_slot rb i) = rb_size rb + rb_slot rb i"
          by (simp add: rb_inv_def)
        have "(rb_head rb + (first + rb_slot rb i)) mod rb_size rb = rb_slot rb i"
          unfolding eq using lt by simp
        moreover from h have "first + rb_slot rb i < w" by linarith
        ultimately show False
          using lt apart [of "first + rb_slot rb i"] by simp
      qed
      ultimately show ?thesis by (simp only: nth [OF lt] if_False)
    qed
    from inv src(2) new old have "rb_list ?rb' = rb_list rb @ src"
      unfolding src(1) [symmetric] by (intro rb_list_head) auto
    with run mem_len inv src show thesis
      by (intro that [of ?rb']) (auto simp: w_def [symmetric] intro: rb_inv_head)
  qed
qed

lemma ring_buffer_push_spec:
  assumes inv: "rb_inv rb"
  obtains rb' where
    "ring_buffer_push rb byte = Some (\<not> ring_buffer_is_full rb, rb')"
    "rb_inv rb'" "rb_size rb' = rb_size rb" "rb_tail rb' = rb_tail rb"
    "rb_list rb' = (if ring_buffer_is_full rb then rb_list rb else rb_list rb @ [byte])"
proof (cases "ring_buffer_is_full rb")
  case True
  with inv have "(rb_head rb + 1) mod rb_size rb = rb_tail rb"
    by (auto simp: ring_buffer_is_full_def ring_buffer_free_def ring_buffer_count_def
        ring_buffer_capacity_def rb_inv_def mod_wrap split: if_splits)
  with True inv show thesis
    by (intro that [of rb]) (auto simp: ring_buffer_push_def advance_eq)
next
  case False
  let ?mem = "(storage rb)[rb_head rb := byte]"
  let ?rb' = "rb\<lparr>storage := ?mem, rb_head := (rb_head rb + 1) mod rb_size rb\<rparr>"
  from False have free: "length [byte] \<le> ring_buffer_free rb"
    by (simp add: ring_buffer_is_full_def Suc_leI)
  from False inv have ne: "(rb_head rb + 1) mod rb_size rb \<noteq> rb_tail rb"
    by (auto simp: ring_buffer_is_full_def ring_buffer_free_def ring_buffer_count_def
        ring_buffer_capacity_def rb_inv_def mod_wrap split: if_splits)
  have "rb_list ?rb' = rb_list rb @ [byte]"
  proof -
    have "rb_head rb < length (storage rb)" using inv by (simp add: rb_inv_def)
    moreover have "rb_head rb \<noteq> rb_slot rb i" if "i < ring_buffer_count rb" for i
      using rb_slot_free_distinct [OF inv that, of 0] free inv by (auto simp: rb_inv_def)
    moreover have "rb_head rb mod rb_size rb = rb_head rb" using inv by (simp add: rb_inv_def)
    ultimately show ?thesis
      using rb_list_head [OF inv free, of ?mem] by simp
  qed
  with False ne inv show thesis
    by (intro that [of ?rb']) (auto simp: ring_buffer_push_def advance_eq intro: rb_inv_head)
qed


lemma rb_list_nonempty:
  assumes "rb_inv rb" and "rb_head rb \<noteq> rb_tail rb"
  shows "rb_list rb = storage rb ! rb_tail rb # drop 1 (rb_list rb)"
proof -
  have "0 < ring_buffer_count rb" using assms by (metis rb_count_0_iff gr0I)
  moreover from this have "rb_list rb ! 0 = storage rb ! rb_tail rb"
    using assms(1) by (simp add: nth_rb_list rb_slot_def rb_inv_def)
  ultimately show ?thesis
    by (cases "rb_list rb") (auto simp flip: length_rb_list)
qed

lemma ring_buffer_peek_spec:
  assumes "rb_inv rb"
  shows "ring_buffer_peek rb = (case rb_list rb of [] \<Rightarrow> None | b # _ \<Rightarrow> Some b)"
proof (cases "rb_head rb = rb_tail rb")
  case True
  then show ?thesis
    by (simp add: ring_buffer_peek_def ring_buffer_is_empty_def rb_list_def ring_buffer_count_def)
next
  case False
  then show ?thesis
    by (subst rb_list_nonempty [OF assms False])
      (simp add: ring_buffer_peek_def ring_buffer_is_empty_def)
qed

lemma ring_buffer_peek_bytes_spec:
  assumes inv: "rb_inv rb"
  shows "ring_buffer_peek_bytes rb len = take len (rb_list rb)"
proof (cases "min len (ring_buffer_count rb) = 0")
  case True
  then show ?thesis by (auto simp: ring_buffer_peek_bytes_def rb_list_def min_def split: if_splits)
next
  case False
  define r where "r = min len (ring_buffer_count rb)"
  define first where "first = min r (rb_size rb - rb_tail rb)"
  have r: "r \<le> ring_buffer_count rb" "r < rb_size rb"
    using rb_count_lt [OF inv] by (auto simp: r_def)
  have fits: "rb_tail rb + first \<le> length (storage rb)" "r - first \<le> length (storage rb)"
    using inv r by (auto simp: first_def rb_inv_def)
  have eq: "ring_buffer_peek_bytes rb len = chunk (rb_tail rb) first (storage rb)
      @ (if first < r then chunk 0 (r - first) (storage rb) else [])"
    using False by (simp add: ring_buffer_peek_bytes_def Let_def r_def first_def)
  show ?thesis
  proof (rule nth_equalityI)
    show len: "length (ring_buffer_peek_bytes rb len) = length (take len (rb_list rb))"
      using fits r by (auto simp: eq first_def) (auto simp: r_def min.commute)
    fix i assume "i < length (ring_buffer_peek_bytes rb len)"
    then have i: "i < r" by (simp add: len) (simp add: r_def)
    have "ring_buffer_peek_bytes rb len ! i = storage rb ! rb_slot rb i"
      using i fits inv r by (auto simp: eq nth_append nth_chunk rb_slot_def rb_inv_def mod_wrap first_def
          add.commute)
    also have "\<dots> = take len (rb_list rb) ! i"
      using i r(1) by (simp add: nth_rb_list r_def)
    finally show "ring_buffer_peek_bytes rb len ! i = take len (rb_list rb) ! i" .
  qed
qed

lemma ring_buffer_discard_spec:
  assumes inv: "rb_inv rb"
  obtains rb' where "ring_buffer_discard rb len = Some (min len (ring_buffer_count rb), rb')"
    "rb_inv rb'" "rb_size rb' = rb_size rb" "rb_list rb' = drop len (rb_list rb)"
proof (cases "min len (ring_buffer_count rb) = 0")
  case True
  then have "drop len (rb_list rb) = rb_list rb"
    by (auto simp: min_def simp flip: length_rb_list split: if_splits)
  with True inv show thesis
    by (intro that [of rb]) (auto simp: ring_buffer_discard_def)
next
  case False
  let ?n = "min len (ring_buffer_count rb)"
  let ?rb' = "rb\<lparr>rb_tail := (rb_tail rb + ?n) mod rb_size rb\<rparr>"
  have "rb_list ?rb' = drop ?n (rb_list rb)"
    using inv by (rule rb_list_tail) simp
  also have "\<dots> = drop len (rb_list rb)" by (simp add: min_def)
  finally show thesis
    using False inv
    by (intro that [of ?rb'])
      (auto simp: ring_buffer_discard_def Let_def advance_eq intro: rb_inv_tail)
qed

lemma ring_buffer_read_spec:
  assumes inv: "rb_inv rb"
  obtains rb' where "ring_buffer_read rb len = Some (take len (rb_list rb), rb')"
    "rb_inv rb'" "rb_size rb' = rb_size rb" "rb_list rb' = drop len (rb_list rb)"
proof -
  obtain rb' where d: "ring_buffer_discard rb (length (take len (rb_list rb)))
      = Some (min (length (take len (rb_list rb))) (ring_buffer_count rb), rb')"
    and rb': "rb_inv rb'" "rb_size rb' = rb_size rb"
      "rb_list rb' = drop (length (take len (rb_list rb))) (rb_list rb)"
    using inv by (rule ring_buffer_discard_spec)
  have "ring_buffer_read rb len = Some (take len (rb_list rb), rb')"
    unfolding ring_buffer_read_def ring_buffer_peek_bytes_spec [OF inv] Let_def d by simp
  then show thesis
    using rb' by (intro that [of rb']) (auto simp: min_def)
qed

lemma ring_buffer_pop_spec:
  assumes inv: "rb_inv rb"
  obtains rb' where
    "ring_buffer_pop rb = Some (case rb_list rb of [] \<Rightarrow> None | b # _ \<Rightarrow> Some b, rb')"
    "rb_inv rb'" "rb_size rb' = rb_size rb" "rb_list rb' = drop 1 (rb_list rb)"
proof (cases "rb_head rb = rb_tail rb")
  case True
  with inv show thesis
    by (intro that [of rb]) (auto simp: ring_buffer_pop_def ring_buffer_is_empty_def rb_list_def
        ring_buffer_count_def)
next
  case False
  let ?rb' = "rb\<lparr>rb_tail := (rb_tail rb + 1) mod rb_size rb\<rparr>"
  from False inv have n: "1 \<le> ring_buffer_count rb"
    by (metis rb_count_0_iff less_one not_le)
  have "ring_buffer_pop rb = Some (ring_buffer_peek rb, ?rb')"
    using False inv by (simp add: ring_buffer_pop_def ring_buffer_peek_def
        ring_buffer_is_empty_def advance_eq Let_def)
  then show thesis
    using inv rb_list_tail [OF inv n]
    by (intro that [of ?rb']) (auto simp: ring_buffer_peek_spec intro: rb_inv_tail)
qed

lemma ring_buffer_clear_spec:
  "rb_inv rb \<Longrightarrow> rb_inv (ring_buffer_clear rb) \<and> rb_list (ring_buffer_clear rb) = []"
  by (simp add: ring_buffer_clear_def rb_inv_def rb_list_def ring_buffer_count_def)


subsection \<open>The whole interface against a queue\<close>

datatype fifo_request = Ask_push u8 | Ask_write "u8 list option" | Ask_peek | Ask_pop | Ask_peek_bytes nat | Ask_discard nat
  | Ask_read nat | Ask_clear | Ask_count | Ask_free | Ask_is_empty | Ask_is_full | Ask_capacity

datatype fifo_reply = Say_flag bool | Say_number nat | Say_byte "u8 option" | Say_bytes "u8 list" | Say_done

fun rb_call :: "fifo_request \<Rightarrow> ring_buffer_t \<Rightarrow> (fifo_reply \<times> ring_buffer_t) option" where
  "rb_call (Ask_push b) rb = map_option (\<lambda>(ok, rb). (Say_flag ok, rb)) (ring_buffer_push rb b)"
| "rb_call (Ask_write data) rb = map_option (\<lambda>(n, rb). (Say_number n, rb)) (ring_buffer_write rb data)"
| "rb_call Ask_peek rb = Some (Say_byte (ring_buffer_peek rb), rb)"
| "rb_call Ask_pop rb = map_option (\<lambda>(b, rb). (Say_byte b, rb)) (ring_buffer_pop rb)"
| "rb_call (Ask_peek_bytes n) rb = Some (Say_bytes (ring_buffer_peek_bytes rb n), rb)"
| "rb_call (Ask_discard n) rb = map_option (\<lambda>(m, rb). (Say_number m, rb)) (ring_buffer_discard rb n)"
| "rb_call (Ask_read n) rb = map_option (\<lambda>(bytes, rb). (Say_bytes bytes, rb)) (ring_buffer_read rb n)"
| "rb_call Ask_clear rb = Some (Say_done, ring_buffer_clear rb)"
| "rb_call Ask_count rb = Some (Say_number (ring_buffer_count rb), rb)"
| "rb_call Ask_free rb = Some (Say_number (ring_buffer_free rb), rb)"
| "rb_call Ask_is_empty rb = Some (Say_flag (ring_buffer_is_empty rb), rb)"
| "rb_call Ask_is_full rb = Some (Say_flag (ring_buffer_is_full rb), rb)"
| "rb_call Ask_capacity rb = Some (Say_number (ring_buffer_capacity rb), rb)"

text \<open>The same calls on a list that holds at most \<open>cap\<close> bytes.\<close>

fun fifo_call :: "nat \<Rightarrow> fifo_request \<Rightarrow> u8 list \<Rightarrow> fifo_reply \<times> u8 list" where
  "fifo_call cap (Ask_push b) q = (if length q < cap then (Say_flag True, q @ [b]) else (Say_flag False, q))"
| "fifo_call cap (Ask_write data) q =
     (case data of None \<Rightarrow> (Say_number 0, q)
      | Some bytes \<Rightarrow> (Say_number (min (length bytes) (cap - length q)), q @ take (cap - length q) bytes))"
| "fifo_call cap Ask_peek q = (Say_byte (case q of [] \<Rightarrow> None | b # _ \<Rightarrow> Some b), q)"
| "fifo_call cap Ask_pop q = (case q of [] \<Rightarrow> (Say_byte None, []) | b # rest \<Rightarrow> (Say_byte (Some b), rest))"
| "fifo_call cap (Ask_peek_bytes n) q = (Say_bytes (take n q), q)"
| "fifo_call cap (Ask_discard n) q = (Say_number (min n (length q)), drop n q)"
| "fifo_call cap (Ask_read n) q = (Say_bytes (take n q), drop n q)"
| "fifo_call cap Ask_clear q = (Say_done, [])"
| "fifo_call cap Ask_count q = (Say_number (length q), q)"
| "fifo_call cap Ask_free q = (Say_number (cap - length q), q)"
| "fifo_call cap Ask_is_empty q = (Say_flag (q = []), q)"
| "fifo_call cap Ask_is_full q = (Say_flag (length q = cap), q)"
| "fifo_call cap Ask_capacity q = (Say_number cap, q)"

fun rb_session :: "fifo_request list \<Rightarrow> ring_buffer_t \<Rightarrow> (fifo_reply list \<times> ring_buffer_t) option" where
  "rb_session [] rb = Some ([], rb)"
| "rb_session (call # calls) rb =
     (case rb_call call rb of
        None \<Rightarrow> None
      | Some (r, rb) \<Rightarrow> map_option (\<lambda>(rs, rb). (r # rs, rb)) (rb_session calls rb))"

fun fifo_session :: "nat \<Rightarrow> fifo_request list \<Rightarrow> u8 list \<Rightarrow> fifo_reply list \<times> u8 list" where
  "fifo_session cap [] q = ([], q)"
| "fifo_session cap (call # calls) q =
     (case fifo_call cap call q of (r, q) \<Rightarrow> (case fifo_session cap calls q of (rs, q) \<Rightarrow> (r # rs, q)))"

lemma rb_full_iff: "rb_inv rb \<Longrightarrow> ring_buffer_is_full rb \<longleftrightarrow> \<not> length (rb_list rb) < ring_buffer_capacity rb"
  using rb_count_bound [of rb] by (auto simp: ring_buffer_is_full_def ring_buffer_free_def)

lemma rb_call_spec:
  assumes inv: "rb_inv rb"
  shows "\<exists>rb'. rb_call call rb = Some (fst (fifo_call (ring_buffer_capacity rb) call (rb_list rb)), rb')
    \<and> rb_inv rb' \<and> rb_size rb' = rb_size rb \<and> rb_list rb' = snd (fifo_call (ring_buffer_capacity rb) call (rb_list rb))"
proof (cases call)
  case (Ask_push b)
  with rb_full_iff [OF inv] show ?thesis by (rule_tac ring_buffer_push_spec [OF inv, of b]) auto
next
  case (Ask_write data)
  show ?thesis
  proof (cases data)
    case None
    with Ask_write inv show ?thesis by (simp add: ring_buffer_write_def)
  next
    case (Some bytes)
    with Ask_write show ?thesis
      by (rule_tac ring_buffer_write_spec [OF inv, of bytes]) (simp add: ring_buffer_free_def)
  qed
next
  case Ask_pop
  show ?thesis
    by (rule ring_buffer_pop_spec [OF inv]) (auto simp: Ask_pop split: list.splits)
next
  case (Ask_discard n)
  then show ?thesis by (rule_tac ring_buffer_discard_spec [OF inv, of n]) simp
next
  case (Ask_read n)
  then show ?thesis by (rule_tac ring_buffer_read_spec [OF inv, of n]) simp
next
  case Ask_clear
  with ring_buffer_clear_spec [OF inv] show ?thesis by (simp add: ring_buffer_clear_def)
next
  case Ask_is_empty
  with inv show ?thesis
    by (auto simp: ring_buffer_is_empty_def simp flip: rb_count_0_iff length_rb_list)
next
  case Ask_is_full
  with inv rb_full_iff [OF inv] rb_count_bound [OF inv] show ?thesis by (auto simp: not_less)
qed (use inv in \<open>simp_all add: ring_buffer_peek_spec ring_buffer_peek_bytes_spec ring_buffer_free_def\<close>)

lemma rb_session_spec:
  "rb_inv rb \<Longrightarrow> \<exists>rb'. rb_session calls rb = Some (fst (fifo_session (ring_buffer_capacity rb) calls (rb_list rb)), rb')
    \<and> rb_inv rb' \<and> ring_buffer_capacity rb' = ring_buffer_capacity rb
    \<and> rb_list rb' = snd (fifo_session (ring_buffer_capacity rb) calls (rb_list rb))"
proof (induction calls arbitrary: rb)
  case Nil
  then show ?case by simp
next
  case (Cons call calls)
  obtain rb1 where one: "rb_call call rb = Some (fst (fifo_call (ring_buffer_capacity rb) call (rb_list rb)), rb1)"
      "rb_inv rb1" "rb_size rb1 = rb_size rb"
      "rb_list rb1 = snd (fifo_call (ring_buffer_capacity rb) call (rb_list rb))"
    using rb_call_spec [OF Cons.prems, of call] by blast
  have "ring_buffer_capacity rb1 = ring_buffer_capacity rb" using one(3) by (simp add: ring_buffer_capacity_def)
  with Cons.IH [OF one(2)] one show ?case by (auto split: prod.splits)
qed

subsection \<open>The contract of a byte FIFO\<close>

text \<open>
  What the components that own a ring buffer (the TCP and Bluetooth streams, the serial
  consoles) rely on. \<open>contents\<close> is the bytes in the FIFO, oldest first; \<open>room\<close> is how many
  more fit. Writing accepts as much as fits, and only from the front of what is offered.
\<close>

locale byte_fifo =
  fixes inv :: "'b \<Rightarrow> bool"
    and contents :: "'b \<Rightarrow> u8 list"
    and room :: "'b \<Rightarrow> nat"
    and enq :: "'b \<Rightarrow> u8 list option \<Rightarrow> (nat \<times> 'b) option"
    and peek :: "'b \<Rightarrow> nat \<Rightarrow> u8 list"
    and drop_front :: "'b \<Rightarrow> nat \<Rightarrow> (nat \<times> 'b) option"
  assumes enq_ok: "inv b \<Longrightarrow> \<exists>b'. enq b (Some bs) = Some (min (length bs) (room b), b') \<and> inv b'
      \<and> contents b' = contents b @ take (room b) bs
      \<and> room b' = room b - min (length bs) (room b)"
    and peek_ok: "inv b \<Longrightarrow> peek b n = take n (contents b)"
    and drop_ok: "inv b \<Longrightarrow> \<exists>b'. drop_front b n = Some (min n (length (contents b)), b') \<and> inv b'
      \<and> contents b' = drop n (contents b)
      \<and> room b' = room b + min n (length (contents b))"
begin

text \<open>Peek, offer, and discard what was taken: the consumer loses and reorders nothing.\<close>

lemma peek_offer_discard:
  assumes "inv b" and "k \<le> length (peek b n)"
  shows "\<exists>b'. drop_front b k = Some (k, b') \<and> inv b' \<and> take k (peek b n) @ contents b' = contents b"
proof -
  from assms have k: "k \<le> n" "k \<le> length (contents b)" by (simp_all add: peek_ok)
  obtain b' where "drop_front b k = Some (min k (length (contents b)), b')" "inv b'"
      "contents b' = drop k (contents b)"
    using drop_ok [OF assms(1)] by blast
  with k show ?thesis
    by (auto simp: peek_ok [OF assms(1)] min_def)
qed

text \<open>Everything accepted comes out again, after what was there before.\<close>

lemma write_then_peek:
  assumes "inv b" and "enq b (Some bs) = Some (k, b')"
  shows "peek b' (length (contents b) + k) = contents b @ take k bs \<and> k \<le> length bs
    \<and> (k < length bs \<longrightarrow> room b' = 0)"
  using enq_ok [OF assms(1), of bs] assms by (auto simp: peek_ok min_def)

text \<open>A sequence of writes accepts a prefix of the stream only while there is room, and keeps order.\<close>

lemma write_twice:
  assumes "inv b" and "enq b (Some xs) = Some (length xs, b')" and "enq b' (Some ys) = Some (k, b'')"
  shows "contents b'' = contents b @ xs @ take k ys"
  using enq_ok [OF assms(1), of xs] enq_ok [of b' ys] assms by (auto simp: min_def split: if_splits)

end

interpretation rb: byte_fifo rb_inv rb_list ring_buffer_free ring_buffer_write
  ring_buffer_peek_bytes ring_buffer_discard
proof unfold_locales
  fix b bs assume inv: "rb_inv b"
  obtain b' where *: "ring_buffer_write b (Some bs) = Some (min (length bs) (ring_buffer_free b), b')"
      "rb_inv b'" "rb_size b' = rb_size b" "rb_list b' = rb_list b @ take (ring_buffer_free b) bs"
    using inv by (rule ring_buffer_write_spec)
  have "ring_buffer_count b' = ring_buffer_count b + min (length bs) (ring_buffer_free b)"
    using *(4) by (metis length_append length_rb_list length_take min.commute)
  with * inv show "\<exists>b'. ring_buffer_write b (Some bs) = Some (min (length bs) (ring_buffer_free b), b')
      \<and> rb_inv b' \<and> rb_list b' = rb_list b @ take (ring_buffer_free b) bs
      \<and> ring_buffer_free b' = ring_buffer_free b - min (length bs) (ring_buffer_free b)"
    by (intro exI [of _ b']) (simp add: ring_buffer_free_def ring_buffer_capacity_def)
next
  fix b n assume "rb_inv b"
  then show "ring_buffer_peek_bytes b n = take n (rb_list b)" by (rule ring_buffer_peek_bytes_spec)
next
  fix b n assume inv: "rb_inv b"
  obtain b' where *: "ring_buffer_discard b n = Some (min n (ring_buffer_count b), b')"
      "rb_inv b'" "rb_size b' = rb_size b" "rb_list b' = drop n (rb_list b)"
    using inv by (rule ring_buffer_discard_spec)
  have "ring_buffer_count b' = ring_buffer_count b - n"
    using *(4) by (metis length_drop length_rb_list)
  with * rb_count_bound [OF inv] show "\<exists>b'. ring_buffer_discard b n = Some (min n (length (rb_list b)), b')
      \<and> rb_inv b' \<and> rb_list b' = drop n (rb_list b)
      \<and> ring_buffer_free b' = ring_buffer_free b + min n (length (rb_list b))"
    by (intro exI [of _ b'])
      (auto simp: ring_buffer_free_def ring_buffer_capacity_def min_def)
qed


subsection \<open>One producer and one consumer, interleaved\<close>

text \<open>
  The header of the component promises that one producer and one consumer on one core need
  no lock. Push and pop are split here at their accesses to the shared fields: the test of
  the indices, the copy of the byte, and the store that publishes the index. The steps of
  the two sides interleave in any order. \<open>sent\<close> and \<open>received\<close> are history: what pushes have
  published and what pops have returned.
\<close>

datatype producer_pc = PIdle | PChecked u8 nat nat | PStored u8 nat

datatype consumer_pc = CIdle | CChecked nat | CRead nat u8

record spsc =
  shared :: ring_buffer_t
  producer :: producer_pc
  consumer :: consumer_pc
  sent :: "u8 list"
  received :: "u8 list"

inductive spsc_step :: "spsc \<Rightarrow> spsc \<Rightarrow> bool" where
  push_check: "producer s = PIdle \<Longrightarrow> advance (shared s) (rb_head (shared s)) 1 = Some n \<Longrightarrow>
     n \<noteq> rb_tail (shared s) \<Longrightarrow>
     spsc_step s (s\<lparr>producer := PChecked b (rb_head (shared s)) n\<rparr>)"
| push_store: "producer s = PChecked b h n \<Longrightarrow>
     spsc_step s (s\<lparr>shared := (shared s)\<lparr>storage := (storage (shared s))[h := b]\<rparr>,
                    producer := PStored b n\<rparr>)"
| push_publish: "producer s = PStored b n \<Longrightarrow>
     spsc_step s (s\<lparr>shared := (shared s)\<lparr>rb_head := n\<rparr>, producer := PIdle,
                    sent := sent s @ [b]\<rparr>)"
| pop_check: "consumer s = CIdle \<Longrightarrow> \<not> ring_buffer_is_empty (shared s) \<Longrightarrow>
     spsc_step s (s\<lparr>consumer := CChecked (rb_tail (shared s))\<rparr>)"
| pop_read: "consumer s = CChecked t \<Longrightarrow>
     spsc_step s (s\<lparr>consumer := CRead t (storage (shared s) ! t)\<rparr>)"
| pop_publish: "consumer s = CRead t v \<Longrightarrow> advance (shared s) t 1 = Some n \<Longrightarrow>
     spsc_step s (s\<lparr>shared := (shared s)\<lparr>rb_tail := n\<rparr>, consumer := CIdle,
                    received := received s @ [v]\<rparr>)"

inductive_cases spsc_step_cases: "spsc_step s t"

definition spsc_start :: "ring_buffer_t \<Rightarrow> spsc" where
  "spsc_start rb = \<lparr>shared = rb, producer = PIdle, consumer = CIdle, sent = [], received = []\<rparr>"

inductive spsc_reachable :: "ring_buffer_t \<Rightarrow> spsc \<Rightarrow> bool" for rb where
  spsc_init: "spsc_reachable rb (spsc_start rb)"
| spsc_next: "spsc_reachable rb s \<Longrightarrow> spsc_step s t \<Longrightarrow> spsc_reachable rb t"

fun producer_ok :: "ring_buffer_t \<Rightarrow> producer_pc \<Rightarrow> bool" where
  "producer_ok rb PIdle \<longleftrightarrow> True"
| "producer_ok rb (PChecked b h n) \<longleftrightarrow>
     h = rb_head rb \<and> n = (rb_head rb + 1) mod rb_size rb \<and> n \<noteq> rb_tail rb"
| "producer_ok rb (PStored b n) \<longleftrightarrow>
     n = (rb_head rb + 1) mod rb_size rb \<and> n \<noteq> rb_tail rb \<and> storage rb ! rb_head rb = b"

fun consumer_ok :: "ring_buffer_t \<Rightarrow> consumer_pc \<Rightarrow> bool" where
  "consumer_ok rb CIdle \<longleftrightarrow> True"
| "consumer_ok rb (CChecked t) \<longleftrightarrow> t = rb_tail rb \<and> rb_head rb \<noteq> rb_tail rb"
| "consumer_ok rb (CRead t v) \<longleftrightarrow>
     t = rb_tail rb \<and> rb_head rb \<noteq> rb_tail rb \<and> v = storage rb ! rb_tail rb"

definition spsc_inv :: "spsc \<Rightarrow> bool" where
  "spsc_inv s \<longleftrightarrow> rb_inv (shared s) \<and> sent s = received s @ rb_list (shared s)
     \<and> producer_ok (shared s) (producer s) \<and> consumer_ok (shared s) (consumer s)"

lemma not_full_free:
  "rb_inv rb \<Longrightarrow> (rb_head rb + 1) mod rb_size rb \<noteq> rb_tail rb \<Longrightarrow> 1 \<le> ring_buffer_free rb"
  by (auto simp: ring_buffer_free_def ring_buffer_count_def ring_buffer_capacity_def rb_inv_def
      mod_wrap split: if_splits)

lemma rb_list_store_free:
  assumes "rb_inv rb" and "1 \<le> ring_buffer_free rb"
  shows "rb_list (rb\<lparr>storage := (storage rb)[rb_head rb := b]\<rparr>) = rb_list rb"
proof (rule nth_equalityI)
  show "length (rb_list (rb\<lparr>storage := (storage rb)[rb_head rb := b]\<rparr>)) = length (rb_list rb)"
    by simp
  fix i assume "i < length (rb_list (rb\<lparr>storage := (storage rb)[rb_head rb := b]\<rparr>))"
  then have i: "i < ring_buffer_count rb" by simp
  have "rb_slot rb i \<noteq> rb_head rb"
    using rb_slot_free_distinct [OF assms(1) i, of 0] assms by (simp add: rb_inv_def)
  with i show "rb_list (rb\<lparr>storage := (storage rb)[rb_head rb := b]\<rparr>) ! i = rb_list rb ! i"
    by (simp add: rb_list_def rb_slot_def)
qed

lemma rb_list_publish:
  assumes "rb_inv rb" and "(rb_head rb + 1) mod rb_size rb \<noteq> rb_tail rb"
  shows "rb_list (rb\<lparr>rb_head := (rb_head rb + 1) mod rb_size rb\<rparr>)
    = rb_list rb @ [storage rb ! rb_head rb]"
  using rb_list_head [OF assms(1), of "[storage rb ! rb_head rb]" "storage rb"]
    not_full_free [OF assms] assms(1) by (simp add: rb_inv_def)


lemma spsc_step_inv:
  assumes "spsc_step s t" and "spsc_inv s"
  shows "spsc_inv t"
  using assms
proof (induction rule: spsc_step.induct)
  case (push_check s n b)
  then show ?case by (auto simp: spsc_inv_def advance_eq)
next
  case (push_store s b h n)
  let ?rb = "shared s"
  from push_store have inv: "rb_inv ?rb" and h: "h = rb_head ?rb"
    and n: "n = (rb_head ?rb + 1) mod rb_size ?rb" "n \<noteq> rb_tail ?rb"
    by (auto simp: spsc_inv_def)
  have "rb_list (?rb\<lparr>storage := (storage ?rb)[h := b]\<rparr>) = rb_list ?rb"
    unfolding h using inv n by (intro rb_list_store_free not_full_free) auto
  moreover have "consumer_ok (?rb\<lparr>storage := (storage ?rb)[h := b]\<rparr>) (consumer s)"
    using push_store by (cases "consumer s") (auto simp: spsc_inv_def h)
  ultimately show ?case
    using push_store n h by (auto simp: spsc_inv_def rb_inv_def)
next
  case (push_publish s b n)
  let ?rb = "shared s"
  from push_publish have inv: "rb_inv ?rb" and b: "storage ?rb ! rb_head ?rb = b"
    and n: "n = (rb_head ?rb + 1) mod rb_size ?rb" "(rb_head ?rb + 1) mod rb_size ?rb \<noteq> rb_tail ?rb"
    by (auto simp: spsc_inv_def)
  have "consumer_ok (?rb\<lparr>rb_head := n\<rparr>) (consumer s)"
    using push_publish n by (cases "consumer s") (auto simp: spsc_inv_def)
  with push_publish rb_list_publish [OF inv n(2)] show ?case
    by (auto simp: spsc_inv_def n b rb_inv_def)
next
  case (pop_check s)
  then show ?case by (auto simp: spsc_inv_def ring_buffer_is_empty_def)
next
  case (pop_read s t)
  then show ?case by (auto simp: spsc_inv_def)
next
  case (pop_publish s t v n)
  let ?rb = "shared s"
  from pop_publish have inv: "rb_inv ?rb" and ne: "rb_head ?rb \<noteq> rb_tail ?rb"
    and v: "v = storage ?rb ! rb_tail ?rb" and n: "n = (rb_tail ?rb + 1) mod rb_size ?rb"
    by (auto simp: spsc_inv_def advance_eq)
  have "1 \<le> ring_buffer_count ?rb"
    using rb_count_0_iff [OF inv] ne by simp
  then have "rb_list (?rb\<lparr>rb_tail := n\<rparr>) = drop 1 (rb_list ?rb)"
    unfolding n by (rule rb_list_tail [OF inv])
  then have "rb_list ?rb = v # rb_list (?rb\<lparr>rb_tail := n\<rparr>)"
    using rb_list_nonempty [OF inv ne] by (simp add: v)
  moreover have "producer_ok (?rb\<lparr>rb_tail := n\<rparr>) (producer s)"
    using pop_publish inv ne by (cases "producer s")
      (auto simp: spsc_inv_def n rb_inv_def mod_wrap split: if_splits)
  ultimately show ?case
    using pop_publish inv by (simp add: spsc_inv_def n rb_inv_tail)
qed

lemma spsc_reachable_inv:
  assumes "spsc_reachable rb s" and "rb_inv rb" and "rb_list rb = []"
  shows "spsc_inv s"
  using assms
  by (induction rule: spsc_reachable.induct) (auto simp: spsc_inv_def spsc_start_def spsc_step_inv
      dest: spsc_step_inv [unfolded spsc_inv_def])

text \<open>The three producer steps taken in a row are the code's push.\<close>

lemma spsc_push_alone:
  assumes "ring_buffer_push (shared s) b = Some (True, rb')" and "producer s = PIdle"
  shows "spsc_step\<^sup>*\<^sup>* s (s\<lparr>shared := rb', sent := sent s @ [b]\<rparr>)"
proof -
  from assms(1) obtain n where n: "advance (shared s) (rb_head (shared s)) 1 = Some n"
    "n \<noteq> rb_tail (shared s)" and
    rb': "rb' = (shared s)\<lparr>storage := (storage (shared s))[rb_head (shared s) := b], rb_head := n\<rparr>"
    by (auto simp: ring_buffer_push_def split: option.splits if_splits)
  let ?s1 = "s\<lparr>producer := PChecked b (rb_head (shared s)) n\<rparr>"
  let ?s2 = "?s1\<lparr>shared := (shared ?s1)\<lparr>storage := (storage (shared ?s1))[rb_head (shared s) := b]\<rparr>,
    producer := PStored b n\<rparr>"
  have a: "spsc_step s ?s1" by (rule push_check [OF assms(2) n])
  have b: "spsc_step ?s1 ?s2" by (rule push_store) simp
  have c: "spsc_step ?s2 (?s2\<lparr>shared := (shared ?s2)\<lparr>rb_head := n\<rparr>, producer := PIdle,
    sent := sent ?s2 @ [b]\<rparr>)" (is "spsc_step _ ?s3")
    by (rule push_publish) simp
  have "spsc_step\<^sup>*\<^sup>* s ?s3"
    by (rule converse_rtranclp_into_rtranclp [OF a converse_rtranclp_into_rtranclp [OF b
          r_into_rtranclp [of spsc_step, OF c]]])
  moreover have "s\<lparr>shared := rb', sent := sent s @ [b]\<rparr> = ?s3"
    by (rule spsc.equality) (simp_all add: rb' assms(2))
  ultimately show ?thesis by (simp only:)
qed

subsection \<open>Properties\<close>

text \<open>C5: the ring buffer is a bounded byte FIFO. A buffer is made exactly when there is storage of at least two
  bytes, and it is then empty and holds one byte fewer than its storage. From any well-formed buffer, any sequence of
  calls of any of its operations returns, gives the replies that a queue of that capacity, kept as a plain list, gives
  to the same calls, and leaves a well-formed buffer with that queue in it.\<close>

theorem ring_buffer_fifo:
  assumes "rb_inv rb"
  shows "(\<exists>rb'. rb_session calls rb = Some (fst (fifo_session (ring_buffer_capacity rb) calls (rb_list rb)), rb')
        \<and> rb_inv rb' \<and> ring_buffer_capacity rb' = ring_buffer_capacity rb
        \<and> rb_list rb' = snd (fifo_session (ring_buffer_capacity rb) calls (rb_list rb)))
    \<and> (\<forall>mem sz. (ring_buffer_init mem sz = None \<longleftrightarrow> mem = None \<or> sz < 2)
        \<and> (\<forall>made. ring_buffer_init mem sz = Some made \<and> sz \<le> length (the mem) \<longrightarrow>
              rb_inv made \<and> rb_list made = [] \<and> ring_buffer_capacity made = sz - 1))"
proof (intro conjI allI)
  fix mem :: "u8 list option" and sz :: nat
  show "ring_buffer_init mem sz = None \<longleftrightarrow> mem = None \<or> sz < 2"
    by (cases mem) (simp_all add: ring_buffer_init_def)
  fix made
  show "ring_buffer_init mem sz = Some made \<and> sz \<le> length (the mem) \<longrightarrow>
      rb_inv made \<and> rb_list made = [] \<and> ring_buffer_capacity made = sz - 1"
    using ring_buffer_init_spec [of mem sz made] by blast
qed (rule rb_session_spec [OF assms])

theorem ring_buffer_fifo_witness:
  "\<exists>rb'. rb_session [Ask_push 1, Ask_push 2, Ask_pop, Ask_count]
      \<lparr>storage = [7, 8, 9, 10], rb_size = 4, rb_head = 1, rb_tail = 3\<rparr>
     = Some ([Say_flag True, Say_flag False, Say_byte (Some 10), Say_number 2], rb') \<and> rb_list rb' = [7, 1]"
proof -
  let ?rb = "\<lparr>storage = [7, 8, 9, 10], rb_size = 4, rb_head = 1, rb_tail = 3\<rparr>"
  have "rb_inv ?rb" by (simp add: rb_inv_def)
  moreover have "ring_buffer_capacity ?rb = 3" "rb_list ?rb = [10, 7]"
    by (simp_all add: ring_buffer_capacity_def ring_buffer_count_def rb_list_def rb_slot_def upt_conv_Cons)
  ultimately show ?thesis
    using ring_buffer_fifo [of ?rb "[Ask_push 1, Ask_push 2, Ask_pop, Ask_count]"] by auto
qed

text \<open>A partial acceptance loses nothing. Say_bytes peeked from the front and offered to
  something that takes only the first \<open>k\<close> of them are still in the buffer, in order, after
  \<open>ring_buffer_discard\<close> of those \<open>k\<close>.\<close>

theorem ring_buffer_peek_offer_discard:
  assumes "rb_inv rb" and "k \<le> length (ring_buffer_peek_bytes rb n)"
  shows "\<exists>rb'. ring_buffer_discard rb k = Some (k, rb') \<and> rb_inv rb'
    \<and> take k (ring_buffer_peek_bytes rb n) @ rb_list rb' = rb_list rb"
  using assms by (rule rb.peek_offer_discard)

theorem ring_buffer_peek_offer_discard_witness:
  "\<exists>rb'. ring_buffer_discard \<lparr>storage = [7, 8, 9, 10], rb_size = 4, rb_head = 1, rb_tail = 2\<rparr> 2
     = Some (2, rb')"
proof -
  let ?rb = "\<lparr>storage = [7, 8, 9, 10], rb_size = 4, rb_head = 1, rb_tail = 2\<rparr>"
  have "rb_inv ?rb" by (simp add: rb_inv_def)
  moreover have "2 \<le> length (ring_buffer_peek_bytes ?rb 3)"
    by (simp add: ring_buffer_peek_bytes_def ring_buffer_count_def chunk_def)
  ultimately show ?thesis
    using ring_buffer_peek_offer_discard [of ?rb 2 3] by blast
qed

text \<open>C6: lock-free use by one producer and one consumer is safe. However the steps of
  pushes and pops interleave, the bytes popped so far followed by the bytes in the buffer are
  exactly the bytes pushed so far: none lost, duplicated, damaged or reordered.\<close>

theorem spsc_exchange:
  assumes "ring_buffer_init (Some mem) sz = Some rb" and "sz \<le> length mem"
    and "spsc_reachable rb s"
  shows "sent s = received s @ rb_list (shared s) \<and> rb_inv (shared s)"
  using spsc_reachable_inv [OF assms(3)] ring_buffer_init_spec [OF assms(1)] assms(2)
  by (simp add: spsc_inv_def)

theorem spsc_exchange_witness:
  "\<exists>rb s. ring_buffer_init (Some [0, 0]) 2 = Some rb \<and> spsc_reachable rb s
     \<and> sent s = [42] \<and> rb_list (shared s) = [42]"
proof -
  define rb where "rb = \<lparr>storage = [0, 0 :: u8], rb_size = 2, rb_head = 0, rb_tail = 0\<rparr>"
  have init: "ring_buffer_init (Some [0, 0]) 2 = Some rb"
    by (simp add: ring_buffer_init_def rb_def)
  have push: "ring_buffer_push (shared (spsc_start rb)) 42 = Some (True, rb\<lparr>storage := [42, 0], rb_head := 1\<rparr>)"
    by (simp add: ring_buffer_push_def spsc_start_def rb_def advance_def advance_loop.simps)
  define s where "s = (spsc_start rb)\<lparr>shared := rb\<lparr>storage := [42, 0], rb_head := 1\<rparr>, sent := [42]\<rparr>"
  have "spsc_step\<^sup>*\<^sup>* (spsc_start rb) s"
    using spsc_push_alone [OF push] by (simp add: spsc_start_def s_def)
  then have reach: "spsc_reachable rb s"
    by (induction rule: rtranclp_induct) (auto intro: spsc_reachable.intros)
  have "sent s = received s @ rb_list (shared s) \<and> rb_inv (shared s)"
    using spsc_exchange [OF init _ reach] by simp
  then have "rb_list (shared s) = [42]" by (simp add: s_def spsc_start_def)
  with init reach show ?thesis by (intro exI [of _ rb] exI [of _ s]) (simp add: s_def)
qed

end
