(* ===== verification/Crc.thy ===== *)
theory Crc
  imports Prelude
begin

text \<open>
  Model of \<open>components/crc\<close>: the CRC-32 of IEEE 802.3 (reflected) and CRC-16/CCITT-FALSE, each
  with the running register of the incremental interface and the one-shot function. The
  inner loops are \<open>funpow\<close> of one bit step, the outer loops folds over the bytes.
  The lemmas show that the bit steps are bijections of the register, that the incremental
  interface does not depend on how the data is cut, and that damage confined to any four
  consecutive bytes is always detected.
\<close>

subsection \<open>CRC-32\<close>

definition CRC32_INITIAL :: u32 where
  "CRC32_INITIAL = 0xFFFFFFFF"

definition crc32_begin :: u32 where
  "crc32_begin = CRC32_INITIAL"

definition crc32_bit :: "u32 \<Rightarrow> u32" where
  "crc32_bit s = (if s AND 1 \<noteq> 0 then drop_bit 1 s XOR 0xEDB88320 else drop_bit 1 s)"

definition crc32_byte :: "u32 \<Rightarrow> u8 \<Rightarrow> u32" where
  "crc32_byte s b = (crc32_bit ^^ 8) (s XOR ucast b)"

text \<open>\<open>None\<close> is a \<open>NULL\<close> data pointer.\<close>

fun crc32_update :: "u32 \<Rightarrow> u8 list option \<Rightarrow> u32" where
  "crc32_update s None = s"
| "crc32_update s (Some bytes) = foldl crc32_byte s bytes"

definition crc32_end :: "u32 \<Rightarrow> u32" where
  "crc32_end s = s XOR 0xFFFFFFFF"

definition crc32 :: "u8 list option \<Rightarrow> u32" where
  "crc32 data = crc32_end (crc32_update crc32_begin data)"

subsection \<open>CRC-16/CCITT-FALSE\<close>

definition CRC16_CCITT_INITIAL :: u16 where
  "CRC16_CCITT_INITIAL = 0xFFFF"

definition crc16_ccitt_begin :: u16 where
  "crc16_ccitt_begin = CRC16_CCITT_INITIAL"

definition crc16_bit :: "u16 \<Rightarrow> u16" where
  "crc16_bit s = (if s AND 0x8000 \<noteq> 0 then push_bit 1 s XOR 0x1021 else push_bit 1 s)"

definition crc16_byte :: "u16 \<Rightarrow> u8 \<Rightarrow> u16" where
  "crc16_byte s b = (crc16_bit ^^ 8) (s XOR push_bit 8 (ucast b))"

fun crc16_ccitt_update :: "u16 \<Rightarrow> u8 list option \<Rightarrow> u16" where
  "crc16_ccitt_update s None = s"
| "crc16_ccitt_update s (Some bytes) = foldl crc16_byte s bytes"

definition crc16_ccitt_end :: "u16 \<Rightarrow> u16" where
  "crc16_ccitt_end s = s"

definition crc16_ccitt :: "u8 list option \<Rightarrow> u16" where
  "crc16_ccitt data = crc16_ccitt_end (crc16_ccitt_update crc16_ccitt_begin data)"

subsection \<open>The bit step is injective\<close>

lemma bit_crc32_bit_31: "bit (crc32_bit s) 31 = bit s 0"
  by (auto simp: crc32_bit_def bit_simps word_and_1_iff bit_word_beyond)

lemma inj_crc32_bit: "inj crc32_bit"
proof (rule injI)
  fix x y assume eq: "crc32_bit x = crc32_bit y"
  then have low: "bit x 0 = bit y 0"
    using bit_crc32_bit_31 by metis
  then have "(x AND 1 \<noteq> 0) = (y AND 1 \<noteq> 0)"
    by (simp only: word_and_1_iff)
  with eq have "drop_bit 1 x = drop_bit 1 y"
    by (auto simp: crc32_bit_def split: if_splits)
  then have "bit x (Suc n) = bit y (Suc n)" for n
    by (metis bit_drop_bit_eq plus_1_eq_Suc comp_apply)
  with low show "x = y"
    by (intro bit_word_eqI) (metis not0_implies_Suc)
qed

lemma inj_crc32_bits: "inj (crc32_bit ^^ n)"
  by (induction n) (auto simp: inj_def inj_crc32_bit [THEN inj_eq])


lemma inj_crc32_byte_state: "crc32_byte s b = crc32_byte t b \<longleftrightarrow> s = t"
  by (simp add: crc32_byte_def inj_crc32_bits [THEN inj_eq])

lemma foldl_crc32_byte_inj:
  "foldl crc32_byte s bs = foldl crc32_byte t bs \<longleftrightarrow> s = t"
  by (induction bs arbitrary: s t) (auto simp: inj_crc32_byte_state)

subsection \<open>Four bytes enter the register as one word\<close>

text \<open>
  A bit of the data that enters the register late could as well have entered early, shifted
  to where the register will have moved by then.
\<close>

lemma crc32_bit_xor: "\<not> bit y 0 \<Longrightarrow> crc32_bit (x XOR y) = crc32_bit x XOR drop_bit 1 y"
  by (auto simp: crc32_bit_def word_and_1_iff bit_simps intro!: bit_word_eqI)

lemma crc32_bits_xor:
  "(\<And>i. i < n \<Longrightarrow> \<not> bit y i) \<Longrightarrow> (crc32_bit ^^ n) (x XOR y) = (crc32_bit ^^ n) x XOR drop_bit n y"
proof (induction n)
  case 0
  then show ?case by simp
next
  case (Suc n)
  then have "(crc32_bit ^^ n) (x XOR y) = (crc32_bit ^^ n) x XOR drop_bit n y"
    by simp
  moreover have "\<not> bit (drop_bit n y) 0"
    using Suc.prems [of n] by (simp add: bit_simps)
  ultimately show ?case
    by (simp add: crc32_bit_xor)
qed

lemma crc32_bits_late_byte:
  fixes b :: u8
  assumes "n \<le> 24"
  shows "(crc32_bit ^^ n) x XOR ucast b = (crc32_bit ^^ n) (x XOR push_bit n (ucast b))"
proof -
  have "drop_bit n (push_bit n (ucast b :: u32)) = ucast b"
    using assms by (intro bit_word_eqI) (auto simp: bit_simps bit_word_beyond dest: bit_imp_le_length)
  moreover have "(crc32_bit ^^ n) (x XOR push_bit n (ucast b))
      = (crc32_bit ^^ n) x XOR drop_bit n (push_bit n (ucast b))"
    by (rule crc32_bits_xor) (simp add: bit_simps)
  ultimately show ?thesis by simp
qed

lemma crc32_four_bytes:
  "foldl crc32_byte s [a, b, c, d] = (crc32_bit ^^ 32) (s XOR of_le32 [a, b, c, d])"
proof -
  have join: "(crc32_bit ^^ 8) ((crc32_bit ^^ n) x) = (crc32_bit ^^ (8 + n)) x" for n x
    by (simp only: funpow_add o_apply)
  have word: "of_le32 [a, b, c, d] = ucast a XOR push_bit 8 (ucast b)
      XOR push_bit 16 (ucast c) XOR push_bit 24 (ucast d)"
  proof (rule bit_word_eqI)
    fix n assume "n < LENGTH(32)"
    then consider "n < 8" | "8 \<le> n" "n < 16" | "16 \<le> n" "n < 24" | "24 \<le> n" "n < 32"
      by fastforce
    then show "bit (of_le32 [a, b, c, d]) n = bit (ucast a XOR push_bit 8 (ucast b)
      XOR push_bit 16 (ucast c) XOR push_bit 24 (ucast d) :: u32) n"
      by cases (auto simp: of_le32_def bit_simps bit_word_beyond)
  qed
  have "foldl crc32_byte s [a, b, c, d] = (crc32_bit ^^ 8) ((crc32_bit ^^ 8) ((crc32_bit ^^ 8)
      ((crc32_bit ^^ 8) (s XOR ucast a) XOR ucast b) XOR ucast c) XOR ucast d)"
    by (simp only: foldl.simps crc32_byte_def)
  also have "\<dots> = (crc32_bit ^^ (8 + 24)) (s XOR ucast a XOR push_bit 8 (ucast b)
      XOR push_bit 16 (ucast c) XOR push_bit 24 (ucast d))"
    by (simp add: crc32_bits_late_byte join xor.assoc)
  finally show ?thesis
    by (simp add: word xor.assoc)
qed

lemma crc32_four_bytes_inj:
  assumes "length xs = 4" and "length ys = 4"
    and "foldl crc32_byte s xs = foldl crc32_byte s ys"
  shows "xs = ys"
proof -
  have "foldl crc32_byte s bs = (crc32_bit ^^ 32) (s XOR of_le32 bs)" if "length bs = 4" for bs
    using that by (elim length_4_cases) (simp only: crc32_four_bytes)
  with assms have "s XOR of_le32 xs = s XOR of_le32 ys"
    by (simp add: inj_crc32_bits [THEN inj_eq])
  then have "of_le32 xs = of_le32 ys"
    by (simp add: xor.commute [of s])
  with assms(1,2) show ?thesis
    by (metis le32_of_le32)
qed

lemma crc32_window_inj:
  assumes len: "length xs = length ys" "length xs \<le> 4"
    and eq: "foldl crc32_byte s (a @ xs @ z) = foldl crc32_byte s (a @ ys @ z)"
  shows "xs = ys"
proof -
  let ?pad = "replicate (4 - length xs) (0 :: u8)"
  let ?t = "foldl crc32_byte s a"
  from eq have "foldl crc32_byte ?t xs = foldl crc32_byte ?t ys"
    by (simp add: foldl_crc32_byte_inj)
  then have "foldl crc32_byte ?t (xs @ ?pad) = foldl crc32_byte ?t (ys @ ?pad)"
    by simp
  moreover have "length (xs @ ?pad) = 4" "length (ys @ ?pad) = 4"
    using len by simp_all
  ultimately have "xs @ ?pad = ys @ ?pad"
    by (intro crc32_four_bytes_inj [of _ _ ?t])
  then show ?thesis by simp
qed

lemma crc32_eq_iff: "crc32 (Some xs) = crc32 (Some ys) \<longleftrightarrow>
    foldl crc32_byte crc32_begin xs = foldl crc32_byte crc32_begin ys"
  by (simp add: crc32_def crc32_end_def)

lemma funpow_8: "(f ^^ 8) x = f (f (f (f (f (f (f (f x)))))))"
  by (simp add: eval_nat_numeral)

text \<open>A block followed by a 32-bit field: the register ends in one fixed state exactly when the
  field is the CRC of the block.\<close>

lemma crc32_append_iff:
  "foldl crc32_byte crc32_begin (m @ le32 c) = (crc32_bit ^^ 32) (- 1) \<longleftrightarrow> c = crc32 (Some m)"
proof -
  let ?s = "foldl crc32_byte crc32_begin m"
  have "foldl crc32_byte ?s (le32 c) = (crc32_bit ^^ 32) (?s XOR of_le32 (le32 c))"
    by (simp only: le32_def crc32_four_bytes)
  then have "foldl crc32_byte crc32_begin (m @ le32 c) = (crc32_bit ^^ 32) (?s XOR c)"
    by (simp del: of_le32_le32) simp
  moreover have "crc32 (Some m) = ?s XOR - 1"
  proof -
    have "(0xFFFFFFFF :: u32) = - 1" by simp
    then show ?thesis by (simp only: crc32_def crc32_end_def crc32_update.simps option.case)
  qed
  moreover have "?s XOR c = - 1 \<longleftrightarrow> c = ?s XOR - 1"
    using xor_flip [of ?s c "- 1"] .
  ultimately show ?thesis
    by (simp only: inj_crc32_bits [THEN inj_eq])
qed

subsection \<open>Properties\<close>

text \<open>Damage confined to a window of at most four consecutive bytes changes the CRC-32 of
  the data, wherever the window lies and whatever surrounds it.\<close>

theorem crc32_detects_burst:
  assumes "length xs = length ys" and "length xs \<le> 4" and "xs \<noteq> ys"
  shows "crc32 (Some (a @ xs @ z)) \<noteq> crc32 (Some (a @ ys @ z))"
  using assms crc32_window_inj by (simp add: crc32_eq_iff) blast

theorem crc32_detects_burst_witness:
  "crc32 (Some ([1, 2] @ [3, 4] @ [5])) \<noteq> crc32 (Some ([1, 2] @ [3, 5] @ [5]))"
  by (rule crc32_detects_burst) simp_all

text \<open>The incremental interface does not depend on how the data is cut into chunks: begin,
  one update per chunk (of any sizes, empty or \<open>NULL\<close> ones included) and end give the
  one-shot CRC of the concatenated data.\<close>

theorem crc32_chunks:
  "crc32_end (foldl crc32_update crc32_begin chunks)
    = crc32 (Some (concat (map (\<lambda>c. case c of None \<Rightarrow> [] | Some bs \<Rightarrow> bs) chunks)))"
proof -
  have "foldl crc32_update s chunks
      = foldl crc32_byte s (concat (map (\<lambda>c. case c of None \<Rightarrow> [] | Some bs \<Rightarrow> bs) chunks))" for s
    by (induction chunks arbitrary: s) (auto split: option.split)
  then show ?thesis
    by (simp add: crc32_def)
qed

text \<open>Both algorithms give the published check values on the nine bytes
  \<open>123456789\<close>, so a value computed here matches any other tool's.\<close>

theorem crc_check_values:
  "crc32 (Some (map (word_of_nat \<circ> of_char) ''123456789'')) = 0xCBF43926 \<and>
   crc16_ccitt (Some (map (word_of_nat \<circ> of_char) ''123456789'')) = 0x29B1"
  by (simp add: crc32_def crc32_begin_def CRC32_INITIAL_def crc32_byte_def crc32_bit_def
      crc32_end_def crc16_ccitt_def crc16_ccitt_begin_def CRC16_CCITT_INITIAL_def
      crc16_byte_def crc16_bit_def crc16_ccitt_end_def funpow_8)

end
