(* ===== verification/Hex_Parser.thy ===== *)
theory Hex_Parser
  imports Prelude "HOL-Library.Char_ord"
begin

text \<open>
  Model of \<open>components/hex_parser\<close>: decoding one line of Intel HEX. A C string is the list of
  the characters before its terminator. The record keeps its full 255-byte data array, as in
  the C struct; the parser keeps the address base, the start address and the end-of-file flag.
  The lemmas characterise exactly which lines are accepted and what they decode to, against
  an independent encoder of well-formed lines; they show that a failed line leaves the parser
  unchanged, that nothing is accepted after the end-of-file record, and that damage to any
  one byte of an accepted line is detected.
\<close>

subsection \<open>Types\<close>

datatype hex_result_t =
    HEX_OK
  | HEX_ERR_INVALID_ARG
  | HEX_ERR_NO_START_CODE
  | HEX_ERR_BAD_CHARACTER
  | HEX_ERR_BAD_LENGTH
  | HEX_ERR_BAD_CHECKSUM
  | HEX_ERR_UNKNOWN_TYPE
  | HEX_ERR_MALFORMED_RECORD
  | HEX_ERR_AFTER_EOF

text \<open>The record type is the byte from the line, whether or not the enumeration names it.\<close>

abbreviation (input) HEX_RECORD_DATA :: u8 where "HEX_RECORD_DATA \<equiv> 0"
abbreviation (input) HEX_RECORD_EOF :: u8 where "HEX_RECORD_EOF \<equiv> 1"
abbreviation (input) HEX_RECORD_EXTENDED_SEGMENT :: u8 where "HEX_RECORD_EXTENDED_SEGMENT \<equiv> 2"
abbreviation (input) HEX_RECORD_START_SEGMENT :: u8 where "HEX_RECORD_START_SEGMENT \<equiv> 3"
abbreviation (input) HEX_RECORD_EXTENDED_LINEAR :: u8 where "HEX_RECORD_EXTENDED_LINEAR \<equiv> 4"
abbreviation (input) HEX_RECORD_START_LINEAR :: u8 where "HEX_RECORD_START_LINEAR \<equiv> 5"

abbreviation (input) HEX_MAX_RECORD_DATA :: nat where "HEX_MAX_RECORD_DATA \<equiv> 255"
abbreviation (input) PREFIX_BYTES :: nat where "PREFIX_BYTES \<equiv> 4"
abbreviation (input) FRAME_BYTES :: nat where "FRAME_BYTES \<equiv> 5"

record hex_record_t =
  rec_type :: u8
  rec_address :: u32
  rec_data :: "u8 list"
  rec_length :: u8

record hex_parser_t =
  address_base :: u32
  start_address :: u32
  have_start_address :: bool
  seen_eof :: bool

definition hex_record_zero :: hex_record_t where
  "hex_record_zero = \<lparr>rec_type = 0, rec_address = 0,
     rec_data = replicate HEX_MAX_RECORD_DATA 0, rec_length = 0\<rparr>"

definition hex_parser_reset :: hex_parser_t where
  "hex_parser_reset =
     \<lparr>address_base = 0, start_address = 0, have_start_address = False, seen_eof = False\<rparr>"

subsection \<open>Characters\<close>

definition decode_nibble :: "char \<Rightarrow> u8 option" where
  "decode_nibble c =
     (if CHR ''0'' \<le> c \<and> c \<le> CHR ''9'' then Some (of_char c - of_char CHR ''0'')
      else if CHR ''A'' \<le> c \<and> c \<le> CHR ''F'' then Some (of_char c - of_char CHR ''A'' + 10)
      else if CHR ''a'' \<le> c \<and> c \<le> CHR ''f'' then Some (of_char c - of_char CHR ''a'' + 10)
      else None)"

definition decode_byte :: "char \<Rightarrow> char \<Rightarrow> u8 option" where
  "decode_byte c0 c1 =
     (case decode_nibble c0 of
        None \<Rightarrow> None
      | Some high \<Rightarrow>
          (case decode_nibble c1 of
             None \<Rightarrow> None
           | Some low \<Rightarrow> Some (push_bit 4 high OR low)))"

definition is_space :: "char \<Rightarrow> bool" where
  "is_space c \<longleftrightarrow> c = CHR '' '' \<or> c = CHR 0x09 \<or> c = CHR 0x0D \<or> c = CHR 0x0A"

text \<open>\<open>trimmed_length\<close>: the loop drops trailing white space from the length.\<close>

function trimmed_from :: "string \<Rightarrow> nat \<Rightarrow> nat" where
  "trimmed_from line len =
     (if 0 < len \<and> is_space (line ! (len - 1)) then trimmed_from line (len - 1) else len)"
  by pat_completeness auto
termination by (relation "measure snd") auto

declare trimmed_from.simps [simp del]

definition trimmed_length :: "string \<Rightarrow> nat" where
  "trimmed_length line = trimmed_from line (length line)"

text \<open>The loop that decodes two characters per byte.\<close>

fun decode_bytes :: "nat \<Rightarrow> string \<Rightarrow> u8 list option" where
  "decode_bytes 0 text = Some []"
| "decode_bytes (Suc n) (c0 # c1 # text) =
     (case decode_byte c0 c1 of
        None \<Rightarrow> None
      | Some b \<Rightarrow> map_option (Cons b) (decode_bytes n text))"
| "decode_bytes (Suc n) text = None"

subsection \<open>Records\<close>

definition apply_extension :: "hex_parser_t \<Rightarrow> hex_record_t \<Rightarrow> hex_result_t \<times> hex_parser_t" where
  "apply_extension parser rec =
     (if rec_length rec \<noteq> 2 then (HEX_ERR_MALFORMED_RECORD, parser)
      else
        (let value = push_bit 8 (ucast (rec_data rec ! 0)) OR ucast (rec_data rec ! 1) :: u32 in
         if rec_type rec = HEX_RECORD_EXTENDED_LINEAR
         then (HEX_OK, parser\<lparr>address_base := push_bit 16 value\<rparr>)
         else if rec_type rec = HEX_RECORD_EXTENDED_SEGMENT
         then (HEX_OK, parser\<lparr>address_base := push_bit 4 value\<rparr>)
         else (HEX_ERR_UNKNOWN_TYPE, parser)))"

definition apply_start_address :: "hex_parser_t \<Rightarrow> hex_record_t \<Rightarrow> hex_result_t \<times> hex_parser_t" where
  "apply_start_address parser rec =
     (if rec_length rec \<noteq> 4 then (HEX_ERR_MALFORMED_RECORD, parser)
      else
        (let d = rec_data rec;
             start = push_bit 24 (ucast (d ! 0)) OR push_bit 16 (ucast (d ! 1))
               OR push_bit 8 (ucast (d ! 2)) OR ucast (d ! 3) :: u32
         in (HEX_OK, parser\<lparr>start_address := start, have_start_address := True\<rparr>)))"

text \<open>The part of \<open>hex_parser_feed\<close> after the checksum test.\<close>

definition hex_apply_record ::
  "hex_parser_t \<Rightarrow> u8 list \<Rightarrow> hex_record_t \<Rightarrow> hex_result_t \<times> hex_parser_t \<times> hex_record_t" where
  "hex_apply_record parser bytes rec0 =
     (if seen_eof parser then (HEX_ERR_AFTER_EOF, parser, rec0)
      else
        (let declared = bytes ! 0;
             ty = bytes ! 3;
             offset = push_bit 8 (ucast (bytes ! 1)) OR ucast (bytes ! 2) :: u16;
             rec = hex_record_zero
               \<lparr>rec_type := ty, rec_length := declared,
                rec_data := blit 0 (chunk PREFIX_BYTES (unat declared) bytes)
                              (rec_data hex_record_zero)\<rparr>
         in if ty = HEX_RECORD_DATA
            then (HEX_OK, parser, rec\<lparr>rec_address := address_base parser + ucast offset\<rparr>)
            else if ty = HEX_RECORD_EOF
            then if declared \<noteq> 0 then (HEX_ERR_MALFORMED_RECORD, parser, rec)
                 else (HEX_OK, parser\<lparr>seen_eof := True\<rparr>, rec)
            else if ty = HEX_RECORD_EXTENDED_SEGMENT \<or> ty = HEX_RECORD_EXTENDED_LINEAR
            then (case apply_extension parser rec of (r, p) \<Rightarrow> (r, p, rec))
            else if ty = HEX_RECORD_START_SEGMENT \<or> ty = HEX_RECORD_START_LINEAR
            then (case apply_start_address parser rec of (r, p) \<Rightarrow> (r, p, rec))
            else (HEX_ERR_UNKNOWN_TYPE, parser, rec)))"

definition hex_parser_feed ::
  "hex_parser_t \<Rightarrow> string option \<Rightarrow> hex_record_t \<Rightarrow> hex_result_t \<times> hex_parser_t \<times> hex_record_t" where
  "hex_parser_feed parser line rec =
     (case line of
        None \<Rightarrow> (HEX_ERR_INVALID_ARG, parser, rec)
      | Some text \<Rightarrow>
          (case dropWhile is_space text of
             [] \<Rightarrow> (HEX_ERR_NO_START_CODE, parser, rec)
           | c # body \<Rightarrow>
               if c \<noteq> CHR '':'' then (HEX_ERR_NO_START_CODE, parser, rec)
               else
                 (let body_length = trimmed_length body in
                  if body_length < 2 * FRAME_BYTES \<or> body_length mod 2 \<noteq> 0
                  then (HEX_ERR_BAD_LENGTH, parser, rec)
                  else
                    (let byte_count = body_length div 2 in
                     if FRAME_BYTES + HEX_MAX_RECORD_DATA < byte_count
                     then (HEX_ERR_BAD_LENGTH, parser, rec)
                     else
                       (case decode_bytes byte_count body of
                          None \<Rightarrow> (HEX_ERR_BAD_CHARACTER, parser, rec)
                        | Some bytes \<Rightarrow>
                            if byte_count \<noteq> unat (bytes ! 0) + FRAME_BYTES
                            then (HEX_ERR_BAD_LENGTH, parser, rec)
                            else if foldl (+) 0 bytes \<noteq> 0
                            then (HEX_ERR_BAD_CHECKSUM, parser, rec)
                            else hex_apply_record parser bytes rec)))))"

definition hex_parser_is_complete :: "hex_parser_t \<Rightarrow> bool" where
  "hex_parser_is_complete parser = seen_eof parser"

fun hex_result_name :: "hex_result_t \<Rightarrow> string" where
  "hex_result_name HEX_OK = ''ok''"
| "hex_result_name HEX_ERR_INVALID_ARG = ''invalid argument''"
| "hex_result_name HEX_ERR_NO_START_CODE = ''no ':' start code''"
| "hex_result_name HEX_ERR_BAD_CHARACTER = ''not a hex digit''"
| "hex_result_name HEX_ERR_BAD_LENGTH = ''length does not match byte count''"
| "hex_result_name HEX_ERR_BAD_CHECKSUM = ''bad checksum''"
| "hex_result_name HEX_ERR_UNKNOWN_TYPE = ''unknown record type''"
| "hex_result_name HEX_ERR_MALFORMED_RECORD = ''malformed record''"
| "hex_result_name HEX_ERR_AFTER_EOF = ''record after end of file''"

subsection \<open>White space\<close>

lemma trimmed_from_append:
  "list_all is_space ws \<Longrightarrow> trimmed_from (text @ ws) (length text + length ws) = trimmed_from (text @ ws) (length text)"
proof (induction ws rule: rev_induct)
  case Nil
  then show ?case by simp
next
  case (snoc w ws)
  have pre: "trimmed_from (text @ ws @ [w]) n = trimmed_from (text @ ws) n"
    if "n \<le> length text + length ws" for n
    using that
  proof (induction n)
    case 0
    then show ?case by (simp add: trimmed_from.simps)
  next
    case (Suc n)
    then have "(text @ ws @ [w]) ! n = (text @ ws) ! n" by (auto simp: nth_append)
    with Suc show ?case
      by (simp add: trimmed_from.simps [of _ "Suc n"])
  qed
  from snoc have "trimmed_from (text @ ws @ [w]) (length text + length (ws @ [w]))
      = trimmed_from (text @ ws @ [w]) (length text + length ws)"
    by (subst trimmed_from.simps) (simp add: nth_append)
  with snoc pre show ?case by simp
qed

lemma trimmed_length_append:
  assumes "list_all is_space ws" and "text = [] \<or> \<not> is_space (last text)"
  shows "trimmed_length (text @ ws) = length text"
proof -
  have "trimmed_from (text @ ws) (length text) = length text"
    using assms(2) by (subst trimmed_from.simps) (auto simp: nth_append last_conv_nth)
  with trimmed_from_append [OF assms(1)] show ?thesis
    by (simp add: trimmed_length_def)
qed

text \<open>The trimmed text: a prefix that ends in no white space, followed by white space only.\<close>

lemma trimmed_from_split:
  "n \<le> length line \<Longrightarrow> trimmed_from line n \<le> n \<and> list_all is_space (chunk (trimmed_from line n) (n - trimmed_from line n) line)"
proof (induction n)
  case 0
  then show ?case by (simp add: trimmed_from.simps)
next
  case (Suc n)
  show ?case
  proof (cases "is_space (line ! n)")
    case True
    let ?m = "trimmed_from line n"
    from True have eq: "trimmed_from line (Suc n) = ?m"
      by (simp add: trimmed_from.simps [of line "Suc n"])
    from Suc have m: "?m \<le> n" "list_all is_space (chunk ?m (n - ?m) line)" by auto
    have "chunk ?m (Suc n - ?m) line = chunk ?m (n - ?m) line @ [line ! n]"
      using m(1) Suc.prems by (simp add: chunk_def take_Suc_conv_app_nth Suc_diff_le)
    with m True show ?thesis by (simp add: eq)
  next
    case False
    then show ?thesis by (simp add: trimmed_from.simps [of line "Suc n"])
  qed
qed

lemma trimmed_length_split:
  obtains ws where "line = take (trimmed_length line) line @ ws" "list_all is_space ws"
proof
  show "line = take (trimmed_length line) line @ drop (trimmed_length line) line" by simp
  show "list_all is_space (drop (trimmed_length line) line)"
    using trimmed_from_split [of "length line" line] by (simp add: chunk_def trimmed_length_def)
qed

lemma trimmed_length_le: "trimmed_length line \<le> length line"
  using trimmed_from_split [of "length line" line] by (simp add: trimmed_length_def)


subsection \<open>A reference encoder of lines\<close>

definition hex_char :: "u8 \<Rightarrow> char" where
  "hex_char n = char_of (if n < 10 then unat n + 48 else unat n + 55)"

definition encode_byte :: "u8 \<Rightarrow> string" where
  "encode_byte b = [hex_char (drop_bit 4 b), hex_char (b AND 15)]"

definition hex_encode :: "u8 list \<Rightarrow> string" where
  "hex_encode bytes = concat (map encode_byte bytes)"

text \<open>The bytes of a record: count, address, type, data and the checksum that makes them sum to 0.\<close>

definition hex_frame :: "u8 \<Rightarrow> u16 \<Rightarrow> u8 list \<Rightarrow> u8 list" where
  "hex_frame ty addr payload =
     (let frame = [word_of_nat (length payload), ucast (drop_bit 8 addr), ucast addr, ty] @ payload
      in frame @ [- sum_list frame])"

lemma decode_nibble_char_of:
  assumes "k < 256"
  shows "decode_nibble (char_of (k :: nat)) =
    (if 48 \<le> k \<and> k \<le> 57 then Some (of_nat k - 48)
     else if 65 \<le> k \<and> k \<le> 70 then Some (of_nat k - 55)
     else if 97 \<le> k \<and> k \<le> 102 then Some (of_nat k - 87) else None)"
proof -
  have "of_char (char_of k :: char) = (of_nat k :: u8)"
    using assms by (metis of_char_of of_nat_of_char mod_less)
  then show ?thesis
    using assms by (simp add: decode_nibble_def less_eq_char_def)
qed

lemma decode_nibble_hex_char: "n < 16 \<Longrightarrow> decode_nibble (hex_char n) = Some n"
  by (simp add: hex_char_def decode_nibble_char_of word_less_nat_alt)

lemma nibbles_lt:
  "drop_bit 4 (b :: u8) < 16" "(b :: u8) AND 15 < 16"
proof -
  have "unat (drop_bit 4 b) < 16"
    using unat_u8_lt [of b] by (simp add: unat_drop_bit_div)
  then show "drop_bit 4 b < 16" by (simp add: word_less_nat_alt)
  have "b AND 15 \<le> 15" by (rule word_and_le1)
  then show "b AND 15 < 16" by (rule order.strict_trans1) simp
qed

lemma nibbles_join: "push_bit 4 (drop_bit 4 (b :: u8)) OR (b AND 15) = b"
proof (rule bit_word_eqI)
  fix n assume "n < LENGTH(8)"
  then have "n \<in> {0, 1, 2, 3, 4, 5, 6, 7}" by auto
  then show "bit (push_bit 4 (drop_bit 4 b) OR (b AND 15)) n = bit b n"
    by (auto simp: bit_simps bit_numeral_rec)
qed

lemma decode_encode_byte:
  "encode_byte b = [c0, c1] \<Longrightarrow> decode_byte c0 c1 = Some b"
  by (auto simp: encode_byte_def decode_byte_def decode_nibble_hex_char nibbles_lt nibbles_join)

lemma decode_bytes_encode: "decode_bytes (length bytes) (hex_encode bytes @ rest) = Some bytes"
proof (induction bytes)
  case Nil
  then show ?case by simp
next
  case (Cons b bytes)
  obtain c0 c1 where e: "encode_byte b = [c0, c1]" by (simp add: encode_byte_def)
  with Cons show ?case
    by (simp add: hex_encode_def e decode_encode_byte [OF e])
qed

lemma length_hex_encode [simp]: "length (hex_encode bytes) = 2 * length bytes"
  by (induction bytes) (auto simp: hex_encode_def encode_byte_def)

lemma decode_nibble_not_space: "decode_nibble c = Some n \<Longrightarrow> \<not> is_space c"
  by (auto simp: decode_nibble_def is_space_def)

lemma hex_char_not_space: "n < 16 \<Longrightarrow> \<not> is_space (hex_char n)"
  using decode_nibble_hex_char decode_nibble_not_space by blast

lemma last_hex_encode: "bytes \<noteq> [] \<Longrightarrow> \<not> is_space (last (hex_encode bytes))"
  by (induction bytes rule: rev_induct)
    (auto simp: hex_encode_def encode_byte_def hex_char_not_space nibbles_lt)

lemma length_decode_bytes: "decode_bytes n str = Some bytes \<Longrightarrow> length bytes = n \<and> 2 * n \<le> length str"
  by (induction n str arbitrary: bytes rule: decode_bytes.induct) (auto split: option.splits)

lemma foldl_plus_sum: "foldl (+) (s :: 'a::comm_monoid_add) xs = s + sum_list xs"
  by (induction xs arbitrary: s) (auto simp: add.assoc)

lemma length_hex_frame [simp]: "length (hex_frame ty addr payload) = length payload + 5"
  by (simp add: hex_frame_def Let_def)

lemma sum_hex_frame [simp]: "sum_list (hex_frame ty addr payload) = 0"
  by (simp add: hex_frame_def Let_def)

subsection \<open>Which lines are accepted\<close>

text \<open>A frame is the decoded bytes of a line that pass the length and checksum tests.\<close>

definition well_framed :: "u8 list \<Rightarrow> bool" where
  "well_framed bytes \<longleftrightarrow> length bytes = unat (bytes ! 0) + FRAME_BYTES \<and> sum_list bytes = 0"

lemma well_framed_length: "well_framed bytes \<Longrightarrow> 5 \<le> length bytes \<and> length bytes \<le> 260"
  using unat_u8_lt [of "bytes ! 0"] by (auto simp: well_framed_def)

lemma hex_feed_line:
  assumes ws: "list_all is_space ws" "list_all is_space ws'"
    and dec: "decode_bytes (length body div 2) body = Some bytes"
    and body: "length body = 2 * length bytes" "5 \<le> length bytes" "length bytes \<le> 260"
      "\<not> is_space (last body)"
  shows "hex_parser_feed p (Some (ws @ CHR '':'' # body @ ws')) r =
    (if length bytes \<noteq> unat (bytes ! 0) + FRAME_BYTES then (HEX_ERR_BAD_LENGTH, p, r)
     else if sum_list bytes \<noteq> 0 then (HEX_ERR_BAD_CHECKSUM, p, r)
     else hex_apply_record p bytes r)"
proof -
  have "dropWhile is_space (ws @ CHR '':'' # body @ ws') = CHR '':'' # body @ ws'"
    using ws(1) by (simp add: dropWhile_append2 list_all_iff) (simp add: is_space_def)
  moreover have "trimmed_length (body @ ws') = 2 * length bytes"
    using trimmed_length_append [OF ws(2), of body] body by simp
  moreover have "decode_bytes (length bytes) (body @ ws') = Some bytes"
  proof -
    have "decode_bytes n t = Some bs \<Longrightarrow> decode_bytes n (t @ ws') = Some bs" for n t bs
      by (induction n t arbitrary: bs rule: decode_bytes.induct) (auto split: option.splits)
    with dec body(1) show ?thesis by simp
  qed
  ultimately show ?thesis
    using body by (simp add: hex_parser_feed_def Let_def foldl_plus_sum)
qed

lemma hex_feed_encoded:
  assumes "list_all is_space ws" and "list_all is_space ws'" and "5 \<le> length bytes" "length bytes \<le> 260"
  shows "hex_parser_feed p (Some (ws @ CHR '':'' # hex_encode bytes @ ws')) r =
    (if length bytes \<noteq> unat (bytes ! 0) + FRAME_BYTES then (HEX_ERR_BAD_LENGTH, p, r)
     else if sum_list bytes \<noteq> 0 then (HEX_ERR_BAD_CHECKSUM, p, r)
     else hex_apply_record p bytes r)"
proof -
  from assms(3) have "bytes \<noteq> []" by auto
  with assms decode_bytes_encode [of bytes "[]"] show ?thesis
    by (intro hex_feed_line) (auto dest: last_hex_encode)
qed

lemma hex_apply_record_result:
  "fst (hex_apply_record p bytes r) \<in> {HEX_OK, HEX_ERR_UNKNOWN_TYPE, HEX_ERR_MALFORMED_RECORD, HEX_ERR_AFTER_EOF}"
  by (auto simp: hex_apply_record_def apply_extension_def apply_start_address_def Let_def)

text \<open>A line is either refused before the record is looked at, with nothing changed, or it is a
  well-framed line and the result is that of its record.\<close>

lemma hex_feed_cases:
  assumes "hex_parser_feed p line r = (res, p', r')"
  obtains (refused) "p' = p" "r' = r" "res \<in> {HEX_ERR_INVALID_ARG, HEX_ERR_NO_START_CODE,
      HEX_ERR_BAD_LENGTH, HEX_ERR_BAD_CHARACTER, HEX_ERR_BAD_CHECKSUM}"
  | (framed) ws body ws' bytes where "line = Some (ws @ CHR '':'' # body @ ws')"
      "list_all is_space ws" "list_all is_space ws'" "length body = 2 * length bytes"
      "decode_bytes (length bytes) body = Some bytes" "well_framed bytes"
      "hex_apply_record p bytes r = (res, p', r')"
proof (cases line)
  case None
  with assms refused show thesis by (simp add: hex_parser_feed_def)
next
  case (Some str)
  define ws where "ws = takeWhile is_space str"
  have ws: "list_all is_space ws" "str = ws @ dropWhile is_space str"
    by (auto simp: ws_def list_all_iff dest: set_takeWhileD)
  show thesis
  proof (cases "dropWhile is_space str")
    case Nil
    with assms Some refused show thesis by (simp add: hex_parser_feed_def)
  next
    case (Cons c rest)
    define n where "n = trimmed_length rest div 2"
    show thesis
    proof (cases "c = CHR '':'' \<and> \<not> (trimmed_length rest < 10 \<or> odd (trimmed_length rest)) \<and> n \<le> 260")
      case False
      with assms Some Cons refused show thesis
        by (auto simp: hex_parser_feed_def Let_def n_def odd_iff_mod_2_eq_one split: if_splits)
    next
      case True
      then have len: "trimmed_length rest = 2 * n" by (auto simp: n_def)
      show thesis
      proof (cases "decode_bytes n rest")
        case None
        with assms Some Cons True len refused show thesis
          by (auto simp: hex_parser_feed_def Let_def)
      next
        case (Some bytes)
        note bytes = this
        show thesis
        proof (cases "n = unat (bytes ! 0) + FRAME_BYTES \<and> sum_list bytes = 0")
          case False
          with assms \<open>line = Some str\<close> Cons True len bytes refused show thesis
            by (auto simp: hex_parser_feed_def Let_def foldl_plus_sum split: if_splits)
        next
          case True': True
          from bytes have l: "length bytes = n" by (simp add: length_decode_bytes)
          obtain ws' where ws': "rest = take (2 * n) rest @ ws'" "list_all is_space ws'"
            using trimmed_length_split [of rest] len by metis
          have "decode_bytes m t = decode_bytes m (take (2 * m) t)" for m t
            by (induction m t rule: decode_bytes.induct) (auto split: option.split)
          then have dec: "decode_bytes (length bytes) (take (2 * n) rest) = Some bytes"
            using bytes l by metis
          have line: "line = Some (ws @ CHR '':'' # take (2 * n) rest @ ws')"
            using ws(2) ws'(1) Cons True \<open>line = Some str\<close> by auto
          have len2: "length (take (2 * n) rest) = 2 * length bytes"
            using l len trimmed_length_le [of rest] by simp
          have app: "hex_apply_record p bytes r = (res, p', r')"
            using assms \<open>line = Some str\<close> Cons True len bytes True'
            by (simp add: hex_parser_feed_def Let_def foldl_plus_sum)
          have "well_framed bytes" using True' l by (simp add: well_framed_def)
          then show thesis
            by (rule framed [OF line ws(1) ws'(2) len2 dec _ app])
        qed
      qed
    qed
  qed
qed


subsection \<open>What an accepted record says\<close>

lemma hex_frame_fields:
  assumes "length payload \<le> 255"
  shows "unat (hex_frame ty addr payload ! 0) = length payload"
    and "hex_frame ty addr payload ! 1 = ucast (drop_bit 8 addr)"
    and "hex_frame ty addr payload ! 2 = ucast addr"
    and "hex_frame ty addr payload ! 3 = ty"
    and "chunk 4 (length payload) (hex_frame ty addr payload) = payload"
  using assms by (simp_all add: hex_frame_def Let_def unat_of_nat_lt chunk_def numeral_3_eq_3)

lemma well_framed_hex_frame: "length payload \<le> 255 \<Longrightarrow> well_framed (hex_frame ty addr payload)"
  by (simp add: well_framed_def hex_frame_fields)

lemma join_u16: "push_bit 8 (ucast (ucast (drop_bit 8 addr) :: u8)) OR ucast (ucast addr :: u8) = (addr :: u16)"
  (is "?l = ?r")
proof (rule bit_word_eqI)
  fix n assume "n < LENGTH(16)"
  then consider "n < 8" | "8 \<le> n" "n < 16" by fastforce
  then show "bit ?l n = bit ?r n"
    by cases (auto simp: bit_simps)
qed

text \<open>The record that a well-formed line carries, before its type is looked at.\<close>

definition framed_record :: "u8 \<Rightarrow> u8 list \<Rightarrow> hex_record_t" where
  "framed_record ty payload =
     \<lparr>rec_type = ty, rec_address = 0, rec_data = blit 0 payload (replicate 255 0),
      rec_length = word_of_nat (length payload)\<rparr>"

lemma hex_feed_frame:
  assumes "list_all is_space ws" and "list_all is_space ws'" and "length payload \<le> 255"
  shows "hex_parser_feed p (Some (ws @ CHR '':'' # hex_encode (hex_frame ty addr payload) @ ws')) r
    = hex_apply_record p (hex_frame ty addr payload) r"
  using assms well_framed_hex_frame [OF assms(3), of ty addr]
  by (subst hex_feed_encoded) (auto simp: well_framed_def)

lemma hex_apply_frame:
  assumes "length payload \<le> 255" and "\<not> seen_eof p"
  shows "hex_apply_record p (hex_frame ty addr payload) r =
    (let rec = framed_record ty payload in
     if ty = HEX_RECORD_DATA then (HEX_OK, p, rec\<lparr>rec_address := address_base p + ucast addr\<rparr>)
     else if ty = HEX_RECORD_EOF
     then if payload \<noteq> [] then (HEX_ERR_MALFORMED_RECORD, p, rec) else (HEX_OK, p\<lparr>seen_eof := True\<rparr>, rec)
     else if ty = HEX_RECORD_EXTENDED_SEGMENT \<or> ty = HEX_RECORD_EXTENDED_LINEAR
     then (case apply_extension p rec of (r, p) \<Rightarrow> (r, p, rec))
     else if ty = HEX_RECORD_START_SEGMENT \<or> ty = HEX_RECORD_START_LINEAR
     then (case apply_start_address p rec of (r, p) \<Rightarrow> (r, p, rec))
     else (HEX_ERR_UNKNOWN_TYPE, p, rec))"
proof -
  let ?b = "hex_frame ty addr payload"
  note fields = hex_frame_fields [OF assms(1), of ty addr]
  have count: "?b ! 0 = word_of_nat (length payload)"
    by (simp add: hex_frame_def Let_def)
  have rec: "hex_record_zero\<lparr>rec_type := ty, rec_length := ?b ! 0,
      rec_data := blit 0 (chunk 4 (unat (?b ! 0)) ?b) (rec_data hex_record_zero)\<rparr> = framed_record ty payload"
    unfolding fields count [symmetric] by (simp add: hex_record_zero_def framed_record_def count)
  have zero: "?b ! 0 \<noteq> 0 \<longleftrightarrow> payload \<noteq> []"
    using assms(1) by (auto simp: count word_eq_unat_iff unat_of_nat_lt)
  have join: "push_bit 8 (ucast (?b ! 1)) OR ucast (?b ! 2) = addr"
    unfolding fields by (rule join_u16)
  show ?thesis
    unfolding hex_apply_record_def Let_def rec zero join fields(4) using assms(2) by simp
qed

lemma hex_apply_record_state:
  "hex_apply_record p bytes r = (res, p', r') \<Longrightarrow>
    (res \<noteq> HEX_OK \<longrightarrow> p' = p) \<and> (seen_eof p \<longrightarrow> res = HEX_ERR_AFTER_EOF \<and> p' = p \<and> r' = r)"
  by (auto simp: hex_apply_record_def apply_extension_def apply_start_address_def Let_def
      split: if_splits prod.splits)

lemma hex_feed_record_size:
  assumes "hex_parser_feed p line r = (HEX_OK, p', r')"
  shows "length (rec_data r') = 255"
  using assms
proof (cases rule: hex_feed_cases)
  case (framed ws body ws' bytes)
  then have "length bytes = unat (bytes ! 0) + 5"
    by (simp add: well_framed_def)
  then have "length (blit 0 (chunk 4 (unat (bytes ! 0)) bytes) (rec_data hex_record_zero)) = 255"
    using unat_u8_lt [of "bytes ! 0"] by (subst length_blit) (simp_all add: hex_record_zero_def)
  with framed(7) show ?thesis
    by (auto simp: hex_apply_record_def Let_def split: if_splits prod.splits)
qed simp

lemma hex_feed_refused:
  assumes "hex_parser_feed p line r = (res, p', r')" and "res \<noteq> HEX_OK"
  shows "p' = p"
  using assms(1)
proof (cases rule: hex_feed_cases)
  case (framed ws body ws' bytes)
  with hex_apply_record_state [OF framed(7)] assms(2) show ?thesis by simp
qed (use assms in auto)

lemma hex_feed_seen_eof:
  assumes "hex_parser_feed p line r = (HEX_OK, p', r')"
  shows "\<not> seen_eof p" and "rec_type r' = HEX_RECORD_EOF \<Longrightarrow> seen_eof p'"
proof -
  have *: "\<not> seen_eof p \<and> (rec_type r' = HEX_RECORD_EOF \<longrightarrow> seen_eof p')"
    using assms
  proof (cases rule: hex_feed_cases)
    case (framed ws body ws' bytes)
    then show ?thesis
      by (auto simp: hex_apply_record_def Let_def split: if_splits prod.splits)
  qed simp
  then show "\<not> seen_eof p" "rec_type r' = HEX_RECORD_EOF \<Longrightarrow> seen_eof p'" by auto
qed

subsection \<open>Properties\<close>

text \<open>A data record written by any conforming tool decodes to what was written. For every
  payload of up to 255 bytes, with any white space around the line, the parser accepts the
  line, reports the payload and its length, zero-fills the rest of the array, and gives the
  flat 32-bit address of the payload under the current base; its own state does not change.\<close>

theorem hex_data_roundtrip:
  assumes "list_all is_space ws" and "list_all is_space ws'" and "length payload \<le> 255"
    and "\<not> seen_eof p"
  shows "hex_parser_feed p
      (Some (ws @ CHR '':'' # hex_encode (hex_frame HEX_RECORD_DATA addr payload) @ ws')) r
    = (HEX_OK, p, \<lparr>rec_type = HEX_RECORD_DATA, rec_address = address_base p + ucast addr,
         rec_data = payload @ replicate (255 - length payload) 0,
         rec_length = word_of_nat (length payload)\<rparr>)"
  using assms by (simp add: hex_feed_frame hex_apply_frame framed_record_def blit_def)

theorem hex_data_roundtrip_witness:
  "hex_parser_feed (hex_parser_reset\<lparr>address_base := 0x10000000\<rparr>)
      (Some ('' '' @ CHR '':'' # hex_encode (hex_frame HEX_RECORD_DATA 0x0100 [0xAB, 0xCD]) @ [CHR 0x0D, CHR 0x0A]))
      hex_record_zero
    = (HEX_OK, hex_parser_reset\<lparr>address_base := 0x10000000\<rparr>, \<lparr>rec_type = 0, rec_address = 0x10000100,
         rec_data = [0xAB, 0xCD] @ replicate 253 0, rec_length = 2\<rparr>)"
proof -
  have "list_all is_space '' ''" "list_all is_space [CHR 0x0D, CHR 0x0A]"
    by (simp_all add: is_space_def)
  from hex_data_roundtrip [OF this, of "[0xAB, 0xCD]" "hex_parser_reset\<lparr>address_base := 0x10000000\<rparr>"
      "0x0100" "hex_record_zero"]
  show ?thesis by (simp add: hex_parser_reset_def)
qed

text \<open>An extended linear address record moves the base: the data record that follows it
  carries the address whose upper half is the extension and whose lower half is the data
  record's own, which is how an image reaches flash at 0x10000000.\<close>

theorem hex_extended_linear_base:
  assumes "\<not> seen_eof p" and "length payload \<le> 255"
    and "hex_parser_feed p (Some (CHR '':'' # hex_encode
        (hex_frame HEX_RECORD_EXTENDED_LINEAR 0 [ucast (drop_bit 8 upper), ucast (upper :: u16)]))) r
      = (res, p', r')"
  shows "res = HEX_OK \<and> p' = p\<lparr>address_base := push_bit 16 (ucast upper)\<rparr>
    \<and> rec_address (snd (snd (hex_parser_feed p' (Some (CHR '':'' # hex_encode
        (hex_frame HEX_RECORD_DATA addr payload))) r')))
      = push_bit 16 (ucast upper) + ucast addr"
proof -
  let ?ext = "[ucast (drop_bit 8 upper), ucast upper] :: u8 list"
  have word: "push_bit 8 (ucast (ucast (drop_bit 8 upper) :: u8)) OR ucast (ucast upper :: u8)
      = (ucast upper :: u32)" (is "?l = ?r")
  proof (rule bit_word_eqI)
    fix n assume "n < LENGTH(32)"
    then consider "n < 8" | "8 \<le> n" "n < 16" | "16 \<le> n" "n < 32" by fastforce
    then show "bit ?l n = bit ?r n"
      by cases (auto simp: bit_simps bit_word_beyond)
  qed
  have ext: "apply_extension p (framed_record HEX_RECORD_EXTENDED_LINEAR ?ext)
      = (HEX_OK, p\<lparr>address_base := push_bit 16 (ucast upper)\<rparr>)"
    by (simp add: apply_extension_def framed_record_def blit_def word Let_def)
  have "hex_parser_feed p (Some ([] @ CHR '':'' # hex_encode
      (hex_frame HEX_RECORD_EXTENDED_LINEAR 0 ?ext) @ [])) r
      = (HEX_OK, p\<lparr>address_base := push_bit 16 (ucast upper)\<rparr>, framed_record HEX_RECORD_EXTENDED_LINEAR ?ext)"
    using assms(1) by (subst hex_feed_frame) (simp_all add: hex_apply_frame ext)
  with assms(3) have step: "res = HEX_OK" "p' = p\<lparr>address_base := push_bit 16 (ucast upper)\<rparr>"
    by simp_all
  then show ?thesis
    using assms(1,2) hex_feed_frame [of "[]" "[]" payload p' HEX_RECORD_DATA addr r']
    by (simp add: hex_apply_frame Let_def)
qed

text \<open>A line that is not accepted changes nothing the parser remembers, and once the
  end-of-file record has been accepted no later line is accepted or changes anything.\<close>

theorem hex_rejects_safely:
  assumes "hex_parser_feed p line r = (res, p', r')"
  shows "(res \<noteq> HEX_OK \<longrightarrow> p' = p) \<and> (hex_parser_is_complete p \<longrightarrow> res \<noteq> HEX_OK \<and> p' = p)"
  using hex_feed_refused [OF assms] hex_feed_seen_eof(1) [of p line r p' r'] assms
  by (auto simp: hex_parser_is_complete_def)

text \<open>Damage to any one byte of an accepted line is detected. Whatever the byte is replaced
  by, and wherever it lies (count, address, type, data or checksum), the damaged line is
  refused for its length or its checksum.\<close>

theorem hex_detects_damaged_byte:
  assumes "fst (hex_parser_feed p (Some (CHR '':'' # hex_encode bytes)) r) = HEX_OK"
    and "5 \<le> length bytes" and "length bytes \<le> 260"
    and "i < length bytes" and "v \<noteq> bytes ! i"
  shows "fst (hex_parser_feed q (Some (CHR '':'' # hex_encode (bytes[i := v]))) r')
    \<in> {HEX_ERR_BAD_LENGTH, HEX_ERR_BAD_CHECKSUM}"
proof -
  have sum: "sum_list bytes = 0"
    using assms(1-3) hex_feed_encoded [of "[]" "[]" bytes p r] by (auto split: if_splits)
  have "sum_list (bytes[i := v]) = sum_list bytes + v - bytes ! i"
    using assms(4) by (simp add: sum_list_replace)
  with sum assms(5) have "sum_list (bytes[i := v]) \<noteq> 0"
    by (simp add: eq_iff_diff_eq_0 [symmetric])
  with assms(2,3) hex_feed_encoded [of "[]" "[]" "bytes[i := v]" q r'] show ?thesis
    by (auto split: if_splits)
qed

theorem hex_extended_linear_base_witness:
  "rec_address (snd (snd (hex_parser_feed (hex_parser_reset\<lparr>address_base := 0x100000\<rparr>)
     (Some (CHR '':'' # hex_encode (hex_frame HEX_RECORD_DATA 0x0200 [1])))
     (framed_record HEX_RECORD_EXTENDED_LINEAR [0, 0x10])))) = 0x100200"
proof -
  have "hex_parser_feed hex_parser_reset (Some ([] @ CHR '':'' # hex_encode (hex_frame HEX_RECORD_EXTENDED_LINEAR 0
      [0, 0x10]) @ [])) hex_record_zero
    = (HEX_OK, hex_parser_reset\<lparr>address_base := 0x100000\<rparr>, framed_record HEX_RECORD_EXTENDED_LINEAR [0, 0x10])"
    by (subst hex_feed_frame)
      (simp_all add: hex_apply_frame hex_parser_reset_def Let_def apply_extension_def framed_record_def blit_def)
  then show ?thesis
    using hex_extended_linear_base [of hex_parser_reset "[1]" "0x10" hex_record_zero HEX_OK
        "hex_parser_reset\<lparr>address_base := 0x100000\<rparr>" "framed_record HEX_RECORD_EXTENDED_LINEAR [0, 0x10]" "0x0200"]
    by (simp add: hex_parser_reset_def)
qed

theorem hex_rejects_safely_witness:
  "hex_parser_feed hex_parser_reset (Some ''hello'') hex_record_zero
    = (HEX_ERR_NO_START_CODE, hex_parser_reset, hex_record_zero)"
proof -
  obtain res p' r' where run: "hex_parser_feed hex_parser_reset (Some ''hello'') hex_record_zero = (res, p', r')"
    by (metis prod_cases3)
  moreover have "res = HEX_ERR_NO_START_CODE" "r' = hex_record_zero"
    using run by (simp_all add: hex_parser_feed_def is_space_def)
  ultimately show ?thesis
    using hex_rejects_safely [OF run] by simp
qed

theorem hex_detects_damaged_byte_witness:
  "fst (hex_parser_feed hex_parser_reset (Some (CHR '':'' # hex_encode [0, 0, 0, 1, 0xFF])) hex_record_zero) = HEX_OK
   \<and> fst (hex_parser_feed hex_parser_reset (Some (CHR '':'' # hex_encode ([0, 0, 0, 1, 0xFF][3 := 0]))) hex_record_zero)
     \<in> {HEX_ERR_BAD_LENGTH, HEX_ERR_BAD_CHECKSUM}"
proof -
  have ok: "fst (hex_parser_feed hex_parser_reset (Some (CHR '':'' # hex_encode [0, 0, 0, 1, 0xFF])) hex_record_zero) = HEX_OK"
    using hex_feed_encoded [of "[]" "[]" "[0, 0, 0, 1, 0xFF]" hex_parser_reset hex_record_zero]
    by (simp add: hex_apply_record_def hex_parser_reset_def Let_def)
  then show ?thesis
    using hex_detects_damaged_byte [OF ok, of 3 0 hex_parser_reset hex_record_zero] by simp
qed

text \<open>The header promises that the record is filled only when the line is accepted; the
  code fills it before it looks at the type, so a line refused for its type or its payload
  size has already overwritten the caller's record.\<close>

theorem hex_record_written_on_error:
  "\<exists>p line r. case hex_parser_feed p (Some line) r of (res, p', r') \<Rightarrow>
     res = HEX_ERR_MALFORMED_RECORD \<and> p' = p \<and> r' \<noteq> r"
proof -
  have "hex_parser_feed hex_parser_reset (Some ([] @ CHR '':'' # hex_encode (hex_frame HEX_RECORD_EOF 0 [7]) @ []))
      hex_record_zero = (HEX_ERR_MALFORMED_RECORD, hex_parser_reset, framed_record HEX_RECORD_EOF [7])"
    by (subst hex_feed_frame) (simp_all add: hex_apply_frame hex_parser_reset_def Let_def)
  moreover have "framed_record HEX_RECORD_EOF [7] \<noteq> hex_record_zero"
    by (simp add: framed_record_def hex_record_zero_def)
  ultimately show ?thesis
    by (intro exI [of _ hex_parser_reset] exI [of _ hex_record_zero]
        exI [of _ "[] @ CHR '':'' # hex_encode (hex_frame HEX_RECORD_EOF 0 [7]) @ []"]) simp
qed

end
