(* ===== verification/Flash_Layout.thy ===== *)
theory Flash_Layout
  imports Prelude
begin

text \<open>
  Model of \<open>components/flash_storage/flash_layout\<close>: how the chip is divided into the
  application, staging, manifest and data regions, and the bound checks every erase and
  program goes through. All offsets and sizes are 32-bit words, so the wrap-around of the C
  code is in the model. The lemmas show that a computed layout partitions the chip into
  sector-aligned regions and that the bound check is exactly the integer inequality.
\<close>

abbreviation (input) FLASH_LAYOUT_SECTOR_SIZE :: u32 where "FLASH_LAYOUT_SECTOR_SIZE \<equiv> 4096"
abbreviation (input) FLASH_LAYOUT_PAGE_SIZE :: u32 where "FLASH_LAYOUT_PAGE_SIZE \<equiv> 256"
abbreviation (input) FLASH_LAYOUT_MANIFEST_SECTORS :: u32 where "FLASH_LAYOUT_MANIFEST_SECTORS \<equiv> 1"

record flash_region_t =
  reg_offset :: u32
  reg_size :: u32

record flash_layout_t =
  application :: flash_region_t
  staging :: flash_region_t
  manifest :: flash_region_t
  data_region :: flash_region_t

datatype flash_layout_result_t =
    FLASH_LAYOUT_OK
  | FLASH_LAYOUT_ERR_INVALID_ARG
  | FLASH_LAYOUT_ERR_TOO_SMALL
  | FLASH_LAYOUT_ERR_UNALIGNED
  | FLASH_LAYOUT_ERR_OUT_OF_RANGE

definition flash_offset_is_sector_aligned :: "u32 \<Rightarrow> bool" where
  "flash_offset_is_sector_aligned offset \<longleftrightarrow> offset mod FLASH_LAYOUT_SECTOR_SIZE = 0"

definition flash_offset_is_page_aligned :: "u32 \<Rightarrow> bool" where
  "flash_offset_is_page_aligned offset \<longleftrightarrow> offset mod FLASH_LAYOUT_PAGE_SIZE = 0"

text \<open>The layout the caller passes is written only when the result is \<open>FLASH_LAYOUT_OK\<close>.\<close>

definition flash_layout_compute ::
  "u32 \<Rightarrow> u32 \<Rightarrow> flash_layout_t \<Rightarrow> flash_layout_result_t \<times> flash_layout_t" where
  "flash_layout_compute flash_size data_sectors layout =
     (if \<not> flash_offset_is_sector_aligned flash_size then (FLASH_LAYOUT_ERR_INVALID_ARG, layout)
      else
        (let total_sectors = flash_size div FLASH_LAYOUT_SECTOR_SIZE in
         if data_sectors < FLASH_LAYOUT_MANIFEST_SECTORS + 1 \<or> total_sectors < data_sectors + 2
         then (FLASH_LAYOUT_ERR_TOO_SMALL, layout)
         else
           (let image_sectors = (total_sectors - data_sectors) div 2;
                image_size = image_sectors * FLASH_LAYOUT_SECTOR_SIZE;
                manifest_offset = 2 * image_size;
                manifest_size = FLASH_LAYOUT_MANIFEST_SECTORS * FLASH_LAYOUT_SECTOR_SIZE;
                data_offset = manifest_offset + manifest_size
            in (FLASH_LAYOUT_OK,
                \<lparr>application = \<lparr>reg_offset = 0, reg_size = image_size\<rparr>,
                 staging = \<lparr>reg_offset = image_size, reg_size = image_size\<rparr>,
                 manifest = \<lparr>reg_offset = manifest_offset, reg_size = manifest_size\<rparr>,
                 data_region = \<lparr>reg_offset = data_offset, reg_size = flash_size - data_offset\<rparr>\<rparr>))))"

definition flash_layout_zero :: flash_layout_t where
  "flash_layout_zero =
     (let none = \<lparr>reg_offset = 0, reg_size = 0\<rparr>
      in \<lparr>application = none, staging = none, manifest = none, data_region = none\<rparr>)"

text \<open>\<open>flash_layout_get\<close> computes the layout of the build once; the chip size and the number of
  data sectors are the build's settings.\<close>

definition flash_layout_get :: "u32 \<Rightarrow> u32 \<Rightarrow> flash_layout_t" where
  "flash_layout_get flash_size data_sectors =
     (case flash_layout_compute flash_size data_sectors flash_layout_zero of
        (result, layout) \<Rightarrow> if result \<noteq> FLASH_LAYOUT_OK then flash_layout_zero else layout)"

definition flash_region_contains :: "flash_region_t \<Rightarrow> u32 \<Rightarrow> u32 \<Rightarrow> bool" where
  "flash_region_contains region offset sz =
     (if reg_size region = 0 then False
      else if sz = 0 then offset \<le> reg_size region
      else if reg_size region < offset \<or> reg_size region - offset < sz then False
      else True)"

definition flash_region_check_erase :: "flash_region_t \<Rightarrow> u32 \<Rightarrow> u32 \<Rightarrow> flash_layout_result_t" where
  "flash_region_check_erase region offset sz =
     (if \<not> flash_region_contains region offset sz then FLASH_LAYOUT_ERR_OUT_OF_RANGE
      else if \<not> flash_offset_is_sector_aligned (reg_offset region)
        \<or> \<not> flash_offset_is_sector_aligned offset \<or> \<not> flash_offset_is_sector_aligned sz
      then FLASH_LAYOUT_ERR_UNALIGNED
      else FLASH_LAYOUT_OK)"

definition flash_region_check_program :: "flash_region_t \<Rightarrow> u32 \<Rightarrow> u32 \<Rightarrow> flash_layout_result_t" where
  "flash_region_check_program region offset sz =
     (if \<not> flash_region_contains region offset sz then FLASH_LAYOUT_ERR_OUT_OF_RANGE
      else if \<not> flash_offset_is_page_aligned (reg_offset region)
        \<or> \<not> flash_offset_is_page_aligned offset \<or> \<not> flash_offset_is_page_aligned sz
      then FLASH_LAYOUT_ERR_UNALIGNED
      else FLASH_LAYOUT_OK)"

definition flash_region_sector_count :: "flash_region_t \<Rightarrow> u32" where
  "flash_region_sector_count region = reg_size region div FLASH_LAYOUT_SECTOR_SIZE"

definition flash_region_absolute :: "flash_region_t \<Rightarrow> u32 \<Rightarrow> u32" where
  "flash_region_absolute region offset = reg_offset region + offset"

definition flash_round_up_to_sector :: "u32 \<Rightarrow> u32" where
  "flash_round_up_to_sector sz =
     (sz + FLASH_LAYOUT_SECTOR_SIZE - 1) AND NOT (FLASH_LAYOUT_SECTOR_SIZE - 1)"

fun flash_layout_result_name :: "flash_layout_result_t \<Rightarrow> string" where
  "flash_layout_result_name FLASH_LAYOUT_OK = ''ok''"
| "flash_layout_result_name FLASH_LAYOUT_ERR_INVALID_ARG = ''invalid argument''"
| "flash_layout_result_name FLASH_LAYOUT_ERR_TOO_SMALL = ''flash too small to divide''"
| "flash_layout_result_name FLASH_LAYOUT_ERR_UNALIGNED = ''not on a sector or page boundary''"
| "flash_layout_result_name FLASH_LAYOUT_ERR_OUT_OF_RANGE = ''outside the region''"

subsection \<open>Regions as intervals of the chip\<close>

text \<open>First offset, and one past the last, as natural numbers.\<close>

definition reg_lo :: "flash_region_t \<Rightarrow> nat" where
  "reg_lo r = unat (reg_offset r)"

definition reg_hi :: "flash_region_t \<Rightarrow> nat" where
  "reg_hi r = unat (reg_offset r) + unat (reg_size r)"

lemma unat_u32_arith:
  fixes a b :: u32
  shows "unat a + unat b < 4294967296 \<Longrightarrow> unat (a + b) = unat a + unat b"
    and "b \<le> a \<Longrightarrow> unat (a - b) = unat a - unat b"
    and "unat a * unat b < 4294967296 \<Longrightarrow> unat (a * b) = unat a * unat b"
  by (simp_all add: unat_word_ariths unat_sub word_le_nat_alt)

lemma sector_aligned_iff: "flash_offset_is_sector_aligned x \<longleftrightarrow> 4096 dvd unat x"
  by (simp add: flash_offset_is_sector_aligned_def word_eq_unat_iff unat_mod mod_eq_0_iff_dvd)

lemma page_aligned_iff: "flash_offset_is_page_aligned x \<longleftrightarrow> 256 dvd unat x"
  by (simp add: flash_offset_is_page_aligned_def word_eq_unat_iff unat_mod mod_eq_0_iff_dvd)

lemma flash_region_contains_iff:
  "flash_region_contains r offset sz \<longleftrightarrow>
     0 < unat (reg_size r) \<and> unat offset + unat sz \<le> unat (reg_size r)"
proof (cases "reg_size r < offset")
  case True
  then show ?thesis
    by (auto simp: flash_region_contains_def word_less_nat_alt word_le_nat_alt unat_gt_0)
next
  case False
  then have "unat (reg_size r - offset) = unat (reg_size r) - unat offset"
    by (simp add: unat_u32_arith(2) not_less)
  with False show ?thesis
    by (auto simp: flash_region_contains_def word_less_nat_alt word_le_nat_alt unat_gt_0 unat_eq_0)
qed

lemma flash_region_check_erase_ok:
  "flash_region_check_erase r offset sz = FLASH_LAYOUT_OK \<longleftrightarrow>
     flash_region_contains r offset sz \<and> 4096 dvd unat (reg_offset r) \<and> 4096 dvd unat offset
     \<and> 4096 dvd unat sz"
  by (auto simp: flash_region_check_erase_def sector_aligned_iff)

lemma flash_region_check_program_ok:
  "flash_region_check_program r offset sz = FLASH_LAYOUT_OK \<longleftrightarrow>
     flash_region_contains r offset sz \<and> 256 dvd unat (reg_offset r) \<and> 256 dvd unat offset
     \<and> 256 dvd unat sz"
  by (auto simp: flash_region_check_program_def page_aligned_iff)


subsection \<open>The division of the chip\<close>

lemma flash_layout_compute_ok:
  assumes "flash_layout_compute fs ds l0 = (FLASH_LAYOUT_OK, l)" and "ds < 0xFFFFFFFE"
  obtains n where
    "unat fs = 4096 * (unat fs div 4096)" "2 \<le> unat ds" "unat ds + 2 \<le> unat fs div 4096"
    "n = (unat fs div 4096 - unat ds) div 2"
    "l = \<lparr>application = \<lparr>reg_offset = 0, reg_size = word_of_nat (4096 * n)\<rparr>,
          staging = \<lparr>reg_offset = word_of_nat (4096 * n), reg_size = word_of_nat (4096 * n)\<rparr>,
          manifest = \<lparr>reg_offset = word_of_nat (8192 * n), reg_size = 4096\<rparr>,
          data_region = \<lparr>reg_offset = word_of_nat (8192 * n + 4096),
            reg_size = word_of_nat (unat fs - (8192 * n + 4096))\<rparr>\<rparr>"
proof
  let ?t = "unat fs div 4096"
  define n where "n = (?t - unat ds) div 2"
  have ds: "unat ds < 4294967294" using assms(2) by (simp add: word_less_nat_alt)
  then have ds2: "unat (ds + 2) = unat ds + 2" by (subst unat_u32_arith(1)) simp_all
  have t: "unat (fs div 4096) = ?t" by (simp add: unat_div)
  from assms(1) have ok: "4096 dvd unat fs" "\<not> ds < 2" "\<not> fs div 4096 < ds + 2"
    by (auto simp: flash_layout_compute_def Let_def sector_aligned_iff split: if_splits)
  then show mult: "unat fs = 4096 * ?t" by simp
  from ok show two: "2 \<le> unat ds" and fit: "unat ds + 2 \<le> ?t"
    by (auto simp: word_less_nat_alt t ds2)
  show "(?t - unat ds) div 2 = (?t - unat ds) div 2" by (rule refl)
  have fs: "4096 * ?t < 4294967296" using unat_u32_lt [of fs] mult by linarith
  have n: "8192 * n + 8192 \<le> 4096 * ?t" "2 * n + 2 \<le> ?t"
    using two fit by (auto simp: n_def)
  have "ds \<le> fs div 4096" using fit by (simp add: word_le_nat_alt t)
  then have im: "(fs div 4096 - ds) div 2 = word_of_nat n"
    by (simp add: word_eq_unat_iff unat_div unat_u32_arith(2) t n_def unat_of_nat_lt
        del: of_nat_diff) (use fs in \<open>simp add: unat_of_nat_lt\<close>)
  then have eqs: "(fs div 4096 - ds) div 2 * 4096 = word_of_nat (4096 * n)"
    "8192 * ((fs div 4096 - ds) div 2) = word_of_nat (8192 * n)"
    "word_of_nat (8192 * n) + (4096 :: u32) = word_of_nat (8192 * n + 4096)"
    by simp_all
  have "fs - word_of_nat (8192 * n + 4096) = word_of_nat (unat fs - (8192 * n + 4096))"
    using n mult by (simp add: of_nat_diff)
  with assms(1) eqs show "l = \<lparr>application = \<lparr>reg_offset = 0, reg_size = word_of_nat (4096 * ((?t - unat ds) div 2))\<rparr>,
          staging = \<lparr>reg_offset = word_of_nat (4096 * ((?t - unat ds) div 2)),
            reg_size = word_of_nat (4096 * ((?t - unat ds) div 2))\<rparr>,
          manifest = \<lparr>reg_offset = word_of_nat (8192 * ((?t - unat ds) div 2)), reg_size = 4096\<rparr>,
          data_region = \<lparr>reg_offset = word_of_nat (8192 * ((?t - unat ds) div 2) + 4096),
            reg_size = word_of_nat (unat fs - (8192 * ((?t - unat ds) div 2) + 4096))\<rparr>\<rparr>"
    unfolding n_def [symmetric]
    by (auto simp: flash_layout_compute_def Let_def simp del: of_nat_mult of_nat_add split: if_splits)
qed


lemma flash_layout_get_eq:
  "flash_layout_compute fs ds flash_layout_zero = (FLASH_LAYOUT_OK, l) \<Longrightarrow> flash_layout_get fs ds = l"
  by (simp add: flash_layout_get_def)

lemma flash_round_up_unat:
  assumes "unat sz \<le> 4294963200"
  shows "unat (flash_round_up_to_sector sz) = (unat sz + 4095) div 4096 * 4096"
proof -
  have mask: "x AND - 4096 = drop_bit 12 x * 4096" for x :: u32
  proof -
    have "x AND NOT (mask 12) = push_bit 12 (drop_bit 12 x)"
      by (rule bit_word_eqI) (auto simp: bit_simps)
    then show ?thesis by (simp add: mask_eq_exp_minus_1 push_bit_eq_mult)
  qed
  have up: "unat (sz + 4095) = unat sz + 4095"
    using assms by (subst unat_u32_arith(1)) simp_all
  have "flash_round_up_to_sector sz = drop_bit 12 (sz + 4095) * 4096"
    by (simp add: flash_round_up_to_sector_def mask add.commute)
  moreover have "unat (drop_bit 12 (sz + 4095)) = (unat sz + 4095) div 4096"
    by (simp add: unat_drop_bit_div up)
  moreover have "(unat sz + 4095) div 4096 * 4096 < 4294967296"
    using assms by (intro le_less_trans [OF div_times_less_eq_dividend]) simp
  ultimately show ?thesis
    by (simp add: unat_u32_arith(3))
qed

subsection \<open>Properties\<close>

text \<open>C11: a computed layout partitions the chip. The four regions follow one another from offset
  0 to the end of the flash with no gap and no overlap, every boundary is a sector boundary,
  application and staging have the same non-zero size, and the data region keeps every
  reserved sector but the manifest's.\<close>

theorem flash_layout_partition:
  assumes "flash_layout_compute fs ds l0 = (FLASH_LAYOUT_OK, l)" and "ds < 0xFFFFFFFE"
  shows "reg_lo (application l) = 0
    \<and> reg_hi (application l) = reg_lo (staging l)
    \<and> reg_hi (staging l) = reg_lo (manifest l)
    \<and> reg_hi (manifest l) = reg_lo (data_region l)
    \<and> reg_hi (data_region l) = unat fs
    \<and> reg_size (application l) = reg_size (staging l)
    \<and> reg_size (manifest l) = FLASH_LAYOUT_SECTOR_SIZE
    \<and> 0 < unat (reg_size (staging l))
    \<and> 4096 * (unat ds - 1) \<le> unat (reg_size (data_region l))
    \<and> (\<forall>r \<in> {application l, staging l, manifest l, data_region l}.
      4096 dvd unat (reg_offset r) \<and> 4096 dvd unat (reg_size r))"
proof -
  from assms obtain n where *: "unat fs = 4096 * (unat fs div 4096)" "2 \<le> unat ds"
      "unat ds + 2 \<le> unat fs div 4096" "n = (unat fs div 4096 - unat ds) div 2"
    and l: "l = \<lparr>application = \<lparr>reg_offset = 0, reg_size = word_of_nat (4096 * n)\<rparr>,
          staging = \<lparr>reg_offset = word_of_nat (4096 * n), reg_size = word_of_nat (4096 * n)\<rparr>,
          manifest = \<lparr>reg_offset = word_of_nat (8192 * n), reg_size = 4096\<rparr>,
          data_region = \<lparr>reg_offset = word_of_nat (8192 * n + 4096),
            reg_size = word_of_nat (unat fs - (8192 * n + 4096))\<rparr>\<rparr>"
    by (rule flash_layout_compute_ok)
  have n: "1 \<le> n" "2 * n + unat ds \<le> unat fs div 4096" using * by auto
  then have fits: "8192 * n + 4096 * unat ds \<le> unat fs" using *(1) by linarith
  have u: "unat (word_of_nat (4096 * n) :: u32) = 4096 * n"
    "unat (word_of_nat (8192 * n) :: u32) = 8192 * n"
    "unat (word_of_nat (8192 * n + 4096) :: u32) = 8192 * n + 4096"
    "unat (word_of_nat (unat fs - (8192 * n + 4096)) :: u32) = unat fs - (8192 * n + 4096)"
    using fits *(2) unat_u32_lt [of fs] by - (rule unat_of_nat_lt, simp)+
  have "4096 dvd unat fs" using *(1) by (metis dvd_triv_left)
  then have d: "4096 dvd unat fs - (8192 * n + 4096)"
    by (intro dvd_diff_nat) (auto intro: dvd_add)
  have "reg_lo (application l) = 0" "reg_hi (application l) = reg_lo (staging l)"
    "reg_hi (staging l) = reg_lo (manifest l)" "reg_hi (manifest l) = reg_lo (data_region l)"
    "reg_size (application l) = reg_size (staging l)" "reg_size (manifest l) = FLASH_LAYOUT_SECTOR_SIZE"
    "0 < unat (reg_size (staging l))"
    using n(1) by (simp_all only: l reg_lo_def reg_hi_def flash_layout_t.simps flash_region_t.simps u)
      (simp_all add: l)
  moreover have "reg_hi (data_region l) = unat fs" "4096 * (unat ds - 1) \<le> unat (reg_size (data_region l))"
    using fits *(2) by (simp_all only: l reg_hi_def flash_layout_t.simps flash_region_t.simps u)
  moreover have "\<forall>r \<in> {application l, staging l, manifest l, data_region l}.
      4096 dvd unat (reg_offset r) \<and> 4096 dvd unat (reg_size r)"
    using d by (simp only: l flash_layout_t.simps flash_region_t.simps u ball_simps) auto
  ultimately show ?thesis by (intro conjI)
qed

theorem flash_layout_partition_witness:
  "\<exists>l. flash_layout_compute 0x200000 32 flash_layout_zero = (FLASH_LAYOUT_OK, l)
     \<and> reg_hi (staging l) = reg_lo (manifest l) \<and> reg_hi (data_region l) = 0x200000"
proof -
  obtain l where l: "flash_layout_compute 0x200000 32 flash_layout_zero = (FLASH_LAYOUT_OK, l)"
    by (simp add: flash_layout_compute_def flash_offset_is_sector_aligned_def Let_def)
  with flash_layout_partition [OF l] show ?thesis by simp
qed

text \<open>The bound check every flash operation goes through is exactly the integer inequality:
  a span passes when the region is not empty and the span's end, computed without wrap-around,
  is within it. A size that would wrap the 32-bit sum cannot pass.\<close>

theorem flash_region_contains_exact:
  "flash_region_contains r offset sz \<longleftrightarrow>
     0 < unat (reg_size r) \<and> unat offset + unat sz \<le> unat (reg_size r)"
  by (rule flash_region_contains_iff)

text \<open>Rounding a payload length up to sectors gives the least multiple of 4096 that is not
  below it, for every length up to the last whole sector a 32-bit size can name.\<close>

theorem flash_round_up_least:
  assumes "unat sz \<le> 4294963200"
  shows "4096 dvd unat (flash_round_up_to_sector sz) \<and> unat sz \<le> unat (flash_round_up_to_sector sz)
    \<and> unat (flash_round_up_to_sector sz) < unat sz + 4096"
  unfolding flash_round_up_unat [OF assms] by auto

theorem flash_round_up_least_witness:
  "unat (flash_round_up_to_sector 50000) = 53248 \<and> (50000 :: nat) \<le> 53248"
proof -
  have "unat (flash_round_up_to_sector 50000) = 53248" by (simp add: flash_round_up_to_sector_def)
  with flash_round_up_least [of 50000] show ?thesis by simp
qed

text \<open>The header promises that a chip too small to divide is refused. The guard adds 2 to
  the number of reserved sectors in 32 bits, so a request for nearly \<open>2^32\<close> sectors wraps, is
  accepted, and yields a manifest beyond the end of the chip.\<close>

theorem flash_layout_guard_wraps:
  "\<exists>l. flash_layout_compute 0x200000 0xFFFFFFFE flash_layout_zero = (FLASH_LAYOUT_OK, l)
     \<and> 0x200000 < reg_lo (manifest l)"
  by (simp add: flash_layout_compute_def flash_offset_is_sector_aligned_def Let_def reg_lo_def)

end
