(* ===== verification/Flash_Storage.thy ===== *)
theory Flash_Storage
  imports Flash_Layout Crc
begin

text \<open>
  Model of \<open>components/flash_storage/flash_storage\<close>: erasing, programming and reading one region
  of the chip. The SDK underneath is not part of the repository, so it is a parameter, the
  record \<open>flash_sdk\<close>: the two flash primitives, \<open>flash_safe_execute\<close> that runs one of them or
  refuses, the XIP window through which flash is read, and where the running code sits. What
  the component relies on is the predicate \<open>flash_sdk_ok\<close>, which is what the SDK documents:
  an erase leaves 0xFF in its span, programming can only clear bits, both leave the rest of
  the chip alone, and an operation that is refused does nothing.
  The locale \<open>region_flash\<close> is what the components above rely on, and is interpreted on these
  definitions.
\<close>

datatype flash_storage_result_t =
    FLASH_STORAGE_OK
  | FLASH_STORAGE_ERR_INVALID_ARG
  | FLASH_STORAGE_ERR_OUT_OF_RANGE
  | FLASH_STORAGE_ERR_UNALIGNED
  | FLASH_STORAGE_ERR_RUNNING_FROM_REGION
  | FLASH_STORAGE_ERR_NOT_SAFE
  | FLASH_STORAGE_ERR_VERIFY_FAILED

text \<open>The SDK, over any type of hardware states. \<open>xip f i\<close> is the byte at offset \<open>i\<close> of the chip;
  \<open>running_code\<close> is the offset of the executing function, or \<open>None\<close> when it runs from RAM.\<close>

record 'f flash_sdk =
  flash_range_erase :: "u32 \<Rightarrow> u32 \<Rightarrow> 'f \<Rightarrow> 'f"
  flash_range_program :: "u32 \<Rightarrow> u8 list \<Rightarrow> 'f \<Rightarrow> 'f"
  flash_safe_execute :: "('f \<Rightarrow> 'f) \<Rightarrow> 'f \<Rightarrow> bool \<times> 'f"
  xip :: "'f \<Rightarrow> nat \<Rightarrow> u8"
  running_code :: "u32 option"
  chip_size :: nat

definition flash_sdk_ok :: "'f flash_sdk \<Rightarrow> bool" where
  "flash_sdk_ok sdk \<longleftrightarrow>
     (\<forall>at n f i. 4096 dvd unat at \<and> 4096 dvd unat n \<and> unat at + unat n \<le> chip_size sdk \<longrightarrow>
        xip sdk (flash_range_erase sdk at n f) i =
          (if unat at \<le> i \<and> i < unat at + unat n then 0xFF else xip sdk f i))
   \<and> (\<forall>at data f i. 256 dvd unat at \<and> 256 dvd length data \<and> unat at + length data \<le> chip_size sdk \<longrightarrow>
        xip sdk (flash_range_program sdk at data f) i =
          (if unat at \<le> i \<and> i < unat at + length data then xip sdk f i AND data ! (i - unat at)
           else xip sdk f i))
   \<and> (\<forall>op f ok f'. flash_safe_execute sdk op f = (ok, f') \<longrightarrow>
        xip sdk f' = xip sdk (if ok then op f else f))"

subsection \<open>Operations\<close>

definition flash_storage_holds_running_code :: "'f flash_sdk \<Rightarrow> flash_region_t \<Rightarrow> bool" where
  "flash_storage_holds_running_code sdk region =
     (if reg_size region = 0 then False
      else case running_code sdk of
             None \<Rightarrow> False
           | Some offset \<Rightarrow>
               reg_offset region \<le> offset \<and> offset < reg_offset region + reg_size region)"

fun translate :: "flash_layout_result_t \<Rightarrow> flash_storage_result_t" where
  "translate FLASH_LAYOUT_OK = FLASH_STORAGE_OK"
| "translate FLASH_LAYOUT_ERR_UNALIGNED = FLASH_STORAGE_ERR_UNALIGNED"
| "translate FLASH_LAYOUT_ERR_OUT_OF_RANGE = FLASH_STORAGE_ERR_OUT_OF_RANGE"
| "translate _ = FLASH_STORAGE_ERR_INVALID_ARG"

definition precheck :: "'f flash_sdk \<Rightarrow> flash_region_t \<Rightarrow> flash_storage_result_t" where
  "precheck sdk region =
     (if reg_size region = 0 then FLASH_STORAGE_ERR_INVALID_ARG
      else if flash_storage_holds_running_code sdk region
      then FLASH_STORAGE_ERR_RUNNING_FROM_REGION
      else FLASH_STORAGE_OK)"

definition flash_storage_erase ::
  "'f flash_sdk \<Rightarrow> flash_region_t \<Rightarrow> u32 \<Rightarrow> u32 \<Rightarrow> 'f \<Rightarrow> flash_storage_result_t \<times> 'f" where
  "flash_storage_erase sdk region offset sz f =
     (let checked = precheck sdk region in
      if checked \<noteq> FLASH_STORAGE_OK then (checked, f)
      else
        (let bounds = translate (flash_region_check_erase region offset sz) in
         if bounds \<noteq> FLASH_STORAGE_OK then (bounds, f)
         else if sz = 0 then (FLASH_STORAGE_OK, f)
         else
           (case flash_safe_execute sdk
                   (flash_range_erase sdk (flash_region_absolute region offset) sz) f of
              (ok, f') \<Rightarrow> (if ok then FLASH_STORAGE_OK else FLASH_STORAGE_ERR_NOT_SAFE, f'))))"

text \<open>\<open>data\<close> is \<open>None\<close> for a \<open>NULL\<close> pointer; \<open>sz\<close> bytes of it are programmed.\<close>

definition flash_storage_program ::
  "'f flash_sdk \<Rightarrow> flash_region_t \<Rightarrow> u32 \<Rightarrow> u8 list option \<Rightarrow> u32 \<Rightarrow> 'f
    \<Rightarrow> flash_storage_result_t \<times> 'f" where
  "flash_storage_program sdk region offset data sz f =
     (let checked = precheck sdk region in
      if checked \<noteq> FLASH_STORAGE_OK then (checked, f)
      else if data = None \<and> 0 < sz then (FLASH_STORAGE_ERR_INVALID_ARG, f)
      else
        (let bounds = translate (flash_region_check_program region offset sz) in
         if bounds \<noteq> FLASH_STORAGE_OK then (bounds, f)
         else
           (case data of
              None \<Rightarrow> (FLASH_STORAGE_OK, f)
            | Some bytes \<Rightarrow>
                if sz = 0 then (FLASH_STORAGE_OK, f)
                else
                  (case flash_safe_execute sdk
                          (flash_range_program sdk (flash_region_absolute region offset)
                             (take (unat sz) bytes)) f of
                     (ok, f') \<Rightarrow> (if ok then FLASH_STORAGE_OK else FLASH_STORAGE_ERR_NOT_SAFE, f')))))"

text \<open>The bytes a pointer into the XIP window reads.\<close>

definition xip_bytes :: "'f flash_sdk \<Rightarrow> 'f \<Rightarrow> nat \<Rightarrow> nat \<Rightarrow> u8 list" where
  "xip_bytes sdk f at n = map (xip sdk f) [at..<at + n]"

definition flash_storage_data ::
  "'f flash_sdk \<Rightarrow> flash_region_t \<Rightarrow> u32 \<Rightarrow> u32 \<Rightarrow> 'f \<Rightarrow> u8 list option" where
  "flash_storage_data sdk region offset sz f =
     (if \<not> flash_region_contains region offset sz then None
      else Some (xip_bytes sdk f (unat (flash_region_absolute region offset)) (unat sz)))"

definition flash_storage_program_verified ::
  "'f flash_sdk \<Rightarrow> flash_region_t \<Rightarrow> u32 \<Rightarrow> u8 list option \<Rightarrow> u32 \<Rightarrow> 'f
    \<Rightarrow> flash_storage_result_t \<times> 'f" where
  "flash_storage_program_verified sdk region offset data sz f =
     (case flash_storage_program sdk region offset data sz f of
        (written, f') \<Rightarrow>
          if written \<noteq> FLASH_STORAGE_OK then (written, f')
          else
            (case flash_storage_data sdk region offset sz f' of
               None \<Rightarrow> (FLASH_STORAGE_ERR_OUT_OF_RANGE, f')
             | Some stored \<Rightarrow>
                 if stored \<noteq> take (unat sz) (case data of None \<Rightarrow> [] | Some bytes \<Rightarrow> bytes)
                 then (FLASH_STORAGE_ERR_VERIFY_FAILED, f')
                 else (FLASH_STORAGE_OK, f')))"

definition flash_storage_is_erased ::
  "'f flash_sdk \<Rightarrow> flash_region_t \<Rightarrow> u32 \<Rightarrow> u32 \<Rightarrow> 'f \<Rightarrow> bool" where
  "flash_storage_is_erased sdk region offset sz f =
     (case flash_storage_data sdk region offset sz f of
        None \<Rightarrow> False
      | Some bytes \<Rightarrow> list_all (\<lambda>b. b = 0xFF) bytes)"

definition flash_storage_crc32 ::
  "'f flash_sdk \<Rightarrow> flash_region_t \<Rightarrow> u32 \<Rightarrow> u32 \<Rightarrow> 'f \<Rightarrow> u32" where
  "flash_storage_crc32 sdk region offset sz f =
     (case flash_storage_data sdk region offset sz f of
        None \<Rightarrow> 0
      | Some bytes \<Rightarrow> crc32 (Some bytes))"

fun flash_storage_result_name :: "flash_storage_result_t \<Rightarrow> string" where
  "flash_storage_result_name FLASH_STORAGE_OK = ''ok''"
| "flash_storage_result_name FLASH_STORAGE_ERR_INVALID_ARG = ''invalid argument''"
| "flash_storage_result_name FLASH_STORAGE_ERR_OUT_OF_RANGE = ''outside the region''"
| "flash_storage_result_name FLASH_STORAGE_ERR_UNALIGNED = ''not on a sector or page boundary''"
| "flash_storage_result_name FLASH_STORAGE_ERR_RUNNING_FROM_REGION = ''would erase the running code''"
| "flash_storage_result_name FLASH_STORAGE_ERR_NOT_SAFE = ''could not hold off the other core''"
| "flash_storage_result_name FLASH_STORAGE_ERR_VERIFY_FAILED = ''read back differs from what was written''"

subsection \<open>What the operations do to the chip\<close>

text \<open>A region the model can use: the SDK behaves as documented and the region is on the chip.\<close>

definition usable :: "'f flash_sdk \<Rightarrow> flash_region_t \<Rightarrow> bool" where
  "usable sdk r \<longleftrightarrow> flash_sdk_ok sdk \<and> reg_hi r \<le> chip_size sdk \<and> chip_size sdk < 2 ^ 32"

definition in_span :: "flash_region_t \<Rightarrow> u32 \<Rightarrow> nat \<Rightarrow> nat \<Rightarrow> bool" where
  "in_span r offset n i \<longleftrightarrow> reg_lo r + unat offset \<le> i \<and> i < reg_lo r + unat offset + n"

lemma translate_ok [simp]: "translate e = FLASH_STORAGE_OK \<longleftrightarrow> e = FLASH_LAYOUT_OK"
  by (cases e) simp_all

lemma unat_absolute:
  assumes "usable sdk r" and "flash_region_contains r offset sz"
  shows "unat (flash_region_absolute r offset) = reg_lo r + unat offset"
    and "reg_lo r + unat offset + unat sz \<le> reg_hi r"
  using assms by (auto simp: usable_def flash_region_contains_iff reg_hi_def reg_lo_def
      flash_region_absolute_def unat_u32_arith(1))

lemma length_xip_bytes [simp]: "length (xip_bytes sdk f at n) = n"
  by (simp add: xip_bytes_def)

lemma nth_xip_bytes [simp]: "i < n \<Longrightarrow> xip_bytes sdk f at n ! i = xip sdk f (at + i)"
  by (simp add: xip_bytes_def)

lemma xip_bytes_cong:
  "(\<And>i. at \<le> i \<Longrightarrow> i < at + n \<Longrightarrow> xip sdk f i = xip sdk g i) \<Longrightarrow> xip_bytes sdk f at n = xip_bytes sdk g at n"
  by (simp add: xip_bytes_def)

lemma take_xip_bytes: "m \<le> n \<Longrightarrow> take m (xip_bytes sdk f at n) = xip_bytes sdk f at m"
  by (rule nth_equalityI) auto


lemma sdk_erase:
  "flash_sdk_ok sdk \<Longrightarrow> 4096 dvd unat at \<Longrightarrow> 4096 dvd unat n \<Longrightarrow> unat at + unat n \<le> chip_size sdk \<Longrightarrow>
    xip sdk (flash_range_erase sdk at n f) i =
      (if unat at \<le> i \<and> i < unat at + unat n then 0xFF else xip sdk f i)"
  unfolding flash_sdk_ok_def by blast

lemma sdk_program:
  "flash_sdk_ok sdk \<Longrightarrow> 256 dvd unat at \<Longrightarrow> 256 dvd length data \<Longrightarrow> unat at + length data \<le> chip_size sdk \<Longrightarrow>
    xip sdk (flash_range_program sdk at data f) i =
      (if unat at \<le> i \<and> i < unat at + length data then xip sdk f i AND data ! (i - unat at)
       else xip sdk f i)"
  unfolding flash_sdk_ok_def by blast

lemma sdk_execute:
  "flash_sdk_ok sdk \<Longrightarrow> flash_safe_execute sdk op f = (ok, f') \<Longrightarrow>
    xip sdk f' = xip sdk (if ok then op f else f)"
  unfolding flash_sdk_ok_def by blast

lemma flash_storage_erase_spec:
  assumes use: "usable sdk r" and run: "flash_storage_erase sdk r offset sz f = (res, f')"
  shows "(res = FLASH_STORAGE_OK \<and> flash_region_contains r offset sz
      \<and> (\<forall>i. xip sdk f' i = (if in_span r offset (unat sz) i then 0xFF else xip sdk f i)))
    \<or> (res \<noteq> FLASH_STORAGE_OK \<and> xip sdk f' = xip sdk f)"
proof (cases "precheck sdk r = FLASH_STORAGE_OK \<and> flash_region_check_erase r offset sz = FLASH_LAYOUT_OK \<and> sz \<noteq> 0")
  case False
  then show ?thesis
    using run by (auto simp: flash_storage_erase_def Let_def in_span_def flash_region_check_erase_ok
        split: if_splits prod.splits)
next
  case True
  then have bounds: "flash_region_contains r offset sz" "4096 dvd unat (reg_offset r)"
      "4096 dvd unat offset" "4096 dvd unat sz"
    by (auto simp: flash_region_check_erase_ok)
  let ?at = "flash_region_absolute r offset"
  have ok: "flash_sdk_ok sdk" using use by (simp add: usable_def)
  note at = unat_absolute [OF use bounds(1)]
  have aligned: "4096 dvd unat ?at" using bounds at by (simp add: reg_lo_def)
  have inside: "unat ?at + unat sz \<le> chip_size sdk" using at use by (simp add: usable_def)
  obtain b g where x: "flash_safe_execute sdk (flash_range_erase sdk ?at sz) f = (b, g)"
    by fastforce
  show ?thesis
    using True run x sdk_execute [OF ok x] sdk_erase [OF ok aligned bounds(4) inside] bounds(1)
    by (auto simp: flash_storage_erase_def in_span_def at(1) split: if_splits)
qed

lemma flash_storage_program_spec:
  assumes use: "usable sdk r" and len: "length bytes = unat sz"
    and run: "flash_storage_program sdk r offset (Some bytes) sz f = (res, f')"
  shows "(res = FLASH_STORAGE_OK \<and> flash_region_contains r offset sz
      \<and> (\<forall>i. xip sdk f' i = (if in_span r offset (unat sz) i
           then xip sdk f i AND bytes ! (i - (reg_lo r + unat offset)) else xip sdk f i)))
    \<or> (res \<noteq> FLASH_STORAGE_OK \<and> xip sdk f' = xip sdk f)"
proof (cases "precheck sdk r = FLASH_STORAGE_OK \<and> flash_region_check_program r offset sz = FLASH_LAYOUT_OK \<and> sz \<noteq> 0")
  case False
  then show ?thesis
    using run by (auto simp: flash_storage_program_def Let_def in_span_def flash_region_check_program_ok
        split: if_splits prod.splits)
next
  case True
  then have bounds: "flash_region_contains r offset sz" "256 dvd unat (reg_offset r)"
      "256 dvd unat offset" "256 dvd unat sz"
    by (auto simp: flash_region_check_program_ok)
  let ?at = "flash_region_absolute r offset"
  have ok: "flash_sdk_ok sdk" using use by (simp add: usable_def)
  note at = unat_absolute [OF use bounds(1)]
  have aligned: "256 dvd unat ?at" using bounds at by (simp add: reg_lo_def)
  have inside: "unat ?at + length bytes \<le> chip_size sdk" using at use len by (simp add: usable_def)
  have whole: "256 dvd length bytes" using bounds(4) len by simp
  obtain b g where x: "flash_safe_execute sdk (flash_range_program sdk ?at bytes) f = (b, g)"
    by fastforce
  show ?thesis
    using True run x sdk_execute [OF ok x] sdk_program [OF ok aligned whole inside] bounds(1) len
    by (auto simp: flash_storage_program_def in_span_def at(1) split: if_splits)
qed

lemma flash_storage_data_eq:
  assumes "usable sdk r"
  shows "flash_storage_data sdk r offset sz f =
    (if flash_region_contains r offset sz
     then Some (xip_bytes sdk f (reg_lo r + unat offset) (unat sz)) else None)"
  using unat_absolute [OF assms] by (auto simp: flash_storage_data_def)

text \<open>After a verified program the span holds the data; after any result the rest of the chip
  is untouched.\<close>

lemma flash_storage_program_verified_spec:
  assumes use: "usable sdk r" and len: "length bytes = unat sz"
    and run: "flash_storage_program_verified sdk r offset (Some bytes) sz f = (res, f')"
  shows "res = FLASH_STORAGE_OK \<Longrightarrow> flash_region_contains r offset sz"
    and "res = FLASH_STORAGE_OK \<Longrightarrow> in_span r offset (unat sz) i \<Longrightarrow>
      xip sdk f' i = bytes ! (i - (reg_lo r + unat offset))"
    and "\<not> (flash_region_contains r offset sz \<and> in_span r offset (unat sz) i) \<Longrightarrow> xip sdk f' i = xip sdk f i"
proof -
  obtain w g where p: "flash_storage_program sdk r offset (Some bytes) sz f = (w, g)" by fastforce
  then have g: "f' = g" using run
    by (auto simp: flash_storage_program_verified_def split: if_splits option.splits)
  note spec = flash_storage_program_spec [OF use len p]
  have verified: "w = FLASH_STORAGE_OK \<and> xip_bytes sdk g (reg_lo r + unat offset) (unat sz) = bytes"
    if "res = FLASH_STORAGE_OK"
    using run p that len
    by (auto simp: flash_storage_program_verified_def flash_storage_data_eq [OF use] split: if_splits option.splits)
  show "res = FLASH_STORAGE_OK \<Longrightarrow> flash_region_contains r offset sz"
    using verified spec by auto
  show "xip sdk f' i = bytes ! (i - (reg_lo r + unat offset))"
    if "res = FLASH_STORAGE_OK" "in_span r offset (unat sz) i"
  proof -
    from that(2) obtain k where k: "i = reg_lo r + unat offset + k" "k < unat sz"
      unfolding in_span_def by (metis add_less_cancel_left le_Suc_ex)
    then have "xip sdk g i = xip_bytes sdk g (reg_lo r + unat offset) (unat sz) ! k" by simp
    with verified [OF that(1)] k show ?thesis by (simp add: g)
  qed
  show "\<not> (flash_region_contains r offset sz \<and> in_span r offset (unat sz) i) \<Longrightarrow> xip sdk f' i = xip sdk f i"
    using spec g by auto
qed

text \<open>On an erased span the verification cannot fail: the only errors left are refusals, which
  leave the chip as it was.\<close>

lemma program_verified_blank_ok:
  assumes use: "usable sdk r" and len: "length bytes = unat sz"
    and p: "flash_storage_program sdk r offset (Some bytes) sz f = (FLASH_STORAGE_OK, g)"
    and blank: "\<And>i. in_span r offset (unat sz) i \<Longrightarrow> xip sdk f i = 0xFF"
  shows "flash_storage_program_verified sdk r offset (Some bytes) sz f = (FLASH_STORAGE_OK, g)"
proof -
  note spec = flash_storage_program_spec [OF use len p]
  then have c: "flash_region_contains r offset sz" by auto
  have "xip_bytes sdk g (reg_lo r + unat offset) (unat sz) = bytes"
  proof (rule nth_equalityI)
    fix k assume "k < length (xip_bytes sdk g (reg_lo r + unat offset) (unat sz))"
    then have k: "k < unat sz" by simp
    have "(0xFF :: u8) AND b = b" for b
    proof -
      have "(0xFF :: u8) = - 1" by simp
      then show ?thesis by (simp only: and.left_neutral)
    qed
    with spec blank k show "xip_bytes sdk g (reg_lo r + unat offset) (unat sz) ! k = bytes ! k"
      by (simp add: in_span_def)
  qed (simp add: len)
  with p c len show ?thesis
    by (simp add: flash_storage_program_verified_def flash_storage_data_eq [OF use])
qed

lemma flash_storage_program_verified_erased:
  assumes use: "usable sdk r" and len: "length bytes = unat sz"
    and run: "flash_storage_program_verified sdk r offset (Some bytes) sz f = (res, f')"
    and blank: "\<And>i. in_span r offset (unat sz) i \<Longrightarrow> xip sdk f i = 0xFF"
  shows "res = FLASH_STORAGE_OK \<or> xip sdk f' = xip sdk f"
proof -
  obtain w g where p: "flash_storage_program sdk r offset (Some bytes) sz f = (w, g)" by fastforce
  show ?thesis
  proof (cases "w = FLASH_STORAGE_OK")
    case True
    with program_verified_blank_ok [OF use len] p run blank show ?thesis by simp
  next
    case False
    with p run flash_storage_program_spec [OF use len p] show ?thesis
      by (auto simp: flash_storage_program_verified_def)
  qed
qed


text \<open>A verified program can only have cleared bits.\<close>

lemma program_verified_and:
  assumes use: "usable sdk r" and len: "length bytes = unat sz"
    and run: "flash_storage_program_verified sdk r offset (Some bytes) sz f = (FLASH_STORAGE_OK, f')"
    and i: "in_span r offset (unat sz) i"
  shows "xip sdk f i AND bytes ! (i - (reg_lo r + unat offset)) = bytes ! (i - (reg_lo r + unat offset))"
proof -
  obtain w g where p: "flash_storage_program sdk r offset (Some bytes) sz f = (w, g)" by fastforce
  then have w: "w = FLASH_STORAGE_OK" "g = f'" using run
    by (auto simp: flash_storage_program_verified_def split: if_splits option.splits)
  show ?thesis
    using flash_storage_program_spec [OF use len p] w i
      flash_storage_program_verified_spec(2) [OF use len run refl i] by auto
qed

subsection \<open>The contract with the components above\<close>

text \<open>
  What the firmware updater and the persistent configuration rely on: an operation on a
  region changes only that region, a refused one changes nothing that is read, an erased
  region reads 0xFF, a verified program leaves exactly the data in its span.
\<close>

locale region_flash =
  fixes ok :: "'s \<Rightarrow> flash_region_t \<Rightarrow> bool"
    and rd :: "'s \<Rightarrow> 'f \<Rightarrow> nat \<Rightarrow> u8"
    and erase :: "'s \<Rightarrow> flash_region_t \<Rightarrow> u32 \<Rightarrow> u32 \<Rightarrow> 'f \<Rightarrow> flash_storage_result_t \<times> 'f"
    and prog :: "'s \<Rightarrow> flash_region_t \<Rightarrow> u32 \<Rightarrow> u8 list option \<Rightarrow> u32 \<Rightarrow> 'f \<Rightarrow> flash_storage_result_t \<times> 'f"
  assumes erase_outside: "ok s r \<Longrightarrow> erase s r at n f = (e, f') \<Longrightarrow> i < reg_lo r \<or> reg_hi r \<le> i \<Longrightarrow>
      rd s f' i = rd s f i"
    and erase_refused: "ok s r \<Longrightarrow> erase s r at n f = (e, f') \<Longrightarrow> e \<noteq> FLASH_STORAGE_OK \<Longrightarrow>
      rd s f' = rd s f"
    and erase_blank: "ok s r \<Longrightarrow> erase s r at n f = (FLASH_STORAGE_OK, f') \<Longrightarrow>
      in_span r at (unat n) i \<Longrightarrow> rd s f' i = 0xFF"
    and prog_inside: "ok s r \<Longrightarrow> length bs = unat n \<Longrightarrow> prog s r at (Some bs) n f = (FLASH_STORAGE_OK, f') \<Longrightarrow>
      reg_lo r + unat at + unat n \<le> reg_hi r"
    and prog_span: "ok s r \<Longrightarrow> length bs = unat n \<Longrightarrow> prog s r at (Some bs) n f = (FLASH_STORAGE_OK, f') \<Longrightarrow>
      in_span r at (unat n) i \<Longrightarrow> rd s f' i = bs ! (i - (reg_lo r + unat at))"
    and prog_outside: "ok s r \<Longrightarrow> length bs = unat n \<Longrightarrow> prog s r at (Some bs) n f = (e, f') \<Longrightarrow>
      \<not> in_span r at (unat n) i \<or> i < reg_lo r \<or> reg_hi r \<le> i \<Longrightarrow> rd s f' i = rd s f i"
    and prog_blank: "ok s r \<Longrightarrow> length bs = unat n \<Longrightarrow> prog s r at (Some bs) n f = (e, f') \<Longrightarrow>
      (\<And>i. in_span r at (unat n) i \<Longrightarrow> rd s f i = 0xFF) \<Longrightarrow> e \<noteq> FLASH_STORAGE_OK \<Longrightarrow> rd s f' = rd s f"
begin

text \<open>Erase the whole region, then program a block: the block is there, and the rest of the
  region reads erased.\<close>

lemma erase_then_program:
  assumes "ok s r" and "erase s r 0 (reg_size r) f = (FLASH_STORAGE_OK, g)"
    and "length bs = unat n" and "prog s r at (Some bs) n g = (FLASH_STORAGE_OK, h)"
    and "reg_lo r \<le> i" and "i < reg_hi r"
  shows "rd s h i = (if in_span r at (unat n) i then bs ! (i - (reg_lo r + unat at)) else 0xFF)"
proof (cases "in_span r at (unat n) i")
  case True
  with assms prog_span show ?thesis by simp
next
  case False
  have "in_span r 0 (unat (reg_size r)) i"
    using assms(5,6) by (simp add: in_span_def reg_hi_def reg_lo_def)
  with assms False prog_outside erase_blank show ?thesis by simp
qed

text \<open>A region that does not overlap keeps its contents through any erase or program.\<close>

lemma other_region:
  assumes "ok s r" and "reg_hi q \<le> reg_lo r \<or> reg_hi r \<le> reg_lo q"
    and "reg_lo q \<le> i" and "i < reg_hi q"
  shows "erase s r at n f = (e, f') \<Longrightarrow> rd s f' i = rd s f i"
    and "length bs = unat n \<Longrightarrow> prog s r at (Some bs) n f = (e, f') \<Longrightarrow> rd s f' i = rd s f i"
  using assms erase_outside [OF assms(1), of at n f e f' i]
    prog_outside [OF assms(1), of bs n at f e f' i] by auto

end

interpretation fs: region_flash usable xip flash_storage_erase flash_storage_program_verified
proof unfold_locales
  fix s :: "'f flash_sdk" and r at n f e f' i
  assume u: "usable s r" and run: "flash_storage_erase s r at n f = (e, f')"
  note spec = flash_storage_erase_spec [OF u run]
  show "xip s f' i = xip s f i" if "i < reg_lo r \<or> reg_hi r \<le> i"
    using spec unat_absolute(2) [OF u, of at n] that by (auto simp: in_span_def)
  show "xip s f' = xip s f" if "e \<noteq> FLASH_STORAGE_OK" using spec that by simp
next
  fix s :: "'f flash_sdk" and r at n f f' i
  assume u: "usable s r" and run: "flash_storage_erase s r at n f = (FLASH_STORAGE_OK, f')"
    and "in_span r at (unat n) i"
  then show "xip s f' i = 0xFF" using flash_storage_erase_spec [OF u run] by simp
next
  fix s :: "'f flash_sdk" and r bs n at f e f' i
  assume u: "usable s r" and len: "length bs = unat n"
    and run: "flash_storage_program_verified s r at (Some bs) n f = (e, f')"
  note spec = flash_storage_program_verified_spec [OF u len run]
  show "xip s f' i = xip s f i" if "\<not> in_span r at (unat n) i \<or> i < reg_lo r \<or> reg_hi r \<le> i"
    using spec(3) [of i] unat_absolute(2) [OF u, of at n] that
    by (cases "flash_region_contains r at n") (auto simp: in_span_def)
  show "xip s f' = xip s f" if "\<And>i. in_span r at (unat n) i \<Longrightarrow> xip s f i = 0xFF" "e \<noteq> FLASH_STORAGE_OK"
    using flash_storage_program_verified_erased [OF u len run] that by blast
next
  fix s :: "'f flash_sdk" and r bs n at f f' i
  assume u: "usable s r" and len: "length bs = unat n"
    and run: "flash_storage_program_verified s r at (Some bs) n f = (FLASH_STORAGE_OK, f')"
  note spec = flash_storage_program_verified_spec [OF u len run]
  show "reg_lo r + unat at + unat n \<le> reg_hi r"
    using spec(1) unat_absolute(2) [OF u] by simp
  show "xip s f' i = bs ! (i - (reg_lo r + unat at))" if "in_span r at (unat n) i"
    using spec(2) that by simp
qed

subsection \<open>A concrete chip\<close>

text \<open>
  An instance of the SDK parameter, for the witnesses: the chip is a function from offsets to
  bytes, erase and program act as the documentation says, and the state also holds the
  answers \<open>flash_safe_execute\<close> will give, so that runs with refusals can be evaluated.
\<close>

definition nor_sdk :: "u32 option \<Rightarrow> ((nat \<Rightarrow> u8) \<times> bool list) flash_sdk" where
  "nor_sdk code =
     \<lparr>flash_range_erase = (\<lambda>at n (m, w).
        (\<lambda>i. if unat at \<le> i \<and> i < unat at + unat n then 0xFF else m i, w)),
      flash_range_program = (\<lambda>at bs (m, w).
        (\<lambda>i. if unat at \<le> i \<and> i < unat at + length bs then m i AND bs ! (i - unat at) else m i, w)),
      flash_safe_execute = (\<lambda>op (m, w).
        case w of [] \<Rightarrow> (True, op (m, w)) | b # w' \<Rightarrow> (b, if b then (case op (m, w) of (m', _) \<Rightarrow> (m', w')) else (m, w'))),
      xip = (\<lambda>(m, w). m), running_code = code, chip_size = 0x200000\<rparr>"

lemma nor_sdk_ok: "flash_sdk_ok (nor_sdk code)"
proof -
  have "xip (nor_sdk code) f' = xip (nor_sdk code) (if b then op f else f)"
    if "flash_safe_execute (nor_sdk code) op f = (b, f')" for op f b f'
    using that by (cases f; cases "snd f")
      (auto simp: nor_sdk_def split: prod.splits list.splits if_splits)
  then show ?thesis
    by (auto simp: flash_sdk_ok_def nor_sdk_def)
qed

subsection \<open>Sequences of operations\<close>

datatype flash_call =
    Erase flash_region_t u32 u32
  | Program flash_region_t u32 "u8 list"

fun call_region :: "flash_call \<Rightarrow> flash_region_t" where
  "call_region (Erase r _ _) = r"
| "call_region (Program r _ _) = r"

fun call_ok :: "flash_call \<Rightarrow> bool" where
  "call_ok (Erase _ _ _) = True"
| "call_ok (Program _ _ bytes) = (length bytes < 2 ^ 32)"

fun run_call :: "'f flash_sdk \<Rightarrow> flash_call \<Rightarrow> 'f \<Rightarrow> 'f" where
  "run_call sdk (Erase r offset sz) f = snd (flash_storage_erase sdk r offset sz f)"
| "run_call sdk (Program r offset bytes) f =
    snd (flash_storage_program_verified sdk r offset (Some bytes) (of_nat (length bytes)) f)"

definition run_calls :: "'f flash_sdk \<Rightarrow> flash_call list \<Rightarrow> 'f \<Rightarrow> 'f" where
  "run_calls sdk calls f = fold (run_call sdk) calls f"

lemma run_call_other_region:
  assumes "usable sdk (call_region c)" and "call_ok c"
    and "reg_hi q \<le> reg_lo (call_region c) \<or> reg_hi (call_region c) \<le> reg_lo q"
    and "reg_lo q \<le> i" and "i < reg_hi q"
  shows "xip sdk (run_call sdk c f) i = xip sdk f i"
proof (cases c)
  case (Erase r offset sz)
  obtain e g where "flash_storage_erase sdk r offset sz f = (e, g)" by fastforce
  with assms Erase show ?thesis by (auto dest: fs.other_region(1) [rotated -1])
next
  case (Program r offset bytes)
  let ?n = "of_nat (length bytes) :: u32"
  obtain e g where run: "flash_storage_program_verified sdk r offset (Some bytes) ?n f = (e, g)"
    by fastforce
  have len: "length bytes = unat ?n" using assms(2) Program by (simp add: unat_of_nat_lt)
  show ?thesis
    using fs.other_region(2) [OF _ _ _ _ len run] assms Program run by simp
qed

lemma program_running_region:
  "reg_size r \<noteq> 0 \<Longrightarrow> flash_storage_holds_running_code sdk r \<Longrightarrow>
    flash_storage_program sdk r offset data sz f = (FLASH_STORAGE_ERR_RUNNING_FROM_REGION, f)"
  by (simp add: flash_storage_program_def precheck_def)

lemma holds_running_code_iff:
  assumes "reg_hi r < 2 ^ 32"
  shows "flash_storage_holds_running_code sdk r \<longleftrightarrow>
    (\<exists>code. running_code sdk = Some code \<and> reg_lo r \<le> unat code \<and> unat code < reg_hi r)"
proof -
  have "unat (reg_offset r + reg_size r) = reg_hi r"
    using assms by (simp add: reg_hi_def unat_u32_arith(1))
  then show ?thesis
    by (cases "reg_size r = 0"; cases "running_code sdk")
      (auto simp: flash_storage_holds_running_code_def reg_lo_def reg_hi_def
        word_le_nat_alt word_less_nat_alt)
qed

subsection \<open>Properties\<close>

text \<open>C10: whatever sequence of erases and verified programs is run, with whatever offsets and
  lengths and however often the SDK refuses, a region that none of the calls names and none of
  the named regions overlaps keeps every byte.\<close>

theorem flash_storage_confined:
  assumes "\<forall>c \<in> set calls. usable sdk (call_region c) \<and> call_ok c
      \<and> (reg_hi q \<le> reg_lo (call_region c) \<or> reg_hi (call_region c) \<le> reg_lo q)"
    and "reg_lo q \<le> i" and "i < reg_hi q"
  shows "xip sdk (run_calls sdk calls f) i = xip sdk f i"
  using assms(1)
proof (induction calls arbitrary: f)
  case Nil
  then show ?case by (simp add: run_calls_def)
next
  case (Cons c calls)
  have "xip sdk (run_calls sdk calls (run_call sdk c f)) i = xip sdk (run_call sdk c f) i"
    using Cons by simp
  also have "\<dots> = xip sdk f i"
    using Cons.prems assms(2,3) by (intro run_call_other_region [where q = q]) auto
  finally show ?case by (simp add: run_calls_def)
qed

theorem flash_storage_confined_witness:
  "xip (nor_sdk None) (run_calls (nor_sdk None)
     [Erase \<lparr>reg_offset = 0x1000, reg_size = 0x2000\<rparr> 0x1000 0x1000,
      Program \<lparr>reg_offset = 0x1000, reg_size = 0x2000\<rparr> 0x1F00 (replicate 256 7)]
     (\<lambda>_. 0x11, [True, False])) 0x3000 = 0x11"
proof -
  let ?q = "\<lparr>reg_offset = 0x3000, reg_size = 0x1000\<rparr>"
  have "xip (nor_sdk None) (run_calls (nor_sdk None)
     [Erase \<lparr>reg_offset = 0x1000, reg_size = 0x2000\<rparr> 0x1000 0x1000,
      Program \<lparr>reg_offset = 0x1000, reg_size = 0x2000\<rparr> 0x1F00 (replicate 256 7)]
     (\<lambda>_. 0x11, [True, False])) 0x3000 = xip (nor_sdk None) (\<lambda>_. 0x11, [True, False]) 0x3000"
    by (rule flash_storage_confined [where q = ?q])
      (auto simp: usable_def nor_sdk_ok reg_hi_def reg_lo_def, auto simp: nor_sdk_def)
  then show ?thesis by (simp add: nor_sdk_def)
qed

text \<open>Neither an erase nor a program ever touches the region the code is executing from: both
  answer that the region holds the running code and leave the hardware exactly as it was,
  before any bound or alignment of the request is looked at.\<close>

theorem flash_storage_never_erases_itself:
  assumes "reg_hi r < 2 ^ 32" and "running_code sdk = Some code"
    and "reg_lo r \<le> unat code" and "unat code < reg_hi r"
  shows "flash_storage_erase sdk r offset sz f = (FLASH_STORAGE_ERR_RUNNING_FROM_REGION, f)
    \<and> flash_storage_program sdk r offset data sz f = (FLASH_STORAGE_ERR_RUNNING_FROM_REGION, f)
    \<and> flash_storage_program_verified sdk r offset data sz f = (FLASH_STORAGE_ERR_RUNNING_FROM_REGION, f)"
proof -
  have holds: "flash_storage_holds_running_code sdk r"
    using assms by (auto simp: holds_running_code_iff)
  moreover have size: "reg_size r \<noteq> 0" using assms(3,4) by (auto simp: reg_lo_def reg_hi_def)
  ultimately show ?thesis
    by (simp add: flash_storage_erase_def precheck_def program_running_region
        flash_storage_program_verified_def)
qed

theorem flash_storage_never_erases_itself_witness:
  "flash_storage_erase (nor_sdk (Some 0x1234)) \<lparr>reg_offset = 0, reg_size = 0x8000\<rparr> 0 0x1000 (\<lambda>_. 5, [])
     = (FLASH_STORAGE_ERR_RUNNING_FROM_REGION, (\<lambda>_. 5, []))"
  using flash_storage_never_erases_itself
    [of "\<lparr>reg_offset = 0, reg_size = 0x8000\<rparr>" "nor_sdk (Some 0x1234)" "0x1234" 0 "0x1000" "(\<lambda>_. 5, [])" None]
  by (simp add: reg_lo_def reg_hi_def nor_sdk_def)

text \<open>The write cycle the components above use. After erasing a whole region and programming
  a block with verification, the block can be read back through the XIP window and has the
  CRC of the data, and every other byte of the region reads erased.\<close>

theorem flash_storage_write_cycle:
  assumes "usable sdk r" and "flash_storage_erase sdk r 0 (reg_size r) f = (FLASH_STORAGE_OK, g)"
    and "length bytes = unat n"
    and "flash_storage_program_verified sdk r offset (Some bytes) n g = (FLASH_STORAGE_OK, h)"
  shows "flash_storage_data sdk r offset n h = Some bytes
    \<and> flash_storage_crc32 sdk r offset n h = crc32 (Some bytes)
    \<and> (\<forall>i. reg_lo r \<le> i \<and> i < reg_hi r \<and> \<not> in_span r offset (unat n) i \<longrightarrow> xip sdk h i = 0xFF)"
proof -
  note cycle = fs.erase_then_program [OF assms]
  note inside = flash_storage_program_verified_spec(1) [OF assms(1,3,4) refl]
  have span: "reg_lo r + unat offset + unat n \<le> reg_hi r"
    using unat_absolute(2) [OF assms(1) inside] .
  have "xip_bytes sdk h (reg_lo r + unat offset) (unat n) = bytes"
  proof (rule nth_equalityI)
    fix k assume "k < length (xip_bytes sdk h (reg_lo r + unat offset) (unat n))"
    then show "xip_bytes sdk h (reg_lo r + unat offset) (unat n) ! k = bytes ! k"
      using span by (simp add: cycle in_span_def)
  qed (simp add: assms(3))
  then have "flash_storage_data sdk r offset n h = Some bytes"
    using flash_storage_data_eq [OF assms(1)] inside by simp
  with cycle show ?thesis
    by (simp add: flash_storage_crc32_def)
qed

theorem flash_storage_write_cycle_witness:
  "\<exists>g h. flash_storage_erase (nor_sdk None) \<lparr>reg_offset = 0x1000, reg_size = 0x1000\<rparr> 0 0x1000 (\<lambda>_. 0, [])
       = (FLASH_STORAGE_OK, g)
     \<and> flash_storage_program_verified (nor_sdk None) \<lparr>reg_offset = 0x1000, reg_size = 0x1000\<rparr> 0x100
         (Some (replicate 256 7)) 256 g = (FLASH_STORAGE_OK, h)
     \<and> flash_storage_data (nor_sdk None) \<lparr>reg_offset = 0x1000, reg_size = 0x1000\<rparr> 0x100 256 h
         = Some (replicate 256 7)"
proof -
  let ?r = "\<lparr>reg_offset = 0x1000, reg_size = 0x1000\<rparr> :: flash_region_t" and ?s = "nor_sdk None"
  have use: "usable ?s ?r" by (simp add: usable_def nor_sdk_ok reg_hi_def) (simp add: nor_sdk_def)
  obtain g where e: "flash_storage_erase ?s ?r 0 0x1000 (\<lambda>_. 0, []) = (FLASH_STORAGE_OK, (g, []))"
    by (simp add: flash_storage_erase_def precheck_def flash_storage_holds_running_code_def
        flash_region_check_erase_def flash_region_contains_def flash_offset_is_sector_aligned_def
        nor_sdk_def Let_def)
  have blank: "in_span ?r 0x100 256 i \<Longrightarrow> xip ?s (g, []) i = 0xFF" for i
    using fs.erase_blank [OF use e, of i] by (simp add: in_span_def reg_lo_def)
  have len: "length (replicate 256 (7 :: u8)) = unat (256 :: u32)" by simp
  obtain h where p: "flash_storage_program ?s ?r 0x100 (Some (replicate 256 7)) 256 (g, []) = (FLASH_STORAGE_OK, h)"
    by (simp add: flash_storage_program_def precheck_def flash_storage_holds_running_code_def
        flash_region_check_program_def flash_region_contains_def flash_offset_is_page_aligned_def
        nor_sdk_def Let_def)
  have v: "flash_storage_program_verified ?s ?r 0x100 (Some (replicate 256 7)) 256 (g, []) = (FLASH_STORAGE_OK, h)"
    by (rule program_verified_blank_ok [OF use len p]) (simp add: blank)
  have e': "flash_storage_erase ?s ?r 0 (reg_size ?r) (\<lambda>_. 0, []) = (FLASH_STORAGE_OK, (g, []))"
    using e by simp
  show ?thesis
    by (intro exI conjI) (rule e, rule v, rule conjunct1 [OF flash_storage_write_cycle [OF use e' len v]])
qed

end
