(* ===== verification/Firmware_Image.thy ===== *)
theory Firmware_Image
  imports Crc
begin

text \<open>
  Model of \<open>components/firmware_update/firmware_image\<close>: the 28-byte header that the updater
  writes to the manifest sector. The record has the struct's fields in their order and widths;
  the struct has no padding and both targets are little-endian, so its memory is the
  concatenation \<open>header_bytes\<close> of its fields, and \<open>memcpy\<close> from 28 bytes of flash into a header
  is \<open>header_of_bytes\<close>. The lemmas show that the two are inverse, that a filled-in header
  validates, and that a valid header with any run of up to four bytes changed does not.
\<close>

abbreviation (input) FIRMWARE_IMAGE_MAGIC :: u32 where "FIRMWARE_IMAGE_MAGIC \<equiv> 0x31574650"
abbreviation (input) FIRMWARE_IMAGE_HEADER_VERSION :: u16 where "FIRMWARE_IMAGE_HEADER_VERSION \<equiv> 1"
abbreviation (input) FIRMWARE_IMAGE_MAX_PAYLOAD :: u32 where "FIRMWARE_IMAGE_MAX_PAYLOAD \<equiv> 0x800000"
abbreviation (input) HEADER_SIZE :: nat where "HEADER_SIZE \<equiv> 28"
abbreviation (input) HEADER_CRC_COVERAGE :: nat where "HEADER_CRC_COVERAGE \<equiv> 24"

record firmware_image_header_t =
  img_magic :: u32
  img_header_version :: u16
  img_header_size :: u16
  img_payload_size :: u32
  img_payload_crc32 :: u32
  img_load_address :: u32
  img_build_id :: u32
  img_header_crc32 :: u32

datatype firmware_image_result_t =
    FIRMWARE_IMAGE_OK
  | FIRMWARE_IMAGE_ERR_INVALID_ARG
  | FIRMWARE_IMAGE_ERR_BAD_MAGIC
  | FIRMWARE_IMAGE_ERR_BAD_VERSION
  | FIRMWARE_IMAGE_ERR_BAD_SIZE
  | FIRMWARE_IMAGE_ERR_BAD_HEADER_CRC
  | FIRMWARE_IMAGE_ERR_BAD_PAYLOAD_CRC

subsection \<open>The memory of a header\<close>

definition header_bytes :: "firmware_image_header_t \<Rightarrow> u8 list" where
  "header_bytes h = le32 (img_magic h) @ le16 (img_header_version h) @ le16 (img_header_size h)
     @ le32 (img_payload_size h) @ le32 (img_payload_crc32 h) @ le32 (img_load_address h)
     @ le32 (img_build_id h) @ le32 (img_header_crc32 h)"

definition header_of_bytes :: "u8 list \<Rightarrow> firmware_image_header_t" where
  "header_of_bytes bs =
     \<lparr>img_magic = of_le32 (chunk 0 4 bs), img_header_version = of_le16 (chunk 4 2 bs),
      img_header_size = of_le16 (chunk 6 2 bs), img_payload_size = of_le32 (chunk 8 4 bs),
      img_payload_crc32 = of_le32 (chunk 12 4 bs), img_load_address = of_le32 (chunk 16 4 bs),
      img_build_id = of_le32 (chunk 20 4 bs), img_header_crc32 = of_le32 (chunk 24 4 bs)\<rparr>"

definition header_zero :: firmware_image_header_t where
  "header_zero = \<lparr>img_magic = 0, img_header_version = 0, img_header_size = 0,
     img_payload_size = 0, img_payload_crc32 = 0, img_load_address = 0, img_build_id = 0,
     img_header_crc32 = 0\<rparr>"

subsection \<open>Operations\<close>

definition firmware_image_header_crc :: "firmware_image_header_t \<Rightarrow> u32" where
  "firmware_image_header_crc header = crc32 (Some (take HEADER_CRC_COVERAGE (header_bytes header)))"

text \<open>The caller's header is passed in and returned: it is left alone when the size is refused.\<close>

definition firmware_image_header_init ::
  "firmware_image_header_t \<Rightarrow> u32 \<Rightarrow> u32 \<Rightarrow> u32 \<Rightarrow> u32
    \<Rightarrow> firmware_image_result_t \<times> firmware_image_header_t" where
  "firmware_image_header_init header payload_size payload_crc32 load_address build_id =
     (if payload_size = 0 \<or> FIRMWARE_IMAGE_MAX_PAYLOAD < payload_size
      then (FIRMWARE_IMAGE_ERR_BAD_SIZE, header)
      else
        (let header = header_zero
           \<lparr>img_magic := FIRMWARE_IMAGE_MAGIC,
            img_header_version := FIRMWARE_IMAGE_HEADER_VERSION,
            img_header_size := word_of_nat HEADER_SIZE,
            img_payload_size := payload_size,
            img_payload_crc32 := payload_crc32,
            img_load_address := load_address,
            img_build_id := build_id\<rparr>
         in (FIRMWARE_IMAGE_OK,
             header\<lparr>img_header_crc32 := firmware_image_header_crc header\<rparr>)))"

definition firmware_image_header_validate :: "firmware_image_header_t \<Rightarrow> firmware_image_result_t" where
  "firmware_image_header_validate header =
     (if img_magic header \<noteq> FIRMWARE_IMAGE_MAGIC then FIRMWARE_IMAGE_ERR_BAD_MAGIC
      else if img_header_version header \<noteq> FIRMWARE_IMAGE_HEADER_VERSION
        \<or> unat (img_header_size header) \<noteq> HEADER_SIZE
      then FIRMWARE_IMAGE_ERR_BAD_VERSION
      else if img_payload_size header = 0 \<or> FIRMWARE_IMAGE_MAX_PAYLOAD < img_payload_size header
      then FIRMWARE_IMAGE_ERR_BAD_SIZE
      else if img_header_crc32 header \<noteq> firmware_image_header_crc header
      then FIRMWARE_IMAGE_ERR_BAD_HEADER_CRC
      else FIRMWARE_IMAGE_OK)"

definition firmware_image_header_is_valid :: "firmware_image_header_t \<Rightarrow> bool" where
  "firmware_image_header_is_valid header \<longleftrightarrow>
     firmware_image_header_validate header = FIRMWARE_IMAGE_OK"

definition firmware_image_verify_payload ::
  "firmware_image_header_t \<Rightarrow> u32 \<Rightarrow> firmware_image_result_t" where
  "firmware_image_verify_payload header payload_crc =
     (let header_result = firmware_image_header_validate header in
      if header_result \<noteq> FIRMWARE_IMAGE_OK then header_result
      else if img_payload_crc32 header = payload_crc then FIRMWARE_IMAGE_OK
      else FIRMWARE_IMAGE_ERR_BAD_PAYLOAD_CRC)"

fun firmware_image_result_name :: "firmware_image_result_t \<Rightarrow> string" where
  "firmware_image_result_name FIRMWARE_IMAGE_OK = ''ok''"
| "firmware_image_result_name FIRMWARE_IMAGE_ERR_INVALID_ARG = ''invalid argument''"
| "firmware_image_result_name FIRMWARE_IMAGE_ERR_BAD_MAGIC = ''not a firmware header''"
| "firmware_image_result_name FIRMWARE_IMAGE_ERR_BAD_VERSION = ''unsupported header version''"
| "firmware_image_result_name FIRMWARE_IMAGE_ERR_BAD_SIZE = ''implausible payload size''"
| "firmware_image_result_name FIRMWARE_IMAGE_ERR_BAD_HEADER_CRC = ''damaged header''"
| "firmware_image_result_name FIRMWARE_IMAGE_ERR_BAD_PAYLOAD_CRC = ''damaged payload''"

subsection \<open>Layout and validity\<close>

lemma length_header_bytes [simp]: "length (header_bytes h) = 28"
  by (simp add: header_bytes_def)

lemma header_of_header_bytes [simp]: "header_of_bytes (header_bytes h) = h"
  by (simp add: header_of_bytes_def header_bytes_def memory_simps)

lemma header_bytes_of_bytes:
  assumes "length bs = 28"
  shows "header_bytes (header_of_bytes bs) = bs"
proof -
  have "header_bytes (header_of_bytes bs) = chunk 0 4 bs @ chunk 4 2 bs @ chunk 6 2 bs @ chunk 8 4 bs
      @ chunk 12 4 bs @ chunk 16 4 bs @ chunk 20 4 bs @ chunk 24 4 bs"
    using assms by (simp add: header_bytes_def header_of_bytes_def le32_of_le32 le16_of_le16)
  also have "\<dots> = chunk 0 28 bs"
    using chunk_append_chunk [of 24 4 bs] chunk_append_chunk [of 20 4 bs 4]
      chunk_append_chunk [of 20 4 bs 4] chunk_append_chunk [of 16 4 bs 8] chunk_append_chunk [of 12 4 bs 12]
      chunk_append_chunk [of 8 4 bs 16] chunk_append_chunk [of 6 2 bs 20] chunk_append_chunk [of 4 2 bs 22]
      chunk_append_chunk [of 0 4 bs 24] by simp
  finally show ?thesis
    using chunk_whole [of bs] assms by simp
qed

lemma header_bytes_split:
  "header_bytes h = take 24 (header_bytes h) @ le32 (img_header_crc32 h)"
  by (simp add: header_bytes_def)

text \<open>The last test of \<open>firmware_image_header_validate\<close>, on the whole 28 bytes.\<close>

lemma header_crc_iff:
  "img_header_crc32 h = firmware_image_header_crc h \<longleftrightarrow>
    foldl crc32_byte crc32_begin (header_bytes h) = (crc32_bit ^^ 32) (- 1)"
  by (subst header_bytes_split) (simp only: crc32_append_iff firmware_image_header_crc_def)

lemma valid_header_crc:
  "firmware_image_header_validate h = FIRMWARE_IMAGE_OK \<Longrightarrow>
    img_header_crc32 h = firmware_image_header_crc h"
  by (auto simp: firmware_image_header_validate_def split: if_splits)

lemma valid_header_size:
  "firmware_image_header_validate h = FIRMWARE_IMAGE_OK \<Longrightarrow>
    img_payload_size h \<noteq> 0 \<and> img_payload_size h \<le> FIRMWARE_IMAGE_MAX_PAYLOAD"
  by (auto simp: firmware_image_header_validate_def split: if_splits)

lemma header_init_total:
  assumes "sz \<noteq> 0" and "sz \<le> FIRMWARE_IMAGE_MAX_PAYLOAD"
  obtains h where "firmware_image_header_init h0 sz crc addr build = (FIRMWARE_IMAGE_OK, h)"
    and "firmware_image_header_validate h = FIRMWARE_IMAGE_OK" and "img_payload_size h = sz"
    and "img_payload_crc32 h = crc" and "img_load_address h = addr" and "img_build_id h = build"
proof -
  let ?h = "snd (firmware_image_header_init h0 sz crc addr build)"
  have "\<not> FIRMWARE_IMAGE_MAX_PAYLOAD < sz" using assms(2) by simp
  with assms(1) show ?thesis
    by (intro that [of ?h]) (simp_all add: firmware_image_header_init_def Let_def
      firmware_image_header_validate_def firmware_image_header_crc_def header_bytes_def)
qed

subsection \<open>Properties\<close>

text \<open>A header survives being written to flash and read back by a later session: the header
  filled in for any non-empty payload within the bound validates after the 28 bytes are
  copied out and in again, still carries the payload's size, checksum, load address and build,
  and accepts exactly the payload checksum it was made for.\<close>

theorem firmware_header_roundtrip:
  assumes "sz \<noteq> 0" and "sz \<le> FIRMWARE_IMAGE_MAX_PAYLOAD"
    and "firmware_image_header_init h0 sz crc addr build = (res, h)"
  shows "res = FIRMWARE_IMAGE_OK \<and> header_of_bytes (header_bytes h) = h
    \<and> firmware_image_header_is_valid (header_of_bytes (header_bytes h))
    \<and> img_payload_size h = sz \<and> img_load_address h = addr \<and> img_build_id h = build
    \<and> (firmware_image_verify_payload (header_of_bytes (header_bytes h)) c = FIRMWARE_IMAGE_OK \<longleftrightarrow> c = crc)"
proof -
  obtain h' where "firmware_image_header_init h0 sz crc addr build = (FIRMWARE_IMAGE_OK, h')"
    and "firmware_image_header_validate h' = FIRMWARE_IMAGE_OK" and "img_payload_size h' = sz"
    and "img_payload_crc32 h' = crc" and "img_load_address h' = addr" and "img_build_id h' = build"
    by (rule header_init_total [OF assms(1,2)])
  with assms(3) show ?thesis
    by (auto simp: firmware_image_header_is_valid_def firmware_image_verify_payload_def Let_def)
qed

theorem firmware_header_roundtrip_witness:
  "\<exists>h. firmware_image_header_init header_zero 50000 0xCBF43926 0x10000000 7 = (FIRMWARE_IMAGE_OK, h)
     \<and> firmware_image_header_is_valid (header_of_bytes (header_bytes h))"
proof -
  obtain res h where run: "firmware_image_header_init header_zero 50000 0xCBF43926 0x10000000 7 = (res, h)"
    by fastforce
  from firmware_header_roundtrip [OF _ _ run] run show ?thesis by auto
qed

text \<open>A torn or damaged header is recognised. If 28 bytes read as a valid header, then with
  any run of up to four consecutive bytes changed, wherever it lies and even where it
  straddles the checksum field, they no longer do.\<close>

theorem firmware_header_detects_burst:
  assumes "firmware_image_header_is_valid (header_of_bytes (a @ xs @ z))"
    and "length (a @ xs @ z) = HEADER_SIZE" and "length ys = length xs" and "length xs \<le> 4"
    and "ys \<noteq> xs"
  shows "\<not> firmware_image_header_is_valid (header_of_bytes (a @ ys @ z))"
proof
  assume bad: "firmware_image_header_is_valid (header_of_bytes (a @ ys @ z))"
  have len: "length (a @ ys @ z) = 28" using assms(2,3) by simp
  note crc = header_crc_iff [THEN iffD1, OF valid_header_crc]
  have "foldl crc32_byte crc32_begin (a @ xs @ z) = foldl crc32_byte crc32_begin (a @ ys @ z)"
    using crc [of "header_of_bytes (a @ xs @ z)"] crc [of "header_of_bytes (a @ ys @ z)"] assms(1) bad
    unfolding firmware_image_header_is_valid_def header_bytes_of_bytes [OF assms(2)]
      header_bytes_of_bytes [OF len] by simp
  from crc32_window_inj [OF _ _ this] assms(3-5) show False by simp
qed

theorem firmware_header_detects_burst_witness:
  "\<exists>h. firmware_image_header_init header_zero 50000 0xCBF43926 0x10000000 7 = (FIRMWARE_IMAGE_OK, h)
     \<and> \<not> firmware_image_header_is_valid
           (header_of_bytes (take 20 (header_bytes h) @ le32 8 @ drop 24 (header_bytes h)))"
proof -
  obtain h where h: "firmware_image_header_init header_zero 50000 0xCBF43926 0x10000000 7 = (FIRMWARE_IMAGE_OK, h)"
      "firmware_image_header_validate h = FIRMWARE_IMAGE_OK" "img_build_id h = 7"
    by (rule header_init_total [of 50000 header_zero "0xCBF43926" "0x10000000" 7]) simp_all
  have split: "take 20 (header_bytes h) @ le32 7 @ drop 24 (header_bytes h) = header_bytes h"
    using h(3) by (simp add: header_bytes_def)
  have "\<not> firmware_image_header_is_valid
      (header_of_bytes (take 20 (header_bytes h) @ le32 8 @ drop 24 (header_bytes h)))"
    by (rule firmware_header_detects_burst [where xs = "le32 7"])
      (simp_all only: split, simp_all add: firmware_image_header_is_valid_def h(2) le32_inj)
  with h(1) show ?thesis by blast
qed

end
