(* ===== verification/Firmware_Receive.thy ===== *)
theory Firmware_Receive
  imports Hex_Parser
begin

text \<open>
  Model of \<open>components/firmware_update/firmware_receive\<close>: assembling the data records of an
  incoming HEX file into 256-byte pages. The page writer is a function pointer with a context;
  here it is a function over a state \<open>'w\<close> that stands for whatever the context reaches, passed
  and returned by every operation that may call the writer.
  The locale \<open>page_store\<close> states what a writer over flash promises. Under it the lemmas show
  that a transfer that completes leaves in the store exactly the image that the accepted lines
  describe, whatever their order, and that no page is ever written outside the region.
\<close>

abbreviation (input) ERASED_BYTE :: u8 where "ERASED_BYTE \<equiv> 0xFF"
abbreviation (input) FIRMWARE_RECEIVE_PAGE_SIZE :: u32 where "FIRMWARE_RECEIVE_PAGE_SIZE \<equiv> 256"
abbreviation (input) PAGE_BYTES :: nat where "PAGE_BYTES \<equiv> 256"

datatype firmware_receive_result_t =
    FIRMWARE_RECEIVE_OK
  | FIRMWARE_RECEIVE_COMPLETE
  | FIRMWARE_RECEIVE_ERR_INVALID_ARG
  | FIRMWARE_RECEIVE_ERR_NOT_STARTED
  | FIRMWARE_RECEIVE_ERR_HEX
  | FIRMWARE_RECEIVE_ERR_BELOW_BASE
  | FIRMWARE_RECEIVE_ERR_TOO_LARGE
  | FIRMWARE_RECEIVE_ERR_WRITE
  | FIRMWARE_RECEIVE_ERR_ABORTED

text \<open>\<open>write_page(ctx, offset, page, size)\<close>.\<close>

type_synonym 'w page_writer = "u32 \<Rightarrow> u8 list \<Rightarrow> u32 \<Rightarrow> 'w \<Rightarrow> bool \<times> 'w"

record 'w firmware_receive_config_t =
  cfg_base_address :: u32
  cfg_capacity :: u32
  cfg_write_page :: "'w page_writer option"

record 'w firmware_receive_t =
  rx_base_address :: u32
  rx_capacity :: u32
  rx_write_page :: "'w page_writer option"
  rx_parser :: hex_parser_t
  rx_page :: "u8 list"
  rx_page_offset :: u32
  rx_page_dirty :: bool
  rx_records :: u32
  rx_bytes :: u32
  rx_image_size :: u32
  rx_pages_written :: u32
  rx_started :: bool
  rx_complete :: bool
  rx_error :: firmware_receive_result_t

text \<open>All zero bytes, as \<open>memset\<close> leaves the struct.\<close>

definition firmware_receive_zero :: "'w firmware_receive_t" where
  "firmware_receive_zero =
     \<lparr>rx_base_address = 0, rx_capacity = 0, rx_write_page = None,
      rx_parser = \<lparr>address_base = 0, start_address = 0, have_start_address = False, seen_eof = False\<rparr>,
      rx_page = replicate PAGE_BYTES 0, rx_page_offset = 0, rx_page_dirty = False, rx_records = 0,
      rx_bytes = 0, rx_image_size = 0, rx_pages_written = 0, rx_started = False,
      rx_complete = False, rx_error = FIRMWARE_RECEIVE_OK\<rparr>"

subsection \<open>Operations\<close>

definition reset_page :: "'w firmware_receive_t \<Rightarrow> u32 \<Rightarrow> 'w firmware_receive_t" where
  "reset_page rx page_offset =
     rx\<lparr>rx_page := replicate PAGE_BYTES ERASED_BYTE, rx_page_offset := page_offset,
        rx_page_dirty := False\<rparr>"

definition firmware_receive_begin ::
  "'w firmware_receive_t \<Rightarrow> 'w firmware_receive_config_t option
    \<Rightarrow> firmware_receive_result_t \<times> 'w firmware_receive_t" where
  "firmware_receive_begin rx config =
     (case config of
        None \<Rightarrow> (FIRMWARE_RECEIVE_ERR_INVALID_ARG, rx)
      | Some c \<Rightarrow>
          if cfg_write_page c = None \<or> cfg_capacity c = 0
          then (FIRMWARE_RECEIVE_ERR_INVALID_ARG, rx)
          else
            (let rx = firmware_receive_zero
               \<lparr>rx_base_address := cfg_base_address c, rx_capacity := cfg_capacity c,
                rx_write_page := cfg_write_page c, rx_started := True,
                rx_parser := hex_parser_reset\<rparr>
             in (FIRMWARE_RECEIVE_OK, reset_page rx 0)))"

text \<open>The writer pointer is set whenever a transfer is started, which is when this is called.\<close>

definition flush_page ::
  "'w firmware_receive_t \<Rightarrow> 'w \<Rightarrow> firmware_receive_result_t \<times> 'w firmware_receive_t \<times> 'w" where
  "flush_page rx w =
     (if \<not> rx_page_dirty rx then (FIRMWARE_RECEIVE_OK, rx, w)
      else
        (case the (rx_write_page rx) (rx_page_offset rx) (rx_page rx) FIRMWARE_RECEIVE_PAGE_SIZE w of
           (ok, w') \<Rightarrow>
             if \<not> ok then (FIRMWARE_RECEIVE_ERR_WRITE, rx, w')
             else (FIRMWARE_RECEIVE_OK,
                   rx\<lparr>rx_pages_written := rx_pages_written rx + 1, rx_page_dirty := False\<rparr>, w')))"

definition place_byte ::
  "'w firmware_receive_t \<Rightarrow> u32 \<Rightarrow> u8 \<Rightarrow> 'w
    \<Rightarrow> firmware_receive_result_t \<times> 'w firmware_receive_t \<times> 'w" where
  "place_byte rx address value w =
     (if address < rx_base_address rx then (FIRMWARE_RECEIVE_ERR_BELOW_BASE, rx, w)
      else
        (let offset = address - rx_base_address rx in
         if rx_capacity rx \<le> offset then (FIRMWARE_RECEIVE_ERR_TOO_LARGE, rx, w)
         else
           (let page_offset = offset - offset mod FIRMWARE_RECEIVE_PAGE_SIZE in
            (case (if rx_page_dirty rx \<and> page_offset \<noteq> rx_page_offset rx then flush_page rx w
                   else (FIRMWARE_RECEIVE_OK, rx, w)) of
               (flushed, rx, w) \<Rightarrow>
                 if flushed \<noteq> FIRMWARE_RECEIVE_OK then (flushed, rx, w)
                 else
                   (let rx = (if \<not> rx_page_dirty rx then reset_page rx page_offset else rx);
                        rx = rx\<lparr>rx_page := (rx_page rx)[unat (offset mod FIRMWARE_RECEIVE_PAGE_SIZE) := value],
                                rx_page_dirty := True, rx_bytes := rx_bytes rx + 1\<rparr>
                    in (FIRMWARE_RECEIVE_OK,
                        if rx_image_size rx < offset + 1 then rx\<lparr>rx_image_size := offset + 1\<rparr> else rx,
                        w))))))"

text \<open>The loop over the data of a record, from index \<open>i\<close>. A byte that cannot be placed poisons
  the transfer.\<close>

fun place_bytes ::
  "'w firmware_receive_t \<Rightarrow> u32 \<Rightarrow> nat \<Rightarrow> u8 list \<Rightarrow> 'w
    \<Rightarrow> firmware_receive_result_t \<times> 'w firmware_receive_t \<times> 'w" where
  "place_bytes rx address i [] w = (FIRMWARE_RECEIVE_OK, rx, w)"
| "place_bytes rx address i (b # bs) w =
     (case place_byte rx (address + word_of_nat i) b w of
        (placed, rx, w) \<Rightarrow>
          if placed \<noteq> FIRMWARE_RECEIVE_OK then (placed, rx\<lparr>rx_error := placed\<rparr>, w)
          else place_bytes rx address (Suc i) bs w)"

definition firmware_receive_flush ::
  "'w firmware_receive_t \<Rightarrow> 'w \<Rightarrow> firmware_receive_result_t \<times> 'w firmware_receive_t \<times> 'w" where
  "firmware_receive_flush rx w =
     (if \<not> rx_started rx then (FIRMWARE_RECEIVE_ERR_NOT_STARTED, rx, w)
      else if rx_error rx \<noteq> FIRMWARE_RECEIVE_OK then (FIRMWARE_RECEIVE_ERR_ABORTED, rx, w)
      else
        (case flush_page rx w of
           (flushed, rx, w) \<Rightarrow>
             if flushed \<noteq> FIRMWARE_RECEIVE_OK then (flushed, rx\<lparr>rx_error := flushed\<rparr>, w)
             else (flushed, rx, w)))"

text \<open>The record on the stack is not initialised; it is read only after a successful parse, which
  fills it.\<close>

definition firmware_receive_line ::
  "'w firmware_receive_t \<Rightarrow> string option \<Rightarrow> 'w
    \<Rightarrow> firmware_receive_result_t \<times> 'w firmware_receive_t \<times> 'w" where
  "firmware_receive_line rx line w =
     (if line = None then (FIRMWARE_RECEIVE_ERR_INVALID_ARG, rx, w)
      else if \<not> rx_started rx then (FIRMWARE_RECEIVE_ERR_NOT_STARTED, rx, w)
      else if rx_error rx \<noteq> FIRMWARE_RECEIVE_OK then (FIRMWARE_RECEIVE_ERR_ABORTED, rx, w)
      else
        (case hex_parser_feed (rx_parser rx) line hex_record_zero of
           (fed, parser, rec) \<Rightarrow>
             (let rx = rx\<lparr>rx_parser := parser\<rparr> in
              if fed \<noteq> HEX_OK
              then (FIRMWARE_RECEIVE_ERR_HEX, rx\<lparr>rx_error := FIRMWARE_RECEIVE_ERR_HEX\<rparr>, w)
              else
                (let rx = rx\<lparr>rx_records := rx_records rx + 1\<rparr> in
                 if rec_type rec = HEX_RECORD_DATA
                 then place_bytes rx (rec_address rec) 0 (take (unat (rec_length rec)) (rec_data rec)) w
                 else if rec_type rec = HEX_RECORD_EOF
                 then
                   (case flush_page rx w of
                      (flushed, rx, w) \<Rightarrow>
                        if flushed \<noteq> FIRMWARE_RECEIVE_OK then (flushed, rx\<lparr>rx_error := flushed\<rparr>, w)
                        else (FIRMWARE_RECEIVE_COMPLETE, rx\<lparr>rx_complete := True\<rparr>, w))
                 else (FIRMWARE_RECEIVE_OK, rx, w)))))"

definition firmware_receive_is_complete :: "'w firmware_receive_t \<Rightarrow> bool" where
  "firmware_receive_is_complete rx = rx_complete rx"

definition firmware_receive_image_size :: "'w firmware_receive_t \<Rightarrow> u32" where
  "firmware_receive_image_size rx = rx_image_size rx"

fun firmware_receive_result_name :: "firmware_receive_result_t \<Rightarrow> string" where
  "firmware_receive_result_name FIRMWARE_RECEIVE_OK = ''ok''"
| "firmware_receive_result_name FIRMWARE_RECEIVE_COMPLETE = ''complete''"
| "firmware_receive_result_name FIRMWARE_RECEIVE_ERR_INVALID_ARG = ''invalid argument''"
| "firmware_receive_result_name FIRMWARE_RECEIVE_ERR_NOT_STARTED = ''no transfer started''"
| "firmware_receive_result_name FIRMWARE_RECEIVE_ERR_HEX = ''bad hex record''"
| "firmware_receive_result_name FIRMWARE_RECEIVE_ERR_BELOW_BASE = ''address below the image base''"
| "firmware_receive_result_name FIRMWARE_RECEIVE_ERR_TOO_LARGE = ''image larger than the region''"
| "firmware_receive_result_name FIRMWARE_RECEIVE_ERR_WRITE = ''flash write failed''"
| "firmware_receive_result_name FIRMWARE_RECEIVE_ERR_ABORTED = ''transfer already failed''"

text \<open>A whole transfer: every line that arrives is fed in turn.\<close>

fun receive_lines :: "'w firmware_receive_t \<Rightarrow> string list \<Rightarrow> 'w \<Rightarrow> 'w firmware_receive_t \<times> 'w" where
  "receive_lines rx [] w = (rx, w)"
| "receive_lines rx (line # lines) w =
     (case firmware_receive_line rx (Some line) w of (_, rx, w) \<Rightarrow> receive_lines rx lines w)"

subsection \<open>The image a sequence of lines describes\<close>

text \<open>The data bytes of the lines and their addresses, in order of arrival, up to the first line
  the HEX parser refuses.\<close>

fun writes_from :: "u32 \<Rightarrow> nat \<Rightarrow> u8 list \<Rightarrow> (u32 \<times> u8) list" where
  "writes_from address i [] = []"
| "writes_from address i (b # bs) = (address + word_of_nat i, b) # writes_from address (Suc i) bs"

definition record_writes :: "hex_record_t \<Rightarrow> (u32 \<times> u8) list" where
  "record_writes rec =
     (if rec_type rec = HEX_RECORD_DATA
      then writes_from (rec_address rec) 0 (take (unat (rec_length rec)) (rec_data rec)) else [])"

fun hex_writes :: "hex_parser_t \<Rightarrow> string list \<Rightarrow> (u32 \<times> u8) list" where
  "hex_writes p [] = []"
| "hex_writes p (line # lines) =
     (case hex_parser_feed p (Some line) hex_record_zero of
        (fed, p', rec) \<Rightarrow> if fed \<noteq> HEX_OK then [] else record_writes rec @ hex_writes p' lines)"

text \<open>What the region should hold: the last byte written at each offset, erased elsewhere.\<close>

fun image_put :: "u32 \<Rightarrow> (u32 \<times> u8) list \<Rightarrow> (nat \<Rightarrow> u8) \<Rightarrow> nat \<Rightarrow> u8" where
  "image_put base [] img = img"
| "image_put base ((a, v) # ws) img = image_put base ws (img(unat (a - base) := v))"

definition image_of :: "u32 \<Rightarrow> (u32 \<times> u8) list \<Rightarrow> nat \<Rightarrow> u8" where
  "image_of base ws = image_put base ws (\<lambda>_. ERASED_BYTE)"

fun image_end :: "u32 \<Rightarrow> (u32 \<times> u8) list \<Rightarrow> nat \<Rightarrow> nat" where
  "image_end base [] n = n"
| "image_end base ((a, v) # ws) n = image_end base ws (max n (unat (a - base) + 1))"

lemma image_put_append: "image_put base (xs @ ys) img = image_put base ys (image_put base xs img)"
  by (induction base xs img rule: image_put.induct) (simp_all del: fun_upd_apply)

lemma image_put_cong: "img i = img' i \<Longrightarrow> image_put base ws img i = image_put base ws img' i"
proof (induction ws arbitrary: img img')
  case (Cons w ws)
  obtain a v where w: "w = (a, v)" by fastforce
  show ?case unfolding w image_put.simps by (rule Cons.IH) (simp add: Cons.prems)
qed simp

lemma image_end_append: "image_end base (xs @ ys) n = image_end base ys (image_end base xs n)"
  by (induction base xs n rule: image_end.induct) auto

subsection \<open>What each operation leaves alone\<close>

lemma reset_page_simps [simp]:
  "rx_page (reset_page rx at) = replicate PAGE_BYTES ERASED_BYTE"
  "rx_page_offset (reset_page rx at) = at"
  "\<not> rx_page_dirty (reset_page rx at)"
  "rx_base_address (reset_page rx at) = rx_base_address rx"
  "rx_capacity (reset_page rx at) = rx_capacity rx"
  "rx_write_page (reset_page rx at) = rx_write_page rx"
  "rx_parser (reset_page rx at) = rx_parser rx"
  "rx_image_size (reset_page rx at) = rx_image_size rx"
  "rx_started (reset_page rx at) = rx_started rx"
  "rx_complete (reset_page rx at) = rx_complete rx"
  "rx_error (reset_page rx at) = rx_error rx"
  by (simp_all add: reset_page_def)

text \<open>The fields a transfer keeps from its beginning to its end.\<close>

definition same_transfer :: "'w firmware_receive_t \<Rightarrow> 'w firmware_receive_t \<Rightarrow> bool" where
  "same_transfer rx rx' \<longleftrightarrow>
     rx_base_address rx' = rx_base_address rx \<and> rx_capacity rx' = rx_capacity rx
   \<and> rx_write_page rx' = rx_write_page rx \<and> rx_started rx' = rx_started rx"

lemma same_transfer_trans:
  "same_transfer rx rx' \<Longrightarrow> same_transfer rx' rx'' \<Longrightarrow> same_transfer rx rx''"
  by (simp add: same_transfer_def)

lemma flush_page_frame:
  assumes "flush_page rx w = (e, rx', w')"
  shows "same_transfer rx rx'" and "rx_complete rx' = rx_complete rx"
    and "rx_error rx' = rx_error rx" and "rx_parser rx' = rx_parser rx"
    and "rx_image_size rx' = rx_image_size rx" and "rx_page rx' = rx_page rx"
    and "rx_page_offset rx' = rx_page_offset rx"
    and "e = FIRMWARE_RECEIVE_OK \<or> e = FIRMWARE_RECEIVE_ERR_WRITE"
    and "e = FIRMWARE_RECEIVE_OK \<Longrightarrow> \<not> rx_page_dirty rx'"
  using assms by (auto simp: flush_page_def same_transfer_def split: if_splits prod.splits)

lemma place_byte_frame:
  assumes "place_byte rx a v w = (e, rx', w')"
  shows "same_transfer rx rx'" and "rx_complete rx' = rx_complete rx"
    and "rx_error rx' = rx_error rx" and "rx_parser rx' = rx_parser rx"
    and "e \<noteq> FIRMWARE_RECEIVE_COMPLETE \<and> e \<noteq> FIRMWARE_RECEIVE_ERR_ABORTED"
  using assms by (auto simp: place_byte_def Let_def same_transfer_def flush_page_def
      split: if_splits prod.splits)

lemma place_bytes_frame:
  assumes "place_bytes rx address i bs w = (e, rx', w')"
  shows "same_transfer rx rx' \<and> rx_complete rx' = rx_complete rx \<and> rx_parser rx' = rx_parser rx
    \<and> e \<noteq> FIRMWARE_RECEIVE_COMPLETE
    \<and> (e = FIRMWARE_RECEIVE_OK \<longrightarrow> rx_error rx' = rx_error rx)
    \<and> (e \<noteq> FIRMWARE_RECEIVE_OK \<longrightarrow> rx_error rx' = e)"
  using assms
proof (induction rx address i bs w rule: place_bytes.induct)
  case 1
  then show ?case by (auto simp: same_transfer_def)
next
  case (2 rx address i b bs w)
  obtain p rx1 w1 where p: "place_byte rx (address + word_of_nat i) b w = (p, rx1, w1)"
    using prod_cases3 by blast
  note frame = place_byte_frame [OF p]
  show ?case
  proof (cases "p = FIRMWARE_RECEIVE_OK")
    case True
    with 2(1) [OF p [symmetric] refl] 2(2) p frame show ?thesis
      by (auto intro: same_transfer_trans)
  next
    case False
    with 2(2) p frame show ?thesis by (auto simp: same_transfer_def)
  qed
qed

text \<open>An error, once set, ends the transfer: later lines change nothing.\<close>

lemma receive_line_aborted:
  "rx_started rx \<Longrightarrow> rx_error rx \<noteq> FIRMWARE_RECEIVE_OK \<Longrightarrow>
    firmware_receive_line rx (Some line) w = (FIRMWARE_RECEIVE_ERR_ABORTED, rx, w)"
  by (simp add: firmware_receive_line_def)

lemma receive_lines_aborted:
  "rx_started rx \<Longrightarrow> rx_error rx \<noteq> FIRMWARE_RECEIVE_OK \<Longrightarrow> receive_lines rx lines w = (rx, w)"
  by (induction lines) (simp_all add: receive_line_aborted)

text \<open>The ways a line can go, once a transfer is running.\<close>

lemma receive_line_cases:
  assumes "firmware_receive_line rx (Some line) w = (e, rx', w')"
    and "rx_started rx" and "rx_error rx = FIRMWARE_RECEIVE_OK"
  obtains (refused) fed p rec where
      "hex_parser_feed (rx_parser rx) (Some line) hex_record_zero = (fed, p, rec)" "fed \<noteq> HEX_OK"
      "e = FIRMWARE_RECEIVE_ERR_HEX" "rx' = rx\<lparr>rx_parser := p, rx_error := FIRMWARE_RECEIVE_ERR_HEX\<rparr>" "w' = w"
  | (data) p rec where
      "hex_parser_feed (rx_parser rx) (Some line) hex_record_zero = (HEX_OK, p, rec)"
      "rec_type rec = HEX_RECORD_DATA"
      "place_bytes (rx\<lparr>rx_parser := p, rx_records := rx_records rx + 1\<rparr>) (rec_address rec) 0
        (take (unat (rec_length rec)) (rec_data rec)) w = (e, rx', w')"
  | (eof) p rec f rx1 where
      "hex_parser_feed (rx_parser rx) (Some line) hex_record_zero = (HEX_OK, p, rec)"
      "rec_type rec = HEX_RECORD_EOF"
      "flush_page (rx\<lparr>rx_parser := p, rx_records := rx_records rx + 1\<rparr>) w = (f, rx1, w')"
      "if f = FIRMWARE_RECEIVE_OK then e = FIRMWARE_RECEIVE_COMPLETE \<and> rx' = rx1\<lparr>rx_complete := True\<rparr>
       else e = f \<and> rx' = rx1\<lparr>rx_error := f\<rparr>"
  | (other) p rec where
      "hex_parser_feed (rx_parser rx) (Some line) hex_record_zero = (HEX_OK, p, rec)"
      "rec_type rec \<noteq> HEX_RECORD_DATA" "rec_type rec \<noteq> HEX_RECORD_EOF"
      "e = FIRMWARE_RECEIVE_OK" "rx' = rx\<lparr>rx_parser := p, rx_records := rx_records rx + 1\<rparr>" "w' = w"
proof -
  obtain fed p rec where fed: "hex_parser_feed (rx_parser rx) (Some line) hex_record_zero = (fed, p, rec)"
    by (rule prod_cases3)
  let ?rx = "rx\<lparr>rx_parser := p, rx_records := rx_records rx + 1\<rparr>"
  obtain f rx1 w1 where fl: "flush_page ?rx w = (f, rx1, w1)" by (rule prod_cases3)
  consider "fed \<noteq> HEX_OK" | "fed = HEX_OK" "rec_type rec = HEX_RECORD_DATA"
    | "fed = HEX_OK" "rec_type rec = HEX_RECORD_EOF"
    | "fed = HEX_OK" "rec_type rec \<noteq> HEX_RECORD_DATA" "rec_type rec \<noteq> HEX_RECORD_EOF" by blast
  then show ?thesis
  proof cases
    case 1
    with fed assms refused show ?thesis by (simp add: firmware_receive_line_def)
  next
    case 2
    with fed assms data show ?thesis by (simp add: firmware_receive_line_def)
  next
    case 3
    with fed fl assms eof [of p rec f rx1] show ?thesis
      by (auto simp: firmware_receive_line_def split: if_splits)
  next
    case 4
    with fed assms other show ?thesis by (simp add: firmware_receive_line_def)
  qed
qed

subsection \<open>Assembling an image into a page store\<close>

text \<open>
  What the receiver needs of the page writer: a page that is reported written is in the store
  at its offset and nothing else has changed. The last law is what writing without an erase
  can promise: programming only clears bits, so a page that verified can have lost none of
  the bits it sets.
\<close>

locale page_store =
  fixes good :: "'s \<Rightarrow> bool" and write_pg :: "'s \<Rightarrow> 'w page_writer"
    and store :: "'s \<Rightarrow> 'w \<Rightarrow> nat \<Rightarrow> u8"
  assumes write_span: "good s \<Longrightarrow> length page = PAGE_BYTES \<Longrightarrow> write_pg s off page 256 w = (True, w') \<Longrightarrow>
      unat off \<le> i \<Longrightarrow> i < unat off + PAGE_BYTES \<Longrightarrow> store s w' i = page ! (i - unat off)"
    and write_rest: "good s \<Longrightarrow> length page = PAGE_BYTES \<Longrightarrow> write_pg s off page 256 w = (True, w') \<Longrightarrow>
      \<not> (unat off \<le> i \<and> i < unat off + PAGE_BYTES) \<Longrightarrow> store s w' i = store s w i"
    and write_and: "good s \<Longrightarrow> length page = PAGE_BYTES \<Longrightarrow> write_pg s off page 256 w = (True, w') \<Longrightarrow>
      unat off \<le> i \<Longrightarrow> i < unat off + PAGE_BYTES \<Longrightarrow>
      store s w i AND page ! (i - unat off) = page ! (i - unat off)"
begin

definition in_page :: "'w firmware_receive_t \<Rightarrow> nat \<Rightarrow> bool" where
  "in_page rx i \<longleftrightarrow> unat (rx_page_offset rx) \<le> i \<and> i < unat (rx_page_offset rx) + PAGE_BYTES"

definition page_at :: "'w firmware_receive_t \<Rightarrow> nat \<Rightarrow> u8" where
  "page_at rx i = rx_page rx ! (i - unat (rx_page_offset rx))"

text \<open>The store together with the page being assembled represents the image.\<close>

definition represents :: "'s \<Rightarrow> 'w firmware_receive_t \<Rightarrow> 'w \<Rightarrow> (nat \<Rightarrow> u8) \<Rightarrow> bool" where
  "represents s rx w img \<longleftrightarrow>
     length (rx_page rx) = PAGE_BYTES \<and> rx_write_page rx = Some (write_pg s)
   \<and> (\<forall>i. if rx_page_dirty rx \<and> in_page rx i
          then page_at rx i = img i \<or> page_at rx i = ERASED_BYTE \<and> store s w i = img i
          else store s w i = img i)"

lemma and_erased: "(x :: u8) AND ERASED_BYTE = x"
proof -
  have "(0xFF :: u8) = - 1" by simp
  then show ?thesis by (simp only: and.right_neutral)
qed

lemma represents_flush:
  assumes good: "good s" and rep: "represents s rx w img" and run: "flush_page rx w = (FIRMWARE_RECEIVE_OK, rx', w')"
  shows "represents s rx' w' img \<and> store s w' = img"
proof (cases "rx_page_dirty rx")
  case False
  with assms show ?thesis by (auto simp: flush_page_def represents_def)
next
  case True
  from rep have len: "length (rx_page rx) = PAGE_BYTES" by (simp add: represents_def)
  from run True rep have wr: "write_pg s (rx_page_offset rx) (rx_page rx) 256 w = (True, w')"
    by (auto simp: flush_page_def represents_def split: prod.splits if_splits)
  have "store s w' i = img i" for i
  proof (cases "in_page rx i")
    case inside: True
    have "store s w' i = page_at rx i" "store s w i AND page_at rx i = page_at rx i"
      using inside write_span [OF good len wr] write_and [OF good len wr] by (auto simp: in_page_def page_at_def)
    moreover have "page_at rx i = img i \<or> page_at rx i = ERASED_BYTE \<and> store s w i = img i"
      using rep True inside by (simp add: represents_def)
    ultimately show ?thesis by (auto simp: and_erased)
  next
    case False
    with write_rest [OF good len wr] rep show ?thesis by (auto simp: in_page_def represents_def)
  qed
  moreover have "rx_write_page rx' = Some (write_pg s)" "\<not> rx_page_dirty rx'" "length (rx_page rx') = PAGE_BYTES"
    using flush_page_frame [OF run] rep by (auto simp: same_transfer_def represents_def)
  ultimately show ?thesis by (auto simp: represents_def)
qed

lemma page_split:
  fixes off :: u32
  shows "unat (off - off mod 256) = unat off - unat off mod 256" "unat (off mod 256) = unat off mod 256"
proof -
  show m: "unat (off mod 256) = unat off mod 256" by (simp add: unat_mod)
  have "off mod 256 \<le> off" unfolding word_le_nat_alt m by simp
  then show "unat (off - off mod 256) = unat off - unat off mod 256"
    by (subst unat_sub) (simp_all add: m)
qed

text \<open>Putting a byte into the page of its offset.\<close>

lemma represents_put:
  assumes rep: "represents s rx w img" and off: "rx_page_offset rx = off - off mod 256"
    and fresh: "\<not> rx_page_dirty rx \<Longrightarrow> rx_page rx = replicate PAGE_BYTES ERASED_BYTE"
  shows "represents s (rx\<lparr>rx_page := (rx_page rx)[unat (off mod 256) := v], rx_page_dirty := True\<rparr>) w
    (img(unat off := v))"
proof -
  let ?rx = "rx\<lparr>rx_page := (rx_page rx)[unat (off mod 256) := v], rx_page_dirty := True\<rparr>"
  have len: "length (rx_page rx) = PAGE_BYTES" using rep by (simp add: represents_def)
  note split = page_split [of off]
  have at: "page_at ?rx i = (if i = unat off then v else page_at rx i)" if "in_page rx i" for i
    using that len by (auto simp: page_at_def in_page_def off split nth_list_update)
  have "in_page rx (unat off)" by (simp add: in_page_def off split)
  have old: "page_at rx i = img i \<or> page_at rx i = ERASED_BYTE \<and> store s w i = img i" if "in_page rx i" for i
  proof (cases "rx_page_dirty rx")
    case False
    have "i - unat (rx_page_offset rx) < PAGE_BYTES" using that by (auto simp: in_page_def)
    with False fresh have "page_at rx i = ERASED_BYTE" by (simp add: page_at_def)
    with rep False show ?thesis by (auto simp: represents_def)
  qed (use rep that in \<open>auto simp: represents_def\<close>)
  have out: "store s w i = img i" if "\<not> in_page rx i" for i
    using rep that by (auto simp: represents_def)
  have "in_page ?rx i \<longleftrightarrow> in_page rx i" for i by (simp add: in_page_def)
  with at old out \<open>in_page rx (unat off)\<close> rep show ?thesis
    by (auto simp: represents_def)
qed

lemma represents_cong:
  "rx_page rx' = rx_page rx \<Longrightarrow> rx_page_offset rx' = rx_page_offset rx \<Longrightarrow>
    rx_page_dirty rx' = rx_page_dirty rx \<Longrightarrow> rx_write_page rx' = rx_write_page rx \<Longrightarrow>
    represents s rx' w img = represents s rx w img"
  by (simp add: represents_def in_page_def page_at_def)

lemma represents_updates [simp]:
  "represents s (rx\<lparr>rx_parser := p\<rparr>) w img = represents s rx w img"
  "represents s (rx\<lparr>rx_records := n\<rparr>) w img = represents s rx w img"
  "represents s (rx\<lparr>rx_complete := c\<rparr>) w img = represents s rx w img"
  "represents s (rx\<lparr>rx_error := x\<rparr>) w img = represents s rx w img"
  by (simp_all add: represents_def in_page_def page_at_def)

lemma represents_reset: "represents s rx w img \<Longrightarrow> \<not> rx_page_dirty rx \<Longrightarrow> represents s (reset_page rx at) w img"
  by (simp add: represents_def)

lemma place_byte_represents:
  assumes good: "good s" and rep: "represents s rx w img"
    and run: "place_byte rx a v w = (FIRMWARE_RECEIVE_OK, rx', w')"
  shows "represents s rx' w' (img(unat (a - rx_base_address rx) := v))
    \<and> unat (rx_image_size rx') = max (unat (rx_image_size rx)) (unat (a - rx_base_address rx) + 1)
    \<and> unat (a - rx_base_address rx) < unat (rx_capacity rx)"
proof -
  let ?off = "a - rx_base_address rx"
  let ?po = "?off - ?off mod 256"
  obtain e rx1 w1 where flush: "(if rx_page_dirty rx \<and> ?po \<noteq> rx_page_offset rx then flush_page rx w
      else (FIRMWARE_RECEIVE_OK, rx, w)) = (e, rx1, w1)" by (rule prod_cases3)
  from run flush have ok: "\<not> a < rx_base_address rx" "\<not> rx_capacity rx \<le> ?off" "e = FIRMWARE_RECEIVE_OK"
    by (auto simp: place_byte_def Let_def split: if_splits)
  have one: "represents s rx1 w1 img \<and> rx_image_size rx1 = rx_image_size rx
      \<and> (rx_page_dirty rx1 \<longrightarrow> rx_page_offset rx1 = ?po)"
  proof (cases "rx_page_dirty rx \<and> ?po \<noteq> rx_page_offset rx")
    case True
    with flush ok(3) have run: "flush_page rx w = (FIRMWARE_RECEIVE_OK, rx1, w1)" by simp
    then show ?thesis using represents_flush [OF good rep run] flush_page_frame(5,9) [OF run] by simp
  qed (use flush rep in auto)
  define rx2 where "rx2 = (if \<not> rx_page_dirty rx1 then reset_page rx1 ?po else rx1)"
  have rep1: "length (rx_page rx1) = PAGE_BYTES" "rx_write_page rx1 = Some (write_pg s)"
      "\<not> rx_page_dirty rx1 \<Longrightarrow> store s w1 = img"
    using one by (auto simp: represents_def)
  have two: "represents s rx2 w1 img" "rx_page_offset rx2 = ?po" "rx_image_size rx2 = rx_image_size rx"
      "\<not> rx_page_dirty rx2 \<Longrightarrow> rx_page rx2 = replicate PAGE_BYTES ERASED_BYTE"
    using one rep1 by (auto simp: rx2_def represents_reset)
  have small: "unat ?off + 1 < 2 ^ 32"
    using ok(2) unat_u32_lt [of "rx_capacity rx"] by (simp add: word_le_nat_alt)
  have size1: "unat (?off + 1) = unat ?off + 1"
    using small by (simp add: unat_word_ariths)
  define rx3 where "rx3 = rx2\<lparr>rx_page := (rx_page rx2)[unat (?off mod 256) := v], rx_page_dirty := True\<rparr>"
  have three: "represents s rx3 w1 (img(unat ?off := v))"
    unfolding rx3_def using represents_put [OF two(1,2,4)] .
  have result: "w' = w1" "rx_page rx' = rx_page rx3" "rx_page_offset rx' = rx_page_offset rx3"
      "rx_page_dirty rx' = rx_page_dirty rx3" "rx_write_page rx' = rx_write_page rx3"
      "rx_image_size rx' = (if rx_image_size rx3 < ?off + 1 then ?off + 1 else rx_image_size rx3)"
    using run flush ok by (auto simp: place_byte_def Let_def rx2_def rx3_def split: if_splits)
  have "represents s rx' w' (img(unat ?off := v))"
    using three represents_cong [OF result(2-5)] result(1) by simp
  moreover have "rx_image_size rx3 = rx_image_size rx" using two(3) by (simp add: rx3_def)
  ultimately show ?thesis
    using result(6) ok(2) size1 by (auto simp: word_less_nat_alt word_le_nat_alt max_def)
qed

lemma place_bytes_represents:
  assumes good: "good s" and "represents s rx w img" and "place_bytes rx address i bs w = (FIRMWARE_RECEIVE_OK, rx', w')"
    and "image_end (rx_base_address rx) ws 0 = unat (rx_image_size rx)"
  shows "represents s rx' w' (image_put (rx_base_address rx) (writes_from address i bs) img)
    \<and> image_end (rx_base_address rx) (ws @ writes_from address i bs) 0 = unat (rx_image_size rx')"
  using assms(2-)
proof (induction bs arbitrary: rx w img i ws)
  case Nil
  then show ?case by simp
next
  case (Cons b bs)
  let ?a = "address + word_of_nat i"
  obtain p rx1 w1 where p: "place_byte rx ?a b w = (p, rx1, w1)" by (rule prod_cases3)
  with Cons.prems(2) have ok: "p = FIRMWARE_RECEIVE_OK"
      "place_bytes rx1 address (Suc i) bs w1 = (FIRMWARE_RECEIVE_OK, rx', w')"
    by (auto split: if_splits)
  note one = place_byte_represents [OF good Cons.prems(1) p [unfolded ok(1)]]
  have base: "rx_base_address rx1 = rx_base_address rx"
    using place_byte_frame(1) [OF p] by (simp add: same_transfer_def)
  have "image_end (rx_base_address rx1) (ws @ [(?a, b)]) 0 = unat (rx_image_size rx1)"
    using one Cons.prems(3) by (simp add: base image_end_append)
  from Cons.IH [OF conjunct1 [OF one] ok(2) this] show ?case
    by (simp add: base del: fun_upd_apply)
qed

text \<open>The invariant of a transfer: \<open>ws\<close> is what the lines so far have written, over the contents \<open>bg\<close>.\<close>

definition receiving :: "(nat \<Rightarrow> u8) \<Rightarrow> 's \<Rightarrow> 'w firmware_receive_t \<Rightarrow> 'w \<Rightarrow> (u32 \<times> u8) list \<Rightarrow> bool" where
  "receiving bg s rx w ws \<longleftrightarrow>
     rx_started rx
   \<and> (rx_error rx = FIRMWARE_RECEIVE_OK \<or> rx_complete rx \<longrightarrow>
        represents s rx w (image_put (rx_base_address rx) ws bg)
      \<and> image_end (rx_base_address rx) ws 0 = unat (rx_image_size rx))
   \<and> (rx_complete rx \<longrightarrow> store s w = image_put (rx_base_address rx) ws bg \<and> seen_eof (rx_parser rx))"

lemma receiving_line:
  assumes good: "good s" and inv: "receiving bg s rx w ws" and err: "rx_error rx = FIRMWARE_RECEIVE_OK"
    and run: "firmware_receive_line rx (Some line) w = (e, rx', w')"
    and feed: "hex_parser_feed (rx_parser rx) (Some line) hex_record_zero = (fed, p, rec)"
  shows "receiving bg s rx' w' (ws @ (if fed = HEX_OK then record_writes rec else []))
    \<and> rx_parser rx' = p \<and> rx_base_address rx' = rx_base_address rx
    \<and> (rx_error rx' = FIRMWARE_RECEIVE_OK \<longrightarrow> fed = HEX_OK)
    \<and> (rx_error rx' \<noteq> FIRMWARE_RECEIVE_OK \<and> rx_complete rx' \<longrightarrow> fed \<noteq> HEX_OK)"
proof -
  let ?base = "rx_base_address rx"
  have rep: "represents s rx w (image_put ?base ws bg)" "image_end ?base ws 0 = unat (rx_image_size rx)"
      "rx_started rx"
    using inv err by (auto simp: receiving_def)
  from run rep(3) err show ?thesis
  proof (cases rule: receive_line_cases)
    case refused
    with feed inv hex_feed_refused [OF feed] show ?thesis
      by (auto simp: receiving_def)
  next
    case (data p1 rec1)
    let ?rx = "rx\<lparr>rx_parser := p1, rx_records := rx_records rx + 1\<rparr>"
    from data feed have eqs: "p1 = p" "rec1 = rec" "fed = HEX_OK" by simp_all
    have not_complete: "\<not> rx_complete rx"
      using hex_feed_seen_eof(1) [OF data(1)] inv by (auto simp: receiving_def)
    have rep': "represents s ?rx w (image_put ?base ws bg)"
      using rep(1) by simp
    note frame = place_bytes_frame [OF data(3)]
    show ?thesis
    proof (cases "e = FIRMWARE_RECEIVE_OK")
      case True
      note placed = place_bytes_represents [OF good rep' data(3) [unfolded True], of ws]
      show ?thesis
        using placed rep frame True not_complete err data(2) eqs
        by (simp add: receiving_def record_writes_def same_transfer_def image_put_append)
    next
      case False
      with frame not_complete rep(3) eqs show ?thesis
        by (auto simp: receiving_def same_transfer_def)
    qed
  next
    case (eof p1 rec1 f rx1)
    let ?rx = "rx\<lparr>rx_parser := p1, rx_records := rx_records rx + 1\<rparr>"
    from eof feed have eqs: "p1 = p" "rec1 = rec" "fed = HEX_OK" by simp_all
    have not_complete: "\<not> rx_complete rx"
      using hex_feed_seen_eof(1) [OF eof(1)] inv by (auto simp: receiving_def)
    have rep': "represents s ?rx w (image_put ?base ws bg)"
      using rep(1) by simp
    note frame = flush_page_frame [OF eof(3)]
    show ?thesis
    proof (cases "f = FIRMWARE_RECEIVE_OK")
      case True
      note flushed = represents_flush [OF good rep' eof(3) [unfolded True]]
      with True eof(4) eqs frame flushed rep err hex_feed_seen_eof(2) [OF eof(1,2)] eof(2)
      show ?thesis by (simp add: receiving_def record_writes_def same_transfer_def)
    next
      case False
      with frame not_complete rep(3) eqs eof(4) show ?thesis
        by (auto simp: receiving_def same_transfer_def)
    qed
  next
    case (other p1 rec1)
    with feed inv err show ?thesis
      by (auto simp: receiving_def record_writes_def hex_feed_seen_eof(1))
  qed
qed

lemma receiving_lines:
  assumes good: "good s" and inv: "receiving bg s rx w ws"
    and run: "receive_lines rx lines w = (rx', w')"
  shows "receiving bg s rx' w'
    (ws @ (if rx_error rx = FIRMWARE_RECEIVE_OK then hex_writes (rx_parser rx) lines else []))
    \<and> rx_base_address rx' = rx_base_address rx"
  using inv run
proof (induction lines arbitrary: rx w ws)
  case Nil
  then show ?case by simp
next
  case (Cons line lines)
  have started: "rx_started rx" using Cons.prems(1) by (simp add: receiving_def)
  show ?case
  proof (cases "rx_error rx = FIRMWARE_RECEIVE_OK")
    case False
    with Cons.prems started show ?thesis by (simp add: receive_line_aborted receive_lines_aborted)
  next
    case True
    obtain e rx1 w1 where step: "firmware_receive_line rx (Some line) w = (e, rx1, w1)"
      by (rule prod_cases3)
    obtain fed p rec where feed: "hex_parser_feed (rx_parser rx) (Some line) hex_record_zero = (fed, p, rec)"
      by (rule prod_cases3)
    note one = receiving_line [OF good Cons.prems(1) True step feed]
    have rest: "receive_lines rx1 lines w1 = (rx', w')" using Cons.prems(2) step by simp
    note IH = Cons.IH [OF conjunct1 [OF one] rest]
    show ?thesis
    proof (cases "rx_error rx1 = FIRMWARE_RECEIVE_OK")
      case ok: True
      with one IH True feed show ?thesis by simp
    next
      case False
      have "rx_started rx1" using one by (simp add: receiving_def)
      with rest False have same: "rx' = rx1" by (simp add: receive_lines_aborted)
      show ?thesis
      proof (cases "rx_complete rx1")
        case complete: True
        with one IH True False feed show ?thesis by simp
      next
        case False
        with same \<open>rx_error rx1 \<noteq> FIRMWARE_RECEIVE_OK\<close> \<open>rx_started rx1\<close> one show ?thesis
          by (simp add: receiving_def)
      qed
    qed
  qed
qed

text \<open>A whole transfer, from \<open>firmware_receive_begin\<close> on an erased store.\<close>

lemma transfer_image:
  assumes "good s" and "cap \<noteq> 0" and blank: "store s w = (\<lambda>_. ERASED_BYTE)"
    and begun: "firmware_receive_begin rx0 (Some \<lparr>cfg_base_address = base, cfg_capacity = cap,
      cfg_write_page = Some (write_pg s)\<rparr>) = (FIRMWARE_RECEIVE_OK, rx)"
    and run: "receive_lines rx lines w = (rx', w')" and complete: "rx_complete rx'"
  shows "store s w' = image_of base (hex_writes hex_parser_reset lines)
    \<and> unat (rx_image_size rx') = image_end base (hex_writes hex_parser_reset lines) 0"
proof -
  have rx: "rx = reset_page (firmware_receive_zero\<lparr>rx_base_address := base, rx_capacity := cap,
      rx_write_page := Some (write_pg s), rx_started := True, rx_parser := hex_parser_reset\<rparr>) 0"
    using begun assms(2) by (simp add: firmware_receive_begin_def)
  then have "receiving (\<lambda>_. ERASED_BYTE) s rx w []"
    using blank by (simp add: receiving_def represents_def firmware_receive_zero_def)
  from receiving_lines [OF assms(1) this run] complete rx show ?thesis
    by (auto simp: receiving_def image_of_def firmware_receive_zero_def)
qed

end

lemma receive_line_complete:
  assumes "firmware_receive_line rx (Some line) w = (e, rx', w')" and "\<not> rx_complete rx"
  shows "rx_complete rx' \<longrightarrow> e = FIRMWARE_RECEIVE_COMPLETE"
proof (cases "rx_started rx \<and> rx_error rx = FIRMWARE_RECEIVE_OK")
  case False
  with assms have "rx' = rx" by (cases "rx_started rx") (simp_all add: firmware_receive_line_def)
  with assms(2) show ?thesis by simp
next
  case True
  from assms(1) True [THEN conjunct1] True [THEN conjunct2] show ?thesis
  proof (cases rule: receive_line_cases)
    case (data p rec)
    with place_bytes_frame [OF data(3)] assms(2) show ?thesis by simp
  next
    case (eof p rec f rx1)
    with flush_page_frame(2) [OF eof(3)] assms(2) show ?thesis by (auto split: if_splits)
  qed (use assms(2) True in auto)
qed

subsection \<open>Where pages go\<close>

text \<open>The page being assembled starts at a page boundary inside the region, and the image so far
  fits the region.\<close>

definition paged :: "'w firmware_receive_t \<Rightarrow> bool" where
  "paged rx \<longleftrightarrow> length (rx_page rx) = PAGE_BYTES \<and> 256 dvd unat (rx_page_offset rx)
     \<and> (rx_page_dirty rx \<longrightarrow> unat (rx_page_offset rx) < unat (rx_capacity rx))
     \<and> unat (rx_image_size rx) \<le> unat (rx_capacity rx)"

text \<open>A property of the writer's state that every aligned page inside the region keeps.\<close>

definition keeps :: "'w page_writer option \<Rightarrow> u32 \<Rightarrow> ('w \<Rightarrow> bool) \<Rightarrow> bool" where
  "keeps wr cap I \<longleftrightarrow> (\<forall>off page w. I w \<and> length page = PAGE_BYTES \<and> 256 dvd unat off
     \<and> unat off < unat cap \<longrightarrow> I (snd (the wr off page 256 w)))"

lemma receive_begin_ok:
  assumes "firmware_receive_begin rx0 (Some c) = (FIRMWARE_RECEIVE_OK, rx)"
  shows "\<not> rx_complete rx" "paged rx" "rx_write_page rx = cfg_write_page c" "rx_capacity rx = cfg_capacity c"
    "rx_base_address rx = cfg_base_address c" "rx_error rx = FIRMWARE_RECEIVE_OK" "rx_started rx"
  using assms by (auto simp: firmware_receive_begin_def paged_def firmware_receive_zero_def split: if_splits)

lemma begin_fields:
  assumes "firmware_receive_begin rx0 (Some c) = (FIRMWARE_RECEIVE_OK, rx)"
  shows "rx_parser rx = hex_parser_reset \<and> rx_image_size rx = 0 \<and> length (rx_page rx) = PAGE_BYTES
    \<and> \<not> rx_page_dirty rx"
  using assms by (auto simp: firmware_receive_begin_def firmware_receive_zero_def split: if_splits)

lemma flush_page_keeps:
  assumes "flush_page rx w = (e, rx', w')" and "paged rx" and "keeps (rx_write_page rx) (rx_capacity rx) I"
    and "I w"
  shows "paged rx' \<and> I w'"
proof (cases "rx_page_dirty rx")
  case True
  obtain b v where wr: "the (rx_write_page rx) (rx_page_offset rx) (rx_page rx) 256 w = (b, v)" by fastforce
  with True assms have "I v"
    unfolding keeps_def paged_def by (metis snd_conv)
  with wr True assms show ?thesis
    by (auto simp: flush_page_def paged_def split: if_splits)
qed (use assms in \<open>auto simp: flush_page_def\<close>)

lemma page_boundary:
  fixes off :: u32
  shows "256 dvd unat (off - off mod 256)" and "unat (off - off mod 256) \<le> unat off"
proof -
  have "off mod 256 \<le> off" by (simp add: word_le_nat_alt unat_mod)
  then have "unat (off - off mod 256) = unat off - unat off mod 256"
    by (simp add: unat_sub unat_mod)
  then show "256 dvd unat (off - off mod 256)" "unat (off - off mod 256) \<le> unat off"
    by (simp_all add: minus_mod_eq_mult_div)
qed

lemma place_byte_keeps:
  assumes run: "place_byte rx a v w = (e, rx', w')" and paged: "paged rx"
    and keeps: "keeps (rx_write_page rx) (rx_capacity rx) I" and I: "I w"
  shows "paged rx' \<and> I w'"
proof -
  let ?off = "a - rx_base_address rx"
  let ?po = "?off - ?off mod 256"
  obtain f rx1 w1 where flush: "(if rx_page_dirty rx \<and> ?po \<noteq> rx_page_offset rx then flush_page rx w
      else (FIRMWARE_RECEIVE_OK, rx, w)) = (f, rx1, w1)" by (rule prod_cases3)
  have one: "paged rx1 \<and> I w1 \<and> rx_capacity rx1 = rx_capacity rx"
  proof (cases "rx_page_dirty rx \<and> ?po \<noteq> rx_page_offset rx")
    case True
    with flush have "flush_page rx w = (f, rx1, w1)" by simp
    from flush_page_keeps [OF this paged keeps I] flush_page_frame(1) [OF this] show ?thesis
      by (simp add: same_transfer_def)
  qed (use flush paged I in auto)
  define rx2 where "rx2 = (if \<not> rx_page_dirty rx1 then reset_page rx1 ?po else rx1)"
  have two: "paged rx2" "rx_page_dirty rx1 \<Longrightarrow> unat (rx_page_offset rx2) < unat (rx_capacity rx1)"
      "\<not> rx_page_dirty rx1 \<Longrightarrow> rx_page_offset rx2 = ?po" "rx_capacity rx2 = rx_capacity rx1"
      "rx_image_size rx2 = rx_image_size rx1"
    using one page_boundary(1) [of ?off] by (auto simp: rx2_def paged_def)
  consider "rx' = rx" "w' = w" | "rx' = rx1" "w' = w1"
    | "\<not> rx_capacity rx \<le> ?off" "w' = w1" "rx_page rx' = (rx_page rx2)[unat (?off mod 256) := v]"
      "rx_page_offset rx' = rx_page_offset rx2" "rx_capacity rx' = rx_capacity rx2"
      "rx_image_size rx' = rx_image_size rx2 \<or> rx_image_size rx' = ?off + 1"
    using run flush by (auto simp: place_byte_def Let_def rx2_def split: if_splits)
  then show ?thesis
  proof cases
    case 3
    have "unat (rx_page_offset rx2) < unat (rx_capacity rx1)"
      using two(2,3) page_boundary(2) [of ?off] 3(1) one
      by (cases "rx_page_dirty rx1") (auto simp: word_le_nat_alt)
    moreover have "unat (?off + 1) \<le> unat (rx_capacity rx)"
      using 3(1) unat_u32_lt [of "rx_capacity rx"] by (simp add: word_le_nat_alt unat_word_ariths)
    ultimately show ?thesis using 3 two one by (auto simp: paged_def)
  qed (use one paged I in auto)
qed

lemma place_bytes_keeps:
  assumes "place_bytes rx address i bs w = (e, rx', w')" and "paged rx"
    and "keeps (rx_write_page rx) (rx_capacity rx) I" and "I w"
  shows "paged rx' \<and> I w'"
  using assms
proof (induction rx address i bs w rule: place_bytes.induct)
  case (2 rx address i b bs w)
  obtain p rx1 w1 where p: "place_byte rx (address + word_of_nat i) b w = (p, rx1, w1)"
    by (rule prod_cases3)
  note one = place_byte_keeps [OF p 2(3-5)] place_byte_frame(1) [OF p]
  show ?case
  proof (cases "p = FIRMWARE_RECEIVE_OK")
    case True
    with 2(1) [OF p [symmetric] refl] 2(2,4) p one show ?thesis by (simp add: same_transfer_def)
  next
    case False
    with 2(2) p one show ?thesis by (auto simp: paged_def)
  qed
qed simp

lemma receive_line_keeps:
  assumes "firmware_receive_line rx line w = (e, rx', w')" and "paged rx"
    and "keeps (rx_write_page rx) (rx_capacity rx) I" and "I w"
  shows "paged rx' \<and> I w' \<and> same_transfer rx rx'"
proof (cases "line \<noteq> None \<and> rx_started rx \<and> rx_error rx = FIRMWARE_RECEIVE_OK")
  case False
  with assms(1) have "rx' = rx \<and> w' = w"
    by (cases line; cases "rx_started rx") (simp_all add: firmware_receive_line_def)
  with assms show ?thesis by (simp add: same_transfer_def)
next
  case True
  then obtain l where l: "line = Some l" "rx_started rx" "rx_error rx = FIRMWARE_RECEIVE_OK" by auto
  have upd: "paged (rx\<lparr>rx_parser := p, rx_records := n\<rparr>)" "paged (rx\<lparr>rx_parser := p, rx_error := x\<rparr>)"
    for p n x using assms(2) by (simp_all add: paged_def)
  from assms(1) [unfolded l(1)] l(2,3) show ?thesis
  proof (cases rule: receive_line_cases)
    case (data p rec)
    with place_bytes_keeps [OF data(3) upd(1), of I] place_bytes_frame [OF data(3)] assms(3,4) show ?thesis
      by (simp add: same_transfer_def)
  next
    case (eof p rec f rx1)
    with flush_page_keeps [OF eof(3) upd(1), of I] flush_page_frame(1) [OF eof(3)] assms(3,4) show ?thesis
      by (auto simp: same_transfer_def paged_def split: if_splits)
  qed (use assms upd in \<open>auto simp: same_transfer_def\<close>)
qed

lemma receive_lines_keeps:
  "receive_lines rx lines w = (rx', w') \<Longrightarrow> paged rx \<Longrightarrow>
    keeps (rx_write_page rx) (rx_capacity rx) I \<Longrightarrow> I w \<Longrightarrow> paged rx' \<and> I w' \<and> same_transfer rx rx'"
proof (induction lines arbitrary: rx w)
  case Nil
  then show ?case by (auto simp: same_transfer_def)
next
  case (Cons line lines)
  obtain e rx1 w1 where step: "firmware_receive_line rx (Some line) w = (e, rx1, w1)" by (rule prod_cases3)
  note one = receive_line_keeps [OF step Cons.prems(2-4)]
  with Cons.IH [of rx1 w1] Cons.prems(1,3) step show ?case
    by (auto simp: same_transfer_def)
qed

text \<open>A writer that also records what it was called with.\<close>

definition logging :: "'w page_writer \<Rightarrow> ('w \<times> (u32 \<times> u8 list \<times> u32) list) page_writer" where
  "logging wr off page sz = (\<lambda>(w, log).
     case wr off page sz w of (ok, w') \<Rightarrow> (ok, (w', log @ [(off, page, sz)])))"

subsection \<open>Properties\<close>

text \<open>Whatever lines arrive, and whatever the writer answers, every page the writer is called
  with is 256 bytes long, starts at a multiple of 256 and starts inside the region: no address
  in the file can make the receiver write below the base or past the capacity.\<close>

theorem receive_pages_in_bounds:
  assumes "firmware_receive_begin rx0 (Some \<lparr>cfg_base_address = base, cfg_capacity = cap,
      cfg_write_page = Some (logging wr)\<rparr>) = (FIRMWARE_RECEIVE_OK, rx)"
    and "receive_lines rx lines (w, []) = (rx', (w', log))"
  shows "\<forall>(off, page, sz) \<in> set log.
    length page = PAGE_BYTES \<and> sz = 256 \<and> 256 dvd unat off \<and> unat off < unat cap"
proof -
  let ?I = "\<lambda>(w, log). \<forall>(off, page, sz) \<in> set log.
    length page = PAGE_BYTES \<and> sz = 256 \<and> 256 dvd unat off \<and> unat off < unat cap"
  have "cap \<noteq> 0" using assms(1) by (auto simp: firmware_receive_begin_def)
  then have rx: "rx_capacity rx = cap" "rx_write_page rx = Some (logging wr)" "paged rx"
    using assms(1) by (auto simp: firmware_receive_begin_def paged_def firmware_receive_zero_def)
  have "keeps (rx_write_page rx) (rx_capacity rx) ?I"
    by (auto simp: keeps_def rx logging_def split: prod.splits)
  from receive_lines_keeps [OF assms(2) rx(3) this] show ?thesis by simp
qed

theorem receive_pages_in_bounds_witness:
  "\<exists>rx rx' log. firmware_receive_begin firmware_receive_zero (Some \<lparr>cfg_base_address = 0x10000000,
      cfg_capacity = 0x1000, cfg_write_page = Some (logging (\<lambda>_ _ _ (w :: unit). (True, w)))\<rparr>) = (FIRMWARE_RECEIVE_OK, rx)
    \<and> receive_lines rx ['':020000041000EA'', '':0200FF00AABB9A''] ((), []) = (rx', ((), log))
    \<and> (\<forall>(off, page, sz) \<in> set log. length page = PAGE_BYTES \<and> unat off < 0x1000)"
proof -
  obtain rx where rx: "firmware_receive_begin firmware_receive_zero (Some \<lparr>cfg_base_address = 0x10000000,
      cfg_capacity = 0x1000, cfg_write_page = Some (logging (\<lambda>_ _ _ (w :: unit). (True, w)))\<rparr>) = (FIRMWARE_RECEIVE_OK, rx)"
    by (simp add: firmware_receive_begin_def)
  obtain rx' v where v: "receive_lines rx ['':020000041000EA'', '':0200FF00AABB9A''] ((), []) = (rx', v)"
    by (rule prod.exhaust)
  obtain log where "v = ((), log)" by (cases v) auto
  with v have run: "receive_lines rx ['':020000041000EA'', '':0200FF00AABB9A''] ((), []) = (rx', ((), log))"
    by simp
  from receive_pages_in_bounds [OF rx run] have
    "\<forall>(off, page, sz) \<in> set log. length page = PAGE_BYTES \<and> unat off < 0x1000" by auto
  with rx run show ?thesis by blast
qed

text \<open>One bad line poisons the transfer for good. When a line of a running transfer is answered
  with an error, the transfer is not complete and never will be: every later line and every
  flush is answered as aborted and neither the receiver nor the flash behind the writer
  changes again, so a partly written image cannot come to look finished.\<close>

theorem receive_error_is_final:
  assumes "rx_started rx" and "rx_error rx = FIRMWARE_RECEIVE_OK" and "\<not> rx_complete rx"
    and "firmware_receive_line rx (Some line) w = (e, rx', w')"
    and "e \<noteq> FIRMWARE_RECEIVE_OK" and "e \<noteq> FIRMWARE_RECEIVE_COMPLETE"
  shows "\<not> firmware_receive_is_complete rx' \<and> rx_error rx' = e
    \<and> receive_lines rx' later w'' = (rx', w'')
    \<and> firmware_receive_line rx' (Some next_line) w'' = (FIRMWARE_RECEIVE_ERR_ABORTED, rx', w'')
    \<and> firmware_receive_flush rx' w'' = (FIRMWARE_RECEIVE_ERR_ABORTED, rx', w'')"
proof -
  have *: "rx_started rx' \<and> rx_error rx' = e \<and> \<not> rx_complete rx'"
    using assms(4,1,2)
  proof (cases rule: receive_line_cases)
    case refused
    with assms show ?thesis by simp
  next
    case (data p rec)
    from place_bytes_frame [OF data(3)] assms show ?thesis by (simp add: same_transfer_def)
  next
    case (eof p rec f rx1)
    with flush_page_frame [OF eof(3)] assms show ?thesis
      by (auto simp: same_transfer_def split: if_splits)
  qed (use assms in auto)
  with assms(5) show ?thesis
    by (simp add: receive_lines_aborted receive_line_aborted firmware_receive_flush_def
        firmware_receive_is_complete_def)
qed

theorem receive_error_is_final_witness:
  "\<exists>rx' w'. firmware_receive_line (firmware_receive_zero\<lparr>rx_started := True\<rparr>) (Some ''no hex'') ()
      = (FIRMWARE_RECEIVE_ERR_HEX, rx', w')
    \<and> receive_lines rx' ['':00000001FF''] () = (rx', ())"
proof -
  have step: "firmware_receive_line (firmware_receive_zero\<lparr>rx_started := True\<rparr>) (Some ''no hex'') ()
      = (FIRMWARE_RECEIVE_ERR_HEX, firmware_receive_zero\<lparr>rx_started := True, rx_error := FIRMWARE_RECEIVE_ERR_HEX\<rparr>, ())"
    by (simp add: firmware_receive_line_def firmware_receive_zero_def hex_parser_feed_def is_space_def)
  from receive_error_is_final [OF _ _ _ step] step show ?thesis
    by (simp add: firmware_receive_zero_def)
qed

end
