(* ===== verification/Firmware_Apply.thy ===== *)
theory Firmware_Apply
  imports Flash_Storage
begin

text \<open>
  Model of \<open>components/firmware_update/firmware_apply\<close>: the copy of the staged image over the
  application, sector by sector, with the SDK's flash primitives called directly. The
  function does not return: what it leaves is the flash the chip restarts from. Arming and
  petting the watchdog, disabling interrupts and the reset itself have no state here.
\<close>

abbreviation (input) FLASH_SECTOR_SIZE :: u32 where "FLASH_SECTOR_SIZE \<equiv> 4096"

text \<open>One turn of the loop.\<close>

definition apply_sector :: "'f flash_sdk \<Rightarrow> u32 \<Rightarrow> u32 \<Rightarrow> u32 \<Rightarrow> 'f \<Rightarrow> 'f" where
  "apply_sector sdk source_offset destination_offset sector f =
     (let at = sector * FLASH_SECTOR_SIZE;
          g_sector = xip_bytes sdk f (unat (source_offset + at)) (unat FLASH_SECTOR_SIZE);
          f = flash_range_erase sdk (destination_offset + at) FLASH_SECTOR_SIZE f
      in flash_range_program sdk (destination_offset + at) g_sector f)"

definition firmware_apply :: "'f flash_sdk \<Rightarrow> flash_region_t \<Rightarrow> flash_region_t \<Rightarrow> u32 \<Rightarrow> 'f \<Rightarrow> 'f" where
  "firmware_apply sdk source destination sz f =
     (let sectors = (sz + FLASH_SECTOR_SIZE - 1) div FLASH_SECTOR_SIZE
      in fold (apply_sector sdk (reg_offset source) (reg_offset destination))
           (map word_of_nat [0..<unat sectors]) f)"

subsection \<open>The copy\<close>

text \<open>The whole sectors of the image lie inside both regions and the regions do not overlap.\<close>

definition copyable :: "'f flash_sdk \<Rightarrow> flash_region_t \<Rightarrow> flash_region_t \<Rightarrow> bool" where
  "copyable sdk src dst \<longleftrightarrow> usable sdk src \<and> usable sdk dst
     \<and> (reg_hi src \<le> reg_lo dst \<or> reg_hi dst \<le> reg_lo src)
     \<and> 4096 dvd reg_lo dst \<and> 4096 dvd unat (reg_size dst)"

lemma apply_sector_spec:
  assumes copy: "copyable sdk src dst" and k: "k * 4096 + 4096 \<le> unat (reg_size src)"
      "k * 4096 + 4096 \<le> unat (reg_size dst)"
  shows "xip sdk (apply_sector sdk (reg_offset src) (reg_offset dst) (word_of_nat k) f) i =
    (if reg_lo dst + k * 4096 \<le> i \<and> i < reg_lo dst + k * 4096 + 4096
     then xip sdk f (reg_lo src + (i - reg_lo dst)) else xip sdk f i)"
proof -
  have ok: "flash_sdk_ok sdk" using copy by (simp add: copyable_def usable_def)
  have chip: "reg_lo dst + unat (reg_size dst) \<le> chip_size sdk" "reg_lo src + unat (reg_size src) \<le> chip_size sdk"
      "chip_size sdk < 4294967296"
    using copy by (auto simp: copyable_def usable_def reg_hi_def reg_lo_def)
  have at: "unat (word_of_nat k * 4096 :: u32) = k * 4096"
  proof -
    have "unat (word_of_nat k :: u32) = k" using k(2) chip by (intro unat_of_nat_lt) simp
    then show ?thesis using k(2) chip by (subst unat_u32_arith(3)) simp_all
  qed
  let ?s = "reg_offset src + word_of_nat k * 4096" and ?d = "reg_offset dst + word_of_nat k * 4096"
  have s: "unat ?s = reg_lo src + k * 4096" and d: "unat ?d = reg_lo dst + k * 4096"
    using k chip at by (simp_all add: unat_u32_arith(1) reg_lo_def)
  have aligned: "4096 dvd unat ?d" using copy by (simp add: d copyable_def)
  have "(256 :: nat) dvd 4096" by simp
  then have page: "256 dvd unat ?d" using aligned by (rule dvd_trans)
  let ?b = "xip_bytes sdk f (unat ?s) 4096"
  have inside: "unat ?d + unat (4096 :: u32) \<le> chip_size sdk" "unat ?d + length ?b \<le> chip_size sdk"
    using k chip d by simp_all
  have blank: "(0xFF :: u8) AND x = x" for x
  proof -
    have "(0xFF :: u8) = - 1" by simp
    then show ?thesis by (simp only: and.left_neutral)
  qed
  have "256 dvd length ?b" by simp
  then show ?thesis
    unfolding apply_sector_def Let_def
    using sdk_program [OF ok page _ inside(2)] sdk_erase [OF ok aligned _ inside(1)]
    by (auto simp: d s blank)
qed

lemma apply_sectors_spec:
  assumes copy: "copyable sdk src dst" and n: "n * 4096 \<le> unat (reg_size src)" "n * 4096 \<le> unat (reg_size dst)"
  shows "xip sdk (fold (apply_sector sdk (reg_offset src) (reg_offset dst)) (map word_of_nat [0..<n]) f) i =
    (if reg_lo dst \<le> i \<and> i < reg_lo dst + n * 4096 then xip sdk f (reg_lo src + (i - reg_lo dst)) else xip sdk f i)"
  using n
proof (induction n arbitrary: i)
  case 0
  then show ?case by auto
next
  case (Suc n)
  let ?g = "fold (apply_sector sdk (reg_offset src) (reg_offset dst)) (map word_of_nat [0..<n]) f"
  have IH: "xip sdk ?g j = (if reg_lo dst \<le> j \<and> j < reg_lo dst + n * 4096
      then xip sdk f (reg_lo src + (j - reg_lo dst)) else xip sdk f j)" for j
    using Suc by simp
  have away: "\<not> (reg_lo dst \<le> reg_lo src + k \<and> reg_lo src + k < reg_lo dst + n * 4096)"
    if "k < unat (reg_size src)" for k
    using that copy Suc.prems by (auto simp: copyable_def reg_hi_def reg_lo_def)
  have step: "fold (apply_sector sdk (reg_offset src) (reg_offset dst)) (map word_of_nat [0..<Suc n]) f
      = apply_sector sdk (reg_offset src) (reg_offset dst) (word_of_nat n) ?g" by simp
  have sector: "xip sdk (apply_sector sdk (reg_offset src) (reg_offset dst) (word_of_nat n) ?g) i =
      (if reg_lo dst + n * 4096 \<le> i \<and> i < reg_lo dst + n * 4096 + 4096
       then xip sdk ?g (reg_lo src + (i - reg_lo dst)) else xip sdk ?g i)"
    using apply_sector_spec [OF copy] Suc.prems by simp
  show ?case
  proof (cases "reg_lo dst + n * 4096 \<le> i \<and> i < reg_lo dst + n * 4096 + 4096")
    case True
    then have "i - reg_lo dst < unat (reg_size src)" using Suc.prems by auto
    from away [OF this] have "xip sdk ?g (reg_lo src + (i - reg_lo dst)) = xip sdk f (reg_lo src + (i - reg_lo dst))"
      unfolding IH by (rule if_not_P)
    with True sector show ?thesis unfolding step by simp
  next
    case False
    with sector IH show ?thesis unfolding step by auto
  qed
qed

lemma sectors_cover:
  fixes sz n :: nat
  assumes "4096 dvd n" and "sz \<le> n"
  shows "(sz + 4095) div 4096 * 4096 \<le> n" and "sz \<le> (sz + 4095) div 4096 * 4096"
proof -
  obtain k where k: "n = 4096 * k" using assms(1) by (rule dvdE)
  then have "(sz + 4095) div 4096 \<le> k" using assms(2) by (simp add: less_Suc_eq_le [symmetric] div_less_iff_less_mult)
  then show "(sz + 4095) div 4096 * 4096 \<le> n" using k by simp
  show "sz \<le> (sz + 4095) div 4096 * 4096" by simp
qed

lemma firmware_apply_spec:
  assumes copy: "copyable sdk src dst" and src: "4096 dvd unat (reg_size src)"
    and fits: "unat sz \<le> unat (reg_size src)" "unat sz \<le> unat (reg_size dst)"
  shows "i < unat sz \<Longrightarrow> xip sdk (firmware_apply sdk src dst sz f) (reg_lo dst + i) = xip sdk f (reg_lo src + i)"
    and "i < reg_lo dst \<or> reg_hi dst \<le> i \<Longrightarrow> xip sdk (firmware_apply sdk src dst sz f) i = xip sdk f i"
proof -
  have dst: "4096 dvd unat (reg_size dst)" using copy by (simp add: copyable_def)
  obtain k where k: "unat (reg_size dst) = 4096 * k" using dst by (rule dvdE)
  then have "unat sz + 4095 < 4294967296" using fits(2) unat_u32_lt [of "reg_size dst"] by simp
  then have up: "unat (4095 + sz) = unat sz + 4095" by (subst unat_u32_arith(1)) simp_all
  let ?n = "(unat sz + 4095) div 4096"
  have n: "unat ((sz + 4096 - 1) div 4096) = ?n" by (simp add: unat_div up)
  have run: "firmware_apply sdk src dst sz f
      = fold (apply_sector sdk (reg_offset src) (reg_offset dst)) (map word_of_nat [0..<?n]) f"
    unfolding firmware_apply_def Let_def n ..
  note spec = apply_sectors_spec [OF copy sectors_cover(1) [OF src fits(1)] sectors_cover(1) [OF dst fits(2)], of f,
      folded run]
  show "xip sdk (firmware_apply sdk src dst sz f) (reg_lo dst + i) = xip sdk f (reg_lo src + i)" if "i < unat sz"
    using that spec [of "reg_lo dst + i"] sectors_cover(2) [OF dst fits(2)] by simp
  show "xip sdk (firmware_apply sdk src dst sz f) i = xip sdk f i" if "i < reg_lo dst \<or> reg_hi dst \<le> i"
    using that spec [of i] sectors_cover(1) [OF dst fits(2)] by (auto simp: reg_hi_def reg_lo_def)
qed

end
