(* ===== verification/C_Text.thy ===== *)
theory C_Text
  imports Prelude "HOL-Library.Char_ord"
begin

text \<open>
  Text as the C code reads and prints it: the decimal conversions of \<open>snprintf\<close>, digits, and the
  reading of a character through a pointer. A C string is the list of its characters before the
  terminator, so a pointer into it is what is left of the list, and reading past the last
  character gives the terminator.
\<close>

subsection \<open>Conversions of the format strings\<close>

fun show_nat :: "nat \<Rightarrow> string" where
  "show_nat n = (if n < 10 then [char_of (48 + n)] else show_nat (n div 10) @ [char_of (48 + n mod 10)])"

declare show_nat.simps [simp del]

definition show_int :: "int \<Rightarrow> string" where
  "show_int i = (if i < 0 then CHR ''-'' # show_nat (nat (- i)) else show_nat (nat i))"

text \<open>A field width pads on the left, with spaces or with zeros.\<close>

definition pad_left :: "char \<Rightarrow> nat \<Rightarrow> string \<Rightarrow> string" where
  "pad_left c n s = replicate (n - length s) c @ s"

text \<open>\<open>snprintf(out, size, ...)\<close> with a size that is not 0: the text that ends up in the buffer.\<close>

definition truncated :: "nat \<Rightarrow> string \<Rightarrow> string" where
  "truncated sz s = take (sz - 1) s"

subsection \<open>Reading characters\<close>

definition char_at :: "string \<Rightarrow> char" where
  "char_at p = (case p of [] \<Rightarrow> CHR 0x00 | c # _ \<Rightarrow> c)"

definition decimal :: "char \<Rightarrow> bool" where
  "decimal c \<longleftrightarrow> CHR ''0'' \<le> c \<and> c \<le> CHR ''9''"

definition digit_of :: "char \<Rightarrow> nat" where
  "digit_of c = of_char c - 48"

lemma char_at_simps [simp]: "char_at [] = CHR 0x00" "char_at (c # p) = c"
  by (simp_all add: char_at_def)

lemma decimal_iff: "decimal c \<longleftrightarrow> 48 \<le> (of_char c :: nat) \<and> (of_char c :: nat) \<le> 57"
  by (simp add: decimal_def less_eq_char_def)

lemma decimal_char [simp]: "d < 10 \<Longrightarrow> decimal (char_of (48 + d))" "d < 10 \<Longrightarrow> digit_of (char_of (48 + d)) = d"
  by (simp_all add: decimal_iff digit_of_def)

lemma decimal_obtain:
  assumes "decimal c"
  obtains d where "d < 10" and "c = char_of (48 + d)" and "digit_of c = d"
proof (rule that [of "digit_of c"])
  show "digit_of c < 10" using assms by (auto simp: decimal_iff digit_of_def)
  have "48 + digit_of c = (of_char c :: nat)" using assms by (simp add: decimal_iff digit_of_def)
  then show "c = char_of (48 + digit_of c)" by simp
qed simp

lemma zero_char: "CHR ''0'' = char_of (48 :: nat)"
  by code_simp

lemma not_decimal [simp]: "\<not> decimal (CHR 0x00)" "\<not> decimal (CHR ''.'')"
  by (simp_all add: decimal_iff)

lemma show_nat_nonempty: "show_nat n \<noteq> []"
  by (subst show_nat.simps) simp

lemma show_nat_digit: "n < 10 \<Longrightarrow> show_nat n = [char_of (48 + n)]"
  by (subst show_nat.simps) simp

lemma show_nat_snoc: "0 < n \<Longrightarrow> d < 10 \<Longrightarrow> show_nat (n * 10 + d) = show_nat n @ [char_of (48 + d)]"
  by (subst show_nat.simps) simp

lemma set_show_nat: "c \<in> set (show_nat n) \<Longrightarrow> decimal c"
proof (induction n rule: show_nat.induct)
  case (1 n)
  then show ?case by (cases "n < 10") (auto simp: show_nat.simps [of n])
qed

lemma length_show_nat: "n < 10 ^ k \<Longrightarrow> 0 < k \<Longrightarrow> length (show_nat n) \<le> k"
proof (induction k arbitrary: n)
  case 0
  then show ?case by simp
next
  case (Suc k)
  show ?case
  proof (cases "n < 10")
    case False
    with Suc.prems have "n div 10 < 10 ^ k" and "0 < k" by (auto simp: div_less_iff_less_mult intro: gr0I)
    with False Suc.IH show ?thesis by (subst show_nat.simps) simp
  qed (simp add: show_nat_digit)
qed

end
