(* ===== verification/Cli.thy ===== *)
theory Cli
  imports C_Text
begin

text \<open>
  Model of \<open>components/cli/cli.c\<close>: the line-oriented command interpreter, with its character
  classification, output, argument parsing, dispatch, line editing and history.

  The struct \<open>cli\<close> is two records here. \<open>cli_t\<close> has everything the interpreter itself reads and
  writes; the line buffer is a list of exactly \<open>line_size\<close> characters, terminators included, and
  the history buffer likewise. \<open>'w cli_env\<close> has the pointers to the caller's code: the command
  table, the line filter and the stream's reader, which may act on the caller's state \<open>'w\<close>.
  What \<open>stream.write\<close> emits is the field \<open>cli_out\<close>. A token is a position in the line buffer, as
  the pointer is in C, and \<open>c_str\<close> reads the terminated string there.

  The lemmas of this theory show that successive calls of the tokeniser yield the words of the
  line and that a printed number is read back; line editing, history and dispatch are treated
  in \<open>Cli_Editor\<close>. \<open>cli_next_float\<close> is not modelled (it computes in IEEE single precision).
\<close>

abbreviation (input) CLI_PRINTF_BUFFER_SIZE :: nat where "CLI_PRINTF_BUFFER_SIZE \<equiv> 128"
abbreviation (input) CLI_POLL_BUDGET :: nat where "CLI_POLL_BUDGET \<equiv> 256"

definition CLI_SEPARATORS :: string where
  "CLI_SEPARATORS = [CHR '' '', CHR 0x09, CHR '','', CHR '';'']"

abbreviation (input) CLI_OK :: int where "CLI_OK \<equiv> 0"
abbreviation (input) CLI_ERR_ARG :: int where "CLI_ERR_ARG \<equiv> 1"
abbreviation (input) CLI_ERR_RANGE :: int where "CLI_ERR_RANGE \<equiv> 2"
abbreviation (input) CLI_ERR_STATE :: int where "CLI_ERR_STATE \<equiv> 3"
abbreviation (input) CLI_ERR_FAILED :: int where "CLI_ERR_FAILED \<equiv> 4"

datatype cli_init_result_t =
    CLI_INIT_OK
  | CLI_INIT_ERR_INVALID_ARG
  | CLI_INIT_ERR_DUPLICATE_COMMAND
  | CLI_INIT_ERR_HISTORY_REQUIRES_ECHO

datatype cli_escape_state_t = CLI_ESCAPE_NONE | CLI_ESCAPE_GOT_ESC | CLI_ESCAPE_GOT_BRACKET

record cli_t =
  cli_stream_write :: bool
  cli_line :: string
  cli_line_size :: nat
  cli_line_len :: nat
  cli_parse_pos :: nat
  cli_edit_cursor :: nat
  cli_overflow :: bool
  cli_last_was_cr :: bool
  cli_escape_state :: cli_escape_state_t
  cli_line_is_raw :: bool
  cli_raw_line_prefix :: char
  cli_prompt :: "string option"
  cli_echo :: bool
  cli_enable_help :: bool
  cli_history_buffer :: string
  cli_history_entry_size :: nat
  cli_history_depth :: nat
  cli_history_head :: nat
  cli_history_count :: nat
  cli_history_cursor :: nat
  cli_initialised :: bool
  cli_out :: string

record 'w cli_command_t =
  cmd_name :: "string option"
  cmd_help :: "string option"
  cmd_handler :: "(cli_t \<Rightarrow> 'w \<Rightarrow> int \<times> cli_t \<times> 'w) option"

record 'w cli_env =
  env_commands :: "'w cli_command_t list"
  env_line_filter :: "(cli_t \<Rightarrow> string \<Rightarrow> 'w \<Rightarrow> bool \<times> cli_t \<times> 'w) option"
  env_stream_read :: "('w \<Rightarrow> int \<times> 'w) option"

text \<open>A terminated string inside a buffer.\<close>

definition c_str :: "nat \<Rightarrow> string \<Rightarrow> string" where
  "c_str at buf = takeWhile (\<lambda>c. c \<noteq> CHR 0x00) (drop at buf)"

subsection \<open>Character classification\<close>

definition is_separator :: "char \<Rightarrow> bool" where
  "is_separator c \<longleftrightarrow> c \<noteq> CHR 0x00 \<and> c \<in> set CLI_SEPARATORS"

definition is_digit :: "char \<Rightarrow> bool" where
  "is_digit c \<longleftrightarrow> CHR ''0'' \<le> c \<and> c \<le> CHR ''9''"

definition to_upper :: "char \<Rightarrow> char" where
  "to_upper c =
     (if CHR ''a'' \<le> c \<and> c \<le> CHR ''z''
      then char_of (of_char c - of_char CHR ''a'' + of_char CHR ''A'' :: nat) else c)"

fun equals_ignore_case :: "string \<Rightarrow> string \<Rightarrow> bool" where
  "equals_ignore_case (x # xs) (y # ys) = (if to_upper x \<noteq> to_upper y then False else equals_ignore_case xs ys)"
| "equals_ignore_case [] [] = True"
| "equals_ignore_case _ _ = False"

definition hex_value :: "char \<Rightarrow> u32 option" where
  "hex_value c =
     (if is_digit c then Some (of_char c - of_char CHR ''0'')
      else if CHR ''A'' \<le> to_upper c \<and> to_upper c \<le> CHR ''F''
      then Some (of_char (to_upper c) - of_char CHR ''A'' + 10)
      else None)"

subsection \<open>Output\<close>

definition cli_write_bytes :: "cli_t \<Rightarrow> string \<Rightarrow> cli_t" where
  "cli_write_bytes cli bytes =
     (if \<not> cli_initialised cli \<or> \<not> cli_stream_write cli \<or> bytes = [] then cli
      else cli\<lparr>cli_out := cli_out cli @ bytes\<rparr>)"

definition cli_write :: "cli_t \<Rightarrow> string option \<Rightarrow> cli_t" where
  "cli_write cli str = (case str of None \<Rightarrow> cli | Some bytes \<Rightarrow> cli_write_bytes cli bytes)"

text \<open>\<open>cli_printf\<close>, given the formatted text: at most one byte less than the buffer is written.\<close>

definition cli_printf :: "cli_t \<Rightarrow> string \<Rightarrow> cli_t" where
  "cli_printf cli formatted =
     (if formatted = [] then cli
      else
        (let len = (if length formatted < CLI_PRINTF_BUFFER_SIZE then length formatted
                    else CLI_PRINTF_BUFFER_SIZE - 1)
         in cli_write_bytes cli (take len formatted)))"

definition cli_write_prompt :: "cli_t \<Rightarrow> cli_t" where
  "cli_write_prompt cli =
     (case cli_prompt cli of None \<Rightarrow> cli | Some p \<Rightarrow> cli_write cli (Some p))"

abbreviation (input) CRLF :: string where "CRLF \<equiv> [CHR 0x0D, CHR 0x0A]"
abbreviation (input) BS :: char where "BS \<equiv> CHR 0x08"

text \<open>The conversions \<open>%08lX\<close> and \<open>%-16s\<close> of the format strings used.\<close>

definition show_hex8 :: "u32 \<Rightarrow> string" where
  "show_hex8 w = map (\<lambda>k. let d = unat (drop_bit (4 * k) w) mod 16
     in char_of (if d < 10 then 48 + d else 55 + d)) [7, 6, 5, 4, 3, 2, 1, 0]"

definition pad16 :: "string \<Rightarrow> string" where
  "pad16 s = s @ replicate (16 - length s) CHR '' ''"

subsection \<open>Argument parsing\<close>

function skip_from :: "string \<Rightarrow> nat \<Rightarrow> nat \<Rightarrow> nat" where
  "skip_from str len pos =
     (if pos < len \<and> is_separator (str ! pos) then skip_from str len (pos + 1) else pos)"
  by pat_completeness auto
termination by (relation "measure (\<lambda>(_, len, pos). len - pos)") auto

function token_from :: "string \<Rightarrow> nat \<Rightarrow> nat \<Rightarrow> nat" where
  "token_from str len pos =
     (if pos < len \<and> \<not> is_separator (str ! pos) then token_from str len (pos + 1) else pos)"
  by pat_completeness auto
termination by (relation "measure (\<lambda>(_, len, pos). len - pos)") auto

declare skip_from.simps [simp del] token_from.simps [simp del]

definition skip_separators :: "cli_t \<Rightarrow> cli_t" where
  "skip_separators cli =
     cli\<lparr>cli_parse_pos := skip_from (cli_line cli) (cli_line_len cli) (cli_parse_pos cli)\<rparr>"

definition cli_next_token :: "cli_t \<Rightarrow> nat option \<times> cli_t" where
  "cli_next_token cli =
     (if \<not> cli_initialised cli then (None, cli)
      else
        (let cli = skip_separators cli in
         if cli_line_len cli \<le> cli_parse_pos cli then (None, cli)
         else
           (let start = cli_parse_pos cli;
                cli = cli\<lparr>cli_parse_pos := token_from (cli_line cli) (cli_line_len cli) start\<rparr>
            in (Some start,
                if cli_parse_pos cli < cli_line_len cli
                then cli\<lparr>cli_line := (cli_line cli)[cli_parse_pos cli := CHR 0x00],
                         cli_parse_pos := cli_parse_pos cli + 1\<rparr>
                else cli))))"

definition cli_rest :: "cli_t \<Rightarrow> nat option \<times> cli_t" where
  "cli_rest cli =
     (if \<not> cli_initialised cli then (None, cli)
      else
        (let cli = skip_separators cli in
         if cli_line_len cli \<le> cli_parse_pos cli then (None, cli)
         else (Some (cli_parse_pos cli), cli\<lparr>cli_parse_pos := cli_line_len cli\<rparr>)))"

definition cli_args_exhausted :: "cli_t \<Rightarrow> bool \<times> cli_t" where
  "cli_args_exhausted cli =
     (if \<not> cli_initialised cli then (True, cli)
      else (let cli = skip_separators cli in (cli_line_len cli \<le> cli_parse_pos cli, cli)))"

text \<open>The loop of \<open>parse_u32\<close>, with the value so far. The arithmetic is that of \<open>uint32_t\<close>.\<close>

fun parse_digits :: "u32 \<Rightarrow> u32 \<Rightarrow> string \<Rightarrow> u32 option" where
  "parse_digits base value [] = Some value"
| "parse_digits base value (c # cs) =
     (case hex_value c of
        None \<Rightarrow> None
      | Some digit \<Rightarrow> if base \<le> digit then None else parse_digits base (value * base + digit) cs)"

definition parse_u32 :: "string \<Rightarrow> u32 \<Rightarrow> u32 option" where
  "parse_u32 token base = (if token = [] then None else parse_digits base 0 token)"

fun strip_hex_prefix :: "string \<Rightarrow> string \<times> bool" where
  "strip_hex_prefix (a # b # cs) =
     (if a = CHR ''0'' \<and> to_upper b = CHR ''X'' then (cs, True) else (a # b # cs, False))"
| "strip_hex_prefix token = (token, False)"

text \<open>The value is \<open>None\<close> when the C function returns false and leaves \<open>out\<close> alone.\<close>

definition cli_next_u32 :: "cli_t \<Rightarrow> u32 option \<times> cli_t" where
  "cli_next_u32 cli =
     (case cli_next_token cli of
        (None, cli) \<Rightarrow> (None, cli)
      | (Some at, cli) \<Rightarrow>
          (case strip_hex_prefix (c_str at (cli_line cli)) of
             (digits, hex) \<Rightarrow> (parse_u32 digits (if hex then 16 else 10), cli)))"

definition cli_next_hex32 :: "cli_t \<Rightarrow> u32 option \<times> cli_t" where
  "cli_next_hex32 cli =
     (case cli_next_token cli of
        (None, cli) \<Rightarrow> (None, cli)
      | (Some at, cli) \<Rightarrow>
          (case strip_hex_prefix (c_str at (cli_line cli)) of
             (digits, hex) \<Rightarrow> (parse_u32 digits 16, cli)))"

definition cli_next_i32 :: "cli_t \<Rightarrow> int option \<times> cli_t" where
  "cli_next_i32 cli =
     (case cli_next_token cli of
        (None, cli) \<Rightarrow> (None, cli)
      | (Some at, cli) \<Rightarrow>
          (let token = c_str at (cli_line cli);
               negative = (token \<noteq> [] \<and> hd token = CHR ''-'');
               token = (if negative \<or> token \<noteq> [] \<and> hd token = CHR ''+'' then tl token else token)
           in case strip_hex_prefix token of
                (digits, hex) \<Rightarrow>
                  (case parse_u32 digits (if hex then 16 else 10) of
                     None \<Rightarrow> (None, cli)
                   | Some magnitude \<Rightarrow>
                       if negative
                       then (if 2147483648 < magnitude then (None, cli)
                             else (Some (- int (unat magnitude)), cli))
                       else (if 2147483647 < magnitude then (None, cli)
                             else (Some (int (unat magnitude)), cli)))))"

subsection \<open>Dispatch\<close>

definition print_help_line :: "'w cli_command_t \<Rightarrow> cli_t \<Rightarrow> cli_t" where
  "print_help_line command cli =
     (case cmd_help command of
        Some help \<Rightarrow> cli_printf cli (''  '' @ pad16 (the (cmd_name command)) @ '' '' @ help @ CRLF)
      | None \<Rightarrow> cli_printf cli (''  '' @ the (cmd_name command) @ CRLF))"

definition print_help :: "'w cli_env \<Rightarrow> cli_t \<Rightarrow> cli_t" where
  "print_help env cli =
     (let cli = fold print_help_line (env_commands env) cli
      in if cli_enable_help cli
         then cli_write cli (Some (''  help             list commands'' @ CRLF)) else cli)"

definition find_command :: "'w cli_env \<Rightarrow> string \<Rightarrow> 'w cli_command_t option" where
  "find_command env name =
     List.find (\<lambda>command. equals_ignore_case name (the (cmd_name command))) (env_commands env)"

text \<open>The part of \<open>execute_line\<close> after the filter.\<close>

definition run_command :: "'w cli_env \<Rightarrow> cli_t \<Rightarrow> 'w \<Rightarrow> cli_t \<times> 'w" where
  "run_command env cli w =
     (case cli_next_token cli of
        (None, cli) \<Rightarrow> (cli, w)
      | (Some at, cli) \<Rightarrow>
          (let name = c_str at (cli_line cli) in
           if cli_enable_help cli \<and>
              (equals_ignore_case name ''help'' \<or> equals_ignore_case name ''?'')
           then (print_help env cli, w)
           else
             (case find_command env name of
                None \<Rightarrow> (cli_printf cli (''unknown command: '' @ name @ CRLF), w)
              | Some command \<Rightarrow>
                  (case cmd_handler command of
                     None \<Rightarrow> (cli_printf cli (''error '' @ show_int CLI_ERR_STATE @ CRLF), w)
                   | Some handler \<Rightarrow>
                       (case handler cli w of
                          (status, cli, w) \<Rightarrow>
                            (if status \<noteq> 0
                             then cli_printf cli (''error '' @ show_int status @ CRLF) else cli, w))))))"

definition execute_line :: "'w cli_env \<Rightarrow> cli_t \<Rightarrow> 'w \<Rightarrow> bool \<times> cli_t \<times> 'w" where
  "execute_line env cli w =
     (let cli = cli\<lparr>cli_line := (cli_line cli)[cli_line_len cli := CHR 0x00], cli_parse_pos := 0\<rparr> in
      case cli_args_exhausted cli of (blank, cli) \<Rightarrow>
        if blank then (False, cli, w)
        else
          (let cli = cli\<lparr>cli_parse_pos := 0\<rparr> in
           case (case env_line_filter env of
                   None \<Rightarrow> (False, cli, w)
                 | Some filt \<Rightarrow> filt cli (c_str 0 (cli_line cli)) w) of
             (claimed, cli, w) \<Rightarrow>
               if claimed then (True, cli, w) else (False, run_command env cli w)))"

subsection \<open>Line assembly\<close>

definition should_echo :: "cli_t \<Rightarrow> bool" where
  "should_echo cli \<longleftrightarrow> cli_echo cli \<and> \<not> cli_line_is_raw cli"

definition cli_reset_line :: "cli_t \<Rightarrow> cli_t" where
  "cli_reset_line cli =
     (let cli = cli\<lparr>cli_line_len := 0, cli_parse_pos := 0, cli_edit_cursor := 0,
                   cli_overflow := False, cli_line_is_raw := False,
                   cli_escape_state := CLI_ESCAPE_NONE, cli_history_cursor := 0\<rparr>
      in if 0 < cli_line_size cli then cli\<lparr>cli_line := (cli_line cli)[0 := CHR 0x00]\<rparr> else cli)"

text \<open>\<open>repeat n\<close> is the \<open>for\<close> loop that writes the same text \<open>n\<close> times.\<close>

definition write_repeat :: "nat \<Rightarrow> string \<Rightarrow> cli_t \<Rightarrow> cli_t" where
  "write_repeat n str cli = ((\<lambda>cli. cli_write cli (Some str)) ^^ n) cli"

definition handle_backspace :: "cli_t \<Rightarrow> cli_t" where
  "handle_backspace cli =
     (if cli_edit_cursor cli = 0 then cli
      else
        (let tail_len = cli_line_len cli - cli_edit_cursor cli;
             cli = cli\<lparr>cli_line := blit (cli_edit_cursor cli - 1)
                           (chunk (cli_edit_cursor cli) tail_len (cli_line cli)) (cli_line cli)\<rparr>;
             cli = cli\<lparr>cli_line_len := cli_line_len cli - 1,
                       cli_edit_cursor := cli_edit_cursor cli - 1\<rparr>;
             cli = cli\<lparr>cli_line := (cli_line cli)[cli_line_len cli := CHR 0x00]\<rparr>
         in if should_echo cli
            then
              (let cli = cli_write cli (Some [BS]);
                   cli = (if 0 < tail_len
                          then cli_write_bytes cli (chunk (cli_edit_cursor cli) tail_len (cli_line cli))
                          else cli);
                   cli = cli_write cli (Some '' '')
               in write_repeat (tail_len + 1) [BS] cli)
            else cli))"

definition cursor_left :: "cli_t \<Rightarrow> cli_t" where
  "cursor_left cli =
     (if cli_edit_cursor cli = 0 then cli
      else
        (let cli = cli\<lparr>cli_edit_cursor := cli_edit_cursor cli - 1\<rparr>
         in if should_echo cli then cli_write cli (Some [BS]) else cli))"

definition cursor_right :: "cli_t \<Rightarrow> cli_t" where
  "cursor_right cli =
     (if cli_line_len cli \<le> cli_edit_cursor cli then cli
      else
        (let cli = (if should_echo cli
                    then cli_write_bytes cli (chunk (cli_edit_cursor cli) 1 (cli_line cli)) else cli)
         in cli\<lparr>cli_edit_cursor := cli_edit_cursor cli + 1\<rparr>))"

definition insert_char_at_cursor :: "cli_t \<Rightarrow> char \<Rightarrow> cli_t" where
  "insert_char_at_cursor cli c =
     (if cli_line_size cli \<le> cli_line_len cli + 1 then cli\<lparr>cli_overflow := True\<rparr>
      else
        (let tail_len = cli_line_len cli - cli_edit_cursor cli;
             cli = (if 0 < tail_len
                    then cli\<lparr>cli_line := blit (cli_edit_cursor cli + 1)
                               (chunk (cli_edit_cursor cli) tail_len (cli_line cli)) (cli_line cli)\<rparr>
                    else cli);
             cli = cli\<lparr>cli_line := (cli_line cli)[cli_edit_cursor cli := c],
                       cli_line_len := cli_line_len cli + 1\<rparr>;
             cli = (if should_echo cli
                    then write_repeat tail_len [BS]
                           (cli_write_bytes cli (chunk (cli_edit_cursor cli) (tail_len + 1) (cli_line cli)))
                    else cli)
         in cli\<lparr>cli_edit_cursor := cli_edit_cursor cli + 1\<rparr>))"

subsection \<open>History\<close>

definition history_slot :: "cli_t \<Rightarrow> nat \<Rightarrow> nat" where
  "history_slot cli index = index * cli_history_entry_size cli"

definition history_push :: "cli_t \<Rightarrow> string \<Rightarrow> nat \<Rightarrow> cli_t" where
  "history_push cli src len =
     (if cli_history_depth cli = 0 then cli
      else
        (let len = (if cli_history_entry_size cli \<le> len then cli_history_entry_size cli - 1 else len);
             slot = history_slot cli (cli_history_head cli);
             cli = cli\<lparr>cli_history_buffer := blit slot (take len src) (cli_history_buffer cli)\<rparr>;
             cli = cli\<lparr>cli_history_buffer := (cli_history_buffer cli)[slot + len := CHR 0x00]\<rparr>;
             cli = cli\<lparr>cli_history_head := (cli_history_head cli + 1) mod cli_history_depth cli\<rparr>
         in if cli_history_count cli < cli_history_depth cli
            then cli\<lparr>cli_history_count := cli_history_count cli + 1\<rparr> else cli))"

definition replace_line :: "cli_t \<Rightarrow> string \<Rightarrow> nat \<Rightarrow> cli_t" where
  "replace_line cli src len =
     (let len = (if cli_line_size cli \<le> len then cli_line_size cli - 1 else len);
          cli = (if should_echo cli
                 then
                   (let cli = (if cli_edit_cursor cli < cli_line_len cli
                               then cli_write_bytes cli (chunk (cli_edit_cursor cli)
                                      (cli_line_len cli - cli_edit_cursor cli) (cli_line cli))
                               else cli);
                        cli = write_repeat (cli_line_len cli) [BS, CHR '' '', BS] cli
                    in cli_write_bytes cli (take len src))
                 else cli);
          cli = cli\<lparr>cli_line := blit 0 (take len src) (cli_line cli)\<rparr>
      in cli\<lparr>cli_line := (cli_line cli)[len := CHR 0x00], cli_line_len := len,
             cli_edit_cursor := len\<rparr>)"

definition history_recall :: "cli_t \<Rightarrow> int \<Rightarrow> cli_t" where
  "history_recall cli direction =
     (if cli_history_depth cli = 0 \<or> cli_history_count cli = 0 then cli
      else if 0 < direction \<and> cli_history_count cli \<le> cli_history_cursor cli then cli
      else if \<not> 0 < direction \<and> cli_history_cursor cli = 0 then cli
      else
        (let new_cursor = (if 0 < direction then cli_history_cursor cli + 1
                           else cli_history_cursor cli - 1);
             cli = (if new_cursor = 0 then replace_line cli [] 0
                    else
                      (let slot_index = (cli_history_head cli + cli_history_depth cli - new_cursor)
                             mod cli_history_depth cli;
                           entry = c_str (history_slot cli slot_index) (cli_history_buffer cli)
                       in replace_line cli entry (length entry)))
         in cli\<lparr>cli_history_cursor := new_cursor\<rparr>))"

subsection \<open>Feeding characters\<close>

definition handle_end_of_line :: "'w cli_env \<Rightarrow> cli_t \<Rightarrow> 'w \<Rightarrow> cli_t \<times> 'w" where
  "handle_end_of_line env cli w =
     (let cli = (if should_echo cli then cli_write cli (Some CRLF) else cli) in
      case (if cli_overflow cli
            then (False, cli_write cli (Some (''line too long'' @ CRLF)), w)
            else if 0 < cli_line_len cli
            then execute_line env
                   (if \<not> cli_line_is_raw cli
                    then history_push cli (cli_line cli) (cli_line_len cli) else cli) w
            else (False, cli, w)) of
        (filtered, cli, w) \<Rightarrow>
          (let cli = cli_reset_line cli in (if \<not> filtered then cli_write_prompt cli else cli, w)))"

definition handle_escape_letter :: "cli_t \<Rightarrow> char \<Rightarrow> cli_t" where
  "handle_escape_letter cli c =
     (if c = CHR ''D'' then cursor_left cli
      else if c = CHR ''C'' then cursor_right cli
      else if c = CHR ''A'' then history_recall cli 1
      else if c = CHR ''B'' then history_recall cli (- 1)
      else cli)"

definition cli_feed_char :: "'w cli_env \<Rightarrow> cli_t \<Rightarrow> char \<Rightarrow> 'w \<Rightarrow> cli_t \<times> 'w" where
  "cli_feed_char env cli c w =
     (if \<not> cli_initialised cli then (cli, w)
      else if c = CHR 0x0A \<and> cli_last_was_cr cli then (cli\<lparr>cli_last_was_cr := False\<rparr>, w)
      else if c = CHR 0x0D \<or> c = CHR 0x0A
      then handle_end_of_line env
             (cli\<lparr>cli_last_was_cr := (c = CHR 0x0D), cli_escape_state := CLI_ESCAPE_NONE\<rparr>) w
      else
        (let cli = cli\<lparr>cli_last_was_cr := False\<rparr> in
         if cli_escape_state cli = CLI_ESCAPE_GOT_BRACKET
         then (handle_escape_letter (cli\<lparr>cli_escape_state := CLI_ESCAPE_NONE\<rparr>) c, w)
         else if cli_escape_state cli = CLI_ESCAPE_GOT_ESC
         then (cli\<lparr>cli_escape_state :=
                 if c = CHR ''['' then CLI_ESCAPE_GOT_BRACKET else CLI_ESCAPE_NONE\<rparr>, w)
         else if c = CHR 0x1B then (cli\<lparr>cli_escape_state := CLI_ESCAPE_GOT_ESC\<rparr>, w)
         else if c = CHR 0x08 \<or> c = CHR 0x7F then (handle_backspace cli, w)
         else if c < CHR '' '' then (cli, w)
         else
           (let cli = (if cli_line_len cli = 0 \<and> cli_raw_line_prefix cli \<noteq> CHR 0x00
                         \<and> c = cli_raw_line_prefix cli
                       then cli\<lparr>cli_line_is_raw := True\<rparr> else cli)
            in (insert_char_at_cursor cli c, w))))"

text \<open>The loop of \<open>cli_poll\<close>, with the characters left in its budget.\<close>

fun poll_loop :: "('w \<Rightarrow> int \<times> 'w) \<Rightarrow> 'w cli_env \<Rightarrow> nat \<Rightarrow> cli_t \<Rightarrow> 'w \<Rightarrow> cli_t \<times> 'w" where
  "poll_loop rd env 0 cli w = (cli, w)"
| "poll_loop rd env (Suc n) cli w =
     (case rd w of
        (c, w) \<Rightarrow>
          if c < 0 then (cli, w)
          else (case cli_feed_char env cli (char_of (nat c)) w of
                  (cli, w) \<Rightarrow> poll_loop rd env n cli w))"

definition cli_poll :: "'w cli_env \<Rightarrow> cli_t \<Rightarrow> 'w \<Rightarrow> cli_t \<times> 'w" where
  "cli_poll env cli w =
     (if \<not> cli_initialised cli then (cli, w)
      else
        (case env_stream_read env of
           None \<Rightarrow> (cli, w)
         | Some rd \<Rightarrow> poll_loop rd env CLI_POLL_BUDGET cli w))"

subsection \<open>Setup\<close>

text \<open>The buffers are the caller's arrays; a \<open>NULL\<close> one is \<open>None\<close>.\<close>

record 'w cli_config_t =
  conf_commands :: "'w cli_command_t list option"
  conf_command_count :: nat
  conf_stream_read :: "('w \<Rightarrow> int \<times> 'w) option"
  conf_stream_write :: bool
  conf_line_buffer :: "string option"
  conf_prompt :: "string option"
  conf_echo :: bool
  conf_enable_help :: bool
  conf_line_filter :: "(cli_t \<Rightarrow> string \<Rightarrow> 'w \<Rightarrow> bool \<times> cli_t \<times> 'w) option"
  conf_history_buffer :: "string option"
  conf_history_entry_size :: nat
  conf_raw_line_prefix :: char

text \<open>The two nested loops over the command table.\<close>

fun check_commands :: "'w cli_command_t list \<Rightarrow> 'w cli_command_t list \<Rightarrow> cli_init_result_t" where
  "check_commands seen [] = CLI_INIT_OK"
| "check_commands seen (c # cs) =
     (case cmd_name c of
        None \<Rightarrow> CLI_INIT_ERR_INVALID_ARG
      | Some name \<Rightarrow>
          if name = [] then CLI_INIT_ERR_INVALID_ARG
          else if list_ex (\<lambda>d. equals_ignore_case name (the (cmd_name d))) seen
          then CLI_INIT_ERR_DUPLICATE_COMMAND
          else check_commands (seen @ [c]) cs)"

text \<open>The compound literal assigned to the interpreter.\<close>

definition cli_fresh :: "'w cli_config_t \<Rightarrow> string \<Rightarrow> string \<Rightarrow> cli_t" where
  "cli_fresh c line_buffer out =
    \<lparr>cli_stream_write = conf_stream_write c, cli_line = line_buffer,
     cli_line_size = length line_buffer, cli_line_len = 0, cli_parse_pos = 0,
     cli_edit_cursor = 0, cli_overflow = False, cli_last_was_cr = False,
     cli_escape_state = CLI_ESCAPE_NONE, cli_line_is_raw = False,
     cli_raw_line_prefix = conf_raw_line_prefix c, cli_prompt = conf_prompt c,
     cli_echo = conf_echo c, cli_enable_help = conf_enable_help c,
     cli_history_buffer = (case conf_history_buffer c of None \<Rightarrow> [] | Some h \<Rightarrow> h),
     cli_history_entry_size = conf_history_entry_size c,
     cli_history_depth =
       (case conf_history_buffer c of
          None \<Rightarrow> 0 | Some h \<Rightarrow> length h div conf_history_entry_size c),
     cli_history_head = 0, cli_history_count = 0, cli_history_cursor = 0,
     cli_initialised = True, cli_out = out\<rparr>"

definition cli_init ::
  "'w cli_env \<Rightarrow> cli_t \<Rightarrow> 'w cli_config_t option \<Rightarrow> cli_init_result_t \<times> 'w cli_env \<times> cli_t" where
  "cli_init env cli config =
     (case config of
        None \<Rightarrow> (CLI_INIT_ERR_INVALID_ARG, env, cli)
      | Some c \<Rightarrow>
          (case conf_line_buffer c of
             None \<Rightarrow> (CLI_INIT_ERR_INVALID_ARG, env, cli)
           | Some line_buffer \<Rightarrow>
               if length line_buffer < 2 \<or> (0 < conf_command_count c \<and> conf_commands c = None)
               then (CLI_INIT_ERR_INVALID_ARG, env, cli)
               else if (case conf_history_buffer c of None \<Rightarrow> False
                        | Some h \<Rightarrow> conf_history_entry_size c < 2 \<or> length h < conf_history_entry_size c)
               then (CLI_INIT_ERR_INVALID_ARG, env, cli)
               else if conf_history_buffer c \<noteq> None \<and> \<not> conf_echo c
               then (CLI_INIT_ERR_HISTORY_REQUIRES_ECHO, env, cli)
               else
                 (let commands = take (conf_command_count c)
                        (case conf_commands c of None \<Rightarrow> [] | Some cs \<Rightarrow> cs);
                      checked = check_commands [] commands in
                  if checked \<noteq> CLI_INIT_OK then (checked, env, cli)
                  else
                    (CLI_INIT_OK,
                     \<lparr>env_commands = commands, env_line_filter = conf_line_filter c,
                      env_stream_read = conf_stream_read c\<rparr>,
                     cli_reset_line (cli_fresh c line_buffer (cli_out cli))))))"

subsection \<open>The words of a line\<close>

text \<open>Reference: the maximal runs of characters that are not separators.\<close>

function words :: "string \<Rightarrow> string list" where
  "words str =
     (case dropWhile is_separator str of
        [] \<Rightarrow> []
      | c # cs \<Rightarrow> takeWhile (\<lambda>c. \<not> is_separator c) (c # cs)
          # words (dropWhile (\<lambda>c. \<not> is_separator c) (c # cs)))"
  by pat_completeness auto
termination
proof (relation "measure length")
  fix str c cs assume "dropWhile is_separator str = c # cs"
  then have "\<not> is_separator c" and "length (c # cs) \<le> length str"
    by (metis hd_dropWhile list.sel(1) list.distinct(1), metis length_dropWhile_le)
  moreover have "length (dropWhile (\<lambda>c. \<not> is_separator c) cs) \<le> length cs"
    by (rule length_dropWhile_le)
  ultimately show "(dropWhile (\<lambda>c. \<not> is_separator c) (c # cs), str) \<in> measure length"
    by simp
qed simp

declare words.simps [simp del]

text \<open>What is left of the line at the cursor.\<close>

definition cli_remaining :: "cli_t \<Rightarrow> string" where
  "cli_remaining cli = chunk (cli_parse_pos cli) (cli_line_len cli - cli_parse_pos cli) (cli_line cli)"

lemma skip_from_eq:
  "pos \<le> len \<Longrightarrow> len \<le> length str \<Longrightarrow>
    skip_from str len pos = pos + length (takeWhile is_separator (chunk pos (len - pos) str))"
proof (induction "len - pos" arbitrary: pos)
  case 0
  then show ?case by (simp add: skip_from.simps)
next
  case (Suc n)
  then have "chunk pos (len - pos) str = str ! pos # chunk (pos + 1) (len - (pos + 1)) str"
    by (simp add: chunk_def Cons_nth_drop_Suc [symmetric] take_Cons' Suc_diff_Suc)
  moreover have "pos < len" using Suc.hyps(2) by simp
  ultimately show ?case
    using Suc.hyps(1) [of "pos + 1"] Suc.hyps(2) Suc.prems by (subst skip_from.simps) simp
qed

lemma token_from_eq:
  "pos \<le> len \<Longrightarrow> len \<le> length str \<Longrightarrow>
    token_from str len pos = pos + length (takeWhile (\<lambda>c. \<not> is_separator c) (chunk pos (len - pos) str))"
proof (induction "len - pos" arbitrary: pos)
  case 0
  then show ?case by (simp add: token_from.simps)
next
  case (Suc n)
  then have "chunk pos (len - pos) str = str ! pos # chunk (pos + 1) (len - (pos + 1)) str"
    by (simp add: chunk_def Cons_nth_drop_Suc [symmetric] take_Cons' Suc_diff_Suc)
  moreover have "pos < len" using Suc.hyps(2) by simp
  ultimately show ?case
    using Suc.hyps(1) [of "pos + 1"] Suc.hyps(2) Suc.prems by (subst token_from.simps) simp
qed

text \<open>The line is terminated, and nothing that is still to be read contains a terminator.\<close>

definition tokens_ok :: "cli_t \<Rightarrow> bool" where
  "tokens_ok cli \<longleftrightarrow> cli_initialised cli \<and> cli_parse_pos cli \<le> cli_line_len cli
     \<and> cli_line_len cli < length (cli_line cli) \<and> cli_line cli ! cli_line_len cli = CHR 0x00
     \<and> CHR 0x00 \<notin> set (cli_remaining cli)"

lemma c_str_chunk:
  assumes "at + n < length buf" and "CHR 0x00 \<notin> set (chunk at n buf)" and "buf ! (at + n) = CHR 0x00"
  shows "c_str at buf = chunk at n buf"
proof -
  have "drop at buf = chunk at n buf @ CHR 0x00 # drop (at + n + 1) buf"
    using assms(1,3) Cons_nth_drop_Suc [of "at + n" buf]
    by (simp add: chunk_def) (metis append_take_drop_id drop_drop add.commute)
  with assms(2) show ?thesis
    by (auto simp: c_str_def takeWhile_append2 takeWhile_tail)
qed

lemma skip_separators_remaining:
  assumes "tokens_ok cli"
  shows "cli_remaining (skip_separators cli) = dropWhile is_separator (cli_remaining cli)"
    and "tokens_ok (skip_separators cli)"
proof -
  let ?r = "cli_remaining cli" and ?k = "length (takeWhile is_separator (cli_remaining cli))"
  have at: "cli_parse_pos (skip_separators cli) = cli_parse_pos cli + ?k"
    using assms by (simp add: skip_separators_def skip_from_eq tokens_ok_def cli_remaining_def)
  have len: "length ?r = cli_line_len cli - cli_parse_pos cli"
    using assms by (simp add: cli_remaining_def tokens_ok_def)
  have k: "?k \<le> length ?r" by (rule length_takeWhile_le)
  have "cli_remaining (skip_separators cli) = drop ?k ?r"
    using k unfolding cli_remaining_def at
    by (simp add: skip_separators_def cli_remaining_def chunk_def drop_take add.commute)
  then show rem: "cli_remaining (skip_separators cli) = dropWhile is_separator ?r"
    by (simp add: dropWhile_eq_drop)
  have "set (dropWhile is_separator ?r) \<subseteq> set ?r" by (auto dest: set_dropWhileD)
  then show "tokens_ok (skip_separators cli)"
    using assms at k len unfolding tokens_ok_def rem by (auto simp: skip_separators_def)
qed

lemma cli_next_token_none:
  assumes "tokens_ok cli" and "words (cli_remaining cli) = []"
  shows "cli_next_token cli = (None, skip_separators cli) \<and> tokens_ok (skip_separators cli)
    \<and> words (cli_remaining (skip_separators cli)) = []"
proof -
  note skip = skip_separators_remaining [OF assms(1)]
  from assms(2) have nil: "dropWhile is_separator (cli_remaining cli) = []"
    by (subst (asm) words.simps) (auto split: list.splits)
  then have "length (cli_remaining (skip_separators cli)) = 0" by (simp add: skip(1))
  moreover have "length (cli_remaining (skip_separators cli))
      = cli_line_len (skip_separators cli) - cli_parse_pos (skip_separators cli)"
    using skip(2) by (simp add: tokens_ok_def cli_remaining_def)
  ultimately show ?thesis
    using assms(1) skip nil
    by (auto simp: cli_next_token_def Let_def tokens_ok_def words.simps)
qed

lemma cli_next_token_some:
  assumes ok: "tokens_ok cli" and words: "words (cli_remaining cli) = tok # ws"
  shows "\<exists>at cli'. cli_next_token cli = (Some at, cli') \<and> c_str at (cli_line cli') = tok
    \<and> tokens_ok cli' \<and> words (cli_remaining cli') = ws
    \<and> cli_line_len cli' = cli_line_len cli \<and> length (cli_line cli') = length (cli_line cli)"
proof -
  let ?s = "skip_separators cli"
  note skip = skip_separators_remaining [OF ok]
  let ?r = "cli_remaining ?s"
  let ?k = "length (takeWhile (\<lambda>c. \<not> is_separator c) ?r)"
  have init: "cli_initialised cli" using ok by (simp add: tokens_ok_def)
  have rem: "?r = dropWhile is_separator (cli_remaining cli)" by (rule skip(1))
  obtain c cs where r: "?r = c # cs" and tok: "tok = takeWhile (\<lambda>c. \<not> is_separator c) ?r"
      and ws: "ws = words (dropWhile (\<lambda>c. \<not> is_separator c) ?r)"
    using words rem by (subst (asm) (2) words.simps) (auto split: list.splits)
  let ?at = "cli_parse_pos ?s" and ?len = "cli_line_len ?s" and ?line = "cli_line ?s"
  have bounds: "?at \<le> ?len" "?len < length ?line" "?line ! ?len = CHR 0x00" "CHR 0x00 \<notin> set ?r"
    using skip(2) by (auto simp: tokens_ok_def)
  have len: "length ?r = ?len - ?at" using bounds by (simp add: cli_remaining_def)
  have more: "?at < ?len" using r len by auto
  have ends: "token_from ?line ?len ?at = ?at + ?k"
    using bounds by (simp add: token_from_eq cli_remaining_def)
  have k: "?k \<le> ?len - ?at" using length_takeWhile_le [of _ ?r] len by metis
  have "tok = take ?k ?r" unfolding tok by (rule takeWhile_eq_take)
  moreover have "take ?k ?r = chunk ?at ?k ?line"
    using k by (simp only: cli_remaining_def chunk_def take_take min_absorb1)
  ultimately have tokchunk: "tok = chunk ?at ?k ?line" by simp
  have nul: "CHR 0x00 \<notin> set tok" using bounds(4) unfolding tok by (meson set_takeWhileD)
  show ?thesis
  proof (cases "?at + ?k < ?len")
    case True
    let ?c = "?s\<lparr>cli_parse_pos := ?at + ?k + 1, cli_line := ?line[?at + ?k := CHR 0x00]\<rparr>"
    have run: "cli_next_token cli = (Some ?at, ?c)"
      using True more init by (simp add: cli_next_token_def Let_def ends not_le)
    have "chunk ?at ?k (?line[?at + ?k := CHR 0x00]) = tok"
      by (simp add: tokchunk chunk_update_after)
    then have cstr: "c_str ?at (cli_line ?c) = tok"
      using nul True bounds(2) c_str_chunk [of ?at ?k "?line[?at + ?k := CHR 0x00]"] by simp
    have "cli_remaining ?c = drop (?k + 1) ?r"
      using True by (simp add: cli_remaining_def chunk_def drop_take add.commute)
    also have "\<dots> = tl (dropWhile (\<lambda>c. \<not> is_separator c) ?r)"
      by (simp add: dropWhile_eq_drop drop_Suc tl_drop)
    finally have rem': "cli_remaining ?c = tl (dropWhile (\<lambda>c. \<not> is_separator c) ?r)" .
    have "?k < length ?r" using True len by simp
    then have "dropWhile (\<lambda>c. \<not> is_separator c) ?r \<noteq> []" by (simp add: dropWhile_eq_drop)
    then obtain d ds where dd: "dropWhile (\<lambda>c. \<not> is_separator c) ?r = d # ds"
      by (cases "dropWhile (\<lambda>c. \<not> is_separator c) ?r") auto
    then have "is_separator d" using hd_dropWhile [of "\<lambda>c. \<not> is_separator c" ?r] by simp
    then have "words (cli_remaining ?c) = ws"
      unfolding ws rem' dd by (subst (1 2) words.simps) simp
    moreover have "set (cli_remaining ?c) \<subseteq> set ?r"
      unfolding rem' dd using dd by (metis list.sel(3) set_dropWhileD set_subset_Cons subset_code(1))
    then have "tokens_ok ?c"
      using skip(2) True unfolding tokens_ok_def by auto
    ultimately show ?thesis
      using run cstr by (auto simp: skip_separators_def)
  next
    case False
    then have k': "?k = ?len - ?at" using k more by simp
    let ?c = "?s\<lparr>cli_parse_pos := ?at + ?k\<rparr>"
    have run: "cli_next_token cli = (Some ?at, ?c)"
      using False more init by (simp add: cli_next_token_def Let_def ends not_le)
    have cstr: "c_str ?at (cli_line ?c) = tok"
      using nul bounds k' more c_str_chunk [of ?at ?k ?line] by (simp add: tokchunk)
    have nil: "cli_remaining ?c = []" using k' more by (simp add: cli_remaining_def)
    have "dropWhile (\<lambda>c. \<not> is_separator c) ?r = []" using k' len by (simp add: dropWhile_eq_drop)
    then have "words (cli_remaining ?c) = ws" by (simp only: nil ws)
    moreover have "tokens_ok ?c"
      using skip(2) nil k' more unfolding tokens_ok_def by auto
    ultimately show ?thesis
      using run cstr by (auto simp: skip_separators_def)
  qed
qed

text \<open>The tokens that \<open>n\<close> successive calls return.\<close>

fun next_tokens :: "nat \<Rightarrow> cli_t \<Rightarrow> string option list" where
  "next_tokens 0 cli = []"
| "next_tokens (Suc n) cli =
     (case cli_next_token cli of
        (at, cli') \<Rightarrow> map_option (\<lambda>at. c_str at (cli_line cli')) at # next_tokens n cli')"

subsection \<open>Numbers\<close>

lemma parse_digits_append:
  "parse_digits base v (xs @ ys) = (case parse_digits base v xs of None \<Rightarrow> None
     | Some u \<Rightarrow> parse_digits base u ys)"
  by (induction base v xs rule: parse_digits.induct) (auto split: option.splits)

lemma hex_value_digit:
  assumes "d < 10"
  shows "hex_value (char_of (48 + d)) = Some (word_of_nat d)"
proof -
  have "(of_char (char_of (48 + d) :: char) :: nat) = 48 + d" using assms by simp
  then have "of_char (char_of (48 + d) :: char) = (of_nat (48 + d) :: u32)"
    using of_nat_of_char [of "char_of (48 + d)", where ?'a = "32 word"] by metis
  then show ?thesis
    using assms by (simp add: hex_value_def is_digit_def less_eq_char_def)
qed

lemma parse_show_nat:
  "parse_digits 10 v (show_nat n) = Some (v * 10 ^ length (show_nat n) + word_of_nat n)"
proof (induction n arbitrary: v rule: show_nat.induct)
  case (1 n)
  have digit: "(word_of_nat d :: u32) < 10" if "d < 10" for d
    using that by (simp add: word_less_nat_alt unat_of_nat_lt)
  show ?case
  proof (cases "n < 10")
    case True
    then have "show_nat n = [char_of (48 + n)]" by (subst show_nat.simps) simp
    with digit [OF True] True show ?thesis by (simp add: hex_value_digit)
  next
    case False
    have split: "(word_of_nat n :: u32) = word_of_nat (n div 10) * 10 + word_of_nat (n mod 10)"
    proof -
      have "n = n div 10 * 10 + n mod 10" by simp
      then show ?thesis by (metis of_nat_add of_nat_mult of_nat_numeral)
    qed
    have "show_nat n = show_nat (n div 10) @ [char_of (48 + n mod 10)]"
      using False by (subst show_nat.simps) simp
    then show ?thesis
      using False 1 [of v] digit [of "n mod 10"]
      by (simp add: parse_digits_append hex_value_digit not_le [symmetric] split algebra_simps)
  qed
qed

subsection \<open>Properties\<close>

text \<open>A configuration for the examples: one buffer, no prompt, echo and history as given.\<close>

definition plain_config :: "'w cli_command_t list \<Rightarrow> nat \<Rightarrow> string option \<Rightarrow> 'w cli_config_t" where
  "plain_config cmds room hist =
     \<lparr>conf_commands = Some cmds, conf_command_count = length cmds, conf_stream_read = None,
      conf_stream_write = True, conf_line_buffer = Some (replicate room CHR 0x00),
      conf_prompt = Some ''> '', conf_echo = True, conf_enable_help = True, conf_line_filter = None,
      conf_history_buffer = hist, conf_history_entry_size = 8, conf_raw_line_prefix = CHR '':''\<rparr>"

text \<open>The arguments a handler reads are the words of the line. On a terminated line, successive
  calls of \<open>cli_next_token\<close> return, left to right, exactly the maximal runs of characters that
  are not separators, each as a terminated string in the buffer, and then \<open>NULL\<close> for ever.\<close>

theorem cli_tokens_are_words:
  assumes "tokens_ok cli"
  shows "next_tokens n cli = map Some (take n (words (cli_remaining cli)))
    @ replicate (n - length (words (cli_remaining cli))) None"
  using assms
proof (induction n arbitrary: cli)
  case 0
  then show ?case by simp
next
  case (Suc n)
  show ?case
  proof (cases "words (cli_remaining cli)")
    case Nil
    with Suc cli_next_token_none [OF Suc.prems Nil] show ?thesis by simp
  next
    case (Cons tok ws)
    with Suc cli_next_token_some [OF Suc.prems Cons] show ?thesis by auto
  qed
qed

theorem cli_tokens_are_words_witness:
  "next_tokens 3 ((cli_fresh (plain_config ([] :: unit cli_command_t list) 8 None) (''set  1'' @ [CHR 0x00, CHR 0x00]) [])
      \<lparr>cli_line_len := 6\<rparr>) = [Some ''set'', Some ''1'', None]"
proof -
  let ?c = "(cli_fresh (plain_config ([] :: unit cli_command_t list) 8 None) (''set  1'' @ [CHR 0x00, CHR 0x00]) [])
      \<lparr>cli_line_len := 6\<rparr>"
  have rem: "cli_remaining ?c = ''set  1''"
    by (simp add: cli_remaining_def cli_fresh_def plain_config_def chunk_def)
  moreover have "tokens_ok ?c"
    unfolding tokens_ok_def rem by (simp add: cli_fresh_def plain_config_def)
  moreover have "words ''set  1'' = [''set'', ''1'']"
    by (simp add: words.simps is_separator_def CLI_SEPARATORS_def)
  ultimately show ?thesis using cli_tokens_are_words [of ?c 3] by (simp add: numeral_eq_Suc)
qed

text \<open>A number printed in decimal is read back as itself, for every 32-bit value.\<close>

theorem cli_u32_roundtrip:
  "parse_u32 (show_nat (unat v)) 10 = Some v"
  by (simp add: parse_u32_def show_nat_nonempty parse_show_nat)

text \<open>A decimal number that does not fit 32 bits is not malformed for the parser: any number
  of digits is accepted and read modulo \<open>2^32\<close>, so 4294967296 is 0 and 4294967297 is 1 for
  every command that takes a number, the range check of \<open>cli_next_i32\<close> included, which looks
  at the reduced value.\<close>

theorem cli_u32_wraps:
  "parse_u32 (show_nat n) 10 = Some (word_of_nat n)
   \<and> parse_u32 ''4294967296'' 10 = Some 0 \<and> parse_u32 ''4294967297'' 10 = Some 1"
  by (simp add: parse_u32_def show_nat_nonempty parse_show_nat hex_value_def is_digit_def)

end
