(* ===== verification/Cli_Editor.thy ===== *)
theory Cli_Editor
  imports Cli
begin

text \<open>
  Line editing, history and dispatch of the command interpreter. The concrete buffers refine an
  abstract editor (the text before and after the cursor) and a list of the most recent lines;
  the invariant \<open>cli_ok\<close> says that every index stays inside its buffer and is kept by every
  input character, whatever the caller's handlers do within the functions they may call.
\<close>

subsection \<open>Writing changes nothing but the output\<close>

lemma cli_write_bytes_fields [simp]:
  "cli_stream_write (cli_write_bytes cli bytes) = cli_stream_write cli"
  "cli_line (cli_write_bytes cli bytes) = cli_line cli"
  "cli_line_size (cli_write_bytes cli bytes) = cli_line_size cli"
  "cli_line_len (cli_write_bytes cli bytes) = cli_line_len cli"
  "cli_parse_pos (cli_write_bytes cli bytes) = cli_parse_pos cli"
  "cli_edit_cursor (cli_write_bytes cli bytes) = cli_edit_cursor cli"
  "cli_overflow (cli_write_bytes cli bytes) = cli_overflow cli"
  "cli_last_was_cr (cli_write_bytes cli bytes) = cli_last_was_cr cli"
  "cli_escape_state (cli_write_bytes cli bytes) = cli_escape_state cli"
  "cli_line_is_raw (cli_write_bytes cli bytes) = cli_line_is_raw cli"
  "cli_raw_line_prefix (cli_write_bytes cli bytes) = cli_raw_line_prefix cli"
  "cli_prompt (cli_write_bytes cli bytes) = cli_prompt cli"
  "cli_echo (cli_write_bytes cli bytes) = cli_echo cli"
  "cli_enable_help (cli_write_bytes cli bytes) = cli_enable_help cli"
  "cli_history_buffer (cli_write_bytes cli bytes) = cli_history_buffer cli"
  "cli_history_entry_size (cli_write_bytes cli bytes) = cli_history_entry_size cli"
  "cli_history_depth (cli_write_bytes cli bytes) = cli_history_depth cli"
  "cli_history_head (cli_write_bytes cli bytes) = cli_history_head cli"
  "cli_history_count (cli_write_bytes cli bytes) = cli_history_count cli"
  "cli_history_cursor (cli_write_bytes cli bytes) = cli_history_cursor cli"
  "cli_initialised (cli_write_bytes cli bytes) = cli_initialised cli"
  by (simp_all add: cli_write_bytes_def)

lemma cli_write_fields [simp]:
  "cli_stream_write (cli_write cli str) = cli_stream_write cli"
  "cli_line (cli_write cli str) = cli_line cli"
  "cli_line_size (cli_write cli str) = cli_line_size cli"
  "cli_line_len (cli_write cli str) = cli_line_len cli"
  "cli_parse_pos (cli_write cli str) = cli_parse_pos cli"
  "cli_edit_cursor (cli_write cli str) = cli_edit_cursor cli"
  "cli_overflow (cli_write cli str) = cli_overflow cli"
  "cli_last_was_cr (cli_write cli str) = cli_last_was_cr cli"
  "cli_escape_state (cli_write cli str) = cli_escape_state cli"
  "cli_line_is_raw (cli_write cli str) = cli_line_is_raw cli"
  "cli_raw_line_prefix (cli_write cli str) = cli_raw_line_prefix cli"
  "cli_prompt (cli_write cli str) = cli_prompt cli"
  "cli_echo (cli_write cli str) = cli_echo cli"
  "cli_enable_help (cli_write cli str) = cli_enable_help cli"
  "cli_history_buffer (cli_write cli str) = cli_history_buffer cli"
  "cli_history_entry_size (cli_write cli str) = cli_history_entry_size cli"
  "cli_history_depth (cli_write cli str) = cli_history_depth cli"
  "cli_history_head (cli_write cli str) = cli_history_head cli"
  "cli_history_count (cli_write cli str) = cli_history_count cli"
  "cli_history_cursor (cli_write cli str) = cli_history_cursor cli"
  "cli_initialised (cli_write cli str) = cli_initialised cli"
  by (simp_all add: cli_write_def split: option.split)

lemma cli_printf_fields [simp]:
  "cli_stream_write (cli_printf cli str) = cli_stream_write cli"
  "cli_line (cli_printf cli str) = cli_line cli"
  "cli_line_size (cli_printf cli str) = cli_line_size cli"
  "cli_line_len (cli_printf cli str) = cli_line_len cli"
  "cli_parse_pos (cli_printf cli str) = cli_parse_pos cli"
  "cli_edit_cursor (cli_printf cli str) = cli_edit_cursor cli"
  "cli_overflow (cli_printf cli str) = cli_overflow cli"
  "cli_last_was_cr (cli_printf cli str) = cli_last_was_cr cli"
  "cli_escape_state (cli_printf cli str) = cli_escape_state cli"
  "cli_line_is_raw (cli_printf cli str) = cli_line_is_raw cli"
  "cli_raw_line_prefix (cli_printf cli str) = cli_raw_line_prefix cli"
  "cli_prompt (cli_printf cli str) = cli_prompt cli"
  "cli_echo (cli_printf cli str) = cli_echo cli"
  "cli_enable_help (cli_printf cli str) = cli_enable_help cli"
  "cli_history_buffer (cli_printf cli str) = cli_history_buffer cli"
  "cli_history_entry_size (cli_printf cli str) = cli_history_entry_size cli"
  "cli_history_depth (cli_printf cli str) = cli_history_depth cli"
  "cli_history_head (cli_printf cli str) = cli_history_head cli"
  "cli_history_count (cli_printf cli str) = cli_history_count cli"
  "cli_history_cursor (cli_printf cli str) = cli_history_cursor cli"
  "cli_initialised (cli_printf cli str) = cli_initialised cli"
  by (simp_all add: cli_printf_def Let_def)

lemma write_repeat_fields [simp]:
  "cli_stream_write (write_repeat n str cli) = cli_stream_write cli"
  "cli_line (write_repeat n str cli) = cli_line cli"
  "cli_line_size (write_repeat n str cli) = cli_line_size cli"
  "cli_line_len (write_repeat n str cli) = cli_line_len cli"
  "cli_parse_pos (write_repeat n str cli) = cli_parse_pos cli"
  "cli_edit_cursor (write_repeat n str cli) = cli_edit_cursor cli"
  "cli_overflow (write_repeat n str cli) = cli_overflow cli"
  "cli_last_was_cr (write_repeat n str cli) = cli_last_was_cr cli"
  "cli_escape_state (write_repeat n str cli) = cli_escape_state cli"
  "cli_line_is_raw (write_repeat n str cli) = cli_line_is_raw cli"
  "cli_raw_line_prefix (write_repeat n str cli) = cli_raw_line_prefix cli"
  "cli_prompt (write_repeat n str cli) = cli_prompt cli"
  "cli_echo (write_repeat n str cli) = cli_echo cli"
  "cli_enable_help (write_repeat n str cli) = cli_enable_help cli"
  "cli_history_buffer (write_repeat n str cli) = cli_history_buffer cli"
  "cli_history_entry_size (write_repeat n str cli) = cli_history_entry_size cli"
  "cli_history_depth (write_repeat n str cli) = cli_history_depth cli"
  "cli_history_head (write_repeat n str cli) = cli_history_head cli"
  "cli_history_count (write_repeat n str cli) = cli_history_count cli"
  "cli_history_cursor (write_repeat n str cli) = cli_history_cursor cli"
  "cli_initialised (write_repeat n str cli) = cli_initialised cli"
  by (induction n) (simp_all add: write_repeat_def)

lemma cli_write_prompt_fields [simp]:
  "cli_stream_write (cli_write_prompt cli) = cli_stream_write cli"
  "cli_line (cli_write_prompt cli) = cli_line cli"
  "cli_line_size (cli_write_prompt cli) = cli_line_size cli"
  "cli_line_len (cli_write_prompt cli) = cli_line_len cli"
  "cli_parse_pos (cli_write_prompt cli) = cli_parse_pos cli"
  "cli_edit_cursor (cli_write_prompt cli) = cli_edit_cursor cli"
  "cli_overflow (cli_write_prompt cli) = cli_overflow cli"
  "cli_last_was_cr (cli_write_prompt cli) = cli_last_was_cr cli"
  "cli_escape_state (cli_write_prompt cli) = cli_escape_state cli"
  "cli_line_is_raw (cli_write_prompt cli) = cli_line_is_raw cli"
  "cli_raw_line_prefix (cli_write_prompt cli) = cli_raw_line_prefix cli"
  "cli_prompt (cli_write_prompt cli) = cli_prompt cli"
  "cli_echo (cli_write_prompt cli) = cli_echo cli"
  "cli_enable_help (cli_write_prompt cli) = cli_enable_help cli"
  "cli_history_buffer (cli_write_prompt cli) = cli_history_buffer cli"
  "cli_history_entry_size (cli_write_prompt cli) = cli_history_entry_size cli"
  "cli_history_depth (cli_write_prompt cli) = cli_history_depth cli"
  "cli_history_head (cli_write_prompt cli) = cli_history_head cli"
  "cli_history_count (cli_write_prompt cli) = cli_history_count cli"
  "cli_history_cursor (cli_write_prompt cli) = cli_history_cursor cli"
  "cli_initialised (cli_write_prompt cli) = cli_initialised cli"
  by (simp_all add: cli_write_prompt_def split: option.split)

lemma should_echo_write [simp]:
  "should_echo (cli_write_bytes cli bytes) = should_echo cli"
  "should_echo (cli_write cli str) = should_echo cli"
  by (simp_all add: should_echo_def)

subsection \<open>Editing\<close>

text \<open>The buffer indices of the line being typed.\<close>

definition edit_ok :: "cli_t \<Rightarrow> bool" where
  "edit_ok cli \<longleftrightarrow> length (cli_line cli) = cli_line_size cli \<and> cli_line_len cli < cli_line_size cli
     \<and> cli_edit_cursor cli \<le> cli_line_len cli"

text \<open>The abstract editor: what is before and after the cursor, and whether a character has been
  lost for lack of room.\<close>

record editor =
  ed_before :: string
  ed_after :: string
  ed_lost :: bool

definition editor_of :: "cli_t \<Rightarrow> editor" where
  "editor_of cli =
     \<lparr>ed_before = take (cli_edit_cursor cli) (cli_line cli),
      ed_after = chunk (cli_edit_cursor cli) (cli_line_len cli - cli_edit_cursor cli) (cli_line cli),
      ed_lost = cli_overflow cli\<rparr>"

definition ed_insert :: "nat \<Rightarrow> char \<Rightarrow> editor \<Rightarrow> editor" where
  "ed_insert room c ed =
     (if room \<le> length (ed_before ed) + length (ed_after ed) then ed\<lparr>ed_lost := True\<rparr>
      else ed\<lparr>ed_before := ed_before ed @ [c]\<rparr>)"

definition ed_backspace :: "editor \<Rightarrow> editor" where
  "ed_backspace ed = ed\<lparr>ed_before := butlast (ed_before ed)\<rparr>"

definition ed_left :: "editor \<Rightarrow> editor" where
  "ed_left ed = (if ed_before ed = [] then ed
     else ed\<lparr>ed_before := butlast (ed_before ed), ed_after := last (ed_before ed) # ed_after ed\<rparr>)"

definition ed_right :: "editor \<Rightarrow> editor" where
  "ed_right ed = (case ed_after ed of [] \<Rightarrow> ed
     | c # cs \<Rightarrow> ed\<lparr>ed_before := ed_before ed @ [c], ed_after := cs\<rparr>)"

definition ed_text :: "editor \<Rightarrow> string" where
  "ed_text ed = ed_before ed @ ed_after ed"

lemma take_via_chunk: "take n xs = chunk 0 n xs"
  by (simp add: chunk_def)

lemma insert_refines:
  assumes "edit_ok cli"
  shows "edit_ok (insert_char_at_cursor cli c)
    \<and> editor_of (insert_char_at_cursor cli c) = ed_insert (cli_line_size cli - 1) c (editor_of cli)"
proof (cases "cli_line_size cli \<le> cli_line_len cli + 1")
  case True
  with assms show ?thesis
    by (auto simp: insert_char_at_cursor_def edit_ok_def editor_of_def ed_insert_def)
next
  case False
  let ?e = "cli_edit_cursor cli" and ?tail = "chunk (cli_edit_cursor cli) (cli_line_len cli - cli_edit_cursor cli) (cli_line cli)"
  let ?shift = "blit (?e + 1) ?tail (cli_line cli)"
  have b: "?e \<le> cli_line_len cli" "cli_line_len cli + 1 < length (cli_line cli)" "length ?tail = cli_line_len cli - ?e"
    using assms False by (auto simp: edit_ok_def)
  have line: "cli_line (insert_char_at_cursor cli c) = ?shift[?e := c]"
    using b False by (simp add: insert_char_at_cursor_def Let_def)
  have pos: "cli_line_len (insert_char_at_cursor cli c) = cli_line_len cli + 1"
      "cli_edit_cursor (insert_char_at_cursor cli c) = ?e + 1"
      "cli_line_size (insert_char_at_cursor cli c) = cli_line_size cli"
      "cli_overflow (insert_char_at_cursor cli c) = cli_overflow cli"
    using False by (simp_all add: insert_char_at_cursor_def Let_def)
  have len: "length ?shift = length (cli_line cli)" using b by simp
  have "take (?e + 1) (?shift[?e := c]) = take ?e (cli_line cli) @ [c]"
    using b len by (simp add: take_Suc_conv_app_nth) (simp add: blit_def)
  moreover have "chunk (?e + 1) (length ?tail) (?shift[?e := c]) = ?tail"
    using b chunk_blit_same [of "?e + 1" ?tail "cli_line cli"] by (subst chunk_update_before) simp_all
  ultimately show ?thesis
    using assms False b len unfolding edit_ok_def editor_of_def line pos
    by (auto simp: ed_insert_def min_def)
qed

lemma backspace_refines:
  assumes "edit_ok cli"
  shows "edit_ok (handle_backspace cli)
    \<and> editor_of (handle_backspace cli) = ed_backspace (editor_of cli)"
proof (cases "cli_edit_cursor cli = 0")
  case True
  with assms show ?thesis by (simp add: handle_backspace_def editor_of_def ed_backspace_def)
next
  case False
  let ?e = "cli_edit_cursor cli" and ?tail = "chunk (cli_edit_cursor cli) (cli_line_len cli - cli_edit_cursor cli) (cli_line cli)"
  let ?shift = "blit (?e - 1) ?tail (cli_line cli)"
  have b: "0 < ?e" "?e \<le> cli_line_len cli" "cli_line_len cli < length (cli_line cli)"
      "length ?tail = cli_line_len cli - ?e"
    using assms False by (auto simp: edit_ok_def)
  have line: "cli_line (handle_backspace cli) = ?shift[cli_line_len cli - 1 := CHR 0x00]"
    and pos: "cli_line_len (handle_backspace cli) = cli_line_len cli - 1"
      "cli_edit_cursor (handle_backspace cli) = ?e - 1"
      "cli_line_size (handle_backspace cli) = cli_line_size cli"
      "cli_overflow (handle_backspace cli) = cli_overflow cli"
    using False by (simp_all add: handle_backspace_def Let_def)
  have "take (?e - 1) (?shift[cli_line_len cli - 1 := CHR 0x00]) = butlast (take ?e (cli_line cli))"
    using b by (simp add: take_update_cancel butlast_take) (simp add: blit_def)
  moreover have "chunk (?e - 1) (length ?tail) (?shift[cli_line_len cli - 1 := CHR 0x00]) = ?tail"
    using b chunk_blit_same [of "?e - 1" ?tail "cli_line cli"]
    by (subst chunk_update_after) simp_all
  ultimately show ?thesis
    using assms b unfolding edit_ok_def editor_of_def line pos by (auto simp: ed_backspace_def)
qed

lemma left_refines:
  assumes "edit_ok cli"
  shows "edit_ok (cursor_left cli) \<and> editor_of (cursor_left cli) = ed_left (editor_of cli)"
proof (cases "cli_edit_cursor cli")
  case 0
  then show ?thesis using assms by (simp add: cursor_left_def editor_of_def ed_left_def)
next
  case (Suc e)
  have b: "e < cli_line_len cli" "cli_line_len cli < length (cli_line cli)"
    using assms Suc by (auto simp: edit_ok_def)
  have pos: "cli_edit_cursor (cursor_left cli) = e" "cli_line (cursor_left cli) = cli_line cli"
      "cli_line_len (cursor_left cli) = cli_line_len cli" "cli_line_size (cursor_left cli) = cli_line_size cli"
      "cli_overflow (cursor_left cli) = cli_overflow cli"
    using Suc by (simp_all add: cursor_left_def Let_def)
  have "chunk e (cli_line_len cli - e) (cli_line cli)
      = cli_line cli ! e # chunk (Suc e) (cli_line_len cli - Suc e) (cli_line cli)"
    using b by (simp add: chunk_def Cons_nth_drop_Suc [symmetric] take_Cons' Suc_diff_Suc)
  moreover have "take (Suc e) (cli_line cli) = take e (cli_line cli) @ [cli_line cli ! e]"
    using b by (simp add: take_Suc_conv_app_nth)
  ultimately show ?thesis
    using assms b unfolding edit_ok_def editor_of_def pos Suc by (simp add: ed_left_def)
qed

lemma right_refines:
  assumes "edit_ok cli"
  shows "edit_ok (cursor_right cli) \<and> editor_of (cursor_right cli) = ed_right (editor_of cli)"
proof (cases "cli_line_len cli \<le> cli_edit_cursor cli")
  case True
  then show ?thesis using assms by (simp add: cursor_right_def editor_of_def ed_right_def)
next
  case False
  let ?e = "cli_edit_cursor cli"
  have b: "?e < cli_line_len cli" "cli_line_len cli < length (cli_line cli)"
    using assms False by (auto simp: edit_ok_def)
  have pos: "cli_edit_cursor (cursor_right cli) = Suc ?e" "cli_line (cursor_right cli) = cli_line cli"
      "cli_line_len (cursor_right cli) = cli_line_len cli" "cli_line_size (cursor_right cli) = cli_line_size cli"
      "cli_overflow (cursor_right cli) = cli_overflow cli"
    using False by (simp_all add: cursor_right_def Let_def)
  have "chunk ?e (cli_line_len cli - ?e) (cli_line cli)
      = cli_line cli ! ?e # chunk (Suc ?e) (cli_line_len cli - Suc ?e) (cli_line cli)"
    using b by (simp add: chunk_def Cons_nth_drop_Suc [symmetric] take_Cons' Suc_diff_Suc)
  moreover have "take (Suc ?e) (cli_line cli) = take ?e (cli_line cli) @ [cli_line cli ! ?e]"
    using b by (simp add: take_Suc_conv_app_nth)
  ultimately show ?thesis
    using assms b unfolding edit_ok_def editor_of_def pos by (simp add: ed_right_def)
qed

lemma replace_refines:
  assumes "edit_ok cli" and "len \<le> length src"
  shows "edit_ok (replace_line cli src len)
    \<and> editor_of (replace_line cli src len) =
        \<lparr>ed_before = take (min len (cli_line_size cli - 1)) src, ed_after = [], ed_lost = cli_overflow cli\<rparr>"
proof -
  let ?n = "if cli_line_size cli \<le> len then cli_line_size cli - 1 else len"
  have n: "?n = min len (cli_line_size cli - 1)" "?n < length (cli_line cli)" "length (take ?n src) = ?n"
    using assms by (auto simp: edit_ok_def)
  have pos: "cli_line (replace_line cli src len) = (blit 0 (take ?n src) (cli_line cli))[?n := CHR 0x00]"
      "cli_line_len (replace_line cli src len) = ?n" "cli_edit_cursor (replace_line cli src len) = ?n"
      "cli_line_size (replace_line cli src len) = cli_line_size cli"
      "cli_overflow (replace_line cli src len) = cli_overflow cli"
    by (simp_all add: replace_line_def Let_def)
  have "take k ((blit 0 (take k src) (cli_line cli))[k := CHR 0x00]) = take k src"
    if "length (take k src) = k" for k
    using that by (simp add: take_update_cancel) (simp add: blit_def)
  from this [OF n(3)] have "take ?n ((blit 0 (take ?n src) (cli_line cli))[?n := CHR 0x00]) = take ?n src" .
  then show ?thesis
    using assms n unfolding edit_ok_def editor_of_def pos by simp
qed

subsection \<open>History\<close>

text \<open>The slot of the \<open>k\<close>-th newest line, and what the history holds, newest first.\<close>

definition history_index :: "cli_t \<Rightarrow> nat \<Rightarrow> nat" where
  "history_index cli k =
     (cli_history_head cli + cli_history_depth cli - (k + 1)) mod cli_history_depth cli"

definition history_text :: "cli_t \<Rightarrow> nat \<Rightarrow> string" where
  "history_text cli j = chunk (j * cli_history_entry_size cli) (cli_history_entry_size cli) (cli_history_buffer cli)"

definition history_list :: "cli_t \<Rightarrow> string list" where
  "history_list cli = map (\<lambda>k. c_str (history_slot cli (history_index cli k)) (cli_history_buffer cli))
     [0..<cli_history_count cli]"

definition history_ok :: "cli_t \<Rightarrow> bool" where
  "history_ok cli \<longleftrightarrow> cli_history_cursor cli \<le> cli_history_count cli
     \<and> cli_history_count cli \<le> cli_history_depth cli
     \<and> (0 < cli_history_depth cli \<longrightarrow> 0 < cli_history_entry_size cli
        \<and> cli_history_depth cli * cli_history_entry_size cli \<le> length (cli_history_buffer cli)
        \<and> cli_history_head cli < cli_history_depth cli
        \<and> (\<forall>k < cli_history_count cli. CHR 0x00 \<in> set (history_text cli (history_index cli k))))"

lemma c_str_within:
  "CHR 0x00 \<in> set (chunk at n buf) \<Longrightarrow> c_str at buf = takeWhile (\<lambda>c. c \<noteq> CHR 0x00) (chunk at n buf)"
proof -
  assume nul: "CHR 0x00 \<in> set (chunk at n buf)"
  have "drop at buf = chunk at n buf @ drop n (drop at buf)"
    by (simp only: chunk_def append_take_drop_id)
  then show ?thesis
    unfolding c_str_def using takeWhile_append1 [OF nul, of "\<lambda>c. c \<noteq> CHR 0x00"] by simp
qed

lemma slot_bound: "j < d \<Longrightarrow> d * e \<le> n \<Longrightarrow> j * e + e \<le> (n :: nat)"
  using mult_le_mono1 [of "Suc j" d e] by simp

lemma history_push_write:
  assumes "history_ok cli" and "0 < cli_history_depth cli" and "len < cli_history_entry_size cli"
    and "len \<le> length src" and "j < cli_history_depth cli"
  defines "slot \<equiv> history_slot cli (cli_history_head cli)"
  defines "buf \<equiv> (blit slot (take len src) (cli_history_buffer cli))[slot + len := CHR 0x00]"
  shows "j \<noteq> cli_history_head cli \<Longrightarrow>
      chunk (j * cli_history_entry_size cli) (cli_history_entry_size cli) buf = history_text cli j"
    and "j = cli_history_head cli \<Longrightarrow>
      \<exists>rest. chunk (j * cli_history_entry_size cli) (cli_history_entry_size cli) buf = take len src @ CHR 0x00 # rest"
    and "length buf = length (cli_history_buffer cli)"
proof -
  let ?e = "cli_history_entry_size cli" and ?h = "cli_history_head cli" and ?b = "cli_history_buffer cli"
  have slot: "slot = ?h * ?e" by (simp add: slot_def history_slot_def)
  have fits: "?h * ?e + ?e \<le> length ?b" "j * ?e + ?e \<le> length ?b"
    using assms(1,2,5) by (auto simp: history_ok_def intro: slot_bound)
  have n: "length (take len src) = len" using assms(4) by simp
  then show size: "length buf = length ?b"
    using fits assms(3) by (simp add: buf_def slot)
  show "chunk (j * ?e) ?e buf = history_text cli j" if "j \<noteq> ?h"
  proof (cases "j < ?h")
    case True
    then have "j * ?e + ?e \<le> ?h * ?e" using mult_le_mono1 [of "Suc j" ?h ?e] by simp
    then show ?thesis
      using fits assms(3) n by (simp add: buf_def slot history_text_def chunk_update_after chunk_blit_before)
  next
    case False
    with that have "?h * ?e + ?e \<le> j * ?e" using mult_le_mono1 [of "Suc ?h" j ?e] by simp
    then show ?thesis
      using fits assms(3) n by (simp add: buf_def slot history_text_def chunk_update_before chunk_blit_after)
  qed
  show "\<exists>rest. chunk (j * ?e) ?e buf = take len src @ CHR 0x00 # rest" if "j = ?h"
  proof -
    have "chunk slot len buf = take len src"
      using fits assms(3) n chunk_blit_same [of slot "take len src" ?b]
      by (simp add: buf_def slot chunk_update_after)
    moreover have "chunk (slot + len) (?e - len) buf = CHR 0x00 # chunk (slot + len + 1) (?e - len - 1) buf"
      using fits assms(3) size Cons_nth_drop_Suc [of "slot + len" buf]
      by (simp add: chunk_def slot take_Cons' flip: Cons_nth_drop_Suc) (simp add: buf_def slot)
    ultimately have "chunk slot ?e buf = take len src @ CHR 0x00 # chunk (slot + len + 1) (?e - len - 1) buf"
      using chunk_append_chunk [of slot len buf "?e - len"] assms(3) by simp
    with that slot show ?thesis by blast
  qed
qed

lemma history_index_push:
  fixes h d k :: nat
  assumes "h < d" and "k < d"
  shows "((h + 1) mod d + d - (k + 1)) mod d = (if k = 0 then h else (h + d - k) mod d)"
proof (cases "h + 1 = d")
  case True
  have "(h + 1) mod d = 0" by (simp only: True mod_self)
  with True assms show ?thesis by (cases k) (auto simp: mod_if)
next
  case False
  then have "(h + 1) mod d = h + 1" using assms by simp
  with assms show ?thesis by (cases k) auto
qed

text \<open>A pushed line becomes the newest; the oldest is forgotten when the history is full.\<close>

lemma history_push_refines:
  assumes ok: "history_ok cli" and depth: "0 < cli_history_depth cli"
    and len: "len \<le> length src" and nul: "CHR 0x00 \<notin> set (take len src)"
  shows "history_ok (history_push cli src len)
    \<and> history_list (history_push cli src len) =
        take (cli_history_depth cli)
          (take (min len (cli_history_entry_size cli - 1)) src # history_list cli)"
proof -
  let ?e = "cli_history_entry_size cli" and ?h = "cli_history_head cli" and ?d = "cli_history_depth cli"
  let ?n = "cli_history_count cli" and ?p = "history_push cli src len"
  define m where "m = (if ?e \<le> len then ?e - 1 else len)"
  define buf where "buf = (blit (history_slot cli ?h) (take m src) (cli_history_buffer cli))
    [history_slot cli ?h + m := CHR 0x00]"
  have e: "0 < ?e" "?h < ?d" "?n \<le> ?d" using ok depth by (auto simp: history_ok_def)
  have m: "m < ?e" "m \<le> length src" "m = min len (?e - 1)" using e len by (auto simp: m_def)
  have mnul: "CHR 0x00 \<notin> set (take m src)"
    using nul m(3) set_take_subset_set_take [of m len src] by auto
  note pushed = history_push_write [OF ok depth m(1,2), folded buf_def]
  have p: "cli_history_buffer ?p = buf" "cli_history_entry_size ?p = ?e" "cli_history_depth ?p = ?d"
      "cli_history_head ?p = (?h + 1) mod ?d" "cli_history_count ?p = min ?d (?n + 1)"
      "cli_history_cursor ?p = cli_history_cursor cli"
    using depth e by (auto simp: history_push_def Let_def buf_def m_def)
  have idx: "history_index ?p k = (if k = 0 then ?h else history_index cli (k - 1))" if "k < ?d" for k
    unfolding history_index_def p using history_index_push [OF e(2) that] by simp
  have old: "history_index cli j < ?d \<and> history_index cli j \<noteq> ?h" if "j + 1 < ?d" for j
  proof -
    have "history_index cli j = (if j < ?h then ?h - (j + 1) else ?h + ?d - (j + 1))"
      using that e(2) by (auto simp: history_index_def mod_if)
    with that e(2) show ?thesis by auto
  qed
  have newest: "c_str (history_slot ?p ?h) buf = take m src" "CHR 0x00 \<in> set (history_text ?p ?h)"
  proof -
    obtain rest where r: "chunk (?h * ?e) ?e buf = take m src @ CHR 0x00 # rest"
      using pushed(2) [OF e(2) refl] by blast
    then show "CHR 0x00 \<in> set (history_text ?p ?h)" by (simp add: history_text_def p)
    from r have "c_str (?h * ?e) buf = takeWhile (\<lambda>c. c \<noteq> CHR 0x00) (take m src @ CHR 0x00 # rest)"
      using c_str_within [of "?h * ?e" ?e buf] by simp
    with mnul show "c_str (history_slot ?p ?h) buf = take m src"
      by (auto simp: history_slot_def p takeWhile_append2 takeWhile_tail)
  qed
  have kept: "c_str (history_slot ?p (history_index cli j)) buf
      = c_str (history_slot cli (history_index cli j)) (cli_history_buffer cli)"
    "CHR 0x00 \<in> set (history_text ?p (history_index cli j))" if "j < ?n" "j + 1 < ?d" for j
  proof -
    let ?i = "history_index cli j"
    have same: "chunk (?i * ?e) ?e buf = history_text cli ?i" using old [OF that(2)] pushed(1) by simp
    have there: "CHR 0x00 \<in> set (history_text cli ?i)" using ok depth that(1) by (simp add: history_ok_def)
    then show "CHR 0x00 \<in> set (history_text ?p ?i)" by (simp add: history_text_def p same)
    have "c_str (?i * ?e) buf = takeWhile (\<lambda>c. c \<noteq> CHR 0x00) (history_text cli ?i)"
      using c_str_within [of "?i * ?e" ?e buf] there by (simp add: same)
    also have "\<dots> = c_str (?i * ?e) (cli_history_buffer cli)"
      using c_str_within [of "?i * ?e" ?e "cli_history_buffer cli"] there by (simp add: history_text_def)
    finally show "c_str (history_slot ?p ?i) buf = c_str (history_slot cli ?i) (cli_history_buffer cli)"
      by (simp add: history_slot_def p)
  qed
  have "history_ok ?p"
    unfolding history_ok_def p
  proof (intro conjI impI allI)
    fix k assume k: "k < min ?d (?n + 1)"
    then show "CHR 0x00 \<in> set (history_text ?p (history_index ?p k))"
      using idx [of k] newest(2) kept(2) [of "k - 1"] by (cases k) simp_all
  qed (use ok e depth pushed(3) in \<open>auto simp: history_ok_def\<close>)
  moreover have "history_list ?p = take ?d (take m src # history_list cli)"
  proof (rule nth_equalityI)
    show "length (history_list ?p) = length (take ?d (take m src # history_list cli))"
      using e depth by (simp add: history_list_def p)
    fix k assume "k < length (history_list ?p)"
    then have k: "k < ?d" "k < ?n + 1" by (simp_all add: history_list_def p)
    then show "history_list ?p ! k = take ?d (take m src # history_list cli) ! k"
      using idx [of k] newest(1) kept(1) [of "k - 1"]
      by (cases k) (simp_all add: history_list_def p)
  qed
  ultimately show ?thesis using m(3) by simp
qed

subsection \<open>What editing and history leave alone\<close>

lemma insert_char_fields [simp]:
  "cli_stream_write (insert_char_at_cursor cli c) = cli_stream_write cli"
  "cli_line_size (insert_char_at_cursor cli c) = cli_line_size cli"
  "cli_parse_pos (insert_char_at_cursor cli c) = cli_parse_pos cli"
  "cli_last_was_cr (insert_char_at_cursor cli c) = cli_last_was_cr cli"
  "cli_escape_state (insert_char_at_cursor cli c) = cli_escape_state cli"
  "cli_line_is_raw (insert_char_at_cursor cli c) = cli_line_is_raw cli"
  "cli_raw_line_prefix (insert_char_at_cursor cli c) = cli_raw_line_prefix cli"
  "cli_prompt (insert_char_at_cursor cli c) = cli_prompt cli"
  "cli_echo (insert_char_at_cursor cli c) = cli_echo cli"
  "cli_enable_help (insert_char_at_cursor cli c) = cli_enable_help cli"
  "cli_history_buffer (insert_char_at_cursor cli c) = cli_history_buffer cli"
  "cli_history_entry_size (insert_char_at_cursor cli c) = cli_history_entry_size cli"
  "cli_history_depth (insert_char_at_cursor cli c) = cli_history_depth cli"
  "cli_history_head (insert_char_at_cursor cli c) = cli_history_head cli"
  "cli_history_count (insert_char_at_cursor cli c) = cli_history_count cli"
  "cli_history_cursor (insert_char_at_cursor cli c) = cli_history_cursor cli"
  "cli_initialised (insert_char_at_cursor cli c) = cli_initialised cli"
  by (simp_all add: insert_char_at_cursor_def Let_def)

lemma handle_backspace_fields [simp]:
  "cli_stream_write (handle_backspace cli) = cli_stream_write cli"
  "cli_line_size (handle_backspace cli) = cli_line_size cli"
  "cli_parse_pos (handle_backspace cli) = cli_parse_pos cli"
  "cli_overflow (handle_backspace cli) = cli_overflow cli"
  "cli_last_was_cr (handle_backspace cli) = cli_last_was_cr cli"
  "cli_escape_state (handle_backspace cli) = cli_escape_state cli"
  "cli_line_is_raw (handle_backspace cli) = cli_line_is_raw cli"
  "cli_raw_line_prefix (handle_backspace cli) = cli_raw_line_prefix cli"
  "cli_prompt (handle_backspace cli) = cli_prompt cli"
  "cli_echo (handle_backspace cli) = cli_echo cli"
  "cli_enable_help (handle_backspace cli) = cli_enable_help cli"
  "cli_history_buffer (handle_backspace cli) = cli_history_buffer cli"
  "cli_history_entry_size (handle_backspace cli) = cli_history_entry_size cli"
  "cli_history_depth (handle_backspace cli) = cli_history_depth cli"
  "cli_history_head (handle_backspace cli) = cli_history_head cli"
  "cli_history_count (handle_backspace cli) = cli_history_count cli"
  "cli_history_cursor (handle_backspace cli) = cli_history_cursor cli"
  "cli_initialised (handle_backspace cli) = cli_initialised cli"
  by (simp_all add: handle_backspace_def Let_def)

lemma cursor_left_fields [simp]:
  "cli_stream_write (cursor_left cli) = cli_stream_write cli"
  "cli_line (cursor_left cli) = cli_line cli"
  "cli_line_size (cursor_left cli) = cli_line_size cli"
  "cli_line_len (cursor_left cli) = cli_line_len cli"
  "cli_parse_pos (cursor_left cli) = cli_parse_pos cli"
  "cli_overflow (cursor_left cli) = cli_overflow cli"
  "cli_last_was_cr (cursor_left cli) = cli_last_was_cr cli"
  "cli_escape_state (cursor_left cli) = cli_escape_state cli"
  "cli_line_is_raw (cursor_left cli) = cli_line_is_raw cli"
  "cli_raw_line_prefix (cursor_left cli) = cli_raw_line_prefix cli"
  "cli_prompt (cursor_left cli) = cli_prompt cli"
  "cli_echo (cursor_left cli) = cli_echo cli"
  "cli_enable_help (cursor_left cli) = cli_enable_help cli"
  "cli_history_buffer (cursor_left cli) = cli_history_buffer cli"
  "cli_history_entry_size (cursor_left cli) = cli_history_entry_size cli"
  "cli_history_depth (cursor_left cli) = cli_history_depth cli"
  "cli_history_head (cursor_left cli) = cli_history_head cli"
  "cli_history_count (cursor_left cli) = cli_history_count cli"
  "cli_history_cursor (cursor_left cli) = cli_history_cursor cli"
  "cli_initialised (cursor_left cli) = cli_initialised cli"
  by (simp_all add: cursor_left_def Let_def)

lemma cursor_right_fields [simp]:
  "cli_stream_write (cursor_right cli) = cli_stream_write cli"
  "cli_line (cursor_right cli) = cli_line cli"
  "cli_line_size (cursor_right cli) = cli_line_size cli"
  "cli_line_len (cursor_right cli) = cli_line_len cli"
  "cli_parse_pos (cursor_right cli) = cli_parse_pos cli"
  "cli_overflow (cursor_right cli) = cli_overflow cli"
  "cli_last_was_cr (cursor_right cli) = cli_last_was_cr cli"
  "cli_escape_state (cursor_right cli) = cli_escape_state cli"
  "cli_line_is_raw (cursor_right cli) = cli_line_is_raw cli"
  "cli_raw_line_prefix (cursor_right cli) = cli_raw_line_prefix cli"
  "cli_prompt (cursor_right cli) = cli_prompt cli"
  "cli_echo (cursor_right cli) = cli_echo cli"
  "cli_enable_help (cursor_right cli) = cli_enable_help cli"
  "cli_history_buffer (cursor_right cli) = cli_history_buffer cli"
  "cli_history_entry_size (cursor_right cli) = cli_history_entry_size cli"
  "cli_history_depth (cursor_right cli) = cli_history_depth cli"
  "cli_history_head (cursor_right cli) = cli_history_head cli"
  "cli_history_count (cursor_right cli) = cli_history_count cli"
  "cli_history_cursor (cursor_right cli) = cli_history_cursor cli"
  "cli_initialised (cursor_right cli) = cli_initialised cli"
  by (simp_all add: cursor_right_def Let_def)

lemma replace_line_fields [simp]:
  "cli_stream_write (replace_line cli src len) = cli_stream_write cli"
  "cli_line_size (replace_line cli src len) = cli_line_size cli"
  "cli_parse_pos (replace_line cli src len) = cli_parse_pos cli"
  "cli_overflow (replace_line cli src len) = cli_overflow cli"
  "cli_last_was_cr (replace_line cli src len) = cli_last_was_cr cli"
  "cli_escape_state (replace_line cli src len) = cli_escape_state cli"
  "cli_line_is_raw (replace_line cli src len) = cli_line_is_raw cli"
  "cli_raw_line_prefix (replace_line cli src len) = cli_raw_line_prefix cli"
  "cli_prompt (replace_line cli src len) = cli_prompt cli"
  "cli_echo (replace_line cli src len) = cli_echo cli"
  "cli_enable_help (replace_line cli src len) = cli_enable_help cli"
  "cli_history_buffer (replace_line cli src len) = cli_history_buffer cli"
  "cli_history_entry_size (replace_line cli src len) = cli_history_entry_size cli"
  "cli_history_depth (replace_line cli src len) = cli_history_depth cli"
  "cli_history_head (replace_line cli src len) = cli_history_head cli"
  "cli_history_count (replace_line cli src len) = cli_history_count cli"
  "cli_history_cursor (replace_line cli src len) = cli_history_cursor cli"
  "cli_initialised (replace_line cli src len) = cli_initialised cli"
  by (simp_all add: replace_line_def Let_def)

lemma history_push_fields [simp]:
  "cli_stream_write (history_push cli src len) = cli_stream_write cli"
  "cli_line (history_push cli src len) = cli_line cli"
  "cli_line_size (history_push cli src len) = cli_line_size cli"
  "cli_line_len (history_push cli src len) = cli_line_len cli"
  "cli_parse_pos (history_push cli src len) = cli_parse_pos cli"
  "cli_edit_cursor (history_push cli src len) = cli_edit_cursor cli"
  "cli_overflow (history_push cli src len) = cli_overflow cli"
  "cli_last_was_cr (history_push cli src len) = cli_last_was_cr cli"
  "cli_escape_state (history_push cli src len) = cli_escape_state cli"
  "cli_line_is_raw (history_push cli src len) = cli_line_is_raw cli"
  "cli_raw_line_prefix (history_push cli src len) = cli_raw_line_prefix cli"
  "cli_prompt (history_push cli src len) = cli_prompt cli"
  "cli_echo (history_push cli src len) = cli_echo cli"
  "cli_enable_help (history_push cli src len) = cli_enable_help cli"
  "cli_history_entry_size (history_push cli src len) = cli_history_entry_size cli"
  "cli_history_depth (history_push cli src len) = cli_history_depth cli"
  "cli_history_cursor (history_push cli src len) = cli_history_cursor cli"
  "cli_initialised (history_push cli src len) = cli_initialised cli"
  by (simp_all add: history_push_def Let_def)

lemma history_recall_fields [simp]:
  "cli_stream_write (history_recall cli direction) = cli_stream_write cli"
  "cli_line_size (history_recall cli direction) = cli_line_size cli"
  "cli_parse_pos (history_recall cli direction) = cli_parse_pos cli"
  "cli_overflow (history_recall cli direction) = cli_overflow cli"
  "cli_last_was_cr (history_recall cli direction) = cli_last_was_cr cli"
  "cli_escape_state (history_recall cli direction) = cli_escape_state cli"
  "cli_line_is_raw (history_recall cli direction) = cli_line_is_raw cli"
  "cli_raw_line_prefix (history_recall cli direction) = cli_raw_line_prefix cli"
  "cli_prompt (history_recall cli direction) = cli_prompt cli"
  "cli_echo (history_recall cli direction) = cli_echo cli"
  "cli_enable_help (history_recall cli direction) = cli_enable_help cli"
  "cli_history_buffer (history_recall cli direction) = cli_history_buffer cli"
  "cli_history_entry_size (history_recall cli direction) = cli_history_entry_size cli"
  "cli_history_depth (history_recall cli direction) = cli_history_depth cli"
  "cli_history_head (history_recall cli direction) = cli_history_head cli"
  "cli_history_count (history_recall cli direction) = cli_history_count cli"
  "cli_initialised (history_recall cli direction) = cli_initialised cli"
  by (simp_all add: history_recall_def Let_def)

lemma cli_reset_line_fields [simp]:
  "cli_stream_write (cli_reset_line cli) = cli_stream_write cli"
  "cli_line_size (cli_reset_line cli) = cli_line_size cli"
  "cli_last_was_cr (cli_reset_line cli) = cli_last_was_cr cli"
  "cli_raw_line_prefix (cli_reset_line cli) = cli_raw_line_prefix cli"
  "cli_prompt (cli_reset_line cli) = cli_prompt cli"
  "cli_echo (cli_reset_line cli) = cli_echo cli"
  "cli_enable_help (cli_reset_line cli) = cli_enable_help cli"
  "cli_history_buffer (cli_reset_line cli) = cli_history_buffer cli"
  "cli_history_entry_size (cli_reset_line cli) = cli_history_entry_size cli"
  "cli_history_depth (cli_reset_line cli) = cli_history_depth cli"
  "cli_history_head (cli_reset_line cli) = cli_history_head cli"
  "cli_history_count (cli_reset_line cli) = cli_history_count cli"
  "cli_initialised (cli_reset_line cli) = cli_initialised cli"
  by (simp_all add: cli_reset_line_def Let_def)

lemma skip_separators_fields [simp]:
  "cli_stream_write (skip_separators cli) = cli_stream_write cli"
  "cli_line (skip_separators cli) = cli_line cli"
  "cli_line_size (skip_separators cli) = cli_line_size cli"
  "cli_line_len (skip_separators cli) = cli_line_len cli"
  "cli_edit_cursor (skip_separators cli) = cli_edit_cursor cli"
  "cli_overflow (skip_separators cli) = cli_overflow cli"
  "cli_last_was_cr (skip_separators cli) = cli_last_was_cr cli"
  "cli_escape_state (skip_separators cli) = cli_escape_state cli"
  "cli_line_is_raw (skip_separators cli) = cli_line_is_raw cli"
  "cli_raw_line_prefix (skip_separators cli) = cli_raw_line_prefix cli"
  "cli_prompt (skip_separators cli) = cli_prompt cli"
  "cli_echo (skip_separators cli) = cli_echo cli"
  "cli_enable_help (skip_separators cli) = cli_enable_help cli"
  "cli_history_buffer (skip_separators cli) = cli_history_buffer cli"
  "cli_history_entry_size (skip_separators cli) = cli_history_entry_size cli"
  "cli_history_depth (skip_separators cli) = cli_history_depth cli"
  "cli_history_head (skip_separators cli) = cli_history_head cli"
  "cli_history_count (skip_separators cli) = cli_history_count cli"
  "cli_history_cursor (skip_separators cli) = cli_history_cursor cli"
  "cli_initialised (skip_separators cli) = cli_initialised cli"
  by (simp_all add: skip_separators_def)

lemma cli_reset_line_clears [simp]:
  "cli_line_len (cli_reset_line cli) = 0" "cli_edit_cursor (cli_reset_line cli) = 0"
  "cli_parse_pos (cli_reset_line cli) = 0" "\<not> cli_overflow (cli_reset_line cli)"
  "\<not> cli_line_is_raw (cli_reset_line cli)" "cli_escape_state (cli_reset_line cli) = CLI_ESCAPE_NONE"
  "cli_history_cursor (cli_reset_line cli) = 0"
  "length (cli_line (cli_reset_line cli)) = length (cli_line cli)"
  by (simp_all add: cli_reset_line_def Let_def)

lemma history_cong:
  assumes "cli_history_buffer a = cli_history_buffer b" "cli_history_entry_size a = cli_history_entry_size b"
    "cli_history_depth a = cli_history_depth b" "cli_history_head a = cli_history_head b"
    "cli_history_count a = cli_history_count b"
  shows "history_list a = history_list b"
    and "cli_history_cursor a \<le> cli_history_count a \<Longrightarrow> history_ok b \<Longrightarrow> history_ok a"
  using assms by (simp_all add: history_list_def history_ok_def history_slot_def history_index_def history_text_def)

text \<open>Recalling a line puts it in the editor, cut to the room there is.\<close>

lemma history_recall_refines:
  assumes edit: "edit_ok cli" and hist: "history_ok cli" and depth: "0 < cli_history_depth cli"
    and nonempty: "0 < cli_history_count cli"
    and move: "if 0 < dir then cli_history_cursor cli < cli_history_count cli \<and> new = cli_history_cursor cli + 1
               else 0 < cli_history_cursor cli \<and> new = cli_history_cursor cli - 1"
  shows "edit_ok (history_recall cli dir) \<and> history_ok (history_recall cli dir)
    \<and> history_list (history_recall cli dir) = history_list cli
    \<and> cli_history_cursor (history_recall cli dir) = new
    \<and> editor_of (history_recall cli dir) =
        \<lparr>ed_before = (if new = 0 then [] else take (cli_line_size cli - 1) (history_list cli ! (new - 1))),
         ed_after = [], ed_lost = cli_overflow cli\<rparr>"
proof -
  let ?src = "if new = 0 then [] else c_str (history_slot cli (history_index cli (new - 1))) (cli_history_buffer cli)"
  let ?r = "(replace_line cli ?src (length ?src))\<lparr>cli_history_cursor := new\<rparr>"
  have new: "new \<le> cli_history_count cli" using move hist by (auto simp: history_ok_def split: if_splits)
  have run: "history_recall cli dir = ?r"
  proof (cases "new = 0")
    case False
    then have "history_index cli (new - 1) = (cli_history_head cli + cli_history_depth cli - new) mod cli_history_depth cli"
      by (simp add: history_index_def)
    with False move depth nonempty show ?thesis
      by (auto simp: history_recall_def Let_def split: if_splits)
  qed (use move depth nonempty in \<open>auto simp: history_recall_def Let_def split: if_splits\<close>)
  have eq: "editor_of ?r = editor_of (replace_line cli ?src (length ?src))"
      "edit_ok ?r = edit_ok (replace_line cli ?src (length ?src))"
    by (simp_all add: editor_of_def edit_ok_def)
  have "?src = (if new = 0 then [] else history_list cli ! (new - 1))"
    using new by (cases new) (simp_all add: history_list_def)
  then show ?thesis
    using replace_refines [OF edit order.refl, of ?src] new hist eq
      history_cong [of ?r cli] unfolding run by (auto simp: min_def)
qed

subsection \<open>The invariant\<close>

text \<open>\<open>cli_sound\<close>: every index is inside its buffer. The caller's code is handed the interpreter in
  this state and must leave it so, which the functions it may call do.\<close>

definition cli_sound :: "cli_t \<Rightarrow> bool" where
  "cli_sound cli \<longleftrightarrow> cli_initialised cli \<and> edit_ok cli \<and> history_ok cli"

definition env_ok :: "'w cli_env \<Rightarrow> bool" where
  "env_ok env \<longleftrightarrow>
     (\<forall>command \<in> set (env_commands env). \<forall>handler cli w.
        cmd_handler command = Some handler \<and> cli_sound cli \<longrightarrow> cli_sound (fst (snd (handler cli w))))
   \<and> (\<forall>filt cli str w. env_line_filter env = Some filt \<and> cli_sound cli \<longrightarrow>
        cli_sound (fst (snd (filt cli str w))))"

text \<open>Between characters the line being typed also contains no terminator.\<close>

definition cli_ok :: "cli_t \<Rightarrow> bool" where
  "cli_ok cli \<longleftrightarrow> cli_sound cli \<and> CHR 0x00 \<notin> set (ed_text (editor_of cli))"

lemma cli_sound_cong:
  assumes "cli_sound b" "cli_initialised a = cli_initialised b"
    "length (cli_line a) = length (cli_line b)" "cli_line_size a = cli_line_size b"
    "cli_line_len a = cli_line_len b" "cli_edit_cursor a = cli_edit_cursor b"
    "cli_history_buffer a = cli_history_buffer b" "cli_history_entry_size a = cli_history_entry_size b"
    "cli_history_depth a = cli_history_depth b" "cli_history_head a = cli_history_head b"
    "cli_history_count a = cli_history_count b" "cli_history_cursor a = cli_history_cursor b"
  shows "cli_sound a"
  using assms history_cong(2) [of a b] by (auto simp: cli_sound_def edit_ok_def history_ok_def)

lemma cli_sound_writes [simp]:
  "cli_sound (cli_write_bytes cli bytes) = cli_sound cli"
  "cli_sound (cli_write cli str) = cli_sound cli"
  "cli_sound (cli_printf cli bytes) = cli_sound cli"
  "cli_sound (cli_write_prompt cli) = cli_sound cli"
  "cli_sound (write_repeat n bytes cli) = cli_sound cli"
  by (auto intro: cli_sound_cong)

lemma cli_sound_updates [simp]:
  "cli_sound (cli\<lparr>cli_parse_pos := n\<rparr>) = cli_sound cli"
  "cli_sound (cli\<lparr>cli_line := (cli_line cli)[n := c]\<rparr>) = cli_sound cli"
  "cli_sound (cli\<lparr>cli_last_was_cr := b\<rparr>) = cli_sound cli"
  "cli_sound (cli\<lparr>cli_escape_state := x\<rparr>) = cli_sound cli"
  "cli_sound (cli\<lparr>cli_line_is_raw := b\<rparr>) = cli_sound cli"
  "cli_sound (cli\<lparr>cli_overflow := b\<rparr>) = cli_sound cli"
  "cli_sound (skip_separators cli) = cli_sound cli"
  by (auto intro: cli_sound_cong)

lemma cli_sound_print_help [simp]: "cli_sound (print_help env cli) = cli_sound cli"
proof -
  have "cli_sound (fold print_help_line cmds cli) = cli_sound cli" for cmds :: "'a cli_command_t list"
    by (induction cmds arbitrary: cli) (simp_all add: print_help_line_def split: option.split)
  then show ?thesis by (simp add: print_help_def Let_def)
qed

lemma cli_sound_next_token: "cli_sound cli \<Longrightarrow> cli_sound (snd (cli_next_token cli))"
  by (auto simp: cli_next_token_def Let_def intro: cli_sound_cong)

lemma cli_sound_args:
  assumes "cli_sound cli"
  shows "cli_sound (snd (cli_rest cli))" "cli_sound (snd (cli_args_exhausted cli))"
    "cli_sound (snd (cli_next_u32 cli))" "cli_sound (snd (cli_next_hex32 cli))"
    "cli_sound (snd (cli_next_i32 cli))"
  using assms cli_sound_next_token [OF assms]
  by (auto simp: cli_rest_def cli_args_exhausted_def cli_next_u32_def cli_next_hex32_def cli_next_i32_def
      Let_def split: prod.splits option.splits)

lemma cli_sound_reset: "cli_sound cli \<Longrightarrow> cli_ok (cli_reset_line cli)"
  by (auto simp: cli_ok_def cli_sound_def edit_ok_def ed_text_def editor_of_def history_ok_def
      history_text_def history_index_def)

lemma find_command_mem: "find_command env name = Some c \<Longrightarrow> c \<in> set (env_commands env)"
  by (auto simp: find_command_def find_Some_iff)

lemma run_command_sound:
  assumes env: "env_ok env" and sound: "cli_sound cli"
  shows "cli_sound (fst (run_command env cli w))"
proof -
  obtain at c where t: "cli_next_token cli = (at, c)" by fastforce
  have c: "cli_sound c" using cli_sound_next_token [OF sound] t by simp
  have handled: "cli_sound c'" if "find_command env name = Some command"
      "cmd_handler command = Some handler" "handler c w = (st, c', w')" for name command handler st c' w'
  proof -
    have "cli_sound (fst (snd (handler c w)))"
      using env find_command_mem [OF that(1)] that(2) c unfolding env_ok_def by blast
    with that(3) show ?thesis by simp
  qed
  show ?thesis
    using c handled by (auto simp: run_command_def t Let_def split: option.split prod.split)
qed

lemma execute_line_sound:
  assumes env: "env_ok env" and sound: "cli_sound cli"
  shows "cli_sound (fst (snd (execute_line env cli w)))"
proof -
  let ?c0 = "cli\<lparr>cli_line := (cli_line cli)[cli_line_len cli := CHR 0x00], cli_parse_pos := 0\<rparr>"
  obtain blank c1 where ex: "cli_args_exhausted ?c0 = (blank, c1)" by fastforce
  have s1: "cli_sound c1" using cli_sound_args(2) [of ?c0] sound ex by simp
  obtain claimed c2 w2 where f: "(case env_line_filter env of
      None \<Rightarrow> (False, c1\<lparr>cli_parse_pos := 0\<rparr>, w)
    | Some filt \<Rightarrow> filt (c1\<lparr>cli_parse_pos := 0\<rparr>) (c_str 0 (cli_line c1)) w) = (claimed, c2, w2)"
    by (rule prod_cases3)
  have s2: "cli_sound c2"
  proof (cases "env_line_filter env")
    case None
    with f s1 show ?thesis by auto
  next
    case (Some filt)
    with f have "filt (c1\<lparr>cli_parse_pos := 0\<rparr>) (c_str 0 (cli_line c1)) w = (claimed, c2, w2)" by simp
    moreover have "cli_sound (fst (snd (filt (c1\<lparr>cli_parse_pos := 0\<rparr>) (c_str 0 (cli_line c1)) w)))"
      using env Some s1 unfolding env_ok_def by simp
    ultimately show ?thesis by simp
  qed
  have "execute_line env cli w = (if blank then (False, c1, w)
      else if claimed then (True, c2, w2) else (False, run_command env c2 w2))"
    using ex f by (cases "env_line_filter env") (auto simp: execute_line_def Let_def)
  with s1 s2 run_command_sound [OF env s2, of w2] show ?thesis by simp
qed

lemma editing_sound:
  assumes "cli_sound cli"
  shows "cli_sound (insert_char_at_cursor cli c)" "cli_sound (handle_backspace cli)"
    "cli_sound (cursor_left cli)" "cli_sound (cursor_right cli)"
  using assms insert_refines [of cli c] backspace_refines [of cli] left_refines [of cli] right_refines [of cli]
    history_cong(2) [of "insert_char_at_cursor cli c" cli] history_cong(2) [of "handle_backspace cli" cli]
    history_cong(2) [of "cursor_left cli" cli] history_cong(2) [of "cursor_right cli" cli]
  by (auto simp: cli_sound_def history_ok_def)

lemma history_list_no_terminator: "l \<in> set (history_list cli) \<Longrightarrow> CHR 0x00 \<notin> set l"
  by (auto simp: history_list_def c_str_def dest: set_takeWhileD)

lemma history_recall_idle:
  assumes "\<not> (0 < cli_history_depth cli \<and> 0 < cli_history_count cli
    \<and> (if 0 < dir then cli_history_cursor cli < cli_history_count cli else 0 < cli_history_cursor cli))"
  shows "history_recall cli dir = cli"
  using assms by (auto simp: history_recall_def split: if_splits)

lemma history_recall_ok:
  assumes "cli_ok cli"
  shows "cli_ok (history_recall cli dir)"
proof (cases "0 < cli_history_depth cli \<and> 0 < cli_history_count cli
    \<and> (if 0 < dir then cli_history_cursor cli < cli_history_count cli else 0 < cli_history_cursor cli)")
  case False
  with history_recall_idle assms show ?thesis by metis
next
  case True
  define new where "new = (if 0 < dir then cli_history_cursor cli + 1 else cli_history_cursor cli - 1)"
  have le: "new \<noteq> 0 \<Longrightarrow> new - 1 < length (history_list cli)"
    using True assms by (auto simp: new_def history_list_def cli_ok_def cli_sound_def history_ok_def)
  then have "CHR 0x00 \<notin> set (if new = 0 then [] else history_list cli ! (new - 1))"
    using history_list_no_terminator [OF nth_mem, of "new - 1" cli] by auto
  then have nul: "CHR 0x00 \<notin> set (if new = 0 then [] else take (cli_line_size cli - 1) (history_list cli ! (new - 1)))"
    by (auto dest: in_set_takeD split: if_splits)
  have ok: "edit_ok cli" "history_ok cli" "cli_initialised cli" using assms by (auto simp: cli_ok_def cli_sound_def)
  note recall = history_recall_refines [OF ok(1,2), of dir new]
  from True recall have "edit_ok (history_recall cli dir)" "history_ok (history_recall cli dir)"
      "ed_text (editor_of (history_recall cli dir))
        = (if new = 0 then [] else take (cli_line_size cli - 1) (history_list cli ! (new - 1)))"
    by (auto simp: new_def ed_text_def split: if_splits)
  with ok nul show ?thesis by (simp add: cli_ok_def cli_sound_def)
qed

lemma ed_ops_set:
  "set (ed_text (ed_insert n c ed)) \<subseteq> insert c (set (ed_text ed))"
  "set (ed_text (ed_backspace ed)) \<subseteq> set (ed_text ed)"
  "set (ed_text (ed_left ed)) \<subseteq> set (ed_text ed)"
  "set (ed_text (ed_right ed)) \<subseteq> set (ed_text ed)"
  by (auto simp: ed_text_def ed_insert_def ed_backspace_def ed_left_def ed_right_def
      dest: in_set_butlastD split: list.splits)

lemma editing_ok:
  assumes "cli_ok cli"
  shows "c \<noteq> CHR 0x00 \<Longrightarrow> cli_ok (insert_char_at_cursor cli c)" "cli_ok (handle_backspace cli)"
    "cli_ok (cursor_left cli)" "cli_ok (cursor_right cli)"
proof -
  have ok: "edit_ok cli" "cli_sound cli" "CHR 0x00 \<notin> set (ed_text (editor_of cli))"
    using assms by (auto simp: cli_ok_def cli_sound_def)
  show "cli_ok (insert_char_at_cursor cli c)" if "c \<noteq> CHR 0x00"
    using that ok ed_ops_set(1) [of "cli_line_size cli - 1" c "editor_of cli"]
    by (auto simp: cli_ok_def editing_sound insert_refines)
  show "cli_ok (handle_backspace cli)" "cli_ok (cursor_left cli)" "cli_ok (cursor_right cli)"
    using ok ed_ops_set(2-4) [of "editor_of cli"]
    by (auto simp: cli_ok_def editing_sound backspace_refines left_refines right_refines)
qed

lemma cli_ok_updates [simp]:
  "cli_ok (cli\<lparr>cli_last_was_cr := b\<rparr>) = cli_ok cli"
  "cli_ok (cli\<lparr>cli_escape_state := x\<rparr>) = cli_ok cli"
  "cli_ok (cli\<lparr>cli_line_is_raw := b\<rparr>) = cli_ok cli"
  "cli_ok (cli_write cli str) = cli_ok cli"
  "cli_ok (cli_write_prompt cli) = cli_ok cli"
  by (simp_all add: cli_ok_def editor_of_def)

text \<open>The text of the line being typed, in the buffer.\<close>

lemma ed_text_line: "edit_ok cli \<Longrightarrow> ed_text (editor_of cli) = take (cli_line_len cli) (cli_line cli)"
  using chunk_append_chunk [of 0 "cli_edit_cursor cli" "cli_line cli" "cli_line_len cli - cli_edit_cursor cli"]
  by (simp add: ed_text_def editor_of_def edit_ok_def take_via_chunk)

lemma history_push_sound:
  assumes "cli_ok cli"
  shows "cli_sound (history_push cli (cli_line cli) (cli_line_len cli))"
proof (cases "0 < cli_history_depth cli")
  case True
  have "edit_ok cli" "cli_sound cli" using assms by (auto simp: cli_ok_def cli_sound_def)
  then have "CHR 0x00 \<notin> set (take (cli_line_len cli) (cli_line cli))"
    using assms ed_text_line by (simp add: cli_ok_def)
  with True \<open>cli_sound cli\<close> show ?thesis
    using history_push_refines [of cli "cli_line_len cli" "cli_line cli"]
    by (simp add: cli_sound_def edit_ok_def)
qed (use assms in \<open>simp add: history_push_def cli_ok_def\<close>)

lemma end_of_line_ok:
  assumes env: "env_ok env" and ok: "cli_ok cli"
  shows "cli_ok (fst (handle_end_of_line env cli w))"
proof -
  define d where "d = (if should_echo cli then cli_write cli (Some CRLF) else cli)"
  have d1: "cli_ok d" using ok by (simp add: d_def)
  then have d: "cli_ok d" "cli_sound d" by (simp_all add: cli_ok_def)
  define e where "e = (if \<not> cli_line_is_raw d then history_push d (cli_line d) (cli_line_len d) else d)"
  have e: "cli_sound e" using d history_push_sound by (simp add: e_def)
  define r where "r = (if cli_overflow d then (False, cli_write d (Some (''line too long'' @ CRLF)), w)
      else if 0 < cli_line_len d then execute_line env e w else (False, d, w))"
  have "cli_sound (fst (snd r))"
    using d e execute_line_sound [OF env e, of w] by (simp add: r_def)
  then have "cli_ok (cli_reset_line (fst (snd r)))" by (rule cli_sound_reset)
  moreover have "fst (handle_end_of_line env cli w) =
      (if fst r then cli_reset_line (fst (snd r)) else cli_write_prompt (cli_reset_line (fst (snd r))))"
    unfolding handle_end_of_line_def Let_def d_def [symmetric] e_def [symmetric] r_def [symmetric]
    by (cases r) simp
  ultimately show ?thesis by simp
qed

lemma feed_char_ok:
  assumes env: "env_ok env" and ok: "cli_ok cli"
  shows "cli_ok (fst (cli_feed_char env cli c w))"
proof -
  have esc: "cli_ok (handle_escape_letter d x)" if "cli_ok d" for d x
    using that editing_ok history_recall_ok by (simp add: handle_escape_letter_def)
  have "\<not> c < CHR '' '' \<Longrightarrow> c \<noteq> CHR 0x00" by auto
  then show ?thesis
    using ok esc end_of_line_ok [OF env] editing_ok
    by (auto simp: cli_feed_char_def Let_def)
qed

text \<open>A string of input characters.\<close>

fun cli_feed :: "'w cli_env \<Rightarrow> cli_t \<Rightarrow> string \<Rightarrow> 'w \<Rightarrow> cli_t \<times> 'w" where
  "cli_feed env cli [] w = (cli, w)"
| "cli_feed env cli (c # cs) w = (case cli_feed_char env cli c w of (cli, w) \<Rightarrow> cli_feed env cli cs w)"

lemma cli_feed_append:
  "cli_feed env cli (xs @ ys) w = (case cli_feed env cli xs w of (cli, w) \<Rightarrow> cli_feed env cli ys w)"
  by (induction env cli xs w rule: cli_feed.induct) (auto split: prod.splits)

lemma feed_ok: "env_ok env \<Longrightarrow> cli_ok cli \<Longrightarrow> cli_ok (fst (cli_feed env cli cs w))"
proof (induction cs arbitrary: cli w)
  case (Cons c cs)
  then show ?case using feed_char_ok [of env cli c w]
    by (cases "cli_feed_char env cli c w") auto
qed simp

lemma cli_init_ok:
  assumes "cli_init env0 cli0 (Some conf) = (CLI_INIT_OK, env, cli)"
  shows "cli_ok cli" and "env_commands env = take (conf_command_count conf)
      (case conf_commands conf of None \<Rightarrow> [] | Some cs \<Rightarrow> cs)"
    and "check_commands [] (env_commands env) = CLI_INIT_OK"
    and "env_line_filter env = conf_line_filter conf"
    and "cli_line_len cli = 0 \<and> cli_history_count cli = 0 \<and> \<not> cli_last_was_cr cli
      \<and> cli_echo cli = conf_echo conf \<and> cli_enable_help cli = conf_enable_help conf
      \<and> cli_raw_line_prefix cli = conf_raw_line_prefix conf"
proof -
  let ?hist = "conf_history_buffer conf" and ?es = "conf_history_entry_size conf"
  have hist: "?hist = Some h \<Longrightarrow> 2 \<le> ?es \<and> ?es \<le> length h" for h
    using assms by (auto simp: cli_init_def Let_def split: option.splits if_splits)
  obtain buf where buf: "conf_line_buffer conf = Some buf" "2 \<le> length buf"
    using assms by (auto simp: cli_init_def Let_def split: option.splits if_splits)
  let ?c = "cli_fresh conf buf (cli_out cli0)"
  have cli: "cli = cli_reset_line ?c"
    using assms buf by (auto simp: cli_init_def Let_def split: if_splits)
  have "cli_sound ?c"
    using buf hist by (auto simp: cli_sound_def edit_ok_def history_ok_def cli_fresh_def split: option.splits)
  then show "cli_ok cli" unfolding cli by (rule cli_sound_reset)
  show "cli_line_len cli = 0 \<and> cli_history_count cli = 0 \<and> \<not> cli_last_was_cr cli
      \<and> cli_echo cli = conf_echo conf \<and> cli_enable_help cli = conf_enable_help conf
      \<and> cli_raw_line_prefix cli = conf_raw_line_prefix conf"
    by (simp add: cli cli_fresh_def)
  show "env_commands env = take (conf_command_count conf) (case conf_commands conf of None \<Rightarrow> [] | Some cs \<Rightarrow> cs)"
    "env_line_filter env = conf_line_filter conf"
    "check_commands [] (env_commands env) = CLI_INIT_OK"
    using assms buf by (auto simp: cli_init_def Let_def split: if_splits)
qed

subsection \<open>Keys\<close>

datatype edit_key = Key_char char | Key_backspace | Key_delete | Key_left | Key_right

fun key_bytes :: "edit_key \<Rightarrow> string" where
  "key_bytes (Key_char c) = [c]"
| "key_bytes Key_backspace = [CHR 0x08]"
| "key_bytes Key_delete = [CHR 0x7F]"
| "key_bytes Key_left = [CHR 0x1B, CHR ''['', CHR ''D'']"
| "key_bytes Key_right = [CHR 0x1B, CHR ''['', CHR ''C'']"

text \<open>A character that is put into the line: neither a control character nor delete.\<close>

definition printable :: "char \<Rightarrow> bool" where
  "printable c \<longleftrightarrow> \<not> c < CHR '' '' \<and> c \<noteq> CHR 0x7F"

fun key_ok :: "edit_key \<Rightarrow> bool" where
  "key_ok (Key_char c) = printable c"
| "key_ok _ = True"

fun ed_key :: "nat \<Rightarrow> edit_key \<Rightarrow> editor \<Rightarrow> editor" where
  "ed_key room (Key_char c) ed = ed_insert room c ed"
| "ed_key room Key_backspace ed = ed_backspace ed"
| "ed_key room Key_delete ed = ed_backspace ed"
| "ed_key room Key_left ed = ed_left ed"
| "ed_key room Key_right ed = ed_right ed"

text \<open>Ready for the next key: no escape sequence is under way.\<close>

definition at_rest :: "cli_t \<Rightarrow> bool" where
  "at_rest cli \<longleftrightarrow> cli_initialised cli \<and> edit_ok cli \<and> cli_escape_state cli = CLI_ESCAPE_NONE"

lemma editor_of_updates [simp]:
  "editor_of (cli\<lparr>cli_last_was_cr := b\<rparr>) = editor_of cli"
  "editor_of (cli\<lparr>cli_escape_state := x\<rparr>) = editor_of cli"
  "editor_of (cli\<lparr>cli_line_is_raw := b\<rparr>) = editor_of cli"
  "edit_ok (cli\<lparr>cli_last_was_cr := b\<rparr>) = edit_ok cli"
  "edit_ok (cli\<lparr>cli_escape_state := x\<rparr>) = edit_ok cli"
  "edit_ok (cli\<lparr>cli_line_is_raw := b\<rparr>) = edit_ok cli"
  by (simp_all add: editor_of_def edit_ok_def)

lemma feed_key:
  assumes rest: "at_rest cli" and key: "key_ok k"
  shows "\<exists>cli'. cli_feed env cli (key_bytes k) w = (cli', w) \<and> at_rest cli'
    \<and> editor_of cli' = ed_key (cli_line_size cli - 1) k (editor_of cli)
    \<and> cli_line_size cli' = cli_line_size cli"
proof (cases k)
  case (Key_char c)
  then have c: "\<not> c < CHR '' ''" "c \<noteq> CHR 0x7F" "c \<noteq> CHR 0x0A" "c \<noteq> CHR 0x0D" "c \<noteq> CHR 0x1B" "c \<noteq> CHR 0x08"
    using key by (auto simp: printable_def)
  let ?c1 = "cli\<lparr>cli_last_was_cr := False\<rparr>"
  let ?c2 = "if cli_line_len ?c1 = 0 \<and> cli_raw_line_prefix ?c1 \<noteq> CHR 0x00 \<and> c = cli_raw_line_prefix ?c1
    then ?c1\<lparr>cli_line_is_raw := True\<rparr> else ?c1"
  have "cli_feed_char env cli c w = (insert_char_at_cursor ?c2 c, w)"
    using c rest by (simp add: cli_feed_char_def at_rest_def Let_def)
  moreover have "edit_ok ?c2" "editor_of ?c2 = editor_of cli" "cli_initialised ?c2"
      "cli_escape_state ?c2 = CLI_ESCAPE_NONE" "cli_line_size ?c2 = cli_line_size cli"
    using rest by (simp_all add: at_rest_def)
  ultimately show ?thesis
    using insert_refines [of ?c2 c] Key_char by (simp add: at_rest_def)
next
  case Key_backspace
  then show ?thesis
    using rest backspace_refines [of "cli\<lparr>cli_last_was_cr := False\<rparr>"]
    by (simp add: cli_feed_char_def at_rest_def Let_def)
next
  case Key_delete
  then show ?thesis
    using rest backspace_refines [of "cli\<lparr>cli_last_was_cr := False\<rparr>"]
    by (simp add: cli_feed_char_def at_rest_def Let_def)
next
  case Key_left
  then show ?thesis
    using rest left_refines [of "cli\<lparr>cli_last_was_cr := False, cli_escape_state := CLI_ESCAPE_NONE\<rparr>"]
    by (simp add: cli_feed_char_def at_rest_def Let_def handle_escape_letter_def)
next
  case Key_right
  then show ?thesis
    using rest right_refines [of "cli\<lparr>cli_last_was_cr := False, cli_escape_state := CLI_ESCAPE_NONE\<rparr>"]
    by (simp add: cli_feed_char_def at_rest_def Let_def handle_escape_letter_def)
qed

lemma cli_editing_refines_aux:
  assumes "at_rest cli" and "\<forall>k \<in> set keys. key_ok k"
  shows "\<exists>cli'. cli_feed env cli (concat (map key_bytes keys)) w = (cli', w) \<and> at_rest cli'
    \<and> editor_of cli' = fold (ed_key (cli_line_size cli - 1)) keys (editor_of cli)
    \<and> cli_line_size cli' = cli_line_size cli"
  using assms
proof (induction keys arbitrary: cli)
  case Nil
  then show ?case by simp
next
  case (Cons k keys)
  obtain c1 where one: "cli_feed env cli (key_bytes k) w = (c1, w)" "at_rest c1"
      "editor_of c1 = ed_key (cli_line_size cli - 1) k (editor_of cli)"
      "cli_line_size c1 = cli_line_size cli"
    using feed_key [OF Cons.prems(1), of k env w] Cons.prems(2) by auto
  with Cons.IH [of c1] Cons.prems(2) show ?case by (simp add: cli_feed_append)
qed

subsection \<open>Typing a line\<close>

lemma type_text:
  assumes "ed_after ed = []" and "length (ed_before ed) \<le> room"
  shows "fold (ed_key room) (map Key_char str) ed =
    (if length (ed_before ed) + length str \<le> room then ed\<lparr>ed_before := ed_before ed @ str\<rparr>
     else ed\<lparr>ed_before := ed_before ed @ take (room - length (ed_before ed)) str, ed_lost := True\<rparr>)"
  using assms
proof (induction str arbitrary: ed)
  case Nil
  then show ?case by simp
next
  case (Cons c str)
  show ?case
  proof (cases "room \<le> length (ed_before ed)")
    case True
    with Cons.IH [of "ed\<lparr>ed_lost := True\<rparr>"] Cons.prems show ?thesis by (simp add: ed_insert_def)
  next
    case False
    with Cons.IH [of "ed\<lparr>ed_before := ed_before ed @ [c]\<rparr>"] Cons.prems show ?thesis
      by (auto simp: ed_insert_def take_Cons' Suc_diff_le)
  qed
qed

text \<open>What \<open>execute_line\<close> sees: the terminated line, to be read from its start.\<close>

lemma terminated_line:
  assumes "cli_sound c" and "CHR 0x00 \<notin> set (take (cli_line_len c) (cli_line c))"
  defines "d \<equiv> c\<lparr>cli_line := (cli_line c)[cli_line_len c := CHR 0x00], cli_parse_pos := 0\<rparr>"
  shows "tokens_ok d" and "cli_remaining d = take (cli_line_len c) (cli_line c)"
proof -
  show rem: "cli_remaining d = take (cli_line_len c) (cli_line c)"
    by (simp add: d_def cli_remaining_def chunk_def)
  show "tokens_ok d"
    using assms(1,2) unfolding tokens_ok_def rem by (auto simp: d_def cli_sound_def edit_ok_def)
qed

lemma execute_line_command:
  assumes sound: "cli_sound c" and nul: "CHR 0x00 \<notin> set (take (cli_line_len c) (cli_line c))"
    and words: "words (take (cli_line_len c) (cli_line c)) = name # args"
    and filt: "env_line_filter env = None"
    and not_help: "\<not> (cli_enable_help c \<and> (equals_ignore_case name ''help'' \<or> equals_ignore_case name ''?''))"
    and found: "find_command env name = Some command" "cmd_handler command = Some handler"
  shows "\<exists>d. tokens_ok d \<and> words (cli_remaining d) = args \<and> snd (snd (execute_line env c w)) = snd (snd (handler d w))"
proof -
  let ?d = "c\<lparr>cli_line := (cli_line c)[cli_line_len c := CHR 0x00], cli_parse_pos := 0\<rparr>"
  note line = terminated_line [OF sound nul]
  note skip = skip_separators_remaining [OF line(1)]
  have wd: "words (cli_remaining ?d) = name # args" using words line(2) by simp
  have "dropWhile is_separator (cli_remaining ?d) \<noteq> []"
  proof
    assume "dropWhile is_separator (cli_remaining ?d) = []"
    then have "words (cli_remaining ?d) = []" by (subst words.simps) (simp only: list.case)
    with wd show False by simp
  qed
  then have "cli_remaining (skip_separators ?d) \<noteq> []" by (simp only: skip(1) not_False_eq_True)
  then have "\<not> cli_line_len (skip_separators ?d) \<le> cli_parse_pos (skip_separators ?d)"
    by (auto simp: cli_remaining_def)
  moreover have "cli_initialised ?d" using line(1) by (simp add: tokens_ok_def)
  ultimately have ex: "cli_args_exhausted ?d = (False, skip_separators ?d)"
    by (simp add: cli_args_exhausted_def Let_def)
  have unskip: "(skip_separators ?d)\<lparr>cli_parse_pos := 0\<rparr> = ?d" by (simp add: skip_separators_def)
  obtain p e where tok: "cli_next_token ?d = (Some p, e)" "c_str p (cli_line e) = name"
      "tokens_ok e" "words (cli_remaining e) = args"
    using cli_next_token_some [OF line(1) wd] by blast
  have helps: "cli_enable_help e = cli_enable_help c"
    using tok(1) by (auto simp: cli_next_token_def Let_def split: if_splits)
  have "execute_line env c w = (False, run_command env ?d w)"
    unfolding execute_line_def Let_def ex by (simp add: filt unskip)
  moreover have "snd (run_command env ?d w) = snd (snd (handler e w))"
    using not_help found by (simp add: run_command_def tok helps Let_def split: prod.split) blast
  ultimately show ?thesis using tok(3,4) by auto
qed

lemma concat_replicate_Suc: "concat (replicate (Suc n) xs) = concat (replicate n xs) @ xs"
  by (induction n) simp_all

text \<open>An interpreter with one command, for the examples: \<open>inc\<close> counts how often it ran.\<close>

definition counting :: "nat cli_command_t" where
  "counting = \<lparr>cmd_name = Some ''inc'', cmd_help = None, cmd_handler = Some (\<lambda>cli n. (CLI_OK, cli, Suc n))\<rparr>"

definition counting_env :: "nat cli_env" where
  "counting_env = \<lparr>env_commands = [counting], env_line_filter = None, env_stream_read = None\<rparr>"

definition counting_cli :: cli_t where
  "counting_cli = cli_reset_line (cli_fresh (plain_config [counting] 16 (Some (replicate 16 CHR 0x00))) (replicate 16 CHR 0x00) [])"

lemma counting_init:
  "cli_init counting_env (counting_cli\<lparr>cli_out := []\<rparr>) (Some (plain_config [counting] 16 (Some (replicate 16 CHR 0x00))))
    = (CLI_INIT_OK, counting_env, counting_cli)"
  by (simp add: cli_init_def plain_config_def counting_env_def counting_cli_def counting_def Let_def)

lemma counting_env_ok: "env_ok counting_env"
  by (simp add: env_ok_def counting_env_def counting_def)

lemma counting_ok: "cli_ok counting_cli"
  by (rule cli_init_ok(1) [OF counting_init])

subsection \<open>Properties\<close>

text \<open>C8: the line buffer implements the textbook editor. Whatever sequence of characters,
  backspaces and cursor keys is typed, in whatever order, the buffer, length and cursor
  represent exactly the text before and after the cursor that the abstract editor has, with a
  character refused and remembered as lost only when the line is full; nothing is executed
  and the caller's state is untouched.\<close>

theorem cli_editing_refines:
  assumes "at_rest cli" and "\<forall>k \<in> set keys. key_ok k"
  shows "\<exists>cli'. cli_feed env cli (concat (map key_bytes keys)) w = (cli', w) \<and> at_rest cli'
    \<and> editor_of cli' = fold (ed_key (cli_line_size cli - 1)) keys (editor_of cli)
    \<and> cli_line_size cli' = cli_line_size cli"
  by (rule cli_editing_refines_aux [OF assms])

theorem cli_editing_refines_witness:
  "\<exists>cli'. cli_feed (cli_env.make [] None None :: unit cli_env)
      (cli_fresh (plain_config ([] :: unit cli_command_t list) 8 None) (replicate 8 CHR 0x00) [])
      (concat (map key_bytes [Key_char CHR ''a'', Key_char CHR ''c'', Key_left, Key_char CHR ''b'', Key_right, Key_backspace])) ()
        = (cli', ())
     \<and> editor_of cli' = \<lparr>ed_before = ''ab'', ed_after = [], ed_lost = False\<rparr>"
proof -
  let ?c = "cli_fresh (plain_config ([] :: unit cli_command_t list) 8 None) (replicate 8 CHR 0x00) []"
  let ?keys = "[Key_char CHR ''a'', Key_char CHR ''c'', Key_left, Key_char CHR ''b'', Key_right, Key_backspace]"
  have "at_rest ?c" by (simp add: at_rest_def edit_ok_def cli_fresh_def plain_config_def)
  moreover have "\<forall>k \<in> set ?keys. key_ok k" by (simp add: printable_def)
  moreover have "editor_of ?c = \<lparr>ed_before = [], ed_after = [], ed_lost = False\<rparr>"
    by (simp add: editor_of_def cli_fresh_def plain_config_def)
  moreover have "cli_line_size ?c = 8" by (simp add: cli_fresh_def plain_config_def)
  moreover have "fold (ed_key 7) ?keys \<lparr>ed_before = [], ed_after = [], ed_lost = False\<rparr>
      = \<lparr>ed_before = ''ab'', ed_after = [], ed_lost = False\<rparr>"
    by (simp add: ed_insert_def ed_left_def ed_right_def ed_backspace_def)
  ultimately show ?thesis
    using cli_editing_refines [of ?c ?keys "cli_env.make [] None None" "()"] by auto
qed

text \<open>C7: the interpreter never indexes outside its buffers. From a successful \<open>cli_init\<close>, after
  any characters whatever, with any handlers and any filter that leave the interpreter sound,
  the line has room for its terminator, the cursor is within the line, and the history head,
  count and cursor are within the history, every stored line being terminated inside its slot.\<close>

theorem cli_stays_in_bounds:
  assumes "cli_init env0 cli0 (Some conf) = (CLI_INIT_OK, env, cli)" and "env_ok env"
  shows "cli_ok (fst (cli_feed env cli chars w))
    \<and> cli_line_len (fst (cli_feed env cli chars w)) < length (cli_line (fst (cli_feed env cli chars w)))
    \<and> cli_edit_cursor (fst (cli_feed env cli chars w)) \<le> cli_line_len (fst (cli_feed env cli chars w))"
  using feed_ok [OF assms(2) cli_init_ok(1) [OF assms(1)], of chars w]
  by (auto simp: cli_ok_def cli_sound_def edit_ok_def)

theorem cli_stays_in_bounds_witness:
  "cli_ok (fst (cli_feed counting_env counting_cli ''inc 7'' 0))"
  using cli_stays_in_bounds [OF counting_init counting_env_ok, of "''inc 7''" 0] by blast


text \<open>Letters count without their case: the comparison is equality of the upper-case texts in ASCII.\<close>

definition ascii_upper :: "char \<Rightarrow> char" where
  "ascii_upper c = (if 97 \<le> (of_char c :: nat) \<and> of_char c \<le> (122 :: nat) then char_of (of_char c - 32 :: nat) else c)"

lemma to_upper_ascii: "to_upper c = ascii_upper c"
  by (auto simp: to_upper_def ascii_upper_def less_eq_char_def)

lemma equals_ignore_case_iff: "equals_ignore_case a b \<longleftrightarrow> map ascii_upper a = map ascii_upper b"
  by (induction a b rule: equals_ignore_case.induct) (auto simp: to_upper_ascii)

text \<open>Every registered command can be reached. When \<open>cli_init\<close> accepts a table, looking up the
  name of any of its commands, in upper, lower or mixed case, finds that command and not
  another.\<close>

theorem cli_every_command_reachable:
  assumes "cli_init env0 cli0 (Some conf) = (CLI_INIT_OK, env, cli)"
    and "i < length (env_commands env)" and "cmd_name (env_commands env ! i) = Some name"
    and "equals_ignore_case typed name"
  shows "find_command env typed = Some (env_commands env ! i)"
proof -
  have unique: "\<not> equals_ignore_case name' (the (cmd_name (cs ! j)))"
    if "check_commands seen cs' = CLI_INIT_OK" "cs = seen @ cs'" "length seen \<le> k" "k < length cs"
      "cmd_name (cs ! k) = Some name'" "j < k" for seen cs cs' :: "'a cli_command_t list" and j k name'
    using that
  proof (induction seen cs' rule: check_commands.induct)
    case (1 seen)
    then show ?case by simp
  next
    case (2 seen c cs')
    then show ?case
      by (cases "k = length seen")
        (auto simp: nth_append list_ex_iff not_less_eq_eq less_Suc_eq split: option.splits if_splits)
  qed
  have sym: "equals_ignore_case a b \<longleftrightarrow> map ascii_upper a = map ascii_upper b" for a b
    by (rule equals_ignore_case_iff)
  have "check_commands [] (env_commands env) = CLI_INIT_OK" by (rule cli_init_ok(3) [OF assms(1)])
  then have "\<not> equals_ignore_case typed (the (cmd_name (env_commands env ! j)))" if "j < i" for j
    using unique [of "[]" "env_commands env" "env_commands env" i name j] that assms(2-4) by (simp add: sym)
  then show ?thesis
    using assms(2-4) by (auto simp: find_command_def find_Some_iff)
qed

theorem cli_every_command_reachable_witness:
  "find_command counting_env ''InC'' = Some counting"
proof -
  have "equals_ignore_case ''InC'' ''inc''" by code_simp
  with cli_every_command_reachable [OF counting_init, of 0 "''inc''" "''InC''"] show ?thesis
    by (simp add: counting_env_def) (simp add: counting_def)
qed


text \<open>C9: a line runs the command it names, with the rest of its words as arguments. When \<open>cli_init\<close> has accepted a
  table of commands and the typed text, wherever the cursor is, has the words \<open>name # args\<close>, where \<open>name\<close> is the name
  of the command at place \<open>i\<close> of the table in any mixture of upper and lower case, the end of the line calls the handler
  of that command, and no other, on the caller's state, and what the handler can read with \<open>cli_next_token\<close> is
  exactly \<open>args\<close>. The names \<open>help\<close> and \<open>?\<close> are the interpreter's own while its help is on; there is no line filter.\<close>

theorem cli_runs_named_command:
  assumes "cli_init env0 cli0 (Some conf) = (CLI_INIT_OK, env, made)"
    and "i < length (env_commands env)" and "cmd_name (env_commands env ! i) = Some cname"
    and "cmd_handler (env_commands env ! i) = Some handler"
    and "cli_ok cli" and "\<not> cli_overflow cli" and "words (ed_text (editor_of cli)) = name # args"
    and "map ascii_upper name = map ascii_upper cname"
    and "env_line_filter env = None"
    and "\<not> (cli_enable_help cli \<and> map ascii_upper name \<in> {''HELP'', ''?''})"
  shows "\<exists>d. tokens_ok d \<and> words (cli_remaining d) = args
    \<and> snd (cli_feed_char env cli CHR 0x0D w) = snd (snd (handler d w))"
proof -
  have found: "find_command env name = Some (env_commands env ! i)"
    by (rule cli_every_command_reachable [OF assms(1-3)]) (simp add: equals_ignore_case_iff assms(8))
  have "map ascii_upper ''help'' = ''HELP''" "map ascii_upper ''?'' = ''?''" by code_simp+
  then have no_help: "\<not> (cli_enable_help cli \<and> (equals_ignore_case name ''help'' \<or> equals_ignore_case name ''?''))"
    using assms(10) by (simp only: equals_ignore_case_iff insert_iff empty_iff simp_thms)
  let ?c0 = "cli\<lparr>cli_last_was_cr := True, cli_escape_state := CLI_ESCAPE_NONE\<rparr>"
  define c where "c = (if should_echo ?c0 then cli_write ?c0 (Some CRLF) else ?c0)"
  define d where "d = (if \<not> cli_line_is_raw c then history_push c (cli_line c) (cli_line_len c) else c)"
  have c: "cli_ok c" "\<not> cli_overflow c" "cli_line c = cli_line cli" "cli_line_len c = cli_line_len cli"
      "cli_enable_help c = cli_enable_help cli"
    using assms(5,6) by (simp_all add: c_def)
  have line: "ed_text (editor_of cli) = take (cli_line_len cli) (cli_line cli)"
    using assms(5) ed_text_line by (simp add: cli_ok_def cli_sound_def)
  have d: "cli_sound d" "cli_line d = cli_line cli" "cli_line_len d = cli_line_len cli"
      "cli_enable_help d = cli_enable_help cli"
    using c history_push_sound [OF c(1)] by (auto simp: d_def cli_ok_def)
  have "words [] = []" by (simp add: words.simps)
  then have nonempty: "0 < cli_line_len c" using assms(7) line c by (cases "cli_line_len cli") auto
  have "cli_feed_char env cli CHR 0x0D w = handle_end_of_line env ?c0 w"
    using assms(5) by (simp add: cli_feed_char_def cli_ok_def cli_sound_def)
  also have "snd \<dots> = snd (snd (execute_line env d w))"
    using c(2) nonempty unfolding handle_end_of_line_def Let_def c_def [symmetric] d_def [symmetric]
    by (simp split: prod.split)
  finally show ?thesis
    using execute_line_command [OF d(1) _ _ assms(9) _ found assms(4), of args w] assms(5,7) no_help line d(2-4)
    by (simp add: cli_ok_def)
qed

theorem cli_runs_named_command_witness:
  "snd (cli_feed_char counting_env
      (counting_cli\<lparr>cli_line := ''INc 7'' @ replicate 11 CHR 0x00, cli_line_len := 5, cli_edit_cursor := 3\<rparr>)
      CHR 0x0D 41) = 42"
proof -
  let ?c = "counting_cli\<lparr>cli_line := ''INc 7'' @ replicate 11 CHR 0x00, cli_line_len := 5, cli_edit_cursor := 3\<rparr>"
  have fields: "cli_initialised counting_cli" "cli_line_size counting_cli = 16" "\<not> cli_overflow counting_cli"
    by (simp_all add: counting_cli_def cli_fresh_def plain_config_def)
  have str: "ed_text (editor_of ?c) = ''INc 7''"
    by (simp add: ed_text_def editor_of_def chunk_def)
  have ok: "cli_ok ?c"
    using counting_ok fields unfolding cli_ok_def str
    by (auto simp: cli_sound_def edit_ok_def history_ok_def history_text_def history_index_def)
  have words: "words (ed_text (editor_of ?c)) = [''INc'', ''7'']"
    unfolding str by (simp add: words.simps is_separator_def CLI_SEPARATORS_def)
  have upper: "map ascii_upper ''INc'' = map ascii_upper ''inc''" "map ascii_upper ''INc'' \<notin> {''HELP'', ''?''}"
    by code_simp+
  have table: "0 < length (env_commands counting_env)" "cmd_name (env_commands counting_env ! 0) = Some ''inc''"
      "cmd_handler (env_commands counting_env ! 0) = Some (\<lambda>cli n. (CLI_OK, cli, Suc n))"
    by (simp_all add: counting_env_def counting_def)
  have filt: "env_line_filter counting_env = None" by (simp add: counting_env_def)
  have over: "\<not> cli_overflow ?c" using fields by simp
  show ?thesis
    using cli_runs_named_command [OF counting_init table ok over words upper(1) filt, of 41] upper(2) by auto
qed


text \<open>A line that does not fit is never run. Typing more characters than the buffer holds,
  followed by an end of line, calls neither the filter nor any handler (the caller's state is
  exactly what it was) and leaves an empty line ready for the next input.\<close>

theorem cli_overlong_line_not_run:
  assumes "at_rest cli" and "cli_line_len cli = 0" and "\<forall>c \<in> set str. printable c"
    and "cli_line_size cli \<le> length str"
  shows "\<exists>cli'. cli_feed env cli (str @ [CHR 0x0D]) w = (cli', w) \<and> at_rest cli'
    \<and> cli_line_len cli' = 0 \<and> \<not> cli_overflow cli'"
proof -
  have "concat (map key_bytes (map Key_char str)) = str" by (induction str) simp_all
  moreover have "\<forall>k \<in> set (map Key_char str). key_ok k" using assms(3) by auto
  ultimately obtain c where c: "cli_feed env cli str w = (c, w)" "at_rest c"
      "editor_of c = fold (ed_key (cli_line_size cli - 1)) (map Key_char str) (editor_of cli)"
    using cli_editing_refines_aux [OF assms(1), of "map Key_char str" env w] by auto
  have "ed_after (editor_of cli) = []" "ed_before (editor_of cli) = []"
    using assms(1,2) by (auto simp: editor_of_def at_rest_def edit_ok_def)
  then have lost: "cli_overflow c"
    using c(3) assms(1,2,4) type_text [of "editor_of cli" "cli_line_size cli - 1" str]
    by (auto simp: editor_of_def at_rest_def edit_ok_def split: if_splits)
  let ?c0 = "c\<lparr>cli_last_was_cr := True, cli_escape_state := CLI_ESCAPE_NONE\<rparr>"
  define d where "d = (if should_echo ?c0 then cli_write ?c0 (Some CRLF) else ?c0)"
  have d: "cli_overflow d" "cli_initialised d" "length (cli_line d) = cli_line_size d" "0 < cli_line_size d"
    using lost c(2) by (auto simp: d_def at_rest_def edit_ok_def)
  have "cli_feed_char env c CHR 0x0D w = handle_end_of_line env ?c0 w"
    using c(2) by (simp add: cli_feed_char_def at_rest_def)
  also have "\<dots> = (cli_write_prompt (cli_reset_line (cli_write d (Some (''line too long'' @ CRLF)))), w)"
    unfolding handle_end_of_line_def Let_def d_def [symmetric] using d(1) by simp
  finally show ?thesis
    using c(1) d by (simp add: cli_feed_append at_rest_def edit_ok_def)
qed

theorem cli_overlong_line_not_run_witness:
  "\<exists>cli'. cli_feed counting_env counting_cli (''inc inc inc inc inc'' @ [CHR 0x0D]) 7 = (cli', 7)
     \<and> cli_line_len cli' = 0"
proof -
  have "at_rest counting_cli" "cli_line_len counting_cli = 0" "cli_line_size counting_cli = 16"
    by (simp_all add: at_rest_def edit_ok_def counting_cli_def cli_fresh_def plain_config_def)
  with cli_overlong_line_not_run [of counting_cli "''inc inc inc inc inc''" counting_env 7]
  show ?thesis by (fastforce simp: printable_def)
qed

text \<open>The history is the list of the most recent lines. Pushing a line puts it in front, cut to
  its slot, and forgets the oldest when the history is full; pressing the up arrow \<open>k + 1\<close>
  times puts the \<open>k\<close>-th newest line into the editor, cut to the line buffer, with the cursor
  at its end, and runs nothing.\<close>

theorem cli_history_is_recent_lines:
  assumes "cli_ok cli" and "at_rest cli" and "0 < cli_history_depth cli"
    and "len \<le> length src" and "CHR 0x00 \<notin> set (take len src)"
    and "cli_history_cursor cli = 0" and "k < cli_history_count cli"
  shows "history_list (history_push cli src len) =
      take (cli_history_depth cli) (take (min len (cli_history_entry_size cli - 1)) src # history_list cli)
    \<and> (\<exists>cli'. cli_feed env cli (concat (replicate (Suc k) [CHR 0x1B, CHR ''['', CHR ''A''])) w = (cli', w)
        \<and> editor_of cli' = \<lparr>ed_before = take (cli_line_size cli - 1) (history_list cli ! k),
            ed_after = [], ed_lost = cli_overflow cli\<rparr>
        \<and> cli_history_cursor cli' = Suc k)"
proof (rule conjI)
  have ok: "history_ok cli" using assms(1) by (simp add: cli_ok_def cli_sound_def)
  show "history_list (history_push cli src len) =
      take (cli_history_depth cli) (take (min len (cli_history_entry_size cli - 1)) src # history_list cli)"
    using history_push_refines [OF ok assms(3-5)] by blast
  let ?up = "[CHR 0x1B, CHR ''['', CHR ''A'']"
  have step: "\<exists>c'. cli_feed env c ?up w = (c', w) \<and> cli_ok c' \<and> at_rest c' \<and> cli_history_depth c' = cli_history_depth c
      \<and> history_list c' = history_list c \<and> cli_history_count c' = cli_history_count c
      \<and> cli_line_size c' = cli_line_size c \<and> cli_overflow c' = cli_overflow c
      \<and> cli_history_cursor c' = cli_history_cursor c + 1
      \<and> editor_of c' = \<lparr>ed_before = take (cli_line_size c - 1) (history_list c ! cli_history_cursor c),
          ed_after = [], ed_lost = cli_overflow c\<rparr>"
    if "cli_ok c" "at_rest c" "0 < cli_history_depth c" "cli_history_cursor c < cli_history_count c" for c
  proof -
    let ?c = "c\<lparr>cli_last_was_cr := False, cli_escape_state := CLI_ESCAPE_NONE\<rparr>"
    have run: "cli_feed env c ?up w = (history_recall ?c 1, w)"
      using that(2) by (simp add: cli_feed_char_def at_rest_def handle_escape_letter_def Let_def)
    have h: "edit_ok ?c" "history_ok ?c" using that(1) history_cong(2) [of ?c c]
      by (auto simp: cli_ok_def cli_sound_def history_ok_def)
    have same: "history_list ?c = history_list c" by (rule history_cong) simp_all
    show ?thesis
      using history_recall_refines [OF h, of 1 "cli_history_cursor c + 1"] history_recall_ok [of ?c 1]
        that run same by (auto simp: at_rest_def)
  qed
  show "\<exists>cli'. cli_feed env cli (concat (replicate (Suc k) ?up)) w = (cli', w)
        \<and> editor_of cli' = \<lparr>ed_before = take (cli_line_size cli - 1) (history_list cli ! k),
            ed_after = [], ed_lost = cli_overflow cli\<rparr>
        \<and> cli_history_cursor cli' = Suc k"
  proof -
    have "\<exists>c. cli_feed env cli (concat (replicate j ?up)) w = (c, w) \<and> cli_ok c \<and> at_rest c
        \<and> cli_history_depth c = cli_history_depth cli \<and> history_list c = history_list cli
        \<and> cli_history_count c = cli_history_count cli \<and> cli_line_size c = cli_line_size cli
        \<and> cli_overflow c = cli_overflow cli \<and> cli_history_cursor c = j"
      if "j \<le> k" for j
      using that
    proof (induction j)
      case 0
      then show ?case using assms by simp
    next
      case (Suc j)
      then obtain c where c: "cli_feed env cli (concat (replicate j ?up)) w = (c, w)" "cli_ok c" "at_rest c"
        "cli_history_depth c = cli_history_depth cli" "history_list c = history_list cli"
        "cli_history_count c = cli_history_count cli" "cli_line_size c = cli_line_size cli"
        "cli_overflow c = cli_overflow cli" "cli_history_cursor c = j" by auto
      have rep: "concat (replicate (Suc j) ?up) = concat (replicate j ?up) @ ?up"
        by (rule concat_replicate_Suc)
      from step [of c] c Suc.prems assms(3,7) show ?case
        unfolding rep cli_feed_append c(1) by auto
    qed
    from this [OF order.refl] obtain c where c: "cli_feed env cli (concat (replicate k ?up)) w = (c, w)" "cli_ok c"
      "at_rest c" "cli_history_depth c = cli_history_depth cli" "history_list c = history_list cli"
      "cli_history_count c = cli_history_count cli" "cli_line_size c = cli_line_size cli"
      "cli_overflow c = cli_overflow cli" "cli_history_cursor c = k" by auto
    have rep: "concat (replicate (Suc k) ?up) = concat (replicate k ?up) @ ?up"
      by (rule concat_replicate_Suc)
    from step [of c] c assms(3,7) show ?thesis
      unfolding rep cli_feed_append c(1) by auto
  qed
qed

theorem cli_history_is_recent_lines_witness:
  "\<exists>cli cli'. history_list cli = [''inc 2'', ''inc 1'']
     \<and> cli_feed counting_env cli [CHR 0x1B, CHR ''['', CHR ''A'', CHR 0x1B, CHR ''['', CHR ''A''] 0 = (cli', 0)
     \<and> ed_before (editor_of cli') = ''inc 1''"
proof -
  let ?p = "history_push counting_cli ''inc 1'' 5"
  let ?c = "history_push ?p ''inc 2'' 5"
  have f: "cli_initialised counting_cli" "edit_ok counting_cli" "history_ok counting_cli"
      "cli_line_size counting_cli = 16" "\<not> cli_overflow counting_cli" "cli_history_depth counting_cli = 2"
      "cli_history_entry_size counting_cli = 8" "cli_history_count counting_cli = 0"
      "cli_history_cursor counting_cli = 0" "cli_escape_state counting_cli = CLI_ESCAPE_NONE"
      "cli_line_len counting_cli = 0"
    using counting_ok by (simp_all add: cli_ok_def cli_sound_def)
      (simp_all add: counting_cli_def cli_fresh_def plain_config_def)
  then have list0: "history_list counting_cli = []" by (simp add: history_list_def)
  note p0 = history_push_refines [OF f(3), of 5 "''inc 1''"]
  have h0: "history_ok ?p" "history_list ?p = [''inc 1'']" using p0 f list0 by simp_all
  note p1 = history_push_refines [OF h0(1), of 5 "''inc 2''"]
  have h1: "history_ok ?c" "history_list ?c = [''inc 2'', ''inc 1'']" using p1 f h0 by simp_all
  have n: "cli_history_count ?c = 2"
    using arg_cong [OF h1(2), where f = length] unfolding history_list_def by simp
  have e: "edit_ok ?c" "editor_of ?c = editor_of counting_cli" using f(2) by (simp_all add: edit_ok_def editor_of_def)
  have ok: "cli_ok ?c"
    using counting_ok e h1(1) f unfolding cli_ok_def cli_sound_def by simp
  have rest: "at_rest ?c" using e f by (simp add: at_rest_def)
  have side: "0 < cli_history_depth ?c" "cli_history_cursor ?c = 0" "1 < cli_history_count ?c" "cli_line_size ?c = 16"
    using f n by simp_all
  have bytes: "concat (replicate (Suc 1) [CHR 0x1B, CHR ''['', CHR ''A''])
      = [CHR 0x1B, CHR ''['', CHR ''A'', CHR 0x1B, CHR ''['', CHR ''A'']" by simp
  have nul: "CHR 0x00 \<notin> set (take 0 [])" by simp
  obtain cli' where run: "cli_feed counting_env ?c [CHR 0x1B, CHR ''['', CHR ''A'', CHR 0x1B, CHR ''['', CHR ''A''] 0 = (cli', 0)"
      "editor_of cli' = \<lparr>ed_before = take (cli_line_size ?c - 1) (history_list ?c ! 1), ed_after = [], ed_lost = cli_overflow ?c\<rparr>"
    using cli_history_is_recent_lines [OF ok rest side(1) le0 nul side(2,3), of counting_env 0] unfolding bytes by blast
  have "ed_before (editor_of cli') = ''inc 1''" unfolding run(2) h1(2) side(4) by simp
  with h1(2) run(1) show ?thesis by blast
qed

end
