(* ===== verification/Firmware_Service.thy ===== *)
theory Firmware_Service
  imports Firmware_Apply Firmware_Image Firmware_Receive Cli_Editor
begin

text \<open>
  Model of \<open>components/firmware_update/firmware_service\<close>: the line filter, the flash-backed page
  writer, the manifest and the commands \<open>fwbegin\<close>, \<open>fwstatus\<close>, \<open>fwverify\<close> and \<open>fwapply\<close>. The
  flash is a second component of the state, after the service, and the SDK below it is the
  parameter \<open>sdk\<close> of \<open>Flash_Storage\<close>. The pointer to the layout is the layout; the service's
  pointer to its CLI is set and never read, so it is left out. \<open>fwapply\<close> does not return when
  it installs: its result is then the flash the chip restarts from.
  The lemmas show that what is marked as verified is what staging holds, in every state that
  commands, lines and writes to other regions can reach, that only such an image is installed,
  and that an image uploaded and verified is the one the HEX file describes.
\<close>

abbreviation (input) IMAGE_BASE_ADDRESS :: u32 where "IMAGE_BASE_ADDRESS \<equiv> 0x10000000"
abbreviation (input) FIRMWARE_SERVICE_PROGRESS_INTERVAL :: u32 where
  "FIRMWARE_SERVICE_PROGRESS_INTERVAL \<equiv> 64"

record 'f firmware_service_t =
  svc_receive :: "'f firmware_receive_t"
  svc_layout :: flash_layout_t
  svc_receiving :: bool
  svc_verified :: bool
  svc_verified_crc32 :: u32
  svc_staged_from_manifest :: bool
  svc_records_since_progress :: u32
  svc_initialised :: bool

definition firmware_service_zero :: "'f firmware_service_t" where
  "firmware_service_zero =
     \<lparr>svc_receive = firmware_receive_zero, svc_layout = flash_layout_zero, svc_receiving = False,
      svc_verified = False, svc_verified_crc32 = 0, svc_staged_from_manifest = False,
      svc_records_since_progress = 0, svc_initialised = False\<rparr>"

subsection \<open>The manifest\<close>

definition manifest_write :: "'f flash_sdk \<Rightarrow> flash_layout_t \<Rightarrow> u32 \<Rightarrow> u32 \<Rightarrow> 'f \<Rightarrow> bool \<times> 'f" where
  "manifest_write sdk layout sz crc f =
     (case flash_storage_erase sdk (manifest layout) 0 (reg_size (manifest layout)) f of
        (erased, f) \<Rightarrow>
          if erased \<noteq> FLASH_STORAGE_OK then (False, f)
          else
            (case firmware_image_header_init header_zero sz crc IMAGE_BASE_ADDRESS crc of
               (made, header) \<Rightarrow>
                 if made \<noteq> FIRMWARE_IMAGE_OK then (False, f)
                 else
                   (let page = blit 0 (header_bytes header) (replicate 256 0xFF) in
                    case flash_storage_program_verified sdk (manifest layout) 0 (Some page) 256 f of
                      (written, f) \<Rightarrow> (written = FLASH_STORAGE_OK, f))))"

definition manifest_invalidate :: "'f flash_sdk \<Rightarrow> flash_layout_t \<Rightarrow> 'f \<Rightarrow> bool \<times> 'f" where
  "manifest_invalidate sdk layout f =
     (case flash_storage_erase sdk (manifest layout) 0 (reg_size (manifest layout)) f of
        (erased, f) \<Rightarrow> (erased = FLASH_STORAGE_OK, f))"

definition manifest_matches_staging ::
  "'f flash_sdk \<Rightarrow> flash_layout_t \<Rightarrow> 'f \<Rightarrow> firmware_image_header_t option" where
  "manifest_matches_staging sdk layout f =
     (case flash_storage_data sdk (manifest layout) 0 28 f of
        None \<Rightarrow> None
      | Some stored \<Rightarrow>
          (let header = header_of_bytes stored in
           if firmware_image_header_validate header \<noteq> FIRMWARE_IMAGE_OK then None
           else if reg_size (staging layout) < img_payload_size header then None
           else
             (let actual = flash_storage_crc32 sdk (staging layout) 0 (img_payload_size header) f in
              if firmware_image_verify_payload header actual \<noteq> FIRMWARE_IMAGE_OK then None
              else Some header)))"

subsection \<open>The page writer and initialisation\<close>

definition write_page :: "'f flash_sdk \<times> flash_layout_t \<Rightarrow> 'f page_writer" where
  "write_page ctx offset page sz f =
     (case flash_storage_program_verified (fst ctx) (staging (snd ctx)) offset (Some page) sz f of
        (written, f) \<Rightarrow> (written = FLASH_STORAGE_OK, f))"

definition firmware_service_init ::
  "'f flash_sdk \<Rightarrow> flash_layout_t \<Rightarrow> 'f \<Rightarrow> bool \<times> 'f firmware_service_t" where
  "firmware_service_init sdk layout f =
     (let service = firmware_service_zero\<lparr>svc_layout := layout\<rparr> in
      if reg_size (staging layout) = 0 then (False, service)
      else
        (let service = service\<lparr>svc_initialised := True\<rparr> in
         case manifest_matches_staging sdk layout f of
           None \<Rightarrow> (True, service)
         | Some staged \<Rightarrow>
             (True, service
               \<lparr>svc_receive := (svc_receive service)
                  \<lparr>rx_image_size := img_payload_size staged, rx_complete := True\<rparr>,
                svc_verified := True, svc_verified_crc32 := img_payload_crc32 staged,
                svc_staged_from_manifest := True\<rparr>)))"

subsection \<open>The line filter\<close>

definition firmware_service_line_filter ::
  "cli_t \<Rightarrow> string \<Rightarrow> 'f firmware_service_t \<times> 'f \<Rightarrow> bool \<times> cli_t \<times> 'f firmware_service_t \<times> 'f" where
  "firmware_service_line_filter cli line w =
     (case w of (service, f) \<Rightarrow>
        if \<not> svc_initialised service \<or> line = [] \<or> hd line \<noteq> CHR '':'' then (False, cli, service, f)
        else if \<not> svc_receiving service
        then (True, cli_write cli (Some (''no transfer in progress; send fwbegin first'' @ CRLF)), service, f)
        else
          (case firmware_receive_line (svc_receive service) (Some line) f of
             (result, rx, f) \<Rightarrow>
               (let service = service\<lparr>svc_receive := rx\<rparr> in
                if result = FIRMWARE_RECEIVE_OK
                then
                  (let service = service\<lparr>svc_records_since_progress := svc_records_since_progress service + 1\<rparr> in
                   if FIRMWARE_SERVICE_PROGRESS_INTERVAL \<le> svc_records_since_progress service
                   then (True,
                         cli_printf cli (''. '' @ show_nat (unat (firmware_receive_image_size rx)) @ '' bytes'' @ CRLF),
                         service\<lparr>svc_records_since_progress := 0\<rparr>, f)
                   else (True, cli, service, f))
                else if result = FIRMWARE_RECEIVE_COMPLETE
                then (True,
                      cli_printf cli (''received '' @ show_nat (unat (firmware_receive_image_size rx))
                        @ '' bytes in '' @ show_nat (unat (rx_records rx)) @ '' records'' @ CRLF),
                      service\<lparr>svc_receiving := False\<rparr>, f)
                else (True,
                      cli_printf cli (''transfer failed: '' @ firmware_receive_result_name result @ CRLF),
                      service\<lparr>svc_receiving := False\<rparr>, f))))"

subsection \<open>Commands\<close>

text \<open>The size argument of \<open>fwbegin\<close>: \<open>Inl\<close> the span to erase, \<open>Inr\<close> a size out of range.\<close>

definition begin_size :: "flash_layout_t \<Rightarrow> u32 option \<Rightarrow> u32 + unit" where
  "begin_size layout requested =
     (case requested of
        None \<Rightarrow> Inl (reg_size (staging layout))
      | Some n \<Rightarrow>
          if n = 0 \<or> reg_size (staging layout) < n then Inr ()
          else Inl (flash_round_up_to_sector n))"

definition cmd_begin ::
  "'f flash_sdk \<Rightarrow> cli_t \<Rightarrow> 'f firmware_service_t \<times> 'f \<Rightarrow> int \<times> cli_t \<times> 'f firmware_service_t \<times> 'f" where
  "cmd_begin sdk cli w =
     (case w of (service, f) \<Rightarrow>
        (let service = service\<lparr>svc_verified := False, svc_staged_from_manifest := False,
                               svc_records_since_progress := 0\<rparr>;
             layout = svc_layout service in
         case manifest_invalidate sdk layout f of
           (invalidated, f) \<Rightarrow>
             if \<not> invalidated
             then (CLI_ERR_FAILED, cli_write cli (Some (''could not clear the manifest'' @ CRLF)), service, f)
             else
               (case cli_next_u32 cli of
                  (requested, cli) \<Rightarrow>
                    (case begin_size layout requested of
                       Inr _ \<Rightarrow>
                         (CLI_ERR_RANGE,
                          cli_printf cli (''size must be 1 to '' @ show_nat (unat (reg_size (staging layout))) @ CRLF),
                          service, f)
                     | Inl erase_size \<Rightarrow>
                         (let cli = cli_printf cli (''erasing '' @ show_nat (unat (erase_size div 1024))
                                @ '' KiB of staging...'' @ CRLF) in
                          case flash_storage_erase sdk (staging layout) 0 erase_size f of
                            (erased, f) \<Rightarrow>
                              if erased \<noteq> FLASH_STORAGE_OK
                              then (CLI_ERR_FAILED,
                                    cli_printf cli (''erase failed: '' @ flash_storage_result_name erased @ CRLF),
                                    service, f)
                              else
                                (case firmware_receive_begin (svc_receive service)
                                        (Some \<lparr>cfg_base_address = IMAGE_BASE_ADDRESS,
                                               cfg_capacity = reg_size (staging layout),
                                               cfg_write_page = Some (write_page (sdk, layout))\<rparr>) of
                                   (begun, rx) \<Rightarrow>
                                     (let service = service\<lparr>svc_receive := rx\<rparr> in
                                      if begun \<noteq> FIRMWARE_RECEIVE_OK
                                      then (CLI_ERR_FAILED,
                                            cli_write cli (Some (''could not start the transfer'' @ CRLF)), service, f)
                                      else (CLI_OK,
                                            cli_write cli (Some (''ready, send the hex file'' @ CRLF)),
                                            service\<lparr>svc_receiving := True\<rparr>, f))))))))"

definition cmd_status ::
  "cli_t \<Rightarrow> 'f firmware_service_t \<times> 'f \<Rightarrow> int \<times> cli_t \<times> 'f firmware_service_t \<times> 'f" where
  "cmd_status cli w =
     (case w of (service, f) \<Rightarrow>
        (let rx = svc_receive service;
             num = (\<lambda>label n. label @ show_nat (unat n) @ CRLF);
             cli = cli_printf cli (''state      '' @
                     (if svc_receiving service then ''receiving''
                      else if firmware_receive_is_complete rx then ''complete'' else ''idle'') @ CRLF);
             cli = cli_printf cli (num ''records    '' (rx_records rx));
             cli = cli_printf cli (num ''bytes      '' (rx_bytes rx));
             cli = cli_printf cli (num ''image size '' (firmware_receive_image_size rx));
             cli = cli_printf cli (num ''pages      '' (rx_pages_written rx));
             cli = cli_printf cli (num ''capacity   '' (reg_size (staging (svc_layout service))));
             cli = cli_printf cli (''verified   '' @ (if svc_verified service then ''yes'' else ''no'')
                     @ (if svc_staged_from_manifest service then '' (staged before the last reboot)'' else [])
                     @ CRLF);
             cli = (if rx_error rx \<noteq> FIRMWARE_RECEIVE_OK
                    then cli_printf cli (''error      '' @ firmware_receive_result_name (rx_error rx) @ CRLF)
                    else cli)
         in (CLI_OK, cli, service, f)))"

definition cmd_verify ::
  "'f flash_sdk \<Rightarrow> cli_t \<Rightarrow> 'f firmware_service_t \<times> 'f \<Rightarrow> int \<times> cli_t \<times> 'f firmware_service_t \<times> 'f" where
  "cmd_verify sdk cli w =
     (case w of (service, f) \<Rightarrow>
        (case cli_next_hex32 cli of
           (None, cli) \<Rightarrow>
             (CLI_ERR_ARG, cli_write cli (Some (''usage: fwverify <crc32 of the image, hex>'' @ CRLF)), service, f)
         | (Some expected, cli) \<Rightarrow>
             if \<not> firmware_receive_is_complete (svc_receive service)
             then (CLI_ERR_STATE, cli_write cli (Some (''no complete image staged'' @ CRLF)), service, f)
             else
               (let sz = firmware_receive_image_size (svc_receive service);
                    actual = flash_storage_crc32 sdk (staging (svc_layout service)) 0 sz f;
                    cli = cli_printf cli (''staged '' @ show_nat (unat sz) @ '' bytes, crc 0x''
                            @ show_hex8 actual @ CRLF) in
                if actual \<noteq> expected
                then (CLI_ERR_FAILED,
                      cli_printf cli (''MISMATCH: expected 0x'' @ show_hex8 expected @ CRLF),
                      service\<lparr>svc_verified := False\<rparr>, f)
                else
                  (let service = service\<lparr>svc_verified := True, svc_verified_crc32 := actual\<rparr> in
                   case manifest_write sdk (svc_layout service) sz actual f of
                     (recorded, f) \<Rightarrow>
                       (CLI_OK,
                        cli_write cli (Some
                          (if recorded then ''verified and recorded'' @ CRLF
                           else ''verified, but the manifest could not be written; ''
                             @ ''installing will need a re-verify after a reboot'' @ CRLF)),
                        service, f)))))"

text \<open>\<open>Inr\<close>: the chip restarts with that flash.\<close>

definition cmd_apply ::
  "'f flash_sdk \<Rightarrow> cli_t \<Rightarrow> 'f firmware_service_t \<times> 'f
    \<Rightarrow> (int \<times> cli_t \<times> 'f firmware_service_t \<times> 'f) + 'f" where
  "cmd_apply sdk cli w =
     (case w of (service, f) \<Rightarrow>
        if \<not> svc_verified service
        then Inl (CLI_ERR_STATE, cli_write cli (Some (''refusing: run fwverify first'' @ CRLF)), service, f)
        else
          (let sz = firmware_receive_image_size (svc_receive service) in
           if sz = 0 \<or> reg_size (application (svc_layout service)) < sz
           then Inl (CLI_ERR_RANGE, cli_write cli (Some (''refusing: staged image does not fit'' @ CRLF)), service, f)
           else Inr (firmware_apply sdk (staging (svc_layout service)) (application (svc_layout service)) sz f)))"

text \<open>The table of a build without \<open>fwapply\<close>, which is the default.\<close>

definition firmware_service_commands ::
  "'f flash_sdk \<Rightarrow> nat \<Rightarrow> ('f firmware_service_t \<times> 'f) cli_command_t list" where
  "firmware_service_commands sdk capacity =
     take (min capacity 3)
       [\<lparr>cmd_name = Some ''fwbegin'', cmd_help = Some ''fwbegin [size] - erase staging, start a transfer'',
         cmd_handler = Some (cmd_begin sdk)\<rparr>,
        \<lparr>cmd_name = Some ''fwstatus'', cmd_help = Some ''how the transfer is going'',
         cmd_handler = Some cmd_status\<rparr>,
        \<lparr>cmd_name = Some ''fwverify'', cmd_help = Some ''fwverify <crc32> - check the staged image'',
         cmd_handler = Some (cmd_verify sdk)\<rparr>]"

subsection \<open>The chip below the service\<close>

text \<open>A layout as \<open>flash_layout_compute\<close> makes it, on a chip that behaves as documented.\<close>

definition layout_ok :: "'f flash_sdk \<Rightarrow> flash_layout_t \<Rightarrow> bool" where
  "layout_ok sdk l \<longleftrightarrow> flash_sdk_ok sdk \<and> chip_size sdk < 2 ^ 32
     \<and> reg_hi (application l) \<le> reg_lo (staging l) \<and> reg_hi (staging l) \<le> reg_lo (manifest l)
     \<and> reg_hi (manifest l) \<le> chip_size sdk
     \<and> 4096 dvd reg_lo (application l) \<and> 4096 dvd unat (reg_size (application l))
     \<and> 4096 dvd unat (reg_size (staging l))
     \<and> 28 \<le> unat (reg_size (manifest l)) \<and> 0 < unat (reg_size (staging l))"

lemma layout_regions:
  assumes "layout_ok sdk l"
  shows "usable sdk (application l)" "usable sdk (staging l)" "usable sdk (manifest l)"
    "copyable sdk (staging l) (application l)"
  using assms by (auto simp: layout_ok_def usable_def copyable_def reg_hi_def reg_lo_def)

definition staging_store :: "'f flash_sdk \<times> flash_layout_t \<Rightarrow> 'f \<Rightarrow> nat \<Rightarrow> u8" where
  "staging_store ctx f i =
     (if i < unat (reg_size (staging (snd ctx))) then xip (fst ctx) f (reg_lo (staging (snd ctx)) + i)
      else ERASED_BYTE)"

lemma write_page_verified:
  "write_page ctx off page n f = (True, f') \<Longrightarrow>
    flash_storage_program_verified (fst ctx) (staging (snd ctx)) off (Some page) n f = (FLASH_STORAGE_OK, f')"
  by (auto simp: write_page_def split: prod.splits)

text \<open>The flash-backed writer keeps the promises the receiver relies on.\<close>

interpretation pg: page_store "\<lambda>ctx. usable (fst ctx) (staging (snd ctx))" write_page staging_store
proof unfold_locales
  fix ctx :: "'f flash_sdk \<times> flash_layout_t" and page off f f' i
  let ?sdk = "fst ctx" and ?st = "staging (snd ctx)"
  assume good: "usable (fst ctx) (staging (snd ctx))" and len: "length page = PAGE_BYTES"
    and "write_page ctx off page 256 f = (True, f')"
  then have run: "flash_storage_program_verified ?sdk ?st off (Some page) 256 f = (FLASH_STORAGE_OK, f')"
    by (blast dest: write_page_verified)
  have n: "length page = unat (256 :: u32)" using len by simp
  note spec = flash_storage_program_verified_spec [OF good n run]
  have inside: "unat off + 256 \<le> unat (reg_size ?st)"
    using unat_absolute(2) [OF good spec(1) [OF refl]] by (simp add: reg_lo_def reg_hi_def)
  have span: "in_span ?st off (unat (256 :: u32)) (reg_lo ?st + i) \<longleftrightarrow> unat off \<le> i \<and> i < unat off + PAGE_BYTES"
    by (simp add: in_span_def)
  show "staging_store ctx f' i = page ! (i - unat off)" if "unat off \<le> i" "i < unat off + PAGE_BYTES"
    using that inside span spec(2) [OF refl] by (simp add: staging_store_def)
  show "staging_store ctx f' i = staging_store ctx f i" if "\<not> (unat off \<le> i \<and> i < unat off + PAGE_BYTES)"
    using that span spec(3) by (simp add: staging_store_def)
  show "staging_store ctx f i AND page ! (i - unat off) = page ! (i - unat off)"
    if "unat off \<le> i" "i < unat off + PAGE_BYTES"
    using that inside span program_verified_and [OF good n run, of "reg_lo ?st + i"] by (simp add: staging_store_def)
qed

text \<open>A checksum of a span of a region depends only on the region's bytes.\<close>

lemma flash_storage_crc32_cong:
  assumes "usable sdk r" and "\<And>i. reg_lo r \<le> i \<Longrightarrow> i < reg_hi r \<Longrightarrow> xip sdk f i = xip sdk g i"
  shows "flash_storage_crc32 sdk r off n f = flash_storage_crc32 sdk r off n g"
proof (cases "flash_region_contains r off n")
  case True
  note at = unat_absolute [OF assms(1) True]
  have "xip_bytes sdk f (reg_lo r + unat off) (unat n) = xip_bytes sdk g (reg_lo r + unat off) (unat n)"
    using at(2) by (intro xip_bytes_cong assms(2)) simp_all
  with True show ?thesis by (simp add: flash_storage_crc32_def flash_storage_data_eq [OF assms(1)])
qed (simp add: flash_storage_crc32_def flash_storage_data_eq [OF assms(1)])

lemma manifest_write_frame:
  assumes "layout_ok sdk l" and "manifest_write sdk l n crc f = (b, f')" and "i < reg_lo (manifest l) \<or> reg_hi (manifest l) \<le> i"
  shows "xip sdk f' i = xip sdk f i"
proof -
  note use = layout_regions(3) [OF assms(1)]
  obtain e g where er: "flash_storage_erase sdk (manifest l) 0 (reg_size (manifest l)) f = (e, g)" by fastforce
  have g: "xip sdk g i = xip sdk f i" by (rule fs.erase_outside [OF use er assms(3)])
  let ?header = "snd (firmware_image_header_init header_zero n crc IMAGE_BASE_ADDRESS crc)"
  let ?page = "blit 0 (header_bytes ?header) (replicate 256 0xFF) :: u8 list"
  obtain w h where pr: "flash_storage_program_verified sdk (manifest l) 0 (Some ?page) 256 g = (w, h)" by fastforce
  have "xip sdk h i = xip sdk g i"
    using fs.prog_outside [OF use _ pr] assms(3) by simp
  with assms(2) er pr g show ?thesis
    by (auto simp: manifest_write_def Let_def split: if_splits prod.splits)
qed

lemma manifest_invalidate_frame:
  assumes "layout_ok sdk l" and "manifest_invalidate sdk l f = (b, f')" and "i < reg_lo (manifest l) \<or> reg_hi (manifest l) \<le> i"
  shows "xip sdk f' i = xip sdk f i"
  using assms(2) fs.erase_outside [OF layout_regions(3) [OF assms(1)] _ assms(3)]
  by (auto simp: manifest_invalidate_def split: prod.splits)

lemma write_page_frame:
  assumes "layout_ok sdk l" and "length page = PAGE_BYTES" and "i < reg_lo (staging l) \<or> reg_hi (staging l) \<le> i"
  shows "xip sdk (snd (write_page (sdk, l) off page 256 f)) i = xip sdk f i"
proof -
  obtain e g where pr: "flash_storage_program_verified sdk (staging l) off (Some page) 256 f = (e, g)" by fastforce
  then show ?thesis
    using fs.prog_outside [OF layout_regions(2) [OF assms(1)] _ pr] assms(2,3) by (simp add: write_page_def)
qed

subsection \<open>The invariant\<close>

definition service_ok :: "'f flash_sdk \<Rightarrow> flash_layout_t \<Rightarrow> 'f firmware_service_t \<times> 'f \<Rightarrow> bool" where
  "service_ok sdk l w \<longleftrightarrow> (case w of (s, f) \<Rightarrow>
     svc_layout s = l
   \<and> (svc_receiving s \<longrightarrow> \<not> rx_complete (svc_receive s) \<and> \<not> svc_verified s \<and> paged (svc_receive s)
        \<and> rx_write_page (svc_receive s) = Some (write_page (sdk, l))
        \<and> rx_capacity (svc_receive s) = reg_size (staging l))
   \<and> (rx_complete (svc_receive s) \<longrightarrow> unat (rx_image_size (svc_receive s)) \<le> unat (reg_size (staging l)))
   \<and> (svc_verified s \<longrightarrow> rx_complete (svc_receive s)
        \<and> flash_storage_crc32 sdk (staging l) 0 (rx_image_size (svc_receive s)) f = svc_verified_crc32 s))"

lemma line_filter_ok:
  assumes l: "layout_ok sdk l" and inv: "service_ok sdk l (s, f)"
    and run: "firmware_service_line_filter cli line (s, f) = (claimed, cli', s', f')"
  shows "service_ok sdk l (s', f')"
proof (cases "svc_initialised s \<and> line \<noteq> [] \<and> hd line = CHR '':'' \<and> svc_receiving s")
  case False
  with inv run show ?thesis
    by (auto simp: firmware_service_line_filter_def split: if_splits)
next
  case True
  obtain e rx g where rcv: "firmware_receive_line (svc_receive s) (Some line) f = (e, rx, g)" by (rule prod_cases3)
  have pre: "\<not> rx_complete (svc_receive s)" "\<not> svc_verified s" "paged (svc_receive s)" "svc_layout s = l"
      "rx_write_page (svc_receive s) = Some (write_page (sdk, l))" "rx_capacity (svc_receive s) = reg_size (staging l)"
    using inv True by (auto simp: service_ok_def)
  have keep: "paged rx" "same_transfer (svc_receive s) rx"
    using receive_line_keeps [OF rcv pre(3), of "\<lambda>_. True"] by (auto simp: keeps_def)
  have complete: "rx_complete rx \<longrightarrow> e = FIRMWARE_RECEIVE_COMPLETE"
    using receive_line_complete [OF rcv pre(1)] .
  have filt: "firmware_service_line_filter cli line (s, f) = (claimed, cli', s', f') \<Longrightarrow>
      svc_receive s' = rx \<and> svc_layout s' = svc_layout s \<and> svc_verified s' = svc_verified s
      \<and> (svc_receiving s' \<longrightarrow> e = FIRMWARE_RECEIVE_OK)"
    using True rcv by (simp add: firmware_service_line_filter_def Let_def split: if_split_asm) auto
  with run have "svc_receive s' = rx" "svc_layout s' = svc_layout s" "svc_verified s' = svc_verified s"
      "svc_receiving s' \<Longrightarrow> e = FIRMWARE_RECEIVE_OK" by blast+
  then show ?thesis
    using keep complete pre by (auto simp: service_ok_def paged_def same_transfer_def)
qed

lemma cmd_verify_result:
  assumes "cmd_verify sdk cli (s, f) = (st, cli', s', f')"
  shows "s' = s \<and> f' = f
    \<or> s' = s\<lparr>svc_verified := False\<rparr> \<and> f' = f
    \<or> (\<exists>crc. rx_complete (svc_receive s) \<and> s' = s\<lparr>svc_verified := True, svc_verified_crc32 := crc\<rparr>
        \<and> crc = flash_storage_crc32 sdk (staging (svc_layout s)) 0 (rx_image_size (svc_receive s)) f
        \<and> st = CLI_OK
        \<and> (\<exists>b. manifest_write sdk (svc_layout s) (rx_image_size (svc_receive s)) crc f = (b, f')))"
proof -
  obtain x c where x: "cli_next_hex32 cli = (x, c)" by fastforce
  let ?crc = "flash_storage_crc32 sdk (staging (svc_layout s)) 0 (rx_image_size (svc_receive s)) f"
  obtain b g where m: "manifest_write sdk (svc_layout s) (rx_image_size (svc_receive s)) ?crc f = (b, g)" by fastforce
  show ?thesis
    using assms x m by (cases x)
      (auto simp: cmd_verify_def Let_def firmware_receive_image_size_def firmware_receive_is_complete_def
        split: if_split_asm)
qed

lemma cmd_verify_ok:
  assumes l: "layout_ok sdk l" and inv: "service_ok sdk l (s, f)"
    and run: "cmd_verify sdk cli (s, f) = (st, cli', s', f')"
  shows "service_ok sdk l (s', f')"
  using cmd_verify_result [OF run]
proof (elim disjE exE conjE)
  fix crc b
  assume s': "rx_complete (svc_receive s)" "s' = s\<lparr>svc_verified := True, svc_verified_crc32 := crc\<rparr>"
    and crc: "crc = flash_storage_crc32 sdk (staging (svc_layout s)) 0 (rx_image_size (svc_receive s)) f"
    and m: "manifest_write sdk (svc_layout s) (rx_image_size (svc_receive s)) crc f = (b, f')"
  have lay: "svc_layout s = l" using inv by (simp add: service_ok_def)
  have "reg_hi (staging l) \<le> reg_lo (manifest l)" using l by (simp add: layout_ok_def)
  then have "flash_storage_crc32 sdk (staging l) 0 (rx_image_size (svc_receive s)) f'
      = flash_storage_crc32 sdk (staging l) 0 (rx_image_size (svc_receive s)) f"
    using manifest_write_frame [OF l m [unfolded lay]]
    by (intro flash_storage_crc32_cong [OF layout_regions(2) [OF l]]) simp
  then show ?thesis using inv s' crc by (auto simp: service_ok_def)
qed (use inv in \<open>auto simp: service_ok_def\<close>)

text \<open>How \<open>fwbegin\<close> can end: refused, with the receiver as it was, or with a new transfer on
  erased staging.\<close>

lemma cmd_begin_result:
  assumes run: "cmd_begin sdk cli (s, f) = (st, cli', s', f')" and size: "reg_size (staging (svc_layout s)) \<noteq> 0"
  obtains (failed) g where "svc_layout s' = svc_layout s" "svc_receive s' = svc_receive s" "\<not> svc_verified s'"
      "svc_receiving s' = svc_receiving s" "st \<noteq> CLI_OK" "manifest_invalidate sdk (svc_layout s) f = (fst (manifest_invalidate sdk (svc_layout s) f), g)"
      "f' = g \<or> (\<exists>e n. flash_storage_erase sdk (staging (svc_layout s)) 0 n g = (e, f') \<and> e \<noteq> FLASH_STORAGE_OK)"
  | (started) g n where "svc_layout s' = svc_layout s" "\<not> svc_verified s'" "svc_receiving s'" "st = CLI_OK"
      "manifest_invalidate sdk (svc_layout s) f = (True, g)"
      "flash_storage_erase sdk (staging (svc_layout s)) 0 n g = (FLASH_STORAGE_OK, f')"
      "begin_size (svc_layout s) (fst (cli_next_u32 cli)) = Inl n"
      "firmware_receive_begin (svc_receive s) (Some \<lparr>cfg_base_address = IMAGE_BASE_ADDRESS,
        cfg_capacity = reg_size (staging (svc_layout s)),
        cfg_write_page = Some (write_page (sdk, svc_layout s))\<rparr>) = (FIRMWARE_RECEIVE_OK, svc_receive s')"
proof -
  let ?l = "svc_layout s"
  obtain b g where inv: "manifest_invalidate sdk ?l f = (b, g)" by fastforce
  obtain req c where req: "cli_next_u32 cli = (req, c)" by fastforce
  let ?cfg = "\<lparr>cfg_base_address = IMAGE_BASE_ADDRESS, cfg_capacity = reg_size (staging ?l),
        cfg_write_page = Some (write_page (sdk, ?l))\<rparr>"
  obtain rx where rx: "firmware_receive_begin (svc_receive s) (Some ?cfg) = (FIRMWARE_RECEIVE_OK, rx)"
    using size by (simp add: firmware_receive_begin_def)
  show ?thesis
  proof (cases "b = False \<or> begin_size ?l req = Inr ()")
    case True
    with run inv req show ?thesis
      by (intro failed [of g]) (auto simp: cmd_begin_def Let_def split: if_split_asm)
  next
    case False
    then obtain n where n: "begin_size ?l req = Inl n" by (cases "begin_size ?l req") auto
    obtain e h where er: "flash_storage_erase sdk (staging ?l) 0 n g = (e, h)" by fastforce
    show ?thesis
    proof (cases "e = FLASH_STORAGE_OK")
      case ok: True
      with False run inv req n er rx show ?thesis
        by (intro started [of g n]) (auto simp: cmd_begin_def Let_def)
    next
      case bad: False
      with False run inv req n er rx show ?thesis
        by (intro failed [of g]) (auto simp: cmd_begin_def Let_def)
    qed
  qed
qed

text \<open>The span of staging that \<open>fwbegin\<close> erases, and what staging holds then.\<close>

definition begin_span :: "flash_layout_t \<Rightarrow> u32 option \<Rightarrow> nat" where
  "begin_span l requested =
     (case requested of None \<Rightarrow> unat (reg_size (staging l)) | Some n \<Rightarrow> (unat n + 4095) div 4096 * 4096)"

lemma begun_span:
  assumes "layout_ok sdk l" and "begin_size l requested = Inl n"
  shows "unat n = begin_span l requested"
proof (cases requested)
  case None
  with assms(2) show ?thesis by (simp add: begin_size_def begin_span_def)
next
  case (Some r)
  obtain k where k: "unat (reg_size (staging l)) = 4096 * k" using assms(1) by (auto simp: layout_ok_def)
  then have "k < 1048576" using unat_u32_lt [of "reg_size (staging l)"] by simp
  then have "4096 * k + 4095 < 4294967296" by simp
  moreover have "unat r \<le> 4096 * k" "n = flash_round_up_to_sector r"
    using assms(2) Some k by (auto simp: begin_size_def word_less_nat_alt not_less split: if_splits)
  ultimately show ?thesis using flash_round_up_unat [of r] Some k \<open>k < 1048576\<close> by (simp add: begin_span_def)
qed

lemma begun_store:
  assumes "layout_ok sdk l" and "manifest_invalidate sdk l f0 = (True, g)"
    and "flash_storage_erase sdk (staging l) 0 n g = (FLASH_STORAGE_OK, f1)" and "begin_size l requested = Inl n"
    and "i < unat (reg_size (staging l))"
  shows "staging_store (sdk, l) f1 i = (if i < begin_span l requested then 0xFF else xip sdk f0 (reg_lo (staging l) + i))"
proof -
  have "reg_lo (staging l) + i < reg_lo (manifest l)"
    using assms(1,5) by (auto simp: layout_ok_def reg_hi_def reg_lo_def)
  then have "xip sdk g (reg_lo (staging l) + i) = xip sdk f0 (reg_lo (staging l) + i)"
    by (intro manifest_invalidate_frame [OF assms(1,2)]) simp
  moreover have "xip sdk f1 (reg_lo (staging l) + i) = (if i < unat n then 0xFF else xip sdk g (reg_lo (staging l) + i))"
    using flash_storage_erase_spec [OF layout_regions(2) [OF assms(1)] assms(3)] by (simp add: in_span_def)
  ultimately show ?thesis using assms(5) begun_span [OF assms(1,4)] by (simp add: staging_store_def)
qed

lemma cmd_begin_ok:
  assumes l: "layout_ok sdk l" and inv: "service_ok sdk l (s, f)"
    and run: "cmd_begin sdk cli (s, f) = (st, cli', s', f')"
  shows "service_ok sdk l (s', f')"
proof -
  have lay: "svc_layout s = l" using inv by (simp add: service_ok_def)
  then have "reg_size (staging (svc_layout s)) \<noteq> 0" using l by (auto simp: layout_ok_def)
  from run this show ?thesis
  proof (cases rule: cmd_begin_result)
    case failed
    with inv show ?thesis by (auto simp: service_ok_def)
  next
    case (started g n)
    note rx = receive_begin_ok(1-4) [OF started(8), unfolded lay, simplified]
    with started(1-3) lay show ?thesis by (simp add: service_ok_def)
  qed
qed

lemma manifest_matches_result:
  assumes "manifest_matches_staging sdk l f = Some h"
  shows "firmware_image_header_validate h = FIRMWARE_IMAGE_OK" "img_payload_size h \<le> reg_size (staging l)"
    "flash_storage_crc32 sdk (staging l) 0 (img_payload_size h) f = img_payload_crc32 h"
  using assms by (auto simp: manifest_matches_staging_def firmware_image_verify_payload_def Let_def
      split: option.splits if_splits)

lemma manifest_read:
  assumes "layout_ok sdk l"
  shows "flash_storage_data sdk (manifest l) 0 28 f = Some (xip_bytes sdk f (reg_lo (manifest l)) 28)"
  using assms by (simp add: flash_storage_data_eq [OF layout_regions(3)] flash_region_contains_iff layout_ok_def)

lemma init_ok:
  assumes "firmware_service_init sdk l f = (ok, s)"
  shows "service_ok sdk l (s, f)"
proof (cases "manifest_matches_staging sdk l f")
  case None
  with assms show ?thesis
    by (auto simp: firmware_service_init_def Let_def service_ok_def firmware_service_zero_def
        firmware_receive_zero_def split: if_splits)
next
  case (Some h)
  with assms manifest_matches_result [OF Some] show ?thesis
    by (auto simp: firmware_service_init_def Let_def service_ok_def firmware_service_zero_def
        firmware_receive_zero_def word_le_nat_alt split: if_splits)
qed

text \<open>What can happen to the service and the chip: a restart, its commands, a line offered to the
  filter, and a write by another component, which leaves staging alone.\<close>

inductive service_step :: "'f flash_sdk \<Rightarrow> flash_layout_t \<Rightarrow> 'f firmware_service_t \<times> 'f \<Rightarrow> 'f firmware_service_t \<times> 'f \<Rightarrow> bool"
  for sdk l where
  step_restart: "firmware_service_init sdk l f = (ok, s') \<Longrightarrow> service_step sdk l (s, f) (s', f)"
| step_begin: "cmd_begin sdk cli w = (st, cli', w') \<Longrightarrow> service_step sdk l w w'"
| step_line: "firmware_service_line_filter cli line w = (claimed, cli', w') \<Longrightarrow> service_step sdk l w w'"
| step_status: "cmd_status cli w = (st, cli', w') \<Longrightarrow> service_step sdk l w w'"
| step_verify: "cmd_verify sdk cli w = (st, cli', w') \<Longrightarrow> service_step sdk l w w'"
| step_other: "(\<And>i. reg_lo (staging l) \<le> i \<Longrightarrow> i < reg_hi (staging l) \<Longrightarrow> xip sdk f' i = xip sdk f i) \<Longrightarrow>
    service_step sdk l (s, f) (s, f')"

inductive service_reachable :: "'f flash_sdk \<Rightarrow> flash_layout_t \<Rightarrow> 'f firmware_service_t \<times> 'f \<Rightarrow> bool"
  for sdk l where
  reach_start: "firmware_service_init sdk l f = (ok, s) \<Longrightarrow> service_reachable sdk l (s, f)"
| reach_step: "service_reachable sdk l w \<Longrightarrow> service_step sdk l w w' \<Longrightarrow> service_reachable sdk l w'"

lemma service_step_ok:
  assumes "service_step sdk l w w'" and "layout_ok sdk l" and "service_ok sdk l w"
  shows "service_ok sdk l w'"
  using assms
proof (cases rule: service_step.cases)
  case (step_restart f ok s' s)
  with init_ok [OF step_restart(3)] show ?thesis by simp
next
  case (step_begin cli st cli')
  with assms(2,3) show ?thesis by (cases w; cases w') (auto intro: cmd_begin_ok)
next
  case (step_line cli line claimed cli')
  with assms(2,3) show ?thesis by (cases w; cases w') (auto intro: line_filter_ok)
next
  case (step_status cli st cli')
  with assms(3) show ?thesis by (cases w) (auto simp: cmd_status_def Let_def)
next
  case (step_verify cli st cli')
  with assms(2,3) show ?thesis by (cases w; cases w') (auto intro: cmd_verify_ok)
next
  case (step_other f' f s)
  have "flash_storage_crc32 sdk (staging l) 0 n f' = flash_storage_crc32 sdk (staging l) 0 n f" for n
    using step_other(3) by (intro flash_storage_crc32_cong [OF layout_regions(2) [OF assms(2)]]) simp
  with assms(3) step_other(1,2) show ?thesis by (auto simp: service_ok_def)
qed

lemma service_reachable_ok: "service_reachable sdk l w \<Longrightarrow> layout_ok sdk l \<Longrightarrow> service_ok sdk l w"
  by (induction rule: service_reachable.induct) (auto intro: init_ok service_step_ok)

text \<open>
  The same runs with the checksum that vouches for the staged image: the last one the sender gave to
  \<open>fwverify\<close> since the restart, and until then the one in a valid header the restart found in the manifest.
\<close>

definition manifest_records :: "'f flash_sdk \<Rightarrow> flash_layout_t \<Rightarrow> 'f \<Rightarrow> u32 option" where
  "manifest_records sdk l f =
     (let h = header_of_bytes (xip_bytes sdk f (reg_lo (manifest l)) 28) in
      if firmware_image_header_validate h = FIRMWARE_IMAGE_OK then Some (img_payload_crc32 h) else None)"

definition vouched_by :: "cli_t \<Rightarrow> u32 option \<Rightarrow> u32 option" where
  "vouched_by cli c = (case fst (cli_next_hex32 cli) of None \<Rightarrow> c | Some given \<Rightarrow> Some given)"

inductive service_vouched :: "'f flash_sdk \<Rightarrow> flash_layout_t \<Rightarrow> u32 option \<Rightarrow> 'f firmware_service_t \<times> 'f \<Rightarrow> bool"
  for sdk l where
  vouch_restart: "firmware_service_init sdk l f = (ok, s) \<Longrightarrow> service_vouched sdk l (manifest_records sdk l f) (s, f)"
| vouch_begin: "service_vouched sdk l c w \<Longrightarrow> cmd_begin sdk cli w = (st, cli', w') \<Longrightarrow> service_vouched sdk l c w'"
| vouch_line: "service_vouched sdk l c w \<Longrightarrow> firmware_service_line_filter cli line w = (claimed, cli', w') \<Longrightarrow>
    service_vouched sdk l c w'"
| vouch_status: "service_vouched sdk l c w \<Longrightarrow> cmd_status cli w = (st, cli', w') \<Longrightarrow> service_vouched sdk l c w'"
| vouch_verify: "service_vouched sdk l c w \<Longrightarrow> cmd_verify sdk cli w = (st, cli', w') \<Longrightarrow>
    service_vouched sdk l (vouched_by cli c) w'"
| vouch_other: "service_vouched sdk l c (s, f) \<Longrightarrow>
    (\<And>i. reg_lo (staging l) \<le> i \<Longrightarrow> i < reg_hi (staging l) \<Longrightarrow> xip sdk f' i = xip sdk f i) \<Longrightarrow>
    service_vouched sdk l c (s, f')"

text \<open>These are all the runs there are.\<close>

lemma service_vouched_reachable: "service_vouched sdk l c w \<Longrightarrow> service_reachable sdk l w"
  by (induction rule: service_vouched.induct)
    (blast intro: reach_start reach_step step_begin step_line step_status step_verify step_other)+

lemma service_reachable_vouched: "service_reachable sdk l w \<Longrightarrow> \<exists>c. service_vouched sdk l c w"
proof (induction rule: service_reachable.induct)
  case (reach_step w w')
  then obtain c where "service_vouched sdk l c w" by blast
  with reach_step(2) show ?case
    by (cases rule: service_step.cases)
      (blast intro: vouch_restart vouch_begin vouch_line vouch_status vouch_verify vouch_other)+
qed (blast intro: vouch_restart)

lemma init_vouched:
  assumes "layout_ok sdk l" and "firmware_service_init sdk l f = (ok, s)" and "svc_verified s"
  shows "manifest_records sdk l f = Some (svc_verified_crc32 s)"
proof -
  obtain h where h: "manifest_matches_staging sdk l f = Some h"
    using assms(2,3) by (cases "manifest_matches_staging sdk l f")
      (auto simp: firmware_service_init_def Let_def firmware_service_zero_def split: if_splits)
  then have "header_of_bytes (xip_bytes sdk f (reg_lo (manifest l)) 28) = h"
    using manifest_read [OF assms(1), of f] by (simp add: manifest_matches_staging_def Let_def split: if_splits)
  with assms(2,3) h manifest_matches_result(1) [OF h] show ?thesis
    by (auto simp: firmware_service_init_def Let_def firmware_service_zero_def manifest_records_def split: if_splits)
qed

lemma line_filter_verified:
  assumes "firmware_service_line_filter cli line (s, f) = (claimed, cli', s', f')"
  shows "svc_verified s' = svc_verified s \<and> svc_verified_crc32 s' = svc_verified_crc32 s"
  using assms by (auto simp: firmware_service_line_filter_def Let_def split: if_splits prod.splits)

lemma cmd_begin_verified: "cmd_begin sdk cli (s, f) = (st, cli', s', f') \<Longrightarrow> \<not> svc_verified s'"
  by (auto simp: cmd_begin_def Let_def split: prod.splits sum.splits if_splits)

lemma cmd_verify_vouched:
  assumes run: "cmd_verify sdk cli (s, f) = (st, cli', s', f')" and complete: "svc_verified s \<longrightarrow> rx_complete (svc_receive s)"
    and old: "svc_verified s \<longrightarrow> c = Some (svc_verified_crc32 s)" and new: "svc_verified s'"
  shows "vouched_by cli c = Some (svc_verified_crc32 s')"
proof (cases "cli_next_hex32 cli")
  case (Pair given rest)
  with assms show ?thesis
    by (cases given) (auto simp: cmd_verify_def Let_def vouched_by_def firmware_receive_is_complete_def
        split: if_splits prod.splits)
qed

lemma service_vouched_crc:
  assumes "service_vouched sdk l c w" and "layout_ok sdk l"
  shows "svc_verified (fst w) \<longrightarrow> c = Some (svc_verified_crc32 (fst w))"
  using assms(1)
proof (induction rule: service_vouched.induct)
  case (vouch_restart f ok s)
  with init_vouched [OF assms(2)] show ?case by simp
next
  case (vouch_begin c w cli st cli' w')
  then show ?case by (cases w; cases w') (auto dest: cmd_begin_verified)
next
  case (vouch_line c w cli line claimed cli' w')
  then show ?case by (cases w; cases w') (auto dest: line_filter_verified)
next
  case (vouch_status c w cli st cli' w')
  then show ?case by (cases w) (auto simp: cmd_status_def Let_def)
next
  case (vouch_verify c w cli st cli' w')
  have "service_ok sdk l w" by (rule service_reachable_ok [OF service_vouched_reachable [OF vouch_verify(1)] assms(2)])
  with vouch_verify show ?case
    by (cases w; cases w') (auto simp: service_ok_def intro: cmd_verify_vouched)
qed simp

lemma cmd_begin_initialised:
  "cmd_begin sdk cli (s, f) = (st, cli', s', f') \<Longrightarrow> svc_initialised s' = svc_initialised s"
  by (auto simp: cmd_begin_def Let_def split: prod.splits sum.splits if_splits)

subsection \<open>A transfer through the line filter\<close>

fun filter_lines :: "cli_t \<Rightarrow> string list \<Rightarrow> 'f firmware_service_t \<times> 'f \<Rightarrow> cli_t \<times> 'f firmware_service_t \<times> 'f" where
  "filter_lines cli [] w = (cli, w)"
| "filter_lines cli (line # lines) w =
     (case firmware_service_line_filter cli line w of (_, cli, w) \<Rightarrow> filter_lines cli lines w)"

lemma hex_writes_after_eof: "seen_eof p \<Longrightarrow> hex_writes p lines = []"
  by (cases lines) (auto split: prod.splits dest: hex_feed_seen_eof(1))

lemma filter_not_receiving:
  "\<not> svc_receiving s \<Longrightarrow> filter_lines cli lines (s, f) = (cli', s', f') \<Longrightarrow> s' = s \<and> f' = f"
proof (induction lines arbitrary: cli)
  case (Cons line lines)
  obtain b c v where one: "firmware_service_line_filter cli line (s, f) = (b, c, v)" by (rule prod_cases3)
  with Cons.prems(1) have "v = (s, f)"
    by (auto simp: firmware_service_line_filter_def split: if_splits)
  with one Cons show ?case by simp
qed simp

lemma line_filter_claims:
  assumes "svc_initialised s" "svc_receiving s" "line \<noteq> []" "hd line = CHR '':''"
    and "firmware_receive_line (svc_receive s) (Some line) f = (e, rx, g)"
    and "firmware_service_line_filter cli line (s, f) = (b, cli', s', f')"
  shows "svc_receive s' = rx \<and> f' = g \<and> svc_initialised s' \<and> (svc_receiving s' \<longleftrightarrow> e = FIRMWARE_RECEIVE_OK)"
  using assms by (simp add: firmware_service_line_filter_def Let_def split: if_split_asm) auto

lemma receive_line_ok_error:
  assumes "firmware_receive_line rx (Some line) w = (e, rx', w')" and "rx_started rx"
    and "rx_error rx = FIRMWARE_RECEIVE_OK" and "e = FIRMWARE_RECEIVE_OK"
  shows "rx_error rx' = FIRMWARE_RECEIVE_OK"
  using assms(1-3)
proof (cases rule: receive_line_cases)
  case (data p rec)
  with place_bytes_frame [OF data(3)] assms(3,4) show ?thesis by simp
next
  case (eof p rec f rx1)
  with assms(4) show ?thesis by (auto split: if_splits)
qed (use assms in auto)

lemma filter_lines_image:
  assumes good: "usable sdk (staging l)" and inv: "pg.receiving bg (sdk, l) (svc_receive s) f ws"
    and svc: "svc_initialised s" "svc_receiving s" "rx_error (svc_receive s) = FIRMWARE_RECEIVE_OK"
      "\<not> rx_complete (svc_receive s)"
    and lines: "\<forall>line \<in> set lines. line \<noteq> [] \<and> hd line = CHR '':''"
    and run: "filter_lines cli lines (s, f) = (cli', s', f')"
    and complete: "rx_complete (svc_receive s')"
  shows "pg.receiving bg (sdk, l) (svc_receive s') f' (ws @ hex_writes (rx_parser (svc_receive s)) lines)
    \<and> rx_base_address (svc_receive s') = rx_base_address (svc_receive s)"
  using inv svc lines run complete
proof (induction lines arbitrary: s f ws cli)
  case Nil
  then show ?case by simp
next
  case (Cons line lines)
  let ?rx = "svc_receive s"
  obtain e rx g where rcv: "firmware_receive_line ?rx (Some line) f = (e, rx, g)" by (rule prod_cases3)
  obtain fed p rec where feed: "hex_parser_feed (rx_parser ?rx) (Some line) hex_record_zero = (fed, p, rec)"
    by (rule prod_cases3)
  obtain b c s1 f1 where filt: "firmware_service_line_filter cli line (s, f) = (b, c, s1, f1)"
    by (metis prod_cases4)
  have one: "svc_receive s1 = rx" "f1 = g" "svc_initialised s1" "svc_receiving s1 \<longleftrightarrow> e = FIRMWARE_RECEIVE_OK"
    using line_filter_claims [OF Cons.prems(2,3) _ _ rcv filt] Cons.prems(6) by auto
  have good': "usable (fst (sdk, l)) (staging (snd (sdk, l)))" using good by simp
  note step = pg.receiving_line [OF good' Cons.prems(1,4) rcv feed]
  have rest: "filter_lines c lines (s1, g) = (cli', s', f')" using Cons.prems(7) filt one(2) by simp
  have started: "rx_started ?rx" using Cons.prems(1) by (simp add: pg.receiving_def)
  show ?case
  proof (cases "e = FIRMWARE_RECEIVE_OK")
    case True
    have "rx_error rx = FIRMWARE_RECEIVE_OK" by (rule receive_line_ok_error [OF rcv started Cons.prems(4) True])
    moreover have "\<not> rx_complete rx" using receive_line_complete [OF rcv Cons.prems(5)] True by auto
    ultimately show ?thesis
      using Cons.IH [of s1 g "ws @ (if fed = HEX_OK then record_writes rec else [])" c] one step True rest
        Cons.prems(6,8) feed by auto
  next
    case False
    then have same: "s' = s1" "f' = g" using filter_not_receiving [OF _ rest] one(4) by auto
    have comp: "rx_complete rx" using Cons.prems(8) same one(1) by simp
    then have "e = FIRMWARE_RECEIVE_COMPLETE" using receive_line_complete [OF rcv Cons.prems(5)] by simp
    have "seen_eof p" using step comp by (auto simp: pg.receiving_def)
    then show ?thesis
      using step same one(1) feed comp hex_writes_after_eof [of p lines] by (cases "fed = HEX_OK") auto
  qed
qed

subsection \<open>The manifest across a restart\<close>

lemma blank_manifest:
  assumes l: "layout_ok sdk l" and blank: "\<And>i. i < 28 \<Longrightarrow> xip sdk f (reg_lo (manifest l) + i) = 0xFF"
  shows "manifest_matches_staging sdk l f = None"
proof -
  have bytes: "xip_bytes sdk f (reg_lo (manifest l)) 28 = replicate 28 0xFF"
    by (rule nth_equalityI) (simp_all add: blank)
  have "img_magic (header_of_bytes (replicate 28 0xFF)) \<noteq> FIRMWARE_IMAGE_MAGIC"
    by (simp add: header_of_bytes_def chunk_def of_le32_def)
  then have "firmware_image_header_validate (header_of_bytes (replicate 28 0xFF)) \<noteq> FIRMWARE_IMAGE_OK"
    by (simp add: firmware_image_header_validate_def)
  then show ?thesis
    by (simp add: manifest_matches_staging_def manifest_read [OF l] bytes Let_def)
qed

lemma manifest_write_content:
  assumes l: "layout_ok sdk l" and run: "manifest_write sdk l n crc f = (True, f')"
  obtains h where "firmware_image_header_init header_zero n crc IMAGE_BASE_ADDRESS crc = (FIRMWARE_IMAGE_OK, h)"
    and "xip_bytes sdk f' (reg_lo (manifest l)) 28 = header_bytes h"
proof -
  note use = layout_regions(3) [OF l]
  obtain e g where er: "flash_storage_erase sdk (manifest l) 0 (reg_size (manifest l)) f = (e, g)" by fastforce
  obtain m h where made: "firmware_image_header_init header_zero n crc IMAGE_BASE_ADDRESS crc = (m, h)" by fastforce
  let ?page = "blit 0 (header_bytes h) (replicate 256 0xFF) :: u8 list"
  from run er made have ok: "m = FIRMWARE_IMAGE_OK"
    and pr: "flash_storage_program_verified sdk (manifest l) 0 (Some ?page) 256 g = (FLASH_STORAGE_OK, f')"
    by (auto simp: manifest_write_def Let_def split: if_splits prod.splits)
  have len: "length ?page = unat (256 :: u32)" by simp
  have "xip sdk f' (reg_lo (manifest l) + i) = header_bytes h ! i" if "i < 28" for i
    using that fs.prog_span [OF use len pr, of "reg_lo (manifest l) + i"]
    by (simp add: in_span_def nth_blit)
  then have "xip_bytes sdk f' (reg_lo (manifest l)) 28 = header_bytes h"
    by (intro nth_equalityI) simp_all
  with that made ok show ?thesis by blast
qed

lemma filter_lines_frame:
  assumes l: "layout_ok sdk l"
  shows "service_ok sdk l (s, f) \<Longrightarrow> filter_lines cli lines (s, f) = (cli', s', f') \<Longrightarrow>
    i < reg_lo (staging l) \<or> reg_hi (staging l) \<le> i \<Longrightarrow> xip sdk f' i = xip sdk f i"
proof (induction lines arbitrary: cli s f)
  case Nil
  then show ?case by simp
next
  case (Cons line lines)
  obtain b c s1 f1 where filt: "firmware_service_line_filter cli line (s, f) = (b, c, s1, f1)"
    by (metis prod_cases4)
  have "xip sdk f1 i = xip sdk f i"
  proof (cases "svc_initialised s \<and> line \<noteq> [] \<and> hd line = CHR '':'' \<and> svc_receiving s")
    case False
    with filt show ?thesis by (auto simp: firmware_service_line_filter_def split: if_splits)
  next
    case True
    obtain e rx g where rcv: "firmware_receive_line (svc_receive s) (Some line) f = (e, rx, g)" by (rule prod_cases3)
    have f1: "f1 = g" using line_filter_claims [OF _ _ _ _ rcv filt] True by blast
    have rx: "paged (svc_receive s)" "rx_write_page (svc_receive s) = Some (write_page (sdk, l))"
      using Cons.prems(1) True by (auto simp: service_ok_def)
    have "keeps (rx_write_page (svc_receive s)) (rx_capacity (svc_receive s)) (\<lambda>h. xip sdk h i = xip sdk f i)"
      using write_page_frame [OF l _ Cons.prems(3)] by (simp add: keeps_def rx(2))
    from receive_line_keeps [OF rcv rx(1) this] f1 show ?thesis by simp
  qed
  moreover have "service_ok sdk l (s1, f1)" by (rule line_filter_ok [OF l Cons.prems(1) filt])
  moreover have "filter_lines c lines (s1, f1) = (cli', s', f')" using Cons.prems(2) filt by simp
  ultimately show ?case using Cons.IH Cons.prems(3) by metis
qed

lemma manifest_recovered:
  assumes "layout_ok sdk l" and "n \<noteq> 0" and "n \<le> FIRMWARE_IMAGE_MAX_PAYLOAD" and "n \<le> reg_size (staging l)"
    and "flash_storage_crc32 sdk (staging l) 0 n f = crc"
    and "manifest_write sdk l n crc f = (True, f')"
    and "\<forall>i. reg_lo (staging l) \<le> i \<and> i < reg_hi (manifest l) \<longrightarrow> xip sdk f'' i = xip sdk f' i"
  shows "\<exists>s. firmware_service_init sdk l f'' = (True, s) \<and> svc_verified s \<and> svc_staged_from_manifest s
    \<and> firmware_receive_is_complete (svc_receive s) \<and> firmware_receive_image_size (svc_receive s) = n
    \<and> svc_verified_crc32 s = crc"
proof -
  obtain h where h: "firmware_image_header_init header_zero n crc IMAGE_BASE_ADDRESS crc = (FIRMWARE_IMAGE_OK, h)"
      "xip_bytes sdk f' (reg_lo (manifest l)) 28 = header_bytes h"
    by (rule manifest_write_content [OF assms(1,6)])
  obtain h' where "firmware_image_header_init header_zero n crc IMAGE_BASE_ADDRESS crc = (FIRMWARE_IMAGE_OK, h')"
      "firmware_image_header_validate h' = FIRMWARE_IMAGE_OK" "img_payload_size h' = n" "img_payload_crc32 h' = crc"
    by (rule header_init_total [OF assms(2,3)])
  with h have valid: "firmware_image_header_validate h = FIRMWARE_IMAGE_OK" "img_payload_size h = n"
      "img_payload_crc32 h = crc" by simp_all
  have order: "reg_hi (staging l) \<le> reg_lo (manifest l)" "28 \<le> unat (reg_size (manifest l))"
      "reg_size (staging l) \<noteq> 0"
    using assms(1) by (auto simp: layout_ok_def)
  have "xip_bytes sdk f'' (reg_lo (manifest l)) 28 = xip_bytes sdk f' (reg_lo (manifest l)) 28"
    using assms(7) order by (intro xip_bytes_cong) (auto simp: reg_hi_def reg_lo_def)
  then have bytes: "xip_bytes sdk f'' (reg_lo (manifest l)) 28 = header_bytes h" using h(2) by simp
  have "flash_storage_crc32 sdk (staging l) 0 n f'' = flash_storage_crc32 sdk (staging l) 0 n f"
  proof (rule flash_storage_crc32_cong [OF layout_regions(2) [OF assms(1)]])
    fix i assume i: "reg_lo (staging l) \<le> i" "i < reg_hi (staging l)"
    then have "xip sdk f' i = xip sdk f i"
      using manifest_write_frame [OF assms(1,6)] order by simp
    moreover have "i < reg_hi (manifest l)" using i order by (simp add: reg_hi_def reg_lo_def)
    ultimately show "xip sdk f'' i = xip sdk f i" using assms(7) i by simp
  qed
  then have "manifest_matches_staging sdk l f'' = Some h"
    using valid assms(4,5) by (simp add: manifest_matches_staging_def manifest_read [OF assms(1)] bytes Let_def
        firmware_image_verify_payload_def not_less)
  then show ?thesis
    using valid order by (simp add: firmware_service_init_def Let_def firmware_receive_is_complete_def
        firmware_receive_image_size_def)
qed

subsection \<open>A small chip for the examples\<close>

definition small_layout :: flash_layout_t where
  "small_layout = \<lparr>application = \<lparr>reg_offset = 0, reg_size = 0x1000\<rparr>,
     staging = \<lparr>reg_offset = 0x1000, reg_size = 0x1000\<rparr>,
     manifest = \<lparr>reg_offset = 0x2000, reg_size = 0x1000\<rparr>,
     data_region = \<lparr>reg_offset = 0x3000, reg_size = 0x1000\<rparr>\<rparr>"

lemma small_layout_ok: "layout_ok (nor_sdk None) small_layout"
proof -
  have chip: "chip_size (nor_sdk None) = 0x200000" by (simp add: nor_sdk_def)
  show ?thesis by (simp add: layout_ok_def nor_sdk_ok chip small_layout_def reg_lo_def reg_hi_def)
qed

lemma nor_erase_ok:
  assumes "r = staging small_layout \<or> r = manifest small_layout"
  obtains m' where "flash_storage_erase (nor_sdk None) r 0 (reg_size r) (m, []) = (FLASH_STORAGE_OK, (m', []))"
  using assms that
  by (auto simp: small_layout_def flash_storage_erase_def precheck_def flash_storage_holds_running_code_def
      flash_region_check_erase_def flash_region_contains_def flash_offset_is_sector_aligned_def
      nor_sdk_def Let_def)

lemma nor_manifest_write:
  assumes "n \<noteq> 0" and "n \<le> FIRMWARE_IMAGE_MAX_PAYLOAD"
  obtains f' where "manifest_write (nor_sdk None) small_layout n crc (m, []) = (True, f')"
proof -
  let ?r = "manifest small_layout" and ?s = "nor_sdk None"
  note use = layout_regions(3) [OF small_layout_ok]
  obtain g where e: "flash_storage_erase ?s ?r 0 (reg_size ?r) (m, []) = (FLASH_STORAGE_OK, (g, []))"
    using nor_erase_ok [of ?r m] by blast
  obtain h where h: "firmware_image_header_init header_zero n crc IMAGE_BASE_ADDRESS crc = (FIRMWARE_IMAGE_OK, h)"
    by (rule header_init_total [OF assms])
  let ?page = "blit 0 (header_bytes h) (replicate 256 0xFF) :: u8 list"
  have len: "length ?page = unat (256 :: u32)" by simp
  obtain k where p: "flash_storage_program ?s ?r 0 (Some ?page) 256 (g, []) = (FLASH_STORAGE_OK, k)"
    by (simp add: small_layout_def flash_storage_program_def precheck_def flash_storage_holds_running_code_def
        flash_region_check_program_def flash_region_contains_def flash_offset_is_page_aligned_def
        nor_sdk_def Let_def)
  have "xip ?s (g, []) i = 0xFF" if "in_span ?r 0 256 i" for i
    using that fs.erase_blank [OF use e, of i] by (simp add: in_span_def reg_lo_def small_layout_def)
  then have "flash_storage_program_verified ?s ?r 0 (Some ?page) 256 (g, []) = (FLASH_STORAGE_OK, k)"
    by (intro program_verified_blank_ok [OF use len p]) simp
  with e h have "manifest_write ?s small_layout n crc (m, []) = (True, k)"
    by (simp add: manifest_write_def Let_def)
  then show ?thesis by (rule that)
qed

lemma nor_sizes: "(4 :: u32) \<noteq> 0" "(4 :: u32) \<le> FIRMWARE_IMAGE_MAX_PAYLOAD"
    "(16 :: u32) \<noteq> 0" "(16 :: u32) \<le> FIRMWARE_IMAGE_MAX_PAYLOAD"
  by simp_all

lemma counting_next_u32: "fst (cli_next_u32 counting_cli) = None"
  by (simp add: cli_next_u32_def cli_next_token_def counting_cli_def skip_separators_def Let_def)

lemma nor_begin:
  assumes "svc_layout s = small_layout" and "begin_size small_layout (fst (cli_next_u32 cli)) = Inl 0x1000"
  obtains cli' s' m' where "cmd_begin (nor_sdk None) cli (s, (m, [])) = (CLI_OK, cli', s', (m', []))"
    and "svc_receiving s'" and "svc_initialised s' \<longleftrightarrow> svc_initialised s"
proof -
  obtain g where e1: "flash_storage_erase (nor_sdk None) (manifest small_layout) 0 (reg_size (manifest small_layout))
      (m, []) = (FLASH_STORAGE_OK, (g, []))"
    using nor_erase_ok [of "manifest small_layout" m] by blast
  have sz: "reg_size (staging small_layout) = 0x1000" by (simp add: small_layout_def)
  obtain h where e2: "flash_storage_erase (nor_sdk None) (staging small_layout) 0 0x1000
      (g, []) = (FLASH_STORAGE_OK, (h, []))"
    using nor_erase_ok [of "staging small_layout" g] unfolding sz by blast
  obtain rx where rx: "firmware_receive_begin (svc_receive s) (Some \<lparr>cfg_base_address = IMAGE_BASE_ADDRESS,
        cfg_capacity = reg_size (staging small_layout),
        cfg_write_page = Some (write_page (nor_sdk None, small_layout))\<rparr>) = (FIRMWARE_RECEIVE_OK, rx)"
    by (simp add: firmware_receive_begin_def small_layout_def)
  obtain req c where c: "cli_next_u32 cli = (req, c)" by fastforce
  show ?thesis
    using assms e1 e2 rx c
    by (intro that [where s' = "s\<lparr>svc_verified := False, svc_staged_from_manifest := False,
           svc_records_since_progress := 0, svc_receive := rx, svc_receiving := True\<rparr>"])
      (auto simp: cmd_begin_def Let_def manifest_invalidate_def)
qed

lemma counting_begin: "begin_size small_layout (fst (cli_next_u32 counting_cli)) = Inl 0x1000"
  by (simp add: begin_size_def counting_next_u32 small_layout_def)

lemma nor_begin_receive:
  assumes "cmd_begin (nor_sdk None) cli (s, f) = (CLI_OK, cli', s', f')"
    and "svc_layout s = small_layout"
  shows "rx_parser (svc_receive s') = hex_parser_reset" "rx_started (svc_receive s')"
    "rx_error (svc_receive s') = FIRMWARE_RECEIVE_OK" "\<not> rx_page_dirty (svc_receive s')"
proof -
  have "reg_size (staging (svc_layout s)) \<noteq> 0" using assms(2) by (simp add: small_layout_def)
  with assms(1) obtain c where c: "firmware_receive_begin (svc_receive s) (Some c) = (FIRMWARE_RECEIVE_OK, svc_receive s')"
    by (cases rule: cmd_begin_result) auto
  from begin_fields [OF c] show "rx_parser (svc_receive s') = hex_parser_reset" "\<not> rx_page_dirty (svc_receive s')"
    by simp_all
  from receive_begin_ok(6,7) [OF c] show "rx_started (svc_receive s')" "rx_error (svc_receive s') = FIRMWARE_RECEIVE_OK"
    by simp_all
qed

lemma eof_line:
  obtains p rec where "hex_parser_feed hex_parser_reset (Some '':00000001FF'') hex_record_zero = (HEX_OK, p, rec)"
    and "rec_type rec = HEX_RECORD_EOF"
proof -
  have line: "'':00000001FF'' = [] @ CHR '':'' # hex_encode (hex_frame HEX_RECORD_EOF 0 []) @ []"
    by code_simp
  have "hex_parser_feed hex_parser_reset (Some '':00000001FF'') hex_record_zero
      = (HEX_OK, hex_parser_reset\<lparr>seen_eof := True\<rparr>, framed_record HEX_RECORD_EOF [])"
    unfolding line by (subst hex_feed_frame) (simp_all add: hex_apply_frame hex_parser_reset_def Let_def)
  then show ?thesis by (rule that) (simp add: framed_record_def)
qed

lemma small_service:
  obtains s f where "service_reachable (nor_sdk None) small_layout (s, f)"
    and "firmware_service_init (nor_sdk None) small_layout f = (True, s)"
    and "f = (\<lambda>_. 0xFF, [])" and "svc_initialised s" and "svc_layout s = small_layout" and "\<not> svc_receiving s"
proof -
  let ?sdk = "nor_sdk None" and ?f = "(\<lambda>_. 0xFF, []) :: (nat \<Rightarrow> u8) \<times> bool list"
  have "manifest_matches_staging ?sdk small_layout ?f = None"
    by (rule blank_manifest [OF small_layout_ok]) (simp add: nor_sdk_def)
  then obtain s where s: "firmware_service_init ?sdk small_layout ?f = (True, s)" "svc_initialised s"
      "svc_layout s = small_layout" "\<not> svc_receiving s"
    by (simp add: firmware_service_init_def Let_def small_layout_def firmware_service_zero_def)
  with reach_start [OF s(1)] that show ?thesis by blast
qed

text \<open>A command line that gives the size 1, and a file of one byte.\<close>

definition sized_cli :: cli_t where
  "sized_cli = counting_cli\<lparr>cli_line := [CHR ''1'', CHR 0x00], cli_line_len := 1, cli_parse_pos := 0\<rparr>"

lemma sized_next_u32: "fst (cli_next_u32 sized_cli) = Some 1"
proof -
  have init: "cli_initialised counting_cli" by (simp add: counting_cli_def cli_fresh_def cli_reset_line_def)
  have "skip_from [CHR ''1'', CHR 0x00] 1 0 = 0" by (subst skip_from.simps) (simp add: is_separator_def CLI_SEPARATORS_def)
  moreover have "token_from [CHR ''1'', CHR 0x00] 1 0 = 1"
    by (subst token_from.simps, subst token_from.simps) (simp add: is_separator_def CLI_SEPARATORS_def)
  ultimately have "cli_next_token sized_cli = (Some 0, sized_cli\<lparr>cli_parse_pos := 1\<rparr>)"
    by (simp add: cli_next_token_def sized_cli_def skip_separators_def init Let_def)
  moreover have "hex_value (CHR ''1'') = Some 1" by code_simp
  ultimately show ?thesis
    by (simp add: cli_next_u32_def sized_cli_def c_str_def parse_u32_def word_le_nat_alt)
qed

lemma sized_begin: "begin_size small_layout (fst (cli_next_u32 sized_cli)) = Inl 0x1000"
  by (simp add: begin_size_def sized_next_u32 small_layout_def flash_round_up_to_sector_def)

lemma one_byte_file:
  obtains p r1 r2 p' r3 where "hex_parser_feed hex_parser_reset (Some '':020000041000EA'') hex_record_zero = (HEX_OK, p, r1)"
    and "rec_type r1 = HEX_RECORD_EXTENDED_LINEAR"
    and "hex_parser_feed p (Some '':010000002AD5'') hex_record_zero = (HEX_OK, p, r2)" and "rec_type r2 = HEX_RECORD_DATA"
    and "rec_address r2 = IMAGE_BASE_ADDRESS" and "take (unat (rec_length r2)) (rec_data r2) = [0x2A]"
    and "hex_parser_feed p (Some '':00000001FF'') hex_record_zero = (HEX_OK, p', r3)" and "rec_type r3 = HEX_RECORD_EOF"
proof -
  define p where "p = hex_parser_reset\<lparr>address_base := 0x10000000\<rparr>"
  have eof: "\<not> seen_eof p" by (simp add: p_def hex_parser_reset_def)
  have lines: "'':020000041000EA'' = [] @ CHR '':'' # hex_encode (hex_frame HEX_RECORD_EXTENDED_LINEAR 0 [0x10, 0x00]) @ []"
      "'':010000002AD5'' = [] @ CHR '':'' # hex_encode (hex_frame HEX_RECORD_DATA 0 [0x2A]) @ []"
      "'':00000001FF'' = [] @ CHR '':'' # hex_encode (hex_frame HEX_RECORD_EOF 0 []) @ []"
    by code_simp+
  show ?thesis
  proof (rule that [of p "framed_record HEX_RECORD_EXTENDED_LINEAR [0x10, 0x00]"
        "framed_record HEX_RECORD_DATA [0x2A]\<lparr>rec_address := IMAGE_BASE_ADDRESS\<rparr>" "p\<lparr>seen_eof := True\<rparr>"
        "framed_record HEX_RECORD_EOF []"])
    show "hex_parser_feed hex_parser_reset (Some '':020000041000EA'') hex_record_zero
        = (HEX_OK, p, framed_record HEX_RECORD_EXTENDED_LINEAR [0x10, 0x00])"
      unfolding lines(1) by (subst hex_feed_frame)
        (simp_all add: hex_apply_frame hex_parser_reset_def apply_extension_def framed_record_def blit_def p_def Let_def)
    show "hex_parser_feed p (Some '':010000002AD5'') hex_record_zero
        = (HEX_OK, p, framed_record HEX_RECORD_DATA [0x2A]\<lparr>rec_address := IMAGE_BASE_ADDRESS\<rparr>)"
      unfolding lines(2) by (subst hex_feed_frame) (simp_all add: hex_apply_frame eof Let_def, simp add: p_def)
    show "hex_parser_feed p (Some '':00000001FF'') hex_record_zero
        = (HEX_OK, p\<lparr>seen_eof := True\<rparr>, framed_record HEX_RECORD_EOF [])"
      unfolding lines(3) by (subst hex_feed_frame) (simp_all add: hex_apply_frame eof Let_def)
  qed (simp_all add: framed_record_def blit_def)
qed

lemma nor_begin_staging:
  assumes "cmd_begin (nor_sdk None) cli (s, f) = (CLI_OK, cli', s', f')" and "svc_layout s = small_layout"
    and "begin_size small_layout (fst (cli_next_u32 cli)) = Inl 0x1000" and "0x1000 \<le> i" and "i < 0x2000"
  shows "xip (nor_sdk None) f' i = 0xFF"
    and "rx_write_page (svc_receive s') = Some (write_page (nor_sdk None, small_layout))"
    and "rx_base_address (svc_receive s') = IMAGE_BASE_ADDRESS" and "rx_capacity (svc_receive s') = 0x1000"
    and "rx_image_size (svc_receive s') = 0"
proof -
  have "reg_size (staging (svc_layout s)) \<noteq> 0" using assms(2) by (simp add: small_layout_def)
  from assms(1) this have "xip (nor_sdk None) f' i = 0xFF
      \<and> firmware_receive_begin (svc_receive s) (Some \<lparr>cfg_base_address = IMAGE_BASE_ADDRESS,
        cfg_capacity = 0x1000, cfg_write_page = Some (write_page (nor_sdk None, small_layout))\<rparr>)
        = (FIRMWARE_RECEIVE_OK, svc_receive s')"
  proof (cases rule: cmd_begin_result)
    case failed
    then show ?thesis by simp
  next
    case (started g n)
    have n: "n = 0x1000" using started(7) assms(2,3) by simp
    have "in_span (staging small_layout) 0 (unat n) i"
      using assms(4,5) n by (simp add: in_span_def reg_lo_def small_layout_def)
    then have "xip (nor_sdk None) f' i = 0xFF"
      using flash_storage_erase_spec [OF layout_regions(2) [OF small_layout_ok] started(6) [unfolded assms(2)]] by simp
    with started(8) assms(2) show ?thesis by (simp add: small_layout_def)
  qed
  note begun = conjunct2 [OF this] and blank = conjunct1 [OF this]
  show "xip (nor_sdk None) f' i = 0xFF" by (rule blank)
  show "rx_write_page (svc_receive s') = Some (write_page (nor_sdk None, small_layout))"
    "rx_base_address (svc_receive s') = IMAGE_BASE_ADDRESS" "rx_capacity (svc_receive s') = 0x1000"
    "rx_image_size (svc_receive s') = 0"
    using receive_begin_ok(3,4,5) [OF begun] begin_fields [OF begun] by simp_all
qed

lemma nor_write_page:
  assumes "length page = 256" and "\<And>i. 0x1000 \<le> i \<Longrightarrow> i < 0x2000 \<Longrightarrow> xip (nor_sdk None) (m, []) i = 0xFF"
  obtains g where "write_page (nor_sdk None, small_layout) 0 page 256 (m, []) = (True, g)"
proof -
  let ?s = "nor_sdk None" and ?r = "staging small_layout"
  have len: "length page = unat (256 :: u32)" using assms(1) by simp
  obtain k where p: "flash_storage_program ?s ?r 0 (Some page) 256 (m, []) = (FLASH_STORAGE_OK, k)"
    by (simp add: small_layout_def flash_storage_program_def precheck_def flash_storage_holds_running_code_def
        flash_region_check_program_def flash_region_contains_def flash_offset_is_page_aligned_def
        nor_sdk_def Let_def)
  have "flash_storage_program_verified ?s ?r 0 (Some page) 256 (m, []) = (FLASH_STORAGE_OK, k)"
    by (rule program_verified_blank_ok [OF layout_regions(2) [OF small_layout_ok] len p])
      (simp add: assms(2) in_span_def reg_lo_def small_layout_def)
  then show ?thesis by (intro that [of k]) (simp add: write_page_def)
qed

subsection \<open>Properties\<close>

text \<open>C1: only an image that was checked is ever installed. In every state that restarts, commands,
  received lines and writes by other components can lead to, if \<open>fwapply\<close> installs, then the
  chip restarts with an application whose bytes are the staged ones and whose CRC-32 over the
  image size is the checksum the sender gave in the last \<open>fwverify\<close> that named one or, when there has been
  none since the restart, the one in the valid manifest the restart found; it is also the one recorded as verified, and
  everything past the application region is untouched.\<close>

theorem firmware_only_verified_installed:
  assumes "layout_ok sdk l" and "service_vouched sdk l vouched (s, f)" and "cmd_apply sdk cli (s, f) = Inr f'"
  shows "let n = unat (firmware_receive_image_size (svc_receive s)) in
    0 < n \<and> n \<le> unat (reg_size (application l))
    \<and> xip_bytes sdk f' (reg_lo (application l)) n = xip_bytes sdk f (reg_lo (staging l)) n
    \<and> vouched = Some (crc32 (Some (xip_bytes sdk f' (reg_lo (application l)) n)))
    \<and> svc_verified_crc32 s = crc32 (Some (xip_bytes sdk f' (reg_lo (application l)) n))
    \<and> (\<forall>i. reg_hi (application l) \<le> i \<longrightarrow> xip sdk f' i = xip sdk f i)"
proof -
  let ?n = "rx_image_size (svc_receive s)"
  have inv: "service_ok sdk l (s, f)" by (rule service_reachable_ok [OF service_vouched_reachable [OF assms(2)] assms(1)])
  from assms(3) inv have ap: "svc_verified s" "?n \<noteq> 0" "\<not> reg_size (application l) < ?n"
      "f' = firmware_apply sdk (staging l) (application l) ?n f"
    by (auto simp: cmd_apply_def Let_def firmware_receive_image_size_def service_ok_def split: if_splits)
  have fits: "unat ?n \<le> unat (reg_size (staging l))" "unat ?n \<le> unat (reg_size (application l))"
      "flash_storage_crc32 sdk (staging l) 0 ?n f = svc_verified_crc32 s"
    using inv ap by (auto simp: service_ok_def word_less_nat_alt not_less)
  have mult: "4096 dvd unat (reg_size (staging l))" using assms(1) by (simp add: layout_ok_def)
  note spec = firmware_apply_spec [OF layout_regions(4) [OF assms(1)] mult fits(1,2), of _ f, folded ap(4)]
  have same: "xip_bytes sdk f' (reg_lo (application l)) (unat ?n) = xip_bytes sdk f (reg_lo (staging l)) (unat ?n)"
    by (rule nth_equalityI) (simp_all add: spec(1))
  have "flash_storage_crc32 sdk (staging l) 0 ?n f = crc32 (Some (xip_bytes sdk f (reg_lo (staging l)) (unat ?n)))"
    using fits(1) assms(1)
    by (simp add: flash_storage_crc32_def flash_storage_data_eq [OF layout_regions(2) [OF assms(1)]]
        flash_region_contains_iff layout_ok_def)
  moreover have "0 < unat ?n" using ap(2) by (simp add: unat_gt_0)
  moreover have "vouched = Some (svc_verified_crc32 s)" using service_vouched_crc [OF assms(2,1)] ap(1) by simp
  ultimately show ?thesis
    using fits same spec(2) by (simp add: Let_def firmware_receive_image_size_def)
qed

theorem firmware_only_verified_installed_witness:
  "\<exists>c s f f'. service_vouched (nor_sdk None) small_layout (Some c) (s, f)
     \<and> cmd_apply (nor_sdk None) counting_cli (s, f) = Inr f'
     \<and> xip_bytes (nor_sdk None) f' 0 4 = xip_bytes (nor_sdk None) f 0x1000 4
     \<and> crc32 (Some (xip_bytes (nor_sdk None) f' 0 4)) = c"
proof -
  let ?sdk = "nor_sdk None" and ?l = small_layout
  obtain f where m: "manifest_write ?sdk ?l 4 (flash_storage_crc32 ?sdk (staging ?l) 0 4 (\<lambda>_. 5, [])) (\<lambda>_. 5, [])
      = (True, f)"
    using nor_manifest_write by (metis nor_sizes)
  have "\<exists>s. firmware_service_init ?sdk ?l f = (True, s) \<and> svc_verified s \<and> svc_staged_from_manifest s
      \<and> firmware_receive_is_complete (svc_receive s) \<and> firmware_receive_image_size (svc_receive s) = 4
      \<and> svc_verified_crc32 s = flash_storage_crc32 ?sdk (staging ?l) 0 4 (\<lambda>_. 5, [])"
    by (rule manifest_recovered [OF small_layout_ok _ _ _ refl m]) (simp_all add: small_layout_def)
  then obtain s where s: "firmware_service_init ?sdk ?l f = (True, s)" "svc_verified s"
      "firmware_receive_image_size (svc_receive s) = 4" by blast
  have reach: "service_vouched ?sdk ?l (Some (svc_verified_crc32 s)) (s, f)"
    using vouch_restart [OF s(1)] by (simp only: init_vouched [OF small_layout_ok s(1,2)])
  from service_reachable_ok [OF service_vouched_reachable [OF this] small_layout_ok] have "svc_layout s = ?l" by (simp add: service_ok_def)
  then obtain f' where ap: "cmd_apply ?sdk counting_cli (s, f) = Inr f'"
    using s by (simp add: cmd_apply_def small_layout_def)
  have lo: "reg_lo (application ?l) = 0" "reg_lo (staging ?l) = 0x1000"
    by (simp_all add: small_layout_def reg_lo_def)
  have "xip_bytes ?sdk f' (reg_lo (application ?l)) 4 = xip_bytes ?sdk f (reg_lo (staging ?l)) 4
      \<and> crc32 (Some (xip_bytes ?sdk f' (reg_lo (application ?l)) 4)) = svc_verified_crc32 s"
    using firmware_only_verified_installed [OF small_layout_ok reach ap] s(3) by (simp add: Let_def)
  with reach ap show ?thesis unfolding lo by blast
qed

text \<open>C4: a verified image survives a restart. Once the manifest has been written for an image of
  \<open>n\<close> bytes with the checksum staging has, then as long as nothing changes staging or the
  manifest, a restarted service presents the transfer as complete and verified, with that
  size and that checksum, and reports that it came from before the restart.\<close>

theorem firmware_manifest_survives_restart:
  assumes "layout_ok sdk l" and "n \<noteq> 0" and "n \<le> FIRMWARE_IMAGE_MAX_PAYLOAD" and "n \<le> reg_size (staging l)"
    and "flash_storage_crc32 sdk (staging l) 0 n f = crc"
    and "manifest_write sdk l n crc f = (True, f')"
    and "\<forall>i. reg_lo (staging l) \<le> i \<and> i < reg_hi (manifest l) \<longrightarrow> xip sdk f'' i = xip sdk f' i"
  shows "\<exists>s. firmware_service_init sdk l f'' = (True, s) \<and> svc_verified s \<and> svc_staged_from_manifest s
    \<and> firmware_receive_is_complete (svc_receive s) \<and> firmware_receive_image_size (svc_receive s) = n
    \<and> svc_verified_crc32 s = crc"
  by (rule manifest_recovered [OF assms])

theorem firmware_manifest_survives_restart_witness:
  "\<exists>f s. manifest_write (nor_sdk None) small_layout 16 (flash_storage_crc32 (nor_sdk None) (staging small_layout) 0 16
         (\<lambda>_. 5, [])) (\<lambda>_. 5, []) = (True, f)
     \<and> firmware_service_init (nor_sdk None) small_layout f = (True, s)
     \<and> svc_verified s \<and> firmware_receive_image_size (svc_receive s) = 16"
proof -
  let ?sdk = "nor_sdk None" and ?l = small_layout
  obtain f where m: "manifest_write ?sdk ?l 16 (flash_storage_crc32 ?sdk (staging ?l) 0 16 (\<lambda>_. 5, [])) (\<lambda>_. 5, [])
      = (True, f)"
    using nor_manifest_write by (metis nor_sizes)
  have "\<exists>s. firmware_service_init ?sdk ?l f = (True, s) \<and> svc_verified s \<and> svc_staged_from_manifest s
      \<and> firmware_receive_is_complete (svc_receive s) \<and> firmware_receive_image_size (svc_receive s) = 16
      \<and> svc_verified_crc32 s = flash_storage_crc32 ?sdk (staging ?l) 0 16 (\<lambda>_. 5, [])"
    by (rule firmware_manifest_survives_restart [OF small_layout_ok _ _ _ refl m]) (simp_all add: small_layout_def)
  with m show ?thesis by blast
qed

text \<open>C3: an interrupted upload is never taken for a finished one. After a successful \<open>fwbegin\<close> and
  any number of lines whatever, if power is then lost, the service that restarts on what the
  flash then holds has nothing verified, so \<open>fwapply\<close> refuses.\<close>

theorem firmware_interrupted_upload_refused:
  assumes "layout_ok sdk l" and "service_reachable sdk l (s0, f0)"
    and "cmd_begin sdk cli (s0, f0) = (CLI_OK, cli1, s1, f1)"
    and "filter_lines cli1 lines (s1, f1) = (cli2, s2, f2)"
    and "firmware_service_init sdk l f2 = (ok, s3)"
  shows "\<not> svc_verified s3 \<and> (\<exists>status cli'. cmd_apply sdk cli3 (s3, f2) = Inl (status, cli', s3, f2) \<and> status = CLI_ERR_STATE)"
proof -
  have inv0: "service_ok sdk l (s0, f0)" by (rule service_reachable_ok [OF assms(2,1)])
  then have lay: "svc_layout s0 = l" by (simp add: service_ok_def)
  have size: "reg_size (staging (svc_layout s0)) \<noteq> 0" using assms(1) by (auto simp: lay layout_ok_def)
  have order: "reg_hi (staging l) \<le> reg_lo (manifest l)" "28 \<le> unat (reg_size (manifest l))"
    using assms(1) by (auto simp: layout_ok_def)
  have inv1: "service_ok sdk l (s1, f1)" by (rule cmd_begin_ok [OF assms(1) inv0 assms(3)])
  have blank: "xip sdk f2 (reg_lo (manifest l) + i) = 0xFF" if i: "i < 28" for i
  proof -
    have "xip sdk f1 (reg_lo (manifest l) + i) = 0xFF"
      using assms(3) size
    proof (cases rule: cmd_begin_result)
      case failed
      then show ?thesis by simp
    next
      case (started g n)
      have er: "flash_storage_erase sdk (manifest l) 0 (reg_size (manifest l)) f0 = (FLASH_STORAGE_OK, g)"
        using started(5) by (auto simp: manifest_invalidate_def lay split: prod.splits)
      have "xip sdk g (reg_lo (manifest l) + i) = 0xFF"
        using i order by (intro fs.erase_blank [OF layout_regions(3) [OF assms(1)] er]) (simp add: in_span_def)
      moreover have "xip sdk f1 (reg_lo (manifest l) + i) = xip sdk g (reg_lo (manifest l) + i)"
        using order by (intro fs.erase_outside [OF layout_regions(2) [OF assms(1)] started(6) [unfolded lay]]) simp
      ultimately show ?thesis by simp
    qed
    moreover have "xip sdk f2 (reg_lo (manifest l) + i) = xip sdk f1 (reg_lo (manifest l) + i)"
      using order by (intro filter_lines_frame [OF assms(1) inv1 assms(4)]) simp
    ultimately show ?thesis by simp
  qed
  have "\<not> svc_verified s3"
    using assms(5) blank_manifest [OF assms(1) blank]
    by (auto simp: firmware_service_init_def Let_def firmware_service_zero_def split: if_splits)
  then show ?thesis by (simp add: cmd_apply_def)
qed

theorem firmware_interrupted_upload_refused_witness:
  "\<exists>s0 f0 cli1 s1 f1 cli2 s2 f2 ok s3. cmd_begin (nor_sdk None) counting_cli (s0, f0) = (CLI_OK, cli1, s1, f1)
     \<and> filter_lines cli1 ['':020000041000EA''] (s1, f1) = (cli2, s2, f2)
     \<and> firmware_service_init (nor_sdk None) small_layout f2 = (ok, s3)
     \<and> cmd_apply (nor_sdk None) counting_cli (s3, f2)
         = Inl (CLI_ERR_STATE, cli_write counting_cli (Some (''refusing: run fwverify first'' @ CRLF)), s3, f2)"
proof -
  let ?sdk = "nor_sdk None"
  obtain s0 f0 where s0: "service_reachable ?sdk small_layout (s0, f0)" "f0 = (\<lambda>_. 0xFF, [])"
      "svc_layout s0 = small_layout"
    by (rule small_service)
  obtain cli1 s1 m1 where b: "cmd_begin ?sdk counting_cli (s0, (\<lambda>_. 0xFF, [])) = (CLI_OK, cli1, s1, (m1, []))"
    by (rule nor_begin [OF s0(3) counting_begin])
  obtain cli2 s2 f2 where r: "filter_lines cli1 ['':020000041000EA''] (s1, (m1, [])) = (cli2, s2, f2)"
    by (rule prod_cases3)
  obtain ok s3 where i: "firmware_service_init ?sdk small_layout f2 = (ok, s3)" by (rule prod.exhaust)
  have "\<not> svc_verified s3"
    using firmware_interrupted_upload_refused [OF small_layout_ok s0(1) b [folded s0(2)] r i] by blast
  then have "cmd_apply ?sdk counting_cli (s3, f2)
      = Inl (CLI_ERR_STATE, cli_write counting_cli (Some (''refusing: run fwverify first'' @ CRLF)), s3, f2)"
    by (simp add: cmd_apply_def)
  with b r i show ?thesis by blast
qed

text \<open>C2: what is staged is what the HEX file says. When \<open>fwbegin\<close>, with or without a size, has succeeded and
  the lines of a file, all claimed by the filter, have been received to completion, the
  staging region holds, at every offset, the last byte the file gives for that address, whatever the order of its
  records; where the file says nothing it holds 0xFF inside the span that was erased (the whole region, or the size
  given, rounded up to a sector) and what it held before outside it. The image size is one past the highest
  address written.\<close>

theorem firmware_staging_holds_hex_image:
  assumes "layout_ok sdk l" and "service_reachable sdk l (s0, f0)" and "svc_initialised s0"
    and "cmd_begin sdk cli (s0, f0) = (CLI_OK, cli1, s1, f1)"
    and "\<forall>line \<in> set lines. line \<noteq> [] \<and> hd line = CHR '':''"
    and "filter_lines cli1 lines (s1, f1) = (cli2, s2, f2)"
    and "firmware_receive_is_complete (svc_receive s2)" and "i < unat (reg_size (staging l))"
  shows "xip sdk f2 (reg_lo (staging l) + i) = image_put IMAGE_BASE_ADDRESS (hex_writes hex_parser_reset lines)
        (\<lambda>j. if j < begin_span l (fst (cli_next_u32 cli)) then 0xFF else xip sdk f0 (reg_lo (staging l) + j)) i
    \<and> unat (firmware_receive_image_size (svc_receive s2))
        = image_end IMAGE_BASE_ADDRESS (hex_writes hex_parser_reset lines) 0"
proof -
  have lay: "svc_layout s0 = l" using service_reachable_ok [OF assms(2,1)] by (simp add: service_ok_def)
  have size: "reg_size (staging (svc_layout s0)) \<noteq> 0" using assms(1) by (auto simp: lay layout_ok_def)
  have use: "usable sdk (staging l)" by (rule layout_regions(2) [OF assms(1)])
  from assms(4) size show ?thesis
  proof (cases rule: cmd_begin_result)
    case failed
    then show ?thesis by simp
  next
    case (started g n)
    let ?bg = "staging_store (sdk, l) f1" and ?ws = "hex_writes hex_parser_reset lines"
    have store: "?bg i = (if i < begin_span l (fst (cli_next_u32 cli)) then 0xFF else xip sdk f0 (reg_lo (staging l) + i))"
      using begun_store [OF assms(1) started(5) [unfolded lay] started(6) [unfolded lay] started(7) [unfolded lay] assms(8)] .
    note begun = receive_begin_ok [OF started(8)]
    have parser: "rx_parser (svc_receive s1) = hex_parser_reset" "rx_image_size (svc_receive s1) = 0"
        "length (rx_page (svc_receive s1)) = PAGE_BYTES" "\<not> rx_page_dirty (svc_receive s1)"
      using started(8) begin_fields by metis+
    have "pg.receiving ?bg (sdk, l) (svc_receive s1) f1 []"
      using begun parser by (simp add: pg.receiving_def pg.represents_def lay)
    moreover have "svc_initialised s1" using assms(3,4) cmd_begin_initialised by metis
    ultimately have "pg.receiving ?bg (sdk, l) (svc_receive s2) f2 ([] @ hex_writes (rx_parser (svc_receive s1)) lines)
        \<and> rx_base_address (svc_receive s2) = rx_base_address (svc_receive s1)"
      using started(3) begun(1,6) assms(5-7)
      by (intro filter_lines_image [OF use]) (simp_all add: firmware_receive_is_complete_def)
    then have held: "staging_store (sdk, l) f2 = image_put IMAGE_BASE_ADDRESS ?ws ?bg"
      and sz: "unat (rx_image_size (svc_receive s2)) = image_end IMAGE_BASE_ADDRESS ?ws 0"
      using assms(7) begun(5) parser by (auto simp: pg.receiving_def firmware_receive_is_complete_def)
    have "xip sdk f2 (reg_lo (staging l) + i) = staging_store (sdk, l) f2 i"
      using assms(8) by (simp add: staging_store_def)
    then have "xip sdk f2 (reg_lo (staging l) + i) = image_put IMAGE_BASE_ADDRESS ?ws ?bg i" by (simp only: held)
    moreover have "image_put IMAGE_BASE_ADDRESS ?ws ?bg i = image_put IMAGE_BASE_ADDRESS ?ws
        (\<lambda>j. if j < begin_span l (fst (cli_next_u32 cli)) then 0xFF else xip sdk f0 (reg_lo (staging l) + j)) i"
      by (rule image_put_cong) (rule store)
    ultimately show ?thesis using sz by (simp add: firmware_receive_image_size_def)
  qed
qed

theorem firmware_staging_holds_hex_image_witness:
  "\<exists>s0 f0 cli1 s1 f1 cli2 s2 f2. cmd_begin (nor_sdk None) sized_cli (s0, f0) = (CLI_OK, cli1, s1, f1)
     \<and> filter_lines cli1 ['':020000041000EA'', '':010000002AD5'', '':00000001FF''] (s1, f1) = (cli2, s2, f2)
     \<and> xip (nor_sdk None) f2 0x1000 = 0x2A \<and> xip (nor_sdk None) f2 0x1001 = 0xFF
     \<and> unat (firmware_receive_image_size (svc_receive s2)) = 1"
proof -
  let ?sdk = "nor_sdk None" and ?lines = "['':020000041000EA'', '':010000002AD5'', '':00000001FF'']"
  obtain s0 f0 where s0: "service_reachable ?sdk small_layout (s0, f0)" "f0 = (\<lambda>_. 0xFF, [])"
      "svc_layout s0 = small_layout" "svc_initialised s0"
    by (rule small_service)
  obtain cli1 s1 m1 where b: "cmd_begin ?sdk sized_cli (s0, (\<lambda>_. 0xFF, [])) = (CLI_OK, cli1, s1, (m1, []))"
      and s1: "svc_receiving s1" "svc_initialised s1"
    using nor_begin [OF s0(3) sized_begin] s0(4) by metis
  obtain cli2 s2 f2 where r: "filter_lines cli1 ?lines (s1, (m1, [])) = (cli2, s2, f2)"
    by (rule prod_cases3)
  note begun = nor_begin_receive [OF b s0(3)] and staged = nor_begin_staging [OF b s0(3) sized_begin]
  have at: "(0x1000 :: nat) \<le> 0x1000" "(0x1000 :: nat) < 0x2000" by simp_all
  obtain p x1 x2 p' x3 where feed: "hex_parser_feed hex_parser_reset (Some '':020000041000EA'') hex_record_zero = (HEX_OK, p, x1)"
      "rec_type x1 = HEX_RECORD_EXTENDED_LINEAR"
      "hex_parser_feed p (Some '':010000002AD5'') hex_record_zero = (HEX_OK, p, x2)" "rec_type x2 = HEX_RECORD_DATA"
      "rec_address x2 = IMAGE_BASE_ADDRESS" "take (unat (rec_length x2)) (rec_data x2) = [0x2A]"
      "hex_parser_feed p (Some '':00000001FF'') hex_record_zero = (HEX_OK, p', x3)" "rec_type x3 = HEX_RECORD_EOF"
    by (rule one_byte_file)
  define rx1 where "rx1 = (svc_receive s1)\<lparr>rx_parser := p, rx_records := rx_records (svc_receive s1) + 1\<rparr>"
  have l1: "firmware_receive_line (svc_receive s1) (Some '':020000041000EA'') (m1, []) = (FIRMWARE_RECEIVE_OK, rx1, (m1, []))"
    using begun feed(1,2) by (simp add: firmware_receive_line_def rx1_def Let_def)
  have rx1: "rx_parser rx1 = p" "rx_started rx1" "rx_error rx1 = FIRMWARE_RECEIVE_OK" "\<not> rx_page_dirty rx1"
      "rx_base_address rx1 = IMAGE_BASE_ADDRESS" "rx_capacity rx1 = 0x1000" "rx_image_size rx1 = 0"
      "rx_write_page rx1 = Some (write_page (?sdk, small_layout))"
    using begun staged(2-5) [OF at] by (simp_all add: rx1_def)
  define rx2 where "rx2 = (reset_page (rx1\<lparr>rx_records := rx_records rx1 + 1\<rparr>) 0)
      \<lparr>rx_page := (replicate PAGE_BYTES ERASED_BYTE)[0 := 0x2A], rx_page_dirty := True, rx_bytes := rx_bytes rx1 + 1,
       rx_image_size := 1\<rparr>"
  have l2: "firmware_receive_line rx1 (Some '':010000002AD5'') (m1, []) = (FIRMWARE_RECEIVE_OK, rx2, (m1, []))"
    using rx1 feed(3-6) by (simp add: firmware_receive_line_def place_byte_def rx2_def reset_page_def Let_def)
  obtain g where wr: "write_page (?sdk, small_layout) 0 ((replicate 256 0xFF)[0 := 0x2A]) 256 (m1, []) = (True, g)"
    using nor_write_page [of "(replicate 256 0xFF)[0 := 0x2A]" m1] staged(1) by auto
  have rx2: "rx_parser rx2 = p" "rx_started rx2" "rx_error rx2 = FIRMWARE_RECEIVE_OK" "rx_page_dirty rx2"
      "rx_write_page rx2 = Some (write_page (?sdk, small_layout))" "rx_page_offset rx2 = 0"
      "rx_page rx2 = (replicate PAGE_BYTES ERASED_BYTE)[0 := 0x2A]"
    using rx1 by (simp_all add: rx2_def reset_page_def)
  obtain rx3 where l3: "firmware_receive_line rx2 (Some '':00000001FF'') (m1, []) = (FIRMWARE_RECEIVE_COMPLETE, rx3, g)"
      "rx_complete rx3"
    using rx2 feed(7,8) wr by (simp add: firmware_receive_line_def flush_page_def Let_def)
  have complete: "firmware_receive_is_complete (svc_receive s2)"
    using r s1 l1 l2 l3 by (auto simp: firmware_service_line_filter_def firmware_receive_is_complete_def Let_def split: if_splits)
  have colons: "\<forall>line \<in> set ?lines. line \<noteq> [] \<and> hd line = CHR '':''" by simp
  have writes: "hex_writes hex_parser_reset ?lines = [(IMAGE_BASE_ADDRESS, 0x2A)]"
    using feed by (simp add: record_writes_def)
  note held = firmware_staging_holds_hex_image [OF small_layout_ok s0(1,4) b [folded s0(2)] colons r complete, unfolded writes]
  have lo: "reg_lo (staging small_layout) = 0x1000" "unat (reg_size (staging small_layout)) = 0x1000"
    by (simp_all add: small_layout_def reg_lo_def)
  have "xip ?sdk f2 0x1000 = 0x2A" "unat (firmware_receive_image_size (svc_receive s2)) = 1"
    using held [of 0] by (simp_all add: lo)
  moreover have "xip ?sdk f2 0x1001 = 0xFF"
    using held [of 1] by (simp add: lo sized_next_u32 begin_span_def)
  ultimately show ?thesis using b r by blast
qed

text \<open>The line filter takes every line that starts with a colon, also when no transfer is
  running: outside a transfer the line is answered with a message and neither the service nor the
  flash changes. The comment in the header says that such lines are claimed only while a
  transfer runs, and that everything else goes to the CLI.\<close>

theorem firmware_filter_claims_outside_transfer:
  "\<exists>s f. firmware_service_init (nor_sdk None) small_layout f = (True, s) \<and> \<not> svc_receiving s
     \<and> firmware_service_line_filter counting_cli '':help'' (s, f)
         = (True, cli_write counting_cli (Some (''no transfer in progress; send fwbegin first'' @ CRLF)), s, f)"
proof -
  obtain s f where "firmware_service_init (nor_sdk None) small_layout f = (True, s)" "svc_initialised s"
      "\<not> svc_receiving s"
    by (rule small_service)
  then show ?thesis by (intro exI [of _ s] exI [of _ f]) (simp add: firmware_service_line_filter_def)
qed

end
