(* ===== verification/Config_Store.thy ===== *)
theory Config_Store
  imports Prelude "HOL-Library.AList" "HOL-Library.Char_ord"
begin

text \<open>
  Model of \<open>components/persistent_config/config_store\<close>: a set of keys and values kept as a run
  of records in one caller-owned buffer. A record is the length of the key, the length of the
  value, the key and the value. A key or a text is a \<open>string\<close>, the characters before the
  terminator; in the buffer it is its bytes. The lemmas show that the buffer always holds
  exactly such a run, that each operation acts on the run as the operation of an association
  list (replace in place or append), and hence on the map the run stands for, that adopting
  stored bytes accepts exactly the well-formed runs, and how the typed accessors round-trip.
\<close>

abbreviation (input) CONFIG_MAX_KEY_LENGTH :: nat where "CONFIG_MAX_KEY_LENGTH \<equiv> 31"
abbreviation (input) CONFIG_MAX_VALUE_LENGTH :: nat where "CONFIG_MAX_VALUE_LENGTH \<equiv> 255"

definition CONFIG_RECORD_SIZE :: "u8 \<Rightarrow> u8 \<Rightarrow> nat" where
  "CONFIG_RECORD_SIZE key_len value_len = unat key_len + unat value_len + 2"

datatype config_result_t =
    CONFIG_OK
  | CONFIG_ERR_INVALID_ARG
  | CONFIG_ERR_KEY_TOO_LONG
  | CONFIG_ERR_VALUE_TOO_LONG
  | CONFIG_ERR_FULL
  | CONFIG_ERR_NOT_FOUND
  | CONFIG_ERR_TOO_SMALL
  | CONFIG_ERR_CORRUPT

record config_store_t =
  cs_buffer :: "u8 list"
  cs_capacity :: nat
  cs_used :: nat
  cs_initialised :: bool

definition text_bytes :: "string \<Rightarrow> u8 list" where
  "text_bytes s = map of_char s"

definition check_key :: "string option \<Rightarrow> config_result_t + u8" where
  "check_key key =
     (case key of
        None \<Rightarrow> Inl CONFIG_ERR_INVALID_ARG
      | Some k \<Rightarrow>
          if k = [] then Inl CONFIG_ERR_INVALID_ARG
          else if CONFIG_MAX_KEY_LENGTH < length k then Inl CONFIG_ERR_KEY_TOO_LONG
          else Inr (word_of_nat (length k)))"

text \<open>The loop of \<open>find_record\<close>; the second component is \<open>*offset_out\<close>.\<close>

function find_from :: "config_store_t \<Rightarrow> u8 list \<Rightarrow> u8 \<Rightarrow> nat \<Rightarrow> bool \<times> nat" where
  "find_from store key key_length at =
     (if at < cs_used store
      then
        (let record_key = cs_buffer store ! at;
             record_value = cs_buffer store ! (at + 1) in
         if record_key = key_length \<and> chunk (at + 2) (unat key_length) (cs_buffer store) = key
         then (True, at)
         else find_from store key key_length (at + CONFIG_RECORD_SIZE record_key record_value))
      else (False, cs_used store))"
  by pat_completeness auto
termination by (relation "measure (\<lambda>(store, _, _, at). cs_used store - at)") (auto simp: CONFIG_RECORD_SIZE_def)

declare find_from.simps [simp del]

definition find_record :: "config_store_t \<Rightarrow> u8 list \<Rightarrow> u8 \<Rightarrow> bool \<times> nat" where
  "find_record store key key_length = find_from store key key_length 0"

definition config_store_init ::
  "config_store_t \<Rightarrow> u8 list option \<Rightarrow> nat \<Rightarrow> config_result_t \<times> config_store_t" where
  "config_store_init store buffer capacity =
     (case buffer of
        None \<Rightarrow> (CONFIG_ERR_INVALID_ARG, store)
      | Some b \<Rightarrow>
          if capacity = 0 then (CONFIG_ERR_INVALID_ARG, store)
          else (CONFIG_OK, \<lparr>cs_buffer = b, cs_capacity = capacity, cs_used = 0, cs_initialised = True\<rparr>))"

text \<open>The checking loop of \<open>config_store_load\<close>: whether the run parses exactly to \<open>used\<close>.\<close>

function records_parse :: "u8 list \<Rightarrow> nat \<Rightarrow> nat \<Rightarrow> bool" where
  "records_parse buffer used at =
     (if at < used
      then
        if used - at < 2 then False
        else
          (let key_length = buffer ! at;
               value_length = buffer ! (at + 1) in
           if key_length = 0 \<or> CONFIG_MAX_KEY_LENGTH < unat key_length then False
           else
             (let sz = CONFIG_RECORD_SIZE key_length value_length in
              if used - at < sz then False else records_parse buffer used (at + sz)))
      else True)"
  by pat_completeness auto
termination by (relation "measure (\<lambda>(_, used, at). used - at)") (auto simp: CONFIG_RECORD_SIZE_def)

declare records_parse.simps [simp del]

definition config_store_load ::
  "config_store_t \<Rightarrow> u8 list option \<Rightarrow> nat \<Rightarrow> nat \<Rightarrow> config_result_t \<times> config_store_t" where
  "config_store_load store buffer capacity used =
     (case config_store_init store buffer capacity of
        (started, store) \<Rightarrow>
          if started \<noteq> CONFIG_OK then (started, store)
          else if capacity < used then (CONFIG_ERR_CORRUPT, store)
          else if \<not> records_parse (cs_buffer store) used 0 then (CONFIG_ERR_CORRUPT, store)
          else (CONFIG_OK, store\<lparr>cs_used := used\<rparr>))"

definition config_store_used :: "config_store_t \<Rightarrow> nat" where
  "config_store_used store = cs_used store"

definition config_store_free :: "config_store_t \<Rightarrow> nat" where
  "config_store_free store = cs_capacity store - cs_used store"

text \<open>The last lines of \<open>config_set\<close>: the record is written at \<open>offset\<close>.\<close>

definition put_record :: "nat \<Rightarrow> u8 \<Rightarrow> u8 list \<Rightarrow> u8 \<Rightarrow> u8 list option \<Rightarrow> u8 list \<Rightarrow> u8 list" where
  "put_record offset key_length key len value buffer =
     (let buffer = buffer[offset := key_length];
          buffer = buffer[offset + 1 := len];
          buffer = blit (offset + 2) key buffer
      in if 0 < len then blit (offset + 2 + unat key_length) (take (unat len) (the value)) buffer else buffer)"

definition config_set ::
  "config_store_t \<Rightarrow> string option \<Rightarrow> u8 list option \<Rightarrow> u8 \<Rightarrow> config_result_t \<times> config_store_t" where
  "config_set store key value len =
     (if \<not> cs_initialised store then (CONFIG_ERR_INVALID_ARG, store)
      else
        (case check_key key of
           Inl e \<Rightarrow> (e, store)
         | Inr key_length \<Rightarrow>
             if value = None \<and> 0 < len then (CONFIG_ERR_INVALID_ARG, store)
             else
               (case find_record store (text_bytes (the key)) key_length of
                  (exists, offset) \<Rightarrow>
                    (let wanted = CONFIG_RECORD_SIZE key_length len in
                     if exists
                     then
                       (let existing = CONFIG_RECORD_SIZE (cs_buffer store ! offset) (cs_buffer store ! (offset + 1)) in
                        if existing < wanted \<and> config_store_free store < wanted - existing
                        then (CONFIG_ERR_FULL, store)
                        else
                          (let tail_at = offset + existing;
                               tail = cs_used store - tail_at;
                               moved = blit (offset + wanted) (chunk tail_at tail (cs_buffer store)) (cs_buffer store)
                           in (CONFIG_OK, store
                                \<lparr>cs_used := cs_used store - existing + wanted,
                                 cs_buffer := put_record offset key_length (text_bytes (the key)) len value moved\<rparr>)))
                     else if config_store_free store < wanted then (CONFIG_ERR_FULL, store)
                     else (CONFIG_OK, store
                            \<lparr>cs_used := cs_used store + wanted,
                             cs_buffer := put_record offset key_length (text_bytes (the key)) len value
                                            (cs_buffer store)\<rparr>)))))"

text \<open>\<open>config_get\<close> returns the caller's buffer, written when the value fits, and what it stores
  in \<open>*length\<close>: \<open>None\<close> when it returns before touching it.\<close>

definition config_get ::
  "config_store_t \<Rightarrow> string option \<Rightarrow> u8 list option \<Rightarrow> u8 \<Rightarrow> config_result_t \<times> u8 list option \<times> u8 option" where
  "config_get store key value capacity =
     (if \<not> cs_initialised store then (CONFIG_ERR_INVALID_ARG, value, None)
      else
        (case check_key key of
           Inl e \<Rightarrow> (e, value, None)
         | Inr key_length \<Rightarrow>
             (case find_record store (text_bytes (the key)) key_length of
                (found, offset) \<Rightarrow>
                  if \<not> found then (CONFIG_ERR_NOT_FOUND, value, Some 0)
                  else
                    (let value_length = cs_buffer store ! (offset + 1) in
                     if capacity < value_length then (CONFIG_ERR_TOO_SMALL, value, Some value_length)
                     else if value \<noteq> None \<and> 0 < value_length
                     then (CONFIG_OK,
                           Some (blit 0 (chunk (offset + 2 + unat key_length) (unat value_length) (cs_buffer store))
                                   (the value)),
                           Some value_length)
                     else (CONFIG_OK, value, Some value_length)))))"

definition config_remove :: "config_store_t \<Rightarrow> string option \<Rightarrow> config_result_t \<times> config_store_t" where
  "config_remove store key =
     (if \<not> cs_initialised store then (CONFIG_ERR_INVALID_ARG, store)
      else
        (case check_key key of
           Inl e \<Rightarrow> (e, store)
         | Inr key_length \<Rightarrow>
             (case find_record store (text_bytes (the key)) key_length of
                (found, offset) \<Rightarrow>
                  if \<not> found then (CONFIG_ERR_NOT_FOUND, store)
                  else
                    (let sz = CONFIG_RECORD_SIZE (cs_buffer store ! offset) (cs_buffer store ! (offset + 1));
                         tail = cs_used store - offset - sz
                     in (CONFIG_OK, store
                          \<lparr>cs_buffer := blit offset (chunk (offset + sz) tail (cs_buffer store)) (cs_buffer store),
                           cs_used := cs_used store - sz\<rparr>)))))"

definition config_has :: "config_store_t \<Rightarrow> string option \<Rightarrow> bool" where
  "config_has store key =
     (case config_get store key None 0 of
        (result, _, _) \<Rightarrow> result = CONFIG_OK \<or> result = CONFIG_ERR_TOO_SMALL)"

definition config_clear :: "config_store_t \<Rightarrow> config_store_t" where
  "config_clear store = (if cs_initialised store then store\<lparr>cs_used := 0\<rparr> else store)"

subsection \<open>Typed accessors\<close>

definition config_set_u32 :: "config_store_t \<Rightarrow> string option \<Rightarrow> u32 \<Rightarrow> config_result_t \<times> config_store_t" where
  "config_set_u32 store key value =
     config_set store key
       (Some [ucast value, ucast (drop_bit 8 value), ucast (drop_bit 16 value), ucast (drop_bit 24 value)]) 4"

text \<open>\<open>value\<close> is the cell the pointer refers to.\<close>

definition config_get_u32 ::
  "config_store_t \<Rightarrow> string option \<Rightarrow> u32 option \<Rightarrow> u32 \<Rightarrow> config_result_t \<times> u32 option" where
  "config_get_u32 store key value fallback =
     (if value = None then (CONFIG_ERR_INVALID_ARG, value)
      else
        (case config_get store key None 0 of
           (probe, _, len) \<Rightarrow>
             if probe = CONFIG_ERR_NOT_FOUND \<or> probe = CONFIG_ERR_INVALID_ARG \<or> probe = CONFIG_ERR_KEY_TOO_LONG
             then (probe, Some fallback)
             else if len \<noteq> Some 4 then (CONFIG_ERR_CORRUPT, Some fallback)
             else
               (case config_get store key (Some (replicate 4 0)) 4 of
                  (result, bytes, _) \<Rightarrow>
                    if result \<noteq> CONFIG_OK then (result, Some fallback)
                    else (CONFIG_OK, Some (of_le32 (the bytes))))))"

definition config_set_string ::
  "config_store_t \<Rightarrow> string option \<Rightarrow> string option \<Rightarrow> config_result_t \<times> config_store_t" where
  "config_set_string store key value =
     (case value of
        None \<Rightarrow> (CONFIG_ERR_INVALID_ARG, store)
      | Some text_value \<Rightarrow>
          if CONFIG_MAX_VALUE_LENGTH < length text_value then (CONFIG_ERR_VALUE_TOO_LONG, store)
          else config_set store key (Some (text_bytes text_value)) (word_of_nat (length text_value)))"

definition config_get_string ::
  "config_store_t \<Rightarrow> string option \<Rightarrow> u8 list option \<Rightarrow> nat \<Rightarrow> string option \<Rightarrow> config_result_t \<times> u8 list option" where
  "config_get_string store key value capacity fallback =
     (if value = None \<or> capacity = 0 then (CONFIG_ERR_INVALID_ARG, value)
      else
        (case config_get store key None 0 of
           (probe, _, len) \<Rightarrow>
             (let len = (case len of None \<Rightarrow> 0 | Some n \<Rightarrow> n) in
              if probe = CONFIG_ERR_NOT_FOUND \<or> capacity < unat len + 1
              then
                (let fallback_length = (case fallback of None \<Rightarrow> 0 | Some f \<Rightarrow> length f);
                     copy = (if fallback_length + 1 \<le> capacity then fallback_length else capacity - 1);
                     v = (if 0 < copy then blit 0 (take copy (text_bytes (the fallback))) (the value) else the value)
                 in (if probe = CONFIG_ERR_NOT_FOUND then CONFIG_ERR_NOT_FOUND else CONFIG_ERR_TOO_SMALL,
                     Some (v[copy := 0])))
              else
                (case config_get store key value (word_of_nat (capacity - 1)) of
                   (result, v, got) \<Rightarrow>
                     if result \<noteq> CONFIG_OK then (result, Some ((the v)[0 := 0]))
                     else (CONFIG_OK, Some ((the v)[unat (the got) := 0]))))))"

subsection \<open>Enumeration\<close>

function count_from :: "config_store_t \<Rightarrow> nat \<Rightarrow> nat" where
  "count_from store at =
     (if at < cs_used store
      then Suc (count_from store (at + CONFIG_RECORD_SIZE (cs_buffer store ! at) (cs_buffer store ! (at + 1))))
      else 0)"
  by pat_completeness auto
termination by (relation "measure (\<lambda>(store, at). cs_used store - at)") (auto simp: CONFIG_RECORD_SIZE_def)

declare count_from.simps [simp del]

definition config_count :: "config_store_t \<Rightarrow> nat" where
  "config_count store = (if \<not> cs_initialised store then 0 else count_from store 0)"

text \<open>The loop of \<open>config_key_at\<close>, with the records still to skip.\<close>

function key_from :: "config_store_t \<Rightarrow> nat \<Rightarrow> nat \<Rightarrow> u8 list option" where
  "key_from store n at =
     (if at < cs_used store
      then
        (let key_length = cs_buffer store ! at in
         if n = 0 then Some (chunk (at + 2) (unat key_length) (cs_buffer store))
         else key_from store (n - 1) (at + CONFIG_RECORD_SIZE key_length (cs_buffer store ! (at + 1))))
      else None)"
  by pat_completeness auto
termination by (relation "measure (\<lambda>(store, _, at). cs_used store - at)") (auto simp: CONFIG_RECORD_SIZE_def)

declare key_from.simps [simp del]

definition config_key_at ::
  "config_store_t \<Rightarrow> nat \<Rightarrow> u8 list option \<Rightarrow> nat \<Rightarrow> bool \<times> u8 list option" where
  "config_key_at store index key capacity =
     (if \<not> cs_initialised store \<or> key = None \<or> capacity = 0 then (False, key)
      else
        (case key_from store index 0 of
           None \<Rightarrow> (False, key)
         | Some k \<Rightarrow>
             if capacity < length k + 1 then (False, key)
             else (True, Some ((blit 0 k (the key))[length k := 0]))))"

fun config_result_name :: "config_result_t \<Rightarrow> string" where
  "config_result_name CONFIG_OK = ''ok''"
| "config_result_name CONFIG_ERR_INVALID_ARG = ''invalid argument''"
| "config_result_name CONFIG_ERR_KEY_TOO_LONG = ''key too long''"
| "config_result_name CONFIG_ERR_VALUE_TOO_LONG = ''value too long''"
| "config_result_name CONFIG_ERR_FULL = ''no room left''"
| "config_result_name CONFIG_ERR_NOT_FOUND = ''not found''"
| "config_result_name CONFIG_ERR_TOO_SMALL = ''buffer too small for the value''"
| "config_result_name CONFIG_ERR_CORRUPT = ''stored records do not parse''"

subsection \<open>Runs of records\<close>

type_synonym entry = "u8 list \<times> u8 list"

fun record_bytes :: "entry \<Rightarrow> u8 list" where
  "record_bytes (k, v) = word_of_nat (length k) # word_of_nat (length v) # k @ v"

definition run_bytes :: "entry list \<Rightarrow> u8 list" where
  "run_bytes es = concat (map record_bytes es)"

fun entry_ok :: "entry \<Rightarrow> bool" where
  "entry_ok (k, v) \<longleftrightarrow> k \<noteq> [] \<and> length k \<le> CONFIG_MAX_KEY_LENGTH \<and> length v \<le> CONFIG_MAX_VALUE_LENGTH"

text \<open>The store holds the run \<open>es\<close>.\<close>

definition holds :: "config_store_t \<Rightarrow> entry list \<Rightarrow> bool" where
  "holds store es \<longleftrightarrow> cs_initialised store \<and> length (cs_buffer store) = cs_capacity store
     \<and> cs_used store \<le> cs_capacity store \<and> take (cs_used store) (cs_buffer store) = run_bytes es
     \<and> list_all entry_ok es"

lemma run_bytes_simps [simp]:
  "run_bytes [] = []" "run_bytes (e # es) = record_bytes e @ run_bytes es"
  "run_bytes (es @ fs) = run_bytes es @ run_bytes fs"
  by (simp_all add: run_bytes_def)

lemma length_record_bytes [simp]: "length (record_bytes (k, v)) = length k + length v + 2"
  by simp

lemma u8_of_nat: "n \<le> 255 \<Longrightarrow> unat (word_of_nat n :: u8) = n"
  by (simp add: unat_of_nat_lt)

lemma record_size_bytes:
  "entry_ok (k, v) \<Longrightarrow> CONFIG_RECORD_SIZE (word_of_nat (length k)) (word_of_nat (length v)) = length (record_bytes (k, v))"
  by (simp add: CONFIG_RECORD_SIZE_def u8_of_nat)

text \<open>One record seen from its offset.\<close>

lemma record_at:
  assumes "take used buf = pre @ record_bytes (k, v) @ rest" and "used \<le> length buf" and "entry_ok (k, v)"
  shows "buf ! length pre = word_of_nat (length k)" "buf ! (length pre + 1) = word_of_nat (length v)"
    "chunk (length pre + 2) (length k) buf = k" "chunk (length pre + 2 + length k) (length v) buf = v"
    "length pre + length (record_bytes (k, v)) \<le> used"
proof -
  have used: "used = length pre + length (record_bytes (k, v)) + length rest"
    using arg_cong [OF assms(1), of length] assms(2) by simp
  then show "length pre + length (record_bytes (k, v)) \<le> used" by simp
  have buf: "buf = (pre @ record_bytes (k, v) @ rest) @ drop used buf"
    using assms(1) append_take_drop_id [of used buf] by simp
  show "buf ! length pre = word_of_nat (length k)"
    by (subst buf) (simp add: nth_append)
  show "buf ! (length pre + 1) = word_of_nat (length v)"
    by (subst buf) (simp add: nth_append)
  show "chunk (length pre + 2) (length k) buf = k"
    by (subst buf) (simp add: chunk_def)
  show "chunk (length pre + 2 + length k) (length v) buf = v"
    by (subst buf) (simp add: chunk_def)
qed

lemma find_from_run:
  assumes "take (cs_used s) (cs_buffer s) = pre @ run_bytes es" and "cs_used s \<le> length (cs_buffer s)"
    and "list_all entry_ok es" and "0 < length key" and "length key \<le> CONFIG_MAX_KEY_LENGTH"
  shows "find_from s key (word_of_nat (length key)) (length pre) =
    (case dropWhile (\<lambda>e. fst e \<noteq> key) es of
       [] \<Rightarrow> (False, cs_used s)
     | _ \<Rightarrow> (True, length pre + length (run_bytes (takeWhile (\<lambda>e. fst e \<noteq> key) es))))"
  using assms
proof (induction es arbitrary: pre)
  case Nil
  from arg_cong [OF Nil.prems(1), of length] Nil.prems(2) have "length pre = cs_used s" by simp
  then show ?case by (simp add: find_from.simps)
next
  case (Cons e es)
  obtain k v where e: "e = (k, v)" by fastforce
  have run: "take (cs_used s) (cs_buffer s) = pre @ record_bytes (k, v) @ run_bytes es"
    using Cons.prems(1) e by simp
  have ok: "entry_ok (k, v)" "list_all entry_ok es" using Cons.prems(3) e by auto
  note at = record_at [OF run Cons.prems(2) ok(1)]
  have inside: "length pre < cs_used s" using at(5) by simp
  have same: "(word_of_nat (length k) :: u8) = word_of_nat (length key) \<longleftrightarrow> length k = length key"
  proof -
    have "length k \<le> 255" "length key \<le> 255" using ok(1) Cons.prems(5) by simp_all
    then show ?thesis by (metis u8_of_nat)
  qed
  show ?case
  proof (cases "k = key")
    case True
    with at inside Cons.prems(5) show ?thesis
      by (subst find_from.simps) (simp add: e u8_of_nat Let_def)
  next
    case False
    have "\<not> (length k = length key \<and> chunk (length pre + 2) (length key) (cs_buffer s) = key)"
      using at(3) False by auto
    then have "find_from s key (word_of_nat (length key)) (length pre)
        = find_from s key (word_of_nat (length key)) (length (pre @ record_bytes (k, v)))"
      using at inside Cons.prems(5) record_size_bytes [OF ok(1)]
      by (subst find_from.simps) (auto simp: u8_of_nat Let_def same)
    also have "\<dots> = (case dropWhile (\<lambda>e. fst e \<noteq> key) es of
         [] \<Rightarrow> (False, cs_used s)
       | _ \<Rightarrow> (True, length (pre @ record_bytes (k, v)) + length (run_bytes (takeWhile (\<lambda>e. fst e \<noteq> key) es))))"
      using Cons.prems run ok(2) by (intro Cons.IH) simp_all
    finally show ?thesis
      using False by (simp add: e add.assoc cong: list.case_cong)
  qed
qed

lemma length_text_bytes [simp]: "length (text_bytes s) = length s"
  by (simp add: text_bytes_def)

text \<open>The two ways a lookup can go, in a store that holds a run.\<close>

lemma find_record_cases:
  assumes "holds s es" and "check_key (Some k) = Inr kl"
  obtains (absent) "text_bytes k \<notin> fst ` set es" "find_record s (text_bytes k) kl = (False, cs_used s)"
  | (present) es1 v es2 where "es = es1 @ (text_bytes k, v) # es2" "text_bytes k \<notin> fst ` set es1"
      "find_record s (text_bytes k) kl = (True, length (run_bytes es1))" "length v \<le> CONFIG_MAX_VALUE_LENGTH"
proof -
  let ?k = "text_bytes k"
  have k: "0 < length ?k" "length ?k \<le> CONFIG_MAX_KEY_LENGTH" "kl = word_of_nat (length ?k)"
    using assms(2) by (auto simp: check_key_def split: if_splits)
  have f: "find_record s ?k kl = (case dropWhile (\<lambda>e. fst e \<noteq> ?k) es of
       [] \<Rightarrow> (False, cs_used s)
     | _ \<Rightarrow> (True, length (run_bytes (takeWhile (\<lambda>e. fst e \<noteq> ?k) es))))"
    using find_from_run [of s "[]" es ?k] assms(1) k by (simp add: find_record_def holds_def del: length_text_bytes cong: list.case_cong)
  show ?thesis
  proof (cases "dropWhile (\<lambda>e. fst e \<noteq> ?k) es")
    case Nil
    with f show ?thesis by (intro absent) auto
  next
    case (Cons e rest)
    then have "fst e = ?k" by (metis (mono_tags, lifting) dropWhile_eq_Cons_conv)
    then obtain v where e: "e = (?k, v)" by (cases e) auto
    have es: "es = takeWhile (\<lambda>e. fst e \<noteq> ?k) es @ (?k, v) # rest"
      using takeWhile_dropWhile_id [of "\<lambda>e. fst e \<noteq> ?k" es] Cons e by simp
    have "entry_ok (?k, v)"
      using assms(1) Cons e set_dropWhileD [of "(?k, v)" "\<lambda>e. fst e \<noteq> ?k" es]
      by (auto simp: holds_def list_all_iff)
    then show ?thesis
      using f Cons es set_takeWhileD by (intro present [OF es]) force+
  qed
qed

lemma put_record_eq:
  assumes "offset + length key + length v + 2 \<le> length buf" and "v = take (unat len) (case value of None \<Rightarrow> [] | Some x \<Rightarrow> x)"
    and "length v = unat len" and "length key \<le> CONFIG_MAX_KEY_LENGTH"
  shows "put_record offset (word_of_nat (length key)) key len value buf = blit offset (record_bytes (key, v)) buf"
proof -
  have len: "word_of_nat (length v) = len" by (simp add: assms(3))
  have two: "buf[offset := word_of_nat (length key), offset + 1 := len] = blit offset [word_of_nat (length key), len] buf"
    using assms(1) blit_after_blit [of offset "[word_of_nat (length key)]" "[len]" buf]
    by (simp add: update_blit)
  have three: "blit (offset + 2) key (blit offset [word_of_nat (length key), len] buf)
      = blit offset (word_of_nat (length key) # len # key) buf"
    using assms(1) blit_after_blit [of offset "[word_of_nat (length key), len]" key buf] by simp
  have four: "blit (offset + 2 + length key) v (blit offset (word_of_nat (length key) # len # key) buf)
      = blit offset (word_of_nat (length key) # len # key @ v) buf"
    using assms(1) blit_after_blit [of offset "word_of_nat (length key) # len # key" v buf]
    by (simp add: add.assoc)
  have kl: "unat (word_of_nat (length key) :: u8) = length key" using assms(4) by (simp add: u8_of_nat)
  show ?thesis
  proof (cases "len = 0")
    case True
    then have "v = []" using assms(3) by simp
    then show ?thesis using True two three len by (simp add: put_record_def Let_def)
  next
    case False
    then have "0 < len" by (simp add: word_greater_zero_iff)
    moreover from False assms(2,3) obtain x where "value = Some x"
      by (cases "value") (auto simp: unat_eq_0)
    ultimately show ?thesis using two three four kl len assms(2) by (simp add: put_record_def Let_def)
  qed
qed

text \<open>What \<open>config_set\<close> does to the run: the association list is updated when the new run fits.\<close>

lemma update_present:
  "k \<notin> fst ` set es1 \<Longrightarrow> AList.update k v (es1 @ (k, w) # es2) = es1 @ (k, v) # es2"
  by (induction es1) auto

lemma update_absent: "k \<notin> fst ` set es \<Longrightarrow> AList.update k v es = es @ [(k, v)]"
  by (induction es) auto

lemma config_set_run:
  assumes h: "holds s es" and kl: "check_key (Some k) = Inr kl"
    and v: "v = take (unat len) (case value of None \<Rightarrow> [] | Some x \<Rightarrow> x)" "length v = unat len"
  defines "es' \<equiv> AList.update (text_bytes k) v es"
  shows "config_set s (Some k) value len =
      (if cs_capacity s < length (run_bytes es') then (CONFIG_ERR_FULL, s)
       else (CONFIG_OK, snd (config_set s (Some k) value len)))"
    and "length (run_bytes es') \<le> cs_capacity s \<Longrightarrow> holds (snd (config_set s (Some k) value len)) es'"
proof -
  let ?k = "text_bytes k" and ?buf = "cs_buffer s"
  have k: "k \<noteq> []" "length k \<le> CONFIG_MAX_KEY_LENGTH" "kl = word_of_nat (length ?k)"
    using kl by (auto simp: check_key_def split: if_splits)
  have s: "cs_initialised s" "length ?buf = cs_capacity s" "cs_used s \<le> cs_capacity s"
      "take (cs_used s) ?buf = run_bytes es" "list_all entry_ok es"
    using h by (auto simp: holds_def)
  have used: "cs_used s = length (run_bytes es)" using arg_cong [OF s(4), of length] s(2,3) by simp
  have ok: "entry_ok (?k, v)" using k v(2) unat_u8_lt [of len] length_text_bytes [of k] by (cases "text_bytes k") auto
  have nonnull: "\<not> (value = None \<and> 0 < len)" using v by (cases "value") (auto simp: word_greater_zero_iff word_eq_unat_iff)
  have wanted: "CONFIG_RECORD_SIZE kl len = length (record_bytes (?k, v))"
    using v(2) k by (simp add: CONFIG_RECORD_SIZE_def u8_of_nat)
  have put: "put_record off kl ?k len value b = blit off (record_bytes (?k, v)) b"
    if "off + length (record_bytes (?k, v)) \<le> length b" for off b
    unfolding k(3) using that k v by (intro put_record_eq) simp_all
  let ?P = "config_set s (Some k) value len = (if cs_capacity s < length (run_bytes es') then (CONFIG_ERR_FULL, s)
       else (CONFIG_OK, snd (config_set s (Some k) value len)))
     \<and> (length (run_bytes es') \<le> cs_capacity s \<longrightarrow> holds (snd (config_set s (Some k) value len)) es')"
  have ?P using h kl
  proof (cases rule: find_record_cases)
    case absent
    have es': "es' = es @ [(?k, v)]" unfolding es'_def by (rule update_absent [OF absent(1)])
    let ?s' = "s\<lparr>cs_used := cs_used s + CONFIG_RECORD_SIZE kl len,
        cs_buffer := put_record (cs_used s) kl ?k len value ?buf\<rparr>"
    have run: "config_set s (Some k) value len =
        (if cs_capacity s < length (run_bytes es') then (CONFIG_ERR_FULL, s) else (CONFIG_OK, ?s'))"
      using s(1,3) kl absent(2) nonnull wanted used es'
      by (auto simp: config_set_def Let_def config_store_free_def)
    moreover have "holds ?s' es'" if fits: "length (run_bytes es') \<le> cs_capacity s"
    proof -
      have "cs_used s + length (record_bytes (?k, v)) \<le> length ?buf" using fits es' used s(2) by simp
      then show ?thesis
        using s ok es' put take_blit [of "cs_used s" "record_bytes (?k, v)" ?buf]
        by (simp add: holds_def wanted del: record_bytes.simps)
    qed
    ultimately show ?thesis by simp
  next
    case (present es1 w es2)
    have es': "es' = es1 @ (?k, v) # es2"
      unfolding es'_def present(1) by (rule update_present [OF present(2)])
    let ?off = "length (run_bytes es1)" and ?tail = "run_bytes es2"
    have old: "entry_ok (?k, w)" using s(5) present(1) by simp
    have whole: "take (cs_used s) ?buf = run_bytes es1 @ record_bytes (?k, w) @ ?tail" using s(4) present(1) by simp
    note at = record_at [OF whole _ old] 
    have existing: "CONFIG_RECORD_SIZE (?buf ! ?off) (?buf ! (?off + 1)) = length (record_bytes (?k, w))"
      using at(1,2) s(2,3) record_size_bytes [OF old] by simp
    let ?e = "length (record_bytes (?k, w))" and ?n = "length (record_bytes (?k, v))"
    have sum: "cs_used s = ?off + ?e + length ?tail" using used present(1) by simp
    have tail: "chunk (?off + ?e) (length ?tail) ?buf = ?tail"
    proof -
      have "drop (?off + ?e) (take (cs_used s) ?buf) = ?tail" unfolding whole by simp
      then show ?thesis unfolding drop_take using sum by (simp add: chunk_def del: length_record_bytes)
    qed
    have head: "take ?off ?buf = run_bytes es1"
    proof -
      have "take ?off (take (cs_used s) ?buf) = run_bytes es1" unfolding whole by simp
      then show ?thesis using sum by (simp add: min_def)
    qed
    let ?s' = "s\<lparr>cs_used := cs_used s - ?e + ?n,
        cs_buffer := put_record ?off kl ?k len value (blit (?off + ?n) ?tail ?buf)\<rparr>"
    have run: "config_set s (Some k) value len =
        (if cs_capacity s < length (run_bytes es') then (CONFIG_ERR_FULL, s) else (CONFIG_OK, ?s'))"
      using s(1,3) kl present(3) nonnull es' sum
      by (auto simp: config_set_def Let_def config_store_free_def existing [unfolded Suc_eq_plus1 [symmetric]] wanted tail
          simp del: record_bytes.simps length_record_bytes)
    moreover have "holds ?s' es'" if fits: "length (run_bytes es') \<le> cs_capacity s"
    proof -
      have room: "?off + ?n + length ?tail \<le> length ?buf" using fits es' s(2) by simp
      then have "put_record ?off kl ?k len value (blit (?off + ?n) ?tail ?buf)
          = blit ?off (record_bytes (?k, v) @ ?tail) ?buf"
        using put blit_before_blit [of ?off "record_bytes (?k, v)" ?tail ?buf] by (simp del: record_bytes.simps)
      moreover have "take (?off + ?n + length ?tail) (blit ?off (record_bytes (?k, v) @ ?tail) ?buf)
          = run_bytes es1 @ record_bytes (?k, v) @ ?tail"
        using take_blit [of ?off "record_bytes (?k, v) @ ?tail" ?buf] room head by (simp del: record_bytes.simps add: add.assoc)
      moreover have "cs_used s - ?e + ?n = ?off + ?n + length ?tail" using sum by (simp del: length_record_bytes)
      ultimately have "take (cs_used s - ?e + ?n) (put_record ?off kl ?k len value (blit (?off + ?n) ?tail ?buf)) = run_bytes es'"
        by (simp only: es' run_bytes_simps)
      moreover have "cs_used s - ?e + ?n \<le> length ?buf"
        using room sum by (simp del: length_record_bytes)
      moreover have "length (put_record ?off kl ?k len value (blit (?off + ?n) ?tail ?buf)) = length ?buf"
        using put room by (simp del: record_bytes.simps)
      ultimately show ?thesis
        using s(1,2) s(5) ok es' present(1) by (simp add: holds_def del: record_bytes.simps length_record_bytes)
    qed
    ultimately show ?thesis by simp
  qed
  then show "config_set s (Some k) value len = (if cs_capacity s < length (run_bytes es') then (CONFIG_ERR_FULL, s)
       else (CONFIG_OK, snd (config_set s (Some k) value len)))"
    and "length (run_bytes es') \<le> cs_capacity s \<Longrightarrow> holds (snd (config_set s (Some k) value len)) es'"
    by blast+
qed

text \<open>Reading a key is looking it up in the association list.\<close>

lemma map_of_present: "k \<notin> fst ` set es1 \<Longrightarrow> map_of (es1 @ (k, v) # es2) k = Some v"
  by (induction es1) auto

lemma config_get_run:
  assumes h: "holds s es" and kl: "check_key (Some k) = Inr kl"
  shows "config_get s (Some k) value capacity =
    (case map_of es (text_bytes k) of
       None \<Rightarrow> (CONFIG_ERR_NOT_FOUND, value, Some 0)
     | Some v \<Rightarrow>
         if unat capacity < length v then (CONFIG_ERR_TOO_SMALL, value, Some (word_of_nat (length v)))
         else (CONFIG_OK, if v = [] then value else map_option (blit 0 v) value, Some (word_of_nat (length v))))"
  using h kl
proof (cases rule: find_record_cases)
  case absent
  then have "map_of es (text_bytes k) = None" by (simp add: map_of_eq_None_iff)
  then show ?thesis using h kl absent(2) by (simp add: config_get_def holds_def)
next
  case (present es1 v es2)
  have k: "kl = word_of_nat (length (text_bytes k))" "length (text_bytes k) \<le> CONFIG_MAX_KEY_LENGTH"
    using kl by (auto simp: check_key_def split: if_splits)
  have s: "cs_initialised s" "length (cs_buffer s) = cs_capacity s" "cs_used s \<le> cs_capacity s"
      "take (cs_used s) (cs_buffer s) = run_bytes es1 @ record_bytes (text_bytes k, v) @ run_bytes es2"
      "entry_ok (text_bytes k, v)"
    using h present(1) by (auto simp: holds_def)
  have le: "cs_used s \<le> length (cs_buffer s)" using s(2,3) by simp
  note at = record_at [OF s(4) le s(5)]
  have vl: "unat (word_of_nat (length v) :: u8) = length v" using present(4) by (simp add: u8_of_nat)
  have kl': "unat kl = length (text_bytes k)" using k by (simp add: u8_of_nat)
  have small: "capacity < word_of_nat (length v) \<longleftrightarrow> unat capacity < length v"
    by (simp add: word_less_nat_alt vl)
  have some: "(0 :: u8) < word_of_nat (length v) \<longleftrightarrow> v \<noteq> []"
    using vl by (auto simp: word_less_nat_alt)
  have "map_of es (text_bytes k) = Some v" unfolding present(1) by (rule map_of_present [OF present(2)])
  then show ?thesis
    using s(1) kl present(3) at(2,4)
    by (cases "value") (auto simp: config_get_def Let_def small some vl kl')
qed

text \<open>Removing a key drops its first record.\<close>

fun remove_first :: "'k \<Rightarrow> ('k \<times> 'v) list \<Rightarrow> ('k \<times> 'v) list" where
  "remove_first k [] = []"
| "remove_first k (e # es) = (if fst e = k then es else e # remove_first k es)"

lemma remove_first_present: "k \<notin> fst ` set es1 \<Longrightarrow> remove_first k (es1 @ (k, v) # es2) = es1 @ es2"
  by (induction es1) auto

lemma remove_first_absent: "k \<notin> fst ` set es \<Longrightarrow> remove_first k es = es"
  by (induction es) auto

lemma remove_first_keys: "set (remove_first k es) \<subseteq> set es"
  by (induction es) auto

lemma remove_first_distinct:
  "distinct (map fst es) \<Longrightarrow> distinct (map fst (remove_first k es)) \<and> map_of (remove_first k es) = (map_of es)(k := None)"
proof (induction es)
  case (Cons e es)
  have "fst ` set (remove_first k es) \<subseteq> fst ` set es" using remove_first_keys [of k es] by blast
  with Cons show ?case by (cases e) (auto simp: map_of_eq_None_iff fun_upd_twist)
qed simp

lemma config_remove_run:
  assumes h: "holds s es" and kl: "check_key (Some k) = Inr kl"
  shows "fst (config_remove s (Some k)) =
      (if text_bytes k \<in> fst ` set es then CONFIG_OK else CONFIG_ERR_NOT_FOUND)"
    and "holds (snd (config_remove s (Some k))) (remove_first (text_bytes k) es)"
proof -
  have "fst (config_remove s (Some k)) =
      (if text_bytes k \<in> fst ` set es then CONFIG_OK else CONFIG_ERR_NOT_FOUND)
    \<and> holds (snd (config_remove s (Some k))) (remove_first (text_bytes k) es)"
    using h kl
  proof (cases rule: find_record_cases)
    case absent
    then show ?thesis using h kl by (simp add: config_remove_def holds_def remove_first_absent)
  next
    case (present es1 v es2)
    let ?buf = "cs_buffer s" and ?off = "length (run_bytes es1)" and ?n = "length (record_bytes (text_bytes k, v))"
    have s: "cs_initialised s" "length ?buf = cs_capacity s" "cs_used s \<le> length ?buf"
        "take (cs_used s) ?buf = run_bytes es1 @ record_bytes (text_bytes k, v) @ run_bytes es2"
        "entry_ok (text_bytes k, v)" "list_all entry_ok es"
      using h present(1) by (auto simp: holds_def)
    note at = record_at [OF s(4,3,5)]
    have sum: "cs_used s = ?off + ?n + length (run_bytes es2)"
      using arg_cong [OF s(4), of length] s(3) by simp
    have tail: "chunk (?off + ?n) (cs_used s - ?off - ?n) ?buf = run_bytes es2"
    proof -
      have "drop (?off + ?n) (take (cs_used s) ?buf) = run_bytes es2" unfolding s(4) by simp
      then show ?thesis by (simp add: chunk_def drop_take diff_diff_eq)
    qed
    have head: "take ?off ?buf = run_bytes es1"
    proof -
      have "take ?off (take (cs_used s) ?buf) = run_bytes es1" unfolding s(4) by simp
      then show ?thesis using sum by (simp add: min_def)
    qed
    have "cs_used s - ?n = ?off + length (run_bytes es2)" using sum by simp
    moreover have "take (?off + length (run_bytes es2)) (blit ?off (run_bytes es2) ?buf) = run_bytes es1 @ run_bytes es2"
      using take_blit [of ?off "run_bytes es2" ?buf] sum s(3) head by simp
    ultimately have "holds (s\<lparr>cs_buffer := blit ?off (run_bytes es2) ?buf, cs_used := cs_used s - ?n\<rparr>) (es1 @ es2)"
      using s sum present(1) by (simp add: holds_def del: length_record_bytes)
    then show ?thesis
      using s(1) kl present at(1,2) record_size_bytes [OF s(5)] tail
      by (simp add: config_remove_def Let_def remove_first_present del: length_record_bytes)
  qed
  then show "fst (config_remove s (Some k)) =
      (if text_bytes k \<in> fst ` set es then CONFIG_OK else CONFIG_ERR_NOT_FOUND)"
    and "holds (snd (config_remove s (Some k))) (remove_first (text_bytes k) es)" by blast+
qed

text \<open>The checking loop of the load accepts exactly the runs.\<close>

lemma records_parse_iff:
  "at \<le> used \<Longrightarrow> used \<le> length buf \<Longrightarrow>
    records_parse buf used at \<longleftrightarrow> (\<exists>es. list_all entry_ok es \<and> drop at (take used buf) = run_bytes es)"
proof (induction buf used at rule: records_parse.induct)
  case (1 buf used at)
  let ?kl = "buf ! at" and ?vl = "buf ! (at + 1)"
  let ?sz = "CONFIG_RECORD_SIZE ?kl ?vl" and ?run = "drop at (take used buf)"
  have nth: "at + i < used \<Longrightarrow> ?run ! i = buf ! (at + i)" for i using "1.prems" by simp
  have short: "\<not> (\<exists>es. list_all entry_ok es \<and> ?run = run_bytes es)"
    if "at < used" "used - at < 2 \<or> ?kl = 0 \<or> CONFIG_MAX_KEY_LENGTH < unat ?kl \<or> used - at < ?sz"
  proof
    assume "\<exists>es. list_all entry_ok es \<and> ?run = run_bytes es"
    then obtain es where es: "list_all entry_ok es" "?run = run_bytes es" by blast
    have len: "length ?run = used - at" using "1.prems" by simp
    then have "es \<noteq> []" using es(2) that(1) by auto
    then obtain k v es2 where e: "es = (k, v) # es2" by (cases es) auto
    then have eq: "?run = record_bytes (k, v) @ run_bytes es2" using es(2) by simp
    from arg_cong [OF eq, of length] have n: "used - at = length k + length v + 2 + length (run_bytes es2)"
      using len by simp
    have "?run ! 0 = word_of_nat (length k)" "?run ! 1 = word_of_nat (length v)" unfolding eq by simp_all
    then have "?kl = word_of_nat (length k)" "?vl = word_of_nat (length v)"
      using nth [of 0] nth [of 1] n by simp_all
    moreover have "entry_ok (k, v)" using es(1) e by simp
    ultimately have "unat ?kl = length k" "unat ?vl = length v" "k \<noteq> []" "length k \<le> CONFIG_MAX_KEY_LENGTH"
      by (simp_all add: u8_of_nat)
    with that(2) n show False by (auto simp: CONFIG_RECORD_SIZE_def)
  qed
  show ?case
  proof (cases "at < used")
    case False
    then have "?run = []" using "1.prems" by simp
    then show ?thesis using False by (subst records_parse.simps) (auto intro!: exI [of _ "[]"])
  next
    case True
    show ?thesis
    proof (cases "used - at < 2 \<or> ?kl = 0 \<or> CONFIG_MAX_KEY_LENGTH < unat ?kl \<or> used - at < ?sz")
      case bad: True
      with True short show ?thesis by (subst records_parse.simps) (auto simp: Let_def)
    next
      case good: False
      let ?k = "chunk (at + 2) (unat ?kl) buf" and ?v = "chunk (at + 2 + unat ?kl) (unat ?vl) buf"
      have "?sz \<le> used - at" using good by (simp add: not_less)
      then have le: "at + ?sz \<le> used" using True by simp
      have lens: "length ?k = unat ?kl" "length ?v = unat ?vl"
        using le "1.prems" by (simp_all add: CONFIG_RECORD_SIZE_def)
      have ok: "entry_ok (?k, ?v)"
        using good lens unat_u8_lt [of ?vl] by (auto simp: word_eq_unat_iff simp flip: length_greater_0_conv)
      have rec: "record_bytes (?k, ?v) = chunk at ?sz buf"
      proof -
        have "chunk at ?sz buf = chunk at 1 buf @ chunk (at + 1) 1 buf @ chunk (at + 2) (unat ?kl + unat ?vl) buf"
          using chunk_append_chunk [of at 1 buf "?sz - 1"] chunk_append_chunk [of "at + 1" 1 buf "unat ?kl + unat ?vl"]
          by (simp add: CONFIG_RECORD_SIZE_def)
        moreover have "chunk at 1 buf = [?kl]" "chunk (at + 1) 1 buf = [?vl]"
          using le "1.prems" by (auto simp: chunk_def CONFIG_RECORD_SIZE_def take_Suc hd_drop_conv_nth)
        ultimately show ?thesis
          using lens chunk_append_chunk [of "at + 2" "unat ?kl" buf "unat ?vl"] by simp
      qed
      have split: "?run = record_bytes (?k, ?v) @ drop (at + ?sz) (take used buf)"
      proof -
        have "?run = take ?sz ?run @ drop ?sz ?run" by (rule append_take_drop_id [symmetric])
        moreover have "take ?sz ?run = chunk at ?sz buf" using le by (simp add: chunk_def take_drop min_def add.commute)
        ultimately show ?thesis unfolding rec by (simp only: drop_drop add.commute)
      qed
      have IH: "records_parse buf used (at + ?sz)
          \<longleftrightarrow> (\<exists>es. list_all entry_ok es \<and> drop (at + ?sz) (take used buf) = run_bytes es)"
        using good True le "1.prems" by (intro "1.IH") auto
      have "(\<exists>es. list_all entry_ok es \<and> ?run = run_bytes es)
          \<longleftrightarrow> (\<exists>es. list_all entry_ok es \<and> drop (at + ?sz) (take used buf) = run_bytes es)"
      proof
        assume "\<exists>es. list_all entry_ok es \<and> drop (at + ?sz) (take used buf) = run_bytes es"
        then obtain es where "list_all entry_ok es" "drop (at + ?sz) (take used buf) = run_bytes es" by blast
        with ok split show "\<exists>es. list_all entry_ok es \<and> ?run = run_bytes es"
          by (intro exI [of _ "(?k, ?v) # es"]) (simp del: entry_ok.simps record_bytes.simps)
      next
        assume "\<exists>es. list_all entry_ok es \<and> ?run = run_bytes es"
        then obtain es where es: "list_all entry_ok es" "?run = run_bytes es" by blast
        have "?run \<noteq> []" using split by auto
        then obtain k v es2 where e: "es = (k, v) # es2" using es(2) by (cases es) auto
        have eok: "entry_ok (k, v)" using es(1) e by simp
        have eq: "record_bytes (?k, ?v) @ drop (at + ?sz) (take used buf) = record_bytes (k, v) @ run_bytes es2"
          using split es(2) e by (simp only: run_bytes_simps)
        then have "(word_of_nat (length ?k) :: u8) = word_of_nat (length k)"
            "(word_of_nat (length ?v) :: u8) = word_of_nat (length v)" by simp_all
        moreover have "length ?k \<le> 255" "length ?v \<le> 255" "length k \<le> 255" "length v \<le> 255"
          using ok eok by simp_all
        ultimately have "length ?k = length k" "length ?v = length v" by (metis u8_of_nat)+
        then have "length (record_bytes (?k, ?v)) = length (record_bytes (k, v))" by simp
        with eq have "drop (at + ?sz) (take used buf) = run_bytes es2" by (metis append_eq_append_conv)
        with es(1) e show "\<exists>es. list_all entry_ok es \<and> drop (at + ?sz) (take used buf) = run_bytes es" by auto
      qed
      with IH True good show ?thesis by (subst records_parse.simps) (auto simp: Let_def)
    qed
  qed
qed

subsection \<open>Enumeration of the run\<close>

lemma count_from_run:
  assumes "take (cs_used s) (cs_buffer s) = pre @ run_bytes es" and "cs_used s \<le> length (cs_buffer s)"
    and "list_all entry_ok es"
  shows "count_from s (length pre) = length es"
  using assms
proof (induction es arbitrary: pre)
  case Nil
  from arg_cong [OF Nil.prems(1), of length] Nil.prems(2) show ?case by (simp add: count_from.simps)
next
  case (Cons e es)
  obtain k v where e: "e = (k, v)" by fastforce
  have run: "take (cs_used s) (cs_buffer s) = pre @ record_bytes (k, v) @ run_bytes es"
    and ok: "entry_ok (k, v)" using Cons.prems e by auto
  note at = record_at [OF run Cons.prems(2) ok]
  have "count_from s (length (pre @ record_bytes (k, v))) = length es"
    using Cons.prems e run by (intro Cons.IH) simp_all
  then show ?case
    using at record_size_bytes [OF ok] by (subst count_from.simps) simp
qed

lemma key_from_run:
  assumes "take (cs_used s) (cs_buffer s) = pre @ run_bytes es" and "cs_used s \<le> length (cs_buffer s)"
    and "list_all entry_ok es"
  shows "key_from s n (length pre) = (if n < length es then Some (fst (es ! n)) else None)"
  using assms
proof (induction es arbitrary: pre n)
  case Nil
  from arg_cong [OF Nil.prems(1), of length] Nil.prems(2) show ?case by (simp add: key_from.simps)
next
  case (Cons e es)
  obtain k v where e: "e = (k, v)" by fastforce
  have run: "take (cs_used s) (cs_buffer s) = pre @ record_bytes (k, v) @ run_bytes es"
    and ok: "entry_ok (k, v)" using Cons.prems e by auto
  note at = record_at [OF run Cons.prems(2) ok]
  have "key_from s (n - 1) (length (pre @ record_bytes (k, v)))
      = (if n - 1 < length es then Some (fst (es ! (n - 1))) else None)"
    using Cons.prems e run by (intro Cons.IH) simp_all
  moreover have "unat (cs_buffer s ! length pre) = length k" using at(1) ok by (simp add: u8_of_nat)
  ultimately show ?case
    using at record_size_bytes [OF ok] e by (subst key_from.simps) (cases n; simp add: Let_def)
qed

lemma enumeration_run:
  assumes "holds s es"
  shows "config_count s = length es"
    and "config_key_at s i (Some b) 32 =
      (if i < length es then (True, Some ((blit 0 (fst (es ! i)) b)[length (fst (es ! i)) := 0])) else (False, Some b))"
proof -
  have s: "take (cs_used s) (cs_buffer s) = [] @ run_bytes es" "cs_used s \<le> length (cs_buffer s)"
      "list_all entry_ok es" "cs_initialised s"
    using assms by (auto simp: holds_def)
  show "config_count s = length es"
    using count_from_run [OF s(1-3)] s(4) by (simp add: config_count_def)
  have "length (fst (es ! i)) \<le> 31" if "i < length es"
    using s(3) that by (cases "es ! i") (auto simp: list_all_length)
  then show "config_key_at s i (Some b) 32 =
      (if i < length es then (True, Some ((blit 0 (fst (es ! i)) b)[length (fst (es ! i)) := 0])) else (False, Some b))"
    using key_from_run [OF s(1-3), of i] s(4) by (cases "i < length es") (auto simp: config_key_at_def not_less)
qed

subsection \<open>The map a store stands for\<close>

text \<open>What a client that passes a buffer of the largest size reads.\<close>

definition config_lookup :: "config_store_t \<Rightarrow> string \<Rightarrow> u8 list option" where
  "config_lookup store k =
     (case config_get store (Some k) (Some (replicate 255 0)) 255 of
        (result, v, len) \<Rightarrow> if result = CONFIG_OK then Some (take (unat (the len)) (the v)) else None)"

text \<open>The stores a program can have: fresh, changed by the operations, or adopted from a copy of
  the used bytes of another one.\<close>

inductive config_reachable :: "config_store_t \<Rightarrow> bool" where
  reach_init: "config_store_init s0 (Some b) (length b) = (CONFIG_OK, s) \<Longrightarrow> config_reachable s"
| reach_set: "config_reachable s \<Longrightarrow> (case value of None \<Rightarrow> True | Some v \<Rightarrow> unat len \<le> length v) \<Longrightarrow>
    config_reachable (snd (config_set s key value len))"
| reach_remove: "config_reachable s \<Longrightarrow> config_reachable (snd (config_remove s key))"
| reach_clear: "config_reachable s \<Longrightarrow> config_reachable (config_clear s)"
| reach_load: "config_reachable s \<Longrightarrow> take (cs_used s) b = take (cs_used s) (cs_buffer s) \<Longrightarrow>
    config_store_load s0 (Some b) (length b) (cs_used s) = (CONFIG_OK, s') \<Longrightarrow> config_reachable s'"

lemma unat_of_char: "unat (of_char c :: u8) = of_char c"
proof -
  have "(of_char c :: nat) < 256" by (rule nat_of_char_less_256)
  then have "unat (word_of_nat (of_char c) :: u8) = of_char c" by (simp add: unat_of_nat_lt del: of_nat_of_char)
  then show ?thesis by (simp only: of_nat_of_char)
qed

lemma of_char_u8_inj: "(of_char c :: u8) = of_char d \<longleftrightarrow> c = d"
  by (metis unat_of_char of_char_eq_iff)

lemma text_bytes_inj: "text_bytes s = text_bytes t \<longleftrightarrow> s = t"
  unfolding text_bytes_def by (rule inj_map_eq_map) (simp add: inj_def of_char_u8_inj)

lemma config_lookup_run:
  assumes "holds s es"
  shows "config_lookup s k = (if \<exists>kl. check_key (Some k) = Inr kl then map_of es (text_bytes k) else None)"
proof (cases "check_key (Some k)")
  case (Inl e)
  then show ?thesis using assms
    by (auto simp: config_lookup_def config_get_def holds_def check_key_def split: if_splits)
next
  case (Inr kl)
  show ?thesis
  proof (cases "map_of es (text_bytes k)")
    case (Some v)
    then have "(text_bytes k, v) \<in> set es" by (rule map_of_SomeD)
    then have "length v \<le> 255" using assms by (auto simp: holds_def list_all_iff)
    then show ?thesis
      using Inr Some config_get_run [OF assms Inr] by (simp add: config_lookup_def u8_of_nat blit_def)
  qed (use Inr config_get_run [OF assms Inr] in \<open>simp add: config_lookup_def\<close>)
qed

lemma update_length:
  "length (run_bytes (AList.update k v es)) + (case map_of es k of None \<Rightarrow> 0 | Some w \<Rightarrow> length k + length w + 2)
    = length (run_bytes es) + length k + length v + 2"
  by (induction es) (auto split: option.splits)

lemma holds_used: "holds s es \<Longrightarrow> cs_used s = length (run_bytes es)"
  by (auto simp: holds_def dest: arg_cong [where f = length])

lemma config_set_keeps_run:
  assumes es: "holds s es" and val: "case value of None \<Rightarrow> True | Some v \<Rightarrow> unat len \<le> length v"
  shows "\<exists>es'. holds (snd (config_set s key value len)) es' \<and> (distinct (map fst es) \<longrightarrow> distinct (map fst es'))"
proof (cases "key = None \<or> (\<exists>e. check_key key = Inl e) \<or> (value = None \<and> 0 < len)")
  case True
  then have "snd (config_set s key value len) = s"
    by (auto simp: config_set_def check_key_def split: sum.split)
  with es show ?thesis by auto
next
  case False
  then obtain k kl where k: "key = Some k" "check_key (Some k) = Inr kl" by (cases "check_key key") auto
  define v where "v = take (unat len) (case value of None \<Rightarrow> [] | Some x \<Rightarrow> x)"
  have len: "length v = unat len"
    using False val by (cases "value") (auto simp: v_def word_greater_zero_iff)
  note run = config_set_run [OF es k(2) v_def len]
  show ?thesis
  proof (cases "cs_capacity s < length (run_bytes (AList.update (text_bytes k) v es))")
    case True
    then have "snd (config_set s key value len) = s" using run(1) k(1) by simp
    with es show ?thesis by auto
  next
    case False
    then have "holds (snd (config_set s key value len)) (AList.update (text_bytes k) v es)"
      using run(2) k(1) by simp
    then show ?thesis by (intro exI conjI) (assumption, simp add: distinct_update)
  qed
qed

lemma config_remove_keeps_run:
  assumes es: "holds s es"
  shows "\<exists>es'. holds (snd (config_remove s key)) es' \<and> (distinct (map fst es) \<longrightarrow> distinct (map fst es'))"
proof (cases "check_key key")
  case (Inl e)
  then have "snd (config_remove s key) = s" by (simp add: config_remove_def)
  with es show ?thesis by auto
next
  case (Inr kl)
  then obtain k where k: "key = Some k" by (cases key) (simp_all add: check_key_def)
  from config_remove_run(2) [OF es Inr [unfolded k]] remove_first_distinct [of es "text_bytes k"] k
  show ?thesis by (intro exI [of _ "remove_first (text_bytes k) es"]) simp
qed

lemma config_clear_keeps_run: "holds s es \<Longrightarrow> holds (config_clear s) []"
  by (simp add: holds_def config_clear_def)

lemma reachable_holds: "config_reachable s \<Longrightarrow> \<exists>es. holds s es \<and> distinct (map fst es)"
proof (induction rule: config_reachable.induct)
  case (reach_init s0 b s)
  then have "holds s []" by (auto simp: config_store_init_def holds_def split: if_splits)
  then show ?case by (intro exI [of _ "[]"]) simp
next
  case (reach_set s "value" len key)
  then obtain es where es: "holds s es" "distinct (map fst es)" by blast
  from config_set_keeps_run [OF es(1) reach_set(2), of key] es(2) show ?case by blast
next
  case (reach_remove s key)
  then obtain es where es: "holds s es" "distinct (map fst es)" by blast
  from config_remove_keeps_run [OF es(1), of key] es(2) show ?case by blast
next
  case (reach_clear s)
  then show ?case using config_clear_keeps_run by (intro exI [of _ "[]"]) auto
next
  case (reach_load s b s0 s')
  then obtain es where es: "holds s es" "distinct (map fst es)" by blast
  have "holds s' es"
    using reach_load.hyps(2,3) es(1)
    by (auto simp: config_store_load_def config_store_init_def holds_def split: if_splits)
  with es(2) show ?case by blast
qed

subsection \<open>What clients rely on\<close>

text \<open>A store of named values, as the typed accessors and the applications use it: writing
  either succeeds and changes that one name, or fails and changes nothing.\<close>

locale named_values =
  fixes ok :: "'s \<Rightarrow> bool"
    and name_ok :: "'n \<Rightarrow> bool"
    and get :: "'s \<Rightarrow> 'n \<Rightarrow> 'v option"
    and set :: "'s \<Rightarrow> 'n \<Rightarrow> 'v \<Rightarrow> 'e \<times> 's"
    and done_ok :: 'e
    and val_ok :: "'v \<Rightarrow> bool"
  assumes set_good: "ok s \<Longrightarrow> name_ok n \<Longrightarrow> val_ok v \<Longrightarrow> set s n v = (done_ok, s') \<Longrightarrow>
      ok s' \<and> get s' = (get s)(n \<mapsto> v)"
    and set_bad: "ok s \<Longrightarrow> name_ok n \<Longrightarrow> val_ok v \<Longrightarrow> set s n v = (e, s') \<Longrightarrow> e \<noteq> done_ok \<Longrightarrow> s' = s"
begin

fun set_all :: "('n \<times> 'v) list \<Rightarrow> 's \<Rightarrow> 'e list \<times> 's" where
  "set_all [] s = ([], s)"
| "set_all ((n, v) # nvs) s =
     (case set s n v of (e, s) \<Rightarrow> (case set_all nvs s of (es, s) \<Rightarrow> (e # es, s)))"

text \<open>After a series of writes a name has the value of the last write to it that succeeded.\<close>

lemma last_write_wins:
  "ok s \<Longrightarrow> list_all (\<lambda>(n, v). name_ok n \<and> val_ok v) nvs \<Longrightarrow> set_all nvs s = (es, s') \<Longrightarrow>
    ok s' \<and> get s' = get s ++ map_of (rev (map fst (filter (\<lambda>(_, e). e = done_ok) (zip nvs es))))"
proof (induction nvs arbitrary: s es)
  case (Cons nv nvs)
  obtain n v where nv: "nv = (n, v)" by fastforce
  obtain e t where one: "set s n v = (e, t)" by fastforce
  obtain es2 u where rest: "set_all nvs t = (es2, u)" by fastforce
  have es: "es = e # es2" "u = s'" using Cons.prems(3) nv one rest by auto
  note rest = rest [unfolded es(2)]
  have ok_nv: "name_ok n" "val_ok v" using Cons.prems(2) nv by auto
  show ?case
  proof (cases "e = done_ok")
    case True
    with set_good [OF Cons.prems(1) ok_nv] one have t: "ok t" "get t = (get s)(n \<mapsto> v)" by auto
    from Cons.IH [OF t(1) _ rest] Cons.prems(2) nv es t(2) True show ?thesis
      by (simp add: map_add_def fun_eq_iff split: option.splits)
  next
    case False
    with set_bad [OF Cons.prems(1) ok_nv one] have "t = s" by simp
    with Cons.IH [OF Cons.prems(1) _ rest [unfolded \<open>t = s\<close>]] Cons.prems(2) nv es False show ?thesis
      by simp
  qed
qed simp

end

definition config_put :: "config_store_t \<Rightarrow> string \<Rightarrow> u8 list \<Rightarrow> config_result_t \<times> config_store_t" where
  "config_put s k v = config_set s (Some k) (Some v) (word_of_nat (length v))"

definition key_ok :: "string \<Rightarrow> bool" where
  "key_ok k \<longleftrightarrow> k \<noteq> [] \<and> length k \<le> CONFIG_MAX_KEY_LENGTH"

lemma check_key_ok: "key_ok k \<Longrightarrow> check_key (Some k) = Inr (word_of_nat (length k))"
  by (simp add: check_key_def key_ok_def)

lemma check_key_iff: "(\<exists>kl. check_key (Some k) = Inr kl) \<longleftrightarrow> key_ok k"
  by (auto simp: check_key_def key_ok_def)

definition record_cost :: "string \<Rightarrow> u8 list option \<Rightarrow> nat" where
  "record_cost k v = (case v of None \<Rightarrow> 0 | Some w \<Rightarrow> length k + length w + 2)"

lemma config_put_map:
  assumes s: "config_reachable s" and k: "key_ok k" and v: "length v \<le> CONFIG_MAX_VALUE_LENGTH"
    and run: "config_put s k v = (e, s')"
  shows "e = CONFIG_OK \<and> config_reachable s' \<and> config_lookup s' = (config_lookup s)(k \<mapsto> v)
      \<and> cs_used s' + record_cost k (config_lookup s k) = cs_used s + record_cost k (Some v)
    \<or> e = CONFIG_ERR_FULL \<and> s' = s
      \<and> cs_capacity s + record_cost k (config_lookup s k) < cs_used s + record_cost k (Some v)"
proof -
  obtain es where h: "holds s es" "distinct (map fst es)" using reachable_holds [OF s] by blast
  note kl = check_key_ok [OF k]
  have len: "unat (word_of_nat (length v) :: u8) = length v" using v by (simp add: u8_of_nat)
  have cut: "v = take (unat (word_of_nat (length v) :: u8)) (case Some v of None \<Rightarrow> [] | Some x \<Rightarrow> x)"
    by (simp add: len)
  let ?es = "AList.update (text_bytes k) v es"
  note set = config_set_run [OF h(1) kl cut len [symmetric], folded config_put_def, unfolded run]
  have look: "config_lookup s k = map_of es (text_bytes k)"
    using config_lookup_run [OF h(1)] kl by auto
  have size: "length (run_bytes ?es) + record_cost k (config_lookup s k) = cs_used s + record_cost k (Some v)"
    using update_length [of "text_bytes k" v es] holds_used [OF h(1)]
    by (simp add: record_cost_def look split: option.splits)
  show ?thesis
  proof (cases "cs_capacity s < length (run_bytes ?es)")
    case True
    with set(1) size show ?thesis by auto
  next
    case False
    then have h': "holds s' ?es" using set(2) by simp
    have ok: "e = CONFIG_OK" using set(1) False by simp
    have "config_reachable (snd (config_set s (Some k) (Some v) (word_of_nat (length v))))"
      by (rule reach_set [OF s]) (simp add: len)
    then have r: "config_reachable s'" using run by (simp add: config_put_def)
    have "config_lookup s' = (config_lookup s)(k \<mapsto> v)"
    proof
      fix j
      show "config_lookup s' j = ((config_lookup s)(k \<mapsto> v)) j"
        unfolding config_lookup_run [OF h'] config_lookup_run [OF h(1)]
        using kl by (auto simp: update_conv text_bytes_inj)
    qed
    with ok r size holds_used [OF h'] show ?thesis by simp
  qed
qed

interpretation cs: named_values config_reachable key_ok config_lookup config_put CONFIG_OK
  "\<lambda>v. length v \<le> CONFIG_MAX_VALUE_LENGTH"
proof unfold_locales
  fix s n v s'
  assume "config_reachable s" "key_ok n" "length v \<le> CONFIG_MAX_VALUE_LENGTH" "config_put s n v = (CONFIG_OK, s')"
  from config_put_map [OF this] show "config_reachable s' \<and> config_lookup s' = (config_lookup s)(n \<mapsto> v)" by simp
next
  fix s n v e s'
  assume "config_reachable s" "key_ok n" "length v \<le> CONFIG_MAX_VALUE_LENGTH" "config_put s n v = (e, s')"
    and "e \<noteq> CONFIG_OK"
  with config_put_map [OF this(1-4)] show "s' = s" by auto
qed

lemma config_get_held:
  assumes h: "holds s es" and "key_ok k"
  shows "config_get s (Some k) value capacity =
    (case config_lookup s k of
       None \<Rightarrow> (CONFIG_ERR_NOT_FOUND, value, Some 0)
     | Some v \<Rightarrow>
         if unat capacity < length v then (CONFIG_ERR_TOO_SMALL, value, Some (word_of_nat (length v)))
         else (CONFIG_OK, if v = [] then value else map_option (blit 0 v) value, Some (word_of_nat (length v))))"
  using config_get_run [OF h check_key_ok [OF assms(2)]] config_lookup_run [OF h] assms(2)
  by (simp add: check_key_iff)

lemma config_get_lookup:
  assumes "config_reachable s" and "key_ok k"
  shows "config_get s (Some k) value capacity =
    (case config_lookup s k of
       None \<Rightarrow> (CONFIG_ERR_NOT_FOUND, value, Some 0)
     | Some v \<Rightarrow>
         if unat capacity < length v then (CONFIG_ERR_TOO_SMALL, value, Some (word_of_nat (length v)))
         else (CONFIG_OK, if v = [] then value else map_option (blit 0 v) value, Some (word_of_nat (length v))))"
  using reachable_holds [OF assms(1)] config_get_held [OF _ assms(2)] by blast

lemma held_length:
  assumes h: "holds s es" and v: "config_lookup s k = Some v"
  shows "length v \<le> CONFIG_MAX_VALUE_LENGTH"
proof -
  have "map_of es (text_bytes k) = Some v" using config_lookup_run [OF h, of k] v by (simp split: if_splits)
  then have "(text_bytes k, v) \<in> set es" by (rule map_of_SomeD)
  then show ?thesis using h by (auto simp: holds_def list_all_iff)
qed

lemma config_get_u32_held:
  assumes h: "holds t es" and k: "key_ok k"
  shows "config_get_u32 t (Some k) (Some cell) fallback =
    (case config_lookup t k of
       None \<Rightarrow> (CONFIG_ERR_NOT_FOUND, Some fallback)
     | Some v \<Rightarrow> if length v = 4 then (CONFIG_OK, Some (of_le32 v)) else (CONFIG_ERR_CORRUPT, Some fallback))"
proof (cases "config_lookup t k")
  case None
  then show ?thesis using config_get_held [OF assms] by (simp add: config_get_u32_def)
next
  case (Some v)
  have "length v \<le> 255" by (rule held_length [OF h Some])
  then have len: "(word_of_nat (length v) :: u8) = 4 \<longleftrightarrow> length v = 4"
    by (auto simp: word_eq_unat_iff u8_of_nat)
  show ?thesis
  proof (cases "length v = 4")
    case True
    then have "v \<noteq> []" by auto
    moreover have "blit 0 v (replicate 4 0) = v" using True by (simp add: blit_def)
    ultimately show ?thesis
      using config_get_held [OF assms] Some True by (simp add: config_get_u32_def)
  next
    case False
    with len show ?thesis using config_get_held [OF assms] Some by (auto simp: config_get_u32_def)
  qed
qed

subsection \<open>Properties\<close>

text \<open>C12: the store is a finite map in bounded memory. In every store a program can have, a series
  of writes of values of at most 255 bytes leaves every key with the value of the last write to
  it that succeeded, and with its old value when none did; a write fails only because its record
  does not fit beside the records of the other keys, and then changes nothing. The space of a
  replaced value is reused to the byte.\<close>

theorem config_set_is_map_update:
  assumes "config_reachable s" and "list_all (\<lambda>(k, v). key_ok k \<and> length v \<le> CONFIG_MAX_VALUE_LENGTH) writes"
    and "cs.set_all writes s = (results, s')" and "key_ok k" and "length v \<le> CONFIG_MAX_VALUE_LENGTH"
    and "config_set s' (Some k) (Some v) (word_of_nat (length v)) = (e, s'')"
  shows "config_lookup s' = config_lookup s ++ map_of (rev (map fst (filter (\<lambda>(_, r). r = CONFIG_OK) (zip writes results))))
    \<and> (e = CONFIG_OK \<and> config_lookup s'' = (config_lookup s')(k \<mapsto> v)
        \<and> cs_used s'' + record_cost k (config_lookup s' k) = cs_used s' + record_cost k (Some v)
      \<or> e = CONFIG_ERR_FULL \<and> s'' = s'
        \<and> cs_capacity s' + record_cost k (config_lookup s' k) < cs_used s' + record_cost k (Some v))"
proof (rule conjI)
  note all = cs.last_write_wins [OF assms(1-3)]
  then show "config_lookup s' = config_lookup s ++ map_of (rev (map fst (filter (\<lambda>(_, r). r = CONFIG_OK) (zip writes results))))"
    by simp
  have "config_put s' k v = (e, s'')" using assms(6) by (simp add: config_put_def)
  from config_put_map [OF conjunct1 [OF all] assms(4,5) this]
  show "e = CONFIG_OK \<and> config_lookup s'' = (config_lookup s')(k \<mapsto> v)
        \<and> cs_used s'' + record_cost k (config_lookup s' k) = cs_used s' + record_cost k (Some v)
      \<or> e = CONFIG_ERR_FULL \<and> s'' = s'
        \<and> cs_capacity s' + record_cost k (config_lookup s' k) < cs_used s' + record_cost k (Some v)" by blast
qed

definition empty_store :: "nat \<Rightarrow> config_store_t" where
  "empty_store n = \<lparr>cs_buffer = replicate n 0, cs_capacity = n, cs_used = 0, cs_initialised = True\<rparr>"

lemma empty_store_reachable: "0 < n \<Longrightarrow> config_reachable (empty_store n)"
  by (rule reach_init [of "empty_store n" "replicate n 0"]) (simp add: config_store_init_def empty_store_def)

lemma empty_store_lookup: "config_lookup (empty_store n) = (\<lambda>_. None)"
proof
  fix k
  have "holds (empty_store n) []" by (simp add: holds_def empty_store_def)
  from config_lookup_run [OF this] show "config_lookup (empty_store n) k = None" by simp
qed

theorem config_set_is_map_update_witness:
  "\<exists>s' results s'' e. cs.set_all [(''a'', [1, 2]), (''b'', replicate 9 7), (''a'', [3])] (empty_store 16) = (results, s')
     \<and> config_set s' (Some ''c'') (Some []) 0 = (e, s'')
     \<and> config_lookup s' = Map.empty ++ map_of (rev (map fst (filter (\<lambda>(_, r). r = CONFIG_OK)
          (zip [(''a'', [1, 2]), (''b'', replicate 9 7), (''a'', [3])] results))))"
proof -
  let ?w = "[(''a'', [1, 2]), (''b'', replicate 9 7), (''a'', [3])] :: (string \<times> u8 list) list"
  have r: "config_reachable (empty_store 16)" by (rule empty_store_reachable) simp
  obtain results s' where run: "cs.set_all ?w (empty_store 16) = (results, s')" by fastforce
  obtain e s'' where set: "config_set s' (Some ''c'') (Some []) (word_of_nat (length ([] :: u8 list))) = (e, s'')" by fastforce
  have w: "list_all (\<lambda>(k, v). key_ok k \<and> length v \<le> CONFIG_MAX_VALUE_LENGTH) ?w" "key_ok ''c''"
    by (simp_all add: key_ok_def)
  from config_set_is_map_update [OF r w(1) run w(2) _ set] run set
  show ?thesis by (simp add: empty_store_lookup)
qed

text \<open>Removing a key removes exactly that key: it reports whether the key was there, afterwards
  the key is absent, every other key reads as before and the bytes of the record are free again.\<close>

theorem config_remove_is_map_removal:
  assumes "config_reachable s" and "key_ok k" and "config_remove s (Some k) = (e, s')"
  shows "e = (if config_has s (Some k) then CONFIG_OK else CONFIG_ERR_NOT_FOUND)
    \<and> config_lookup s' = (config_lookup s)(k := None) \<and> \<not> config_has s' (Some k)
    \<and> cs_used s' + record_cost k (config_lookup s k) = cs_used s"
proof -
  obtain es where h: "holds s es" "distinct (map fst es)" using reachable_holds [OF assms(1)] by blast
  note kl = check_key_ok [OF assms(2)]
  note rem = config_remove_run [OF h(1) kl, unfolded assms(3)]
  have h': "holds s' (remove_first (text_bytes k) es)" using rem(2) by simp
  have look: "config_lookup s' = (config_lookup s)(k := None)"
  proof
    fix j
    show "config_lookup s' j = ((config_lookup s)(k := None)) j"
      unfolding config_lookup_run [OF h'] config_lookup_run [OF h(1)]
      using remove_first_distinct [OF h(2), of "text_bytes k"] by (auto simp: text_bytes_inj)
  qed
  have r': "config_reachable s'" using reach_remove [OF assms(1), of "Some k"] assms(3) by simp
  have has: "config_has t (Some k) \<longleftrightarrow> config_lookup t k \<noteq> None" if "config_reachable t" for t
    using config_get_lookup [OF that assms(2), of None 0]
    by (auto simp: config_has_def split: option.splits)
  have "config_lookup s k \<noteq> None \<longleftrightarrow> text_bytes k \<in> fst ` set es"
    using config_lookup_run [OF h(1)] kl by (simp add: check_key_iff assms(2) map_of_eq_None_iff)
  moreover have "length (run_bytes (remove_first (text_bytes k) es)) + record_cost k (map_of es (text_bytes k))
      = length (run_bytes es)"
    by (induction es) (auto simp: record_cost_def split: option.splits)
  ultimately show ?thesis
    using rem(1) has assms(1) r' look holds_used [OF h(1)] holds_used [OF h'] config_lookup_run [OF h(1)] kl
    by (auto simp: check_key_iff assms(2))
qed

theorem config_remove_is_map_removal_witness:
  "\<exists>s e s'. config_set (empty_store 16) (Some ''k'') (Some [5]) 1 = (CONFIG_OK, s)
     \<and> config_remove s (Some ''k'') = (e, s') \<and> \<not> config_has s' (Some ''k'')"
proof -
  have r: "config_reachable (empty_store 16)" by (rule empty_store_reachable) simp
  have k: "key_ok ''k''" by (simp add: key_ok_def)
  obtain e0 s where put: "config_put (empty_store 16) ''k'' [5] = (e0, s)" by fastforce
  from config_put_map [OF r k _ put] have "e0 = CONFIG_OK" "config_reachable s"
    by (auto simp: empty_store_lookup record_cost_def empty_store_def)
  moreover obtain e s' where rem: "config_remove s (Some ''k'') = (e, s')" by fastforce
  ultimately show ?thesis
    using config_remove_is_map_removal [OF _ k rem] put by (auto simp: config_put_def)
qed

text \<open>Adopting stored bytes is all or nothing: the load succeeds exactly on the runs of whole
  records with keys of 1 to 31 bytes that end at \<open>used\<close>, and then keeps all of it; any other
  content leaves an empty, usable store.\<close>

theorem config_load_accepts_exactly_runs:
  assumes "config_store_load s0 (Some b) (length b) used = (e, s)" and "b \<noteq> []"
  shows "(e = CONFIG_OK \<longleftrightarrow> used \<le> length b \<and> (\<exists>es. list_all entry_ok es \<and> take used b = run_bytes es))
    \<and> (e = CONFIG_OK \<longrightarrow> cs_used s = used \<and> cs_buffer s = b)
    \<and> (e \<noteq> CONFIG_OK \<longrightarrow> e = CONFIG_ERR_CORRUPT \<and> s = \<lparr>cs_buffer = b, cs_capacity = length b, cs_used = 0,
         cs_initialised = True\<rparr>)"
proof (cases "used \<le> length b")
  case True
  with records_parse_iff [of 0 used b] assms show ?thesis
    by (auto simp: config_store_load_def config_store_init_def split: if_splits)
next
  case False
  with assms show ?thesis by (auto simp: config_store_load_def config_store_init_def split: if_splits)
qed

theorem config_load_accepts_exactly_runs_witness:
  "\<exists>s. config_store_load (empty_store 1) (Some [1, 2, 65, 8, 9, 0]) 6 5 = (CONFIG_OK, s) \<and> cs_used s = 5"
proof -
  obtain e s where run: "config_store_load (empty_store 1) (Some [1, 2, 65, 8, 9, 0])
      (length [1, 2, 65, 8, 9, 0 :: u8]) 5 = (e, s)" by fastforce
  have "list_all entry_ok [([65], [8, 9])] \<and> take 5 [1, 2, 65, 8, 9, 0] = run_bytes [([65 :: u8], [8, 9])]"
    by simp
  then have "\<exists>es. list_all entry_ok es \<and> take 5 [1, 2, 65, 8, 9, 0 :: u8] = run_bytes es" by blast
  with config_load_accepts_exactly_runs [OF run] have "e = CONFIG_OK" "cs_used s = 5" by simp_all
  have n: "length [1, 2, 65, 8, 9, 0 :: u8] = 6" by simp
  from run have "config_store_load (empty_store 1) (Some [1, 2, 65, 8, 9, 0]) 6 5 = (CONFIG_OK, s)"
    unfolding n \<open>e = CONFIG_OK\<close> .
  with \<open>cs_used s = 5\<close> show ?thesis by blast
qed

text \<open>Numbers. Reading a 32-bit value gives the value stored little-endian under that key; a key
  that is absent gives the fallback and says so, and a value of any other length is reported as
  a mismatch, with the fallback. What \<open>config_set_u32\<close> stored is read back.\<close>

theorem config_u32_roundtrip:
  assumes "config_reachable s" and "key_ok k"
  shows "config_get_u32 s (Some k) (Some cell) fallback =
      (case config_lookup s k of
         None \<Rightarrow> (CONFIG_ERR_NOT_FOUND, Some fallback)
       | Some v \<Rightarrow> if length v = 4 then (CONFIG_OK, Some (of_le32 v)) else (CONFIG_ERR_CORRUPT, Some fallback))
    \<and> (config_set_u32 s (Some k) n = (CONFIG_OK, s') \<longrightarrow>
      config_get_u32 s' (Some k) (Some cell) fallback = (CONFIG_OK, Some n))"
proof (intro conjI impI)
  have get: "config_get_u32 t (Some k) (Some cell) fallback =
      (case config_lookup t k of
         None \<Rightarrow> (CONFIG_ERR_NOT_FOUND, Some fallback)
       | Some v \<Rightarrow> if length v = 4 then (CONFIG_OK, Some (of_le32 v)) else (CONFIG_ERR_CORRUPT, Some fallback))"
    if "config_reachable t" for t
    using reachable_holds [OF that] config_get_u32_held [OF _ assms(2)] by blast
  then show "config_get_u32 s (Some k) (Some cell) fallback =
      (case config_lookup s k of
         None \<Rightarrow> (CONFIG_ERR_NOT_FOUND, Some fallback)
       | Some v \<Rightarrow> if length v = 4 then (CONFIG_OK, Some (of_le32 v)) else (CONFIG_ERR_CORRUPT, Some fallback))"
    using assms(1) .
  assume "config_set_u32 s (Some k) n = (CONFIG_OK, s')"
  then have put: "config_put s k (le32 n) = (CONFIG_OK, s')"
    by (simp add: config_set_u32_def config_put_def le32_def)
  from config_put_map [OF assms _ put] have "config_reachable s'" "config_lookup s' k = Some (le32 n)" by simp_all
  then show "config_get_u32 s' (Some k) (Some cell) fallback = (CONFIG_OK, Some n)" by (simp add: get)
qed

theorem config_u32_roundtrip_witness:
  "\<exists>s. config_set_u32 (empty_store 16) (Some ''n'') 0xDEADBEEF = (CONFIG_OK, s)
     \<and> config_get_u32 s (Some ''n'') (Some 0) 7 = (CONFIG_OK, Some 0xDEADBEEF)"
proof -
  have r: "config_reachable (empty_store 16)" by (rule empty_store_reachable) simp
  have k: "key_ok ''n''" by (simp add: key_ok_def)
  obtain e s where put: "config_put (empty_store 16) ''n'' (le32 0xDEADBEEF) = (e, s)" by fastforce
  from config_put_map [OF r k _ put] have "e = CONFIG_OK"
    by (auto simp: empty_store_lookup record_cost_def empty_store_def)
  with put have "config_set_u32 (empty_store 16) (Some ''n'') 0xDEADBEEF = (CONFIG_OK, s)"
    by (simp add: config_set_u32_def config_put_def le32_def)
  with config_u32_roundtrip [OF r k, of 0 7 "0xDEADBEEF" s] show ?thesis by blast
qed

text \<open>Texts. A text of at most 255 characters that was stored is read back whole, followed by the
  terminator, into any buffer of up to 256 bytes that has room for both; a buffer that is too
  short gets the fallback, cut to fit, and never a part of the text.\<close>

theorem config_string_roundtrip:
  assumes "config_reachable s" and "key_ok k" and "config_set_string s (Some k) (Some t) = (CONFIG_OK, s')"
    and "length b = capacity" and "0 < capacity" and "capacity \<le> 256"
  shows "if length t + 1 \<le> capacity
    then config_get_string s' (Some k) (Some b) capacity fallback
      = (CONFIG_OK, Some (blit 0 (text_bytes t @ [0]) b))
    else \<exists>b'. config_get_string s' (Some k) (Some b) capacity fallback = (CONFIG_ERR_TOO_SMALL, Some b')
      \<and> (\<exists>n < capacity. take (n + 1) b' = take n (text_bytes (case fallback of None \<Rightarrow> [] | Some f \<Rightarrow> f)) @ [0])"
proof -
  have t: "length t \<le> 255" and put: "config_put s k (text_bytes t) = (CONFIG_OK, s')"
    using assms(3) by (auto simp: config_set_string_def config_put_def split: if_splits)
  from config_put_map [OF assms(1,2) _ put] t
  have s': "config_reachable s'" "config_lookup s' k = Some (text_bytes t)" by simp_all
  note get = config_get_lookup [OF s'(1) assms(2), unfolded s'(2)]
  have len: "unat (word_of_nat (length t) :: u8) = length t" using t by (simp add: u8_of_nat)
  have cap: "unat (word_of_nat (capacity - 1) :: u8) = capacity - 1" using assms(6) by (simp add: u8_of_nat)
  show ?thesis
  proof (cases "length t + 1 \<le> capacity")
    case True
    have nil: "text_bytes t = [] \<longleftrightarrow> t = []" by (simp add: text_bytes_def)
    have "(blit 0 (text_bytes t) b)[length t := 0] = blit 0 (text_bytes t @ [0]) b"
      using True assms(4) blit_after_blit [of 0 "text_bytes t" "[0]" b] by (simp add: update_blit)
    moreover have "t = [] \<Longrightarrow> b[0 := 0] = blit 0 (text_bytes t @ [0]) b"
      using True assms(4) update_blit [of 0 b 0] by (simp add: text_bytes_def)
    ultimately show ?thesis
      using True get len cap assms(5) by (cases "t = []") (auto simp: config_get_string_def Let_def nil)
  next
    case False
    let ?f = "case fallback of None \<Rightarrow> 0 | Some f \<Rightarrow> length f"
    let ?n = "if ?f + 1 \<le> capacity then ?f else capacity - 1"
    let ?v = "if 0 < ?n then blit 0 (take ?n (text_bytes (the fallback))) b else b"
    have n: "?n < capacity" "?n \<le> ?f" using assms(5) by auto
    have run: "config_get_string s' (Some k) (Some b) capacity fallback = (CONFIG_ERR_TOO_SMALL, Some (?v[?n := 0]))"
      using False get len assms(5) by (auto simp: config_get_string_def Let_def)
    have "take (?n + 1) (?v[?n := 0]) = take ?n (text_bytes (case fallback of None \<Rightarrow> [] | Some f \<Rightarrow> f)) @ [0]"
    proof (cases "fallback")
      case None
      then show ?thesis using assms(4,5) by (cases b) (simp_all add: text_bytes_def)
    next
      case (Some f)
      then have flen: "length (take ?n (text_bytes f)) = ?n" using n by simp
      have v: "?v = blit 0 (take ?n (text_bytes f)) b"
        using Some assms(4) by (cases "0 < ?n") simp_all
      have "?v[?n := 0] = blit 0 (take ?n (text_bytes f) @ [0]) b"
        unfolding v using blit_after_blit [of 0 "take ?n (text_bytes f)" "[0]" b] n(1) assms(4) flen
        by (simp add: update_blit del: length_take)
      then show ?thesis
        using take_blit [of 0 "take ?n (text_bytes f) @ [0]" b] n(1) assms(4) flen Some
        by (simp del: length_take)
    qed
    with run n(1) False show ?thesis by (simp only: if_False) blast
  qed
qed

text \<open>A buffer of 257 bytes cannot be used to read any text: its size less the terminator does
  not fit the byte it is converted to, so a text that fits with room to spare is reported as too
  long for the buffer.\<close>

theorem config_string_capacity_truncated:
  "\<exists>s b. config_set_string (empty_store 16) (Some ''ssid'') (Some ''home'') = (CONFIG_OK, s)
     \<and> config_get_string s (Some ''ssid'') (Some (replicate 257 1)) 257 None = (CONFIG_ERR_TOO_SMALL, Some b)"
proof -
  have r: "config_reachable (empty_store 16)" by (rule empty_store_reachable) simp
  have k: "key_ok ''ssid''" by (simp add: key_ok_def)
  obtain e s where put: "config_put (empty_store 16) ''ssid'' (text_bytes ''home'') = (e, s)" by fastforce
  from config_put_map [OF r k _ put] have s: "e = CONFIG_OK" "config_reachable s"
      "config_lookup s ''ssid'' = Some (text_bytes ''home'')"
    by (auto simp: empty_store_lookup record_cost_def empty_store_def)
  with put have "config_set_string (empty_store 16) (Some ''ssid'') (Some ''home'') = (CONFIG_OK, s)"
    by (simp add: config_set_string_def config_put_def)
  moreover have "fst (config_get_string s (Some ''ssid'') (Some (replicate 257 1)) 257 None) = CONFIG_ERR_TOO_SMALL
      \<and> snd (config_get_string s (Some ''ssid'') (Some (replicate 257 1)) 257 None) \<noteq> None"
    using config_get_lookup [OF s(2) k, unfolded s(3)] by (simp add: config_get_string_def Let_def)
  ultimately show ?thesis
    by (cases "config_get_string s (Some ''ssid'') (Some (replicate 257 1)) 257 None") auto
qed

theorem config_string_roundtrip_witness:
  "\<exists>s. config_set_string (empty_store 16) (Some ''k'') (Some ''hi'') = (CONFIG_OK, s)
     \<and> config_get_string s (Some ''k'') (Some [9, 9, 9, 9]) 4 None = (CONFIG_OK, Some (text_bytes ''hi'' @ [0, 9]))"
proof -
  have r: "config_reachable (empty_store 16)" by (rule empty_store_reachable) simp
  have k: "key_ok ''k''" by (simp add: key_ok_def)
  obtain e s where put: "config_put (empty_store 16) ''k'' (text_bytes ''hi'') = (e, s)" by fastforce
  from config_put_map [OF r k _ put] have "e = CONFIG_OK"
    by (auto simp: empty_store_lookup record_cost_def empty_store_def)
  with put have set: "config_set_string (empty_store 16) (Some ''k'') (Some ''hi'') = (CONFIG_OK, s)"
    by (simp add: config_set_string_def config_put_def)
  have "config_get_string s (Some ''k'') (Some [9, 9, 9, 9]) 4 None
      = (CONFIG_OK, Some (blit 0 (text_bytes ''hi'' @ [0]) [9, 9, 9, 9]))"
    using config_string_roundtrip [OF r k set, of "[9, 9, 9, 9]" 4 None] by simp
  with set show ?thesis by (simp add: blit_def)
qed

end
