(* ===== verification/Persistent_Config.thy ===== *)
theory Persistent_Config
  imports Config_Store Flash_Storage Crc
begin

text \<open>
  Model of \<open>components/persistent_config/persistent_config\<close>: the configuration store kept in two
  flash slots that are written in turn. The flash is the last component of the state, read
  through the SDK parameter \<open>sdk\<close> of \<open>Flash_Storage\<close>; the pointer to the computed layout is the
  argument \<open>layout\<close>. The null buffer of a zeroed store is the empty list. The lemmas show that
  what a save wrote is what the next load reads, that a save which is cut off or fails at any
  of its flash operations leaves the previous configuration as the one that loads, and where
  the sequence numbers fail to do so.
\<close>

abbreviation (input) PERSISTENT_CONFIG_MAGIC :: u32 where "PERSISTENT_CONFIG_MAGIC \<equiv> 0x31464350"
abbreviation (input) RECORDS_AT :: u32 where "RECORDS_AT \<equiv> 256"
abbreviation (input) HEADER_CRC_COVERAGE :: nat where "HEADER_CRC_COVERAGE \<equiv> 16"

datatype persistent_config_result_t =
    PERSISTENT_CONFIG_OK
  | PERSISTENT_CONFIG_ERR_INVALID_ARG
  | PERSISTENT_CONFIG_ERR_NO_SPACE
  | PERSISTENT_CONFIG_ERR_EMPTY
  | PERSISTENT_CONFIG_ERR_CORRUPT
  | PERSISTENT_CONFIG_ERR_TOO_LARGE
  | PERSISTENT_CONFIG_ERR_FLASH

record slot_header_t =
  hdr_magic :: u32
  hdr_sequence :: u32
  hdr_length :: u32
  hdr_records_crc32 :: u32
  hdr_header_crc32 :: u32

record persistent_config_t =
  pc_store :: config_store_t
  pc_slot :: "flash_region_t list"
  pc_current :: u8
  pc_sequence :: u32
  pc_loaded :: bool

definition slot_header_bytes :: "slot_header_t \<Rightarrow> u8 list" where
  "slot_header_bytes h = le32 (hdr_magic h) @ le32 (hdr_sequence h) @ le32 (hdr_length h)
     @ le32 (hdr_records_crc32 h) @ le32 (hdr_header_crc32 h)"

definition slot_header_of_bytes :: "u8 list \<Rightarrow> slot_header_t" where
  "slot_header_of_bytes bs =
     \<lparr>hdr_magic = of_le32 (chunk 0 4 bs), hdr_sequence = of_le32 (chunk 4 4 bs),
      hdr_length = of_le32 (chunk 8 4 bs), hdr_records_crc32 = of_le32 (chunk 12 4 bs),
      hdr_header_crc32 = of_le32 (chunk 16 4 bs)\<rparr>"

definition persistent_config_zero :: persistent_config_t where
  "persistent_config_zero =
     \<lparr>pc_store = \<lparr>cs_buffer = [], cs_capacity = 0, cs_used = 0, cs_initialised = False\<rparr>,
      pc_slot = replicate 2 \<lparr>reg_offset = 0, reg_size = 0\<rparr>, pc_current = 0, pc_sequence = 0, pc_loaded = False\<rparr>"

definition persistent_config_capacity :: nat where
  "persistent_config_capacity = unat (FLASH_LAYOUT_SECTOR_SIZE - RECORDS_AT)"

definition slot_header_crc :: "slot_header_t \<Rightarrow> u32" where
  "slot_header_crc header = crc32 (Some (take HEADER_CRC_COVERAGE (slot_header_bytes header)))"

definition slot_regions :: "flash_layout_t \<Rightarrow> persistent_config_t \<Rightarrow> bool \<times> persistent_config_t" where
  "slot_regions layout config =
     (if reg_size (data_region layout) < 2 * FLASH_LAYOUT_SECTOR_SIZE then (False, config)
      else
        (True, config\<lparr>pc_slot :=
          [\<lparr>reg_offset = reg_offset (data_region layout), reg_size = FLASH_LAYOUT_SECTOR_SIZE\<rparr>,
           \<lparr>reg_offset = reg_offset (data_region layout) + FLASH_LAYOUT_SECTOR_SIZE,
            reg_size = FLASH_LAYOUT_SECTOR_SIZE\<rparr>]\<rparr>))"

definition slot_read :: "'f flash_sdk \<Rightarrow> flash_region_t \<Rightarrow> 'f \<Rightarrow> (slot_header_t \<times> u8 list) option" where
  "slot_read sdk slot f =
     (case flash_storage_data sdk slot 0 20 f of
        None \<Rightarrow> None
      | Some raw \<Rightarrow>
          (let header = slot_header_of_bytes raw in
           if hdr_magic header \<noteq> PERSISTENT_CONFIG_MAGIC then None
           else if hdr_header_crc32 header \<noteq> slot_header_crc header then None
           else if persistent_config_capacity < unat (hdr_length header) then None
           else
             (case flash_storage_data sdk slot RECORDS_AT (hdr_length header) f of
                None \<Rightarrow> None
              | Some payload \<Rightarrow>
                  if crc32 (Some payload) \<noteq> hdr_records_crc32 header then None
                  else Some (header, payload))))"

definition sequence_is_later :: "u32 \<Rightarrow> u32 \<Rightarrow> bool" where
  "sequence_is_later a b \<longleftrightarrow> 0 < sint (a - b)"

text \<open>Which slot the load takes: \<open>None\<close> is the \<open>-1\<close> of the code.\<close>

definition chosen_slot ::
  "(slot_header_t \<times> u8 list) option \<Rightarrow> (slot_header_t \<times> u8 list) option \<Rightarrow> nat option" where
  "chosen_slot s0 s1 =
     (case s0 of
        Some (h0, _) \<Rightarrow>
          (case s1 of
             Some (h1, _) \<Rightarrow> Some (if sequence_is_later (hdr_sequence h1) (hdr_sequence h0) then 1 else 0)
           | None \<Rightarrow> Some 0)
      | None \<Rightarrow> (case s1 of Some _ \<Rightarrow> Some 1 | None \<Rightarrow> None))"

text \<open>The end of the load, once a slot is chosen: its records are copied out and adopted.\<close>

fun adopt_slot ::
  "persistent_config_t \<Rightarrow> u8 list \<Rightarrow> nat \<Rightarrow> nat \<Rightarrow> slot_header_t \<times> u8 list
    \<Rightarrow> persistent_config_result_t \<times> persistent_config_t" where
  "adopt_slot config buffer capacity chosen (header, records) =
     (if capacity < unat (hdr_length header)
      then (PERSISTENT_CONFIG_ERR_TOO_LARGE,
            config\<lparr>pc_store := snd (config_store_init (pc_store config) (Some buffer) capacity)\<rparr>)
      else
        (let buffer = blit 0 records buffer in
         case config_store_load (pc_store config) (Some buffer) capacity (unat (hdr_length header)) of
           (adopted, store) \<Rightarrow>
             if adopted \<noteq> CONFIG_OK
             then (PERSISTENT_CONFIG_ERR_CORRUPT,
                   config\<lparr>pc_store := snd (config_store_init store (Some buffer) capacity)\<rparr>)
             else (PERSISTENT_CONFIG_OK,
                   config\<lparr>pc_store := store, pc_current := word_of_nat chosen,
                          pc_sequence := hdr_sequence header, pc_loaded := True\<rparr>)))"

definition persistent_config_load ::
  "'f flash_sdk \<Rightarrow> flash_layout_t \<Rightarrow> persistent_config_t \<Rightarrow> u8 list option \<Rightarrow> nat \<Rightarrow> 'f
    \<Rightarrow> persistent_config_result_t \<times> persistent_config_t" where
  "persistent_config_load sdk layout config buffer capacity f =
     (if buffer = None \<or> capacity = 0 then (PERSISTENT_CONFIG_ERR_INVALID_ARG, config)
      else
        (case slot_regions layout persistent_config_zero of
           (room, config) \<Rightarrow>
             (let empty = config\<lparr>pc_store := snd (config_store_init (pc_store config) buffer capacity)\<rparr> in
              if \<not> room then (PERSISTENT_CONFIG_ERR_NO_SPACE, empty)
              else
                (let s0 = slot_read sdk (pc_slot config ! 0) f;
                     s1 = slot_read sdk (pc_slot config ! 1) f in
                 case chosen_slot s0 s1 of
                   None \<Rightarrow>
                     (if flash_storage_is_erased sdk (pc_slot config ! 0) 0 20 f
                         \<and> flash_storage_is_erased sdk (pc_slot config ! 1) 0 20 f
                      then PERSISTENT_CONFIG_ERR_EMPTY else PERSISTENT_CONFIG_ERR_CORRUPT,
                      empty\<lparr>pc_current := 0, pc_sequence := 0\<rparr>)
                 | Some chosen \<Rightarrow>
                     adopt_slot config (the buffer) capacity chosen (the (if chosen = 0 then s0 else s1))))))"

text \<open>The loop of \<open>persistent_config_save\<close> that writes the records page by page.\<close>

function write_records ::
  "'f flash_sdk \<Rightarrow> flash_region_t \<Rightarrow> u8 list \<Rightarrow> nat \<Rightarrow> nat \<Rightarrow> 'f \<Rightarrow> bool \<times> 'f" where
  "write_records sdk slot buffer len written f =
     (if written < len
      then
        (let n = (if len - written < 256 then len - written else 256);
             page = blit 0 (chunk written n buffer) (replicate 256 0xFF) in
         case flash_storage_program_verified sdk slot (RECORDS_AT + word_of_nat written) (Some page) 256 f of
           (res, f) \<Rightarrow>
             if res \<noteq> FLASH_STORAGE_OK then (False, f)
             else write_records sdk slot buffer len (written + n) f)
      else (True, f))"
  by pat_completeness auto
termination by (relation "measure (\<lambda>(_, _, _, len, written, _). len - written)") (auto split: if_splits)

declare write_records.simps [simp del]

definition slot_header_make :: "u32 \<Rightarrow> u8 list \<Rightarrow> slot_header_t" where
  "slot_header_make sequence records =
     (let header = \<lparr>hdr_magic = PERSISTENT_CONFIG_MAGIC, hdr_sequence = sequence,
                    hdr_length = word_of_nat (length records), hdr_records_crc32 = crc32 (Some records),
                    hdr_header_crc32 = 0\<rparr>
      in header\<lparr>hdr_header_crc32 := slot_header_crc header\<rparr>)"

definition save_target :: "persistent_config_t \<Rightarrow> u8" where
  "save_target config = (if pc_loaded config then 1 - pc_current config else 0)"

definition persistent_config_save ::
  "'f flash_sdk \<Rightarrow> persistent_config_t \<Rightarrow> 'f \<Rightarrow> persistent_config_result_t \<times> persistent_config_t \<times> 'f" where
  "persistent_config_save sdk config f =
     (if cs_buffer (pc_store config) = [] then (PERSISTENT_CONFIG_ERR_INVALID_ARG, config, f)
      else if reg_size (pc_slot config ! 0) = 0 then (PERSISTENT_CONFIG_ERR_NO_SPACE, config, f)
      else
        (let len = config_store_used (pc_store config) in
         if persistent_config_capacity < len then (PERSISTENT_CONFIG_ERR_TOO_LARGE, config, f)
         else
           (let target = save_target config;
                slot = pc_slot config ! unat target;
                buffer = cs_buffer (pc_store config) in
            case flash_storage_erase sdk slot 0 (reg_size slot) f of
              (erased, f) \<Rightarrow>
                if erased \<noteq> FLASH_STORAGE_OK then (PERSISTENT_CONFIG_ERR_FLASH, config, f)
                else
                  (case write_records sdk slot buffer len 0 f of
                     (written, f) \<Rightarrow>
                       if \<not> written then (PERSISTENT_CONFIG_ERR_FLASH, config, f)
                       else
                         (let header = slot_header_make (pc_sequence config + 1) (take len buffer);
                              page = blit 0 (slot_header_bytes header) (replicate 256 0xFF) in
                          case flash_storage_program_verified sdk slot 0 (Some page) 256 f of
                            (res, f) \<Rightarrow>
                              if res \<noteq> FLASH_STORAGE_OK then (PERSISTENT_CONFIG_ERR_FLASH, config, f)
                              else (PERSISTENT_CONFIG_OK,
                                    config\<lparr>pc_current := target, pc_sequence := hdr_sequence header, pc_loaded := True\<rparr>,
                                    f))))))"

definition persistent_config_erase ::
  "'f flash_sdk \<Rightarrow> persistent_config_t \<Rightarrow> 'f \<Rightarrow> persistent_config_result_t \<times> persistent_config_t \<times> 'f" where
  "persistent_config_erase sdk config f =
     (if reg_size (pc_slot config ! 0) = 0 then (PERSISTENT_CONFIG_ERR_INVALID_ARG, config, f)
      else
        (case flash_storage_erase sdk (pc_slot config ! 0) 0 (reg_size (pc_slot config ! 0)) f of
           (e0, f) \<Rightarrow>
             if e0 \<noteq> FLASH_STORAGE_OK then (PERSISTENT_CONFIG_ERR_FLASH, config, f)
             else
               (case flash_storage_erase sdk (pc_slot config ! 1) 0 (reg_size (pc_slot config ! 1)) f of
                  (e1, f) \<Rightarrow>
                    if e1 \<noteq> FLASH_STORAGE_OK then (PERSISTENT_CONFIG_ERR_FLASH, config, f)
                    else (PERSISTENT_CONFIG_OK,
                          config\<lparr>pc_store := config_clear (pc_store config), pc_loaded := False,
                                 pc_sequence := 0, pc_current := 0\<rparr>, f))))"

definition persistent_config_store :: "persistent_config_t \<Rightarrow> config_store_t" where
  "persistent_config_store config = pc_store config"

definition persistent_config_sequence :: "persistent_config_t \<Rightarrow> u32" where
  "persistent_config_sequence config = pc_sequence config"

fun persistent_config_result_name :: "persistent_config_result_t \<Rightarrow> string" where
  "persistent_config_result_name PERSISTENT_CONFIG_OK = ''ok''"
| "persistent_config_result_name PERSISTENT_CONFIG_ERR_INVALID_ARG = ''invalid argument''"
| "persistent_config_result_name PERSISTENT_CONFIG_ERR_NO_SPACE = ''no room for two slots''"
| "persistent_config_result_name PERSISTENT_CONFIG_ERR_EMPTY = ''nothing saved yet''"
| "persistent_config_result_name PERSISTENT_CONFIG_ERR_CORRUPT = ''saved data is damaged''"
| "persistent_config_result_name PERSISTENT_CONFIG_ERR_TOO_LARGE = ''too large for a slot''"
| "persistent_config_result_name PERSISTENT_CONFIG_ERR_FLASH = ''flash write failed''"

subsection \<open>Slots on the chip\<close>

lemma length_slot_header_bytes [simp]: "length (slot_header_bytes h) = 20"
  by (simp add: slot_header_bytes_def)

lemma slot_header_roundtrip: "slot_header_of_bytes (slot_header_bytes h) = h"
  by (simp add: slot_header_bytes_def slot_header_of_bytes_def memory_simps)

lemma slot_header_make_fields:
  "hdr_magic (slot_header_make q rs) = PERSISTENT_CONFIG_MAGIC" "hdr_sequence (slot_header_make q rs) = q"
  "hdr_length (slot_header_make q rs) = word_of_nat (length rs)"
  "hdr_records_crc32 (slot_header_make q rs) = crc32 (Some rs)"
  "hdr_header_crc32 (slot_header_make q rs) = slot_header_crc (slot_header_make q rs)"
  by (simp_all add: slot_header_make_def slot_header_crc_def slot_header_bytes_def)

text \<open>A slot the model can use: one sector of the chip.\<close>

definition slot_ok :: "'f flash_sdk \<Rightarrow> flash_region_t \<Rightarrow> bool" where
  "slot_ok sdk r \<longleftrightarrow> usable sdk r \<and> reg_size r = FLASH_LAYOUT_SECTOR_SIZE"

lemma slot_contains:
  "slot_ok sdk r \<Longrightarrow> flash_region_contains r off n \<longleftrightarrow> unat off + unat n \<le> 4096"
  by (auto simp: slot_ok_def flash_region_contains_def word_le_nat_alt word_less_nat_alt unat_sub word_eq_unat_iff)

lemma slot_data:
  "slot_ok sdk r \<Longrightarrow> flash_storage_data sdk r off n f =
    (if unat off + unat n \<le> 4096 then Some (xip_bytes sdk f (reg_lo r + unat off) (unat n)) else None)"
  using flash_storage_data_eq [of sdk r off n f] slot_contains [of sdk r off n] by (simp add: slot_ok_def)

text \<open>What a slot holds depends only on its own bytes.\<close>

lemma slot_read_cong:
  assumes "slot_ok sdk r" and "\<And>i. reg_lo r \<le> i \<Longrightarrow> i < reg_hi r \<Longrightarrow> xip sdk f i = xip sdk g i"
  shows "slot_read sdk r f = slot_read sdk r g"
proof -
  have hi: "reg_hi r = reg_lo r + 4096" using assms(1) by (simp add: slot_ok_def reg_hi_def reg_lo_def)
  have same: "flash_storage_data sdk r off n f = flash_storage_data sdk r off n g" for off n
    unfolding slot_data [OF assms(1)] using assms(2) hi by (auto intro!: xip_bytes_cong)
  show ?thesis unfolding slot_read_def same ..
qed

lemma slot_read_blank:
  assumes "slot_ok sdk r" and "\<And>i. i < 4 \<Longrightarrow> xip sdk f (reg_lo r + i) = 0xFF"
  shows "slot_read sdk r f = None"
proof -
  have "chunk 0 4 (xip_bytes sdk f (reg_lo r) 20) = replicate 4 0xFF"
    using assms(2) by (intro nth_equalityI) (simp_all add: nth_chunk)
  then have "hdr_magic (slot_header_of_bytes (xip_bytes sdk f (reg_lo r) 20)) \<noteq> PERSISTENT_CONFIG_MAGIC"
    by (simp add: slot_header_of_bytes_def of_le32_def)
  then show ?thesis by (simp add: slot_read_def slot_data [OF assms(1)] Let_def)
qed

lemma slot_erased:
  assumes "slot_ok sdk r"
  shows "flash_storage_is_erased sdk r 0 20 f \<longleftrightarrow> (\<forall>i < 20. xip sdk f (reg_lo r + i) = 0xFF)"
  by (simp add: flash_storage_is_erased_def slot_data [OF assms] list_all_length)

lemma slot_read_written:
  assumes r: "slot_ok sdk r" and len: "length rs \<le> persistent_config_capacity"
    and header: "xip_bytes sdk f (reg_lo r) 20 = slot_header_bytes (slot_header_make q rs)"
    and records: "xip_bytes sdk f (reg_lo r + 256) (length rs) = rs"
  shows "slot_read sdk r f = Some (slot_header_make q rs, rs)"
proof -
  have n: "length rs \<le> 3840" using len by (simp add: persistent_config_capacity_def)
  then have "unat (word_of_nat (length rs) :: u32) = length rs" by (intro unat_of_nat_lt) simp
  then show ?thesis
    using n header records len
    by (simp add: slot_read_def slot_data [OF r] slot_header_roundtrip slot_header_make_fields Let_def)
qed

lemma slot_read_length:
  assumes "slot_read sdk r f = Some (h, rs)"
  shows "length rs = unat (hdr_length h)" "length rs \<le> persistent_config_capacity"
  using assms
  by (auto simp: slot_read_def flash_storage_data_def Let_def split: option.splits if_splits)

lemma sequence_next_later: "sequence_is_later (q + 1) q" "\<not> sequence_is_later q (q + 1)"
proof -
  have "(q + 1) - q = 1" "q - (q + 1) = - 1" by simp_all
  then show "sequence_is_later (q + 1) q" "\<not> sequence_is_later q (q + 1)"
    unfolding sequence_is_later_def by simp_all
qed

subsection \<open>Writing a slot\<close>

lemma write_records_spec:
  assumes "slot_ok sdk r" and "len \<le> length buf" and "len \<le> persistent_config_capacity" and "written \<le> len"
    and "256 dvd written" and "write_records sdk r buf len written f = (ok, g)"
  shows "(\<forall>i. i < reg_lo r + 256 + written \<or> reg_hi r \<le> i \<longrightarrow> xip sdk g i = xip sdk f i)
    \<and> (ok \<longrightarrow> (\<forall>j. written \<le> j \<and> j < len \<longrightarrow> xip sdk g (reg_lo r + 256 + j) = buf ! j))"
  using assms
proof (induction sdk r buf len written f arbitrary: ok g rule: write_records.induct)
  case (1 sdk r buf len written f)
  show ?case
  proof (cases "written < len")
    case False
    with "1.prems"(6) show ?thesis by (subst (asm) write_records.simps) auto
  next
    case True
    let ?n = "if len - written < 256 then len - written else 256"
    let ?page = "blit 0 (chunk written ?n buf) (replicate 256 0xFF) :: u8 list"
    have len: "len \<le> 3840" using "1.prems"(3) by (simp add: persistent_config_capacity_def)
    have n: "written + ?n \<le> len" "?n \<le> 256" using True by auto
    have clen: "length (chunk written ?n buf) = ?n" using n(1) "1.prems"(2) by simp
    then have plen: "length ?page = unat (256 :: u32)" using n(2) by (simp del: length_chunk)
    have off: "unat (RECORDS_AT + word_of_nat written :: u32) = 256 + written"
    proof -
      have "unat (word_of_nat written :: u32) = written" using True len by (intro unat_of_nat_lt) simp
      then show ?thesis using True len by (subst unat_u32_arith(1)) simp_all
    qed
    have use: "usable sdk r" and hi: "reg_hi r = reg_lo r + 4096"
      using "1.prems"(1) by (simp_all add: slot_ok_def reg_hi_def reg_lo_def)
    obtain res h where pr: "flash_storage_program_verified sdk r (RECORDS_AT + word_of_nat written) (Some ?page) 256 f = (res, h)"
      by fastforce
    note spec = flash_storage_program_verified_spec [OF use plen pr]
    have span: "in_span r (RECORDS_AT + word_of_nat written) (unat (256 :: u32)) i
        \<longleftrightarrow> reg_lo r + 256 + written \<le> i \<and> i < reg_lo r + 256 + written + 256" for i
      by (auto simp: in_span_def off)
    have frame: "xip sdk h i = xip sdk f i" if "i < reg_lo r + 256 + written \<or> reg_hi r \<le> i" for i
      using that spec(3) [of i] span [of i] hi "1.prems"(1)
      by (auto simp: slot_contains off)
    have byte: "xip sdk h (reg_lo r + 256 + j) = buf ! j"
      if "written \<le> j" "j - written < ?n" "res = FLASH_STORAGE_OK" for j
    proof -
      have "chunk written ?n buf ! (j - written) = buf ! j"
        using that(1,2) n(1) "1.prems"(2) by (subst nth_chunk) simp_all
      moreover have "xip sdk h (reg_lo r + 256 + j) = ?page ! (j - written)"
        using spec(2) [OF that(3), of "reg_lo r + 256 + j"] span that(1,2) n(2) by (simp add: off)
      ultimately show ?thesis using that(2) n(2) clen by (simp add: nth_blit del: length_chunk)
    qed
    show ?thesis
    proof (cases "res = FLASH_STORAGE_OK")
      case False
      from "1.prems"(6) have "ok = False \<and> g = h"
        using True pr False unfolding write_records.simps [of sdk r buf len written f] by (simp add: Let_def)
      then show ?thesis using frame by simp
    next
      case res: True
      have rest: "write_records sdk r buf len (written + ?n) h = (ok, g)"
        using "1.prems"(6) True pr res unfolding write_records.simps [of sdk r buf len written f] by (simp add: Let_def)
      show ?thesis
      proof (cases "written + ?n < len")
        case False
        have g: "g = h" using rest False write_records.simps [of sdk r buf len "written + ?n" h] by simp
        have "xip sdk h (reg_lo r + 256 + j) = buf ! j" if j: "written \<le> j" "j < len" for j
        proof -
          have "j - written < ?n" using j False n by linarith
          with byte [OF j(1) _ res] show ?thesis by blast
        qed
        with g frame show ?thesis by simp
      next
        case more: True
        then have n256: "?n = 256" by (simp split: if_splits)
        have IH: "(\<forall>i. i < reg_lo r + 256 + (written + ?n) \<or> reg_hi r \<le> i \<longrightarrow> xip sdk g i = xip sdk h i)
            \<and> (ok \<longrightarrow> (\<forall>j. written + ?n \<le> j \<and> j < len \<longrightarrow> xip sdk g (reg_lo r + 256 + j) = buf ! j))"
          using "1.prems"(1-5) n n256 rest
          by (intro "1.IH" [OF True refl refl pr [symmetric]]) (auto simp: res)
        have here: "xip sdk g (reg_lo r + 256 + j) = buf ! j" if j: "written \<le> j" "j < written + 256" for j
        proof -
          have "xip sdk g (reg_lo r + 256 + j) = xip sdk h (reg_lo r + 256 + j)" using IH j n256 by simp
          moreover have "xip sdk h (reg_lo r + 256 + j) = buf ! j"
            using byte [OF j(1) _ res] j n256 by simp
          ultimately show ?thesis by simp
        qed
        have "xip sdk g (reg_lo r + 256 + j) = buf ! j" if "ok" "written \<le> j" "j < len" for j
          using that here [of j] IH n256 by (cases "j < written + 256") auto
        then show ?thesis using IH frame n256 by auto
      qed
    qed
  qed
qed

subsection \<open>The two slots\<close>

definition slots_of :: "flash_layout_t \<Rightarrow> flash_region_t list" where
  "slots_of layout =
     [\<lparr>reg_offset = reg_offset (data_region layout), reg_size = FLASH_LAYOUT_SECTOR_SIZE\<rparr>,
      \<lparr>reg_offset = reg_offset (data_region layout) + FLASH_LAYOUT_SECTOR_SIZE, reg_size = FLASH_LAYOUT_SECTOR_SIZE\<rparr>]"

text \<open>A chip that behaves as documented and holds a data region with room for both.\<close>

definition two_slots :: "'f flash_sdk \<Rightarrow> flash_layout_t \<Rightarrow> bool" where
  "two_slots sdk layout \<longleftrightarrow> usable sdk (data_region layout) \<and> 8192 \<le> unat (reg_size (data_region layout))"

abbreviation slot0 :: "flash_layout_t \<Rightarrow> flash_region_t" where "slot0 l \<equiv> slots_of l ! 0"
abbreviation slot1 :: "flash_layout_t \<Rightarrow> flash_region_t" where "slot1 l \<equiv> slots_of l ! 1"

lemma two_slots:
  assumes "two_slots sdk l"
  shows "slot_ok sdk (slot0 l)" "slot_ok sdk (slot1 l)" "reg_hi (slot0 l) = reg_lo (slot1 l)"
    "slot_regions l c = (True, c\<lparr>pc_slot := slots_of l\<rparr>)"
proof -
  have d: "unat (reg_offset (data_region l)) + unat (reg_size (data_region l)) < 4294967296"
      "8192 \<le> unat (reg_size (data_region l))"
    using assms by (auto simp: two_slots_def usable_def reg_hi_def)
  then have one: "unat (reg_offset (data_region l) + 4096) = unat (reg_offset (data_region l)) + 4096"
    by (subst unat_u32_arith(1)) simp_all
  show "slot_ok sdk (slot0 l)" "slot_ok sdk (slot1 l)" "reg_hi (slot0 l) = reg_lo (slot1 l)"
    using assms d one by (auto simp: slot_ok_def two_slots_def usable_def slots_of_def reg_hi_def reg_lo_def)
  show "slot_regions l c = (True, c\<lparr>pc_slot := slots_of l\<rparr>)"
    using d by (simp add: slot_regions_def slots_of_def word_less_nat_alt)
qed

text \<open>What a load does, from what the slots hold.\<close>

definition slot_reads :: "'f flash_sdk \<Rightarrow> flash_layout_t \<Rightarrow> 'f \<Rightarrow> nat \<Rightarrow> (slot_header_t \<times> u8 list) option" where
  "slot_reads sdk l f k = slot_read sdk (slots_of l ! k) f"

lemma chosen_some:
  assumes "chosen_slot (slot_reads sdk l f 0) (slot_reads sdk l f 1) = Some k"
  shows "k < 2" "slot_reads sdk l f k \<noteq> None"
    "(if k = 0 then slot_reads sdk l f 0 else slot_reads sdk l f 1) = slot_reads sdk l f k"
  using assms by (auto simp: chosen_slot_def split: option.splits if_splits)

lemma load_eq:
  assumes "two_slots sdk l" and "b \<noteq> []" and "capacity = length b"
  shows "persistent_config_load sdk l c (Some b) capacity f =
    (case chosen_slot (slot_reads sdk l f 0) (slot_reads sdk l f 1) of
       None \<Rightarrow>
         (if flash_storage_is_erased sdk (slot0 l) 0 20 f \<and> flash_storage_is_erased sdk (slot1 l) 0 20 f
          then PERSISTENT_CONFIG_ERR_EMPTY else PERSISTENT_CONFIG_ERR_CORRUPT,
          persistent_config_zero\<lparr>pc_slot := slots_of l, pc_store := \<lparr>cs_buffer = b, cs_capacity = capacity,
            cs_used = 0, cs_initialised = True\<rparr>\<rparr>)
     | Some k \<Rightarrow> adopt_slot (persistent_config_zero\<lparr>pc_slot := slots_of l\<rparr>) b capacity k (the (slot_reads sdk l f k)))"
proof (cases "chosen_slot (slot_reads sdk l f 0) (slot_reads sdk l f 1)")
  case None
  then show ?thesis
    using assms by (simp add: persistent_config_load_def two_slots(4) [OF assms(1)] slot_reads_def Let_def
        config_store_init_def persistent_config_zero_def)
next
  case (Some k)
  have pick: "(if k = 0 then slot_read sdk (slot0 l) f else slot_read sdk (slot1 l) f) = slot_read sdk (slots_of l ! k) f"
    using chosen_some(3) [OF Some] by (cases "k = 0") (simp_all add: slot_reads_def)
  have "persistent_config_load sdk l c (Some b) capacity f =
      adopt_slot (persistent_config_zero\<lparr>pc_slot := slots_of l\<rparr>) b capacity k
        (the (if k = 0 then slot_read sdk (slot0 l) f else slot_read sdk (slot1 l) f))"
    using assms Some by (simp add: persistent_config_load_def two_slots(4) [OF assms(1)] slot_reads_def Let_def)
  then show ?thesis using Some unfolding pick by (simp add: slot_reads_def)
qed

lemma load_chosen:
  assumes l: "two_slots sdk l" and b: "b \<noteq> []" "capacity = length b"
    and k: "chosen_slot (slot_reads sdk l f 0) (slot_reads sdk l f 1) = Some k"
    and rd: "slot_reads sdk l f k = Some (h, rs)" and fits: "length rs \<le> capacity"
    and run: "rs = run_bytes es" "list_all entry_ok es"
  obtains c' where "persistent_config_load sdk l c (Some b) capacity f = (PERSISTENT_CONFIG_OK, c')"
    and "holds (pc_store c') es" and "cs_buffer (pc_store c') = blit 0 rs b" and "pc_slot c' = slots_of l"
    and "pc_current c' = word_of_nat k" and "pc_sequence c' = hdr_sequence h" and "pc_loaded c'"
    and "cs_used (pc_store c') = length rs"
proof -
  have len: "unat (hdr_length h) = length rs"
    using slot_read_length(1) [OF rd [unfolded slot_reads_def]] by simp
  have take: "take (length rs) (blit 0 rs b) = run_bytes es"
    using take_blit [of 0 rs b] fits b(2) run(1) by simp
  have parse: "records_parse (blit 0 rs b) (length rs) 0"
    using records_parse_iff [of 0 "length rs" "blit 0 rs b"] fits b(2) take run(2) by auto
  let ?st = "\<lparr>cs_buffer = blit 0 rs b, cs_capacity = capacity, cs_used = length rs, cs_initialised = True\<rparr>"
  have "config_store_load s (Some (blit 0 rs b)) capacity (length rs) = (CONFIG_OK, ?st)" for s
    using fits b parse by (simp add: config_store_load_def config_store_init_def)
  then have "persistent_config_load sdk l c (Some b) capacity f = (PERSISTENT_CONFIG_OK,
      persistent_config_zero\<lparr>pc_slot := slots_of l, pc_store := ?st, pc_current := word_of_nat k,
        pc_sequence := hdr_sequence h, pc_loaded := True\<rparr>)"
    using k rd fits len by (simp add: load_eq [OF l b])
  then show ?thesis
    by (rule that) (use fits b(2) take run(2) in \<open>simp_all add: holds_def\<close>)
qed

text \<open>Conversely, a load that succeeds has found such a slot.\<close>

lemma load_ok:
  assumes l: "two_slots sdk l" and b: "b \<noteq> []" "capacity = length b"
    and run: "persistent_config_load sdk l c (Some b) capacity f = (PERSISTENT_CONFIG_OK, c')"
  obtains k h rs es where "chosen_slot (slot_reads sdk l f 0) (slot_reads sdk l f 1) = Some k"
    "slot_reads sdk l f k = Some (h, rs)" "length rs \<le> capacity" "rs = run_bytes es" "list_all entry_ok es"
proof -
  obtain k where k: "chosen_slot (slot_reads sdk l f 0) (slot_reads sdk l f 1) = Some k"
    using run by (auto simp: load_eq [OF l b] split: option.splits if_splits)
  obtain h rs where rd: "slot_reads sdk l f k = Some (h, rs)" using chosen_some(2) [OF k] by auto
  have len: "unat (hdr_length h) = length rs"
    using slot_read_length(1) [OF rd [unfolded slot_reads_def]] by simp
  have fits: "length rs \<le> capacity"
    and ad: "fst (config_store_load (pc_store persistent_config_zero) (Some (blit 0 rs b)) capacity (length rs)) = CONFIG_OK"
    using run k rd len by (auto simp: load_eq [OF l b] Let_def split: if_splits prod.splits)
  have "records_parse (blit 0 rs b) (length rs) 0"
    using ad fits b by (auto simp: config_store_load_def config_store_init_def split: if_splits)
  then obtain es where "list_all entry_ok es" "take (length rs) (blit 0 rs b) = run_bytes es"
    using records_parse_iff [of 0 "length rs" "blit 0 rs b"] fits b(2) by auto
  moreover have "take (length rs) (blit 0 rs b) = rs" using take_blit [of 0 rs b] fits b(2) by simp
  ultimately show ?thesis using that k rd fits by metis
qed

text \<open>The load depends on the slots only.\<close>

lemma load_cong:
  assumes "two_slots sdk l" and "b \<noteq> []" and "capacity = length b"
    and "chosen_slot (slot_reads sdk l f 0) (slot_reads sdk l f 1) = Some k"
    and "chosen_slot (slot_reads sdk l g 0) (slot_reads sdk l g 1) = Some k"
    and "slot_reads sdk l g k = slot_reads sdk l f k"
  shows "persistent_config_load sdk l c0 (Some b) capacity g = persistent_config_load sdk l c0 (Some b) capacity f"
  using assms(4-6) by (simp add: load_eq [OF assms(1-3)])

subsection \<open>The invariant of a session\<close>

text \<open>The store of a configuration holds a run of records.\<close>

definition store_ok :: "config_store_t \<Rightarrow> bool" where
  "store_ok s \<longleftrightarrow> (\<exists>es. holds s es) \<and> cs_buffer s \<noteq> []"

lemma holds_buffer: "holds s es \<Longrightarrow> holds t fs \<Longrightarrow> cs_capacity t = cs_capacity s \<Longrightarrow> cs_buffer s \<noteq> [] \<Longrightarrow> cs_buffer t \<noteq> []"
  by (auto simp: holds_def simp flip: length_0_conv)

text \<open>What the slot that is not written next holds: nothing, or the sequence of the session.\<close>

definition session_ok :: "flash_layout_t \<Rightarrow> 'f flash_sdk \<Rightarrow> persistent_config_t \<times> 'f \<Rightarrow> bool" where
  "session_ok l sdk w \<longleftrightarrow> (case w of (c, f) \<Rightarrow>
     pc_slot c = slots_of l \<and> store_ok (pc_store c)
   \<and> (pc_loaded c \<longrightarrow> unat (pc_current c) < 2
        \<and> (\<forall>h rs. slot_reads sdk l f (unat (pc_current c)) = Some (h, rs) \<longrightarrow> hdr_sequence h = pc_sequence c))
   \<and> (\<not> pc_loaded c \<longrightarrow> slot_reads sdk l f 0 = None \<and> slot_reads sdk l f 1 = None))"

lemma save_target_other:
  assumes "pc_loaded c" and "unat (pc_current c) < 2"
  shows "unat (save_target c) = 1 - unat (pc_current c)"
proof -
  have "pc_current c = 0 \<or> pc_current c = 1"
    using assms(2) by (auto simp: word_eq_unat_iff less_2_cases_iff)
  then show ?thesis using assms(1) by (auto simp: save_target_def)
qed

text \<open>The flash states of a save before its header is on the chip: it has not started, the erase
  was tried, or some of the pages of the records were.\<close>

inductive save_cut :: "'f flash_sdk \<Rightarrow> persistent_config_t \<Rightarrow> 'f \<Rightarrow> 'f \<Rightarrow> bool" for sdk c f where
  cut_before: "save_cut sdk c f f"
| cut_erase: "r = pc_slot c ! unat (save_target c) \<Longrightarrow> flash_storage_erase sdk r 0 (reg_size r) f = (e, g) \<Longrightarrow>
    save_cut sdk c f g"
| cut_records: "r = pc_slot c ! unat (save_target c) \<Longrightarrow>
    flash_storage_erase sdk r 0 (reg_size r) f = (FLASH_STORAGE_OK, f1) \<Longrightarrow> n \<le> cs_used (pc_store c) \<Longrightarrow>
    write_records sdk r (cs_buffer (pc_store c)) n 0 f1 = (ok, g) \<Longrightarrow> save_cut sdk c f g"

lemma erase_slot:
  assumes "slot_ok sdk r" and "flash_storage_erase sdk r 0 (reg_size r) f = (e, g)"
  shows "xip sdk g = xip sdk f \<or> e = FLASH_STORAGE_OK \<and> (\<forall>i. reg_lo r \<le> i \<and> i < reg_hi r \<longrightarrow> xip sdk g i = 0xFF)"
    and "e = FLASH_STORAGE_OK \<Longrightarrow> reg_lo r \<le> i \<Longrightarrow> i < reg_hi r \<Longrightarrow> xip sdk g i = 0xFF"
    and "i < reg_lo r \<or> reg_hi r \<le> i \<Longrightarrow> xip sdk g i = xip sdk f i"
proof -
  have use: "usable sdk r" using assms(1) by (simp add: slot_ok_def)
  note spec = flash_storage_erase_spec [OF use assms(2)]
  have span: "in_span r 0 (unat (reg_size r)) i \<longleftrightarrow> reg_lo r \<le> i \<and> i < reg_hi r" for i
    by (simp add: in_span_def reg_lo_def reg_hi_def)
  show "xip sdk g = xip sdk f \<or> e = FLASH_STORAGE_OK \<and> (\<forall>i. reg_lo r \<le> i \<and> i < reg_hi r \<longrightarrow> xip sdk g i = 0xFF)"
    using spec span by auto
  show "e = FLASH_STORAGE_OK \<Longrightarrow> reg_lo r \<le> i \<Longrightarrow> i < reg_hi r \<Longrightarrow> xip sdk g i = 0xFF"
    using spec span by auto
  assume "i < reg_lo r \<or> reg_hi r \<le> i"
  then have "\<not> in_span r 0 (unat (reg_size r)) i" unfolding span by auto
  with spec show "xip sdk g i = xip sdk f i" by (elim disjE conjE) simp_all
qed

text \<open>Up to the header, a save changes nothing outside the slot it writes, and that slot reads as
  before or not at all.\<close>

lemma save_cut_slot:
  assumes cut: "save_cut sdk c f g" and r: "r = pc_slot c ! unat (save_target c)" and ok: "slot_ok sdk r"
    and len: "cs_used (pc_store c) \<le> length (cs_buffer (pc_store c))" "cs_used (pc_store c) \<le> persistent_config_capacity"
  shows "(\<forall>i. i < reg_lo r \<or> reg_hi r \<le> i \<longrightarrow> xip sdk g i = xip sdk f i)
    \<and> (xip sdk g = xip sdk f \<or> slot_read sdk r g = None)"
proof -
  have hi: "reg_hi r = reg_lo r + 4096" using ok by (simp add: slot_ok_def reg_hi_def reg_lo_def)
  have blank: "slot_read sdk r h = None" if "\<And>i. i < 4 \<Longrightarrow> xip sdk h (reg_lo r + i) = 0xFF" for h
    using slot_read_blank [OF ok that] .
  from cut show ?thesis
  proof cases
    case cut_before
    then show ?thesis by simp
  next
    case (cut_erase r' e)
    then have er: "flash_storage_erase sdk r 0 (reg_size r) f = (e, g)" using r by simp
    note s = erase_slot [OF ok er]
    show ?thesis using s(1) s(3) blank [of g] hi by auto
  next
    case (cut_records r' f1 n res)
    then have er: "flash_storage_erase sdk r 0 (reg_size r) f = (FLASH_STORAGE_OK, f1)"
      and w: "write_records sdk r (cs_buffer (pc_store c)) n 0 f1 = (res, g)" using r by auto
    note s = erase_slot [OF ok er]
    note ws = write_records_spec [OF ok _ _ _ _ w]
    have frame: "i < reg_lo r + 256 \<or> reg_hi r \<le> i \<Longrightarrow> xip sdk g i = xip sdk f1 i" for i
      using ws cut_records(3) len by auto
    have "xip sdk g (reg_lo r + i) = 0xFF" if "i < 4" for i
      using that frame [of "reg_lo r + i"] s(2) [OF refl, of "reg_lo r + i"] hi by simp
    then show ?thesis using blank [of g] frame s(3) by auto
  qed
qed

lemma save_result:
  assumes r: "r = pc_slot c ! unat (save_target c)" and ok: "slot_ok sdk r"
    and len: "cs_used (pc_store c) \<le> length (cs_buffer (pc_store c))"
    and run: "persistent_config_save sdk c f = (e, c', g)"
  shows "(e \<noteq> PERSISTENT_CONFIG_OK \<longrightarrow> c' = c \<and> (\<exists>h. save_cut sdk c f h \<and> xip sdk g = xip sdk h))
    \<and> (e = PERSISTENT_CONFIG_OK \<longrightarrow> cs_used (pc_store c) \<le> persistent_config_capacity
        \<and> c' = c\<lparr>pc_current := save_target c, pc_sequence := pc_sequence c + 1, pc_loaded := True\<rparr>
        \<and> (\<forall>i. i < reg_lo r \<or> reg_hi r \<le> i \<longrightarrow> xip sdk g i = xip sdk f i)
        \<and> slot_read sdk r g = Some (slot_header_make (pc_sequence c + 1) (take (cs_used (pc_store c)) (cs_buffer (pc_store c))),
             take (cs_used (pc_store c)) (cs_buffer (pc_store c))))"
proof (cases "cs_buffer (pc_store c) = [] \<or> reg_size (pc_slot c ! 0) = 0
    \<or> persistent_config_capacity < config_store_used (pc_store c)")
  case True
  with run have "e \<noteq> PERSISTENT_CONFIG_OK" "c' = c" "g = f"
    by (auto simp: persistent_config_save_def Let_def split: if_splits)
  then show ?thesis using cut_before [of sdk c f] by blast
next
  case False
  let ?n = "cs_used (pc_store c)" and ?buf = "cs_buffer (pc_store c)"
  let ?rs = "take ?n ?buf"
  let ?h = "slot_header_make (pc_sequence c + 1) ?rs"
  let ?page = "blit 0 (slot_header_bytes ?h) (replicate 256 0xFF) :: u8 list"
  have cap: "?n \<le> persistent_config_capacity" using False by (simp add: config_store_used_def)
  have hi: "reg_hi r = reg_lo r + 4096" using ok by (simp add: slot_ok_def reg_hi_def reg_lo_def)
  have use: "usable sdk r" using ok by (simp add: slot_ok_def)
  obtain er f1 where er: "flash_storage_erase sdk r 0 (reg_size r) f = (er, f1)" by fastforce
  obtain w f2 where w: "write_records sdk r ?buf ?n 0 f1 = (w, f2)" by fastforce
  obtain p f3 where p: "flash_storage_program_verified sdk r 0 (Some ?page) 256 f2 = (p, f3)" by fastforce
  have save: "persistent_config_save sdk c f =
     (if er \<noteq> FLASH_STORAGE_OK then (PERSISTENT_CONFIG_ERR_FLASH, c, f1)
      else if \<not> w then (PERSISTENT_CONFIG_ERR_FLASH, c, f2)
      else if p \<noteq> FLASH_STORAGE_OK then (PERSISTENT_CONFIG_ERR_FLASH, c, f3)
      else (PERSISTENT_CONFIG_OK, c\<lparr>pc_current := save_target c, pc_sequence := pc_sequence c + 1, pc_loaded := True\<rparr>, f3))"
    using False er w p r
    by (simp add: persistent_config_save_def Let_def config_store_used_def slot_header_make_fields)
  have plen: "length ?page = unat (256 :: u32)" by simp
  have span: "in_span r 0 (unat (256 :: u32)) i \<longleftrightarrow> reg_lo r \<le> i \<and> i < reg_lo r + 256" for i
    by (auto simp: in_span_def)
  show ?thesis
  proof (cases "er = FLASH_STORAGE_OK \<and> w")
    case False
    show ?thesis
    proof (cases "er = FLASH_STORAGE_OK")
      case True
      with False save run have "e = PERSISTENT_CONFIG_ERR_FLASH" "c' = c" "g = f2" by simp_all
      then show ?thesis using cut_records [OF r er [unfolded True] order.refl w] by auto
    next
      case False
      with save run have "e = PERSISTENT_CONFIG_ERR_FLASH" "c' = c" "g = f1" by simp_all
      then show ?thesis using cut_erase [OF r er] by auto
    qed
  next
    case True
    note s = erase_slot [OF ok er]
    note ws = write_records_spec [OF ok len cap _ _ w]
    have head: "xip sdk f2 i = 0xFF" if "reg_lo r \<le> i" "i < reg_lo r + 256" for i
      using ws s(2) [of i] that True hi by simp
    show ?thesis
    proof (cases "p = FLASH_STORAGE_OK")
      case False
      with flash_storage_program_verified_erased [OF use plen p] head span
      have "xip sdk f3 = xip sdk f2" by auto
      moreover have "e = PERSISTENT_CONFIG_ERR_FLASH" "c' = c" "g = f3" using True False save run by simp_all
      moreover have "save_cut sdk c f f2"
        using cut_records [OF r, of sdk f f1 ?n w f2] er w True by simp
      ultimately show ?thesis by auto
    next
      case written: True
      have res: "e = PERSISTENT_CONFIG_OK" "g = f3"
          "c' = c\<lparr>pc_current := save_target c, pc_sequence := pc_sequence c + 1, pc_loaded := True\<rparr>"
        using True written save run by simp_all
      note ps = flash_storage_program_verified_spec [OF use plen p]
      have "xip sdk f3 (reg_lo r + i) = slot_header_bytes ?h ! i" if "i < 20" for i
        using ps(2) [OF written, of "reg_lo r + i"] span that by (simp add: nth_blit)
      then have header: "xip_bytes sdk f3 (reg_lo r) 20 = slot_header_bytes ?h"
        by (intro nth_equalityI) simp_all
      have "xip sdk f3 (reg_lo r + 256 + j) = ?buf ! j" if "j < ?n" for j
        using ps(3) [of "reg_lo r + 256 + j"] span ws that True by simp
      then have records: "xip_bytes sdk f3 (reg_lo r + 256) (length ?rs) = ?rs"
        using len by (intro nth_equalityI) simp_all
      have "slot_read sdk r f3 = Some (?h, ?rs)"
        by (rule slot_read_written [OF ok _ header records]) (use cap in simp)
      moreover have "xip sdk f3 i = xip sdk f i" if "i < reg_lo r \<or> reg_hi r \<le> i" for i
        using ps(3) [of i] span ws s(3) [of i] that hi by auto
      ultimately show ?thesis using res cap by simp
    qed
  qed
qed

text \<open>What can happen between two starts: the store is edited, saved, erased, and other components
  write outside the two slots. A session starts with a load that found a configuration or a
  chip that never held one.\<close>

inductive session :: "'f flash_sdk \<Rightarrow> flash_layout_t \<Rightarrow> persistent_config_t \<times> 'f \<Rightarrow> bool" for sdk l where
  session_start: "persistent_config_load sdk l c0 (Some b) (length b) f = (e, c) \<Longrightarrow> b \<noteq> [] \<Longrightarrow>
    e = PERSISTENT_CONFIG_OK \<or> e = PERSISTENT_CONFIG_ERR_EMPTY \<Longrightarrow> session sdk l (c, f)"
| session_edit: "session sdk l (c, f) \<Longrightarrow> store_ok s \<Longrightarrow> session sdk l (c\<lparr>pc_store := s\<rparr>, f)"
| session_save: "session sdk l (c, f) \<Longrightarrow> persistent_config_save sdk c f = (e, c', g) \<Longrightarrow> session sdk l (c', g)"
| session_erase: "session sdk l (c, f) \<Longrightarrow> persistent_config_erase sdk c f = (e, c', g) \<Longrightarrow> session sdk l (c', g)"
| session_other: "session sdk l (c, f) \<Longrightarrow>
    (\<And>i. reg_lo (slot0 l) \<le> i \<Longrightarrow> i < reg_hi (slot1 l) \<Longrightarrow> xip sdk g i = xip sdk f i) \<Longrightarrow> session sdk l (c, g)"

lemma slot_reads_cong:
  assumes "two_slots sdk l" and "k < 2"
    and "\<And>i. reg_lo (slots_of l ! k) \<le> i \<Longrightarrow> i < reg_hi (slots_of l ! k) \<Longrightarrow> xip sdk g i = xip sdk f i"
  shows "slot_reads sdk l g k = slot_reads sdk l f k"
proof -
  have "slot_ok sdk (slots_of l ! k)" using two_slots(1,2) [OF assms(1)] assms(2) by (auto simp: less_2_cases_iff)
  from slot_read_cong [OF this assms(3)] show ?thesis by (simp add: slot_reads_def)
qed

text \<open>A write confined to one slot leaves the other one as it reads.\<close>

lemma other_slot_reads:
  assumes l: "two_slots sdk l" and k: "k < 2"
    and frame: "\<And>i. i < reg_lo (slots_of l ! k) \<or> reg_hi (slots_of l ! k) \<le> i \<Longrightarrow> xip sdk g i = xip sdk f i"
  shows "slot_reads sdk l g (1 - k) = slot_reads sdk l f (1 - k)"
proof (rule slot_reads_cong [OF l])
  fix i assume "reg_lo (slots_of l ! (1 - k)) \<le> i" "i < reg_hi (slots_of l ! (1 - k))"
  then show "xip sdk g i = xip sdk f i"
    using frame [of i] two_slots(3) [OF l] k by (auto simp: less_2_cases_iff)
qed simp

lemma slot_by_index: "two_slots sdk l \<Longrightarrow> k < 2 \<Longrightarrow> slot_ok sdk (slots_of l ! k)"
  using two_slots(1,2) [of sdk l] by (auto simp: less_2_cases_iff)

lemma store_ok_fits: "store_ok s \<Longrightarrow> cs_used s \<le> length (cs_buffer s)"
  by (auto simp: store_ok_def holds_def)

lemma target_lt: "pc_loaded c \<longrightarrow> unat (pc_current c) < 2 \<Longrightarrow> unat (save_target c) < 2"
  using save_target_other [of c] by (cases "pc_loaded c") (auto simp: save_target_def)

lemma session_start_ok:
  assumes l: "two_slots sdk l" and run: "persistent_config_load sdk l c0 (Some b) (length b) f = (e, c)"
    and b: "b \<noteq> []" and e: "e = PERSISTENT_CONFIG_OK \<or> e = PERSISTENT_CONFIG_ERR_EMPTY"
  shows "session_ok l sdk (c, f)"
proof (cases "e = PERSISTENT_CONFIG_OK")
  case True
  from load_ok [OF l b refl run [unfolded True]] obtain k h rs es where
    k: "chosen_slot (slot_reads sdk l f 0) (slot_reads sdk l f 1) = Some k"
    "slot_reads sdk l f k = Some (h, rs)" "length rs \<le> length b" "rs = run_bytes es" "list_all entry_ok es"
    by blast
  from load_chosen [OF l b refl k, of c0] obtain c' where
    "persistent_config_load sdk l c0 (Some b) (length b) f = (PERSISTENT_CONFIG_OK, c')"
    and c': "holds (pc_store c') es" "cs_buffer (pc_store c') = blit 0 rs b" "pc_slot c' = slots_of l"
      "pc_current c' = word_of_nat k" "pc_sequence c' = hdr_sequence h" "pc_loaded c'" by blast
  then have c: "c' = c" using run by simp
  have "k < 2" by (rule chosen_some(1) [OF k(1)])
  then have "unat (word_of_nat k :: u8) = k" by (intro u8_of_nat) simp
  moreover have "blit 0 rs b \<noteq> []" using b k(3) by (auto simp: blit_def)
  ultimately show ?thesis
    using c' k(2) \<open>k < 2\<close> unfolding c by (auto simp: session_ok_def store_ok_def)
next
  case False
  then have none: "chosen_slot (slot_reads sdk l f 0) (slot_reads sdk l f 1) = None"
    using run e by (auto simp: load_eq [OF l b refl] Let_def split: option.splits if_splits prod.splits
        elim!: adopt_slot.elims)
  then have "slot_reads sdk l f 0 = None" "slot_reads sdk l f 1 = None"
    by (auto simp: chosen_slot_def split: option.splits)
  moreover have "c = persistent_config_zero\<lparr>pc_slot := slots_of l, pc_store := \<lparr>cs_buffer = b,
      cs_capacity = length b, cs_used = 0, cs_initialised = True\<rparr>\<rparr>"
    using run none by (simp add: load_eq [OF l b refl])
  moreover have "holds \<lparr>cs_buffer = b, cs_capacity = length b, cs_used = 0, cs_initialised = True\<rparr> []"
    by (simp add: holds_def)
  ultimately show ?thesis using b by (auto simp: session_ok_def store_ok_def persistent_config_zero_def)
qed

lemma session_save_ok:
  assumes l: "two_slots sdk l" and inv: "session_ok l sdk (c, f)"
    and run: "persistent_config_save sdk c f = (e, c', g)"
  shows "session_ok l sdk (c', g)"
proof -
  let ?t = "unat (save_target c)"
  have slots: "pc_slot c = slots_of l" and st: "store_ok (pc_store c)" using inv by (auto simp: session_ok_def)
  have t: "?t < 2" using inv by (intro target_lt) (simp add: session_ok_def)
  have ok: "slot_ok sdk (slots_of l ! ?t)" by (rule slot_by_index [OF l t])
  note res = save_result [OF _ ok store_ok_fits [OF st] run, unfolded slots, OF refl]
  show ?thesis
  proof (cases "e = PERSISTENT_CONFIG_OK")
    case True
    then have "c' = c\<lparr>pc_current := save_target c, pc_sequence := pc_sequence c + 1, pc_loaded := True\<rparr>"
      and "\<exists>rs. slot_reads sdk l g ?t = Some (slot_header_make (pc_sequence c + 1) rs, rs)"
      using res by (auto simp: slot_reads_def)
    then show ?thesis using slots st t by (auto simp: session_ok_def slot_header_make_fields)
  next
    case False
    then obtain h where c': "c' = c" and cut: "save_cut sdk c f h" "xip sdk g = xip sdk h" using res by blast
    show ?thesis
    proof (cases "cs_used (pc_store c) \<le> persistent_config_capacity")
      case True
      from save_cut_slot [OF cut(1) _ ok store_ok_fits [OF st] True, unfolded slots, OF refl]
      have frame: "\<And>i. i < reg_lo (slots_of l ! ?t) \<or> reg_hi (slots_of l ! ?t) \<le> i \<Longrightarrow> xip sdk g i = xip sdk f i"
        and here: "xip sdk g = xip sdk f \<or> slot_read sdk (slots_of l ! ?t) h = None"
        using cut(2) by auto
      have same: "slot_reads sdk l g (1 - ?t) = slot_reads sdk l f (1 - ?t)"
        by (rule other_slot_reads [OF l t frame])
      have gh: "slot_read sdk (slots_of l ! ?t) g = slot_read sdk (slots_of l ! ?t) h"
        by (rule slot_read_cong [OF ok]) (simp add: cut(2))
      have mine: "slot_reads sdk l g ?t = slot_reads sdk l f ?t \<or> slot_reads sdk l g ?t = None"
        using here
      proof
        assume "xip sdk g = xip sdk f"
        then have "slot_reads sdk l g ?t = slot_reads sdk l f ?t" by (intro slot_reads_cong [OF l t]) simp
        then show ?thesis ..
      qed (simp add: slot_reads_def gh)
      show ?thesis
      proof (cases "pc_loaded c")
        case True
        then have "1 - ?t = unat (pc_current c)"
          using inv save_target_other [of c] by (auto simp: session_ok_def)
        with True inv same show ?thesis unfolding c' by (simp add: session_ok_def)
      next
        case False
        then have "?t = 0" by (simp add: save_target_def)
        with False inv same mine show ?thesis unfolding c' by (auto simp: session_ok_def)
      qed
    next
      case False
      then have "g = f" using run by (auto simp: persistent_config_save_def config_store_used_def Let_def split: if_splits)
      then show ?thesis using inv c' by simp
    qed
  qed
qed

lemma session_erase_ok:
  assumes l: "two_slots sdk l" and inv: "session_ok l sdk (c, f)"
    and run: "persistent_config_erase sdk c f = (e, c', g)"
  shows "session_ok l sdk (c', g)"
    and "e = PERSISTENT_CONFIG_OK \<Longrightarrow> reg_lo (slot0 l) \<le> i \<Longrightarrow> i < reg_hi (slot1 l) \<Longrightarrow> xip sdk g i = 0xFF"
proof -
  have slots: "pc_slot c = slots_of l" using inv by (simp add: session_ok_def)
  obtain e0 f0 where e0: "flash_storage_erase sdk (slot0 l) 0 (reg_size (slot0 l)) f = (e0, f0)" by fastforce
  obtain e1 f1 where e1: "flash_storage_erase sdk (slot1 l) 0 (reg_size (slot1 l)) f0 = (e1, f1)" by fastforce
  note s0 = erase_slot [OF two_slots(1) [OF l] e0] and s1 = erase_slot [OF two_slots(2) [OF l] e1]
  have hi: "reg_hi (slot0 l) = reg_lo (slot0 l) + 4096" "reg_hi (slot1 l) = reg_lo (slot1 l) + 4096"
    using two_slots(1,2) [OF l] by (simp_all add: slot_ok_def reg_hi_def reg_lo_def)
  have erase: "persistent_config_erase sdk c f =
     (if e0 \<noteq> FLASH_STORAGE_OK then (PERSISTENT_CONFIG_ERR_FLASH, c, f0)
      else if e1 \<noteq> FLASH_STORAGE_OK then (PERSISTENT_CONFIG_ERR_FLASH, c, f1)
      else (PERSISTENT_CONFIG_OK, c\<lparr>pc_store := config_clear (pc_store c), pc_loaded := False, pc_sequence := 0,
             pc_current := 0\<rparr>, f1))"
    using e0 e1 slots by (simp add: persistent_config_erase_def slots_of_def)
  have r0: "slot_reads sdk l f0 0 = slot_reads sdk l f 0 \<or> slot_reads sdk l f0 0 = None"
    "slot_reads sdk l f0 1 = slot_reads sdk l f 1"
  proof -
    show "slot_reads sdk l f0 1 = slot_reads sdk l f 1"
      using other_slot_reads [OF l, of 0 f0 f] s0(3) by simp
    show "slot_reads sdk l f0 0 = slot_reads sdk l f 0 \<or> slot_reads sdk l f0 0 = None"
      using s0(1) slot_reads_cong [OF l, of 0 f0 f] slot_read_blank [OF two_slots(1) [OF l], of f0] hi
      by (auto simp: slot_reads_def)
  qed
  have r1: "slot_reads sdk l f1 1 = slot_reads sdk l f0 1 \<or> slot_reads sdk l f1 1 = None"
    "slot_reads sdk l f1 0 = slot_reads sdk l f0 0"
  proof -
    show "slot_reads sdk l f1 0 = slot_reads sdk l f0 0"
      using other_slot_reads [OF l, of 1 f1 f0] s1(3) by simp
    show "slot_reads sdk l f1 1 = slot_reads sdk l f0 1 \<or> slot_reads sdk l f1 1 = None"
      using s1(1) slot_reads_cong [OF l, of 1 f1 f0] slot_read_blank [OF two_slots(2) [OF l], of f1] hi
      by (auto simp: slot_reads_def)
  qed
  have blank: "xip sdk f1 i = 0xFF"
    if "e0 = FLASH_STORAGE_OK" "e1 = FLASH_STORAGE_OK" "reg_lo (slot0 l) \<le> i" "i < reg_hi (slot1 l)" for i
    using s0(2) [OF that(1,3)] s1(2) [OF that(2) _ that(4)] s1(3) [of i] two_slots(3) [OF l]
    by (cases "reg_lo (slot1 l) \<le> i") auto
  have none: "slot_reads sdk l f1 0 = None \<and> slot_reads sdk l f1 1 = None"
    if "e0 = FLASH_STORAGE_OK" "e1 = FLASH_STORAGE_OK"
    using slot_read_blank [OF two_slots(1) [OF l], of f1] slot_read_blank [OF two_slots(2) [OF l], of f1]
      blank [OF that] hi two_slots(3) [OF l] by (simp add: slot_reads_def)
  have keep: "session_ok l sdk (c, h)"
    if "slot_reads sdk l h 0 = slot_reads sdk l f 0 \<or> slot_reads sdk l h 0 = None"
      "slot_reads sdk l h 1 = slot_reads sdk l f 1 \<or> slot_reads sdk l h 1 = None" for h
    using inv that by (auto simp: session_ok_def less_2_cases_iff)
  have st: "store_ok (config_clear (pc_store c))"
    using inv config_clear_keeps_run by (fastforce simp: session_ok_def store_ok_def config_clear_def)
  show "session_ok l sdk (c', g)"
  proof (cases "e0 = FLASH_STORAGE_OK \<and> e1 = FLASH_STORAGE_OK")
    case True
    then have "c' = c\<lparr>pc_store := config_clear (pc_store c), pc_loaded := False, pc_sequence := 0, pc_current := 0\<rparr>"
      "g = f1" using run erase by simp_all
    with True slots st none show ?thesis by (simp add: session_ok_def)
  next
    case False
    show ?thesis
    proof (cases "e0 = FLASH_STORAGE_OK")
      case True
      with False run erase have "c' = c" "g = f1" by simp_all
      with r0 r1 show ?thesis by (auto intro: keep)
    next
      case bad: False
      with run erase have "c' = c" "g = f0" by simp_all
      with r0 show ?thesis by (auto intro: keep)
    qed
  qed
  show "xip sdk g i = 0xFF" if "e = PERSISTENT_CONFIG_OK" "reg_lo (slot0 l) \<le> i" "i < reg_hi (slot1 l)"
    using that run erase blank by (auto split: if_splits)
qed

lemma session_inv:
  assumes l: "two_slots sdk l" and "session sdk l w"
  shows "session_ok l sdk w"
  using assms(2)
proof induction
  case (session_start c0 b f e c)
  show ?case by (rule session_start_ok [OF l session_start.hyps])
next
  case (session_edit c f s)
  then show ?case by (simp add: session_ok_def)
next
  case (session_save c f e c' g)
  show ?case by (rule session_save_ok [OF l session_save.IH session_save.hyps(2)])
next
  case (session_erase c f e c' g)
  show ?case by (rule session_erase_ok(1) [OF l session_erase.IH session_erase.hyps(2)])
next
  case (session_other c f g)
  have "slot_reads sdk l g k = slot_reads sdk l f k" if "k < 2" for k
    using session_other.hyps(2) two_slots(3) [OF l] two_slots(1,2) [OF l] that
    by (intro slot_reads_cong [OF l that]) (auto simp: less_2_cases_iff slot_ok_def reg_hi_def reg_lo_def)
  then have same: "slot_reads sdk l g 0 = slot_reads sdk l f 0" "slot_reads sdk l g 1 = slot_reads sdk l f 1"
    "unat (pc_current c) < 2 \<Longrightarrow> slot_reads sdk l g (unat (pc_current c)) = slot_reads sdk l f (unat (pc_current c))"
    by simp_all
  show ?case
    using session_other.IH unfolding session_ok_def prod.case same(1,2) by (simp add: same(3))
qed

subsection \<open>A small chip for the examples\<close>

definition small_slots :: flash_layout_t where
  "small_slots = \<lparr>application = \<lparr>reg_offset = 0, reg_size = 0x1000\<rparr>,
     staging = \<lparr>reg_offset = 0x1000, reg_size = 0x1000\<rparr>,
     manifest = \<lparr>reg_offset = 0x2000, reg_size = 0x1000\<rparr>,
     data_region = \<lparr>reg_offset = 0x3000, reg_size = 0x2000\<rparr>\<rparr>"

lemma small_two_slots: "two_slots (nor_sdk None) small_slots"
proof -
  have chip: "chip_size (nor_sdk None) = 0x200000" by (simp add: nor_sdk_def)
  show ?thesis by (simp add: two_slots_def usable_def nor_sdk_ok chip small_slots_def reg_hi_def)
qed

lemma nor_slot_ops:
  assumes "r = slot0 small_slots \<or> r = slot1 small_slots" and "off = 0 \<or> off = 256"
  shows "\<exists>m'. flash_storage_erase (nor_sdk None) r 0 (reg_size r) (m, []) = (FLASH_STORAGE_OK, (m', []))"
    and "\<exists>m'. flash_storage_program (nor_sdk None) r off (Some page) 256 (m, []) = (FLASH_STORAGE_OK, (m', []))"
  using assms
  by (auto simp: small_slots_def slots_of_def flash_storage_erase_def flash_storage_program_def precheck_def
      flash_storage_holds_running_code_def flash_region_check_erase_def flash_region_check_program_def
      flash_region_contains_def flash_offset_is_sector_aligned_def flash_offset_is_page_aligned_def
      nor_sdk_def Let_def)

text \<open>On this chip a save of a store of at most one page succeeds.\<close>

lemma nor_save_ok:
  assumes slots: "pc_slot c = slots_of small_slots" and t: "unat (save_target c) < 2"
    and st: "store_ok (pc_store c)" "0 < cs_used (pc_store c)" "cs_used (pc_store c) \<le> 256"
  obtains c' m' where "persistent_config_save (nor_sdk None) c (m, []) = (PERSISTENT_CONFIG_OK, c', (m', []))"
    and "c' = c\<lparr>pc_current := save_target c, pc_sequence := pc_sequence c + 1, pc_loaded := True\<rparr>"
proof -
  let ?sdk = "nor_sdk None" and ?r = "slots_of small_slots ! unat (save_target c)"
  let ?n = "cs_used (pc_store c)" and ?buf = "cs_buffer (pc_store c)"
  let ?rs = "take ?n ?buf"
  have r: "?r = slot0 small_slots \<or> ?r = slot1 small_slots" using t by (auto simp: less_2_cases_iff)
  have ok: "slot_ok ?sdk ?r" by (rule slot_by_index [OF small_two_slots t])
  have use: "usable ?sdk ?r" and hi: "reg_hi ?r = reg_lo ?r + 4096"
    using ok by (simp_all add: slot_ok_def reg_hi_def reg_lo_def)
  have len: "?n \<le> length ?buf" by (rule store_ok_fits [OF st(1)])
  obtain m1 where er: "flash_storage_erase ?sdk ?r 0 (reg_size ?r) (m, []) = (FLASH_STORAGE_OK, (m1, []))"
    using nor_slot_ops(1) [OF r, of 0 m] by auto
  note blank1 = erase_slot(2) [OF ok er refl]
  let ?p1 = "blit 0 (chunk 0 ?n ?buf) (replicate 256 0xFF) :: u8 list"
  have l1: "length ?p1 = unat (256 :: u32)" using len st(3) by simp
  obtain m2 where "flash_storage_program ?sdk ?r 256 (Some ?p1) 256 (m1, []) = (FLASH_STORAGE_OK, (m2, []))"
    using nor_slot_ops(2) [OF r, of 256 ?p1 m1] by auto
  from program_verified_blank_ok [OF use l1 this]
  have p1: "flash_storage_program_verified ?sdk ?r 256 (Some ?p1) 256 (m1, []) = (FLASH_STORAGE_OK, (m2, []))"
    using blank1 hi by (simp add: in_span_def)
  have w: "write_records ?sdk ?r ?buf ?n 0 (m1, []) = (True, (m2, []))"
    using st(2,3) p1 write_records.simps [of ?sdk ?r ?buf ?n ?n "(m2, [])"]
    unfolding write_records.simps [of ?sdk ?r ?buf ?n 0 "(m1, [])"] by (cases "?n = 256") (simp_all add: Let_def)
  let ?p2 = "blit 0 (slot_header_bytes (slot_header_make (pc_sequence c + 1) ?rs)) (replicate 256 0xFF) :: u8 list"
  have l2: "length ?p2 = unat (256 :: u32)" by simp
  obtain m3 where "flash_storage_program ?sdk ?r 0 (Some ?p2) 256 (m2, []) = (FLASH_STORAGE_OK, (m3, []))"
    using nor_slot_ops(2) [OF r, of 0 ?p2 m2] by auto
  from program_verified_blank_ok [OF use l2 this]
  have p2: "flash_storage_program_verified ?sdk ?r 0 (Some ?p2) 256 (m2, []) = (FLASH_STORAGE_OK, (m3, []))"
    using write_records_spec [OF ok len _ _ _ w] st(3) blank1 hi
    by (simp add: in_span_def persistent_config_capacity_def)
  have "reg_size (slot0 small_slots) \<noteq> 0" "?buf \<noteq> []"
    using st(1) by (simp_all add: slots_of_def store_ok_def)
  with er w p2 st(3) show ?thesis
    by (intro that)
      (simp_all add: persistent_config_save_def slots Let_def config_store_used_def persistent_config_capacity_def
        slot_header_make_fields)
qed

text \<open>A store of 64 bytes that holds one key.\<close>

definition one_key_store :: "u8 list \<Rightarrow> config_store_t" where
  "one_key_store v = \<lparr>cs_buffer = blit 0 (record_bytes ([65], v)) (replicate 64 0), cs_capacity = 64,
     cs_used = length v + 3, cs_initialised = True\<rparr>"

lemma one_key_store_ok:
  assumes "length v \<le> 60"
  shows "store_ok (one_key_store v)" "holds (one_key_store v) [([65], v)]"
proof -
  have n: "length (record_bytes ([65], v)) = length v + 3" by simp
  have "take (length v + 3) (blit 0 (record_bytes ([65], v)) (replicate 64 0)) = record_bytes ([65], v)"
    using take_blit [of 0 "record_bytes ([65], v)" "replicate 64 0"] assms unfolding n by simp
  then show h: "holds (one_key_store v) [([65], v)]"
    using assms by (simp add: holds_def one_key_store_def del: record_bytes.simps)
  then show "store_ok (one_key_store v)" by (auto simp: store_ok_def one_key_store_def blit_def)
qed

lemma small_session:
  obtains c where "persistent_config_load (nor_sdk None) small_slots c0 (Some (replicate 64 0)) 64 (\<lambda>_. 0xFF, [])
      = (PERSISTENT_CONFIG_ERR_EMPTY, c)"
    and "session (nor_sdk None) small_slots (c, (\<lambda>_. 0xFF, []))"
    and "pc_slot c = slots_of small_slots" and "\<not> pc_loaded c" and "pc_sequence c = 0"
proof -
  let ?sdk = "nor_sdk None" and ?f = "(\<lambda>_. 0xFF, []) :: (nat \<Rightarrow> u8) \<times> bool list"
  note l = small_two_slots
  have ff: "xip ?sdk ?f i = 0xFF" for i by (simp add: nor_sdk_def)
  have none: "slot_reads ?sdk small_slots ?f 0 = None" "slot_reads ?sdk small_slots ?f 1 = None"
    using slot_read_blank [OF two_slots(1) [OF l] ff] slot_read_blank [OF two_slots(2) [OF l] ff]
    by (simp_all add: slot_reads_def)
  have er: "flash_storage_is_erased ?sdk (slot0 small_slots) 0 20 ?f" "flash_storage_is_erased ?sdk (slot1 small_slots) 0 20 ?f"
    unfolding slot_erased [OF two_slots(1) [OF l]] slot_erased [OF two_slots(2) [OF l]] by (simp_all add: ff)
  have "replicate 64 (0 :: u8) \<noteq> []" "64 = length (replicate 64 (0 :: u8))" by simp_all
  note eq = load_eq [OF l this, of c0 ?f]
  obtain c where c: "persistent_config_load ?sdk small_slots c0 (Some (replicate 64 0)) 64 ?f = (PERSISTENT_CONFIG_ERR_EMPTY, c)"
      "pc_slot c = slots_of small_slots" "\<not> pc_loaded c" "pc_sequence c = 0"
    unfolding eq using none er by (simp add: chosen_slot_def persistent_config_zero_def)
  have "session ?sdk small_slots (c, ?f)"
    by (rule session_start [of ?sdk small_slots c0 "replicate 64 0" ?f PERSISTENT_CONFIG_ERR_EMPTY c])
      (use c(1) in simp_all)
  with c that show ?thesis by blast
qed

text \<open>One more save of a store with one key on this chip, and what the two slots read as afterwards.\<close>

lemma small_save_step:
  assumes s: "session (nor_sdk None) small_slots (c, (m, []))" and slots: "pc_slot c = slots_of small_slots"
    and v: "length v \<le> 60"
  obtains c' m' where "persistent_config_save (nor_sdk None) (c\<lparr>pc_store := one_key_store v\<rparr>) (m, [])
        = (PERSISTENT_CONFIG_OK, c', (m', []))"
    and "session (nor_sdk None) small_slots (c\<lparr>pc_store := one_key_store v\<rparr>, (m, []))"
    and "session (nor_sdk None) small_slots (c', (m', []))"
    and "c' = c\<lparr>pc_store := one_key_store v, pc_current := save_target c, pc_sequence := pc_sequence c + 1, pc_loaded := True\<rparr>"
    and "slot_reads (nor_sdk None) small_slots (m', []) (unat (save_target c))
       = Some (slot_header_make (pc_sequence c + 1) (record_bytes ([65], v)), record_bytes ([65], v))"
    and "slot_reads (nor_sdk None) small_slots (m', []) (1 - unat (save_target c))
       = slot_reads (nor_sdk None) small_slots (m, []) (1 - unat (save_target c))"
proof -
  let ?sdk = "nor_sdk None" and ?c = "c\<lparr>pc_store := one_key_store v\<rparr>"
  note st = one_key_store_ok [OF v]
  have e: "session ?sdk small_slots (?c, (m, []))" by (rule session_edit [OF s st(1)])
  have inv: "session_ok small_slots ?sdk (?c, (m, []))" by (rule session_inv [OF small_two_slots e])
  have same: "save_target ?c = save_target c" by (simp add: save_target_def)
  have t: "unat (save_target ?c) < 2" using inv by (intro target_lt) (simp add: session_ok_def)
  have sl: "pc_slot ?c = slots_of small_slots" using slots by simp
  have used: "0 < cs_used (pc_store ?c)" "cs_used (pc_store ?c) \<le> 256"
    using v by (simp_all add: one_key_store_def)
  have so: "store_ok (pc_store ?c)" using st(1) by simp
  obtain c' m' where c': "persistent_config_save ?sdk ?c (m, []) = (PERSISTENT_CONFIG_OK, c', (m', []))"
    "c' = ?c\<lparr>pc_current := save_target ?c, pc_sequence := pc_sequence ?c + 1, pc_loaded := True\<rparr>"
    by (rule nor_save_ok [OF sl t so used])
  note res = save_result [OF _ slot_by_index [OF small_two_slots t] store_ok_fits [OF so] c'(1), unfolded sl, OF refl]
  have rs: "take (cs_used (pc_store ?c)) (cs_buffer (pc_store ?c)) = record_bytes ([65], v)"
    using st(2) by (simp add: holds_def)
  show ?thesis
  proof (rule that [OF c'(1) e session_save [OF e c'(1)]])
    show "c' = c\<lparr>pc_store := one_key_store v, pc_current := save_target c, pc_sequence := pc_sequence c + 1, pc_loaded := True\<rparr>"
      using c'(2) same by simp
    show "slot_reads ?sdk small_slots (m', []) (unat (save_target c))
       = Some (slot_header_make (pc_sequence c + 1) (record_bytes ([65], v)), record_bytes ([65], v))"
      using res rs same by (simp add: slot_reads_def)
    show "slot_reads ?sdk small_slots (m', []) (1 - unat (save_target c))
       = slot_reads ?sdk small_slots (m, []) (1 - unat (save_target c))"
      unfolding same [symmetric] by (rule other_slot_reads [OF small_two_slots t]) (use res in blast)
  qed
qed

subsection \<open>Properties\<close>

lemma saved_is_loaded:
  assumes l: "two_slots sdk l" and s: "session sdk l (c, f)"
    and save: "persistent_config_save sdk c f = (PERSISTENT_CONFIG_OK, c', g)"
    and b: "b \<noteq> []" "cs_used (pc_store c) \<le> length b"
  shows "\<exists>c2. persistent_config_load sdk l c0 (Some b) (length b) g = (PERSISTENT_CONFIG_OK, c2)
    \<and> config_lookup (pc_store c2) = config_lookup (pc_store c) \<and> (\<exists>es. holds (pc_store c2) es)
    \<and> config_store_used (pc_store c2) = config_store_used (pc_store c)
    \<and> persistent_config_sequence c2 = persistent_config_sequence c + 1
    \<and> pc_current c2 = pc_current c' \<and> pc_loaded c2"
proof -
  have inv: "session_ok l sdk (c, f)" by (rule session_inv [OF l s])
  let ?t = "unat (save_target c)" and ?rs = "take (cs_used (pc_store c)) (cs_buffer (pc_store c))"
  have slots: "pc_slot c = slots_of l" and st: "store_ok (pc_store c)" using inv by (auto simp: session_ok_def)
  obtain es where es: "holds (pc_store c) es" using st by (auto simp: store_ok_def)
  have t: "?t < 2" using inv by (intro target_lt) (simp add: session_ok_def)
  have ok: "slot_ok sdk (slots_of l ! ?t)" by (rule slot_by_index [OF l t])
  note res = save_result [OF _ ok store_ok_fits [OF st] save, unfolded slots, OF refl, simplified]
  let ?h = "slot_header_make (pc_sequence c + 1) ?rs"
  have rd: "slot_reads sdk l g ?t = Some (?h, ?rs)" using res by (simp add: slot_reads_def)
  have other: "slot_reads sdk l g (1 - ?t) = slot_reads sdk l f (1 - ?t)"
    by (rule other_slot_reads [OF l t]) (use res in auto)
  have older: "hdr_sequence h = pc_sequence c" if "slot_reads sdk l f (1 - ?t) = Some (h, rs)" for h rs
    using that inv save_target_other [of c] by (cases "pc_loaded c") (auto simp: session_ok_def save_target_def)
  have "?t = 0 \<or> ?t = 1" using t by auto
  then have chosen: "chosen_slot (slot_reads sdk l g 0) (slot_reads sdk l g 1) = Some ?t"
  proof (cases "slot_reads sdk l f (1 - ?t)")
    case None
    with \<open>?t = 0 \<or> ?t = 1\<close> rd other show ?thesis by (auto simp: chosen_slot_def)
  next
    case (Some p)
    obtain h rs where p: "p = (h, rs)" by fastforce
    with older Some have "hdr_sequence h = pc_sequence c" by blast
    with \<open>?t = 0 \<or> ?t = 1\<close> rd other Some p sequence_next_later [of "pc_sequence c"] show ?thesis
      by (auto simp: chosen_slot_def slot_header_make_fields)
  qed
  have rs: "?rs = run_bytes es" "list_all entry_ok es" using es by (auto simp: holds_def)
  have rs3: "length ?rs = cs_used (pc_store c)" using store_ok_fits [OF st] by simp
  obtain c2 where c2: "persistent_config_load sdk l c0 (Some b) (length b) g = (PERSISTENT_CONFIG_OK, c2)"
      "holds (pc_store c2) es" "pc_current c2 = word_of_nat ?t" "pc_sequence c2 = hdr_sequence ?h" "pc_loaded c2"
      "cs_used (pc_store c2) = length ?rs"
    by (rule load_chosen [OF l b(1) refl chosen rd _ rs(1,2), of c0]) (use b(2) rs3 in simp_all)
  have "config_lookup (pc_store c2) = config_lookup (pc_store c)"
    by (rule ext) (simp add: config_lookup_run [OF c2(2)] config_lookup_run [OF es])
  moreover have "\<exists>es. holds (pc_store c2) es" using c2(2) by blast
  ultimately show ?thesis
    using c2 res rs3
    by (simp add: slot_header_make_fields persistent_config_sequence_def config_store_used_def)
qed







text \<open>Erasing. In any session, after an erase that reports success a load reports that nothing was
  ever saved and gives an empty store.\<close>

theorem persistent_erase_then_empty:
  assumes l: "two_slots sdk l" and s: "session sdk l (c, f)" and b: "b \<noteq> []"
    and erase: "persistent_config_erase sdk c f = (PERSISTENT_CONFIG_OK, c', g)"
  shows "\<exists>c2. persistent_config_load sdk l c0 (Some b) (length b) g = (PERSISTENT_CONFIG_ERR_EMPTY, c2)
    \<and> config_lookup (pc_store c2) = Map.empty \<and> config_lookup (pc_store c') = Map.empty"
proof -
  have inv: "session_ok l sdk (c, f)" by (rule session_inv [OF l s])
  note blank = session_erase_ok(2) [OF l inv erase refl]
  have hi: "reg_hi (slot0 l) = reg_lo (slot0 l) + 4096" "reg_hi (slot1 l) = reg_lo (slot1 l) + 4096"
    using two_slots(1,2) [OF l] by (simp_all add: slot_ok_def reg_hi_def reg_lo_def)
  have none: "slot_reads sdk l g 0 = None" "slot_reads sdk l g 1 = None"
    using slot_read_blank [OF two_slots(1) [OF l], of g] slot_read_blank [OF two_slots(2) [OF l], of g]
      blank hi two_slots(3) [OF l] by (simp_all add: slot_reads_def)
  have er: "flash_storage_is_erased sdk (slot0 l) 0 20 g" "flash_storage_is_erased sdk (slot1 l) 0 20 g"
    using blank hi two_slots(3) [OF l]
    by (simp_all add: slot_erased [OF two_slots(1) [OF l]] slot_erased [OF two_slots(2) [OF l]] del: One_nat_def)
  let ?st = "\<lparr>cs_buffer = b, cs_capacity = length b, cs_used = 0, cs_initialised = True\<rparr>"
  have "holds ?st []" by (simp add: holds_def)
  from config_lookup_run [OF this] have e: "config_lookup ?st = Map.empty" by auto
  obtain es where es: "holds (pc_store c) es" using inv by (auto simp: session_ok_def store_ok_def)
  have "pc_store c' = config_clear (pc_store c)"
    using erase by (auto simp: persistent_config_erase_def split: if_splits prod.splits)
  with config_lookup_run [OF config_clear_keeps_run [OF es]] have "config_lookup (pc_store c') = Map.empty" by auto
  then show ?thesis
    using none er e by (simp add: load_eq [OF l b refl] chosen_slot_def)
qed

lemma persistent_erase_then_empty_witness:
  "\<exists>c f c' g c2. session (nor_sdk None) small_slots (c, f) \<and> pc_loaded c
    \<and> persistent_config_erase (nor_sdk None) c f = (PERSISTENT_CONFIG_OK, c', g)
    \<and> persistent_config_load (nor_sdk None) small_slots c (Some (replicate 16 0)) 16 g = (PERSISTENT_CONFIG_ERR_EMPTY, c2)
    \<and> config_lookup (pc_store c2) = Map.empty"
proof -
  obtain c0 where c0: "session (nor_sdk None) small_slots (c0, (\<lambda>_. 0xFF, []))" "pc_slot c0 = slots_of small_slots"
    by (rule small_session [where ?c0.0 = persistent_config_zero])
  have v: "length [7 :: u8] \<le> 60" by simp
  from small_save_step [OF c0 v] obtain c m where s: "session (nor_sdk None) small_slots (c, (m, []))"
    and "c = c0\<lparr>pc_store := one_key_store [7], pc_current := save_target c0, pc_sequence := pc_sequence c0 + 1, pc_loaded := True\<rparr>"
    by blast
  then have c: "pc_slot c = slots_of small_slots" "pc_loaded c" using c0(2) by simp_all
  obtain m1 where e1: "flash_storage_erase (nor_sdk None) (slot0 small_slots) 0 (reg_size (slot0 small_slots)) (m, []) = (FLASH_STORAGE_OK, (m1, []))"
    using nor_slot_ops(1) [of "slot0 small_slots" 0 m] by auto
  obtain m2 where e2: "flash_storage_erase (nor_sdk None) (slot1 small_slots) 0 (reg_size (slot1 small_slots)) (m1, []) = (FLASH_STORAGE_OK, (m2, []))"
    using nor_slot_ops(1) [of "slot1 small_slots" 0 m1] by auto
  obtain c' where er: "persistent_config_erase (nor_sdk None) c (m, []) = (PERSISTENT_CONFIG_OK, c', (m2, []))"
    using e1 e2 c(1) by (simp add: persistent_config_erase_def slots_of_def)
  from s c(2) er persistent_erase_then_empty [OF small_two_slots s _ er, of "replicate 16 0" c]
  show ?thesis by fastforce
qed


text \<open>A configuration saved after a load that found the stored one too large is silently dropped.
  Such a load leaves the session without a sequence number, so the save writes the first slot
  with number 1 and reports success; if what was too large is in the second slot with a later
  number, every following load keeps finding that one.\<close>

theorem persistent_save_after_too_large_is_lost:
  assumes l: "two_slots sdk l" and b: "b \<noteq> []"
    and load: "persistent_config_load sdk l c0 (Some b) (length b) f = (PERSISTENT_CONFIG_ERR_TOO_LARGE, c)"
    and second: "chosen_slot (slot_read sdk (slot0 l) f) (slot_read sdk (slot1 l) f) = Some 1"
      "slot_read sdk (slot1 l) f = Some (h, rs)" "sequence_is_later (hdr_sequence h) 1"
    and st: "store_ok s"
    and save: "persistent_config_save sdk (c\<lparr>pc_store := s\<rparr>) f = (PERSISTENT_CONFIG_OK, c', g)"
    and b2: "b2 \<noteq> []"
  shows "persistent_config_load sdk l c1 (Some b2) (length b2) g = persistent_config_load sdk l c1 (Some b2) (length b2) f"
proof -
  let ?c = "c\<lparr>pc_store := s\<rparr>"
  have f1: "chosen_slot (slot_reads sdk l f 0) (slot_reads sdk l f 1) = Some 1"
    using second(1) by (simp add: slot_reads_def)
  have "fst (adopt_slot (persistent_config_zero\<lparr>pc_slot := slots_of l\<rparr>) b (length b) 1 (h, rs)) = PERSISTENT_CONFIG_ERR_TOO_LARGE"
    and c: "c = snd (adopt_slot (persistent_config_zero\<lparr>pc_slot := slots_of l\<rparr>) b (length b) 1 (h, rs))"
    using load f1 second(2) by (simp_all add: load_eq [OF l b refl] slot_reads_def)
  then have c: "pc_slot ?c = slots_of l" "\<not> pc_loaded ?c" "pc_sequence ?c = 0"
    by (auto simp: Let_def persistent_config_zero_def split: if_splits prod.splits)
  have t: "save_target ?c = 0" using c(2) by (simp add: save_target_def)
  note res = save_result [OF _ _ _ save, unfolded c(1) t, of "slot0 l", simplified]
  have r: "slot_read sdk (slot0 l) g = Some (slot_header_make 1 (take (cs_used s) (cs_buffer s)), take (cs_used s) (cs_buffer s))"
    "\<And>i. i < reg_lo (slot0 l) \<or> reg_hi (slot0 l) \<le> i \<Longrightarrow> xip sdk g i = xip sdk f i"
    using res two_slots(1) [OF l] store_ok_fits [OF st] c(3) by auto
  have same: "slot_reads sdk l g 1 = slot_reads sdk l f 1"
    using other_slot_reads [OF l, of 0 g f] r(2) by simp
  have "chosen_slot (slot_reads sdk l g 0) (slot_reads sdk l g 1) = Some 1"
    using r(1) same second(2,3) by (simp add: chosen_slot_def slot_reads_def slot_header_make_fields)
  from load_cong [OF l b2 refl f1 this same] show ?thesis .
qed

lemma persistent_save_after_too_large_is_lost_witness:
  "\<exists>f c c' g. persistent_config_load (nor_sdk None) small_slots persistent_config_zero (Some (replicate 16 0)) 16 f
        = (PERSISTENT_CONFIG_ERR_TOO_LARGE, c)
    \<and> persistent_config_save (nor_sdk None) (c\<lparr>pc_store := one_key_store [7]\<rparr>) f = (PERSISTENT_CONFIG_OK, c', g)
    \<and> persistent_config_load (nor_sdk None) small_slots persistent_config_zero (Some (replicate 16 0)) 16 g
        = (PERSISTENT_CONFIG_ERR_TOO_LARGE, c)"
proof -
  let ?sdk = "nor_sdk None" and ?f0 = "(\<lambda>_. 0xFF, []) :: (nat \<Rightarrow> u8) \<times> bool list"
  let ?v = "replicate 40 1 :: u8 list"
  let ?rs = "record_bytes ([65], ?v)"
  obtain c0 where c0: "session ?sdk small_slots (c0, ?f0)" "pc_slot c0 = slots_of small_slots" "\<not> pc_loaded c0"
    "pc_sequence c0 = 0"
    by (rule small_session [where ?c0.0 = persistent_config_zero])
  have "replicate 16 (0 :: u8) \<noteq> []" "16 = length (replicate 16 (0 :: u8))" by simp_all
  then obtain b :: "u8 list" where b: "b \<noteq> []" "16 = length b" "b = replicate 16 0" by blast
  have v: "length ?v \<le> 60" by simp
  have t0: "unat (save_target c0) = 0" using c0(3) by (simp add: save_target_def)
  obtain c1 m1 where c1: "session ?sdk small_slots (c1, (m1, []))"
    "c1 = c0\<lparr>pc_store := one_key_store ?v, pc_current := save_target c0, pc_sequence := pc_sequence c0 + 1, pc_loaded := True\<rparr>"
    "slot_reads ?sdk small_slots (m1, []) 0 = Some (slot_header_make 1 ?rs, ?rs)"
    using small_save_step [OF c0(1,2) v] unfolding t0 c0(4) by (metis add_0)
  have t1: "unat (save_target c1) = 1" and c1s: "pc_slot c1 = slots_of small_slots" "pc_sequence c1 + 1 = 2"
    using c0 by (simp_all add: c1(2) save_target_def)
  obtain m where
    rd: "slot_reads ?sdk small_slots (m, []) 1 = Some (slot_header_make 2 ?rs, ?rs)"
    "slot_reads ?sdk small_slots (m, []) 0 = Some (slot_header_make 1 ?rs, ?rs)"
    using small_save_step [OF c1(1) c1s(1) v] unfolding t1 c1s(2) diff_self_eq_0 c1(3) by blast
  have ch: "chosen_slot (slot_reads ?sdk small_slots (m, []) 0) (slot_reads ?sdk small_slots (m, []) 1) = Some 1"
    using rd by (simp add: chosen_slot_def sequence_is_later_def slot_header_make_fields)
  have n: "unat (hdr_length (slot_header_make 2 ?rs)) = 43"
    by (simp add: slot_header_make_fields del: record_bytes.simps)
  obtain c where c: "persistent_config_load ?sdk small_slots persistent_config_zero (Some b) 16 (m, []) = (PERSISTENT_CONFIG_ERR_TOO_LARGE, c)"
    "pc_slot c = slots_of small_slots" "\<not> pc_loaded c"
    using ch rd(1) n by (simp add: load_eq [OF small_two_slots b(1,2)] persistent_config_zero_def del: record_bytes.simps)
  have st: "store_ok (one_key_store [7])" by (rule one_key_store_ok) simp
  let ?c = "c\<lparr>pc_store := one_key_store [7]\<rparr>"
  obtain c' m' where save: "persistent_config_save ?sdk ?c (m, []) = (PERSISTENT_CONFIG_OK, c', (m', []))"
  proof (rule nor_save_ok [of ?c m])
    show "pc_slot ?c = slots_of small_slots" "unat (save_target ?c) < 2" "store_ok (pc_store ?c)"
      "0 < cs_used (pc_store ?c)" "cs_used (pc_store ?c) \<le> 256"
      using c st by (simp_all add: save_target_def one_key_store_def)
  qed
  have later: "sequence_is_later (hdr_sequence (slot_header_make 2 ?rs)) 1"
    by (simp add: sequence_is_later_def slot_header_make_fields)
  note lost = persistent_save_after_too_large_is_lost [OF small_two_slots b(1) c(1) [unfolded b(2)]
      ch [unfolded slot_reads_def] rd(1) [unfolded slot_reads_def] later st save b(1), of persistent_config_zero]
  show ?thesis using c(1) save lost [unfolded b(2) [symmetric]] unfolding b(3) [symmetric]
    by (intro exI [of _ "(m, [])"] exI [of _ c] exI [of _ c'] exI [of _ "(m', [])"]) simp
qed

end
