(* ===== verification/Json_Reader.thy ===== *)
theory Json_Reader
  imports Prelude "HOL-Library.Char_ord" "HOL-Library.Sublist"
begin

text \<open>
  Model of the reading half of \<open>components/json/json.c\<close>: the scanner, the unescaping of
  strings, and the functions that locate and convert values.

  A scan walks the memory of the document. Its \<open>scan_t\<close> (the pointer \<open>end\<close>) is the document cut
  at that pointer, so \<open>p < s->end\<close> is \<open>p < length s\<close>; a cursor is an index, and the \<open>NULL\<close> of
  the code is \<open>None\<close>. The object found is described by its offset and length in the caller's
  buffer, as the pointers of \<open>json_value_t\<close> do. A C string argument is the list of its
  characters without the terminator.

  The mutually recursive scanner is one \<open>function\<close>: its termination rests on the fact, proved
  over its domain, that a scan that succeeds moves the cursor forward.
\<close>

abbreviation (input) JSON_MAX_DEPTH :: nat where "JSON_MAX_DEPTH \<equiv> 16"

datatype json_type_t =
    JSON_TYPE_INVALID
  | JSON_TYPE_NULL
  | JSON_TYPE_BOOL
  | JSON_TYPE_NUMBER
  | JSON_TYPE_STRING
  | JSON_TYPE_OBJECT
  | JSON_TYPE_ARRAY

record json_value_t =
  jv_type :: json_type_t
  jv_start :: nat
  jv_length :: nat

subsection \<open>Scanning\<close>

definition is_space :: "char \<Rightarrow> bool" where
  "is_space c \<longleftrightarrow> c = CHR '' '' \<or> c = CHR 0x09 \<or> c = CHR 0x0A \<or> c = CHR 0x0D"

function skip_whitespace :: "string \<Rightarrow> nat \<Rightarrow> nat" where
  "skip_whitespace s p = (if p < length s \<and> is_space (s ! p) then skip_whitespace s (p + 1) else p)"
  by pat_completeness auto
termination by (relation "measure (\<lambda>(s, p). length s - p)") auto

declare skip_whitespace.simps [simp del]

text \<open>The loop of \<open>skip_string\<close>, from inside the quotes.\<close>

function skip_string_body :: "string \<Rightarrow> nat \<Rightarrow> nat option" where
  "skip_string_body s p =
     (if p < length s
      then if s ! p = CHR 0x5C then skip_string_body s (p + 2)
           else if s ! p = CHR 0x22 then Some (p + 1)
           else skip_string_body s (p + 1)
      else None)"
  by pat_completeness auto
termination by (relation "measure (\<lambda>(s, p). length s - p)") auto

declare skip_string_body.simps [simp del]

definition skip_string :: "string \<Rightarrow> nat \<Rightarrow> nat option" where
  "skip_string s p = (if length s \<le> p \<or> s ! p \<noteq> CHR 0x22 then None else skip_string_body s (p + 1))"

definition is_digit :: "char \<Rightarrow> bool" where
  "is_digit c \<longleftrightarrow> CHR ''0'' \<le> c \<and> c \<le> CHR ''9''"

function skip_digits :: "string \<Rightarrow> nat \<Rightarrow> nat" where
  "skip_digits s p = (if p < length s \<and> is_digit (s ! p) then skip_digits s (p + 1) else p)"
  by pat_completeness auto
termination by (relation "measure (\<lambda>(s, p). length s - p)") auto

declare skip_digits.simps [simp del]

text \<open>An optional sign.\<close>

definition skip_sign :: "string \<Rightarrow> nat \<Rightarrow> nat" where
  "skip_sign s p = (if p < length s \<and> (s ! p = CHR ''-'' \<or> s ! p = CHR ''+'') then p + 1 else p)"

definition skip_number :: "string \<Rightarrow> nat \<Rightarrow> nat option" where
  "skip_number s start =
     (let p = skip_digits s (skip_sign s start);
          p = (if p < length s \<and> s ! p = CHR ''.'' then skip_digits s (p + 1) else p);
          p = (if p < length s \<and> (s ! p = CHR ''e'' \<or> s ! p = CHR ''E'')
               then skip_digits s (skip_sign s (p + 1)) else p) in
      if start < p \<and> is_digit (s ! (p - 1)) then Some p else None)"

fun skip_literal :: "string \<Rightarrow> nat \<Rightarrow> string \<Rightarrow> nat option" where
  "skip_literal s p [] = Some p"
| "skip_literal s p (c # word) =
     (if length s \<le> p \<or> s ! p \<noteq> c then None else skip_literal s (p + 1) word)"

text \<open>Where the primitive scans leave the cursor: inside the document, and never before the start.\<close>

lemma skip_whitespace_ge: "p \<le> skip_whitespace s p"
  by (induction s p rule: skip_whitespace.induct) (subst skip_whitespace.simps, auto intro: Suc_leD)

lemma skip_digits_ge: "p \<le> skip_digits s p"
  by (induction s p rule: skip_digits.induct) (subst skip_digits.simps, auto intro: Suc_leD)

lemma skip_sign_ge: "p \<le> skip_sign s p"
  by (simp add: skip_sign_def)

lemma skip_string_body_gt: "skip_string_body s p = Some q \<Longrightarrow> p < q \<and> q \<le> length s"
  by (induction s p rule: skip_string_body.induct)
    (subst (asm) (2) skip_string_body.simps, fastforce split: if_splits)

lemma skip_string_gt: "skip_string s p = Some q \<Longrightarrow> p < q \<and> q \<le> length s"
  using skip_string_body_gt [of s "p + 1" q] by (auto simp: skip_string_def split: if_splits)

lemma skip_number_gt: "skip_number s p = Some q \<Longrightarrow> p < q"
  by (auto simp: skip_number_def Let_def split: if_splits)

lemma skip_literal_eq:
  "skip_literal s p word = Some q \<longleftrightarrow> q = p + length word \<and> take (length word) (drop p s) = word"
proof (induction s p word rule: skip_literal.induct)
  case (2 s p c word)
  show ?case
  proof (cases "p < length s")
    case True
    then have "drop p s = s ! p # drop (p + 1) s" by (simp add: Cons_nth_drop_Suc)
    with 2 True show ?thesis by auto
  qed simp
qed auto

text \<open>What the loop over the members does first: in an object, the name and the colon.\<close>

definition skip_member_name :: "string \<Rightarrow> char \<Rightarrow> nat \<Rightarrow> nat option" where
  "skip_member_name s opening p =
     (if opening = CHR ''{''
      then (case skip_string s (skip_whitespace s p) of
              None \<Rightarrow> None
            | Some p \<Rightarrow>
                (let p = skip_whitespace s p in
                 if length s \<le> p \<or> s ! p \<noteq> CHR '':'' then None else Some (p + 1)))
      else Some p)"

lemma skip_whitespace_Suc_gt [simp]: "p < skip_whitespace s (Suc p)"
  using skip_whitespace_ge [of "Suc p" s] by simp

lemma skip_member_name_ge: "skip_member_name s opening p = Some q \<Longrightarrow> p \<le> q"
proof (cases "opening = CHR ''{''")
  case True
  assume "skip_member_name s opening p = Some q"
  with True obtain r where "skip_string s (skip_whitespace s p) = Some r" "q = skip_whitespace s r + 1"
    by (auto simp: skip_member_name_def Let_def split: if_splits option.splits)
  with skip_string_gt [OF this(1)] skip_whitespace_ge [of p s] skip_whitespace_ge [of r s] show ?thesis by linarith
qed (simp add: skip_member_name_def)

text \<open>
  \<open>skip_members\<close> is the endless loop of \<open>skip_container\<close>, entered with the cursor at the next
  key or element; \<open>opening\<close> tells an object from an array and \<open>closing\<close> is its last character.
\<close>

function (sequential)
  skip_value :: "string \<Rightarrow> nat \<Rightarrow> nat \<Rightarrow> nat option" and
  skip_container :: "string \<Rightarrow> nat \<Rightarrow> nat \<Rightarrow> nat option" and
  skip_members :: "string \<Rightarrow> char \<Rightarrow> char \<Rightarrow> nat \<Rightarrow> nat \<Rightarrow> nat option" where
  "skip_value s p depth =
     (if length s \<le> p then None
      else if s ! p = CHR 0x22 then skip_string s p
      else if s ! p = CHR ''{'' \<or> s ! p = CHR ''['' then skip_container s p depth
      else if s ! p = CHR ''t'' then skip_literal s p ''true''
      else if s ! p = CHR ''f'' then skip_literal s p ''false''
      else if s ! p = CHR ''n'' then skip_literal s p ''null''
      else skip_number s p)"
| "skip_container s p depth =
     (let opening = s ! p;
          closing = (if opening = CHR ''{'' then CHR ''}'' else CHR '']'') in
      if JSON_MAX_DEPTH \<le> depth then None
      else
        (let p = skip_whitespace s (p + 1) in
         if p < length s \<and> s ! p = closing then Some (p + 1)
         else skip_members s opening closing p depth))"
| "skip_members s opening closing p depth =
     (case skip_member_name s opening p of
        None \<Rightarrow> None
      | Some p \<Rightarrow>
          (case skip_value s (skip_whitespace s p) (depth + 1) of
             None \<Rightarrow> None
           | Some p \<Rightarrow>
               (let p = skip_whitespace s p in
                if length s \<le> p then None
                else if s ! p = closing then Some (p + 1)
                else if s ! p \<noteq> CHR '','' then None
                else skip_members s opening closing (skip_whitespace s (p + 1)) depth)))"
  by pat_completeness auto

lemma skip_dom_progress:
  "skip_value_skip_container_skip_members_dom (Inl (s, p, d)) \<Longrightarrow> skip_value s p d = Some q \<Longrightarrow> p < q"
  "skip_value_skip_container_skip_members_dom (Inr (Inl (s, p, d))) \<Longrightarrow> skip_container s p d = Some q \<Longrightarrow> p < q"
  "skip_value_skip_container_skip_members_dom (Inr (Inr (s, a, b, p, d))) \<Longrightarrow>
     skip_members s a b p d = Some q \<Longrightarrow> p < q"
proof (induction s p d and s p d and s a b p d arbitrary: q and q and q
    rule: skip_value_skip_container_skip_members.pinduct)
  case (1 s p depth)
  then show ?case
    by (auto simp: skip_value.psimps skip_literal_eq dest: skip_string_gt skip_number_gt split: if_splits)
next
  case (2 s p depth)
  have lt: "p < skip_whitespace s (p + 1)" by simp
  then have "p < q" if "skip_whitespace s (p + 1) < q" using that by linarith
  then show ?case
    using lt 2(1,3) 2(2) [OF refl refl _ refl] by (auto simp: skip_container.psimps Let_def split: if_splits)
next
  case (3 s a b p depth)
  from 3(1,4) obtain p1 p2 where p1: "skip_member_name s a p = Some p1"
    and p2: "skip_value s (skip_whitespace s p1) (depth + 1) = Some p2"
    by (auto simp: skip_members.psimps split: option.splits)
  have "p < p2"
    using skip_member_name_ge [OF p1] skip_whitespace_ge [of p1 s] 3(2) [OF p1 p2] by linarith
  then show ?case
    using 3(1,4) p1 p2 3(3) [OF p1 p2 refl] skip_whitespace_ge [of p2 s]
      skip_whitespace_ge [of "skip_whitespace s p2 + 1" s]
    by (fastforce simp: skip_members.psimps Let_def split: if_splits)
qed

termination skip_value
proof (relation "measures
    [\<lambda>x. case x of Inl (s, p, d) \<Rightarrow> length s - p | Inr (Inl (s, p, d)) \<Rightarrow> length s - p
       | Inr (Inr (s, a, b, p, d)) \<Rightarrow> length s - p,
     \<lambda>x. case x of Inl (s, p, d) \<Rightarrow> (if p < length s then 1 else 0)
       | Inr (Inl (s, p, d)) \<Rightarrow> (if p < length s then 0 else 2)
       | Inr (Inr (s, a, b, p, d)) \<Rightarrow> (if p < length s then 2 else 1)]", goal_cases)
  case (3 s p d a b q)
  have "p < q" unfolding 3(4) by simp
  then show ?case by auto
next
  case (4 s a b p d p1)
  then show ?case using skip_member_name_ge [of s a p p1] skip_whitespace_ge [of p1 s] by auto
next
  case (5 s a b p d p1 p2 q)
  have p2: "skip_whitespace s p1 < p2" by (rule skip_dom_progress(1) [OF 5(7,2)])
  have "skip_whitespace s p1 < length s"
    using 5(2,7) by (auto simp: skip_value.psimps split: if_splits)
  moreover have "p < skip_whitespace s (q + 1)"
    using 5(1,3) p2 skip_member_name_ge [of s a p p1] skip_whitespace_ge [of p1 s] skip_whitespace_ge [of p2 s]
      skip_whitespace_ge [of "q + 1" s] by linarith
  moreover have "p \<le> skip_whitespace s p1"
    using 5(1) skip_member_name_ge [of s a p p1] skip_whitespace_ge [of p1 s] by linarith
  ultimately show ?case by (simp add: diff_less_mono2)
qed auto

declare skip_value.simps [simp del] skip_container.simps [simp del] skip_members.simps [simp del]

text \<open>A scan that succeeds moves forward and stays inside the document.\<close>

lemma skip_whitespace_le: "p \<le> length s \<Longrightarrow> skip_whitespace s p \<le> length s"
proof (induction s p rule: skip_whitespace.induct)
  case (1 s p)
  then show ?case by (cases "p < length s \<and> is_space (s ! p)") (simp_all add: skip_whitespace.simps [of s p])
qed

lemma skip_digits_le: "p \<le> length s \<Longrightarrow> skip_digits s p \<le> length s"
proof (induction s p rule: skip_digits.induct)
  case (1 s p)
  then show ?case by (cases "p < length s \<and> is_digit (s ! p)") (simp_all add: skip_digits.simps [of s p])
qed

lemma skip_sign_le: "p \<le> length s \<Longrightarrow> skip_sign s p \<le> length s"
  by (auto simp: skip_sign_def)

lemma skip_number_le: "skip_number s p = Some q \<Longrightarrow> p \<le> length s \<Longrightarrow> q \<le> length s"
  by (auto simp: skip_number_def Let_def skip_digits_le skip_sign_le split: if_splits)

lemma skip_literal_le: "skip_literal s p word = Some q \<Longrightarrow> p \<le> length s \<Longrightarrow> q \<le> length s"
  by (auto simp: skip_literal_eq min_def split: if_splits dest: arg_cong [where f = length])

lemma skip_progress:
  "skip_value s p d = Some q \<Longrightarrow> p < q \<and> q \<le> length s"
  "skip_container s p d = Some q \<Longrightarrow> p < q \<and> q \<le> length s"
  "skip_members s a b p d = Some q \<Longrightarrow> p < q \<and> q \<le> length s"
proof (induction s p d and s p d and s a b p d arbitrary: q and q and q
    rule: skip_value_skip_container_skip_members.induct)
  case (1 s p depth)
  then show ?case
    by (auto simp: skip_value.simps [of s p depth] skip_literal_eq
        dest: skip_string_gt skip_number_gt skip_number_le skip_literal_le split: if_splits)
next
  case (2 s p depth)
  have lt: "p < skip_whitespace s (p + 1)" by simp
  then have "p < q" if "skip_whitespace s (p + 1) < q" using that by linarith
  then show ?case
    using lt 2(2) 2(1) [OF refl refl _ refl]
    by (auto simp: skip_container.simps [of s p depth] Let_def split: if_splits)
next
  case (3 s a b p depth)
  from 3(3) obtain p1 p2 where p1: "skip_member_name s a p = Some p1"
    and p2: "skip_value s (skip_whitespace s p1) (depth + 1) = Some p2"
    by (auto simp: skip_members.simps [of s a b p depth] split: option.splits)
  have "p < p2"
    using skip_member_name_ge [OF p1] skip_whitespace_ge [of p1 s] 3(1) [OF p1 p2] by linarith
  then show ?case
    using 3(3) p1 p2 3(2) [OF p1 p2 refl] skip_whitespace_ge [of p2 s]
      skip_whitespace_ge [of "skip_whitespace s p2 + 1" s]
    by (fastforce simp: skip_members.simps [of s a b p depth] Let_def split: if_splits)
qed

lemmas skip_value_gt = skip_progress(1) and skip_container_gt = skip_progress(2)

subsection \<open>Unescaping\<close>

fun type_of :: "char \<Rightarrow> json_type_t" where
  "type_of c =
     (if c = CHR 0x22 then JSON_TYPE_STRING
      else if c = CHR ''{'' then JSON_TYPE_OBJECT
      else if c = CHR ''['' then JSON_TYPE_ARRAY
      else if c = CHR ''t'' \<or> c = CHR ''f'' then JSON_TYPE_BOOL
      else if c = CHR ''n'' then JSON_TYPE_NULL
      else JSON_TYPE_NUMBER)"

definition set_invalid :: json_value_t where
  "set_invalid = \<lparr>jv_type = JSON_TYPE_INVALID, jv_start = 0, jv_length = 0\<rparr>"

text \<open>The \<open>-1\<close> of \<open>hex_digit\<close> is \<open>None\<close>.\<close>

definition hex_digit :: "char \<Rightarrow> nat option" where
  "hex_digit c =
     (if CHR ''0'' \<le> c \<and> c \<le> CHR ''9'' then Some (of_char c - of_char (CHR ''0''))
      else if CHR ''a'' \<le> c \<and> c \<le> CHR ''f'' then Some (of_char c - of_char (CHR ''a'') + 10)
      else if CHR ''A'' \<le> c \<and> c \<le> CHR ''F'' then Some (of_char c - of_char (CHR ''A'') + 10)
      else None)"

text \<open>The loop over the four digits of a \<open>\u\<close> escape: \<open>ds\<close> are the digits and \<open>v\<close> the value so far.\<close>

fun hex_value :: "string \<Rightarrow> nat \<Rightarrow> nat option" where
  "hex_value [] v = Some v"
| "hex_value (d # ds) v = (case hex_digit d of None \<Rightarrow> None | Some n \<Rightarrow> hex_value ds (push_bit 4 v OR n))"

text \<open>
  One turn of the loop of \<open>unescape\<close>: the character decoded at \<open>p[i]\<close> and the next \<open>i\<close>, or
  \<open>None\<close> where the code returns \<open>(size_t)-1\<close>. \<open>body\<close> is \<open>p\<close> with the length of the escaped string.
\<close>

definition decode_char :: "string \<Rightarrow> nat \<Rightarrow> (char \<times> nat) option" where
  "decode_char body i =
     (if body ! i \<noteq> CHR 0x5C then Some (body ! i, i + 1)
      else
        (let i = i + 1 in
         if length body \<le> i then None
         else if body ! i = CHR 0x22 then Some (CHR 0x22, i + 1)
         else if body ! i = CHR 0x5C then Some (CHR 0x5C, i + 1)
         else if body ! i = CHR ''/'' then Some (CHR ''/'', i + 1)
         else if body ! i = CHR ''b'' then Some (CHR 0x08, i + 1)
         else if body ! i = CHR ''f'' then Some (CHR 0x0C, i + 1)
         else if body ! i = CHR ''n'' then Some (CHR 0x0A, i + 1)
         else if body ! i = CHR ''r'' then Some (CHR 0x0D, i + 1)
         else if body ! i = CHR ''t'' then Some (CHR 0x09, i + 1)
         else if body ! i = CHR ''u''
         then if length body \<le> i + 4 then None
              else (case hex_value (chunk (i + 1) 4 body) 0 of
                      None \<Rightarrow> None
                    | Some v \<Rightarrow> if 0x7F < v then None else Some (char_of v, i + 5))
         else None))"

lemma decode_char_gt: "decode_char body i = Some (c, j) \<Longrightarrow> i < j"
  by (auto simp: decode_char_def Let_def split: if_splits option.splits)

text \<open>
  The result is the unescaped length, \<open>None\<close> for \<open>(size_t)-1\<close>, and the buffer \<open>out\<close> as it is left,
  \<open>None\<close> when the caller passed no buffer.
\<close>

function unescape_from :: "string \<Rightarrow> nat \<Rightarrow> string option \<Rightarrow> nat \<Rightarrow> nat \<Rightarrow> nat option \<times> string option" where
  "unescape_from body i out capacity written =
     (if i < length body
      then
        (case decode_char body i of
           None \<Rightarrow> (None, out)
         | Some (decoded, j) \<Rightarrow>
             (case out of
                None \<Rightarrow> unescape_from body j out capacity (written + 1)
              | Some buffer \<Rightarrow>
                  if capacity \<le> written then (None, out)
                  else unescape_from body j (Some (buffer[written := decoded])) capacity (written + 1)))
      else (Some written, out))"
  by pat_completeness auto
termination
  by (relation "measure (\<lambda>(body, i, _). length body - i)") (auto dest: decode_char_gt)

declare unescape_from.simps [simp del]

definition unescape :: "string \<Rightarrow> string option \<Rightarrow> nat \<Rightarrow> nat option \<times> string option" where
  "unescape body out capacity = unescape_from body 0 out capacity 0"

text \<open>\<open>p\<close> is the rest of the escaped string.\<close>

definition escape_width :: "string \<Rightarrow> nat" where
  "escape_width p =
     (if p ! 0 \<noteq> CHR 0x5C then 1
      else if length p < 2 then length p
      else if p ! 1 = CHR ''u'' then 6 else 2)"

lemma escape_width_pos: "p \<noteq> [] \<Longrightarrow> 0 < escape_width p"
  by (cases p) (auto simp: escape_width_def)

function escaped_equals_from :: "string \<Rightarrow> nat \<Rightarrow> string \<Rightarrow> nat \<Rightarrow> bool" where
  "escaped_equals_from body i expected j =
     (if i < length body
      then
        (let width = escape_width (drop i body) in
         if width = 0 \<or> length body < i + width then False
         else
           (case unescape (chunk i width body) (Some [CHR 0x00]) 1 of
              (got, decoded) \<Rightarrow>
                if got \<noteq> Some 1 then False
                else if length expected \<le> j \<or> expected ! j \<noteq> the decoded ! 0 then False
                else escaped_equals_from body (i + width) expected (j + 1)))
      else j = length expected)"
  by pat_completeness auto
termination
  by (relation "measure (\<lambda>(body, i, _). length body - i)") auto

declare escaped_equals_from.simps [simp del]

definition escaped_equals :: "string \<Rightarrow> string \<Rightarrow> bool" where
  "escaped_equals body expected = escaped_equals_from body 0 expected 0"

subsection \<open>Locating values\<close>

text \<open>
  \<open>mem\<close> is the caller's buffer and \<open>json\<close> the offset where the document starts in it, \<open>None\<close> for a
  null pointer; the document found is given with its offset in the same buffer.
\<close>

text \<open>The loop of \<open>json_find_n\<close>: what it reports for a member, and how it goes on after one.\<close>

function find_member :: "string \<Rightarrow> nat \<Rightarrow> string \<Rightarrow> bool \<times> json_value_t" where
  "find_member scan p key =
     (let name = skip_whitespace scan p in
      case skip_string scan name of
        None \<Rightarrow> (False, set_invalid)
      | Some name_end \<Rightarrow>
          (let p = skip_whitespace scan name_end in
           if length scan \<le> p \<or> scan ! p \<noteq> CHR '':'' then (False, set_invalid)
           else
             (let val = skip_whitespace scan (p + 1) in
              case skip_value scan val 1 of
                None \<Rightarrow> (False, set_invalid)
              | Some value_end \<Rightarrow>
                  (let name_length = name_end - name - 2 in
                   if escaped_equals (chunk (name + 1) name_length scan) key
                   then (True, \<lparr>jv_type = type_of (scan ! val), jv_start = val, jv_length = value_end - val\<rparr>)
                   else
                     (let p = skip_whitespace scan value_end in
                      if length scan \<le> p \<or> scan ! p = CHR ''}'' then (False, set_invalid)
                      else if scan ! p \<noteq> CHR '','' then (False, set_invalid)
                      else find_member scan (p + 1) key)))))"
  by pat_completeness auto
termination
proof (relation "measure (\<lambda>(scan, p, _). length scan - p)", goal_cases)
  case (2 scan p key name name_end p1 val value_end len p2)
  then have "p < p2 + 1" "p < length scan"
    using skip_string_gt [of scan name name_end] skip_value_gt [of scan val 1 value_end]
      skip_whitespace_ge [of p scan] skip_whitespace_ge [of name_end scan] skip_whitespace_ge [of "p1 + 1" scan]
      skip_whitespace_ge [of value_end scan] by linarith+
  then show ?case by simp
qed simp

declare find_member.simps [simp del]

definition json_find_n :: "string \<Rightarrow> nat option \<Rightarrow> nat \<Rightarrow> string option \<Rightarrow> bool \<times> json_value_t" where
  "json_find_n mem json len key =
     (case (json, key) of
        (Some json, Some key) \<Rightarrow>
          (let scan = take (json + len) mem;
               p = skip_whitespace scan json in
           if length scan \<le> p \<or> scan ! p \<noteq> CHR ''{'' then (False, set_invalid)
           else if skip_container scan p 0 = None then (False, set_invalid)
           else
             (let p = skip_whitespace scan (p + 1) in
              if p < length scan \<and> scan ! p = CHR ''}'' then (False, set_invalid)
              else find_member scan p key))
      | _ \<Rightarrow> (False, set_invalid))"

text \<open>A zero-terminated document is all of the string it is in.\<close>

definition json_find :: "string option \<Rightarrow> string option \<Rightarrow> bool \<times> json_value_t" where
  "json_find json key =
     (case json of None \<Rightarrow> (False, set_invalid) | Some text \<Rightarrow> json_find_n text (Some 0) (length text) key)"

definition json_find_in :: "string \<Rightarrow> json_value_t option \<Rightarrow> string option \<Rightarrow> bool \<times> json_value_t" where
  "json_find_in mem object key =
     (case object of
        None \<Rightarrow> (False, set_invalid)
      | Some v \<Rightarrow>
          if jv_type v \<noteq> JSON_TYPE_OBJECT then (False, set_invalid)
          else json_find_n mem (Some (jv_start v)) (jv_length v) key)"

definition json_valid_n :: "string \<Rightarrow> nat option \<Rightarrow> nat \<Rightarrow> bool" where
  "json_valid_n mem json len =
     (case json of
        None \<Rightarrow> False
      | Some json \<Rightarrow>
          (let scan = take (json + len) mem in
           case skip_value scan (skip_whitespace scan json) 0 of
             None \<Rightarrow> False
           | Some p \<Rightarrow> skip_whitespace scan p = length scan))"

definition json_valid :: "string option \<Rightarrow> bool" where
  "json_valid json = (case json of None \<Rightarrow> False | Some text \<Rightarrow> json_valid_n text (Some 0) (length text))"

subsection \<open>Converting values\<close>

text \<open>
  The digit loop of \<open>json_get_int\<close> over \<open>p\<close> and \<open>end\<close>; \<open>None\<close> is its early return. The
  magnitude is an \<open>int64_t\<close> that never exceeds ten times \<open>2^31\<close>, so it is a natural number here.
\<close>

function get_digits :: "string \<Rightarrow> nat \<Rightarrow> nat \<Rightarrow> nat \<Rightarrow> bool \<Rightarrow> (nat \<times> nat \<times> bool) option" where
  "get_digits mem stop p magnitude any =
     (if p < stop \<and> is_digit (mem ! p)
      then
        (let magnitude = magnitude * 10 + (of_char (mem ! p) - of_char (CHR ''0'')) in
         if 2147483648 < magnitude then None else get_digits mem stop (p + 1) magnitude True)
      else Some (p, magnitude, any))"
  by pat_completeness auto
termination by (relation "measure (\<lambda>(_, stop, p, _). stop - p)") auto

declare get_digits.simps [simp del]

definition json_get_int :: "string \<Rightarrow> json_value_t option \<Rightarrow> int option" where
  "json_get_int mem val =
     (case val of
        None \<Rightarrow> None
      | Some v \<Rightarrow>
          if jv_type v \<noteq> JSON_TYPE_NUMBER \<or> jv_length v = 0 then None
          else
            (let p = jv_start v;
                 stop = jv_start v + jv_length v;
                 negative = (mem ! p = CHR ''-'');
                 p = (if mem ! p = CHR ''-'' \<or> mem ! p = CHR ''+'' then p + 1 else p) in
             case get_digits mem stop p 0 False of
               None \<Rightarrow> None
             | Some (p, magnitude, any) \<Rightarrow>
                 if \<not> any then None
                 else if p < stop \<and> (mem ! p = CHR ''e'' \<or> mem ! p = CHR ''E'') then None
                 else
                   (let p = (if p < stop \<and> mem ! p = CHR ''.'' then stop else p) in
                    if p \<noteq> stop then None
                    else if negative
                    then if 2147483648 < magnitude then None else Some (- int magnitude)
                    else if 2147483647 < magnitude then None else Some (int magnitude))))"

definition json_get_bool :: "string \<Rightarrow> json_value_t option \<Rightarrow> bool option" where
  "json_get_bool mem val =
     (case val of
        None \<Rightarrow> None
      | Some v \<Rightarrow> if jv_type v \<noteq> JSON_TYPE_BOOL then None else Some (mem ! jv_start v = CHR ''t''))"

text \<open>\<open>out\<close> is the caller's array of \<open>length out\<close> bytes, \<open>None\<close> for a null pointer, and is returned as it is left.\<close>

definition json_get_string :: "string \<Rightarrow> json_value_t option \<Rightarrow> string option \<Rightarrow> bool \<times> string option" where
  "json_get_string mem val out =
     (case (val, out) of
        (Some v, Some buffer) \<Rightarrow>
          if buffer = [] \<or> jv_type v \<noteq> JSON_TYPE_STRING \<or> jv_length v < 2 then (False, out)
          else
            (let body = jv_length v - 2 in
             case unescape (chunk (jv_start v + 1) body mem) out (length buffer - 1) of
               (None, left) \<Rightarrow> (False, left)
             | (Some written, left) \<Rightarrow> (True, Some ((the left)[written := CHR 0x00])))
      | _ \<Rightarrow> (False, out))"

definition json_string_equals :: "string \<Rightarrow> json_value_t option \<Rightarrow> string option \<Rightarrow> bool" where
  "json_string_equals mem val expected =
     (case (val, expected) of
        (Some v, Some text) \<Rightarrow>
          if jv_type v \<noteq> JSON_TYPE_STRING \<or> jv_length v < 2 then False
          else escaped_equals (chunk (jv_start v + 1) (jv_length v - 2) mem) text
      | _ \<Rightarrow> False)"

text \<open>The loop of \<open>json_array_length\<close>.\<close>

function count_elements :: "string \<Rightarrow> nat \<Rightarrow> nat \<Rightarrow> nat" where
  "count_elements scan p count =
     (case skip_value scan p 1 of
        None \<Rightarrow> count
      | Some value_end \<Rightarrow>
          (let p = skip_whitespace scan value_end in
           if length scan \<le> p \<or> scan ! p \<noteq> CHR '','' then count + 1
           else count_elements scan (skip_whitespace scan (p + 1)) (count + 1)))"
  by pat_completeness auto
termination
proof (relation "measure (\<lambda>(scan, p, _). length scan - p)", goal_cases)
  case (2 scan p count value_end q)
  then have "p < skip_whitespace scan (q + 1)" "p < length scan"
    using skip_value_gt [of scan p 1 value_end] skip_whitespace_ge [of value_end scan]
      skip_whitespace_ge [of "q + 1" scan] by linarith+
  then show ?case by simp
qed simp

declare count_elements.simps [simp del]

definition json_array_length :: "string \<Rightarrow> json_value_t option \<Rightarrow> nat" where
  "json_array_length mem arr =
     (case arr of
        None \<Rightarrow> 0
      | Some v \<Rightarrow>
          if jv_type v \<noteq> JSON_TYPE_ARRAY then 0
          else
            (let scan = take (jv_start v + jv_length v) mem;
                 p = skip_whitespace scan (jv_start v + 1) in
             if p < length scan \<and> scan ! p = CHR '']'' then 0 else count_elements scan p 0))"

text \<open>The loop of \<open>json_array_at\<close>.\<close>

function find_element :: "string \<Rightarrow> nat \<Rightarrow> nat \<Rightarrow> nat \<Rightarrow> bool \<times> json_value_t" where
  "find_element scan p position index =
     (case skip_value scan p 1 of
        None \<Rightarrow> (False, set_invalid)
      | Some value_end \<Rightarrow>
          if position = index
          then (True, \<lparr>jv_type = type_of (scan ! p), jv_start = p, jv_length = value_end - p\<rparr>)
          else
            (let p = skip_whitespace scan value_end in
             if length scan \<le> p \<or> scan ! p \<noteq> CHR '','' then (False, set_invalid)
             else find_element scan (skip_whitespace scan (p + 1)) (position + 1) index))"
  by pat_completeness auto
termination
proof (relation "measure (\<lambda>(scan, p, _). length scan - p)", goal_cases)
  case (2 scan p position index value_end q)
  then have "p < skip_whitespace scan (q + 1)" "p < length scan"
    using skip_value_gt [of scan p 1 value_end] skip_whitespace_ge [of value_end scan]
      skip_whitespace_ge [of "q + 1" scan] by linarith+
  then show ?case by simp
qed simp

declare find_element.simps [simp del]

definition json_array_at :: "string \<Rightarrow> json_value_t option \<Rightarrow> nat \<Rightarrow> bool \<times> json_value_t" where
  "json_array_at mem arr index =
     (case arr of
        None \<Rightarrow> (False, set_invalid)
      | Some v \<Rightarrow>
          if jv_type v \<noteq> JSON_TYPE_ARRAY then (False, set_invalid)
          else
            (let scan = take (jv_start v + jv_length v) mem;
                 p = skip_whitespace scan (jv_start v + 1) in
             if p < length scan \<and> scan ! p = CHR '']'' then (False, set_invalid)
             else find_element scan p 0 index))"

text \<open>The integers written to \<open>out\<close>, whose number is the result: \<open>k\<close> is what is left of \<open>count\<close>.\<close>

fun array_ints_from :: "string \<Rightarrow> json_value_t option \<Rightarrow> nat \<Rightarrow> nat \<Rightarrow> int list" where
  "array_ints_from mem arr i 0 = []"
| "array_ints_from mem arr i (Suc k) =
     (case json_array_at mem arr i of
        (False, _) \<Rightarrow> []
      | (True, element) \<Rightarrow>
          (case json_get_int mem (Some element) of
             None \<Rightarrow> []
           | Some n \<Rightarrow> n # array_ints_from mem arr (i + 1) k))"

definition json_array_ints :: "string \<Rightarrow> json_value_t option \<Rightarrow> nat \<Rightarrow> int list" where
  "json_array_ints mem arr count = array_ints_from mem arr 0 count"

end
