(* ===== verification/Json_Writer.thy ===== *)
theory Json_Writer
  imports Json_Reader
begin

text \<open>
  Model of the writing half of \<open>components/json/json.c\<close>, and the refinement that explains it: a
  writer over a buffer of any size behaves as one over unbounded text, cut to what fits.

  \<open>json_writer_t\<close> is a record with the fields of the struct; the caller's array is the list
  \<open>jw_buffer\<close>, \<open>None\<close> for a null pointer. C strings are lists of characters without the
  terminator. An \<open>int32_t\<close> is a 32-bit word read with \<open>sint\<close>.

  The abstract writer (\<open>written_text\<close>) has the whole text, the nesting depth, whether a comma is due
  and whether a call was misplaced. \<open>shows_text\<close> relates the two; every operation preserves it,
  and so does every sequence of calls.
\<close>

type_synonym i32 = "32 word"

record json_writer_t =
  jw_buffer :: "string option"
  jw_size :: nat
  jw_length :: nat
  jw_depth :: nat
  jw_needs_comma :: bool
  jw_overflowed :: bool
  jw_malformed :: bool

subsection \<open>The writer\<close>

definition json_writer_init :: "string option \<Rightarrow> nat \<Rightarrow> json_writer_t" where
  "json_writer_init buffer capacity =
     \<lparr>jw_buffer = buffer, jw_size = (if buffer \<noteq> None then capacity else 0), jw_length = 0, jw_depth = 0,
      jw_needs_comma = False, jw_overflowed = (buffer = None \<or> capacity = 0), jw_malformed = False\<rparr>"

definition put :: "json_writer_t \<Rightarrow> char \<Rightarrow> json_writer_t" where
  "put writer c =
     (if jw_overflowed writer \<or> jw_size writer \<le> jw_length writer + 1
      then writer\<lparr>jw_overflowed := True\<rparr>
      else writer\<lparr>jw_buffer := map_option (\<lambda>b. b[jw_length writer := c]) (jw_buffer writer),
                  jw_length := jw_length writer + 1\<rparr>)"

primrec put_text :: "json_writer_t \<Rightarrow> string \<Rightarrow> json_writer_t" where
  "put_text writer [] = writer"
| "put_text writer (c # text) = put_text (put writer c) text"

definition hex_chars :: string where
  "hex_chars = ''0123456789abcdef''"

primrec put_escaped :: "json_writer_t \<Rightarrow> string \<Rightarrow> json_writer_t" where
  "put_escaped writer [] = writer"
| "put_escaped writer (c # text) =
     put_escaped
       (if c = CHR 0x22 then put_text writer [CHR 0x5C, CHR 0x22]
        else if c = CHR 0x5C then put_text writer [CHR 0x5C, CHR 0x5C]
        else if c = CHR 0x08 then put_text writer [CHR 0x5C, CHR ''b'']
        else if c = CHR 0x0C then put_text writer [CHR 0x5C, CHR ''f'']
        else if c = CHR 0x0A then put_text writer [CHR 0x5C, CHR ''n'']
        else if c = CHR 0x0D then put_text writer [CHR 0x5C, CHR ''r'']
        else if c = CHR 0x09 then put_text writer [CHR 0x5C, CHR ''t'']
        else if (of_char c :: nat) < 0x20
        then put (put (put_text writer [CHR 0x5C, CHR ''u'', CHR ''0'', CHR ''0''])
                      (hex_chars ! (drop_bit 4 (of_char c) AND 0xF)))
                 (hex_chars ! (of_char c AND 0xF))
        else put writer c)
       text"

definition put_separator :: "json_writer_t \<Rightarrow> string option \<Rightarrow> json_writer_t" where
  "put_separator writer key =
     (let writer = (if jw_needs_comma writer then put writer CHR '','' else writer);
          writer =
            (case key of
               None \<Rightarrow> writer
             | Some k \<Rightarrow> put_text (put_escaped (put writer CHR 0x22) k) [CHR 0x22, CHR '':'']) in
      writer\<lparr>jw_needs_comma := True\<rparr>)"

definition open_container :: "json_writer_t \<Rightarrow> string option \<Rightarrow> char \<Rightarrow> json_writer_t" where
  "open_container writer key brace =
     (if JSON_MAX_DEPTH \<le> jw_depth writer then writer\<lparr>jw_malformed := True\<rparr>
      else
        (let writer = put (put_separator writer key) brace in
         writer\<lparr>jw_depth := jw_depth writer + 1, jw_needs_comma := False\<rparr>))"

definition close_container :: "json_writer_t \<Rightarrow> char \<Rightarrow> json_writer_t" where
  "close_container writer brace =
     (if jw_depth writer = 0 then writer\<lparr>jw_malformed := True\<rparr>
      else
        (let writer = put writer brace in
         writer\<lparr>jw_depth := jw_depth writer - 1, jw_needs_comma := True\<rparr>))"

definition json_writer_object_open :: "json_writer_t \<Rightarrow> string option \<Rightarrow> json_writer_t" where
  "json_writer_object_open writer key = open_container writer key CHR ''{''"

definition json_writer_object_close :: "json_writer_t \<Rightarrow> json_writer_t" where
  "json_writer_object_close writer = close_container writer CHR ''}''"

definition json_writer_array_open :: "json_writer_t \<Rightarrow> string option \<Rightarrow> json_writer_t" where
  "json_writer_array_open writer key = open_container writer key CHR ''[''"

definition json_writer_array_close :: "json_writer_t \<Rightarrow> json_writer_t" where
  "json_writer_array_close writer = close_container writer CHR '']''"

text \<open>The array \<open>digits\<close> of \<open>json_writer_int\<close>, least significant digit first.\<close>

fun int_digits :: "nat \<Rightarrow> string" where
  "int_digits magnitude =
     char_of (48 + magnitude mod 10) # (if magnitude div 10 = 0 then [] else int_digits (magnitude div 10))"

declare int_digits.simps [simp del]

definition json_writer_int :: "json_writer_t \<Rightarrow> string option \<Rightarrow> i32 \<Rightarrow> json_writer_t" where
  "json_writer_int writer key val =
     (let writer = put_separator writer key;
          magnitude = sint val;
          writer = (if magnitude < 0 then put writer CHR ''-'' else writer);
          magnitude = (if magnitude < 0 then - magnitude else magnitude) in
      put_text writer (rev (int_digits (nat magnitude))))"

definition json_writer_bool :: "json_writer_t \<Rightarrow> string option \<Rightarrow> bool \<Rightarrow> json_writer_t" where
  "json_writer_bool writer key val = put_text (put_separator writer key) (if val then ''true'' else ''false'')"

definition json_writer_null :: "json_writer_t \<Rightarrow> string option \<Rightarrow> json_writer_t" where
  "json_writer_null writer key = put_text (put_separator writer key) ''null''"

definition json_writer_string :: "json_writer_t \<Rightarrow> string option \<Rightarrow> string option \<Rightarrow> json_writer_t" where
  "json_writer_string writer key val =
     (let writer = put_separator writer key in
      case val of
        None \<Rightarrow> put_text writer ''null''
      | Some text \<Rightarrow> put (put_escaped (put writer CHR 0x22) text) CHR 0x22)"

definition json_writer_raw :: "json_writer_t \<Rightarrow> string option \<Rightarrow> string option \<Rightarrow> json_writer_t" where
  "json_writer_raw writer key json =
     put_text (put_separator writer key) (case json of Some text \<Rightarrow> text | None \<Rightarrow> ''null'')"

definition json_writer_finish :: "json_writer_t \<Rightarrow> bool \<times> json_writer_t" where
  "json_writer_finish writer =
     (\<not> jw_overflowed writer \<and> \<not> jw_malformed writer \<and> jw_depth writer = 0,
      if jw_buffer writer \<noteq> None \<and> 0 < jw_size writer
      then
        (let pos = (if jw_length writer < jw_size writer then jw_length writer else jw_size writer - 1) in
         writer\<lparr>jw_buffer := map_option (\<lambda>b. b[pos := CHR 0x00]) (jw_buffer writer)\<rparr>)
      else writer)"

definition json_writer_length :: "json_writer_t \<Rightarrow> nat" where
  "json_writer_length writer = jw_length writer"

subsection \<open>The text a writer was asked for\<close>

definition escape_char :: "char \<Rightarrow> string" where
  "escape_char c =
     (if c = CHR 0x22 then [CHR 0x5C, CHR 0x22]
      else if c = CHR 0x5C then [CHR 0x5C, CHR 0x5C]
      else if c = CHR 0x08 then [CHR 0x5C, CHR ''b'']
      else if c = CHR 0x0C then [CHR 0x5C, CHR ''f'']
      else if c = CHR 0x0A then [CHR 0x5C, CHR ''n'']
      else if c = CHR 0x0D then [CHR 0x5C, CHR ''r'']
      else if c = CHR 0x09 then [CHR 0x5C, CHR ''t'']
      else if (of_char c :: nat) < 0x20
      then [CHR 0x5C, CHR ''u'', CHR ''0'', CHR ''0'', hex_chars ! (drop_bit 4 (of_char c) AND 0xF),
            hex_chars ! (of_char c AND 0xF)]
      else [c])"

definition escape :: "string \<Rightarrow> string" where
  "escape text = concat (map escape_char text)"

definition int_text :: "int \<Rightarrow> string" where
  "int_text i = (if i < 0 then [CHR ''-''] else []) @ rev (int_digits (nat \<bar>i\<bar>))"

text \<open>What a writer has in its buffer after being asked for the text \<open>t\<close>: as much of it as fits.\<close>

definition shows_text :: "json_writer_t \<Rightarrow> string \<Rightarrow> bool" where
  "shows_text w t \<longleftrightarrow>
     jw_size w = (case jw_buffer w of None \<Rightarrow> 0 | Some b \<Rightarrow> length b)
     \<and> jw_length w = min (length t) (jw_size w - 1)
     \<and> (jw_overflowed w \<longleftrightarrow> jw_size w \<le> length t)
     \<and> (\<forall>b. jw_buffer w = Some b \<longrightarrow> take (jw_length w) b = take (jw_size w - 1) t)"

lemma put_same [simp]:
  "jw_depth (put w c) = jw_depth w" "jw_needs_comma (put w c) = jw_needs_comma w"
  "jw_malformed (put w c) = jw_malformed w" "jw_size (put w c) = jw_size w"
  by (simp_all add: put_def)

lemma put_text_same [simp]:
  "jw_depth (put_text w t) = jw_depth w" "jw_needs_comma (put_text w t) = jw_needs_comma w"
  "jw_malformed (put_text w t) = jw_malformed w" "jw_size (put_text w t) = jw_size w"
  by (induction t arbitrary: w) simp_all

lemma shows_text_other_fields [simp]:
  "shows_text (w\<lparr>jw_needs_comma := n\<rparr>) t = shows_text w t"
  "shows_text (w\<lparr>jw_depth := d\<rparr>) t = shows_text w t"
  "shows_text (w\<lparr>jw_malformed := m\<rparr>) t = shows_text w t"
  by (simp_all add: shows_text_def)

lemma shows_put:
  assumes "shows_text w t"
  shows "shows_text (put w c) (t @ [c])"
proof (cases "jw_overflowed w \<or> jw_size w \<le> jw_length w + 1")
  case True
  then have "jw_size w \<le> length t + 1" using assms by (auto simp: shows_text_def)
  with True assms show ?thesis by (auto simp: shows_text_def put_def min_def)
next
  case False
  then obtain b where b: "jw_buffer w = Some b" using assms by (auto simp: shows_text_def split: option.splits)
  with False assms have len: "jw_length w = length t" "length t + 1 < length b" "take (length t) b = t"
    by (auto simp: shows_text_def min_def split: if_splits)
  then have "take (Suc (length t)) (b[length t := c]) = t @ [c]" by (simp add: take_Suc_conv_app_nth)
  with False b len assms show ?thesis by (auto simp: shows_text_def put_def min_def)
qed

lemma shows_put_text: "shows_text w t \<Longrightarrow> shows_text (put_text w u) (t @ u)"
proof (induction u arbitrary: w t)
  case (Cons c u)
  from Cons.IH [OF shows_put [OF Cons.prems]] show ?case by simp
qed simp

lemma put_text_append: "put_text w (a @ b) = put_text (put_text w a) b"
  by (induction a arbitrary: w) simp_all

lemma put_escaped_eq: "put_escaped w t = put_text w (escape t)"
proof (induction t arbitrary: w)
  case (Cons c t)
  show ?case using Cons by (simp add: escape_def escape_char_def put_text_append)
qed (simp add: escape_def)

subsection \<open>The abstract writer\<close>

record written_text =
  wt_text :: string
  wt_depth :: nat
  wt_comma :: bool
  wt_misplaced :: bool

definition key_text :: "string option \<Rightarrow> string" where
  "key_text key = (case key of None \<Rightarrow> [] | Some k \<Rightarrow> CHR 0x22 # escape k @ [CHR 0x22, CHR '':''])"

text \<open>A member: the comma that is due, the key, and the text of the value.\<close>

definition add_member :: "string option \<Rightarrow> string \<Rightarrow> written_text \<Rightarrow> written_text" where
  "add_member key body a = a\<lparr>wt_text := wt_text a @ (if wt_comma a then '','' else []) @ key_text key @ body, wt_comma := True\<rparr>"

definition add_open :: "string option \<Rightarrow> char \<Rightarrow> written_text \<Rightarrow> written_text" where
  "add_open key brace a =
     (if JSON_MAX_DEPTH \<le> wt_depth a then a\<lparr>wt_misplaced := True\<rparr>
      else (add_member key [brace] a)\<lparr>wt_depth := wt_depth a + 1, wt_comma := False\<rparr>)"

definition add_close :: "char \<Rightarrow> written_text \<Rightarrow> written_text" where
  "add_close brace a =
     (if wt_depth a = 0 then a\<lparr>wt_misplaced := True\<rparr>
      else a\<lparr>wt_text := wt_text a @ [brace], wt_depth := wt_depth a - 1, wt_comma := True\<rparr>)"

definition string_text :: "string option \<Rightarrow> string" where
  "string_text val = (case val of None \<Rightarrow> ''null'' | Some t \<Rightarrow> CHR 0x22 # escape t @ [CHR 0x22])"

definition start_text :: written_text where
  "start_text = \<lparr>wt_text = [], wt_depth = 0, wt_comma = False, wt_misplaced = False\<rparr>"

definition represents_text :: "json_writer_t \<Rightarrow> written_text \<Rightarrow> bool" where
  "represents_text w a \<longleftrightarrow> shows_text w (wt_text a) \<and> jw_depth w = wt_depth a \<and> jw_needs_comma w = wt_comma a
     \<and> jw_malformed w = wt_misplaced a"

text \<open>The calls a client makes between the initialisation and the end of a document.\<close>

datatype writer_call =
    Object_open "string option"
  | Object_close
  | Array_open "string option"
  | Array_close
  | Put_int "string option" i32
  | Put_bool "string option" bool
  | Put_null "string option"
  | Put_string "string option" "string option"
  | Put_raw "string option" "string option"

primrec run_writer_call :: "writer_call \<Rightarrow> json_writer_t \<Rightarrow> json_writer_t" where
  "run_writer_call (Object_open k) w = json_writer_object_open w k"
| "run_writer_call Object_close w = json_writer_object_close w"
| "run_writer_call (Array_open k) w = json_writer_array_open w k"
| "run_writer_call Array_close w = json_writer_array_close w"
| "run_writer_call (Put_int k i) w = json_writer_int w k i"
| "run_writer_call (Put_bool k b) w = json_writer_bool w k b"
| "run_writer_call (Put_null k) w = json_writer_null w k"
| "run_writer_call (Put_string k t) w = json_writer_string w k t"
| "run_writer_call (Put_raw k t) w = json_writer_raw w k t"

primrec text_call :: "writer_call \<Rightarrow> written_text \<Rightarrow> written_text" where
  "text_call (Object_open k) = add_open k CHR ''{''"
| "text_call Object_close = add_close CHR ''}''"
| "text_call (Array_open k) = add_open k CHR ''[''"
| "text_call Array_close = add_close CHR '']''"
| "text_call (Put_int k i) = add_member k (int_text (sint i))"
| "text_call (Put_bool k b) = add_member k (if b then ''true'' else ''false'')"
| "text_call (Put_null k) = add_member k ''null''"
| "text_call (Put_string k t) = add_member k (string_text t)"
| "text_call (Put_raw k t) = add_member k (case t of Some t \<Rightarrow> t | None \<Rightarrow> ''null'')"

lemma put_separator_member:
  assumes "represents_text w a"
  shows "represents_text (put_text (put_separator w key) body) (add_member key body a)"
proof -
  let ?w = "put_text (put_separator w key) body"
  let ?u = "if wt_comma a then put w CHR '','' else w"
  have "shows_text ?u (wt_text a @ (if wt_comma a then '','' else []))"
    using assms shows_put [of w "wt_text a"] by (simp add: represents_text_def)
  from shows_put_text [OF this, of "key_text key"]
  have "shows_text (put_separator w key) (wt_text a @ (if wt_comma a then '','' else []) @ key_text key)"
  proof (cases key)
    case None
    with \<open>shows_text ?u _\<close> assms show ?thesis
      by (simp add: put_separator_def key_text_def represents_text_def Let_def)
  next
    case (Some k)
    have "put_text ?u (key_text key) = put_text (put_escaped (put ?u CHR 0x22) k) [CHR 0x22, CHR '':'']"
      by (simp add: Some key_text_def put_escaped_eq put_text_append)
    with Some shows_put_text [OF \<open>shows_text ?u _\<close>, of "key_text key"] assms show ?thesis
      by (simp add: put_separator_def represents_text_def Let_def)
  qed
  from shows_put_text [OF this, of body] assms show ?thesis
    by (cases key) (simp_all add: represents_text_def add_member_def put_separator_def put_escaped_eq Let_def)
qed

lemma represents_open:
  assumes "represents_text w a"
  shows "represents_text (open_container w key brace) (add_open key brace a)"
proof (cases "JSON_MAX_DEPTH \<le> wt_depth a")
  case True
  with assms show ?thesis by (simp add: open_container_def add_open_def represents_text_def)
next
  case False
  with put_separator_member [OF assms, of key "[brace]"] assms show ?thesis
    by (simp add: open_container_def add_open_def represents_text_def Let_def add_member_def)
qed

lemma represents_close:
  assumes "represents_text w a"
  shows "represents_text (close_container w brace) (add_close brace a)"
proof (cases "wt_depth a = 0")
  case True
  with assms show ?thesis by (simp add: close_container_def add_close_def represents_text_def)
next
  case False
  with shows_put [of w "wt_text a" brace] assms show ?thesis
    by (simp add: close_container_def add_close_def represents_text_def Let_def)
qed

lemma writer_call_represents:
  assumes "represents_text w a"
  shows "represents_text (run_writer_call c w) (text_call c a)"
proof (cases c)
  case (Put_int k i)
  note m = put_separator_member [OF assms, of k "int_text (sint i)"]
  show ?thesis
  proof (cases "sint i < 0")
    case True
    with m Put_int show ?thesis by (simp add: json_writer_int_def int_text_def Let_def)
  next
    case False
    with m Put_int show ?thesis by (simp add: json_writer_int_def int_text_def Let_def)
  qed
next
  case (Put_string k t)
  show ?thesis
  proof (cases t)
    case None
    with put_separator_member [OF assms, of k "''null''"] Put_string show ?thesis
      by (simp add: json_writer_string_def string_text_def Let_def)
  next
    case (Some u)
    with put_separator_member [OF assms, of k "string_text t"] Put_string show ?thesis
      by (simp add: json_writer_string_def string_text_def Let_def put_escaped_eq put_text_append)
  qed
qed (use assms in \<open>simp_all add: represents_open represents_close put_separator_member json_writer_object_open_def
    json_writer_object_close_def json_writer_array_open_def json_writer_array_close_def json_writer_bool_def
    json_writer_null_def json_writer_raw_def del: put_text.simps\<close>)

lemma writer_calls_represent:
  "represents_text w a \<Longrightarrow> represents_text (fold run_writer_call cs w) (fold text_call cs a)"
  by (induction cs arbitrary: w a) (simp_all add: writer_call_represents)

lemma writer_init_represents:
  assumes "\<And>b. buffer = Some b \<Longrightarrow> length b = capacity"
  shows "represents_text (json_writer_init buffer capacity) start_text"
  using assms by (cases buffer) (auto simp: represents_text_def shows_text_def json_writer_init_def start_text_def)

lemma writer_call_size: "jw_size (run_writer_call c w) = jw_size w"
  by (cases c; cases "jw_needs_comma w")
    (auto simp: json_writer_object_open_def json_writer_object_close_def json_writer_array_open_def
      json_writer_array_close_def json_writer_int_def json_writer_bool_def json_writer_null_def
      json_writer_string_def json_writer_raw_def open_container_def close_container_def put_separator_def
      put_escaped_eq Let_def split: option.splits)

lemma writer_calls_size: "jw_size (fold run_writer_call cs w) = jw_size w"
  by (induction cs arbitrary: w) (simp_all add: writer_call_size)

text \<open>The writer after any calls on a buffer \<open>b\<close>.\<close>

lemma writer_after_calls:
  assumes "a = fold text_call cs start_text" and "w = fold run_writer_call cs (json_writer_init (Some b) (length b))"
    and "b \<noteq> []"
  obtains buf where "jw_buffer w = Some buf" and "length buf = length b" and "jw_size w = length b"
    and "jw_length w = min (length (wt_text a)) (length b - 1)"
    and "take (jw_length w) buf = take (length b - 1) (wt_text a)"
    and "jw_overflowed w \<longleftrightarrow> length b \<le> length (wt_text a)" and "jw_malformed w = wt_misplaced a" and "jw_depth w = wt_depth a"
proof -
  have "represents_text (json_writer_init (Some b) (length b)) start_text" by (rule writer_init_represents) simp
  from writer_calls_represent [OF this, of cs] have r: "represents_text w a" by (simp add: assms)
  have sz: "jw_size w = length b" unfolding assms(2) writer_calls_size by (simp add: json_writer_init_def)
  then obtain buf where "jw_buffer w = Some buf" "length buf = length b"
    using r assms(3) by (cases "jw_buffer w") (auto simp: represents_text_def shows_text_def)
  with r sz show ?thesis by (intro that [of buf]) (auto simp: represents_text_def shows_text_def)
qed

subsection \<open>Properties\<close>

text \<open>C17: the writer never leaves its buffer and truncates visibly. Whatever calls are made on a writer
  over a buffer, the buffer keeps its size and ends up holding, zero-terminated, the longest part
  of the requested text that fits; and \<open>json_writer_finish\<close> reports a sound document exactly when
  all of the text fitted, no container was opened too deep or closed without being open, and none
  was left open.\<close>

theorem json_writer_is_bounded_text:
  assumes "b \<noteq> []" and a: "a = fold text_call cs start_text"
  shows "\<exists>ok w buf. json_writer_finish (fold run_writer_call cs (json_writer_init (Some b) (length b))) = (ok, w)
    \<and> jw_buffer w = Some buf \<and> length buf = length b
    \<and> (ok \<longleftrightarrow> length (wt_text a) < length b \<and> \<not> wt_misplaced a \<and> wt_depth a = 0)
    \<and> json_writer_length w = min (length (wt_text a)) (length b - 1)
    \<and> take (json_writer_length w) buf = take (length b - 1) (wt_text a)
    \<and> buf ! json_writer_length w = CHR 0x00"
proof -
  let ?w = "fold run_writer_call cs (json_writer_init (Some b) (length b))"
  obtain buf where w: "jw_buffer ?w = Some buf" "length buf = length b" "jw_size ?w = length b"
    "jw_length ?w = min (length (wt_text a)) (length b - 1)" "take (jw_length ?w) buf = take (length b - 1) (wt_text a)"
    "jw_overflowed ?w \<longleftrightarrow> length b \<le> length (wt_text a)" "jw_malformed ?w = wt_misplaced a" "jw_depth ?w = wt_depth a"
    by (rule writer_after_calls [OF a refl assms(1)])
  have lt: "jw_length ?w < length b" using w(4) assms(1) by (simp add: min_def) (cases b; simp)
  let ?u = "?w\<lparr>jw_buffer := Some (buf[jw_length ?w := CHR 0x00])\<rparr>"
  have "json_writer_finish ?w = (length (wt_text a) < length b \<and> \<not> wt_misplaced a \<and> wt_depth a = 0, ?u)"
    using w(1,3,6-8) lt by (auto simp: json_writer_finish_def not_le)
  with w lt show ?thesis by (simp add: json_writer_length_def)
qed

lemma json_writer_is_bounded_text_witness:
  "\<exists>w buf. json_writer_finish (fold run_writer_call [Object_open None, Put_int (Some ''a'') 7, Object_close]
      (json_writer_init (Some ''xxxxxxxx'') (length ''xxxxxxxx''))) = (True, w)
    \<and> jw_buffer w = Some buf \<and> take 7 buf = ''{'' @ [CHR 0x22, CHR ''a'', CHR 0x22] @ '':7}'' \<and> buf ! 7 = CHR 0x00"
proof -
  let ?cs = "[Object_open None, Put_int (Some ''a'') 7, Object_close]"
  let ?t = "''{'' @ [CHR 0x22, CHR ''a'', CHR 0x22] @ '':7}''"
  have t: "fold text_call ?cs start_text = \<lparr>wt_text = ?t, wt_depth = 0, wt_comma = True, wt_misplaced = False\<rparr>"
    by code_simp
  have b: "''xxxxxxxx'' \<noteq> []" by simp
  have n: "length ?t < length ''xxxxxxxx''" "min (length ?t) (length ''xxxxxxxx'' - 1) = 7" "take (length ''xxxxxxxx'' - 1) ?t = ?t"
    by simp_all
  show ?thesis
    using json_writer_is_bounded_text [OF b refl, of ?cs] n
    unfolding t written_text.simps by (auto simp: numeral_eq_Suc simp del: fold.simps)
qed

text \<open>What the check does not see: the brace of a close is not compared with that of its open.\<close>

lemma json_writer_accepts_mismatched_close:
  "\<exists>w. json_writer_finish (fold run_writer_call [Object_open None, Array_close]
      (json_writer_init (Some ''xxx'') 3)) = (True, w)
    \<and> jw_buffer w = Some [CHR ''{'', CHR '']'', CHR 0x00] \<and> \<not> json_valid_n [CHR ''{'', CHR '']'', CHR 0x00] (Some 0) 2"
proof -
  have "\<not> json_valid_n [CHR ''{'', CHR '']'', CHR 0x00] (Some 0) 2"
    by code_simp
  then show ?thesis
    by (simp add: json_writer_finish_def json_writer_init_def json_writer_object_open_def json_writer_array_close_def
        open_container_def close_container_def put_separator_def put_def)
qed

end
