(* ===== verification/Json_Strings.thy ===== *)
theory Json_Strings
  imports Json_Writer
begin

text \<open>
  The strings of the JSON component: what \<open>unescape\<close> computes, that the comparison without a
  buffer decides the same thing, and that unescaping undoes the escaping of the writer.

  \<open>decoded\<close> is the text an escaped body stands for, \<open>None\<close> for a body that is not well formed or
  that has an escape above ASCII.
\<close>

subsection \<open>One escape sequence\<close>

text \<open>\<open>decode_char\<close> over the rest of the body, with the number of characters it takes.\<close>

definition decode_head :: "string \<Rightarrow> (char \<times> nat) option" where
  "decode_head r = decode_char r 0"

lemma decode_char_drop:
  assumes "i < length body"
  shows "decode_char body i = map_option (\<lambda>(c, n). (c, i + n)) (decode_head (drop i body))"
proof -
  obtain r where r: "r = drop i body" by blast
  then have "body ! i = r ! 0" "body ! (i + 1) = r ! (0 + 1)" "length body \<le> i + 1 \<longleftrightarrow> length r \<le> 0 + 1"
    "length body \<le> i + 1 + 4 \<longleftrightarrow> length r \<le> 0 + 1 + 4" "chunk (i + 1 + 1) 4 body = chunk (0 + 1 + 1) 4 r"
    using assms by (auto simp: chunk_def add.commute)
  then show ?thesis
    unfolding decode_head_def decode_char_def Let_def r [symmetric] by (auto split: option.splits)
qed

lemma decode_head_width:
  assumes "decode_head r = Some (c, n)" and "r \<noteq> []"
  shows "n = escape_width r \<and> n \<le> length r \<and> 0 < n"
  using assms by (cases r) (auto simp: decode_head_def decode_char_def escape_width_def Let_def Suc_le_eq split: if_splits option.splits)

lemma decode_head_take:
  assumes "r \<noteq> []" and "escape_width r \<le> length r"
  shows "decode_head (take (escape_width r) r) = decode_head r"
proof (cases "r ! 0 = CHR 0x5C \<and> 2 \<le> length r \<and> r ! 1 = CHR ''u''")
  case True
  with assms have "6 \<le> length r" "escape_width r = 6" by (simp_all add: escape_width_def)
  with True show ?thesis by (simp add: decode_head_def decode_char_def Let_def chunk_def take_drop)
next
  case False
  with assms show ?thesis
    by (cases r; cases "tl r")
      (auto simp: decode_head_def decode_char_def escape_width_def Let_def numeral_2_eq_2 split: if_splits)
qed

subsection \<open>The decoded text\<close>

function decoded_from :: "string \<Rightarrow> nat \<Rightarrow> string option" where
  "decoded_from body i =
     (if i < length body
      then (case decode_char body i of
              None \<Rightarrow> None
            | Some (c, j) \<Rightarrow> map_option (Cons c) (decoded_from body j))
      else Some [])"
  by pat_completeness auto
termination by (relation "measure (\<lambda>(body, i). length body - i)") (auto dest: decode_char_gt)

declare decoded_from.simps [simp del]

definition decoded :: "string \<Rightarrow> string option" where
  "decoded body = decoded_from body 0"

text \<open>
  \<open>unescape\<close> into a buffer with room for \<open>capacity\<close> characters: it succeeds exactly on a body that
  stands for a text of at most that length, and writes that text.
\<close>

lemma unescape_from_spec:
  assumes "capacity \<le> length buf" and "written \<le> capacity"
  shows "case unescape_from body i (Some buf) capacity written of
      (got, out) \<Rightarrow>
        (\<exists>b. out = Some b \<and> length b = length buf)
        \<and> (case decoded_from body i of
             Some t \<Rightarrow> if written + length t \<le> capacity
                       then got = Some (written + length t) \<and> out = Some (blit written t buf) else got = None
           | None \<Rightarrow> got = None)"
  using assms
proof (induction body i "Some buf" capacity written arbitrary: buf rule: unescape_from.induct)
  case (1 body i capacity written)
  show ?case
  proof (cases "i < length body")
    case False
    with 1(3,4) show ?thesis by (simp add: unescape_from.simps [of body i] decoded_from.simps [of body i])
  next
    case i: True
    show ?thesis
    proof (cases "decode_char body i")
      case None
      with i show ?thesis by (simp add: unescape_from.simps [of body i] decoded_from.simps [of body i])
    next
      case (Some p)
      obtain c j where p: "p = (c, j)" by fastforce
      show ?thesis
      proof (cases "capacity \<le> written")
        case True
        with i Some p 1(4) show ?thesis
          by (simp add: unescape_from.simps [of body i] decoded_from.simps [of body i] split: option.splits)
      next
        case False
        let ?b = "buf[written := c]"
        have blit: "blit (Suc written) t ?b = blit written (c # t) buf" if "written + length t < capacity" for t
          using that 1(3) False by (simp add: blit_def take_Suc_conv_app_nth)
        have ih: "case unescape_from body j (Some ?b) capacity (written + 1) of
            (got, out) \<Rightarrow> (\<exists>b. out = Some b \<and> length b = length ?b)
              \<and> (case decoded_from body j of
                   Some t \<Rightarrow> if written + 1 + length t \<le> capacity
                     then got = Some (written + 1 + length t) \<and> out = Some (blit (written + 1) t ?b) else got = None
                 | None \<Rightarrow> got = None)"
          using i Some p False 1(3) by (intro 1(2)) auto
        then show ?thesis
          using i Some p False
          by (auto simp: unescape_from.simps [of body i] decoded_from.simps [of body i] blit
              split: option.splits if_splits prod.splits)
      qed
    qed
  qed
qed

lemma unescape_spec:
  assumes "capacity \<le> length buf"
  shows "\<exists>b. length b = length buf \<and> unescape body (Some buf) capacity =
    (case decoded body of
       Some t \<Rightarrow> if length t \<le> capacity then (Some (length t), Some (blit 0 t buf)) else (None, Some b)
     | None \<Rightarrow> (None, Some b))"
  using unescape_from_spec [of capacity buf 0 body 0] assms
  by (auto simp: unescape_def decoded_def split: prod.splits option.splits if_splits)

lemma unescape_from_end: "length body \<le> i \<Longrightarrow> unescape_from body i out capacity written = (Some written, out)"
  by (simp add: unescape_from.simps [of body i])

text \<open>The comparison, one escape sequence at a time, decides the same.\<close>

lemma decoded_from_drop:
  assumes "i < length body"
  shows "decoded_from body i = (case decode_head (drop i body) of
      None \<Rightarrow> None | Some (c, n) \<Rightarrow> map_option (Cons c) (decoded_from body (i + n)))"
  using assms decode_char_drop [OF assms]
  by (simp add: decoded_from.simps [of body i] split: option.splits prod.splits)

lemma unescape_one:
  assumes "r \<noteq> []" and "escape_width r \<le> length r"
  shows "unescape (take (escape_width r) r) (Some [x]) 1 =
    (case decode_head r of None \<Rightarrow> (None, Some [x]) | Some (c, n) \<Rightarrow> (Some 1, Some [c]))"
proof -
  let ?t = "take (escape_width r) r"
  have pos: "0 < length ?t" using assms escape_width_pos [OF assms(1)] by simp
  have d: "decode_char ?t 0 = decode_head r"
    using decode_head_take [OF assms] by (simp add: decode_head_def)
  show ?thesis
  proof (cases "decode_head r")
    case None
    with d pos show ?thesis by (simp add: unescape_def unescape_from.simps [of ?t 0])
  next
    case (Some p)
    obtain c n where p: "p = (c, n)" by fastforce
    with Some decode_head_width [of r c n] assms have "n = length ?t" by simp
    with d pos Some p show ?thesis
      by (simp add: unescape_def unescape_from.simps [of ?t 0] unescape_from_end)
  qed
qed

lemma escaped_equals_from_decoded:
  "j \<le> length expected \<Longrightarrow>
    escaped_equals_from body i expected j \<longleftrightarrow> decoded_from body i = Some (drop j expected)"
proof (induction body i expected j rule: escaped_equals_from.induct)
  case (1 body i expected j)
  let ?r = "drop i body"
  show ?case
  proof (cases "i < length body")
    case False
    with 1(2) show ?thesis
      by (auto simp: escaped_equals_from.simps [of body i] decoded_from.simps [of body i])
  next
    case i: True
    then have r: "?r \<noteq> []" by simp
    note w0 = escape_width_pos [OF r]
    show ?thesis
    proof (cases "length body < i + escape_width ?r")
      case True
      then have "decode_head ?r = None"
        using decode_head_width [of ?r] r i by (cases "decode_head ?r") fastforce+
      with True i show ?thesis
        by (simp add: escaped_equals_from.simps [of body i] decoded_from_drop Let_def)
    next
      case False
      then have wl: "escape_width ?r \<le> length ?r" using i by simp
      have ch: "chunk i (escape_width ?r) body = take (escape_width ?r) ?r" by (simp add: chunk_def)
      show ?thesis
      proof (cases "decode_head ?r")
        case None
        with i False w0 unescape_one [OF r wl, of "CHR 0x00"] show ?thesis
          by (simp add: escaped_equals_from.simps [of body i] decoded_from_drop Let_def ch)
      next
        case (Some p)
        obtain c n where p: "p = (c, n)" by fastforce
        with Some decode_head_width [of ?r c n] r have n: "n = escape_width ?r" by simp
        have ih: "escaped_equals_from body (i + n) expected (j + 1) \<longleftrightarrow> decoded_from body (i + n) = Some (drop (j + 1) expected)"
          if "j < length expected" "expected ! j = c"
          using that i False w0 n p Some unescape_one [OF r wl, of "CHR 0x00"]
          by (intro 1(1)) (auto simp: ch)
        have drop_eq: "j < length expected \<Longrightarrow> drop j expected = expected ! j # drop (j + 1) expected"
          by (simp add: Cons_nth_drop_Suc)
        show ?thesis
          using ih drop_eq i False w0 n p Some unescape_one [OF r wl, of "CHR 0x00"] 1(2)
          by (cases "j < length expected")
            (auto simp: escaped_equals_from.simps [of body i] decoded_from_drop Let_def ch)
      qed
    qed
  qed
qed

lemma escaped_equals_decoded: "escaped_equals body expected \<longleftrightarrow> decoded body = Some expected"
  using escaped_equals_from_decoded [of 0 expected body 0] by (simp add: escaped_equals_def decoded_def)

subsection \<open>Escaping and back\<close>

text \<open>The two hexadecimal digits of a control character, checked for each of them.\<close>

lemma hex_value_control:
  assumes "n < 32"
  shows "hex_value [CHR ''0'', CHR ''0'', hex_chars ! (drop_bit 4 n AND 0xF), hex_chars ! (n AND 0xF)] 0 = Some n"
proof -
  have "list_all (\<lambda>n. hex_value [CHR ''0'', CHR ''0'', hex_chars ! (drop_bit 4 n AND 0xF), hex_chars ! (n AND 0xF)] 0 = Some n)
    [0..<32]" by code_simp
  with assms show ?thesis by (simp add: list_all_iff)
qed

lemma hex_chars_plain:
  assumes "n < 16"
  shows "hex_chars ! n \<noteq> CHR 0x5C \<and> hex_chars ! n \<noteq> CHR 0x22"
proof -
  have "list_all (\<lambda>n. hex_chars ! n \<noteq> CHR 0x5C \<and> hex_chars ! n \<noteq> CHR 0x22) [0..<16]" by code_simp
  with assms show ?thesis by (simp add: list_all_iff)
qed

lemma and_15_lt: "(n :: nat) AND 15 < 16"
proof -
  have "n AND 15 = n mod 2 ^ 4" using take_bit_eq_mask [of 4 n] by (simp add: take_bit_eq_mod mask_eq_exp_minus_1)
  then show ?thesis by simp
qed

text \<open>An escaped character is a plain one, a two-character escape, or a control character in hexadecimal.\<close>

lemma escape_char_cases:
  obtains (plain) "escape_char c = [c]" "c \<noteq> CHR 0x5C" "c \<noteq> CHR 0x22"
  | (short) x where "escape_char c = [CHR 0x5C, x]" "x \<noteq> CHR ''u''"
      "\<And>r. decode_head (CHR 0x5C # x # r) = Some (c, 2)"
  | (control) a b where "escape_char c = [CHR 0x5C, CHR ''u'', CHR ''0'', CHR ''0'', a, b]"
      "hex_value [CHR ''0'', CHR ''0'', a, b] 0 = Some (of_char c)" "(of_char c :: nat) < 32"
      "a \<noteq> CHR 0x5C" "a \<noteq> CHR 0x22" "b \<noteq> CHR 0x5C" "b \<noteq> CHR 0x22"
proof (cases "length (escape_char c) = 6")
  case True
  then have "escape_char c = [CHR 0x5C, CHR ''u'', CHR ''0'', CHR ''0'', hex_chars ! (drop_bit 4 (of_char c) AND 0xF),
      hex_chars ! (of_char c AND 0xF)]" "(of_char c :: nat) < 32"
    by (simp_all add: escape_char_def split: if_splits)
  with control hex_value_control hex_chars_plain [OF and_15_lt] show ?thesis by blast
next
  case False
  then have "escape_char c = [c] \<and> c \<noteq> CHR 0x5C \<and> c \<noteq> CHR 0x22 \<or>
      (\<exists>x. escape_char c = [CHR 0x5C, x] \<and> x \<noteq> CHR ''u'' \<and> (\<forall>r. decode_head (CHR 0x5C # x # r) = Some (c, 2)))"
    by (simp add: escape_char_def decode_head_def decode_char_def Let_def split: if_splits)
  with plain short show ?thesis by blast
qed

lemma decode_head_escape: "decode_head (escape_char c @ r) = Some (c, length (escape_char c))"
proof (cases rule: escape_char_cases [of c])
  case plain
  then show ?thesis by (simp add: decode_head_def decode_char_def)
next
  case (short x)
  then show ?thesis by simp
next
  case (control a b)
  then have "\<not> 127 < (of_char c :: nat)" by simp
  with control show ?thesis by (simp add: decode_head_def decode_char_def Let_def chunk_def del: hex_value.simps)
qed

lemma escape_char_nonempty [simp]: "escape_char c \<noteq> []"
  by (simp add: escape_char_def)

lemma escape_Cons: "escape (c # t) = escape_char c @ escape t"
  by (simp add: escape_def)

lemma decoded_from_escape: "body = pre @ escape t \<Longrightarrow> i = length pre \<Longrightarrow> decoded_from body i = Some t"
proof (induction t arbitrary: pre i)
  case Nil
  then show ?case by (simp add: decoded_from.simps [of pre "length pre"] escape_def)
next
  case (Cons c t)
  have "decoded_from body (i + length (escape_char c)) = Some t"
    using Cons.prems by (intro Cons.IH [of "pre @ escape_char c"]) (simp_all add: escape_Cons)
  moreover have "i < length body" "drop i body = escape_char c @ escape t"
    using Cons.prems by (simp_all add: escape_Cons)
  ultimately show ?case by (simp add: decoded_from_drop decode_head_escape)
qed

lemma decoded_escape: "decoded (escape t) = Some t"
  using decoded_from_escape [of "escape t" "[]" t 0] by (simp add: decoded_def)

end
