(* ===== verification/Json_Documents.thy ===== *)
theory Json_Documents
  imports Json_Strings
begin

text \<open>
  The two halves of the JSON component together: documents as trees, the calls that write one,
  the text they produce, and what the reader finds in that text.

  \<open>json\<close> is the type of documents. \<open>render\<close> is the text of one, \<open>calls\<close> the calls of the writer
  that build it, \<open>nests_within\<close> the bound on its nesting. \<open>sits s p t\<close> says that the text \<open>t\<close> is in
  the memory \<open>s\<close> at offset \<open>p\<close>; the lemmas about the scanner are stated with it.
\<close>

datatype json =
    JNull
  | JBool bool
  | JInt i32
  | JString string
  | JArray "json list"
  | JObject "(string \<times> json) list"

subsection \<open>The text of a document\<close>

fun commas :: "string list \<Rightarrow> string" where
  "commas [] = []"
| "commas [t] = t"
| "commas (t # u # ts) = t @ CHR '','' # commas (u # ts)"

definition quoted :: "string \<Rightarrow> string" where
  "quoted t = CHR 0x22 # escape t @ [CHR 0x22]"

fun render :: "json \<Rightarrow> string" where
  "render JNull = ''null''"
| "render (JBool b) = (if b then ''true'' else ''false'')"
| "render (JInt i) = int_text (sint i)"
| "render (JString t) = quoted t"
| "render (JArray vs) = CHR ''['' # commas (map render vs) @ [CHR '']'']"
| "render (JObject ms) = CHR ''{'' # commas (map (\<lambda>(k, v). quoted k @ CHR '':'' # render v) ms) @ [CHR ''}'']"

fun nests_within :: "nat \<Rightarrow> json \<Rightarrow> bool" where
  "nests_within d (JArray vs) \<longleftrightarrow> 0 < d \<and> list_all (nests_within (d - 1)) vs"
| "nests_within d (JObject ms) \<longleftrightarrow> 0 < d \<and> list_all (\<lambda>(k, v). nests_within (d - 1) v) ms"
| "nests_within d _ \<longleftrightarrow> True"

fun calls :: "string option \<Rightarrow> json \<Rightarrow> writer_call list" where
  "calls k JNull = [Put_null k]"
| "calls k (JBool b) = [Put_bool k b]"
| "calls k (JInt i) = [Put_int k i]"
| "calls k (JString t) = [Put_string k (Some t)]"
| "calls k (JArray vs) = Array_open k # concat (map (calls None) vs) @ [Array_close]"
| "calls k (JObject ms) = Object_open k # concat (map (\<lambda>(n, v). calls (Some n) v) ms) @ [Object_close]"

subsection \<open>Writing a document\<close>

lemma commas_snoc: "commas (ts @ [u]) = commas ts @ (if ts = [] then [] else '','') @ u"
  by (induction ts rule: commas.induct) simp_all

text \<open>Members written one after the other into an open container.\<close>

lemma fold_members:
  assumes "\<And>m a. m \<in> set ms \<Longrightarrow> wt_depth a = d \<Longrightarrow> fold text_call (f m) a = add_member (key m) (body m) a"
    and "wt_depth a = d" and "\<not> wt_comma a"
  shows "fold text_call (concat (map f ms)) a =
    a\<lparr>wt_text := wt_text a @ commas (map (\<lambda>m. key_text (key m) @ body m) ms), wt_comma := (ms \<noteq> [])\<rparr>"
  using assms
proof (induction ms rule: rev_induct)
  case (snoc m ms)
  then have "fold text_call (concat (map f ms)) a =
    a\<lparr>wt_text := wt_text a @ commas (map (\<lambda>m. key_text (key m) @ body m) ms), wt_comma := (ms \<noteq> [])\<rparr>" by simp
  with snoc.prems show ?case by (simp add: add_member_def commas_snoc)
qed simp

lemma text_calls:
  "nests_within (JSON_MAX_DEPTH - wt_depth a) v \<Longrightarrow> fold text_call (calls k v) a = add_member k (render v) a"
proof (induction v arbitrary: k a)
  case (JArray vs)
  let ?a = "add_open k CHR ''['' a"
  have d: "wt_depth a < 16" "\<And>v. v \<in> set vs \<Longrightarrow> nests_within (16 - (wt_depth a + 1)) v"
    using JArray.prems by (auto simp: list_all_iff)
  then have a: "wt_depth ?a = wt_depth a + 1" "\<not> wt_comma ?a" by (simp_all add: add_open_def)
  have "fold text_call (concat (map (calls None) vs)) ?a =
    ?a\<lparr>wt_text := wt_text ?a @ commas (map (\<lambda>v. key_text None @ render v) vs), wt_comma := (vs \<noteq> [])\<rparr>"
    using a d by (intro fold_members [where d = "wt_depth a + 1"]) (simp_all add: JArray.IH)
  with d a show ?case by (simp add: add_open_def add_close_def add_member_def key_text_def)
next
  case (JObject ms)
  let ?a = "add_open k CHR ''{'' a"
  have d: "wt_depth a < 16" "\<And>n v. (n, v) \<in> set ms \<Longrightarrow> nests_within (16 - (wt_depth a + 1)) v"
    using JObject.prems by (auto simp: list_all_iff)
  then have a: "wt_depth ?a = wt_depth a + 1" "\<not> wt_comma ?a" by (simp_all add: add_open_def)
  have f: "(\<lambda>(n, v). calls (Some n) v) = (\<lambda>m. calls (Some (fst m)) (snd m))" by auto
  have t: "(\<lambda>(k, v). quoted k @ CHR '':'' # render v) = (\<lambda>m. key_text (Some (fst m)) @ render (snd m))"
    by (auto simp: key_text_def quoted_def)
  have "fold text_call (concat (map (\<lambda>(n, v). calls (Some n) v) ms)) ?a =
    ?a\<lparr>wt_text := wt_text ?a @ commas (map (\<lambda>(k, v). quoted k @ CHR '':'' # render v) ms), wt_comma := (ms \<noteq> [])\<rparr>"
    unfolding f t using a d by (intro fold_members [where d = "wt_depth a + 1"]) (auto simp: JObject.IH)
  with d a show ?case by (simp add: add_open_def add_close_def add_member_def key_text_def)
qed (simp_all add: quoted_def string_text_def)

subsection \<open>Scanning the text of a document\<close>

definition sits :: "string \<Rightarrow> nat \<Rightarrow> string \<Rightarrow> bool" where
  "sits s p t \<longleftrightarrow> prefix t (drop p s)"

lemma sits_Nil [simp]: "sits s p []"
  by (simp add: sits_def)

lemma sits_Cons [simp]: "sits s p (c # t) \<longleftrightarrow> p < length s \<and> s ! p = c \<and> sits s (Suc p) t"
proof (cases "p < length s")
  case True
  then have "drop p s = s ! p # drop (Suc p) s" by (simp add: Cons_nth_drop_Suc)
  with True show ?thesis by (auto simp: sits_def)
qed (simp add: sits_def)

lemma sits_append [simp]: "sits s p (t @ u) \<longleftrightarrow> sits s p t \<and> sits s (p + length t) u"
  by (induction t arbitrary: p) auto

lemma sits_length: "sits s p t \<Longrightarrow> t \<noteq> [] \<Longrightarrow> p + length t \<le> length s"
  using prefix_length_le [of t "drop p s"] by (cases t) (auto simp: sits_def)

lemma sits_chunk: "sits s p t \<Longrightarrow> chunk p (length t) s = t"
  by (auto simp: sits_def chunk_def prefix_def)

lemma chunk_sits: "chunk p (length t) s = t \<Longrightarrow> sits s p t"
  by (metis chunk_def sits_def take_is_prefix)

text \<open>What follows a value: the end of the document, or a character that cannot belong to a number.\<close>

definition ends_at :: "string \<Rightarrow> nat \<Rightarrow> bool" where
  "ends_at s p \<longleftrightarrow> length s \<le> p \<or> s ! p \<in> {CHR '','', CHR '']'', CHR ''}''}"

lemma skip_whitespace_stop: "length s \<le> p \<or> \<not> is_space (s ! p) \<Longrightarrow> skip_whitespace s p = p"
  by (auto simp: skip_whitespace.simps [of s p])

lemma skip_digits_run:
  "list_all is_digit ds \<Longrightarrow> sits s p ds \<Longrightarrow> length s \<le> p + length ds \<or> \<not> is_digit (s ! (p + length ds)) \<Longrightarrow>
    skip_digits s p = p + length ds"
proof (induction ds arbitrary: p)
  case Nil
  then show ?case by (auto simp: skip_digits.simps [of s p])
next
  case (Cons c ds)
  from Cons.IH [of "Suc p"] Cons.prems show ?case by (simp add: skip_digits.simps [of s p])
qed

lemma digit_char: "(n :: nat) < 10 \<Longrightarrow> is_digit (char_of (48 + n))"
proof -
  assume "n < (10 :: nat)"
  then have "n \<in> set [0..<10]" by simp
  moreover have "list_all (\<lambda>n :: nat. is_digit (char_of (48 + n))) [0..<10]" by code_simp
  ultimately show ?thesis by (simp add: list_all_iff)
qed

lemma int_digits_digits: "list_all is_digit (int_digits m)"
  by (induction m rule: int_digits.induct) (subst int_digits.simps, simp add: digit_char)

lemma int_digits_nonempty [simp]: "int_digits m \<noteq> []"
  by (subst int_digits.simps) simp

lemma skip_number_int:
  assumes s: "sits s p (int_text i)" and e: "ends_at s (p + length (int_text i))"
  shows "skip_number s p = Some (p + length (int_text i))"
proof -
  let ?ds = "rev (int_digits (nat \<bar>i\<bar>))" and ?q = "p + length (int_text i)"
  let ?p = "if i < 0 then p + 1 else p"
  have ds: "list_all is_digit ?ds" "?ds \<noteq> []" using int_digits_digits by (simp_all add: list_all_iff)
  have d0: "\<not> is_digit CHR ''-'' \<and> \<not> is_digit CHR '','' \<and> \<not> is_digit CHR '']'' \<and> \<not> is_digit CHR ''}'' \<and> \<not> is_digit CHR ''+''"
    by code_simp
  have sit: "sits s ?p ?ds" and q: "?q = ?p + length ?ds"
    using s by (auto simp: int_text_def split: if_splits)
  obtain c t where c: "?ds = c # t" "is_digit c" using ds by (cases ?ds) auto
  have "s ! ?p = c" "?p < length s" using sit unfolding c(1) by simp_all
  then have sign: "skip_sign s p = ?p"
    using s c(2) d0 by (auto simp: skip_sign_def int_text_def split: if_splits)
  have "length s \<le> ?q \<or> \<not> is_digit (s ! ?q)" using e d0 by (auto simp: ends_at_def)
  then have run: "skip_digits s ?p = ?q" unfolding q by (intro skip_digits_run [OF ds(1) sit])
  have "sits s (?p + length (butlast ?ds)) [last ?ds]"
    using sit sits_append [of s ?p "butlast ?ds" "[last ?ds]"] ds(2) by (metis append_butlast_last_id)
  moreover have "?q - 1 = ?p + length (butlast ?ds)" using ds(2) unfolding q length_butlast by (cases ?ds) simp_all
  ultimately have "s ! (?q - 1) = last ?ds" by simp
  then have last: "is_digit (s ! (?q - 1))" using ds by (metis last_in_set list_all_iff)
  have "p < ?q" by (simp add: int_text_def)
  then show ?thesis
    using run sign e last by (auto simp: skip_number_def Let_def ends_at_def)
qed

lemma skip_body_step:
  assumes "p < length s"
  shows "s ! p = CHR 0x5C \<Longrightarrow> skip_string_body s p = skip_string_body s (p + 2)"
    and "s ! p = CHR 0x22 \<Longrightarrow> skip_string_body s p = Some (p + 1)"
    and "s ! p \<noteq> CHR 0x5C \<Longrightarrow> s ! p \<noteq> CHR 0x22 \<Longrightarrow> skip_string_body s p = skip_string_body s (Suc p)"
  using assms by (simp_all add: skip_string_body.simps [of s p])

lemma skip_body_escape:
  "sits s p (escape t @ [CHR 0x22]) \<Longrightarrow> skip_string_body s p = Some (p + length (escape t) + 1)"
proof (induction t arbitrary: p)
  case Nil
  then show ?case by (simp add: escape_def skip_body_step)
next
  case (Cons c t)
  have "skip_string_body s p = skip_string_body s (p + length (escape_char c))"
  proof (cases rule: escape_char_cases [of c])
    case plain
    with Cons.prems show ?thesis by (simp add: escape_Cons skip_body_step)
  next
    case (short x)
    with Cons.prems show ?thesis by (simp add: escape_Cons skip_body_step)
  next
    case (control a b)
    with Cons.prems show ?thesis by (simp add: escape_Cons skip_body_step)
  qed
  moreover have "skip_string_body s (p + length (escape_char c)) = Some (p + length (escape_char c) + length (escape t) + 1)"
    using Cons.prems by (intro Cons.IH) (simp add: escape_Cons add.assoc)
  ultimately show ?case by (simp add: escape_Cons)
qed

lemma skip_string_quoted: "sits s p (quoted t) \<Longrightarrow> skip_string s p = Some (p + length (quoted t))"
  using skip_body_escape [of s "Suc p" t] by (auto simp: quoted_def skip_string_def)

text \<open>A member of a container: its text is scanned by one turn of the loop.\<close>

definition member_scans :: "string \<Rightarrow> char \<Rightarrow> nat \<Rightarrow> string \<Rightarrow> bool" where
  "member_scans s opening d m \<longleftrightarrow> m \<noteq> [] \<and> \<not> is_space (hd m) \<and> hd m \<noteq> CHR '']'' \<and> hd m \<noteq> CHR ''}''
     \<and> (\<forall>p. sits s p m \<longrightarrow> ends_at s (p + length m) \<longrightarrow>
          (\<exists>p1. skip_member_name s opening p = Some p1
             \<and> skip_value s (skip_whitespace s p1) (d + 1) = Some (p + length m)))"

lemma closing_not_space: "\<not> is_space CHR '']''" "\<not> is_space CHR ''}''" "\<not> is_space CHR '',''" "\<not> is_space CHR '':''"
  "\<not> is_space CHR 0x22"
  by (simp_all add: is_space_def)

lemma hd_commas: "ms \<noteq> [] \<Longrightarrow> list_all (\<lambda>m. m \<noteq> []) ms \<Longrightarrow> commas ms \<noteq> [] \<and> hd (commas ms) = hd (hd ms)"
  by (induction ms rule: commas.induct) simp_all

lemma sits_hd: "sits s p t \<Longrightarrow> t \<noteq> [] \<Longrightarrow> p < length s \<and> s ! p = hd t"
  by (cases t) simp_all

lemma skip_members_run:
  assumes "ms \<noteq> []" and "list_all (member_scans s opening d) ms" and "sits s p (commas ms @ [closing])"
    and "closing = CHR '']'' \<or> closing = CHR ''}''"
  shows "skip_members s opening closing p d = Some (p + length (commas ms) + 1)"
  using assms
proof (induction ms arbitrary: p rule: commas.induct)
  case (2 m)
  then have q: "p + length m < length s" "s ! (p + length m) = closing" "ends_at s (p + length m)"
    by (auto simp: ends_at_def)
  with 2 obtain p1 where "skip_member_name s opening p = Some p1"
    "skip_value s (skip_whitespace s p1) (d + 1) = Some (p + length m)" by (auto simp: member_scans_def)
  with q 2(4) closing_not_space show ?case
    by (auto simp: skip_members.simps [of s "opening" closing p d] skip_whitespace_stop)
next
  case (3 m u ms)
  let ?q = "p + length m"
  have q: "?q < length s" "s ! ?q = CHR '',''" "ends_at s ?q" using 3(4) by (auto simp: ends_at_def)
  with 3(3,4) obtain p1 where one: "skip_member_name s opening p = Some p1"
    "skip_value s (skip_whitespace s p1) (d + 1) = Some ?q" by (auto simp: member_scans_def)
  have rest: "sits s (Suc ?q) (commas (u # ms) @ [closing])" using 3(4) by simp
  have "hd (commas (u # ms)) = hd u" "commas (u # ms) \<noteq> []"
    using hd_commas [of "u # ms"] 3(3) by (auto simp: member_scans_def list_all_iff)
  with rest sits_hd [of s "Suc ?q" "commas (u # ms)"] 3(3)
  have "\<not> is_space (s ! Suc ?q)" by (simp add: member_scans_def)
  then have "skip_whitespace s (?q + 1) = Suc ?q" using skip_whitespace_stop [of s "Suc ?q"] by simp
  moreover have "skip_members s opening closing (Suc ?q) d = Some (Suc ?q + length (commas (u # ms)) + 1)"
    using 3(3,5) rest by (intro 3(1)) simp_all
  ultimately show ?case
    using one q 3(5) closing_not_space
    by (auto simp: skip_members.simps [of s "opening" closing p d] skip_whitespace_stop Let_def)
qed simp

lemma skip_container_run:
  assumes s: "sits s p (opening # commas ms @ [closing])" and d: "d < JSON_MAX_DEPTH"
    and o: "opening = CHR ''['' \<and> closing = CHR '']'' \<or> opening = CHR ''{'' \<and> closing = CHR ''}''"
    and ms: "list_all (member_scans s opening d) ms"
  shows "skip_container s p d = Some (p + length (commas ms) + 2)"
proof -
  have cl: "closing = (if s ! p = CHR ''{'' then CHR ''}'' else CHR '']'')" and op: "s ! p = opening"
    using s o by auto
  show ?thesis
  proof (cases "ms = []")
    case True
    with s o closing_not_space have "skip_whitespace s (p + 1) = p + 1" by (intro skip_whitespace_stop) auto
    with True s d cl op show ?thesis by (simp add: skip_container.simps [of s p d])
  next
    case False
    have h: "commas ms \<noteq> []" "hd (commas ms) = hd (hd ms)" "member_scans s opening d (hd ms)"
      using hd_commas [OF False] ms False by (auto simp: member_scans_def list_all_iff)
    moreover have "s ! Suc p = hd (commas ms)" using s sits_hd [of s "Suc p" "commas ms"] h(1) by simp
    ultimately have f: "skip_whitespace s (p + 1) = p + 1" "s ! Suc p \<noteq> closing"
      using o by (auto simp: member_scans_def intro: skip_whitespace_stop)
    have "skip_members s opening closing (Suc p) d = Some (Suc p + length (commas ms) + 1)"
      using s o by (intro skip_members_run [OF False ms]) auto
    with f d cl op show ?thesis by (simp add: skip_container.simps [of s p d] Let_def)
  qed
qed

lemma int_text_hd: "int_text i \<noteq> [] \<and> (hd (int_text i) = CHR ''-'' \<or> is_digit (hd (int_text i)))"
proof -
  have "rev (int_digits m) \<noteq> [] \<and> is_digit (hd (rev (int_digits m)))" for m
    using int_digits_digits [of m] int_digits_nonempty [of m] by (simp add: hd_rev list_all_iff)
  then show ?thesis by (simp add: int_text_def)
qed

lemma render_hd: "render v \<noteq> [] \<and> \<not> is_space (hd (render v)) \<and> hd (render v) \<noteq> CHR '']'' \<and> hd (render v) \<noteq> CHR ''}''"
proof (cases v)
  case (JInt i)
  have "\<not> is_digit CHR '' '' \<and> \<not> is_digit CHR 0x09 \<and> \<not> is_digit CHR 0x0A \<and> \<not> is_digit CHR 0x0D
    \<and> \<not> is_digit CHR '']'' \<and> \<not> is_digit CHR ''}''" by code_simp
  with JInt int_text_hd [of "sint i"] show ?thesis by (auto simp: is_space_def)
qed (simp_all add: is_space_def quoted_def)

text \<open>The kind of value the reader reports, by the first character.\<close>

fun json_kind :: "json \<Rightarrow> json_type_t" where
  "json_kind JNull = JSON_TYPE_NULL"
| "json_kind (JBool b) = JSON_TYPE_BOOL"
| "json_kind (JInt i) = JSON_TYPE_NUMBER"
| "json_kind (JString t) = JSON_TYPE_STRING"
| "json_kind (JArray vs) = JSON_TYPE_ARRAY"
| "json_kind (JObject ms) = JSON_TYPE_OBJECT"

lemma int_text_special:
  "hd (int_text i) \<notin> {CHR 0x22, CHR ''{'', CHR ''['', CHR ''t'', CHR ''f'', CHR ''n''}"
proof -
  have "\<not> is_digit CHR 0x22 \<and> \<not> is_digit CHR ''{'' \<and> \<not> is_digit CHR ''['' \<and> \<not> is_digit CHR ''t''
    \<and> \<not> is_digit CHR ''f'' \<and> \<not> is_digit CHR ''n''" by code_simp
  with int_text_hd [of i] show ?thesis by auto
qed

lemma type_of_render: "type_of (hd (render v)) = json_kind v"
proof (cases v)
  case (JInt i)
  with int_text_special [of "sint i"] show ?thesis by simp
qed (simp_all add: quoted_def)

lemma object_member_scans:
  assumes "\<And>p. sits s p (render v) \<Longrightarrow> ends_at s (p + length (render v)) \<Longrightarrow>
      skip_value s p (d + 1) = Some (p + length (render v))"
  shows "member_scans s CHR ''{'' d (quoted k @ CHR '':'' # render v)"
  unfolding member_scans_def
proof (intro conjI allI impI)
  fix p assume s: "sits s p (quoted k @ CHR '':'' # render v)"
    and e: "ends_at s (p + length (quoted k @ CHR '':'' # render v))"
  let ?q = "p + length (quoted k)"
  have p: "skip_whitespace s p = p" using s by (intro skip_whitespace_stop) (simp add: quoted_def is_space_def)
  have q: "skip_whitespace s ?q = ?q" "?q < length s" "s ! ?q = CHR '':''"
    using s by (auto simp: is_space_def intro: skip_whitespace_stop)
  have v: "skip_whitespace s (?q + 1) = ?q + 1"
    using s sits_hd [of s "Suc ?q" "render v"] render_hd [of v] by (intro skip_whitespace_stop) auto
  have "skip_value s (?q + 1) (d + 1) = Some (?q + 1 + length (render v))"
    using s e by (intro assms) (simp_all add: add.assoc)
  with p q v skip_string_quoted [of s p k] s
  show "\<exists>p1. skip_member_name s CHR ''{'' p = Some p1
      \<and> skip_value s (skip_whitespace s p1) (d + 1) = Some (p + length (quoted k @ CHR '':'' # render v))"
    by (simp add: skip_member_name_def Let_def)
qed (simp_all add: quoted_def is_space_def)

lemma array_member_scans:
  assumes "\<And>p. sits s p (render v) \<Longrightarrow> ends_at s (p + length (render v)) \<Longrightarrow>
      skip_value s p (d + 1) = Some (p + length (render v))"
  shows "member_scans s CHR ''['' d (render v)"
  unfolding member_scans_def
proof (intro conjI allI impI)
  fix p assume s: "sits s p (render v)" and e: "ends_at s (p + length (render v))"
  have "skip_whitespace s p = p"
    using s sits_hd [of s p "render v"] render_hd [of v] by (intro skip_whitespace_stop) auto
  with assms [OF s e] show "\<exists>p1. skip_member_name s CHR ''['' p = Some p1
      \<and> skip_value s (skip_whitespace s p1) (d + 1) = Some (p + length (render v))"
    by (simp add: skip_member_name_def)
qed (use render_hd [of v] in simp_all)

text \<open>The scanner steps over the text of any document that is not nested too deep.\<close>

lemma skip_render:
  assumes "nests_within (JSON_MAX_DEPTH - d) v" and "sits s p (render v)" and "ends_at s (p + length (render v))"
  shows "skip_value s p d = Some (p + length (render v))"
  using assms
proof (induction v arbitrary: d p)
  case JNull
  then show ?case by (simp add: skip_value.simps [of s p d])
next
  case (JBool b)
  then show ?case by (cases b) (simp_all add: skip_value.simps [of s p d])
next
  case (JInt i)
  have "p < length s \<and> s ! p = hd (int_text (sint i))" using JInt int_text_hd [of "sint i"] by (intro sits_hd) auto
  with JInt skip_number_int [of s p "sint i"] int_text_special [of "sint i"] show ?case
    by (simp add: skip_value.simps [of s p d])
next
  case (JString t)
  then have "p < length s" "s ! p = CHR 0x22" by (simp_all add: quoted_def)
  with JString skip_string_quoted show ?case by (simp add: skip_value.simps [of s p d])
next
  case (JArray vs)
  have ms: "list_all (member_scans s CHR ''['' d) (map render vs)"
    using JArray by (auto simp: list_all_iff intro!: array_member_scans)
  have "skip_container s p d = Some (p + length (commas (map render vs)) + 2)"
    using JArray.prems by (intro skip_container_run [OF _ _ _ ms, where closing = "CHR '']''"]) auto
  with JArray.prems show ?case by (simp add: skip_value.simps [of s p d])
next
  case (JObject ms)
  have "member_scans s CHR ''{'' d (quoted k @ CHR '':'' # render v)" if "(k, v) \<in> set ms" for k v
    using JObject that by (intro object_member_scans JObject.IH [OF that]) (auto simp: list_all_iff)
  then have scans: "list_all (member_scans s CHR ''{'' d) (map (\<lambda>(k, v). quoted k @ CHR '':'' # render v) ms)"
    by (auto simp: list_all_iff)
  have "skip_container s p d = Some (p + length (commas (map (\<lambda>(k, v). quoted k @ CHR '':'' # render v) ms)) + 2)"
    using JObject.prems by (intro skip_container_run [OF _ _ _ scans, where closing = "CHR ''}''"]) auto
  with JObject.prems show ?case by (simp add: skip_value.simps [of s p d])
qed

end
