(* ===== verification/Json_Reading.thy ===== *)
theory Json_Reading
  imports Json_Documents
begin

text \<open>
  What the reading functions return on a document that was written by the writer, or by anything
  that writes the same text: members by name, elements by position, and the scalars.

  \<open>located mem v val\<close> says that \<open>val\<close> describes the document \<open>v\<close> in the memory \<open>mem\<close>.
\<close>

definition located :: "string \<Rightarrow> json \<Rightarrow> json_value_t \<Rightarrow> bool" where
  "located mem v val \<longleftrightarrow> jv_type val = json_kind v \<and> jv_length val = length (render v) \<and> sits mem (jv_start val) (render v)"

lemma locatedI: "sits mem p (render v) \<Longrightarrow>
    located mem v \<lparr>jv_type = json_kind v, jv_start = p, jv_length = length (render v)\<rparr>"
  by (simp add: located_def)

lemma nests_within_mono: "nests_within d v \<Longrightarrow> d \<le> e \<Longrightarrow> nests_within e v"
proof (induction v arbitrary: d e)
  case (JArray vs)
  then show ?case by (fastforce simp: list_all_iff dest: diff_le_mono [where l = 1])
next
  case (JObject ms)
  then show ?case by (fastforce simp: list_all_iff dest: diff_le_mono [where l = 1])
qed simp_all

text \<open>A document that ends where the scan does is the same in the memory around it.\<close>

lemma sits_take: "p + length t \<le> n \<Longrightarrow> sits (take n s) p t \<longleftrightarrow> sits s p t"
proof (induction t arbitrary: p)
  case (Cons c t)
  then have "sits (take n s) (Suc p) t \<longleftrightarrow> sits s (Suc p) t" "p < n" by simp_all
  then show ?case by simp
qed simp

lemma sits_of_take: "sits (take n s) p t \<Longrightarrow> sits s p t"
  by (induction t arbitrary: p) simp_all

subsection \<open>Members of an object\<close>

abbreviation member_text :: "string \<times> json \<Rightarrow> string" where
  "member_text \<equiv> \<lambda>(k, v). quoted k @ CHR '':'' # render v"

text \<open>One turn of the search: past the name and the value, with the comparison of the name.\<close>

lemma find_member_turn:
  assumes s: "sits s p (quoted k @ CHR '':'' # render v)" and n: "nests_within 15 v"
    and e: "ends_at s (p + length (member_text (k, v)))"
  shows "find_member s p key =
    (let q = p + length (quoted k) + 1; r = p + length (member_text (k, v)) in
     if k = key then (True, \<lparr>jv_type = json_kind v, jv_start = q, jv_length = length (render v)\<rparr>)
     else if length s \<le> r \<or> s ! r = CHR ''}'' then (False, set_invalid)
     else if s ! r \<noteq> CHR '','' then (False, set_invalid)
     else find_member s (r + 1) key)"
proof -
  let ?q = "p + length (quoted k)" and ?r = "p + length (member_text (k, v))"
  have p: "skip_whitespace s p = p" using s by (intro skip_whitespace_stop) (simp add: quoted_def is_space_def)
  have name: "skip_string s p = Some ?q" using s by (intro skip_string_quoted) simp
  have q: "skip_whitespace s ?q = ?q" "?q < length s" "s ! ?q = CHR '':''"
    using s by (auto simp: is_space_def intro: skip_whitespace_stop)
  have v: "skip_whitespace s (?q + 1) = ?q + 1" and hd: "s ! (?q + 1) = hd (render v)"
    using s sits_hd [of s "Suc ?q" "render v"] render_hd [of v] by (auto intro: skip_whitespace_stop)
  have val: "skip_value s (?q + 1) 1 = Some ?r"
    using skip_render [of 1 v s "?q + 1"] s e n by (simp add: add.assoc)
  have len: "?q - p - 2 = length (escape k)" by (simp add: quoted_def)
  have "chunk (p + 1) (length (escape k)) s = escape k"
    using s by (intro sits_chunk) (simp add: quoted_def)
  then have eq: "escaped_equals (chunk (p + 1) (?q - p - 2) s) key \<longleftrightarrow> k = key"
    unfolding len by (simp add: escaped_equals_decoded decoded_escape)
  have r: "skip_whitespace s ?r = ?r"
    using e by (intro skip_whitespace_stop) (auto simp: ends_at_def is_space_def)
  have l: "?r - (?q + 1) = length (render v)" by simp
  show ?thesis
    unfolding find_member.simps [of s p key] Let_def p name option.case q v val eq hd type_of_render r l
    using q by simp
qed

lemma find_member_run:
  assumes "ms \<noteq> []" and "list_all (\<lambda>(k, v). nests_within 15 v) ms" and "sits s p (commas (map member_text ms) @ [CHR ''}''])"
  shows "case map_of ms key of
      None \<Rightarrow> find_member s p key = (False, set_invalid)
    | Some v \<Rightarrow> \<exists>val. find_member s p key = (True, val) \<and> located s v val"
  using assms
proof (induction "map member_text ms" arbitrary: ms p rule: commas.induct)
  case (2 t)
  then obtain k v where ms: "ms = [(k, v)]" by auto
  let ?r = "p + length (member_text (k, v))"
  have s: "sits s p (quoted k @ CHR '':'' # render v)" "s ! ?r = CHR ''}''" using 2(4) by (simp_all add: ms add.assoc)
  then have "ends_at s ?r" by (simp add: ends_at_def)
  from find_member_turn [OF s(1) _ this, of key] 2(3) s show ?case
    by (auto simp: ms Let_def intro!: locatedI)
next
  case (3 t u ts)
  then obtain k v ms' where ms: "ms = (k, v) # ms'" "ms' \<noteq> []" "map member_text ms' = u # ts"
    by (cases ms) auto
  let ?r = "p + length (member_text (k, v))"
  have s: "sits s p (quoted k @ CHR '':'' # render v)" "s ! ?r = CHR '',''" "?r < length s"
    "sits s (?r + 1) (commas (map member_text ms') @ [CHR ''}''])"
    using 3(5) by (simp_all add: ms add.assoc)
  then have "ends_at s ?r" by (simp add: ends_at_def)
  note turn = find_member_turn [OF s(1) _ this, of key]
  have rest: "case map_of ms' key of
      None \<Rightarrow> find_member s (?r + 1) key = (False, set_invalid)
    | Some v \<Rightarrow> \<exists>val. find_member s (?r + 1) key = (True, val) \<and> located s v val"
    using 3(4) s(4) by (intro 3(1)) (simp_all add: ms)
  show ?case
  proof (cases "k = key")
    case True
    with turn 3(4) s show ?thesis by (auto simp: ms Let_def intro!: locatedI)
  next
    case False
    with turn 3(4) s have eq: "find_member s p key = find_member s (?r + 1) key" by (simp add: ms Let_def)
    show ?thesis unfolding ms(1) eq using rest False by simp
  qed
qed simp

lemma skip_value_container: "p < length s \<Longrightarrow> s ! p = CHR ''{'' \<Longrightarrow> skip_value s p d = skip_container s p d"
  by (simp add: skip_value.simps [of s p d])

lemma json_find_n_scan:
  assumes "take (j + n) mem = scan" and "skip_whitespace scan j = j" "j < length scan" "scan ! j = CHR ''{''"
    and "skip_container scan j 0 \<noteq> None" and "skip_whitespace scan (j + 1) = j + 1"
  shows "json_find_n mem (Some j) n (Some key) =
    (if j + 1 < length scan \<and> scan ! (j + 1) = CHR ''}'' then (False, set_invalid) else find_member scan (j + 1) key)"
  using assms(2-) by (auto simp: json_find_n_def assms(1) Let_def)

text \<open>In an object the text of which is \<open>render (JObject ms)\<close>, \<open>json_find_n\<close> is the lookup in \<open>ms\<close>.\<close>

lemma json_find_located:
  assumes s: "sits mem j (render (JObject ms))" and n: "nests_within JSON_MAX_DEPTH (JObject ms)"
  shows "case map_of ms key of
      None \<Rightarrow> json_find_n mem (Some j) (length (render (JObject ms))) (Some key) = (False, set_invalid)
    | Some v \<Rightarrow> \<exists>val. json_find_n mem (Some j) (length (render (JObject ms))) (Some key) = (True, val) \<and> located mem v val"
proof -
  let ?t = "render (JObject ms)"
  let ?s = "take (j + length ?t) mem"
  have t: "sits ?s j ?t" using s by (simp add: sits_take)
  have j: "skip_whitespace ?s j = j" "j < length ?s" "?s ! j = CHR ''{''"
    using t sits_hd [OF t] by (auto simp: is_space_def intro: skip_whitespace_stop)
  have "ends_at ?s (j + length ?t)" by (simp add: ends_at_def)
  from skip_render [of 0 "JObject ms", OF _ t this] n have "skip_value ?s j 0 = Some (j + length ?t)" by simp
  moreover have "skip_value ?s j 0 = skip_container ?s j 0" using j(2,3) by (rule skip_value_container)
  ultimately have c: "skip_container ?s j 0 \<noteq> None" by (metis option.distinct(1))
  show ?thesis
  proof (cases "ms = []")
    case True
    then have "skip_whitespace ?s (j + 1) = j + 1" "?s ! (j + 1) = CHR ''}''" "j + 1 < length ?s"
      using t by (auto simp: is_space_def intro: skip_whitespace_stop)
    with True j c show ?thesis by (simp add: json_find_n_def Let_def)
  next
    case False
    have body: "sits ?s (j + 1) (commas (map member_text ms) @ [CHR ''}''])" using t by simp
    have ne: "list_all (\<lambda>m. m \<noteq> []) (map member_text ms)" by (auto simp: list_all_iff)
    have hd0: "hd (hd (map member_text ms)) = CHR 0x22" using False by (cases ms) (auto simp: quoted_def)
    have h: "commas (map member_text ms) \<noteq> []" "hd (commas (map member_text ms)) = CHR 0x22"
      using hd_commas [of "map member_text ms"] False ne hd0 by simp_all
    have "?s ! (j + 1) = CHR 0x22" using body sits_hd [of ?s "j + 1" "commas (map member_text ms)"] h by simp
    moreover from this have "skip_whitespace ?s (j + 1) = j + 1" by (intro skip_whitespace_stop) (simp add: is_space_def)
    ultimately have eq: "json_find_n mem (Some j) (length ?t) (Some key) = find_member ?s (j + 1) key"
      unfolding json_find_n_scan [OF refl j c \<open>skip_whitespace ?s (j + 1) = j + 1\<close>] by simp
    have "list_all (\<lambda>(k, v). nests_within 15 v) ms" using n by simp
    from find_member_run [OF False this body, of key] show ?thesis
      unfolding eq by (auto simp: located_def dest: sits_of_take split: option.splits)
  qed
qed

subsection \<open>Elements of an array\<close>

text \<open>One turn of the loops over the elements: past one element, and to the next if there is one.\<close>

lemma element_turn:
  assumes s: "sits s p (render v)" and n: "nests_within 15 v" and e: "ends_at s (p + length (render v))"
  shows "skip_value s p 1 = Some (p + length (render v))"
    and "skip_whitespace s (p + length (render v)) = p + length (render v)"
    and "type_of (s ! p) = json_kind v"
proof -
  show "skip_value s p 1 = Some (p + length (render v))" using skip_render [of 1 v s p] s e n by simp
  show "skip_whitespace s (p + length (render v)) = p + length (render v)"
    using e by (intro skip_whitespace_stop) (auto simp: ends_at_def is_space_def)
  show "type_of (s ! p) = json_kind v" using sits_hd [OF s] render_hd [of v] type_of_render [of v] by simp
qed

lemma next_element:
  assumes "sits s p (render v @ CHR '','' # commas (map render (w # vs)) @ t)"
  shows "skip_whitespace s (p + length (render v) + 1) = p + length (render v) + 1"
proof -
  have h: "commas (map render (w # vs)) \<noteq> []" "hd (commas (map render (w # vs))) = hd (render w)"
    using hd_commas [of "map render (w # vs)"] render_hd by (auto simp: list_all_iff)
  have "s ! (p + length (render v) + 1) = hd (render w)"
    using assms sits_hd [of s "p + length (render v) + 1" "commas (map render (w # vs))"] h by simp
  then show ?thesis using render_hd [of w] by (intro skip_whitespace_stop) simp
qed

lemma count_elements_run:
  assumes "list_all (nests_within 15) vs" and "vs \<noteq> []" and "sits s p (commas (map render vs) @ [CHR '']''])"
  shows "count_elements s p n = n + length vs"
  using assms
proof (induction "map render vs" arbitrary: vs p n rule: commas.induct)
  case (2 t)
  then obtain v where vs: "vs = [v]" by auto
  with 2 have s: "sits s p (render v)" "s ! (p + length (render v)) = CHR '']''" by simp_all
  then have "ends_at s (p + length (render v))" by (simp add: ends_at_def)
  note turn = element_turn [OF s(1) _ this]
  from turn 2(2) s show ?case by (simp add: vs count_elements.simps [of s p] Let_def)
next
  case (3 t u ts)
  then obtain v w vs' where vs: "vs = v # w # vs'" "u # ts = map render (w # vs')" by auto
  let ?r = "p + length (render v)"
  have s: "sits s p (render v)" "s ! ?r = CHR '',''" "?r < length s"
    "sits s (?r + 1) (commas (map render (w # vs')) @ [CHR '']''])"
    using 3(5) by (simp_all add: vs)
  then have "ends_at s ?r" by (simp add: ends_at_def)
  note turn = element_turn [OF s(1) _ this]
  have nx: "skip_whitespace s (?r + 1) = ?r + 1" using 3(5) by (intro next_element [where w = w and vs = vs' and t = "[CHR '']'']"]) (simp add: vs)
  have "count_elements s (?r + 1) (n + 1) = n + 1 + length (w # vs')"
    using 3(3) s(4) by (intro 3(1)) (simp_all add: vs)
  with turn 3(3) s nx show ?case by (simp add: vs count_elements.simps [of s p] Let_def)
qed simp

lemma find_element_run:
  assumes "list_all (nests_within 15) vs" and "vs \<noteq> []" and "sits s p (commas (map render vs) @ [CHR '']''])"
    and "n \<le> i"
  shows "if i - n < length vs then \<exists>val. find_element s p n i = (True, val) \<and> located s (vs ! (i - n)) val
    else find_element s p n i = (False, set_invalid)"
  using assms
proof (induction "map render vs" arbitrary: vs p n rule: commas.induct)
  case (2 t)
  then obtain v where vs: "vs = [v]" by auto
  with 2 have s: "sits s p (render v)" "s ! (p + length (render v)) = CHR '']''" by simp_all
  then have "ends_at s (p + length (render v))" by (simp add: ends_at_def)
  note turn = element_turn [OF s(1) _ this]
  from turn 2(2,5) s show ?case by (auto simp: vs find_element.simps [of s p] Let_def intro!: locatedI)
next
  case (3 t u ts)
  then obtain v w vs' where vs: "vs = v # w # vs'" "u # ts = map render (w # vs')" by auto
  let ?r = "p + length (render v)"
  have s: "sits s p (render v)" "s ! ?r = CHR '',''" "?r < length s"
    "sits s (?r + 1) (commas (map render (w # vs')) @ [CHR '']''])"
    using 3(5) by (simp_all add: vs)
  then have "ends_at s ?r" by (simp add: ends_at_def)
  note turn = element_turn [OF s(1) _ this]
  show ?case
  proof (cases "n = i")
    case True
    with turn 3(3) s show ?thesis by (auto simp: vs find_element.simps [of s p] intro!: locatedI)
  next
    case False
    have nx: "skip_whitespace s (?r + 1) = ?r + 1" using 3(5) by (intro next_element [where w = w and vs = vs' and t = "[CHR '']'']"]) (simp add: vs)
    have go: "find_element s p n i = find_element s (?r + 1) (n + 1) i"
      using turn 3(3) s nx False by (simp add: vs find_element.simps [of s p n] Let_def)
    have "if i - (n + 1) < length (w # vs')
        then \<exists>val. find_element s (?r + 1) (n + 1) i = (True, val) \<and> located s ((w # vs') ! (i - (n + 1))) val
        else find_element s (?r + 1) (n + 1) i = (False, set_invalid)"
      using 3(3,6) s(4) False by (intro 3(1)) (simp_all add: vs)
    moreover have "i - n = Suc (i - (n + 1))" using False 3(6) by simp
    ultimately show ?thesis unfolding go vs(1) by (simp del: One_nat_def add: not_less)
  qed
qed simp

text \<open>An array located in memory: its length, and its elements in order.\<close>

lemma array_scan:
  assumes "located mem (JArray vs) val" and "nests_within JSON_MAX_DEPTH (JArray vs)"
    and "scan = take (jv_start val + jv_length val) mem"
  shows "jv_type val = JSON_TYPE_ARRAY" and "list_all (nests_within 15) vs"
    and "sits scan (jv_start val + 1) (commas (map render vs) @ [CHR '']''])"
    and "skip_whitespace scan (jv_start val + 1) = jv_start val + 1"
    and "scan ! (jv_start val + 1) = CHR '']'' \<longleftrightarrow> vs = []" and "jv_start val + 1 < length scan"
proof -
  let ?p = "jv_start val + 1"
  show "jv_type val = JSON_TYPE_ARRAY" "list_all (nests_within 15) vs" using assms(1,2) by (simp_all add: located_def)
  have "sits scan (jv_start val) (render (JArray vs))"
    using assms(1) unfolding assms(3) located_def by (simp add: sits_take del: render.simps)
  then show body: "sits scan ?p (commas (map render vs) @ [CHR '']''])" by simp
  have "commas (map render vs) \<noteq> []" "hd (commas (map render vs)) = hd (render (hd vs))" if "vs \<noteq> []"
    using hd_commas [of "map render vs"] render_hd that by (auto simp: list_all_iff hd_map)
  then have hd: "scan ! ?p = (if vs = [] then CHR '']'' else hd (render (hd vs)))" "?p < length scan"
    using body sits_hd [of scan ?p "commas (map render vs)"] by (cases "vs = []"; simp)+
  then show "scan ! ?p = CHR '']'' \<longleftrightarrow> vs = []" "?p < length scan" using render_hd by auto
  show "skip_whitespace scan ?p = ?p" using hd render_hd by (intro skip_whitespace_stop) (auto simp: is_space_def)
qed

lemma json_array_length_located:
  assumes "located mem (JArray vs) val" and "nests_within JSON_MAX_DEPTH (JArray vs)"
  shows "json_array_length mem (Some val) = length vs"
  using array_scan [OF assms refl] count_elements_run [of vs _ _ 0]
  by (cases "vs = []") (simp_all add: json_array_length_def Let_def)

lemma json_array_at_located:
  assumes "located mem (JArray vs) val" and "nests_within JSON_MAX_DEPTH (JArray vs)"
  shows "if i < length vs then \<exists>e. json_array_at mem (Some val) i = (True, e) \<and> located mem (vs ! i) e
    else json_array_at mem (Some val) i = (False, set_invalid)"
proof (cases "vs = []")
  case True
  with array_scan [OF assms refl] show ?thesis by (simp add: json_array_at_def Let_def)
next
  case False
  note a = array_scan [OF assms refl]
  have "json_array_at mem (Some val) i = find_element (take (jv_start val + jv_length val) mem) (jv_start val + 1) 0 i"
    using a False by (simp add: json_array_at_def Let_def)
  with find_element_run [OF a(2) False a(3), of 0 i] show ?thesis
    by (auto simp: located_def dest: sits_of_take split: if_splits)
qed

subsection \<open>Scalars\<close>

definition digits_value :: "string \<Rightarrow> nat \<Rightarrow> nat" where
  "digits_value ds m = foldl (\<lambda>m c. m * 10 + (of_char c - of_char (CHR ''0''))) m ds"

lemma digits_value_simps [simp]:
  "digits_value [] m = m"
  "digits_value (c # ds) m = digits_value ds (m * 10 + (of_char c - of_char (CHR ''0'')))"
  "digits_value (ds @ [c]) m = digits_value ds m * 10 + (of_char c - of_char (CHR ''0''))"
  by (simp_all add: digits_value_def)

lemma digits_value_ge: "m \<le> digits_value ds m"
proof (induction ds arbitrary: m)
  case (Cons c ds)
  have "m \<le> m * 10 + (of_char c - of_char (CHR ''0''))" by simp
  also have "\<dots> \<le> digits_value (c # ds) m" using Cons by simp
  finally show ?case .
qed simp

lemma int_digits_value: "digits_value (rev (int_digits n)) 0 = n"
proof (induction n rule: int_digits.induct)
  case (1 n)
  have d: "(of_char (char_of (48 + n mod 10) :: char) :: nat) - of_char (CHR ''0'') = n mod 10" by simp
  show ?case
  proof (cases "n div 10 = 0")
    case True
    then show ?thesis using d by (subst int_digits.simps) simp
  next
    case False
    with 1 d show ?thesis by (subst int_digits.simps) simp
  qed
qed

lemma get_digits_run:
  assumes "list_all is_digit ds" and "sits mem p ds" and "p + length ds = stop" and "digits_value ds m \<le> 2147483648"
  shows "get_digits mem stop p m any = Some (stop, digits_value ds m, any \<or> ds \<noteq> [])"
  using assms
proof (induction ds arbitrary: p m any)
  case Nil
  then show ?case by (simp add: get_digits.simps [of mem stop stop])
next
  case (Cons c ds)
  let ?m = "m * 10 + (of_char c - of_char (CHR ''0''))"
  have "?m \<le> 2147483648" using Cons.prems(4) digits_value_ge [of ?m ds] by simp
  moreover have "get_digits mem stop (p + 1) ?m True = Some (stop, digits_value ds ?m, True)"
    using Cons.prems Cons.IH [of "p + 1" ?m True] by simp
  ultimately show ?case using Cons.prems by (simp add: get_digits.simps [of mem stop p] Let_def)
qed

lemma sint_i32: "- 2147483648 \<le> sint (i :: i32)" "sint (i :: i32) < 2147483648"
  using sint_ge [of i] sint_lt [of i] by simp_all

lemma json_get_int_located:
  assumes "located mem (JInt i) val"
  shows "json_get_int mem (Some val) = Some (sint i)"
proof -
  let ?i = "sint i" and ?p = "jv_start val"
  let ?ds = "rev (int_digits (nat \<bar>?i\<bar>))" and ?n = "length (int_text (sint i))"
  have v: "jv_type val = JSON_TYPE_NUMBER" "jv_length val = ?n" "sits mem ?p (int_text ?i)"
    using assms by (simp_all add: located_def)
  have n0: "?n \<noteq> 0" using int_text_hd by simp
  let ?q = "if mem ! ?p = CHR ''-'' \<or> mem ! ?p = CHR ''+'' then ?p + 1 else ?p"
  have hd: "mem ! ?p = hd (int_text ?i)" using v(3) int_text_hd sits_hd by blast
  have d0: "\<not> is_digit CHR ''-'' \<and> \<not> is_digit CHR ''+''" by code_simp
  have ds: "?ds \<noteq> []" "list_all is_digit ?ds" using int_digits_digits by (simp_all add: list_all_iff)
  then have dh: "is_digit (hd ?ds)" by (cases ?ds) simp_all
  have neg: "mem ! ?p = CHR ''-'' \<longleftrightarrow> ?i < 0" and plus: "mem ! ?p \<noteq> CHR ''+''"
    using hd dh d0 by (auto simp: int_text_def)
  have q: "?q = (if ?i < 0 then ?p + 1 else ?p)" using neg plus by simp
  have "sits mem ?q ?ds" using v(3) unfolding q by (auto simp: int_text_def)
  moreover have "?q + length ?ds = ?p + ?n" unfolding q by (simp add: int_text_def)
  moreover have "digits_value ?ds 0 \<le> 2147483648"
    unfolding int_digits_value using sint_i32 [of i] by linarith
  ultimately have run: "get_digits mem (?p + ?n) ?q 0 False = Some (?p + ?n, nat \<bar>?i\<bar>, True)"
    using get_digits_run [of ?ds mem ?q "?p + ?n" 0 False] ds unfolding int_digits_value by simp
  show ?thesis
    using v n0 run neg plus sint_i32 [of i]
    unfolding json_get_int_def option.case Let_def v(2) run by auto
qed

lemma json_get_bool_located: "located mem (JBool b) val \<Longrightarrow> json_get_bool mem (Some val) = Some b"
  by (cases b) (auto simp: located_def json_get_bool_def)

lemma string_body:
  assumes "located mem (JString t) val"
  shows "jv_type val = JSON_TYPE_STRING" "\<not> jv_length val < 2"
    "chunk (jv_start val + 1) (jv_length val - 2) mem = escape t"
proof -
  show "jv_type val = JSON_TYPE_STRING" "\<not> jv_length val < 2" using assms by (simp_all add: located_def quoted_def)
  have "sits mem (jv_start val + 1) (escape t)" using assms by (simp add: located_def quoted_def)
  from sits_chunk [OF this] assms show "chunk (jv_start val + 1) (jv_length val - 2) mem = escape t"
    by (simp add: located_def quoted_def)
qed

lemma json_get_string_located:
  assumes "located mem (JString t) val" and "length t < length buf"
  shows "json_get_string mem (Some val) (Some buf) = (True, Some ((blit 0 t buf)[length t := CHR 0x00]))"
proof -
  have buf: "buf \<noteq> []" "length buf - 1 \<le> length buf" "length t \<le> length buf - 1" using assms(2) by auto
  from unescape_spec [OF buf(2), of "escape t"] buf(3)
  have u: "unescape (escape t) (Some buf) (length buf - 1) = (Some (length t), Some (blit 0 t buf))"
    by (simp add: decoded_escape)
  show ?thesis
    using string_body(1,2) [OF assms(1)] buf(1)
    unfolding json_get_string_def Let_def option.case prod.case string_body(3) [OF assms(1)] u by simp
qed

lemma json_string_equals_located:
  assumes "located mem (JString t) val"
  shows "json_string_equals mem (Some val) (Some u) \<longleftrightarrow> t = u"
  using string_body [OF assms] by (simp add: json_string_equals_def escaped_equals_decoded decoded_escape)

lemma json_array_ints_located:
  assumes "located mem (JArray (map JInt is)) val" and "n \<le> length is"
  shows "json_array_ints mem (Some val) n = map sint (take n is)"
proof -
  have nest: "nests_within JSON_MAX_DEPTH (JArray (map JInt is))" by (simp add: list_all_iff)
  have "array_ints_from mem (Some val) i k = map sint (take k (drop i is))" if "i + k \<le> length is" for i k
    using that
  proof (induction k arbitrary: i)
    case (Suc k)
    then have i: "i < length is" by simp
    then obtain e where e: "json_array_at mem (Some val) i = (True, e)" "located mem (JInt (is ! i)) e"
      using json_array_at_located [OF assms(1) nest, of i] by auto
    from i have "drop i is = is ! i # drop (Suc i) is" by (simp add: Cons_nth_drop_Suc)
    with Suc e json_get_int_located [OF e(2)] show ?case by simp
  qed simp
  from this [of 0 n] assms(2) show ?thesis by (simp add: json_array_ints_def)
qed

subsection \<open>Documents cut short\<close>

text \<open>
  A scan of the first \<open>n\<close> characters that stops before their end stops at the same place in the
  whole text. A container has its closing brace there, so for it any success is enough.
\<close>

lemma skip_whitespace_cut: "skip_whitespace (take n s) p < n \<Longrightarrow> n \<le> length s \<Longrightarrow> skip_whitespace s p = skip_whitespace (take n s) p"
proof (induction s p rule: skip_whitespace.induct)
  case (1 s p)
  have "p < n" using skip_whitespace_ge [of p "take n s"] 1(2) by simp
  with 1 show ?case
    by (cases "is_space (s ! p)") (auto simp: skip_whitespace.simps [of s p] skip_whitespace.simps [of "take n s" p])
qed

lemma skip_digits_cut: "skip_digits (take n s) p < n \<Longrightarrow> n \<le> length s \<Longrightarrow> skip_digits s p = skip_digits (take n s) p"
proof (induction s p rule: skip_digits.induct)
  case (1 s p)
  have "p < n" using skip_digits_ge [of p "take n s"] 1(2) by simp
  with 1 show ?case
    by (cases "is_digit (s ! p)") (auto simp: skip_digits.simps [of s p] skip_digits.simps [of "take n s" p])
qed

lemma skip_sign_cut: "p < n \<Longrightarrow> n \<le> length s \<Longrightarrow> skip_sign s p = skip_sign (take n s) p"
  by (simp add: skip_sign_def)

lemma skip_string_body_cut:
  "skip_string_body (take n s) p = Some q \<Longrightarrow> n \<le> length s \<Longrightarrow> skip_string_body s p = Some q"
proof (induction s p rule: skip_string_body.induct)
  case (1 s p)
  then have "p < n" by (auto simp: skip_string_body.simps [of "take n s" p] split: if_splits)
  with 1 show ?case
    by (auto simp: skip_string_body.simps [of s p] skip_string_body.simps [of "take n s" p] split: if_splits)
qed

lemma skip_string_cut: "skip_string (take n s) p = Some q \<Longrightarrow> n \<le> length s \<Longrightarrow> skip_string s p = Some q"
  by (auto simp: skip_string_def dest: skip_string_body_cut split: if_splits)

lemma skip_literal_cut: "skip_literal (take n s) p w = Some q \<Longrightarrow> n \<le> length s \<Longrightarrow> skip_literal s p w = Some q"
  by (induction s p w rule: skip_literal.induct) (auto split: if_splits)

text \<open>The three parts of a number.\<close>

definition skip_fraction :: "string \<Rightarrow> nat \<Rightarrow> nat" where
  "skip_fraction s p = (if p < length s \<and> s ! p = CHR ''.'' then skip_digits s (p + 1) else p)"

definition skip_exponent :: "string \<Rightarrow> nat \<Rightarrow> nat" where
  "skip_exponent s p =
     (if p < length s \<and> (s ! p = CHR ''e'' \<or> s ! p = CHR ''E'') then skip_digits s (skip_sign s (p + 1)) else p)"

lemma skip_number_parts:
  "skip_number s p =
    (let q = skip_exponent s (skip_fraction s (skip_digits s (skip_sign s p))) in
     if p < q \<and> is_digit (s ! (q - 1)) then Some q else None)"
  by (simp add: skip_number_def skip_fraction_def skip_exponent_def Let_def)

lemma skip_fraction_ge: "p \<le> skip_fraction s p"
  using skip_digits_ge [of "p + 1" s] by (simp add: skip_fraction_def)

lemma skip_exponent_ge: "p \<le> skip_exponent s p"
  using skip_digits_ge [of "skip_sign s (p + 1)" s] skip_sign_ge [of "p + 1" s] by (simp add: skip_exponent_def)

lemma skip_fraction_cut: "skip_fraction (take n s) p < n \<Longrightarrow> n \<le> length s \<Longrightarrow> skip_fraction s p = skip_fraction (take n s) p"
  using skip_fraction_ge [of p "take n s"] skip_digits_cut [of n s "p + 1"] by (auto simp: skip_fraction_def split: if_splits)

lemma skip_exponent_cut:
  assumes "skip_exponent (take n s) p < n" and "n \<le> length s"
  shows "skip_exponent s p = skip_exponent (take n s) p"
proof (cases "s ! p = CHR ''e'' \<or> s ! p = CHR ''E''")
  case True
  have p: "p < n" using skip_exponent_ge [of p "take n s"] assms(1) by simp
  with True assms have e: "skip_exponent (take n s) p = skip_digits (take n s) (skip_sign (take n s) (p + 1))"
    by (simp add: skip_exponent_def)
  then have "p + 1 < n"
    using assms(1) skip_digits_ge [of "skip_sign (take n s) (p + 1)" "take n s"] skip_sign_ge [of "p + 1" "take n s"] by simp
  with skip_digits_cut [of n s "skip_sign (take n s) (p + 1)"] skip_sign_cut [of "p + 1" n s] assms e True p
  show ?thesis by (simp add: skip_exponent_def)
next
  case False
  have "p < n" using skip_exponent_ge [of p "take n s"] assms(1) by simp
  with False show ?thesis by (simp add: skip_exponent_def)
qed

lemma skip_number_cut:
  assumes "skip_number (take n s) p = Some q" and "q < n" and "n \<le> length s"
  shows "skip_number s p = Some q"
proof -
  let ?s = "take n s"
  let ?p1 = "skip_digits ?s (skip_sign ?s p)"
  let ?p2 = "skip_fraction ?s ?p1"
  have q: "skip_exponent ?s ?p2 = q" "p < q" "is_digit (s ! (q - 1))"
    using assms by (auto simp: skip_number_parts Let_def split: if_splits)
  have p2: "?p2 < n" using skip_exponent_ge [of ?p2 ?s] q(1) assms(2) by simp
  then have p1: "?p1 < n" using skip_fraction_ge [of ?p1 ?s] by simp
  have "p < n" using q(2) assms(2) by simp
  with skip_sign_cut [of p n s] skip_digits_cut [of n s "skip_sign ?s p"] p1 assms(3)
  have "skip_digits s (skip_sign s p) = ?p1" by simp
  moreover have "skip_fraction s ?p1 = ?p2" by (rule skip_fraction_cut [OF p2 assms(3)])
  moreover have "skip_exponent s ?p2 = q" using skip_exponent_cut [of n s ?p2] q(1) assms(2,3) by simp
  ultimately show ?thesis using q(2,3) by (simp add: skip_number_parts)
qed

lemma skip_member_name_cut:
  assumes "skip_member_name (take n s) a p = Some q" and "n \<le> length s"
  shows "skip_member_name s a p = Some q"
proof (cases "a = CHR ''{'' \<and> skip_whitespace (take n s) p < n")
  case True
  then have w: "skip_whitespace s p = skip_whitespace (take n s) p" using skip_whitespace_cut assms(2) by blast
  from assms(1) True obtain r where r: "skip_string (take n s) (skip_whitespace (take n s) p) = Some r"
    and q: "q = skip_whitespace (take n s) r + 1" "skip_whitespace (take n s) r < n"
      "take n s ! skip_whitespace (take n s) r = CHR '':''"
    using assms(2) by (auto simp: skip_member_name_def Let_def split: option.splits if_splits)
  from q(2) have "skip_whitespace s r = skip_whitespace (take n s) r" using skip_whitespace_cut assms(2) by blast
  with True w q skip_string_cut [OF r assms(2)] assms(2) show ?thesis by (simp add: skip_member_name_def Let_def)
next
  case False
  with assms show ?thesis by (auto simp: skip_member_name_def skip_string_def split: if_splits)
qed

lemma skip_members_end: "length s \<le> p \<Longrightarrow> skip_members s a b p d = None"
  using skip_whitespace_stop [of s p]
  by (simp add: skip_members.simps [of s a b p d] skip_member_name_def skip_string_def skip_value.simps [of s p])

lemma skip_cut:
  "skip_value (take n s) p d = Some q \<Longrightarrow> q < n \<Longrightarrow> n \<le> length s \<Longrightarrow> skip_value s p d = Some q"
  "skip_container (take n s) p d = Some q \<Longrightarrow> p < n \<Longrightarrow> n \<le> length s \<Longrightarrow> skip_container s p d = Some q"
  "skip_members (take n s) a b p d = Some q \<Longrightarrow> n \<le> length s \<Longrightarrow> skip_members s a b p d = Some q"
proof (induction "take n s" p d and "take n s" p d and "take n s" a b p d arbitrary: q and q and q
    rule: skip_value_skip_container_skip_members.induct)
  case (1 p depth)
  have p: "p < n" using 1(2,4) by (auto simp: skip_value.simps [of "take n s" p depth] split: if_splits)
  with 1 show ?case
    by (auto simp: skip_value.simps [of "take n s" p depth] skip_value.simps [of s p depth]
        simp del: skip_literal.simps dest: skip_string_cut [OF _ 1(4)] skip_literal_cut [OF _ 1(4)]
          skip_number_cut [OF _ 1(3,4)] split: if_splits)
next
  case (2 p depth)
  let ?w = "skip_whitespace (take n s) (p + 1)"
  let ?c = "if s ! p = CHR ''{'' then CHR ''}'' else CHR '']''"
  have sp: "take n s ! p = s ! p" using 2(3) by simp
  show ?case
  proof (cases "?w < n \<and> s ! ?w = ?c")
    case True
    then have "skip_whitespace s (p + 1) = ?w" using skip_whitespace_cut 2(4) by blast
    with 2(2-4) True sp show ?thesis
      by (auto simp: skip_container.simps [of "take n s" p depth] skip_container.simps [of s p depth] Let_def split: if_splits)
  next
    case False
    with 2(2-4) sp have m: "skip_members (take n s) (s ! p) ?c ?w depth = Some q" and d: "depth < 16"
      by (auto simp: skip_container.simps [of "take n s" p depth] Let_def split: if_splits)
    have "?w < n" using m skip_members_end [of "take n s" ?w] 2(4) by (cases "?w < n") simp_all
    then have w: "skip_whitespace s (p + 1) = ?w" using skip_whitespace_cut 2(4) by blast
    have "skip_members s (s ! p) ?c ?w depth = Some q"
      using 2(1) [OF refl refl _ refl] m d False sp 2(4) by auto
    with w d False \<open>?w < n\<close> 2(4) show ?thesis by (auto simp: skip_container.simps [of s p depth] Let_def)
  qed
next
  case (3 a b p depth)
  let ?s = "take n s"
  from 3(3,4) obtain p1 p2 where p1: "skip_member_name ?s a p = Some p1"
    and p2: "skip_value ?s (skip_whitespace ?s p1) (depth + 1) = Some p2"
    and w: "skip_whitespace ?s p2 < n"
    by (auto simp: skip_members.simps [of ?s a b p depth] Let_def split: option.splits if_splits)
  have "p2 < n" using w skip_whitespace_ge [of p2 ?s] by simp
  moreover from this have "skip_whitespace ?s p1 < n" using skip_value_gt [OF p2] by simp
  ultimately have one: "skip_member_name s a p = Some p1" "skip_value s (skip_whitespace s p1) (depth + 1) = Some p2"
    "skip_whitespace s p2 = skip_whitespace ?s p2"
    using skip_member_name_cut [OF p1 3(4)] 3(1) [OF p1 p2 _ 3(4)] skip_whitespace_cut [OF _ 3(4)] w by simp_all
  let ?q = "skip_whitespace ?s p2"
  show ?case
  proof (cases "s ! ?q = b")
    case True
    with 3(3,4) p1 p2 w one show ?thesis
      by (simp add: skip_members.simps [of ?s a b p depth] skip_members.simps [of s a b p depth] Let_def)
  next
    case False
    with 3(3,4) p1 p2 w have c: "s ! ?q = CHR '',''"
      and m: "skip_members ?s a b (skip_whitespace ?s (?q + 1)) depth = Some q"
      by (auto simp: skip_members.simps [of ?s a b p depth] Let_def split: if_splits)
    have "skip_whitespace ?s (?q + 1) < n"
      using m skip_members_end [of ?s "skip_whitespace ?s (?q + 1)"] 3(4)
      by (cases "skip_whitespace ?s (?q + 1) < n") simp_all
    then have ws: "skip_whitespace s (?q + 1) = skip_whitespace ?s (?q + 1)" using skip_whitespace_cut 3(4) by blast
    have "skip_members s a b (skip_whitespace ?s (?q + 1)) depth = Some q"
      using 3(2) [OF p1 p2 refl _ _ _ m 3(4)] w c False 3(4) by simp
    with one ws w c False 3(4) show ?thesis
      by (simp add: skip_members.simps [of s a b p depth] Let_def)
  qed
qed

lemma find_member_bounds:
  "find_member scan p key = (True, val) \<Longrightarrow> p \<le> jv_start val \<and> jv_start val + jv_length val \<le> length scan \<and> 0 < jv_length val"
proof (induction scan p key rule: find_member.induct)
  case (1 scan p key)
  let ?name = "skip_whitespace scan p"
  from 1(2) obtain e where e: "skip_string scan ?name = Some e"
    by (auto simp: find_member.simps [of scan p key] Let_def split: option.splits)
  let ?c = "skip_whitespace scan e"
  let ?v = "skip_whitespace scan (?c + 1)"
  from 1(2) e have c: "?c < length scan" "scan ! ?c = CHR '':''"
    by (auto simp: find_member.simps [of scan p key] Let_def split: if_splits)
  with 1(2) e obtain q where q: "skip_value scan ?v 1 = Some q"
    by (auto simp: find_member.simps [of scan p key] Let_def split: option.splits)
  have le: "p \<le> ?v" "?v < q" "q \<le> length scan" "p \<le> skip_whitespace scan q + 1"
    using skip_whitespace_ge [of p scan] skip_string_gt [OF e] skip_whitespace_ge [of e scan]
      skip_whitespace_ge [of "?c + 1" scan] skip_value_gt [OF q] skip_whitespace_ge [of q scan] by linarith+
  show ?case
  proof (cases "escaped_equals (chunk (?name + 1) (e - ?name - 2) scan) key")
    case True
    with 1(2) e c q have "val = \<lparr>jv_type = type_of (scan ! ?v), jv_start = ?v, jv_length = q - ?v\<rparr>"
      by (auto simp: find_member.simps [of scan p key] Let_def)
    with le show ?thesis by simp
  next
    case False
    with 1(2) e c q have "find_member scan (skip_whitespace scan q + 1) key = (True, val)"
      and "\<not> (length scan \<le> skip_whitespace scan q \<or> scan ! skip_whitespace scan q = CHR ''}'')"
      and "scan ! skip_whitespace scan q = CHR '',''"
      by (auto simp: find_member.simps [of scan p key] Let_def split: if_splits)
    from 1(1) [OF refl e refl _ refl q refl False refl] this c le(4) show ?thesis by auto
  qed
qed

subsection \<open>Properties\<close>

lemma written_object_found:
  assumes n: "nests_within JSON_MAX_DEPTH (JObject ms)" and fits: "length (render (JObject ms)) < length b"
  shows "\<exists>w buf. json_writer_finish (fold run_writer_call (calls None (JObject ms)) (json_writer_init (Some b) (length b))) = (True, w)
    \<and> jw_buffer w = Some buf \<and> buf ! json_writer_length w = CHR 0x00
    \<and> json_valid_n buf (Some 0) (json_writer_length w)
    \<and> (\<forall>key. case map_of ms key of
          None \<Rightarrow> json_find_n buf (Some 0) (json_writer_length w) (Some key) = (False, set_invalid)
        | Some v \<Rightarrow> \<exists>val. json_find_n buf (Some 0) (json_writer_length w) (Some key) = (True, val) \<and> located buf v val)"
proof -
  let ?t = "render (JObject ms)" and ?w = "fold run_writer_call (calls None (JObject ms)) (json_writer_init (Some b) (length b))"
  let ?a = "fold text_call (calls None (JObject ms)) start_text"
  have a: "wt_text ?a = ?t" "wt_depth ?a = 0" "\<not> wt_misplaced ?a"
    using text_calls [of start_text "JObject ms" None] n by (simp_all add: start_text_def add_member_def key_text_def)
  have b: "b \<noteq> []" using fits by auto
  obtain buf where w: "jw_buffer ?w = Some buf" "length buf = length b" "jw_size ?w = length b"
    "jw_length ?w = min (length (wt_text ?a)) (length b - 1)" "take (jw_length ?w) buf = take (length b - 1) (wt_text ?a)"
    "jw_overflowed ?w \<longleftrightarrow> length b \<le> length (wt_text ?a)" "jw_malformed ?w = wt_misplaced ?a" "jw_depth ?w = wt_depth ?a"
    by (rule writer_after_calls [OF refl refl b])
  have len: "jw_length ?w = length ?t" using w(4) fits unfolding a by simp
  then have tk: "take (length ?t) buf = ?t" using w(5) fits unfolding a by simp
  let ?buf = "buf[length ?t := CHR 0x00]"
  have fin: "json_writer_finish ?w = (True, ?w\<lparr>jw_buffer := Some ?buf\<rparr>)"
    unfolding json_writer_finish_def using w(1-3,6-8) a fits len b by (simp del: render.simps calls.simps)
  have cut: "take (length ?t) ?buf = ?t" using tk by (simp del: render.simps)
  then have sit: "sits ?buf 0 ?t" by (intro chunk_sits) (simp add: chunk_def del: render.simps)
  have "skip_value ?t 0 0 = Some (length ?t)"
    using skip_render [of 0 "JObject ms" ?t 0] n by (simp add: sits_def ends_at_def del: render.simps nests_within.simps)
  moreover have "skip_whitespace ?t 0 = 0" by (rule skip_whitespace_stop) (simp add: is_space_def)
  moreover have "skip_whitespace ?t (length ?t) = length ?t" by (rule skip_whitespace_stop) simp
  ultimately have valid: "json_valid_n ?buf (Some 0) (length ?t)"
    unfolding json_valid_n_def option.case Let_def add_0 cut by (simp del: render.simps)
  have jl: "json_writer_length (?w\<lparr>jw_buffer := Some ?buf\<rparr>) = length ?t" using len by (simp add: json_writer_length_def del: render.simps calls.simps)
  have nul: "?buf ! length ?t = CHR 0x00" using fits w(2) by (simp del: render.simps)
  have found: "\<forall>key. case map_of ms key of
      None \<Rightarrow> json_find_n ?buf (Some 0) (length ?t) (Some key) = (False, set_invalid)
    | Some v \<Rightarrow> \<exists>val. json_find_n ?buf (Some 0) (length ?t) (Some key) = (True, val) \<and> located ?buf v val"
    using json_find_located [OF sit n] by blast
  have buf': "jw_buffer (?w\<lparr>jw_buffer := Some ?buf\<rparr>) = Some ?buf" by simp
  show ?thesis
    by (intro exI [of _ "?w\<lparr>jw_buffer := Some ?buf\<rparr>"] exI [of _ ?buf], unfold jl)
      (intro conjI fin buf' nul valid found)
qed




text \<open>Every kind of value written is read back by the function for it: an integer in the full
  32-bit range, a boolean, a string with any characters into any buffer that has room for it and
  its terminator, an array by its length and each of its elements, an object by its members.\<close>

theorem json_values_read_back:
  assumes loc: "located mem v val" and n: "nests_within JSON_MAX_DEPTH v"
  shows "case v of
      JNull \<Rightarrow> jv_type val = JSON_TYPE_NULL
    | JBool b \<Rightarrow> json_get_bool mem (Some val) = Some b
    | JInt i \<Rightarrow> json_get_int mem (Some val) = Some (sint i)
    | JString t \<Rightarrow> (\<forall>u. json_string_equals mem (Some val) (Some u) \<longleftrightarrow> t = u)
        \<and> (\<forall>buf. length t < length buf \<longrightarrow>
             json_get_string mem (Some val) (Some buf) = (True, Some (t @ CHR 0x00 # drop (length t + 1) buf)))
    | JArray vs \<Rightarrow> json_array_length mem (Some val) = length vs
        \<and> (\<forall>i. if i < length vs then \<exists>e. json_array_at mem (Some val) i = (True, e) \<and> located mem (vs ! i) e
             else json_array_at mem (Some val) i = (False, set_invalid))
        \<and> (\<forall>is k. vs = map JInt is \<and> k \<le> length is \<longrightarrow> json_array_ints mem (Some val) k = map sint (take k is))
    | JObject ms \<Rightarrow> (\<forall>key. case map_of ms key of
          None \<Rightarrow> json_find_in mem (Some val) (Some key) = (False, set_invalid)
        | Some u \<Rightarrow> \<exists>e. json_find_in mem (Some val) (Some key) = (True, e) \<and> located mem u e)"
proof (cases v)
  case (JString t)
  have "json_get_string mem (Some val) (Some buf) = (True, Some (t @ CHR 0x00 # drop (length t + 1) buf))"
    if "length t < length buf" for buf
  proof -
    have "drop (length t) buf = buf ! length t # drop (length t + 1) buf" using that by (simp add: Cons_nth_drop_Suc)
    then have "(blit 0 t buf)[length t := CHR 0x00] = t @ CHR 0x00 # drop (length t + 1) buf"
      by (simp add: blit_def list_update_append)
    with json_get_string_located [of mem t val buf] loc JString that show ?thesis by simp
  qed
  with JString json_string_equals_located loc show ?thesis by simp
next
  case (JArray vs)
  show ?thesis
    using loc n json_array_length_located [of mem vs val] json_array_at_located [of mem vs val]
      json_array_ints_located [of mem _ val] unfolding JArray by auto
next
  case (JObject ms)
  have s: "sits mem (jv_start val) (render (JObject ms))" "jv_length val = length (render (JObject ms))"
    "jv_type val = JSON_TYPE_OBJECT" using loc by (simp_all add: located_def JObject)
  have eq: "json_find_in mem (Some val) (Some key) = json_find_n mem (Some (jv_start val)) (length (render (JObject ms))) (Some key)" for key
    using s(2,3) by (simp add: json_find_in_def)
  show ?thesis unfolding JObject json.case eq using json_find_located [OF s(1) n [unfolded JObject]] by blast
qed (use loc in \<open>simp_all add: located_def json_get_bool_located json_get_int_located\<close>)

lemma json_values_read_back_witness:
  "json_array_ints ''[1,-2]'' (Some \<lparr>jv_type = JSON_TYPE_ARRAY, jv_start = 0, jv_length = 6\<rparr>) 2 = [1, -2]"
proof -
  let ?v = "JArray (map JInt [1, -2])" and ?val = "\<lparr>jv_type = JSON_TYPE_ARRAY, jv_start = 0, jv_length = 6\<rparr>"
  have l: "located ''[1,-2]'' ?v ?val" by code_simp
  have n: "nests_within 16 ?v" by simp
  have s: "map sint (take 2 [1, -2 :: i32]) = [1, -2]" by simp
  from json_values_read_back [OF l n] have "json_array_ints ''[1,-2]'' (Some ?val) 2 = map sint (take 2 [1, -2 :: i32])"
    unfolding json.case by (metis (no_types) length_Cons list.size(3) One_nat_def Suc_1 order_refl)
  then show ?thesis unfolding s .
qed


text \<open>C16: a document cut short yields nothing. If an object starting at the first non-blank character
  of the memory ends at \<open>q\<close>, a search that is given fewer characters than that finds no key at
  all, whichever of them have already arrived.\<close>

theorem json_truncated_object_yields_nothing:
  assumes whole: "skip_container mem (skip_whitespace mem j) 0 = Some q" and cut: "j + n < q"
  shows "json_find_n mem (Some j) n key = (False, set_invalid)"
proof (rule ccontr)
  let ?s = "take (j + n) mem"
  let ?p = "skip_whitespace ?s j"
  assume "json_find_n mem (Some j) n key \<noteq> (False, set_invalid)"
  then have p: "?p < length ?s" and "skip_container ?s ?p 0 \<noteq> None"
    by (auto simp: json_find_n_def Let_def split: option.splits if_splits)
  then obtain r where r: "skip_container ?s ?p 0 = Some r" by auto
  have n: "j + n \<le> length mem" using skip_progress(2) [OF whole] cut by simp
  have w: "skip_whitespace mem j = ?p" using skip_whitespace_cut [of "j + n" mem j] p n by simp
  have "skip_container mem ?p 0 = Some r" using skip_cut(2) [OF r _ n] p n by simp
  then show False using whole w skip_progress(2) [OF r] cut by simp
qed

lemma json_truncated_object_yields_nothing_witness:
  "fst (json_find_n [CHR ''{'', CHR 0x22, CHR ''a'', CHR 0x22, CHR '':'', CHR ''1'', CHR ''}''] (Some 0) 7 (Some ''a''))
    \<and> \<not> fst (json_find_n [CHR ''{'', CHR 0x22, CHR ''a'', CHR 0x22, CHR '':'', CHR ''1'', CHR ''}''] (Some 0) 6 (Some ''a''))"
proof -
  let ?m = "[CHR ''{'', CHR 0x22, CHR ''a'', CHR 0x22, CHR '':'', CHR ''1'', CHR ''}'']"
  have "skip_container ?m (skip_whitespace ?m 0) 0 = Some 7" by code_simp
  from json_truncated_object_yields_nothing [OF this, of 6 "Some ''a''"]
  have "\<not> fst (json_find_n ?m (Some 0) 6 (Some ''a''))" by simp
  moreover have "fst (json_find_n ?m (Some 0) 7 (Some ''a''))" by code_simp
  ultimately show ?thesis by simp
qed


text \<open>A value that a search reports lies inside the document it was given, and is not empty.\<close>

theorem json_find_stays_inside:
  assumes "json_find_n mem (Some j) n key = (True, val)"
  shows "j < jv_start val \<and> jv_start val + jv_length val \<le> min (j + n) (length mem) \<and> 0 < jv_length val"
proof -
  let ?s = "take (j + n) mem"
  let ?p = "skip_whitespace ?s (skip_whitespace ?s j + 1)"
  obtain k where "key = Some k" "find_member ?s ?p k = (True, val)"
    using assms by (auto simp: json_find_n_def Let_def split: option.splits if_splits)
  with find_member_bounds [of ?s ?p k val] skip_whitespace_ge [of j ?s] skip_whitespace_ge [of "skip_whitespace ?s j + 1" ?s]
  show ?thesis by simp
qed

lemma json_find_stays_inside_witness:
  "0 < jv_start (snd (json_find_n [CHR ''{'', CHR 0x22, CHR ''a'', CHR 0x22, CHR '':'', CHR ''1'', CHR ''}''] (Some 0) 7 (Some ''a'')))"
proof -
  let ?m = "[CHR ''{'', CHR 0x22, CHR ''a'', CHR 0x22, CHR '':'', CHR ''1'', CHR ''}'']"
  have "json_find_n ?m (Some 0) 7 (Some ''a'') = (True, \<lparr>jv_type = JSON_TYPE_NUMBER, jv_start = 5, jv_length = 1\<rparr>)" by code_simp
  with json_find_stays_inside [OF this] show ?thesis by simp
qed


text \<open>The comparison without a buffer and the copy into one agree on every escaped string, well
  formed or not: both go by the text it stands for. The copy succeeds exactly when there is such a
  text and it fits with its terminator; the comparison is true exactly when it is the expected one.\<close>

theorem json_strings_agree:
  assumes "jv_type val = JSON_TYPE_STRING" and "2 \<le> jv_length val" and "buf \<noteq> []"
    and body: "body = chunk (jv_start val + 1) (jv_length val - 2) mem"
  shows "(json_string_equals mem (Some val) (Some u) \<longleftrightarrow> decoded body = Some u)
    \<and> (fst (json_get_string mem (Some val) (Some buf)) \<longleftrightarrow> (\<exists>t. decoded body = Some t \<and> length t < length buf))
    \<and> (\<forall>t. decoded body = Some t \<and> length t < length buf \<longrightarrow>
         json_get_string mem (Some val) (Some buf) = (True, Some ((blit 0 t buf)[length t := CHR 0x00])))"
proof -
  obtain b where "unescape body (Some buf) (length buf - 1) =
    (case decoded body of
       Some t \<Rightarrow> if length t \<le> length buf - 1 then (Some (length t), Some (blit 0 t buf)) else (None, Some b)
     | None \<Rightarrow> (None, Some b))"
    using unescape_spec [of "length buf - 1" buf body] by auto
  moreover have "length t \<le> length buf - 1 \<longleftrightarrow> length t < length buf" for t :: string using assms(3) by (cases buf) auto
  moreover have "chunk (Suc (jv_start val)) (jv_length val - 2) mem = body" using body by simp
  ultimately show ?thesis
    using assms(1-3)
    by (cases "decoded body")
      (simp_all add: json_get_string_def json_string_equals_def escaped_equals_decoded Let_def)
qed

lemma json_strings_agree_witness:
  "json_get_string [CHR 0x22, CHR ''a'', CHR 0x5C, CHR ''n'', CHR 0x22]
      (Some \<lparr>jv_type = JSON_TYPE_STRING, jv_start = 0, jv_length = 5\<rparr>) (Some ''xxxx'') = (True, Some [CHR ''a'', CHR 0x0A, CHR 0x00, CHR ''x''])"
proof -
  let ?m = "[CHR 0x22, CHR ''a'', CHR 0x5C, CHR ''n'', CHR 0x22]"
  let ?v = "\<lparr>jv_type = JSON_TYPE_STRING, jv_start = 0, jv_length = 5\<rparr>"
  have d: "decoded (chunk (jv_start ?v + 1) (jv_length ?v - 2) ?m) = Some [CHR ''a'', CHR 0x0A]" by code_simp
  have "jv_type ?v = JSON_TYPE_STRING" "2 \<le> jv_length ?v" "''xxxx'' \<noteq> []" by simp_all
  note agree = json_strings_agree [OF this refl, of ?m, THEN conjunct2, THEN conjunct2, rule_format]
  have t: "length [CHR ''a'', CHR 0x0A] < length ''xxxx''" by simp
  have e: "(blit 0 [CHR ''a'', CHR 0x0A] ''xxxx'')[length [CHR ''a'', CHR 0x0A] := CHR 0x00] = [CHR ''a'', CHR 0x0A, CHR 0x00, CHR ''x'']"
    by (simp add: blit_def)
  show ?thesis using agree [OF conjI [OF d t]] unfolding e .
qed

text \<open>A fraction hides the exponent behind it: \<open>1.5e3\<close> is read as 1, although a number with an
  exponent alone is refused because truncating it would change the value.\<close>

lemma json_get_int_ignores_scaled_exponent:
  "json_get_int ''1.5e3'' (Some \<lparr>jv_type = JSON_TYPE_NUMBER, jv_start = 0, jv_length = 5\<rparr>) = Some 1
    \<and> json_get_int ''15e2'' (Some \<lparr>jv_type = JSON_TYPE_NUMBER, jv_start = 0, jv_length = 4\<rparr>) = None"
proof -
  have d: "is_digit CHR ''1''" "is_digit CHR ''5''" "\<not> is_digit CHR ''.''" "\<not> is_digit CHR ''e''" by code_simp+
  have "get_digits ''1.5e3'' 5 0 0 False = Some (1, 1, True)"
    by (simp add: get_digits.simps [of "''1.5e3''" 5 0] get_digits.simps [of "''1.5e3''" 5 "Suc 0"] d)
  moreover have "get_digits ''15e2'' 4 0 0 False = Some (2, 15, True)"
    by (simp add: get_digits.simps [of "''15e2''" 4 0] get_digits.simps [of "''15e2''" 4 "Suc 0"] get_digits.simps [of "''15e2''" 4 "Suc (Suc 0)"] d)
  ultimately show ?thesis by (simp add: json_get_int_def)
qed

end
