(* ===== verification/Servo_Protocol.thy ===== *)
theory Servo_Protocol
  imports Prelude
begin

text \<open>
  Model of \<open>components/servo_bus/servo_protocol.c\<close>: the packets of Dynamixel Protocol 1.0, their
  checksum, and the byte order of register values.

  An output buffer is the list \<open>out\<close> of exactly \<open>capacity\<close> bytes, \<open>None\<close> for a null pointer, and is
  returned as it is left; \<open>*written\<close> is the last component of a result (what the code stores there
  when the pointer is not null). The pointer \<open>params\<close> of a parsed packet is an offset into the
  caller's data. An array
  on the stack starts as zeros here; only the part written is read. A caller's array is at least as long as the count that goes with it.

  The lemmas show that a built packet is parsed back, that every proper beginning of one asks for
  more bytes, that a packet with one damaged byte after its length is refused, and that values
  survive encoding in either byte order.
\<close>

abbreviation (input) SERVO_PROTOCOL_BROADCAST_ID :: u8 where "SERVO_PROTOCOL_BROADCAST_ID \<equiv> 0xFE"
abbreviation (input) SERVO_PROTOCOL_MAX_PARAMS :: nat where "SERVO_PROTOCOL_MAX_PARAMS \<equiv> 128"
abbreviation (input) HEADER_BYTE :: u8 where "HEADER_BYTE \<equiv> 0xFF"
abbreviation (input) OFFSET_ID :: nat where "OFFSET_ID \<equiv> 2"
abbreviation (input) OFFSET_LENGTH :: nat where "OFFSET_LENGTH \<equiv> 3"
abbreviation (input) OFFSET_INSTRUCTION :: nat where "OFFSET_INSTRUCTION \<equiv> 4"
abbreviation (input) OFFSET_PARAMS :: nat where "OFFSET_PARAMS \<equiv> 5"
abbreviation (input) LENGTH_MINIMUM :: u8 where "LENGTH_MINIMUM \<equiv> 2"
abbreviation (input) SERVO_INST_PING :: u8 where "SERVO_INST_PING \<equiv> 1"
abbreviation (input) SERVO_INST_READ :: u8 where "SERVO_INST_READ \<equiv> 2"
abbreviation (input) SERVO_INST_WRITE :: u8 where "SERVO_INST_WRITE \<equiv> 3"
abbreviation (input) SERVO_INST_SYNC_WRITE :: u8 where "SERVO_INST_SYNC_WRITE \<equiv> 0x83"

datatype servo_protocol_result_t =
    SERVO_PROTOCOL_OK
  | SERVO_PROTOCOL_ERR_INVALID_ARG
  | SERVO_PROTOCOL_ERR_BUFFER_TOO_SMALL
  | SERVO_PROTOCOL_ERR_TOO_MANY_PARAMS
  | SERVO_PROTOCOL_ERR_BAD_HEADER
  | SERVO_PROTOCOL_ERR_INCOMPLETE
  | SERVO_PROTOCOL_ERR_BAD_CHECKSUM

datatype servo_endianness_t = SERVO_ENDIAN_LITTLE | SERVO_ENDIAN_BIG

record servo_status_packet_t =
  sp_id :: u8
  sp_error :: u8
  sp_params :: "nat option"
  sp_param_count :: u8
  sp_packet_size :: nat

record servo_sync_target_t =
  st_id :: u8
  st_value :: u32

subsection \<open>Sizes and checksum\<close>

definition servo_protocol_packet_size :: "u8 \<Rightarrow> nat" where
  "servo_protocol_packet_size param_count = unat param_count + 6"

definition servo_protocol_read_reply_size :: "u8 \<Rightarrow> nat" where
  "servo_protocol_read_reply_size count = servo_protocol_packet_size count"

definition servo_protocol_checksum :: "u8 list \<Rightarrow> u8" where
  "servo_protocol_checksum data = NOT (fold (\<lambda>byte sum. sum + byte) data 0)"

subsection \<open>Values\<close>

definition valid_width :: "u8 \<Rightarrow> bool" where
  "valid_width width \<longleftrightarrow> width = 1 \<or> width = 2 \<or> width = 4"

text \<open>The loop of \<open>servo_protocol_decode_value\<close>, with \<open>n\<close> turns left from index \<open>i\<close>.\<close>

fun decode_bytes_from :: "u8 list \<Rightarrow> nat \<Rightarrow> servo_endianness_t \<Rightarrow> nat \<Rightarrow> nat \<Rightarrow> u32 \<Rightarrow> u32" where
  "decode_bytes_from data width endianness i 0 val = val"
| "decode_bytes_from data width endianness i (Suc n) val =
     (let byte = (if endianness = SERVO_ENDIAN_LITTLE then data ! i else data ! (width - 1 - i)) in
      decode_bytes_from data width endianness (i + 1) n (val OR push_bit (8 * i) (ucast byte)))"

definition servo_protocol_decode_value :: "u8 list option \<Rightarrow> u8 \<Rightarrow> servo_endianness_t \<Rightarrow> u32" where
  "servo_protocol_decode_value data width endianness =
     (case data of
        None \<Rightarrow> 0
      | Some bytes \<Rightarrow>
          if \<not> valid_width width then 0
          else decode_bytes_from bytes (unat width) endianness 0 (unat width) 0)"

text \<open>The loop of \<open>servo_protocol_encode_value\<close>.\<close>

fun encode_bytes_from :: "u8 list \<Rightarrow> u32 \<Rightarrow> nat \<Rightarrow> servo_endianness_t \<Rightarrow> nat \<Rightarrow> nat \<Rightarrow> u8 list" where
  "encode_bytes_from out val width endianness i 0 = out"
| "encode_bytes_from out val width endianness i (Suc n) =
     (let byte = ucast (drop_bit (8 * i) val) in
      encode_bytes_from
        (if endianness = SERVO_ENDIAN_LITTLE then out[i := byte] else out[width - 1 - i := byte])
        val width endianness (i + 1) n)"

definition servo_protocol_encode_value :: "u8 list option \<Rightarrow> u32 \<Rightarrow> u8 \<Rightarrow> servo_endianness_t \<Rightarrow> u8 list option" where
  "servo_protocol_encode_value out val width endianness =
     (case out of
        None \<Rightarrow> None
      | Some bytes \<Rightarrow>
          if \<not> valid_width width then out
          else Some (encode_bytes_from bytes val (unat width) endianness 0 (unat width)))"

subsection \<open>Building packets\<close>

definition servo_protocol_build ::
  "u8 list option \<Rightarrow> u8 \<Rightarrow> u8 \<Rightarrow> u8 list option \<Rightarrow> u8 \<Rightarrow> servo_protocol_result_t \<times> u8 list option \<times> nat" where
  "servo_protocol_build out servo instruction params param_count =
     (if out = None \<or> params = None \<and> 0 < param_count then (SERVO_PROTOCOL_ERR_INVALID_ARG, out, 0)
      else if SERVO_PROTOCOL_MAX_PARAMS < unat param_count then (SERVO_PROTOCOL_ERR_TOO_MANY_PARAMS, out, 0)
      else
        (let buffer = the out;
             size = servo_protocol_packet_size param_count in
         if length buffer < size then (SERVO_PROTOCOL_ERR_BUFFER_TOO_SMALL, out, 0)
         else
           (let buffer = buffer[0 := HEADER_BYTE];
                buffer = buffer[1 := HEADER_BYTE];
                buffer = buffer[OFFSET_ID := servo];
                buffer = buffer[OFFSET_LENGTH := param_count + LENGTH_MINIMUM];
                buffer = buffer[OFFSET_INSTRUCTION := instruction];
                buffer = (if 0 < param_count then blit OFFSET_PARAMS (take (unat param_count) (the params)) buffer else buffer);
                buffer = buffer[size - 1 := servo_protocol_checksum (chunk OFFSET_ID (size - 1 - OFFSET_ID) buffer)] in
            (SERVO_PROTOCOL_OK, Some buffer, size))))"

definition servo_protocol_build_ping :: "u8 list option \<Rightarrow> u8 \<Rightarrow> servo_protocol_result_t \<times> u8 list option \<times> nat" where
  "servo_protocol_build_ping out servo = servo_protocol_build out servo SERVO_INST_PING None 0"

definition servo_protocol_build_read ::
  "u8 list option \<Rightarrow> u8 \<Rightarrow> u8 \<Rightarrow> u8 \<Rightarrow> servo_protocol_result_t \<times> u8 list option \<times> nat" where
  "servo_protocol_build_read out servo reg count =
     (if count = 0 then (SERVO_PROTOCOL_ERR_INVALID_ARG, out, 0)
      else servo_protocol_build out servo SERVO_INST_READ (Some [reg, count]) 2)"

definition servo_protocol_build_write ::
  "u8 list option \<Rightarrow> u8 \<Rightarrow> u8 \<Rightarrow> u8 list option \<Rightarrow> u8 \<Rightarrow> servo_protocol_result_t \<times> u8 list option \<times> nat" where
  "servo_protocol_build_write out servo reg data count =
     (if data = None \<or> count = 0 then (SERVO_PROTOCOL_ERR_INVALID_ARG, out, 0)
      else if SERVO_PROTOCOL_MAX_PARAMS < unat count + 1 then (SERVO_PROTOCOL_ERR_TOO_MANY_PARAMS, out, 0)
      else
        (let params = replicate SERVO_PROTOCOL_MAX_PARAMS 0;
             params = params[0 := reg];
             params = blit 1 (take (unat count) (the data)) params in
         servo_protocol_build out servo SERVO_INST_WRITE (Some params) (count + 1)))"

definition servo_protocol_build_write_value ::
  "u8 list option \<Rightarrow> u8 \<Rightarrow> u8 \<Rightarrow> u32 \<Rightarrow> u8 \<Rightarrow> servo_endianness_t
    \<Rightarrow> servo_protocol_result_t \<times> u8 list option \<times> nat" where
  "servo_protocol_build_write_value out servo reg val width endianness =
     (if \<not> valid_width width then (SERVO_PROTOCOL_ERR_INVALID_ARG, out, 0)
      else
        (let encoded = servo_protocol_encode_value (Some (replicate 4 0)) val width endianness in
         servo_protocol_build_write out servo reg encoded width))"

definition servo_protocol_sync_write_params :: "u8 \<Rightarrow> u8 \<Rightarrow> nat" where
  "servo_protocol_sync_write_params width count = 2 + (unat width + 1) * unat count"

text \<open>The loop over the servos: \<open>params\<close> is the array, \<open>pos\<close> the index \<open>at\<close>. \<open>&params[at]\<close> is the array from there.\<close>

fun sync_write_fill ::
  "servo_sync_target_t list \<Rightarrow> u8 \<Rightarrow> servo_endianness_t \<Rightarrow> u8 list \<Rightarrow> nat \<Rightarrow> u8 list \<times> nat" where
  "sync_write_fill [] width endianness params pos = (params, pos)"
| "sync_write_fill (t # targets) width endianness params pos =
     (let params = params[pos := st_id t];
          pos = pos + 1;
          params = take pos params
            @ the (servo_protocol_encode_value (Some (drop pos params)) (st_value t) width endianness) in
      sync_write_fill targets width endianness params (pos + unat width))"

definition servo_protocol_build_sync_write ::
  "u8 list option \<Rightarrow> u8 \<Rightarrow> u8 \<Rightarrow> servo_sync_target_t list option \<Rightarrow> u8 \<Rightarrow> servo_endianness_t
    \<Rightarrow> servo_protocol_result_t \<times> u8 list option \<times> nat" where
  "servo_protocol_build_sync_write out reg width targets count endianness =
     (if out = None \<or> targets = None \<or> count = 0 then (SERVO_PROTOCOL_ERR_INVALID_ARG, out, 0)
      else if \<not> valid_width width then (SERVO_PROTOCOL_ERR_INVALID_ARG, out, 0)
      else if SERVO_PROTOCOL_MAX_PARAMS < servo_protocol_sync_write_params width count
      then (SERVO_PROTOCOL_ERR_TOO_MANY_PARAMS, out, 0)
      else
        (let params = replicate SERVO_PROTOCOL_MAX_PARAMS 0;
             params = params[0 := reg];
             params = params[1 := width];
             (params, pos) = sync_write_fill (take (unat count) (the targets)) width endianness params 2 in
         servo_protocol_build out SERVO_PROTOCOL_BROADCAST_ID SERVO_INST_SYNC_WRITE (Some params) (word_of_nat pos)))"

subsection \<open>Parsing\<close>

definition servo_status_zero :: servo_status_packet_t where
  "servo_status_zero = \<lparr>sp_id = 0, sp_error = 0, sp_params = None, sp_param_count = 0, sp_packet_size = 0\<rparr>"

text \<open>\<open>data\<close> is the caller's array of exactly \<open>len\<close> bytes.\<close>

definition servo_protocol_parse_status :: "u8 list option \<Rightarrow> servo_protocol_result_t \<times> servo_status_packet_t" where
  "servo_protocol_parse_status data =
     (case data of
        None \<Rightarrow> (SERVO_PROTOCOL_ERR_INVALID_ARG, servo_status_zero)
      | Some bytes \<Rightarrow>
          if length bytes < 2 then (SERVO_PROTOCOL_ERR_INCOMPLETE, servo_status_zero)
          else if bytes ! 0 \<noteq> HEADER_BYTE \<or> bytes ! 1 \<noteq> HEADER_BYTE then (SERVO_PROTOCOL_ERR_BAD_HEADER, servo_status_zero)
          else if length bytes \<le> OFFSET_LENGTH then (SERVO_PROTOCOL_ERR_INCOMPLETE, servo_status_zero)
          else
            (let len = bytes ! OFFSET_LENGTH in
             if len < LENGTH_MINIMUM then (SERVO_PROTOCOL_ERR_BAD_HEADER, servo_status_zero)
             else
               (let param_count = len - LENGTH_MINIMUM in
                if SERVO_PROTOCOL_MAX_PARAMS < unat param_count then (SERVO_PROTOCOL_ERR_TOO_MANY_PARAMS, servo_status_zero)
                else
                  (let size = servo_protocol_packet_size param_count in
                   if length bytes < size then (SERVO_PROTOCOL_ERR_INCOMPLETE, servo_status_zero)
                   else
                     (let expected = servo_protocol_checksum (chunk OFFSET_ID (size - 1 - OFFSET_ID) bytes) in
                      if expected \<noteq> bytes ! (size - 1) then (SERVO_PROTOCOL_ERR_BAD_CHECKSUM, servo_status_zero)
                      else
                        (SERVO_PROTOCOL_OK,
                         \<lparr>sp_id = bytes ! OFFSET_ID, sp_error = bytes ! OFFSET_INSTRUCTION,
                          sp_params = (if 0 < param_count then Some OFFSET_PARAMS else None),
                          sp_param_count = param_count, sp_packet_size = size\<rparr>))))))"

subsection \<open>Names\<close>

fun servo_protocol_result_name :: "servo_protocol_result_t \<Rightarrow> string" where
  "servo_protocol_result_name SERVO_PROTOCOL_OK = ''ok''"
| "servo_protocol_result_name SERVO_PROTOCOL_ERR_INVALID_ARG = ''invalid argument''"
| "servo_protocol_result_name SERVO_PROTOCOL_ERR_BUFFER_TOO_SMALL = ''buffer too small''"
| "servo_protocol_result_name SERVO_PROTOCOL_ERR_TOO_MANY_PARAMS = ''too many parameters''"
| "servo_protocol_result_name SERVO_PROTOCOL_ERR_BAD_HEADER = ''bad header''"
| "servo_protocol_result_name SERVO_PROTOCOL_ERR_INCOMPLETE = ''incomplete''"
| "servo_protocol_result_name SERVO_PROTOCOL_ERR_BAD_CHECKSUM = ''bad checksum''"

definition error_flags :: "(u8 \<times> string) list" where
  "error_flags = [(1, ''voltage''), (2, ''angle limit''), (4, ''overheating''), (8, ''range''), (16, ''checksum''),
     (32, ''overload''), (64, ''instruction'')]"

text \<open>The loop over the flags; the result is the buffer and \<open>used\<close>.\<close>

fun describe_flags :: "u8 \<Rightarrow> (u8 \<times> string) list \<Rightarrow> string \<Rightarrow> nat \<Rightarrow> string \<times> nat" where
  "describe_flags error [] buffer used = (buffer, used)"
| "describe_flags error ((flag, name) # flags) buffer used =
     (if error AND flag = 0 then describe_flags error flags buffer used
      else
        (let separator = (if 0 < used then '', '' else []);
             needed = length separator + length name in
         if length buffer < used + needed + 1 then (buffer, used)
         else
           (let buffer = blit used separator buffer;
                used = used + length separator;
                buffer = blit used name buffer;
                used = used + length name;
                buffer = buffer[used := CHR 0x00] in
            describe_flags error flags buffer used)))"

definition servo_protocol_describe_error :: "u8 \<Rightarrow> string option \<Rightarrow> string option" where
  "servo_protocol_describe_error error out =
     (case out of
        None \<Rightarrow> None
      | Some buffer \<Rightarrow>
          if buffer = [] then out
          else
            (case describe_flags error error_flags (buffer[0 := CHR 0x00]) 0 of
               (buffer, used) \<Rightarrow>
                 if used = 0
                 then (let len = (if length ''none'' + 1 \<le> length buffer then length ''none'' else length buffer - 1) in
                       Some ((blit 0 (take len ''none'') buffer)[len := CHR 0x00]))
                 else Some buffer))"

subsection \<open>The checksum\<close>

lemma fold_plus: "fold (\<lambda>byte sum. sum + byte) xs (s :: u8) = s + sum_list xs"
  by (induction xs arbitrary: s) (simp_all add: ac_simps)

lemma checksum_eq: "servo_protocol_checksum xs = NOT (sum_list xs)"
  by (simp add: servo_protocol_checksum_def fold_plus)

text \<open>A change of one byte changes the checksum.\<close>

lemma checksum_update:
  assumes "i < length xs" and "v \<noteq> xs ! i"
  shows "servo_protocol_checksum (xs[i := v]) \<noteq> servo_protocol_checksum xs"
  using assms by (simp add: checksum_eq sum_list_replace)

subsection \<open>The bytes of a packet\<close>

text \<open>The packet with \<open>ps\<close> as parameters.\<close>

definition packet_body :: "u8 \<Rightarrow> u8 \<Rightarrow> u8 list \<Rightarrow> u8 list" where
  "packet_body servo instruction ps = [servo, word_of_nat (length ps) + 2, instruction] @ ps"

definition packet_bytes :: "u8 \<Rightarrow> u8 \<Rightarrow> u8 list \<Rightarrow> u8 list" where
  "packet_bytes servo instruction ps =
     [0xFF, 0xFF] @ packet_body servo instruction ps @ [servo_protocol_checksum (packet_body servo instruction ps)]"

lemma length_packet_bytes [simp]: "length (packet_bytes servo instruction ps) = length ps + 6"
  by (simp add: packet_bytes_def packet_body_def)

lemma build_spec:
  assumes "unat n \<le> SERVO_PROTOCOL_MAX_PARAMS" and "unat n + 6 \<le> length buf"
    and "0 < n \<Longrightarrow> \<exists>xs. params = Some xs \<and> unat n \<le> length xs \<and> ps = take (unat n) xs" and "n = 0 \<Longrightarrow> ps = []"
  shows "servo_protocol_build (Some buf) servo instruction params n =
    (SERVO_PROTOCOL_OK, Some (blit 0 (packet_bytes servo instruction ps) buf), unat n + 6)"
proof -
  obtain a b c d e rest where "buf = a # b # c # d # e # rest" and rest: "unat n < length rest"
  proof -
    have "6 \<le> length buf" using assms(2) by simp
    then obtain a b c d e rest where buf: "buf = a # b # c # d # e # rest"
      by (cases buf; cases "tl buf"; cases "tl (tl buf)"; cases "tl (tl (tl buf))"; cases "tl (tl (tl (tl buf)))") auto
    with assms(2) that show ?thesis by simp
  qed
  then have buf: "buf[0 := 0xFF, 1 := 0xFF, 2 := servo, 3 := n + 2, 4 := instruction] = [0xFF, 0xFF, servo, n + 2, instruction] @ rest"
    and b0: "length buf = length rest + 5" "drop (unat n + 6) buf = drop (Suc (unat n)) rest"
    by (simp_all add: numeral_eq_Suc)
  have lps: "length ps = unat n"
    using assms(3,4) by (cases "n = 0") (auto simp: word_neq_0_conv)
  have par: "(if 0 < n then blit 5 (take (unat n) (the params)) ([0xFF, 0xFF, servo, n + 2, instruction] @ rest)
      else [0xFF, 0xFF, servo, n + 2, instruction] @ rest)
    = [0xFF, 0xFF, servo, n + 2, instruction] @ ps @ drop (unat n) rest"
    using assms(3,4) lps by (cases "n = 0") (auto simp: blit_def word_neq_0_conv numeral_eq_Suc)
  have n': "word_of_nat (unat n) = n" by simp
  have c: "chunk 2 (unat n + 3) ([0xFF, 0xFF, servo, n + 2, instruction] @ ps @ drop (unat n) rest) = packet_body servo instruction ps"
    using lps by (simp add: chunk_def packet_body_def numeral_eq_Suc)
  have u: "([0xFF, 0xFF, servo, n + 2, instruction] @ ps @ drop (unat n) rest)[unat n + 5 := x]
      = [0xFF, 0xFF, servo, n + 2, instruction] @ ps @ [x] @ drop (Suc (unat n)) rest" for x
  proof -
    have "drop (unat n) rest = rest ! unat n # drop (Suc (unat n)) rest" using rest by (simp add: Cons_nth_drop_Suc)
    with lps list_update_length [of "[0xFF, 0xFF, servo, n + 2, instruction] @ ps" "rest ! unat n" "drop (Suc (unat n)) rest" x]
    show ?thesis by (simp add: numeral_eq_Suc)
  qed
  have b: "servo_protocol_build (Some buf) servo instruction params n =
      (SERVO_PROTOCOL_OK,
       Some (([0xFF, 0xFF, servo, n + 2, instruction] @ ps @ drop (unat n) rest)
         [unat n + 6 - 1 := servo_protocol_checksum
            (chunk 2 (unat n + 6 - 1 - 2) ([0xFF, 0xFF, servo, n + 2, instruction] @ ps @ drop (unat n) rest))]),
       unat n + 6)"
  proof -
    have "\<not> (Some buf = None \<or> params = None \<and> 0 < n)" "\<not> 128 < unat n" "\<not> length buf < unat n + 6"
      using assms by auto
    then show ?thesis
      by (simp only: servo_protocol_build_def Let_def servo_protocol_packet_size_def option.sel if_False buf par)
  qed
  have ar: "unat n + 6 - 1 = unat n + 5" "unat n + 5 - 2 = unat n + 3" by simp_all
  have bl: "blit 0 (packet_bytes servo instruction ps) buf
      = [0xFF, 0xFF, servo, n + 2, instruction] @ ps @ [servo_protocol_checksum (packet_body servo instruction ps)]
        @ drop (Suc (unat n)) rest"
    using lps b0(2) unfolding blit_def length_packet_bytes add_0 take_0 append_Nil lps b0(2)
    by (simp add: packet_bytes_def packet_body_def lps)
  show ?thesis unfolding b ar c u bl by simp
qed

subsection \<open>Parsing a packet\<close>

text \<open>The decision of the parser on bytes that begin with a header and a length byte \<open>n + 2\<close>.\<close>

lemma parse_header:
  assumes "bytes = [0xFF, 0xFF, servo, n + 2, instruction] @ rest" and "unat n \<le> SERVO_PROTOCOL_MAX_PARAMS"
  shows "servo_protocol_parse_status (Some bytes) =
    (if length rest < unat n + 1 then (SERVO_PROTOCOL_ERR_INCOMPLETE, servo_status_zero)
     else if servo_protocol_checksum ([servo, n + 2, instruction] @ take (unat n) rest) \<noteq> rest ! unat n
     then (SERVO_PROTOCOL_ERR_BAD_CHECKSUM, servo_status_zero)
     else (SERVO_PROTOCOL_OK,
       \<lparr>sp_id = servo, sp_error = instruction, sp_params = (if 0 < n then Some 5 else None), sp_param_count = n,
        sp_packet_size = unat n + 6\<rparr>))"
proof -
  have n2: "\<not> n + 2 < 2" "n + 2 - 2 = n"
  proof -
    have "unat (n + 2) = unat n + 2" using assms(2) by (simp add: unat_word_ariths)
    then show "\<not> n + 2 < 2" by (simp add: word_less_nat_alt)
  qed simp
  have c: "chunk 2 (3 + unat n) bytes = [servo, n + 2, instruction] @ take (unat n) rest"
    by (simp add: assms(1) chunk_def numeral_eq_Suc)
  have l: "bytes ! (5 + unat n) = rest ! unat n" by (simp add: assms(1) nth_append)
  have e: "length bytes = length rest + 5" "bytes ! 0 = 0xFF" "bytes ! Suc 0 = 0xFF" "bytes ! 2 = servo" "bytes ! 3 = n + 2"
    "bytes ! 4 = instruction" by (simp_all add: assms(1))
  show ?thesis
    using assms(2) n2
    by (simp add: servo_protocol_parse_status_def e Let_def servo_protocol_packet_size_def c l)
qed

text \<open>The start of a packet, of any length.\<close>

lemma packet_split:
  assumes "length ps \<le> SERVO_PROTOCOL_MAX_PARAMS"
  shows "packet_bytes servo instruction ps @ tail
      = [0xFF, 0xFF, servo, word_of_nat (length ps) + 2, instruction]
        @ ps @ servo_protocol_checksum (packet_body servo instruction ps) # tail"
    and "unat (word_of_nat (length ps) :: u8) = length ps"
  using assms by (simp_all add: packet_bytes_def packet_body_def unat_of_nat_lt)

lemma parse_packet:
  assumes "length ps \<le> SERVO_PROTOCOL_MAX_PARAMS"
  shows "servo_protocol_parse_status (Some (packet_bytes servo instruction ps @ tail)) =
    (SERVO_PROTOCOL_OK,
     \<lparr>sp_id = servo, sp_error = instruction, sp_params = (if ps = [] then None else Some 5),
      sp_param_count = word_of_nat (length ps), sp_packet_size = length ps + 6\<rparr>)"
proof -
  note s = packet_split [OF assms]
  have z: "0 < (word_of_nat (length ps) :: u8) \<longleftrightarrow> ps \<noteq> []"
    using s(2) by (simp add: word_less_nat_alt)
  show ?thesis
    using assms s(2) z
    by (simp add: parse_header [OF s(1), unfolded s(2)] packet_body_def nth_append)
qed

lemma parse_prefix:
  assumes "length ps \<le> SERVO_PROTOCOL_MAX_PARAMS" and "k < length ps + 6"
  shows "servo_protocol_parse_status (Some (take k (packet_bytes servo instruction ps))) = (SERVO_PROTOCOL_ERR_INCOMPLETE, servo_status_zero)"
proof (cases "k \<le> 4")
  case True
  then consider "k < 2" | "k = 2 \<or> k = 3" | "k = 4" by fastforce
  then show ?thesis
  proof cases
    case 1
    then show ?thesis by (simp add: servo_protocol_parse_status_def)
  next
    case 2
    then show ?thesis
      by (auto simp: servo_protocol_parse_status_def packet_bytes_def packet_body_def numeral_eq_Suc)
  next
    case 3
    let ?n = "word_of_nat (length ps) :: u8"
    have n: "unat ?n = length ps" by (rule packet_split(2) [OF assms(1)])
    have "unat (?n + 2) = unat ?n + 2" using assms(1) n by (simp add: unat_word_ariths)
    then have n2: "\<not> ?n + 2 < 2" by (simp add: word_less_nat_alt)
    have t: "take k (packet_bytes servo instruction ps) = [0xFF, 0xFF, servo, ?n + 2]"
      using 3 by (simp add: packet_bytes_def packet_body_def)
    show ?thesis
      using n2 n assms(1) unfolding t
      by (simp add: servo_protocol_parse_status_def Let_def servo_protocol_packet_size_def)
  qed
next
  case False
  note s = packet_split(1) [OF assms(1), where tail = "[]"] packet_split(2) [OF assms(1)]
  have "take k (packet_bytes servo instruction ps) = [0xFF, 0xFF, servo, word_of_nat (length ps) + 2, instruction]
      @ take (k - 5) (ps @ [servo_protocol_checksum (packet_body servo instruction ps)])"
  proof -
    have k: "k = Suc (Suc (Suc (Suc (Suc (k - 5)))))" using False by simp
    show ?thesis by (subst k) (use s(1) in simp)
  qed
  moreover have "k - 5 < Suc (length ps)" using assms(2) False by linarith
  ultimately show ?thesis using parse_header [of "take k (packet_bytes servo instruction ps)"] s(2) assms(1) by simp
qed

subsection \<open>Register values\<close>

definition value_bytes :: "u8 \<Rightarrow> servo_endianness_t \<Rightarrow> u32 \<Rightarrow> u8 list" where
  "value_bytes width endianness val =
     (let bytes = take (unat width) (le32 val) in if endianness = SERVO_ENDIAN_LITTLE then bytes else rev bytes)"

lemma unat_width: "valid_width w \<Longrightarrow> unat w = 1 \<or> unat w = 2 \<or> unat w = 4"
  by (auto simp: valid_width_def)

lemma length_value_bytes: "valid_width w \<Longrightarrow> length (value_bytes w e val) = unat w"
  using unat_width [of w] by (auto simp: value_bytes_def Let_def)

lemma encode_value_blit:
  assumes "valid_width w" and "unat w \<le> length out"
  shows "servo_protocol_encode_value (Some out) val w e = Some (blit 0 (value_bytes w e val) out)"
proof -
  have le: "le32 val = [ucast val, ucast (drop_bit 8 val), ucast (drop_bit 16 val), ucast (drop_bit 24 val)]"
    by (simp add: le32_def)
  consider "unat w = 1" | "unat w = 2" | "unat w = 4" using unat_width [OF assms(1)] by blast
  then show ?thesis
  proof cases
    case 1
    with assms show ?thesis
      by (cases out; cases e) (simp_all add: servo_protocol_encode_value_def value_bytes_def le blit_def numeral_eq_Suc)
  next
    case 2
    with assms show ?thesis
      by (cases out; cases "tl out"; cases e)
        (simp_all add: servo_protocol_encode_value_def value_bytes_def le blit_def numeral_eq_Suc Let_def)
  next
    case 3
    with assms obtain a b c d rest where "out = a # b # c # d # rest"
      by (cases out; cases "tl out"; cases "tl (tl out)"; cases "tl (tl (tl out))") auto
    with 3 assms show ?thesis
      by (cases e) (simp_all add: servo_protocol_encode_value_def value_bytes_def le blit_def numeral_eq_Suc Let_def)
  qed
qed

lemma bit_byte: "bit (ucast (ucast (drop_bit n (v :: u32)) :: u8) :: u32) k \<longleftrightarrow> k < 8 \<and> bit v (n + k)"
  by (auto simp: bit_simps dest: bit_imp_le_length)

lemma decode_bytes_numeral:
  "decode_bytes_from data w e i (numeral k) val =
    decode_bytes_from data w e (i + 1) (pred_numeral k)
      (val OR push_bit (8 * i) (ucast (if e = SERVO_ENDIAN_LITTLE then data ! i else data ! (w - 1 - i))))"
  by (simp add: numeral_eq_Suc Let_def)

lemma decode_value_bytes:
  assumes "valid_width w"
  shows "servo_protocol_decode_value (Some (value_bytes w e val @ rest)) w e = take_bit (8 * unat w) val"
proof -
  have le: "le32 val = [ucast val, ucast (drop_bit 8 val), ucast (drop_bit 16 val), ucast (drop_bit 24 val)]"
    by (simp add: le32_def)
  have b1: "(ucast (ucast val :: u8) :: u32) = take_bit 8 val"
    by (rule bit_word_eqI) (auto simp: bit_simps)
  have b2: "take_bit 8 val OR push_bit 8 (ucast (ucast (drop_bit 8 val) :: u8)) = take_bit 16 val"
    by (rule bit_word_eqI) (auto simp: bit_simps not_less)
  have b3: "take_bit 16 val OR push_bit 16 (ucast (ucast (drop_bit 16 val) :: u8)) = take_bit 24 val"
    by (rule bit_word_eqI) (auto simp: bit_simps not_less)
  have b4: "take_bit 24 val OR push_bit 24 (ucast (ucast (drop_bit 24 val) :: u8)) = take_bit 32 val"
    by (rule bit_word_eqI) (auto simp: bit_simps not_less)
  consider "unat w = 1" | "unat w = 2" | "unat w = 4" using unat_width [OF assms(1)] by blast
  then show ?thesis
  proof cases
    case 1
    with assms show ?thesis
      by (cases e) (simp_all add: servo_protocol_decode_value_def value_bytes_def le Let_def b1)
  next
    case 2
    with assms show ?thesis
      by (cases e) (simp_all add: servo_protocol_decode_value_def value_bytes_def le decode_bytes_numeral b1 b2)
  next
    case 3
    have "take_bit 32 val = val" by (rule bit_word_eqI) (auto simp: bit_simps dest: bit_imp_le_length)
    with 3 assms b4 show ?thesis
      by (cases e) (simp_all add: servo_protocol_decode_value_def value_bytes_def le decode_bytes_numeral b1 b2 b3)
  qed
qed

subsection \<open>A write to many servos\<close>

text \<open>A target's share of the parameters, and all of them.\<close>

definition target_bytes :: "u8 \<Rightarrow> servo_endianness_t \<Rightarrow> servo_sync_target_t \<Rightarrow> u8 list" where
  "target_bytes w e t = st_id t # value_bytes w e (st_value t)"

lemma sync_write_fill_spec:
  assumes "valid_width w" and "pos + length targets * (unat w + 1) \<le> length params"
  shows "sync_write_fill targets w e params pos =
    (blit pos (concat (map (target_bytes w e) targets)) params, pos + length targets * (unat w + 1))"
  using assms(2)
proof (induction targets arbitrary: params pos)
  case (Cons t targets)
  let ?n = "unat w + 1"
  let ?vb = "value_bytes w e (st_value t)"
  have room: "pos + ?n + length targets * ?n \<le> length params" using Cons.prems by simp
  have lv: "length ?vb = unat w" by (rule length_value_bytes [OF assms(1)])
  have enc: "servo_protocol_encode_value (Some (drop (pos + 1) (params[pos := st_id t]))) (st_value t) w e
      = Some (blit 0 ?vb (drop (pos + 1) (params[pos := st_id t])))"
    using room by (intro encode_value_blit [OF assms(1)]) simp
  have one: "take (pos + 1) (params[pos := st_id t]) @ blit 0 ?vb (drop (pos + 1) (params[pos := st_id t]))
      = blit pos (target_bytes w e t) params"
    using room lv by (simp add: blit_def target_bytes_def take_Suc_conv_app_nth drop_drop add.commute)
  have "sync_write_fill targets w e (blit pos (target_bytes w e t) params) (pos + 1 + unat w)
      = (blit (pos + 1 + unat w) (concat (map (target_bytes w e) targets)) (blit pos (target_bytes w e t) params),
         pos + 1 + unat w + length targets * ?n)"
    using room lv by (intro Cons.IH) (simp add: target_bytes_def)
  moreover have "blit (pos + 1 + unat w) (concat (map (target_bytes w e) targets)) (blit pos (target_bytes w e t) params)
      = blit pos (concat (map (target_bytes w e) (t # targets))) params"
  proof -
    have "length (concat (map (target_bytes w e) targets)) = length targets * ?n"
      by (induction targets) (simp_all add: target_bytes_def length_value_bytes [OF assms(1)])
    then show ?thesis
      using room lv blit_after_blit [of pos "target_bytes w e t" "concat (map (target_bytes w e) targets)" params]
      by (simp add: target_bytes_def add.assoc)
  qed
  ultimately show ?case
    by (simp only: sync_write_fill.simps Let_def enc option.sel one) (simp add: algebra_simps)
qed (simp add: blit_def)

text \<open>Where the share of the \<open>k\<close>th target is.\<close>

lemma drop_concat_targets:
  assumes "valid_width w" and "k < length targets"
  shows "drop (k * (unat w + 1)) (concat (map (target_bytes w e) targets)) =
    target_bytes w e (targets ! k) @ concat (map (target_bytes w e) (drop (Suc k) targets))"
  using assms(2)
proof (induction targets arbitrary: k)
  case (Cons t targets)
  have l: "length (target_bytes w e t) = unat w + 1"
    by (simp add: target_bytes_def length_value_bytes [OF assms(1)])
  show ?case
  proof (cases k)
    case (Suc m)
    with Cons l show ?thesis by simp
  qed simp
qed simp

lemma length_concat_targets:
  assumes "valid_width w"
  shows "length (concat (map (target_bytes w e) targets)) = length targets * (unat w + 1)"
  by (induction targets) (simp_all add: target_bytes_def length_value_bytes [OF assms])

subsection \<open>Properties\<close>

text \<open>A packet survives the wire. Whatever servo, instruction and parameters a packet is built
  from, and whatever bytes follow it in the receive buffer, parsing gives them back: the
  identifier, the instruction or error byte, the number of parameters, where they are, and how
  many bytes to advance.\<close>

theorem servo_packet_roundtrip:
  assumes "length ps \<le> 128" and "length ps + 6 \<le> length buf"
  shows "\<exists>packet. servo_protocol_build (Some buf) servo instruction (Some ps) (word_of_nat (length ps))
        = (SERVO_PROTOCOL_OK, Some (blit 0 packet buf), length packet)
    \<and> servo_protocol_parse_status (Some (packet @ tail)) =
      (SERVO_PROTOCOL_OK,
       \<lparr>sp_id = servo, sp_error = instruction, sp_params = (if ps = [] then None else Some 5),
        sp_param_count = word_of_nat (length ps), sp_packet_size = length packet\<rparr>)
    \<and> chunk 5 (length ps) packet = ps"
proof -
  have n: "unat (word_of_nat (length ps) :: u8) = length ps" by (rule packet_split(2) [OF assms(1)])
  have "servo_protocol_build (Some buf) servo instruction (Some ps) (word_of_nat (length ps))
      = (SERVO_PROTOCOL_OK, Some (blit 0 (packet_bytes servo instruction ps) buf), length ps + 6)"
    using build_spec [of "word_of_nat (length ps)" buf "Some ps" ps servo instruction] assms n
    by (auto simp: word_eq_unat_iff)
  moreover have "chunk 5 (length ps) (packet_bytes servo instruction ps) = ps"
    by (simp add: chunk_def packet_bytes_def packet_body_def)
  ultimately show ?thesis using parse_packet [OF assms(1), of servo instruction tail] by auto
qed

lemma servo_packet_roundtrip_witness:
  "\<exists>packet. servo_protocol_build (Some (replicate 10 0)) 7 3 (Some [30, 0, 2]) 3 = (SERVO_PROTOCOL_OK, Some (blit 0 packet (replicate 10 0)), length packet)
    \<and> fst (servo_protocol_parse_status (Some (packet @ [1]))) = SERVO_PROTOCOL_OK"
proof -
  have l: "length [30, 0, 2 :: u8] \<le> 128" "length [30, 0, 2 :: u8] + 6 \<le> length (replicate 10 (0 :: u8))" by simp_all
  have n: "word_of_nat (length [30, 0, 2 :: u8]) = (3 :: u8)" by simp
  from servo_packet_roundtrip [OF l, of 7 3 "[1]"] show ?thesis unfolding n by auto
qed

text \<open>A receiver that reads byte by byte is never misled. Every proper beginning of a packet, from
  no byte at all to all but the last, is reported as incomplete: never as an error that would
  make the receiver give up, and never as a packet.\<close>

theorem servo_partial_packet_waits:
  assumes "length ps \<le> 128" and "length ps + 6 \<le> length buf"
    and "servo_protocol_build (Some buf) servo instruction (Some ps) (word_of_nat (length ps)) = (SERVO_PROTOCOL_OK, Some out, written)"
    and "k < written"
  shows "servo_protocol_parse_status (Some (take k out)) = (SERVO_PROTOCOL_ERR_INCOMPLETE, servo_status_zero)"
proof -
  have n: "unat (word_of_nat (length ps) :: u8) = length ps" by (rule packet_split(2) [OF assms(1)])
  have "out = blit 0 (packet_bytes servo instruction ps) buf \<and> written = length ps + 6"
    using build_spec [of "word_of_nat (length ps)" buf "Some ps" ps servo instruction] assms n
    by (auto simp: word_eq_unat_iff)
  with assms(4) have "take k out = take k (packet_bytes servo instruction ps)" "k < length ps + 6" by (simp_all add: blit_def)
  then show ?thesis using parse_prefix [OF assms(1)] by simp
qed

lemma servo_partial_packet_waits_witness:
  "fst (servo_protocol_parse_status (Some [0xFF, 0xFF, 7, 2])) = SERVO_PROTOCOL_ERR_INCOMPLETE"
proof -
  have b: "servo_protocol_build (Some (replicate 6 0)) 7 1 (Some []) (word_of_nat (length [])) =
      (SERVO_PROTOCOL_OK, Some [0xFF, 0xFF, 7, 2, 1, 0xF5], 6)"
    by code_simp
  have l: "length ([] :: u8 list) \<le> 128" "length ([] :: u8 list) + 6 \<le> length (replicate 6 (0 :: u8))" "4 < (6 :: nat)" by simp_all
  have t: "take 4 [0xFF, 0xFF, 7, 2, 1, 0xF5 :: u8] = [0xFF, 0xFF, 7, 2]" by simp
  from servo_partial_packet_waits [OF l(1,2) b l(3)] show ?thesis unfolding t by simp
qed

text \<open>A packet with one damaged byte is refused. Changing any byte of a built packet other than the
  length byte, be it the header, the identifier, the instruction, a parameter or the checksum, makes
  the parser reject it.\<close>

theorem servo_damaged_packet_refused:
  assumes "length ps \<le> 128" and "length ps + 6 \<le> length buf"
    and "servo_protocol_build (Some buf) servo instruction (Some ps) (word_of_nat (length ps)) = (SERVO_PROTOCOL_OK, Some out, written)"
    and "i < written" and "i \<noteq> 3" and "v \<noteq> out ! i"
  shows "servo_protocol_parse_status (Some (take written (out[i := v]) @ tail))
    = (if i < 2 then SERVO_PROTOCOL_ERR_BAD_HEADER else SERVO_PROTOCOL_ERR_BAD_CHECKSUM, servo_status_zero)"
proof -
  let ?n = "word_of_nat (length ps) :: u8" and ?ck = "servo_protocol_checksum (packet_body servo instruction ps)"
  let ?p = "packet_bytes servo instruction ps"
  have n: "unat ?n = length ps" by (rule packet_split(2) [OF assms(1)])
  have out: "out = blit 0 ?p buf" "written = length ps + 6"
    using build_spec [of ?n buf "Some ps" ps servo instruction] assms(1-3) n by (auto simp: word_eq_unat_iff)
  have t: "take written (out[i := v]) = ?p[i := v]" and v: "v \<noteq> ?p ! i"
    using assms(4,6) by (simp_all add: out blit_def list_update_append nth_append)
  have p: "?p = [0xFF, 0xFF, servo, ?n + 2, instruction] @ ps @ [?ck]" by (simp add: packet_bytes_def packet_body_def)
  consider "i < 2" | "i = 2" | "i = 4" | j where "i = 5 + j" "j < length ps" | "i = 5 + length ps"
  proof (cases "5 \<le> i")
    case True
    then obtain j where "i = 5 + j" using le_Suc_ex by blast
    with assms(4) out(2) that show ?thesis by (cases "j < length ps") auto
  next
    case False
    with assms(5) have "i < 2 \<or> i = 2 \<or> i = 4" by linarith
    with that show ?thesis by blast
  qed
  then show ?thesis
  proof cases
    case 1
    then have "i = 0 \<or> i = 1" by auto
    with v show ?thesis unfolding t by (auto simp: p servo_protocol_parse_status_def)
  next
    case 2
    then have "?p[i := v] @ tail = [0xFF, 0xFF, v, ?n + 2, instruction] @ ps @ ?ck # tail" by (simp add: p)
    from parse_header [OF this] n assms(1) v 2 show ?thesis
      unfolding t by (auto simp: p checksum_eq packet_body_def)
  next
    case 3
    then have "?p[i := v] @ tail = [0xFF, 0xFF, servo, ?n + 2, v] @ ps @ ?ck # tail" by (simp add: p)
    from parse_header [OF this] n assms(1) v 3 show ?thesis
      unfolding t by (auto simp: p checksum_eq packet_body_def)
  next
    case (4 j)
    then have e: "?p[i := v] @ tail = [0xFF, 0xFF, servo, ?n + 2, instruction] @ ps[j := v] @ ?ck # tail"
      by (simp add: p list_update_append numeral_eq_Suc)
    have "v \<noteq> ps ! j" using v 4 by (simp add: p nth_append)
    with 4(2) have "sum_list (ps[j := v]) \<noteq> sum_list ps" by (simp add: sum_list_replace)
    with parse_header [OF e] n assms(1) 4 show ?thesis
      unfolding t by (auto simp: checksum_eq packet_body_def nth_append)
  next
    case 5
    then have e: "?p[i := v] @ tail = [0xFF, 0xFF, servo, ?n + 2, instruction] @ ps @ v # tail"
      by (simp add: p list_update_append numeral_eq_Suc)
    have "v \<noteq> ?ck" using v 5 by (simp add: p nth_append)
    with parse_header [OF e] n assms(1) 5 show ?thesis
      unfolding t by (auto simp: packet_body_def nth_append)
  qed
qed

lemma servo_damaged_packet_refused_witness:
  "fst (servo_protocol_parse_status (Some [0xFF, 0xFF, 6, 2, 1, 0xF5])) = SERVO_PROTOCOL_ERR_BAD_CHECKSUM"
proof -
  have b: "servo_protocol_build (Some (replicate 6 0)) 7 1 (Some []) (word_of_nat (length [])) =
      (SERVO_PROTOCOL_OK, Some [0xFF, 0xFF, 7, 2, 1, 0xF5], 6)"
    by code_simp
  have l: "length ([] :: u8 list) \<le> 128" "length ([] :: u8 list) + 6 \<le> length (replicate 6 (0 :: u8))" by simp_all
  have i: "2 < (6 :: nat)" "2 \<noteq> (3 :: nat)" "(6 :: u8) \<noteq> [0xFF, 0xFF, 7, 2, 1, 0xF5] ! 2" by simp_all
  have t: "take 6 ([0xFF, 0xFF, 7, 2, 1, 0xF5][2 := 6]) @ [] = [0xFF, 0xFF, 6, 2, 1, 0xF5 :: u8]" by simp
  from servo_damaged_packet_refused [OF l b i, of "[]"] show ?thesis unfolding t by simp
qed

text \<open>Register values survive either byte order. Encoding a value into 1, 2 or 4 bytes and decoding
  them with the same byte order gives the value, reduced to that width, and writes nothing beyond
  the bytes of the value.\<close>

theorem servo_value_roundtrip:
  assumes "valid_width w" and "unat w \<le> length out"
  shows "\<exists>bytes. servo_protocol_encode_value (Some out) val w e = Some bytes \<and> length bytes = length out
    \<and> servo_protocol_decode_value (Some bytes) w e = take_bit (8 * unat w) val
    \<and> drop (unat w) bytes = drop (unat w) out"
  using encode_value_blit [OF assms] decode_value_bytes [OF assms(1), of e val "drop (unat w) out"]
    length_value_bytes [OF assms(1), of e val] assms(2)
  by (simp add: blit_def)

lemma servo_value_roundtrip_witness:
  "servo_protocol_decode_value (servo_protocol_encode_value (Some [0, 0, 9]) 0x1FF 2 SERVO_ENDIAN_BIG) 2 SERVO_ENDIAN_BIG = 0x1FF"
proof -
  have "valid_width 2" "unat (2 :: u8) \<le> length [0, 0, 9 :: u8]" by (simp_all add: valid_width_def)
  from servo_value_roundtrip [OF this, of "0x1FF" SERVO_ENDIAN_BIG] show ?thesis by auto
qed

text \<open>A synchronised write reaches every servo with its own value. Whenever the parameters fit a
  packet, the call succeeds, the packet is addressed to all servos, parses, starts with the
  register and the width, and holds for each target in turn its identifier followed by its value.\<close>

theorem servo_sync_write_carries_all:
  assumes w: "valid_width w" and t: "targets \<noteq> []" and fits: "2 + (unat w + 1) * length targets \<le> 128"
    and room: "2 + (unat w + 1) * length targets + 6 \<le> length buf"
  shows "\<exists>packet status. servo_protocol_build_sync_write (Some buf) reg w (Some targets) (word_of_nat (length targets)) e
        = (SERVO_PROTOCOL_OK, Some (blit 0 packet buf), length packet)
    \<and> servo_protocol_parse_status (Some packet) = (SERVO_PROTOCOL_OK, status)
    \<and> sp_id status = 0xFE \<and> sp_error status = 0x83 \<and> chunk 5 2 packet = [reg, w]
    \<and> (\<forall>k < length targets. packet ! (7 + k * (unat w + 1)) = st_id (targets ! k)
        \<and> servo_protocol_decode_value (Some (drop (8 + k * (unat w + 1)) packet)) w e
          = take_bit (8 * unat w) (st_value (targets ! k)))"
proof -
  let ?c = "concat (map (target_bytes w e) targets)"
  let ?ps = "[reg, w] @ ?c" and ?n = "2 + (unat w + 1) * length targets"
  have "1 * length targets \<le> (unat w + 1) * length targets" by (rule mult_le_mono1) simp
  then have "length targets \<le> 128" using fits by linarith
  then have count: "unat (word_of_nat (length targets) :: u8) = length targets" by (simp add: unat_of_nat_lt)
  have lc: "length ?c = length targets * (unat w + 1)" by (rule length_concat_targets [OF w])
  have lp: "length ?ps = ?n" using lc by (simp add: mult.commute)
  let ?params = "(replicate 128 0 :: u8 list)[0 := reg, 1 := w]"
  have fill: "sync_write_fill targets w e ?params 2 = (blit 2 ?c ?params, ?n)"
    using sync_write_fill_spec [OF w, of 2 targets ?params e] fits by (simp add: mult.commute)
  have "take 2 ?params = [reg, w]" by (simp add: numeral_eq_Suc)
  then have take: "take ?n (blit 2 ?c ?params) = ?ps" using lc by (simp add: blit_def mult.commute)
  have n8: "unat (word_of_nat ?n :: u8) = ?n" using fits by (intro unat_of_nat_lt) simp
  have c0: "(word_of_nat (length targets) :: u8) \<noteq> 0"
    using count t by (metis length_0_conv unat_0)
  have lb: "length (blit 2 ?c ?params) = 128" using lc fits by (simp add: mult.commute)
  have "servo_protocol_build (Some buf) 0xFE 0x83 (Some (blit 2 ?c ?params)) (word_of_nat ?n)
      = (SERVO_PROTOCOL_OK, Some (blit 0 (packet_bytes 0xFE 0x83 ?ps) buf), ?n + 6)"
    using fits room take lb n8 by (subst build_spec [where ps = ?ps]) (auto simp: word_eq_unat_iff)
  then have build: "servo_protocol_build_sync_write (Some buf) reg w (Some targets) (word_of_nat (length targets)) e
      = (SERVO_PROTOCOL_OK, Some (blit 0 (packet_bytes 0xFE 0x83 ?ps) buf), length (packet_bytes 0xFE 0x83 ?ps))"
    using w t c0 count fits fill lp
    by (simp add: servo_protocol_build_sync_write_def servo_protocol_sync_write_params_def Let_def)
  have parse: "servo_protocol_parse_status (Some (packet_bytes 0xFE 0x83 ?ps)) = (SERVO_PROTOCOL_OK,
      \<lparr>sp_id = 0xFE, sp_error = 0x83, sp_params = Some 5, sp_param_count = word_of_nat (length ?ps), sp_packet_size = length ?ps + 6\<rparr>)"
    using parse_packet [of ?ps "0xFE" "0x83" "[]"] lp fits by simp
  have pk: "packet_bytes 0xFE 0x83 ?ps = [0xFF, 0xFF, 0xFE, word_of_nat (length ?ps) + 2, 0x83, reg, w] @ ?c
      @ [servo_protocol_checksum (packet_body 0xFE 0x83 ?ps)]"
    by (simp add: packet_bytes_def packet_body_def)
  have each: "drop (7 + k * (unat w + 1)) (packet_bytes 0xFE 0x83 ?ps)
      = target_bytes w e (targets ! k) @ concat (map (target_bytes w e) (drop (Suc k) targets))
        @ [servo_protocol_checksum (packet_body 0xFE 0x83 ?ps)]" if "k < length targets" for k
  proof -
    have "k * (unat w + 1) \<le> length ?c" unfolding lc using that by (intro mult_le_mono1) simp
    with drop_concat_targets [OF w that, of e] show ?thesis
      unfolding pk by (simp add: numeral_eq_Suc del: mult_Suc_right)
  qed
  have elem: "packet_bytes 0xFE 0x83 ?ps ! (7 + k * (unat w + 1)) = st_id (targets ! k)
      \<and> servo_protocol_decode_value (Some (drop (8 + k * (unat w + 1)) (packet_bytes 0xFE 0x83 ?ps))) w e
        = take_bit (8 * unat w) (st_value (targets ! k))" if k: "k < length targets" for k
  proof
    let ?p = "packet_bytes 0xFE 0x83 ?ps" and ?q = "7 + k * (unat w + 1)"
    have "drop ?q ?p \<noteq> []" unfolding each [OF k] by (simp add: target_bytes_def)
    then have "?p ! ?q = hd (drop ?q ?p)" by (simp add: hd_drop_conv_nth)
    then show "?p ! ?q = st_id (targets ! k)" unfolding each [OF k] by (simp add: target_bytes_def)
    have "8 + k * (unat w + 1) = Suc ?q" by simp
    then have "drop (8 + k * (unat w + 1)) ?p = tl (drop ?q ?p)" by (simp only: drop_Suc tl_drop)
    then have "drop (8 + k * (unat w + 1)) ?p = value_bytes w e (st_value (targets ! k))
        @ concat (map (target_bytes w e) (drop (Suc k) targets)) @ [servo_protocol_checksum (packet_body 0xFE 0x83 ?ps)]"
      unfolding each [OF k] by (simp add: target_bytes_def)
    then show "servo_protocol_decode_value (Some (drop (8 + k * (unat w + 1)) ?p)) w e = take_bit (8 * unat w) (st_value (targets ! k))"
      using decode_value_bytes [OF w] by simp
  qed
  have "chunk 5 2 (packet_bytes 0xFE 0x83 ?ps) = [reg, w]" unfolding pk by (simp add: chunk_def)
  with build parse elem show ?thesis
    by (intro exI [of _ "packet_bytes 0xFE 0x83 ?ps"] exI, intro conjI) (assumption | simp)+
qed

lemma servo_sync_write_carries_all_witness:
  "fst (servo_protocol_build_sync_write (Some (replicate 20 0)) 30 2
      (Some [\<lparr>st_id = 1, st_value = 512\<rparr>, \<lparr>st_id = 2, st_value = 300\<rparr>]) 2 SERVO_ENDIAN_LITTLE) = SERVO_PROTOCOL_OK"
proof -
  let ?ts = "[\<lparr>st_id = 1, st_value = 512\<rparr>, \<lparr>st_id = 2, st_value = 300\<rparr>]"
  have l: "valid_width 2" "?ts \<noteq> []" "2 + (unat (2 :: u8) + 1) * length ?ts \<le> 128"
    "2 + (unat (2 :: u8) + 1) * length ?ts + 6 \<le> length (replicate 20 (0 :: u8))"
    by (simp_all add: valid_width_def)
  have n: "word_of_nat (length ?ts) = (2 :: u8)" by simp
  from servo_sync_write_carries_all [OF l, of 30 SERVO_ENDIAN_LITTLE] show ?thesis unfolding n by auto
qed

end
