(* ===== verification/Can_Frame.thy ===== *)
theory Can_Frame
  imports Ring_Buffer
begin

text \<open>
  Model of \<open>components/can_frame\<close>: packed CAN identifiers, frame lengths, acceptance filters and
  the queue of whole frames between the interrupt and the main loop. The queue stores each frame
  as a record of 16 bytes in a ring buffer; its contract, stated over lists of frames, is proved
  from the contract \<open>byte_fifo\<close> of the ring buffer and not from its definitions.

  A message pointer that may be \<open>NULL\<close> is an option; the 8 data bytes of a message are a list.
\<close>

abbreviation (input) "CAN_MAX_DATA_LENGTH \<equiv> (8 :: nat)"
abbreviation (input) "CAN_STANDARD_ID_MAX \<equiv> (0x7FF :: u32)"
abbreviation (input) "CAN_EXTENDED_ID_MAX \<equiv> (0x1FFFFFFF :: u32)"
abbreviation (input) "CAN_FLAG_RTR \<equiv> (0x40000000 :: u32)"
abbreviation (input) "CAN_FLAG_EXTENDED \<equiv> (0x80000000 :: u32)"

record can_message_t =
  msg_id :: u32
  msg_length :: u8
  msg_extended :: bool
  msg_remote :: bool
  msg_data :: "u8 list"

definition can_message_zero :: can_message_t where
  "can_message_zero = \<lparr>msg_id = 0, msg_length = 0, msg_extended = False, msg_remote = False,
     msg_data = replicate CAN_MAX_DATA_LENGTH 0\<rparr>"

subsection \<open>Identifiers and lengths\<close>

definition can_id_is_extended :: "u32 \<Rightarrow> bool" where
  "can_id_is_extended packed \<longleftrightarrow> packed AND CAN_FLAG_EXTENDED \<noteq> 0"

definition can_id_is_remote :: "u32 \<Rightarrow> bool" where
  "can_id_is_remote packed \<longleftrightarrow> packed AND CAN_FLAG_RTR \<noteq> 0"

definition can_id_value :: "u32 \<Rightarrow> u32" where
  "can_id_value packed =
     (if can_id_is_extended packed then packed AND CAN_EXTENDED_ID_MAX else packed AND CAN_STANDARD_ID_MAX)"

definition can_id_pack :: "u32 \<Rightarrow> bool \<Rightarrow> bool \<Rightarrow> u32" where
  "can_id_pack ident extended remote =
     (let packed = (if extended then ident AND CAN_EXTENDED_ID_MAX else ident AND CAN_STANDARD_ID_MAX);
          packed = (if extended then packed OR CAN_FLAG_EXTENDED else packed)
      in if remote then packed OR CAN_FLAG_RTR else packed)"

definition can_id_is_valid :: "u32 \<Rightarrow> bool \<Rightarrow> bool" where
  "can_id_is_valid ident extended \<longleftrightarrow> ident \<le> (if extended then CAN_EXTENDED_ID_MAX else CAN_STANDARD_ID_MAX)"

definition can_dlc_to_length :: "u32 \<Rightarrow> u8" where
  "can_dlc_to_length dlc = (if 8 < dlc then 8 else ucast dlc)"

definition can_message_is_valid :: "can_message_t option \<Rightarrow> bool" where
  "can_message_is_valid message =
     (case message of
        None \<Rightarrow> False
      | Some m \<Rightarrow> msg_length m \<le> 8 \<and> can_id_is_valid (msg_id m) (msg_extended m))"

subsection \<open>Acceptance filters\<close>

record can_filter_t =
  flt_id :: u32
  flt_mask :: u32

definition can_filter_matches :: "can_filter_t option \<Rightarrow> u32 \<Rightarrow> bool" where
  "can_filter_matches filt packed_id =
     (case filt of
        None \<Rightarrow> False
      | Some f \<Rightarrow> packed_id AND flt_mask f = flt_id f AND flt_mask f)"

text \<open>The loop of \<open>can_filters_accept\<close>.\<close>

fun any_filter_matches :: "can_filter_t list \<Rightarrow> u32 \<Rightarrow> bool" where
  "any_filter_matches [] packed_id = False"
| "any_filter_matches (f # filters) packed_id =
     (if can_filter_matches (Some f) packed_id then True else any_filter_matches filters packed_id)"

definition can_filters_accept :: "can_filter_t list option \<Rightarrow> u32 \<Rightarrow> bool" where
  "can_filters_accept filters packed_id =
     (case filters of
        None \<Rightarrow> True
      | Some fs \<Rightarrow> if length fs = 0 then True else any_filter_matches fs packed_id)"

subsection \<open>The queue\<close>

abbreviation (input) "OFFSET_ID \<equiv> (0 :: nat)"
abbreviation (input) "OFFSET_LENGTH \<equiv> (4 :: nat)"
abbreviation (input) "OFFSET_FLAGS \<equiv> (5 :: nat)"
abbreviation (input) "OFFSET_DATA \<equiv> (6 :: nat)"
abbreviation (input) "FLAG_EXTENDED \<equiv> (1 :: u8)"
abbreviation (input) "FLAG_REMOTE \<equiv> (2 :: u8)"
abbreviation (input) "CAN_QUEUE_RECORD_SIZE \<equiv> (16 :: nat)"

record can_queue_t =
  cq_buffer :: ring_buffer_t
  cq_dropped :: u32
  cq_initialised :: bool

definition can_queue_zero :: can_queue_t where
  "can_queue_zero = \<lparr>cq_buffer = \<lparr>storage = [], rb_size = 0, rb_head = 0, rb_tail = 0\<rparr>,
     cq_dropped = 0, cq_initialised = False\<rparr>"

definition can_queue_init :: "u8 list option \<Rightarrow> nat \<Rightarrow> bool \<times> can_queue_t" where
  "can_queue_init mem sz =
     (let queue = can_queue_zero in
      case ring_buffer_init mem sz of
        None \<Rightarrow> (False, queue)
      | Some rb \<Rightarrow>
          (let queue = queue\<lparr>cq_buffer := rb\<rparr> in
           if ring_buffer_capacity rb < CAN_QUEUE_RECORD_SIZE then (False, queue)
           else (True, queue\<lparr>cq_initialised := True\<rparr>)))"

text \<open>The record a frame is stored as, lines 126 to 140 of \<open>can_queue_push\<close>.\<close>

definition frame_record :: "can_message_t \<Rightarrow> u8 list" where
  "frame_record message =
     (let record = replicate CAN_QUEUE_RECORD_SIZE 0;
          record = record[OFFSET_ID + 0 := ucast (msg_id message)];
          record = record[OFFSET_ID + 1 := ucast (drop_bit 8 (msg_id message))];
          record = record[OFFSET_ID + 2 := ucast (drop_bit 16 (msg_id message))];
          record = record[OFFSET_ID + 3 := ucast (drop_bit 24 (msg_id message))];
          len = msg_length message;
          record = record[OFFSET_LENGTH := len];
          record = record[OFFSET_FLAGS := (if msg_extended message then FLAG_EXTENDED else 0)
                                       OR (if msg_remote message then FLAG_REMOTE else 0)]
      in if \<not> msg_remote message
         then blit OFFSET_DATA (take (unat len) (msg_data message)) record else record)"

definition can_queue_push :: "can_queue_t \<Rightarrow> can_message_t option \<Rightarrow> (bool \<times> can_queue_t) option" where
  "can_queue_push queue message =
     (if \<not> cq_initialised queue \<or> \<not> can_message_is_valid message then Some (False, queue)
      else if ring_buffer_free (cq_buffer queue) < CAN_QUEUE_RECORD_SIZE
      then Some (False, queue\<lparr>cq_dropped := cq_dropped queue + 1\<rparr>)
      else
        (case ring_buffer_write (cq_buffer queue) (Some (frame_record (the message))) of
           None \<Rightarrow> None
         | Some (n, rb) \<Rightarrow> Some (n = CAN_QUEUE_RECORD_SIZE, queue\<lparr>cq_buffer := rb\<rparr>)))"

text \<open>The message a record is read back as, lines 159 to 167 of \<open>can_queue_pop\<close>.\<close>

definition record_frame :: "u8 list \<Rightarrow> can_message_t" where
  "record_frame record =
     (let len = can_dlc_to_length (ucast (record ! OFFSET_LENGTH)) in
      can_message_zero
        \<lparr>msg_id := ucast (record ! (OFFSET_ID + 0)) OR push_bit 8 (ucast (record ! (OFFSET_ID + 1)))
                   OR push_bit 16 (ucast (record ! (OFFSET_ID + 2)))
                   OR push_bit 24 (ucast (record ! (OFFSET_ID + 3))),
         msg_length := len,
         msg_extended := (record ! OFFSET_FLAGS AND FLAG_EXTENDED \<noteq> 0),
         msg_remote := (record ! OFFSET_FLAGS AND FLAG_REMOTE \<noteq> 0),
         msg_data := blit 0 (chunk OFFSET_DATA (unat len) record) (msg_data can_message_zero)\<rparr>)"

text \<open>\<open>None\<close> inside the result is the value false: no frame was taken.\<close>

definition can_queue_pop :: "can_queue_t \<Rightarrow> (can_message_t option \<times> can_queue_t) option" where
  "can_queue_pop queue =
     (if \<not> cq_initialised queue then Some (None, queue)
      else if ring_buffer_count (cq_buffer queue) < CAN_QUEUE_RECORD_SIZE then Some (None, queue)
      else
        (case ring_buffer_read (cq_buffer queue) CAN_QUEUE_RECORD_SIZE of
           None \<Rightarrow> None
         | Some (record, rb) \<Rightarrow>
             if length record \<noteq> CAN_QUEUE_RECORD_SIZE then Some (None, queue\<lparr>cq_buffer := rb\<rparr>)
             else Some (Some (record_frame record), queue\<lparr>cq_buffer := rb\<rparr>)))"

definition can_queue_count :: "can_queue_t \<Rightarrow> nat" where
  "can_queue_count queue =
     (if \<not> cq_initialised queue then 0 else ring_buffer_count (cq_buffer queue) div CAN_QUEUE_RECORD_SIZE)"

definition can_queue_capacity :: "can_queue_t \<Rightarrow> nat" where
  "can_queue_capacity queue =
     (if \<not> cq_initialised queue then 0 else ring_buffer_capacity (cq_buffer queue) div CAN_QUEUE_RECORD_SIZE)"

definition can_queue_clear :: "can_queue_t \<Rightarrow> can_queue_t" where
  "can_queue_clear queue =
     (if cq_initialised queue then queue\<lparr>cq_buffer := ring_buffer_clear (cq_buffer queue)\<rparr> else queue)"

subsection \<open>What a record holds\<close>

text \<open>The part of a frame that is on the wire: the bytes of a data frame up to its length.\<close>

definition frame_content :: "can_message_t \<Rightarrow> can_message_t" where
  "frame_content m = m\<lparr>msg_data :=
     (if msg_remote m then replicate CAN_MAX_DATA_LENGTH 0
      else take (unat (msg_length m)) (msg_data m) @ replicate (CAN_MAX_DATA_LENGTH - unat (msg_length m)) 0)\<rparr>"

definition frame_ok :: "can_message_t \<Rightarrow> bool" where
  "frame_ok m \<longleftrightarrow> can_message_is_valid (Some m) \<and> length (msg_data m) = CAN_MAX_DATA_LENGTH"

lemma length_frame_record: "frame_ok m \<Longrightarrow> length (frame_record m) = CAN_QUEUE_RECORD_SIZE"
  by (auto simp: frame_ok_def can_message_is_valid_def frame_record_def Let_def word_le_nat_alt)

lemma frame_record_layout:
  assumes "frame_ok m"
  shows "frame_record m = le32 (msg_id m) @ [msg_length m,
      (if msg_extended m then FLAG_EXTENDED else 0) OR (if msg_remote m then FLAG_REMOTE else 0)]
    @ msg_data (frame_content m) @ [0, 0]"
proof -
  let ?flags = "(if msg_extended m then FLAG_EXTENDED else 0) OR (if msg_remote m then FLAG_REMOTE else 0)"
  let ?base = "le32 (msg_id m) @ [msg_length m, ?flags] @ replicate 10 0"
  have n: "unat (msg_length m) \<le> 8" "length (msg_data m) = 8"
    using assms by (auto simp: frame_ok_def can_message_is_valid_def word_le_nat_alt)
  have base: "(replicate 16 0)[0 := ucast (msg_id m), 1 := ucast (drop_bit 8 (msg_id m)),
      2 := ucast (drop_bit 16 (msg_id m)), 3 := ucast (drop_bit 24 (msg_id m)), 4 := msg_length m, 5 := ?flags] = ?base"
    by (simp add: numeral_eq_Suc le32_def)
  have ten: "10 - k = (8 - k) + 2" if "k \<le> 8" for k :: nat using that by simp
  have data: "blit OFFSET_DATA (take (unat (msg_length m)) (msg_data m)) ?base
      = le32 (msg_id m) @ [msg_length m, ?flags] @ take (unat (msg_length m)) (msg_data m)
        @ replicate (8 - unat (msg_length m)) 0 @ [0, 0]"
    using n ten [OF n(1)]
    by (simp add: blit_def min_def replicate_add le32_def numeral_eq_Suc del: replicate_Suc)
      (simp add: replicate_app_Cons_same)
  show ?thesis
    unfolding frame_record_def Let_def add_0 base data frame_content_def
    by (simp add: data) (simp add: numeral_eq_Suc)
qed

lemma unat_ucast_u8_u32: "unat (ucast (b :: u8) :: u32) = unat b"
  using unat_u8_lt [of b] by (simp add: unsigned_ucast_eq take_bit_nat_eq_self)

lemma ucast_u8_u32_u8: "ucast (ucast (b :: u8) :: u32) = b"
  by (rule bit_word_eqI) (simp add: bit_simps)

lemma dlc_of_valid: "len \<le> (8 :: u8) \<Longrightarrow> can_dlc_to_length (ucast len) = len"
  by (simp add: can_dlc_to_length_def word_le_nat_alt word_less_nat_alt unat_ucast_u8_u32 ucast_u8_u32_u8)

lemma length_frame_content: "frame_ok m \<Longrightarrow> length (msg_data (frame_content m)) = 8"
  by (auto simp: frame_ok_def can_message_is_valid_def frame_content_def word_le_nat_alt)

lemma record_frame_record:
  assumes "frame_ok m"
  shows "record_frame (frame_record m) = frame_content m"
proof -
  let ?r = "frame_record m" and ?d = "msg_data (frame_content m)"
  have n: "msg_length m \<le> 8" "unat (msg_length m) \<le> 8" "length (msg_data m) = 8"
    using assms by (auto simp: frame_ok_def can_message_is_valid_def word_le_nat_alt)
  note layout = frame_record_layout [OF assms]
  have fields: "?r ! 4 = msg_length m" "?r ! 5 = (if msg_extended m then 1 else 0) OR (if msg_remote m then 2 else 0)"
    by (simp_all add: layout nth_append)
  have ident: "ucast (?r ! 0) OR push_bit 8 (ucast (?r ! 1)) OR push_bit 16 (ucast (?r ! 2))
      OR push_bit 24 (ucast (?r ! 3)) = msg_id m"
    using of_le32_le32 [of "msg_id m"] by (simp add: of_le32_def layout nth_append)
  have "chunk 6 (unat (msg_length m)) ?r = take (unat (msg_length m)) ?d"
    using n length_frame_content [OF assms] by (simp add: layout chunk_def)
  then have data: "blit 0 (chunk 6 (unat (msg_length m)) ?r) (replicate 8 0) = ?d"
    using n by (auto simp: blit_def frame_content_def min_def simp flip: replicate_add)
  show ?thesis
    unfolding record_frame_def Let_def fields add_0 ident dlc_of_valid [OF n(1)] data can_message_zero_def
      can_message_t.select_convs data
    by (auto simp: frame_content_def)
qed

subsection \<open>The queue as a bounded queue of frames\<close>

definition queue_holds :: "can_queue_t \<Rightarrow> can_message_t list \<Rightarrow> bool" where
  "queue_holds queue frames \<longleftrightarrow> cq_initialised queue \<and> rb_inv (cq_buffer queue)
     \<and> (\<forall>m \<in> set frames. frame_ok m) \<and> rb_list (cq_buffer queue) = concat (map frame_record frames)"

text \<open>The contents are a whole number of records: no operation ever leaves part of a frame behind.\<close>

lemma length_records: "\<forall>m \<in> set frames. frame_ok m \<Longrightarrow> length (concat (map frame_record frames)) = 16 * length frames"
  by (induction frames) (simp_all add: length_frame_record)

lemma queue_count:
  "queue_holds queue frames \<Longrightarrow> ring_buffer_count (cq_buffer queue) = 16 * length frames"
  using length_records [of frames] by (metis queue_holds_def length_rb_list)

lemma queue_full_iff:
  assumes "queue_holds queue frames"
  shows "ring_buffer_free (cq_buffer queue) < 16 \<longleftrightarrow> can_queue_capacity queue \<le> length frames"
proof -
  have "ring_buffer_free (cq_buffer queue) < 16 \<longleftrightarrow> ring_buffer_capacity (cq_buffer queue) < 16 * (length frames + 1)"
    using rb_count_bound [of "cq_buffer queue"] assms
    by (auto simp: ring_buffer_free_def queue_count [OF assms] queue_holds_def)
  also have "\<dots> \<longleftrightarrow> ring_buffer_capacity (cq_buffer queue) div 16 < length frames + 1"
    by (simp add: div_less_iff_less_mult mult.commute)
  also have "\<dots> \<longleftrightarrow> can_queue_capacity queue \<le> length frames"
    using assms by (simp add: can_queue_capacity_def queue_holds_def less_Suc_eq_le)
  finally show ?thesis .
qed

lemma queue_init_holds:
  assumes "can_queue_init (Some bytes) sz = (True, queue)" and "sz \<le> length bytes"
  shows "queue_holds queue [] \<and> can_queue_capacity queue = (sz - 1) div 16 \<and> cq_dropped queue = 0"
  using assms
  by (auto simp: can_queue_init_def Let_def can_queue_zero_def ring_buffer_init_def queue_holds_def rb_inv_def
      rb_list_def ring_buffer_count_def can_queue_capacity_def ring_buffer_capacity_def split: if_splits)

lemma queue_push:
  assumes q: "queue_holds queue frames" and m: "length (msg_data m) = 8"
  shows "\<exists>queue'. can_queue_push queue (Some m) =
      Some (can_message_is_valid (Some m) \<and> length frames < can_queue_capacity queue, queue')
    \<and> queue_holds queue' (if can_message_is_valid (Some m) \<and> length frames < can_queue_capacity queue
        then frames @ [m] else frames)
    \<and> can_queue_capacity queue' = can_queue_capacity queue
    \<and> cq_dropped queue' = (if can_message_is_valid (Some m) \<and> can_queue_capacity queue \<le> length frames
        then cq_dropped queue + 1 else cq_dropped queue)"
proof (cases "can_message_is_valid (Some m) \<and> length frames < can_queue_capacity queue")
  case True
  with m have ok: "frame_ok m" by (simp add: frame_ok_def)
  have inv: "rb_inv (cq_buffer queue)" using q by (simp add: queue_holds_def)
  have room: "\<not> ring_buffer_free (cq_buffer queue) < 16" using True queue_full_iff [OF q] by simp
  obtain rb where rb: "ring_buffer_write (cq_buffer queue) (Some (frame_record m)) = Some (16, rb)" "rb_inv rb"
      "rb_size rb = rb_size (cq_buffer queue)" "rb_list rb = rb_list (cq_buffer queue) @ frame_record m"
    using ring_buffer_write_spec [OF inv, of "frame_record m"] room length_frame_record [OF ok]
    by (auto simp: min_def not_less split: if_splits)
  show ?thesis
    using True q ok rb room
    by (auto simp: can_queue_push_def queue_holds_def can_queue_capacity_def ring_buffer_capacity_def)
next
  case False
  with q queue_full_iff [OF q] show ?thesis
    by (auto simp: can_queue_push_def queue_holds_def can_queue_capacity_def)
qed

lemma queue_pop:
  assumes q: "queue_holds queue frames"
  shows "\<exists>queue'. can_queue_pop queue = Some (case frames of [] \<Rightarrow> None | m # _ \<Rightarrow> Some (frame_content m), queue')
    \<and> queue_holds queue' (drop 1 frames) \<and> can_queue_capacity queue' = can_queue_capacity queue
    \<and> cq_dropped queue' = cq_dropped queue"
proof (cases frames)
  case Nil
  with q show ?thesis by (auto simp: can_queue_pop_def queue_count [OF q] queue_holds_def)
next
  case (Cons m rest)
  have inv: "rb_inv (cq_buffer queue)" and ok: "frame_ok m" and bytes: "rb_list (cq_buffer queue)
      = frame_record m @ concat (map frame_record rest)"
    using q Cons by (simp_all add: queue_holds_def)
  obtain rb where rb: "ring_buffer_read (cq_buffer queue) 16 = Some (frame_record m, rb)" "rb_inv rb"
      "rb_size rb = rb_size (cq_buffer queue)" "rb_list rb = concat (map frame_record rest)"
    using ring_buffer_read_spec [OF inv, of 16] length_frame_record [OF ok] by (auto simp: bytes)
  show ?thesis
    using q Cons rb length_frame_record [OF ok] record_frame_record [OF ok] queue_count [OF q]
    by (auto simp: can_queue_pop_def queue_holds_def can_queue_capacity_def ring_buffer_capacity_def)
qed

lemma queue_clear:
  assumes "queue_holds queue frames"
  shows "queue_holds (can_queue_clear queue) [] \<and> can_queue_capacity (can_queue_clear queue) = can_queue_capacity queue
    \<and> cq_dropped (can_queue_clear queue) = cq_dropped queue"
  using assms ring_buffer_clear_spec [of "cq_buffer queue"]
  by (auto simp: can_queue_clear_def queue_holds_def can_queue_capacity_def ring_buffer_capacity_def ring_buffer_clear_def)

subsection \<open>The contract of a bounded queue\<close>

text \<open>
  What a client of the queue relies on. \<open>accepts\<close> tells the messages the queue can represent,
  \<open>content\<close> what of a message survives the queue. The two runs below are a client's calls made on
  a queue and on the list it stands for.
\<close>

datatype 'm queue_call = Push_Call 'm | Pop_Call

datatype 'm queue_reply = Pushed bool | Popped "'m option"

fun run_queue :: "('q \<Rightarrow> 'm \<Rightarrow> (bool \<times> 'q) option) \<Rightarrow> ('q \<Rightarrow> ('m option \<times> 'q) option) \<Rightarrow> 'q
    \<Rightarrow> 'm queue_call list \<Rightarrow> ('m queue_reply list \<times> 'q) option" where
  "run_queue push pop queue [] = Some ([], queue)"
| "run_queue push pop queue (Push_Call m # calls) =
     (case push queue m of
        None \<Rightarrow> None
      | Some (taken, queue) \<Rightarrow>
          map_option (\<lambda>(replies, queue). (Pushed taken # replies, queue)) (run_queue push pop queue calls))"
| "run_queue push pop queue (Pop_Call # calls) =
     (case pop queue of
        None \<Rightarrow> None
      | Some (m, queue) \<Rightarrow>
          map_option (\<lambda>(replies, queue). (Popped m # replies, queue)) (run_queue push pop queue calls))"

fun run_list :: "('m \<Rightarrow> bool) \<Rightarrow> ('m \<Rightarrow> 'm) \<Rightarrow> nat \<Rightarrow> 'm list \<Rightarrow> 'm queue_call list \<Rightarrow> 'm queue_reply list \<times> 'm list" where
  "run_list accepts content cap ms [] = ([], ms)"
| "run_list accepts content cap ms (Push_Call m # calls) =
     (let taken = (accepts m \<and> length ms < cap);
          (replies, ms) = run_list accepts content cap (if taken then ms @ [m] else ms) calls
      in (Pushed taken # replies, ms))"
| "run_list accepts content cap ms (Pop_Call # calls) =
     (let (replies, rest) = run_list accepts content cap (drop 1 ms) calls
      in (Popped (map_option content (case ms of [] \<Rightarrow> None | m # _ \<Rightarrow> Some m)) # replies, rest))"

fun pushed_messages :: "'m queue_call list \<Rightarrow> 'm list" where
  "pushed_messages [] = []"
| "pushed_messages (Push_Call m # calls) = m # pushed_messages calls"
| "pushed_messages (Pop_Call # calls) = pushed_messages calls"

locale bounded_queue =
  fixes holds :: "'q \<Rightarrow> 'm list \<Rightarrow> bool"
    and capacity :: "'q \<Rightarrow> nat"
    and wf :: "'m \<Rightarrow> bool"
    and accepts :: "'m \<Rightarrow> bool"
    and content :: "'m \<Rightarrow> 'm"
    and push :: "'q \<Rightarrow> 'm \<Rightarrow> (bool \<times> 'q) option"
    and pop :: "'q \<Rightarrow> ('m option \<times> 'q) option"
  assumes push_ok: "holds q ms \<Longrightarrow> wf m \<Longrightarrow> \<exists>q'. push q m = Some (accepts m \<and> length ms < capacity q, q')
      \<and> holds q' (if accepts m \<and> length ms < capacity q then ms @ [m] else ms) \<and> capacity q' = capacity q"
    and pop_ok: "holds q ms \<Longrightarrow> \<exists>q'. pop q = Some (map_option content (case ms of [] \<Rightarrow> None | m # _ \<Rightarrow> Some m), q')
      \<and> holds q' (drop 1 ms) \<and> capacity q' = capacity q"
begin

text \<open>Every sequence of calls gets the answers a bounded list would give.\<close>

lemma run_refines:
  assumes "holds q ms" and "\<forall>m \<in> set (pushed_messages calls). wf m"
  shows "\<exists>q'. run_queue push pop q calls = Some (fst (run_list accepts content (capacity q) ms calls), q')
    \<and> holds q' (snd (run_list accepts content (capacity q) ms calls))"
  using assms
proof (induction calls arbitrary: q ms rule: pushed_messages.induct)
  case 1
  then show ?case by simp
next
  case (2 m calls)
  let ?taken = "accepts m \<and> length ms < capacity q"
  from 2 have m: "wf m" by simp
  obtain q' where q': "push q m = Some (?taken, q')" "holds q' (if ?taken then ms @ [m] else ms)" "capacity q' = capacity q"
    using push_ok [OF 2(2) m] by blast
  from 2(1) [OF q'(2)] 2(3) q'(1,3) show ?case by (auto simp: split_beta Let_def)
next
  case (3 calls)
  obtain q' where q': "pop q = Some (map_option content (case ms of [] \<Rightarrow> None | m # _ \<Rightarrow> Some m), q')"
      "holds q' (drop 1 ms)" "capacity q' = capacity q"
    using pop_ok [OF 3(2)] by blast
  from 3(1) [OF q'(2)] 3(3) q'(1,3) show ?case by (auto simp: split_beta Let_def)
qed

end

interpretation cq: bounded_queue queue_holds can_queue_capacity "\<lambda>m. length (msg_data m) = 8"
  "\<lambda>m. can_message_is_valid (Some m)" frame_content "\<lambda>q m. can_queue_push q (Some m)" can_queue_pop
proof unfold_locales
  fix q ms and m :: can_message_t
  assume "queue_holds q ms" and "length (msg_data m) = 8"
  from queue_push [OF this] show "\<exists>q'. can_queue_push q (Some m) =
      Some (can_message_is_valid (Some m) \<and> length ms < can_queue_capacity q, q')
    \<and> queue_holds q' (if can_message_is_valid (Some m) \<and> length ms < can_queue_capacity q then ms @ [m] else ms)
    \<and> can_queue_capacity q' = can_queue_capacity q"
    by blast
next
  fix q ms
  assume "queue_holds q ms"
  from queue_pop [OF this] show "\<exists>q'. can_queue_pop q =
      Some (map_option frame_content (case ms of [] \<Rightarrow> None | m # _ \<Rightarrow> Some m), q')
    \<and> queue_holds q' (drop 1 ms) \<and> can_queue_capacity q' = can_queue_capacity q"
    by (cases ms) auto
qed

subsection \<open>Identifiers\<close>

text \<open>The simplifier reads a bit of a word numeral off the integer numeral.\<close>

lemma can_id_bits:
  "bit (0x1FFFFFFF :: int) n \<longleftrightarrow> n < 29" "bit (0x7FF :: int) n \<longleftrightarrow> n < 11"
  "bit (0x80000000 :: int) n \<longleftrightarrow> n = 31" "bit (0x40000000 :: int) n \<longleftrightarrow> n = 30"
proof -
  have "(0x1FFFFFFF :: int) = mask 29" "(0x7FF :: int) = mask 11" by (simp_all add: mask_eq_exp_minus_1)
  then show "bit (0x1FFFFFFF :: int) n \<longleftrightarrow> n < 29" "bit (0x7FF :: int) n \<longleftrightarrow> n < 11"
    by (auto simp only: bit_mask_iff) auto
  have "(0x80000000 :: int) = push_bit 31 1" "(0x40000000 :: int) = push_bit 30 1" by simp_all
  then show "bit (0x80000000 :: int) n \<longleftrightarrow> n = 31" "bit (0x40000000 :: int) n \<longleftrightarrow> n = 30"
    by (auto simp only: bit_push_bit_iff bit_1_iff) auto
qed

lemma can_flag_test:
  "can_id_is_extended packed \<longleftrightarrow> bit packed 31" "can_id_is_remote packed \<longleftrightarrow> bit packed 30"
proof -
  have "packed AND push_bit n 1 \<noteq> 0 \<longleftrightarrow> bit packed n" if "n < 32" for n
    using that bit_word_beyond [of n packed]
    by (auto simp: bit_eq_iff [of _ 0] bit_simps)
  from this [of 31] this [of 30] show "can_id_is_extended packed \<longleftrightarrow> bit packed 31" "can_id_is_remote packed \<longleftrightarrow> bit packed 30"
    by (simp_all add: can_id_is_extended_def can_id_is_remote_def)
qed

lemma valid_id_bits:
  assumes "can_id_is_valid ident extended" and "bit ident n"
  shows "n < (if extended then 29 else 11)"
proof -
  have "unat ident < 2 ^ (if extended then 29 else 11)"
    using assms(1) by (auto simp: can_id_is_valid_def word_le_nat_alt split: if_splits)
  then have "take_bit (if extended then 29 else 11) (unat ident) = unat ident"
    by (simp add: take_bit_nat_eq_self)
  moreover have "bit (unat ident) n" using assms(2) by (simp add: bit_unsigned_iff)
  ultimately show ?thesis by (metis bit_take_bit_iff)
qed

lemma bit_can_id_pack:
  "bit (can_id_pack ident extended remote) n \<longleftrightarrow>
    bit ident n \<and> n < (if extended then 29 else 11) \<or> extended \<and> n = 31 \<or> remote \<and> n = 30"
  by (auto simp: can_id_pack_def Let_def bit_or_iff bit_and_iff can_id_bits)

lemma can_id_pack_spec:
  assumes "can_id_is_valid ident extended"
  shows "can_id_value (can_id_pack ident extended remote) = ident"
    and "can_id_is_extended (can_id_pack ident extended remote) = extended"
    and "can_id_is_remote (can_id_pack ident extended remote) = remote"
proof -
  show flag: "can_id_is_extended (can_id_pack ident extended remote) = extended"
    "can_id_is_remote (can_id_pack ident extended remote) = remote"
    by (auto simp: can_flag_test bit_can_id_pack)
  show "can_id_value (can_id_pack ident extended remote) = ident"
    using valid_id_bits [OF assms]
    by (auto simp: can_id_value_def flag bit_and_iff bit_can_id_pack can_id_bits intro!: bit_word_eqI)
qed

lemma any_filter_iff: "any_filter_matches filters packed \<longleftrightarrow> (\<exists>f \<in> set filters. can_filter_matches (Some f) packed)"
  by (induction filters) auto

lemma can_filter_bits:
  "can_filter_matches (Some f) packed \<longleftrightarrow> (\<forall>n. bit (flt_mask f) n \<longrightarrow> bit packed n = bit (flt_id f) n)"
  unfolding can_filter_matches_def option.case bit_eq_iff [of "packed AND flt_mask f"] bit_and_iff possible_bit_word
  using bit_imp_le_length [of packed] bit_imp_le_length [of "flt_id f"] by blast

subsection \<open>Properties\<close>

text \<open>The receive queue is a bounded first-in first-out queue of whole frames. After a
  successful initialisation every sequence of pushes and pops gets the answers a list of at most
  \<open>(size - 1) div 16\<close> frames would give: an invalid frame or one that does not fit whole is refused,
  a popped frame is the oldest one, with exactly its identifier, flags, length and data, and
  nothing the ring buffer does at its wrap-around shows.\<close>

theorem can_queue_fifo:
  assumes "can_queue_init (Some bytes) sz = (True, queue)" and "sz \<le> length bytes"
    and "\<forall>m \<in> set (pushed_messages calls). length (msg_data m) = 8"
  shows "map_option fst (run_queue (\<lambda>q m. can_queue_push q (Some m)) can_queue_pop queue calls)
    = Some (fst (run_list (\<lambda>m. can_message_is_valid (Some m)) frame_content ((sz - 1) div 16) [] calls))"
  using queue_init_holds [OF assms(1,2)] cq.run_refines [of queue "[]" calls] assms(3) by auto

lemma can_queue_fifo_witness:
  "map_option fst (run_queue (\<lambda>q m. can_queue_push q (Some m)) can_queue_pop (snd (can_queue_init (Some (replicate 17 0)) 17))
      [Push_Call (can_message_zero\<lparr>msg_id := 5\<rparr>), Push_Call can_message_zero, Pop_Call])
    = Some [Pushed True, Pushed False, Popped (Some (can_message_zero\<lparr>msg_id := 5\<rparr>))]"
proof -
  let ?calls = "[Push_Call (can_message_zero\<lparr>msg_id := 5\<rparr>), Push_Call can_message_zero, Pop_Call]"
  have i: "can_queue_init (Some (replicate 17 0)) 17 = (True, snd (can_queue_init (Some (replicate 17 0)) 17))"
    by (simp add: can_queue_init_def ring_buffer_init_def ring_buffer_capacity_def)
  have d: "\<forall>m \<in> set (pushed_messages ?calls). length (msg_data m) = 8" by (simp add: can_message_zero_def)
  have "can_message_is_valid (Some (can_message_zero\<lparr>msg_id := 5\<rparr>))"
    by (simp add: can_message_is_valid_def can_message_zero_def can_id_is_valid_def)
  moreover have "frame_content (can_message_zero\<lparr>msg_id := 5\<rparr>) = can_message_zero\<lparr>msg_id := 5\<rparr>"
    by (simp add: frame_content_def can_message_zero_def)
  ultimately show ?thesis
    using can_queue_fifo [OF i _ d] by simp
qed

text \<open>Packing an identifier loses nothing. An identifier that fits its kind, packed with its
  flags, is read back with the same value and the same flags.\<close>

theorem can_id_roundtrip:
  assumes "can_id_is_valid ident extended"
  shows "can_id_value (can_id_pack ident extended remote) = ident
    \<and> can_id_is_extended (can_id_pack ident extended remote) = extended
    \<and> can_id_is_remote (can_id_pack ident extended remote) = remote"
  using can_id_pack_spec [OF assms] by simp

lemma can_id_roundtrip_witness: "can_id_value (can_id_pack 0x7FF False True) = 0x7FF"
proof -
  have "can_id_is_valid 0x7FF False" by (simp add: can_id_is_valid_def)
  from can_id_roundtrip [OF this] show ?thesis by blast
qed

end
