(* ===== verification/Mcp2515_Frame.thy ===== *)
theory Mcp2515_Frame
  imports Can_Frame
begin

text \<open>
  Model of \<open>components/mcp2515\<close>, the parts without hardware: \<open>mcp2515_frame.c\<close> (identifiers, masks
  and headers in the register layout of the controller) and \<open>mcp2515_filters.c\<close> (the assignment
  of acceptance filters to the two receive buffers). The main lemma relates the registers a plan
  programs to the filters it was made from, under the comparison the headers document.
\<close>

abbreviation (input) "SIDL_EXIDE \<equiv> (0x08 :: u8)"
abbreviation (input) "DLC_RTR \<equiv> (0x40 :: u8)"
abbreviation (input) "DLC_MASK \<equiv> (0x0F :: u8)"

subsection \<open>Register layout\<close>

definition mcp2515_frame_pack_id :: "u32 \<Rightarrow> u8 list" where
  "mcp2515_frame_pack_id packed =
     (let extended = can_id_is_extended packed;
          ident = can_id_value packed in
      if extended
      then
        (let sid = drop_bit 18 ident AND 0x7FF;
             eid = ident AND 0x3FFFF in
         [ucast (drop_bit 3 sid),
          ucast (push_bit 5 (sid AND 7) OR 0x08 OR (drop_bit 16 eid AND 3)),
          ucast (drop_bit 8 eid), ucast eid])
      else [ucast (drop_bit 3 ident), ucast (push_bit 5 (ident AND 7)), 0, 0])"

definition mcp2515_frame_pack_mask :: "u32 \<Rightarrow> bool \<Rightarrow> u8 list" where
  "mcp2515_frame_pack_mask m extended =
     mcp2515_frame_pack_id (if extended then m OR CAN_FLAG_EXTENDED else m AND NOT CAN_FLAG_EXTENDED)"

definition mcp2515_frame_pack_header :: "can_message_t \<Rightarrow> u8 list" where
  "mcp2515_frame_pack_header message =
     (let packed = can_id_pack (msg_id message) (msg_extended message) (msg_remote message);
          header = mcp2515_frame_pack_id packed;
          dlc = msg_length message AND DLC_MASK
      in header @ [if msg_remote message then dlc OR DLC_RTR else dlc])"

definition mcp2515_frame_unpack_header :: "u8 list \<Rightarrow> can_message_t" where
  "mcp2515_frame_unpack_header header =
     (let extended = (header ! 1 AND SIDL_EXIDE \<noteq> 0);
          message = can_message_zero\<lparr>msg_extended := extended\<rparr>;
          sid = push_bit 3 (ucast (header ! 0)) OR (ucast (drop_bit 5 (header ! 1)) AND 7) :: u32;
          message =
            (if extended
             then
               (let eid = push_bit 16 (ucast (header ! 1 AND 3)) OR push_bit 8 (ucast (header ! 2))
                      OR ucast (header ! 3)
                in message\<lparr>msg_id := push_bit 18 sid OR eid\<rparr>)
             else message\<lparr>msg_id := sid\<rparr>)
      in message\<lparr>msg_remote := (header ! 4 AND DLC_RTR \<noteq> 0),
                 msg_length := can_dlc_to_length (ucast (header ! 4 AND DLC_MASK))\<rparr>)"

subsection \<open>Filter plans\<close>

abbreviation (input) "MCP2515_FILTER_SLOTS \<equiv> (6 :: nat)"
abbreviation (input) "MCP2515_BANK0_SLOTS \<equiv> (2 :: nat)"
abbreviation (input) "MCP2515_BANK1_SLOTS \<equiv> (4 :: nat)"

record mcp2515_filter_plan_t =
  plan_accept_all :: bool
  plan_filter_id :: "u32 list"
  plan_mask :: "u32 list"
  plan_mask_extended :: "bool list"

definition bank_leader :: "nat \<Rightarrow> nat" where
  "bank_leader filter_index = (if filter_index < MCP2515_BANK0_SLOTS then 0 else MCP2515_BANK0_SLOTS)"

definition mcp2515_filters_are_valid :: "can_filter_t list option \<Rightarrow> nat \<Rightarrow> bool" where
  "mcp2515_filters_are_valid filters count =
     (if count = 0 then True
      else
        (case filters of
           None \<Rightarrow> False
         | Some fs \<Rightarrow>
             if MCP2515_FILTER_SLOTS < count then False
             else if list_ex (\<lambda>i. flt_mask (fs ! i) AND CAN_FLAG_EXTENDED = 0
                       \<or> flt_mask (fs ! i) AND CAN_FLAG_RTR \<noteq> 0) [0..<count] then False
             else if list_ex (\<lambda>i. let leader = bank_leader i in
                       flt_mask (fs ! i) \<noteq> flt_mask (fs ! leader)
                       \<or> can_id_is_extended (flt_id (fs ! i)) \<noteq> can_id_is_extended (flt_id (fs ! leader)))
                    [1..<count] then False
             else True))"

text \<open>\<open>None\<close> is the result false, which leaves the plan as it was.\<close>

definition mcp2515_filter_plan :: "can_filter_t list option \<Rightarrow> nat \<Rightarrow> mcp2515_filter_plan_t option" where
  "mcp2515_filter_plan filters count =
     (if \<not> mcp2515_filters_are_valid filters count then None
      else if count = 0
      then Some \<lparr>plan_accept_all = True, plan_filter_id = replicate MCP2515_FILTER_SLOTS 0,
             plan_mask = [0, 0], plan_mask_extended = [False, False]\<rparr>
      else
        (let fs = the filters;
             bank0_count = (if count < MCP2515_BANK0_SLOTS then count else MCP2515_BANK0_SLOTS);
             bank0 = map (\<lambda>i. flt_id (fs ! (i mod bank0_count))) [0..<MCP2515_BANK0_SLOTS];
             bank1_first = MCP2515_BANK0_SLOTS;
             bank1_count = (if bank1_first < count then count - bank1_first else bank0_count);
             bank1_source = (if bank1_first < count then bank1_first else 0);
             bank1 = map (\<lambda>i. flt_id (fs ! (bank1_source + i mod bank1_count))) [0..<MCP2515_BANK1_SLOTS]
         in Some \<lparr>plan_accept_all = False, plan_filter_id = bank0 @ bank1,
              plan_mask = [flt_mask (fs ! 0), flt_mask (fs ! bank1_source)],
              plan_mask_extended = [can_id_is_extended (flt_id (fs ! 0)),
                                    can_id_is_extended (flt_id (fs ! bank1_source))]\<rparr>))"

subsection \<open>Bits of the layout\<close>

lemma length_pack_id [simp]: "length (mcp2515_frame_pack_id packed) = 4"
  by (simp add: mcp2515_frame_pack_id_def Let_def)

lemma mask_bits:
  "bit (0x3FFFF :: int) n \<longleftrightarrow> n < 18" "bit (7 :: int) n \<longleftrightarrow> n < 3" "bit (3 :: int) n \<longleftrightarrow> n < 2"
  "bit (0x0F :: int) n \<longleftrightarrow> n < 4" "bit (8 :: int) n \<longleftrightarrow> n = 3" "bit (0x40 :: int) n \<longleftrightarrow> n = 6"
  "bit (0xE0 :: int) n \<longleftrightarrow> 5 \<le> n \<and> n < 8" "bit (0xFFE0 :: int) n \<longleftrightarrow> 5 \<le> n \<and> n < 16"
  "bit (0x1C0000 :: int) n \<longleftrightarrow> 18 \<le> n \<and> n < 21"
proof -
  have "(0x3FFFF :: int) = mask 18" "(7 :: int) = mask 3" "(3 :: int) = mask 2" "(0x0F :: int) = mask 4"
    by (simp_all add: mask_eq_exp_minus_1)
  then show "bit (0x3FFFF :: int) n \<longleftrightarrow> n < 18" "bit (7 :: int) n \<longleftrightarrow> n < 3" "bit (3 :: int) n \<longleftrightarrow> n < 2"
    "bit (0x0F :: int) n \<longleftrightarrow> n < 4"
    by (auto simp only: bit_mask_iff) auto
  have "(8 :: int) = push_bit 3 1" "(0x40 :: int) = push_bit 6 1" by simp_all
  then show "bit (8 :: int) n \<longleftrightarrow> n = 3" "bit (0x40 :: int) n \<longleftrightarrow> n = 6"
    by (auto simp only: bit_push_bit_iff bit_1_iff) auto
  have "(0xE0 :: int) = push_bit 5 (mask 3)" "(0xFFE0 :: int) = push_bit 5 (mask 11)"
    by (simp_all add: mask_eq_exp_minus_1)
  moreover have "(0x1C0000 :: int) = push_bit 18 (mask 3)" by (simp add: mask_eq_exp_minus_1)
  ultimately show "bit (0xE0 :: int) n \<longleftrightarrow> 5 \<le> n \<and> n < 8" "bit (0xFFE0 :: int) n \<longleftrightarrow> 5 \<le> n \<and> n < 16"
    "bit (0x1C0000 :: int) n \<longleftrightarrow> 18 \<le> n \<and> n < 21"
    by (auto simp only: bit_push_bit_iff bit_mask_iff) auto
qed

lemma bit_can_id_value:
  "bit (can_id_value packed) n \<longleftrightarrow> bit packed n \<and> n < (if can_id_is_extended packed then 29 else 11)"
  by (auto simp: can_id_value_def bit_and_iff can_id_bits)

lemma pack_id_extended:
  assumes "can_id_is_extended packed"
  shows "bit (mcp2515_frame_pack_id packed ! 0) k \<longleftrightarrow> k < 8 \<and> bit packed (21 + k)"
    and "bit (mcp2515_frame_pack_id packed ! Suc 0) k \<longleftrightarrow>
      k < 8 \<and> (5 \<le> k \<and> bit packed (13 + k) \<or> k = 3 \<or> k < 2 \<and> bit packed (16 + k))"
    and "bit (mcp2515_frame_pack_id packed ! 2) k \<longleftrightarrow> k < 8 \<and> bit packed (8 + k)"
    and "bit (mcp2515_frame_pack_id packed ! 3) k \<longleftrightarrow> k < 8 \<and> bit packed k"
  using assms
  by (auto simp: mcp2515_frame_pack_id_def Let_def bit_simps bit_can_id_value can_id_bits mask_bits add.commute)

lemma pack_id_standard:
  assumes "\<not> can_id_is_extended packed"
  shows "bit (mcp2515_frame_pack_id packed ! 0) k \<longleftrightarrow> k < 8 \<and> bit packed (3 + k)"
    and "bit (mcp2515_frame_pack_id packed ! Suc 0) k \<longleftrightarrow> k < 8 \<and> 5 \<le> k \<and> bit packed (k - 5)"
    and "mcp2515_frame_pack_id packed ! 2 = 0" and "mcp2515_frame_pack_id packed ! 3 = 0"
  using assms
  by (auto simp: mcp2515_frame_pack_id_def Let_def bit_simps bit_can_id_value can_id_bits mask_bits add.commute)

lemma exide_bit: "(b AND SIDL_EXIDE \<noteq> 0) = bit (b :: u8) 3"
  by (auto simp: bit_eq_iff [of _ 0] bit_and_iff mask_bits)

lemma dlc_rtr_bit: "(b AND DLC_RTR \<noteq> 0) = bit (b :: u8) 6"
  by (auto simp: bit_eq_iff [of _ 0] bit_and_iff mask_bits)

text \<open>The identifier read back from the four register bytes.\<close>

lemma unpack_id_extended:
  fixes h :: "u8 list"
  assumes h: "\<forall>i<4. h ! i = mcp2515_frame_pack_id packed ! i" and e: "can_id_is_extended packed"
  shows "push_bit 18 (push_bit 3 (ucast (h ! 0)) OR (ucast (drop_bit 5 (h ! 1)) AND 7)) OR
      (push_bit 16 (ucast (h ! 1 AND 3)) OR push_bit 8 (ucast (h ! 2)) OR ucast (h ! 3)) = can_id_value packed"
    (is "?w = _")
proof (rule bit_word_eqI)
  fix n assume "n < LENGTH(32)"
  then consider "n < 8" | "8 \<le> n" "n < 16" | "16 \<le> n" "n < 18" | "18 \<le> n" "n < 21" | "21 \<le> n" "n < 29" | "29 \<le> n" "n < 32"
    by fastforce
  then show "bit ?w n \<longleftrightarrow> bit (can_id_value packed) n"
    by cases (auto simp: h bit_can_id_value e bit_simps pack_id_extended mask_bits)
qed

lemma unpack_id_standard:
  fixes h :: "u8 list"
  assumes h: "\<forall>i<4. h ! i = mcp2515_frame_pack_id packed ! i" and e: "\<not> can_id_is_extended packed"
  shows "push_bit 3 (ucast (h ! 0)) OR (ucast (drop_bit 5 (h ! 1)) AND 7) = can_id_value packed"
    (is "?w = _")
proof (rule bit_word_eqI)
  fix n assume "n < LENGTH(32)"
  then consider "n < 3" | "3 \<le> n" "n < 11" | "11 \<le> n" "n < 32" by fastforce
  then show "bit ?w n \<longleftrightarrow> bit (can_id_value packed) n"
    by cases (auto simp: h bit_can_id_value e bit_simps pack_id_standard mask_bits)
qed

lemma pack_id_type: "(mcp2515_frame_pack_id packed ! 1 AND SIDL_EXIDE \<noteq> 0) = can_id_is_extended packed"
  by (cases "can_id_is_extended packed") (simp_all add: exide_bit pack_id_extended pack_id_standard)

lemma valid_length_bits:
  assumes "len \<le> (8 :: u8)" and "bit len n"
  shows "n < 4"
proof -
  have "unat len < 2 ^ 4" using assms by (simp add: word_le_nat_alt)
  then have "take_bit 4 (unat len) = unat len" by (simp add: take_bit_nat_eq_self)
  moreover have "bit (unat len) n" using assms(2) by (simp add: bit_unsigned_iff)
  ultimately show ?thesis by (metis bit_take_bit_iff)
qed

lemma length_and_mask:
  assumes "len \<le> (8 :: u8)"
  shows "len AND DLC_MASK = len" and "\<not> bit len 6"
  using valid_length_bits [OF assms] by (auto simp: bit_and_iff mask_bits intro!: bit_word_eqI) fastforce

lemma unpack_pack_header:
  assumes "frame_ok m"
  shows "mcp2515_frame_unpack_header (mcp2515_frame_pack_header m) = m\<lparr>msg_data := replicate 8 0\<rparr>"
proof -
  let ?packed = "can_id_pack (msg_id m) (msg_extended m) (msg_remote m)"
  let ?h = "mcp2515_frame_pack_header m"
  have id_ok: "can_id_is_valid (msg_id m) (msg_extended m)" and len: "msg_length m \<le> 8"
    using assms by (auto simp: frame_ok_def can_message_is_valid_def)
  note packed = can_id_pack_spec [OF id_ok, of "msg_remote m"]
  have h: "\<forall>i<4. ?h ! i = mcp2515_frame_pack_id ?packed ! i"
    by (simp add: mcp2515_frame_pack_header_def Let_def nth_append)
  have h4: "?h ! 4 = (if msg_remote m then msg_length m OR DLC_RTR else msg_length m)"
    by (simp add: mcp2515_frame_pack_header_def Let_def nth_append length_and_mask [OF len])
  have dlc: "?h ! 4 AND DLC_MASK = msg_length m"
    using length_and_mask [OF len] valid_length_bits [OF len]
    by (auto simp: h4 bit_simps mask_bits intro!: bit_word_eqI)
  have rtr: "(?h ! 4 AND DLC_RTR \<noteq> 0) = msg_remote m"
    using length_and_mask(2) [OF len] by (simp add: h4 dlc_rtr_bit bit_or_iff mask_bits)
  have type: "(?h ! 1 AND SIDL_EXIDE \<noteq> 0) = msg_extended m"
    using pack_id_type [of ?packed] by (simp add: h packed)
  show ?thesis
  proof (cases "msg_extended m")
    case True
    have "can_id_is_extended ?packed" unfolding packed(2) by (rule True)
    note ident = unpack_id_extended [of ?h ?packed, OF h this, unfolded packed(1)]
    show ?thesis
      unfolding mcp2515_frame_unpack_header_def Let_def type rtr dlc dlc_of_valid [OF len] ident
      using True by (simp add: can_message_zero_def)
  next
    case False
    have "\<not> can_id_is_extended ?packed" unfolding packed(2) by (rule False)
    note ident = unpack_id_standard [of ?h ?packed, OF h this, unfolded packed(1)]
    show ?thesis
      unfolding mcp2515_frame_unpack_header_def Let_def type rtr dlc dlc_of_valid [OF len] ident
      using False by (simp add: can_message_zero_def)
  qed
qed

subsection \<open>What a programmed plan accepts\<close>

text \<open>
  The comparison \<open>mcp2515_filters.h\<close> and \<open>mcp2515_frame.h\<close> describe, on the four register bytes of a
  filter and of its bank's mask: the frame type is compared exactly, then every bit the mask sets,
  the bits of the SID field and of the EID field. \<open>rx\<close> is what the controller compares with them; for a
  standard frame its EID bytes are the first two data bytes.
\<close>

definition sid_eid_bits :: "nat \<Rightarrow> u8" where
  "sid_eid_bits i = (if i = 1 then 0xE3 else 0xFF)"

definition registers_match :: "u8 list \<Rightarrow> u8 list \<Rightarrow> u8 list \<Rightarrow> bool" where
  "registers_match m f rx \<longleftrightarrow> (f ! 1 AND SIDL_EXIDE) = (rx ! 1 AND SIDL_EXIDE)
     \<and> (\<forall>i<4. rx ! i AND (m ! i AND sid_eid_bits i) = f ! i AND (m ! i AND sid_eid_bits i))"

definition plan_accepts :: "mcp2515_filter_plan_t \<Rightarrow> u8 list \<Rightarrow> bool" where
  "plan_accepts plan rx \<longleftrightarrow> plan_accept_all plan \<or>
     (\<exists>i<6. let bank = (if i < 2 then 0 else 1) in
        registers_match (mcp2515_frame_pack_mask (plan_mask plan ! bank) (plan_mask_extended plan ! bank))
          (mcp2515_frame_pack_id (plan_filter_id plan ! i)) rx)"

text \<open>What the controller sees of a frame: its header bytes, and for a standard frame any payload.\<close>

definition received_as :: "u32 \<Rightarrow> u8 list \<Rightarrow> bool" where
  "received_as packed rx \<longleftrightarrow> length rx = 4 \<and> (\<forall>i<2. rx ! i = mcp2515_frame_pack_id packed ! i)
     \<and> (can_id_is_extended packed \<longrightarrow> rx = mcp2515_frame_pack_id packed)"

lemma all_lt_4: "(\<forall>i<4. P i) \<longleftrightarrow> P 0 \<and> P (Suc 0) \<and> P 2 \<and> P (3 :: nat)"
  by (simp add: numeral_eq_Suc All_less_Suc) auto

lemma all_lt_2: "(\<forall>i<2. P i) \<longleftrightarrow> P 0 \<and> P (Suc (0 :: nat))"
  by (simp add: numeral_eq_Suc All_less_Suc) auto

lemma masked_byte_eq:
  "(x :: u8) AND (m AND k) = y AND (m AND k) \<longleftrightarrow> (\<forall>n<8. bit m n \<and> bit k n \<longrightarrow> bit x n = bit y n)"
  by (auto simp: bit_eq_iff [of "x AND (m AND k)"] bit_and_iff)

lemma bit_sid_eid_bits:
  "bit (sid_eid_bits i) n \<longleftrightarrow> n < 8 \<and> (i = 1 \<longrightarrow> 5 \<le> n \<or> n < 2)"
proof -
  have "(0xFF :: int) = mask 8" "(0xE3 :: int) = push_bit 5 (mask 3) OR mask 2" by (simp_all add: mask_eq_exp_minus_1)
  then have "bit (0xFF :: int) n \<longleftrightarrow> n < 8" "bit (0xE3 :: int) n \<longleftrightarrow> n < 8 \<and> (5 \<le> n \<or> n < 2)"
    by (auto simp only: bit_or_iff bit_push_bit_iff bit_mask_iff) auto
  then show ?thesis by (auto simp: sid_eid_bits_def)
qed

text \<open>Splitting a range of identifier bits at the byte boundaries of the registers.\<close>

lemma all_bits_split:
  "(\<forall>n<29. P n) \<longleftrightarrow> (\<forall>k<8. P (21 + k)) \<and> (\<forall>k<3. P (18 + k)) \<and> (\<forall>k<2. P (16 + k)) \<and> (\<forall>k<8. P (8 + k)) \<and> (\<forall>k<8. P (k :: nat))"
proof safe
  fix n :: nat assume *: "\<forall>k<8. P (21 + k)" "\<forall>k<3. P (18 + k)" "\<forall>k<2. P (16 + k)" "\<forall>k<8. P (8 + k)" "\<forall>k<8. P k"
  assume "n < 29"
  then consider "n < 8" | "8 \<le> n" "n < 16" | "16 \<le> n" "n < 18" | "18 \<le> n" "n < 21" | "21 \<le> n" "n < 29" by fastforce
  then show "P n"
  proof cases
    case 2 then show ?thesis using *(4) [rule_format, of "n - 8"] by simp
  next
    case 3 then show ?thesis using *(3) [rule_format, of "n - 16"] by simp
  next
    case 4 then show ?thesis using *(2) [rule_format, of "n - 18"] by simp
  next
    case 5 then show ?thesis using *(1) [rule_format, of "n - 21"] by simp
  qed (use * in simp)
qed simp_all

text \<open>The comparison of each register byte, in terms of the identifier bits it holds.\<close>

abbreviation (input) byte_match :: "nat \<Rightarrow> u32 \<Rightarrow> u32 \<Rightarrow> u32 \<Rightarrow> bool" where
  "byte_match i m x y \<equiv> (\<forall>n<8. bit (mcp2515_frame_pack_id m ! i) n \<and> bit (sid_eid_bits i) n \<longrightarrow>
     bit (mcp2515_frame_pack_id x ! i) n = bit (mcp2515_frame_pack_id y ! i) n)"

lemma bytes_extended:
  assumes "can_id_is_extended m" and "can_id_is_extended x" and "can_id_is_extended y"
  shows "byte_match 0 m x y \<longleftrightarrow> (\<forall>k<8. bit m (21 + k) \<longrightarrow> bit x (21 + k) = bit y (21 + k))"
    and "byte_match (Suc 0) m x y \<longleftrightarrow> (\<forall>k<3. bit m (18 + k) \<longrightarrow> bit x (18 + k) = bit y (18 + k))
      \<and> (\<forall>k<2. bit m (16 + k) \<longrightarrow> bit x (16 + k) = bit y (16 + k))"
    and "byte_match 2 m x y \<longleftrightarrow> (\<forall>k<8. bit m (8 + k) \<longrightarrow> bit x (8 + k) = bit y (8 + k))"
    and "byte_match 3 m x y \<longleftrightarrow> (\<forall>k<8. bit m k \<longrightarrow> bit x k = bit y k)"
  unfolding bit_sid_eid_bits pack_id_extended [OF assms(1)] pack_id_extended [OF assms(2)] pack_id_extended [OF assms(3)]
  by (simp_all add: eval_nat_numeral All_less_Suc)

lemma bytes_standard:
  assumes "\<not> can_id_is_extended m" and "\<not> can_id_is_extended x" and "\<not> can_id_is_extended y"
  shows "byte_match 0 m x y \<longleftrightarrow> (\<forall>k<8. bit m (3 + k) \<longrightarrow> bit x (3 + k) = bit y (3 + k))"
    and "byte_match (Suc 0) m x y \<longleftrightarrow> (\<forall>k<3. bit m k \<longrightarrow> bit x k = bit y k)"
  unfolding bit_sid_eid_bits pack_id_standard [OF assms(1)] pack_id_standard [OF assms(2)] pack_id_standard [OF assms(3)]
  by (simp_all add: eval_nat_numeral All_less_Suc)

lemma standard_bits_split:
  "(\<forall>k<8. P (3 + k)) \<and> (\<forall>k<3. P k) \<longleftrightarrow> (\<forall>n<11. P (n :: nat))"
  by (simp add: eval_nat_numeral All_less_Suc)

text \<open>One filter slot, programmed in the layout of its own frame type, accepts what the filter matches.\<close>

lemma slot_matches:
  assumes f: "can_id_is_valid fi fe" and ty: "bit m 31" and rtr: "\<not> bit m 30"
    and frame: "can_id_is_valid ident ext" and rx: "received_as (can_id_pack ident ext rem) rx"
  shows "registers_match (mcp2515_frame_pack_mask m fe) (mcp2515_frame_pack_id (can_id_pack fi fe fr)) rx
    \<longleftrightarrow> can_filter_matches (Some \<lparr>flt_id = can_id_pack fi fe fr, flt_mask = m\<rparr>) (can_id_pack ident ext rem)"
    (is "?match \<longleftrightarrow> ?accept")
proof -
  let ?fp = "can_id_pack fi fe fr" and ?p = "can_id_pack ident ext rem"
  note fe = can_id_pack_spec(2) [OF f, of fr] and ext = can_id_pack_spec(2) [OF frame, of rem]
  have mask_ext: "mcp2515_frame_pack_mask m fe = mcp2515_frame_pack_id mm" "can_id_is_extended mm = fe"
      "\<forall>n<29. bit mm n = bit m n" if "mm = (if fe then m OR CAN_FLAG_EXTENDED else m AND NOT CAN_FLAG_EXTENDED)" for mm
    using that by (auto simp: mcp2515_frame_pack_mask_def can_flag_test bit_simps can_id_bits)
  obtain mm where mm: "mcp2515_frame_pack_mask m fe = mcp2515_frame_pack_id mm" "can_id_is_extended mm = fe"
      "\<forall>n<29. bit mm n = bit m n"
    using mask_ext by blast
  have mm_bit: "n < 29 \<Longrightarrow> bit mm n = bit m n" for n using mm(3) by blast
  have rx01: "rx ! 0 = mcp2515_frame_pack_id ?p ! 0" "rx ! Suc 0 = mcp2515_frame_pack_id ?p ! Suc 0"
    using rx by (auto simp: received_as_def)
  have type: "(mcp2515_frame_pack_id ?fp ! 1 AND SIDL_EXIDE) = (rx ! 1 AND SIDL_EXIDE) \<longleftrightarrow> fe = ext"
  proof -
    have *: "(x :: u8) AND 8 = y AND 8 \<longleftrightarrow> bit x 3 = bit y 3" for x y
      by (auto simp: bit_eq_iff [of "x AND 8"] bit_and_iff mask_bits dest: spec [of _ 3])
    show ?thesis
      unfolding One_nat_def rx01 * using pack_id_type [of ?fp] pack_id_type [of ?p] fe ext by (simp add: exide_bit)
  qed
  have bits: "?accept \<longleftrightarrow> fe = ext \<and> (\<forall>n<29. bit m n \<longrightarrow> bit ?p n = bit ?fp n)"
  proof -
    have "bit m n \<Longrightarrow> n < 32" for n using bit_imp_le_length [of m n] by simp
    then have "n < 29 \<or> n = 29 \<or> n = 31" if "bit m n" for n
      using that rtr by (cases "n = 30") force+
    moreover have "bit ?p 31 = bit ?fp 31 \<longleftrightarrow> fe = ext" "bit ?p 29 = bit ?fp 29"
      by (auto simp: bit_can_id_pack)
    ultimately have "(\<forall>n. bit m n \<longrightarrow> bit ?p n = bit ?fp n) \<longleftrightarrow>
        fe = ext \<and> (\<forall>n<29. bit m n \<longrightarrow> bit ?p n = bit ?fp n)"
      using ty by blast
    then show ?thesis by (simp only: can_filter_bits can_filter_t.select_convs)
  qed
  show ?thesis
  proof (cases "fe = ext")
    case False
    with type bits show ?thesis by (auto simp: registers_match_def)
  next
    case same: True
    have "?match \<longleftrightarrow> (\<forall>n<29. bit m n \<longrightarrow> bit ?p n = bit ?fp n)"
    proof (cases fe)
      case True
      then have rx4: "rx = mcp2515_frame_pack_id ?p" using rx same ext by (simp add: received_as_def)
      have e: "can_id_is_extended ?fp" "can_id_is_extended ?p" "can_id_is_extended mm" using True same fe ext mm(2) by simp_all
      have "?match \<longleftrightarrow> byte_match 0 mm ?p ?fp \<and> byte_match (Suc 0) mm ?p ?fp \<and> byte_match 2 mm ?p ?fp \<and> byte_match 3 mm ?p ?fp"
        unfolding registers_match_def type mm(1) all_lt_4 masked_byte_eq using same by (simp only: rx4 simp_thms)
      also have "\<dots> \<longleftrightarrow> (\<forall>n<29. bit m n \<longrightarrow> bit ?p n = bit ?fp n)"
        unfolding bytes_extended [OF e(3,2,1)] all_bits_split using mm_bit by auto
      finally show ?thesis .
    next
      case False
      have e: "\<not> can_id_is_extended ?fp" "\<not> can_id_is_extended ?p" "\<not> can_id_is_extended mm"
        using False same fe ext mm(2) by simp_all
      have "?match \<longleftrightarrow> byte_match 0 mm ?p ?fp \<and> byte_match (Suc 0) mm ?p ?fp"
        unfolding registers_match_def type mm(1) all_lt_4 masked_byte_eq rx01
        using same by (simp add: pack_id_standard(3,4) [OF e(3)])
      also have "\<dots> \<longleftrightarrow> (\<forall>n<11. bit m n \<longrightarrow> bit ?p n = bit ?fp n)"
        unfolding bytes_standard [OF e(3,2,1)] standard_bits_split [symmetric] using mm_bit by auto
      also have "\<dots> \<longleftrightarrow> (\<forall>n<29. bit m n \<longrightarrow> bit ?p n = bit ?fp n)"
      proof -
        have "bit ?p n = bit ?fp n" if "n < 29" "\<not> n < 11" for n
          using that False same by (simp add: bit_can_id_pack)
        moreover have "n < 29" if "n < 11" for n :: nat using that by simp
        ultimately show ?thesis by blast
      qed
      finally show ?thesis .
    qed
    with bits same show ?thesis by simp
  qed
qed

text \<open>The filter each of the six slots repeats, for every number of filters.\<close>

fun slot_source :: "nat \<Rightarrow> nat list" where
  "slot_source count =
     (if count = 1 then [0, 0, 0, 0, 0, 0] else if count = 2 then [0, 1, 0, 1, 0, 1]
      else if count = 3 then [0, 1, 2, 2, 2, 2] else if count = 4 then [0, 1, 2, 3, 2, 3]
      else if count = 5 then [0, 1, 2, 3, 4, 2] else [0, 1, 2, 3, 4, 5])"

lemma count_cases:
  assumes "0 < count" and "count \<le> (6 :: nat)"
  obtains "count = 1" | "count = 2" | "count = 3" | "count = 4" | "count = 5" | "count = 6"
  using assms by fastforce

lemma slot_source_range: "0 < count \<Longrightarrow> count \<le> 6 \<Longrightarrow> set (slot_source count) = {0..<count} \<and> length (slot_source count) = 6"
  by (erule (1) count_cases) auto

lemma valid_filters_agree:
  assumes "mcp2515_filters_are_valid (Some fs) count" and "0 < count"
  shows "count \<le> 6"
    and "i < count \<Longrightarrow> bit (flt_mask (fs ! i)) 31 \<and> \<not> bit (flt_mask (fs ! i)) 30"
    and "i < count \<Longrightarrow> flt_mask (fs ! i) = flt_mask (fs ! bank_leader i)
      \<and> can_id_is_extended (flt_id (fs ! i)) = can_id_is_extended (flt_id (fs ! bank_leader i))"
proof -
  let ?P = "\<lambda>i. flt_mask (fs ! i) AND CAN_FLAG_EXTENDED = 0 \<or> flt_mask (fs ! i) AND CAN_FLAG_RTR \<noteq> 0"
  let ?Q = "\<lambda>i. let leader = bank_leader i in flt_mask (fs ! i) \<noteq> flt_mask (fs ! leader)
    \<or> can_id_is_extended (flt_id (fs ! i)) \<noteq> can_id_is_extended (flt_id (fs ! leader))"
  have h: "\<not> 6 < count" "\<not> list_ex ?P [0..<count]" "\<not> list_ex ?Q [1..<count]"
    using assms by (simp_all only: mcp2515_filters_are_valid_def option.case if_False split: if_splits) blast+
  from h(1) show "count \<le> 6" by simp
  show "bit (flt_mask (fs ! i)) 31 \<and> \<not> bit (flt_mask (fs ! i)) 30" if "i < count"
  proof -
    have "\<not> ?P i" using h(2) that unfolding list_ex_iff by (metis atLeastLessThan_iff le0 set_upt)
    then show ?thesis
      using can_flag_test [of "flt_mask (fs ! i)"] by (simp only: can_id_is_extended_def can_id_is_remote_def) blast
  qed
  show "flt_mask (fs ! i) = flt_mask (fs ! bank_leader i)
      \<and> can_id_is_extended (flt_id (fs ! i)) = can_id_is_extended (flt_id (fs ! bank_leader i))" if "i < count"
  proof (cases "i = 0")
    case False
    then have "i \<in> set [1..<count]" using that by simp
    then have "\<not> ?Q i" using h(3) unfolding list_ex_iff by blast
    then show ?thesis by (simp only: Let_def) blast
  qed (simp add: bank_leader_def)
qed

lemma plan_slots:
  assumes "mcp2515_filter_plan (Some fs) count = Some plan" and "0 < count" and "i < 6"
  shows "plan_filter_id plan ! i = flt_id (fs ! (slot_source count ! i))"
    and "plan_mask plan ! (if i < 2 then 0 else 1) = flt_mask (fs ! (slot_source count ! i))"
    and "plan_mask_extended plan ! (if i < 2 then 0 else 1) = can_id_is_extended (flt_id (fs ! (slot_source count ! i)))"
    and "\<not> plan_accept_all plan"
proof -
  have valid: "mcp2515_filters_are_valid (Some fs) count"
    using assms(1) by (auto simp: mcp2515_filter_plan_def split: if_splits)
  note agree = valid_filters_agree [OF valid assms(2)]
  have bound: "count \<le> 6" by (rule agree(1))
  have six: "i = 0 \<or> i = 1 \<or> i = 2 \<or> i = 3 \<or> i = 4 \<or> i = 5" using assms(3) by linarith
  have upto: "[0..<2] = [0, 1]" "[0..<4] = [0, 1, 2, 3 :: nat]" by (simp_all add: upt_rec)
  have sucs: "Suc (Suc 0) = 2" "Suc 2 = 3" "Suc 3 = 4" "Suc 4 = 5" by simp_all
  have "count \<noteq> 0" using assms(2) by simp
  note plan = assms(1) [unfolded mcp2515_filter_plan_def Let_def upto option.sel if_not_P [OF this]]
  have lists: "plan_filter_id plan = map (\<lambda>i. flt_id (fs ! i)) (slot_source count)"
      "plan_mask plan = [flt_mask (fs ! 0), flt_mask (fs ! (if 2 < count then 2 else 0))]"
      "plan_mask_extended plan = [can_id_is_extended (flt_id (fs ! 0)),
        can_id_is_extended (flt_id (fs ! (if 2 < count then 2 else 0)))]" "\<not> plan_accept_all plan"
    using plan valid
    by (atomize (full), cases rule: count_cases [OF assms(2) bound]) (auto simp: sucs)
  show "plan_filter_id plan ! i = flt_id (fs ! (slot_source count ! i))" "\<not> plan_accept_all plan"
    using lists slot_source_range [OF assms(2) bound] assms(3) by simp_all
  have leader: "bank_leader (slot_source count ! i) = (if i < 2 then 0 else if 2 < count then 2 else 0)"
    using six by (cases rule: count_cases [OF assms(2) bound]) (auto simp: bank_leader_def)
  have "slot_source count ! i < count"
    using slot_source_range [OF assms(2) bound] assms(3) nth_mem [of i "slot_source count"] by simp
  from agree(3) [OF this] leader
  show "plan_mask plan ! (if i < 2 then 0 else 1) = flt_mask (fs ! (slot_source count ! i))"
    "plan_mask_extended plan ! (if i < 2 then 0 else 1) = can_id_is_extended (flt_id (fs ! (slot_source count ! i)))"
    by (auto simp: lists)
qed

definition packed_filter :: "can_filter_t \<Rightarrow> bool" where
  "packed_filter f \<longleftrightarrow> (\<exists>ident ext rem. can_id_is_valid ident ext \<and> flt_id f = can_id_pack ident ext rem)"

lemma plan_accepts_filters:
  assumes plan: "mcp2515_filter_plan (Some fs) count = Some plan" and n: "count \<le> length fs"
    and packed: "\<forall>f \<in> set fs. packed_filter f"
    and frame: "can_id_is_valid ident ext" and rx: "received_as (can_id_pack ident ext rem) rx"
  shows "plan_accepts plan rx \<longleftrightarrow> can_filters_accept (Some (take count fs)) (can_id_pack ident ext rem)"
proof (cases "count = 0")
  case True
  have "plan_accept_all plan"
    using plan unfolding True mcp2515_filter_plan_def mcp2515_filters_are_valid_def by auto
  then show ?thesis by (simp add: True plan_accepts_def can_filters_accept_def)
next
  case False
  then have pos: "0 < count" by simp
  have valid: "mcp2515_filters_are_valid (Some fs) count"
    using plan unfolding mcp2515_filter_plan_def by (cases "mcp2515_filters_are_valid (Some fs) count") simp_all
  note slots = plan_slots [OF plan pos] and agree = valid_filters_agree [OF valid pos]
  let ?src = "\<lambda>i. slot_source count ! i"
  have src: "set (slot_source count) = {0..<count}" "length (slot_source count) = 6"
    using slot_source_range [OF pos agree(1)] by simp_all
  have slot: "registers_match (mcp2515_frame_pack_mask (plan_mask plan ! bank) (plan_mask_extended plan ! bank))
        (mcp2515_frame_pack_id (plan_filter_id plan ! i)) rx
      \<longleftrightarrow> can_filter_matches (Some (fs ! ?src i)) (can_id_pack ident ext rem)"
    if i: "i < 6" and bank: "bank = (if i < 2 then 0 else 1)" for i bank
  proof -
    have lt: "?src i < count" using src i by (metis atLeastLessThan_iff nth_mem)
    with n packed obtain fi fe fr where f: "can_id_is_valid fi fe" "flt_id (fs ! ?src i) = can_id_pack fi fe fr"
      by (metis nth_mem less_le_trans packed_filter_def)
    have whole: "Some \<lparr>flt_id = can_id_pack fi fe fr, flt_mask = flt_mask (fs ! ?src i)\<rparr> = Some (fs ! ?src i)"
      by (simp flip: f(2))
    have "bit (flt_mask (fs ! ?src i)) 31" "\<not> bit (flt_mask (fs ! ?src i)) 30" using agree(2) [OF lt] by blast+
    from slot_matches [OF f(1) this frame rx, of fr] show ?thesis
      unfolding bank slots(1-3) [OF i] whole f(2) can_id_pack_spec(2) [OF f(1)] .
  qed
  have "plan_accepts plan rx \<longleftrightarrow> (\<exists>i<6. can_filter_matches (Some (fs ! ?src i)) (can_id_pack ident ext rem))"
    unfolding plan_accepts_def Let_def
    by (simp only: slots(4) [OF zero_less_numeral] simp_thms slot [OF _ refl] cong: conj_cong)
  also have "\<dots> \<longleftrightarrow> (\<exists>j \<in> set (slot_source count). can_filter_matches (Some (fs ! j)) (can_id_pack ident ext rem))"
    by (metis src(2) in_set_conv_nth)
  also have "\<dots> \<longleftrightarrow> (\<exists>f \<in> set (take count fs). can_filter_matches (Some f) (can_id_pack ident ext rem))"
    using n unfolding src(1) by (fastforce simp: in_set_conv_nth)
  finally show ?thesis
    using False n by (auto simp: can_filters_accept_def any_filter_iff)
qed

subsection \<open>Properties\<close>

text \<open>A frame header survives the register layout. Packing a valid frame's identifier, flags and
  length into the five bytes of a transmit buffer and unpacking such bytes gives them back; the data
  bytes are no part of it.\<close>

theorem mcp2515_header_roundtrip:
  assumes "frame_ok m"
  shows "mcp2515_frame_unpack_header (mcp2515_frame_pack_header m) = m\<lparr>msg_data := replicate 8 0\<rparr>"
  using assms by (rule unpack_pack_header)

lemma mcp2515_header_roundtrip_witness:
  "mcp2515_frame_unpack_header (mcp2515_frame_pack_header
     \<lparr>msg_id = 0x1ABCDEF0, msg_length = 3, msg_extended = True, msg_remote = True, msg_data = [1, 2, 3, 4, 5, 6, 7, 8]\<rparr>)
   = \<lparr>msg_id = 0x1ABCDEF0, msg_length = 3, msg_extended = True, msg_remote = True, msg_data = replicate 8 0\<rparr>"
proof -
  have "frame_ok \<lparr>msg_id = 0x1ABCDEF0, msg_length = 3, msg_extended = True, msg_remote = True, msg_data = [1, 2, 3, 4, 5, 6, 7, 8]\<rparr>"
    by (simp add: frame_ok_def can_message_is_valid_def can_id_is_valid_def)
  from mcp2515_header_roundtrip [OF this] show ?thesis by simp
qed

text \<open>A filter plan accepts exactly what its filters accept. For any list of at most six filters that
  the controller can express, the registers the plan programs match a received frame, whatever the
  payload of a standard frame, exactly when one of the filters matches its identifier: no receive buffer is
  left open and no mask is laid out for the wrong frame type.\<close>

theorem mcp2515_plan_exact:
  assumes plan: "mcp2515_filter_plan (Some fs) count = Some plan" and n: "count \<le> length fs"
    and packed: "\<forall>f \<in> set fs. packed_filter f"
    and frame: "can_id_is_valid ident ext" and rx: "received_as (can_id_pack ident ext rem) rx"
  shows "plan_accepts plan rx \<longleftrightarrow> can_filters_accept (Some (take count fs)) (can_id_pack ident ext rem)"
  using assms by (rule plan_accepts_filters)

lemma mcp2515_plan_exact_witness:
  "\<exists>plan. mcp2515_filter_plan (Some [\<lparr>flt_id = can_id_pack 0x123 False False, flt_mask = 0x800007FF\<rparr>]) 1 = Some plan
     \<and> \<not> plan_accepts plan [0x24, 0x80, 0xAA, 0xBB] \<and> plan_accepts plan [0x24, 0x60, 0xAA, 0xBB]"
proof -
  let ?fs = "[\<lparr>flt_id = can_id_pack 0x123 False False, flt_mask = 0x800007FF\<rparr>]"
  have "mcp2515_filters_are_valid (Some ?fs) 1" by code_simp
  then obtain plan where plan: "mcp2515_filter_plan (Some ?fs) 1 = Some plan"
    unfolding mcp2515_filter_plan_def Let_def by simp
  have one: "1 \<le> length ?fs" by simp
  have ids: "can_id_is_valid 0x124 False" "can_id_is_valid 0x123 False" by (simp_all add: can_id_is_valid_def)
  have packed: "\<forall>f \<in> set ?fs. packed_filter f"
    using ids(2) by (simp add: packed_filter_def) blast
  have rx: "received_as (can_id_pack 0x124 False False) [0x24, 0x80, 0xAA, 0xBB]"
    "received_as (can_id_pack 0x123 False False) [0x24, 0x60, 0xAA, 0xBB]"
    by (simp_all add: received_as_def all_lt_2 can_id_pack_def mcp2515_frame_pack_id_def can_id_is_extended_def can_id_value_def Let_def)
  have "\<not> can_filters_accept (Some (take 1 ?fs)) (can_id_pack 0x124 False False)"
    "can_filters_accept (Some (take 1 ?fs)) (can_id_pack 0x123 False False)"
    by code_simp+
  then show ?thesis
    using mcp2515_plan_exact [OF plan one packed ids(1) rx(1)] mcp2515_plan_exact [OF plan one packed ids(2) rx(2)] plan
    by blast
qed

end
