(* ===== verification/Mcp2515_Timing.thy ===== *)
theory Mcp2515_Timing
  imports Prelude
begin

text \<open>
  Model of \<open>components/mcp2515/mcp2515_timing.c\<close>: the bit timing registers for an oscillator and a bit
  rate, and the wait after a reset. The 64-bit intermediate values of the code are naturals here: the
  largest, twice a 32-bit bit rate, is below \<open>2^33\<close>. The search for the number of quanta is a fold
  over the candidates in the order of the loop.
\<close>

abbreviation (input) "MIN_TQ_PER_BIT \<equiv> (8 :: nat)"
abbreviation (input) "MAX_TQ_PER_BIT \<equiv> (25 :: nat)"
abbreviation (input) "MAX_BRP \<equiv> (63 :: nat)"
abbreviation (input) "PREFERRED_TQ_PER_BIT \<equiv> (16 :: nat)"
abbreviation (input) "MAX_PROP_PHSEG1_SUM \<equiv> (16 :: nat)"
abbreviation (input) "MIN_PHSEG2 \<equiv> (2 :: nat)"
abbreviation (input) "MAX_PHSEG2 \<equiv> (8 :: nat)"

record mcp2515_bit_timing_t =
  cnf1 :: u8
  cnf2 :: u8
  cnf3 :: u8

text \<open>The body of the loop over \<open>ntq\<close>; the state is \<open>found\<close> with the best quanta, prescaler and distance.\<close>

definition ntq_step :: "nat \<Rightarrow> nat \<Rightarrow> (nat \<times> nat \<times> nat) option \<Rightarrow> (nat \<times> nat \<times> nat) option" where
  "ntq_step target ntq best =
     (if target mod ntq \<noteq> 0 then best
      else
        (let brp_plus_one = target div ntq in
         if brp_plus_one = 0 \<or> MAX_BRP + 1 < brp_plus_one then best
         else
           (let distance = (if PREFERRED_TQ_PER_BIT < ntq then ntq - PREFERRED_TQ_PER_BIT
                            else PREFERRED_TQ_PER_BIT - ntq) in
            case best of
              None \<Rightarrow> Some (ntq, brp_plus_one - 1, distance)
            | Some (best_ntq, best_brp, best_distance) \<Rightarrow>
                if distance < best_distance then Some (ntq, brp_plus_one - 1, distance) else best)))"

definition find_ntq_and_brp :: "u32 \<Rightarrow> u32 \<Rightarrow> (nat \<times> nat) option" where
  "find_ntq_and_brp oscillator_hz bitrate =
     (let denominator = 2 * unat bitrate in
      if denominator = 0 \<or> unat oscillator_hz mod denominator \<noteq> 0 then None
      else
        (let target = unat oscillator_hz div denominator in
         map_option (\<lambda>(ntq, brp, distance). (ntq, brp))
           (fold (ntq_step target) [MIN_TQ_PER_BIT..<MAX_TQ_PER_BIT + 1] None)))"

definition split_segments :: "nat \<Rightarrow> nat \<times> nat \<times> nat" where
  "split_segments ntq =
     (let remaining = ntq - 1;
          phseg2 = remaining div 4;
          phseg2 = (if phseg2 < MIN_PHSEG2 then MIN_PHSEG2 else phseg2);
          phseg2 = (if MAX_PHSEG2 < phseg2 then MAX_PHSEG2 else phseg2);
          ps_sum = remaining - phseg2;
          (ps_sum, phseg2) = (if MAX_PROP_PHSEG1_SUM < ps_sum
            then (MAX_PROP_PHSEG1_SUM, remaining - MAX_PROP_PHSEG1_SUM) else (ps_sum, phseg2));
          prseg = ps_sum div 2;
          prseg = (if prseg < 1 then 1 else prseg);
          phseg1 = ps_sum - prseg;
          (prseg, phseg1) = (if phseg1 < 1 then (ps_sum - 1, 1) else (prseg, phseg1))
      in (prseg, phseg1, phseg2))"

definition mcp2515_compute_bit_timing :: "u32 \<Rightarrow> u32 \<Rightarrow> mcp2515_bit_timing_t option" where
  "mcp2515_compute_bit_timing oscillator_hz bitrate =
     (if oscillator_hz = 0 \<or> bitrate = 0 then None
      else
        (case find_ntq_and_brp oscillator_hz bitrate of
           None \<Rightarrow> None
         | Some (ntq, brp) \<Rightarrow>
             (case split_segments ntq of
                (prseg, phseg1, phseg2) \<Rightarrow>
                  (let sjw = 1 :: u8 in
                   Some \<lparr>cnf1 = push_bit 6 (sjw - 1) OR word_of_nat brp,
                     cnf2 = 0x80 OR push_bit 3 (word_of_nat (phseg1 - 1)) OR word_of_nat (prseg - 1),
                     cnf3 = word_of_nat (phseg2 - 1)\<rparr>))))"

definition mcp2515_reset_delay_us :: "u32 \<Rightarrow> u32" where
  "mcp2515_reset_delay_us oscillator_hz =
     (let hz = (if oscillator_hz < 1000000 then 1000000
                else if 100000000 < oscillator_hz then 100000000 else oscillator_hz);
          exact = (128 * 1000000 + hz - 1) div hz
      in exact * 2)"

subsection \<open>The search\<close>

definition ntq_distance :: "nat \<Rightarrow> nat" where
  "ntq_distance ntq = (if 16 < ntq then ntq - 16 else 16 - ntq)"

definition ntq_works :: "nat \<Rightarrow> nat \<Rightarrow> bool" where
  "ntq_works target ntq \<longleftrightarrow> target mod ntq = 0 \<and> target div ntq \<noteq> 0 \<and> target div ntq \<le> 64"

lemma ntq_step_cases:
  "ntq_step target ntq best =
     (if ntq_works target ntq \<and> (case best of None \<Rightarrow> True | Some (_, _, d) \<Rightarrow> ntq_distance ntq < d)
      then Some (ntq, target div ntq - 1, ntq_distance ntq) else best)"
  by (auto simp: ntq_step_def ntq_works_def ntq_distance_def Let_def split: option.splits)

definition best_so_far :: "nat \<Rightarrow> nat set \<Rightarrow> (nat \<times> nat \<times> nat) option \<Rightarrow> bool" where
  "best_so_far target seen best \<longleftrightarrow>
     (case best of
        None \<Rightarrow> \<forall>m \<in> seen. \<not> ntq_works target m
      | Some (n, b, d) \<Rightarrow> n \<in> seen \<and> ntq_works target n \<and> b = target div n - 1 \<and> d = ntq_distance n
          \<and> (\<forall>m \<in> seen. ntq_works target m \<longrightarrow> ntq_distance n \<le> ntq_distance m))"

lemma fold_ntq_best:
  "best_so_far target seen best \<Longrightarrow> best_so_far target (seen \<union> set ns) (fold (ntq_step target) ns best)"
proof (induction ns arbitrary: seen best)
  case (Cons n ns)
  have "best_so_far target (insert n seen) (ntq_step target n best)"
    using Cons.prems by (auto simp: ntq_step_cases best_so_far_def split: option.splits)
  from Cons.IH [OF this] show ?case by simp
qed simp

lemma ntq_works_iff:
  "0 < ntq \<Longrightarrow> ntq_works target ntq \<longleftrightarrow> (\<exists>brp \<le> 63. target = ntq * (brp + 1))"
proof
  assume "0 < ntq" and "ntq_works target ntq"
  then have "target = ntq * (target div ntq - 1 + 1)" "target div ntq - 1 \<le> 63"
    by (auto simp: ntq_works_def mod_eq_0_iff_dvd)
  then show "\<exists>brp \<le> 63. target = ntq * (brp + 1)" by blast
next
  assume "0 < ntq" and "\<exists>brp \<le> 63. target = ntq * (brp + 1)"
  then show "ntq_works target ntq" by (auto simp: ntq_works_def)
qed

text \<open>The pairs of quanta and prescaler that give the bit rate exactly.\<close>

definition exact_timing :: "u32 \<Rightarrow> u32 \<Rightarrow> nat \<Rightarrow> nat \<Rightarrow> bool" where
  "exact_timing oscillator_hz bitrate ntq brp \<longleftrightarrow> 8 \<le> ntq \<and> ntq \<le> 25 \<and> brp \<le> 63
     \<and> unat oscillator_hz = 2 * unat bitrate * (ntq * (brp + 1))"

lemma exact_timing_target:
  assumes "bitrate \<noteq> 0" and "unat oscillator_hz mod (2 * unat bitrate) = 0"
  shows "exact_timing oscillator_hz bitrate ntq brp \<longleftrightarrow> 8 \<le> ntq \<and> ntq \<le> 25 \<and> brp \<le> 63
    \<and> unat oscillator_hz div (2 * unat bitrate) = ntq * (brp + 1)"
proof -
  let ?d = "2 * unat bitrate"
  have "0 < ?d" using assms(1) by (simp add: word_eq_unat_iff)
  moreover have "unat oscillator_hz = ?d * (unat oscillator_hz div ?d)" using assms(2) by auto
  ultimately have "unat oscillator_hz = ?d * (ntq * (brp + 1)) \<longleftrightarrow> unat oscillator_hz div ?d = ntq * (brp + 1)"
    by (metis mult_cancel1 nat_neq_iff not_less0)
  then show ?thesis by (simp add: exact_timing_def)
qed

lemma find_spec:
  assumes "bitrate \<noteq> 0"
  shows "case find_ntq_and_brp oscillator_hz bitrate of
      None \<Rightarrow> \<not> (\<exists>ntq brp. exact_timing oscillator_hz bitrate ntq brp)
    | Some (n, b) \<Rightarrow> exact_timing oscillator_hz bitrate n b
        \<and> (\<forall>ntq brp. exact_timing oscillator_hz bitrate ntq brp \<longrightarrow> ntq_distance n \<le> ntq_distance ntq)"
proof (cases "unat oscillator_hz mod (2 * unat bitrate) = 0")
  case False
  then have "\<not> exact_timing oscillator_hz bitrate ntq brp" for ntq brp by (auto simp: exact_timing_def)
  with False show ?thesis by (simp add: find_ntq_and_brp_def)
next
  case True
  let ?t = "unat oscillator_hz div (2 * unat bitrate)"
  define f where "f = fold (ntq_step ?t) [8..<25 + 1] None"
  have pos: "0 < unat bitrate" using assms by (simp add: word_eq_unat_iff)
  have "best_so_far ?t ({} \<union> set [8..<25 + 1]) f" unfolding f_def by (rule fold_ntq_best) (simp add: best_so_far_def)
  moreover have "{} \<union> set [8..<25 + 1] = {8..<26 :: nat}" unfolding set_upt by simp
  ultimately have best: "best_so_far ?t {8..<26} f" by metis
  have works: "(\<exists>brp. exact_timing oscillator_hz bitrate ntq brp) \<longleftrightarrow> ntq \<in> {8..<26} \<and> ntq_works ?t ntq" for ntq
    using exact_timing_target [OF assms True, of ntq] ntq_works_iff [of ntq ?t] by auto
  have eq: "find_ntq_and_brp oscillator_hz bitrate = map_option (\<lambda>(n, b, d). (n, b)) f"
    unfolding find_ntq_and_brp_def Let_def f_def using True pos by (simp only: if_False) auto
  show ?thesis
  proof (cases f)
    case None
    with best works eq show ?thesis by (auto simp: best_so_far_def)
  next
    case (Some x)
    obtain n b d where x: "x = (n, b, d)" by (cases x)
    from best Some x have n: "n \<in> {8..<26}" "ntq_works ?t n" "b = ?t div n - 1"
      "\<forall>m \<in> {8..<26}. ntq_works ?t m \<longrightarrow> ntq_distance n \<le> ntq_distance m"
      by (simp_all add: best_so_far_def)
    then obtain brp where brp: "brp \<le> 63" "?t = n * (brp + 1)" using ntq_works_iff [of n ?t] by auto
    then have "b = brp" using n by simp
    with n brp have "exact_timing oscillator_hz bitrate n b" by (simp add: exact_timing_target [OF assms True])
    with n(4) works eq Some x show ?thesis by auto
  qed
qed

subsection \<open>The segments\<close>

lemma split_segments_ok:
  assumes "8 \<le> ntq" and "ntq \<le> 25"
  shows "case split_segments ntq of (prseg, phseg1, phseg2) \<Rightarrow> 1 + prseg + phseg1 + phseg2 = ntq
    \<and> 1 \<le> prseg \<and> prseg \<le> 8 \<and> 1 \<le> phseg1 \<and> phseg1 \<le> 8 \<and> 2 \<le> phseg2 \<and> phseg2 \<le> 8
    \<and> 68 * ntq \<le> 100 * (1 + prseg + phseg1) \<and> 100 * (1 + prseg + phseg1) \<le> 84 * ntq"
proof -
  have "\<forall>n \<in> set [8..<26]. case split_segments n of (prseg, phseg1, phseg2) \<Rightarrow> 1 + prseg + phseg1 + phseg2 = n
      \<and> 1 \<le> prseg \<and> prseg \<le> 8 \<and> 1 \<le> phseg1 \<and> phseg1 \<le> 8 \<and> 2 \<le> phseg2 \<and> phseg2 \<le> 8
      \<and> 68 * n \<le> 100 * (1 + prseg + phseg1) \<and> 100 * (1 + prseg + phseg1) \<le> 84 * n"
    by code_simp
  moreover have "ntq \<in> set [8..<26]" using assms unfolding set_upt by simp
  ultimately show ?thesis by (rule bspec)
qed

subsection \<open>Properties\<close>

text \<open>C23: the computed bit timing is exact, or refused when no setting is. The three registers, decoded as
  the controller does, give a number of quanta and a prescaler in the ranges of the controller whose bit
  rate is exactly the one asked for, with the sample point between 68 and 84 percent of the bit; no other
  exact setting has a number of quanta closer to 16. The computation fails exactly when no setting in range is
  exact.\<close>

theorem mcp2515_timing_exact:
  assumes "oscillator_hz \<noteq> 0" and "bitrate \<noteq> 0"
  shows "case mcp2515_compute_bit_timing oscillator_hz bitrate of
      None \<Rightarrow> \<not> (\<exists>ntq brp. exact_timing oscillator_hz bitrate ntq brp)
    | Some t \<Rightarrow>
        (let brp = unat (cnf1 t AND 0x3F);
             prseg = unat (cnf2 t AND 7) + 1;
             phseg1 = unat (drop_bit 3 (cnf2 t) AND 7) + 1;
             phseg2 = unat (cnf3 t AND 7) + 1;
             ntq = 1 + prseg + phseg1 + phseg2
         in exact_timing oscillator_hz bitrate ntq brp
            \<and> (\<forall>n b. exact_timing oscillator_hz bitrate n b \<longrightarrow> ntq_distance ntq \<le> ntq_distance n)
            \<and> 2 \<le> phseg2 \<and> 68 * ntq \<le> 100 * (1 + prseg + phseg1) \<and> 100 * (1 + prseg + phseg1) \<le> 84 * ntq
            \<and> bit (cnf2 t) 7 \<and> cnf1 t AND 0xC0 = 0)"
proof (cases "find_ntq_and_brp oscillator_hz bitrate")
  case None
  with find_spec [OF assms(2), of oscillator_hz] assms show ?thesis by (simp add: mcp2515_compute_bit_timing_def)
next
  case (Some x)
  obtain n b where x: "x = (n, b)" by (cases x)
  obtain prseg phseg1 phseg2 where seg: "split_segments n = (prseg, phseg1, phseg2)" by (cases "split_segments n")
  from find_spec [OF assms(2), of oscillator_hz] Some x have n: "exact_timing oscillator_hz bitrate n b"
    "\<forall>m c. exact_timing oscillator_hz bitrate m c \<longrightarrow> ntq_distance n \<le> ntq_distance m" by simp_all
  then have range: "8 \<le> n" "n \<le> 25" "b \<le> 63" by (simp_all add: exact_timing_def)
  from split_segments_ok [OF range(1,2)] seg have ok: "1 + prseg + phseg1 + phseg2 = n" "1 \<le> prseg" "prseg \<le> 8"
    "1 \<le> phseg1" "phseg1 \<le> 8" "2 \<le> phseg2" "phseg2 \<le> 8" "68 * n \<le> 100 * (1 + prseg + phseg1)"
    "100 * (1 + prseg + phseg1) \<le> 84 * n" by simp_all
  have brp: "unat ((word_of_nat b :: u8) AND 0x3F) = b" "(word_of_nat b :: u8) AND 0xC0 = 0"
  proof -
    have "\<forall>b \<in> set [0..<64]. unat ((word_of_nat b :: u8) AND 0x3F) = b \<and> (word_of_nat b :: u8) AND 0xC0 = 0" by code_simp
    with range(3) show "unat ((word_of_nat b :: u8) AND 0x3F) = b" "(word_of_nat b :: u8) AND 0xC0 = 0" by simp_all
  qed
  have c2: "unat (v AND 7) + 1 = prseg \<and> unat (drop_bit 3 v AND 7) + 1 = phseg1 \<and> bit v 7"
    if "v = 0x80 OR push_bit 3 (word_of_nat (phseg1 - 1)) OR word_of_nat (prseg - 1)" for v :: u8
  proof -
    have "\<forall>p \<in> set [1..<9]. \<forall>q \<in> set [1..<9]. let v = 0x80 OR push_bit 3 (word_of_nat (q - 1)) OR word_of_nat (p - 1) :: u8 in
      unat (v AND 7) + 1 = p \<and> unat (drop_bit 3 v AND 7) + 1 = q \<and> bit v 7" by code_simp
    moreover have "prseg \<in> set [1..<9]" "phseg1 \<in> set [1..<9]" using ok(2-5) unfolding set_upt by simp_all
    ultimately show ?thesis unfolding that Let_def by blast
  qed
  have c3: "unat ((word_of_nat (phseg2 - 1) :: u8) AND 7) + 1 = phseg2"
  proof -
    have "\<forall>q \<in> set [1..<9]. unat ((word_of_nat (q - 1) :: u8) AND 7) + 1 = q" by code_simp
    with ok(6,7) show ?thesis by simp
  qed
  have fields: "unat (v AND 7) + 1 = prseg" "unat (drop_bit 3 v AND 7) + 1 = phseg1" "bit v 7"
    if "v = 0x80 OR push_bit 3 (word_of_nat (phseg1 - 1)) OR word_of_nat (prseg - 1)" for v :: u8
    using c2 [OF that] by blast+
  have "mcp2515_compute_bit_timing oscillator_hz bitrate = Some \<lparr>cnf1 = word_of_nat b,
      cnf2 = 0x80 OR push_bit 3 (word_of_nat (phseg1 - 1)) OR word_of_nat (prseg - 1), cnf3 = word_of_nat (phseg2 - 1)\<rparr>"
    using assms Some x seg by (simp add: mcp2515_compute_bit_timing_def)
  then have timing: "mcp2515_compute_bit_timing oscillator_hz bitrate = Some t" if "t = \<lparr>cnf1 = word_of_nat b,
      cnf2 = 0x80 OR push_bit 3 (word_of_nat (phseg1 - 1)) OR word_of_nat (prseg - 1), cnf3 = word_of_nat (phseg2 - 1)\<rparr>" for t
    using that by simp
  show ?thesis
    unfolding timing [OF refl] option.case mcp2515_bit_timing_t.select_convs Let_def brp fields [OF refl] c3 ok(1)
    by (intro conjI refl fields(3) n ok)
qed

lemma mcp2515_timing_exact_witness:
  "\<not> (\<exists>ntq brp. exact_timing 8000000 833333 ntq brp)"
proof -
  have "mcp2515_compute_bit_timing 8000000 833333 = None"
    by (simp add: mcp2515_compute_bit_timing_def find_ntq_and_brp_def)
  with mcp2515_timing_exact [of 8000000 833333] show ?thesis by simp
qed

text \<open>The wait after a reset covers twice the 128 oscillator cycles of the data sheet, and no
  intermediate value overflows.\<close>

theorem mcp2515_reset_delay_covers:
  assumes "1000000 \<le> oscillator_hz" and "oscillator_hz \<le> 100000000"
  shows "2 * 128 * 1000000 \<le> unat (mcp2515_reset_delay_us oscillator_hz) * unat oscillator_hz"
proof -
  let ?h = "unat oscillator_hz"
  have h: "1000000 \<le> ?h" "?h \<le> 100000000" using assms by (simp_all add: word_le_nat_alt)
  have num: "unat (128 * 1000000 + oscillator_hz - 1) = 128 * 1000000 + ?h - 1"
    using h by (simp add: unat_word_ariths)
  have q: "(128 * 1000000 + ?h - 1) div ?h \<le> 129"
  proof -
    have "128 * 1000000 + ?h - 1 < 130 * ?h" using h by simp
    from less_mult_imp_div_less [OF this] show ?thesis by simp
  qed
  have "unat ((128 * 1000000 + oscillator_hz - 1) div oscillator_hz) = (128 * 1000000 + ?h - 1) div ?h"
    by (simp only: unat_div num)
  then have d: "unat (mcp2515_reset_delay_us oscillator_hz) = 2 * ((128 * 1000000 + ?h - 1) div ?h)"
    using assms q by (simp add: mcp2515_reset_delay_us_def Let_def unat_word_ariths not_less word_less_nat_alt word_le_nat_alt)
  let ?m = "128 * 1000000 + ?h - 1"
  have "?m div ?h * ?h + ?m mod ?h = ?m" by (rule div_mult_mod_eq)
  moreover have "?m mod ?h < ?h" using h by simp
  ultimately have "128 * 1000000 \<le> ?m div ?h * ?h" by linarith
  then show ?thesis unfolding d by (simp add: mult.commute)
qed

lemma mcp2515_reset_delay_covers_witness: "2 * 128 * 1000000 \<le> unat (mcp2515_reset_delay_us 8000000) * 8000000"
proof -
  have "(1000000 :: u32) \<le> 8000000" "(8000000 :: u32) \<le> 100000000" by simp_all
  from mcp2515_reset_delay_covers [OF this] show ?thesis by simp
qed

end
