(* ===== verification/Mcp2515.thy ===== *)
theory Mcp2515
  imports Mcp2515_Frame Mcp2515_Timing
begin

text \<open>
  Model of \<open>components/mcp2515/mcp2515.c\<close>: the driver of the CAN controller over SPI. The SPI peripheral,
  the pins and the delays belong to the Pico SDK and to the chip; they are the parameter \<open>spi_sdk\<close>, operations
  on a type \<open>'w\<close> of hardware states, passed through every function in the order the code calls them. A
  bus is the record of its fields; a bus pointer is not \<open>NULL\<close> here, and the out-parameter of a receive is the
  message returned.
\<close>

record 'w spi_sdk =
  gpio_init :: "nat \<Rightarrow> 'w \<Rightarrow> 'w"
  gpio_set_dir :: "nat \<Rightarrow> bool \<Rightarrow> 'w \<Rightarrow> 'w"
  gpio_pull_up :: "nat \<Rightarrow> 'w \<Rightarrow> 'w"
  gpio_put :: "nat \<Rightarrow> bool \<Rightarrow> 'w \<Rightarrow> 'w"
  gpio_get :: "nat \<Rightarrow> 'w \<Rightarrow> bool"
  gpio_deinit :: "nat \<Rightarrow> 'w \<Rightarrow> 'w"
  spi_set_baudrate :: "nat \<Rightarrow> u32 \<Rightarrow> 'w \<Rightarrow> 'w"
  spi_write_blocking :: "nat \<Rightarrow> u8 list \<Rightarrow> 'w \<Rightarrow> 'w"
  spi_read_blocking :: "nat \<Rightarrow> u8 \<Rightarrow> nat \<Rightarrow> 'w \<Rightarrow> u8 list \<times> 'w"
  sleep_us :: "u32 \<Rightarrow> 'w \<Rightarrow> 'w"

datatype mcp2515_result_t = MCP2515_OK | MCP2515_ERR_INVALID_ARG | MCP2515_ERR_NO_DEVICE
  | MCP2515_ERR_NOT_INITIALISED | MCP2515_ERR_MODE_TIMEOUT | MCP2515_ERR_MONITOR_MODE
  | MCP2515_ERR_TX_FULL | MCP2515_ERR_RX_EMPTY

datatype mcp2515_mode_t = MCP2515_MODE_NORMAL | MCP2515_MODE_LOOPBACK | MCP2515_MODE_LISTEN_ONLY

record mcp2515_bus_config_t =
  bc_spi :: "nat option"
  bc_spi_baudrate_hz :: u32
  bc_cs_pin :: nat
  bc_int_pin :: int
  bc_oscillator_hz :: u32
  bc_bitrate :: u32
  bc_mode :: mcp2515_mode_t
  bc_filters :: "can_filter_t list option"
  bc_filter_count :: nat

record mcp2515_bus_stats_t =
  st_received :: u32
  st_transmitted :: u32
  st_rx_overflow :: u32
  st_controller_errors :: u32
  st_last_eflg :: u8

record mcp2515_bus_t =
  bus_spi :: nat
  bus_cs_pin :: nat
  bus_int_pin :: int
  bus_mode :: mcp2515_mode_t
  bus_next_tx_buffer :: u8
  bus_stats :: mcp2515_bus_stats_t
  bus_initialised :: bool

abbreviation (input) "CMD_RESET \<equiv> (0xC0 :: u8)"
abbreviation (input) "CMD_READ \<equiv> (0x03 :: u8)"
abbreviation (input) "CMD_WRITE \<equiv> (0x02 :: u8)"
abbreviation (input) "CMD_BITMOD \<equiv> (0x05 :: u8)"
abbreviation (input) "CMD_READ_STATUS \<equiv> (0xA0 :: u8)"
abbreviation (input) "REG_CANSTAT \<equiv> (0x0E :: u8)"
abbreviation (input) "REG_CANCTRL \<equiv> (0x0F :: u8)"
abbreviation (input) "REG_CANINTE \<equiv> (0x2B :: u8)"
abbreviation (input) "REG_CANINTF \<equiv> (0x2C :: u8)"
abbreviation (input) "REG_EFLG \<equiv> (0x2D :: u8)"
abbreviation (input) "REG_RXB0CTRL \<equiv> (0x60 :: u8)"
abbreviation (input) "REG_RXB1CTRL \<equiv> (0x70 :: u8)"
abbreviation (input) "REG_RXM0SIDH \<equiv> (0x20 :: u8)"
abbreviation (input) "REG_RXM1SIDH \<equiv> (0x24 :: u8)"
abbreviation (input) "REG_CNF1 \<equiv> (0x2A :: u8)"
abbreviation (input) "REG_CNF2 \<equiv> (0x29 :: u8)"
abbreviation (input) "REG_CNF3 \<equiv> (0x28 :: u8)"
abbreviation (input) "REQOP_CONFIG \<equiv> (4 :: u8)"
abbreviation (input) "MCP2515_DEFAULT_BITRATE \<equiv> (500000 :: u32)"
abbreviation (input) "MCP2515_MAX_BITRATE \<equiv> (1000000 :: u32)"
abbreviation (input) "MCP2515_NO_INT_PIN \<equiv> (-1 :: int)"

definition TXREQ_BIT :: "u8 list" where
  "TXREQ_BIT = [0x04, 0x10, 0x40]"

definition FILTER_REG :: "u8 list" where
  "FILTER_REG = [0x00, 0x04, 0x08, 0x10, 0x14, 0x18]"

subsection \<open>SPI transport\<close>

definition cs_select :: "'w spi_sdk \<Rightarrow> mcp2515_bus_t \<Rightarrow> 'w \<Rightarrow> 'w" where
  "cs_select sdk bus w = gpio_put sdk (bus_cs_pin bus) False w"

definition cs_deselect :: "'w spi_sdk \<Rightarrow> mcp2515_bus_t \<Rightarrow> 'w \<Rightarrow> 'w" where
  "cs_deselect sdk bus w = gpio_put sdk (bus_cs_pin bus) True w"

definition mcp2515_reset :: "'w spi_sdk \<Rightarrow> mcp2515_bus_t \<Rightarrow> u32 \<Rightarrow> 'w \<Rightarrow> 'w" where
  "mcp2515_reset sdk bus oscillator_hz w =
     (let w = cs_select sdk bus w;
          w = spi_write_blocking sdk (bus_spi bus) [CMD_RESET] w;
          w = cs_deselect sdk bus w
      in sleep_us sdk (mcp2515_reset_delay_us oscillator_hz) w)"

definition write_register :: "'w spi_sdk \<Rightarrow> mcp2515_bus_t \<Rightarrow> u8 \<Rightarrow> u8 \<Rightarrow> 'w \<Rightarrow> 'w" where
  "write_register sdk bus reg val w =
     (let w = cs_select sdk bus w;
          w = spi_write_blocking sdk (bus_spi bus) [CMD_WRITE, reg, val] w
      in cs_deselect sdk bus w)"

definition write_registers :: "'w spi_sdk \<Rightarrow> mcp2515_bus_t \<Rightarrow> u8 \<Rightarrow> u8 list \<Rightarrow> 'w \<Rightarrow> 'w" where
  "write_registers sdk bus reg data w =
     (let w = cs_select sdk bus w;
          w = spi_write_blocking sdk (bus_spi bus) [CMD_WRITE, reg] w;
          w = spi_write_blocking sdk (bus_spi bus) data w
      in cs_deselect sdk bus w)"

definition read_register :: "'w spi_sdk \<Rightarrow> mcp2515_bus_t \<Rightarrow> u8 \<Rightarrow> 'w \<Rightarrow> u8 \<times> 'w" where
  "read_register sdk bus reg w =
     (let w = cs_select sdk bus w;
          w = spi_write_blocking sdk (bus_spi bus) [CMD_READ, reg] w;
          (bytes, w) = spi_read_blocking sdk (bus_spi bus) 0xFF 1 w
      in (bytes ! 0, cs_deselect sdk bus w))"

definition bit_modify :: "'w spi_sdk \<Rightarrow> mcp2515_bus_t \<Rightarrow> u8 \<Rightarrow> u8 \<Rightarrow> u8 \<Rightarrow> 'w \<Rightarrow> 'w" where
  "bit_modify sdk bus reg m val w =
     (let w = cs_select sdk bus w;
          w = spi_write_blocking sdk (bus_spi bus) [CMD_BITMOD, reg, m, val] w
      in cs_deselect sdk bus w)"

definition read_status :: "'w spi_sdk \<Rightarrow> mcp2515_bus_t \<Rightarrow> 'w \<Rightarrow> u8 \<times> 'w" where
  "read_status sdk bus w =
     (let w = cs_select sdk bus w;
          w = spi_write_blocking sdk (bus_spi bus) [CMD_READ_STATUS] w;
          (bytes, w) = spi_read_blocking sdk (bus_spi bus) 0xFF 1 w
      in (bytes ! 0, cs_deselect sdk bus w))"

subsection \<open>Mode switching\<close>

definition reqop_for :: "mcp2515_mode_t \<Rightarrow> u8" where
  "reqop_for mode =
     (case mode of MCP2515_MODE_LOOPBACK \<Rightarrow> 2 | MCP2515_MODE_LISTEN_ONLY \<Rightarrow> 3 | MCP2515_MODE_NORMAL \<Rightarrow> 0)"

text \<open>The loop of \<open>switch_mode\<close>, with the attempts left.\<close>

fun await_mode :: "'w spi_sdk \<Rightarrow> mcp2515_bus_t \<Rightarrow> u8 \<Rightarrow> nat \<Rightarrow> 'w \<Rightarrow> mcp2515_result_t \<times> 'w" where
  "await_mode sdk bus reqop 0 w = (MCP2515_ERR_MODE_TIMEOUT, w)"
| "await_mode sdk bus reqop (Suc attempts) w =
     (case read_register sdk bus REG_CANSTAT w of
        (status, w) \<Rightarrow>
          if drop_bit 5 status = reqop then (MCP2515_OK, w)
          else await_mode sdk bus reqop attempts (sleep_us sdk 20 w))"

definition switch_mode :: "'w spi_sdk \<Rightarrow> mcp2515_bus_t \<Rightarrow> u8 \<Rightarrow> 'w \<Rightarrow> mcp2515_result_t \<times> 'w" where
  "switch_mode sdk bus reqop w =
     await_mode sdk bus reqop 50 (bit_modify sdk bus REG_CANCTRL 0xE0 (push_bit 5 reqop) w)"

subsection \<open>Filters and masks\<close>

definition write_filter :: "'w spi_sdk \<Rightarrow> mcp2515_bus_t \<Rightarrow> u8 \<Rightarrow> u32 \<Rightarrow> 'w \<Rightarrow> 'w" where
  "write_filter sdk bus sidh_reg packed_id w =
     write_registers sdk bus sidh_reg (mcp2515_frame_pack_id packed_id) w"

definition write_mask :: "'w spi_sdk \<Rightarrow> mcp2515_bus_t \<Rightarrow> u8 \<Rightarrow> u32 \<Rightarrow> bool \<Rightarrow> 'w \<Rightarrow> 'w" where
  "write_mask sdk bus sidh_reg m extended w =
     write_registers sdk bus sidh_reg (mcp2515_frame_pack_mask m extended) w"

definition configure_filters :: "'w spi_sdk \<Rightarrow> mcp2515_bus_t \<Rightarrow> mcp2515_filter_plan_t \<Rightarrow> 'w \<Rightarrow> 'w" where
  "configure_filters sdk bus plan w =
     (if plan_accept_all plan
      then write_register sdk bus REG_RXB1CTRL 0x60 (write_register sdk bus REG_RXB0CTRL 0x64 w)
      else
        (let w = fold (\<lambda>i. write_filter sdk bus (FILTER_REG ! i) (plan_filter_id plan ! i)) [0..<MCP2515_FILTER_SLOTS] w;
             w = write_mask sdk bus REG_RXM0SIDH (plan_mask plan ! 0) (plan_mask_extended plan ! 0) w;
             w = write_mask sdk bus REG_RXM1SIDH (plan_mask plan ! 1) (plan_mask_extended plan ! 1) w;
             w = write_register sdk bus REG_RXB0CTRL 0x04 w
         in write_register sdk bus REG_RXB1CTRL 0x00 w))"

subsection \<open>Statistics\<close>

definition stats_zero :: mcp2515_bus_stats_t where
  "stats_zero = \<lparr>st_received = 0, st_transmitted = 0, st_rx_overflow = 0, st_controller_errors = 0, st_last_eflg = 0\<rparr>"

definition update_stats :: "'w spi_sdk \<Rightarrow> mcp2515_bus_t \<Rightarrow> 'w \<Rightarrow> mcp2515_bus_t \<times> 'w" where
  "update_stats sdk bus w =
     (case read_register sdk bus REG_CANINTF w of
        (canintf, w) \<Rightarrow>
          (let stats = bus_stats bus;
               sent = (\<lambda>(flag :: u8) (stats, clear_mask). if canintf AND flag \<noteq> 0
                         then (stats\<lparr>st_transmitted := st_transmitted stats + 1\<rparr>, clear_mask OR flag)
                         else (stats, clear_mask));
               (stats, clear_mask) = sent 0x10 (sent 0x08 (sent 0x04 (stats, 0)));
               (stats, clear_mask, w) =
                 (if canintf AND 0x20 \<noteq> 0
                  then
                    (case read_register sdk bus REG_EFLG w of
                       (eflg, w) \<Rightarrow>
                         (let stats = stats\<lparr>st_controller_errors := st_controller_errors stats + 1, st_last_eflg := eflg\<rparr>;
                              stats = (if eflg AND 0xC0 \<noteq> 0
                                       then stats\<lparr>st_rx_overflow := st_rx_overflow stats + 1\<rparr> else stats)
                          in (stats, clear_mask OR 0x20, bit_modify sdk bus REG_EFLG 0xC0 0 w)))
                  else (stats, clear_mask, w));
               w = (if clear_mask \<noteq> 0 then bit_modify sdk bus REG_CANINTF clear_mask 0 w else w)
           in (bus\<lparr>bus_stats := stats\<rparr>, w)))"

subsection \<open>Starting and stopping a bus\<close>

text \<open>The pins, the rate and the reset, lines 278 to 292 of \<open>mcp2515_bus_init\<close>.\<close>

definition bring_up :: "'w spi_sdk \<Rightarrow> mcp2515_bus_t \<Rightarrow> mcp2515_bus_config_t \<Rightarrow> 'w \<Rightarrow> 'w" where
  "bring_up sdk bus config w =
     (let w = gpio_init sdk (bus_cs_pin bus) w;
          w = gpio_set_dir sdk (bus_cs_pin bus) True w;
          w = gpio_put sdk (bus_cs_pin bus) True w;
          w = (if bus_int_pin bus \<noteq> MCP2515_NO_INT_PIN
               then gpio_pull_up sdk (nat (bus_int_pin bus))
                      (gpio_set_dir sdk (nat (bus_int_pin bus)) False
                        (gpio_init sdk (nat (bus_int_pin bus)) w))
               else w);
          w = (if bc_spi_baudrate_hz config \<noteq> 0
               then spi_set_baudrate sdk (bus_spi bus) (bc_spi_baudrate_hz config) w else w)
      in mcp2515_reset sdk bus (bc_oscillator_hz config) w)"

text \<open>The check that a controller answers and its programming, lines 294 to 319.\<close>

definition program_controller ::
  "'w spi_sdk \<Rightarrow> mcp2515_bus_t \<Rightarrow> mcp2515_mode_t \<Rightarrow> mcp2515_filter_plan_t \<Rightarrow> mcp2515_bit_timing_t \<Rightarrow> 'w
    \<Rightarrow> mcp2515_result_t \<times> mcp2515_bus_t \<times> 'w" where
  "program_controller sdk bus mode plan timing w =
     (case read_register sdk bus REG_CANSTAT w of
        (status, w) \<Rightarrow>
          if drop_bit 5 status \<noteq> REQOP_CONFIG then (MCP2515_ERR_NO_DEVICE, bus, w)
          else
            (let w = write_register sdk bus REG_CNF1 (cnf1 timing) w;
                 w = write_register sdk bus REG_CNF2 (cnf2 timing) w;
                 w = write_register sdk bus REG_CNF3 (cnf3 timing) w;
                 w = write_register sdk bus REG_CANINTE 0x3F w;
                 w = write_register sdk bus REG_CANINTF 0 w;
                 w = configure_filters sdk bus plan w
             in
             case switch_mode sdk bus (reqop_for mode) w of
               (mode_result, w) \<Rightarrow>
                 if mode_result \<noteq> MCP2515_OK then (mode_result, bus, w)
                 else (MCP2515_OK, bus\<lparr>bus_mode := mode, bus_initialised := True\<rparr>, w)))"

definition bus_of_config :: "mcp2515_bus_config_t \<Rightarrow> mcp2515_bus_t" where
  "bus_of_config config = \<lparr>bus_spi = the (bc_spi config), bus_cs_pin = bc_cs_pin config,
     bus_int_pin = bc_int_pin config, bus_mode = MCP2515_MODE_NORMAL, bus_next_tx_buffer = 0,
     bus_stats = stats_zero, bus_initialised = False\<rparr>"

definition mcp2515_bus_init ::
  "'w spi_sdk \<Rightarrow> mcp2515_bus_t \<Rightarrow> mcp2515_bus_config_t \<Rightarrow> 'w \<Rightarrow> mcp2515_result_t \<times> mcp2515_bus_t \<times> 'w" where
  "mcp2515_bus_init sdk bus config w =
     (if bc_spi config = None \<or> bc_oscillator_hz config = 0 then (MCP2515_ERR_INVALID_ARG, bus, w)
      else
        (case mcp2515_filter_plan (bc_filters config) (bc_filter_count config) of
           None \<Rightarrow> (MCP2515_ERR_INVALID_ARG, bus, w)
         | Some plan \<Rightarrow>
             (let bitrate = (if bc_bitrate config \<noteq> 0 then bc_bitrate config else MCP2515_DEFAULT_BITRATE) in
              if MCP2515_MAX_BITRATE < bitrate then (MCP2515_ERR_INVALID_ARG, bus, w)
              else
                (case mcp2515_compute_bit_timing (bc_oscillator_hz config) bitrate of
                   None \<Rightarrow> (MCP2515_ERR_INVALID_ARG, bus, w)
                 | Some timing \<Rightarrow>
                     (let bus = bus_of_config config;
                          w = bring_up sdk bus config w
                      in program_controller sdk bus (bc_mode config) plan timing w)))))"

definition mcp2515_bus_deinit :: "'w spi_sdk \<Rightarrow> mcp2515_bus_t \<Rightarrow> 'w \<Rightarrow> mcp2515_bus_t \<times> 'w" where
  "mcp2515_bus_deinit sdk bus w =
     (if \<not> bus_initialised bus then (bus, w)
      else
        (let w = snd (switch_mode sdk bus REQOP_CONFIG w);
             w = gpio_deinit sdk (bus_cs_pin bus) w;
             w = (if bus_int_pin bus \<noteq> MCP2515_NO_INT_PIN then gpio_deinit sdk (nat (bus_int_pin bus)) w else w)
         in (bus\<lparr>bus_initialised := False\<rparr>, w)))"

subsection \<open>Frames\<close>

text \<open>The search of \<open>mcp2515_bus_send\<close> for a free transmit buffer, from the one after the last used.\<close>

fun choose_buffer :: "u8 \<Rightarrow> nat \<Rightarrow> nat list \<Rightarrow> nat option" where
  "choose_buffer status next [] = None"
| "choose_buffer status next (i # is) =
     (let idx = (next + i) mod 3 in
      if status AND TXREQ_BIT ! idx = 0 then Some idx else choose_buffer status next is)"

definition load_buffer :: "'w spi_sdk \<Rightarrow> mcp2515_bus_t \<Rightarrow> nat \<Rightarrow> can_message_t \<Rightarrow> 'w \<Rightarrow> 'w" where
  "load_buffer sdk bus chosen message w =
     (let header = mcp2515_frame_pack_header message;
          load_cmd = 0x40 OR (word_of_nat chosen * 2) :: u8;
          w = cs_select sdk bus w;
          w = spi_write_blocking sdk (bus_spi bus) [load_cmd] w;
          w = spi_write_blocking sdk (bus_spi bus) header w;
          w = (if \<not> msg_remote message \<and> 0 < msg_length message
               then spi_write_blocking sdk (bus_spi bus) (take (unat (msg_length message)) (msg_data message)) w
               else w);
          w = cs_deselect sdk bus w;
          rts_cmd = 0x80 OR push_bit chosen 1 :: u8;
          w = cs_select sdk bus w;
          w = spi_write_blocking sdk (bus_spi bus) [rts_cmd] w
      in cs_deselect sdk bus w)"

definition mcp2515_bus_send ::
  "'w spi_sdk \<Rightarrow> mcp2515_bus_t \<Rightarrow> can_message_t option \<Rightarrow> 'w \<Rightarrow> mcp2515_result_t \<times> mcp2515_bus_t \<times> 'w" where
  "mcp2515_bus_send sdk bus message w =
     (if \<not> can_message_is_valid message then (MCP2515_ERR_INVALID_ARG, bus, w)
      else if \<not> bus_initialised bus then (MCP2515_ERR_NOT_INITIALISED, bus, w)
      else if bus_mode bus = MCP2515_MODE_LISTEN_ONLY then (MCP2515_ERR_MONITOR_MODE, bus, w)
      else
        (case read_status sdk bus w of
           (status, w) \<Rightarrow>
             (case choose_buffer status (unat (bus_next_tx_buffer bus)) [0..<3] of
                None \<Rightarrow> (MCP2515_ERR_TX_FULL, bus, w)
              | Some chosen \<Rightarrow>
                  (MCP2515_OK, bus\<lparr>bus_next_tx_buffer := word_of_nat ((chosen + 1) mod 3)\<rparr>,
                   load_buffer sdk bus chosen (the message) w))))"

definition mcp2515_bus_can_send :: "'w spi_sdk \<Rightarrow> mcp2515_bus_t \<Rightarrow> 'w \<Rightarrow> bool \<times> 'w" where
  "mcp2515_bus_can_send sdk bus w =
     (if \<not> bus_initialised bus \<or> bus_mode bus = MCP2515_MODE_LISTEN_ONLY then (False, w)
      else
        (case read_status sdk bus w of
           (status, w) \<Rightarrow>
             (let all_busy = TXREQ_BIT ! 0 OR TXREQ_BIT ! 1 OR TXREQ_BIT ! 2
              in (status AND all_busy \<noteq> all_busy, w))))"

text \<open>The read of one receive buffer: header, then the data the header announces.\<close>

definition read_rx_buffer :: "'w spi_sdk \<Rightarrow> mcp2515_bus_t \<Rightarrow> nat \<Rightarrow> 'w \<Rightarrow> can_message_t \<times> 'w" where
  "read_rx_buffer sdk bus rxb w =
     (let read_cmd = 0x90 OR (word_of_nat rxb * 4) :: u8;
          w = cs_select sdk bus w;
          w = spi_write_blocking sdk (bus_spi bus) [read_cmd] w;
          (header, w) = spi_read_blocking sdk (bus_spi bus) 0xFF 5 w;
          message = mcp2515_frame_unpack_header header;
          (message, w) =
            (if \<not> msg_remote message \<and> 0 < msg_length message
             then
               (case spi_read_blocking sdk (bus_spi bus) 0xFF (unat (msg_length message)) w of
                  (bytes, w) \<Rightarrow> (message\<lparr>msg_data := blit 0 bytes (msg_data message)\<rparr>, w))
             else (message, w))
      in (message, cs_deselect sdk bus w))"

definition mcp2515_bus_receive ::
  "'w spi_sdk \<Rightarrow> mcp2515_bus_t \<Rightarrow> 'w \<Rightarrow> mcp2515_result_t \<times> can_message_t option \<times> mcp2515_bus_t \<times> 'w" where
  "mcp2515_bus_receive sdk bus w =
     (if \<not> bus_initialised bus then (MCP2515_ERR_NOT_INITIALISED, None, bus, w)
      else
        (case update_stats sdk bus w of
           (bus, w) \<Rightarrow>
             (case read_status sdk bus w of
                (status, w) \<Rightarrow>
                  (case (if status AND 1 \<noteq> 0 then Some 0 else if status AND 2 \<noteq> 0 then Some 1 else None) of
                     None \<Rightarrow> (MCP2515_ERR_RX_EMPTY, None, bus, w)
                   | Some rxb \<Rightarrow>
                       (case read_rx_buffer sdk bus rxb w of
                          (message, w) \<Rightarrow>
                            (let w = bit_modify sdk bus REG_CANINTF (if rxb = 0 then 1 else 2) 0 w;
                                 stats = (bus_stats bus)\<lparr>st_received := st_received (bus_stats bus) + 1\<rparr>
                             in (MCP2515_OK, Some message, bus\<lparr>bus_stats := stats\<rparr>, w)))))))"

definition mcp2515_bus_available :: "'w spi_sdk \<Rightarrow> mcp2515_bus_t \<Rightarrow> 'w \<Rightarrow> nat \<times> 'w" where
  "mcp2515_bus_available sdk bus w =
     (if \<not> bus_initialised bus then (0, w)
      else
        (case read_status sdk bus w of
           (status, w) \<Rightarrow>
             ((if status AND 1 \<noteq> 0 then 1 else 0) + (if status AND 2 \<noteq> 0 then 1 else 0), w)))"

definition mcp2515_bus_interrupt_pending :: "'w spi_sdk \<Rightarrow> mcp2515_bus_t \<Rightarrow> 'w \<Rightarrow> bool" where
  "mcp2515_bus_interrupt_pending sdk bus w =
     (if \<not> bus_initialised bus then False
      else if bus_int_pin bus = MCP2515_NO_INT_PIN then True
      else \<not> gpio_get sdk (nat (bus_int_pin bus)) w)"

definition mcp2515_bus_set_mode ::
  "'w spi_sdk \<Rightarrow> mcp2515_bus_t \<Rightarrow> mcp2515_mode_t \<Rightarrow> 'w \<Rightarrow> mcp2515_result_t \<times> mcp2515_bus_t \<times> 'w" where
  "mcp2515_bus_set_mode sdk bus mode w =
     (if \<not> bus_initialised bus then (MCP2515_ERR_NOT_INITIALISED, bus, w)
      else
        (case switch_mode sdk bus (reqop_for mode) w of
           (res, w) \<Rightarrow> (res, if res = MCP2515_OK then bus\<lparr>bus_mode := mode\<rparr> else bus, w)))"

definition mcp2515_bus_get_stats ::
  "'w spi_sdk \<Rightarrow> mcp2515_bus_t \<Rightarrow> 'w \<Rightarrow> mcp2515_result_t \<times> mcp2515_bus_stats_t option \<times> mcp2515_bus_t \<times> 'w" where
  "mcp2515_bus_get_stats sdk bus w =
     (if \<not> bus_initialised bus then (MCP2515_ERR_NOT_INITIALISED, None, bus, w)
      else case update_stats sdk bus w of (bus, w) \<Rightarrow> (MCP2515_OK, Some (bus_stats bus), bus, w))"

definition mcp2515_bus_clear_stats :: "mcp2515_bus_t \<Rightarrow> mcp2515_bus_t" where
  "mcp2515_bus_clear_stats bus = bus\<lparr>bus_stats := stats_zero\<rparr>"

fun mcp2515_result_name :: "mcp2515_result_t \<Rightarrow> string" where
  "mcp2515_result_name MCP2515_OK = ''ok''"
| "mcp2515_result_name MCP2515_ERR_INVALID_ARG = ''invalid argument''"
| "mcp2515_result_name MCP2515_ERR_NO_DEVICE = ''no device''"
| "mcp2515_result_name MCP2515_ERR_NOT_INITIALISED = ''not initialised''"
| "mcp2515_result_name MCP2515_ERR_MODE_TIMEOUT = ''mode switch timed out''"
| "mcp2515_result_name MCP2515_ERR_MONITOR_MODE = ''monitor mode''"
| "mcp2515_result_name MCP2515_ERR_TX_FULL = ''transmit buffers full''"
| "mcp2515_result_name MCP2515_ERR_RX_EMPTY = ''receive buffers empty''"

subsection \<open>The registers of the controller\<close>

text \<open>
  What the data sheet says about SPI transactions, as a hypothesis on the parameters. \<open>written w i\<close> is the
  value last written to register \<open>i\<close>, for the registers that hold the configuration; \<open>config_mode\<close> is the
  mode in which alone they can be written. A transaction is everything between the two edges of the chip select.
\<close>

definition session :: "'w spi_sdk \<Rightarrow> mcp2515_bus_t \<Rightarrow> u8 list list \<Rightarrow> 'w \<Rightarrow> 'w" where
  "session sdk bus ws w = cs_deselect sdk bus (fold (spi_write_blocking sdk (bus_spi bus)) ws (cs_select sdk bus w))"

definition config_registers :: "nat set" where
  "config_registers = {0x00..<0x0C} \<union> {0x10..<0x1C} \<union> {0x20..<0x2B} \<union> {0x60, 0x70}"

definition mcp_device :: "'w spi_sdk \<Rightarrow> mcp2515_bus_t \<Rightarrow> ('w \<Rightarrow> bool) \<Rightarrow> ('w \<Rightarrow> nat \<Rightarrow> u8) \<Rightarrow> bool" where
  "mcp_device sdk bus config_mode written \<longleftrightarrow>
     (\<forall>w ws reg data. config_mode w \<and> concat ws = CMD_WRITE # reg # data \<and> 0x0F \<notin> {unat reg..<unat reg + length data} \<longrightarrow>
        config_mode (session sdk bus ws w)
        \<and> (\<forall>i \<in> config_registers. written (session sdk bus ws w) i =
              (if unat reg \<le> i \<and> i < unat reg + length data then data ! (i - unat reg) else written w i)))
   \<and> (\<forall>w m v. \<forall>i \<in> config_registers. written (session sdk bus [[CMD_BITMOD, REG_CANCTRL, m, v]] w) i = written w i)
   \<and> (\<forall>w reg. \<forall>i \<in> config_registers. written (snd (read_register sdk bus reg w)) i = written w i)
   \<and> (\<forall>w n. \<forall>i \<in> config_registers. written (sleep_us sdk n w) i = written w i)
   \<and> (\<forall>w. drop_bit 5 (fst (read_register sdk bus REG_CANSTAT w)) = REQOP_CONFIG \<longrightarrow>
        config_mode (snd (read_register sdk bus REG_CANSTAT w)))"

lemma write_session:
  "write_register sdk bus reg v w = session sdk bus [[CMD_WRITE, reg, v]] w"
  "write_registers sdk bus reg data w = session sdk bus [[CMD_WRITE, reg], data] w"
  "bit_modify sdk bus reg m v w = session sdk bus [[CMD_BITMOD, reg, m, v]] w"
  by (simp_all add: write_register_def write_registers_def bit_modify_def session_def Let_def)

text \<open>Transactions see only the pins and the handle of a bus.\<close>

lemma session_cong:
  assumes "bus_spi b = bus_spi bus" and "bus_cs_pin b = bus_cs_pin bus"
  shows "session sdk b = session sdk bus" and "read_register sdk b = read_register sdk bus"
  using assms by (auto simp: session_def cs_select_def cs_deselect_def read_register_def intro!: ext)

lemma write_register_written:
  assumes "mcp_device sdk bus config_mode written" and "config_mode w" and "unat reg \<noteq> 0x0F"
  shows "config_mode (write_register sdk bus reg v w)"
    and "i \<in> config_registers \<Longrightarrow> written (write_register sdk bus reg v w) i = (if i = unat reg then v else written w i)"
proof -
  let ?w = "session sdk bus [[CMD_WRITE, reg, v]] w"
  have c: "concat [[CMD_WRITE, reg, v]] = CMD_WRITE # reg # [v]" by simp
  have n: "0x0F \<notin> {unat reg..<unat reg + length [v]}" using assms(3) by auto
  have "config_mode ?w \<and> (\<forall>i \<in> config_registers. written ?w i =
      (if unat reg \<le> i \<and> i < unat reg + length [v] then [v] ! (i - unat reg) else written w i))"
    using assms(1,2) c n unfolding mcp_device_def by blast
  then show "config_mode (write_register sdk bus reg v w)"
    and "i \<in> config_registers \<Longrightarrow> written (write_register sdk bus reg v w) i = (if i = unat reg then v else written w i)"
    by (auto simp: write_session)
qed

lemma write_registers_written:
  assumes "mcp_device sdk bus config_mode written" and "config_mode w" and "length data = 4" and "0x0F \<notin> {unat reg..<unat reg + 4}"
  shows "config_mode (write_registers sdk bus reg data w)"
    and "i \<in> config_registers \<Longrightarrow> written (write_registers sdk bus reg data w) i =
      (if unat reg \<le> i \<and> i < unat reg + 4 then data ! (i - unat reg) else written w i)"
proof -
  let ?w = "session sdk bus [[CMD_WRITE, reg], data] w"
  have c: "concat [[CMD_WRITE, reg], data] = CMD_WRITE # reg # data" by simp
  have n: "0x0F \<notin> {unat reg..<unat reg + length data}" using assms(3,4) by simp
  have "config_mode ?w \<and> (\<forall>i \<in> config_registers. written ?w i =
      (if unat reg \<le> i \<and> i < unat reg + length data then data ! (i - unat reg) else written w i))"
    using assms(1,2) c n unfolding mcp_device_def by blast
  then show "config_mode (write_registers sdk bus reg data w)"
    and "i \<in> config_registers \<Longrightarrow> written (write_registers sdk bus reg data w) i =
      (if unat reg \<le> i \<and> i < unat reg + 4 then data ! (i - unat reg) else written w i)"
    by (auto simp: write_session assms(3))
qed

lemma switch_mode_written:
  assumes dev: "mcp_device sdk bus config_mode written" and i: "i \<in> config_registers"
  shows "written (snd (switch_mode sdk bus reqop w)) i = written w i"
proof -
  have await: "written (snd (await_mode sdk bus reqop n w)) i = written w i" for n w
  proof (induction n arbitrary: w)
    case (Suc n)
    obtain v w' where r: "read_register sdk bus REG_CANSTAT w = (v, w')" by (cases "read_register sdk bus REG_CANSTAT w")
    have "written w' i = written w i" "written (sleep_us sdk 20 w') i = written w' i"
      using dev i r unfolding mcp_device_def by (metis snd_conv)+
    with Suc [of "sleep_us sdk 20 w'"] show ?case by (simp add: r)
  qed simp
  have "written (bit_modify sdk bus REG_CANCTRL 0xE0 (push_bit 5 reqop) w) i = written w i"
    unfolding write_session using dev i unfolding mcp_device_def by blast
  then show ?thesis by (simp add: switch_mode_def await)
qed

text \<open>What \<open>configure_filters\<close> leaves in the registers, the last write of each register first.\<close>

lemma fold_filters:
  "fold f [0..<6] w = f 5 (f 4 (f 3 (f 2 (f 1 (f (0 :: nat) w)))))"
  by (simp add: upt_rec numeral_eq_Suc)

lemma configure_filters_written:
  assumes dev: "mcp_device sdk bus config_mode written" and cfg: "config_mode w"
  shows "config_mode (configure_filters sdk bus plan w)"
    and "plan_accept_all plan \<Longrightarrow> j \<in> config_registers \<Longrightarrow> written (configure_filters sdk bus plan w) j =
      (if j = 0x70 then 0x60 else if j = 0x60 then 0x64 else written w j)"
    and "\<not> plan_accept_all plan \<Longrightarrow> j \<in> config_registers \<Longrightarrow> written (configure_filters sdk bus plan w) j =
      (if j = 0x70 then 0 else if j = 0x60 then 4
       else if 0x24 \<le> j \<and> j < 0x28 then mcp2515_frame_pack_mask (plan_mask plan ! 1) (plan_mask_extended plan ! 1) ! (j - 0x24)
       else if 0x20 \<le> j \<and> j < 0x24 then mcp2515_frame_pack_mask (plan_mask plan ! 0) (plan_mask_extended plan ! 0) ! (j - 0x20)
       else if 0x18 \<le> j \<and> j < 0x1C then mcp2515_frame_pack_id (plan_filter_id plan ! 5) ! (j - 0x18)
       else if 0x14 \<le> j \<and> j < 0x18 then mcp2515_frame_pack_id (plan_filter_id plan ! 4) ! (j - 0x14)
       else if 0x10 \<le> j \<and> j < 0x14 then mcp2515_frame_pack_id (plan_filter_id plan ! 3) ! (j - 0x10)
       else if 0x08 \<le> j \<and> j < 0x0C then mcp2515_frame_pack_id (plan_filter_id plan ! 2) ! (j - 0x08)
       else if 0x04 \<le> j \<and> j < 0x08 then mcp2515_frame_pack_id (plan_filter_id plan ! 1) ! (j - 0x04)
       else if j < 0x04 then mcp2515_frame_pack_id (plan_filter_id plan ! 0) ! j
       else written w j)"
  using cfg unfolding configure_filters_def write_filter_def write_mask_def FILTER_REG_def Let_def fold_filters
  by (auto simp: write_register_written [OF dev] write_registers_written [OF dev] mcp2515_frame_pack_mask_def)

text \<open>A controller that was programmed holds the plan and the timing.\<close>

lemma program_controller_written:
  assumes prog: "program_controller sdk bus0 mode plan timing w = (MCP2515_OK, bus, w')"
    and dev: "mcp_device sdk bus0 config_mode written"
  obtains w1 where "config_mode w1" "\<And>j. j \<in> config_registers \<Longrightarrow> written w' j = written (configure_filters sdk bus0 plan w1) j"
    "written w1 0x28 = cnf3 timing" "written w1 0x29 = cnf2 timing" "written w1 0x2A = cnf1 timing"
    "bus = bus0\<lparr>bus_mode := mode, bus_initialised := True\<rparr>"
proof -
  obtain v w0 where r: "read_register sdk bus0 REG_CANSTAT w = (v, w0)" by (cases "read_register sdk bus0 REG_CANSTAT w")
  have v: "drop_bit 5 v = 4" using prog by (auto simp: program_controller_def r split: if_splits)
  then have cfg: "config_mode w0" using dev r unfolding mcp_device_def by (metis fst_conv snd_conv)
  let ?w1 = "write_register sdk bus0 REG_CANINTF 0 (write_register sdk bus0 REG_CANINTE 0x3F
    (write_register sdk bus0 REG_CNF3 (cnf3 timing) (write_register sdk bus0 REG_CNF2 (cnf2 timing)
      (write_register sdk bus0 REG_CNF1 (cnf1 timing) w0))))"
  obtain res w2 where sw: "switch_mode sdk bus0 (reqop_for mode) (configure_filters sdk bus0 plan ?w1) = (res, w2)"
    by (cases "switch_mode sdk bus0 (reqop_for mode) (configure_filters sdk bus0 plan ?w1)")
  have res: "bus = bus0\<lparr>bus_mode := mode, bus_initialised := True\<rparr>" "w' = w2"
    using prog v by (auto simp: program_controller_def r sw Let_def split: if_splits)
  have cfg1: "config_mode ?w1" using cfg by (simp add: write_register_written [OF dev])
  have regs: "0x28 \<in> config_registers" "0x29 \<in> config_registers" "0x2A \<in> config_registers"
    by (simp_all add: config_registers_def)
  have cnf: "written ?w1 0x28 = cnf3 timing" "written ?w1 0x29 = cnf2 timing" "written ?w1 0x2A = cnf1 timing"
    using cfg regs by (simp_all add: write_register_written [OF dev])
  have "written w' j = written (configure_filters sdk bus0 plan ?w1) j" if "j \<in> config_registers" for j
    using switch_mode_written [OF dev that, of "reqop_for mode" "configure_filters sdk bus0 plan ?w1"] res sw by simp
  with cfg1 cnf res show thesis by (intro that)
qed

text \<open>
  The acceptance of a received frame by the controller, from its registers: a receive buffer whose RXM bits are 11
  takes every frame, one whose RXM bits are 00 takes a frame one of its filters matches under its mask.
\<close>

definition rx_control :: "nat \<Rightarrow> nat" where
  "rx_control bank = (if bank = 0 then 0x60 else 0x70)"

definition rx_mask :: "nat \<Rightarrow> nat" where
  "rx_mask bank = (if bank = 0 then 0x20 else 0x24)"

definition filter_bank :: "nat \<Rightarrow> nat" where
  "filter_bank i = (if i < 2 then 0 else 1)"

definition controller_accepts :: "(nat \<Rightarrow> u8) \<Rightarrow> u8 list \<Rightarrow> bool" where
  "controller_accepts regs rx \<longleftrightarrow>
     (\<exists>bank<2. regs (rx_control bank) AND 0x60 = 0x60)
   \<or> (\<exists>i<6. regs (rx_control (filter_bank i)) AND 0x60 = 0
        \<and> registers_match (map regs [rx_mask (filter_bank i)..<rx_mask (filter_bank i) + 4])
            (map regs [unat (FILTER_REG ! i)..<unat (FILTER_REG ! i) + 4]) rx)"

lemma four_bytes: "length xs = 4 \<Longrightarrow> [xs ! 0, xs ! Suc 0, xs ! 2, xs ! 3] = xs"
  by (auto simp: numeral_eq_Suc length_Suc_conv)

lemma upto_four: "[0..<4] = [0, 1, 2, 3 :: nat]"
  by (simp add: upt_rec)

lemma cases_6: "i < 6 \<Longrightarrow> i = 0 \<or> i = 1 \<or> i = 2 \<or> i = 3 \<or> i = 4 \<or> i = (5 :: nat)"
  by linarith

lemma programmed_registers:
  assumes dev: "mcp_device sdk bus config_mode written" and cfg: "config_mode w" and sel: "\<not> plan_accept_all plan"
  shows "i < 6 \<Longrightarrow> map (written (configure_filters sdk bus plan w)) [unat (FILTER_REG ! i)..<unat (FILTER_REG ! i) + 4]
      = mcp2515_frame_pack_id (plan_filter_id plan ! i)"
    and "bank < 2 \<Longrightarrow> map (written (configure_filters sdk bus plan w)) [rx_mask bank..<rx_mask bank + 4]
      = mcp2515_frame_pack_mask (plan_mask plan ! bank) (plan_mask_extended plan ! bank)"
    and "bank < 2 \<Longrightarrow> written (configure_filters sdk bus plan w) (rx_control bank) AND 0x60 = 0"
proof -
  note regs = configure_filters_written(3) [OF dev cfg sel]
  show "map (written (configure_filters sdk bus plan w)) [unat (FILTER_REG ! i)..<unat (FILTER_REG ! i) + 4]
      = mcp2515_frame_pack_id (plan_filter_id plan ! i)" if "i < 6"
    using cases_6 [OF that] by (elim disjE) (simp_all add: four_bytes upto_four regs FILTER_REG_def config_registers_def)
  have b: "bank = 0 \<or> bank = 1" if "bank < 2" using that by linarith
  show "map (written (configure_filters sdk bus plan w)) [rx_mask bank..<rx_mask bank + 4]
      = mcp2515_frame_pack_mask (plan_mask plan ! bank) (plan_mask_extended plan ! bank)" if "bank < 2"
    using b [OF that]
    by (elim disjE) (simp_all add: four_bytes upto_four regs rx_mask_def config_registers_def mcp2515_frame_pack_mask_def)
  show "written (configure_filters sdk bus plan w) (rx_control bank) AND 0x60 = 0" if "bank < 2"
    using b [OF that] by (elim disjE) (simp_all add: regs rx_control_def config_registers_def)
qed

lemma controller_accepts_plan:
  assumes "mcp_device sdk bus config_mode written" and "config_mode w"
    and regs: "\<And>j. j \<in> config_registers \<Longrightarrow> regs j = written (configure_filters sdk bus plan w) j"
  shows "controller_accepts regs rx \<longleftrightarrow> plan_accepts plan rx"
proof -
  let ?w = "written (configure_filters sdk bus plan w)"
  have ctrl: "regs (rx_control bank) = ?w (rx_control bank)" for bank
    by (rule regs) (simp add: rx_control_def config_registers_def)
  show ?thesis
  proof (cases "plan_accept_all plan")
    case True
    have "?w (rx_control 0) AND 0x60 = 0x60"
      using configure_filters_written(2) [OF assms(1,2) True, where j = "0x60"] by (simp add: rx_control_def config_registers_def)
    then have "controller_accepts regs rx"
      unfolding controller_accepts_def ctrl by (intro disjI1 exI [of _ 0]) simp
    then show ?thesis using True by (simp add: plan_accepts_def)
  next
    case False
    note programmed = programmed_registers [OF assms(1,2) False]
    have bank: "filter_bank i < 2" for i by (simp add: filter_bank_def)
    have filt: "map regs [unat (FILTER_REG ! i)..<unat (FILTER_REG ! i) + 4] = mcp2515_frame_pack_id (plan_filter_id plan ! i)"
      if "i < 6" for i
    proof -
      have "j \<in> config_registers" if "j \<in> set [unat (FILTER_REG ! i)..<unat (FILTER_REG ! i) + 4]" for j
        using cases_6 [OF \<open>i < 6\<close>] that by (elim disjE) (auto simp: FILTER_REG_def config_registers_def)
      then have "map regs [unat (FILTER_REG ! i)..<unat (FILTER_REG ! i) + 4] = map ?w [unat (FILTER_REG ! i)..<unat (FILTER_REG ! i) + 4]"
        by (intro map_cong refl regs)
      then show ?thesis unfolding programmed(1) [OF that] .
    qed
    have mask: "map regs [rx_mask b..<rx_mask b + 4] = mcp2515_frame_pack_mask (plan_mask plan ! b) (plan_mask_extended plan ! b)"
      if "b < 2" for b
    proof -
      have "j \<in> config_registers" if "j \<in> set [rx_mask b..<rx_mask b + 4]" for j
        using that by (auto simp: rx_mask_def config_registers_def split: if_splits)
      then have "map regs [rx_mask b..<rx_mask b + 4] = map ?w [rx_mask b..<rx_mask b + 4]"
        by (intro map_cong refl regs)
      then show ?thesis unfolding programmed(2) [OF that] .
    qed
    have "controller_accepts regs rx \<longleftrightarrow> (\<exists>i<6. registers_match
        (mcp2515_frame_pack_mask (plan_mask plan ! filter_bank i) (plan_mask_extended plan ! filter_bank i))
        (mcp2515_frame_pack_id (plan_filter_id plan ! i)) rx)"
      unfolding controller_accepts_def ctrl using programmed(3) by (auto simp: filt mask bank)
    then show ?thesis using False by (simp add: plan_accepts_def filter_bank_def Let_def)
  qed
qed

subsection \<open>Properties\<close>

text \<open>C24: a started bus delivers exactly the frames its filters ask for. On any controller that keeps what is
  written to its configuration registers in configuration mode, a successful initialisation leaves the
  registers such that a received frame is accepted exactly when the caller's filters match it, or when
  there are none; the bit timing registers hold the computed timing.\<close>

theorem mcp2515_started_bus_filters:
  assumes init: "mcp2515_bus_init sdk bus0 config w = (MCP2515_OK, bus, w')"
    and dev: "mcp_device sdk (bus_of_config config) config_mode written"
    and filters: "\<forall>fs. bc_filters config = Some fs \<longrightarrow> bc_filter_count config \<le> length fs \<and> (\<forall>f \<in> set fs. packed_filter f)"
    and frame: "can_id_is_valid ident ext" and rx: "received_as (can_id_pack ident ext rem) rx"
  shows "(controller_accepts (written w') rx \<longleftrightarrow>
        can_filters_accept (map_option (take (bc_filter_count config)) (bc_filters config)) (can_id_pack ident ext rem))
    \<and> mcp2515_compute_bit_timing (bc_oscillator_hz config) (if bc_bitrate config \<noteq> 0 then bc_bitrate config else 500000)
        = Some \<lparr>cnf1 = written w' 0x2A, cnf2 = written w' 0x29, cnf3 = written w' 0x28\<rparr>"
proof -
  obtain plan timing where plan: "mcp2515_filter_plan (bc_filters config) (bc_filter_count config) = Some plan"
    and timing: "mcp2515_compute_bit_timing (bc_oscillator_hz config) (if bc_bitrate config \<noteq> 0 then bc_bitrate config else 500000) = Some timing"
    and prog: "program_controller sdk (bus_of_config config) (bc_mode config) plan timing (bring_up sdk (bus_of_config config) config w) = (MCP2515_OK, bus, w')"
    using init unfolding mcp2515_bus_init_def Let_def by (auto split: option.splits if_splits)
  obtain w1 where w1: "config_mode w1"
    "\<And>j. j \<in> config_registers \<Longrightarrow> written w' j = written (configure_filters sdk (bus_of_config config) plan w1) j"
    "written w1 0x28 = cnf3 timing" "written w1 0x29 = cnf2 timing" "written w1 0x2A = cnf1 timing"
    using program_controller_written [OF prog dev] by metis
  have "controller_accepts (written w') rx \<longleftrightarrow> plan_accepts plan rx"
    by (rule controller_accepts_plan [OF dev w1(1,2)])
  also have "\<dots> \<longleftrightarrow> can_filters_accept (map_option (take (bc_filter_count config)) (bc_filters config)) (can_id_pack ident ext rem)"
  proof (cases "bc_filters config")
    case None
    with plan have "plan_accept_all plan" by (auto simp: mcp2515_filter_plan_def mcp2515_filters_are_valid_def split: if_splits)
    with None show ?thesis by (simp add: plan_accepts_def can_filters_accept_def)
  next
    case (Some fs)
    with filters plan_accepts_filters [OF plan [unfolded Some] _ _ frame rx] show ?thesis by simp
  qed
  finally have accepts: "controller_accepts (written w') rx \<longleftrightarrow>
      can_filters_accept (map_option (take (bc_filter_count config)) (bc_filters config)) (can_id_pack ident ext rem)" .
  have "written w' j = written w1 j" if "j \<in> {0x28..<0x2B}" for j
    using that w1(2) [of j] configure_filters_written(2) [OF dev w1(1), where plan = plan and j = j]
      configure_filters_written(3) [OF dev w1(1), where plan = plan and j = j]
    by (cases "plan_accept_all plan") (auto simp: config_registers_def)
  with w1(3-5) timing accepts show ?thesis by simp
qed

lemma choose_buffer_spec:
  "choose_buffer status next is =
     (case filter (\<lambda>i. status AND TXREQ_BIT ! ((next + i) mod 3) = 0) is of [] \<Rightarrow> None | i # _ \<Rightarrow> Some ((next + i) mod 3))"
  by (induction "is") (auto simp: Let_def)

lemma next_three:
  assumes "n < 3"
  shows "{(n + 0) mod 3, (n + 1) mod 3, (n + 2) mod 3} = {0, 1, 2 :: nat}"
proof -
  from assms have "n = 0 \<or> n = 1 \<or> n = 2" by linarith
  then show ?thesis by (elim disjE) auto
qed

lemma all_busy_iff:
  "(status AND (TXREQ_BIT ! 0 OR TXREQ_BIT ! 1 OR TXREQ_BIT ! 2) \<noteq> TXREQ_BIT ! 0 OR TXREQ_BIT ! 1 OR TXREQ_BIT ! 2)
    \<longleftrightarrow> (\<exists>c<3. status AND TXREQ_BIT ! c = 0)"
proof -
  have bits: "bit (0x54 :: int) n \<longleftrightarrow> n = 2 \<or> n = 4 \<or> n = 6" "bit (4 :: int) n \<longleftrightarrow> n = 2" "bit (0x10 :: int) n \<longleftrightarrow> n = 4" for n
  proof -
    have 54: "(0x54 :: int) = push_bit 2 1 OR push_bit 4 1 OR push_bit 6 1"
      and 4: "(4 :: int) = push_bit 2 1" and 10: "(0x10 :: int) = push_bit 4 1"
      by simp_all
    show "bit (0x54 :: int) n \<longleftrightarrow> n = 2 \<or> n = 4 \<or> n = 6"
      unfolding 54 bit_or_iff bit_push_bit_iff bit_1_iff by auto
    show "bit (4 :: int) n \<longleftrightarrow> n = 2" unfolding 4 bit_push_bit_iff bit_1_iff by auto
    show "bit (0x10 :: int) n \<longleftrightarrow> n = 4" unfolding 10 bit_push_bit_iff bit_1_iff by auto
  qed
  have one: "status AND 4 = 0 \<longleftrightarrow> \<not> bit status 2" "status AND 0x10 = 0 \<longleftrightarrow> \<not> bit status 4" "status AND 0x40 = 0 \<longleftrightarrow> \<not> bit status 6"
    by (auto simp: bit_eq_iff [of "status AND _"] bit_and_iff bits mask_bits dest: spec [of _ "2 :: nat"] spec [of _ "4 :: nat"] spec [of _ "6 :: nat"])
  have "status AND 0x54 = 0x54 \<longleftrightarrow> bit status 2 \<and> bit status 4 \<and> bit status 6"
    by (auto simp: bit_eq_iff [of "status AND 0x54"] bit_and_iff bits
        dest: spec [of _ "2 :: nat"] spec [of _ "4 :: nat"] spec [of _ "6 :: nat"])
  moreover have "(\<exists>c<3. P c) \<longleftrightarrow> P 0 \<or> P 1 \<or> P (2 :: nat)" for P
    by (auto simp: numeral_eq_Suc less_Suc_eq)
  ultimately show ?thesis by (auto simp: TXREQ_BIT_def one)
qed

text \<open>Sending never touches a transmit buffer that is still waiting. On a started bus a valid frame is
  loaded into a buffer whose request bit the status just read shows clear, and the search goes on from
  the next one the next time; the call reports full exactly when all three are waiting, which is when
  \<open>mcp2515_bus_can_send\<close> says no; a refused frame reaches the controller in no case.\<close>

theorem mcp2515_send_uses_free_buffer:
  assumes "bus_initialised bus" and "bus_mode bus \<noteq> MCP2515_MODE_LISTEN_ONLY" and "can_message_is_valid (Some m)"
    and "unat (bus_next_tx_buffer bus) < 3" and status: "read_status sdk bus w = (status, w1)"
  shows "(\<exists>c<3. mcp2515_bus_send sdk bus (Some m) w =
        (MCP2515_OK, bus\<lparr>bus_next_tx_buffer := word_of_nat ((c + 1) mod 3)\<rparr>, load_buffer sdk bus c m w1)
        \<and> status AND TXREQ_BIT ! c = 0 \<and> fst (mcp2515_bus_can_send sdk bus w))
    \<or> mcp2515_bus_send sdk bus (Some m) w = (MCP2515_ERR_TX_FULL, bus, w1)
        \<and> (\<forall>c<3. status AND TXREQ_BIT ! c \<noteq> 0) \<and> \<not> fst (mcp2515_bus_can_send sdk bus w)"
proof -
  let ?n = "unat (bus_next_tx_buffer bus)"
  let ?free = "filter (\<lambda>i. status AND TXREQ_BIT ! ((?n + i) mod 3) = 0) [0..<3]"
  have three: "[0..<3] = [0, 1, 2 :: nat]" by (simp add: upt_rec)
  have can: "fst (mcp2515_bus_can_send sdk bus w) \<longleftrightarrow> (\<exists>c<3. status AND TXREQ_BIT ! c = 0)"
    using assms(1,2) status all_busy_iff by (simp add: mcp2515_bus_can_send_def)
  have send: "mcp2515_bus_send sdk bus (Some m) w = (case choose_buffer status ?n [0..<3] of
      None \<Rightarrow> (MCP2515_ERR_TX_FULL, bus, w1)
    | Some c \<Rightarrow> (MCP2515_OK, bus\<lparr>bus_next_tx_buffer := word_of_nat ((c + 1) mod 3)\<rparr>, load_buffer sdk bus c m w1))"
    using assms by (simp add: mcp2515_bus_send_def del: upt_rec_numeral cong: option.case_cong)
  have range: "(\<exists>i \<in> set [0..<3]. status AND TXREQ_BIT ! ((?n + i) mod 3) = 0) \<longleftrightarrow> (\<exists>c \<in> {0, 1, 2}. status AND TXREQ_BIT ! c = 0)"
    unfolding next_three [OF assms(4), symmetric] three by auto
  have c3: "(\<exists>c \<in> {0, 1, 2 :: nat}. P c) \<longleftrightarrow> (\<exists>c<3. P c)" for P by (auto simp: numeral_eq_Suc less_Suc_eq)
  show ?thesis
  proof (cases ?free)
    case Nil
    then have "\<not> (\<exists>i \<in> set [0..<3]. status AND TXREQ_BIT ! ((?n + i) mod 3) = 0)" by (metis (mono_tags, lifting) filter_empty_conv)
    then have none: "\<forall>c<3. status AND TXREQ_BIT ! c \<noteq> 0" unfolding range c3 by blast
    have "choose_buffer status ?n [0..<3] = None" unfolding choose_buffer_spec Nil by simp
    then show ?thesis using send none can by auto
  next
    case (Cons i rest)
    then have "i \<in> set ?free" by simp
    then have i: "status AND TXREQ_BIT ! ((?n + i) mod 3) = 0" by simp
    have "choose_buffer status ?n [0..<3] = Some ((?n + i) mod 3)" unfolding choose_buffer_spec Cons by simp
    moreover have "(?n + i) mod 3 < 3" by simp
    ultimately show ?thesis using send i can by (intro disjI1 exI [of _ "(?n + i) mod 3"]) auto
  qed
qed

text \<open>A frame is received as it was sent. When the bytes a receive buffer hands back are those a transmit
  buffer was loaded with, header and data, the driver returns the frame with its identifier, flags, length and data.\<close>

theorem mcp2515_loopback:
  assumes m: "frame_ok m"
    and header: "spi_read_blocking sdk (bus_spi bus) 0xFF 5
        (spi_write_blocking sdk (bus_spi bus) [0x90 OR (word_of_nat rxb * 4)] (cs_select sdk bus w)) = (mcp2515_frame_pack_header m, w1)"
    and data: "\<not> msg_remote m \<Longrightarrow> 0 < msg_length m \<Longrightarrow>
        fst (spi_read_blocking sdk (bus_spi bus) 0xFF (unat (msg_length m)) w1) = take (unat (msg_length m)) (msg_data m)"
  shows "fst (read_rx_buffer sdk bus rxb w) = frame_content m"
proof -
  have n: "unat (msg_length m) \<le> 8" "length (msg_data m) = 8"
    using m by (auto simp: frame_ok_def can_message_is_valid_def word_le_nat_alt)
  have zero: "unat (msg_length m) = 0" if "\<not> 0 < msg_length m" using that by (simp add: word_less_nat_alt)
  obtain bytes w2 where r: "spi_read_blocking sdk (bus_spi bus) 0xFF (unat (msg_length m)) w1 = (bytes, w2)"
    by (cases "spi_read_blocking sdk (bus_spi bus) 0xFF (unat (msg_length m)) w1")
  show ?thesis
  proof (cases "\<not> msg_remote m \<and> 0 < msg_length m")
    case True
    with data r have "bytes = take (unat (msg_length m)) (msg_data m)" by simp
    with True n show ?thesis
      by (simp add: read_rx_buffer_def Let_def header unpack_pack_header [OF m] r frame_content_def blit_def min_def
          flip: replicate_add)
  next
    case False
    with zero show ?thesis
      by (auto simp: read_rx_buffer_def Let_def header unpack_pack_header [OF m] frame_content_def)
  qed
qed

subsection \<open>Witnesses\<close>

text \<open>A small simulated controller: the bytes of the running transaction, and the registers.\<close>

type_synonym sim = "u8 list \<times> (nat \<Rightarrow> u8)"

definition sim_execute :: "u8 list \<Rightarrow> (nat \<Rightarrow> u8) \<Rightarrow> nat \<Rightarrow> u8" where
  "sim_execute bytes regs =
     (if bytes = [] then regs
      else if hd bytes = CMD_RESET then regs(0x0E := 0x80)
      else if hd bytes = CMD_BITMOD \<and> 3 < length bytes \<and> bytes ! 1 = REG_CANCTRL then regs(0x0E := bytes ! 3)
      else if hd bytes = CMD_WRITE \<and> 1 < length bytes
      then (\<lambda>i. if unat (bytes ! 1) \<le> i \<and> i < unat (bytes ! 1) + length (drop 2 bytes)
                 then drop 2 bytes ! (i - unat (bytes ! 1)) else regs i)
      else regs)"

definition sim_spi :: "sim spi_sdk" where
  "sim_spi = \<lparr>gpio_init = \<lambda>_ w. w, gpio_set_dir = \<lambda>_ _ w. w, gpio_pull_up = \<lambda>_ w. w,
     gpio_put = \<lambda>_ level (bytes, regs). if level then ([], sim_execute bytes regs) else ([], regs),
     gpio_get = \<lambda>_ _. True, gpio_deinit = \<lambda>_ w. w, spi_set_baudrate = \<lambda>_ _ w. w,
     spi_write_blocking = \<lambda>_ bs (bytes, regs). (bytes @ bs, regs),
     spi_read_blocking = \<lambda>_ _ n (bytes, regs).
       (if n = 1 \<and> length bytes = 2 then [regs (unat (bytes ! 1))] else replicate n 0, bytes, regs),
     sleep_us = \<lambda>_ w. w\<rparr>"

definition sim_config :: mcp2515_bus_config_t where
  "sim_config = \<lparr>bc_spi = Some 0, bc_spi_baudrate_hz = 0, bc_cs_pin = 5, bc_int_pin = -1, bc_oscillator_hz = 32,
     bc_bitrate = 1, bc_mode = MCP2515_MODE_NORMAL,
     bc_filters = Some [\<lparr>flt_id = can_id_pack 0x123 False False, flt_mask = 0x800007FF\<rparr>], bc_filter_count = 1\<rparr>"

lemma sim_session: "session sim_spi bus ws (bs, regs) = ([], sim_execute (concat ws) regs)"
proof -
  have "fold (spi_write_blocking sim_spi (bus_spi bus)) ws (bs, regs) = (bs @ concat ws, regs)" for bs
    by (induction ws arbitrary: bs) (simp_all add: sim_spi_def)
  then show ?thesis by (simp add: session_def cs_select_def cs_deselect_def) (simp add: sim_spi_def)
qed

lemma sim_device: "mcp_device sim_spi bus (\<lambda>_. True) snd"
  unfolding mcp_device_def
proof (intro conjI allI ballI impI)
  fix w :: sim and ws reg data i
  assume *: "True \<and> concat ws = CMD_WRITE # reg # data \<and> 0x0F \<notin> {unat reg..<unat reg + length data}" and "i \<in> config_registers"
  then show "snd (session sim_spi bus ws w) i =
      (if unat reg \<le> i \<and> i < unat reg + length data then data ! (i - unat reg) else snd w i)"
    by (cases w) (simp add: sim_session sim_execute_def)
next
  fix w :: sim and m v i
  assume "i \<in> config_registers"
  then show "snd (session sim_spi bus [[CMD_BITMOD, REG_CANCTRL, m, v]] w) i = snd w i"
    by (cases w) (auto simp: sim_session sim_execute_def config_registers_def)
next
  fix w :: sim and reg i
  show "snd (snd (read_register sim_spi bus reg w)) i = snd w i"
    by (cases w) (simp add: read_register_def cs_select_def cs_deselect_def sim_spi_def sim_execute_def)
qed (simp_all add: sim_spi_def)

lemma sim_starts: "fst (mcp2515_bus_init sim_spi (bus_of_config sim_config) sim_config ([], \<lambda>_. 0)) = MCP2515_OK"
  by code_simp

lemma mcp2515_started_bus_filters_witness:
  "\<not> controller_accepts (snd (snd (snd (mcp2515_bus_init sim_spi (bus_of_config sim_config) sim_config ([], \<lambda>_. 0)))))
     [0x24, 0x80, 0xAA, 0xBB]"
proof -
  let ?r = "mcp2515_bus_init sim_spi (bus_of_config sim_config) sim_config ([], \<lambda>_. 0)"
  have init: "?r = (MCP2515_OK, fst (snd ?r), snd (snd ?r))" using sim_starts by (metis prod.collapse)
  have ids: "can_id_is_valid 0x124 False" "can_id_is_valid 0x123 False" by (simp_all add: can_id_is_valid_def)
  have filters: "\<forall>fs. bc_filters sim_config = Some fs \<longrightarrow> bc_filter_count sim_config \<le> length fs \<and> (\<forall>f \<in> set fs. packed_filter f)"
    using ids(2) by (simp add: sim_config_def packed_filter_def) blast
  have rx: "received_as (can_id_pack 0x124 False False) [0x24, 0x80, 0xAA, 0xBB]"
    by (simp add: received_as_def all_lt_2 can_id_pack_def mcp2515_frame_pack_id_def can_id_is_extended_def can_id_value_def Let_def)
  have "\<not> can_filters_accept (map_option (take (bc_filter_count sim_config)) (bc_filters sim_config)) (can_id_pack 0x124 False False)"
    by code_simp
  with mcp2515_started_bus_filters [OF init sim_device filters ids(1) rx] show ?thesis by blast
qed

lemma mcp2515_send_uses_free_buffer_witness:
  "\<exists>c<3. fst (mcp2515_bus_send sim_spi ((bus_of_config sim_config)\<lparr>bus_initialised := True\<rparr>) (Some can_message_zero) ([], \<lambda>_. 0))
     = MCP2515_OK \<and> (0 :: u8) AND TXREQ_BIT ! c = 0"
proof -
  let ?bus = "(bus_of_config sim_config)\<lparr>bus_initialised := True\<rparr>"
  have b: "bus_initialised ?bus" "bus_mode ?bus \<noteq> MCP2515_MODE_LISTEN_ONLY" "unat (bus_next_tx_buffer ?bus) < 3"
    by (simp_all add: bus_of_config_def)
  have m: "can_message_is_valid (Some can_message_zero)"
    by (simp add: can_message_is_valid_def can_message_zero_def can_id_is_valid_def)
  have s: "read_status sim_spi ?bus ([], \<lambda>_. 0) = (0, [], \<lambda>_. 0)"
    by (simp add: read_status_def cs_select_def cs_deselect_def sim_spi_def sim_execute_def)
  have free: "\<not> (\<forall>c<3. (0 :: u8) AND TXREQ_BIT ! c \<noteq> 0)" by (auto intro!: exI [of _ 0])
  from mcp2515_send_uses_free_buffer [OF b(1,2) m b(3) s] show ?thesis using free by (elim disjE exE conjE) auto
qed

lemma mcp2515_loopback_witness:
  "fst (read_rx_buffer (sim_spi\<lparr>spi_read_blocking := \<lambda>_ _ n w.
        (if n = 5 then mcp2515_frame_pack_header (can_message_zero\<lparr>msg_length := 2\<rparr>) else replicate n 0, w)\<rparr>) (bus_of_config sim_config) 1 ([], \<lambda>_. 0))
    = frame_content (can_message_zero\<lparr>msg_length := 2\<rparr>)"
proof -
  let ?m = "can_message_zero\<lparr>msg_length := 2\<rparr>"
  have m: "frame_ok ?m" by (simp add: frame_ok_def can_message_is_valid_def can_message_zero_def can_id_is_valid_def)
  show ?thesis
    by (rule mcp2515_loopback [OF m]) (simp_all add: can_message_zero_def)
qed

end
