(* ===== verification/Stream_Link.thy ===== *)
theory Stream_Link
  imports Ring_Buffer
begin

text \<open>
  What the TCP and the Bluetooth stream have in common, and what their clients rely on. Both
  queue output in a ring buffer and hand it, piece by piece, to a link that takes as many bytes
  as it likes (the function type \<open>tcp_stream_send_fn\<close> and \<open>bt_stream_send_fn\<close>): the state of the
  link is a parameter \<open>'w\<close>, and a link is a function from the bytes offered to the number taken.
  The locale states the contract of the output side, and its lemmas follow a whole session of
  writes and sending opportunities.
\<close>

type_synonym 'w link = "u8 list \<Rightarrow> 'w \<Rightarrow> u16 \<times> 'w"

text \<open>A link that also keeps a record of the bytes it took, in the order it took them.\<close>

definition logged :: "'w link \<Rightarrow> ('w \<times> u8 list) link" where
  "logged send bytes = (\<lambda>(w, log).
     (case send bytes w of (accepted, w) \<Rightarrow> (accepted, (w, log @ take (unat accepted) bytes))))"

text \<open>A link that takes whatever it is offered (the count it is offered is 16 bits wide).\<close>

definition eager :: "'w link \<Rightarrow> bool" where
  "eager send \<longleftrightarrow> (\<forall>bytes w. length bytes < 65536 \<longrightarrow> length bytes \<le> unat (fst (send bytes w)))"

datatype stream_call = Put "u8 list" | Offer nat

text \<open>The calls of a session on the stream itself. The result holds the number of bytes each write accepted.\<close>

fun run_stream :: "('s \<Rightarrow> u8 list \<Rightarrow> (nat \<times> 's) option) \<Rightarrow> ('s \<Rightarrow> nat \<Rightarrow> 'l \<Rightarrow> (bool \<times> 's \<times> 'l) option)
    \<Rightarrow> stream_call list \<Rightarrow> 's \<Rightarrow> 'l \<Rightarrow> (nat list \<times> 's \<times> 'l) option" where
  "run_stream put offer [] s l = Some ([], s, l)"
| "run_stream put offer (Put bytes # calls) s l =
     (case put s bytes of
        None \<Rightarrow> None
      | Some (n, s) \<Rightarrow> map_option (\<lambda>(ns, s, l). (n # ns, s, l)) (run_stream put offer calls s l))"
| "run_stream put offer (Offer room # calls) s l =
     (case offer s room l of
        None \<Rightarrow> None
      | Some (again, s, l) \<Rightarrow> run_stream put offer calls s l)"

text \<open>The bytes the writes of a session put into the stream: of each, the front that was accepted.\<close>

fun accepted_bytes :: "stream_call list \<Rightarrow> nat list \<Rightarrow> u8 list" where
  "accepted_bytes (Put bytes # calls) (n # ns) = take n bytes @ accepted_bytes calls ns"
| "accepted_bytes (Offer room # calls) ns = accepted_bytes calls ns"
| "accepted_bytes _ _ = []"

locale stream_output =
  fixes up :: "'s \<Rightarrow> bool"
    and queued :: "'s \<Rightarrow> u8 list"
    and put :: "'s \<Rightarrow> u8 list \<Rightarrow> (nat \<times> 's) option"
    and offer :: "'s \<Rightarrow> nat \<Rightarrow> ('w \<times> u8 list) \<Rightarrow> (bool \<times> 's \<times> 'w \<times> u8 list) option"
  assumes put_ok: "up s \<Longrightarrow> \<exists>n s'. put s bytes = Some (n, s') \<and> up s' \<and> n \<le> length bytes
      \<and> queued s' = queued s @ take n bytes"
    and offer_ok: "up s \<Longrightarrow> \<exists>again s' w' out. offer s room (w, log) = Some (again, s', w', log @ out)
      \<and> up s' \<and> queued s = out @ queued s' \<and> (0 < room \<longrightarrow> again = (queued s' \<noteq> []))"
begin

text \<open>
  Whatever the link does, the bytes it took followed by the bytes still queued are the bytes the
  writes accepted, in order: nothing is lost, repeated or reordered.
\<close>

lemma session_in_order:
  assumes "up s"
  shows "\<exists>ns s' w' log'. run_stream put offer calls s (w, log) = Some (ns, s', w', log') \<and> up s'
    \<and> log' @ queued s' = log @ queued s @ accepted_bytes calls ns"
  using assms
proof (induction calls arbitrary: s w log)
  case Nil
  then show ?case by simp
next
  case (Cons call calls)
  show ?case
  proof (cases call)
    case (Put bytes)
    obtain n s1 where s1: "put s bytes = Some (n, s1)" "up s1" "queued s1 = queued s @ take n bytes"
      using put_ok [OF Cons.prems] by blast
    from Cons.IH [OF s1(2)] s1 Put show ?thesis by fastforce
  next
    case (Offer room)
    obtain again s1 w1 out where s1: "offer s room (w, log) = Some (again, s1, w1, log @ out)" "up s1"
        "queued s = out @ queued s1"
      using offer_ok [OF Cons.prems] by blast
    from Cons.IH [OF s1(2)] s1 Offer show ?thesis by fastforce
  qed
qed

end

text \<open>
  A stream whose opportunities move bytes: with a willing link, one that takes what it is
  offered, each opportunity sends at least one byte while there is one.
\<close>

locale progressing_output = stream_output +
  fixes willing :: bool
  assumes offer_moves: "willing \<Longrightarrow> up s \<Longrightarrow> queued s \<noteq> [] \<Longrightarrow> 0 < room \<Longrightarrow> offer s room l = Some (again, s', l')
      \<Longrightarrow> length (queued s') < length (queued s)"
begin

lemma opportunities_drain:
  assumes willing and "up s" and "\<forall>call \<in> set calls. \<exists>room > 0. call = Offer room" and "length (queued s) \<le> length calls"
  shows "\<exists>s' w'. run_stream put offer calls s (w, log) = Some ([], s', w', log @ queued s)
    \<and> up s' \<and> queued s' = []"
  using assms
proof (induction calls arbitrary: s w log)
  case Nil
  then show ?case by simp
next
  case (Cons call calls)
  then obtain room where room: "call = Offer room" "0 < room" by auto
  obtain again s1 w1 out where s1: "offer s room (w, log) = Some (again, s1, w1, log @ out)" "up s1"
      "queued s = out @ queued s1"
    using offer_ok [OF Cons.prems(2)] by blast
  have "length (queued s1) \<le> length calls"
  proof (cases "queued s = []")
    case True
    with s1 show ?thesis by simp
  next
    case False
    from offer_moves [OF Cons.prems(1,2) False room(2) s1(1)] Cons.prems(4) show ?thesis by simp
  qed
  from Cons.IH [OF Cons.prems(1) s1(2) _ this, of w1 "log @ out"] Cons.prems(3) s1 room show ?case
    by auto
qed

end

end
