(* ===== verification/Tcp_Stream.thy ===== *)
theory Tcp_Stream
  imports Stream_Link
begin

text \<open>
  The buffering between a TCP connection and a byte stream, \<open>tcp/tcp_stream.c\<close>: the stream record
  with its two ring buffers, every operation, and the loop of \<open>tcp_stream_flush\<close>. The send
  function and its context are the link parameter; offering output to a stream that has none is
  the call of a null pointer, which is the result \<open>None\<close>. The lemmas show that a flush loses and
  reorders nothing whatever the link does, that the loop ends, and that input is taken whole or
  not at all.
\<close>

abbreviation (input) "TCP_STREAM_SEGMENT_MAX \<equiv> (512 :: nat)"

record 'w tcp_stream_t =
  ts_incoming :: ring_buffer_t
  ts_outgoing :: ring_buffer_t
  ts_send :: "'w link option"
  ts_connected :: bool
  ts_bytes_sent :: u32
  ts_bytes_received :: u32
  ts_dropped_outgoing :: u32
  ts_initialised :: bool

definition tcp_stream_zero :: "'w tcp_stream_t" where
  "tcp_stream_zero = \<lparr>ts_incoming = \<lparr>storage = [], rb_size = 0, rb_head = 0, rb_tail = 0\<rparr>,
     ts_outgoing = \<lparr>storage = [], rb_size = 0, rb_head = 0, rb_tail = 0\<rparr>, ts_send = None,
     ts_connected = False, ts_bytes_sent = 0, ts_bytes_received = 0, ts_dropped_outgoing = 0,
     ts_initialised = False\<rparr>"

text \<open>\<open>None\<close> is the result false on a missing send function, which leaves the stream as it was.\<close>

definition tcp_stream_init :: "u8 list option \<Rightarrow> nat \<Rightarrow> u8 list option \<Rightarrow> nat \<Rightarrow> 'w link option
    \<Rightarrow> (bool \<times> 'w tcp_stream_t) option" where
  "tcp_stream_init incoming incoming_size outgoing outgoing_size send =
     (if send = None then None
      else
        (let stream = tcp_stream_zero in
         case ring_buffer_init incoming incoming_size of
           None \<Rightarrow> Some (False, stream)
         | Some rb \<Rightarrow>
             (let stream = stream\<lparr>ts_incoming := rb\<rparr> in
              case ring_buffer_init outgoing outgoing_size of
                None \<Rightarrow> Some (False, stream)
              | Some rb \<Rightarrow>
                  Some (True, stream\<lparr>ts_outgoing := rb, ts_send := send, ts_initialised := True\<rparr>))))"

definition tcp_stream_set_connected :: "'w tcp_stream_t \<Rightarrow> bool \<Rightarrow> 'w tcp_stream_t" where
  "tcp_stream_set_connected stream connected =
     (if \<not> ts_initialised stream then stream
      else
        (let stream = (if connected then stream\<lparr>ts_incoming := ring_buffer_clear (ts_incoming stream)\<rparr>
                       else stream\<lparr>ts_outgoing := ring_buffer_clear (ts_outgoing stream)\<rparr>)
         in stream\<lparr>ts_connected := connected\<rparr>))"

definition tcp_stream_is_connected :: "'w tcp_stream_t \<Rightarrow> bool" where
  "tcp_stream_is_connected stream = ts_connected stream"

definition tcp_stream_write :: "'w tcp_stream_t \<Rightarrow> u8 list option \<Rightarrow> (nat \<times> 'w tcp_stream_t) option" where
  "tcp_stream_write stream data =
     (case data of
        None \<Rightarrow> Some (0, stream)
      | Some bytes \<Rightarrow>
          if \<not> ts_initialised stream then Some (0, stream)
          else if \<not> ts_connected stream
          then Some (0, stream\<lparr>ts_dropped_outgoing := ts_dropped_outgoing stream + of_nat (length bytes)\<rparr>)
          else
            (case ring_buffer_write (ts_outgoing stream) data of
               None \<Rightarrow> None
             | Some (written, rb) \<Rightarrow>
                 (let stream = stream\<lparr>ts_outgoing := rb\<rparr> in
                  Some (written,
                    if written < length bytes
                    then stream\<lparr>ts_dropped_outgoing := ts_dropped_outgoing stream
                                  + of_nat (length bytes - written)\<rparr>
                    else stream))))"

definition tcp_stream_has_output :: "'w tcp_stream_t \<Rightarrow> bool" where
  "tcp_stream_has_output stream =
     (if \<not> ts_initialised stream then False else 0 < ring_buffer_count (ts_outgoing stream))"

definition tcp_stream_pending :: "'w tcp_stream_t \<Rightarrow> nat" where
  "tcp_stream_pending stream = ring_buffer_count (ts_outgoing stream)"

definition tcp_stream_available :: "'w tcp_stream_t \<Rightarrow> nat" where
  "tcp_stream_available stream = ring_buffer_count (ts_incoming stream)"

text \<open>The loop of \<open>tcp_stream_flush\<close>, lines 78 to 120, over what is left of the room.\<close>

function flush_loop :: "'w tcp_stream_t \<Rightarrow> nat \<Rightarrow> 'w \<Rightarrow> (bool \<times> 'w tcp_stream_t \<times> 'w) option" where
  "flush_loop stream room w =
     (if room = 0 then Some (0 < ring_buffer_count (ts_outgoing stream), stream, w)
      else
        (let pending = ring_buffer_count (ts_outgoing stream) in
         if pending = 0 then Some (False, stream, w)
         else
           (let part = (if room < pending then room else pending);
                part = (if TCP_STREAM_SEGMENT_MAX < part then TCP_STREAM_SEGMENT_MAX else part);
                segment = ring_buffer_peek_bytes (ts_outgoing stream) part;
                staged = length segment in
            if staged = 0 then Some (False, stream, w)
            else
              (case ts_send stream of
                 None \<Rightarrow> None
               | Some send \<Rightarrow>
                   (case send segment w of
                      (accepted, w) \<Rightarrow>
                        (let taken = (if unat accepted < staged then unat accepted else staged) in
                         case ring_buffer_discard (ts_outgoing stream) taken of
                           None \<Rightarrow> None
                         | Some (n, rb) \<Rightarrow>
                             (let stream = stream\<lparr>ts_outgoing := rb,
                                             ts_bytes_sent := ts_bytes_sent stream + of_nat taken\<rparr> in
                              if taken < staged
                              then Some (0 < ring_buffer_count (ts_outgoing stream), stream, w)
                              else flush_loop stream (room - taken) w)))))))"
  by pat_completeness auto

termination flush_loop
  by (relation "measure (\<lambda>(stream, room, w). room)") auto

declare flush_loop.simps [simp del]

definition tcp_stream_flush :: "'w tcp_stream_t \<Rightarrow> nat \<Rightarrow> 'w \<Rightarrow> (bool \<times> 'w tcp_stream_t \<times> 'w) option" where
  "tcp_stream_flush stream room w =
     (if \<not> ts_initialised stream \<or> \<not> ts_connected stream then Some (False, stream, w)
      else flush_loop stream room w)"

definition tcp_stream_can_accept :: "'w tcp_stream_t \<Rightarrow> nat \<Rightarrow> bool" where
  "tcp_stream_can_accept stream len =
     (if \<not> ts_initialised stream then False else len \<le> ring_buffer_free (ts_incoming stream))"

definition tcp_stream_on_received :: "'w tcp_stream_t \<Rightarrow> u8 list option \<Rightarrow> (nat \<times> 'w tcp_stream_t) option" where
  "tcp_stream_on_received stream data =
     (case data of
        None \<Rightarrow> Some (0, stream)
      | Some bytes \<Rightarrow>
          if \<not> ts_initialised stream then Some (0, stream)
          else if \<not> tcp_stream_can_accept stream (length bytes) then Some (0, stream)
          else
            (case ring_buffer_write (ts_incoming stream) data of
               None \<Rightarrow> None
             | Some (stored, rb) \<Rightarrow>
                 Some (stored, stream\<lparr>ts_incoming := rb,
                   ts_bytes_received := ts_bytes_received stream + of_nat stored\<rparr>)))"

text \<open>The \<open>int\<close> result of a read is the byte, or \<open>-1\<close> when there is none.\<close>

definition tcp_stream_read :: "'w tcp_stream_t \<Rightarrow> (int \<times> 'w tcp_stream_t) option" where
  "tcp_stream_read stream =
     (if \<not> ts_initialised stream then Some (-1, stream)
      else
        (case ring_buffer_pop (ts_incoming stream) of
           None \<Rightarrow> None
         | Some (None, rb) \<Rightarrow> Some (-1, stream\<lparr>ts_incoming := rb\<rparr>)
         | Some (Some byte, rb) \<Rightarrow> Some (uint byte, stream\<lparr>ts_incoming := rb\<rparr>)))"

text \<open>The bytes read into the caller's buffer of \<open>len\<close> bytes; \<open>None\<close> inside stands for a missing buffer.\<close>

definition tcp_stream_read_bytes :: "'w tcp_stream_t \<Rightarrow> nat option \<Rightarrow> (u8 list \<times> 'w tcp_stream_t) option" where
  "tcp_stream_read_bytes stream len =
     (case len of
        None \<Rightarrow> Some ([], stream)
      | Some n \<Rightarrow>
          if \<not> ts_initialised stream then Some ([], stream)
          else map_option (\<lambda>(bytes, rb). (bytes, stream\<lparr>ts_incoming := rb\<rparr>))
                 (ring_buffer_read (ts_incoming stream) n))"

subsection \<open>One flush\<close>

text \<open>What a round of the loop does, with a link that keeps a record of what it took.\<close>

lemma flush_part:
  assumes "rb_inv rb" and "rb_list rb \<noteq> []" and "room \<noteq> 0"
  defines "n \<equiv> min room (min (ring_buffer_count rb) 512)"
  shows "ring_buffer_count rb \<noteq> 0" and "n \<noteq> 0" and "n \<le> 512" and "n \<le> ring_buffer_count rb"
    and "(if 512 < (if room < ring_buffer_count rb then room else ring_buffer_count rb) then 512
      else if room < ring_buffer_count rb then room else ring_buffer_count rb) = n"
    and "ring_buffer_peek_bytes rb n = take n (rb_list rb)" and "length (take n (rb_list rb)) = n"
proof -
  show count: "ring_buffer_count rb \<noteq> 0" using assms(2) by (metis length_rb_list length_0_conv)
  show "n \<noteq> 0" using count assms(3) by (simp add: n_def)
  show n: "n \<le> 512" "n \<le> ring_buffer_count rb" by (simp_all add: n_def)
  show "(if 512 < (if room < ring_buffer_count rb then room else ring_buffer_count rb) then 512
      else if room < ring_buffer_count rb then room else ring_buffer_count rb) = n"
    by (simp add: n_def min_def)
  show "ring_buffer_peek_bytes rb n = take n (rb_list rb)" by (rule ring_buffer_peek_bytes_spec [OF assms(1)])
  show "length (take n (rb_list rb)) = n" using n by simp
qed

lemma flush_round:
  assumes inv: "rb_inv (ts_outgoing s)" and send: "ts_send s = Some (logged send)" and room: "room \<noteq> 0"
    and pending: "rb_list (ts_outgoing s) \<noteq> []"
    and n: "n = min room (min (ring_buffer_count (ts_outgoing s)) 512)"
  shows "\<exists>taken w' rb. taken \<le> n \<and> (eager send \<longrightarrow> taken = n) \<and> rb_inv rb
    \<and> rb_list rb = drop taken (rb_list (ts_outgoing s))
    \<and> flush_loop s room (w, log) =
      (if taken < n
       then Some (rb_list rb \<noteq> [], s\<lparr>ts_outgoing := rb, ts_bytes_sent := ts_bytes_sent s + of_nat taken\<rparr>,
         w', log @ take taken (rb_list (ts_outgoing s)))
       else flush_loop (s\<lparr>ts_outgoing := rb, ts_bytes_sent := ts_bytes_sent s + of_nat taken\<rparr>) (room - taken)
         (w', log @ take taken (rb_list (ts_outgoing s))))"
proof -
  let ?out = "ts_outgoing s"
  note part = flush_part [OF inv pending room, folded n]
  obtain accepted w' where link: "send (take n (rb_list ?out)) w = (accepted, w')" by fastforce
  define taken where "taken = (if unat accepted < n then unat accepted else n)"
  have taken: "taken \<le> n" "taken \<le> ring_buffer_count ?out" using part(4) by (auto simp: taken_def)
  obtain rb where rb: "ring_buffer_discard ?out taken = Some (taken, rb)" "rb_inv rb"
      "rb_list rb = drop taken (rb_list ?out)"
    by (rule ring_buffer_discard_spec [OF inv, of taken]) (simp add: taken(2))
  have log: "take (unat accepted) (take n (rb_list ?out)) = take taken (rb_list ?out)"
    by (simp add: taken_def min_def)
  have eager: "taken = n" if "eager send"
    using that link part(3,7) by (auto simp: eager_def taken_def dest!: spec [of _ "take n (rb_list ?out)"] spec [of _ w])
  have left: "0 < ring_buffer_count rb \<longleftrightarrow> rb_list rb \<noteq> []" by (metis length_rb_list length_greater_0_conv)
  have rest: "ts_outgoing (s\<lparr>ts_outgoing := rb, ts_bytes_sent := ts_bytes_sent s + of_nat taken\<rparr>) = rb"
    by simp
  have "flush_loop s room (w, log) =
      (if taken < n
       then Some (0 < ring_buffer_count rb, s\<lparr>ts_outgoing := rb, ts_bytes_sent := ts_bytes_sent s + of_nat taken\<rparr>,
         w', log @ take taken (rb_list (ts_outgoing s)))
       else flush_loop (s\<lparr>ts_outgoing := rb, ts_bytes_sent := ts_bytes_sent s + of_nat taken\<rparr>) (room - taken)
         (w', log @ take taken (rb_list (ts_outgoing s))))"
    by (subst flush_loop.simps)
      (simp only: room part(1,2,5,6,7) if_False Let_def send option.case logged_def prod.case link
        taken_def [symmetric] rb(1) log rest)
  with taken(1) eager rb(2,3) show ?thesis unfolding left by blast
qed

lemma flush_loop_spec:
  assumes "rb_inv (ts_outgoing s)" and "ts_send s = Some (logged send)"
  shows "\<exists>w' out rb. flush_loop s room (w, log) = Some (rb_list rb \<noteq> [],
        s\<lparr>ts_outgoing := rb, ts_bytes_sent := ts_bytes_sent s + of_nat (length out)\<rparr>, w', log @ out)
    \<and> rb_inv rb \<and> rb_list (ts_outgoing s) = out @ rb_list rb \<and> length out \<le> room
    \<and> (eager send \<longrightarrow> out = take room (rb_list (ts_outgoing s)))"
  using assms
proof (induction room arbitrary: s w log rule: less_induct)
  case (less room)
  show ?case
  proof (cases "room = 0 \<or> rb_list (ts_outgoing s) = []")
    case True
    then have count: "room = 0 \<or> ring_buffer_count (ts_outgoing s) = 0" by (metis length_rb_list length_0_conv)
    have pos: "0 < ring_buffer_count (ts_outgoing s) \<longleftrightarrow> rb_list (ts_outgoing s) \<noteq> []"
      by (metis length_rb_list length_greater_0_conv)
    have "flush_loop s room (w, log) = Some (rb_list (ts_outgoing s) \<noteq> [], s, w, log @ [])"
      using count pos by (subst flush_loop.simps) (auto simp: Let_def)
    with less.prems(1) True show ?thesis
      by (intro exI [of _ w] exI [of _ "[]"] exI [of _ "ts_outgoing s"]) auto
  next
    case False
    define n where "n = min room (min (ring_buffer_count (ts_outgoing s)) 512)"
    from False have part: "room \<noteq> 0" "rb_list (ts_outgoing s) \<noteq> []" by simp_all
    obtain taken w' rb where round: "taken \<le> n" "eager send \<longrightarrow> taken = n" "rb_inv rb"
      "rb_list rb = drop taken (rb_list (ts_outgoing s))"
      "flush_loop s room (w, log) =
        (if taken < n
         then Some (rb_list rb \<noteq> [], s\<lparr>ts_outgoing := rb, ts_bytes_sent := ts_bytes_sent s + of_nat taken\<rparr>,
           w', log @ take taken (rb_list (ts_outgoing s)))
         else flush_loop (s\<lparr>ts_outgoing := rb, ts_bytes_sent := ts_bytes_sent s + of_nat taken\<rparr>) (room - taken)
           (w', log @ take taken (rb_list (ts_outgoing s))))"
      using flush_round [OF less.prems part n_def, of w log] by blast
    define front where "front = take taken (rb_list (ts_outgoing s))"
    have bounds: "n \<noteq> 0" "n \<le> room" "n \<le> ring_buffer_count (ts_outgoing s)"
      using flush_part(2) [OF less.prems(1) part(2,1)] by (simp_all add: n_def)
    have len: "length front = taken" using round(1) bounds(3) by (simp add: front_def)
    have split: "rb_list (ts_outgoing s) = front @ rb_list rb" by (simp add: front_def round(4))
    show ?thesis
    proof (cases "taken < n")
      case True
      then have "flush_loop s room (w, log) = Some (rb_list rb \<noteq> [],
          s\<lparr>ts_outgoing := rb, ts_bytes_sent := ts_bytes_sent s + of_nat (length front)\<rparr>, w', log @ front)"
        using round(5) len by (simp add: front_def)
      moreover have "length front \<le> room" using True bounds(2) len by simp
      moreover have "\<not> eager send" using True round(2) by simp
      ultimately show ?thesis using split round(3) by blast
    next
      case False
      with round(1) have full: "taken = n" by simp
      define t where "t = s\<lparr>ts_outgoing := rb, ts_bytes_sent := ts_bytes_sent s + of_nat taken\<rparr>"
      have step: "flush_loop s room (w, log) = flush_loop t (room - taken) (w', log @ front)"
        using round(5) False by (simp add: t_def front_def)
      have "room - taken < room" "rb_inv (ts_outgoing t)" "ts_send t = Some (logged send)"
        using bounds full round(3) less.prems(2) by (auto simp: t_def)
      from less.IH [OF this] obtain w2 out rb2 where rest:
          "flush_loop t (room - taken) (w', log @ front) = Some (rb_list rb2 \<noteq> [],
             t\<lparr>ts_outgoing := rb2, ts_bytes_sent := ts_bytes_sent t + of_nat (length out)\<rparr>, w2, (log @ front) @ out)"
          "rb_inv rb2" "rb_list (ts_outgoing t) = out @ rb_list rb2" "length out \<le> room - taken"
          "eager send \<longrightarrow> out = take (room - taken) (rb_list (ts_outgoing t))"
        by blast
      have end_state: "t\<lparr>ts_outgoing := rb2, ts_bytes_sent := ts_bytes_sent t + of_nat (length out)\<rparr>
          = s\<lparr>ts_outgoing := rb2, ts_bytes_sent := ts_bytes_sent s + of_nat (length (front @ out))\<rparr>"
        by (simp add: t_def len)
      have "flush_loop s room (w, log) = Some (rb_list rb2 \<noteq> [],
          s\<lparr>ts_outgoing := rb2, ts_bytes_sent := ts_bytes_sent s + of_nat (length (front @ out))\<rparr>, w2, log @ front @ out)"
        unfolding step rest(1) end_state by simp
      moreover have "rb_list (ts_outgoing s) = (front @ out) @ rb_list rb2"
        using rest(3) by (simp add: split t_def)
      moreover have "length (front @ out) \<le> room" using rest(4) len full bounds(2) by simp
      moreover have "front @ out = take room (rb_list (ts_outgoing s))" if "eager send"
      proof -
        have "out = take (room - taken) (drop taken (rb_list (ts_outgoing s)))"
          using that rest(5) by (simp add: t_def round(4))
        moreover have "taken + (room - taken) = room" using full bounds(2) by simp
        ultimately show ?thesis unfolding front_def by (metis take_add)
      qed
      ultimately show ?thesis using rest(2) by blast
    qed
  qed
qed

subsection \<open>The stream as a sender\<close>

definition tcp_up :: "'w link \<Rightarrow> ('w \<times> u8 list) tcp_stream_t \<Rightarrow> bool" where
  "tcp_up send s \<longleftrightarrow> ts_initialised s \<and> ts_connected s \<and> ts_send s = Some (logged send)
     \<and> rb_inv (ts_outgoing s) \<and> rb_inv (ts_incoming s)"

lemma tcp_write_spec:
  assumes "tcp_up send s"
  shows "\<exists>s'. tcp_stream_write s (Some bytes) = Some (min (length bytes) (ring_buffer_free (ts_outgoing s)), s')
    \<and> tcp_up send s' \<and> rb_list (ts_outgoing s') = rb_list (ts_outgoing s) @ take (ring_buffer_free (ts_outgoing s)) bytes
    \<and> ts_incoming s' = ts_incoming s
    \<and> ts_dropped_outgoing s' = ts_dropped_outgoing s + of_nat (length bytes - ring_buffer_free (ts_outgoing s))"
proof -
  have inv: "rb_inv (ts_outgoing s)" using assms by (simp add: tcp_up_def)
  obtain rb where rb: "ring_buffer_write (ts_outgoing s) (Some bytes)
      = Some (min (length bytes) (ring_buffer_free (ts_outgoing s)), rb)" "rb_inv rb"
      "rb_list rb = rb_list (ts_outgoing s) @ take (ring_buffer_free (ts_outgoing s)) bytes"
    using ring_buffer_write_spec [OF inv, of bytes] by metis
  with assms show ?thesis
    by (auto simp: tcp_stream_write_def tcp_up_def Let_def min_def)
qed

lemma tcp_flush_spec:
  assumes "tcp_up send s"
  shows "\<exists>s' w' out. tcp_stream_flush s room (w, log) = Some (rb_list (ts_outgoing s') \<noteq> [], s', w', log @ out)
    \<and> tcp_up send s' \<and> rb_list (ts_outgoing s) = out @ rb_list (ts_outgoing s') \<and> length out \<le> room
    \<and> ts_bytes_sent s' = ts_bytes_sent s + of_nat (length out) \<and> ts_incoming s' = ts_incoming s
    \<and> (eager send \<longrightarrow> out = take room (rb_list (ts_outgoing s)))"
  using flush_loop_spec [of s send room w log] assms
  by (fastforce simp: tcp_stream_flush_def tcp_up_def)

interpretation tcp: progressing_output "tcp_up send" "\<lambda>s. rb_list (ts_outgoing s)"
  "\<lambda>s bytes. tcp_stream_write s (Some bytes)" tcp_stream_flush "eager send" for send
proof unfold_locales
  fix s :: "('a \<times> u8 list) tcp_stream_t" and bytes
  assume "tcp_up send s"
  from tcp_write_spec [OF this, of bytes]
  show "\<exists>n s'. tcp_stream_write s (Some bytes) = Some (n, s') \<and> tcp_up send s' \<and> n \<le> length bytes
      \<and> rb_list (ts_outgoing s') = rb_list (ts_outgoing s) @ take n bytes"
    by (auto simp: min_def split: if_splits)
next
  fix s :: "('a \<times> u8 list) tcp_stream_t" and room w log
  assume "tcp_up send s"
  from tcp_flush_spec [OF this, of room w log]
  show "\<exists>again s' w' out. tcp_stream_flush s room (w, log) = Some (again, s', w', log @ out) \<and> tcp_up send s'
      \<and> rb_list (ts_outgoing s) = out @ rb_list (ts_outgoing s') \<and> (0 < room \<longrightarrow> again = (rb_list (ts_outgoing s') \<noteq> []))"
    by blast
next
  fix s s' :: "('a \<times> u8 list) tcp_stream_t" and room l l' again
  assume up: "eager send" "tcp_up send s" "rb_list (ts_outgoing s) \<noteq> []" "0 < room"
    and flush: "tcp_stream_flush s room l = Some (again, s', l')"
  obtain out where "rb_list (ts_outgoing s) = out @ rb_list (ts_outgoing s')"
      "out = take room (rb_list (ts_outgoing s))"
    using tcp_flush_spec [OF up(2), of room "fst l" "snd l"] up(1) flush by auto
  with up show "length (rb_list (ts_outgoing s')) < length (rb_list (ts_outgoing s))"
    by (metis append_self_conv2 length_append length_greater_0_conv less_add_same_cancel2 take_eq_Nil nless_le)
qed

lemma tcp_init_up:
  assumes "tcp_stream_init (Some incoming) m (Some outgoing) n (Some (logged send)) = Some (True, s)"
    and "m \<le> length incoming" and "n \<le> length outgoing"
  shows "tcp_up send (tcp_stream_set_connected s True) \<and> rb_list (ts_outgoing (tcp_stream_set_connected s True)) = []
    \<and> rb_list (ts_incoming (tcp_stream_set_connected s True)) = []"
proof -
  obtain rin rout where rbs: "ring_buffer_init (Some incoming) m = Some rin" "ring_buffer_init (Some outgoing) n = Some rout"
    and s: "s = tcp_stream_zero\<lparr>ts_incoming := rin, ts_outgoing := rout, ts_send := Some (logged send), ts_initialised := True\<rparr>"
    using assms(1) by (auto simp: tcp_stream_init_def Let_def split: option.splits)
  from ring_buffer_init_spec [OF rbs(1)] ring_buffer_init_spec [OF rbs(2)] assms(2,3) ring_buffer_clear_spec [of rin]
  show ?thesis by (simp add: s tcp_stream_set_connected_def tcp_up_def)
qed

text \<open>C25: output reaches the wire in order. Over a link that may take any part of what it is offered,
  in any session of writes and flushes of a new connection, the bytes the link took followed by the bytes still
  queued are exactly the bytes the writes accepted, in the order they were written. No session
  gets stuck.
\<close>

theorem tcp_output_in_order:
  assumes "tcp_stream_init (Some incoming) m (Some outgoing) n (Some (logged send)) = Some (True, s)"
    and "m \<le> length incoming" and "n \<le> length outgoing"
  shows "\<exists>ns s' w' sent. run_stream (\<lambda>s bytes. tcp_stream_write s (Some bytes)) tcp_stream_flush calls
      (tcp_stream_set_connected s True) (w, []) = Some (ns, s', w', sent)
    \<and> sent @ rb_list (ts_outgoing s') = accepted_bytes calls ns"
  using tcp.session_in_order [of send "tcp_stream_set_connected s True" calls w "[]"] tcp_init_up [OF assms]
  by auto

text \<open>Queued output does leave. Over a link that takes what it is offered, a flush hands over
  the oldest bytes up to the room it is given, however many segments that takes, and tells
  whether any remain; as many flushes with room as there are bytes queued always empty the queue.
\<close>

theorem tcp_flush_drains:
  assumes "tcp_up send s" and "eager send"
  shows "(\<exists>s' w'. tcp_stream_flush s room (w, log)
        = Some (room < tcp_stream_pending s, s', w', log @ take room (rb_list (ts_outgoing s)))
      \<and> tcp_up send s' \<and> rb_list (ts_outgoing s') = drop room (rb_list (ts_outgoing s)))
    \<and> (\<forall>calls. (\<forall>call \<in> set calls. \<exists>room > 0. call = Offer room) \<and> tcp_stream_pending s \<le> length calls
      \<longrightarrow> (\<exists>s' w'. run_stream (\<lambda>s bytes. tcp_stream_write s (Some bytes)) tcp_stream_flush calls s (w, log)
            = Some ([], s', w', log @ rb_list (ts_outgoing s)) \<and> rb_list (ts_outgoing s') = []))"
proof (intro conjI allI impI)
  obtain s' w' where flush: "tcp_stream_flush s room (w, log)
      = Some (rb_list (ts_outgoing s') \<noteq> [], s', w', log @ take room (rb_list (ts_outgoing s)))" "tcp_up send s'"
      "rb_list (ts_outgoing s) = take room (rb_list (ts_outgoing s)) @ rb_list (ts_outgoing s')"
    using tcp_flush_spec [OF assms(1), of room w log] assms(2) by auto
  then have rest: "rb_list (ts_outgoing s') = drop room (rb_list (ts_outgoing s))"
    by (metis append_take_drop_id same_append_eq)
  then have "rb_list (ts_outgoing s') \<noteq> [] \<longleftrightarrow> room < tcp_stream_pending s"
    by (simp add: tcp_stream_pending_def not_le)
  with flush rest show "\<exists>s' w'. tcp_stream_flush s room (w, log)
        = Some (room < tcp_stream_pending s, s', w', log @ take room (rb_list (ts_outgoing s)))
      \<and> tcp_up send s' \<and> rb_list (ts_outgoing s') = drop room (rb_list (ts_outgoing s))"
    by auto
next
  fix calls
  assume "(\<forall>call \<in> set calls. \<exists>room > 0. call = Offer room) \<and> tcp_stream_pending s \<le> length calls"
  with tcp.opportunities_drain [OF assms(2,1), of calls w log]
  show "\<exists>s' w'. run_stream (\<lambda>s bytes. tcp_stream_write s (Some bytes)) tcp_stream_flush calls s (w, log)
      = Some ([], s', w', log @ rb_list (ts_outgoing s)) \<and> rb_list (ts_outgoing s') = []"
    by (auto simp: tcp_stream_pending_def)
qed

subsection \<open>Input\<close>

definition tcp_listening :: "'w tcp_stream_t \<Rightarrow> bool" where
  "tcp_listening s \<longleftrightarrow> ts_initialised s \<and> rb_inv (ts_incoming s)"

lemma tcp_received_spec:
  assumes "tcp_listening s"
  shows "\<exists>s'. tcp_stream_on_received s (Some bytes)
      = Some (if tcp_stream_can_accept s (length bytes) then length bytes else 0, s')
    \<and> tcp_listening s' \<and> rb_list (ts_incoming s')
      = rb_list (ts_incoming s) @ (if tcp_stream_can_accept s (length bytes) then bytes else [])
    \<and> ts_outgoing s' = ts_outgoing s"
proof (cases "tcp_stream_can_accept s (length bytes)")
  case True
  with assms have room: "length bytes \<le> ring_buffer_free (ts_incoming s)" and inv: "rb_inv (ts_incoming s)"
    and init: "ts_initialised s"
    by (simp_all add: tcp_stream_can_accept_def tcp_listening_def split: if_splits)
  obtain rb where "ring_buffer_write (ts_incoming s) (Some bytes) = Some (length bytes, rb)" "rb_inv rb"
      "rb_list rb = rb_list (ts_incoming s) @ bytes"
    using ring_buffer_write_spec [OF inv, of bytes] room by (metis min.absorb1 take_all)
  with True init show ?thesis by (auto simp: tcp_stream_on_received_def tcp_listening_def)
next
  case False
  with assms show ?thesis by (auto simp: tcp_stream_on_received_def)
qed

lemma tcp_read_spec:
  assumes "tcp_listening s"
  shows "\<exists>s'. tcp_stream_read s = Some (case rb_list (ts_incoming s) of [] \<Rightarrow> -1 | b # _ \<Rightarrow> uint b, s')
    \<and> tcp_listening s' \<and> rb_list (ts_incoming s') = drop 1 (rb_list (ts_incoming s))"
proof -
  have inv: "rb_inv (ts_incoming s)" and init: "ts_initialised s" using assms by (simp_all add: tcp_listening_def)
  obtain rb where rb: "ring_buffer_pop (ts_incoming s)
      = Some (case rb_list (ts_incoming s) of [] \<Rightarrow> None | b # _ \<Rightarrow> Some b, rb)"
      "rb_inv rb" "rb_list rb = drop 1 (rb_list (ts_incoming s))"
    using ring_buffer_pop_spec [OF inv] by metis
  show ?thesis
  proof (cases "rb_list (ts_incoming s)")
    case Nil
    with rb init show ?thesis by (simp add: tcp_stream_read_def tcp_listening_def)
  next
    case (Cons b bs)
    with rb init show ?thesis by (simp add: tcp_stream_read_def tcp_listening_def)
  qed
qed

lemma tcp_read_bytes_spec:
  assumes "tcp_listening s"
  shows "\<exists>s'. tcp_stream_read_bytes s (Some n) = Some (take n (rb_list (ts_incoming s)), s')
    \<and> tcp_listening s' \<and> rb_list (ts_incoming s') = drop n (rb_list (ts_incoming s))"
proof -
  have inv: "rb_inv (ts_incoming s)" and init: "ts_initialised s" using assms by (simp_all add: tcp_listening_def)
  obtain rb where "ring_buffer_read (ts_incoming s) n = Some (take n (rb_list (ts_incoming s)), rb)"
      "rb_inv rb" "rb_list rb = drop n (rb_list (ts_incoming s))"
    using ring_buffer_read_spec [OF inv, of n] by metis
  with init show ?thesis by (simp add: tcp_stream_read_bytes_def tcp_listening_def)
qed

text \<open>
  A peer that delivers its segments in order and delivers a refused one again, and a program
  that reads a byte or a block at a time. The session's result holds the bytes the program read
  and the segments still to come.
\<close>

datatype input_event = Arrive | Read_One | Read_Block nat

fun tcp_input_session :: "input_event list \<Rightarrow> 'w tcp_stream_t \<Rightarrow> u8 list list
    \<Rightarrow> (int list \<times> 'w tcp_stream_t \<times> u8 list list) option" where
  "tcp_input_session [] s segments = Some ([], s, segments)"
| "tcp_input_session (Arrive # events) s [] = tcp_input_session events s []"
| "tcp_input_session (Arrive # events) s (segment # segments) =
     (case tcp_stream_on_received s (Some segment) of
        None \<Rightarrow> None
      | Some (n, s) \<Rightarrow>
          tcp_input_session events s (if n = length segment then segments else segment # segments))"
| "tcp_input_session (Read_One # events) s segments =
     (case tcp_stream_read s of
        None \<Rightarrow> None
      | Some (byte, s) \<Rightarrow>
          map_option (\<lambda>(bytes, r). ((if byte = -1 then [] else [byte]) @ bytes, r))
            (tcp_input_session events s segments))"
| "tcp_input_session (Read_Block n # events) s segments =
     (case tcp_stream_read_bytes s (Some n) of
        None \<Rightarrow> None
      | Some (block, s) \<Rightarrow>
          map_option (\<lambda>(bytes, r). (map uint block @ bytes, r)) (tcp_input_session events s segments))"

text \<open>C26: input arrives whole and in order. Whatever the sizes of the segments and the moments at
  which the program reads, the bytes read, then those buffered, then the segments still to come
  are the bytes the peer sent: a segment that does not fit is refused without storing a byte of it.
\<close>

theorem tcp_input_in_order:
  assumes "tcp_listening s"
  shows "\<exists>bytes s' rest. tcp_input_session events s segments = Some (bytes, s', rest) \<and> tcp_listening s'
    \<and> bytes @ map uint (rb_list (ts_incoming s')) @ map uint (concat rest)
      = map uint (rb_list (ts_incoming s)) @ map uint (concat segments)"
  using assms
proof (induction events s segments rule: tcp_input_session.induct)
  case (1 s segments)
  then show ?case by simp
next
  case (2 events s)
  then show ?case by simp
next
  case (3 events s segment segments)
  obtain s' where s': "tcp_stream_on_received s (Some segment)
      = Some (if tcp_stream_can_accept s (length segment) then length segment else 0, s')" "tcp_listening s'"
      "rb_list (ts_incoming s') = rb_list (ts_incoming s) @ (if tcp_stream_can_accept s (length segment) then segment else [])"
    using tcp_received_spec [OF 3(2)] by blast
  from 3(1) [OF s'(1) refl s'(2)] s' show ?case by (auto split: if_splits)
next
  case (4 events s segments)
  obtain s' where s': "tcp_stream_read s = Some (case rb_list (ts_incoming s) of [] \<Rightarrow> -1 | b # _ \<Rightarrow> uint b, s')"
      "tcp_listening s'" "rb_list (ts_incoming s') = drop 1 (rb_list (ts_incoming s))"
    using tcp_read_spec [OF 4(2)] by blast
  have "uint (b :: u8) \<noteq> -1" for b using uint_ge_0 [of b] by linarith
  with 4(1) [OF s'(1) refl s'(2)] s' show ?case
    by (cases "rb_list (ts_incoming s)") auto
next
  case (5 n events s segments)
  obtain s' where s': "tcp_stream_read_bytes s (Some n) = Some (take n (rb_list (ts_incoming s)), s')"
      "tcp_listening s'" "rb_list (ts_incoming s') = drop n (rb_list (ts_incoming s))"
    using tcp_read_bytes_spec [OF 5(2)] by blast
  have "map uint (take n (rb_list (ts_incoming s))) @ map uint (drop n (rb_list (ts_incoming s)))
      = map uint (rb_list (ts_incoming s))"
    by (simp flip: map_append)
  with 5(1) [OF s'(1) refl s'(2)] s' show ?case
    by fastforce
qed

text \<open>Closing a connection drops the output that can no longer be sent and keeps the input; opening one drops stale input.\<close>

lemma tcp_set_connected_clears:
  assumes "tcp_listening s" and "rb_inv (ts_outgoing s)"
  shows "rb_list (ts_incoming (tcp_stream_set_connected s True)) = []"
    and "tcp_stream_set_connected s True = s\<lparr>ts_incoming := ts_incoming (tcp_stream_set_connected s True), ts_connected := True\<rparr>"
    and "rb_list (ts_outgoing (tcp_stream_set_connected s False)) = []"
    and "rb_list (ts_incoming (tcp_stream_set_connected s False)) = rb_list (ts_incoming s)"
    and "\<not> tcp_stream_has_output (tcp_stream_set_connected s False)"
  using assms ring_buffer_clear_spec [of "ts_outgoing s"] ring_buffer_clear_spec [of "ts_incoming s"]
  by (auto simp: tcp_stream_set_connected_def tcp_listening_def tcp_stream_has_output_def
      simp flip: length_rb_list)

subsection \<open>Witnesses\<close>

text \<open>A link that takes at most three bytes at a time, one that takes everything, and a new stream of eight bytes.\<close>

definition slow_link :: "unit link" where
  "slow_link bytes w = (of_nat (min 3 (length bytes)), w)"

definition open_link :: "unit link" where
  "open_link bytes w = (if length bytes < 65536 then of_nat (length bytes) else -1, w)"

definition small_tcp :: "unit link \<Rightarrow> (unit \<times> u8 list) tcp_stream_t" where
  "small_tcp send = tcp_stream_zero\<lparr>
     ts_incoming := \<lparr>storage = replicate 8 0, rb_size = 8, rb_head = 0, rb_tail = 0\<rparr>,
     ts_outgoing := \<lparr>storage = replicate 8 0, rb_size = 8, rb_head = 0, rb_tail = 0\<rparr>,
     ts_send := Some (logged send), ts_initialised := True\<rparr>"

lemma small_tcp_init:
  "tcp_stream_init (Some (replicate 8 0)) 8 (Some (replicate 8 0)) 8 (Some (logged send)) = Some (True, small_tcp send)"
  by (simp add: tcp_stream_init_def ring_buffer_init_def small_tcp_def)

theorem tcp_output_in_order_witness:
  "\<exists>ns s' w' sent. run_stream (\<lambda>s bytes. tcp_stream_write s (Some bytes)) tcp_stream_flush
      [Put [1, 2, 3, 4, 5], Offer 7, Put [6, 7, 8, 9, 10, 11], Offer 2]
      (tcp_stream_set_connected (small_tcp slow_link) True) ((), []) = Some (ns, s', w', sent)
    \<and> sent @ rb_list (ts_outgoing s')
      = accepted_bytes [Put [1, 2, 3, 4, 5], Offer 7, Put [6, 7, 8, 9, 10, 11], Offer 2] ns"
  by (rule tcp_output_in_order [OF small_tcp_init]) simp_all

lemma open_link_eager: "eager open_link"
proof -
  have "n < 65536 \<Longrightarrow> unat (of_nat n :: u16) = n" for n
    by (rule unat_of_nat_lt) simp
  then show ?thesis by (simp add: eager_def open_link_def)
qed

lemma small_tcp_up: "tcp_up send (tcp_stream_set_connected (small_tcp send) True)"
  using tcp_init_up [OF small_tcp_init, of send] by simp

lemma small_tcp_queued:
  "ts_outgoing (tcp_stream_set_connected (small_tcp send) True)
    = \<lparr>storage = replicate 8 0, rb_size = 8, rb_head = 0, rb_tail = 0\<rparr>"
  by (simp add: tcp_stream_set_connected_def small_tcp_def)

text \<open>The same stream, connected and with three bytes queued.\<close>

definition three_queued :: "unit link \<Rightarrow> (unit \<times> u8 list) tcp_stream_t" where
  "three_queued send = (tcp_stream_set_connected (small_tcp send) True)
     \<lparr>ts_outgoing := \<lparr>storage = [1, 2, 3, 0, 0, 0, 0, 0], rb_size = 8, rb_head = 3, rb_tail = 0\<rparr>\<rparr>"

lemma three_queued_up: "tcp_up send (three_queued send)"
  using small_tcp_up [of send] by (simp add: tcp_up_def three_queued_def rb_inv_def)

lemma three_queued_bytes: "rb_list (ts_outgoing (three_queued send)) = [1, 2, 3]"
  by (simp add: three_queued_def rb_list_def rb_slot_def ring_buffer_count_def upt_rec)

theorem tcp_flush_drains_witness:
  "(\<exists>s' w'. tcp_stream_flush (three_queued open_link) 2 ((), []) = Some (True, s', w', [1, 2])
      \<and> rb_list (ts_outgoing s') = [3])
   \<and> (\<exists>s' w'. run_stream (\<lambda>s bytes. tcp_stream_write s (Some bytes)) tcp_stream_flush
        [Offer 1, Offer 1, Offer 1] (three_queued open_link) ((), []) = Some ([], s', w', [1, 2, 3])
      \<and> rb_list (ts_outgoing s') = [])"
proof -
  have pending: "tcp_stream_pending (three_queued open_link) = 3"
    using three_queued_bytes [of open_link] by (metis length_rb_list tcp_stream_pending_def list.size(3,4) numeral_3_eq_3 add.right_neutral add_Suc_right One_nat_def)
  note drains = tcp_flush_drains [OF three_queued_up open_link_eager, of 2 "()" "[]", unfolded three_queued_bytes pending]
  show ?thesis
    using drains [THEN conjunct1] drains [THEN conjunct2, rule_format, of "[Offer 1, Offer 1, Offer 1]"] by auto
qed

theorem tcp_input_in_order_witness:
  "\<exists>bytes s' rest. tcp_input_session [Arrive, Read_One, Arrive, Read_Block 2, Arrive] (small_tcp slow_link)
      [[1, 2, 3, 4, 5], [6, 7, 8]] = Some (bytes, s', rest)
    \<and> bytes @ map uint (rb_list (ts_incoming s')) @ map uint (concat rest) = [1, 2, 3, 4, 5, 6, 7, 8]"
proof -
  have listening: "tcp_listening (small_tcp slow_link)" and empty: "rb_list (ts_incoming (small_tcp slow_link)) = []"
    by (simp_all add: tcp_listening_def small_tcp_def rb_inv_def rb_list_def ring_buffer_count_def)
  from tcp_input_in_order [OF listening, of "[Arrive, Read_One, Arrive, Read_Block 2, Arrive]" "[[1, 2, 3, 4, 5], [6, 7, 8]]"]
  show ?thesis by (auto simp: empty)
qed

end
