(* ===== verification/Bt_Stream.thy ===== *)
theory Bt_Stream
  imports Stream_Link
begin

text \<open>
  The buffering between a Bluetooth serial link and a byte stream, \<open>bluetooth/bt_stream.c\<close>: every
  operation, with the link as the parameter of \<open>Stream_Link\<close>. Output goes out one packet per
  opportunity, of at most the link's MTU; input that does not fit is dropped and counted. The
  lemmas discharge the output contract and follow the counters.
\<close>

record 'w bt_stream_t =
  bs_incoming :: ring_buffer_t
  bs_outgoing :: ring_buffer_t
  bs_send :: "'w link option"
  bs_mtu :: u16
  bs_may_send :: bool
  bs_connected :: bool
  bs_dropped_outgoing :: u32
  bs_dropped_incoming :: u32
  bs_initialised :: bool

definition bt_stream_zero :: "'w bt_stream_t" where
  "bt_stream_zero = \<lparr>bs_incoming = \<lparr>storage = [], rb_size = 0, rb_head = 0, rb_tail = 0\<rparr>,
     bs_outgoing = \<lparr>storage = [], rb_size = 0, rb_head = 0, rb_tail = 0\<rparr>, bs_send = None, bs_mtu = 0,
     bs_may_send = False, bs_connected = False, bs_dropped_outgoing = 0, bs_dropped_incoming = 0,
     bs_initialised = False\<rparr>"

text \<open>\<open>None\<close> is the result false on a missing send function, which leaves the stream as it was.\<close>

definition bt_stream_init :: "u8 list option \<Rightarrow> nat \<Rightarrow> u8 list option \<Rightarrow> nat \<Rightarrow> 'w link option
    \<Rightarrow> (bool \<times> 'w bt_stream_t) option" where
  "bt_stream_init incoming incoming_size outgoing outgoing_size send =
     (if send = None then None
      else
        (let stream = bt_stream_zero in
         case ring_buffer_init incoming incoming_size of
           None \<Rightarrow> Some (False, stream)
         | Some rb \<Rightarrow>
             (let stream = stream\<lparr>bs_incoming := rb\<rparr> in
              case ring_buffer_init outgoing outgoing_size of
                None \<Rightarrow> Some (False, stream)
              | Some rb \<Rightarrow>
                  Some (True, stream\<lparr>bs_outgoing := rb, bs_send := send, bs_initialised := True\<rparr>))))"

definition bt_stream_set_connected :: "'w bt_stream_t \<Rightarrow> bool \<Rightarrow> 'w bt_stream_t" where
  "bt_stream_set_connected stream connected =
     (if \<not> bs_initialised stream then stream
      else
        (let stream = (if \<not> connected
                       then stream\<lparr>bs_incoming := ring_buffer_clear (bs_incoming stream),
                                   bs_outgoing := ring_buffer_clear (bs_outgoing stream),
                                   bs_may_send := False, bs_mtu := 0\<rparr>
                       else stream)
         in stream\<lparr>bs_connected := connected\<rparr>))"

definition bt_stream_is_connected :: "'w bt_stream_t \<Rightarrow> bool" where
  "bt_stream_is_connected stream = bs_connected stream"

definition bt_stream_write :: "'w bt_stream_t \<Rightarrow> u8 list option \<Rightarrow> (nat \<times> 'w bt_stream_t) option" where
  "bt_stream_write stream data =
     (case data of
        None \<Rightarrow> Some (0, stream)
      | Some bytes \<Rightarrow>
          if \<not> bs_initialised stream then Some (0, stream)
          else if \<not> bs_connected stream
          then Some (0, stream\<lparr>bs_dropped_outgoing := bs_dropped_outgoing stream + of_nat (length bytes)\<rparr>)
          else
            (case ring_buffer_write (bs_outgoing stream) data of
               None \<Rightarrow> None
             | Some (written, rb) \<Rightarrow>
                 (let stream = stream\<lparr>bs_outgoing := rb\<rparr> in
                  Some (written,
                    if written < length bytes
                    then stream\<lparr>bs_dropped_outgoing := bs_dropped_outgoing stream
                                  + of_nat (length bytes - written)\<rparr>
                    else stream))))"

definition bt_stream_has_output :: "'w bt_stream_t \<Rightarrow> bool" where
  "bt_stream_has_output stream =
     (if \<not> bs_initialised stream then False else 0 < ring_buffer_count (bs_outgoing stream))"

definition bt_stream_available :: "'w bt_stream_t \<Rightarrow> nat" where
  "bt_stream_available stream = ring_buffer_count (bs_incoming stream)"

text \<open>The packet buffer on the stack holds 512 bytes.\<close>

definition bt_stream_on_can_send :: "'w bt_stream_t \<Rightarrow> u16 \<Rightarrow> 'w \<Rightarrow> (bool \<times> 'w bt_stream_t \<times> 'w) option" where
  "bt_stream_on_can_send stream mtu w =
     (if \<not> bs_initialised stream \<or> \<not> bs_connected stream then Some (False, stream, w)
      else
        (let stream = stream\<lparr>bs_mtu := mtu, bs_may_send := True\<rparr>;
             pending = ring_buffer_count (bs_outgoing stream) in
         if pending = 0 \<or> mtu = 0 then Some (False, stream, w)
         else
           (let room = (if unat mtu < 512 then unat mtu else 512);
                room = (if pending < room then pending else room);
                packet = ring_buffer_peek_bytes (bs_outgoing stream) room;
                staged = length packet in
            if staged = 0 then Some (False, stream, w)
            else
              (case bs_send stream of
                 None \<Rightarrow> None
               | Some send \<Rightarrow>
                   (case send packet w of
                      (accepted, w) \<Rightarrow>
                        (let stream = stream\<lparr>bs_may_send := False\<rparr>;
                             taken = (if unat accepted < staged then unat accepted else staged) in
                         case ring_buffer_discard (bs_outgoing stream) taken of
                           None \<Rightarrow> None
                         | Some (n, rb) \<Rightarrow>
                             (let stream = stream\<lparr>bs_outgoing := rb\<rparr> in
                              Some (0 < ring_buffer_count (bs_outgoing stream), stream, w))))))))"

definition bt_stream_on_received :: "'w bt_stream_t \<Rightarrow> u8 list option \<Rightarrow> (nat \<times> 'w bt_stream_t) option" where
  "bt_stream_on_received stream data =
     (case data of
        None \<Rightarrow> Some (0, stream)
      | Some bytes \<Rightarrow>
          if \<not> bs_initialised stream then Some (0, stream)
          else
            (case ring_buffer_write (bs_incoming stream) data of
               None \<Rightarrow> None
             | Some (stored, rb) \<Rightarrow>
                 (let stream = stream\<lparr>bs_incoming := rb\<rparr> in
                  Some (stored,
                    if stored < length bytes
                    then stream\<lparr>bs_dropped_incoming := bs_dropped_incoming stream + of_nat (length bytes - stored)\<rparr>
                    else stream))))"

definition bt_stream_read :: "'w bt_stream_t \<Rightarrow> (int \<times> 'w bt_stream_t) option" where
  "bt_stream_read stream =
     (if \<not> bs_initialised stream then Some (-1, stream)
      else
        (case ring_buffer_pop (bs_incoming stream) of
           None \<Rightarrow> None
         | Some (None, rb) \<Rightarrow> Some (-1, stream\<lparr>bs_incoming := rb\<rparr>)
         | Some (Some byte, rb) \<Rightarrow> Some (uint byte, stream\<lparr>bs_incoming := rb\<rparr>)))"

subsection \<open>The stream as a sender\<close>

definition bt_up :: "'w link \<Rightarrow> ('w \<times> u8 list) bt_stream_t \<Rightarrow> bool" where
  "bt_up send s \<longleftrightarrow> bs_initialised s \<and> bs_connected s \<and> bs_send s = Some (logged send)
     \<and> rb_inv (bs_outgoing s) \<and> rb_inv (bs_incoming s)"

lemma bt_write_spec:
  assumes "bt_up send s"
  shows "\<exists>s'. bt_stream_write s (Some bytes) = Some (min (length bytes) (ring_buffer_free (bs_outgoing s)), s')
    \<and> bt_up send s' \<and> rb_list (bs_outgoing s') = rb_list (bs_outgoing s) @ take (ring_buffer_free (bs_outgoing s)) bytes
    \<and> bs_dropped_outgoing s' = bs_dropped_outgoing s + of_nat (length bytes - ring_buffer_free (bs_outgoing s))"
proof -
  have inv: "rb_inv (bs_outgoing s)" using assms by (simp add: bt_up_def)
  obtain rb where rb: "ring_buffer_write (bs_outgoing s) (Some bytes)
      = Some (min (length bytes) (ring_buffer_free (bs_outgoing s)), rb)" "rb_inv rb"
      "rb_list rb = rb_list (bs_outgoing s) @ take (ring_buffer_free (bs_outgoing s)) bytes"
    using ring_buffer_write_spec [OF inv, of bytes] by metis
  with assms show ?thesis
    by (auto simp: bt_stream_write_def bt_up_def Let_def min_def)
qed

text \<open>One opportunity: a packet of at most the MTU and 512 bytes, from the front of the queue.\<close>

lemma bt_packet:
  assumes "rb_inv rb" and "rb_list rb \<noteq> []" and "mtu \<noteq> (0 :: u16)"
  defines "n \<equiv> min (min (unat mtu) 512) (ring_buffer_count rb)"
  shows "ring_buffer_count rb \<noteq> 0" and "n \<noteq> 0" and "n \<le> 512"
    and "(if ring_buffer_count rb < (if unat mtu < 512 then unat mtu else 512) then ring_buffer_count rb
      else if unat mtu < 512 then unat mtu else 512) = n"
    and "ring_buffer_peek_bytes rb n = take n (rb_list rb)" and "length (take n (rb_list rb)) = n"
    and "take n (rb_list rb) = take (min (unat mtu) 512) (rb_list rb)"
proof -
  show count: "ring_buffer_count rb \<noteq> 0" using assms(2) by (metis length_rb_list length_0_conv)
  have "unat mtu \<noteq> 0" using assms(3) by (simp add: unat_eq_zero)
  with count show "n \<noteq> 0" by (simp add: n_def)
  show n: "n \<le> 512" by (simp add: n_def)
  show "(if ring_buffer_count rb < (if unat mtu < 512 then unat mtu else 512) then ring_buffer_count rb
      else if unat mtu < 512 then unat mtu else 512) = n"
    by (simp add: n_def min_def)
  show "ring_buffer_peek_bytes rb n = take n (rb_list rb)" by (rule ring_buffer_peek_bytes_spec [OF assms(1)])
  show "length (take n (rb_list rb)) = n" by (simp add: n_def)
  show "take n (rb_list rb) = take (min (unat mtu) 512) (rb_list rb)"
    by (simp add: n_def min_def)
qed

lemma bt_can_send_spec:
  assumes up: "bt_up send s"
  shows "\<exists>s' w' out. bt_stream_on_can_send s mtu (w, log)
      = Some (mtu \<noteq> 0 \<and> rb_list (bs_outgoing s') \<noteq> [], s', w', log @ out)
    \<and> bt_up send s' \<and> rb_list (bs_outgoing s) = out @ rb_list (bs_outgoing s') \<and> length out \<le> min (unat mtu) 512
    \<and> bs_dropped_outgoing s' = bs_dropped_outgoing s
    \<and> (eager send \<longrightarrow> out = take (min (unat mtu) 512) (rb_list (bs_outgoing s)))"
proof (cases "rb_list (bs_outgoing s) = [] \<or> mtu = 0")
  case True
  let ?s = "s\<lparr>bs_mtu := mtu, bs_may_send := True\<rparr>"
  from True have "ring_buffer_count (bs_outgoing s) = 0 \<or> mtu = 0" by (metis length_rb_list length_0_conv)
  with up True have "bt_stream_on_can_send s mtu (w, log)
      = Some (mtu \<noteq> 0 \<and> rb_list (bs_outgoing ?s) \<noteq> [], ?s, w, log @ [])"
    by (auto simp: bt_stream_on_can_send_def bt_up_def Let_def)
  moreover have "bt_up send ?s" using up by (simp add: bt_up_def)
  ultimately show ?thesis
    using True by (intro exI [of _ ?s] exI [of _ w] exI [of _ "[]"]) auto
next
  case False
  then have some: "rb_list (bs_outgoing s) \<noteq> []" "mtu \<noteq> 0" by simp_all
  let ?out = "bs_outgoing s"
  define n where "n = min (min (unat mtu) 512) (ring_buffer_count ?out)"
  have inv: "rb_inv ?out" using up by (simp add: bt_up_def)
  note part = bt_packet [OF inv some, folded n_def]
  obtain accepted w' where link: "send (take n (rb_list ?out)) w = (accepted, w')" by fastforce
  define taken where "taken = (if unat accepted < n then unat accepted else n)"
  have taken: "taken \<le> n" by (simp add: taken_def)
  then have taken_count: "taken \<le> ring_buffer_count ?out" by (simp add: n_def)
  obtain rb where rb: "ring_buffer_discard ?out taken = Some (taken, rb)" "rb_inv rb"
      "rb_list rb = drop taken (rb_list ?out)"
    by (rule ring_buffer_discard_spec [OF inv, of taken]) (simp add: taken_count)
  have log: "take (unat accepted) (take n (rb_list ?out)) = take taken (rb_list ?out)"
    by (simp add: taken_def min_def)
  have eager: "taken = n" if "eager send"
    using that link part(3,6) by (auto simp: eager_def taken_def dest!: spec [of _ "take n (rb_list ?out)"] spec [of _ w])
  define s1 where "s1 = s\<lparr>bs_mtu := mtu, bs_may_send := True\<rparr>"
  define t where "t = s\<lparr>bs_mtu := mtu, bs_may_send := False, bs_outgoing := rb\<rparr>"
  have s1: "bs_outgoing s1 = ?out" "bs_send s1 = Some (logged send)" "s1\<lparr>bs_may_send := False, bs_outgoing := rb\<rparr> = t"
      "bs_outgoing (s1\<lparr>bs_may_send := False\<rparr>) = ?out" and t: "bs_outgoing t = rb"
      "\<not> (\<not> bs_initialised s \<or> \<not> bs_connected s)"
    using up by (simp_all add: s1_def t_def bt_up_def)
  have left: "0 < ring_buffer_count rb \<longleftrightarrow> rb_list rb \<noteq> []" by (metis length_rb_list length_greater_0_conv)
  have "bt_stream_on_can_send s mtu (w, log)
      = Some (0 < ring_buffer_count rb, t, w', log @ take taken (rb_list ?out))"
    unfolding bt_stream_on_can_send_def s1_def [symmetric]
    by (simp only: t part(1,2,4,5,6) some(2) if_False Let_def s1 option.case logged_def prod.case link
        taken_def [symmetric] rb(1) log simp_thms)
  moreover have "bt_up send t" using up rb(2) by (simp add: bt_up_def t_def)
  moreover have "take taken (rb_list ?out) = take (min (unat mtu) 512) (rb_list ?out)" if "eager send"
    using eager [OF that] part(7) by simp
  moreover have "length (take taken (rb_list ?out)) \<le> min (unat mtu) 512"
    using taken by (simp add: n_def)
  moreover have "bs_dropped_outgoing t = bs_dropped_outgoing s" by (simp add: t_def)
  ultimately show ?thesis
    using rb(3) some(2) t(1) left
    by (intro exI [of _ t] exI [of _ w'] exI [of _ "take taken (rb_list ?out)"]) simp
qed

text \<open>An opportunity of a session is told by its MTU, a 16-bit value.\<close>

definition mtu_of :: "nat \<Rightarrow> u16" where
  "mtu_of room = of_nat (min room 65535)"

lemma unat_mtu_of: "unat (mtu_of room) = min room 65535"
  unfolding mtu_of_def by (rule unat_of_nat_lt) simp

lemma mtu_of_0_iff: "mtu_of room = 0 \<longleftrightarrow> room = 0"
  using unat_mtu_of [of room] unat_eq_zero [of "mtu_of room"] by (auto simp: min_def split: if_splits)

interpretation bt: progressing_output "bt_up send" "\<lambda>s. rb_list (bs_outgoing s)"
  "\<lambda>s bytes. bt_stream_write s (Some bytes)" "\<lambda>s room. bt_stream_on_can_send s (mtu_of room)"
  "eager send" for send
proof unfold_locales
  fix s :: "('a \<times> u8 list) bt_stream_t" and bytes
  assume "bt_up send s"
  from bt_write_spec [OF this, of bytes]
  show "\<exists>n s'. bt_stream_write s (Some bytes) = Some (n, s') \<and> bt_up send s' \<and> n \<le> length bytes
      \<and> rb_list (bs_outgoing s') = rb_list (bs_outgoing s) @ take n bytes"
    by (auto simp: min_def split: if_splits)
next
  fix s :: "('a \<times> u8 list) bt_stream_t" and room w log
  assume up: "bt_up send s"
  let ?mtu = "mtu_of room"
  have "0 < room \<Longrightarrow> ?mtu \<noteq> 0" by (simp add: mtu_of_0_iff)
  with bt_can_send_spec [OF up, of ?mtu w log]
  show "\<exists>again s' w' out. bt_stream_on_can_send s ?mtu (w, log) = Some (again, s', w', log @ out) \<and> bt_up send s'
      \<and> rb_list (bs_outgoing s) = out @ rb_list (bs_outgoing s') \<and> (0 < room \<longrightarrow> again = (rb_list (bs_outgoing s') \<noteq> []))"
    by blast
next
  fix s s' :: "('a \<times> u8 list) bt_stream_t" and room l l' again
  let ?mtu = "mtu_of room"
  assume up: "eager send" "bt_up send s" "rb_list (bs_outgoing s) \<noteq> []" "0 < room"
    and flush: "bt_stream_on_can_send s ?mtu l = Some (again, s', l')"
  have mtu: "0 < unat ?mtu" using up(4) by (simp add: unat_mtu_of)
  obtain out where out: "rb_list (bs_outgoing s) = out @ rb_list (bs_outgoing s')"
      "out = take (min (unat ?mtu) 512) (rb_list (bs_outgoing s))"
    using bt_can_send_spec [OF up(2), of ?mtu "fst l" "snd l"] up(1) flush by auto
  then have "out \<noteq> []" using up(3) mtu by simp
  with out(1) show "length (rb_list (bs_outgoing s')) < length (rb_list (bs_outgoing s))"
    by (metis length_append length_greater_0_conv less_add_same_cancel2)
qed

lemma bt_init_up:
  assumes "bt_stream_init (Some incoming) m (Some outgoing) n (Some (logged send)) = Some (True, s)"
    and "m \<le> length incoming" and "n \<le> length outgoing"
  shows "bt_up send (bt_stream_set_connected s True) \<and> rb_list (bs_outgoing (bt_stream_set_connected s True)) = []"
proof -
  obtain rin rout where rbs: "ring_buffer_init (Some incoming) m = Some rin" "ring_buffer_init (Some outgoing) n = Some rout"
    and s: "s = bt_stream_zero\<lparr>bs_incoming := rin, bs_outgoing := rout, bs_send := Some (logged send), bs_initialised := True\<rparr>"
    using assms(1) by (auto simp: bt_stream_init_def Let_def split: option.splits)
  from ring_buffer_init_spec [OF rbs(1)] ring_buffer_init_spec [OF rbs(2)] assms(2,3)
  show ?thesis by (simp add: s bt_stream_set_connected_def bt_up_def)
qed

text \<open>Console output reaches the peer in order. In any session of writes and sending opportunities
  of a new connection, with any MTUs and a link that takes any part of each packet, the bytes it
  took followed by the bytes still queued are the bytes the writes accepted; and with a link that
  takes what it is offered, as many opportunities as there are bytes always empty the queue.
\<close>

theorem bt_output_in_order:
  assumes "bt_stream_init (Some incoming) m (Some outgoing) n (Some (logged send)) = Some (True, s)"
    and "m \<le> length incoming" and "n \<le> length outgoing"
  shows "(\<exists>ns s' w' sent. run_stream (\<lambda>s bytes. bt_stream_write s (Some bytes))
        (\<lambda>s room. bt_stream_on_can_send s (mtu_of room)) calls (bt_stream_set_connected s True) (w, [])
          = Some (ns, s', w', sent)
      \<and> sent @ rb_list (bs_outgoing s') = accepted_bytes calls ns
      \<and> (eager send \<longrightarrow> (\<forall>w. \<exists>s'' w''. run_stream (\<lambda>s bytes. bt_stream_write s (Some bytes))
          (\<lambda>s room. bt_stream_on_can_send s (mtu_of room))
          (replicate (ring_buffer_count (bs_outgoing s')) (Offer 1)) s' (w, sent)
            = Some ([], s'', w'', accepted_bytes calls ns) \<and> \<not> bt_stream_has_output s'')))"
proof -
  note up = bt_init_up [OF assms]
  obtain ns s' w' sent where run: "run_stream (\<lambda>s bytes. bt_stream_write s (Some bytes))
        (\<lambda>s room. bt_stream_on_can_send s (mtu_of room)) calls (bt_stream_set_connected s True) (w, [])
          = Some (ns, s', w', sent)" "bt_up send s'" "sent @ rb_list (bs_outgoing s') = accepted_bytes calls ns"
    using bt.session_in_order [of send "bt_stream_set_connected s True" calls w "[]"] up by auto
  have "\<exists>s'' w''. run_stream (\<lambda>s bytes. bt_stream_write s (Some bytes)) (\<lambda>s room. bt_stream_on_can_send s (mtu_of room))
          (replicate (ring_buffer_count (bs_outgoing s')) (Offer 1)) s' (w, sent)
            = Some ([], s'', w'', accepted_bytes calls ns) \<and> \<not> bt_stream_has_output s''" if e: "eager send" for w
  proof -
    obtain s'' w'' where "run_stream (\<lambda>s bytes. bt_stream_write s (Some bytes)) (\<lambda>s room. bt_stream_on_can_send s (mtu_of room))
          (replicate (ring_buffer_count (bs_outgoing s')) (Offer 1)) s' (w, sent)
            = Some ([], s'', w'', sent @ rb_list (bs_outgoing s'))" "rb_list (bs_outgoing s'') = []"
      using bt.opportunities_drain [OF e run(2), of "replicate (ring_buffer_count (bs_outgoing s')) (Offer 1)" w sent]
      by auto
    moreover from this(2) have "\<not> bt_stream_has_output s''"
      by (simp add: bt_stream_has_output_def flip: length_rb_list)
    ultimately show ?thesis using run(3) by auto
  qed
  with run(1,3) show ?thesis by blast
qed

subsection \<open>Input\<close>

text \<open>
  Input is stored as far as it fits: the front of the packet is appended, the rest is counted as
  dropped. A peer that leaves takes both queues with it.
\<close>

lemma bt_received_spec:
  assumes "bs_initialised s" and "rb_inv (bs_incoming s)"
  shows "\<exists>s'. bt_stream_on_received s (Some bytes) = Some (min (length bytes) (ring_buffer_free (bs_incoming s)), s')
    \<and> bs_initialised s' \<and> rb_inv (bs_incoming s')
    \<and> rb_list (bs_incoming s') = rb_list (bs_incoming s) @ take (ring_buffer_free (bs_incoming s)) bytes
    \<and> bs_dropped_incoming s' = bs_dropped_incoming s + of_nat (length bytes - ring_buffer_free (bs_incoming s))"
proof -
  obtain rb where rb: "ring_buffer_write (bs_incoming s) (Some bytes)
      = Some (min (length bytes) (ring_buffer_free (bs_incoming s)), rb)" "rb_inv rb"
      "rb_list rb = rb_list (bs_incoming s) @ take (ring_buffer_free (bs_incoming s)) bytes"
    using ring_buffer_write_spec [OF assms(2), of bytes] by metis
  with assms(1) show ?thesis by (auto simp: bt_stream_on_received_def Let_def min_def)
qed

lemma bt_read_spec:
  assumes "bs_initialised s" and "rb_inv (bs_incoming s)"
  shows "\<exists>s'. bt_stream_read s = Some (case rb_list (bs_incoming s) of [] \<Rightarrow> -1 | b # _ \<Rightarrow> uint b, s')
    \<and> bs_initialised s' \<and> rb_inv (bs_incoming s') \<and> rb_list (bs_incoming s') = drop 1 (rb_list (bs_incoming s))"
proof -
  obtain rb where rb: "ring_buffer_pop (bs_incoming s)
      = Some (case rb_list (bs_incoming s) of [] \<Rightarrow> None | b # _ \<Rightarrow> Some b, rb)"
      "rb_inv rb" "rb_list rb = drop 1 (rb_list (bs_incoming s))"
    using ring_buffer_pop_spec [OF assms(2)] by metis
  with assms show ?thesis by (cases "rb_list (bs_incoming s)") (simp_all add: bt_stream_read_def)
qed

lemma bt_disconnect_clears:
  assumes "bs_initialised s" and "rb_inv (bs_incoming s)" and "rb_inv (bs_outgoing s)"
  shows "rb_list (bs_incoming (bt_stream_set_connected s False)) = []"
    and "rb_list (bs_outgoing (bt_stream_set_connected s False)) = []"
    and "\<not> bs_connected (bt_stream_set_connected s False)" and "bs_mtu (bt_stream_set_connected s False) = 0"
  using assms ring_buffer_clear_spec [of "bs_outgoing s"] ring_buffer_clear_spec [of "bs_incoming s"]
  by (simp_all add: bt_stream_set_connected_def)

subsection \<open>Witness\<close>

definition packet_link :: "unit link" where
  "packet_link bytes w = (of_nat (min 2 (length bytes)), w)"

definition small_bt :: "unit link \<Rightarrow> (unit \<times> u8 list) bt_stream_t" where
  "small_bt send = bt_stream_zero\<lparr>
     bs_incoming := \<lparr>storage = replicate 4 0, rb_size = 4, rb_head = 0, rb_tail = 0\<rparr>,
     bs_outgoing := \<lparr>storage = replicate 8 0, rb_size = 8, rb_head = 0, rb_tail = 0\<rparr>,
     bs_send := Some (logged send), bs_initialised := True\<rparr>"

lemma small_bt_init:
  "bt_stream_init (Some (replicate 4 0)) 4 (Some (replicate 8 0)) 8 (Some (logged send)) = Some (True, small_bt send)"
  by (simp add: bt_stream_init_def ring_buffer_init_def small_bt_def)

theorem bt_output_in_order_witness:
  "\<exists>ns s' w' sent. run_stream (\<lambda>s bytes. bt_stream_write s (Some bytes))
        (\<lambda>s room. bt_stream_on_can_send s (mtu_of room)) [Put [1, 2, 3, 4, 5], Offer 3, Put [6, 7], Offer 3]
          (bt_stream_set_connected (small_bt packet_link) True) ((), []) = Some (ns, s', w', sent)
      \<and> sent @ rb_list (bs_outgoing s') = accepted_bytes [Put [1, 2, 3, 4, 5], Offer 3, Put [6, 7], Offer 3] ns"
proof -
  have mem: "4 \<le> length (replicate 4 (0 :: u8))" "8 \<le> length (replicate 8 (0 :: u8))" by simp_all
  show ?thesis
    using bt_output_in_order [OF small_bt_init mem, where send = packet_link and w = "()"
        and calls = "[Put [1, 2, 3, 4, 5], Offer 3, Put [6, 7], Offer 3]"]
    by blast
qed

end
