(* ===== verification/Wifi_Policy.thy ===== *)
theory Wifi_Policy
  imports C_Text
begin

text \<open>
  Credentials and retries, \<open>wifi/wifi_policy.c\<close>: the backoff loop, the retry record with its
  operations on the 32-bit millisecond counter, and what a sequence of failures adds up to.
\<close>

datatype wifi_credentials_result_t = WIFI_CREDENTIALS_OK | WIFI_CREDENTIALS_NO_SSID
  | WIFI_CREDENTIALS_SSID_TOO_LONG | WIFI_CREDENTIALS_PASSWORD_TOO_SHORT | WIFI_CREDENTIALS_PASSWORD_TOO_LONG

definition wifi_check_credentials :: "string option \<Rightarrow> string option \<Rightarrow> wifi_credentials_result_t" where
  "wifi_check_credentials ssid password =
     (case ssid of
        None \<Rightarrow> WIFI_CREDENTIALS_NO_SSID
      | Some s \<Rightarrow>
          (let ssid_length = length s in
           if ssid_length < 1 then WIFI_CREDENTIALS_NO_SSID
           else if 32 < ssid_length then WIFI_CREDENTIALS_SSID_TOO_LONG
           else
             (case password of
                None \<Rightarrow> WIFI_CREDENTIALS_OK
              | Some p \<Rightarrow>
                  if char_at p = CHR 0x00 then WIFI_CREDENTIALS_OK
                  else
                    (let password_length = length p in
                     if password_length < 8 then WIFI_CREDENTIALS_PASSWORD_TOO_SHORT
                     else if 63 < password_length then WIFI_CREDENTIALS_PASSWORD_TOO_LONG
                     else WIFI_CREDENTIALS_OK))))"

fun wifi_credentials_result_name :: "wifi_credentials_result_t \<Rightarrow> string" where
  "wifi_credentials_result_name WIFI_CREDENTIALS_OK = ''ok''"
| "wifi_credentials_result_name WIFI_CREDENTIALS_NO_SSID = ''no ssid''"
| "wifi_credentials_result_name WIFI_CREDENTIALS_SSID_TOO_LONG = ''ssid longer than 32 characters''"
| "wifi_credentials_result_name WIFI_CREDENTIALS_PASSWORD_TOO_SHORT = ''passphrase shorter than 8 characters''"
| "wifi_credentials_result_name WIFI_CREDENTIALS_PASSWORD_TOO_LONG = ''passphrase longer than 63 characters''"

abbreviation (input) "WIFI_RETRY_DEFAULT_FIRST_DELAY_MS \<equiv> (500 :: u32)"
abbreviation (input) "WIFI_RETRY_DEFAULT_MAX_DELAY_MS \<equiv> (30000 :: u32)"

record wifi_retry_config_t =
  first_delay_ms :: u32
  max_delay_ms :: u32
  max_attempts :: u32

record wifi_retry_t =
  wr_config :: wifi_retry_config_t
  wr_attempts :: u32
  wr_next_attempt_ms :: u32
  wr_waiting :: bool

text \<open>The doubling loop, lines 65 to 75, with the number of rounds left.\<close>

fun backoff_loop :: "nat \<Rightarrow> u32 \<Rightarrow> u32 \<Rightarrow> u32" where
  "backoff_loop 0 ceiling delay = (if delay < ceiling then delay else ceiling)"
| "backoff_loop (Suc rounds) ceiling delay =
     (if ceiling \<le> delay \<or> 0xFFFFFFFF - delay < delay then ceiling
      else backoff_loop rounds ceiling (delay + delay))"

definition wifi_retry_delay_for_attempt :: "wifi_retry_config_t option \<Rightarrow> u32 \<Rightarrow> u32" where
  "wifi_retry_delay_for_attempt config attempt =
     (case config of
        None \<Rightarrow> 0
      | Some c \<Rightarrow>
          if attempt = 0 then 0
          else
            (let first = (if first_delay_ms c \<noteq> 0 then first_delay_ms c else WIFI_RETRY_DEFAULT_FIRST_DELAY_MS);
                 ceiling = (if max_delay_ms c \<noteq> 0 then max_delay_ms c else WIFI_RETRY_DEFAULT_MAX_DELAY_MS)
             in backoff_loop (unat attempt - 1) ceiling first))"

definition wifi_retry_zero :: wifi_retry_t where
  "wifi_retry_zero = \<lparr>wr_config = \<lparr>first_delay_ms = 0, max_delay_ms = 0, max_attempts = 0\<rparr>,
     wr_attempts = 0, wr_next_attempt_ms = 0, wr_waiting = False\<rparr>"

definition wifi_retry_init :: "wifi_retry_config_t option \<Rightarrow> wifi_retry_t" where
  "wifi_retry_init config =
     (let retry = wifi_retry_zero;
          c = (case config of None \<Rightarrow> wr_config retry | Some c \<Rightarrow> c);
          c = (if first_delay_ms c = 0 then c\<lparr>first_delay_ms := WIFI_RETRY_DEFAULT_FIRST_DELAY_MS\<rparr> else c);
          c = (if max_delay_ms c = 0 then c\<lparr>max_delay_ms := WIFI_RETRY_DEFAULT_MAX_DELAY_MS\<rparr> else c)
      in retry\<lparr>wr_config := c\<rparr>)"

definition wifi_retry_reset :: "wifi_retry_t \<Rightarrow> wifi_retry_t" where
  "wifi_retry_reset retry = retry\<lparr>wr_attempts := 0, wr_next_attempt_ms := 0, wr_waiting := False\<rparr>"

definition wifi_retry_fail :: "wifi_retry_t \<Rightarrow> u32 \<Rightarrow> u32 \<times> wifi_retry_t" where
  "wifi_retry_fail retry now_ms =
     (let retry = retry\<lparr>wr_attempts := wr_attempts retry + 1\<rparr>;
          delay = wifi_retry_delay_for_attempt (Some (wr_config retry)) (wr_attempts retry);
          retry = retry\<lparr>wr_next_attempt_ms := now_ms + delay, wr_waiting := True\<rparr>
      in (wr_next_attempt_ms retry, retry))"

definition wifi_retry_due :: "wifi_retry_t \<Rightarrow> u32 \<Rightarrow> bool" where
  "wifi_retry_due retry now_ms =
     (if \<not> wr_waiting retry then True else 0 \<le> sint (now_ms - wr_next_attempt_ms retry))"

definition wifi_retry_exhausted :: "wifi_retry_t \<Rightarrow> bool" where
  "wifi_retry_exhausted retry =
     (if max_attempts (wr_config retry) = 0 then False
      else max_attempts (wr_config retry) \<le> wr_attempts retry)"

definition wifi_retry_attempts :: "wifi_retry_t \<Rightarrow> u32" where
  "wifi_retry_attempts retry = wr_attempts retry"

subsection \<open>The schedule\<close>

lemma unat_room_above: "unat (0xFFFFFFFF - (d :: u32)) = 4294967295 - unat d"
proof -
  have "d \<le> 0xFFFFFFFF" using unat_u32_lt [of d] by (simp add: word_le_nat_alt)
  then have "unat (0xFFFFFFFF - d) = unat (0xFFFFFFFF :: u32) - unat d" by (rule unat_sub)
  then show ?thesis by simp
qed

lemma no_double_overflow:
  assumes "\<not> 0xFFFFFFFF - d < (d :: u32)"
  shows "unat (d + d) = 2 * unat d"
proof -
  have "unat d \<le> 4294967295 - unat d" using assms unat_room_above [of d] by (simp only: word_less_nat_alt not_less)
  then have "unat d + unat d < 2 ^ LENGTH(32)" by simp
  then show ?thesis by (simp only: unat_add_lem mult_2)
qed

text \<open>The loop computes the doubled delay under its ceiling as a number that never overflows.\<close>

lemma backoff_loop_eq: "unat (backoff_loop rounds ceiling delay) = min (unat ceiling) (unat delay * 2 ^ rounds)"
proof (induction rounds arbitrary: delay)
  case 0
  then show ?case by (auto simp: word_less_nat_alt)
next
  case (Suc rounds)
  have grows: "unat delay \<le> unat delay * 2 ^ Suc rounds" by simp
  show ?case
  proof (cases "ceiling \<le> delay")
    case True
    with grows show ?thesis by (simp add: word_le_nat_alt min_absorb1 order.trans)
  next
    case below: False
    show ?thesis
    proof (cases "0xFFFFFFFF - delay < delay")
      case True
      then have "4294967295 < 2 * unat delay"
        unfolding word_less_nat_alt unat_room_above by linarith
      also have "\<dots> \<le> unat delay * 2 ^ Suc rounds" by simp
      finally have "unat ceiling \<le> unat delay * 2 ^ Suc rounds" using unat_u32_lt [of ceiling] by linarith
      with True show ?thesis by simp
    next
      case False
      with below Suc.IH [of "delay + delay"] no_double_overflow [OF False] show ?thesis by simp
    qed
  qed
qed

text \<open>The failures at the given times, and the delay the last one of them should impose.\<close>

definition retry_after :: "wifi_retry_config_t option \<Rightarrow> u32 list \<Rightarrow> wifi_retry_t" where
  "retry_after config ts = fold (\<lambda>t retry. snd (wifi_retry_fail retry t)) ts (wifi_retry_init config)"

definition first_of :: "wifi_retry_config_t option \<Rightarrow> nat" where
  "first_of config = (case config of None \<Rightarrow> 500 | Some c \<Rightarrow> if first_delay_ms c = 0 then 500 else unat (first_delay_ms c))"

definition ceiling_of :: "wifi_retry_config_t option \<Rightarrow> nat" where
  "ceiling_of config = (case config of None \<Rightarrow> 30000 | Some c \<Rightarrow> if max_delay_ms c = 0 then 30000 else unat (max_delay_ms c))"

lemma retry_init_config:
  "unat (first_delay_ms (wr_config (wifi_retry_init config))) = first_of config"
  "unat (max_delay_ms (wr_config (wifi_retry_init config))) = ceiling_of config"
  "first_delay_ms (wr_config (wifi_retry_init config)) \<noteq> 0" "max_delay_ms (wr_config (wifi_retry_init config)) \<noteq> 0"
  "wr_attempts (wifi_retry_init config) = 0" "\<not> wr_waiting (wifi_retry_init config)"
  "max_attempts (wr_config (wifi_retry_init config)) = (case config of None \<Rightarrow> 0 | Some c \<Rightarrow> max_attempts c)"
  by (auto simp: wifi_retry_init_def wifi_retry_zero_def first_of_def ceiling_of_def Let_def split: option.splits)

lemma retry_after_snoc:
  "retry_after config (ts @ [t]) = snd (wifi_retry_fail (retry_after config ts) t)"
  by (simp add: retry_after_def)

lemma retry_after_state:
  "wr_config (retry_after config ts) = wr_config (wifi_retry_init config)
    \<and> wr_attempts (retry_after config ts) = of_nat (length ts)"
proof (induction ts rule: rev_induct)
  case Nil
  then show ?case by (simp add: retry_after_def retry_init_config)
next
  case (snoc t ts)
  then show ?case by (simp add: retry_after_snoc wifi_retry_fail_def Let_def)
qed

lemma sint_nonneg_iff: "0 \<le> sint (w :: u32) \<longleftrightarrow> unat w < 2147483648"
proof -
  have "sint w < 0 \<longleftrightarrow> bit w 31" using bit_last_iff [of w] by simp
  also have "\<dots> \<longleftrightarrow> bit (unat w) 31" by (simp add: bit_unsigned_iff)
  also have "\<dots> \<longleftrightarrow> odd (unat w div 2147483648)" by (simp add: bit_iff_odd)
  also have "\<dots> \<longleftrightarrow> 2147483648 \<le> unat w"
  proof -
    have "unat w div 2147483648 < 2" using unat_u32_lt [of w] by (simp add: div_less_iff_less_mult)
    then have "unat w div 2147483648 = 0 \<or> unat w div 2147483648 = 1" by linarith
    then show ?thesis by (auto simp: div_eq_0_iff not_le)
  qed
  finally show ?thesis by linarith
qed

lemma signed_elapsed:
  assumes "unat d \<le> 2147483648" and "e < 2147483648"
  shows "0 \<le> sint (of_nat e - (d :: u32)) \<longleftrightarrow> unat d \<le> e"
proof -
  have "unat (of_nat e :: u32) = e" using assms(2) by (intro unat_of_nat_lt) simp
  then have "unat (of_nat e - d) = (if unat d \<le> e then e - unat d else e + 4294967296 - unat d)"
    by (simp add: unat_sub_if')
  with assms show ?thesis unfolding sint_nonneg_iff by (simp split: if_splits)
qed

text \<open>C27: a retry always comes due, and at the right moment. After any failures, the last one at time
  \<open>t\<close> of the wrapping millisecond counter, the next attempt is due \<open>e\<close> milliseconds later exactly
  when \<open>e\<close> has reached the first delay doubled once per earlier failure, cut at the ceiling; and
  the attempts are exhausted exactly when a budget was set and as many have failed.
\<close>

theorem wifi_retry_due_exactly:
  assumes "ceiling_of config \<le> 2147483648" and "length ts < 4294967295" and "e < 2147483648"
  shows "(wifi_retry_due (retry_after config (ts @ [t])) (t + of_nat e)
      \<longleftrightarrow> min (ceiling_of config) (first_of config * 2 ^ length ts) \<le> e)
    \<and> (wifi_retry_exhausted (retry_after config (ts @ [t]))
      \<longleftrightarrow> (case config of None \<Rightarrow> False | Some c \<Rightarrow> max_attempts c \<noteq> 0 \<and> unat (max_attempts c) \<le> Suc (length ts)))"
proof -
  let ?c = "wr_config (wifi_retry_init config)" and ?n = "of_nat (length ts) + 1 :: u32"
  have n: "?n = of_nat (Suc (length ts))" by simp
  have unat_n: "unat ?n = Suc (length ts)" unfolding n by (rule unat_of_nat_lt) (use assms(2) in simp)
  then have pos: "?n \<noteq> 0" by (metis unat_0 nat.distinct(1))
  define d where "d = wifi_retry_delay_for_attempt (Some ?c) ?n"
  have delay: "unat d = min (ceiling_of config) (first_of config * 2 ^ length ts)"
    using pos retry_init_config [of config]
    by (simp add: d_def wifi_retry_delay_for_attempt_def Let_def backoff_loop_eq unat_n)
  define r where "r = retry_after config (ts @ [t])"
  have r: "wr_waiting r" "wr_next_attempt_ms r = t + d" "wr_attempts r = ?n" "wr_config r = ?c"
    using retry_after_state [of config ts]
    by (simp_all add: r_def d_def retry_after_snoc wifi_retry_fail_def Let_def)
  have "t + of_nat e - (t + d) = of_nat e - d" by simp
  then have "wifi_retry_due r (t + of_nat e) \<longleftrightarrow> 0 \<le> sint (of_nat e - d)"
    using r by (simp add: wifi_retry_due_def)
  moreover have "0 \<le> sint (of_nat e - d) \<longleftrightarrow> unat d \<le> e"
    by (rule signed_elapsed) (use delay assms in simp_all)
  moreover have "wifi_retry_exhausted r \<longleftrightarrow>
      (case config of None \<Rightarrow> False | Some c \<Rightarrow> max_attempts c \<noteq> 0 \<and> unat (max_attempts c) \<le> Suc (length ts))"
    using r retry_init_config(7) [of config] unat_n
    by (simp add: wifi_retry_exhausted_def word_le_nat_alt split: option.splits)
  ultimately show ?thesis unfolding r_def delay by simp
qed

theorem wifi_retry_due_exactly_witness:
  "wifi_retry_due (retry_after None [0xFFFFFF00, 0xFFFFFFFF]) (0xFFFFFFFF + 1000)
   \<and> \<not> wifi_retry_due (retry_after None [0xFFFFFF00, 0xFFFFFFFF]) (0xFFFFFFFF + 999)"
  using wifi_retry_due_exactly [of None "[0xFFFFFF00]" 1000 "0xFFFFFFFF"]
    wifi_retry_due_exactly [of None "[0xFFFFFF00]" 999 "0xFFFFFFFF"]
  by (simp add: ceiling_of_def first_of_def)

text \<open>Without a failure, and after a success, an attempt is due at once.\<close>

lemma wifi_retry_reset_due:
  "wifi_retry_due (wifi_retry_reset retry) now" "wifi_retry_due (wifi_retry_init config) now"
  by (simp_all add: wifi_retry_due_def wifi_retry_reset_def retry_init_config)

end
