(* ===== verification/Mqtt_Policy.thy ===== *)
theory Mqtt_Policy
  imports C_Text
begin

text \<open>
  Topics, filters and client identifiers, \<open>mqtt/mqtt_policy.c\<close>. The walk over the levels of a
  subscribe filter is a recursion over the characters that remains, with the level read so far;
  it is shown equal to the rules of MQTT stated on the list of levels.
\<close>

abbreviation (input) "MQTT_TOPIC_MAX_LENGTH \<equiv> (128 :: nat)"
abbreviation (input) "MQTT_CLIENT_ID_MAX_LENGTH \<equiv> (64 :: nat)"

datatype mqtt_topic_result_t = MQTT_TOPIC_OK | MQTT_TOPIC_EMPTY | MQTT_TOPIC_TOO_LONG
  | MQTT_TOPIC_WILDCARD_NOT_ALLOWED | MQTT_TOPIC_BAD_WILDCARD_PLACEMENT

fun mqtt_topic_result_name :: "mqtt_topic_result_t \<Rightarrow> string" where
  "mqtt_topic_result_name MQTT_TOPIC_OK = ''ok''"
| "mqtt_topic_result_name MQTT_TOPIC_EMPTY = ''empty''"
| "mqtt_topic_result_name MQTT_TOPIC_TOO_LONG = ''longer than the limit''"
| "mqtt_topic_result_name MQTT_TOPIC_WILDCARD_NOT_ALLOWED = ''wildcard in a publish topic''"
| "mqtt_topic_result_name MQTT_TOPIC_BAD_WILDCARD_PLACEMENT = ''wildcard not alone in its level''"

fun has_wildcard :: "string \<Rightarrow> bool" where
  "has_wildcard [] \<longleftrightarrow> False"
| "has_wildcard (c # cs) \<longleftrightarrow> c = CHR ''+'' \<or> c = CHR ''#'' \<or> has_wildcard cs"

definition mqtt_check_publish_topic :: "string option \<Rightarrow> mqtt_topic_result_t" where
  "mqtt_check_publish_topic topic =
     (case topic of
        None \<Rightarrow> MQTT_TOPIC_EMPTY
      | Some str \<Rightarrow>
          if str = [] then MQTT_TOPIC_EMPTY
          else if MQTT_TOPIC_MAX_LENGTH < length str then MQTT_TOPIC_TOO_LONG
          else if has_wildcard str then MQTT_TOPIC_WILDCARD_NOT_ALLOWED
          else MQTT_TOPIC_OK)"

text \<open>The checks on one level, lines 56 to 74; \<open>is_end\<close> tells that the terminator follows it.\<close>

definition level_is_bad :: "string \<Rightarrow> bool \<Rightarrow> bool" where
  "level_is_bad level is_end =
     (let has_plus = list_ex (\<lambda>c. c = CHR ''+'') level;
          has_hash = list_ex (\<lambda>c. c = CHR ''#'') level in
      (has_plus \<and> length level \<noteq> 1) \<or> (has_hash \<and> (length level \<noteq> 1 \<or> \<not> is_end)))"

text \<open>The walk, lines 53 to 82: \<open>level\<close> is the text between \<open>level_start\<close> and \<open>p\<close>.\<close>

fun check_levels :: "string \<Rightarrow> string \<Rightarrow> mqtt_topic_result_t" where
  "check_levels level [] = (if level_is_bad level True then MQTT_TOPIC_BAD_WILDCARD_PLACEMENT else MQTT_TOPIC_OK)"
| "check_levels level (c # p) =
     (if c = CHR ''/''
      then (if level_is_bad level False then MQTT_TOPIC_BAD_WILDCARD_PLACEMENT else check_levels [] p)
      else check_levels (level @ [c]) p)"

definition mqtt_check_subscribe_filter :: "string option \<Rightarrow> mqtt_topic_result_t" where
  "mqtt_check_subscribe_filter topic =
     (case topic of
        None \<Rightarrow> MQTT_TOPIC_EMPTY
      | Some str \<Rightarrow>
          if str = [] then MQTT_TOPIC_EMPTY
          else if MQTT_TOPIC_MAX_LENGTH < length str then MQTT_TOPIC_TOO_LONG
          else check_levels [] str)"

datatype mqtt_client_id_result_t = MQTT_CLIENT_ID_OK | MQTT_CLIENT_ID_EMPTY | MQTT_CLIENT_ID_TOO_LONG

fun mqtt_client_id_result_name :: "mqtt_client_id_result_t \<Rightarrow> string" where
  "mqtt_client_id_result_name MQTT_CLIENT_ID_OK = ''ok''"
| "mqtt_client_id_result_name MQTT_CLIENT_ID_EMPTY = ''empty''"
| "mqtt_client_id_result_name MQTT_CLIENT_ID_TOO_LONG = ''longer than the limit''"

definition mqtt_check_client_id :: "string option \<Rightarrow> mqtt_client_id_result_t" where
  "mqtt_check_client_id client_id =
     (case client_id of
        None \<Rightarrow> MQTT_CLIENT_ID_EMPTY
      | Some str \<Rightarrow>
          if str = [] then MQTT_CLIENT_ID_EMPTY
          else if MQTT_CLIENT_ID_MAX_LENGTH < length str then MQTT_CLIENT_ID_TOO_LONG
          else MQTT_CLIENT_ID_OK)"

definition mqtt_qos_is_valid :: "u8 \<Rightarrow> bool" where
  "mqtt_qos_is_valid qos \<longleftrightarrow> qos \<le> 2"

subsection \<open>The rules of MQTT on levels\<close>

fun levels :: "string \<Rightarrow> string list" where
  "levels [] = [[]]"
| "levels (c # p) =
     (if c = CHR ''/'' then [] # levels p else (c # hd (levels p)) # tl (levels p))"

fun join_levels :: "string list \<Rightarrow> string" where
  "join_levels [] = []"
| "join_levels [l] = l"
| "join_levels (l # ls) = l @ CHR ''/'' # join_levels ls"

text \<open>
  A filter is a list of levels: \<open>+\<close> alone, a name without wildcards, and \<open>#\<close> alone as the last
  one. A topic is a list of names, and \<open>filter_covers\<close> tells which topics a filter subscribes to.
\<close>

definition plain_level :: "string \<Rightarrow> bool" where
  "plain_level l \<longleftrightarrow> CHR ''+'' \<notin> set l \<and> CHR ''#'' \<notin> set l"

fun levels_ok :: "string list \<Rightarrow> bool" where
  "levels_ok [] \<longleftrightarrow> True"
| "levels_ok (l # ls) \<longleftrightarrow> (plain_level l \<or> l = ''+'' \<or> l = ''#'' \<and> ls = []) \<and> levels_ok ls"

fun filter_covers :: "string list \<Rightarrow> string list \<Rightarrow> bool" where
  "filter_covers [] [] \<longleftrightarrow> True"
| "filter_covers [] (t # ts) \<longleftrightarrow> False"
| "filter_covers (l # ls) [] \<longleftrightarrow> l = ''#'' \<and> ls = []"
| "filter_covers (l # ls) (t # ts) \<longleftrightarrow>
     l = ''#'' \<and> ls = [] \<or> (l = ''+'' \<or> l = t) \<and> filter_covers ls ts"

lemma levels_nonempty: "levels str \<noteq> []"
  by (cases str) simp_all

lemma levels_no_slash: "l \<in> set (levels str) \<Longrightarrow> CHR ''/'' \<notin> set l"
proof (induction str arbitrary: l)
  case (Cons c p)
  then show ?case
    using levels_nonempty [of p] by (cases "levels p") (auto split: if_splits)
qed simp

lemma join_levels: "join_levels (levels str) = str"
proof (induction str)
  case (Cons c p)
  obtain l ls where "levels p = l # ls" using levels_nonempty [of p] by (cases "levels p") auto
  with Cons.IH show ?case by (cases ls) auto
qed simp

lemma levels_append:
  "CHR ''/'' \<notin> set l \<Longrightarrow> levels (l @ str) = (l @ hd (levels str)) # tl (levels str)"
  by (induction l) (use levels_nonempty [of str] in auto)

lemma singleton_length: "length l = 1 \<and> c \<in> set l \<longleftrightarrow> l = [c]"
  by (cases l) auto

lemma level_ok: "\<not> level_is_bad l is_end \<longleftrightarrow> plain_level l \<or> l = ''+'' \<or> l = ''#'' \<and> is_end"
proof -
  have "\<not> level_is_bad l is_end \<longleftrightarrow>
      (CHR ''+'' \<in> set l \<longrightarrow> length l = 1) \<and> (CHR ''#'' \<in> set l \<longrightarrow> length l = 1 \<and> is_end)"
    by (auto simp: level_is_bad_def list_ex_iff)
  also have "\<dots> \<longleftrightarrow> plain_level l \<or> l = ''+'' \<or> l = ''#'' \<and> is_end"
    using singleton_length [of l "CHR ''+''"] singleton_length [of l "CHR ''#''"]
    by (auto simp: plain_level_def)
  finally show ?thesis .
qed

lemma check_levels_iff:
  "CHR ''/'' \<notin> set level \<Longrightarrow> check_levels level p = MQTT_TOPIC_OK \<longleftrightarrow> levels_ok (levels (level @ p))"
proof (induction level p rule: check_levels.induct)
  case (1 level)
  then show ?case using levels_append [of level "[]"] level_ok [of level True] by auto
next
  case (2 level c p)
  show ?case
  proof (cases "c = CHR ''/''")
    case True
    with 2 show ?thesis
      using levels_append [of level "c # p"] level_ok [of level False] levels_nonempty [of p] by auto
  next
    case False
    with 2 show ?thesis by simp
  qed
qed

lemma levels_join:
  assumes "ls \<noteq> []" and "\<forall>l \<in> set ls. CHR ''/'' \<notin> set l"
  shows "levels (join_levels ls) = ls"
  using assms
proof (induction ls rule: join_levels.induct)
  case 1
  then show ?case by simp
next
  case (2 l)
  then show ?case using levels_append [of l "[]"] by simp
next
  case (3 l l' ls)
  then show ?case using levels_append [of l "CHR ''/'' # join_levels (l' # ls)"] by auto
qed

lemma has_wildcard_iff: "has_wildcard str \<longleftrightarrow> CHR ''+'' \<in> set str \<or> CHR ''#'' \<in> set str"
  by (induction str) auto

lemma set_levels: "c \<noteq> CHR ''/'' \<Longrightarrow> c \<in> set str \<longleftrightarrow> (\<exists>l \<in> set (levels str). c \<in> set l)"
proof (induction str)
  case (Cons d p)
  obtain l ls where "levels p = l # ls" using levels_nonempty [of p] by (cases "levels p") auto
  with Cons show ?case by auto
qed simp

lemma plain_covers: "\<forall>l \<in> set ls. plain_level l \<Longrightarrow> filter_covers ls ts \<longleftrightarrow> ls = ts"
  by (induction ls ts rule: filter_covers.induct) (auto simp: plain_level_def)

lemma plain_levels_ok: "\<forall>l \<in> set ls. plain_level l \<Longrightarrow> levels_ok ls"
  by (induction ls) auto

text \<open>A topic that a filter with wildcards covers, with none of them in it.\<close>

definition instance_of :: "string list \<Rightarrow> string list" where
  "instance_of ls = map (\<lambda>l. if l = ''+'' then [] else l) (filter (\<lambda>l. l \<noteq> ''#'') ls)"

lemma instance_covered: "levels_ok ls \<Longrightarrow> filter_covers ls (instance_of ls)"
proof (induction ls)
  case (Cons l ls)
  show ?case
  proof (cases "l = ''#''")
    case True
    with Cons.prems have "ls = []" by (auto simp: plain_level_def)
    with True show ?thesis by (simp add: instance_of_def)
  next
    case False
    with Cons show ?thesis by (auto simp: instance_of_def)
  qed
qed (simp add: instance_of_def)

lemma instance_plain: "levels_ok ls \<Longrightarrow> l \<in> set (instance_of ls) \<Longrightarrow> plain_level l"
  by (induction ls) (auto simp: instance_of_def plain_level_def split: if_splits)

lemma instance_no_slash: "l \<in> set (instance_of ls) \<Longrightarrow> \<forall>k \<in> set ls. CHR ''/'' \<notin> set k \<Longrightarrow> CHR ''/'' \<notin> set l"
  by (auto simp: instance_of_def split: if_splits)

lemma covered_only_itself:
  assumes "levels_ok (levels str)" and "str \<noteq> []"
    and only: "\<forall>ts. filter_covers (levels str) ts \<longrightarrow> join_levels ts = str"
  shows "\<forall>l \<in> set (levels str). plain_level l"
proof -
  let ?ts = "instance_of (levels str)"
  have str: "join_levels ?ts = str" using only instance_covered [OF assms(1)] by blast
  with assms(2) have "?ts \<noteq> []" by auto
  then have "levels (join_levels ?ts) = ?ts"
    using instance_no_slash [of _ "levels str"] levels_no_slash [of _ str] by (intro levels_join) auto
  with str instance_plain [OF assms(1)] show ?thesis by simp
qed

text \<open>C29: a subscribe filter is accepted exactly when its levels obey the rules of MQTT, each level a
  plain name, \<open>+\<close> alone, or \<open>#\<close> alone and last; a publish topic is accepted exactly when it is an
  accepted filter that covers no topic but itself.
\<close>

theorem mqtt_filters_exact:
  assumes "str \<noteq> []" and "length str \<le> 128"
  shows "(mqtt_check_subscribe_filter (Some str) = MQTT_TOPIC_OK \<longleftrightarrow> levels_ok (levels str))
    \<and> (mqtt_check_publish_topic (Some str) = MQTT_TOPIC_OK \<longleftrightarrow>
      mqtt_check_subscribe_filter (Some str) = MQTT_TOPIC_OK
      \<and> (\<forall>ts. filter_covers (levels str) ts \<longrightarrow> join_levels ts = str))"
proof -
  have sub: "mqtt_check_subscribe_filter (Some str) = MQTT_TOPIC_OK \<longleftrightarrow> levels_ok (levels str)"
    using assms check_levels_iff [of "[]" str] by (simp add: mqtt_check_subscribe_filter_def)
  have "mqtt_check_publish_topic (Some str) = MQTT_TOPIC_OK \<longleftrightarrow> \<not> has_wildcard str"
    using assms by (simp add: mqtt_check_publish_topic_def)
  also have "\<dots> \<longleftrightarrow> (\<forall>l \<in> set (levels str). plain_level l)"
    using set_levels [of "CHR ''+''" str] set_levels [of "CHR ''#''" str]
    by (auto simp: has_wildcard_iff plain_level_def)
  also have "\<dots> \<longleftrightarrow> levels_ok (levels str) \<and> (\<forall>ts. filter_covers (levels str) ts \<longrightarrow> join_levels ts = str)"
    using plain_covers [of "levels str"] plain_levels_ok [of "levels str"] covered_only_itself [of str] assms(1)
    by (auto simp: join_levels)
  finally show ?thesis using sub by blast
qed

theorem mqtt_filters_exact_witness:
  "mqtt_check_subscribe_filter (Some ''home/+/state'') = MQTT_TOPIC_OK
   \<and> mqtt_check_subscribe_filter (Some ''home/#/state'') \<noteq> MQTT_TOPIC_OK
   \<and> mqtt_check_publish_topic (Some ''home/a'') = MQTT_TOPIC_OK"
proof -
  have "mqtt_check_publish_topic (Some ''home/a'') = MQTT_TOPIC_OK"
    by (simp add: mqtt_check_publish_topic_def)
  with mqtt_filters_exact [of "''home/+/state''"] mqtt_filters_exact [of "''home/#/state''"] mqtt_filters_exact [of "''home/a''"]
  show ?thesis by (simp add: plain_level_def)
qed

end
