(* ===== verification/Udp_Policy.thy ===== *)
theory Udp_Policy
  imports C_Text
begin

text \<open>
  Addresses and endpoints, \<open>udp/udp_policy.c\<close>: the strict dotted-quad parser with its two loops,
  the printer, and the decisions on addresses and payloads. The main lemma is that the parser
  accepts exactly the texts the printer writes.
\<close>

datatype udp_endpoint_result_t = UDP_ENDPOINT_OK | UDP_ENDPOINT_NO_HOST | UDP_ENDPOINT_NO_PORT

fun udp_endpoint_result_name :: "udp_endpoint_result_t \<Rightarrow> string" where
  "udp_endpoint_result_name UDP_ENDPOINT_OK = ''ok''"
| "udp_endpoint_result_name UDP_ENDPOINT_NO_HOST = ''no host''"
| "udp_endpoint_result_name UDP_ENDPOINT_NO_PORT = ''port 0 cannot be addressed''"

definition udp_check_endpoint :: "string option \<Rightarrow> u16 \<Rightarrow> udp_endpoint_result_t" where
  "udp_check_endpoint host port =
     (case host of
        None \<Rightarrow> UDP_ENDPOINT_NO_HOST
      | Some h \<Rightarrow>
          if char_at h = CHR 0x00 then UDP_ENDPOINT_NO_HOST
          else if port = 0 then UDP_ENDPOINT_NO_PORT
          else UDP_ENDPOINT_OK)"

text \<open>The inner loop: digits are consumed while there are any; a fourth one is refused.\<close>

fun octet_digits :: "string \<Rightarrow> nat \<Rightarrow> nat \<Rightarrow> (nat \<times> string) option" where
  "octet_digits [] n digits = Some (n, [])"
| "octet_digits (c # p) n digits =
     (if decimal c
      then (let n = n * 10 + digit_of c in
            if 3 < digits + 1 then None else octet_digits p n (digits + 1))
      else Some (n, c # p))"

text \<open>One round of the outer loop, for octet \<open>i\<close> at \<open>p\<close>.\<close>

definition parse_octet :: "nat \<Rightarrow> string \<Rightarrow> (u8 \<times> string) option" where
  "parse_octet i p =
     (if 0 < i \<and> char_at p \<noteq> CHR ''.'' then None
      else
        (let p = (if 0 < i then tl p else p) in
         if \<not> decimal (char_at p) then None
         else if char_at p = CHR ''0'' \<and> decimal (char_at (tl p)) then None
         else
           (case octet_digits p 0 0 of
              None \<Rightarrow> None
            | Some (n, p) \<Rightarrow> if 255 < n then None else Some (of_nat n, p))))"

fun parse_octets :: "nat list \<Rightarrow> string \<Rightarrow> (u8 list \<times> string) option" where
  "parse_octets [] p = Some ([], p)"
| "parse_octets (i # is) p =
     (case parse_octet i p of
        None \<Rightarrow> None
      | Some (octet, p) \<Rightarrow> map_option (\<lambda>(octets, p). (octet # octets, p)) (parse_octets is p))"

text \<open>\<open>None\<close> is the result false, which leaves \<open>out\<close> untouched.\<close>

definition udp_ipv4_parse :: "string option \<Rightarrow> u8 list option" where
  "udp_ipv4_parse str =
     (case str of
        None \<Rightarrow> None
      | Some s \<Rightarrow>
          (case parse_octets [0, 1, 2, 3] s of
             None \<Rightarrow> None
           | Some (octets, p) \<Rightarrow> if char_at p \<noteq> CHR 0x00 then None else Some octets))"

text \<open>The length returned and the text left in the buffer, \<open>None\<close> when the buffer is not touched.\<close>

definition udp_ipv4_format :: "u8 list option \<Rightarrow> nat \<Rightarrow> nat \<times> string option" where
  "udp_ipv4_format addr sz =
     (case addr of
        None \<Rightarrow> (0, None)
      | Some a \<Rightarrow>
          if sz = 0 then (0, None)
          else
            (let written = show_nat (unat (a ! 0)) @ ''.'' @ show_nat (unat (a ! 1)) @ ''.''
                   @ show_nat (unat (a ! 2)) @ ''.'' @ show_nat (unat (a ! 3)) in
             if sz \<le> length written then (0, Some []) else (length written, Some written)))"

definition udp_ipv4_is_broadcast :: "u8 list option \<Rightarrow> bool" where
  "udp_ipv4_is_broadcast addr =
     (case addr of None \<Rightarrow> False
      | Some a \<Rightarrow> a ! 0 = 255 \<and> a ! 1 = 255 \<and> a ! 2 = 255 \<and> a ! 3 = 255)"

definition udp_ipv4_is_multicast :: "u8 list option \<Rightarrow> bool" where
  "udp_ipv4_is_multicast addr =
     (case addr of None \<Rightarrow> False | Some a \<Rightarrow> a ! 0 AND 0xF0 = 224)"

definition udp_payload_fits :: "nat \<Rightarrow> bool" where
  "udp_payload_fits len \<longleftrightarrow> len \<le> 1472"

subsection \<open>One octet\<close>

text \<open>What follows the digits of an octet.\<close>

definition octet_end :: "string \<Rightarrow> bool" where
  "octet_end p \<longleftrightarrow> \<not> decimal (char_at p)"

lemma octet_digits_end: "octet_end p \<Longrightarrow> octet_digits p n k = Some (n, p)"
  by (cases p) (simp_all add: octet_end_def)

lemma octet_text_cases:
  assumes "n < (1000 :: nat)"
  obtains "n < 10" | "10 \<le> n" "n < 100" | "100 \<le> n"
  using assms by linarith

lemma show_nat_two: "10 \<le> n \<Longrightarrow> n < 100 \<Longrightarrow> show_nat n = [char_of (48 + n div 10), char_of (48 + n mod 10)]"
  using show_nat_snoc [of "n div 10" "n mod 10"] by (simp add: show_nat_digit)

lemma show_nat_three:
  assumes "100 \<le> n" and "n < 1000"
  shows "show_nat n = [char_of (48 + n div 100), char_of (48 + n div 10 mod 10), char_of (48 + n mod 10)]"
proof -
  have "n div 10 div 10 = n div 100" by (simp add: div_mult2_eq [symmetric])
  then show ?thesis
    using show_nat_snoc [of "n div 10" "n mod 10"] show_nat_two [of "n div 10"] assms by simp
qed

lemma first_digit_zero: "0 < (d :: nat) \<Longrightarrow> d < 10 \<Longrightarrow> char_of (48 + d) \<noteq> CHR ''0''"
  using decimal_char(2) [of d] decimal_char(2) [of 0] by (auto simp: zero_char)

text \<open>The loop reads back a printed number of up to three digits, and only such a number.\<close>

lemma octet_digits_three:
  assumes "octet_end p" and "a < 10" and "b < 10" and "c < 10"
  shows "octet_digits (char_of (48 + a) # p) 0 0 = Some (a, p)"
    and "octet_digits (char_of (48 + a) # char_of (48 + b) # p) 0 0 = Some (a * 10 + b, p)"
    and "octet_digits (char_of (48 + a) # char_of (48 + b) # char_of (48 + c) # p) 0 0 = Some ((a * 10 + b) * 10 + c, p)"
  using assms by (simp_all add: octet_digits_end)

lemma octet_digits_show:
  assumes "n < 1000" and "octet_end p"
  shows "octet_digits (show_nat n @ p) 0 0 = Some (n, p)"
  using assms(1)
proof (cases rule: octet_text_cases)
  case 1
  with octet_digits_three(1) [OF assms(2) 1] show ?thesis by (simp add: show_nat_digit)
next
  case 2
  have "n div 10 < 10" "n mod 10 < 10" "n div 10 * 10 + n mod 10 = n" using 2 by auto
  with octet_digits_three(2) [OF assms(2) this(1,2)] show ?thesis
    by (metis show_nat_two [OF 2] append_Cons append_Nil)
next
  case 3
  have whole: "(n div 100 * 10 + n div 10 mod 10) * 10 + n mod 10 = n"
  proof -
    have "n div 100 * 10 + n div 10 mod 10 = n div 10"
      using div_mult_mod_eq [of "n div 10" 10] by (simp add: div_mult2_eq [symmetric])
    then show ?thesis by (simp only: div_mult_mod_eq)
  qed
  have "n div 100 < 10" "n div 10 mod 10 < 10" "n mod 10 < 10"
    using assms(1) by (simp_all add: div_less_iff_less_mult)
  with octet_digits_three(3) [OF assms(2) this(1-3)] show ?thesis
    unfolding show_nat_three [OF 3 assms(1)] append_Cons append_Nil whole by (simp only:)
qed

lemma octet_digits_inv:
  assumes "octet_digits p 0 0 = Some (n, rest)" and "decimal (char_at p)"
    and "\<not> (char_at p = CHR ''0'' \<and> decimal (char_at (tl p)))"
  shows "p = show_nat n @ rest \<and> octet_end rest"
proof -
  obtain c1 p1 where p: "p = c1 # p1" using assms(2) by (cases p) auto
  with assms(2) obtain a :: nat where a: "a < 10" "c1 = char_of (48 + a)" by (auto elim: decimal_obtain)
  show ?thesis
  proof (cases "octet_end p1")
    case True
    with p a assms(1) octet_digits_three(1) [OF True a(1)] show ?thesis by (simp add: show_nat_digit)
  next
    case False
    then obtain c2 p2 and b :: nat where p1: "p1 = c2 # p2" "b < 10" "c2 = char_of (48 + b)"
      by (cases p1) (auto simp: octet_end_def elim: decimal_obtain)
    from False assms(3) a p have "0 < a" by (auto simp: octet_end_def zero_char intro!: gr0I)
    show ?thesis
    proof (cases "octet_end p2")
      case True
      with p a p1 assms(1) octet_digits_three(2) [OF True a(1) p1(2)] have n: "n = a * 10 + b" "rest = p2" by simp_all
      from show_nat_snoc [OF \<open>0 < a\<close> p1(2)] n p a p1 True show ?thesis by (simp add: show_nat_digit)
    next
      case False
      then obtain c3 p3 and c :: nat where p2: "p2 = c3 # p3" "c < 10" "c3 = char_of (48 + c)"
        by (cases p2) (auto simp: octet_end_def elim: decimal_obtain)
      have third: "octet_end p3"
      proof (rule ccontr)
        assume "\<not> octet_end p3"
        then obtain c4 p4 where "p3 = c4 # p4" "decimal c4" by (cases p3) (auto simp: octet_end_def)
        with assms(1) p a p1 p2 show False by simp
      qed
      with p a p1 p2 assms(1) octet_digits_three(3) [OF third a(1) p1(2) p2(2)]
      have n: "n = (a * 10 + b) * 10 + c" "rest = p3" by simp_all
      have "show_nat n = show_nat (a * 10 + b) @ [c3]"
        using show_nat_snoc [of "a * 10 + b" c] \<open>0 < a\<close> p2 n by simp
      moreover have "show_nat (a * 10 + b) = [c1, c2]"
        using show_nat_snoc [OF \<open>0 < a\<close> p1(2)] a p1 by (simp add: show_nat_digit)
      ultimately show ?thesis using p p1 p2 n third by simp
    qed
  qed
qed

text \<open>One round of the outer loop reads exactly what the printer writes for an octet, after its dot.\<close>

definition octet_text :: "nat \<Rightarrow> u8 \<Rightarrow> string" where
  "octet_text i octet = (if 0 < i then ''.'' else []) @ show_nat (unat octet)"

lemma show_nat_head:
  assumes "n < 1000" and "octet_end p"
  shows "decimal (char_at (show_nat n @ p))"
    and "\<not> (char_at (show_nat n @ p) = CHR ''0'' \<and> decimal (char_at (tl (show_nat n @ p))))"
proof -
  obtain c s where cs: "show_nat n = c # s" by (metis show_nat_nonempty neq_Nil_conv)
  then show "decimal (char_at (show_nat n @ p))" using set_show_nat [of c n] by simp
  show "\<not> (char_at (show_nat n @ p) = CHR ''0'' \<and> decimal (char_at (tl (show_nat n @ p))))"
    using assms(1)
  proof (cases rule: octet_text_cases)
    case 1
    with assms(2) show ?thesis by (simp add: show_nat_digit octet_end_def)
  next
    case 2
    then have "0 < n div 10" "n div 10 < 10" by auto
    from first_digit_zero [OF this] show ?thesis by (simp add: show_nat_two [OF 2])
  next
    case 3
    then have "0 < n div 100" "n div 100 < 10" using assms(1) by auto
    from first_digit_zero [OF this] show ?thesis by (simp add: show_nat_three [OF 3 assms(1)])
  qed
qed

lemma parse_octet_text:
  assumes "octet_end rest"
  shows "parse_octet i (octet_text i octet @ rest) = Some (octet, rest)"
proof -
  have n: "unat octet < 1000" using unat_u8_lt [of octet] by simp
  have le: "\<not> 255 < unat octet" using unat_u8_lt [of octet] by simp
  show ?thesis
    using octet_digits_show [OF n assms] show_nat_head [OF n assms] le
    by (auto simp: parse_octet_def octet_text_def Let_def)
qed

lemma parse_octet_inv:
  assumes "parse_octet i p = Some (octet, rest)"
  shows "p = octet_text i octet @ rest \<and> octet_end rest"
proof -
  define q where "q = (if 0 < i then tl p else p)"
  have p: "p = (if 0 < i then ''.'' else []) @ q"
    using assms by (cases p) (auto simp: parse_octet_def q_def split: if_splits)
  obtain n where n: "octet_digits q 0 0 = Some (n, rest)" "n \<le> 255" "octet = of_nat n"
      "decimal (char_at q)" "\<not> (char_at q = CHR ''0'' \<and> decimal (char_at (tl q)))"
    using assms by (auto simp: parse_octet_def q_def [symmetric] Let_def split: if_splits option.splits)
  then have "unat octet = n" by (simp add: unat_of_nat_lt)
  with octet_digits_inv [OF n(1,4,5)] p show ?thesis by (simp add: octet_text_def)
qed

lemma octet_text_end: "0 < i \<Longrightarrow> octet_end (octet_text i octet @ rest)"
  by (simp add: octet_text_def octet_end_def)

lemma octet_end_Nil: "octet_end []"
  by (simp add: octet_end_def)

text \<open>The quad the printer writes, which always fits the buffer it is meant for.\<close>

definition quad :: "u8 list \<Rightarrow> string" where
  "quad a = octet_text 0 (a ! 0) @ octet_text 1 (a ! 1) @ octet_text 2 (a ! 2) @ octet_text 3 (a ! 3)"

lemma udp_format_quad: "udp_ipv4_format (Some a) 16 = (length (quad a), Some (quad a))"
proof -
  have len: "length (octet_text i (x :: u8)) \<le> (if 0 < i then 4 else 3)" for i x
    using length_show_nat [of "unat x" 3] unat_u8_lt [of x] by (simp add: octet_text_def)
  have "length (quad a) < 16"
    using len [of 0 "a ! 0"] len [of 1 "a ! 1"] len [of 2 "a ! 2"] len [of 3 "a ! 3"] by (simp add: quad_def)
  moreover have "show_nat (unat (a ! 0)) @ ''.'' @ show_nat (unat (a ! 1)) @ ''.'' @ show_nat (unat (a ! 2)) @ ''.''
      @ show_nat (unat (a ! 3)) = quad a"
    by (simp add: quad_def octet_text_def)
  ultimately show ?thesis by (simp only: udp_ipv4_format_def Let_def option.case) simp
qed

text \<open>C28: the parser accepts exactly the dotted quads the printer writes, and gives the address that
  was printed: no octal or hexadecimal reading, no missing octets, nothing before or after.
\<close>

theorem udp_ipv4_exact:
  assumes "CHR 0x00 \<notin> set str"
  shows "udp_ipv4_parse (Some str) = Some a \<longleftrightarrow>
    length a = 4 \<and> udp_ipv4_format (Some a) 16 = (length str, Some str)"
proof
  assume "udp_ipv4_parse (Some str) = Some a"
  then obtain p where p: "parse_octets [0, 1, 2, 3] str = Some (a, p)" "char_at p = CHR 0x00"
    by (auto simp: udp_ipv4_parse_def split: option.splits if_splits)
  from p(1) obtain o0 p0 o1 p1 o2 p2 o3 where
    steps: "parse_octet 0 str = Some (o0, p0)" "parse_octet 1 p0 = Some (o1, p1)" "parse_octet 2 p1 = Some (o2, p2)"
      "parse_octet 3 p2 = Some (o3, p)" "a = [o0, o1, o2, o3]"
    by (auto split: option.splits)
  have str: "str = quad a @ p"
    using parse_octet_inv [OF steps(1)] parse_octet_inv [OF steps(2)] parse_octet_inv [OF steps(3)]
      parse_octet_inv [OF steps(4)]
    by (simp add: quad_def steps(5))
  have "p = []" using p(2) assms str by (cases p) auto
  with str show "length a = 4 \<and> udp_ipv4_format (Some a) 16 = (length str, Some str)"
    using steps(5) by (simp add: udp_format_quad)
next
  assume r: "length a = 4 \<and> udp_ipv4_format (Some a) 16 = (length str, Some str)"
  then have str: "str = quad a" by (simp add: udp_format_quad)
  from r obtain o0 o1 o2 o3 where a: "a = [o0, o1, o2, o3]" by (auto elim: length_4_cases)
  have "parse_octet 0 str = Some (o0, octet_text 1 o1 @ octet_text 2 o2 @ octet_text 3 o3)"
    unfolding str quad_def a by (simp add: parse_octet_text octet_text_end)
  moreover have "parse_octet 1 (octet_text 1 o1 @ octet_text 2 o2 @ octet_text 3 o3) = Some (o1, octet_text 2 o2 @ octet_text 3 o3)"
    by (rule parse_octet_text) (simp add: octet_text_end)
  moreover have "parse_octet 2 (octet_text 2 o2 @ octet_text 3 o3) = Some (o2, octet_text 3 o3)"
    using octet_text_end [of 3 o3 "[]"] by (intro parse_octet_text) simp
  moreover have "parse_octet 3 (octet_text 3 o3) = Some (o3, [])"
    using parse_octet_text [OF octet_end_Nil] by simp
  ultimately show "udp_ipv4_parse (Some str) = Some a" by (simp add: udp_ipv4_parse_def a)
qed

theorem udp_ipv4_exact_witness:
  "udp_ipv4_parse (Some ''192.168.1.10'') = Some [192, 168, 1, 10]
   \<and> udp_ipv4_parse (Some ''192.168.1.010'') \<noteq> Some [192, 168, 1, 10]"
proof -
  have format: "udp_ipv4_format (Some [192, 168, 1, 10]) 16 = (12, Some ''192.168.1.10'')"
    by (simp add: udp_ipv4_format_def show_nat.simps Let_def) code_simp
  show ?thesis
    using udp_ipv4_exact [of "''192.168.1.10''" "[192, 168, 1, 10]"] udp_ipv4_exact [of "''192.168.1.010''" "[192, 168, 1, 10]"]
    by (simp add: format)
qed

end
