(* ===== verification/I2c.thy ===== *)
theory I2c
  imports Prelude
begin

text \<open>
  Devices on an I2C bus, \<open>i2c_device/i2c_bytes.c\<close> and \<open>i2c_device/i2c_device.c\<close>: the byte order of
  register values, sign extension, and every transfer. The two transfer functions of the Pico SDK
  are a parameter that acts on the state \<open>'w\<close> of the bus; their result is the byte count or a
  negative error, as documented. The lemmas show that values survive either byte order and that
  a register holds what was written to it, over any device that obeys the register protocol.
\<close>

subsection \<open>Register values\<close>

datatype i2c_endianness_t = I2C_ENDIAN_BIG | I2C_ENDIAN_LITTLE

definition width_is_supported :: "u8 \<Rightarrow> bool" where
  "width_is_supported width \<longleftrightarrow> 1 \<le> width \<and> width \<le> 4"

definition decode_step :: "u8 list \<Rightarrow> nat \<Rightarrow> i2c_endianness_t \<Rightarrow> nat \<Rightarrow> u32 \<Rightarrow> u32" where
  "decode_step data width endianness i v =
     (let byte = (if endianness = I2C_ENDIAN_BIG then data ! i else data ! (width - 1 - i))
      in push_bit 8 v OR ucast byte)"

definition i2c_decode_value :: "u8 list \<Rightarrow> u8 \<Rightarrow> i2c_endianness_t \<Rightarrow> u32" where
  "i2c_decode_value data width endianness =
     (if \<not> width_is_supported width then 0
      else fold (decode_step data (unat width) endianness) [0..<unat width] 0)"

definition encode_step :: "u32 \<Rightarrow> nat \<Rightarrow> i2c_endianness_t \<Rightarrow> nat \<Rightarrow> u8 list \<Rightarrow> u8 list" where
  "encode_step v width endianness i out =
     (let byte = ucast (drop_bit (8 * (width - 1 - i)) v)
      in if endianness = I2C_ENDIAN_BIG then out[i := byte] else out[width - 1 - i := byte])"

definition i2c_encode_value :: "u8 list \<Rightarrow> u32 \<Rightarrow> u8 \<Rightarrow> i2c_endianness_t \<Rightarrow> u8 list" where
  "i2c_encode_value out v width endianness =
     (if \<not> width_is_supported width then out
      else fold (encode_step v (unat width) endianness) [0..<unat width] out)"

text \<open>The result is a signed 32-bit value: the subtraction wraps as the target's does.\<close>

definition i2c_sign_extend :: "u32 \<Rightarrow> u8 \<Rightarrow> 32 word" where
  "i2c_sign_extend v bits =
     (if bits = 0 \<or> 32 \<le> bits then v
      else
        (let mask = push_bit (unat bits) 1 - 1;
             sign = push_bit (unat bits - 1) 1;
             magnitude = v AND mask
         in if magnitude AND sign \<noteq> 0 then magnitude - (mask + 1) else magnitude))"

subsection \<open>Transfers\<close>

abbreviation (input) "I2C_DEVICE_MAX_WRITE \<equiv> (32 :: nat)"
abbreviation (input) "I2C_DEVICE_DEFAULT_TIMEOUT_US \<equiv> (10000 :: u32)"
abbreviation (input) "I2C_ADDRESS_MIN \<equiv> (0x08 :: u8)"
abbreviation (input) "I2C_ADDRESS_MAX \<equiv> (0x77 :: u8)"

text \<open>
  The SDK: \<open>i2c_write_timeout_us\<close> and \<open>i2c_read_timeout_us\<close> with the address, the data or its
  length, \<open>nostop\<close> and the timeout, and the values of its two error codes.
\<close>

record 'w i2c_sdk =
  i2c_write_timeout_us :: "u8 \<Rightarrow> u8 list \<Rightarrow> bool \<Rightarrow> u32 \<Rightarrow> 'w \<Rightarrow> int \<times> 'w"
  i2c_read_timeout_us :: "u8 \<Rightarrow> nat \<Rightarrow> bool \<Rightarrow> u32 \<Rightarrow> 'w \<Rightarrow> int \<times> u8 list \<times> 'w"
  pico_error_timeout :: int
  pico_error_generic :: int

datatype i2c_device_result_t = I2C_DEVICE_OK | I2C_DEVICE_ERR_INVALID_ARG | I2C_DEVICE_ERR_TOO_LONG
  | I2C_DEVICE_ERR_NO_DEVICE | I2C_DEVICE_ERR_TIMEOUT | I2C_DEVICE_ERR_SHORT

record i2c_device_t =
  dev_address :: u8
  dev_endianness :: i2c_endianness_t
  dev_timeout_us :: u32
  dev_initialised :: bool

definition timeout_of :: "i2c_device_t \<Rightarrow> u32" where
  "timeout_of device = (if dev_timeout_us device \<noteq> 0 then dev_timeout_us device else I2C_DEVICE_DEFAULT_TIMEOUT_US)"

definition translate :: "'w i2c_sdk \<Rightarrow> int \<Rightarrow> nat \<Rightarrow> i2c_device_result_t" where
  "translate sdk transferred expected =
     (if transferred = pico_error_timeout sdk then I2C_DEVICE_ERR_TIMEOUT
      else if transferred = pico_error_generic sdk then I2C_DEVICE_ERR_NO_DEVICE
      else if transferred < 0 then I2C_DEVICE_ERR_NO_DEVICE
      else if nat transferred \<noteq> expected then I2C_DEVICE_ERR_SHORT
      else I2C_DEVICE_OK)"

text \<open>The bus instance is part of the SDK parameter; \<open>has_bus\<close> tells that it is not missing.\<close>

definition i2c_device_init :: "bool \<Rightarrow> u8 \<Rightarrow> i2c_endianness_t \<Rightarrow> u32 \<Rightarrow> i2c_device_result_t \<times> i2c_device_t option" where
  "i2c_device_init has_bus address endianness timeout_us =
     (if \<not> has_bus then (I2C_DEVICE_ERR_INVALID_ARG, None)
      else if address < I2C_ADDRESS_MIN \<or> I2C_ADDRESS_MAX < address then (I2C_DEVICE_ERR_INVALID_ARG, None)
      else (I2C_DEVICE_OK, Some \<lparr>dev_address = address, dev_endianness = endianness,
              dev_timeout_us = timeout_us, dev_initialised = True\<rparr>))"

text \<open>A block of data with a length: a missing pointer is only allowed with the length 0.\<close>

definition i2c_device_write :: "'w i2c_sdk \<Rightarrow> i2c_device_t \<Rightarrow> u8 list option \<Rightarrow> nat \<Rightarrow> 'w \<Rightarrow> i2c_device_result_t \<times> 'w" where
  "i2c_device_write sdk device data len w =
     (if \<not> dev_initialised device \<or> (data = None \<and> 0 < len) then (I2C_DEVICE_ERR_INVALID_ARG, w)
      else if len = 0 then (I2C_DEVICE_OK, w)
      else
        (case i2c_write_timeout_us sdk (dev_address device) (take len (the data)) False (timeout_of device) w of
           (moved, w) \<Rightarrow> (translate sdk moved len, w)))"

text \<open>A read gives the bytes put into the caller's buffer; \<open>has_rx\<close> tells that it is not missing.\<close>

definition i2c_device_read :: "'w i2c_sdk \<Rightarrow> i2c_device_t \<Rightarrow> bool \<Rightarrow> nat \<Rightarrow> 'w \<Rightarrow> i2c_device_result_t \<times> u8 list \<times> 'w" where
  "i2c_device_read sdk device has_rx len w =
     (if \<not> dev_initialised device \<or> (\<not> has_rx \<and> 0 < len) then (I2C_DEVICE_ERR_INVALID_ARG, [], w)
      else if len = 0 then (I2C_DEVICE_OK, [], w)
      else
        (case i2c_read_timeout_us sdk (dev_address device) len False (timeout_of device) w of
           (moved, bytes, w) \<Rightarrow> (translate sdk moved len, bytes, w)))"

definition i2c_device_write_read :: "'w i2c_sdk \<Rightarrow> i2c_device_t \<Rightarrow> u8 list option \<Rightarrow> nat \<Rightarrow> bool \<Rightarrow> nat \<Rightarrow> 'w
    \<Rightarrow> i2c_device_result_t \<times> u8 list \<times> 'w" where
  "i2c_device_write_read sdk device tx tx_len has_rx rx_len w =
     (if \<not> dev_initialised device \<or> tx = None \<or> tx_len = 0 then (I2C_DEVICE_ERR_INVALID_ARG, [], w)
      else if \<not> has_rx \<and> 0 < rx_len then (I2C_DEVICE_ERR_INVALID_ARG, [], w)
      else
        (let read_follows = (0 < rx_len) in
         case i2c_write_timeout_us sdk (dev_address device) (take tx_len (the tx)) read_follows (timeout_of device) w of
           (written, w) \<Rightarrow>
             (let write_result = translate sdk written tx_len in
              if write_result \<noteq> I2C_DEVICE_OK then (write_result, [], w)
              else if \<not> read_follows then (I2C_DEVICE_OK, [], w)
              else
                (case i2c_read_timeout_us sdk (dev_address device) rx_len False (timeout_of device) w of
                   (moved, bytes, w) \<Rightarrow> (translate sdk moved rx_len, bytes, w)))))"

definition i2c_device_present :: "'w i2c_sdk \<Rightarrow> i2c_device_t \<Rightarrow> 'w \<Rightarrow> bool \<times> 'w" where
  "i2c_device_present sdk device w =
     (if \<not> dev_initialised device then (False, w)
      else
        (case i2c_read_timeout_us sdk (dev_address device) 1 False (timeout_of device) w of
           (moved, discard, w) \<Rightarrow> (0 \<le> moved, w)))"

subsection \<open>Registers\<close>

definition i2c_device_read_bytes :: "'w i2c_sdk \<Rightarrow> i2c_device_t \<Rightarrow> u8 \<Rightarrow> bool \<Rightarrow> nat \<Rightarrow> 'w
    \<Rightarrow> i2c_device_result_t \<times> u8 list \<times> 'w" where
  "i2c_device_read_bytes sdk device reg has_rx len w =
     i2c_device_write_read sdk device (Some [reg]) 1 has_rx len w"

definition i2c_device_write_bytes :: "'w i2c_sdk \<Rightarrow> i2c_device_t \<Rightarrow> u8 \<Rightarrow> u8 list option \<Rightarrow> nat \<Rightarrow> 'w
    \<Rightarrow> i2c_device_result_t \<times> 'w" where
  "i2c_device_write_bytes sdk device reg data len w =
     (if data = None \<and> 0 < len then (I2C_DEVICE_ERR_INVALID_ARG, w)
      else if I2C_DEVICE_MAX_WRITE < len + 1 then (I2C_DEVICE_ERR_TOO_LONG, w)
      else
        (let buffer = [reg] @ (if 0 < len then take len (the data) else [])
         in i2c_device_write sdk device (Some buffer) (len + 1) w))"

text \<open>\<open>None\<close> in the result is a value that was not written; \<open>has_out\<close> tells that the out-parameter is not missing.\<close>

definition i2c_device_read_value :: "'w i2c_sdk \<Rightarrow> i2c_device_t \<Rightarrow> u8 \<Rightarrow> u8 \<Rightarrow> bool \<Rightarrow> 'w
    \<Rightarrow> i2c_device_result_t \<times> u32 option \<times> 'w" where
  "i2c_device_read_value sdk device reg width has_out w =
     (if \<not> has_out \<or> width < 1 \<or> 4 < width then (I2C_DEVICE_ERR_INVALID_ARG, None, w)
      else
        (case i2c_device_read_bytes sdk device reg True (unat width) w of
           (result, raw, w) \<Rightarrow>
             if result \<noteq> I2C_DEVICE_OK then (result, None, w)
             else (I2C_DEVICE_OK, Some (i2c_decode_value raw width (dev_endianness device)), w)))"

definition i2c_device_write_value :: "'w i2c_sdk \<Rightarrow> i2c_device_t \<Rightarrow> u8 \<Rightarrow> u8 \<Rightarrow> u32 \<Rightarrow> 'w \<Rightarrow> i2c_device_result_t \<times> 'w" where
  "i2c_device_write_value sdk device reg width v w =
     (if width < 1 \<or> 4 < width then (I2C_DEVICE_ERR_INVALID_ARG, w)
      else
        (let raw = i2c_encode_value (replicate 4 0) v width (dev_endianness device)
         in i2c_device_write_bytes sdk device reg (Some raw) (unat width) w))"

definition i2c_device_read_bytes16 :: "'w i2c_sdk \<Rightarrow> i2c_device_t \<Rightarrow> u16 \<Rightarrow> bool \<Rightarrow> nat \<Rightarrow> 'w
    \<Rightarrow> i2c_device_result_t \<times> u8 list \<times> 'w" where
  "i2c_device_read_bytes16 sdk device reg has_rx len w =
     i2c_device_write_read sdk device (Some [ucast (drop_bit 8 reg), ucast reg]) 2 has_rx len w"

definition i2c_device_write_bytes16 :: "'w i2c_sdk \<Rightarrow> i2c_device_t \<Rightarrow> u16 \<Rightarrow> u8 list option \<Rightarrow> nat \<Rightarrow> 'w
    \<Rightarrow> i2c_device_result_t \<times> 'w" where
  "i2c_device_write_bytes16 sdk device reg data len w =
     (if data = None \<and> 0 < len then (I2C_DEVICE_ERR_INVALID_ARG, w)
      else if I2C_DEVICE_MAX_WRITE < len + 2 then (I2C_DEVICE_ERR_TOO_LONG, w)
      else
        (let buffer = [ucast (drop_bit 8 reg), ucast reg] @ (if 0 < len then take len (the data) else [])
         in i2c_device_write sdk device (Some buffer) (len + 2) w))"

definition i2c_device_read_value16 :: "'w i2c_sdk \<Rightarrow> i2c_device_t \<Rightarrow> u16 \<Rightarrow> u8 \<Rightarrow> bool \<Rightarrow> 'w
    \<Rightarrow> i2c_device_result_t \<times> u32 option \<times> 'w" where
  "i2c_device_read_value16 sdk device reg width has_out w =
     (if \<not> has_out \<or> width < 1 \<or> 4 < width then (I2C_DEVICE_ERR_INVALID_ARG, None, w)
      else
        (case i2c_device_read_bytes16 sdk device reg True (unat width) w of
           (result, raw, w) \<Rightarrow>
             if result \<noteq> I2C_DEVICE_OK then (result, None, w)
             else (I2C_DEVICE_OK, Some (i2c_decode_value raw width (dev_endianness device)), w)))"

subsection \<open>Discovery\<close>

text \<open>The loop over the addresses, with those found so far.\<close>

fun scan_from :: "'w i2c_sdk \<Rightarrow> u32 \<Rightarrow> nat \<Rightarrow> u8 list \<Rightarrow> u8 list \<Rightarrow> 'w \<Rightarrow> u8 list \<times> 'w" where
  "scan_from sdk timeout_us capacity [] found w = (found, w)"
| "scan_from sdk timeout_us capacity (address # rest) found w =
     (if capacity \<le> length found then (found, w)
      else
        (case i2c_read_timeout_us sdk address 1 False
                (if timeout_us \<noteq> 0 then timeout_us else I2C_DEVICE_DEFAULT_TIMEOUT_US) w of
           (moved, discard, w) \<Rightarrow>
             scan_from sdk timeout_us capacity rest (if 0 \<le> moved then found @ [address] else found) w))"

definition scan_addresses :: "u8 list" where
  "scan_addresses = map of_nat [8..<0x78]"

definition i2c_bus_scan :: "'w i2c_sdk \<Rightarrow> bool \<Rightarrow> bool \<Rightarrow> nat \<Rightarrow> u32 \<Rightarrow> 'w \<Rightarrow> u8 list \<times> 'w" where
  "i2c_bus_scan sdk has_bus has_addresses capacity timeout_us w =
     (if \<not> has_bus \<or> \<not> has_addresses \<or> capacity = 0 then ([], w)
      else scan_from sdk timeout_us capacity scan_addresses [] w)"

fun i2c_device_result_name :: "i2c_device_result_t \<Rightarrow> string" where
  "i2c_device_result_name I2C_DEVICE_OK = ''ok''"
| "i2c_device_result_name I2C_DEVICE_ERR_INVALID_ARG = ''invalid argument''"
| "i2c_device_result_name I2C_DEVICE_ERR_TOO_LONG = ''write longer than the buffer''"
| "i2c_device_result_name I2C_DEVICE_ERR_NO_DEVICE = ''no device acknowledged''"
| "i2c_device_result_name I2C_DEVICE_ERR_TIMEOUT = ''bus timeout''"
| "i2c_device_result_name I2C_DEVICE_ERR_SHORT = ''fewer bytes than asked for''"

subsection \<open>Byte order\<close>

lemma supported_width_cases:
  assumes "width_is_supported width"
  obtains "width = 1" "unat width = 1" | "width = 2" "unat width = 2" | "width = 3" "unat width = 3" | "width = 4" "unat width = 4"
proof -
  have "1 \<le> unat width" "unat width \<le> 4"
    using assms by (simp_all add: width_is_supported_def word_le_nat_alt)
  then consider "unat width = 1" | "unat width = 2" | "unat width = 3" | "unat width = 4" by linarith
  then show ?thesis using that by cases (simp_all add: word_eq_unat_iff)
qed

lemma upt_small: "[0..<1] = [0 :: nat]" "[0..<2] = [0 :: nat, 1]" "[0..<3] = [0 :: nat, 1, 2]" "[0..<4] = [0 :: nat, 1, 2, 3]"
  by (simp_all add: upt_rec)

lemma supported_widths: "width_is_supported 1" "width_is_supported 2" "width_is_supported 3" "width_is_supported 4"
  by (simp_all add: width_is_supported_def word_le_nat_alt)

lemma list_update_four:
  "[a, b, c, d][0 := x] = [x, b, c, d]" "[a, b, c, d][1 := x] = [a, x, c, d]"
  "[a, b, c, d][2 := x] = [a, b, x, d]" "[a, b, c, d][3 := x] = [a, b, c, x]"
  by (simp_all add: numeral_2_eq_2 numeral_3_eq_3)

lemma take_four:
  "take 1 [a, b, c, d] = [a]" "take 2 [a, b, c, d] = [a, b]" "take 3 [a, b, c, d] = [a, b, c]" "take 4 [a, b, c, d] = [a, b, c, d]"
  by (simp_all add: numeral_2_eq_2 numeral_3_eq_3)

text \<open>The bytes of a value, in the order they go over the bus.\<close>

definition ordered_bytes :: "nat \<Rightarrow> i2c_endianness_t \<Rightarrow> u32 \<Rightarrow> u8 list" where
  "ordered_bytes n e v = (let bytes = map (\<lambda>i. ucast (drop_bit (8 * i) v)) [0..<n]
     in if e = I2C_ENDIAN_BIG then rev bytes else bytes)"

lemma encode_bytes:
  assumes "length out = 4" and "width_is_supported width"
  shows "take (unat width) (i2c_encode_value out v width e) = ordered_bytes (unat width) e v"
proof -
  obtain a b c d where out: "out = [a, b, c, d]" using assms(1) by (rule length_4_cases)
  from assms(2) show ?thesis
    by (cases rule: supported_width_cases)
      (simp_all only: i2c_encode_value_def encode_step_def upt_small supported_widths ordered_bytes_def out Let_def,
       simp_all add: encode_step_def list_update_four list_update_four(2) [unfolded One_nat_def] take_four
         take_four(1) [unfolded One_nat_def])
qed

lemma assembled:
  fixes v :: u32
  defines "byte i \<equiv> ucast (ucast (drop_bit (8 * i) v) :: u8)"
  shows "push_bit 8 0 OR byte 0 = take_bit 8 v"
    and "push_bit 8 (push_bit 8 0 OR byte 1) OR byte 0 = take_bit 16 v"
    and "push_bit 8 (push_bit 8 (push_bit 8 0 OR byte 2) OR byte 1) OR byte 0 = take_bit 24 v"
    and "push_bit 8 (push_bit 8 (push_bit 8 (push_bit 8 0 OR byte 3) OR byte 2) OR byte 1) OR byte 0 = take_bit 32 v"
proof (rule_tac [!] bit_word_eqI)
  fix n assume "n < LENGTH(32)"
  then consider "n < 8" | "8 \<le> n" "n < 16" | "16 \<le> n" "n < 24" | "24 \<le> n" "n < 32" by fastforce
  note quarter = this
  show "bit (push_bit 8 0 OR byte 0) n = bit (take_bit 8 v) n"
    by (cases rule: quarter) (auto simp: byte_def bit_simps)
  show "bit (push_bit 8 (push_bit 8 0 OR byte 1) OR byte 0) n = bit (take_bit 16 v) n"
    by (cases rule: quarter) (auto simp: byte_def bit_simps)
  show "bit (push_bit 8 (push_bit 8 (push_bit 8 0 OR byte 2) OR byte 1) OR byte 0) n = bit (take_bit 24 v) n"
    by (cases rule: quarter) (auto simp: byte_def bit_simps)
  show "bit (push_bit 8 (push_bit 8 (push_bit 8 (push_bit 8 0 OR byte 3) OR byte 2) OR byte 1) OR byte 0) n = bit (take_bit 32 v) n"
    by (cases rule: quarter) (auto simp: byte_def bit_simps)
qed

lemma decode_ordered_bytes:
  assumes "width_is_supported width"
  shows "i2c_decode_value (ordered_bytes (unat width) e v) width e = take_bit (8 * unat width) v"
  using assms
proof (cases rule: supported_width_cases)
  case 1
  with assembled(1) [of v] show ?thesis unfolding ordered_bytes_def i2c_decode_value_def Let_def 1(2) upt_small
    by (cases e) (simp_all add: supported_widths decode_step_def)
next
  case 2
  with assembled(2) [of v] show ?thesis unfolding ordered_bytes_def i2c_decode_value_def Let_def 2(2) upt_small
    by (cases e) (simp_all add: supported_widths decode_step_def)
next
  case 3
  with assembled(3) [of v] show ?thesis unfolding ordered_bytes_def i2c_decode_value_def Let_def 3(2) upt_small
    by (cases e) (simp_all add: supported_widths decode_step_def)
next
  case 4
  with assembled(4) [of v] show ?thesis unfolding ordered_bytes_def i2c_decode_value_def Let_def 4(2) upt_small
    by (cases e) (simp_all add: supported_widths decode_step_def)
qed

text \<open>Sign extension is the signed reading of the low bits.\<close>

lemma sign_extend_eq:
  assumes "0 < unat bits" and "unat bits < 32"
  shows "i2c_sign_extend v bits = signed_take_bit (unat bits - 1) v"
proof -
  let ?n = "unat bits"
  obtain k where k: "?n = Suc k" using assms(1) by (cases ?n) auto
  have guard: "\<not> (bits = 0 \<or> 32 \<le> bits)" using assms by (auto simp: word_le_nat_alt)
  have mask: "push_bit ?n 1 - 1 = (mask ?n :: u32)" by (simp add: mask_eq_exp_minus_1)
  have sign: "take_bit ?n v AND push_bit (?n - 1) 1 \<noteq> 0 \<longleftrightarrow> bit v k"
  proof -
    have "take_bit ?n v AND push_bit (?n - 1) 1 = of_bool (bit v k) * 2 ^ k"
      by (rule bit_word_eqI) (use assms(2) k in \<open>auto simp: bit_simps\<close>)
    moreover have "(2 :: u32) ^ k \<noteq> 0" using assms(2) k by simp
    ultimately show ?thesis by simp
  qed
  have neg: "take_bit ?n v - 2 ^ ?n = take_bit ?n v OR NOT (mask ?n)"
  proof -
    have "- (2 ^ ?n) = (NOT (mask ?n) :: u32)" by (simp add: mask_eq_exp_minus_1 not_eq_complement)
    then have "take_bit ?n v - 2 ^ ?n = take_bit ?n v + NOT (mask ?n)" by (metis diff_conv_add_uminus)
    also have "\<dots> = take_bit ?n v OR NOT (mask ?n)"
      by (rule disjunctive_add) (auto simp: bit_simps)
    finally show ?thesis .
  qed
  have mask_1: "mask ?n + 1 = (2 ^ ?n :: u32)" by (simp add: mask_eq_exp_minus_1)
  have "i2c_sign_extend v bits = (if bit v k then take_bit ?n v OR NOT (mask ?n) else take_bit ?n v)"
    unfolding i2c_sign_extend_def Let_def if_not_P [OF guard] mask mask_1 take_bit_eq_mask [symmetric] sign neg
    by (rule refl)
  also have "\<dots> = signed_take_bit k v"
    by (rule bit_word_eqI) (auto simp: bit_simps k bit_signed_take_bit_iff less_Suc_eq min_def)
  finally show ?thesis by (simp add: k)
qed

text \<open>
  For 31 significant bits the code subtracts \<open>INT_MIN\<close> from a positive magnitude: the difference
  does not fit a 32-bit \<open>int\<close>, an overflow that C leaves undefined.
\<close>

lemma sign_extend_overflows:
  assumes "bits = (31 :: u8)" and "v = (0x40000000 :: u32)"
  shows "sint (v AND (push_bit (unat bits) 1 - 1)) - sint (push_bit (unat bits) 1 :: u32) = 3221225472"
    and "(2147483647 :: int) < 3221225472"
  using assms by simp_all

subsection \<open>A device with registers\<close>

text \<open>
  The documented behaviour of a register device on the bus: a write of a register's address and
  data stores the data from that register on, and a write of an address with no stop followed by
  a read gives the registers from there on. \<open>alen\<close> is the length of its addresses, \<open>index\<close> the
  register an address names, and \<open>regs\<close> the registers.
\<close>

definition register_device :: "'w i2c_sdk \<Rightarrow> i2c_device_t \<Rightarrow> nat \<Rightarrow> (u8 list \<Rightarrow> nat) \<Rightarrow> ('w \<Rightarrow> nat \<Rightarrow> u8) \<Rightarrow> bool" where
  "register_device sdk device alen index regs \<longleftrightarrow>
     pico_error_timeout sdk < 0 \<and> pico_error_generic sdk < 0
   \<and> (\<forall>a data w. length a = alen \<longrightarrow> data \<noteq> [] \<longrightarrow> alen + length data \<le> 32 \<longrightarrow>
        (\<exists>w'. i2c_write_timeout_us sdk (dev_address device) (a @ data) False (timeout_of device) w
              = (int (alen + length data), w')
            \<and> regs w' = (\<lambda>k. if index a \<le> k \<and> k < index a + length data then data ! (k - index a) else regs w k)))
   \<and> (\<forall>a n w. length a = alen \<longrightarrow> 0 < n \<longrightarrow>
        (\<exists>w' w''. i2c_write_timeout_us sdk (dev_address device) a True (timeout_of device) w = (int alen, w')
            \<and> i2c_read_timeout_us sdk (dev_address device) n False (timeout_of device) w'
              = (int n, map (regs w) [index a..<index a + n], w'')
            \<and> regs w'' = regs w))"

lemma device_stores:
  assumes "register_device sdk device alen index regs" and "dev_initialised device"
    and "length a = alen" and "data \<noteq> []" and "alen + length data \<le> 32"
  shows "\<exists>w'. i2c_device_write sdk device (Some (a @ data)) (length data + alen) w = (I2C_DEVICE_OK, w')
    \<and> regs w' = (\<lambda>k. if index a \<le> k \<and> k < index a + length data then data ! (k - index a) else regs w k)"
proof -
  obtain w' where w': "i2c_write_timeout_us sdk (dev_address device) (a @ data) False (timeout_of device) w
              = (int (alen + length data), w')"
      "regs w' = (\<lambda>k. if index a \<le> k \<and> k < index a + length data then data ! (k - index a) else regs w k)"
    and errors: "pico_error_timeout sdk < 0" "pico_error_generic sdk < 0"
    using assms unfolding register_device_def by blast
  have "translate sdk (int (alen + length data)) (length data + alen) = I2C_DEVICE_OK"
    using errors by (auto simp: translate_def)
  with w' assms show ?thesis by (simp add: i2c_device_write_def)
qed

lemma device_fetches:
  assumes "register_device sdk device alen index regs" and "dev_initialised device"
    and "length a = alen" and "0 < alen" and "0 < n"
  shows "\<exists>w'. i2c_device_write_read sdk device (Some a) alen True n w
      = (I2C_DEVICE_OK, map (regs w) [index a..<index a + n], w') \<and> regs w' = regs w"
proof -
  obtain w' w'' where w': "i2c_write_timeout_us sdk (dev_address device) a True (timeout_of device) w = (int alen, w')"
      "i2c_read_timeout_us sdk (dev_address device) n False (timeout_of device) w'
        = (int n, map (regs w) [index a..<index a + n], w'')" "regs w'' = regs w"
    and errors: "pico_error_timeout sdk < 0" "pico_error_generic sdk < 0"
    using assms(1,3,5) unfolding register_device_def by blast
  have "translate sdk (int k) k = I2C_DEVICE_OK" for k using errors by (auto simp: translate_def)
  with w' assms show ?thesis by (simp add: i2c_device_write_read_def)
qed

lemma read_back:
  "map (\<lambda>k. if a \<le> k \<and> k < a + length data then data ! (k - a) else f k) [a..<a + length data] = data"
  by (rule nth_equalityI) simp_all

lemma width_range: "width_is_supported width \<Longrightarrow> \<not> (width < 1 \<or> 4 < width)"
  by (auto simp: width_is_supported_def)

lemma length_ordered_bytes [simp]: "length (ordered_bytes n e v) = n"
  by (simp add: ordered_bytes_def Let_def)

text \<open>What is written to a register is read back, with either byte order and every width, on a
  device that obeys the register protocol; all other registers keep their contents.
\<close>

theorem i2c_register_roundtrip:
  assumes "register_device sdk device 1 (\<lambda>a. unat (a ! 0)) regs" and "dev_initialised device"
    and "width_is_supported width"
  shows "\<exists>w' w''. i2c_device_write_value sdk device reg width v w = (I2C_DEVICE_OK, w')
    \<and> i2c_device_read_value sdk device reg width True w' = (I2C_DEVICE_OK, Some (take_bit (8 * unat width) v), w'')
    \<and> (\<forall>k. k < unat reg \<or> unat reg + unat width \<le> k \<longrightarrow> regs w'' k = regs w k)"
proof -
  let ?n = "unat width" and ?e = "dev_endianness device" and ?a = "unat reg"
  let ?data = "ordered_bytes ?n ?e v"
  have n: "0 < ?n" "?n \<le> 4" using assms(3) by (auto elim: supported_width_cases)
  then have some: "?data \<noteq> []" by (metis length_ordered_bytes length_greater_0_conv)
  obtain w' where w': "i2c_device_write sdk device (Some ([reg] @ ?data)) (?n + 1) w = (I2C_DEVICE_OK, w')"
      "regs w' = (\<lambda>k. if ?a \<le> k \<and> k < ?a + ?n then ?data ! (k - ?a) else regs w k)"
    using device_stores [OF assms(1,2) _ some, of "[reg]" w] n unfolding nth_Cons_0 by auto
  have "i2c_device_write_value sdk device reg width v w = (I2C_DEVICE_OK, w')"
    using width_range [OF assms(3)] n w'(1) encode_bytes [OF _ assms(3), of "replicate 4 0" v ?e]
    by (simp add: i2c_device_write_value_def i2c_device_write_bytes_def Let_def)
  moreover obtain w'' where w'': "i2c_device_write_read sdk device (Some [reg]) 1 True ?n w'
      = (I2C_DEVICE_OK, map (regs w') [?a..<?a + ?n], w'')" "regs w'' = regs w'"
    using device_fetches [OF assms(1,2), of "[reg]" ?n w'] n by auto
  moreover have "map (regs w') [?a..<?a + ?n] = ?data"
    using read_back [of ?a ?data "regs w"] by (simp add: w'(2))
  ultimately show ?thesis
    using width_range [OF assms(3)] decode_ordered_bytes [OF assms(3), of ?e v] w'(2)
    by (auto simp: i2c_device_read_value_def i2c_device_read_bytes_def)
qed

text \<open>The same for a device with 16-bit register addresses, whose high byte goes first.\<close>

lemma i2c_register16_roundtrip:
  assumes "register_device sdk device 2 (\<lambda>a. unat (a ! 0) * 256 + unat (a ! 1)) regs" and "dev_initialised device"
    and "width_is_supported width" and "length data = unat width"
    and "data = ordered_bytes (unat width) (dev_endianness device) v"
  shows "\<exists>w' w''. i2c_device_write_bytes16 sdk device reg (Some data) (unat width) w = (I2C_DEVICE_OK, w')
    \<and> i2c_device_read_value16 sdk device reg width True w' = (I2C_DEVICE_OK, Some (take_bit (8 * unat width) v), w'')"
proof -
  let ?n = "unat width" and ?addr = "[ucast (drop_bit 8 reg), ucast reg] :: u8 list"
  let ?a = "unat (?addr ! 0) * 256 + unat (?addr ! 1)"
  have n: "0 < ?n" "?n \<le> 4" using assms(3) by (auto elim: supported_width_cases)
  then have some: "data \<noteq> []" using assms(4) by auto
  obtain w' where w': "i2c_device_write sdk device (Some (?addr @ data)) (?n + 2) w = (I2C_DEVICE_OK, w')"
      "regs w' = (\<lambda>k. if ?a \<le> k \<and> k < ?a + ?n then data ! (k - ?a) else regs w k)"
    using device_stores [OF assms(1,2) _ some, of ?addr w] n by (auto simp: assms(4))
  have "i2c_device_write_bytes16 sdk device reg (Some data) ?n w = (I2C_DEVICE_OK, w')"
    using n w'(1) assms(4) by (simp add: i2c_device_write_bytes16_def Let_def)
  moreover obtain w'' where w'': "i2c_device_write_read sdk device (Some ?addr) 2 True ?n w'
      = (I2C_DEVICE_OK, map (regs w') [?a..<?a + ?n], w'')"
    using device_fetches [OF assms(1,2), of ?addr ?n w'] n by auto
  moreover have "map (regs w') [?a..<?a + ?n] = data"
    using read_back [of ?a data "regs w"] assms(4) by (simp add: w'(2))
  ultimately show ?thesis
    using width_range [OF assms(3)] decode_ordered_bytes [OF assms(3), of "dev_endianness device" v]
    by (auto simp: i2c_device_read_value16_def i2c_device_read_bytes16_def assms(5))
qed

subsection \<open>The bus scan\<close>

lemma scan_from_spec:
  assumes "\<And>a w. 0 \<le> fst (i2c_read_timeout_us sdk a 1 False
      (if timeout_us \<noteq> 0 then timeout_us else I2C_DEVICE_DEFAULT_TIMEOUT_US) w) \<longleftrightarrow> answers a"
    and "length found \<le> capacity"
  shows "fst (scan_from sdk timeout_us capacity addrs found w)
    = take capacity (found @ filter answers addrs)"
  using assms(2)
proof (induction addrs arbitrary: found w)
  case Nil
  then show ?case by simp
next
  case (Cons a addrs)
  let ?t = "if timeout_us \<noteq> 0 then timeout_us else I2C_DEVICE_DEFAULT_TIMEOUT_US"
  obtain moved discard w' where read: "i2c_read_timeout_us sdk a 1 False ?t w = (moved, discard, w')" by (metis prod_cases3)
  then have "0 \<le> moved \<longleftrightarrow> answers a" using assms(1) [of a w] by simp
  with Cons read show ?case by (auto simp: take_Cons')
qed

lemma in_scan_addresses: "a \<in> set scan_addresses \<longleftrightarrow> I2C_ADDRESS_MIN \<le> a \<and> a \<le> I2C_ADDRESS_MAX"
proof
  assume "a \<in> set scan_addresses"
  then obtain n where n: "a = of_nat n" "n \<in> {8..<0x78}"
    unfolding scan_addresses_def set_map set_upt by blast
  then have "unat a = n" using unat_of_nat_lt [of n, where ?'a = 8] by simp
  with n show "I2C_ADDRESS_MIN \<le> a \<and> a \<le> I2C_ADDRESS_MAX" by (simp add: word_le_nat_alt)
next
  assume "I2C_ADDRESS_MIN \<le> a \<and> a \<le> I2C_ADDRESS_MAX"
  then have "unat a \<in> {8..<0x78}" by (auto simp: word_le_nat_alt)
  then show "a \<in> set scan_addresses" unfolding scan_addresses_def
    by (metis list.set_map set_upt image_eqI word_unat_eq_iff of_nat_unat ucast_id)
qed

text \<open>A scan finds exactly the devices that answer. With room for them all it lists every legal
  address that acknowledges, once and in order, and no reserved address; with less room it lists
  the first ones.
\<close>

theorem i2c_scan_finds_all:
  assumes "\<And>a w. 0 \<le> fst (i2c_read_timeout_us sdk a 1 False
      (if timeout_us \<noteq> 0 then timeout_us else I2C_DEVICE_DEFAULT_TIMEOUT_US) w) \<longleftrightarrow> answers a"
    and "0 < capacity"
  shows "fst (i2c_bus_scan sdk True True capacity timeout_us w) = take capacity (filter answers scan_addresses)
    \<and> (112 \<le> capacity \<longrightarrow>
        set (fst (i2c_bus_scan sdk True True capacity timeout_us w))
          = {a. answers a \<and> I2C_ADDRESS_MIN \<le> a \<and> a \<le> I2C_ADDRESS_MAX})"
proof -
  have scan: "fst (i2c_bus_scan sdk True True capacity timeout_us w) = take capacity (filter answers scan_addresses)"
    using scan_from_spec [OF assms(1), of "[]" capacity scan_addresses w] assms(2) by (simp add: i2c_bus_scan_def)
  moreover have "length (filter answers scan_addresses) \<le> 112"
    by (rule order.trans [OF length_filter_le]) (simp add: scan_addresses_def)
  ultimately show ?thesis by (auto simp: in_scan_addresses)
qed

subsection \<open>Witnesses\<close>

text \<open>A device at address 0x29 with a register pointer, and nothing else on the bus.\<close>

definition sim_i2c :: "(nat \<times> (nat \<Rightarrow> u8)) i2c_sdk" where
  "sim_i2c = \<lparr>
     i2c_write_timeout_us = (\<lambda>addr data nostop t (p, regs).
       if addr \<noteq> 0x29 then (-2, (p, regs))
       else (int (length data), (unat (hd data),
         \<lambda>k. if unat (hd data) \<le> k \<and> k < unat (hd data) + length (tl data) then tl data ! (k - unat (hd data)) else regs k))),
     i2c_read_timeout_us = (\<lambda>addr n nostop t (p, regs).
       if addr \<noteq> 0x29 then (-2, [], (p, regs)) else (int n, map regs [p..<p + n], (p + n, regs))),
     pico_error_timeout = -1, pico_error_generic = -2\<rparr>"

definition sim_i2c_device :: "i2c_endianness_t \<Rightarrow> i2c_device_t" where
  "sim_i2c_device e = \<lparr>dev_address = 0x29, dev_endianness = e, dev_timeout_us = 0, dev_initialised = True\<rparr>"

lemma sim_i2c_registers: "register_device sim_i2c (sim_i2c_device e) 1 (\<lambda>a. unat (a ! 0)) snd"
proof -
  have one: "\<exists>x. a = [x]" if "length a = 1" for a :: "u8 list"
    using that by (cases a) simp_all
  have store: "i2c_write_timeout_us sim_i2c (dev_address (sim_i2c_device e)) ([x] @ data) False t (p, regs)
      = (int (1 + length data), (unat x, \<lambda>k. if unat x \<le> k \<and> k < unat x + length data then data ! (k - unat x) else regs k))"
    and select: "i2c_write_timeout_us sim_i2c (dev_address (sim_i2c_device e)) [x] True t (p, regs) = (1, (unat x, regs))"
    and fetch: "i2c_read_timeout_us sim_i2c (dev_address (sim_i2c_device e)) n False t (p, regs)
      = (int n, map regs [p..<p + n], (p + n, regs))" for x data t n p regs
    by (auto simp: sim_i2c_def sim_i2c_device_def intro!: ext)
  show ?thesis
    unfolding register_device_def
  proof (intro conjI allI impI)
    fix a data :: "u8 list" and w :: "nat \<times> (nat \<Rightarrow> u8)"
    assume "length a = 1"
    then obtain x where a: "a = [x]" using one by blast
    obtain p regs where w: "w = (p, regs)" by (cases w)
    show "\<exists>w'. i2c_write_timeout_us sim_i2c (dev_address (sim_i2c_device e)) (a @ data) False (timeout_of (sim_i2c_device e)) w
          = (int (1 + length data), w') \<and> snd w' = (\<lambda>k. if unat (a ! 0) \<le> k \<and> k < unat (a ! 0) + length data
            then data ! (k - unat (a ! 0)) else snd w k)"
      unfolding a w store nth_Cons_0 by auto
  next
    fix a :: "u8 list" and n and w :: "nat \<times> (nat \<Rightarrow> u8)"
    assume "length a = 1"
    then obtain x where a: "a = [x]" using one by blast
    obtain p regs where w: "w = (p, regs)" by (cases w)
    show "\<exists>w' w''. i2c_write_timeout_us sim_i2c (dev_address (sim_i2c_device e)) a True (timeout_of (sim_i2c_device e)) w = (int 1, w')
        \<and> i2c_read_timeout_us sim_i2c (dev_address (sim_i2c_device e)) n False (timeout_of (sim_i2c_device e)) w'
          = (int n, map (snd w) [unat (a ! 0)..<unat (a ! 0) + n], w'') \<and> snd w'' = snd w"
      unfolding a w select by (simp add: fetch)
  qed (simp_all add: sim_i2c_def)
qed

theorem i2c_register_roundtrip_witness:
  "\<exists>w' w''. i2c_device_write_value sim_i2c (sim_i2c_device I2C_ENDIAN_LITTLE) 0x10 2 0xABCD1234 (0, \<lambda>k. 0) = (I2C_DEVICE_OK, w')
    \<and> i2c_device_read_value sim_i2c (sim_i2c_device I2C_ENDIAN_LITTLE) 0x10 2 True w' = (I2C_DEVICE_OK, Some 0x1234, w'')"
proof -
  have ready: "dev_initialised (sim_i2c_device I2C_ENDIAN_LITTLE)" by (simp add: sim_i2c_device_def)
  show ?thesis
    using i2c_register_roundtrip [OF sim_i2c_registers ready supported_widths(2), where reg = "0x10" and v = "0xABCD1234"
        and w = "(0, \<lambda>k. 0)"]
    by auto
qed

theorem i2c_scan_finds_all_witness:
  "fst (i2c_bus_scan sim_i2c True True 200 0 (0, \<lambda>k. 0)) = filter (\<lambda>a. a = 0x29) scan_addresses"
proof -
  have answers: "0 \<le> fst (i2c_read_timeout_us sim_i2c a 1 False t w) \<longleftrightarrow> a = 0x29" for a t w
    by (cases w) (simp add: sim_i2c_def)
  have "fst (i2c_bus_scan sim_i2c True True 200 0 (0, \<lambda>k. 0)) = take 200 (filter (\<lambda>a. a = 0x29) scan_addresses)"
    using i2c_scan_finds_all [OF answers, where capacity = 200] by simp
  moreover have "length (filter (\<lambda>a. a = 0x29) scan_addresses) \<le> 112"
    by (rule order.trans [OF length_filter_le]) (simp add: scan_addresses_def)
  ultimately show ?thesis by simp
qed

end
