(* ===== verification/Ws2812_Color.thy ===== *)
theory Ws2812_Color
  imports C_Text "HOL-Library.Signed_Division"
begin

text \<open>
  Colours for addressable strips, \<open>ws2812/ws2812_color.c\<close> and its header: channel orders and the
  word on the wire, scaling, interpolation, the two colour wheels, the gamma table and ordered
  dithering. Intermediate values are as wide as C's promotions make them, so they are naturals
  or integers here; every narrowing back to a channel is written out.
\<close>

record ws2812_color_t =
  color_r :: u8
  color_g :: u8
  color_b :: u8
  color_w :: u8

definition ws2812_rgb :: "u8 \<Rightarrow> u8 \<Rightarrow> u8 \<Rightarrow> ws2812_color_t" where
  "ws2812_rgb r g b = \<lparr>color_r = r, color_g = g, color_b = b, color_w = 0\<rparr>"

definition ws2812_rgbw :: "u8 \<Rightarrow> u8 \<Rightarrow> u8 \<Rightarrow> u8 \<Rightarrow> ws2812_color_t" where
  "ws2812_rgbw r g b w = \<lparr>color_r = r, color_g = g, color_b = b, color_w = w\<rparr>"

subsection \<open>Channel orders\<close>

datatype ws2812_order_t = WS2812_ORDER_GRB | WS2812_ORDER_RGB | WS2812_ORDER_BRG
  | WS2812_ORDER_RBG | WS2812_ORDER_GBR | WS2812_ORDER_BGR

fun ws2812_order_name :: "ws2812_order_t \<Rightarrow> string" where
  "ws2812_order_name WS2812_ORDER_GRB = ''GRB''"
| "ws2812_order_name WS2812_ORDER_RGB = ''RGB''"
| "ws2812_order_name WS2812_ORDER_BRG = ''BRG''"
| "ws2812_order_name WS2812_ORDER_RBG = ''RBG''"
| "ws2812_order_name WS2812_ORDER_GBR = ''GBR''"
| "ws2812_order_name WS2812_ORDER_BGR = ''BGR''"

definition upper :: "char \<Rightarrow> char" where
  "upper c = (if CHR ''a'' \<le> c \<and> c \<le> CHR ''z'' then char_of (of_char c - 32 :: nat) else c)"

text \<open>The loop at line 31: how many of the first three characters agree.\<close>

fun same_letters :: "string \<Rightarrow> string \<Rightarrow> nat" where
  "same_letters (c # cs) (n # ns) = (if c \<noteq> CHR 0x00 \<and> upper c = n then Suc (same_letters cs ns) else 0)"
| "same_letters _ _ = 0"

fun order_from :: "string \<Rightarrow> ws2812_order_t list \<Rightarrow> ws2812_order_t option" where
  "order_from name [] = None"
| "order_from name (order # rest) =
     (if same_letters name (ws2812_order_name order) = 3 \<and> char_at (drop 3 name) = CHR 0x00 then Some order
      else order_from name rest)"

text \<open>\<open>None\<close> is the result false, which leaves \<open>out\<close> as it was.\<close>

definition ws2812_order_from_name :: "string option \<Rightarrow> ws2812_order_t option" where
  "ws2812_order_from_name name =
     (case name of
        None \<Rightarrow> None
      | Some s \<Rightarrow> order_from s [WS2812_ORDER_GRB, WS2812_ORDER_RGB, WS2812_ORDER_BRG,
                             WS2812_ORDER_RBG, WS2812_ORDER_GBR, WS2812_ORDER_BGR])"

definition ws2812_color_to_wire :: "ws2812_color_t \<Rightarrow> bool \<Rightarrow> ws2812_order_t \<Rightarrow> u32" where
  "ws2812_color_to_wire c is_rgbw order =
     (let (first, second, third) =
            (case order of
               WS2812_ORDER_RGB \<Rightarrow> (color_r c, color_g c, color_b c)
             | WS2812_ORDER_BRG \<Rightarrow> (color_b c, color_r c, color_g c)
             | WS2812_ORDER_RBG \<Rightarrow> (color_r c, color_b c, color_g c)
             | WS2812_ORDER_GBR \<Rightarrow> (color_g c, color_b c, color_r c)
             | WS2812_ORDER_BGR \<Rightarrow> (color_b c, color_g c, color_r c)
             | WS2812_ORDER_GRB \<Rightarrow> (color_g c, color_r c, color_b c));
          word = push_bit 24 (ucast first) OR push_bit 16 (ucast second) OR push_bit 8 (ucast third)
      in if is_rgbw then word OR ucast (color_w c) else word)"

subsection \<open>Scaling and interpolation\<close>

definition scale_channel :: "u8 \<Rightarrow> u8 \<Rightarrow> u8" where
  "scale_channel v numerator = of_nat ((unat v * unat numerator + 127) div 255)"

definition ws2812_color_scale :: "ws2812_color_t \<Rightarrow> u8 \<Rightarrow> ws2812_color_t" where
  "ws2812_color_scale c brightness =
     \<lparr>color_r = scale_channel (color_r c) brightness, color_g = scale_channel (color_g c) brightness,
      color_b = scale_channel (color_b c) brightness, color_w = scale_channel (color_w c) brightness\<rparr>"

definition lerp_channel :: "u8 \<Rightarrow> u8 \<Rightarrow> u8 \<Rightarrow> u8" where
  "lerp_channel from_v to_v t =
     (let delta = uint to_v - uint from_v
      in of_int (uint from_v + (delta * uint t + (if 0 \<le> delta then 127 else -127)) sdiv 255))"

definition ws2812_color_lerp :: "ws2812_color_t \<Rightarrow> ws2812_color_t \<Rightarrow> u8 \<Rightarrow> ws2812_color_t" where
  "ws2812_color_lerp c d t =
     \<lparr>color_r = lerp_channel (color_r c) (color_r d) t, color_g = lerp_channel (color_g c) (color_g d) t,
      color_b = lerp_channel (color_b c) (color_b d) t, color_w = lerp_channel (color_w c) (color_w d) t\<rparr>"

subsection \<open>Colour wheels\<close>

definition ws2812_color_from_hsv :: "u8 \<Rightarrow> u8 \<Rightarrow> u8 \<Rightarrow> ws2812_color_t" where
  "ws2812_color_from_hsv h s v =
     (if s = 0 then ws2812_rgb v v v
      else
        (let sector = unat h div 43;
             offset = unat (of_nat ((unat h - sector * 43) * 6) :: u8);
             p = of_nat (unat v * (255 - unat s) div 255);
             q = of_nat (unat v * (255 - unat s * offset div 255) div 255);
             t = of_nat (unat v * (255 - unat s * (255 - offset) div 255) div 255)
         in if sector = 0 then ws2812_rgb v t p
            else if sector = 1 then ws2812_rgb q v p
            else if sector = 2 then ws2812_rgb p v t
            else if sector = 3 then ws2812_rgb p q v
            else if sector = 4 then ws2812_rgb t p v
            else ws2812_rgb v p q))"

abbreviation (input) "WS2812_HUE16_RANGE \<equiv> (1536 :: nat)"

definition ws2812_color_from_hue16 :: "u16 \<Rightarrow> ws2812_color_t" where
  "ws2812_color_from_hue16 hue =
     (let wrapped = unat hue mod WS2812_HUE16_RANGE;
          segment = wrapped div 256;
          position = of_nat (wrapped mod 256);
          inverse = 255 - position
      in if segment = 0 then ws2812_rgb 255 position 0
         else if segment = 1 then ws2812_rgb inverse 255 0
         else if segment = 2 then ws2812_rgb 0 255 position
         else if segment = 3 then ws2812_rgb 0 inverse 255
         else if segment = 4 then ws2812_rgb position 0 255
         else ws2812_rgb 255 0 inverse)"

subsection \<open>Gamma\<close>

definition ws2812_gamma_table :: "nat list" where
  "ws2812_gamma_table =
    [0, 0, 0, 0, 0, 0, 0, 0, 0, 0, 0, 0,
     0, 0, 0, 1, 1, 1, 1, 1, 1, 1, 1, 1,
     1, 2, 2, 2, 2, 2, 2, 2, 3, 3, 3, 3,
     3, 4, 4, 4, 4, 5, 5, 5, 5, 6, 6, 6,
     6, 7, 7, 7, 8, 8, 8, 9, 9, 9, 10, 10,
     11, 11, 11, 12, 12, 13, 13, 13, 14, 14, 15, 15,
     16, 16, 17, 17, 18, 18, 19, 19, 20, 20, 21, 22,
     22, 23, 23, 24, 25, 25, 26, 26, 27, 28, 28, 29,
     30, 30, 31, 32, 33, 33, 34, 35, 35, 36, 37, 38,
     39, 39, 40, 41, 42, 43, 43, 44, 45, 46, 47, 48,
     49, 49, 50, 51, 52, 53, 54, 55, 56, 57, 58, 59,
     60, 61, 62, 63, 64, 65, 66, 67, 68, 69, 70, 71,
     73, 74, 75, 76, 77, 78, 79, 81, 82, 83, 84, 85,
     87, 88, 89, 90, 91, 93, 94, 95, 97, 98, 99, 100,
     102, 103, 105, 106, 107, 109, 110, 111, 113, 114, 116, 117,
     119, 120, 121, 123, 124, 126, 127, 129, 130, 132, 133, 135,
     137, 138, 140, 141, 143, 145, 146, 148, 149, 151, 153, 154,
     156, 158, 159, 161, 163, 165, 166, 168, 170, 172, 173, 175,
     177, 179, 181, 182, 184, 186, 188, 190, 192, 194, 196, 197,
     199, 201, 203, 205, 207, 209, 211, 213, 215, 217, 219, 221,
     223, 225, 227, 229, 231, 234, 236, 238, 240, 242, 244, 246,
     248, 251, 253, 255]"

definition ws2812_gamma8 :: "u8 \<Rightarrow> u8" where
  "ws2812_gamma8 v = of_nat (ws2812_gamma_table ! unat v)"

definition ws2812_color_gamma :: "ws2812_color_t \<Rightarrow> ws2812_color_t" where
  "ws2812_color_gamma c =
     \<lparr>color_r = ws2812_gamma8 (color_r c), color_g = ws2812_gamma8 (color_g c),
      color_b = ws2812_gamma8 (color_b c), color_w = ws2812_gamma8 (color_w c)\<rparr>"

subsection \<open>Dithering\<close>

definition ws2812_dither_bias :: "u16 \<Rightarrow> u16 \<Rightarrow> u32 \<Rightarrow> nat" where
  "ws2812_dither_bias x y frame =
     (let index = unat ((x AND 1) OR push_bit 1 (y AND 1));
          bias = [0, 2, 3, 1] ! index
      in if frame AND 1 \<noteq> 0 then 4 - 1 - bias else bias)"

definition scale_channel_biased :: "u8 \<Rightarrow> u8 \<Rightarrow> nat \<Rightarrow> u8" where
  "scale_channel_biased v numerator offset = of_nat ((unat v * unat numerator + offset) div 255)"

definition ws2812_color_scale_dither :: "ws2812_color_t \<Rightarrow> u8 \<Rightarrow> nat \<Rightarrow> ws2812_color_t" where
  "ws2812_color_scale_dither c brightness bias =
     (let offset = 32 + 64 * (bias mod 4) in
      \<lparr>color_r = scale_channel_biased (color_r c) brightness offset,
       color_g = scale_channel_biased (color_g c) brightness offset,
       color_b = scale_channel_biased (color_b c) brightness offset,
       color_w = scale_channel_biased (color_w c) brightness offset\<rparr>)"

subsection \<open>The wire\<close>

text \<open>The three bytes a strip of each order shifts out, first to last.\<close>

lemma order_name_roundtrip: "ws2812_order_from_name (Some (ws2812_order_name order)) = Some order"
  by (cases order) (simp_all add: ws2812_order_from_name_def upper_def less_eq_char_def numeral_3_eq_3)

lemma bit_u8: "bit (b :: u8) n \<Longrightarrow> n < 8"
  using bit_imp_le_length [of b n] by simp

lemma wire_bytes:
  fixes a b c d :: u8
  defines "word \<equiv> push_bit 24 (ucast a) OR push_bit 16 (ucast b) OR push_bit 8 (ucast c) OR ucast d :: u32"
  shows "ucast (drop_bit 24 word) = a" "ucast (drop_bit 16 word) = b" "ucast (drop_bit 8 word) = c" "ucast word = d"
  unfolding word_def by (rule bit_word_eqI; auto simp: bit_simps dest: bit_u8)+

text \<open>Which channel each position carries.\<close>

definition channel :: "char \<Rightarrow> ws2812_color_t \<Rightarrow> u8" where
  "channel k c = (if k = CHR ''R'' then color_r c else if k = CHR ''G'' then color_g c else color_b c)"

text \<open>The word on the wire carries the channels in the order the name of the order says, first
  character first, and white last; so no two colours share a word.
\<close>

theorem wire_word_spells_order:
  "map (\<lambda>k. ucast (drop_bit (24 - 8 * k) (ws2812_color_to_wire c is_rgbw order))) [0, 1, 2, 3]
    = map (\<lambda>k. channel k c) (ws2812_order_name order) @ [if is_rgbw then color_w c else 0]
   \<and> (ws2812_color_to_wire c True order = ws2812_color_to_wire d True order \<longleftrightarrow> c = d)"
proof -
  have bytes: "map (\<lambda>k. ucast (drop_bit (24 - 8 * k) (ws2812_color_to_wire c is_rgbw order))) [0, 1, 2, 3]
    = map (\<lambda>k. channel k c) (ws2812_order_name order) @ [if is_rgbw then color_w c else 0]" for c is_rgbw
    using wire_bytes [where d = 0] wire_bytes [where d = "color_w c"]
    by (cases order; cases is_rgbw) (simp_all add: ws2812_color_to_wire_def channel_def or.assoc)
  have "c = d" if "ws2812_color_to_wire c True order = ws2812_color_to_wire d True order"
  proof -
    have "map (\<lambda>k. channel k c) (ws2812_order_name order) @ [color_w c]
        = map (\<lambda>k. channel k d) (ws2812_order_name order) @ [color_w d]"
      using bytes [of c True] bytes [of d True] that by simp
    then show ?thesis
      by (cases order; cases c; cases d) (simp_all add: channel_def)
  qed
  with bytes show ?thesis by blast
qed

subsection \<open>Rounding\<close>

lemma scaled_range: "(unat (v :: u8) * unat (b :: u8) + c) div 255 < 256" if "c < 255"
proof -
  have "unat v * unat b \<le> 255 * 255" using unat_u8_lt [of v] unat_u8_lt [of b] by (intro mult_le_mono) simp_all
  then have "unat v * unat b + c < 256 * 255" using that by simp
  then show ?thesis by (simp add: div_less_iff_less_mult)
qed

lemma unat_scaled: "c < 255 \<Longrightarrow> unat (of_nat ((unat (v :: u8) * unat (b :: u8) + c) div 255) :: u8) = (unat v * unat b + c) div 255"
  by (rule unat_of_nat_lt) (simp add: scaled_range)

lemma unat_scale_channel: "unat (scale_channel v b) = (unat v * unat b + 127) div 255"
  unfolding scale_channel_def by (rule unat_scaled) simp

lemma unat_biased: "k < 4 \<Longrightarrow> unat (scale_channel_biased v b (32 + 64 * k)) = (unat v * unat b + (32 + 64 * k)) div 255"
  unfolding scale_channel_biased_def by (rule unat_scaled) simp

text \<open>Brightness scaling rounds to the nearest step, leaves a colour alone at full brightness,
  and never brightens a channel; equal steps of input keep their order.
\<close>

theorem scale_is_nearest:
  "abs (255 * int (unat (scale_channel v b)) - int (unat v * unat b)) \<le> 127
   \<and> scale_channel v 255 = v \<and> scale_channel v b \<le> v \<and> scale_channel v 0 = 0
   \<and> (v \<le> w \<longrightarrow> scale_channel v b \<le> scale_channel w b)"
proof -
  have near: "abs (255 * int ((n + 127) div 255) - int n) \<le> 127" for n
  proof -
    define q r where "q = (n + 127) div 255" and "r = (n + 127) mod 255"
    have "255 * q + r = n + 127" "r < 255" by (simp_all add: q_def r_def)
    then show ?thesis unfolding q_def [symmetric] by linarith
  qed
  have full: "(n * 255 + 127) div 255 = n" for n :: nat by simp
  have "unat v * unat b \<le> unat v * 255" using unat_u8_lt [of b] by simp
  then have "(unat v * unat b + 127) div 255 \<le> (unat v * 255 + 127) div 255" by (intro div_le_mono) simp
  then have less: "(unat v * unat b + 127) div 255 \<le> unat v" by (simp only: full)
  have mono: "(unat v * unat b + 127) div 255 \<le> (unat w * unat b + 127) div 255" if "v \<le> w"
    using that by (intro div_le_mono add_right_mono mult_le_mono1) (simp add: word_le_nat_alt)
  have "unat (scale_channel v 255) = unat v" using full [of "unat v"] by (simp add: unat_scale_channel)
  moreover have "unat (scale_channel v 0) = 0" by (simp add: unat_scale_channel)
  ultimately show ?thesis
    using near [of "unat v * unat b"] less mono
    by (simp add: unat_scale_channel word_le_nat_alt word_unat_eq_iff)
qed

text \<open>Dithering adds grain, not colour. In every frame the four pixels of any two-by-two block
  get the four thresholds, a pixel gets complementary ones in consecutive frames, and over the
  four thresholds a channel comes out at the undithered value within half a step on average.
\<close>

theorem dither_averages_out:
  "{ws2812_dither_bias x y frame, ws2812_dither_bias (x + 1) y frame,
      ws2812_dither_bias x (y + 1) frame, ws2812_dither_bias (x + 1) (y + 1) frame} = {0, 1, 2, 3}
   \<and> ws2812_dither_bias x y frame + ws2812_dither_bias x y (frame + 1) = 3
   \<and> abs ((\<Sum>k<4. int (unat (scale_channel_biased v b (32 + 64 * k)))) - 4 * int (unat (scale_channel v b))) \<le> 2"
proof -
  have odd: "w AND 1 = of_bool (odd w)" for w :: "'b::len word"
    by (simp add: and_one_eq mod_2_eq_odd)
  have matrix: "[0, 2, 3, 1] ! 2 = (3 :: nat)" "[0, 2, 3, 1] ! 3 = (1 :: nat)"
    by (simp_all add: numeral_2_eq_2 numeral_3_eq_3)
  have bias: "ws2812_dither_bias x y frame =
      (let k = (if odd y then (if odd x then 1 else 3) else (if odd x then 2 else 0)) in if odd frame then 3 - k else k)"
    for x y frame
    by (cases "odd x"; cases "odd y"; cases "odd frame") (simp_all add: ws2812_dither_bias_def odd Let_def matrix)
  have next_odd: "odd (w + 1) \<longleftrightarrow> \<not> odd w" for w :: "'b::len word" by simp
  have block: "{ws2812_dither_bias x y frame, ws2812_dither_bias (x + 1) y frame,
      ws2812_dither_bias x (y + 1) frame, ws2812_dither_bias (x + 1) (y + 1) frame} = {0, 1, 2, 3}"
    unfolding bias next_odd by (cases "odd x"; cases "odd y"; cases "odd frame") auto
  have pair: "ws2812_dither_bias x y frame + ws2812_dither_bias x y (frame + 1) = 3"
    unfolding bias next_odd by (cases "odd x"; cases "odd y"; cases "odd frame") simp_all
  have sum: "(\<Sum>k<4. int (unat (scale_channel_biased v b (32 + 64 * k))))
      = int ((n + 32) div 255) + int ((n + 96) div 255) + int ((n + 160) div 255) + int ((n + 224) div 255)"
    if "n = unat v * unat b" for n
  proof -
    have "(\<Sum>k<4. int (unat (scale_channel_biased v b (32 + 64 * k)))) = (\<Sum>k<4. int ((n + (32 + 64 * k)) div 255))"
      by (rule sum.cong) (simp_all only: unat_biased that lessThan_iff)
    moreover have "{..<4} = {0, 1, 2, 3 :: nat}" by auto
    ultimately show ?thesis by simp
  qed
  have "abs (int ((n + 32) div 255) + int ((n + 96) div 255) + int ((n + 160) div 255) + int ((n + 224) div 255)
      - 4 * int ((n + 127) div 255)) \<le> 2" for n :: nat
  proof -
    define q r where "q = n div 255" and "r = n mod 255"
    have r: "r < 255" and n: "n = 255 * q + r" by (simp_all add: q_def r_def)
    have "(n + c) div 255 = q + (if 255 \<le> r + c then 1 else 0)" if "c < 255" for c
    proof -
      have "(n + c) div 255 = q + (r + c) div 255" by (simp add: n add.assoc)
      moreover have "(r + c) div 255 = (if 255 \<le> r + c then 1 else 0)"
        using r that by (auto intro!: div_nat_eqI)
      ultimately show ?thesis by simp
    qed
    then show ?thesis by simp
  qed
  from this [of "unat v * unat b"] show ?thesis
    unfolding sum [OF refl] unat_scale_channel using block pair by blast
qed

subsection \<open>Interpolation\<close>

text \<open>C division rounds towards zero.\<close>

lemma sdiv_255: "(a :: int) sdiv 255 = (if 0 \<le> a then a div 255 else - (- a div 255))"
  by (simp add: signed_divide_int_def sgn_if)

text \<open>The step of an interpolation: the nearest whole step, the same downwards as upwards.\<close>

definition nearest :: "int \<Rightarrow> int" where
  "nearest n = (n + 127) div 255"

lemma nearest_bounds: "0 \<le> n \<Longrightarrow> 0 \<le> nearest n" "abs (255 * nearest n - n) \<le> 127"
proof -
  define q r where "q = (n + 127) div 255" and "r = (n + 127) mod 255"
  have "255 * q + r = n + 127" "0 \<le> r" "r < 255" by (simp_all add: q_def r_def)
  then show "abs (255 * nearest n - n) \<le> 127" unfolding nearest_def q_def [symmetric] by linarith
  show "0 \<le> n \<Longrightarrow> 0 \<le> nearest n" by (simp add: nearest_def pos_imp_zdiv_nonneg_iff)
qed

lemma nearest_le: "n \<le> 255 * m \<Longrightarrow> nearest n \<le> m"
  using nearest_bounds(2) [of n] by linarith

definition lerp_step :: "int \<Rightarrow> int \<Rightarrow> int \<Rightarrow> int" where
  "lerp_step a b t = (if a \<le> b then nearest ((b - a) * t) else - nearest ((a - b) * t))"

lemma lerp_step_eq:
  assumes "0 \<le> t"
  shows "((b - a) * t + (if 0 \<le> b - a then 127 else -127)) sdiv 255 = lerp_step a b t"
proof (cases "a \<le> b")
  case True
  then have "0 \<le> (b - a) * t" using assms by simp
  with True show ?thesis by (simp add: lerp_step_def nearest_def sdiv_255)
next
  case False
  define n where "n = (a - b) * t"
  have nonneg: "0 \<le> n" using False assms by (simp add: n_def)
  have neg: "(b - a) * t + (if 0 \<le> b - a then 127 else -127) = - (n + 127)"
    using False by (simp add: n_def algebra_simps)
  have "- (n + 127) sdiv 255 = - ((n + 127) div 255)" using nonneg by (simp add: sdiv_255)
  with False show ?thesis unfolding neg by (simp add: lerp_step_def nearest_def n_def)
qed

lemma lerp_step_range:
  assumes "0 \<le> t" and "t \<le> 255"
  shows "min a b \<le> a + lerp_step a b t \<and> a + lerp_step a b t \<le> max a b"
proof (cases "a \<le> b")
  case True
  then have "0 \<le> (b - a) * t" "(b - a) * t \<le> 255 * (b - a)"
    using assms mult_left_mono [of t 255 "b - a"] by (simp_all add: mult.commute)
  with True show ?thesis using nearest_bounds(1) [of "(b - a) * t"] nearest_le [of "(b - a) * t" "b - a"]
    by (simp add: lerp_step_def)
next
  case False
  then have "0 \<le> (a - b) * t" "(a - b) * t \<le> 255 * (a - b)"
    using assms mult_left_mono [of t 255 "a - b"] by (simp_all add: mult.commute)
  with False show ?thesis using nearest_bounds(1) [of "(a - b) * t"] nearest_le [of "(a - b) * t" "a - b"]
    by (simp add: lerp_step_def)
qed

lemma uint_u8_range: "0 \<le> uint (v :: u8)" "uint (v :: u8) \<le> 255"
  using unsigned_less [of v, where ?'a = int] by simp_all

lemma uint_u8_of_int: "0 \<le> k \<Longrightarrow> k < 256 \<Longrightarrow> uint (word_of_int k :: u8) = k"
  by (simp add: unsigned_of_int take_bit_int_eq_self)

lemma uint_lerp_channel: "uint (lerp_channel a b t) = uint a + lerp_step (uint a) (uint b) (uint t)"
proof -
  have range: "0 \<le> uint a + lerp_step (uint a) (uint b) (uint t)" "uint a + lerp_step (uint a) (uint b) (uint t) < 256"
    using lerp_step_range [OF uint_u8_range, of "uint a" "uint b" t] uint_u8_range [of a] uint_u8_range [of b] by linarith+
  have "uint (of_int (uint a + lerp_step (uint a) (uint b) (uint t)) :: u8) = uint a + lerp_step (uint a) (uint b) (uint t)"
    using range by (rule uint_u8_of_int)
  then show ?thesis by (simp only: lerp_channel_def Let_def lerp_step_eq uint_u8_range)
qed

text \<open>A fade runs from one colour to the other and stays between them: every channel is the
  nearest step to the exact value, the ends are exact, and a fade down passes through the same
  values as the fade up.
\<close>

theorem lerp_is_nearest:
  "abs (255 * (uint (lerp_channel a b t) - uint a) - (uint b - uint a) * uint t) \<le> 127
   \<and> min a b \<le> lerp_channel a b t \<and> lerp_channel a b t \<le> max a b
   \<and> lerp_channel a b 0 = a \<and> lerp_channel a b 255 = b
   \<and> uint (lerp_channel a b t) + uint (lerp_channel b a t) = uint a + uint b"
proof -
  let ?a = "uint a" and ?b = "uint b" and ?t = "uint t"
  have near: "abs (255 * lerp_step ?a ?b ?t - (?b - ?a) * ?t) \<le> 127"
  proof (cases "?a \<le> ?b")
    case True
    then show ?thesis using nearest_bounds(2) [of "(?b - ?a) * ?t"] by (simp add: lerp_step_def)
  next
    case False
    have neg: "(?b - ?a) * ?t = - ((?a - ?b) * ?t)" by (simp add: algebra_simps)
    show ?thesis using False nearest_bounds(2) [of "(?a - ?b) * ?t"] unfolding neg by (simp add: lerp_step_def)
  qed
  have whole: "nearest (m * 255) = m" for m by (simp add: nearest_def)
  have ends: "nearest 0 = 0" "nearest (m * 255 - n * 255) = m - n" for m n
    using whole [of 0] whole [of "m - n"] by (simp_all add: left_diff_distrib)
  have start: "lerp_channel a b 0 = a" and finish: "lerp_channel a b 255 = b"
    by (simp_all add: word_uint_eq_iff uint_lerp_channel lerp_step_def ends)
  have "lerp_step ?a ?b ?t = - lerp_step ?b ?a ?t" by (auto simp: lerp_step_def ends)
  moreover have "min a b \<le> lerp_channel a b t \<and> lerp_channel a b t \<le> max a b"
    using lerp_step_range [OF uint_u8_range, of ?a ?b t]
    by (auto simp: word_le_def uint_lerp_channel min_def max_def split: if_splits)
  ultimately show ?thesis using near start finish by (simp add: uint_lerp_channel)
qed

subsection \<open>Gamma\<close>

text \<open>
  The rounding \<open>round(pow(i / 255, 2.2) * 255)\<close> without real numbers: half a step to either side
  of an entry, raised to the fifth power, encloses the eleventh power of its index.
\<close>

definition gamma_exact :: "int \<Rightarrow> int \<Rightarrow> bool" where
  "gamma_exact i y \<longleftrightarrow> (2 * y - 1) ^ 5 * 255 ^ 6 \<le> 32 * i ^ 11 \<and> 32 * i ^ 11 < (2 * y + 1) ^ 5 * 255 ^ 6"

fun gamma_exact_from :: "int \<Rightarrow> nat list \<Rightarrow> bool" where
  "gamma_exact_from i [] \<longleftrightarrow> True"
| "gamma_exact_from i (y # ys) \<longleftrightarrow> gamma_exact i (int y) \<and> gamma_exact_from (i + 1) ys"

lemma gamma_exact_from_nth: "gamma_exact_from i ys \<Longrightarrow> k < length ys \<Longrightarrow> gamma_exact (i + int k) (int (ys ! k))"
proof (induction ys arbitrary: i k)
  case (Cons y ys)
  then show ?case using Cons.IH [of "i + 1" "k - 1"] by (cases k) (simp_all add: algebra_simps)
qed simp

lemma gamma_table_exact: "gamma_exact_from 0 ws2812_gamma_table"
  by (simp add: ws2812_gamma_table_def gamma_exact_def)

lemma length_gamma_table: "length ws2812_gamma_table = 256"
  by (simp add: ws2812_gamma_table_def)

text \<open>The gamma table is the correctly rounded curve of exponent 2.2: every entry is within half
  a step of the exact value. It never decreases, and it keeps both ends of the range.
\<close>

theorem gamma_table_is_rounded:
  "gamma_exact (uint v) (uint (ws2812_gamma8 v))
   \<and> (v \<le> w \<longrightarrow> ws2812_gamma8 v \<le> ws2812_gamma8 w) \<and> ws2812_gamma8 0 = 0 \<and> ws2812_gamma8 255 = 255"
proof -
  have index: "unat v < length ws2812_gamma_table" for v :: u8
    using unat_u8_lt [of v] by (simp add: length_gamma_table)
  have "list_all (\<lambda>y. y < 256) ws2812_gamma_table" by (simp add: ws2812_gamma_table_def)
  then have small: "ws2812_gamma_table ! unat v < 256" for v :: u8
    using index [of v] by (auto simp: list_all_iff)
  have entry: "unat (ws2812_gamma8 v) = ws2812_gamma_table ! unat v" for v
    using small [of v] unat_of_nat_lt [of "ws2812_gamma_table ! unat v", where ?'a = 8] by (simp add: ws2812_gamma8_def)
  have "gamma_exact (0 + int (unat v)) (int (ws2812_gamma_table ! unat v))"
    by (rule gamma_exact_from_nth [OF gamma_table_exact index])
  then have exact: "gamma_exact (uint v) (uint (ws2812_gamma8 v))" by (simp flip: entry)
  have "sorted ws2812_gamma_table" by (simp only: ws2812_gamma_table_def sorted2 sorted1) simp
  then have mono: "v \<le> w \<Longrightarrow> ws2812_gamma8 v \<le> ws2812_gamma8 w"
    using index [of w] by (simp add: word_le_nat_alt entry sorted_nth_mono)
  have ends: "ws2812_gamma_table ! 0 = 0" "ws2812_gamma_table ! 255 = 255"
    by (simp_all add: ws2812_gamma_table_def)
  have "unat (ws2812_gamma8 0) = unat (0 :: u8)" using ends(1) by (simp add: entry)
  moreover have "unat (ws2812_gamma8 255) = unat (255 :: u8)" using ends(2) by (simp add: entry)
  ultimately have "ws2812_gamma8 0 = 0" "ws2812_gamma8 255 = 255"
    unfolding word_unat_eq_iff by blast+
  with exact mono show ?thesis by blast
qed

subsection \<open>Wheels\<close>

lemma hue16_parts:
  assumes "s < 6" and "p < 256" and "unat hue mod 1536 = 256 * s + p"
  shows "ws2812_color_from_hue16 hue =
    (if s = 0 then ws2812_rgb 255 (of_nat p) 0 else if s = 1 then ws2812_rgb (255 - of_nat p) 255 0
     else if s = 2 then ws2812_rgb 0 255 (of_nat p) else if s = 3 then ws2812_rgb 0 (255 - of_nat p) 255
     else if s = 4 then ws2812_rgb (of_nat p) 0 255 else ws2812_rgb 255 0 (255 - of_nat p))"
proof -
  have "(256 * s + p) div 256 = s" "(256 * s + p) mod 256 = p" using assms(2) by simp_all
  then show ?thesis unfolding ws2812_color_from_hue16_def assms(3) Let_def by (simp only:)
qed

definition color_distance :: "ws2812_color_t \<Rightarrow> ws2812_color_t \<Rightarrow> int" where
  "color_distance c d = abs (uint (color_r c) - uint (color_r d)) + abs (uint (color_g c) - uint (color_g d))
     + abs (uint (color_b c) - uint (color_b d)) + abs (uint (color_w c) - uint (color_w d))"

lemma byte_positions:
  assumes "p < 256"
  shows "uint (of_nat p :: u8) = int p" and "uint (255 - of_nat p :: u8) = 255 - int p"
proof -
  have p: "unat (of_nat p :: u8) = p" using assms by (intro unat_of_nat_lt) simp
  then show "uint (of_nat p :: u8) = int p" by (metis uint_nat)
  have le: "(of_nat p :: u8) \<le> 255" using assms by (simp add: word_le_nat_alt p)
  have "unat (255 - of_nat p :: u8) = 255 - p" using unat_sub [OF le] p by simp
  then show "uint (255 - of_nat p :: u8) = 255 - int p" using assms by (simp add: uint_nat of_nat_diff)
qed

lemma next_hue:
  assumes "unat hue < 65535"
  shows "unat (hue + 1 :: u16) mod 1536 = (if unat hue mod 1536 = 1535 then 0 else unat hue mod 1536 + 1)"
proof -
  have "hue + 1 = of_nat (unat hue + 1)" by simp
  moreover have "unat (of_nat (unat hue + 1) :: u16) = unat hue + 1"
    by (rule unat_of_nat_lt) (use assms in simp)
  ultimately have "unat (hue + 1) = unat hue + 1" by (simp only:)
  then show ?thesis by (simp add: mod_Suc)
qed

text \<open>The large wheel is continuous: one step of hue moves one channel by at most one, where
  segments meet and where the range of 1536 hues wraps too; only the overflow of the 16-bit hue
  itself jumps.
\<close>

theorem hue16_is_continuous:
  assumes "unat hue < 65535"
  shows "color_distance (ws2812_color_from_hue16 hue) (ws2812_color_from_hue16 (hue + 1)) \<le> 1"
proof -
  define s p where "s = unat hue mod 1536 div 256" and "p = unat hue mod 1536 mod 256"
  have sp: "s < 6" "p < 256" "unat hue mod 1536 = 256 * s + p"
    by (simp_all add: s_def p_def div_less_iff_less_mult)
  note this_color = hue16_parts [OF sp]
  have s: "s = 0 \<or> s = 1 \<or> s = 2 \<or> s = 3 \<or> s = 4 \<or> s = 5" using sp(1) by linarith
  show ?thesis
  proof (cases "p = 255")
    case False
    then have p: "p + 1 < 256" using sp(2) by simp
    have "unat (hue + 1) mod 1536 = 256 * s + (p + 1)" using next_hue [OF assms] sp False by simp
    from hue16_parts [OF sp(1) p this] this_color byte_positions [OF sp(2)] byte_positions [OF p] s show ?thesis
      by (auto simp: color_distance_def ws2812_rgb_def)
  next
    case True
    have next_seg: "unat (hue + 1) mod 1536 = 256 * (if s = 5 then 0 else s + 1) + 0"
      using next_hue [OF assms] sp True s by auto
    have "(if s = 5 then 0 else s + 1) < 6" "(0 :: nat) < 256" using sp(1) by auto
    from hue16_parts [OF this next_seg] this_color byte_positions [OF sp(2)] True s show ?thesis
      by (auto simp: color_distance_def ws2812_rgb_def)
  qed
qed

theorem hue16_is_continuous_witness:
  "color_distance (ws2812_color_from_hue16 1535) (ws2812_color_from_hue16 1536) \<le> 1"
  using hue16_is_continuous [of 1535] by simp

text \<open>
  The range does not divide \<open>2^16\<close>: an accumulator of the parameter's own width that is left to
  run jumps from blue to red when it overflows.
\<close>

lemma hue16_overflow_jumps:
  "ws2812_color_from_hue16 65535 = ws2812_rgb 0 0 255" "ws2812_color_from_hue16 (65535 + 1) = ws2812_rgb 255 0 0"
  by (simp_all add: ws2812_color_from_hue16_def Let_def)

text \<open>A colour without saturation is grey, and one without value is black.\<close>

lemma hsv_grey: "ws2812_color_from_hsv h 0 v = ws2812_rgb v v v"
  by (simp add: ws2812_color_from_hsv_def)

lemma hsv_black: "ws2812_color_from_hsv h s 0 = ws2812_rgb 0 0 0"
  by (simp add: ws2812_color_from_hsv_def Let_def)

end
