(* ===== verification/Log.thy ===== *)
theory Log
  imports Ring_Buffer C_Text
begin

text \<open>
  Levels, line prefixes and sinks, \<open>logging/log_format.c\<close> and \<open>logging/log.c\<close>. The text a
  \<open>vsnprintf\<close> would produce for a message is an argument (\<open>None\<close> when it reports an error); a
  sink outside the component acts on the caller's state \<open>'w\<close>, and so does the SDK's
  \<open>putchar_raw\<close>. The lemmas show that the memory sink always ends making room and holds the most
  recent text, and what a line looks like at its limits.
\<close>

subsection \<open>Levels\<close>

datatype log_level_t = LOG_LEVEL_TRACE | LOG_LEVEL_DEBUG | LOG_LEVEL_INFO | LOG_LEVEL_WARN
  | LOG_LEVEL_ERROR | LOG_LEVEL_NONE

fun level_index :: "log_level_t \<Rightarrow> nat" where
  "level_index LOG_LEVEL_TRACE = 0"
| "level_index LOG_LEVEL_DEBUG = 1"
| "level_index LOG_LEVEL_INFO = 2"
| "level_index LOG_LEVEL_WARN = 3"
| "level_index LOG_LEVEL_ERROR = 4"
| "level_index LOG_LEVEL_NONE = 5"

text \<open>The comparisons of the code are those of the numbers of the enumeration.\<close>

instantiation log_level_t :: linorder
begin

definition less_eq_log_level_t :: "log_level_t \<Rightarrow> log_level_t \<Rightarrow> bool" where
  "less_eq_log_level_t a b \<longleftrightarrow> level_index a \<le> level_index b"

definition less_log_level_t :: "log_level_t \<Rightarrow> log_level_t \<Rightarrow> bool" where
  "less_log_level_t a b \<longleftrightarrow> level_index a < level_index b"

instance
proof
  fix a b c :: log_level_t
  show "a < b \<longleftrightarrow> a \<le> b \<and> \<not> b \<le> a" by (auto simp: less_eq_log_level_t_def less_log_level_t_def)
  show "a \<le> a" by (simp add: less_eq_log_level_t_def)
  show "a \<le> b \<Longrightarrow> b \<le> c \<Longrightarrow> a \<le> c" by (simp add: less_eq_log_level_t_def)
  show "a \<le> b \<Longrightarrow> b \<le> a \<Longrightarrow> a = b" by (cases a; cases b) (simp_all add: less_eq_log_level_t_def)
  show "a \<le> b \<or> b \<le> a" by (auto simp: less_eq_log_level_t_def)
qed

end

definition level_names :: "string list" where
  "level_names = [''trace'', ''debug'', ''info'', ''warn'', ''error'', ''none'']"

definition log_level_name :: "log_level_t \<Rightarrow> string" where
  "log_level_name level = level_names ! level_index level"

definition log_level_initial :: "log_level_t \<Rightarrow> char" where
  "log_level_initial level = ''TDIWE-'' ! level_index level"

text \<open>\<open>(char)(c - 'A' + 'a')\<close> for a capital letter.\<close>

definition lower :: "char \<Rightarrow> char" where
  "lower c = (if CHR ''A'' \<le> c \<and> c \<le> CHR ''Z'' then char_of (of_char c - 65 + 97 :: nat) else c)"

text \<open>The comparison loop, lines 46 to 55: both texts end together after equal letters.\<close>

fun same_name :: "string \<Rightarrow> string \<Rightarrow> bool" where
  "same_name [] [] \<longleftrightarrow> True"
| "same_name (t # ts) (n # ns) \<longleftrightarrow> lower t = n \<and> same_name ts ns"
| "same_name _ _ \<longleftrightarrow> False"

fun find_level :: "string \<Rightarrow> (log_level_t \<times> string) list \<Rightarrow> log_level_t option" where
  "find_level str [] = None"
| "find_level str ((level, name) # rest) =
     (if length str = 1 \<and> lower (hd str) = hd name then Some level
      else if same_name str name then Some level
      else find_level str rest)"

definition all_levels :: "log_level_t list" where
  "all_levels = [LOG_LEVEL_TRACE, LOG_LEVEL_DEBUG, LOG_LEVEL_INFO, LOG_LEVEL_WARN, LOG_LEVEL_ERROR, LOG_LEVEL_NONE]"

text \<open>\<open>None\<close> is the result false, which leaves the level as it was.\<close>

definition log_level_parse :: "string option \<Rightarrow> log_level_t option" where
  "log_level_parse str =
     (case str of
        None \<Rightarrow> None
      | Some s \<Rightarrow> if s = [] then None else find_level s (zip all_levels level_names))"

definition log_level_enabled :: "log_level_t \<Rightarrow> log_level_t \<Rightarrow> bool" where
  "log_level_enabled level threshold \<longleftrightarrow> threshold \<le> level \<and> level < LOG_LEVEL_NONE"

subsection \<open>The prefix of a line\<close>

text \<open>
  The text in \<open>out\<close>, whose length is the value returned. A capacity of 0 leaves the buffer as it
  is and returns 0.
\<close>

definition log_format_prefix :: "nat \<Rightarrow> log_level_t \<Rightarrow> 64 word \<Rightarrow> string option \<Rightarrow> string" where
  "log_format_prefix capacity level timestamp_us tag =
     (if capacity = 0 then []
      else
        (let total_ms = unat timestamp_us div 1000;
             seconds = total_ms div 1000;
             milliseconds = total_ms mod 1000;
             stamp = ''['' @ pad_left CHR '' '' 6 (show_nat seconds) @ ''.''
                       @ pad_left CHR ''0'' 3 (show_nat milliseconds) @ ''] '' @ [log_level_initial level]
         in truncated capacity
              (case tag of
                 None \<Rightarrow> stamp @ '' ''
               | Some t \<Rightarrow> if t \<noteq> [] then stamp @ '' '' @ t @ '': '' else stamp @ '' '')))"

subsection \<open>Sinks\<close>

abbreviation (input) "LOG_LINE_LENGTH \<equiv> (160 :: nat)"
abbreviation (input) "LOG_MAX_SINKS \<equiv> (4 :: nat)"

text \<open>The functions a sink may have: the two of the component, or one of the caller's with its context.\<close>

datatype 'w log_sink = Stdio_Sink | Memory_Sink | Sink "string \<Rightarrow> 'w \<Rightarrow> 'w"

record 'w sink_t =
  sink_write :: "'w log_sink"
  sink_min_level :: log_level_t

record 'w log_state =
  lg_sinks :: "'w sink_t list"
  lg_level :: log_level_t
  lg_initialised :: bool
  lg_memory :: ring_buffer_t
  lg_memory_ready :: bool

definition log_init :: "log_level_t \<Rightarrow> 'w log_state" where
  "log_init level = \<lparr>lg_sinks = [], lg_level = level, lg_initialised = True,
     lg_memory = \<lparr>storage = [], rb_size = 0, rb_head = 0, rb_tail = 0\<rparr>, lg_memory_ready = False\<rparr>"

definition log_add_sink :: "'w log_state \<Rightarrow> 'w log_sink option \<Rightarrow> log_level_t \<Rightarrow> bool \<times> 'w log_state" where
  "log_add_sink g write min_level =
     (if \<not> lg_initialised g \<or> write = None \<or> LOG_MAX_SINKS \<le> length (lg_sinks g) then (False, g)
      else (True, g\<lparr>lg_sinks := lg_sinks g @ [\<lparr>sink_write = the write, sink_min_level = min_level\<rparr>]\<rparr>))"

definition log_set_level :: "'w log_state \<Rightarrow> log_level_t \<Rightarrow> 'w log_state" where
  "log_set_level g level = g\<lparr>lg_level := level\<rparr>"

definition log_get_level :: "'w log_state \<Rightarrow> log_level_t" where
  "log_get_level g = lg_level g"

definition log_add_stdio_sink :: "'w log_state \<Rightarrow> log_level_t \<Rightarrow> bool \<times> 'w log_state" where
  "log_add_stdio_sink g min_level = log_add_sink g (Some Stdio_Sink) min_level"

definition stdio_sink :: "(char \<Rightarrow> 'w \<Rightarrow> 'w) \<Rightarrow> string \<Rightarrow> 'w \<Rightarrow> 'w" where
  "stdio_sink putchar_raw str w = fold putchar_raw str w"

text \<open>The loop of \<open>memory_sink\<close>, lines 86 to 91. As a loop it might not end, which would be \<open>None\<close>.\<close>

partial_function (option) make_room :: "ring_buffer_t \<Rightarrow> nat \<Rightarrow> ring_buffer_t option" where
  "make_room rb len =
     (if len \<le> ring_buffer_free rb then Some rb
      else
        (case ring_buffer_pop rb of
           None \<Rightarrow> None
         | Some (popped, rb) \<Rightarrow> if popped = None then Some rb else make_room rb len))"

definition text_u8 :: "string \<Rightarrow> u8 list" where
  "text_u8 str = map of_char str"

definition memory_sink :: "'w log_state \<Rightarrow> string \<Rightarrow> 'w log_state option" where
  "memory_sink g str =
     (case make_room (lg_memory g) (length str) of
        None \<Rightarrow> None
      | Some rb \<Rightarrow>
          map_option (\<lambda>(n, rb). g\<lparr>lg_memory := rb\<rparr>) (ring_buffer_write rb (Some (text_u8 str))))"

definition log_add_memory_sink :: "'w log_state \<Rightarrow> u8 list option \<Rightarrow> nat \<Rightarrow> log_level_t \<Rightarrow> bool \<times> 'w log_state" where
  "log_add_memory_sink g buffer capacity min_level =
     (case ring_buffer_init buffer capacity of
        None \<Rightarrow> (False, g)
      | Some rb \<Rightarrow>
          (case log_add_sink (g\<lparr>lg_memory := rb\<rparr>) (Some Memory_Sink) min_level of
             (added, g) \<Rightarrow> if \<not> added then (False, g) else (True, g\<lparr>lg_memory_ready := True\<rparr>)))"

text \<open>The bytes copied out; \<open>None\<close> inside stands for a missing buffer.\<close>

definition log_read_memory :: "'w log_state \<Rightarrow> nat option \<Rightarrow> (u8 list \<times> 'w log_state) option" where
  "log_read_memory g capacity =
     (if \<not> lg_memory_ready g \<or> capacity = None \<or> capacity = Some 0 then Some ([], g)
      else map_option (\<lambda>(bytes, rb). (bytes, g\<lparr>lg_memory := rb\<rparr>)) (ring_buffer_read (lg_memory g) (the capacity)))"

definition log_clear_memory :: "'w log_state \<Rightarrow> 'w log_state" where
  "log_clear_memory g = (if lg_memory_ready g then g\<lparr>lg_memory := ring_buffer_clear (lg_memory g)\<rparr> else g)"

subsection \<open>Emitting\<close>

text \<open>The line built in the stack buffer, lines 135 to 151.\<close>

definition log_line :: "log_level_t \<Rightarrow> 64 word \<Rightarrow> string option \<Rightarrow> string option \<Rightarrow> string" where
  "log_line level timestamp_us tag message =
     (let line = log_format_prefix LOG_LINE_LENGTH level timestamp_us tag;
          room = LOG_LINE_LENGTH - length line - 1;
          line = (case message of None \<Rightarrow> line | Some m \<Rightarrow> line @ take room m)
      in if length line + 2 < LOG_LINE_LENGTH then line @ [CHR 0x0D, CHR 0x0A] else line)"

definition call_sink :: "(char \<Rightarrow> 'w \<Rightarrow> 'w) \<Rightarrow> 'w log_sink \<Rightarrow> string \<Rightarrow> 'w log_state \<Rightarrow> 'w
    \<Rightarrow> ('w log_state \<times> 'w) option" where
  "call_sink putchar_raw sink line g w =
     (case sink of
        Stdio_Sink \<Rightarrow> Some (g, stdio_sink putchar_raw line w)
      | Memory_Sink \<Rightarrow> map_option (\<lambda>g. (g, w)) (memory_sink g line)
      | Sink f \<Rightarrow> Some (g, f line w))"

text \<open>The loop over the sinks, lines 153 to 157.\<close>

fun call_sinks :: "(char \<Rightarrow> 'w \<Rightarrow> 'w) \<Rightarrow> 'w sink_t list \<Rightarrow> log_level_t \<Rightarrow> string \<Rightarrow> 'w log_state \<Rightarrow> 'w
    \<Rightarrow> ('w log_state \<times> 'w) option" where
  "call_sinks putchar_raw [] level line g w = Some (g, w)"
| "call_sinks putchar_raw (s # sinks) level line g w =
     (if sink_min_level s \<le> level
      then (case call_sink putchar_raw (sink_write s) line g w of
              None \<Rightarrow> None
            | Some (g, w) \<Rightarrow> call_sinks putchar_raw sinks level line g w)
      else call_sinks putchar_raw sinks level line g w)"

definition log_vwrite :: "(char \<Rightarrow> 'w \<Rightarrow> 'w) \<Rightarrow> log_level_t \<Rightarrow> 64 word \<Rightarrow> string option \<Rightarrow> string option
    \<Rightarrow> 'w log_state \<Rightarrow> 'w \<Rightarrow> ('w log_state \<times> 'w) option" where
  "log_vwrite putchar_raw level time_us tag message g w =
     (if \<not> lg_initialised g \<or> lg_sinks g = [] then Some (g, w)
      else if \<not> log_level_enabled level (lg_level g) then Some (g, w)
      else call_sinks putchar_raw (lg_sinks g) level (log_line level time_us tag message) g w)"

subsection \<open>The memory sink\<close>

definition latest :: "nat \<Rightarrow> 'a list \<Rightarrow> 'a list" where
  "latest n xs = drop (length xs - n) xs"

lemma latest_all [simp]: "length xs \<le> n \<Longrightarrow> latest n xs = xs"
  by (simp add: latest_def)

lemma length_latest [simp]: "length (latest n xs) = min n (length xs)"
  by (auto simp: latest_def)

lemma latest_append: "length ys \<le> n \<Longrightarrow> latest n (xs @ ys) = drop (length xs + length ys - n) xs @ ys"
  by (simp add: latest_def)

lemma latest_latest_append: "latest n (latest n xs @ ys) = latest n (xs @ ys)"
proof (cases "length xs \<le> n")
  case False
  then have "length xs - n + (length ys) = length xs + length ys - n" by simp
  with False show ?thesis by (simp add: latest_def drop_append add.commute)
qed simp

lemma make_room_spec:
  "rb_inv rb \<Longrightarrow> \<exists>rb'. make_room rb len = Some rb' \<and> rb_inv rb' \<and> rb_size rb' = rb_size rb
    \<and> rb_list rb' = drop (len - ring_buffer_free rb) (rb_list rb)"
proof (induction "ring_buffer_count rb" arbitrary: rb)
  case 0
  then have empty: "rb_list rb = []" by (metis length_rb_list length_0_conv)
  obtain rb' where pop: "ring_buffer_pop rb = Some (None, rb')" "rb_inv rb'" "rb_list rb' = []" "rb_size rb' = rb_size rb"
    using ring_buffer_pop_spec [OF 0(2)] empty by (metis drop_Nil list.simps(4))
  show ?case
    using 0 pop empty by (cases "len \<le> ring_buffer_free rb") (simp_all add: make_room.simps [of rb])
next
  case (Suc n)
  then obtain b bs where list: "rb_list rb = b # bs" by (metis length_rb_list length_Suc_conv)
  obtain rb' where pop: "ring_buffer_pop rb = Some (Some b, rb')" "rb_inv rb'" "rb_list rb' = bs" "rb_size rb' = rb_size rb"
    using ring_buffer_pop_spec [OF Suc(3)] list by (metis drop_Suc_Cons drop0 list.simps(5) One_nat_def)
  have count: "ring_buffer_count rb' = n" using pop(3) list Suc(2) by (metis length_rb_list length_Cons Suc_inject)
  have cap: "ring_buffer_capacity rb' = ring_buffer_capacity rb" using pop(4) by (simp add: ring_buffer_capacity_def)
  have free: "ring_buffer_free rb' = Suc (ring_buffer_free rb)"
    using rb_count_free [OF Suc(3)] rb_count_free [OF pop(2)] cap count Suc(2) by linarith
  show ?case
  proof (cases "len \<le> ring_buffer_free rb")
    case True
    with Suc(3) show ?thesis by (simp add: make_room.simps [of rb])
  next
    case False
    then have "len - ring_buffer_free rb = Suc (len - ring_buffer_free rb')" using free by simp
    with False Suc(1) [OF count [symmetric] pop(2)] pop list show ?thesis by (simp add: make_room.simps [of rb])
  qed
qed

lemma memory_sink_spec:
  assumes inv: "rb_inv (lg_memory g)" and fits: "length line \<le> ring_buffer_capacity (lg_memory g)"
  shows "\<exists>rb. memory_sink g line = Some (g\<lparr>lg_memory := rb\<rparr>) \<and> rb_inv rb
    \<and> ring_buffer_capacity rb = ring_buffer_capacity (lg_memory g)
    \<and> rb_list rb = latest (ring_buffer_capacity (lg_memory g)) (rb_list (lg_memory g) @ text_u8 line)"
proof -
  let ?m = "lg_memory g"
  obtain rb where rb: "make_room ?m (length line) = Some rb" "rb_inv rb" "rb_size rb = rb_size ?m"
      "rb_list rb = drop (length line - ring_buffer_free ?m) (rb_list ?m)"
    using make_room_spec [OF inv] by blast
  have cap: "ring_buffer_capacity rb = ring_buffer_capacity ?m" using rb(3) by (simp add: ring_buffer_capacity_def)
  have count: "ring_buffer_count rb = ring_buffer_count ?m - (length line - ring_buffer_free ?m)"
    using rb(4) by (metis length_rb_list length_drop)
  have room: "length line \<le> ring_buffer_free rb"
    using rb_count_free [OF inv] rb_count_free [OF rb(2)] cap count fits by linarith
  obtain rb' where rb': "ring_buffer_write rb (Some (text_u8 line)) = Some (length line, rb')" "rb_inv rb'"
      "rb_size rb' = rb_size rb" "rb_list rb' = rb_list rb @ text_u8 line"
    using ring_buffer_write_spec [OF rb(2), of "text_u8 line"] room by (metis text_u8_def length_map min.absorb1 take_all)
  have shift: "length (rb_list ?m) + length (text_u8 line) - ring_buffer_capacity ?m = length line - ring_buffer_free ?m"
    using rb_count_free [OF inv] by (simp add: text_u8_def)
  have "length (text_u8 line) \<le> ring_buffer_capacity ?m" using fits by (simp add: text_u8_def)
  from latest_append [OF this] have "latest (ring_buffer_capacity ?m) (rb_list ?m @ text_u8 line) = rb_list rb'"
    by (simp only: shift rb(4) rb'(4))
  moreover have "memory_sink g line = Some (g\<lparr>lg_memory := rb'\<rparr>)" by (simp add: memory_sink_def rb(1) rb'(1))
  moreover have "ring_buffer_capacity rb' = ring_buffer_capacity ?m" using cap rb'(3) by (simp add: ring_buffer_capacity_def)
  ultimately show ?thesis using rb'(2) by (intro exI [of _ rb'] conjI) simp_all
qed

text \<open>How often a line reaches the memory sink: once per sink of that kind whose threshold it passes.\<close>

fun is_memory :: "'w log_sink \<Rightarrow> bool" where
  "is_memory Memory_Sink \<longleftrightarrow> True"
| "is_memory _ \<longleftrightarrow> False"

definition memory_copies :: "'w sink_t list \<Rightarrow> log_level_t \<Rightarrow> nat" where
  "memory_copies sinks level = length (filter (\<lambda>s. is_memory (sink_write s) \<and> sink_min_level s \<le> level) sinks)"

definition recorded :: "'w sink_t list \<Rightarrow> log_level_t \<Rightarrow> string \<Rightarrow> u8 list" where
  "recorded sinks level line = concat (replicate (memory_copies sinks level) (text_u8 line))"

lemma recorded_Cons: "recorded (s # sinks) level line =
  (if is_memory (sink_write s) \<and> sink_min_level s \<le> level then text_u8 line else []) @ recorded sinks level line"
  by (simp add: recorded_def memory_copies_def)

lemma call_sinks_spec:
  assumes "rb_inv (lg_memory g)" and "length line \<le> ring_buffer_capacity (lg_memory g)"
  shows "\<exists>rb w'. call_sinks putchar_raw sinks level line g w = Some (g\<lparr>lg_memory := rb\<rparr>, w') \<and> rb_inv rb
    \<and> ring_buffer_capacity rb = ring_buffer_capacity (lg_memory g)
    \<and> rb_list rb = latest (ring_buffer_capacity (lg_memory g)) (rb_list (lg_memory g) @ recorded sinks level line)"
  using assms
proof (induction sinks arbitrary: g w)
  case Nil
  then show ?case
    using rb_count_bound [OF Nil(1)] by (intro exI [of _ "lg_memory g"]) (simp add: recorded_def memory_copies_def)
next
  case (Cons s sinks)
  show ?case
  proof (cases "sink_min_level s \<le> level")
    case False
    with Cons show ?thesis by (simp add: recorded_Cons)
  next
    case True
    show ?thesis
    proof (cases "sink_write s")
      case Memory_Sink
      obtain rb where rb: "memory_sink g line = Some (g\<lparr>lg_memory := rb\<rparr>)" "rb_inv rb"
          "ring_buffer_capacity rb = ring_buffer_capacity (lg_memory g)"
          "rb_list rb = latest (ring_buffer_capacity (lg_memory g)) (rb_list (lg_memory g) @ text_u8 line)"
        using memory_sink_spec [OF Cons(2,3)] by blast
      from Cons.IH [of "g\<lparr>lg_memory := rb\<rparr>" w] rb(2,3) Cons(3) obtain rb2 w2 where
        "call_sinks putchar_raw sinks level line (g\<lparr>lg_memory := rb\<rparr>) w = Some (g\<lparr>lg_memory := rb2\<rparr>, w2)" "rb_inv rb2"
        "ring_buffer_capacity rb2 = ring_buffer_capacity (lg_memory g)"
        "rb_list rb2 = latest (ring_buffer_capacity (lg_memory g)) (rb_list rb @ recorded sinks level line)"
        by auto
      with rb True Memory_Sink show ?thesis
        by (intro exI [of _ rb2] exI [of _ w2]) (simp add: call_sink_def recorded_Cons latest_latest_append)
    next
      case Stdio_Sink
      with True Cons.IH [OF Cons(2,3)] show ?thesis by (simp add: call_sink_def recorded_Cons)
    next
      case (Sink f)
      with True Cons.IH [OF Cons(2,3)] show ?thesis by (simp add: call_sink_def recorded_Cons)
    qed
  qed
qed

lemma length_log_prefix: "length (log_format_prefix 160 level t tag) \<le> 159"
  by (auto simp: log_format_prefix_def truncated_def Let_def split: option.split)

lemma length_log_line: "length (log_line level t tag message) \<le> 159"
  using length_log_prefix [of level t tag] by (auto simp: log_line_def Let_def split: option.split)

text \<open>A sequence of calls: level, time, tag and message of each.\<close>

type_synonym log_call = "log_level_t \<times> 64 word \<times> string option \<times> string option"

fun log_run :: "(char \<Rightarrow> 'w \<Rightarrow> 'w) \<Rightarrow> log_call list \<Rightarrow> 'w log_state \<Rightarrow> 'w \<Rightarrow> ('w log_state \<times> 'w) option" where
  "log_run putchar_raw [] g w = Some (g, w)"
| "log_run putchar_raw ((level, t, tag, message) # calls) g w =
     (case log_vwrite putchar_raw level t tag message g w of
        None \<Rightarrow> None
      | Some (g, w) \<Rightarrow> log_run putchar_raw calls g w)"

text \<open>What a call should leave in a memory sink of the given threshold.\<close>

fun recorded_line :: "log_level_t \<Rightarrow> log_level_t \<Rightarrow> log_call \<Rightarrow> u8 list" where
  "recorded_line threshold min_level (level, t, tag, message) =
     (if log_level_enabled level threshold \<and> min_level \<le> level then text_u8 (log_line level t tag message) else [])"

lemma log_vwrite_spec:
  assumes "rb_inv (lg_memory g)" and "159 \<le> ring_buffer_capacity (lg_memory g)" and "lg_initialised g"
    and one: "filter (\<lambda>s. is_memory (sink_write s)) (lg_sinks g) = [s]"
  shows "\<exists>rb w'. log_vwrite putchar_raw level t tag message g w = Some (g\<lparr>lg_memory := rb\<rparr>, w') \<and> rb_inv rb
    \<and> ring_buffer_capacity rb = ring_buffer_capacity (lg_memory g)
    \<and> rb_list rb = latest (ring_buffer_capacity (lg_memory g))
        (rb_list (lg_memory g) @ recorded_line (lg_level g) (sink_min_level s) (level, t, tag, message))"
proof (cases "log_level_enabled level (lg_level g)")
  case False
  then have "log_vwrite putchar_raw level t tag message g w = Some (g\<lparr>lg_memory := lg_memory g\<rparr>, w)"
    by (simp add: log_vwrite_def)
  then show ?thesis
    using assms(1) rb_count_bound [OF assms(1)] False by (intro exI [of _ "lg_memory g"]) simp
next
  case True
  let ?line = "log_line level t tag message"
  have "filter (\<lambda>s. is_memory (sink_write s) \<and> sink_min_level s \<le> level) (lg_sinks g)
      = filter (\<lambda>s. sink_min_level s \<le> level) [s]"
    by (simp add: one [symmetric] conj_commute)
  then have rec: "recorded (lg_sinks g) level ?line = (if sink_min_level s \<le> level then text_u8 ?line else [])"
    by (simp add: recorded_def memory_copies_def)
  have "length ?line \<le> ring_buffer_capacity (lg_memory g)"
    using length_log_line [of level t tag message] assms(2) by linarith
  from call_sinks_spec [OF assms(1) this, of putchar_raw "lg_sinks g" level w] one assms(3) True
  show ?thesis by (auto simp: log_vwrite_def rec)
qed

text \<open>Logging always ends and the memory sink holds the most recent output. Whatever is logged,
  through any other sinks, every call returns, and a memory of at least one line's length holds
  the last bytes, as many as fit, of the lines that passed both thresholds.
\<close>

theorem log_memory_keeps_latest:
  assumes "rb_inv (lg_memory g)" and "159 \<le> ring_buffer_capacity (lg_memory g)" and "lg_initialised g"
    and "filter (\<lambda>s. is_memory (sink_write s)) (lg_sinks g) = [s]"
  shows "\<exists>g' w'. log_run putchar_raw calls g w = Some (g', w') \<and> rb_inv (lg_memory g')
    \<and> rb_list (lg_memory g') = latest (ring_buffer_capacity (lg_memory g))
        (rb_list (lg_memory g) @ concat (map (recorded_line (lg_level g) (sink_min_level s)) calls))"
  using assms
proof (induction calls arbitrary: g w)
  case Nil
  then show ?case using rb_count_bound [OF Nil(1)] by simp
next
  case (Cons call calls)
  obtain level t tag message where call: "call = (level, t, tag, message)" by (cases call)
  obtain rb w' where step: "log_vwrite putchar_raw level t tag message g w = Some (g\<lparr>lg_memory := rb\<rparr>, w')" "rb_inv rb"
      "ring_buffer_capacity rb = ring_buffer_capacity (lg_memory g)"
      "rb_list rb = latest (ring_buffer_capacity (lg_memory g))
        (rb_list (lg_memory g) @ recorded_line (lg_level g) (sink_min_level s) (level, t, tag, message))"
    using log_vwrite_spec [OF Cons.prems] by blast
  from Cons.IH [of "g\<lparr>lg_memory := rb\<rparr>" w'] step Cons.prems(2-4) obtain g2 w2 where
    "log_run putchar_raw calls (g\<lparr>lg_memory := rb\<rparr>) w' = Some (g2, w2)" "rb_inv (lg_memory g2)"
    "rb_list (lg_memory g2) = latest (ring_buffer_capacity (lg_memory g))
        (rb_list rb @ concat (map (recorded_line (lg_level g) (sink_min_level s)) calls))"
    by auto
  with step call show ?case by (simp add: latest_latest_append del: recorded_line.simps)
qed

text \<open>The state with a memory of 200 bytes, as a program sets it up.\<close>

definition small_log :: "unit log_state" where
  "small_log = snd (log_add_memory_sink (log_init LOG_LEVEL_DEBUG) (Some (replicate 200 0)) 200 LOG_LEVEL_INFO)"

lemma small_log_state:
  "lg_memory small_log = \<lparr>storage = replicate 200 0, rb_size = 200, rb_head = 0, rb_tail = 0\<rparr>"
  "lg_initialised small_log" "lg_level small_log = LOG_LEVEL_DEBUG"
  "lg_sinks small_log = [\<lparr>sink_write = Memory_Sink, sink_min_level = LOG_LEVEL_INFO\<rparr>]"
  by (simp_all add: small_log_def log_add_memory_sink_def log_init_def log_add_sink_def ring_buffer_init_def)

theorem log_memory_keeps_latest_witness:
  "\<exists>g' w'. log_run (\<lambda>c w. w) [(LOG_LEVEL_DEBUG, 5, None, Some ''a''), (LOG_LEVEL_WARN, 12345678, Some ''servo'', Some ''late'')]
      small_log () = Some (g', w')
    \<and> rb_list (lg_memory g') = text_u8 (''[    12.345] W servo: late'' @ [CHR 0x0D, CHR 0x0A])"
proof -
  have digits: "show_nat 12 = ''12''" "show_nat 345 = ''345''"
    by (simp_all add: show_nat.simps) code_simp+
  have time: "unat (12345678 :: 64 word) div 1000 div 1000 = 12" "unat (12345678 :: 64 word) div 1000 mod 1000 = 345"
    by simp_all
  have line: "log_line LOG_LEVEL_WARN 12345678 (Some ''servo'') (Some ''late'')
      = ''[    12.345] W servo: late'' @ [CHR 0x0D, CHR 0x0A]"
    unfolding log_line_def log_format_prefix_def Let_def time digits
    by (simp add: truncated_def pad_left_def log_level_initial_def numeral_eq_Suc)
  have empty: "rb_list (lg_memory small_log) = []"
    by (simp add: small_log_state rb_list_def ring_buffer_count_def)
  have "rb_inv (lg_memory small_log)" "159 \<le> ring_buffer_capacity (lg_memory small_log)"
    "filter (\<lambda>s. is_memory (sink_write s)) (lg_sinks small_log) = [\<lparr>sink_write = Memory_Sink, sink_min_level = LOG_LEVEL_INFO\<rparr>]"
    by (simp_all add: small_log_state rb_inv_def ring_buffer_capacity_def)
  note kept = log_memory_keeps_latest [OF this(1,2) small_log_state(2) this(3), of "\<lambda>c w. w"
      "[(LOG_LEVEL_DEBUG, 5, None, Some ''a''), (LOG_LEVEL_WARN, 12345678, Some ''servo'', Some ''late'')]" "()"]
  have "latest (ring_buffer_capacity (lg_memory small_log)) (rb_list (lg_memory small_log)
        @ concat (map (recorded_line (lg_level small_log) LOG_LEVEL_INFO)
          [(LOG_LEVEL_DEBUG, 5, None, Some ''a''), (LOG_LEVEL_WARN, 12345678, Some ''servo'', Some ''late'')]))
      = text_u8 (''[    12.345] W servo: late'' @ [CHR 0x0D, CHR 0x0A])"
    by (simp only: empty append_Nil) (simp add: line log_level_enabled_def less_eq_log_level_t_def less_log_level_t_def small_log_state
        latest_def text_u8_def ring_buffer_capacity_def ring_buffer_count_def)
  with kept show ?thesis by fastforce
qed

subsection \<open>Levels and lines\<close>

text \<open>A level is found by its name in any case, and by its initial.\<close>

lemma log_level_parse_name: "log_level_parse (Some (log_level_name level)) = Some level"
  by (cases level) (simp_all add: log_level_parse_def log_level_name_def level_names_def all_levels_def lower_def less_eq_char_def)

text \<open>
  A message that does not fit is cut so that the line fills the buffer, and such a line gets no
  line end: the next one continues it on the same row.
\<close>

lemma log_long_line_has_no_end:
  assumes "158 \<le> length (log_format_prefix 160 level t tag) + length m"
  shows "log_line level t tag (Some m) = take 159 (log_format_prefix 160 level t tag @ m)"
  using assms length_log_prefix [of level t tag] by (simp add: log_line_def Let_def)

lemma log_short_line:
  assumes "length (log_format_prefix 160 level t tag) + length m < 158"
  shows "log_line level t tag (Some m) = log_format_prefix 160 level t tag @ m @ [CHR 0x0D, CHR 0x0A]"
  using assms by (simp add: log_line_def Let_def)

end
