(* ===== verification/Rounding.thy ===== *)
theory Rounding
  imports Prelude
begin

text \<open>
  Division to the nearest whole number, the function \<open>div_round\<close> of \<open>components/pwm/pwm_timing.c\<close>,
  which the divider arithmetic of the UART writes out in place.
\<close>

definition div_round :: "nat \<Rightarrow> nat \<Rightarrow> nat" where
  "div_round a b = (a + b div 2) div b"

text \<open>The quotient is a nearest one: off by at most half the divisor.\<close>

lemma div_round_nearest:
  assumes "0 < b"
  shows "2 * (div_round a b * b) \<le> 2 * a + b" and "2 * a \<le> 2 * (div_round a b * b) + b"
proof -
  have m: "(a + b div 2) = div_round a b * b + (a + b div 2) mod b"
    by (simp add: div_round_def)
  have "(a + b div 2) mod b < b" using assms by simp
  moreover have "b = 2 * (b div 2) + b mod 2" by simp
  moreover have "b mod 2 < 2" by simp
  ultimately show "2 * (div_round a b * b) \<le> 2 * a + b" "2 * a \<le> 2 * (div_round a b * b) + b"
    using m by linarith+
qed

lemma div_round_exact: "0 < b \<Longrightarrow> div_round (b * q) b = q"
  by (simp add: div_round_def)

lemma div_round_le: "0 < b \<Longrightarrow> a \<le> b * m \<Longrightarrow> div_round a b \<le> m"
proof -
  assume b: "0 < b" and "a \<le> b * m"
  then have "a + b div 2 < b * m + b" using div_less_dividend [of b 2] by linarith
  then have "a + b div 2 < b * Suc m" by simp
  then have "(a + b div 2) div b < Suc m" using b by (simp add: less_mult_imp_div_less mult.commute)
  then show ?thesis by (simp add: div_round_def)
qed

lemma div_round_pos: "0 < b \<Longrightarrow> b \<le> 2 * a \<Longrightarrow> 1 \<le> div_round a b"
proof -
  assume b: "0 < b" and "b \<le> 2 * a"
  then have "b \<le> a + b div 2" by linarith
  with b have "1 * b div b \<le> (a + b div 2) div b" by (intro div_le_mono) simp
  with b show ?thesis by (simp add: div_round_def)
qed

end
