(* ===== verification/Pwm_Timing.thy ===== *)
theory Pwm_Timing
  imports Rounding
begin

text \<open>
  Model of \<open>components/pwm/pwm_timing.c\<close>: the divider and wrap of a PWM slice for a frequency, and
  the channel level for a duty cycle or a pulse width. The 64-bit intermediate values are naturals:
  with 32-bit arguments, an 8-bit divider and a 16-bit wrap all of them stay below \<open>2^64\<close>, but for
  the product in \<open>pwm_timing_level_for_pulse_us\<close>, where the wrap-around is written out.
\<close>

abbreviation (input) "PWM_DUTY_MAX \<equiv> (65535 :: nat)"
abbreviation (input) "PWM_TIMING_MIN_DIV16 \<equiv> (16 :: nat)"
abbreviation (input) "PWM_TIMING_MAX_DIV16 \<equiv> (4095 :: nat)"
abbreviation (input) "PWM_TIMING_MAX_PERIOD_COUNTS \<equiv> (65535 :: nat)"

record pwm_timing_t =
  divider_int :: u8
  divider_frac :: u8
  wrap :: u16

datatype pwm_timing_result_t =
  PWM_TIMING_OK | PWM_TIMING_INVALID_ARG | PWM_TIMING_TOO_FAST | PWM_TIMING_TOO_SLOW

fun pwm_timing_result_name :: "pwm_timing_result_t \<Rightarrow> string" where
  "pwm_timing_result_name PWM_TIMING_OK = ''ok''"
| "pwm_timing_result_name PWM_TIMING_INVALID_ARG = ''invalid argument''"
| "pwm_timing_result_name PWM_TIMING_TOO_FAST = ''too fast for this clock''"
| "pwm_timing_result_name PWM_TIMING_TOO_SLOW = ''too slow for the divider''"

definition pwm_timing_div16 :: "pwm_timing_t \<Rightarrow> nat" where
  "pwm_timing_div16 timing = unat (divider_int timing) * 16 + unat (divider_frac timing)"

text \<open>The argument \<open>None\<close> is a null pointer; the object is only written when the call succeeds.\<close>

definition pwm_timing_for_frequency ::
    "u32 \<Rightarrow> u32 \<Rightarrow> pwm_timing_t option \<Rightarrow> pwm_timing_result_t \<times> pwm_timing_t option" where
  "pwm_timing_for_frequency clock_hz target_hz timing =
     (if timing = None \<or> clock_hz = 0 \<or> target_hz = 0 then (PWM_TIMING_INVALID_ARG, timing)
      else
        (let total = div_round (unat clock_hz * 16) (unat target_hz) in
         if total < PWM_TIMING_MIN_DIV16 then (PWM_TIMING_TOO_FAST, timing)
         else
           (let div16 = (total + PWM_TIMING_MAX_PERIOD_COUNTS - 1) div PWM_TIMING_MAX_PERIOD_COUNTS;
                div16 = (if div16 < PWM_TIMING_MIN_DIV16 then PWM_TIMING_MIN_DIV16 else div16) in
            if PWM_TIMING_MAX_DIV16 < div16 then (PWM_TIMING_TOO_SLOW, timing)
            else
              (let period = div_round total div16;
                   period = (if period < 1 then 1 else period);
                   period = (if PWM_TIMING_MAX_PERIOD_COUNTS < period
                     then PWM_TIMING_MAX_PERIOD_COUNTS else period) in
               (PWM_TIMING_OK,
                Some \<lparr>divider_int = word_of_nat (div16 div 16), divider_frac = word_of_nat (div16 mod 16),
                  wrap = word_of_nat (period - 1)\<rparr>)))))"

definition pwm_timing_frequency :: "u32 \<Rightarrow> pwm_timing_t option \<Rightarrow> u32" where
  "pwm_timing_frequency clock_hz timing =
     (case timing of
        None \<Rightarrow> 0
      | Some t \<Rightarrow>
          (let div16 = pwm_timing_div16 t in
           if div16 = 0 then 0
           else
             (let period = unat (wrap t) + 1 in
              word_of_nat (div_round (unat clock_hz * 16) (div16 * period)))))"

definition pwm_timing_period_us :: "u32 \<Rightarrow> pwm_timing_t option \<Rightarrow> u32" where
  "pwm_timing_period_us clock_hz timing =
     (case timing of
        None \<Rightarrow> 0
      | Some t \<Rightarrow>
          (if clock_hz = 0 then 0
           else
             (let div16 = pwm_timing_div16 t; period = unat (wrap t) + 1 in
              word_of_nat (div_round (period * div16 * 1000000) (unat clock_hz * 16)))))"

definition pwm_timing_level_for_duty :: "pwm_timing_t option \<Rightarrow> u16 \<Rightarrow> u16" where
  "pwm_timing_level_for_duty timing duty =
     (case timing of
        None \<Rightarrow> 0
      | Some t \<Rightarrow>
          (if duty = 0 then 0
           else
             (let period = ucast (wrap t) + 1 :: u32 in
              ucast ((ucast duty * period + 65535 div 2) div 65535))))"

definition pwm_timing_level_for_pulse_us :: "u32 \<Rightarrow> pwm_timing_t option \<Rightarrow> u32 \<Rightarrow> u16" where
  "pwm_timing_level_for_pulse_us clock_hz timing pulse_us =
     (case timing of
        None \<Rightarrow> 0
      | Some t \<Rightarrow>
          (if clock_hz = 0 \<or> pulse_us = 0 then 0
           else
             (let div16 = pwm_timing_div16 t in
              if div16 = 0 then 0
              else
                (let a = (unat pulse_us * unat clock_hz * 16) mod 2 ^ 64;
                     b = div16 * 1000000;
                     counts = ((a + b div 2) mod 2 ^ 64) div b;
                     period = unat (wrap t) + 1 in
                 if period \<le> counts then word_of_nat period else word_of_nat counts))))"

subsection \<open>Divider and wrap\<close>

text \<open>
  What the code promises of a frequency it accepts. The total is the period in sixteenths of a
  clock tick, rounded to nearest.
\<close>

definition period_total :: "u32 \<Rightarrow> u32 \<Rightarrow> nat" where
  "period_total clock_hz target_hz = div_round (unat clock_hz * 16) (unat target_hz)"

definition period_counts :: "pwm_timing_t \<Rightarrow> nat" where
  "period_counts t = unat (wrap t) + 1"

definition smallest_divider :: "nat \<Rightarrow> nat" where
  "smallest_divider ticks = max 16 ((65534 + ticks) div 65535)"

lemma period_counts_of:
  assumes "1 \<le> n" and "n \<le> 65535"
  shows "period_counts \<lparr>divider_int = i, divider_frac = f, wrap = word_of_nat (n - 1)\<rparr> = n"
proof -
  have "unat (word_of_nat (n - 1) :: u16) = n - 1"
    by (rule unat_of_nat_lt) (use assms in simp)
  then show ?thesis using assms by (simp only: period_counts_def pwm_timing_t.simps)
qed

lemma smallest_divider_fits: "ticks \<le> smallest_divider ticks * 65535"
proof -
  have "65534 + ticks = (65534 + ticks) div 65535 * 65535 + (65534 + ticks) mod 65535" by simp
  moreover have "(65534 + ticks) mod 65535 < 65535" by simp
  ultimately have "ticks \<le> (65534 + ticks) div 65535 * 65535" by linarith
  then show ?thesis by (simp add: smallest_divider_def max_def)
qed

lemma smallest_divider_least: "16 \<le> d \<Longrightarrow> p \<le> 65535 \<Longrightarrow> ticks \<le> d * p \<Longrightarrow> smallest_divider ticks \<le> d"
proof -
  assume d: "16 \<le> d" and "p \<le> 65535" and "ticks \<le> d * p"
  then have "ticks \<le> d * 65535" using mult_le_mono2 [of p 65535 d] by linarith
  then have "(65534 + ticks) div 65535 \<le> (d * 65535 + 65534) div 65535" by (intro div_le_mono) simp
  also have "\<dots> = d" by simp
  finally show ?thesis using d by (simp add: smallest_divider_def)
qed

lemma smallest_divider_small: "smallest_divider ticks \<le> 4095 \<longleftrightarrow> ticks \<le> 4095 * 65535"
proof
  assume "smallest_divider ticks \<le> 4095"
  then have "smallest_divider ticks * 65535 \<le> 4095 * 65535" by (rule mult_le_mono1)
  with smallest_divider_fits [of ticks] show "ticks \<le> 4095 * 65535" by (rule le_trans)
next
  assume "ticks \<le> 4095 * 65535"
  then show "smallest_divider ticks \<le> 4095" by (intro smallest_divider_least [where p = 65535]) simp_all
qed

lemma counter_fits:
  assumes "16 \<le> ticks"
  shows "1 \<le> div_round ticks (smallest_divider ticks)" and "div_round ticks (smallest_divider ticks) \<le> 65535"
proof -
  let ?d = "smallest_divider ticks"
  have "16 \<le> ?d" by (simp add: smallest_divider_def)
  have "?d = 16 \<or> 65535 * (?d - 1) < ticks"
  proof (cases "?d = 16")
    case False
    then have "?d = (65534 + ticks) div 65535" by (auto simp: smallest_divider_def max_def split: if_splits)
    then have "?d * 65535 \<le> 65534 + ticks" by simp
    then show ?thesis using \<open>16 \<le> ?d\<close> by linarith
  qed simp
  then have "?d \<le> 2 * ticks" using assms \<open>16 \<le> ?d\<close> by auto
  with \<open>16 \<le> ?d\<close> show "1 \<le> div_round ticks ?d" by (intro div_round_pos) simp_all
  show "div_round ticks ?d \<le> 65535"
    using smallest_divider_fits [of ticks] \<open>16 \<le> ?d\<close> by (intro div_round_le) (simp_all add: mult.commute)
qed

lemma code_divider:
  "(if (ticks + 65535 - 1) div 65535 < 16 then 16 else (ticks + 65535 - 1) div 65535) = smallest_divider ticks"
  by (simp add: smallest_divider_def max_def add.commute [of ticks])

lemma for_frequency_cases:
  assumes "clock_hz \<noteq> 0" and "target_hz \<noteq> 0"
  defines "ticks \<equiv> period_total clock_hz target_hz"
  shows "pwm_timing_for_frequency clock_hz target_hz (Some t0) =
    (if ticks < 16 then (PWM_TIMING_TOO_FAST, Some t0)
     else if 4095 * 65535 < ticks then (PWM_TIMING_TOO_SLOW, Some t0)
     else (PWM_TIMING_OK,
       Some \<lparr>divider_int = word_of_nat (smallest_divider ticks div 16),
         divider_frac = word_of_nat (smallest_divider ticks mod 16),
         wrap = word_of_nat (div_round ticks (smallest_divider ticks) - 1)\<rparr>))"
  using assms(1,2) counter_fits [of ticks] smallest_divider_small [of ticks]
  unfolding pwm_timing_for_frequency_def Let_def code_divider
  by (cases "ticks < 16"; cases "4095 * 65535 < ticks")
    (simp_all add: ticks_def [unfolded period_total_def, symmetric] not_le not_less)

text \<open>The divider and wrap for a frequency. The call succeeds exactly when the period, in sixteenths of a clock
  tick, is between one count at the fastest and the longest the divider and the counter reach, and names
  the side it failed on. The divider it chooses is within the hardware's range and is the smallest
  with which any counter length covers the period, the counter leaves a level above it free, and the
  period differs from the asked one by at most half a count.
\<close>

theorem pwm_timing_is_best:
  assumes "clock_hz \<noteq> 0" and "target_hz \<noteq> 0"
  defines "ticks \<equiv> period_total clock_hz target_hz"
  shows "case pwm_timing_for_frequency clock_hz target_hz (Some t0) of (r, t) \<Rightarrow>
      (r = PWM_TIMING_TOO_FAST \<longleftrightarrow> ticks < 16) \<and> (r = PWM_TIMING_TOO_SLOW \<longleftrightarrow> 4095 * 65535 < ticks)
      \<and> (if r = PWM_TIMING_OK
         then 16 \<le> pwm_timing_div16 (the t) \<and> pwm_timing_div16 (the t) \<le> 4095
           \<and> unat (divider_frac (the t)) < 16 \<and> period_counts (the t) \<le> 65535
           \<and> 2 * (pwm_timing_div16 (the t) * period_counts (the t)) \<le> 2 * ticks + pwm_timing_div16 (the t)
           \<and> 2 * ticks \<le> 2 * (pwm_timing_div16 (the t) * period_counts (the t)) + pwm_timing_div16 (the t)
           \<and> (\<forall>d p. 16 \<le> d \<longrightarrow> p \<le> 65535 \<longrightarrow> ticks \<le> d * p \<longrightarrow> pwm_timing_div16 (the t) \<le> d)
         else t = Some t0)"
proof (cases "16 \<le> ticks \<and> ticks \<le> 4095 * 65535")
  case True
  let ?d = "smallest_divider ticks"
  let ?t = "\<lparr>divider_int = word_of_nat (?d div 16), divider_frac = word_of_nat (?d mod 16),
    wrap = word_of_nat (div_round ticks ?d - 1)\<rparr>"
  have d: "16 \<le> ?d" "?d \<le> 4095" using True by (simp_all add: smallest_divider_small) (simp add: smallest_divider_def)
  have p: "1 \<le> div_round ticks ?d" "div_round ticks ?d \<le> 65535"
    using counter_fits [of ticks] True by simp_all
  have "pwm_timing_div16 ?t = ?d"
    using d by (simp add: pwm_timing_div16_def unat_of_nat_lt)
  moreover have "period_counts ?t = div_round ticks ?d"
    using p by (rule period_counts_of)
  moreover have "unat (divider_frac ?t) < 16" by (simp add: unat_of_nat_lt)
  moreover have "pwm_timing_for_frequency clock_hz target_hz (Some t0) = (PWM_TIMING_OK, Some ?t)"
    using for_frequency_cases [OF assms(1,2)] True by (simp add: ticks_def)
  ultimately show ?thesis
    using True d p div_round_nearest [of ?d ticks] by (auto simp: mult.commute intro: smallest_divider_least)
next
  case False
  then show ?thesis
    using for_frequency_cases [OF assms(1,2)] by (auto simp: ticks_def)
qed

theorem pwm_timing_is_best_witness:
  "pwm_timing_for_frequency 125000000 50 (Some \<lparr>divider_int = 0, divider_frac = 0, wrap = 0\<rparr>)
     = (PWM_TIMING_OK, Some \<lparr>divider_int = 38, divider_frac = 3, wrap = 65465\<rparr>)
   \<and> \<not> 40000000 \<le> 610 * (65535 :: nat)"
proof -
  have r: "pwm_timing_for_frequency 125000000 50 (Some \<lparr>divider_int = 0, divider_frac = 0, wrap = 0\<rparr>)
     = (PWM_TIMING_OK, Some \<lparr>divider_int = 38, divider_frac = 3, wrap = 65465\<rparr>)"
    by (simp add: pwm_timing_for_frequency_def div_round_def)
  have "period_total 125000000 50 = 40000000"
    by (simp add: period_total_def div_round_def)
  then have least: "\<forall>d p :: nat. 16 \<le> d \<longrightarrow> p \<le> 65535 \<longrightarrow> 40000000 \<le> d * p \<longrightarrow> 611 \<le> d"
    using pwm_timing_is_best [of 125000000 50 "\<lparr>divider_int = 0, divider_frac = 0, wrap = 0\<rparr>"]
    by (simp add: r pwm_timing_div16_def)
  have "\<not> 40000000 \<le> 610 * (65535 :: nat)"
  proof
    assume "40000000 \<le> 610 * (65535 :: nat)"
    from least [rule_format, OF _ _ this] have "(611 :: nat) \<le> 610" by simp
    then show False by simp
  qed
  with r show ?thesis by blast
qed

text \<open>The frequency reported back is the one asked for whenever the registers give it exactly.\<close>

lemma pwm_frequency_exact:
  assumes "unat clock_hz * 16 = unat target_hz * (pwm_timing_div16 t * period_counts t)" and "clock_hz \<noteq> 0"
  shows "pwm_timing_frequency clock_hz (Some t) = target_hz"
proof -
  let ?b = "pwm_timing_div16 t * period_counts t"
  have "unat clock_hz * 16 \<noteq> 0" using assms(2) by (simp add: unat_eq_0)
  then have "0 < ?b" using assms(1) by (metis gr0I mult_0_right)
  then have "div_round (unat clock_hz * 16) ?b = unat target_hz" and "pwm_timing_div16 t \<noteq> 0"
    using assms(1) div_round_exact [of ?b "unat target_hz"] by (simp_all add: mult.commute)
  then show ?thesis by (simp add: pwm_timing_frequency_def period_counts_def Let_def)
qed

subsection \<open>Levels\<close>

lemma duty_product_fits:
  assumes "unat (wrap t) < 65535"
  shows "(unat (duty :: u16) * period_counts t + 32767) div 65535 \<le> period_counts t"
proof -
  have "unat duty * period_counts t \<le> 65535 * period_counts t"
    using unsigned_less [of duty, where ?'a = nat] by (intro mult_le_mono1) simp
  then have "(unat duty * period_counts t + 32767) div 65535 \<le> (65535 * period_counts t + 32767) div 65535"
    by (intro div_le_mono) simp
  then show ?thesis by simp
qed

lemma scaled_nat:
  fixes x y :: u32
  assumes "unat x = d" and "unat y = p" and "d * p \<le> 65535 * 65535"
  shows "unat ((x * y + 65535 div 2) div 65535) = (d * p + 32767) div 65535"
  using assms by (simp add: unat_div unat_word_ariths(1,2))

lemma level_for_duty_nat:
  assumes "unat (wrap t) < 65535"
  shows "unat (pwm_timing_level_for_duty (Some t) duty) = div_round (unat duty * period_counts t) 65535"
proof (cases "duty = 0")
  case False
  let ?p = "period_counts t"
  have p: "unat (ucast (wrap t) + 1 :: u32) = ?p"
    using assms by (simp add: period_counts_def unat_word_ariths unsigned_ucast_eq take_bit_nat_eq_self)
  have d: "unat (ucast duty :: u32) = unat duty"
    using unsigned_less [of duty, where ?'a = nat] by (simp add: unsigned_ucast_eq take_bit_nat_eq_self)
  have "unat duty * ?p \<le> 65535 * 65535"
    using assms unsigned_less [of duty, where ?'a = nat] by (intro mult_le_mono) (simp_all add: period_counts_def)
  then have e: "unat ((ucast duty * (ucast (wrap t) + 1) + 65535 div 2) div 65535 :: u32)
      = (unat duty * ?p + 32767) div 65535"
    using scaled_nat [OF d p] by simp
  moreover have "(unat duty * ?p + 32767) div 65535 < 65536"
    using duty_product_fits [OF assms, of duty] assms by (simp add: period_counts_def)
  ultimately show ?thesis
    using False e unfolding pwm_timing_level_for_duty_def
    by (simp only: Let_def option.case if_False unsigned_ucast_eq) (simp add: div_round_def take_bit_nat_eq_self)
qed (simp add: pwm_timing_level_for_duty_def div_round_def)

text \<open>A duty cycle means the same at every frequency. For any timing that the code computes, off is
  always low, full is exactly one count above the counter's top, which is always high, a larger duty
  never gives a smaller level, and each level is a nearest one to its share of the period.
\<close>

theorem pwm_duty_scaled:
  assumes "unat (wrap t) < 65535"
  shows "pwm_timing_level_for_duty (Some t) 0 = 0"
    and "unat (pwm_timing_level_for_duty (Some t) 65535) = unat (wrap t) + 1"
    and "d \<le> e \<longrightarrow> pwm_timing_level_for_duty (Some t) d \<le> pwm_timing_level_for_duty (Some t) e"
    and "2 * (unat (pwm_timing_level_for_duty (Some t) d) * 65535)
           \<le> 2 * (unat d * period_counts t) + 65535"
    and "2 * (unat d * period_counts t)
           \<le> 2 * (unat (pwm_timing_level_for_duty (Some t) d) * 65535) + 65535"
proof -
  show "pwm_timing_level_for_duty (Some t) 0 = 0" by (simp add: pwm_timing_level_for_duty_def)
  show "unat (pwm_timing_level_for_duty (Some t) 65535) = unat (wrap t) + 1"
    using div_round_exact [of 65535 "period_counts t"]
    by (simp add: level_for_duty_nat [OF assms]) (simp add: period_counts_def)
  show "d \<le> e \<longrightarrow> pwm_timing_level_for_duty (Some t) d \<le> pwm_timing_level_for_duty (Some t) e"
    unfolding word_le_nat_alt level_for_duty_nat [OF assms] div_round_def
    by (intro impI div_le_mono add_le_mono1 mult_le_mono1)
  show "2 * (unat (pwm_timing_level_for_duty (Some t) d) * 65535)
           \<le> 2 * (unat d * period_counts t) + 65535"
    and "2 * (unat d * period_counts t)
           \<le> 2 * (unat (pwm_timing_level_for_duty (Some t) d) * 65535) + 65535"
    using div_round_nearest [of 65535 "unat d * period_counts t"]
    by (simp_all add: level_for_duty_nat [OF assms])
qed

theorem pwm_duty_scaled_witness:
  "unat (pwm_timing_level_for_duty (Some \<lparr>divider_int = 38, divider_frac = 3, wrap = 65465\<rparr>) 65535) = 65466
   \<and> pwm_timing_level_for_duty (Some \<lparr>divider_int = 38, divider_frac = 3, wrap = 65465\<rparr>) 6554 = 6547"
  using pwm_duty_scaled(2) [of "\<lparr>divider_int = 38, divider_frac = 3, wrap = 65465\<rparr>"]
  by (simp add: pwm_timing_level_for_duty_def)

text \<open>
  A pulse is the nearest number of counts and never longer than the frame, as long as the 64-bit
  product holds.
\<close>

lemma pwm_pulse_nearest:
  assumes "unat pulse_us * unat clock_hz * 16 + pwm_timing_div16 t * 1000000 < 2 ^ 64"
    and "clock_hz \<noteq> 0" and "pwm_timing_div16 t \<noteq> 0" and "unat (wrap t) < 65535"
  shows "unat (pwm_timing_level_for_pulse_us clock_hz (Some t) pulse_us)
    = min (period_counts t) (div_round (unat pulse_us * unat clock_hz * 16) (pwm_timing_div16 t * 1000000))"
proof (cases "pulse_us = 0")
  case False
  let ?a = "unat pulse_us * unat clock_hz * 16" and ?b = "pwm_timing_div16 t * 1000000"
  have "?b div 2 \<le> ?b" by simp
  with assms(1) have "?a < 2 ^ 64" "?a + ?b div 2 < 2 ^ 64" by linarith+
  then have "((?a mod 2 ^ 64) + ?b div 2) mod 2 ^ 64 div ?b = div_round ?a ?b"
    by (simp add: div_round_def)
  moreover have "period_counts t \<le> 65535" using assms(4) by (simp add: period_counts_def)
  ultimately show ?thesis
    using False assms(2,3) unfolding pwm_timing_level_for_pulse_us_def Let_def period_counts_def [symmetric]
    by (simp only: option.case if_False if_True simp_thms split: if_split) (simp add: unat_of_nat_lt)
qed (simp add: pwm_timing_level_for_pulse_us_def div_round_def)

text \<open>
  Beyond that the product wraps: on a 300 MHz clock a pulse of about 64 minutes in a 20 ms frame,
  which should be a solid line, comes out as three counts.
\<close>

lemma pwm_long_pulse_wraps:
  "pwm_timing_level_for_pulse_us 300000000 (Some \<lparr>divider_int = 92, divider_frac = 0, wrap = 65216\<rparr>) 3843071683 = 3"
  by (simp add: pwm_timing_level_for_pulse_us_def pwm_timing_div16_def)

end
