(* ===== verification/Half_Duplex_Timing.thy ===== *)
theory Half_Duplex_Timing
  imports Rounding "HOL-Library.Signed_Division"
begin

text \<open>
  Model of \<open>components/half_duplex_uart/half_duplex_uart_timing.c\<close>: the 8.8 fixed-point divider of the
  PIO clock for a baud rate, the error it leaves, and the time frames take on the wire. The 64-bit
  intermediate values are naturals and, for the signed error, integers: with 32-bit arguments none
  reaches \<open>2^63\<close>. C divides signed integers towards zero, which is \<open>sdiv\<close> here.
\<close>

abbreviation (input) "HALF_DUPLEX_UART_CYCLES_PER_BIT \<equiv> (8 :: nat)"
abbreviation (input) "DIVIDER_FRACTION_STEPS \<equiv> (256 :: nat)"
abbreviation (input) "DIVIDER_256_MIN \<equiv> (1 * 256 :: nat)"
abbreviation (input) "DIVIDER_256_MAX \<equiv> (65536 * 256 :: nat)"
abbreviation (input) "HALF_DUPLEX_UART_MAX_ERROR_PERMILLE \<equiv> (20 :: int)"

record half_duplex_uart_timing_t =
  divider_int :: u16
  divider_frac :: u8
  actual_baudrate :: u32
  error_permille :: "32 word"

definition half_duplex_uart_compute_timing :: "u32 \<Rightarrow> u32 \<Rightarrow> half_duplex_uart_timing_t option" where
  "half_duplex_uart_compute_timing sys_clock_hz baudrate =
     (if sys_clock_hz = 0 \<or> baudrate = 0 then None
      else
        (let cycles_per_second = unat baudrate * HALF_DUPLEX_UART_CYCLES_PER_BIT;
             numerator = unat sys_clock_hz * DIVIDER_FRACTION_STEPS;
             divider_256 = (numerator + cycles_per_second div 2) div cycles_per_second in
         if divider_256 < DIVIDER_256_MIN \<or> DIVIDER_256_MAX < divider_256 then None
         else
           (let actual = (numerator + (divider_256 * HALF_DUPLEX_UART_CYCLES_PER_BIT) div 2)
                           div (divider_256 * HALF_DUPLEX_UART_CYCLES_PER_BIT);
                error = (int actual - uint baudrate) * 1000 in
            Some \<lparr>divider_int = word_of_nat (divider_256 div DIVIDER_FRACTION_STEPS),
              divider_frac = word_of_nat (divider_256 mod DIVIDER_FRACTION_STEPS),
              actual_baudrate = word_of_nat actual,
              error_permille = word_of_int (error sdiv uint baudrate)\<rparr>)))"

definition half_duplex_uart_timing_is_usable :: "half_duplex_uart_timing_t option \<Rightarrow> bool" where
  "half_duplex_uart_timing_is_usable timing =
     (case timing of
        None \<Rightarrow> False
      | Some t \<Rightarrow>
          (let e = sint (error_permille t); magnitude = (if e < 0 then - e else e) in
           magnitude \<le> HALF_DUPLEX_UART_MAX_ERROR_PERMILLE))"

definition half_duplex_uart_frame_time_us :: "u32 \<Rightarrow> u32 \<Rightarrow> u32" where
  "half_duplex_uart_frame_time_us baudrate bytes =
     (if baudrate = 0 then 0
      else
        (let bits = unat bytes * 10 in
         word_of_nat ((bits * 1000000 + unat baudrate - 1) div unat baudrate)))"

subsection \<open>The divider\<close>

text \<open>The divider the hardware uses, in 256ths: an integer part of 0 stands for 65536.\<close>

definition divider_256ths :: "half_duplex_uart_timing_t \<Rightarrow> nat" where
  "divider_256ths t = (if divider_int t = 0 then 65536 else unat (divider_int t)) * 256 + unat (divider_frac t)"

lemma encoded_divider:
  assumes "256 \<le> D" and "D \<le> 65536 * 256"
  shows "divider_256ths \<lparr>divider_int = word_of_nat (D div 256), divider_frac = word_of_nat (D mod 256),
    actual_baudrate = a, error_permille = e\<rparr> = D"
proof (cases "D = 65536 * 256")
  case False
  then have "D div 256 < 65536" and "D div 256 \<noteq> 0" using assms by simp_all
  then have "unat (word_of_nat (D div 256) :: u16) = D div 256" by (intro unat_of_nat_lt) simp
  moreover from this have "(word_of_nat (D div 256) :: u16) \<noteq> 0" using \<open>D div 256 \<noteq> 0\<close> by (metis unat_0)
  moreover have "unat (word_of_nat (D mod 256) :: u8) = D mod 256" by (intro unat_of_nat_lt) simp
  ultimately show ?thesis by (simp only: divider_256ths_def half_duplex_uart_timing_t.simps if_False) simp
qed (simp add: divider_256ths_def)

lemma within: "2 * p \<le> 2 * q + b + d \<Longrightarrow> 2 * q \<le> 2 * p + b + d \<Longrightarrow> 2 * \<bar>p - q\<bar> \<le> b + (d :: int)"
  by (simp add: abs_if)

text \<open>
  The rate that a divider of at least one gives is off by less than half a bit per second and one part in 512: both
  roundings are to nearest.
\<close>

lemma rate_error:
  fixes clock baud :: nat
  assumes "0 < baud" and "256 \<le> div_round (clock * 256) (baud * 8)"
  defines "D \<equiv> div_round (clock * 256) (baud * 8)"
  shows "512 * \<bar>int (div_round (clock * 256) (D * 8)) - int baud\<bar> \<le> 256 + int baud"
proof -
  let ?a = "div_round (clock * 256) (D * 8)"
  have D: "256 \<le> D" using assms(2) by (simp add: D_def)
  have 1: "2 * (D * (baud * 8)) \<le> 2 * (clock * 256) + baud * 8" "2 * (clock * 256) \<le> 2 * (D * (baud * 8)) + baud * 8"
    using div_round_nearest [of "baud * 8" "clock * 256"] assms(1) unfolding D_def by simp_all
  have 2: "2 * (?a * (D * 8)) \<le> 2 * (clock * 256) + D * 8" "2 * (clock * 256) \<le> 2 * (?a * (D * 8)) + D * 8"
    using div_round_nearest [of "D * 8" "clock * 256"] D by simp_all
  have "2 * (?a * D) \<le> 2 * (baud * D) + baud + D" "2 * (baud * D) \<le> 2 * (?a * D) + baud + D"
    using 1 2 by (simp_all add: mult_ac)
  then have "2 * (int ?a * int D) \<le> 2 * (int baud * int D) + int baud + int D"
    "2 * (int baud * int D) \<le> 2 * (int ?a * int D) + int baud + int D"
    by (simp_all flip: of_nat_mult of_nat_add)
  then have "2 * \<bar>(int ?a - int baud) * int D\<bar> \<le> int baud + int D"
    unfolding left_diff_distrib by (rule within)
  then have "2 * (\<bar>int ?a - int baud\<bar> * int D) \<le> int baud + int D"
    by (simp add: abs_mult)
  define x where "x = \<bar>int ?a - int baud\<bar>"
  have "256 * (2 * x - 1) * int D \<le> 256 * int baud"
    using \<open>2 * (\<bar>int ?a - int baud\<bar> * int D) \<le> int baud + int D\<close>
    unfolding x_def [symmetric] by (simp add: algebra_simps)
  moreover have "256 * (2 * x - 1) * 256 \<le> 256 * (2 * x - 1) * int D" if "0 < x"
    using that D by (intro mult_left_mono) simp_all
  ultimately have "0 < x \<Longrightarrow> 256 * (2 * x - 1) * 256 \<le> 256 * int baud" by (blast intro: order_trans)
  then have "512 * x \<le> 256 + int baud" by (cases "0 < x") simp_all
  then show ?thesis by (simp add: x_def)
qed

lemma odd_multiple: "2 * (a * x) \<le> c + x \<Longrightarrow> (2 * a - 1) * x \<le> (c :: nat)"
  by (simp add: diff_mult_distrib mult.assoc)

lemma permille_small:
  fixes a b :: int
  assumes "0 < b" and "512 * \<bar>a - b\<bar> \<le> 256 + b"
  shows "\<bar>(a - b) * 1000 sdiv b\<bar> \<le> 20"
proof -
  have "\<bar>a - b\<bar> * 1000 div b \<le> 20"
  proof (cases "b < 28")
    case True
    define x where "x = \<bar>a - b\<bar>"
    have "512 * x < 512" using True assms(2) unfolding x_def [symmetric] by linarith
    then have "a = b" by (simp add: x_def)
    then show ?thesis by simp
  next
    case False
    then have "\<bar>a - b\<bar> * 1000 \<le> 20 * b" using assms(2) by linarith
    then have "\<bar>a - b\<bar> * 1000 div b \<le> 20 * b div b" using assms(1) by (intro zdiv_mono1)
    then show ?thesis using assms(1) by simp
  qed
  moreover have "0 \<le> \<bar>a - b\<bar> * 1000 div b" using assms(1) by (simp add: pos_imp_zdiv_nonneg_iff)
  moreover have "\<bar>c sdiv b\<bar> = \<bar>c\<bar> div b" for c
    using assms(1) by (cases "c = 0") (simp_all add: signed_divide_int_def abs_mult abs_sgn_eq pos_imp_zdiv_nonneg_iff)
  moreover have "\<bar>(a - b) * 1000\<bar> = \<bar>a - b\<bar> * 1000" by (simp only: abs_mult)
  ultimately show ?thesis by metis
qed

text \<open>A divider is given exactly when the nearest one in 256ths is within the hardware's range, which
  includes its encoding of 65536 as zero, and it is that nearest one. The rate it really gives is
  then always within the tolerance, so the check of the driver never refuses a divider that exists.
\<close>

theorem half_duplex_divider_nearest:
  assumes "clock \<noteq> 0" and "baud \<noteq> 0"
  shows "case half_duplex_uart_compute_timing clock baud of
      None \<Rightarrow> div_round (unat clock * 256) (unat baud * 8) < 256 \<or> 65536 * 256 < div_round (unat clock * 256) (unat baud * 8)
    | Some t \<Rightarrow> divider_256ths t = div_round (unat clock * 256) (unat baud * 8)
        \<and> 512 * \<bar>uint (actual_baudrate t) - uint baud\<bar> \<le> 256 + uint baud
        \<and> half_duplex_uart_timing_is_usable (Some t)"
proof -
  let ?D = "div_round (unat clock * 256) (unat baud * 8)"
  let ?a = "div_round (unat clock * 256) (?D * 8)"
  have b: "0 < unat baud" using assms(2) by (simp add: unat_gt_0)
  show ?thesis
  proof (cases "256 \<le> ?D \<and> ?D \<le> 65536 * 256")
    case True
    define e where "e = (int ?a - uint baud) * 1000 sdiv uint baud"
    let ?t = "\<lparr>divider_int = word_of_nat (?D div 256), divider_frac = word_of_nat (?D mod 256),
      actual_baudrate = word_of_nat ?a, error_permille = word_of_int e\<rparr>"
    have r: "half_duplex_uart_compute_timing clock baud = Some ?t"
      using assms True unfolding half_duplex_uart_compute_timing_def Let_def div_round_def [symmetric] e_def by simp
    have err: "512 * \<bar>int ?a - uint baud\<bar> \<le> 256 + uint baud"
      using rate_error [OF b, of "unat clock"] True by simp
    have "2 * (?a * (?D * 8)) \<le> 2 * (unat clock * 256) + ?D * 8"
      using div_round_nearest(1) [of "?D * 8" "unat clock * 256"] True by simp
    then have "(2 * ?a - 1) * (?D * 8) \<le> 512 * unat clock"
      using odd_multiple [of ?a "?D * 8" "512 * unat clock"] by simp
    moreover have "(2 * ?a - 1) * (256 * 8) \<le> (2 * ?a - 1) * (?D * 8)" using True by (intro mult_le_mono) simp_all
    ultimately have "(2 * ?a - 1) * (256 * 8) \<le> 512 * unat clock" by (rule le_trans [rotated])
    then have "?a < 2 ^ 32" using unat_u32_lt [of clock] by simp
    then have "unat (word_of_nat ?a :: u32) = ?a" by (intro unat_of_nat_lt) simp
    then have ua: "uint (word_of_nat ?a :: u32) = int ?a" by (simp only: uint_nat)
    have small: "\<bar>e\<bar> \<le> 20" unfolding e_def using permille_small [OF _ err] b by (simp only: uint_nat)
    have se: "sint (word_of_int e :: 32 word) = e"
      using small by (simp add: sint_sbintrunc' signed_take_bit_int_eq_self)
    moreover have "divider_256ths ?t = ?D"
      using True by (intro encoded_divider) simp_all
    moreover have "half_duplex_uart_timing_is_usable (Some ?t)"
      using small se by (simp add: half_duplex_uart_timing_is_usable_def abs_if split: if_splits)
    ultimately show ?thesis
      using err ua unfolding r by (simp only: option.case half_duplex_uart_timing_t.simps)
  next
    case False
    then have "half_duplex_uart_compute_timing clock baud = None"
      using assms unfolding half_duplex_uart_compute_timing_def Let_def div_round_def [symmetric] by auto
    with False show ?thesis by auto
  qed
qed

theorem half_duplex_divider_nearest_witness:
  "half_duplex_uart_compute_timing 150000000 1000000
     = Some \<lparr>divider_int = 18, divider_frac = 192, actual_baudrate = 1000000, error_permille = 0\<rparr>
   \<and> divider_256ths \<lparr>divider_int = 18, divider_frac = 192, actual_baudrate = 1000000, error_permille = 0\<rparr> = 4800"
proof -
  have r: "half_duplex_uart_compute_timing 150000000 1000000
     = Some \<lparr>divider_int = 18, divider_frac = 192, actual_baudrate = 1000000, error_permille = 0\<rparr>"
    by (simp add: half_duplex_uart_compute_timing_def Let_def signed_divide_int_def)
  then show ?thesis
    using half_duplex_divider_nearest [of 150000000 1000000] by (simp add: div_round_def)
qed

subsection \<open>Time on the wire\<close>

text \<open>
  The time is the least whole number of microseconds that covers the bits, as long as it fits 32
  bits; beyond that it is cut to them, and is short.
\<close>

lemma frame_time_least:
  assumes "baud \<noteq> 0" and "unat bytes * 10000000 \<le> (2 ^ 32 - 1) * unat baud"
  defines "t \<equiv> half_duplex_uart_frame_time_us baud bytes"
  shows "unat bytes * 10000000 \<le> unat t * unat baud"
    and "unat bytes * 10000000 \<le> u * unat baud \<Longrightarrow> unat t \<le> u"
proof -
  let ?b = "unat baud" and ?n = "unat bytes * 10000000"
  have b: "0 < ?b" using assms(1) by (simp add: unat_gt_0)
  have least: "(?n + ?b - 1) div ?b \<le> u" if "?n \<le> u * ?b" for u
  proof -
    have "(?n + ?b - 1) div ?b \<le> (u * ?b + ?b - 1) div ?b" using that b by (intro div_le_mono) simp
    also have "\<dots> = u" using b by (intro div_nat_eqI) (auto simp: mult.commute [of u])
    finally show ?thesis .
  qed
  from least [OF assms(2)] have "unat (word_of_nat ((?n + ?b - 1) div ?b) :: u32) = (?n + ?b - 1) div ?b"
    by (intro unat_of_nat_lt) simp
  moreover have "unat bytes * 10 * 1000000 = ?n" by simp
  ultimately have t: "unat t = (?n + ?b - 1) div ?b"
    using assms(1) unfolding t_def half_duplex_uart_frame_time_us_def Let_def by (simp only: if_False)
  show "?n \<le> u * ?b \<Longrightarrow> unat t \<le> u" unfolding t by (rule least)
  have "?n + ?b - 1 = (?n + ?b - 1) div ?b * ?b + (?n + ?b - 1) mod ?b" by simp
  moreover have "(?n + ?b - 1) mod ?b < ?b" using b by simp
  ultimately show "?n \<le> unat t * ?b" unfolding t using b by linarith
qed

lemma frame_time_wraps: "half_duplex_uart_frame_time_us 9600 4123169 = 413"
  by (simp add: half_duplex_uart_frame_time_us_def)

end
