(* ===== verification/Half_Duplex_Uart.thy ===== *)
theory Half_Duplex_Uart
  imports Half_Duplex_Timing
begin

text \<open>
  Model of \<open>components/half_duplex_uart/half_duplex_uart.c\<close>: one shared wire driven by two state machines of a PIO
  block. The Pico SDK and the hardware behind it are the parameter \<open>sdk\<close>, a record of the functions the code
  calls; what the hardware does is the last component of the state, of any type \<open>'w\<close>. The calls that only set
  registers up are one function, \<open>pio_do\<close>, of the call and its arguments. The loops that wait for the
  hardware are partial functions: \<open>None\<close> is a wait that does not end. Times are naturals, in
  microseconds; a \<open>uint\<close> of the SDK (a pin, a state machine, an offset) is a natural.
\<close>

subsection \<open>The SDK\<close>

datatype pio_program = Half_duplex_uart_tx_program | Half_duplex_uart_rx_program

datatype sm_setting = Out_pins nat nat | Set_pins nat nat | Sideset_pins nat | Out_shift bool bool nat
  | In_pins nat | In_shift bool bool nat | Jmp_pin nat | Fifo_join_tx | Fifo_join_rx

datatype pio_op = Remove_program pio_program nat | Sm_unclaim nat | Clkdiv_int_frac nat u16 u8 | Pio_gpio_init nat
  | Gpio_pull_up nat | Set_pins_with_mask nat u32 u32 | Consecutive_pindirs nat nat nat bool
  | Sm_init nat pio_program nat "sm_setting list" | Sm_enabled nat bool | Sm_clear_fifos nat | Sm_restart nat
  | Sm_exec_jmp nat nat | Sm_put_blocking nat u32 | Fdebug_write u32

record 'w hd_sdk =
  clk_sys_hz :: u32
  get_time_us :: "'w \<Rightarrow> nat \<times> 'w"
  add_program :: "pio_program \<Rightarrow> 'w \<Rightarrow> int \<times> 'w"
  claim_unused_sm :: "'w \<Rightarrow> int \<times> 'w"
  rx_fifo_empty :: "nat \<Rightarrow> 'w \<Rightarrow> bool \<times> 'w"
  sm_get :: "nat \<Rightarrow> 'w \<Rightarrow> u32 \<times> 'w"
  fdebug :: "'w \<Rightarrow> u32 \<times> 'w"
  pio_do :: "pio_op \<Rightarrow> 'w \<Rightarrow> 'w"

abbreviation (input) "PIO_FDEBUG_TXSTALL_LSB \<equiv> (24 :: nat)"

definition perform_all :: "'w hd_sdk \<Rightarrow> pio_op list \<Rightarrow> 'w \<Rightarrow> 'w" where
  "perform_all sdk calls w = fold (pio_do sdk) calls w"

subsection \<open>The driver's state\<close>

datatype half_duplex_uart_result_t =
    HALF_DUPLEX_UART_OK
  | HALF_DUPLEX_UART_ERR_INVALID_ARG
  | HALF_DUPLEX_UART_ERR_BAUDRATE
  | HALF_DUPLEX_UART_ERR_NO_STATE_MACHINE
  | HALF_DUPLEX_UART_ERR_NO_PROGRAM_SPACE
  | HALF_DUPLEX_UART_ERR_TIMEOUT
  | HALF_DUPLEX_UART_ERR_OVERFLOW

datatype half_duplex_uart_echo_t = HALF_DUPLEX_UART_ECHO_DISCARD | HALF_DUPLEX_UART_ECHO_KEEP

record half_duplex_uart_config_t =
  hdc_has_pio :: bool
  hdc_pin :: nat
  hdc_direction_pin :: int
  hdc_baudrate :: u32
  hdc_echo :: half_duplex_uart_echo_t

record half_duplex_uart_t =
  hd_sm_tx :: nat
  hd_sm_rx :: nat
  hd_offset_tx :: nat
  hd_offset_rx :: nat
  hd_pin :: nat
  hd_direction_pin :: int
  hd_baudrate :: u32
  hd_echo :: half_duplex_uart_echo_t
  hd_timing :: half_duplex_uart_timing_t
  hd_initialised :: bool

subsection \<open>State machine setup\<close>

definition apply_timing :: "half_duplex_uart_t \<Rightarrow> pio_op list" where
  "apply_timing bus =
     [Clkdiv_int_frac (hd_sm_tx bus) (divider_int (hd_timing bus)) (divider_frac (hd_timing bus)),
      Clkdiv_int_frac (hd_sm_rx bus) (divider_int (hd_timing bus)) (divider_frac (hd_timing bus))]"

definition configure_tx :: "half_duplex_uart_t \<Rightarrow> pio_op list" where
  "configure_tx bus =
     (let steered = 0 \<le> hd_direction_pin bus;
          direction = nat (hd_direction_pin bus);
          side_set_pin = (if steered then direction else hd_pin bus);
          pin_values = push_bit (hd_pin bus) 1;
          pin_mask = (if steered then pin_values OR push_bit direction 1 else pin_values)
      in [Pio_gpio_init (hd_pin bus)]
         @ (if steered then [Pio_gpio_init direction] else [])
         @ [Set_pins_with_mask (hd_sm_tx bus) pin_values pin_mask]
         @ (if steered then [Consecutive_pindirs (hd_sm_tx bus) direction 1 True] else [])
         @ [Consecutive_pindirs (hd_sm_tx bus) (hd_pin bus) 1 False,
            Sm_init (hd_sm_tx bus) Half_duplex_uart_tx_program (hd_offset_tx bus)
              [Out_pins (hd_pin bus) 1, Set_pins (hd_pin bus) 1, Sideset_pins side_set_pin,
               Out_shift True False 32, Fifo_join_tx]])"

definition configure_rx :: "half_duplex_uart_t \<Rightarrow> pio_op list" where
  "configure_rx bus =
     [Gpio_pull_up (hd_pin bus), Consecutive_pindirs (hd_sm_rx bus) (hd_pin bus) 1 False,
      Sm_init (hd_sm_rx bus) Half_duplex_uart_rx_program (hd_offset_rx bus)
        [In_pins (hd_pin bus), Jmp_pin (hd_pin bus), In_shift True False 32, Fifo_join_rx]]"

text \<open>The timing a baud rate needs, when it is reachable within the tolerance.\<close>

definition usable_timing :: "'w hd_sdk \<Rightarrow> u32 \<Rightarrow> half_duplex_uart_timing_t option" where
  "usable_timing sdk baudrate =
     (let timing = half_duplex_uart_compute_timing (clk_sys_hz sdk) baudrate in
      if timing = None \<or> \<not> half_duplex_uart_timing_is_usable timing then None else timing)"

text \<open>\<open>None\<close> for the bus is the record that the call leaves as it was.\<close>

definition half_duplex_uart_init ::
  "'w hd_sdk \<Rightarrow> half_duplex_uart_config_t option \<Rightarrow> 'w \<Rightarrow> half_duplex_uart_result_t \<times> half_duplex_uart_t option \<times> 'w" where
  "half_duplex_uart_init sdk config w =
     (case config of
        None \<Rightarrow> (HALF_DUPLEX_UART_ERR_INVALID_ARG, None, w)
      | Some c \<Rightarrow>
          if \<not> hdc_has_pio c \<or> hdc_baudrate c = 0 then (HALF_DUPLEX_UART_ERR_INVALID_ARG, None, w)
          else if 0 \<le> hdc_direction_pin c \<and> nat (hdc_direction_pin c) = hdc_pin c
          then (HALF_DUPLEX_UART_ERR_INVALID_ARG, None, w)
          else
            (case usable_timing sdk (hdc_baudrate c) of
               None \<Rightarrow> (HALF_DUPLEX_UART_ERR_BAUDRATE, None, w)
             | Some timing \<Rightarrow>
                 (case add_program sdk Half_duplex_uart_tx_program w of
                    (offset_tx, w) \<Rightarrow>
                      if offset_tx < 0 then (HALF_DUPLEX_UART_ERR_NO_PROGRAM_SPACE, None, w)
                      else
                        (case add_program sdk Half_duplex_uart_rx_program w of
                           (offset_rx, w) \<Rightarrow>
                             if offset_rx < 0
                             then (HALF_DUPLEX_UART_ERR_NO_PROGRAM_SPACE, None,
                                   pio_do sdk (Remove_program Half_duplex_uart_tx_program (nat offset_tx)) w)
                             else
                               (case claim_unused_sm sdk w of
                                  (sm_tx, w) \<Rightarrow>
                                    (case claim_unused_sm sdk w of
                                       (sm_rx, w) \<Rightarrow>
                                         if sm_tx < 0 \<or> sm_rx < 0
                                         then (HALF_DUPLEX_UART_ERR_NO_STATE_MACHINE, None,
                                               perform_all sdk
                                                 ((if 0 \<le> sm_tx then [Sm_unclaim (nat sm_tx)] else [])
                                                  @ (if 0 \<le> sm_rx then [Sm_unclaim (nat sm_rx)] else [])
                                                  @ [Remove_program Half_duplex_uart_rx_program (nat offset_rx),
                                                     Remove_program Half_duplex_uart_tx_program (nat offset_tx)]) w)
                                         else
                                           (let bus = \<lparr>hd_sm_tx = nat sm_tx, hd_sm_rx = nat sm_rx,
                                                  hd_offset_tx = nat offset_tx, hd_offset_rx = nat offset_rx,
                                                  hd_pin = hdc_pin c, hd_direction_pin = hdc_direction_pin c,
                                                  hd_baudrate = hdc_baudrate c, hd_echo = hdc_echo c,
                                                  hd_timing = timing, hd_initialised = True\<rparr>
                                            in (HALF_DUPLEX_UART_OK, Some bus,
                                                perform_all sdk
                                                  (configure_tx bus @ configure_rx bus @ apply_timing bus
                                                   @ [Sm_enabled (hd_sm_tx bus) True, Sm_enabled (hd_sm_rx bus) True])
                                                  w))))))))"

definition half_duplex_uart_deinit ::
  "'w hd_sdk \<Rightarrow> half_duplex_uart_t option \<Rightarrow> 'w \<Rightarrow> half_duplex_uart_t option \<times> 'w" where
  "half_duplex_uart_deinit sdk bus w =
     (case bus of
        None \<Rightarrow> (bus, w)
      | Some b \<Rightarrow>
          if \<not> hd_initialised b then (bus, w)
          else (Some (b\<lparr>hd_initialised := False\<rparr>),
                perform_all sdk
                  [Sm_enabled (hd_sm_tx b) False, Sm_enabled (hd_sm_rx b) False, Sm_unclaim (hd_sm_tx b), Sm_unclaim (hd_sm_rx b),
                   Remove_program Half_duplex_uart_rx_program (hd_offset_rx b),
                   Remove_program Half_duplex_uart_tx_program (hd_offset_tx b)] w))"

definition half_duplex_uart_set_baudrate ::
  "'w hd_sdk \<Rightarrow> u32 \<Rightarrow> half_duplex_uart_t \<times> 'w \<Rightarrow> half_duplex_uart_result_t \<times> half_duplex_uart_t \<times> 'w" where
  "half_duplex_uart_set_baudrate sdk baudrate st =
     (case st of (bus, w) \<Rightarrow>
        if \<not> hd_initialised bus \<or> baudrate = 0 then (HALF_DUPLEX_UART_ERR_INVALID_ARG, bus, w)
        else
          (case usable_timing sdk baudrate of
             None \<Rightarrow> (HALF_DUPLEX_UART_ERR_BAUDRATE, bus, w)
           | Some timing \<Rightarrow>
               (let b = bus\<lparr>hd_baudrate := baudrate, hd_timing := timing\<rparr>
                in (HALF_DUPLEX_UART_OK, b,
                    perform_all sdk
                      ([Sm_enabled (hd_sm_tx b) False, Sm_enabled (hd_sm_rx b) False]
                       @ apply_timing b
                       @ [Sm_clear_fifos (hd_sm_tx b), Sm_clear_fifos (hd_sm_rx b),
                          Sm_restart (hd_sm_tx b), Sm_restart (hd_sm_rx b),
                          Sm_exec_jmp (hd_sm_tx b) (hd_offset_tx b), Sm_exec_jmp (hd_sm_rx b) (hd_offset_rx b),
                          Sm_enabled (hd_sm_tx b) True, Sm_enabled (hd_sm_rx b) True]) w))))"

definition half_duplex_uart_get_timing :: "half_duplex_uart_t option \<Rightarrow> half_duplex_uart_timing_t option" where
  "half_duplex_uart_get_timing bus =
     (case bus of None \<Rightarrow> None | Some b \<Rightarrow> if hd_initialised b then Some (hd_timing b) else None)"

subsection \<open>Receive\<close>

definition rx_byte :: "'w hd_sdk \<Rightarrow> half_duplex_uart_t \<Rightarrow> 'w \<Rightarrow> u8 \<times> 'w" where
  "rx_byte sdk bus w = (case sm_get sdk (hd_sm_rx bus) w of (word, w) \<Rightarrow> (ucast (drop_bit 24 word), w))"

definition half_duplex_uart_flush_rx :: "'w hd_sdk \<Rightarrow> half_duplex_uart_t \<Rightarrow> 'w \<Rightarrow> 'w" where
  "half_duplex_uart_flush_rx sdk bus w =
     (if \<not> hd_initialised bus then w else pio_do sdk (Sm_clear_fifos (hd_sm_rx bus)) w)"

text \<open>The wait for the next received byte: \<open>False\<close> when the deadline came first.\<close>

partial_function (option) await_byte ::
  "'w hd_sdk \<Rightarrow> half_duplex_uart_t \<Rightarrow> nat \<Rightarrow> 'w \<Rightarrow> (bool \<times> 'w) option" where
  "await_byte sdk bus deadline w =
     (case rx_fifo_empty sdk (hd_sm_rx bus) w of
        (none, w) \<Rightarrow>
          if \<not> none then Some (True, w)
          else
            (case get_time_us sdk w of
               (now, w) \<Rightarrow> if deadline \<le> now then Some (False, w) else await_byte sdk bus deadline w))"

text \<open>The loop of \<open>half_duplex_uart_read\<close>, with \<open>n\<close> bytes still to come and the bytes before them in the buffer.\<close>

fun read_loop ::
  "'w hd_sdk \<Rightarrow> half_duplex_uart_t \<Rightarrow> nat \<Rightarrow> nat \<Rightarrow> nat \<Rightarrow> u8 list \<Rightarrow> nat \<Rightarrow> 'w \<Rightarrow> (u8 list \<times> nat \<times> 'w) option" where
  "read_loop sdk bus inter_byte_timeout 0 deadline buffer count w = Some (buffer, count, w)"
| "read_loop sdk bus inter_byte_timeout (Suc n) deadline buffer count w =
     (case await_byte sdk bus deadline w of
        None \<Rightarrow> None
      | Some (False, w) \<Rightarrow> Some (buffer, count, w)
      | Some (True, w) \<Rightarrow>
          (case rx_byte sdk bus w of
             (byte, w) \<Rightarrow>
               (case get_time_us sdk w of
                  (now, w) \<Rightarrow>
                    read_loop sdk bus inter_byte_timeout n (now + inter_byte_timeout) (buffer[count := byte]) (count + 1) w)))"

text \<open>The results are the result, the caller's buffer and \<open>*received\<close>.\<close>

definition half_duplex_uart_read ::
  "'w hd_sdk \<Rightarrow> half_duplex_uart_t \<Rightarrow> u8 list option \<Rightarrow> nat \<Rightarrow> u32 \<Rightarrow> u32 \<Rightarrow> 'w
     \<Rightarrow> (half_duplex_uart_result_t \<times> u8 list option \<times> nat \<times> 'w) option" where
  "half_duplex_uart_read sdk bus buffer capacity timeout_us inter_byte_timeout_us w =
     (if \<not> hd_initialised bus \<or> buffer = None then Some (HALF_DUPLEX_UART_ERR_INVALID_ARG, buffer, 0, w)
      else if capacity = 0 then Some (HALF_DUPLEX_UART_OK, buffer, 0, w)
      else
        (case get_time_us sdk w of
           (now, w) \<Rightarrow>
             (case read_loop sdk bus (unat inter_byte_timeout_us) capacity (now + unat timeout_us) (the buffer) 0 w of
                None \<Rightarrow> None
              | Some (buffer, count, w) \<Rightarrow>
                  Some (if 0 < count then HALF_DUPLEX_UART_OK else HALF_DUPLEX_UART_ERR_TIMEOUT, Some buffer, count, w))))"

definition half_duplex_uart_read_exact ::
  "'w hd_sdk \<Rightarrow> half_duplex_uart_t \<Rightarrow> u8 list option \<Rightarrow> nat \<Rightarrow> u32 \<Rightarrow> 'w
     \<Rightarrow> (half_duplex_uart_result_t \<times> u8 list option \<times> 'w) option" where
  "half_duplex_uart_read_exact sdk bus buffer n timeout_us w =
     (if \<not> hd_initialised bus \<or> buffer = None then Some (HALF_DUPLEX_UART_ERR_INVALID_ARG, buffer, w)
      else if n = 0 then Some (HALF_DUPLEX_UART_OK, buffer, w)
      else
        (case half_duplex_uart_read sdk bus buffer n timeout_us timeout_us w of
           None \<Rightarrow> None
         | Some (result, buffer, received, w) \<Rightarrow>
             if result \<noteq> HALF_DUPLEX_UART_OK then Some (result, buffer, w)
             else Some (if received = n then HALF_DUPLEX_UART_OK else HALF_DUPLEX_UART_ERR_TIMEOUT, buffer, w)))"

subsection \<open>Transmit\<close>

text \<open>The wait for the transmitter to stall on its empty FIFO.\<close>

partial_function (option) await_stall :: "'w hd_sdk \<Rightarrow> u32 \<Rightarrow> 'w \<Rightarrow> 'w option" where
  "await_stall sdk stall_mask w =
     (case fdebug sdk w of
        (flags, w) \<Rightarrow> if flags AND stall_mask = 0 then await_stall sdk stall_mask w else Some w)"

text \<open>The loop that takes \<open>n\<close> echoed bytes back.\<close>

fun discard_echo :: "'w hd_sdk \<Rightarrow> half_duplex_uart_t \<Rightarrow> nat \<Rightarrow> nat \<Rightarrow> 'w \<Rightarrow> (half_duplex_uart_result_t \<times> 'w) option" where
  "discard_echo sdk bus echo_timeout 0 w = Some (HALF_DUPLEX_UART_OK, w)"
| "discard_echo sdk bus echo_timeout (Suc n) w =
     (case get_time_us sdk w of
        (now, w) \<Rightarrow>
          (case await_byte sdk bus (now + echo_timeout) w of
             None \<Rightarrow> None
           | Some (False, w) \<Rightarrow>
               Some (HALF_DUPLEX_UART_ERR_TIMEOUT, pio_do sdk (Sm_clear_fifos (hd_sm_rx bus)) w)
           | Some (True, w) \<Rightarrow> discard_echo sdk bus echo_timeout n (snd (rx_byte sdk bus w))))"

definition half_duplex_uart_write ::
  "'w hd_sdk \<Rightarrow> half_duplex_uart_t \<Rightarrow> u8 list option \<Rightarrow> nat \<Rightarrow> 'w \<Rightarrow> (half_duplex_uart_result_t \<times> 'w) option" where
  "half_duplex_uart_write sdk bus data n w =
     (if \<not> hd_initialised bus \<or> data = None \<and> 0 < n then Some (HALF_DUPLEX_UART_ERR_INVALID_ARG, w)
      else if n = 0 then Some (HALF_DUPLEX_UART_OK, w)
      else
        (let w = pio_do sdk (Sm_clear_fifos (hd_sm_rx bus)) w;
             stall_mask = push_bit (PIO_FDEBUG_TXSTALL_LSB + hd_sm_tx bus) 1;
             w = perform_all sdk (map (\<lambda>b. Sm_put_blocking (hd_sm_tx bus) (ucast b)) (take n (the data))) w;
             w = pio_do sdk (Fdebug_write stall_mask) w
         in (case await_stall sdk stall_mask w of
               None \<Rightarrow> None
             | Some w \<Rightarrow>
                 if hd_echo bus = HALF_DUPLEX_UART_ECHO_KEEP then Some (HALF_DUPLEX_UART_OK, w)
                 else
                   (let echo_timeout_us = half_duplex_uart_frame_time_us (hd_baudrate bus) 2 + 100
                    in discard_echo sdk bus (unat echo_timeout_us) n w))))"

definition half_duplex_uart_transfer ::
  "'w hd_sdk \<Rightarrow> half_duplex_uart_t \<Rightarrow> u8 list option \<Rightarrow> nat \<Rightarrow> u8 list option \<Rightarrow> nat \<Rightarrow> u32 \<Rightarrow> 'w
     \<Rightarrow> (half_duplex_uart_result_t \<times> u8 list option \<times> 'w) option" where
  "half_duplex_uart_transfer sdk bus tx tx_len rx rx_len timeout_us w =
     (case half_duplex_uart_write sdk bus tx tx_len w of
        None \<Rightarrow> None
      | Some (sent, w) \<Rightarrow>
          if sent \<noteq> HALF_DUPLEX_UART_OK then Some (sent, rx, w)
          else half_duplex_uart_read_exact sdk bus rx rx_len timeout_us w)"
subsection \<open>Every wait ends\<close>

text \<open>
  A clock that runs: it ticks with every reading, \<open>c\<close> ticks to the microsecond, and no call turns it back. A transmitter
  that empties its FIFO: \<open>left\<close> is the work it has left, less at each look until it stalls.
\<close>

definition wire_clock :: "'w hd_sdk \<Rightarrow> ('w \<Rightarrow> nat) \<Rightarrow> nat \<Rightarrow> bool" where
  "wire_clock sdk tick c \<longleftrightarrow> 0 < c
     \<and> (\<forall>w. fst (get_time_us sdk w) = tick (snd (get_time_us sdk w)) div c \<and> tick w < tick (snd (get_time_us sdk w)))
     \<and> (\<forall>sm w. tick w \<le> tick (snd (rx_fifo_empty sdk sm w)))"

definition tx_drains :: "'w hd_sdk \<Rightarrow> ('w \<Rightarrow> nat) \<Rightarrow> bool" where
  "tx_drains sdk left \<longleftrightarrow>
     (\<forall>sm w. sm < 4 \<longrightarrow> fst (fdebug sdk w) AND push_bit (PIO_FDEBUG_TXSTALL_LSB + sm) 1 \<noteq> 0 \<or> left (snd (fdebug sdk w)) < left w)"

lemma await_byte_returns:
  assumes "wire_clock sdk tick c"
  shows "await_byte sdk bus deadline w \<noteq> None"
proof (induction "deadline * c - tick w" arbitrary: w rule: less_induct)
  case less
  obtain none w1 where r: "rx_fifo_empty sdk (hd_sm_rx bus) w = (none, w1)" by fastforce
  obtain now w2 where t: "get_time_us sdk w1 = (now, w2)" by fastforce
  have ticks: "tick w \<le> tick w1" "tick w1 < tick w2" "now = tick w2 div c" and c: "0 < c"
    using assms r t unfolding wire_clock_def by (metis fst_conv snd_conv)+
  have "await_byte sdk bus deadline w2 \<noteq> None" if "\<not> deadline \<le> now"
  proof (rule less)
    have "tick w2 < deadline * c" using that c by (simp add: ticks(3) not_le div_less_iff_less_mult)
    then show "deadline * c - tick w2 < deadline * c - tick w" using ticks(1,2) by linarith
  qed
  then show ?case by (subst await_byte.simps) (simp add: r t del: not_None_eq)
qed

lemma read_loop_returns:
  assumes "wire_clock sdk tick c"
  shows "read_loop sdk bus gap n deadline buffer count w \<noteq> None"
  by (induction n arbitrary: deadline buffer count w)
    (use await_byte_returns [OF assms] in \<open>auto split: option.splits bool.splits prod.splits simp del: not_None_eq\<close>)

lemma discard_echo_returns:
  assumes "wire_clock sdk tick c"
  shows "discard_echo sdk bus limit n w \<noteq> None"
  by (induction n arbitrary: w)
    (use await_byte_returns [OF assms] in \<open>auto split: option.splits bool.splits prod.splits simp del: not_None_eq\<close>)

lemma await_stall_returns:
  assumes "tx_drains sdk left" and "sm < 4"
  shows "await_stall sdk (push_bit (PIO_FDEBUG_TXSTALL_LSB + sm) 1) w \<noteq> None"
proof (induction "left w" arbitrary: w rule: less_induct)
  case less
  obtain flags w1 where f: "fdebug sdk w = (flags, w1)" by fastforce
  have "flags AND push_bit (PIO_FDEBUG_TXSTALL_LSB + sm) 1 \<noteq> 0 \<or> left w1 < left w"
    using assms f unfolding tx_drains_def by (metis fst_conv snd_conv)
  then show ?case using less [of w1] by (subst await_stall.simps) (auto simp: f)
qed

lemma read_exact_returns: "wire_clock sdk tick c \<Longrightarrow> half_duplex_uart_read_exact sdk bus buffer n timeout w \<noteq> None"
  using read_loop_returns [of sdk tick c]
  by (auto simp: half_duplex_uart_read_exact_def half_duplex_uart_read_def split: option.splits prod.splits simp del: not_None_eq)

lemma write_returns:
  assumes "wire_clock sdk tick c" and "tx_drains sdk left" and "hd_sm_tx bus < 4"
  shows "half_duplex_uart_write sdk bus data n w \<noteq> None"
  using await_stall_returns [OF assms(2,3)] discard_echo_returns [OF assms(1)]
  by (auto simp: half_duplex_uart_write_def Let_def split: option.splits simp del: not_None_eq push_bit_of_1)

subsection \<open>What is read\<close>

text \<open>The wait keeps whatever looking at the FIFO and at the clock keep, and a byte it announces was seen last.\<close>

lemma await_byte_keeps:
  assumes "await_byte sdk bus deadline w = Some r" and "I w"
    and "\<And>w. I w \<Longrightarrow> I (snd (rx_fifo_empty sdk (hd_sm_rx bus) w))" and "\<And>w. I w \<Longrightarrow> I (snd (get_time_us sdk w))"
  shows "I (snd r) \<and> (fst r \<longrightarrow> (\<exists>w1. I w1 \<and> rx_fifo_empty sdk (hd_sm_rx bus) w1 = (False, snd r)))"
proof -
  have "(\<forall>w. I w \<longrightarrow> I (snd (rx_fifo_empty sdk (hd_sm_rx bus) w)) \<and> I (snd (get_time_us sdk w))) \<longrightarrow> I w
    \<longrightarrow> I (snd r) \<and> (fst r \<longrightarrow> (\<exists>w1. I w1 \<and> rx_fifo_empty sdk (hd_sm_rx bus) w1 = (False, snd r)))"
    using assms(1)
  proof (rule await_byte.raw_induct [where P = "\<lambda>sdk bus deadline w r.
      (\<forall>w. I w \<longrightarrow> I (snd (rx_fifo_empty sdk (hd_sm_rx bus) w)) \<and> I (snd (get_time_us sdk w))) \<longrightarrow> I w
      \<longrightarrow> I (snd r) \<and> (fst r \<longrightarrow> (\<exists>w1. I w1 \<and> rx_fifo_empty sdk (hd_sm_rx bus) w1 = (False, snd r)))", rotated])
    fix await and sdk :: "'a hd_sdk" and bus :: half_duplex_uart_t and deadline w r
    assume ih: "\<And>sdk bus deadline w r. await sdk bus deadline w = Some r \<Longrightarrow>
        (\<forall>w. I w \<longrightarrow> I (snd (rx_fifo_empty sdk (hd_sm_rx bus) w)) \<and> I (snd (get_time_us sdk w))) \<longrightarrow> I w
        \<longrightarrow> I (snd r) \<and> (fst r \<longrightarrow> (\<exists>w1. I w1 \<and> rx_fifo_empty sdk (hd_sm_rx bus) w1 = (False, snd r)))"
      and body: "(case rx_fifo_empty sdk (hd_sm_rx bus) w of
        (none, w) \<Rightarrow>
          if \<not> none then Some (True, w)
          else
            (case get_time_us sdk w of
               (now, w) \<Rightarrow> if deadline \<le> now then Some (False, w) else await sdk bus deadline w)) = Some r"
    show "(\<forall>w. I w \<longrightarrow> I (snd (rx_fifo_empty sdk (hd_sm_rx bus) w)) \<and> I (snd (get_time_us sdk w))) \<longrightarrow> I w
        \<longrightarrow> I (snd r) \<and> (fst r \<longrightarrow> (\<exists>w1. I w1 \<and> rx_fifo_empty sdk (hd_sm_rx bus) w1 = (False, snd r)))"
    proof (intro impI)
      assume keeps: "\<forall>w. I w \<longrightarrow> I (snd (rx_fifo_empty sdk (hd_sm_rx bus) w)) \<and> I (snd (get_time_us sdk w))" and "I w"
      obtain none w1 where e: "rx_fifo_empty sdk (hd_sm_rx bus) w = (none, w1)" by fastforce
      obtain now w2 where t: "get_time_us sdk w1 = (now, w2)" by fastforce
      have "I w1" "I w2" using keeps \<open>I w\<close> e t by (metis snd_conv)+
      then show "I (snd r) \<and> (fst r \<longrightarrow> (\<exists>w1. I w1 \<and> rx_fifo_empty sdk (hd_sm_rx bus) w1 = (False, snd r)))"
      proof (cases "none \<and> \<not> deadline \<le> now")
        case True
        then have "await sdk bus deadline w2 = Some r" using body e t by simp
        from ih [OF this] keeps \<open>I w2\<close> show ?thesis by blast
      next
        case False
        then have "r = (\<not> none, if none then w2 else w1)" using body e t by (cases none) simp_all
        then show ?thesis using \<open>I w\<close> \<open>I w1\<close> \<open>I w2\<close> e by (cases none) auto
      qed
    qed
  qed
  then show ?thesis using assms(2-4) by blast
qed

text \<open>Whatever every look at the hardware keeps, the waits and the loops over them keep.\<close>

definition looks_keep :: "'w hd_sdk \<Rightarrow> ('w \<Rightarrow> bool) \<Rightarrow> bool" where
  "looks_keep sdk I \<longleftrightarrow>
     (\<forall>w. I w \<longrightarrow> I (snd (get_time_us sdk w)) \<and> I (snd (fdebug sdk w))
       \<and> (\<forall>sm. I (snd (rx_fifo_empty sdk sm w)) \<and> I (snd (sm_get sdk sm w)) \<and> I (pio_do sdk (Sm_clear_fifos sm) w)))"

lemma await_byte_looks: "looks_keep sdk I \<Longrightarrow> await_byte sdk bus deadline w = Some r \<Longrightarrow> I w \<Longrightarrow> I (snd r)"
  using await_byte_keeps [of sdk bus deadline w r I] by (simp add: looks_keep_def)

lemma await_stall_looks: "looks_keep sdk I \<Longrightarrow> await_stall sdk flag w = Some w' \<Longrightarrow> I w \<Longrightarrow> I w'"
proof -
  assume k: "looks_keep sdk I" "I w" and run: "await_stall sdk flag w = Some w'"
  from run have "looks_keep sdk I \<longrightarrow> I w \<longrightarrow> I w'"
  proof (rule await_stall.raw_induct [where P = "\<lambda>sdk flag w w'. looks_keep sdk I \<longrightarrow> I w \<longrightarrow> I w'", rotated])
    fix await and sdk :: "'a hd_sdk" and flag w w'
    assume ih: "\<And>sdk flag w w'. await sdk flag w = Some w' \<Longrightarrow> looks_keep sdk I \<longrightarrow> I w \<longrightarrow> I w'"
      and body: "(case fdebug sdk w of (flags, w) \<Rightarrow> if flags AND flag = 0 then await sdk flag w else Some w) = Some w'"
    obtain flags w1 where f: "fdebug sdk w = (flags, w1)" by fastforce
    have "I w1" if "looks_keep sdk I" "I w" using that f unfolding looks_keep_def by (metis snd_conv)
    then show "looks_keep sdk I \<longrightarrow> I w \<longrightarrow> I w'" using ih [of sdk flag w1 w'] body f by (auto split: if_splits)
  qed
  with k show ?thesis by blast
qed

lemma discard_echo_looks:
  assumes "looks_keep sdk I"
  shows "discard_echo sdk bus limit n w = Some (r, w') \<Longrightarrow> I w \<Longrightarrow> I w'"
proof (induction n arbitrary: w)
  case (Suc n)
  obtain now w1 where t: "get_time_us sdk w = (now, w1)" by fastforce
  obtain got w2 where a: "await_byte sdk bus (now + limit) w1 = Some (got, w2)"
    using Suc.prems t by (auto split: option.splits)
  have "I w1" using assms Suc.prems(2) t unfolding looks_keep_def by (metis snd_conv)
  with await_byte_looks [OF assms a] have w2: "I w2" by simp
  show ?case
  proof (cases got)
    case True
    then have "discard_echo sdk bus limit n (snd (rx_byte sdk bus w2)) = Some (r, w')" using Suc.prems t a by simp
    moreover have "I (snd (rx_byte sdk bus w2))"
      using assms w2 unfolding looks_keep_def rx_byte_def by (auto split: prod.splits) (metis snd_conv)
    ultimately show ?thesis by (rule Suc.IH)
  next
    case False
    then have "w' = pio_do sdk (Sm_clear_fifos (hd_sm_rx bus)) w2" using Suc.prems t a by simp
    then show ?thesis using assms w2 by (simp add: looks_keep_def)
  qed
qed simp

lemma read_loop_looks:
  assumes "looks_keep sdk I"
  shows "read_loop sdk bus gap n deadline buffer count w = Some (b, k, w') \<Longrightarrow> I w \<Longrightarrow> I w'"
proof (induction n arbitrary: deadline buffer count w)
  case (Suc n)
  obtain got w1 where a: "await_byte sdk bus deadline w = Some (got, w1)" using Suc.prems by (auto split: option.splits)
  have w1: "I w1" using await_byte_looks [OF assms a] Suc.prems(2) by simp
  show ?case
  proof (cases got)
    case True
    obtain word w2 where g: "sm_get sdk (hd_sm_rx bus) w1 = (word, w2)" by fastforce
    obtain now w3 where t: "get_time_us sdk w2 = (now, w3)" by fastforce
    have "I w3" using assms w1 g t unfolding looks_keep_def by (metis snd_conv)
    moreover have "read_loop sdk bus gap n (now + gap) (buffer[count := ucast (drop_bit 24 word)]) (count + 1) w3 = Some (b, k, w')"
      using Suc.prems True a g t by (simp add: rx_byte_def)
    ultimately show ?thesis using Suc.IH by simp
  qed (use Suc.prems a w1 in simp)
qed simp

lemma read_exact_looks:
  assumes "looks_keep sdk I" and "half_duplex_uart_read_exact sdk bus buffer n timeout w = Some (r, b, w')" and "I w"
  shows "I w'"
proof -
  obtain now w1 where t: "get_time_us sdk w = (now, w1)" by fastforce
  have "I w1" using assms(1,3) t unfolding looks_keep_def by (metis snd_conv)
  then show ?thesis using assms(2,3) t
    by (auto simp: half_duplex_uart_read_exact_def half_duplex_uart_read_def split: if_splits option.splits
        dest!: read_loop_looks [OF assms(1)])
qed

text \<open>\<open>taken\<close> is the list of the words read from the receive FIFO so far.\<close>

definition rx_log :: "'w hd_sdk \<Rightarrow> ('w \<Rightarrow> u32 list) \<Rightarrow> bool" where
  "rx_log sdk taken \<longleftrightarrow>
     (\<forall>sm w. taken (snd (sm_get sdk sm w)) = taken w @ [fst (sm_get sdk sm w)])
     \<and> (\<forall>sm w. taken (snd (rx_fifo_empty sdk sm w)) = taken w) \<and> (\<forall>w. taken (snd (get_time_us sdk w)) = taken w)"

abbreviation top_byte :: "u32 \<Rightarrow> u8" where "top_byte w \<equiv> ucast (drop_bit 24 w)"

lemma await_byte_takes_none:
  assumes "rx_log sdk taken" and "await_byte sdk bus deadline w = Some r"
  shows "taken (snd r) = taken w"
  using await_byte_keeps [OF assms(2), where I = "\<lambda>v. taken v = taken w"] assms(1) by (simp add: rx_log_def)

lemma read_loop_reads:
  assumes "rx_log sdk taken" and "read_loop sdk bus gap n deadline buffer count w = Some (buffer', count', w')"
    and "count + n \<le> length buffer"
  shows "\<exists>ws. taken w' = taken w @ ws \<and> length ws \<le> n \<and> count' = count + length ws
    \<and> buffer' = blit count (map top_byte ws) buffer"
  using assms(2,3)
proof (induction n arbitrary: deadline buffer count w)
  case (Suc n)
  obtain got w1 where a: "await_byte sdk bus deadline w = Some (got, w1)" using Suc.prems(1) by (auto split: option.splits)
  have w1: "taken w1 = taken w" using await_byte_takes_none [OF assms(1) a] by simp
  show ?case
  proof (cases got)
    case True
    obtain word w2 where g: "sm_get sdk (hd_sm_rx bus) w1 = (word, w2)" by fastforce
    obtain now w3 where t: "get_time_us sdk w2 = (now, w3)" by fastforce
    have w3: "taken w3 = taken w @ [word]" using assms(1) g t w1 unfolding rx_log_def by (metis fst_conv snd_conv)
    have "read_loop sdk bus gap n (now + gap) (buffer[count := top_byte word]) (count + 1) w3 = Some (buffer', count', w')"
      using Suc.prems(1) True a g t by (simp add: rx_byte_def)
    from Suc.IH [OF this] Suc.prems(2) obtain ws where ws: "taken w' = taken w3 @ ws" "length ws \<le> n"
        "count' = count + 1 + length ws" "buffer' = blit (count + 1) (map top_byte ws) (buffer[count := top_byte word])"
      by auto
    have "buffer' = blit count (map top_byte (word # ws)) buffer"
      using ws(2,4) Suc.prems(2) update_blit [of count buffer "top_byte word"] blit_after_blit [of count "[top_byte word]" "map top_byte ws" buffer]
      by simp
    then show ?thesis using ws w3 by (intro exI [of _ "word # ws"]) simp
  next
    case False
    then show ?thesis using Suc.prems a w1 by (intro exI [of _ "[]"]) auto
  qed
qed auto
text \<open>A read of an exact length either takes that many bytes off the wire, in order, or reports that it did not.\<close>

theorem read_exact_sound:
  assumes log: "rx_log sdk taken" and bus: "hd_initialised bus" and "n \<le> length buffer" and "0 < n"
    and run: "half_duplex_uart_read_exact sdk bus (Some buffer) n timeout w = Some (result, buffer', w')"
  shows "\<exists>ws. taken w' = taken w @ ws \<and> length ws \<le> n \<and> buffer' = Some (blit 0 (map top_byte ws) buffer)
    \<and> result = (if length ws = n then HALF_DUPLEX_UART_OK else HALF_DUPLEX_UART_ERR_TIMEOUT)"
proof -
  obtain now w1 where t: "get_time_us sdk w = (now, w1)" by fastforce
  obtain b count w2 where loop: "read_loop sdk bus (unat timeout) n (now + unat timeout) buffer 0 w1 = Some (b, count, w2)"
    using run bus \<open>0 < n\<close> t
    by (auto simp: half_duplex_uart_read_exact_def half_duplex_uart_read_def split: option.splits)
  have w1: "taken w1 = taken w" using log t unfolding rx_log_def by (metis snd_conv)
  obtain ws where ws: "taken w2 = taken w1 @ ws" "length ws \<le> n" "count = length ws" "b = blit 0 (map top_byte ws) buffer"
    using read_loop_reads [OF log loop] \<open>n \<le> length buffer\<close> by auto
  have "result = (if length ws = n then HALF_DUPLEX_UART_OK else HALF_DUPLEX_UART_ERR_TIMEOUT) \<and> buffer' = Some b \<and> w' = w2"
    using run bus \<open>0 < n\<close> t loop ws(3)
    by (auto simp: half_duplex_uart_read_exact_def half_duplex_uart_read_def split: if_splits)
  then show ?thesis using ws w1 by auto
qed

subsection \<open>The block's programs and state machines\<close>

text \<open>\<open>res\<close> gives the programs loaded, with their offsets, and the state machines claimed.\<close>

definition pio_resources :: "'w hd_sdk \<Rightarrow> ('w \<Rightarrow> (pio_program \<times> nat) set \<times> nat set) \<Rightarrow> bool" where
  "pio_resources sdk res \<longleftrightarrow>
     (\<forall>p w. case add_program sdk p w of (off, w') \<Rightarrow>
        if off < 0 then res w' = res w
        else (p, nat off) \<notin> fst (res w) \<and> res w' = (insert (p, nat off) (fst (res w)), snd (res w)))
     \<and> (\<forall>w. case claim_unused_sm sdk w of (sm, w') \<Rightarrow>
        if sm < 0 then res w' = res w else nat sm \<notin> snd (res w) \<and> res w' = (fst (res w), insert (nat sm) (snd (res w))))
     \<and> (\<forall>call w. res (pio_do sdk call w) =
        (case call of
           Remove_program p off \<Rightarrow> (fst (res w) - {(p, off)}, snd (res w))
         | Sm_unclaim sm \<Rightarrow> (fst (res w), snd (res w) - {sm})
         | _ \<Rightarrow> res w))"

definition frees :: "pio_op \<Rightarrow> bool" where
  "frees call \<longleftrightarrow> (case call of Remove_program p off \<Rightarrow> True | Sm_unclaim sm \<Rightarrow> True | _ \<Rightarrow> False)"

lemma perform_all_simps [simp]:
  "perform_all sdk [] w = w" "perform_all sdk (call # calls) w = perform_all sdk calls (pio_do sdk call w)"
  "perform_all sdk (xs @ ys) w = perform_all sdk ys (perform_all sdk xs w)"
  by (simp_all add: perform_all_def)

lemma perform_all_keeps:
  assumes "pio_resources sdk res" and "list_all (\<lambda>c. \<not> frees c) calls"
  shows "res (perform_all sdk calls w) = res w"
  using assms(2)
proof (induction calls arbitrary: w)
  case (Cons c cs)
  have "res (pio_do sdk c w) = res w"
    using assms(1) Cons.prems unfolding pio_resources_def by (cases c) (simp_all add: frees_def)
  then show ?case using Cons by simp
qed simp

lemma setup_keeps: "list_all (\<lambda>c. \<not> frees c)
    (configure_tx bus @ configure_rx bus @ apply_timing bus @ [Sm_enabled a x, Sm_enabled b y])"
  by (simp add: configure_tx_def configure_rx_def apply_timing_def Let_def frees_def)

text \<open>An initialisation that fails gives back all it took; after one that succeeds, \<open>deinit\<close> does.\<close>

theorem init_leaks_nothing:
  assumes sdk: "pio_resources sdk res" and run: "half_duplex_uart_init sdk config w = (result, bus, w')"
  shows "(result \<noteq> HALF_DUPLEX_UART_OK \<longrightarrow> bus = None \<and> res w' = res w)
    \<and> (result = HALF_DUPLEX_UART_OK \<longrightarrow> bus \<noteq> None \<and> hd_sm_tx (the bus) \<noteq> hd_sm_rx (the bus)
         \<and> res (snd (half_duplex_uart_deinit sdk bus w')) = res w)"
proof -
  have sdk_prog: "if off < 0 then res v' = res v
      else (p, nat off) \<notin> fst (res v) \<and> res v' = (insert (p, nat off) (fst (res v)), snd (res v))"
    if "add_program sdk p v = (off, v')" for p v off v'
    using sdk [unfolded pio_resources_def, THEN conjunct1, THEN spec [of _ p], THEN spec [of _ v]] that by simp
  have sdk_sm: "if sm < 0 then res v' = res v else nat sm \<notin> snd (res v) \<and> res v' = (fst (res v), insert (nat sm) (snd (res v)))"
    if "claim_unused_sm sdk v = (sm, v')" for v sm v'
    using sdk [unfolded pio_resources_def, THEN conjunct2, THEN conjunct1, THEN spec [of _ v]] that by simp
  have sdk_do: "res (pio_do sdk (Remove_program p off) v) = (fst (res v) - {(p, off)}, snd (res v))"
      "res (pio_do sdk (Sm_unclaim sm) v) = (fst (res v), snd (res v) - {sm})" "res (pio_do sdk (Sm_enabled sm b) v) = res v"
    for p off sm b v using sdk unfolding pio_resources_def by simp_all
  show ?thesis
  proof (cases "\<exists>c timing. config = Some c \<and> hdc_has_pio c \<and> hdc_baudrate c \<noteq> 0
      \<and> \<not> (0 \<le> hdc_direction_pin c \<and> nat (hdc_direction_pin c) = hdc_pin c) \<and> usable_timing sdk (hdc_baudrate c) = Some timing")
    case False
    then show ?thesis using run by (auto simp: half_duplex_uart_init_def split: option.splits if_splits)
  next
    case True
    then obtain c timing where c: "config = Some c" "hdc_has_pio c" "hdc_baudrate c \<noteq> 0"
        "\<not> (0 \<le> hdc_direction_pin c \<and> nat (hdc_direction_pin c) = hdc_pin c)" "usable_timing sdk (hdc_baudrate c) = Some timing"
      by blast
    obtain off_tx w1 where p1: "add_program sdk Half_duplex_uart_tx_program w = (off_tx, w1)" by fastforce
    obtain off_rx w2 where p2: "add_program sdk Half_duplex_uart_rx_program w1 = (off_rx, w2)" by fastforce
    obtain sm_tx w3 where s1: "claim_unused_sm sdk w2 = (sm_tx, w3)" by fastforce
    obtain sm_rx w4 where s2: "claim_unused_sm sdk w3 = (sm_rx, w4)" by fastforce
    note tx = sdk_prog [OF p1] and rx = sdk_prog [OF p2] and mt = sdk_sm [OF s1] and mr = sdk_sm [OF s2]
    consider "off_tx < 0" | "\<not> off_tx < 0" "off_rx < 0" | "\<not> off_tx < 0" "\<not> off_rx < 0" "sm_tx < 0 \<or> sm_rx < 0"
      | "\<not> off_tx < 0" "\<not> off_rx < 0" "\<not> sm_tx < 0" "\<not> sm_rx < 0" by blast
    then show ?thesis
    proof cases
      case 1
      then have "result \<noteq> HALF_DUPLEX_UART_OK" "bus = None" "w' = w1" using run c p1 by (simp_all add: half_duplex_uart_init_def)
      then show ?thesis using tx 1 by simp
    next
      case 2
      then have "result \<noteq> HALF_DUPLEX_UART_OK" "bus = None"
          "w' = pio_do sdk (Remove_program Half_duplex_uart_tx_program (nat off_tx)) w2"
        using run c p1 p2 by (simp_all add: half_duplex_uart_init_def)
      then show ?thesis using tx rx 2 by (simp add: sdk_do prod_eq_iff)
    next
      case 3
      then have "result \<noteq> HALF_DUPLEX_UART_OK" "bus = None"
          "w' = perform_all sdk ((if 0 \<le> sm_tx then [Sm_unclaim (nat sm_tx)] else []) @ (if 0 \<le> sm_rx then [Sm_unclaim (nat sm_rx)] else [])
            @ [Remove_program Half_duplex_uart_rx_program (nat off_rx), Remove_program Half_duplex_uart_tx_program (nat off_tx)]) w4"
        using run c p1 p2 s1 s2 by (simp_all add: half_duplex_uart_init_def)
      moreover have "res w4 = ({(Half_duplex_uart_rx_program, nat off_rx), (Half_duplex_uart_tx_program, nat off_tx)} \<union> fst (res w),
          (if 0 \<le> sm_rx then {nat sm_rx} else {}) \<union> (if 0 \<le> sm_tx then {nat sm_tx} else {}) \<union> snd (res w))"
        using 3 tx rx mt mr by (cases "sm_tx < 0"; cases "sm_rx < 0") (simp_all add: prod_eq_iff)
      moreover have "(Half_duplex_uart_rx_program, nat off_rx) \<notin> fst (res w)" "(Half_duplex_uart_tx_program, nat off_tx) \<notin> fst (res w)"
          "0 \<le> sm_tx \<longrightarrow> nat sm_tx \<notin> snd (res w)" "0 \<le> sm_rx \<longrightarrow> nat sm_rx \<notin> snd (res w)"
        using 3(1,2) tx rx mt mr by (auto simp: not_less split: if_splits)
      ultimately show ?thesis by (auto simp: sdk_do prod_eq_iff)
    next
      case 4
      define b where "b = \<lparr>hd_sm_tx = nat sm_tx, hd_sm_rx = nat sm_rx, hd_offset_tx = nat off_tx, hd_offset_rx = nat off_rx,
        hd_pin = hdc_pin c, hd_direction_pin = hdc_direction_pin c, hd_baudrate = hdc_baudrate c, hd_echo = hdc_echo c,
        hd_timing = timing, hd_initialised = True\<rparr>"
      have finish: "result = HALF_DUPLEX_UART_OK" "bus = Some b"
          "w' = perform_all sdk (configure_tx b @ configure_rx b @ apply_timing b
            @ [Sm_enabled (hd_sm_tx b) True, Sm_enabled (hd_sm_rx b) True]) w4"
        using run c p1 p2 s1 s2 4 by (simp_all add: half_duplex_uart_init_def b_def Let_def del: perform_all_simps)
      have "res w' = res w4" unfolding finish(3) by (rule perform_all_keeps [OF sdk setup_keeps])
      moreover have "res w4 = ({(Half_duplex_uart_rx_program, nat off_rx), (Half_duplex_uart_tx_program, nat off_tx)} \<union> fst (res w),
          {nat sm_rx, nat sm_tx} \<union> snd (res w))"
        using 4 tx rx mt mr by (simp add: prod_eq_iff)
      moreover have "(Half_duplex_uart_rx_program, nat off_rx) \<notin> fst (res w)" "(Half_duplex_uart_tx_program, nat off_tx) \<notin> fst (res w)"
          "nat sm_tx \<notin> snd (res w)" "nat sm_rx \<notin> snd (res w)" "nat sm_tx \<noteq> nat sm_rx"
        using 4 tx rx mt mr by auto
      ultimately show ?thesis using finish(1,2)
        by (auto simp: half_duplex_uart_deinit_def b_def sdk_do prod_eq_iff)
    qed
  qed
qed
subsection \<open>The echo of a long packet\<close>

text \<open>
  A receiver that holds at most \<open>k\<close> bytes and hears nobody but the transmitter: \<open>avail\<close> of them are waiting. On the
  RP2040, \<open>k\<close> is nine: eight words of the joined FIFO, and one in the shift register of the receive program, whose
  \<open>push\<close> waits for room; while it waits it does not sample the line.
\<close>

definition rx_holds :: "'w hd_sdk \<Rightarrow> ('w \<Rightarrow> nat) \<Rightarrow> nat \<Rightarrow> bool" where
  "rx_holds sdk avail k \<longleftrightarrow>
     (\<forall>call w. avail (pio_do sdk call w) \<le> k) \<and> (\<forall>w. avail (snd (fdebug sdk w)) \<le> k)
     \<and> (\<forall>w. avail (snd (get_time_us sdk w)) \<le> avail w)
     \<and> (\<forall>sm w. avail (snd (rx_fifo_empty sdk sm w)) \<le> avail w \<and> (fst (rx_fifo_empty sdk sm w) \<or> 0 < avail w))
     \<and> (\<forall>sm w. avail (snd (sm_get sdk sm w)) \<le> avail w - 1)"

lemma await_byte_avail:
  assumes "rx_holds sdk avail k" and "await_byte sdk bus deadline w = Some r"
  shows "avail (snd r) \<le> avail w \<and> (fst r \<longrightarrow> 0 < avail w)"
proof -
  have keeps: "avail (snd r) \<le> avail w \<and> (fst r \<longrightarrow> (\<exists>w1. avail w1 \<le> avail w \<and> rx_fifo_empty sdk (hd_sm_rx bus) w1 = (False, snd r)))"
  proof (rule await_byte_keeps [OF assms(2), where I = "\<lambda>v. avail v \<le> avail w"])
    fix v assume "avail v \<le> avail w"
    moreover have "avail (snd (rx_fifo_empty sdk (hd_sm_rx bus) v)) \<le> avail v" "avail (snd (get_time_us sdk v)) \<le> avail v"
      using assms(1) unfolding rx_holds_def by blast+
    ultimately show "avail (snd (rx_fifo_empty sdk (hd_sm_rx bus) v)) \<le> avail w" "avail (snd (get_time_us sdk v)) \<le> avail w"
      by simp_all
  qed simp
  have "0 < avail w1" if "rx_fifo_empty sdk (hd_sm_rx bus) w1 = (False, w2)" for w1 w2
    using assms(1) that unfolding rx_holds_def by (metis fst_conv)
  with keeps show ?thesis by force
qed

lemma discard_echo_short:
  assumes "rx_holds sdk avail k" and "avail w < n"
  shows "\<exists>w'. discard_echo sdk bus limit n w \<in> {None, Some (HALF_DUPLEX_UART_ERR_TIMEOUT, w')}"
  using assms(2)
proof (induction n arbitrary: w)
  case (Suc n)
  obtain now w1 where t: "get_time_us sdk w = (now, w1)" by fastforce
  have w1: "avail w1 \<le> avail w" using assms(1) t unfolding rx_holds_def by (metis snd_conv)
  show ?case
  proof (cases "await_byte sdk bus (now + limit) w1")
    case (Some r)
    obtain got w2 where r: "r = (got, w2)" by fastforce
    note a = await_byte_avail [OF assms(1) Some]
    show ?thesis
    proof (cases got)
      case True
      have "avail (snd (sm_get sdk (hd_sm_rx bus) w2)) \<le> avail w2 - 1" using assms(1) unfolding rx_holds_def by blast
      then have "avail (snd (rx_byte sdk bus w2)) < n"
        using a r True w1 Suc.prems by (auto simp: rx_byte_def split: prod.splits)
      from Suc.IH [OF this] show ?thesis using t Some r True by simp
    qed (use t Some r in simp)
  qed (use t in simp)
qed simp

lemma await_stall_holds:
  assumes "rx_holds sdk avail k" and "await_stall sdk flag w = Some w'" and "avail w \<le> k"
  shows "avail w' \<le> k"
proof (rule await_stall_looks [OF _ assms(2), where I = "\<lambda>v. avail v \<le> k"])
  show "looks_keep sdk (\<lambda>v. avail v \<le> k)"
    using assms(1) unfolding looks_keep_def rx_holds_def by (meson diff_le_self le_trans)
qed (rule assms(3))

text \<open>A write in one equation: what is loaded, and the two waits.\<close>

definition stall_flag :: "half_duplex_uart_t \<Rightarrow> u32" where
  "stall_flag bus = push_bit (PIO_FDEBUG_TXSTALL_LSB + hd_sm_tx bus) 1"

definition loaded :: "'w hd_sdk \<Rightarrow> half_duplex_uart_t \<Rightarrow> u8 list \<Rightarrow> 'w \<Rightarrow> 'w" where
  "loaded sdk bus data w = pio_do sdk (Fdebug_write (stall_flag bus))
     (perform_all sdk (map (\<lambda>b. Sm_put_blocking (hd_sm_tx bus) (ucast b)) data) (pio_do sdk (Sm_clear_fifos (hd_sm_rx bus)) w))"

lemma write_eq:
  assumes "hd_initialised bus" and "0 < n"
  shows "half_duplex_uart_write sdk bus (Some data) n w =
    (case await_stall sdk (stall_flag bus) (loaded sdk bus (take n data) w) of
       None \<Rightarrow> None
     | Some w1 \<Rightarrow>
         if hd_echo bus = HALF_DUPLEX_UART_ECHO_KEEP then Some (HALF_DUPLEX_UART_OK, w1)
         else discard_echo sdk bus (unat (half_duplex_uart_frame_time_us (hd_baudrate bus) 2 + 100)) n w1)"
  using assms unfolding half_duplex_uart_write_def Let_def stall_flag_def loaded_def by (simp del: push_bit_of_1)

lemma write_looks:
  assumes "looks_keep sdk I" and "hd_initialised bus" and "0 < n" and "I (loaded sdk bus (take n data) w)"
    and run: "half_duplex_uart_write sdk bus (Some data) n w = Some (r, w')"
  shows "I w'"
proof -
  obtain w1 where w1: "await_stall sdk (stall_flag bus) (loaded sdk bus (take n data) w) = Some w1"
    using run assms(2,3) by (auto simp: write_eq split: option.splits)
  have "I w1" using await_stall_looks [OF assms(1) w1] assms(4) by simp
  then show ?thesis using run w1 assms(2,3) discard_echo_looks [OF assms(1)] by (auto simp: write_eq split: if_splits)
qed

text \<open>C22: A packet longer than what the receiver holds cannot be sent on a wire with an echo: the whole packet goes out, nobody
  reads the receiver meanwhile, and the missing echo is reported as a timeout. (\<open>None\<close> is a transmitter that never stalls.)
\<close>

theorem long_packet_times_out:
  assumes "rx_holds sdk avail k" and "k < n" and "hd_initialised bus" and "hd_echo bus = HALF_DUPLEX_UART_ECHO_DISCARD"
  shows "\<forall>w'. half_duplex_uart_write sdk bus (Some data) n w \<noteq> Some (HALF_DUPLEX_UART_OK, w')"
proof (cases "await_stall sdk (stall_flag bus) (loaded sdk bus (take n data) w)")
  case (Some w1)
  moreover have "avail (loaded sdk bus (take n data) w) \<le> k" using assms(1) by (simp add: rx_holds_def loaded_def)
  ultimately have "avail w1 < n" using await_stall_holds [OF assms(1)] assms(2) by fastforce
  from discard_echo_short [OF assms(1) this, of bus "unat (half_duplex_uart_frame_time_us (hd_baudrate bus) 2 + 100)"]
  show ?thesis using assms(2-4) Some by (auto simp: write_eq)
qed (use assms(2,3) in \<open>simp add: write_eq\<close>)

subsection \<open>A block with a loop-back wire\<close>

text \<open>
  A PIO block for the examples: what the transmitter sends the receiver hears at once, as far as its nine places
  reach. The clock ticks once per reading.
\<close>

record sim_wire =
  sw_ticks :: nat
  sw_rx :: "u32 list"
  sw_taken :: "u32 list"
  sw_programs :: "(pio_program \<times> nat) set"
  sw_claimed :: "nat set"

definition sim_pio :: "sim_wire hd_sdk" where
  "sim_pio =
     \<lparr>clk_sys_hz = 125000000,
      get_time_us = (\<lambda>w. (sw_ticks w + 1, w\<lparr>sw_ticks := sw_ticks w + 1\<rparr>)),
      add_program = (\<lambda>p w.
        let off = (if p = Half_duplex_uart_tx_program then 0 else 8) in
        if (p, off) \<in> sw_programs w then (-1, w) else (int off, w\<lparr>sw_programs := insert (p, off) (sw_programs w)\<rparr>)),
      claim_unused_sm = (\<lambda>w.
        if 0 \<notin> sw_claimed w then (0, w\<lparr>sw_claimed := insert 0 (sw_claimed w)\<rparr>)
        else if 1 \<notin> sw_claimed w then (1, w\<lparr>sw_claimed := insert 1 (sw_claimed w)\<rparr>) else (-1, w)),
      rx_fifo_empty = (\<lambda>sm w. (sw_rx w = [], w)),
      sm_get = (\<lambda>sm w.
        let word = (if sw_rx w = [] then 0 else hd (sw_rx w))
        in (word, w\<lparr>sw_rx := tl (take 9 (sw_rx w)), sw_taken := sw_taken w @ [word]\<rparr>)),
      fdebug = (\<lambda>w. (-1, w)),
      pio_do = (\<lambda>call w.
        case call of
          Sm_put_blocking sm b \<Rightarrow> if length (sw_rx w) < 9 then w\<lparr>sw_rx := sw_rx w @ [push_bit 24 b]\<rparr> else w
        | Sm_clear_fifos sm \<Rightarrow> w\<lparr>sw_rx := []\<rparr>
        | Remove_program p off \<Rightarrow> w\<lparr>sw_programs := sw_programs w - {(p, off)}\<rparr>
        | Sm_unclaim sm \<Rightarrow> w\<lparr>sw_claimed := sw_claimed w - {sm}\<rparr>
        | _ \<Rightarrow> w)\<rparr>"

lemma sim_pio_laws:
  "wire_clock sim_pio sw_ticks 1" "tx_drains sim_pio (\<lambda>_. 0)" "rx_log sim_pio sw_taken"
  "pio_resources sim_pio (\<lambda>w. (sw_programs w, sw_claimed w))" "rx_holds sim_pio (\<lambda>w. min 9 (length (sw_rx w))) 9"
proof -
  show "wire_clock sim_pio sw_ticks 1" by (simp add: wire_clock_def sim_pio_def)
  have "(push_bit (24 + sm) 1 :: u32) \<noteq> 0" if "sm < 4" for sm
    using that by (simp add: exp_eq_zero_iff)
  then show "tx_drains sim_pio (\<lambda>_. 0)" by (simp add: tx_drains_def sim_pio_def del: push_bit_of_1)
  show "rx_log sim_pio sw_taken" by (simp add: rx_log_def sim_pio_def Let_def)
  show "pio_resources sim_pio (\<lambda>w. (sw_programs w, sw_claimed w))"
    by (auto simp: pio_resources_def sim_pio_def Let_def split: pio_op.splits)
  show "rx_holds sim_pio (\<lambda>w. min 9 (length (sw_rx w))) 9"
    by (auto simp: rx_holds_def sim_pio_def Let_def split: pio_op.splits)
qed

definition sim_uart :: half_duplex_uart_t where
  "sim_uart = \<lparr>hd_sm_tx = 0, hd_sm_rx = 1, hd_offset_tx = 0, hd_offset_rx = 8, hd_pin = 2, hd_direction_pin = -1,
     hd_baudrate = 1000000, hd_echo = HALF_DUPLEX_UART_ECHO_DISCARD,
     hd_timing = \<lparr>divider_int = 15, divider_frac = 160, actual_baudrate = 1000000, error_permille = 0\<rparr>, hd_initialised = True\<rparr>"

theorem long_packet_times_out_witness:
  "\<forall>w w'. half_duplex_uart_write sim_pio sim_uart (Some (replicate 10 0x55)) 10 w \<noteq> Some (HALF_DUPLEX_UART_OK, w')"
  using long_packet_times_out [OF sim_pio_laws(5), of 10 sim_uart "replicate 10 0x55"] by (simp add: sim_uart_def)
text \<open>Nine bytes and fewer do pass, whatever they are.\<close>

lemma sim_discard:
  "n \<le> length (sw_rx w) \<Longrightarrow> length (sw_rx w) \<le> 9 \<Longrightarrow> \<exists>w'. discard_echo sim_pio sim_uart limit n w = Some (HALF_DUPLEX_UART_OK, w')"
proof (induction n arbitrary: w)
  case (Suc n)
  obtain t w1 where t: "get_time_us sim_pio w = (t, w1)" and w1: "sw_rx w1 = sw_rx w" by (simp add: sim_pio_def)
  have "sw_rx w1 \<noteq> []" using Suc.prems(1) w1 by auto
  then have a: "await_byte sim_pio sim_uart deadline w1 = Some (True, w1)" for deadline
    by (subst await_byte.simps) (simp add: sim_pio_def)
  have "sw_rx (snd (rx_byte sim_pio sim_uart w1)) = tl (sw_rx w)"
    using w1 Suc.prems(2) by (simp add: rx_byte_def sim_pio_def Let_def)
  then have "\<exists>w'. discard_echo sim_pio sim_uart limit n (snd (rx_byte sim_pio sim_uart w1)) = Some (HALF_DUPLEX_UART_OK, w')"
    using Suc.prems by (intro Suc.IH) simp_all
  then show ?case by (simp add: t a)
qed simp

lemma sim_puts:
  "length (sw_rx w) + length data \<le> 9 \<Longrightarrow>
    length (sw_rx (perform_all sim_pio (map (\<lambda>b. Sm_put_blocking 0 (f b)) data) w)) = length (sw_rx w) + length data"
  by (induction data arbitrary: w) (simp_all add: sim_pio_def)

lemma short_packet_passes:
  assumes "data \<noteq> []" and "length data \<le> 9"
  shows "\<exists>w'. half_duplex_uart_write sim_pio sim_uart (Some data) (length data) w = Some (HALF_DUPLEX_UART_OK, w')"
proof -
  define w0 where "w0 = perform_all sim_pio (map (\<lambda>b. Sm_put_blocking 0 (ucast b)) data) (w\<lparr>sw_rx := []\<rparr>)"
  have len: "length (sw_rx w0) = length data" using sim_puts [of "w\<lparr>sw_rx := []\<rparr>" data ucast] assms(2) by (simp add: w0_def)
  have clear: "pio_do sim_pio (Sm_clear_fifos (Suc 0)) w = w\<lparr>sw_rx := []\<rparr>" "pio_do sim_pio (Fdebug_write m) v = v" for m v
    by (simp_all add: sim_pio_def)
  have stall: "await_stall sim_pio (push_bit 24 1) v = Some v" for v
    by (subst await_stall.simps) (simp add: sim_pio_def)
  obtain w' where "discard_echo sim_pio sim_uart (unat (half_duplex_uart_frame_time_us 1000000 2 + 100)) (length data) w0
      = Some (HALF_DUPLEX_UART_OK, w')"
    using sim_discard [of "length data" w0] len assms(2) by auto
  then have "half_duplex_uart_write sim_pio sim_uart (Some data) (length data) w = Some (HALF_DUPLEX_UART_OK, w')"
    using assms(1) stall unfolding half_duplex_uart_write_def Let_def
    by (simp add: sim_uart_def clear w0_def [symmetric] del: push_bit_of_1)
  then show ?thesis by blast
qed

end
