(* ===== verification/Servo_Bus.thy ===== *)
theory Servo_Bus
  imports Half_Duplex_Uart Servo_Protocol
begin

text \<open>
  Model of \<open>components/servo_bus/servo_bus.c\<close>: transactions with servos, over the models of the half-duplex UART and
  of the packets. The state of a call is the bus and the hardware behind its UART; a call that waits for ever is
  \<open>None\<close>. A pointer to a result cell is an option, \<open>None\<close> for a null pointer, and comes back with what the cell
  then holds. Arrays on the stack start as zeros here; only bytes that were written are used.
\<close>

abbreviation (input) "SERVO_BUS_DEFAULT_RESPONSE_TIMEOUT_US \<equiv> (3000 :: u32)"
abbreviation (input) "SERVO_PROTOCOL_MAX_PACKET_SIZE \<equiv> (134 :: nat)"
abbreviation (input) "SERVO_INST_RESET \<equiv> (6 :: u8)"

datatype servo_bus_result_t =
    SERVO_BUS_OK
  | SERVO_BUS_ERR_INVALID_ARG
  | SERVO_BUS_ERR_TRANSPORT
  | SERVO_BUS_ERR_TIMEOUT
  | SERVO_BUS_ERR_CHECKSUM
  | SERVO_BUS_ERR_MALFORMED
  | SERVO_BUS_ERR_WRONG_ID
  | SERVO_BUS_ERR_SHORT_REPLY

record servo_bus_stats_t =
  transactions :: u32
  retries :: u32
  timeouts :: u32
  checksum_errors :: u32
  malformed :: u32
  wrong_id :: u32

record servo_bus_config_t =
  sbc_uart :: "half_duplex_uart_t option"
  sbc_endianness :: servo_endianness_t
  sbc_max_retries :: u8
  sbc_response_timeout_us :: u32

record servo_bus_t =
  sb_uart :: half_duplex_uart_t
  sb_endianness :: servo_endianness_t
  sb_max_retries :: u8
  sb_response_timeout_us :: u32
  sb_stats :: servo_bus_stats_t
  sb_initialised :: bool

definition no_stats :: servo_bus_stats_t where
  "no_stats = \<lparr>transactions = 0, retries = 0, timeouts = 0, checksum_errors = 0, malformed = 0, wrong_id = 0\<rparr>"

definition servo_bus_init :: "servo_bus_config_t option \<Rightarrow> servo_bus_result_t \<times> servo_bus_t option" where
  "servo_bus_init config =
     (case config of
        None \<Rightarrow> (SERVO_BUS_ERR_INVALID_ARG, None)
      | Some c \<Rightarrow>
          (case sbc_uart c of
             None \<Rightarrow> (SERVO_BUS_ERR_INVALID_ARG, None)
           | Some uart \<Rightarrow>
               (SERVO_BUS_OK, Some \<lparr>sb_uart = uart, sb_endianness = sbc_endianness c, sb_max_retries = sbc_max_retries c,
                  sb_response_timeout_us = (if sbc_response_timeout_us c \<noteq> 0 then sbc_response_timeout_us c
                                            else SERVO_BUS_DEFAULT_RESPONSE_TIMEOUT_US),
                  sb_stats = no_stats, sb_initialised = True\<rparr>)))"

definition reply_timeout_us :: "servo_bus_t \<Rightarrow> nat \<Rightarrow> u32" where
  "reply_timeout_us bus reply_size =
     (let transmission = half_duplex_uart_frame_time_us (hd_baudrate (sb_uart bus)) (word_of_nat reply_size)
      in transmission + sb_response_timeout_us bus)"

definition transport_error :: "half_duplex_uart_result_t \<Rightarrow> servo_bus_result_t" where
  "transport_error result = (if result = HALF_DUPLEX_UART_ERR_TIMEOUT then SERVO_BUS_ERR_TIMEOUT else SERVO_BUS_ERR_TRANSPORT)"

subsection \<open>One attempt\<close>

text \<open>What is made of a whole reply.\<close>

definition accept_reply ::
  "u8 list \<Rightarrow> nat \<Rightarrow> u8 \<Rightarrow> u8 list option \<Rightarrow> u8 \<Rightarrow> u8 option \<Rightarrow> servo_bus_result_t \<times> u8 list option \<times> u8 option" where
  "accept_reply reply expected servo params_out param_count error_out =
     (case servo_protocol_parse_status (Some (take expected reply)) of
        (parsed, status) \<Rightarrow>
          if parsed = SERVO_PROTOCOL_ERR_BAD_CHECKSUM then (SERVO_BUS_ERR_CHECKSUM, params_out, error_out)
          else if parsed \<noteq> SERVO_PROTOCOL_OK then (SERVO_BUS_ERR_MALFORMED, params_out, error_out)
          else if sp_id status \<noteq> servo then (SERVO_BUS_ERR_WRONG_ID, params_out, error_out)
          else if sp_param_count status < param_count then (SERVO_BUS_ERR_SHORT_REPLY, params_out, error_out)
          else
            (SERVO_BUS_OK,
             if 0 < param_count then map_option (blit 0 (chunk (the (sp_params status)) (unat param_count) reply)) params_out
             else params_out,
             map_option (\<lambda>_. sp_error status) error_out))"

definition attempt ::
  "'w hd_sdk \<Rightarrow> servo_bus_t \<Rightarrow> u8 list \<Rightarrow> nat \<Rightarrow> u8 \<Rightarrow> u8 list option \<Rightarrow> u8 \<Rightarrow> u8 option \<Rightarrow> 'w
     \<Rightarrow> (servo_bus_result_t \<times> u8 list option \<times> u8 option \<times> 'w) option" where
  "attempt sdk bus request request_len servo params_out param_count error_out w =
     (case half_duplex_uart_write sdk (sb_uart bus) (Some request) request_len w of
        None \<Rightarrow> None
      | Some (sent, w) \<Rightarrow>
          if sent \<noteq> HALF_DUPLEX_UART_OK then Some (transport_error sent, params_out, error_out, w)
          else if servo = SERVO_PROTOCOL_BROADCAST_ID then Some (SERVO_BUS_OK, params_out, error_out, w)
          else
            (let reply = replicate SERVO_PROTOCOL_MAX_PACKET_SIZE 0;
                 expected = servo_protocol_packet_size param_count in
             if length reply < expected then Some (SERVO_BUS_ERR_INVALID_ARG, params_out, error_out, w)
             else
               (case half_duplex_uart_read_exact sdk (sb_uart bus) (Some reply) expected (reply_timeout_us bus expected) w of
                  None \<Rightarrow> None
                | Some (received, reply, w) \<Rightarrow>
                    if received \<noteq> HALF_DUPLEX_UART_OK then Some (transport_error received, params_out, error_out, w)
                    else
                      (case accept_reply (the reply) expected servo params_out param_count error_out of
                         (result, params_out, error_out) \<Rightarrow> Some (result, params_out, error_out, w)))))"

subsection \<open>Retries\<close>

definition count_try :: "bool \<Rightarrow> servo_bus_stats_t \<Rightarrow> servo_bus_stats_t" where
  "count_try retry stats =
     (let stats = (if retry then stats\<lparr>retries := retries stats + 1\<rparr> else stats)
      in stats\<lparr>transactions := transactions stats + 1\<rparr>)"

definition count_failure :: "servo_bus_result_t \<Rightarrow> servo_bus_stats_t \<Rightarrow> servo_bus_stats_t" where
  "count_failure result stats =
     (case result of
        SERVO_BUS_ERR_TIMEOUT \<Rightarrow> stats\<lparr>timeouts := timeouts stats + 1\<rparr>
      | SERVO_BUS_ERR_CHECKSUM \<Rightarrow> stats\<lparr>checksum_errors := checksum_errors stats + 1\<rparr>
      | SERVO_BUS_ERR_WRONG_ID \<Rightarrow> stats\<lparr>wrong_id := wrong_id stats + 1\<rparr>
      | SERVO_BUS_ERR_MALFORMED \<Rightarrow> stats\<lparr>malformed := malformed stats + 1\<rparr>
      | SERVO_BUS_ERR_SHORT_REPLY \<Rightarrow> stats\<lparr>malformed := malformed stats + 1\<rparr>
      | _ \<Rightarrow> stats)"

definition sb_update_stats :: "(servo_bus_stats_t \<Rightarrow> servo_bus_stats_t) \<Rightarrow> servo_bus_t \<Rightarrow> servo_bus_t" where
  "sb_update_stats f bus = bus\<lparr>sb_stats := f (sb_stats bus)\<rparr>"

text \<open>The loop of \<open>transact\<close>, with \<open>n\<close> tries left, \<open>retry\<close> when it is not the first, and the result so far.\<close>

fun try_loop ::
  "'w hd_sdk \<Rightarrow> u8 list \<Rightarrow> nat \<Rightarrow> u8 \<Rightarrow> u8 \<Rightarrow> nat \<Rightarrow> bool \<Rightarrow> servo_bus_result_t \<Rightarrow> u8 list option \<Rightarrow> u8 option
     \<Rightarrow> servo_bus_t \<times> 'w \<Rightarrow> (servo_bus_result_t \<times> u8 list option \<times> u8 option \<times> servo_bus_t \<times> 'w) option" where
  "try_loop sdk request request_len servo param_count 0 retry result params_out error_out (bus, w) =
     Some (result, params_out, error_out, bus, w)"
| "try_loop sdk request request_len servo param_count (Suc n) retry result params_out error_out (bus, w) =
     (let bus = sb_update_stats (count_try retry) bus in
      case attempt sdk bus request request_len servo params_out param_count error_out w of
        None \<Rightarrow> None
      | Some (result, params_out, error_out, w) \<Rightarrow>
          if result = SERVO_BUS_OK then Some (SERVO_BUS_OK, params_out, error_out, bus, w)
          else
            (let bus = sb_update_stats (count_failure result) bus in
             if result = SERVO_BUS_ERR_INVALID_ARG then Some (result, params_out, error_out, bus, w)
             else
               try_loop sdk request request_len servo param_count n True result params_out error_out
                 (bus, half_duplex_uart_flush_rx sdk (sb_uart bus) w)))"

definition transact ::
  "'w hd_sdk \<Rightarrow> u8 list \<Rightarrow> nat \<Rightarrow> u8 \<Rightarrow> u8 list option \<Rightarrow> u8 \<Rightarrow> u8 option
     \<Rightarrow> servo_bus_t \<times> 'w \<Rightarrow> (servo_bus_result_t \<times> u8 list option \<times> u8 option \<times> servo_bus_t \<times> 'w) option" where
  "transact sdk request request_len servo params_out param_count error_out st =
     (let error_out = map_option (\<lambda>_. 0) error_out in
      try_loop sdk request request_len servo param_count (unat (sb_max_retries (fst st)) + 1) False SERVO_BUS_ERR_TIMEOUT
        params_out error_out st)"

subsection \<open>Transactions\<close>

abbreviation (input) "packet_buffer \<equiv> (Some (replicate SERVO_PROTOCOL_MAX_PACKET_SIZE 0) :: u8 list option)"

definition servo_bus_ping ::
  "'w hd_sdk \<Rightarrow> u8 \<Rightarrow> u8 option \<Rightarrow> servo_bus_t \<times> 'w \<Rightarrow> (servo_bus_result_t \<times> u8 option \<times> servo_bus_t \<times> 'w) option" where
  "servo_bus_ping sdk servo error_out st =
     (case st of (bus, w) \<Rightarrow>
        if \<not> sb_initialised bus then Some (SERVO_BUS_ERR_INVALID_ARG, error_out, bus, w)
        else
          (case servo_protocol_build_ping packet_buffer servo of
             (built, request, request_len) \<Rightarrow>
               if built \<noteq> SERVO_PROTOCOL_OK then Some (SERVO_BUS_ERR_INVALID_ARG, error_out, bus, w)
               else
                 (case transact sdk (the request) request_len servo None 0 error_out (bus, w) of
                    None \<Rightarrow> None
                  | Some (result, _, error_out, bus, w) \<Rightarrow> Some (result, error_out, bus, w))))"

definition servo_bus_read ::
  "'w hd_sdk \<Rightarrow> u8 \<Rightarrow> u8 \<Rightarrow> u8 list option \<Rightarrow> u8 \<Rightarrow> u8 option \<Rightarrow> servo_bus_t \<times> 'w
     \<Rightarrow> (servo_bus_result_t \<times> u8 list option \<times> u8 option \<times> servo_bus_t \<times> 'w) option" where
  "servo_bus_read sdk servo reg data count error_out st =
     (case st of (bus, w) \<Rightarrow>
        if \<not> sb_initialised bus \<or> data = None \<or> count = 0 then Some (SERVO_BUS_ERR_INVALID_ARG, data, error_out, bus, w)
        else if servo = SERVO_PROTOCOL_BROADCAST_ID then Some (SERVO_BUS_ERR_INVALID_ARG, data, error_out, bus, w)
        else
          (case servo_protocol_build_read packet_buffer servo reg count of
             (built, request, request_len) \<Rightarrow>
               if built \<noteq> SERVO_PROTOCOL_OK then Some (SERVO_BUS_ERR_INVALID_ARG, data, error_out, bus, w)
               else transact sdk (the request) request_len servo data count error_out (bus, w)))"

definition servo_bus_write ::
  "'w hd_sdk \<Rightarrow> u8 \<Rightarrow> u8 \<Rightarrow> u8 list option \<Rightarrow> u8 \<Rightarrow> u8 option \<Rightarrow> servo_bus_t \<times> 'w
     \<Rightarrow> (servo_bus_result_t \<times> u8 option \<times> servo_bus_t \<times> 'w) option" where
  "servo_bus_write sdk servo reg data count error_out st =
     (case st of (bus, w) \<Rightarrow>
        if \<not> sb_initialised bus \<or> data = None \<or> count = 0 then Some (SERVO_BUS_ERR_INVALID_ARG, error_out, bus, w)
        else
          (case servo_protocol_build_write packet_buffer servo reg data count of
             (built, request, request_len) \<Rightarrow>
               if built \<noteq> SERVO_PROTOCOL_OK then Some (SERVO_BUS_ERR_INVALID_ARG, error_out, bus, w)
               else
                 (case transact sdk (the request) request_len servo None 0 error_out (bus, w) of
                    None \<Rightarrow> None
                  | Some (result, _, error_out, bus, w) \<Rightarrow> Some (result, error_out, bus, w))))"

text \<open>\<open>val\<close> is the cell the value goes to.\<close>

definition servo_bus_read_value ::
  "'w hd_sdk \<Rightarrow> u8 \<Rightarrow> u8 \<Rightarrow> u8 \<Rightarrow> u32 option \<Rightarrow> u8 option \<Rightarrow> servo_bus_t \<times> 'w
     \<Rightarrow> (servo_bus_result_t \<times> u32 option \<times> u8 option \<times> servo_bus_t \<times> 'w) option" where
  "servo_bus_read_value sdk servo reg width val error_out st =
     (if val = None \<or> \<not> valid_width width then Some (SERVO_BUS_ERR_INVALID_ARG, val, error_out, fst st, snd st)
      else
        (case servo_bus_read sdk servo reg (Some (replicate 4 0)) width error_out st of
           None \<Rightarrow> None
         | Some (result, data, error_out, bus, w) \<Rightarrow>
             if result \<noteq> SERVO_BUS_OK then Some (result, val, error_out, bus, w)
             else Some (SERVO_BUS_OK, Some (servo_protocol_decode_value data width (sb_endianness bus)), error_out, bus, w)))"

definition servo_bus_write_value ::
  "'w hd_sdk \<Rightarrow> u8 \<Rightarrow> u8 \<Rightarrow> u32 \<Rightarrow> u8 \<Rightarrow> u8 option \<Rightarrow> servo_bus_t \<times> 'w
     \<Rightarrow> (servo_bus_result_t \<times> u8 option \<times> servo_bus_t \<times> 'w) option" where
  "servo_bus_write_value sdk servo reg val width error_out st =
     (if \<not> sb_initialised (fst st) \<or> \<not> valid_width width then Some (SERVO_BUS_ERR_INVALID_ARG, error_out, fst st, snd st)
      else
        (let encoded = servo_protocol_encode_value (Some (replicate 4 0)) val width (sb_endianness (fst st))
         in servo_bus_write sdk servo reg encoded width error_out st))"

definition servo_bus_sync_write ::
  "'w hd_sdk \<Rightarrow> u8 \<Rightarrow> u8 \<Rightarrow> servo_sync_target_t list option \<Rightarrow> u8 \<Rightarrow> servo_bus_t \<times> 'w
     \<Rightarrow> (servo_bus_result_t \<times> servo_bus_t \<times> 'w) option" where
  "servo_bus_sync_write sdk reg width targets count st =
     (case st of (bus, w) \<Rightarrow>
        if \<not> sb_initialised bus \<or> targets = None \<or> count = 0 then Some (SERVO_BUS_ERR_INVALID_ARG, bus, w)
        else
          (case servo_protocol_build_sync_write packet_buffer reg width targets count (sb_endianness bus) of
             (built, request, request_len) \<Rightarrow>
               if built \<noteq> SERVO_PROTOCOL_OK then Some (SERVO_BUS_ERR_INVALID_ARG, bus, w)
               else
                 (case transact sdk (the request) request_len SERVO_PROTOCOL_BROADCAST_ID None 0 None (bus, w) of
                    None \<Rightarrow> None
                  | Some (result, _, _, bus, w) \<Rightarrow> Some (result, bus, w))))"

definition servo_bus_factory_reset ::
  "'w hd_sdk \<Rightarrow> u8 \<Rightarrow> u8 option \<Rightarrow> servo_bus_t \<times> 'w \<Rightarrow> (servo_bus_result_t \<times> u8 option \<times> servo_bus_t \<times> 'w) option" where
  "servo_bus_factory_reset sdk servo error_out st =
     (case st of (bus, w) \<Rightarrow>
       (let error_out = map_option (\<lambda>_. 0) error_out in
        if \<not> sb_initialised bus then Some (SERVO_BUS_ERR_INVALID_ARG, error_out, bus, w)
        else
          (case servo_protocol_build packet_buffer servo SERVO_INST_RESET None 0 of
             (built, request, request_len) \<Rightarrow>
               if built \<noteq> SERVO_PROTOCOL_OK then Some (SERVO_BUS_ERR_INVALID_ARG, error_out, bus, w)
               else
                 (let saved_retries = sb_max_retries bus in
                  case transact sdk (the request) request_len servo None 0 error_out (bus\<lparr>sb_max_retries := 0\<rparr>, w) of
                    None \<Rightarrow> None
                  | Some (result, _, error_out, bus, w) \<Rightarrow>
                      Some (result, error_out, bus\<lparr>sb_max_retries := saved_retries\<rparr>, w)))))"

subsection \<open>Bus speed and diagnostics\<close>

definition servo_bus_get_baudrate :: "servo_bus_t option \<Rightarrow> u32" where
  "servo_bus_get_baudrate bus =
     (case bus of None \<Rightarrow> 0 | Some b \<Rightarrow> if sb_initialised b then hd_baudrate (sb_uart b) else 0)"

definition servo_bus_set_baudrate :: "'w hd_sdk \<Rightarrow> u32 \<Rightarrow> servo_bus_t \<times> 'w \<Rightarrow> servo_bus_result_t \<times> servo_bus_t \<times> 'w" where
  "servo_bus_set_baudrate sdk baudrate st =
     (case st of (bus, w) \<Rightarrow>
        if \<not> sb_initialised bus \<or> baudrate = 0 then (SERVO_BUS_ERR_INVALID_ARG, bus, w)
        else
          (case half_duplex_uart_set_baudrate sdk baudrate (sb_uart bus, w) of
             (result, uart, w) \<Rightarrow>
               (if result = HALF_DUPLEX_UART_ERR_BAUDRATE then SERVO_BUS_ERR_INVALID_ARG
                else if result = HALF_DUPLEX_UART_OK then SERVO_BUS_OK else SERVO_BUS_ERR_TRANSPORT,
                bus\<lparr>sb_uart := uart\<rparr>, w)))"

definition servo_bus_get_stats :: "servo_bus_t option \<Rightarrow> servo_bus_stats_t option" where
  "servo_bus_get_stats bus = (case bus of None \<Rightarrow> None | Some b \<Rightarrow> if sb_initialised b then Some (sb_stats b) else None)"

definition servo_bus_reset_stats :: "servo_bus_t option \<Rightarrow> servo_bus_t option" where
  "servo_bus_reset_stats bus =
     (case bus of None \<Rightarrow> None | Some b \<Rightarrow> Some (if sb_initialised b then b\<lparr>sb_stats := no_stats\<rparr> else b))"

fun servo_bus_result_name :: "servo_bus_result_t \<Rightarrow> string" where
  "servo_bus_result_name SERVO_BUS_OK = ''ok''"
| "servo_bus_result_name SERVO_BUS_ERR_INVALID_ARG = ''invalid argument''"
| "servo_bus_result_name SERVO_BUS_ERR_TRANSPORT = ''transport failure''"
| "servo_bus_result_name SERVO_BUS_ERR_TIMEOUT = ''timeout''"
| "servo_bus_result_name SERVO_BUS_ERR_CHECKSUM = ''bad checksum''"
| "servo_bus_result_name SERVO_BUS_ERR_MALFORMED = ''malformed reply''"
| "servo_bus_result_name SERVO_BUS_ERR_WRONG_ID = ''reply from another id''"
| "servo_bus_result_name SERVO_BUS_ERR_SHORT_REPLY = ''short reply''"
subsection \<open>Every transaction ends\<close>

lemma attempt_returns:
  assumes "wire_clock sdk tick c" and "tx_drains sdk left" and "hd_sm_tx (sb_uart bus) < 4"
  shows "attempt sdk bus request n servo params count err w \<noteq> None"
  using write_returns [OF assms, of "Some request" n w] read_exact_returns [OF assms(1), of "sb_uart bus"]
  by (auto simp: attempt_def Let_def split: option.splits prod.splits simp del: not_None_eq)

lemma sb_update_stats_fields [simp]:
  "sb_uart (sb_update_stats f bus) = sb_uart bus" "sb_max_retries (sb_update_stats f bus) = sb_max_retries bus"
  "sb_endianness (sb_update_stats f bus) = sb_endianness bus" "sb_initialised (sb_update_stats f bus) = sb_initialised bus"
  "sb_response_timeout_us (sb_update_stats f bus) = sb_response_timeout_us bus"
  "sb_stats (sb_update_stats f bus) = f (sb_stats bus)"
  by (simp_all add: sb_update_stats_def)

lemma try_loop_returns:
  assumes "wire_clock sdk tick c" and "tx_drains sdk left"
  shows "hd_sm_tx (sb_uart bus) < 4 \<Longrightarrow> try_loop sdk request len servo count n retry result params err (bus, w) \<noteq> None"
proof (induction n arbitrary: retry result params err bus w)
  case (Suc n)
  then show ?case using attempt_returns [OF assms, of "sb_update_stats (count_try retry) bus"]
    by (auto simp: Let_def split: option.splits prod.splits simp del: not_None_eq)
qed simp

lemma transact_returns:
  assumes "wire_clock sdk tick c" and "tx_drains sdk left" and "hd_sm_tx (sb_uart (fst st)) < 4"
  shows "transact sdk request len servo params count err st \<noteq> None"
  using try_loop_returns [OF assms(1,2), of "fst st" _ _ _ _ _ _ _ _ _ "snd st"] assms(3)
  by (simp add: transact_def Let_def del: not_None_eq)

text \<open>No transaction waits for ever: as long as the clock runs and the transmitter empties its FIFO, each one
  returns, whatever the servos answer.\<close>

theorem servo_bus_always_returns:
  assumes "wire_clock sdk tick c" and "tx_drains sdk left" and "hd_sm_tx (sb_uart (fst st)) < 4"
  shows "servo_bus_ping sdk servo err st \<noteq> None \<and> servo_bus_read sdk servo reg data count err st \<noteq> None
    \<and> servo_bus_write sdk servo reg data count err st \<noteq> None \<and> servo_bus_read_value sdk servo reg width cell err st \<noteq> None
    \<and> servo_bus_write_value sdk servo reg v width err st \<noteq> None
    \<and> servo_bus_sync_write sdk reg width targets count st \<noteq> None \<and> servo_bus_factory_reset sdk servo err st \<noteq> None"
proof -
  obtain bus w where st: "st = (bus, w)" by fastforce
  note t = transact_returns [OF assms(1,2)] and sm = assms(3) [unfolded st fst_conv]
  have ping: "servo_bus_ping sdk servo err st \<noteq> None"
    using t [of "(bus, w)"] sm by (auto simp: servo_bus_ping_def st split: option.splits prod.splits simp del: not_None_eq)
  have rd: "servo_bus_read sdk servo reg data count err st \<noteq> None" for data count
    using t [of "(bus, w)"] sm by (auto simp: servo_bus_read_def st split: option.splits prod.splits simp del: not_None_eq)
  have wr: "servo_bus_write sdk servo reg data count err st \<noteq> None" for data count
    using t [of "(bus, w)"] sm by (auto simp: servo_bus_write_def st split: option.splits prod.splits simp del: not_None_eq)
  have rv: "servo_bus_read_value sdk servo reg width cell err st \<noteq> None"
    using rd by (auto simp: servo_bus_read_value_def split: option.splits prod.splits simp del: not_None_eq)
  have wv: "servo_bus_write_value sdk servo reg v width err st \<noteq> None"
    using wr by (auto simp: servo_bus_write_value_def Let_def simp del: not_None_eq)
  have sync: "servo_bus_sync_write sdk reg width targets count st \<noteq> None"
    using t [of "(bus, w)"] sm by (auto simp: servo_bus_sync_write_def st split: option.splits prod.splits simp del: not_None_eq)
  have reset: "servo_bus_factory_reset sdk servo err st \<noteq> None"
    using t [of "(bus\<lparr>sb_max_retries := 0\<rparr>, w)"] sm
    by (auto simp: servo_bus_factory_reset_def Let_def st split: option.splits prod.splits simp del: not_None_eq)
  show ?thesis using ping rd wr rv wv sync reset by blast
qed
subsection \<open>What goes out\<close>

text \<open>\<open>sent\<close> is the list of the words handed to the transmitter so far.\<close>

definition tx_log :: "'w hd_sdk \<Rightarrow> ('w \<Rightarrow> u32 list) \<Rightarrow> bool" where
  "tx_log sdk sent \<longleftrightarrow>
     (\<forall>call w. sent (pio_do sdk call w) = (case call of Sm_put_blocking sm b \<Rightarrow> sent w @ [b] | _ \<Rightarrow> sent w))
     \<and> (\<forall>w. sent (snd (get_time_us sdk w)) = sent w) \<and> (\<forall>sm w. sent (snd (rx_fifo_empty sdk sm w)) = sent w)
     \<and> (\<forall>sm w. sent (snd (sm_get sdk sm w)) = sent w) \<and> (\<forall>w. sent (snd (fdebug sdk w)) = sent w)"

lemma tx_log_simps:
  assumes "tx_log sdk sent"
  shows "sent (pio_do sdk (Sm_put_blocking sm b) w) = sent w @ [b]" "sent (pio_do sdk (Sm_clear_fifos sm) w) = sent w"
    and "sent (pio_do sdk (Fdebug_write m) w) = sent w" "sent (snd (get_time_us sdk w)) = sent w"
    and "sent (snd (rx_fifo_empty sdk sm w)) = sent w" "sent (snd (sm_get sdk sm w)) = sent w" "sent (snd (fdebug sdk w)) = sent w"
  using assms by (simp_all add: tx_log_def)

lemma tx_log_looks: "tx_log sdk sent \<Longrightarrow> looks_keep sdk (\<lambda>v. sent v = s)"
  by (simp add: looks_keep_def tx_log_def)

lemma puts_sent: "tx_log sdk sent \<Longrightarrow> sent (perform_all sdk (map (\<lambda>b. Sm_put_blocking sm (f b)) bs) w) = sent w @ map f bs"
  by (induction bs arbitrary: w) (simp_all add: tx_log_simps)

lemma write_sends:
  assumes log: "tx_log sdk sent" and "hd_initialised bus" and "0 < n"
    and "half_duplex_uart_write sdk bus (Some data) n w = Some (r, w')"
  shows "sent w' = sent w @ map ucast (take n data)"
  by (rule write_looks [OF tx_log_looks [OF log] assms(2,3) _ assms(4)])
    (simp add: loaded_def tx_log_simps [OF log] puts_sent [OF log])

lemma read_exact_sends_none:
  "tx_log sdk sent \<Longrightarrow> half_duplex_uart_read_exact sdk bus buffer n timeout w = Some (r, b, w') \<Longrightarrow> sent w' = sent w"
  using read_exact_looks [OF tx_log_looks [of sdk sent "sent w"]] by blast

lemma attempt_sends:
  assumes log: "tx_log sdk sent" and "hd_initialised (sb_uart bus)" and "0 < len"
    and run: "attempt sdk bus request len servo params count err w = Some (r, params', err', w')"
  shows "sent w' = sent w @ map ucast (take len request)"
    and "r \<noteq> SERVO_BUS_OK \<Longrightarrow> params' = params \<and> err' = err"
    and "r = SERVO_BUS_ERR_INVALID_ARG \<Longrightarrow> 128 < unat count"
proof -
  obtain s w1 where w1: "half_duplex_uart_write sdk (sb_uart bus) (Some request) len w = Some (s, w1)"
    using run by (auto simp: attempt_def split: option.splits)
  note out = write_sends [OF log assms(2,3) w1]
  show "sent w' = sent w @ map ucast (take len request)" using run w1 out
    by (auto simp: attempt_def Let_def split: if_splits option.splits prod.splits dest!: read_exact_sends_none [OF log])
  show "params' = params \<and> err' = err" if "r \<noteq> SERVO_BUS_OK"
    using run w1 that by (auto simp: attempt_def accept_reply_def Let_def split: if_splits option.splits prod.splits)
  show "128 < unat count" if "r = SERVO_BUS_ERR_INVALID_ARG"
    using run w1 that
    by (auto simp: attempt_def accept_reply_def Let_def transport_error_def servo_protocol_packet_size_def
        split: if_splits option.splits prod.splits)
qed
subsection \<open>Retries\<close>

lemma flush_sends_none: "tx_log sdk sent \<Longrightarrow> sent (half_duplex_uart_flush_rx sdk bus w) = sent w"
  by (simp add: half_duplex_uart_flush_rx_def tx_log_simps)

lemma count_stats [simp]:
  "transactions (count_try retry s) = transactions s + 1" "retries (count_try retry s) = retries s + (if retry then 1 else 0)"
  "transactions (count_failure r s) = transactions s" "retries (count_failure r s) = retries s"
  by (simp_all add: count_try_def count_failure_def Let_def split: servo_bus_result_t.split)

lemma only_stats: "sb_update_stats f bus\<lparr>sb_stats := s\<rparr> = bus\<lparr>sb_stats := s\<rparr>"
  by (simp add: sb_update_stats_def)

lemma try_loop_effect:
  assumes log: "tx_log sdk sent" and "0 < len" and "hd_initialised (sb_uart bus)"
    and "try_loop sdk request len servo count n retry res params err (bus, w) = Some (r, params', err', bus', w')"
  shows "\<exists>k \<le> n. (0 < n \<longrightarrow> 0 < k) \<and> sent w' = sent w @ concat (replicate k (map ucast (take len request)))
    \<and> transactions (sb_stats bus') = transactions (sb_stats bus) + of_nat k
    \<and> retries (sb_stats bus') = retries (sb_stats bus) + of_nat (if retry then k else k - 1)
    \<and> bus' = bus\<lparr>sb_stats := sb_stats bus'\<rparr>
    \<and> (r \<noteq> SERVO_BUS_OK \<longrightarrow> params' = params \<and> err' = err \<and> (k = n \<or> 128 < unat count))"
  using assms(3,4)
proof (induction n arbitrary: retry res params err bus w)
  case 0
  then show ?case by simp
next
  case (Suc n)
  define tried where "tried = sb_update_stats (count_try retry) bus"
  obtain r1 p1 e1 w1 where a: "attempt sdk tried request len servo params count err w = Some (r1, p1, e1, w1)"
    using Suc.prems(2) by (auto simp: Let_def tried_def split: option.splits)
  have init: "hd_initialised (sb_uart tried)" using Suc.prems(1) by (simp add: tried_def)
  note out = attempt_sends [OF log init assms(2) a]
  define failed where "failed = sb_update_stats (count_failure r1) tried"
  have stats: "transactions (sb_stats tried) = transactions (sb_stats bus) + 1"
      "retries (sb_stats tried) = retries (sb_stats bus) + (if retry then 1 else 0)"
      "transactions (sb_stats failed) = transactions (sb_stats tried)" "retries (sb_stats failed) = retries (sb_stats tried)"
    by (simp_all add: tried_def failed_def)
  have same: "bus\<lparr>sb_stats := sb_stats tried\<rparr> = tried" "bus\<lparr>sb_stats := sb_stats failed\<rparr> = failed"
    "failed\<lparr>sb_stats := s\<rparr> = bus\<lparr>sb_stats := s\<rparr>" for s
    by (simp_all add: tried_def failed_def sb_update_stats_def)
  consider "r1 = SERVO_BUS_OK" | "r1 = SERVO_BUS_ERR_INVALID_ARG" | "r1 \<noteq> SERVO_BUS_OK" "r1 \<noteq> SERVO_BUS_ERR_INVALID_ARG" by blast
  then show ?case
  proof cases
    case 1
    then have "r = SERVO_BUS_OK" "bus' = tried" "w' = w1"
      using Suc.prems(2) a by (simp_all add: Let_def tried_def [symmetric])
    then show ?thesis using out(1) stats same by (intro exI [of _ 1]) (simp add: Suc_le_eq)
  next
    case 2
    then have "bus' = failed" "w' = w1" "params' = p1" "err' = e1"
      using Suc.prems(2) a by (simp_all add: Let_def tried_def [symmetric] failed_def)
    then show ?thesis using out 2 stats same by (intro exI [of _ 1]) simp
  next
    case 3
    define w2 where "w2 = half_duplex_uart_flush_rx sdk (sb_uart failed) w1"
    have run: "try_loop sdk request len servo count n True r1 p1 e1 (failed, w2) = Some (r, params', err', bus', w')"
      using Suc.prems(2) a 3 by (simp add: Let_def tried_def [symmetric] failed_def w2_def)
    have "hd_initialised (sb_uart failed)" using init by (simp add: failed_def)
    from Suc.IH [OF this run] obtain k where k: "k \<le> n" "sent w' = sent w2 @ concat (replicate k (map ucast (take len request)))"
        "transactions (sb_stats bus') = transactions (sb_stats failed) + of_nat k"
        "retries (sb_stats bus') = retries (sb_stats failed) + of_nat (if True then k else k - 1)" "bus' = failed\<lparr>sb_stats := sb_stats bus'\<rparr>"
        "r \<noteq> SERVO_BUS_OK \<longrightarrow> params' = p1 \<and> err' = e1 \<and> (k = n \<or> 128 < unat count)"
      by blast
    have "sent w2 = sent w @ map ucast (take len request)"
      using out(1) by (simp add: w2_def flush_sends_none [OF log])
    moreover have "bus' = bus\<lparr>sb_stats := sb_stats bus'\<rparr>" using k(5) unfolding same(3) .
    moreover have "Suc k \<le> Suc n" "0 < Suc k" using k(1) by simp_all
    moreover have "sent w' = sent w @ concat (replicate (Suc k) (map ucast (take len request)))"
      using k(2) calculation(1) by simp
    moreover have "transactions (sb_stats bus') = transactions (sb_stats bus) + of_nat (Suc k)" using k(3) stats by simp
    moreover have "retries (sb_stats bus') = retries (sb_stats bus) + of_nat (if retry then Suc k else Suc k - 1)"
      using k(4) stats by simp
    moreover have "r \<noteq> SERVO_BUS_OK \<longrightarrow> params' = params \<and> err' = err \<and> (Suc k = Suc n \<or> 128 < unat count)"
      using k(6) out(2) [OF 3(1)] by simp
    ultimately show ?thesis by blast
  qed
qed

subsection \<open>A register write\<close>

lemma take_blit_0: "length xs \<le> length buf \<Longrightarrow> take (length xs) (blit 0 xs buf) = xs"
  by (simp add: blit_def)

lemma build_write_packet:
  assumes "0 < count" and "unat count \<le> 127" and "unat count \<le> length data"
  shows "servo_protocol_build_write packet_buffer servo reg (Some data) count =
    (SERVO_PROTOCOL_OK, Some (blit 0 (packet_bytes servo 3 (reg # take (unat count) data)) (replicate 134 0)), unat count + 7)"
proof -
  have n: "unat (count + 1) = unat count + 1" using assms(2) by (simp add: unat_word_ariths)
  let ?params = "blit 1 (take (unat count) data) ((replicate 128 0)[0 := reg])"
  have "take (unat (count + 1)) ?params = reg # take (unat count) data"
    using assms(3) by (simp add: n blit_def numeral_eq_Suc)
  moreover have "length ?params = 128" using assms(2,3) by simp
  ultimately have "servo_protocol_build packet_buffer servo 3 (Some ?params) (count + 1) =
      (SERVO_PROTOCOL_OK, Some (blit 0 (packet_bytes servo 3 (reg # take (unat count) data)) (replicate 134 0)), unat (count + 1) + 6)"
    using assms(2) n by (intro build_spec) auto
  then show ?thesis using assms(1,2) n by (auto simp: servo_protocol_build_write_def Let_def)
qed

lemma register_write_effect:
  assumes log: "tx_log sdk sent" and "sb_initialised bus" and "hd_initialised (sb_uart bus)"
    and "0 < count" and "unat count \<le> 127" and "unat count \<le> length data"
    and run: "servo_bus_write sdk servo reg (Some data) count err (bus, w) = Some (r, err', bus', w')"
  shows "\<exists>k. 0 < k \<and> k \<le> unat (sb_max_retries bus) + 1 \<and> (r \<noteq> SERVO_BUS_OK \<longrightarrow> k = unat (sb_max_retries bus) + 1)
    \<and> sent w' = sent w @ concat (replicate k (map ucast (packet_bytes servo 3 (reg # take (unat count) data))))
    \<and> transactions (sb_stats bus') = transactions (sb_stats bus) + of_nat k
    \<and> retries (sb_stats bus') = retries (sb_stats bus) + of_nat (k - 1)
    \<and> bus' = bus\<lparr>sb_stats := sb_stats bus'\<rparr> \<and> (r \<noteq> SERVO_BUS_OK \<longrightarrow> err' = map_option (\<lambda>_. 0) err)"
proof -
  let ?packet = "packet_bytes servo 3 (reg # take (unat count) data)"
  have len: "length ?packet = unat count + 7" using assms(6) by simp
  have out: "take (unat count + 7) (blit 0 ?packet (replicate 134 0)) = ?packet"
    using take_blit_0 [of ?packet "replicate 134 0", unfolded len] assms(5) by simp
  have "count \<noteq> 0" using assms(4) by auto
  then obtain params' where "try_loop sdk (blit 0 ?packet (replicate 134 0)) (unat count + 7) servo 0 (unat (sb_max_retries bus) + 1)
      False SERVO_BUS_ERR_TIMEOUT None (map_option (\<lambda>_. 0) err) (bus, w) = Some (r, params', err', bus', w')"
    using run assms(2) build_write_packet [OF assms(4-6), of servo reg]
    by (auto simp: servo_bus_write_def transact_def simp del: try_loop.simps split: option.splits)
  from try_loop_effect [OF log _ assms(3) this] show ?thesis unfolding out by (auto simp: Suc_le_eq)
qed

text \<open>C19: A register write puts its packet on the wire once for each try and nothing else: at least once, at most
  \<open>max_retries + 1\<close> times, and all those times when it fails. The counters of transactions and of retries grow by the
  tries and by the tries but one, nothing else of the bus changes but its counters, and a failure gives back an error byte of 0.
\<close>

theorem servo_write_on_the_wire:
  assumes "tx_log sdk sent" and "sb_initialised bus" and "hd_initialised (sb_uart bus)"
    and "0 < count" and "unat count \<le> 127" and "unat count \<le> length data"
    and "servo_bus_write sdk servo reg (Some data) count err (bus, w) = Some (r, err', bus', w')"
  shows "\<exists>k. 0 < k \<and> k \<le> unat (sb_max_retries bus) + 1 \<and> (r \<noteq> SERVO_BUS_OK \<longrightarrow> k = unat (sb_max_retries bus) + 1)
    \<and> sent w' = sent w @ concat (replicate k (map ucast (packet_bytes servo 3 (reg # take (unat count) data))))
    \<and> transactions (sb_stats bus') = transactions (sb_stats bus) + of_nat k
    \<and> retries (sb_stats bus') = retries (sb_stats bus) + of_nat (k - 1)
    \<and> bus' = bus\<lparr>sb_stats := sb_stats bus'\<rparr> \<and> (r \<noteq> SERVO_BUS_OK \<longrightarrow> err' = map_option (\<lambda>_. 0) err)"
  by (rule register_write_effect [OF assms])

subsection \<open>A register read\<close>

text \<open>What the parser accepts begins with a whole packet.\<close>

lemma parse_ok:
  assumes "servo_protocol_parse_status (Some bytes) = (SERVO_PROTOCOL_OK, status)"
  shows "\<exists>ps. length ps = unat (sp_param_count status) \<and> length ps + 6 \<le> length bytes
    \<and> take (length ps + 6) bytes = packet_bytes (sp_id status) (sp_error status) ps
    \<and> sp_params status = (if ps = [] then None else Some 5)"
proof -
  define n where "n = bytes ! 3 - 2"
  have "bytes ! 0 = 0xFF" "bytes ! 1 = 0xFF" and n: "unat n \<le> SERVO_PROTOCOL_MAX_PARAMS" "unat n + 6 \<le> length bytes"
    using assms by (auto simp: servo_protocol_parse_status_def Let_def n_def servo_protocol_packet_size_def split: if_splits)
  then obtain servo e rest where bytes: "bytes = [0xFF, 0xFF, servo, n + 2, e] @ rest"
  proof -
    have "6 \<le> length bytes" using n(2) by simp
    then obtain a b c d e rest where "bytes = a # b # c # d # e # rest"
      by (cases bytes; cases "tl bytes"; cases "tl (tl bytes)"; cases "tl (tl (tl bytes))"; cases "tl (tl (tl (tl bytes)))") auto
    then show ?thesis using that [of c e rest] \<open>bytes ! 0 = 0xFF\<close> \<open>bytes ! 1 = 0xFF\<close> by (simp add: n_def)
  qed
  have rest: "unat n + 1 \<le> length rest" using n(2) bytes by simp
  have sum: "servo_protocol_checksum ([servo, n + 2, e] @ take (unat n) rest) = rest ! unat n"
    and status: "status = \<lparr>sp_id = servo, sp_error = e, sp_params = (if 0 < n then Some 5 else None), sp_param_count = n,
      sp_packet_size = unat n + 6\<rparr>"
    using assms rest unfolding parse_header [OF bytes n(1)] by (simp_all split: if_splits)
  have "take (Suc (unat n)) rest = take (unat n) rest @ [rest ! unat n]" using rest by (simp add: take_Suc_conv_app_nth)
  then have "take (unat n + 6) bytes = packet_bytes servo e (take (unat n) rest)"
    using rest sum by (simp add: bytes packet_bytes_def packet_body_def eval_nat_numeral)
  moreover have "0 < n \<longleftrightarrow> take (unat n) rest \<noteq> []"
    using rest by (cases "n = 0") (auto simp: word_neq_0_conv word_less_nat_alt)
  ultimately show ?thesis using rest n(2) status by (intro exI [of _ "take (unat n) rest"]) simp
qed

lemma accept_reply_packet:
  assumes "accept_reply (blit 0 bytes reply) (unat count + 6) servo params count err = (SERVO_BUS_OK, params', err')"
    and "length bytes = unat count + 6" and "length bytes \<le> length reply"
  shows "\<exists>e ps. bytes = packet_bytes servo e ps \<and> length ps = unat count
    \<and> params' = (if count = 0 then params else map_option (blit 0 ps) params) \<and> err' = map_option (\<lambda>_. e) err"
proof -
  have bytes: "take (unat count + 6) (blit 0 bytes reply) = bytes" using take_blit_0 [OF assms(3)] assms(2) by simp
  obtain parsed status where p: "servo_protocol_parse_status (Some bytes) = (parsed, status)" by fastforce
  have ok: "parsed = SERVO_PROTOCOL_OK" "sp_id status = servo" "count \<le> sp_param_count status"
    and params: "params' = (if 0 < count then map_option (blit 0 (chunk (the (sp_params status)) (unat count) (blit 0 bytes reply))) params
      else params)" and err: "err' = map_option (\<lambda>_. sp_error status) err"
    using assms(1) p bytes by (auto simp: accept_reply_def not_less split: if_splits)
  obtain ps where ps: "length ps = unat (sp_param_count status)" "length ps + 6 \<le> length bytes"
      "take (length ps + 6) bytes = packet_bytes (sp_id status) (sp_error status) ps"
      "sp_params status = (if ps = [] then None else Some 5)"
    using parse_ok p ok(1) by blast
  have n: "length ps = unat count" using ps(1,2) ok(3) assms(2) by (simp add: word_le_nat_alt)
  have packet: "bytes = packet_bytes servo (sp_error status) ps" using ps(3) n assms(2) ok(2) by simp
  have "chunk 5 (unat count) (blit 0 bytes reply) = ps"
    using n by (simp add: packet chunk_def blit_def packet_bytes_def packet_body_def numeral_eq_Suc)
  then have "params' = (if count = 0 then params else map_option (blit 0 ps) params)"
    using params ps(4) n by (cases "count = 0") (auto simp: word_neq_0_conv)
  then show ?thesis using packet n err by blast
qed

text \<open>\<open>taken\<close> is the list of the words taken from the receiver so far; nothing else touches it.\<close>

definition only_reads_take :: "'w hd_sdk \<Rightarrow> ('w \<Rightarrow> u32 list) \<Rightarrow> bool" where
  "only_reads_take sdk taken \<longleftrightarrow> rx_log sdk taken \<and> (\<forall>call w. taken (pio_do sdk call w) = taken w)
     \<and> (\<forall>w. taken (snd (fdebug sdk w)) = taken w)"

lemma only_reads_take_simps:
  assumes "only_reads_take sdk taken"
  shows "rx_log sdk taken" "taken (pio_do sdk call w) = taken w" "taken (snd (fdebug sdk w)) = taken w"
    "taken (snd (get_time_us sdk w)) = taken w" "taken (snd (sm_get sdk sm w)) = taken w @ [fst (sm_get sdk sm w)]"
    "taken (perform_all sdk calls w) = taken w"
proof -
  show "taken (perform_all sdk calls w) = taken w"
    using assms by (induction calls arbitrary: w) (simp_all add: only_reads_take_def)
qed (use assms in \<open>simp_all add: only_reads_take_def rx_log_def\<close>)

lemma write_grows:
  assumes take: "only_reads_take sdk taken" and "hd_initialised bus" and "0 < n"
    and "half_duplex_uart_write sdk bus (Some data) n w = Some (r, w')"
  shows "\<exists>ws. taken w' = taken w @ ws"
proof (rule write_looks [OF _ assms(2,3) _ assms(4), where I = "\<lambda>v. \<exists>ws. taken v = taken w @ ws"])
  have "\<exists>ws'. taken (snd (sm_get sdk sm v)) = taken w @ ws'" if "taken v = taken w @ ws" for sm v ws
    using that by (simp add: only_reads_take_simps(5) [OF take])
  then show "looks_keep sdk (\<lambda>v. \<exists>ws. taken v = taken w @ ws)"
    using take by (auto simp: looks_keep_def only_reads_take_def rx_log_def)
qed (simp add: loaded_def only_reads_take_simps(2,6) [OF take])

lemma attempt_failure_keeps:
  assumes "attempt sdk bus request len servo params count err w = Some (r, params', err', w')" and "r \<noteq> SERVO_BUS_OK"
  shows "params' = params \<and> err' = err"
  using assms by (auto simp: attempt_def accept_reply_def Let_def split: if_splits option.splits prod.splits)

lemma attempt_reads:
  assumes take: "only_reads_take sdk taken" and bus: "hd_initialised (sb_uart bus)" and "0 < len"
    and run: "attempt sdk bus request len servo params count err w = Some (r, params', err', w')"
  shows "\<exists>ws. taken w' = taken w @ ws"
    and "r = SERVO_BUS_OK \<Longrightarrow> servo \<noteq> SERVO_PROTOCOL_BROADCAST_ID \<Longrightarrow>
      \<exists>pre ws e ps. taken w' = taken w @ pre @ ws \<and> map top_byte ws = packet_bytes servo e ps \<and> length ps = unat count
        \<and> params' = (if count = 0 then params else map_option (blit 0 ps) params) \<and> err' = map_option (\<lambda>_. e) err"
proof -
  obtain s w1 where w1: "half_duplex_uart_write sdk (sb_uart bus) (Some request) len w = Some (s, w1)"
    using run by (auto simp: attempt_def split: option.splits)
  obtain pre where pre: "taken w1 = taken w @ pre" using write_grows [OF take bus assms(3) w1] by blast
  define reply where "reply = replicate 134 (0 :: u8)"
  show "\<exists>ws. taken w' = taken w @ ws"
  proof (cases "s = HALF_DUPLEX_UART_OK \<and> servo \<noteq> SERVO_PROTOCOL_BROADCAST_ID \<and> unat count + 6 \<le> 134")
    case True
    then obtain got b where read: "half_duplex_uart_read_exact sdk (sb_uart bus) (Some reply) (unat count + 6)
        (reply_timeout_us bus (unat count + 6)) w1 = Some (got, b, w')"
      using run w1 unfolding attempt_def reply_def
      by (auto simp: servo_protocol_packet_size_def Let_def split: option.splits if_splits prod.splits)
    obtain ws where "taken w' = taken w1 @ ws"
      using read_exact_sound [OF only_reads_take_simps(1) [OF take] bus _ _ read] True by (auto simp: reply_def)
    then show ?thesis using pre by simp
  qed (use run w1 pre in \<open>auto simp: attempt_def servo_protocol_packet_size_def Let_def split: if_splits\<close>)
  assume ok: "r = SERVO_BUS_OK" "servo \<noteq> SERVO_PROTOCOL_BROADCAST_ID"
  have n: "unat count + 6 \<le> length reply"
    using run w1 ok unfolding attempt_def reply_def
    by (auto simp: servo_protocol_packet_size_def transport_error_def Let_def split: if_splits)
  obtain b where read: "half_duplex_uart_read_exact sdk (sb_uart bus) (Some reply) (unat count + 6)
      (reply_timeout_us bus (unat count + 6)) w1 = Some (HALF_DUPLEX_UART_OK, b, w')"
    and accept: "accept_reply (the b) (unat count + 6) servo params count err = (SERVO_BUS_OK, params', err')"
    using run w1 ok n unfolding attempt_def reply_def
    by (auto simp: servo_protocol_packet_size_def transport_error_def Let_def split: option.splits if_splits prod.splits)
  obtain ws where ws: "taken w' = taken w1 @ ws" "length ws \<le> unat count + 6" "b = Some (blit 0 (map top_byte ws) reply)"
      "HALF_DUPLEX_UART_OK = (if length ws = unat count + 6 then HALF_DUPLEX_UART_OK else HALF_DUPLEX_UART_ERR_TIMEOUT)"
    using read_exact_sound [OF only_reads_take_simps(1) [OF take] bus n _ read] by auto
  have len: "length ws = unat count + 6" using ws(4) by (simp split: if_splits)
  obtain e ps where "map top_byte ws = packet_bytes servo e ps" "length ps = unat count"
      "params' = (if count = 0 then params else map_option (blit 0 ps) params)" "err' = map_option (\<lambda>_. e) err"
    using accept_reply_packet [of "map top_byte ws" reply count servo params err params' err'] accept ws(3) len n by auto
  then show "\<exists>pre ws e ps. taken w' = taken w @ pre @ ws \<and> map top_byte ws = packet_bytes servo e ps \<and> length ps = unat count
      \<and> params' = (if count = 0 then params else map_option (blit 0 ps) params) \<and> err' = map_option (\<lambda>_. e) err"
    using ws(1) pre by (intro exI [of _ pre] exI [of _ ws] exI [of _ e] exI [of _ ps]) simp
qed

lemma try_loop_reads:
  assumes take: "only_reads_take sdk taken" and "0 < len" and "servo \<noteq> SERVO_PROTOCOL_BROADCAST_ID"
    and "hd_initialised (sb_uart bus)" and "res \<noteq> SERVO_BUS_OK"
    and "try_loop sdk request len servo count n retry res params err (bus, w) = Some (SERVO_BUS_OK, params', err', bus', w')"
  shows "\<exists>pre ws e ps. taken w' = taken w @ pre @ ws \<and> map top_byte ws = packet_bytes servo e ps \<and> length ps = unat count
        \<and> params' = (if count = 0 then params else map_option (blit 0 ps) params) \<and> err' = map_option (\<lambda>_. e) err"
  using assms(4-6)
proof (induction n arbitrary: retry res params err bus w)
  case (Suc n)
  define tried where "tried = sb_update_stats (count_try retry) bus"
  obtain r1 p1 e1 w1 where a: "attempt sdk tried request len servo params count err w = Some (r1, p1, e1, w1)"
    using Suc.prems(3) by (auto simp: Let_def tried_def split: option.splits)
  have init: "hd_initialised (sb_uart tried)" using Suc.prems(1) by (simp add: tried_def)
  note reads = attempt_reads [OF take init assms(2) a]
  show ?case
  proof (cases "r1 = SERVO_BUS_OK")
    case True
    then have "w' = w1" "params' = p1" "err' = e1" using Suc.prems(3) a by (simp_all add: Let_def tried_def [symmetric])
    then show ?thesis using reads(2) [OF True assms(3)] by simp
  next
    case False
    define failed where "failed = sb_update_stats (count_failure r1) tried"
    define w2 where "w2 = half_duplex_uart_flush_rx sdk (sb_uart failed) w1"
    have run: "try_loop sdk request len servo count n True r1 p1 e1 (failed, w2) = Some (SERVO_BUS_OK, params', err', bus', w')"
      using Suc.prems(3) a False by (simp add: Let_def tried_def [symmetric] failed_def w2_def split: if_splits)
    have "hd_initialised (sb_uart failed)" using init by (simp add: failed_def)
    note later = Suc.IH [OF this False run]
    obtain ws where "taken w1 = taken w @ ws" using reads(1) by blast
    then have "taken w2 = taken w @ ws" by (simp add: w2_def half_duplex_uart_flush_rx_def only_reads_take_simps(2) [OF take])
    then show ?thesis using later attempt_failure_keeps [OF a False] by (metis append_assoc)
  qed
qed simp

text \<open>C18: A register read that succeeds gives what the servo sent: the last \<open>count + 6\<close> bytes taken from the wire during the call
  are a status packet of that servo, well formed and with its checksum right, the caller's array begins with
  its \<open>count\<close> parameters and is otherwise unchanged, and the error byte is the packet's.
\<close>

theorem servo_read_is_what_the_servo_sent:
  assumes "only_reads_take sdk taken" and "hd_initialised (sb_uart bus)"
    and run: "servo_bus_read sdk servo reg (Some data) count err (bus, w) = Some (SERVO_BUS_OK, data', err', bus', w')"
  shows "\<exists>pre ws e ps. taken w' = taken w @ pre @ ws \<and> map top_byte ws = packet_bytes servo e ps \<and> length ps = unat count
    \<and> data' = Some (blit 0 ps data) \<and> err' = map_option (\<lambda>_. e) err"
proof -
  obtain request len where built: "servo_protocol_build_read packet_buffer servo reg count = (SERVO_PROTOCOL_OK, request, len)"
    and servo: "count \<noteq> 0" "servo \<noteq> SERVO_PROTOCOL_BROADCAST_ID"
    and loop: "try_loop sdk (the request) len servo count (unat (sb_max_retries bus) + 1) False SERVO_BUS_ERR_TIMEOUT (Some data)
        (map_option (\<lambda>_. 0) err) (bus, w) = Some (SERVO_BUS_OK, data', err', bus', w')"
    using run by (auto simp: servo_bus_read_def transact_def simp del: try_loop.simps split: if_splits prod.splits)
  have "0 < len" using built build_spec [of 2 "replicate 134 0" "Some [reg, count]" "[reg, count]" servo 2] servo
    by (auto simp: servo_protocol_build_read_def split: if_splits)
  from try_loop_reads [OF assms(1) this servo(2) assms(2) _ loop] servo(1) show ?thesis by (simp add: option.map_comp comp_def)
qed

subsection \<open>A bus with one servo\<close>

text \<open>
  A wire for the examples whose adapter keeps the echo from the receiver: when the transmitter is done, the servo answers
  with the bytes \<open>reply\<close>. The clock ticks once per reading.
\<close>

record sim_line =
  sl_ticks :: nat
  sl_rx :: "u32 list"
  sl_taken :: "u32 list"
  sl_sent :: "u32 list"

definition sim_servo :: "u8 list \<Rightarrow> sim_line hd_sdk" where
  "sim_servo reply =
     \<lparr>clk_sys_hz = 125000000,
      get_time_us = (\<lambda>w. (sl_ticks w + 1, w\<lparr>sl_ticks := sl_ticks w + 1\<rparr>)),
      add_program = (\<lambda>p w. (0, w)), claim_unused_sm = (\<lambda>w. (0, w)),
      rx_fifo_empty = (\<lambda>sm w. (sl_rx w = [], w)),
      sm_get = (\<lambda>sm w.
        let word = (if sl_rx w = [] then 0 else hd (sl_rx w))
        in (word, w\<lparr>sl_rx := tl (sl_rx w), sl_taken := sl_taken w @ [word]\<rparr>)),
      fdebug = (\<lambda>w. (-1, w\<lparr>sl_rx := map (\<lambda>b. push_bit 24 (ucast b)) reply\<rparr>)),
      pio_do = (\<lambda>call w.
        case call of
          Sm_put_blocking sm b \<Rightarrow> w\<lparr>sl_sent := sl_sent w @ [b]\<rparr>
        | Sm_clear_fifos sm \<Rightarrow> w\<lparr>sl_rx := []\<rparr>
        | _ \<Rightarrow> w)\<rparr>"

lemma sim_servo_laws:
  "wire_clock (sim_servo reply) sl_ticks 1" "tx_drains (sim_servo reply) (\<lambda>_. 0)" "tx_log (sim_servo reply) sl_sent"
  "only_reads_take (sim_servo reply) sl_taken"
proof -
  have "(push_bit (24 + sm) 1 :: u32) \<noteq> 0" if "sm < 4" for sm
    using that by (simp add: exp_eq_zero_iff)
  then show "tx_drains (sim_servo reply) (\<lambda>_. 0)" by (simp add: tx_drains_def sim_servo_def del: push_bit_of_1)
qed (auto simp: wire_clock_def tx_log_def only_reads_take_def rx_log_def sim_servo_def Let_def split: pio_op.splits)

definition sim_bus :: servo_bus_t where
  "sim_bus = \<lparr>sb_uart = sim_uart\<lparr>hd_echo := HALF_DUPLEX_UART_ECHO_KEEP\<rparr>, sb_endianness = SERVO_ENDIAN_LITTLE, sb_max_retries = 2,
     sb_response_timeout_us = 3000, sb_stats = no_stats, sb_initialised = True\<rparr>"

definition quiet_line :: sim_line where
  "quiet_line = \<lparr>sl_ticks = 0, sl_rx = [], sl_taken = [], sl_sent = []\<rparr>"

lemma servo_bus_always_returns_witness:
  "servo_bus_ping (sim_servo []) 1 None (sim_bus, w) \<noteq> None \<and> servo_bus_read (sim_servo []) 1 36 (Some [0, 0]) 2 (Some 0) (sim_bus, w) \<noteq> None"
  using servo_bus_always_returns [OF sim_servo_laws(1,2), of "(sim_bus, w)" "[]" 1 None]
    servo_bus_always_returns [OF sim_servo_laws(1,2), of "(sim_bus, w)" "[]" 1 "Some 0" 36 "Some [0, 0]" 2]
  by (simp add: sim_bus_def sim_uart_def)

lemma sim_await_stall: "sm < 4 \<Longrightarrow> await_stall (sim_servo reply) (push_bit (24 + sm) 1) w = Some (snd (fdebug (sim_servo reply) w))"
proof -
  assume "sm < 4"
  then have "(push_bit (24 + sm) 1 :: u32) \<noteq> 0" by (simp add: exp_eq_zero_iff)
  then show ?thesis by (subst await_stall.simps) (simp add: sim_servo_def del: push_bit_of_1)
qed

lemma sim_write:
  "0 < n \<Longrightarrow> half_duplex_uart_write (sim_servo reply) (sb_uart sim_bus) (Some data) n w
    = Some (HALF_DUPLEX_UART_OK, snd (fdebug (sim_servo reply) (loaded (sim_servo reply) (sb_uart sim_bus) (take n data) w)))"
  using sim_await_stall [of 0 reply] by (simp add: write_eq sim_bus_def sim_uart_def stall_flag_def del: push_bit_of_1)

lemma sim_await_byte: "sl_rx w \<noteq> [] \<Longrightarrow> await_byte (sim_servo reply) bus deadline w = Some (True, w)"
  by (subst await_byte.simps) (simp add: sim_servo_def)

lemma sim_read_loop:
  "n \<le> length (sl_rx w) \<Longrightarrow> count + n \<le> length buffer \<Longrightarrow> \<exists>w'. read_loop (sim_servo reply) bus gap n deadline buffer count w
    = Some (blit count (map top_byte (take n (sl_rx w))) buffer, count + n, w')"
proof (induction n arbitrary: deadline buffer count w)
  case (Suc n)
  then obtain word rx where rx: "sl_rx w = word # rx" by (cases "sl_rx w") auto
  obtain byte w2 where b: "rx_byte (sim_servo reply) bus w = (byte, w2)" by fastforce
  obtain now w1 where t: "get_time_us (sim_servo reply) w2 = (now, w1)" by fastforce
  have w1: "sl_rx w1 = rx" and byte: "byte = top_byte word"
    using rx b t by (auto simp: rx_byte_def sim_servo_def Let_def)
  have "\<exists>w'. read_loop (sim_servo reply) bus gap n (now + gap) (buffer[count := byte]) (count + 1) w1
      = Some (blit (count + 1) (map top_byte (take n rx)) (buffer[count := byte]), count + 1 + n, w')"
    using Suc.IH [of w1 "count + 1"] Suc.prems rx w1 by simp
  moreover have "blit (count + 1) (map top_byte (take n rx)) (buffer[count := byte])
      = blit count (map top_byte (take (Suc n) (sl_rx w))) buffer"
    using update_blit [of count buffer "top_byte word"] blit_after_blit [of count "[top_byte word]" "map top_byte (take n rx)" buffer]
      Suc.prems rx byte by simp
  ultimately show ?case using rx b t by (simp add: sim_await_byte)
qed simp

lemma top_byte_pushed [simp]: "top_byte (push_bit 24 (ucast b)) = b"
  by (intro bit_word_eqI) (auto simp: bit_simps)

lemma sim_attempt:
  assumes "0 < len" and "length ps = unat count" and "length ps \<le> 128" and "servo \<noteq> SERVO_PROTOCOL_BROADCAST_ID"
  shows "\<exists>w'. attempt (sim_servo (packet_bytes servo e ps)) (sim_bus\<lparr>sb_stats := s\<rparr>) request len servo params count err w
    = Some (SERVO_BUS_OK, if 0 < count then map_option (blit 0 ps) params else params, map_option (\<lambda>_. e) err, w')"
proof -
  let ?sdk = "sim_servo (packet_bytes servo e ps)" and ?reply = "replicate 134 0 :: u8 list"
  define w1 where "w1 = snd (fdebug ?sdk (loaded ?sdk (sb_uart sim_bus) (take len request) w))"
  have rx: "map top_byte (take (unat count + 6) (sl_rx w1)) = packet_bytes servo e ps" "length (sl_rx w1) = unat count + 6"
    using assms(2) by (simp_all add: w1_def sim_servo_def comp_def)
  obtain now w2 where t: "get_time_us ?sdk w1 = (now, w2)" by fastforce
  have "sl_rx w2 = sl_rx w1" using t by (auto simp: sim_servo_def)
  then have "\<exists>w'. read_loop ?sdk bus gap (unat count + 6) deadline ?reply 0 w2
      = Some (blit 0 (packet_bytes servo e ps) ?reply, unat count + 6, w')" for bus gap deadline
    using sim_read_loop [of "unat count + 6" w2 0 ?reply] rx assms(2,3) by simp
  note loop = this
  have read: "\<exists>w'. half_duplex_uart_read_exact ?sdk (sb_uart sim_bus) (Some ?reply) (unat count + 6) timeout w1
      = Some (HALF_DUPLEX_UART_OK, Some (blit 0 (packet_bytes servo e ps) ?reply), w')" for timeout
  proof -
    obtain w' where "read_loop ?sdk (sb_uart sim_bus) (unat timeout) (unat count + 6) (now + unat timeout) ?reply 0 w2
        = Some (blit 0 (packet_bytes servo e ps) ?reply, unat count + 6, w')" using loop by blast
    moreover have "hd_initialised (sb_uart sim_bus)" by (simp add: sim_bus_def sim_uart_def)
    ultimately show ?thesis using t by (simp add: half_duplex_uart_read_exact_def half_duplex_uart_read_def del: read_loop.simps)
  qed
  have "take (unat count + 6) (blit 0 (packet_bytes servo e ps) ?reply) = packet_bytes servo e ps @ []"
    using take_blit_0 [of "packet_bytes servo e ps" ?reply] assms(2,3) by simp
  moreover have "chunk 5 (unat count) (blit 0 (packet_bytes servo e ps) ?reply) = ps"
    using assms(2) by (simp add: chunk_def blit_def packet_bytes_def packet_body_def numeral_eq_Suc)
  ultimately have "accept_reply (blit 0 (packet_bytes servo e ps) ?reply) (unat count + 6) servo params count err
      = (SERVO_BUS_OK, if 0 < count then map_option (blit 0 ps) params else params, map_option (\<lambda>_. e) err)"
    using assms(2,3) parse_packet [of ps servo e "[]"] by (auto simp: accept_reply_def word_neq_0_conv)
  then show ?thesis
    using read [of "reply_timeout_us (sim_bus\<lparr>sb_stats := s\<rparr>) (unat count + 6)"] assms sim_write [OF assms(1), of "packet_bytes servo e ps" request w]
    by (auto simp: attempt_def servo_protocol_packet_size_def w1_def Let_def)
qed

lemma sim_transact:
  assumes "0 < len" and "length ps = unat count" and "length ps \<le> 128" and "servo \<noteq> SERVO_PROTOCOL_BROADCAST_ID"
  shows "\<exists>bus' w'. transact (sim_servo (packet_bytes servo e ps)) request len servo params count err (sim_bus, w)
    = Some (SERVO_BUS_OK, if 0 < count then map_option (blit 0 ps) params else params, map_option (\<lambda>_. e) err, bus', w')"
proof -
  have "sb_update_stats (count_try False) sim_bus = sim_bus\<lparr>sb_stats := count_try False no_stats\<rparr>"
    by (simp add: sb_update_stats_def sim_bus_def)
  moreover obtain w' where "attempt (sim_servo (packet_bytes servo e ps)) (sim_bus\<lparr>sb_stats := count_try False no_stats\<rparr>) request len
      servo params count (map_option (\<lambda>_. 0) err) w
    = Some (SERVO_BUS_OK, if 0 < count then map_option (blit 0 ps) params else params, map_option (\<lambda>_. e) (map_option (\<lambda>_. 0 :: u8) err), w')"
    using sim_attempt [OF assms, of e "count_try False no_stats" request params "map_option (\<lambda>_. 0 :: u8) err" w] by blast
  moreover have "map_option (\<lambda>_. e) (map_option (\<lambda>_. 0 :: u8) err) = map_option (\<lambda>_. e) err" by (cases err) simp_all
  ultimately show ?thesis by (simp add: transact_def)
qed

lemma servo_write_on_the_wire_witness:
  "\<exists>k w'. k \<le> 3 \<and> sl_sent (w' :: sim_line) = concat (replicate k [0xFF, 0xFF, 1, 5, 3, 30, 0x34, 0x12, 0x92])"
proof -
  let ?sdk = "sim_servo (packet_bytes 1 0 [])" and ?data = "[0x34, 0x12] :: u8 list"
  obtain bus' w' where "servo_bus_write ?sdk 1 30 (Some ?data) 2 None (sim_bus, quiet_line) = Some (SERVO_BUS_OK, None, bus', w')"
    using sim_transact [of 9 "[]" 0 1 0 "blit 0 (packet_bytes 1 3 [30, 0x34, 0x12]) (replicate 134 0)" None None quiet_line]
      build_write_packet [of 2 ?data 1 30]
    by (auto simp: servo_bus_write_def sim_bus_def)
  from servo_write_on_the_wire [OF sim_servo_laws(3) _ _ _ _ _ this]
  obtain k where "k \<le> 3" "sl_sent w' = concat (replicate k (map ucast (packet_bytes 1 3 [30, 0x34, 0x12])))"
    by (auto simp: sim_bus_def sim_uart_def quiet_line_def)
  moreover have "map ucast (packet_bytes 1 3 [30, 0x34, 0x12]) = [0xFF, 0xFF, 1, 5, 3, 30, 0x34, 0x12, 0x92 :: u32]"
    by (simp add: packet_bytes_def packet_body_def checksum_eq)
  ultimately show ?thesis by (intro exI [of _ k] exI [of _ w']) simp
qed

lemma servo_read_is_what_the_servo_sent_witness:
  "\<exists>pre ws e ps w'. sl_taken (w' :: sim_line) = pre @ ws \<and> map top_byte ws = packet_bytes 1 e ps \<and> length ps = 2 \<and> blit 0 ps [0, 0, 7] = [0x34, 0x12, 7 :: u8]"
proof -
  let ?sdk = "sim_servo (packet_bytes 1 32 [0x34, 0x12])"
  have built: "servo_protocol_build_read packet_buffer 1 36 2 = (SERVO_PROTOCOL_OK, Some (blit 0 (packet_bytes 1 2 [36, 2]) (replicate 134 0)), 8)"
    using build_spec [of 2 "replicate 134 0" "Some [36, 2]" "[36, 2]" 1 2] by (simp add: servo_protocol_build_read_def)
  obtain bus' w' where "servo_bus_read ?sdk 1 36 (Some [0, 0, 7]) 2 (Some 0) (sim_bus, quiet_line)
      = Some (SERVO_BUS_OK, Some [0x34, 0x12, 7], Some 32, bus', w')"
    using sim_transact [of 8 "[0x34, 0x12]" 2 1 32 "blit 0 (packet_bytes 1 2 [36, 2]) (replicate 134 0)" "Some [0, 0, 7]" "Some 0" quiet_line] built
    by (auto simp: servo_bus_read_def sim_bus_def blit_def)
  moreover have "hd_initialised (sb_uart sim_bus)" by (simp add: sim_bus_def sim_uart_def)
  ultimately obtain pre ws e ps where "sl_taken w' = sl_taken quiet_line @ pre @ ws" "map top_byte ws = packet_bytes 1 e ps"
      "length ps = unat (2 :: u8)" "Some [0x34, 0x12, 7] = Some (blit 0 ps [0, 0, 7])"
    using servo_read_is_what_the_servo_sent [OF sim_servo_laws(4)] by blast
  then show ?thesis
    by - (rule exI [of _ pre], rule exI [of _ ws], rule exI [of _ e], rule exI [of _ ps], rule exI [of _ w'], simp add: quiet_line_def)
qed

end
