(* ===== verification/Servo_Registers.thy ===== *)
theory Servo_Registers
  imports Servo_Protocol
begin

text \<open>
  Model of \<open>components/ax12/ax12_registers.c\<close> and \<open>components/feetech/feetech_registers.c\<close>: the register tables of the two
  families of servos, their baud rates and their units. What the two files call \<open>lookup\<close> and \<open>g_registers\<close> has
  here the name of its family. An out-parameter that the code leaves alone on failure is \<open>None\<close>; an \<open>int16_t\<close> is
  a word of 16 bits, read with \<open>sint\<close>.
\<close>

subsection \<open>The tables\<close>

abbreviation (input) "AX12_REG_MODEL_NUMBER \<equiv> (0x00 :: u8)"
abbreviation (input) "AX12_REG_FIRMWARE_VERSION \<equiv> (0x02 :: u8)"
abbreviation (input) "AX12_REG_ID \<equiv> (0x03 :: u8)"
abbreviation (input) "AX12_REG_BAUD_RATE \<equiv> (0x04 :: u8)"
abbreviation (input) "AX12_REG_RETURN_DELAY_TIME \<equiv> (0x05 :: u8)"
abbreviation (input) "AX12_REG_CW_ANGLE_LIMIT \<equiv> (0x06 :: u8)"
abbreviation (input) "AX12_REG_CCW_ANGLE_LIMIT \<equiv> (0x08 :: u8)"
abbreviation (input) "AX12_REG_TEMPERATURE_LIMIT \<equiv> (0x0B :: u8)"
abbreviation (input) "AX12_REG_MIN_VOLTAGE_LIMIT \<equiv> (0x0C :: u8)"
abbreviation (input) "AX12_REG_MAX_VOLTAGE_LIMIT \<equiv> (0x0D :: u8)"
abbreviation (input) "AX12_REG_MAX_TORQUE \<equiv> (0x0E :: u8)"
abbreviation (input) "AX12_REG_STATUS_RETURN_LEVEL \<equiv> (0x10 :: u8)"
abbreviation (input) "AX12_REG_ALARM_LED \<equiv> (0x11 :: u8)"
abbreviation (input) "AX12_REG_SHUTDOWN \<equiv> (0x12 :: u8)"
abbreviation (input) "AX12_REG_DOWN_CALIBRATION \<equiv> (0x14 :: u8)"
abbreviation (input) "AX12_REG_UP_CALIBRATION \<equiv> (0x16 :: u8)"
abbreviation (input) "AX12_REG_TORQUE_ENABLE \<equiv> (0x18 :: u8)"
abbreviation (input) "AX12_REG_LED \<equiv> (0x19 :: u8)"
abbreviation (input) "AX12_REG_CW_COMPLIANCE_MARGIN \<equiv> (0x1A :: u8)"
abbreviation (input) "AX12_REG_CCW_COMPLIANCE_MARGIN \<equiv> (0x1B :: u8)"
abbreviation (input) "AX12_REG_CW_COMPLIANCE_SLOPE \<equiv> (0x1C :: u8)"
abbreviation (input) "AX12_REG_CCW_COMPLIANCE_SLOPE \<equiv> (0x1D :: u8)"
abbreviation (input) "AX12_REG_GOAL_POSITION \<equiv> (0x1E :: u8)"
abbreviation (input) "AX12_REG_MOVING_SPEED \<equiv> (0x20 :: u8)"
abbreviation (input) "AX12_REG_TORQUE_LIMIT \<equiv> (0x22 :: u8)"
abbreviation (input) "AX12_REG_PRESENT_POSITION \<equiv> (0x24 :: u8)"
abbreviation (input) "AX12_REG_PRESENT_SPEED \<equiv> (0x26 :: u8)"
abbreviation (input) "AX12_REG_PRESENT_LOAD \<equiv> (0x28 :: u8)"
abbreviation (input) "AX12_REG_PRESENT_VOLTAGE \<equiv> (0x2A :: u8)"
abbreviation (input) "AX12_REG_PRESENT_TEMPERATURE \<equiv> (0x2B :: u8)"
abbreviation (input) "AX12_REG_REGISTERED \<equiv> (0x2C :: u8)"
abbreviation (input) "AX12_REG_MOVING \<equiv> (0x2E :: u8)"
abbreviation (input) "AX12_REG_LOCK \<equiv> (0x2F :: u8)"
abbreviation (input) "AX12_REG_PUNCH \<equiv> (0x30 :: u8)"

abbreviation (input) "FEETECH_REG_MODEL \<equiv> (0x03 :: u8)"
abbreviation (input) "FEETECH_REG_ID \<equiv> (0x05 :: u8)"
abbreviation (input) "FEETECH_REG_BAUD_RATE \<equiv> (0x06 :: u8)"
abbreviation (input) "FEETECH_REG_RETURN_DELAY \<equiv> (0x07 :: u8)"
abbreviation (input) "FEETECH_REG_STATUS_RETURN \<equiv> (0x08 :: u8)"
abbreviation (input) "FEETECH_REG_MIN_ANGLE_LIMIT \<equiv> (0x09 :: u8)"
abbreviation (input) "FEETECH_REG_MAX_ANGLE_LIMIT \<equiv> (0x0B :: u8)"
abbreviation (input) "FEETECH_REG_MAX_TEMPERATURE \<equiv> (0x0D :: u8)"
abbreviation (input) "FEETECH_REG_MAX_VOLTAGE \<equiv> (0x0E :: u8)"
abbreviation (input) "FEETECH_REG_MIN_VOLTAGE \<equiv> (0x0F :: u8)"
abbreviation (input) "FEETECH_REG_MAX_TORQUE \<equiv> (0x10 :: u8)"
abbreviation (input) "FEETECH_REG_SETTING_BYTE \<equiv> (0x12 :: u8)"
abbreviation (input) "FEETECH_REG_PROTECTION \<equiv> (0x13 :: u8)"
abbreviation (input) "FEETECH_REG_ALARM_LED \<equiv> (0x14 :: u8)"
abbreviation (input) "FEETECH_REG_P_GAIN \<equiv> (0x15 :: u8)"
abbreviation (input) "FEETECH_REG_D_GAIN \<equiv> (0x16 :: u8)"
abbreviation (input) "FEETECH_REG_I_GAIN \<equiv> (0x17 :: u8)"
abbreviation (input) "FEETECH_REG_MIN_START_TORQUE \<equiv> (0x18 :: u8)"
abbreviation (input) "FEETECH_REG_CW_DEAD_BAND \<equiv> (0x1A :: u8)"
abbreviation (input) "FEETECH_REG_CCW_DEAD_BAND \<equiv> (0x1B :: u8)"
abbreviation (input) "FEETECH_REG_OVERLOAD_CURRENT \<equiv> (0x1C :: u8)"
abbreviation (input) "FEETECH_REG_RESOLUTION \<equiv> (0x1E :: u8)"
abbreviation (input) "FEETECH_REG_POSITION_OFFSET \<equiv> (0x1F :: u8)"
abbreviation (input) "FEETECH_REG_MODE \<equiv> (0x21 :: u8)"
abbreviation (input) "FEETECH_REG_TORQUE_ENABLE \<equiv> (0x28 :: u8)"
abbreviation (input) "FEETECH_REG_ACCELERATION \<equiv> (0x29 :: u8)"
abbreviation (input) "FEETECH_REG_GOAL_POSITION \<equiv> (0x2A :: u8)"
abbreviation (input) "FEETECH_REG_GOAL_TIME \<equiv> (0x2C :: u8)"
abbreviation (input) "FEETECH_REG_GOAL_SPEED \<equiv> (0x2E :: u8)"
abbreviation (input) "FEETECH_REG_TORQUE_LIMIT \<equiv> (0x30 :: u8)"
abbreviation (input) "FEETECH_REG_LOCK \<equiv> (0x37 :: u8)"
abbreviation (input) "FEETECH_REG_PRESENT_POSITION \<equiv> (0x38 :: u8)"
abbreviation (input) "FEETECH_REG_PRESENT_SPEED \<equiv> (0x3A :: u8)"
abbreviation (input) "FEETECH_REG_PRESENT_LOAD \<equiv> (0x3C :: u8)"
abbreviation (input) "FEETECH_REG_PRESENT_VOLTAGE \<equiv> (0x3E :: u8)"
abbreviation (input) "FEETECH_REG_PRESENT_TEMPERATURE \<equiv> (0x3F :: u8)"
abbreviation (input) "FEETECH_REG_MOVING \<equiv> (0x42 :: u8)"
abbreviation (input) "FEETECH_REG_PRESENT_CURRENT \<equiv> (0x45 :: u8)"

record register_info_t =
  ri_address :: u8
  ri_width :: u8
  ri_eeprom :: bool
  ri_name :: string

definition reg_info :: "u8 \<Rightarrow> u8 \<Rightarrow> bool \<Rightarrow> string \<Rightarrow> register_info_t" where
  "reg_info address width eeprom name = \<lparr>ri_address = address, ri_width = width, ri_eeprom = eeprom, ri_name = name\<rparr>"

definition ax12_registers :: "register_info_t list" where
  "ax12_registers =
    [reg_info AX12_REG_MODEL_NUMBER 2 True ''model_number'',
     reg_info AX12_REG_FIRMWARE_VERSION 1 True ''firmware_version'', reg_info AX12_REG_ID 1 True ''id'',
     reg_info AX12_REG_BAUD_RATE 1 True ''baud_rate'',
     reg_info AX12_REG_RETURN_DELAY_TIME 1 True ''return_delay_time'',
     reg_info AX12_REG_CW_ANGLE_LIMIT 2 True ''cw_angle_limit'',
     reg_info AX12_REG_CCW_ANGLE_LIMIT 2 True ''ccw_angle_limit'',
     reg_info AX12_REG_TEMPERATURE_LIMIT 1 True ''temperature_limit'',
     reg_info AX12_REG_MIN_VOLTAGE_LIMIT 1 True ''min_voltage_limit'',
     reg_info AX12_REG_MAX_VOLTAGE_LIMIT 1 True ''max_voltage_limit'',
     reg_info AX12_REG_MAX_TORQUE 2 True ''max_torque'',
     reg_info AX12_REG_STATUS_RETURN_LEVEL 1 True ''status_return_level'',
     reg_info AX12_REG_ALARM_LED 1 True ''alarm_led'', reg_info AX12_REG_SHUTDOWN 1 True ''shutdown'',
     reg_info AX12_REG_DOWN_CALIBRATION 2 True ''down_calibration'',
     reg_info AX12_REG_UP_CALIBRATION 2 True ''up_calibration'',
     reg_info AX12_REG_TORQUE_ENABLE 1 False ''torque_enable'', reg_info AX12_REG_LED 1 False ''led'',
     reg_info AX12_REG_CW_COMPLIANCE_MARGIN 1 False ''cw_compliance_margin'',
     reg_info AX12_REG_CCW_COMPLIANCE_MARGIN 1 False ''ccw_compliance_margin'',
     reg_info AX12_REG_CW_COMPLIANCE_SLOPE 1 False ''cw_compliance_slope'',
     reg_info AX12_REG_CCW_COMPLIANCE_SLOPE 1 False ''ccw_compliance_slope'',
     reg_info AX12_REG_GOAL_POSITION 2 False ''goal_position'',
     reg_info AX12_REG_MOVING_SPEED 2 False ''moving_speed'',
     reg_info AX12_REG_TORQUE_LIMIT 2 False ''torque_limit'',
     reg_info AX12_REG_PRESENT_POSITION 2 False ''present_position'',
     reg_info AX12_REG_PRESENT_SPEED 2 False ''present_speed'',
     reg_info AX12_REG_PRESENT_LOAD 2 False ''present_load'',
     reg_info AX12_REG_PRESENT_VOLTAGE 1 False ''present_voltage'',
     reg_info AX12_REG_PRESENT_TEMPERATURE 1 False ''present_temperature'',
     reg_info AX12_REG_REGISTERED 1 False ''registered'', reg_info AX12_REG_MOVING 1 False ''moving'',
     reg_info AX12_REG_LOCK 1 False ''lock'', reg_info AX12_REG_PUNCH 2 False ''punch'']"

definition feetech_registers :: "register_info_t list" where
  "feetech_registers =
    [reg_info FEETECH_REG_MODEL 2 True ''model'', reg_info FEETECH_REG_ID 1 True ''id'',
     reg_info FEETECH_REG_BAUD_RATE 1 True ''baud_rate'', reg_info FEETECH_REG_RETURN_DELAY 1 True ''return_delay'',
     reg_info FEETECH_REG_STATUS_RETURN 1 True ''status_return'',
     reg_info FEETECH_REG_MIN_ANGLE_LIMIT 2 True ''min_angle_limit'',
     reg_info FEETECH_REG_MAX_ANGLE_LIMIT 2 True ''max_angle_limit'',
     reg_info FEETECH_REG_MAX_TEMPERATURE 1 True ''max_temperature'',
     reg_info FEETECH_REG_MAX_VOLTAGE 1 True ''max_voltage'',
     reg_info FEETECH_REG_MIN_VOLTAGE 1 True ''min_voltage'', reg_info FEETECH_REG_MAX_TORQUE 2 True ''max_torque'',
     reg_info FEETECH_REG_SETTING_BYTE 1 True ''setting_byte'',
     reg_info FEETECH_REG_PROTECTION 1 True ''protection'', reg_info FEETECH_REG_ALARM_LED 1 True ''alarm_led'',
     reg_info FEETECH_REG_P_GAIN 1 True ''p_gain'', reg_info FEETECH_REG_D_GAIN 1 True ''d_gain'',
     reg_info FEETECH_REG_I_GAIN 1 True ''i_gain'',
     reg_info FEETECH_REG_MIN_START_TORQUE 2 True ''min_start_torque'',
     reg_info FEETECH_REG_CW_DEAD_BAND 1 True ''cw_dead_band'',
     reg_info FEETECH_REG_CCW_DEAD_BAND 1 True ''ccw_dead_band'',
     reg_info FEETECH_REG_OVERLOAD_CURRENT 2 True ''overload_current'',
     reg_info FEETECH_REG_RESOLUTION 1 True ''resolution'',
     reg_info FEETECH_REG_POSITION_OFFSET 2 True ''position_offset'', reg_info FEETECH_REG_MODE 1 True ''mode'',
     reg_info FEETECH_REG_TORQUE_ENABLE 1 False ''torque_enable'',
     reg_info FEETECH_REG_ACCELERATION 1 False ''acceleration'',
     reg_info FEETECH_REG_GOAL_POSITION 2 False ''goal_position'',
     reg_info FEETECH_REG_GOAL_TIME 2 False ''goal_time'', reg_info FEETECH_REG_GOAL_SPEED 2 False ''goal_speed'',
     reg_info FEETECH_REG_TORQUE_LIMIT 2 False ''torque_limit'', reg_info FEETECH_REG_LOCK 1 False ''lock'',
     reg_info FEETECH_REG_PRESENT_POSITION 2 False ''present_position'',
     reg_info FEETECH_REG_PRESENT_SPEED 2 False ''present_speed'',
     reg_info FEETECH_REG_PRESENT_LOAD 2 False ''present_load'',
     reg_info FEETECH_REG_PRESENT_VOLTAGE 1 False ''present_voltage'',
     reg_info FEETECH_REG_PRESENT_TEMPERATURE 1 False ''present_temperature'',
     reg_info FEETECH_REG_MOVING 1 False ''moving'', reg_info FEETECH_REG_PRESENT_CURRENT 2 False ''present_current'']"

definition lookup_register :: "register_info_t list \<Rightarrow> u8 \<Rightarrow> register_info_t option" where
  "lookup_register registers address = List.find (\<lambda>info. ri_address info = address) registers"

definition ax12_register_width :: "u8 \<Rightarrow> u8" where
  "ax12_register_width address = (case lookup_register ax12_registers address of None \<Rightarrow> 0 | Some info \<Rightarrow> ri_width info)"

definition ax12_register_name :: "u8 \<Rightarrow> string option" where
  "ax12_register_name address = map_option ri_name (lookup_register ax12_registers address)"

definition ax12_register_is_eeprom :: "u8 \<Rightarrow> bool" where
  "ax12_register_is_eeprom address = (case lookup_register ax12_registers address of None \<Rightarrow> False | Some info \<Rightarrow> ri_eeprom info)"

definition feetech_register_width :: "u8 \<Rightarrow> u8" where
  "feetech_register_width address = (case lookup_register feetech_registers address of None \<Rightarrow> 0 | Some info \<Rightarrow> ri_width info)"

definition feetech_register_name :: "u8 \<Rightarrow> string option" where
  "feetech_register_name address = map_option ri_name (lookup_register feetech_registers address)"

definition feetech_register_is_eeprom :: "u8 \<Rightarrow> bool" where
  "feetech_register_is_eeprom address =
     (case lookup_register feetech_registers address of None \<Rightarrow> False | Some info \<Rightarrow> ri_eeprom info)"

datatype feetech_model_t = FEETECH_MODEL_STS | FEETECH_MODEL_SCS

definition feetech_endianness :: "feetech_model_t \<Rightarrow> servo_endianness_t" where
  "feetech_endianness model = (if model = FEETECH_MODEL_SCS then SERVO_ENDIAN_BIG else SERVO_ENDIAN_LITTLE)"

subsection \<open>Baud rates\<close>

abbreviation (input) "AX12_BAUD_CLOCK \<equiv> (2000000 :: u32)"
abbreviation (input) "AX12_BAUD_VALUE_MIN \<equiv> (1 :: u8)"
abbreviation (input) "AX12_BAUD_VALUE_MAX \<equiv> (254 :: u8)"

definition ax12_baud_value_to_rate :: "u8 \<Rightarrow> u32" where
  "ax12_baud_value_to_rate v =
     (if v < AX12_BAUD_VALUE_MIN then 0
      else if AX12_BAUD_VALUE_MAX < v then 0
      else AX12_BAUD_CLOCK div (ucast v + 1))"

definition ax12_rate_to_baud_value :: "u32 \<Rightarrow> u8 option" where
  "ax12_rate_to_baud_value rate =
     (if rate = 0 then None
      else
        (let divisor = (AX12_BAUD_CLOCK + rate div 2) div rate in
         if divisor < ucast AX12_BAUD_VALUE_MIN + 1 \<or> ucast AX12_BAUD_VALUE_MAX + 1 < divisor then None
         else
           (let candidate = ucast (divisor - 1);
                actual = ax12_baud_value_to_rate candidate;
                difference = (if rate < actual then actual - rate else rate - actual)
            in if (ucast rate :: 64 word) * 3 < ucast difference * 100 then None else Some candidate)))"

definition ax12_baud_rate_table :: "u32 list" where
  "ax12_baud_rate_table = [1000000, 500000, 400000, 250000, 200000, 117647, 57142, 19230, 9615]"

definition feetech_baud_rate_table :: "u32 list" where
  "feetech_baud_rate_table = [1000000, 500000, 250000, 128000, 115200, 76800, 57600, 38400]"

definition feetech_baud_index_to_rate :: "u8 \<Rightarrow> u32" where
  "feetech_baud_index_to_rate index =
     (if unat index < length feetech_baud_rate_table then feetech_baud_rate_table ! unat index else 0)"

text \<open>The search of the table from index \<open>i\<close> on.\<close>

fun baud_index_from :: "u32 \<Rightarrow> u32 list \<Rightarrow> u8 \<Rightarrow> u8 option" where
  "baud_index_from rate [] i = None"
| "baud_index_from rate (candidate # rates) i =
     (let difference = (if rate < candidate then candidate - rate else rate - candidate)
      in if (ucast difference :: 64 word) * 100 \<le> ucast rate * 3 then Some i else baud_index_from rate rates (i + 1))"

definition feetech_rate_to_baud_index :: "u32 \<Rightarrow> u8 option" where
  "feetech_rate_to_baud_index rate = (if rate = 0 then None else baud_index_from rate feetech_baud_rate_table 0)"

subsection \<open>Units\<close>

abbreviation (input) "AX12_POSITION_MAX \<equiv> (1023 :: u16)"
abbreviation (input) "AX12_RANGE_MILLIDEGREES \<equiv> (300000 :: u32)"
abbreviation (input) "FEETECH_POSITION_MAX \<equiv> (4095 :: u16)"
abbreviation (input) "FEETECH_RANGE_MILLIDEGREES \<equiv> (360000 :: u32)"

definition ax12_position_to_millidegrees :: "u16 \<Rightarrow> u32" where
  "ax12_position_to_millidegrees position =
     (let position = (if AX12_POSITION_MAX < position then AX12_POSITION_MAX else position);
          numerator = ucast position * AX12_RANGE_MILLIDEGREES + 1023 div 2
      in numerator div 1023)"

definition ax12_millidegrees_to_position :: "u32 \<Rightarrow> u16" where
  "ax12_millidegrees_to_position millidegrees =
     (if AX12_RANGE_MILLIDEGREES \<le> millidegrees then AX12_POSITION_MAX
      else
        (let numerator = ucast millidegrees * 1023 + 300000 div 2 :: 64 word
         in ucast (numerator div 300000)))"

definition ax12_decode_signed_magnitude :: "u16 \<Rightarrow> 16 word" where
  "ax12_decode_signed_magnitude raw =
     (let magnitude = raw AND 0x03FF; clockwise = raw AND 0x0400 \<noteq> 0
      in if clockwise then ucast (- (ucast magnitude :: u32)) else magnitude)"

definition ax12_voltage_to_millivolts :: "u8 \<Rightarrow> u32" where
  "ax12_voltage_to_millivolts raw = ucast raw * 100"

definition feetech_position_to_millidegrees :: "u16 \<Rightarrow> u32" where
  "feetech_position_to_millidegrees position =
     (let position = (if FEETECH_POSITION_MAX < position then FEETECH_POSITION_MAX else position);
          numerator = ucast position * 360000 + 4095 div 2 :: 64 word
      in ucast (numerator div 4095))"

definition feetech_millidegrees_to_position :: "u32 \<Rightarrow> u16" where
  "feetech_millidegrees_to_position millidegrees =
     (if FEETECH_RANGE_MILLIDEGREES \<le> millidegrees then FEETECH_POSITION_MAX
      else
        (let numerator = ucast millidegrees * 4095 + 360000 div 2 :: 64 word
         in ucast (numerator div 360000)))"

definition feetech_decode_signed_magnitude :: "u16 \<Rightarrow> 16 word" where
  "feetech_decode_signed_magnitude raw =
     (let magnitude = raw AND 0x7FFF; negative = raw AND 0x8000 \<noteq> 0
      in if negative then ucast (- (ucast magnitude :: u32)) else magnitude)"

definition feetech_voltage_to_millivolts :: "u8 \<Rightarrow> u32" where
  "feetech_voltage_to_millivolts raw = ucast raw * 100"

subsection \<open>Positions\<close>

text \<open>Rounding there and back: the count comes back when its unit is coarser than the other.\<close>

lemma round_trip_nat:
  fixes p k r :: nat
  assumes "0 < k" and "k < r"
  shows "((p * r + k div 2) div k * k + r div 2) div r = p"
proof -
  define m where "m = (p * r + k div 2) div k"
  have "m * k \<le> p * r + k div 2" by (simp add: m_def)
  moreover have "p * r + k div 2 < m * k + k" using assms(1) using mod_less_divisor [OF assms(1), of "p * r + k div 2"] div_mult_mod_eq [of "p * r + k div 2" k] unfolding m_def by linarith
  moreover have "k \<le> k div 2 + k div 2 + 1" "r \<le> r div 2 + r div 2 + 1" "k div 2 + k div 2 \<le> k" "r div 2 + r div 2 \<le> r"
    by presburger+
  ultimately have "p * r \<le> m * k + r div 2" "m * k + r div 2 < p * r + r" using assms(2) by linarith+
  then have "(m * k + r div 2) div r = p" by (metis div_nat_eqI mult.commute mult_Suc_right add.commute)
  then show ?thesis by (simp add: m_def)
qed

lemma unat_widen:
  fixes w :: u16 and v :: u32
  shows "unat (ucast w :: u32) = unat w" and "unat (ucast w :: 64 word) = unat w" and "unat (ucast v :: 64 word) = unat v"
  using unsigned_less [of w, where ?'a = nat] unsigned_less [of v, where ?'a = nat]
  by (simp_all add: unsigned_ucast_eq take_bit_nat_eq_self)

lemma unat_ax12_millidegrees:
  assumes "unat p \<le> 1023"
  shows "unat (ax12_position_to_millidegrees p) = (unat p * 300000 + 511) div 1023"
proof -
  have "\<not> 1023 < p" using assms by (simp add: word_less_nat_alt)
  then show ?thesis using assms by (simp add: ax12_position_to_millidegrees_def unat_div unat_word_ariths unat_widen)
qed

lemma unat_ax12_position:
  assumes "unat m < 300000"
  shows "unat (ax12_millidegrees_to_position m) = (unat m * 1023 + 150000) div 300000"
proof -
  have "\<not> 300000 \<le> m" using assms by (simp add: word_le_nat_alt)
  moreover have "(unat m * 1023 + 150000) div 300000 < 2 ^ 16" using assms by simp
  ultimately show ?thesis using assms
    by (simp add: ax12_millidegrees_to_position_def unsigned_ucast_eq take_bit_nat_eq_self unat_div unat_word_ariths unat_widen)
qed

lemma unat_feetech_millidegrees:
  assumes "unat p \<le> 4095"
  shows "unat (feetech_position_to_millidegrees p) = (unat p * 360000 + 2047) div 4095"
proof -
  have "\<not> 4095 < p" using assms by (simp add: word_less_nat_alt)
  moreover have "(unat p * 360000 + 2047) div 4095 < 2 ^ 32" using assms by simp
  ultimately show ?thesis using assms
    by (simp add: feetech_position_to_millidegrees_def unsigned_ucast_eq take_bit_nat_eq_self unat_div unat_word_ariths unat_widen)
qed

lemma unat_feetech_position:
  assumes "unat m < 360000"
  shows "unat (feetech_millidegrees_to_position m) = (unat m * 4095 + 180000) div 360000"
proof -
  have "\<not> 360000 \<le> m" using assms by (simp add: word_le_nat_alt)
  moreover have "(unat m * 4095 + 180000) div 360000 < 2 ^ 16" using assms by simp
  ultimately show ?thesis using assms
    by (simp add: feetech_millidegrees_to_position_def unsigned_ucast_eq take_bit_nat_eq_self unat_div unat_word_ariths unat_widen)
qed

text \<open>Positions survive the units: for both families, every count, clamped to the range of the servo, comes back from its angle.
\<close>

theorem servo_position_roundtrip:
  "ax12_millidegrees_to_position (ax12_position_to_millidegrees p) = min p 1023
   \<and> feetech_millidegrees_to_position (feetech_position_to_millidegrees p) = min p 4095"
proof
  have ax_small: "ax12_millidegrees_to_position (ax12_position_to_millidegrees p) = p" if "unat p < 1023" for p
  proof -
    have m: "unat (ax12_position_to_millidegrees p) = (unat p * 300000 + 511) div 1023"
      using that by (intro unat_ax12_millidegrees) simp
    moreover from this have "unat (ax12_position_to_millidegrees p) < 300000" using that by simp
    ultimately have "unat (ax12_millidegrees_to_position (ax12_position_to_millidegrees p)) = unat p"
      using round_trip_nat [of 1023 300000 "unat p"] by (simp add: unat_ax12_position)
    then show ?thesis by (simp add: unsigned_word_eqI)
  qed
  have fe_small: "feetech_millidegrees_to_position (feetech_position_to_millidegrees p) = p" if "unat p < 4095" for p
  proof -
    have m: "unat (feetech_position_to_millidegrees p) = (unat p * 360000 + 2047) div 4095"
      using that by (intro unat_feetech_millidegrees) simp
    moreover from this have "unat (feetech_position_to_millidegrees p) < 360000" using that by simp
    ultimately have "unat (feetech_millidegrees_to_position (feetech_position_to_millidegrees p)) = unat p"
      using round_trip_nat [of 4095 360000 "unat p"] by (simp add: unat_feetech_position)
    then show ?thesis by (simp add: unsigned_word_eqI)
  qed
  have ax_end: "ax12_millidegrees_to_position (ax12_position_to_millidegrees p) = 1023" if "1023 \<le> p"
  proof -
    have "(if 1023 < p then 1023 else p) = 1023" using that by auto
    then have "ax12_position_to_millidegrees p = 300000" by (simp add: ax12_position_to_millidegrees_def)
    then show ?thesis by (simp add: ax12_millidegrees_to_position_def)
  qed
  have fe_end: "feetech_millidegrees_to_position (feetech_position_to_millidegrees p) = 4095" if "4095 \<le> p"
  proof -
    have "(if 4095 < p then 4095 else p) = 4095" using that by auto
    then have "feetech_position_to_millidegrees p = 360000" by (simp add: feetech_position_to_millidegrees_def)
    then show ?thesis by (simp add: feetech_millidegrees_to_position_def)
  qed
  show "ax12_millidegrees_to_position (ax12_position_to_millidegrees p) = min p 1023"
    using ax_small [of p] ax_end by (cases "1023 \<le> p") (auto simp: min_def word_less_nat_alt not_le)
  show "feetech_millidegrees_to_position (feetech_position_to_millidegrees p) = min p 4095"
    using fe_small [of p] fe_end by (cases "4095 \<le> p") (auto simp: min_def word_less_nat_alt not_le)
qed

subsection \<open>Rates\<close>

lemma ax12_divisor:
  fixes d :: nat
  assumes "2 \<le> d" and "d \<le> 255"
  defines "r \<equiv> 2000000 div d"
  shows "7843 \<le> r" and "r \<le> 1000000" and "(2000000 + r div 2) div r = d"
proof -
  have "2000000 div 255 \<le> r" unfolding r_def using assms(1,2) by (intro div_le_mono2) simp_all
  then show low: "7843 \<le> r" by simp
  show "r \<le> 1000000" unfolding r_def using div_le_mono2 [of 2 d 2000000] assms(1) by simp
  have "r * d \<le> 2000000" by (simp add: r_def)
  moreover have "2000000 < r * d + d"
    using mod_less_divisor [of d 2000000] div_mult_mod_eq [of 2000000 d] assms(1) unfolding r_def by linarith
  moreover have "d + r div 2 \<le> r" using low assms(2) by linarith
  ultimately show "(2000000 + r div 2) div r = d" by (intro div_nat_eqI) (simp_all add: algebra_simps)
qed

lemma ax12_rate_roundtrip:
  assumes "v \<noteq> 0" and "v \<noteq> 255"
  shows "ax12_rate_to_baud_value (ax12_baud_value_to_rate v) = Some v"
proof -
  define d where "d = unat v + 1"
  have v: "1 \<le> unat v" "unat v \<le> 254"
    using assms unsigned_less [of v, where ?'a = nat] unat_eq_0 [of v] word_unat_eq_iff [of v 255] by auto
  then have d: "2 \<le> d" "d \<le> 255" by (simp_all add: d_def)
  note r = ax12_divisor [OF d]
  have "\<not> v < 1" "\<not> 254 < v" using v by (simp_all add: word_less_nat_alt)
  moreover have v1: "unat (ucast v + 1 :: u32) = d"
    using v by (simp add: d_def unsigned_ucast_eq take_bit_nat_eq_self unat_word_ariths)
  ultimately have rate: "ax12_baud_value_to_rate v = 2000000 div (ucast v + 1)" "unat (ax12_baud_value_to_rate v) = 2000000 div d"
    by (simp_all add: ax12_baud_value_to_rate_def unat_div)
  define rate where "rate = ax12_baud_value_to_rate v"
  have u: "unat rate = 2000000 div d" by (simp add: rate_def rate(2))
  have sum: "unat (2000000 + rate div 2 :: u32) = 2000000 + 2000000 div d div 2"
    using r(2) by (simp add: unat_word_ariths unat_div u)
  have "unat ((2000000 + rate div 2) div rate) = d" unfolding unat_div sum u by (rule r(3))
  then have divisor: "(2000000 + rate div 2) div rate = ucast v + 1" by (simp add: word_unat_eq_iff v1)
  have "rate \<noteq> 0" using r(1) u by (metis not_numeral_le_zero unat_0)
  moreover have "\<not> ucast v + 1 < (2 :: u32)" "\<not> 255 < (ucast v + 1 :: u32)" using d by (simp_all add: word_less_nat_alt v1)
  moreover have "ucast (ucast v :: u32) = v" by (intro bit_word_eqI) (auto simp: bit_simps dest: bit_imp_le_length)
  ultimately show ?thesis
    by (simp add: ax12_rate_to_baud_value_def divisor rate_def [symmetric] Let_def)
qed

text \<open>A register value and the rate it stands for determine each other: the rate of every legal value of either family selects
  that value, and a value outside the legal ones has no rate that selects anything.
\<close>

theorem servo_rate_roundtrip:
  "ax12_rate_to_baud_value (ax12_baud_value_to_rate v) = (if v = 0 \<or> v = 255 then None else Some v)
   \<and> feetech_rate_to_baud_index (feetech_baud_index_to_rate v) = (if v < 8 then Some v else None)"
proof
  show "ax12_rate_to_baud_value (ax12_baud_value_to_rate v) = (if v = 0 \<or> v = 255 then None else Some v)"
  proof (cases "v = 0 \<or> v = 255")
    case True
    then have "ax12_baud_value_to_rate v = 0" by (auto simp: ax12_baud_value_to_rate_def)
    with True show ?thesis by (auto simp: ax12_rate_to_baud_value_def)
  qed (use ax12_rate_roundtrip [of v] in simp)
  show "feetech_rate_to_baud_index (feetech_baud_index_to_rate v) = (if v < 8 then Some v else None)"
  proof (cases "v < 8")
    case True
    then have "unat v < 8" by (simp add: word_less_nat_alt)
    then consider "v = 0" | "v = 1" | "v = 2" | "v = 3" | "v = 4" | "v = 5" | "v = 6" | "v = 7"
      by (auto simp: word_unat_eq_iff) linarith
    then show ?thesis
      by cases (simp_all add: feetech_baud_index_to_rate_def feetech_rate_to_baud_index_def feetech_baud_rate_table_def Let_def)
  next
    case False
    then have "\<not> unat v < 8" by (simp add: word_less_nat_alt)
    with False show ?thesis by (simp add: feetech_baud_index_to_rate_def feetech_rate_to_baud_index_def feetech_baud_rate_table_def)
  qed
qed

text \<open>
  The divisor nearest to the quotient is not always the divisor of the nearest rate: 121213 baud lies within 3 per
  cent of 117647, the rate of the value 16, but is refused, since its quotient is rounded to the divisor of 125000.
\<close>

lemma ax12_reachable_rate_refused:
  "ax12_rate_to_baud_value 121213 = None \<and> ax12_baud_value_to_rate 16 = 117647 \<and> (121213 - 117647) * 100 \<le> 3 * (121213 :: nat)"
  by (simp add: ax12_rate_to_baud_value_def ax12_baud_value_to_rate_def Let_def)

end
