(* ===== verification/Servo_Drivers.thy ===== *)
theory Servo_Drivers
  imports Servo_Bus Servo_Registers
begin

text \<open>
  Model of \<open>components/ax12/ax12.c\<close> and \<open>components/feetech/feetech.c\<close>: the two drivers of servos, over the models of the bus
  and of the register tables. The state of a call is the bus and the hardware behind its UART, as in \<open>Servo_Bus\<close>;
  a call that waits for ever is \<open>None\<close>. A pointer to a result cell is an option, which comes back with what the cell
  then holds. \<open>sleep_ms\<close> of the Pico SDK is a parameter of the two calls that use it.
\<close>

subsection \<open>What the two drivers share\<close>

abbreviation (input) "SERVO_BUS_DEFAULT_MAX_RETRIES \<equiv> (2 :: u8)"
abbreviation (input) "DEFAULT_ID \<equiv> (1 :: u8)"
abbreviation (input) "DEFAULT_BAUDRATE \<equiv> (1000000 :: u32)"
abbreviation (input) "RESET_TIMEOUT_MS \<equiv> (1000 :: nat)"
abbreviation (input) "ID_MAX \<equiv> (253 :: u8)"

text \<open>\<open>servo_bus_write_value\<close> and \<open>servo_bus_ping\<close> with \<open>NULL\<close> for the error byte.\<close>

definition write_register ::
  "'w hd_sdk \<Rightarrow> u8 \<Rightarrow> u8 \<Rightarrow> u32 \<Rightarrow> u8 \<Rightarrow> servo_bus_t \<times> 'w \<Rightarrow> (servo_bus_result_t \<times> servo_bus_t \<times> 'w) option" where
  "write_register sdk servo reg v width st =
     map_option (\<lambda>(result, _, st). (result, st)) (servo_bus_write_value sdk servo reg v width None st)"

definition ping :: "'w hd_sdk \<Rightarrow> u8 \<Rightarrow> servo_bus_t \<times> 'w \<Rightarrow> (servo_bus_result_t \<times> servo_bus_t \<times> 'w) option" where
  "ping sdk servo st = map_option (\<lambda>(result, _, st). (result, st)) (servo_bus_ping sdk servo None st)"

text \<open>The body of the calls that read one register into a cell, \<open>conv\<close> being what is stored of it.\<close>

definition read_cell ::
  "'w hd_sdk \<Rightarrow> u8 \<Rightarrow> u8 \<Rightarrow> u8 \<Rightarrow> (u32 \<Rightarrow> 'a) \<Rightarrow> 'a option \<Rightarrow> servo_bus_t \<times> 'w
     \<Rightarrow> (servo_bus_result_t \<times> 'a option \<times> servo_bus_t \<times> 'w) option" where
  "read_cell sdk servo reg width conv out st =
     (if out = None then Some (SERVO_BUS_ERR_INVALID_ARG, out, st)
      else
        (case servo_bus_read_value sdk servo reg width (Some 0) None st of
           None \<Rightarrow> None
         | Some (result, v, _, st) \<Rightarrow> Some (result, if result = SERVO_BUS_OK then map_option conv v else out, st)))"

text \<open>The loop of the scans over the identifiers; \<open>ids\<close> is the caller's array.\<close>

fun scan_ids ::
  "'w hd_sdk \<Rightarrow> u8 list \<Rightarrow> nat \<Rightarrow> u8 list \<Rightarrow> nat \<Rightarrow> servo_bus_t \<times> 'w \<Rightarrow> (u8 list \<times> nat \<times> servo_bus_t \<times> 'w) option" where
  "scan_ids sdk [] capacity ids count st = Some (ids, count, st)"
| "scan_ids sdk (servo # servos) capacity ids count st =
     (if count < capacity then
        (case ping sdk servo st of
           None \<Rightarrow> None
         | Some (result, st) \<Rightarrow>
             if result = SERVO_BUS_OK then scan_ids sdk servos capacity (ids[count := servo]) (count + 1) st
             else scan_ids sdk servos capacity ids count st)
      else Some (ids, count, st))"

text \<open>The results of a scan are the result, the caller's array and \<open>*found\<close>.\<close>

definition servo_scan ::
  "'w hd_sdk \<Rightarrow> u8 list option \<Rightarrow> nat \<Rightarrow> servo_bus_t \<times> 'w
     \<Rightarrow> (servo_bus_result_t \<times> u8 list option \<times> nat \<times> servo_bus_t \<times> 'w) option" where
  "servo_scan sdk ids capacity st =
     (case st of (bus, w) \<Rightarrow>
        if ids = None \<or> capacity = 0 then Some (SERVO_BUS_ERR_INVALID_ARG, ids, 0, bus, w)
        else
          (let saved_retries = sb_max_retries bus in
           case scan_ids sdk (map word_of_nat [0..<254]) capacity (the ids) 0 (bus\<lparr>sb_max_retries := 0\<rparr>, w) of
             None \<Rightarrow> None
           | Some (ids, count, bus, w) \<Rightarrow>
               Some (SERVO_BUS_OK, Some ids, count, bus\<lparr>sb_max_retries := saved_retries\<rparr>, w)))"

text \<open>The check that the host can be clocked at \<open>rate\<close>: setting it, and putting \<open>previous\<close> back.\<close>

definition try_rate :: "'w hd_sdk \<Rightarrow> u32 \<Rightarrow> u32 \<Rightarrow> servo_bus_t \<times> 'w \<Rightarrow> servo_bus_result_t \<times> servo_bus_t \<times> 'w" where
  "try_rate sdk rate previous st =
     (case servo_bus_set_baudrate sdk rate st of
        (result, st) \<Rightarrow> if result \<noteq> SERVO_BUS_OK then (result, st) else servo_bus_set_baudrate sdk previous st)"

text \<open>A register written with one attempt.\<close>

definition write_once ::
  "'w hd_sdk \<Rightarrow> u8 \<Rightarrow> u8 \<Rightarrow> u32 \<Rightarrow> servo_bus_t \<times> 'w \<Rightarrow> (servo_bus_result_t \<times> servo_bus_t \<times> 'w) option" where
  "write_once sdk servo reg v st =
     (case st of (bus, w) \<Rightarrow>
        let saved_retries = sb_max_retries bus in
        (case write_register sdk servo reg v 1 (bus\<lparr>sb_max_retries := 0\<rparr>, w) of
           None \<Rightarrow> None
         | Some (result, bus, w) \<Rightarrow> Some (result, bus\<lparr>sb_max_retries := saved_retries\<rparr>, w)))"

text \<open>The polling after a factory reset: \<open>True\<close> when the servo answered.\<close>

partial_function (option) poll_reset ::
  "'w hd_sdk \<Rightarrow> (nat \<Rightarrow> 'w \<Rightarrow> 'w) \<Rightarrow> nat \<Rightarrow> servo_bus_t \<times> 'w \<Rightarrow> (bool \<times> servo_bus_t \<times> 'w) option" where
  "poll_reset sdk sleep_ms deadline st =
     (case ping sdk DEFAULT_ID (fst st, sleep_ms 50 (snd st)) of
        None \<Rightarrow> None
      | Some (result, bus, w) \<Rightarrow>
          if result = SERVO_BUS_OK then Some (True, bus, w)
          else
            (case get_time_us sdk w of
               (now, w) \<Rightarrow> if deadline \<le> now then Some (False, bus, w) else poll_reset sdk sleep_ms deadline (bus, w)))"

text \<open>
  The factory resets differ only in the locking of the EEPROM: \<open>unlock\<close> is what comes before, \<open>relock\<close> what follows a failure.
\<close>

definition factory_reset ::
  "'w hd_sdk \<Rightarrow> (nat \<Rightarrow> 'w \<Rightarrow> 'w) \<Rightarrow> u8
     \<Rightarrow> (servo_bus_t \<times> 'w \<Rightarrow> (servo_bus_result_t \<times> servo_bus_t \<times> 'w) option)
     \<Rightarrow> (servo_bus_t \<times> 'w \<Rightarrow> (servo_bus_result_t \<times> servo_bus_t \<times> 'w) option)
     \<Rightarrow> servo_bus_t \<times> 'w \<Rightarrow> (servo_bus_result_t \<times> servo_bus_t \<times> 'w) option" where
  "factory_reset sdk sleep_ms servo unlock relock st =
     (if servo = SERVO_PROTOCOL_BROADCAST_ID then Some (SERVO_BUS_ERR_INVALID_ARG, st)
      else
        (let previous = servo_bus_get_baudrate (Some (fst st)) in
         case try_rate sdk DEFAULT_BAUDRATE previous st of
           (result, st) \<Rightarrow>
             if result \<noteq> SERVO_BUS_OK then Some (result, st)
             else
               (case unlock st of
                  None \<Rightarrow> None
                | Some (result, st) \<Rightarrow>
                    if result \<noteq> SERVO_BUS_OK then Some (result, st)
                    else
                      (case servo_bus_factory_reset sdk servo None st of
                         None \<Rightarrow> None
                       | Some (result, _, st) \<Rightarrow>
                           if result = SERVO_BUS_ERR_TRANSPORT \<or> result = SERVO_BUS_ERR_INVALID_ARG
                           then map_option (\<lambda>(_, st). (result, st)) (relock st)
                           else
                             (case servo_bus_set_baudrate sdk DEFAULT_BAUDRATE st of
                                (result, bus, w) \<Rightarrow>
                                  if result \<noteq> SERVO_BUS_OK then Some (result, bus, w)
                                  else
                                    (case get_time_us sdk w of
                                       (now, w) \<Rightarrow>
                                         (case poll_reset sdk sleep_ms (now + RESET_TIMEOUT_MS * 1000) (bus, w) of
                                            None \<Rightarrow> None
                                          | Some (answered, st) \<Rightarrow>
                                              if answered then Some (SERVO_BUS_OK, st)
                                              else
                                                (case servo_bus_set_baudrate sdk previous st of
                                                   (_, st) \<Rightarrow>
                                                     map_option (\<lambda>(_, st). (SERVO_BUS_ERR_TIMEOUT, st)) (relock st)))))))))"

definition all_targets_reachable :: "servo_sync_target_t list \<Rightarrow> u32 \<Rightarrow> bool" where
  "all_targets_reachable targets limit \<longleftrightarrow> list_all (\<lambda>t. \<not> limit < st_value t \<and> \<not> ID_MAX < st_id t) targets"

subsection \<open>AX-12\<close>

definition ax12_bus_init :: "half_duplex_uart_t option \<Rightarrow> servo_bus_result_t \<times> servo_bus_t option" where
  "ax12_bus_init uart =
     servo_bus_init (Some \<lparr>sbc_uart = uart, sbc_endianness = SERVO_ENDIAN_LITTLE, sbc_max_retries = SERVO_BUS_DEFAULT_MAX_RETRIES,
       sbc_response_timeout_us = 0\<rparr>)"

definition ax12_ping :: "'w hd_sdk \<Rightarrow> u8 \<Rightarrow> servo_bus_t \<times> 'w \<Rightarrow> (servo_bus_result_t \<times> servo_bus_t \<times> 'w) option" where
  "ax12_ping sdk servo st = ping sdk servo st"

definition ax12_scan ::
  "'w hd_sdk \<Rightarrow> u8 list option \<Rightarrow> nat \<Rightarrow> servo_bus_t \<times> 'w
     \<Rightarrow> (servo_bus_result_t \<times> u8 list option \<times> nat \<times> servo_bus_t \<times> 'w) option" where
  "ax12_scan sdk ids capacity st = servo_scan sdk ids capacity st"

definition ax12_read_register ::
  "'w hd_sdk \<Rightarrow> u8 \<Rightarrow> u8 \<Rightarrow> u32 option \<Rightarrow> u8 option \<Rightarrow> servo_bus_t \<times> 'w
     \<Rightarrow> (servo_bus_result_t \<times> u32 option \<times> u8 option \<times> servo_bus_t \<times> 'w) option" where
  "ax12_read_register sdk servo reg val error_out st =
     (let width = ax12_register_width reg in
      if width = 0 then Some (SERVO_BUS_ERR_INVALID_ARG, val, error_out, st)
      else servo_bus_read_value sdk servo reg width val error_out st)"

definition ax12_write_register ::
  "'w hd_sdk \<Rightarrow> u8 \<Rightarrow> u8 \<Rightarrow> u32 \<Rightarrow> u8 option \<Rightarrow> servo_bus_t \<times> 'w
     \<Rightarrow> (servo_bus_result_t \<times> u8 option \<times> servo_bus_t \<times> 'w) option" where
  "ax12_write_register sdk servo reg v error_out st =
     (let width = ax12_register_width reg in
      if width = 0 then Some (SERVO_BUS_ERR_INVALID_ARG, error_out, st)
      else servo_bus_write_value sdk servo reg v width error_out st)"

abbreviation (input) "AX12_SPEED_MAX \<equiv> (1023 :: u16)"

definition ax12_set_torque_enable ::
  "'w hd_sdk \<Rightarrow> u8 \<Rightarrow> bool \<Rightarrow> servo_bus_t \<times> 'w \<Rightarrow> (servo_bus_result_t \<times> servo_bus_t \<times> 'w) option" where
  "ax12_set_torque_enable sdk servo on st =
     write_register sdk servo AX12_REG_TORQUE_ENABLE (if on then 1 else 0) 1 st"

definition ax12_set_goal_position ::
  "'w hd_sdk \<Rightarrow> u8 \<Rightarrow> u16 \<Rightarrow> servo_bus_t \<times> 'w \<Rightarrow> (servo_bus_result_t \<times> servo_bus_t \<times> 'w) option" where
  "ax12_set_goal_position sdk servo position st =
     (if AX12_POSITION_MAX < position then Some (SERVO_BUS_ERR_INVALID_ARG, st)
      else write_register sdk servo AX12_REG_GOAL_POSITION (ucast position) 2 st)"

definition ax12_get_present_position ::
  "'w hd_sdk \<Rightarrow> u8 \<Rightarrow> u16 option \<Rightarrow> servo_bus_t \<times> 'w
     \<Rightarrow> (servo_bus_result_t \<times> u16 option \<times> servo_bus_t \<times> 'w) option" where
  "ax12_get_present_position sdk servo out st = read_cell sdk servo AX12_REG_PRESENT_POSITION 2 ucast out st"

definition ax12_set_goal_millidegrees ::
  "'w hd_sdk \<Rightarrow> u8 \<Rightarrow> u32 \<Rightarrow> servo_bus_t \<times> 'w \<Rightarrow> (servo_bus_result_t \<times> servo_bus_t \<times> 'w) option" where
  "ax12_set_goal_millidegrees sdk servo millidegrees st =
     ax12_set_goal_position sdk servo (ax12_millidegrees_to_position millidegrees) st"

definition ax12_get_present_millidegrees ::
  "'w hd_sdk \<Rightarrow> u8 \<Rightarrow> u32 option \<Rightarrow> servo_bus_t \<times> 'w
     \<Rightarrow> (servo_bus_result_t \<times> u32 option \<times> servo_bus_t \<times> 'w) option" where
  "ax12_get_present_millidegrees sdk servo out st =
     (if out = None then Some (SERVO_BUS_ERR_INVALID_ARG, out, st)
      else
        (case ax12_get_present_position sdk servo (Some 0) st of
           None \<Rightarrow> None
         | Some (result, position, st) \<Rightarrow>
             Some (result, if result = SERVO_BUS_OK then map_option ax12_position_to_millidegrees position else out, st)))"

definition ax12_set_moving_speed ::
  "'w hd_sdk \<Rightarrow> u8 \<Rightarrow> u16 \<Rightarrow> servo_bus_t \<times> 'w \<Rightarrow> (servo_bus_result_t \<times> servo_bus_t \<times> 'w) option" where
  "ax12_set_moving_speed sdk servo speed st =
     (if AX12_SPEED_MAX < speed then Some (SERVO_BUS_ERR_INVALID_ARG, st)
      else write_register sdk servo AX12_REG_MOVING_SPEED (ucast speed) 2 st)"

definition ax12_set_torque_limit ::
  "'w hd_sdk \<Rightarrow> u8 \<Rightarrow> u16 \<Rightarrow> servo_bus_t \<times> 'w \<Rightarrow> (servo_bus_result_t \<times> servo_bus_t \<times> 'w) option" where
  "ax12_set_torque_limit sdk servo limit st =
     (if AX12_POSITION_MAX < limit then Some (SERVO_BUS_ERR_INVALID_ARG, st)
      else write_register sdk servo AX12_REG_TORQUE_LIMIT (ucast limit) 2 st)"

definition ax12_is_moving ::
  "'w hd_sdk \<Rightarrow> u8 \<Rightarrow> bool option \<Rightarrow> servo_bus_t \<times> 'w
     \<Rightarrow> (servo_bus_result_t \<times> bool option \<times> servo_bus_t \<times> 'w) option" where
  "ax12_is_moving sdk servo out st = read_cell sdk servo AX12_REG_MOVING 1 (\<lambda>v. v \<noteq> 0) out st"

definition ax12_sync_set_goal_positions ::
  "'w hd_sdk \<Rightarrow> servo_sync_target_t list option \<Rightarrow> u8 \<Rightarrow> servo_bus_t \<times> 'w \<Rightarrow> (servo_bus_result_t \<times> servo_bus_t \<times> 'w) option" where
  "ax12_sync_set_goal_positions sdk targets count st =
     (if targets = None \<or> count = 0 then Some (SERVO_BUS_ERR_INVALID_ARG, st)
      else if \<not> all_targets_reachable (take (unat count) (the targets)) 1023 then Some (SERVO_BUS_ERR_INVALID_ARG, st)
      else servo_bus_sync_write sdk AX12_REG_GOAL_POSITION 2 targets count st)"

definition ax12_read_signed_magnitude ::
  "'w hd_sdk \<Rightarrow> u8 \<Rightarrow> u8 \<Rightarrow> (16 word) option \<Rightarrow> servo_bus_t \<times> 'w
     \<Rightarrow> (servo_bus_result_t \<times> (16 word) option \<times> servo_bus_t \<times> 'w) option" where
  "ax12_read_signed_magnitude sdk servo reg out st =
     read_cell sdk servo reg 2 (\<lambda>v. ax12_decode_signed_magnitude (ucast v)) out st"

definition ax12_get_present_speed ::
  "'w hd_sdk \<Rightarrow> u8 \<Rightarrow> (16 word) option \<Rightarrow> servo_bus_t \<times> 'w
     \<Rightarrow> (servo_bus_result_t \<times> (16 word) option \<times> servo_bus_t \<times> 'w) option" where
  "ax12_get_present_speed sdk servo out st = ax12_read_signed_magnitude sdk servo AX12_REG_PRESENT_SPEED out st"

definition ax12_get_present_load ::
  "'w hd_sdk \<Rightarrow> u8 \<Rightarrow> (16 word) option \<Rightarrow> servo_bus_t \<times> 'w
     \<Rightarrow> (servo_bus_result_t \<times> (16 word) option \<times> servo_bus_t \<times> 'w) option" where
  "ax12_get_present_load sdk servo out st = ax12_read_signed_magnitude sdk servo AX12_REG_PRESENT_LOAD out st"

definition ax12_set_led ::
  "'w hd_sdk \<Rightarrow> u8 \<Rightarrow> bool \<Rightarrow> servo_bus_t \<times> 'w \<Rightarrow> (servo_bus_result_t \<times> servo_bus_t \<times> 'w) option" where
  "ax12_set_led sdk servo on st =
     write_register sdk servo AX12_REG_LED (if on then 1 else 0) 1 st"

definition ax12_get_temperature ::
  "'w hd_sdk \<Rightarrow> u8 \<Rightarrow> u8 option \<Rightarrow> servo_bus_t \<times> 'w
     \<Rightarrow> (servo_bus_result_t \<times> u8 option \<times> servo_bus_t \<times> 'w) option" where
  "ax12_get_temperature sdk servo out st = read_cell sdk servo AX12_REG_PRESENT_TEMPERATURE 1 ucast out st"

definition ax12_get_voltage_millivolts ::
  "'w hd_sdk \<Rightarrow> u8 \<Rightarrow> u32 option \<Rightarrow> servo_bus_t \<times> 'w
     \<Rightarrow> (servo_bus_result_t \<times> u32 option \<times> servo_bus_t \<times> 'w) option" where
  "ax12_get_voltage_millivolts sdk servo out st = read_cell sdk servo AX12_REG_PRESENT_VOLTAGE 1 (\<lambda>v. ax12_voltage_to_millivolts (ucast v)) out st"

definition ax12_set_id ::
  "'w hd_sdk \<Rightarrow> u8 \<Rightarrow> u8 \<Rightarrow> servo_bus_t \<times> 'w \<Rightarrow> (servo_bus_result_t \<times> servo_bus_t \<times> 'w) option" where
  "ax12_set_id sdk servo new_id st =
     (if ID_MAX < new_id then Some (SERVO_BUS_ERR_INVALID_ARG, st)
      else write_register sdk servo AX12_REG_ID (ucast new_id) 1 st)"

definition ax12_set_baudrate :: "'w hd_sdk \<Rightarrow> u8 \<Rightarrow> u32 \<Rightarrow> servo_bus_t \<times> 'w \<Rightarrow> (servo_bus_result_t \<times> servo_bus_t \<times> 'w) option" where
  "ax12_set_baudrate sdk servo rate st =
     (case ax12_rate_to_baud_value rate of
        None \<Rightarrow> Some (SERVO_BUS_ERR_INVALID_ARG, st)
      | Some v \<Rightarrow>
          (let exact = ax12_baud_value_to_rate v;
               previous = servo_bus_get_baudrate (Some (fst st)) in
           case try_rate sdk exact previous st of
             (result, st) \<Rightarrow>
               if result \<noteq> SERVO_BUS_OK then Some (result, st)
               else
                 (case write_once sdk servo AX12_REG_BAUD_RATE (ucast v) st of
                    None \<Rightarrow> None
                  | Some (result, st) \<Rightarrow>
                      if result = SERVO_BUS_ERR_TRANSPORT \<or> result = SERVO_BUS_ERR_INVALID_ARG then Some (result, st)
                      else
                        (case servo_bus_set_baudrate sdk exact st of
                           (result, st) \<Rightarrow>
                             if result \<noteq> SERVO_BUS_OK then Some (result, st)
                             else if servo = SERVO_PROTOCOL_BROADCAST_ID then Some (SERVO_BUS_OK, st)
                             else
                               (case ping sdk servo st of
                                  None \<Rightarrow> None
                                | Some (result, st) \<Rightarrow>
                                    if result \<noteq> SERVO_BUS_OK then Some (result, snd (servo_bus_set_baudrate sdk previous st))
                                    else Some (result, st))))))"

definition ax12_factory_reset ::
  "'w hd_sdk \<Rightarrow> (nat \<Rightarrow> 'w \<Rightarrow> 'w) \<Rightarrow> u8 \<Rightarrow> servo_bus_t \<times> 'w \<Rightarrow> (servo_bus_result_t \<times> servo_bus_t \<times> 'w) option" where
  "ax12_factory_reset sdk sleep_ms servo st =
     factory_reset sdk sleep_ms servo (\<lambda>st. Some (SERVO_BUS_OK, st)) (\<lambda>st. Some (SERVO_BUS_OK, st)) st"

definition ax12_set_angle_limits ::
  "'w hd_sdk \<Rightarrow> u8 \<Rightarrow> u16 \<Rightarrow> u16 \<Rightarrow> servo_bus_t \<times> 'w \<Rightarrow> (servo_bus_result_t \<times> servo_bus_t \<times> 'w) option" where
  "ax12_set_angle_limits sdk servo cw_limit ccw_limit st =
     (if AX12_POSITION_MAX < cw_limit \<or> AX12_POSITION_MAX < ccw_limit then Some (SERVO_BUS_ERR_INVALID_ARG, st)
      else
        (let first = the (servo_protocol_encode_value (Some (replicate 2 0)) (ucast cw_limit) 2 SERVO_ENDIAN_LITTLE);
             second = the (servo_protocol_encode_value (Some (replicate 2 0)) (ucast ccw_limit) 2 SERVO_ENDIAN_LITTLE);
             data = blit 2 second (blit 0 first (replicate 4 0))
         in map_option (\<lambda>(result, _, st). (result, st))
              (servo_bus_write sdk servo AX12_REG_CW_ANGLE_LIMIT (Some data) 4 None st)))"

subsection \<open>Feetech\<close>

abbreviation (input) "FEETECH_LOCK_OPEN \<equiv> (0 :: u32)"
abbreviation (input) "FEETECH_LOCK_CLOSED \<equiv> (1 :: u32)"
abbreviation (input) "FEETECH_SPEED_MAX \<equiv> (4095 :: u16)"

definition feetech_bus_init :: "half_duplex_uart_t option \<Rightarrow> feetech_model_t \<Rightarrow> servo_bus_result_t \<times> servo_bus_t option" where
  "feetech_bus_init uart model =
     servo_bus_init (Some \<lparr>sbc_uart = uart, sbc_endianness = feetech_endianness model,
       sbc_max_retries = SERVO_BUS_DEFAULT_MAX_RETRIES, sbc_response_timeout_us = 0\<rparr>)"

definition feetech_ping :: "'w hd_sdk \<Rightarrow> u8 \<Rightarrow> servo_bus_t \<times> 'w \<Rightarrow> (servo_bus_result_t \<times> servo_bus_t \<times> 'w) option" where
  "feetech_ping sdk servo st = ping sdk servo st"

definition feetech_scan ::
  "'w hd_sdk \<Rightarrow> u8 list option \<Rightarrow> nat \<Rightarrow> servo_bus_t \<times> 'w
     \<Rightarrow> (servo_bus_result_t \<times> u8 list option \<times> nat \<times> servo_bus_t \<times> 'w) option" where
  "feetech_scan sdk ids capacity st = servo_scan sdk ids capacity st"

definition feetech_read_register ::
  "'w hd_sdk \<Rightarrow> u8 \<Rightarrow> u8 \<Rightarrow> u32 option \<Rightarrow> u8 option \<Rightarrow> servo_bus_t \<times> 'w
     \<Rightarrow> (servo_bus_result_t \<times> u32 option \<times> u8 option \<times> servo_bus_t \<times> 'w) option" where
  "feetech_read_register sdk servo reg val error_out st =
     (let width = feetech_register_width reg in
      if width = 0 then Some (SERVO_BUS_ERR_INVALID_ARG, val, error_out, st)
      else servo_bus_read_value sdk servo reg width val error_out st)"

definition feetech_write_register ::
  "'w hd_sdk \<Rightarrow> u8 \<Rightarrow> u8 \<Rightarrow> u32 \<Rightarrow> u8 option \<Rightarrow> servo_bus_t \<times> 'w
     \<Rightarrow> (servo_bus_result_t \<times> u8 option \<times> servo_bus_t \<times> 'w) option" where
  "feetech_write_register sdk servo reg v error_out st =
     (let width = feetech_register_width reg in
      if width = 0 then Some (SERVO_BUS_ERR_INVALID_ARG, error_out, st)
      else servo_bus_write_value sdk servo reg v width error_out st)"

definition feetech_set_torque_enable ::
  "'w hd_sdk \<Rightarrow> u8 \<Rightarrow> bool \<Rightarrow> servo_bus_t \<times> 'w \<Rightarrow> (servo_bus_result_t \<times> servo_bus_t \<times> 'w) option" where
  "feetech_set_torque_enable sdk servo on st =
     write_register sdk servo FEETECH_REG_TORQUE_ENABLE (if on then 1 else 0) 1 st"

definition feetech_set_goal_position ::
  "'w hd_sdk \<Rightarrow> u8 \<Rightarrow> u16 \<Rightarrow> servo_bus_t \<times> 'w \<Rightarrow> (servo_bus_result_t \<times> servo_bus_t \<times> 'w) option" where
  "feetech_set_goal_position sdk servo position st =
     (if FEETECH_POSITION_MAX < position then Some (SERVO_BUS_ERR_INVALID_ARG, st)
      else write_register sdk servo FEETECH_REG_GOAL_POSITION (ucast position) 2 st)"

definition feetech_get_present_position ::
  "'w hd_sdk \<Rightarrow> u8 \<Rightarrow> u16 option \<Rightarrow> servo_bus_t \<times> 'w
     \<Rightarrow> (servo_bus_result_t \<times> u16 option \<times> servo_bus_t \<times> 'w) option" where
  "feetech_get_present_position sdk servo out st = read_cell sdk servo FEETECH_REG_PRESENT_POSITION 2 ucast out st"

definition feetech_set_goal_millidegrees ::
  "'w hd_sdk \<Rightarrow> u8 \<Rightarrow> u32 \<Rightarrow> servo_bus_t \<times> 'w \<Rightarrow> (servo_bus_result_t \<times> servo_bus_t \<times> 'w) option" where
  "feetech_set_goal_millidegrees sdk servo millidegrees st =
     feetech_set_goal_position sdk servo (feetech_millidegrees_to_position millidegrees) st"

definition feetech_get_present_millidegrees ::
  "'w hd_sdk \<Rightarrow> u8 \<Rightarrow> u32 option \<Rightarrow> servo_bus_t \<times> 'w
     \<Rightarrow> (servo_bus_result_t \<times> u32 option \<times> servo_bus_t \<times> 'w) option" where
  "feetech_get_present_millidegrees sdk servo out st =
     (if out = None then Some (SERVO_BUS_ERR_INVALID_ARG, out, st)
      else
        (case feetech_get_present_position sdk servo (Some 0) st of
           None \<Rightarrow> None
         | Some (result, position, st) \<Rightarrow>
             Some (result, if result = SERVO_BUS_OK then map_option feetech_position_to_millidegrees position else out, st)))"

definition feetech_set_goal_speed ::
  "'w hd_sdk \<Rightarrow> u8 \<Rightarrow> u16 \<Rightarrow> servo_bus_t \<times> 'w \<Rightarrow> (servo_bus_result_t \<times> servo_bus_t \<times> 'w) option" where
  "feetech_set_goal_speed sdk servo speed st =
     (if FEETECH_SPEED_MAX < speed then Some (SERVO_BUS_ERR_INVALID_ARG, st)
      else write_register sdk servo FEETECH_REG_GOAL_SPEED (ucast speed) 2 st)"

definition feetech_set_acceleration ::
  "'w hd_sdk \<Rightarrow> u8 \<Rightarrow> u8 \<Rightarrow> servo_bus_t \<times> 'w \<Rightarrow> (servo_bus_result_t \<times> servo_bus_t \<times> 'w) option" where
  "feetech_set_acceleration sdk servo acceleration st =
     write_register sdk servo FEETECH_REG_ACCELERATION (ucast acceleration) 1 st"

definition feetech_is_moving ::
  "'w hd_sdk \<Rightarrow> u8 \<Rightarrow> bool option \<Rightarrow> servo_bus_t \<times> 'w
     \<Rightarrow> (servo_bus_result_t \<times> bool option \<times> servo_bus_t \<times> 'w) option" where
  "feetech_is_moving sdk servo out st = read_cell sdk servo FEETECH_REG_MOVING 1 (\<lambda>v. v \<noteq> 0) out st"

definition feetech_sync_set_goal_positions ::
  "'w hd_sdk \<Rightarrow> servo_sync_target_t list option \<Rightarrow> u8 \<Rightarrow> servo_bus_t \<times> 'w \<Rightarrow> (servo_bus_result_t \<times> servo_bus_t \<times> 'w) option" where
  "feetech_sync_set_goal_positions sdk targets count st =
     (if targets = None \<or> count = 0 then Some (SERVO_BUS_ERR_INVALID_ARG, st)
      else if \<not> all_targets_reachable (take (unat count) (the targets)) 4095 then Some (SERVO_BUS_ERR_INVALID_ARG, st)
      else servo_bus_sync_write sdk FEETECH_REG_GOAL_POSITION 2 targets count st)"

definition feetech_read_signed_magnitude ::
  "'w hd_sdk \<Rightarrow> u8 \<Rightarrow> u8 \<Rightarrow> (16 word) option \<Rightarrow> servo_bus_t \<times> 'w
     \<Rightarrow> (servo_bus_result_t \<times> (16 word) option \<times> servo_bus_t \<times> 'w) option" where
  "feetech_read_signed_magnitude sdk servo reg out st =
     read_cell sdk servo reg 2 (\<lambda>v. feetech_decode_signed_magnitude (ucast v)) out st"

definition feetech_get_present_speed ::
  "'w hd_sdk \<Rightarrow> u8 \<Rightarrow> (16 word) option \<Rightarrow> servo_bus_t \<times> 'w
     \<Rightarrow> (servo_bus_result_t \<times> (16 word) option \<times> servo_bus_t \<times> 'w) option" where
  "feetech_get_present_speed sdk servo out st = feetech_read_signed_magnitude sdk servo FEETECH_REG_PRESENT_SPEED out st"

definition feetech_get_present_load ::
  "'w hd_sdk \<Rightarrow> u8 \<Rightarrow> (16 word) option \<Rightarrow> servo_bus_t \<times> 'w
     \<Rightarrow> (servo_bus_result_t \<times> (16 word) option \<times> servo_bus_t \<times> 'w) option" where
  "feetech_get_present_load sdk servo out st = feetech_read_signed_magnitude sdk servo FEETECH_REG_PRESENT_LOAD out st"

definition feetech_get_temperature ::
  "'w hd_sdk \<Rightarrow> u8 \<Rightarrow> u8 option \<Rightarrow> servo_bus_t \<times> 'w
     \<Rightarrow> (servo_bus_result_t \<times> u8 option \<times> servo_bus_t \<times> 'w) option" where
  "feetech_get_temperature sdk servo out st = read_cell sdk servo FEETECH_REG_PRESENT_TEMPERATURE 1 ucast out st"

definition feetech_get_voltage_millivolts ::
  "'w hd_sdk \<Rightarrow> u8 \<Rightarrow> u32 option \<Rightarrow> servo_bus_t \<times> 'w
     \<Rightarrow> (servo_bus_result_t \<times> u32 option \<times> servo_bus_t \<times> 'w) option" where
  "feetech_get_voltage_millivolts sdk servo out st = read_cell sdk servo FEETECH_REG_PRESENT_VOLTAGE 1 (\<lambda>v. feetech_voltage_to_millivolts (ucast v)) out st"

definition feetech_unlock_eeprom :: "'w hd_sdk \<Rightarrow> u8 \<Rightarrow> servo_bus_t \<times> 'w \<Rightarrow> (servo_bus_result_t \<times> servo_bus_t \<times> 'w) option" where
  "feetech_unlock_eeprom sdk servo st = write_register sdk servo FEETECH_REG_LOCK FEETECH_LOCK_OPEN 1 st"

definition feetech_lock_eeprom :: "'w hd_sdk \<Rightarrow> u8 \<Rightarrow> servo_bus_t \<times> 'w \<Rightarrow> (servo_bus_result_t \<times> servo_bus_t \<times> 'w) option" where
  "feetech_lock_eeprom sdk servo st = write_register sdk servo FEETECH_REG_LOCK FEETECH_LOCK_CLOSED 1 st"

text \<open>Locking again with the result ignored, and \<open>result\<close> returned.\<close>

definition relock_and_return ::
  "'w hd_sdk \<Rightarrow> u8 \<Rightarrow> servo_bus_result_t \<Rightarrow> servo_bus_t \<times> 'w \<Rightarrow> (servo_bus_result_t \<times> servo_bus_t \<times> 'w) option" where
  "relock_and_return sdk servo result st = map_option (\<lambda>(_, st). (result, st)) (feetech_lock_eeprom sdk servo st)"

definition feetech_set_id :: "'w hd_sdk \<Rightarrow> u8 \<Rightarrow> u8 \<Rightarrow> servo_bus_t \<times> 'w \<Rightarrow> (servo_bus_result_t \<times> servo_bus_t \<times> 'w) option" where
  "feetech_set_id sdk servo new_id st =
     (if ID_MAX < new_id then Some (SERVO_BUS_ERR_INVALID_ARG, st)
      else
        (case feetech_unlock_eeprom sdk servo st of
           None \<Rightarrow> None
         | Some (result, st) \<Rightarrow>
             if result \<noteq> SERVO_BUS_OK then Some (result, st)
             else
               (case write_register sdk servo FEETECH_REG_ID (ucast new_id) 1 st of
                  None \<Rightarrow> None
                | Some (result, st) \<Rightarrow>
                    if result \<noteq> SERVO_BUS_OK then relock_and_return sdk servo result st
                    else feetech_lock_eeprom sdk new_id st)))"

text \<open>The part of \<open>feetech_set_baudrate\<close> after the EEPROM is open.\<close>

definition feetech_move_rate ::
  "'w hd_sdk \<Rightarrow> u8 \<Rightarrow> u8 \<Rightarrow> u32 \<Rightarrow> u32 \<Rightarrow> servo_bus_t \<times> 'w \<Rightarrow> (servo_bus_result_t \<times> servo_bus_t \<times> 'w) option" where
  "feetech_move_rate sdk servo index exact previous st =
     (case write_once sdk servo FEETECH_REG_BAUD_RATE (ucast index) st of
        None \<Rightarrow> None
      | Some (result, st) \<Rightarrow>
          if result = SERVO_BUS_ERR_TRANSPORT \<or> result = SERVO_BUS_ERR_INVALID_ARG
          then relock_and_return sdk servo result st
          else
            (case servo_bus_set_baudrate sdk exact st of
               (result, st) \<Rightarrow>
                 if result \<noteq> SERVO_BUS_OK then Some (result, st)
                 else if servo = SERVO_PROTOCOL_BROADCAST_ID then Some (SERVO_BUS_OK, st)
                 else
                   (case ping sdk servo st of
                      None \<Rightarrow> None
                    | Some (result, st) \<Rightarrow>
                        if result \<noteq> SERVO_BUS_OK
                        then relock_and_return sdk servo result (snd (servo_bus_set_baudrate sdk previous st))
                        else feetech_lock_eeprom sdk servo st)))"

definition feetech_set_baudrate :: "'w hd_sdk \<Rightarrow> u8 \<Rightarrow> u32 \<Rightarrow> servo_bus_t \<times> 'w \<Rightarrow> (servo_bus_result_t \<times> servo_bus_t \<times> 'w) option" where
  "feetech_set_baudrate sdk servo rate st =
     (case feetech_rate_to_baud_index rate of
        None \<Rightarrow> Some (SERVO_BUS_ERR_INVALID_ARG, st)
      | Some index \<Rightarrow>
          (let exact = feetech_baud_index_to_rate index;
               previous = servo_bus_get_baudrate (Some (fst st)) in
           case try_rate sdk exact previous st of
             (result, st) \<Rightarrow>
               if result \<noteq> SERVO_BUS_OK then Some (result, st)
               else
                 (case feetech_unlock_eeprom sdk servo st of
                    None \<Rightarrow> None
                  | Some (result, st) \<Rightarrow>
                      if result \<noteq> SERVO_BUS_OK then Some (result, st)
                      else feetech_move_rate sdk servo index exact previous st)))"

definition feetech_factory_reset ::
  "'w hd_sdk \<Rightarrow> (nat \<Rightarrow> 'w \<Rightarrow> 'w) \<Rightarrow> u8 \<Rightarrow> servo_bus_t \<times> 'w \<Rightarrow> (servo_bus_result_t \<times> servo_bus_t \<times> 'w) option" where
  "feetech_factory_reset sdk sleep_ms servo st =
     factory_reset sdk sleep_ms servo (feetech_unlock_eeprom sdk servo) (feetech_lock_eeprom sdk servo) st"

definition feetech_set_mode :: "'w hd_sdk \<Rightarrow> u8 \<Rightarrow> u8 \<Rightarrow> servo_bus_t \<times> 'w \<Rightarrow> (servo_bus_result_t \<times> servo_bus_t \<times> 'w) option" where
  "feetech_set_mode sdk servo mode st =
     (case feetech_unlock_eeprom sdk servo st of
        None \<Rightarrow> None
      | Some (result, st) \<Rightarrow>
          if result \<noteq> SERVO_BUS_OK then Some (result, st)
          else
            (case write_register sdk servo FEETECH_REG_MODE (ucast mode) 1 st of
               None \<Rightarrow> None
             | Some (result, st) \<Rightarrow>
                 (case feetech_lock_eeprom sdk servo st of
                    None \<Rightarrow> None
                  | Some (relock, st) \<Rightarrow> Some (if result \<noteq> SERVO_BUS_OK then result else relock, st))))"

subsection \<open>A transaction changes only the counters\<close>

definition only_counts :: "servo_bus_t \<Rightarrow> servo_bus_t \<Rightarrow> bool" where
  "only_counts bus bus' \<longleftrightarrow> bus' = bus\<lparr>sb_stats := sb_stats bus'\<rparr>"

lemma only_countsI: "bus' = bus\<lparr>sb_stats := s\<rparr> \<Longrightarrow> only_counts bus bus'"
  by (simp add: only_counts_def)

lemma only_counts_refl [simp]: "only_counts bus bus"
  by (simp add: only_counts_def)

lemma only_counts_trans: "only_counts a b \<Longrightarrow> only_counts b c \<Longrightarrow> only_counts a c"
  unfolding only_counts_def by (metis servo_bus_t.surjective servo_bus_t.update_convs(5))

lemma only_counts_fields:
  assumes "only_counts bus bus'"
  shows "sb_uart bus' = sb_uart bus" "sb_max_retries bus' = sb_max_retries bus" "sb_endianness bus' = sb_endianness bus"
    "sb_initialised bus' = sb_initialised bus" "sb_response_timeout_us bus' = sb_response_timeout_us bus"
  by (subst assms [unfolded only_counts_def], simp)+

lemma only_counts_update [simp]: "only_counts bus (sb_update_stats f bus)"
  by (simp add: only_counts_def sb_update_stats_def)

lemma try_loop_only_counts:
  "try_loop sdk request len servo count n retry res params err (bus, w) = Some (r, params', err', bus', w') \<Longrightarrow> only_counts bus bus'"
proof (induction n arbitrary: retry res params err bus w)
  case (Suc n)
  define tried where "tried = sb_update_stats (count_try retry) bus"
  obtain r1 p1 e1 w1 where a: "attempt sdk tried request len servo params count err w = Some (r1, p1, e1, w1)"
    using Suc.prems by (auto simp: Let_def tried_def split: option.splits)
  define failed where "failed = sb_update_stats (count_failure r1) tried"
  have steps: "only_counts bus tried" "only_counts bus failed"
    using only_counts_trans [of bus tried failed] by (simp_all add: tried_def failed_def)
  show ?case
  proof (cases "r1 = SERVO_BUS_OK \<or> r1 = SERVO_BUS_ERR_INVALID_ARG")
    case True
    then have "bus' = tried \<or> bus' = failed"
      using Suc.prems a by (auto simp: Let_def tried_def [symmetric] failed_def split: if_splits)
    then show ?thesis using steps by blast
  next
    case False
    then have "try_loop sdk request len servo count n True r1 p1 e1 (failed, half_duplex_uart_flush_rx sdk (sb_uart failed) w1)
        = Some (r, params', err', bus', w')"
      using Suc.prems a by (simp add: Let_def tried_def [symmetric] failed_def)
    from only_counts_trans [OF steps(2) Suc.IH [OF this]] show ?thesis .
  qed
qed simp

lemma transact_only_counts:
  "transact sdk request len servo params count err (bus, w) = Some (r, params', err', bus', w') \<Longrightarrow> only_counts bus bus'"
  unfolding transact_def Let_def by (rule try_loop_only_counts)

lemma ping_only_counts: "ping sdk servo (bus, w) = Some (r, bus', w') \<Longrightarrow> only_counts bus bus'"
  by (auto simp: ping_def servo_bus_ping_def split: if_splits option.splits prod.splits dest: transact_only_counts)

lemma write_register_only_counts: "write_register sdk servo reg v width (bus, w) = Some (r, bus', w') \<Longrightarrow> only_counts bus bus'"
  by (auto simp: write_register_def servo_bus_write_value_def servo_bus_write_def Let_def split: if_splits option.splits prod.splits
      dest: transact_only_counts)

lemma write_once_only_counts:
  assumes "write_once sdk servo reg v (bus, w) = Some (r, bus', w')"
  shows "only_counts bus bus'"
proof -
  obtain b where "write_register sdk servo reg v 1 (bus\<lparr>sb_max_retries := 0\<rparr>, w) = Some (r, b, w')"
    and bus': "bus' = b\<lparr>sb_max_retries := sb_max_retries bus\<rparr>"
    using assms by (auto simp: write_once_def Let_def split: option.splits)
  then have "only_counts (bus\<lparr>sb_max_retries := 0\<rparr>) b" by (blast dest: write_register_only_counts)
  then have "b = bus\<lparr>sb_max_retries := 0, sb_stats := sb_stats b\<rparr>" by (simp add: only_counts_def)
  then have "bus' = bus\<lparr>sb_stats := sb_stats b\<rparr>" unfolding bus' by (metis servo_bus_t.surjective servo_bus_t.update_convs(3,5))
  then show ?thesis by (rule only_countsI)
qed

subsection \<open>The rate of the host\<close>

text \<open>A bus whose UART runs at the rate it says, one that the host can be clocked at.\<close>

definition rate_settled :: "'w hd_sdk \<Rightarrow> servo_bus_t \<Rightarrow> bool" where
  "rate_settled sdk bus \<longleftrightarrow> sb_initialised bus \<and> hd_initialised (sb_uart bus) \<and> hd_baudrate (sb_uart bus) \<noteq> 0
     \<and> usable_timing sdk (hd_baudrate (sb_uart bus)) = Some (hd_timing (sb_uart bus))"

definition at_rate :: "u32 \<Rightarrow> half_duplex_uart_timing_t \<Rightarrow> servo_bus_t \<Rightarrow> servo_bus_t" where
  "at_rate rate timing bus = bus\<lparr>sb_uart := (sb_uart bus)\<lparr>hd_baudrate := rate, hd_timing := timing\<rparr>\<rparr>"

lemma at_rate_simps [simp]:
  "at_rate r t (at_rate r' t' bus) = at_rate r t bus" "rate_settled sdk bus \<Longrightarrow> at_rate (hd_baudrate (sb_uart bus)) (hd_timing (sb_uart bus)) bus = bus"
  "sb_initialised (at_rate r t bus) = sb_initialised bus" "hd_initialised (sb_uart (at_rate r t bus)) = hd_initialised (sb_uart bus)"
  "hd_baudrate (sb_uart (at_rate r t bus)) = r" "hd_timing (sb_uart (at_rate r t bus)) = t"
  "sb_max_retries (at_rate r t bus) = sb_max_retries bus"
  by (simp_all add: at_rate_def)

lemma only_counts_at_rate:
  assumes "only_counts bus bus'"
  shows "only_counts (at_rate r t bus) (at_rate r t bus')"
  using only_counts_fields(1) [OF assms] arg_cong [OF assms [unfolded only_counts_def], of "at_rate r t"]
  by (simp add: only_counts_def at_rate_def)

lemma rate_settled_only_counts: "only_counts bus bus' \<Longrightarrow> rate_settled sdk bus' = rate_settled sdk bus"
  by (simp add: rate_settled_def only_counts_fields)

lemma set_rate:
  assumes "sb_initialised bus" and "hd_initialised (sb_uart bus)" and "rate \<noteq> 0"
  shows "usable_timing sdk rate = Some t \<Longrightarrow> \<exists>w'. servo_bus_set_baudrate sdk rate (bus, w) = (SERVO_BUS_OK, at_rate rate t bus, w')"
    and "usable_timing sdk rate = None \<Longrightarrow> servo_bus_set_baudrate sdk rate (bus, w) = (SERVO_BUS_ERR_INVALID_ARG, bus, w)"
  using assms by (simp_all add: servo_bus_set_baudrate_def half_duplex_uart_set_baudrate_def at_rate_def Let_def)

lemma try_rate_settled:
  assumes "rate_settled sdk bus" and "rate \<noteq> 0"
  shows "usable_timing sdk rate \<noteq> None \<Longrightarrow> \<exists>w'. try_rate sdk rate (hd_baudrate (sb_uart bus)) (bus, w) = (SERVO_BUS_OK, bus, w')"
    and "usable_timing sdk rate = None \<Longrightarrow> try_rate sdk rate (hd_baudrate (sb_uart bus)) (bus, w) = (SERVO_BUS_ERR_INVALID_ARG, bus, w)"
proof -
  have init: "sb_initialised bus" "hd_initialised (sb_uart bus)" using assms(1) by (simp_all add: rate_settled_def)
  show "try_rate sdk rate (hd_baudrate (sb_uart bus)) (bus, w) = (SERVO_BUS_ERR_INVALID_ARG, bus, w)" if "usable_timing sdk rate = None"
    using set_rate(2) [OF init assms(2) that, of w] by (simp add: try_rate_def)
  assume "usable_timing sdk rate \<noteq> None"
  then obtain t where t: "usable_timing sdk rate = Some t" by blast
  obtain w1 where w1: "servo_bus_set_baudrate sdk rate (bus, w) = (SERVO_BUS_OK, at_rate rate t bus, w1)"
    using set_rate(1) [OF init assms(2) t] by blast
  have "hd_baudrate (sb_uart bus) \<noteq> 0" "usable_timing sdk (hd_baudrate (sb_uart bus)) = Some (hd_timing (sb_uart bus))"
    using assms(1) by (simp_all add: rate_settled_def)
  with set_rate(1) [of "at_rate rate t bus" "hd_baudrate (sb_uart bus)" sdk "hd_timing (sb_uart bus)" w1] init w1
  show "\<exists>w'. try_rate sdk rate (hd_baudrate (sb_uart bus)) (bus, w) = (SERVO_BUS_OK, bus, w')"
    using assms(1) by (auto simp: try_rate_def)
qed

text \<open>Where a change of rate may leave the bus: at the new rate with success, or as it was.\<close>

definition rate_change_ends :: "'w hd_sdk \<Rightarrow> u32 \<Rightarrow> servo_bus_t \<Rightarrow> servo_bus_result_t \<Rightarrow> servo_bus_t \<Rightarrow> bool" where
  "rate_change_ends sdk exact bus result bus' \<longleftrightarrow>
     (if result = SERVO_BUS_OK then \<exists>t. usable_timing sdk exact = Some t \<and> only_counts (at_rate exact t bus) bus' else only_counts bus bus')"

text \<open>What follows the write of the rate register: \<open>finish\<close> and \<open>undo\<close> are what the two families do then.\<close>

lemma follow_rate:
  assumes settled: "rate_settled sdk bus" and "only_counts bus b1" and "usable_timing sdk exact = Some t" and "exact \<noteq> 0"
    and first: "servo_bus_set_baudrate sdk exact (b1, w1) = (r2, b2, w2)"
  shows "r2 = SERVO_BUS_OK" and "b2 = at_rate exact t b1" and "only_counts (at_rate exact t bus) b2"
    and "only_counts b2 b3 \<Longrightarrow> only_counts bus (fst (snd (servo_bus_set_baudrate sdk (hd_baudrate (sb_uart bus)) (b3, w3))))"
proof -
  let ?rate = "hd_baudrate (sb_uart bus)" and ?timing = "hd_timing (sb_uart bus)"
  have b1: "sb_initialised b1" "hd_initialised (sb_uart b1)"
    using settled assms(2) by (simp_all add: rate_settled_def only_counts_fields)
  from set_rate(1) [OF b1 assms(4,3), of w1] first show "r2 = SERVO_BUS_OK" and b2: "b2 = at_rate exact t b1" by auto
  then show "only_counts (at_rate exact t bus) b2" using only_counts_at_rate [OF assms(2)] by simp
  assume b3: "only_counts b2 b3"
  have "sb_initialised b3" "hd_initialised (sb_uart b3)" using b1 only_counts_fields [OF b3] by (simp_all add: b2)
  moreover have "?rate \<noteq> 0" "usable_timing sdk ?rate = Some ?timing" using settled by (simp_all add: rate_settled_def)
  ultimately obtain w' where "servo_bus_set_baudrate sdk ?rate (b3, w3) = (SERVO_BUS_OK, at_rate ?rate ?timing b3, w')"
    using set_rate(1) [of b3 ?rate sdk ?timing w3] by blast
  moreover have "only_counts (at_rate ?rate ?timing (at_rate exact t bus)) (at_rate ?rate ?timing b3)"
    using only_counts_trans [OF only_counts_at_rate [OF assms(2), of exact t] b3 [unfolded b2]] by (rule only_counts_at_rate)
  ultimately show "only_counts bus (fst (snd (servo_bus_set_baudrate sdk ?rate (b3, w3))))"
    using settled by simp
qed

lemma tx_log_set_rate: "tx_log sdk sent \<Longrightarrow> sent (snd (snd (servo_bus_set_baudrate sdk rate (bus, w)))) = sent w"
  by (simp add: servo_bus_set_baudrate_def half_duplex_uart_set_baudrate_def apply_timing_def perform_all_def tx_log_def Let_def
      split: option.split)

lemma tx_log_try_rate: "tx_log sdk sent \<Longrightarrow> sent (snd (snd (try_rate sdk rate previous (bus, w)))) = sent w"
  using tx_log_set_rate [of sdk sent] by (auto simp: try_rate_def split: prod.splits) (metis snd_conv)+


subsection \<open>What every call keeps\<close>

definition calls_keep :: "'w hd_sdk \<Rightarrow> ('w \<Rightarrow> bool) \<Rightarrow> bool" where
  "calls_keep sdk I \<longleftrightarrow> looks_keep sdk I \<and> (\<forall>call w. I w \<longrightarrow> I (pio_do sdk call w))"

lemma perform_all_calls: "calls_keep sdk I \<Longrightarrow> I w \<Longrightarrow> I (perform_all sdk calls w)"
  by (induction calls arbitrary: w) (simp_all add: calls_keep_def)

lemma write_calls:
  assumes "calls_keep sdk I" and "half_duplex_uart_write sdk bus data n w = Some (r, w')" and "I w"
  shows "I w'"
proof (cases "hd_initialised bus \<and> data \<noteq> None \<and> 0 < n")
  case True
  then obtain bytes where "data = Some bytes" by blast
  moreover have "I (loaded sdk bus (take n bytes) w)"
    using assms(1,3) perform_all_calls [OF assms(1)] by (simp add: loaded_def calls_keep_def)
  ultimately show ?thesis using write_looks [of sdk I bus n bytes w r w'] assms True by (simp add: calls_keep_def)
next
  case False
  then have "w' = w" using assms(2) by (auto simp: half_duplex_uart_write_def split: if_splits)
  then show ?thesis using assms(3) by simp
qed

lemma attempt_calls:
  assumes keep: "calls_keep sdk I" and run: "attempt sdk bus request len servo params count err w = Some (r, params', err', w')" and "I w"
  shows "I w'"
proof -
  obtain s w1 where w1: "half_duplex_uart_write sdk (sb_uart bus) (Some request) len w = Some (s, w1)"
    using run by (auto simp: attempt_def split: option.splits)
  have "I w1" using write_calls [OF keep w1 assms(3)] .
  then show ?thesis using run w1 keep
    by (auto simp: attempt_def calls_keep_def Let_def split: if_splits option.splits prod.splits dest: read_exact_looks)
qed

lemma try_loop_calls:
  assumes keep: "calls_keep sdk I"
  shows "try_loop sdk request len servo count n retry res params err (bus, w) = Some (r, params', err', bus', w') \<Longrightarrow> I w \<Longrightarrow> I w'"
proof (induction n arbitrary: retry res params err bus w)
  case (Suc n)
  obtain r1 p1 e1 w1 where a: "attempt sdk (sb_update_stats (count_try retry) bus) request len servo params count err w = Some (r1, p1, e1, w1)"
    using Suc.prems(1) by (auto simp: Let_def split: option.splits)
  have "I w1" using attempt_calls [OF keep a Suc.prems(2)] .
  moreover have "I (half_duplex_uart_flush_rx sdk b w1)" if "I w1" for b
    using keep that by (simp add: half_duplex_uart_flush_rx_def calls_keep_def)
  ultimately show ?case using Suc a by (auto simp: Let_def split: if_splits)
qed simp

lemma transact_calls:
  "calls_keep sdk I \<Longrightarrow> transact sdk request len servo params count err (bus, w) = Some (r, params', err', bus', w') \<Longrightarrow> I w \<Longrightarrow> I w'"
  unfolding transact_def Let_def by (rule try_loop_calls)

lemma ping_calls: "calls_keep sdk I \<Longrightarrow> ping sdk servo (bus, w) = Some (r, bus', w') \<Longrightarrow> I w \<Longrightarrow> I w'"
  by (auto simp: ping_def servo_bus_ping_def split: if_splits option.splits prod.splits dest: transact_calls)

lemma write_register_calls:
  "calls_keep sdk I \<Longrightarrow> write_register sdk servo reg v width (bus, w) = Some (r, bus', w') \<Longrightarrow> I w \<Longrightarrow> I w'"
  by (auto simp: write_register_def servo_bus_write_value_def servo_bus_write_def Let_def split: if_splits option.splits prod.splits
      dest: transact_calls)

lemma write_once_calls: "calls_keep sdk I \<Longrightarrow> write_once sdk servo reg v (bus, w) = Some (r, bus', w') \<Longrightarrow> I w \<Longrightarrow> I w'"
  by (auto simp: write_once_def Let_def split: option.splits dest: write_register_calls)

lemma factory_reset_calls:
  "calls_keep sdk I \<Longrightarrow> servo_bus_factory_reset sdk servo err (bus, w) = Some (r, err', bus', w') \<Longrightarrow> I w \<Longrightarrow> I w'"
  by (auto simp: servo_bus_factory_reset_def Let_def split: if_splits option.splits prod.splits dest: transact_calls)

lemma set_rate_calls:
  "calls_keep sdk I \<Longrightarrow> servo_bus_set_baudrate sdk rate (bus, w) = (r, bus', w') \<Longrightarrow> I w \<Longrightarrow> I w'"
  by (auto simp: servo_bus_set_baudrate_def half_duplex_uart_set_baudrate_def Let_def
      simp del: perform_all_simps intro: perform_all_calls split: if_splits option.splits prod.splits)

lemma tx_log_calls: "tx_log sdk sent \<Longrightarrow> calls_keep sdk (\<lambda>v. \<exists>x. sent v = s @ x)"
  by (auto simp: calls_keep_def looks_keep_def tx_log_def split: pio_op.splits)

subsection \<open>The lock of the EEPROM\<close>

text \<open>The packet that writes the byte \<open>v\<close> to register \<open>reg\<close>, as it goes to the transmitter.\<close>

definition byte_frame :: "u8 \<Rightarrow> u8 \<Rightarrow> u8 \<Rightarrow> u32 list" where
  "byte_frame servo reg v = map ucast (packet_bytes servo 3 [reg, v])"

lemma write_byte_sends:
  assumes "tx_log sdk sent" and "sb_initialised bus" and "hd_initialised (sb_uart bus)"
    and run: "write_register sdk servo reg v 1 (bus, w) = Some (r, bus', w')"
  shows "\<exists>k > 0. sent w' = sent w @ concat (replicate k (byte_frame servo reg (ucast v)))"
proof -
  have "servo_protocol_encode_value (Some (replicate 4 0)) v 1 (sb_endianness bus)
      = Some (blit 0 (value_bytes 1 (sb_endianness bus) v) (replicate 4 0))"
    by (rule encode_value_blit) (simp_all add: valid_width_def)
  moreover have "value_bytes 1 (sb_endianness bus) v = [ucast v]"
    by (cases "sb_endianness bus") (simp_all add: value_bytes_def le32_def)
  ultimately obtain err' where "servo_bus_write sdk servo reg (Some (blit 0 [ucast v] (replicate 4 0))) 1 None (bus, w) = Some (r, err', bus', w')"
    using run assms(2) by (auto simp: write_register_def servo_bus_write_value_def valid_width_def)
  from register_write_effect [OF assms(1-3) _ _ _ this]
  show ?thesis by (auto simp: blit_def byte_frame_def)
qed

lemma concat_replicate_last: "0 < k \<Longrightarrow> \<exists>x. concat (replicate k y) = x @ y"
  by (cases k) (auto simp: replicate_append_same [symmetric])

lemma relock_sends:
  assumes log: "tx_log sdk sent" and bus: "sb_initialised bus" "hd_initialised (sb_uart bus)" and "sent w = s @ x"
    and run: "feetech_lock_eeprom sdk servo (bus, w) = Some (r, bus', w')"
  shows "\<exists>between. sent w' = s @ between @ byte_frame servo FEETECH_REG_LOCK 1"
proof -
  obtain k where "0 < k" "sent w' = sent w @ concat (replicate k (byte_frame servo FEETECH_REG_LOCK 1))"
    using write_byte_sends [OF log bus run [unfolded feetech_lock_eeprom_def]] by auto
  with concat_replicate_last [of k] assms(4) show ?thesis by (metis append_assoc)
qed

lemma relock_and_return_sends:
  assumes "tx_log sdk sent" and "sb_initialised bus" "hd_initialised (sb_uart bus)" and "sent w = s @ x"
    and "relock_and_return sdk servo result (bus, w) = Some (r, bus', w')"
  shows "\<exists>between. sent w' = s @ between @ byte_frame servo FEETECH_REG_LOCK 1"
  using assms(5) relock_sends [OF assms(1-4)] by (auto simp: relock_and_return_def)

lemma move_rate_locks:
  assumes settled: "rate_settled sdk bus" and log: "tx_log sdk sent" and servo: "servo \<noteq> SERVO_PROTOCOL_BROADCAST_ID"
    and "only_counts bus b1" and s1: "sent w1 = s @ x" and t: "usable_timing sdk exact = Some t" and "exact \<noteq> 0"
    and run: "feetech_move_rate sdk servo index exact (hd_baudrate (sb_uart bus)) (b1, w1) = Some (result, bus', w')"
  shows "\<exists>between. sent w' = s @ between @ byte_frame servo FEETECH_REG_LOCK 1"
proof -
  note keep = tx_log_calls [OF log, of s]
  have up: "sb_initialised b \<and> hd_initialised (sb_uart b)" if "only_counts bus b" for b
    using settled that by (simp add: rate_settled_def only_counts_fields)
  obtain r2 b2 w2 where w2: "write_once sdk servo FEETECH_REG_BAUD_RATE (ucast index) (b1, w1) = Some (r2, b2, w2)"
    using run by (auto simp: feetech_move_rate_def split: option.splits)
  have b2: "only_counts bus b2" using only_counts_trans [OF assms(4) write_once_only_counts [OF w2]] .
  obtain y where s2: "sent w2 = s @ y" using write_once_calls [OF keep w2] s1 by blast
  show ?thesis
  proof (cases "r2 = SERVO_BUS_ERR_TRANSPORT \<or> r2 = SERVO_BUS_ERR_INVALID_ARG")
    case True
    then have "relock_and_return sdk servo r2 (b2, w2) = Some (result, bus', w')"
      using run w2 by (auto simp: feetech_move_rate_def)
    from relock_and_return_sends [OF log _ _ s2 this] up [OF b2] show ?thesis by blast
  next
    case False
    obtain r3 b3 w3 where w3: "servo_bus_set_baudrate sdk exact (b2, w2) = (r3, b3, w3)" by (metis prod_cases3)
    note follow = follow_rate [OF settled b2 t assms(7) w3]
    have "sent w3 = s @ y" using tx_log_set_rate [OF log, of exact b2 w2] w3 s2 by simp
    obtain r4 b4 w4 where w4: "ping sdk servo (b3, w3) = Some (r4, b4, w4)"
      using run w2 w3 False follow(1) servo by (auto simp: feetech_move_rate_def split: option.splits)
    obtain z where s4: "sent w4 = s @ z" using ping_calls [OF keep w4] \<open>sent w3 = s @ y\<close> by blast
    obtain r5 b5 w5 where w5: "servo_bus_set_baudrate sdk (hd_baudrate (sb_uart bus)) (b4, w4) = (r5, b5, w5)" by (metis prod_cases3)
    have s5: "sent w5 = s @ z" using tx_log_set_rate [OF log, of "hd_baudrate (sb_uart bus)" b4 w4] w5 s4 by simp
    have "feetech_lock_eeprom sdk servo (b4, w4) = Some (result, bus', w') \<or> relock_and_return sdk servo r4 (b5, w5) = Some (result, bus', w')"
      using run w2 w3 w4 w5 False follow(1) servo by (auto simp: feetech_move_rate_def split: if_splits)
    moreover have "sb_initialised b4 \<and> hd_initialised (sb_uart b4)"
      using up [OF b2] follow(2) only_counts_fields [OF ping_only_counts [OF w4]] by simp
    moreover have "sb_initialised b5 \<and> hd_initialised (sb_uart b5)"
      using follow(4) [OF ping_only_counts [OF w4], of w4] w5 up by simp
    ultimately show ?thesis
      using relock_sends [OF log _ _ s4, of b4] relock_and_return_sends [OF log _ _ s5, of b5] by blast
  qed
qed

text \<open>C21: A change of rate of a Feetech servo closes its EEPROM again: either nothing was sent at all, or the last packet that was sent locks
  the EEPROM of that servo. The one exception is an unlock that was not acknowledged: then only unlocking packets were sent,
  and the call fails.
\<close>

theorem feetech_rate_change_locks:
  assumes settled: "rate_settled sdk bus" and log: "tx_log sdk sent" and servo: "servo \<noteq> SERVO_PROTOCOL_BROADCAST_ID"
    and run: "feetech_set_baudrate sdk servo rate (bus, w) = Some (result, bus', w')"
  shows "sent w' = sent w
    \<or> result \<noteq> SERVO_BUS_OK \<and> (\<exists>k. sent w' = sent w @ concat (replicate k (byte_frame servo FEETECH_REG_LOCK 0)))
    \<or> (\<exists>between. sent w' = sent w @ between @ byte_frame servo FEETECH_REG_LOCK 1)"
proof (cases "feetech_rate_to_baud_index rate")
  case (Some index)
  define exact where "exact = feetech_baud_index_to_rate index"
  let ?previous = "hd_baudrate (sb_uart bus)"
  note keep = tx_log_calls [OF log, of "sent w"]
  have bus: "sb_initialised bus" "hd_initialised (sb_uart bus)" using settled by (simp_all add: rate_settled_def)
  have previous: "servo_bus_get_baudrate (Some bus) = ?previous" by (simp add: servo_bus_get_baudrate_def bus)
  obtain r0 b0 w0 where w0: "try_rate sdk exact ?previous (bus, w) = (r0, b0, w0)" by (metis prod_cases3)
  have s0: "sent w0 = sent w" using tx_log_try_rate [OF log, of exact ?previous bus w] w0 by simp
  show ?thesis
  proof (cases "r0 = SERVO_BUS_OK")
    case True
    have "exact \<noteq> 0" using w0 True by (auto simp: try_rate_def servo_bus_set_baudrate_def bus split: if_splits)
    then obtain t where t: "usable_timing sdk exact = Some t" and b0: "b0 = bus"
      using try_rate_settled [OF settled, of exact w] w0 True by (cases "usable_timing sdk exact") auto
    obtain r1 b1 w1 where w1: "feetech_unlock_eeprom sdk servo (bus, w0) = Some (r1, b1, w1)"
      using run Some w0 True b0 previous by (auto simp: feetech_set_baudrate_def exact_def [symmetric] split: option.splits)
    from write_byte_sends [OF log bus w1 [unfolded feetech_unlock_eeprom_def]] s0 obtain k where
      k: "sent w1 = sent w @ concat (replicate k (byte_frame servo FEETECH_REG_LOCK 0))" by auto
    have "only_counts bus b1" using w1 unfolding feetech_unlock_eeprom_def by (rule write_register_only_counts)
    note move = move_rate_locks [OF settled log servo this k t \<open>exact \<noteq> 0\<close>]
    have "if r1 = SERVO_BUS_OK then feetech_move_rate sdk servo index exact ?previous (b1, w1) = Some (result, bus', w')
        else result = r1 \<and> w' = w1"
      using run Some w0 w1 True b0 previous by (auto simp: feetech_set_baudrate_def exact_def [symmetric])
    then show ?thesis using move k by (auto split: if_splits)
  next
    case False
    then show ?thesis using run Some w0 s0 previous by (simp add: feetech_set_baudrate_def exact_def [symmetric])
  qed
qed (use run in \<open>simp add: feetech_set_baudrate_def\<close>)

subsection \<open>Every call returns\<close>

text \<open>A clock that no call turns back, the pauses included.\<close>

definition clock_forward :: "'w hd_sdk \<Rightarrow> (nat \<Rightarrow> 'w \<Rightarrow> 'w) \<Rightarrow> ('w \<Rightarrow> nat) \<Rightarrow> bool" where
  "clock_forward sdk sleep_ms tick \<longleftrightarrow> (\<forall>n. calls_keep sdk (\<lambda>v. n \<le> tick v)) \<and> (\<forall>ms w. tick w \<le> tick (sleep_ms ms w))"

lemma ping_returns:
  assumes "wire_clock sdk tick c" and "tx_drains sdk left" and "hd_sm_tx (sb_uart (fst st)) < 4"
  shows "ping sdk servo st \<noteq> None"
  using transact_returns [OF assms(1,2), of st] assms(3)
  by (cases st) (auto simp: ping_def servo_bus_ping_def split: option.splits prod.splits simp del: not_None_eq)

lemma write_register_returns:
  assumes "wire_clock sdk tick c" and "tx_drains sdk left" and "hd_sm_tx (sb_uart (fst st)) < 4"
  shows "write_register sdk servo reg v width st \<noteq> None"
  using transact_returns [OF assms(1,2), of st] assms(3)
  by (cases st) (auto simp: write_register_def servo_bus_write_value_def servo_bus_write_def Let_def
      split: option.splits prod.splits simp del: not_None_eq)

lemma write_once_returns:
  assumes "wire_clock sdk tick c" and "tx_drains sdk left" and "hd_sm_tx (sb_uart (fst st)) < 4"
  shows "write_once sdk servo reg v st \<noteq> None"
  using write_register_returns [OF assms(1,2), of "((fst st)\<lparr>sb_max_retries := 0\<rparr>, snd st)"] assms(3)
  by (cases st) (auto simp: write_once_def Let_def split: option.splits simp del: not_None_eq)

lemma set_rate_sm [simp]: "servo_bus_set_baudrate sdk rate (bus, w) = (r, bus', w') \<Longrightarrow> hd_sm_tx (sb_uart bus') = hd_sm_tx (sb_uart bus)"
  by (auto simp: servo_bus_set_baudrate_def half_duplex_uart_set_baudrate_def Let_def split: if_splits option.splits prod.splits)

lemma try_rate_sm: "try_rate sdk rate previous (bus, w) = (r, bus', w') \<Longrightarrow> hd_sm_tx (sb_uart bus') = hd_sm_tx (sb_uart bus)"
  by (auto simp: try_rate_def split: if_splits prod.splits)

lemma scan_ids_returns:
  assumes "wire_clock sdk tick c" and "tx_drains sdk left"
  shows "hd_sm_tx (sb_uart bus) < 4 \<Longrightarrow> scan_ids sdk servos capacity ids count (bus, w) \<noteq> None"
proof (induction servos arbitrary: ids count bus w)
  case (Cons servo servos)
  obtain r b v where p: "ping sdk servo (bus, w) = Some (r, b, v)"
    using ping_returns [OF assms, of "(bus, w)" servo] Cons.prems by auto
  have "hd_sm_tx (sb_uart b) < 4" using only_counts_fields(1) [OF ping_only_counts [OF p]] Cons.prems by simp
  then show ?case using Cons.IH p by (simp del: not_None_eq)
qed simp

lemma poll_reset_returns:
  assumes clock: "wire_clock sdk tick c" and "tx_drains sdk left" and forward: "clock_forward sdk sleep_ms tick"
    and "hd_sm_tx (sb_uart bus) < 4"
  shows "poll_reset sdk sleep_ms deadline (bus, w) \<noteq> None"
  using assms(4)
proof (induction "deadline * c - tick w" arbitrary: bus w rule: less_induct)
  case less
  obtain r b w1 where p: "ping sdk DEFAULT_ID (bus, sleep_ms 50 w) = Some (r, b, w1)"
    using ping_returns [OF assms(1,2), of "(bus, sleep_ms 50 w)" DEFAULT_ID] less.prems by auto
  obtain now w2 where t: "get_time_us sdk w1 = (now, w2)" by fastforce
  have "tick w \<le> tick (sleep_ms 50 w)" using forward by (simp add: clock_forward_def)
  moreover have "tick (sleep_ms 50 w) \<le> tick w1"
    using ping_calls [OF _ p, of "\<lambda>v. tick (sleep_ms 50 w) \<le> tick v"] forward by (simp add: clock_forward_def)
  moreover have ticks: "tick w1 < tick w2" "now = tick w2 div c" "0 < c"
    using clock t unfolding wire_clock_def by (metis fst_conv snd_conv)+
  ultimately have "deadline * c - tick w2 < deadline * c - tick w" if "\<not> deadline \<le> now"
    using that by (simp add: not_le div_less_iff_less_mult)
  moreover have "hd_sm_tx (sb_uart b) < 4" using only_counts_fields(1) [OF ping_only_counts [OF p]] less.prems by simp
  ultimately have "\<not> deadline \<le> now \<Longrightarrow> poll_reset sdk sleep_ms deadline (b, w2) \<noteq> None" by (rule less.hyps)
  then show ?case by (subst poll_reset.simps) (simp add: p t del: not_None_eq)
qed

lemma poll_reset_only_counts:
  assumes "poll_reset sdk sleep_ms deadline st = Some r"
  shows "only_counts (fst st) (fst (snd r))"
  using assms
proof (rule poll_reset.raw_induct [where P = "\<lambda>sdk sleep_ms deadline st r. only_counts (fst st) (fst (snd r))", rotated])
  fix poll sdk and sleep_ms :: "nat \<Rightarrow> 'a \<Rightarrow> 'a" and deadline st r
  assume ih: "\<And>sdk sleep_ms deadline st r. poll sdk sleep_ms deadline st = Some r \<Longrightarrow> only_counts (fst st) (fst (snd r))"
    and body: "(case ping sdk DEFAULT_ID (fst st, sleep_ms 50 (snd st)) of
      None \<Rightarrow> None
    | Some (result, bus, w) \<Rightarrow>
        if result = SERVO_BUS_OK then Some (True, bus, w)
        else
          (case get_time_us sdk w of
             (now, w) \<Rightarrow> if deadline \<le> now then Some (False, bus, w) else poll sdk sleep_ms deadline (bus, w))) = Some r"
  obtain result bus w where p: "ping sdk DEFAULT_ID (fst st, sleep_ms 50 (snd st)) = Some (result, bus, w)"
    using body by (auto split: option.splits)
  note b = ping_only_counts [OF p]
  obtain now w1 where t: "get_time_us sdk w = (now, w1)" by fastforce
  show "only_counts (fst st) (fst (snd r))"
  proof (cases "result = SERVO_BUS_OK \<or> deadline \<le> now")
    case True
    then show ?thesis using body p t b by (auto split: if_splits)
  next
    case False
    then have "poll sdk sleep_ms deadline (bus, w1) = Some r" using body p t by simp
    from only_counts_trans [OF b] ih [OF this] show ?thesis by simp
  qed
qed

lemma factory_reset_sm:
  "servo_bus_factory_reset sdk servo err (bus, w) = Some (r, err', bus', w') \<Longrightarrow> sb_uart bus' = sb_uart bus"
  by (auto simp: servo_bus_factory_reset_def Let_def split: if_splits option.splits prod.splits
      dest!: transact_only_counts only_counts_fields(1))

text \<open>The reset of either family, when its unlocking and its locking return.\<close>

lemma factory_reset_ends:
  assumes clock: "wire_clock sdk tick c" and drains: "tx_drains sdk left" and forward: "clock_forward sdk sleep_ms tick"
    and sm: "hd_sm_tx (sb_uart bus) < 4"
    and unlock: "\<And>bus w. hd_sm_tx (sb_uart bus) < 4 \<Longrightarrow> \<exists>r bus' w'. unlock (bus, w) = Some (r, bus', w') \<and> only_counts bus bus'"
    and relock: "\<And>bus w. hd_sm_tx (sb_uart bus) < 4 \<Longrightarrow> relock (bus, w) \<noteq> None"
  shows "factory_reset sdk sleep_ms servo unlock relock (bus, w) \<noteq> None"
proof -
  let ?previous = "servo_bus_get_baudrate (Some bus)"
  obtain r0 b0 w0 where s0: "try_rate sdk DEFAULT_BAUDRATE ?previous (bus, w) = (r0, b0, w0)" by (metis prod_cases3)
  have sm0: "hd_sm_tx (sb_uart b0) < 4" using try_rate_sm [OF s0] sm by simp
  obtain r1 b1 w1 where s1: "unlock (b0, w0) = Some (r1, b1, w1)" and c1: "only_counts b0 b1" using unlock [OF sm0] by blast
  have sm1: "hd_sm_tx (sb_uart b1) < 4" using only_counts_fields(1) [OF c1] sm0 by simp
  have "servo_bus_factory_reset sdk servo None (b1, w1) \<noteq> None"
    using transact_returns [OF clock drains, of "(b1\<lparr>sb_max_retries := 0\<rparr>, w1)"] sm1
    by (auto simp: servo_bus_factory_reset_def Let_def split: option.splits prod.splits simp del: not_None_eq)
  then obtain r2 e2 b2 w2 where s2: "servo_bus_factory_reset sdk servo None (b1, w1) = Some (r2, e2, b2, w2)" by auto
  have sm2: "hd_sm_tx (sb_uart b2) < 4" using factory_reset_sm [OF s2] sm1 by simp
  obtain r3 b3 w3 where s3: "servo_bus_set_baudrate sdk DEFAULT_BAUDRATE (b2, w2) = (r3, b3, w3)" by (metis prod_cases3)
  have sm3: "hd_sm_tx (sb_uart b3) < 4" using set_rate_sm [OF s3] sm2 by simp
  obtain now w4 where s4: "get_time_us sdk w3 = (now, w4)" by fastforce
  obtain a b5 w5 where s5: "poll_reset sdk sleep_ms (now + RESET_TIMEOUT_MS * 1000) (b3, w4) = Some (a, b5, w5)"
    using poll_reset_returns [OF clock drains forward sm3, of "now + RESET_TIMEOUT_MS * 1000" w4] by auto
  obtain r6 b6 w6 where s6: "servo_bus_set_baudrate sdk ?previous (b5, w5) = (r6, b6, w6)" by (metis prod_cases3)
  have "hd_sm_tx (sb_uart b6) < 4"
    using set_rate_sm [OF s6] only_counts_fields(1) [OF poll_reset_only_counts [OF s5]] sm3 by simp
  with s0 s1 s2 s3 s4 s5 s6 relock sm2 show ?thesis by (simp add: factory_reset_def del: not_None_eq)
qed

lemma call_ends:
  assumes clock: "wire_clock sdk tick c" and drains: "tx_drains sdk left" and sm: "hd_sm_tx (sb_uart bus) < 4"
  shows "\<exists>r bus' w'. ping sdk servo (bus, w) = Some (r, bus', w') \<and> only_counts bus bus' \<and> hd_sm_tx (sb_uart bus') < 4"
    and "\<exists>r bus' w'. write_register sdk servo reg v width (bus, w) = Some (r, bus', w') \<and> only_counts bus bus' \<and> hd_sm_tx (sb_uart bus') < 4"
    and "\<exists>r bus' w'. write_once sdk servo reg v (bus, w) = Some (r, bus', w') \<and> only_counts bus bus' \<and> hd_sm_tx (sb_uart bus') < 4"
    and "\<exists>r bus' w'. servo_bus_set_baudrate sdk rate (bus, w) = (r, bus', w') \<and> hd_sm_tx (sb_uart bus') < 4"
    and "\<exists>r bus' w'. try_rate sdk rate previous (bus, w) = (r, bus', w') \<and> hd_sm_tx (sb_uart bus') < 4"
proof -
  obtain r bus' w' where p: "ping sdk servo (bus, w) = Some (r, bus', w')" using ping_returns [OF clock drains, of "(bus, w)" servo] sm by auto
  from ping_only_counts [OF p] only_counts_fields(1) [OF ping_only_counts [OF p]] p sm
  show "\<exists>r bus' w'. ping sdk servo (bus, w) = Some (r, bus', w') \<and> only_counts bus bus' \<and> hd_sm_tx (sb_uart bus') < 4" by auto
next
  obtain r bus' w' where p: "write_register sdk servo reg v width (bus, w) = Some (r, bus', w')"
    using write_register_returns [OF clock drains, of "(bus, w)" servo reg v width] sm by auto
  from write_register_only_counts [OF p] only_counts_fields(1) [OF write_register_only_counts [OF p]] p sm
  show "\<exists>r bus' w'. write_register sdk servo reg v width (bus, w) = Some (r, bus', w') \<and> only_counts bus bus' \<and> hd_sm_tx (sb_uart bus') < 4" by auto
next
  obtain r bus' w' where p: "write_once sdk servo reg v (bus, w) = Some (r, bus', w')"
    using write_once_returns [OF clock drains, of "(bus, w)" servo reg v] sm by auto
  from write_once_only_counts [OF p] only_counts_fields(1) [OF write_once_only_counts [OF p]] p sm
  show "\<exists>r bus' w'. write_once sdk servo reg v (bus, w) = Some (r, bus', w') \<and> only_counts bus bus' \<and> hd_sm_tx (sb_uart bus') < 4" by auto
next
  obtain r bus' w' where p: "servo_bus_set_baudrate sdk rate (bus, w) = (r, bus', w')" by (metis prod_cases3)
  from set_rate_sm [OF p] p sm show "\<exists>r bus' w'. servo_bus_set_baudrate sdk rate (bus, w) = (r, bus', w') \<and> hd_sm_tx (sb_uart bus') < 4" by auto
next
  obtain r bus' w' where p: "try_rate sdk rate previous (bus, w) = (r, bus', w')" by (metis prod_cases3)
  from try_rate_sm [OF p] p sm show "\<exists>r bus' w'. try_rate sdk rate previous (bus, w) = (r, bus', w') \<and> hd_sm_tx (sb_uart bus') < 4" by auto
qed

lemma ax12_set_baudrate_ends:
  assumes clock: "wire_clock sdk tick c" and drains: "tx_drains sdk left" and sm: "hd_sm_tx (sb_uart bus) < 4"
  shows "ax12_set_baudrate sdk servo rate (bus, w) \<noteq> None"
proof (cases "ax12_rate_to_baud_value rate")
  case (Some v)
  note ends = call_ends [OF clock drains]
  let ?exact = "ax12_baud_value_to_rate v"
  obtain r0 b0 w0 where s0: "try_rate sdk ?exact (servo_bus_get_baudrate (Some bus)) (bus, w) = (r0, b0, w0)" "hd_sm_tx (sb_uart b0) < 4"
    using ends(5) [OF sm] by blast
  obtain r1 b1 w1 where s1: "write_once sdk servo AX12_REG_BAUD_RATE (ucast v) (b0, w0) = Some (r1, b1, w1)" "hd_sm_tx (sb_uart b1) < 4"
    using ends(3) [OF s0(2)] by blast
  obtain r2 b2 w2 where s2: "servo_bus_set_baudrate sdk ?exact (b1, w1) = (r2, b2, w2)" "hd_sm_tx (sb_uart b2) < 4"
    using ends(4) [OF s1(2)] by blast
  obtain r3 b3 w3 where "ping sdk servo (b2, w2) = Some (r3, b3, w3)" using ends(1) [OF s2(2)] by blast
  with Some s0 s1 s2 show ?thesis by (simp add: ax12_set_baudrate_def Let_def del: not_None_eq)
qed (simp add: ax12_set_baudrate_def)

lemma feetech_set_baudrate_ends:
  assumes clock: "wire_clock sdk tick c" and drains: "tx_drains sdk left" and sm: "hd_sm_tx (sb_uart bus) < 4"
  shows "feetech_set_baudrate sdk servo rate (bus, w) \<noteq> None"
proof (cases "feetech_rate_to_baud_index rate")
  case (Some index)
  note ends = call_ends [OF clock drains]
  let ?exact = "feetech_baud_index_to_rate index" and ?previous = "servo_bus_get_baudrate (Some bus)"
  have relock: "relock_and_return sdk servo r (b, v) \<noteq> None" "feetech_lock_eeprom sdk servo (b, v) \<noteq> None"
    if sm: "hd_sm_tx (sb_uart b) < 4" for r b v
    using ends(2) [OF sm] by (fastforce simp: relock_and_return_def feetech_lock_eeprom_def)+
  obtain r0 b0 w0 where s0: "try_rate sdk ?exact ?previous (bus, w) = (r0, b0, w0)" "hd_sm_tx (sb_uart b0) < 4"
    using ends(5) [OF sm] by blast
  obtain r1 b1 w1 where s1: "feetech_unlock_eeprom sdk servo (b0, w0) = Some (r1, b1, w1)" "hd_sm_tx (sb_uart b1) < 4"
    using ends(2) [OF s0(2)] unfolding feetech_unlock_eeprom_def by blast
  obtain r2 b2 w2 where s2: "write_once sdk servo FEETECH_REG_BAUD_RATE (ucast index) (b1, w1) = Some (r2, b2, w2)" "hd_sm_tx (sb_uart b2) < 4"
    using ends(3) [OF s1(2)] by blast
  obtain r3 b3 w3 where s3: "servo_bus_set_baudrate sdk ?exact (b2, w2) = (r3, b3, w3)" "hd_sm_tx (sb_uart b3) < 4"
    using ends(4) [OF s2(2)] by blast
  obtain r4 b4 w4 where s4: "ping sdk servo (b3, w3) = Some (r4, b4, w4)" "hd_sm_tx (sb_uart b4) < 4" using ends(1) [OF s3(2)] by blast
  obtain r5 b5 w5 where s5: "servo_bus_set_baudrate sdk ?previous (b4, w4) = (r5, b5, w5)" "hd_sm_tx (sb_uart b5) < 4"
    using ends(4) [OF s4(2)] by blast
  from Some s0 s1 s2 s3 s4 s5 show ?thesis
    by (simp add: feetech_set_baudrate_def feetech_move_rate_def Let_def relock del: not_None_eq)
qed (simp add: feetech_set_baudrate_def)

text \<open>No call of either driver waits for ever, the scans, the changes of rate and the factory resets included.\<close>

theorem servo_drivers_always_return:
  assumes clock: "wire_clock sdk tick c" and drains: "tx_drains sdk left" and forward: "clock_forward sdk sleep_ms tick"
    and sm: "hd_sm_tx (sb_uart (fst st)) < 4"
  shows "servo_scan sdk ids capacity st \<noteq> None \<and> ax12_set_baudrate sdk servo rate st \<noteq> None
    \<and> feetech_set_baudrate sdk servo rate st \<noteq> None
    \<and> ax12_factory_reset sdk sleep_ms servo st \<noteq> None \<and> feetech_factory_reset sdk sleep_ms servo st \<noteq> None"
proof -
  obtain bus w where st: "st = (bus, w)" by fastforce
  have sm: "hd_sm_tx (sb_uart bus) < 4" using sm st by simp
  have "servo_scan sdk ids capacity st \<noteq> None"
    using scan_ids_returns [OF clock drains, of "bus\<lparr>sb_max_retries := 0\<rparr>"] sm
    by (auto simp: servo_scan_def Let_def st split: option.splits simp del: not_None_eq)
  moreover have "ax12_factory_reset sdk sleep_ms servo st \<noteq> None"
    unfolding ax12_factory_reset_def st by (rule factory_reset_ends [OF clock drains forward sm]) simp_all
  moreover have "feetech_factory_reset sdk sleep_ms servo st \<noteq> None"
    unfolding feetech_factory_reset_def st
    by (rule factory_reset_ends [OF clock drains forward sm])
      (use call_ends(2) [OF clock drains] in \<open>fastforce simp: feetech_unlock_eeprom_def feetech_lock_eeprom_def\<close>)+
  ultimately show ?thesis using ax12_set_baudrate_ends [OF clock drains sm] feetech_set_baudrate_ends [OF clock drains sm] st by simp
qed

subsection \<open>Examples\<close>

lemma sim_settled: "rate_settled (sim_servo reply) sim_bus"
  by (simp add: rate_settled_def sim_bus_def sim_uart_def sim_servo_def usable_timing_def half_duplex_uart_compute_timing_def Let_def
      half_duplex_uart_timing_is_usable_def)

lemma sim_forward: "clock_forward (sim_servo reply) (\<lambda>ms w. w) sl_ticks"
  by (auto simp: clock_forward_def calls_keep_def looks_keep_def sim_servo_def Let_def split: pio_op.splits)

lemma sim_sm: "hd_sm_tx (sb_uart sim_bus) < 4"
  by (simp add: sim_bus_def sim_uart_def)


lemma feetech_rate_change_locks_witness:
  "\<exists>result bus' w'. feetech_set_baudrate (sim_servo []) 1 500000 (sim_bus, quiet_line) = Some (result, bus', w')
    \<and> (sl_sent w' = [] \<or> result \<noteq> SERVO_BUS_OK \<and> (\<exists>k. sl_sent w' = concat (replicate k (byte_frame 1 0x37 0)))
      \<or> (\<exists>between. sl_sent w' = between @ byte_frame 1 0x37 1))"
proof -
  obtain result bus' w' where run: "feetech_set_baudrate (sim_servo []) 1 500000 (sim_bus, quiet_line) = Some (result, bus', w')"
    using feetech_set_baudrate_ends [OF sim_servo_laws(1,2) sim_sm, of "[]" 1 500000 quiet_line] by auto
  from feetech_rate_change_locks [OF sim_settled sim_servo_laws(3) _ run] run show ?thesis by (simp add: quiet_line_def)
qed

lemma servo_drivers_always_return_witness:
  "servo_scan (sim_servo []) (Some [0, 0]) 2 (sim_bus, w) \<noteq> None \<and> feetech_factory_reset (sim_servo []) (\<lambda>ms w. w) 1 (sim_bus, w) \<noteq> None"
  using servo_drivers_always_return [OF sim_servo_laws(1,2) sim_forward, of "(sim_bus, w)" "[]" "Some [0, 0]" 2 1 500000] sim_sm
  by simp

end
