(* ===== verification/Light.thy ===== *)
theory Light
  imports Ws2812_Color
begin

text \<open>
  Model of \<open>apps/home_led/light.c\<close>: the lamp that Home Assistant and the console both control, with
  its two fades, the saving and restoring of its settings, and the colour of a colour temperature. Times are the
  wrapping 32-bit millisecond counter. A C enumeration read from flash can hold any value, so the
  effect and the colour mode are their codes. The signed values of a fade are integers: the
  invariant bounds them by 500, and the largest product by \<open>2^19\<close>.
\<close>

subsection \<open>Effects and modes\<close>

abbreviation (input) "LIGHT_FADE_BRIGHTNESS_MS \<equiv> (3000 :: u32)"
abbreviation (input) "LIGHT_FADE_MIREDS_MS \<equiv> (4000 :: u32)"
abbreviation (input) "LIGHT_MIREDS_MIN \<equiv> (153 :: u16)"
abbreviation (input) "LIGHT_MIREDS_MAX \<equiv> (500 :: u16)"
abbreviation (input) "LIGHT_DEFAULT_BRIGHTNESS \<equiv> (128 :: u8)"
abbreviation (input) "LIGHT_DEFAULT_MIREDS \<equiv> (333 :: u16)"

type_synonym light_effect_t = u32
type_synonym light_color_mode_t = u32

abbreviation (input) "LIGHT_EFFECT_SOLID \<equiv> (0 :: light_effect_t)"
abbreviation (input) "LIGHT_EFFECT_RAINBOW \<equiv> (1 :: light_effect_t)"
abbreviation (input) "LIGHT_EFFECT_TWINKLE \<equiv> (2 :: light_effect_t)"
abbreviation (input) "LIGHT_EFFECT_WIPE \<equiv> (3 :: light_effect_t)"
abbreviation (input) "LIGHT_EFFECT_BREATHING \<equiv> (4 :: light_effect_t)"
abbreviation (input) "LIGHT_EFFECT_COUNT \<equiv> (5 :: light_effect_t)"
abbreviation (input) "LIGHT_COLOR_MODE_RGB \<equiv> (0 :: light_color_mode_t)"
abbreviation (input) "LIGHT_COLOR_MODE_TEMP \<equiv> (1 :: light_color_mode_t)"

definition effect_names :: "string list" where
  "effect_names = [''Solid'', ''Rainbow'', ''Twinkle'', ''Wipe'', ''Breathing'']"

definition light_effect_name :: "light_effect_t \<Rightarrow> string option" where
  "light_effect_name effect = (if LIGHT_EFFECT_COUNT \<le> effect then None else Some (effect_names ! unat effect))"

text \<open>The loop, from effect \<open>i\<close> on with the names not yet compared.\<close>

fun effect_from :: "string \<Rightarrow> nat \<Rightarrow> string list \<Rightarrow> light_effect_t option" where
  "effect_from name i [] = None"
| "effect_from name i (n # ns) = (if name = n then Some (of_nat i) else effect_from name (Suc i) ns)"

definition light_effect_from_name :: "string option \<Rightarrow> bool \<Rightarrow> light_effect_t option" where
  "light_effect_from_name name has_out =
     (case name of
        None \<Rightarrow> None
      | Some s \<Rightarrow> if has_out then effect_from s 0 effect_names else None)"

definition light_color_mode_name :: "light_color_mode_t \<Rightarrow> string" where
  "light_color_mode_name mode = (if mode = LIGHT_COLOR_MODE_TEMP then ''color_temp'' else ''rgb'')"

subsection \<open>Ramps\<close>

record light_ramp_t =
  ramp_active :: bool
  ramp_start_ms :: u32
  ramp_duration_ms :: u32
  ramp_from :: int
  ramp_to :: int
  ramp_current :: int

abbreviation (input) "LIGHT_EASE_ONE \<equiv> (1024 :: int)"

definition light_ease :: "u16 \<Rightarrow> u16" where
  "light_ease t =
     (if t = 0 then 0
      else if 1024 \<le> t then 1024
      else
        (let square = uint t * uint t;
             numerator = 3 * square * LIGHT_EASE_ONE - 2 * square * uint t
         in word_of_int (numerator sdiv (LIGHT_EASE_ONE * LIGHT_EASE_ONE))))"

definition smoothstep :: "int \<Rightarrow> int" where
  "smoothstep t = (if t \<le> 0 then 0 else if LIGHT_EASE_ONE \<le> t then LIGHT_EASE_ONE else uint (light_ease (word_of_int t)))"

definition ramp_set :: "int \<Rightarrow> light_ramp_t" where
  "ramp_set v = \<lparr>ramp_active = False, ramp_start_ms = 0, ramp_duration_ms = 0, ramp_from = v, ramp_to = v, ramp_current = v\<rparr>"

definition ramp_start :: "int \<Rightarrow> u32 \<Rightarrow> u32 \<Rightarrow> light_ramp_t \<Rightarrow> light_ramp_t" where
  "ramp_start target duration_ms now_ms ramp =
     (if target = ramp_current ramp \<or> duration_ms = 0 then ramp_set target
      else ramp\<lparr>ramp_active := True, ramp_start_ms := now_ms, ramp_duration_ms := duration_ms,
             ramp_from := ramp_current ramp, ramp_to := target\<rparr>)"

definition ramp_tick :: "u32 \<Rightarrow> light_ramp_t \<Rightarrow> light_ramp_t" where
  "ramp_tick now_ms ramp =
     (if \<not> ramp_active ramp then ramp
      else
        (let elapsed = now_ms - ramp_start_ms ramp in
         if sint elapsed < 0 then ramp
         else if ramp_duration_ms ramp \<le> elapsed then ramp_set (ramp_to ramp)
         else
           (let t = int (unat elapsed * 1024 div unat (ramp_duration_ms ramp));
                eased = smoothstep t
            in ramp\<lparr>ramp_current := ramp_from ramp + ((ramp_to ramp - ramp_from ramp) * eased) sdiv LIGHT_EASE_ONE\<rparr>)))"

subsection \<open>The model\<close>

record light_t =
  light_on :: bool
  light_brightness :: u8
  light_color :: ws2812_color_t
  light_mireds :: u16
  light_color_mode :: light_color_mode_t
  light_effect :: light_effect_t
  brightness_ramp :: light_ramp_t
  mireds_ramp :: light_ramp_t
  light_generation :: u32

record light_settings_t =
  set_on :: bool
  set_brightness :: u8
  set_color :: ws2812_color_t
  set_mireds :: u16
  set_color_mode :: light_color_mode_t
  set_effect :: light_effect_t

definition changed :: "light_t \<Rightarrow> light_t" where
  "changed light = light\<lparr>light_generation := light_generation light + 1\<rparr>"

definition light_init :: "u32 \<Rightarrow> light_t" where
  "light_init now_ms =
     \<lparr>light_on = False, light_brightness = LIGHT_DEFAULT_BRIGHTNESS, light_color = ws2812_rgb 255 255 255,
      light_mireds = LIGHT_DEFAULT_MIREDS, light_color_mode = LIGHT_COLOR_MODE_TEMP, light_effect = LIGHT_EFFECT_SOLID,
      brightness_ramp = ramp_set (uint LIGHT_DEFAULT_BRIGHTNESS), mireds_ramp = ramp_set (uint LIGHT_DEFAULT_MIREDS),
      light_generation = 1\<rparr>"

definition light_set_power :: "bool \<Rightarrow> u32 \<Rightarrow> light_t \<Rightarrow> light_t" where
  "light_set_power on now_ms light =
     (if light_on light = on then light
      else
        (let light = light\<lparr>light_on := on\<rparr>;
             light = (if on then light\<lparr>brightness_ramp := ramp_start (uint (light_brightness light))
                            LIGHT_FADE_BRIGHTNESS_MS now_ms (ramp_set 0)\<rparr> else light)
         in changed light))"

definition light_set_brightness :: "u8 \<Rightarrow> u32 \<Rightarrow> light_t \<Rightarrow> light_t" where
  "light_set_brightness brightness now_ms light =
     (if light_brightness light = brightness then light
      else changed (light\<lparr>light_brightness := brightness,
        brightness_ramp := ramp_start (uint brightness) LIGHT_FADE_BRIGHTNESS_MS now_ms (brightness_ramp light)\<rparr>))"

definition light_set_color :: "ws2812_color_t \<Rightarrow> u32 \<Rightarrow> light_t \<Rightarrow> light_t" where
  "light_set_color color now_ms light =
     (if light_color_mode light = LIGHT_COLOR_MODE_RGB \<and> color_r (light_color light) = color_r color
         \<and> color_g (light_color light) = color_g color \<and> color_b (light_color light) = color_b color
      then light
      else changed (light\<lparr>light_color := ws2812_rgb (color_r color) (color_g color) (color_b color),
        light_color_mode := LIGHT_COLOR_MODE_RGB\<rparr>))"

definition light_set_mireds :: "u16 \<Rightarrow> u32 \<Rightarrow> light_t \<Rightarrow> light_t" where
  "light_set_mireds mireds now_ms light =
     (let mireds = (if mireds < LIGHT_MIREDS_MIN then LIGHT_MIREDS_MIN
                    else if LIGHT_MIREDS_MAX < mireds then LIGHT_MIREDS_MAX else mireds)
      in if light_color_mode light = LIGHT_COLOR_MODE_TEMP \<and> light_mireds light = mireds then light
         else changed (light\<lparr>light_mireds := mireds, light_color_mode := LIGHT_COLOR_MODE_TEMP,
           mireds_ramp := ramp_start (uint mireds) LIGHT_FADE_MIREDS_MS now_ms (mireds_ramp light)\<rparr>))"

definition light_set_effect :: "light_effect_t \<Rightarrow> u32 \<Rightarrow> light_t \<Rightarrow> bool \<times> light_t" where
  "light_set_effect effect now_ms light =
     (if LIGHT_EFFECT_COUNT \<le> effect then (False, light)
      else if light_effect light = effect then (True, light)
      else (True, changed (light\<lparr>light_effect := effect\<rparr>)))"

definition light_capture :: "light_t \<Rightarrow> light_settings_t" where
  "light_capture light =
     \<lparr>set_on = light_on light, set_brightness = light_brightness light, set_color = light_color light,
      set_mireds = light_mireds light, set_color_mode = light_color_mode light, set_effect = light_effect light\<rparr>"

definition light_restore :: "light_settings_t option \<Rightarrow> u32 \<Rightarrow> light_t" where
  "light_restore settings now_ms =
     (let light = light_init now_ms in
      case settings of
        None \<Rightarrow> light
      | Some s \<Rightarrow>
          (let c = set_color s;
               light = light\<lparr>light_on := set_on s, light_brightness := set_brightness s,
                 light_color := ws2812_rgb (color_r c) (color_g c) (color_b c),
                 light_mireds := (if LIGHT_MIREDS_MIN \<le> set_mireds s \<and> set_mireds s \<le> LIGHT_MIREDS_MAX
                                  then set_mireds s else LIGHT_DEFAULT_MIREDS),
                 light_color_mode := (if set_color_mode s = LIGHT_COLOR_MODE_RGB then LIGHT_COLOR_MODE_RGB
                                      else LIGHT_COLOR_MODE_TEMP),
                 light_effect := (if set_effect s < LIGHT_EFFECT_COUNT then set_effect s else LIGHT_EFFECT_SOLID)\<rparr>
           in light\<lparr>brightness_ramp := ramp_set (uint (light_brightness light)),
                mireds_ramp := ramp_set (uint (light_mireds light)), light_generation := 1\<rparr>))"

definition light_tick :: "u32 \<Rightarrow> light_t \<Rightarrow> light_t" where
  "light_tick now_ms light =
     light\<lparr>brightness_ramp := ramp_tick now_ms (brightness_ramp light),
       mireds_ramp := ramp_tick now_ms (mireds_ramp light)\<rparr>"

definition light_is_fading :: "light_t option \<Rightarrow> bool" where
  "light_is_fading light =
     (case light of None \<Rightarrow> False | Some l \<Rightarrow> ramp_active (brightness_ramp l) \<or> ramp_active (mireds_ramp l))"

definition light_current_brightness :: "light_t option \<Rightarrow> u8" where
  "light_current_brightness light =
     (case light of
        None \<Rightarrow> 0
      | Some l \<Rightarrow>
          (let v = ramp_current (brightness_ramp l)
           in word_of_int (if v < 0 then 0 else if 255 < v then 255 else v)))"

definition light_current_mireds :: "light_t option \<Rightarrow> u16" where
  "light_current_mireds light =
     (case light of
        None \<Rightarrow> LIGHT_MIREDS_MIN
      | Some l \<Rightarrow>
          (let v = ramp_current (mireds_ramp l)
           in if v < 153 then LIGHT_MIREDS_MIN else if 500 < v then LIGHT_MIREDS_MAX else word_of_int v))"

subsection \<open>Colour temperature\<close>

definition mireds_table :: "(u8 \<times> u8 \<times> u8) list" where
  "mireds_table =
    [(255, 250, 255), (255, 241, 229), (255, 228, 206), (255, 216, 185), (255, 206, 166),
     (255, 196, 148), (255, 188, 131), (255, 180, 115), (255, 172, 100), (255, 165, 85),
     (255, 159, 70), (255, 153, 56), (255, 147, 42), (255, 142, 28), (255, 137, 14)]"

definition interpolate :: "u8 \<Rightarrow> u8 \<Rightarrow> nat \<Rightarrow> nat \<Rightarrow> u8" where
  "interpolate from_v to_v position span =
     (let delta = uint to_v - uint from_v in word_of_int (uint from_v + (delta * int position) sdiv int span))"

definition light_color_from_mireds :: "u16 \<Rightarrow> ws2812_color_t" where
  "light_color_from_mireds mireds =
     (let mireds = (if mireds < LIGHT_MIREDS_MIN then LIGHT_MIREDS_MIN
                    else if LIGHT_MIREDS_MAX < mireds then LIGHT_MIREDS_MAX else mireds);
          offset = unat mireds - 150;
          index = offset div 25;
          position = offset mod 25
      in if 15 - 1 \<le> index then (case mireds_table ! 14 of (r, g, b) \<Rightarrow> ws2812_rgb r g b)
         else
           (case (mireds_table ! index, mireds_table ! (index + 1)) of
              ((r, g, b), (r', g', b')) \<Rightarrow>
                ws2812_rgb (interpolate r r' position 25) (interpolate g g' position 25) (interpolate b b' position 25)))"

definition light_current_color :: "light_t option \<Rightarrow> ws2812_color_t" where
  "light_current_color light =
     (case light of
        None \<Rightarrow> ws2812_rgb 0 0 0
      | Some l \<Rightarrow>
          if light_color_mode l = LIGHT_COLOR_MODE_TEMP then light_color_from_mireds (light_current_mireds (Some l))
          else light_color l)"

subsection \<open>The easing curve\<close>

definition eased :: "int \<Rightarrow> int" where
  "eased x = (3 * (x * x) * 1024 - 2 * (x * x) * x) div 1048576"

lemma eased_ends: "eased 0 = 0" "eased 1024 = 1024"
  by (simp_all add: eased_def)

lemma cubic_step:
  fixes x y n :: int
  assumes "0 \<le> x" and "x \<le> y" and "y \<le> n"
  shows "3 * (x * x) * n - 2 * (x * x) * x \<le> 3 * (y * y) * n - 2 * (y * y) * y"
proof -
  have "(3 * (y * y) * n - 2 * (y * y) * y) - (3 * (x * x) * n - 2 * (x * x) * x)
      = (y - x) * (3 * n * (x + y) - 2 * (x * x + x * y + y * y))"
    by (simp add: algebra_simps)
  moreover have "0 \<le> 3 * n * (x + y) - 2 * (x * x + x * y + y * y)"
  proof -
    have "y * (x + y) \<le> n * (x + y)" using assms by (intro mult_right_mono) simp_all
    moreover have "x * x \<le> y * x" "x * x \<le> y * y" using assms by (auto intro: mult_mono)
    ultimately show ?thesis by (simp add: algebra_simps)
  qed
  ultimately show ?thesis using assms(2) by (metis diff_ge_0_iff_ge mult_nonneg_nonneg)
qed

lemma eased_mono: "0 \<le> x \<Longrightarrow> x \<le> y \<Longrightarrow> y \<le> 1024 \<Longrightarrow> eased x \<le> eased y"
  unfolding eased_def by (intro zdiv_mono1 cubic_step) simp_all

lemma eased_range: "0 \<le> x \<Longrightarrow> x \<le> 1024 \<Longrightarrow> 0 \<le> eased x \<and> eased x \<le> 1024"
  using eased_mono [of 0 x] eased_mono [of x 1024] by (simp add: eased_ends)

lemma light_ease_eq: "uint (light_ease t) = eased (min (uint t) 1024)"
proof -
  have t: "t = 0 \<longleftrightarrow> uint t = 0" "1024 \<le> t \<longleftrightarrow> 1024 \<le> uint t" by (simp_all add: word_le_def uint_0_iff)
  consider "t = 0" | "1024 \<le> t" | "t \<noteq> 0" "\<not> 1024 \<le> t" by blast
  then show ?thesis
  proof cases
    case 3
    then have range: "0 \<le> uint t" "uint t < 1024" using t by simp_all
    have e: "0 \<le> eased (uint t)" "eased (uint t) \<le> 1024" using eased_range [of "uint t"] range by simp_all
    have "0 \<le> 3 * (uint t * uint t) * 1024 - 2 * (uint t * uint t) * uint t"
      using cubic_step [of 0 "uint t" 1024] range by simp
    then have "light_ease t = word_of_int (eased (uint t))"
      using 3 by (simp add: light_ease_def Let_def eased_def signed_divide_int_def sgn_if)
    then show ?thesis using e range by (simp add: uint_word_of_int min_def)
  qed (use t in \<open>simp_all add: light_ease_def eased_ends min_def\<close>)
qed

lemma smoothstep_eq: "0 \<le> t \<Longrightarrow> t \<le> 1024 \<Longrightarrow> smoothstep t = eased t"
  using light_ease_eq [of "word_of_int t"]
  by (auto simp: smoothstep_def eased_ends uint_word_of_int min_def)

text \<open>The curve: its ends, and no step back anywhere.\<close>

lemma light_ease_monotone: "s \<le> t \<Longrightarrow> light_ease s \<le> light_ease t"
  unfolding word_le_def light_ease_eq by (intro eased_mono) simp_all

subsection \<open>Fades\<close>

definition fade_at :: "light_ramp_t \<Rightarrow> nat \<Rightarrow> int" where
  "fade_at r e =
     ramp_from r + ((ramp_to r - ramp_from r) * eased (int (e * 1024 div unat (ramp_duration_ms r)))) sdiv 1024"

lemma fade_time: "e < d \<Longrightarrow> 0 \<le> int (e * 1024 div d) \<and> int (e * 1024 div d) \<le> 1024"
  using div_le_mono [of "e * 1024" "d * 1024" d] by simp

lemma sdiv_nonneg: "0 \<le> a \<Longrightarrow> a sdiv 1024 = a div (1024 :: int)"
  by (cases "a = 0") (simp_all add: signed_divide_int_def)

lemma sdiv_minus: "(- a) sdiv 1024 = - (a sdiv (1024 :: int))"
  by (simp add: signed_divide_int_def sgn_if)

lemma sdiv_between:
  fixes d p :: int
  assumes "0 \<le> p" and "p \<le> 1024"
  shows "0 \<le> d \<Longrightarrow> 0 \<le> (d * p) sdiv 1024 \<and> (d * p) sdiv 1024 \<le> d"
    and "d \<le> 0 \<Longrightarrow> d \<le> (d * p) sdiv 1024 \<and> (d * p) sdiv 1024 \<le> 0"
proof -
  have pos: "0 \<le> (d * p) sdiv 1024 \<and> (d * p) sdiv 1024 \<le> d" if "0 \<le> d" for d
  proof -
    have "d * p \<le> d * 1024" using that assms by (intro mult_left_mono) simp_all
    then have "(d * p) div 1024 \<le> (d * 1024) div 1024" by (intro zdiv_mono1) simp_all
    moreover have "0 \<le> d * p" using that assms by simp
    ultimately show ?thesis by (simp only: sdiv_nonneg) (simp add: pos_imp_zdiv_nonneg_iff)
  qed
  then show "0 \<le> d \<Longrightarrow> 0 \<le> (d * p) sdiv 1024 \<and> (d * p) sdiv 1024 \<le> d" by blast
  have "(- d * p) sdiv 1024 = - ((d * p) sdiv 1024)" using sdiv_minus [of "d * p"] by simp
  then show "d \<le> 0 \<Longrightarrow> d \<le> (d * p) sdiv 1024 \<and> (d * p) sdiv 1024 \<le> 0" using pos [of "- d"] by simp
qed

lemma sdiv_mono:
  fixes d p q :: int
  assumes "0 \<le> p" and "p \<le> q"
  shows "0 \<le> d \<Longrightarrow> (d * p) sdiv 1024 \<le> (d * q) sdiv 1024" and "d \<le> 0 \<Longrightarrow> (d * q) sdiv 1024 \<le> (d * p) sdiv 1024"
proof -
  have pos: "(d * p) sdiv 1024 \<le> (d * q) sdiv 1024" if "0 \<le> d" for d
  proof -
    have "d * p \<le> d * q" "0 \<le> d * p" "0 \<le> d * q" using that assms by (simp_all add: mult_left_mono)
    then show ?thesis by (simp add: sdiv_nonneg zdiv_mono1)
  qed
  then show "0 \<le> d \<Longrightarrow> (d * p) sdiv 1024 \<le> (d * q) sdiv 1024" by blast
  have "(- d * p) sdiv 1024 = - ((d * p) sdiv 1024)" for p using sdiv_minus [of "d * p"] by simp
  then show "d \<le> 0 \<Longrightarrow> (d * q) sdiv 1024 \<le> (d * p) sdiv 1024" using pos [of "- d"] by simp
qed

lemma fade_between:
  assumes "e < unat (ramp_duration_ms r)"
  shows "min (ramp_from r) (ramp_to r) \<le> fade_at r e \<and> fade_at r e \<le> max (ramp_from r) (ramp_to r)"
proof -
  let ?p = "eased (int (e * 1024 div unat (ramp_duration_ms r)))"
  have "0 \<le> ?p" "?p \<le> 1024" using eased_range fade_time [OF assms] by blast+
  then show ?thesis
    using sdiv_between [of ?p "ramp_to r - ramp_from r"] by (auto simp: fade_at_def min_def max_def)
qed

lemma fade_mono:
  assumes "e \<le> e'" and "e' < unat (ramp_duration_ms r)"
  shows "ramp_from r \<le> ramp_to r \<Longrightarrow> fade_at r e \<le> fade_at r e'"
    and "ramp_to r \<le> ramp_from r \<Longrightarrow> fade_at r e' \<le> fade_at r e"
proof -
  let ?t = "\<lambda>e. int (e * 1024 div unat (ramp_duration_ms r))"
  have "e < unat (ramp_duration_ms r)" using assms by simp
  then have "0 \<le> ?t e" "?t e' \<le> 1024" using fade_time [of e] fade_time [OF assms(2)] by blast+
  moreover have "?t e \<le> ?t e'" using assms(1) by (simp add: div_le_mono)
  ultimately have "0 \<le> eased (?t e)" "eased (?t e) \<le> eased (?t e')"
    using eased_mono eased_range by (meson order_trans)+
  then show "ramp_from r \<le> ramp_to r \<Longrightarrow> fade_at r e \<le> fade_at r e'"
    "ramp_to r \<le> ramp_from r \<Longrightarrow> fade_at r e' \<le> fade_at r e"
    using sdiv_mono by (simp_all add: fade_at_def)
qed

text \<open>A tick, \<open>e\<close> milliseconds after the start of an active ramp.\<close>

lemma ramp_tick_after:
  assumes "ramp_active r" and "e < 2 ^ 31"
  shows "ramp_tick (ramp_start_ms r + of_nat e) r =
    (if unat (ramp_duration_ms r) \<le> e then ramp_set (ramp_to r) else r\<lparr>ramp_current := fade_at r e\<rparr>)"
proof -
  have e: "unat (of_nat e :: u32) = e" using assms(2) by (intro unat_of_nat_lt) simp
  have "sint (of_nat e :: u32) = int e"
    using assms(2) e by (simp add: sint_uint uint_nat signed_take_bit_int_eq_self)
  moreover have "smoothstep (int (e * 1024 div unat (ramp_duration_ms r))) = eased (int (e * 1024 div unat (ramp_duration_ms r)))"
    if "\<not> unat (ramp_duration_ms r) \<le> e"
    using fade_time [of e "unat (ramp_duration_ms r)"] that by (intro smoothstep_eq) simp_all
  ultimately show ?thesis
    using assms(1) e by (simp add: ramp_tick_def Let_def fade_at_def word_le_nat_alt)
qed

text \<open>Ticks do not add up: however often a fade was ticked before, a tick shows where the fade is at its time.\<close>

lemma ramp_tick_again:
  assumes "ramp_active r" and "e \<le> e'" and "e' < 2 ^ 31"
  shows "ramp_tick (ramp_start_ms r + of_nat e') (ramp_tick (ramp_start_ms r + of_nat e) r)
    = ramp_tick (ramp_start_ms r + of_nat e') r"
proof -
  have e: "e < 2 ^ 31" using assms by simp
  have twice: "ramp_tick (ramp_start_ms r + of_nat e') (r\<lparr>ramp_current := v\<rparr>) = ramp_tick (ramp_start_ms r + of_nat e') r" for v
    using ramp_tick_after [of "r\<lparr>ramp_current := v\<rparr>" e'] ramp_tick_after [of r e'] assms(1,3)
    by (simp add: fade_at_def)
  show ?thesis
  proof (cases "unat (ramp_duration_ms r) \<le> e")
    case True
    then show ?thesis using ramp_tick_after [OF assms(1) e] ramp_tick_after [OF assms(1,3)] assms(2)
      by (simp add: ramp_tick_def ramp_set_def)
  qed (use ramp_tick_after [OF assms(1) e] twice in simp)
qed



subsection \<open>Well-formed lights\<close>

definition ramp_ok :: "int \<Rightarrow> int \<Rightarrow> int \<Rightarrow> light_ramp_t \<Rightarrow> bool" where
  "ramp_ok lo hi target r \<longleftrightarrow> lo \<le> ramp_from r \<and> ramp_from r \<le> hi \<and> lo \<le> ramp_current r \<and> ramp_current r \<le> hi
     \<and> ramp_to r = target \<and> (\<not> ramp_active r \<longrightarrow> ramp_current r = target)"

lemma ramp_ok_set: "lo \<le> v \<Longrightarrow> v \<le> hi \<Longrightarrow> ramp_ok lo hi v (ramp_set v)"
  by (simp add: ramp_ok_def ramp_set_def)

lemma ramp_ok_start: "ramp_ok lo hi old r \<Longrightarrow> lo \<le> v \<Longrightarrow> v \<le> hi \<Longrightarrow> ramp_ok lo hi v (ramp_start v d now r)"
  by (auto simp: ramp_ok_def ramp_start_def ramp_set_def)

lemma not_negative:
  fixes x :: u32
  assumes "\<not> sint x < 0"
  shows "unat x < 2 ^ 31"
proof -
  have "\<not> bit x 31" using assms bit_last_iff [of x] by simp
  then have "\<not> bit (unat x) 31" by (simp add: bit_unsigned_iff)
  then have "even (unat x div 2147483648)" by (simp add: bit_iff_odd)
  moreover have "unat x < 2 * 2147483648" using unsigned_less [of x, where ?'a = nat] by simp
  then have "unat x div 2147483648 < 2" by (rule less_mult_imp_div_less)
  ultimately have "unat x div 2147483648 = 0" by (auto elim: evenE)
  then show ?thesis by (simp add: div_eq_0_iff)
qed

lemma ramp_ok_tick:
  assumes "ramp_ok lo hi v r" and "lo \<le> v" and "v \<le> hi"
  shows "ramp_ok lo hi v (ramp_tick now r)"
proof (cases "ramp_active r")
  case True
  define e where "e = unat (now - ramp_start_ms r)"
  have now: "now = ramp_start_ms r + of_nat e" by (simp add: e_def)
  show ?thesis
  proof (cases "sint (now - ramp_start_ms r) < 0")
    case False
    then have "e < 2 ^ 31" using not_negative by (simp add: e_def)
    then show ?thesis
      using ramp_tick_after [OF True, of e] fade_between [of e r] assms ramp_ok_set [of lo v hi]
      unfolding now [symmetric] by (auto simp: ramp_ok_def True not_le split: if_splits)
  qed (use assms True in \<open>simp add: ramp_tick_def Let_def\<close>)
qed (use assms in \<open>simp add: ramp_tick_def\<close>)

definition light_ok :: "light_t \<Rightarrow> bool" where
  "light_ok l \<longleftrightarrow> light_color_mode l \<le> 1 \<and> light_effect l < LIGHT_EFFECT_COUNT \<and> color_w (light_color l) = 0
     \<and> LIGHT_MIREDS_MIN \<le> light_mireds l \<and> light_mireds l \<le> LIGHT_MIREDS_MAX
     \<and> ramp_ok 0 255 (uint (light_brightness l)) (brightness_ramp l)
     \<and> ramp_ok 153 500 (uint (light_mireds l)) (mireds_ramp l)"

datatype light_call = Power bool u32 | Brightness u8 u32 | Color ws2812_color_t u32 | Mireds u16 u32
  | Effect light_effect_t u32 | Tick u32

primrec light_step :: "light_call \<Rightarrow> light_t \<Rightarrow> light_t" where
  "light_step (Power on now) l = light_set_power on now l"
| "light_step (Brightness b now) l = light_set_brightness b now l"
| "light_step (Color c now) l = light_set_color c now l"
| "light_step (Mireds m now) l = light_set_mireds m now l"
| "light_step (Effect e now) l = snd (light_set_effect e now l)"
| "light_step (Tick now) l = light_tick now l"

lemma byte_range: "0 \<le> uint (b :: u8) \<and> uint b \<le> 255"
  using uint_lt2p [of b] by simp

lemma mireds_range: "LIGHT_MIREDS_MIN \<le> m \<Longrightarrow> m \<le> LIGHT_MIREDS_MAX \<Longrightarrow> 153 \<le> uint m \<and> uint m \<le> 500"
  by (simp add: word_le_def)

lemma light_ok_restore: "light_ok (light_restore s now)"
proof (cases s)
  case None
  then show ?thesis by (simp add: light_restore_def light_init_def light_ok_def ramp_ok_def ramp_set_def ws2812_rgb_def)
next
  case (Some t)
  have "153 \<le> uint (if LIGHT_MIREDS_MIN \<le> set_mireds t \<and> set_mireds t \<le> LIGHT_MIREDS_MAX
      then set_mireds t else LIGHT_DEFAULT_MIREDS) \<and> uint (if LIGHT_MIREDS_MIN \<le> set_mireds t \<and> set_mireds t \<le> LIGHT_MIREDS_MAX
      then set_mireds t else LIGHT_DEFAULT_MIREDS) \<le> 500"
    using mireds_range [of "set_mireds t"] by simp
  then show ?thesis
    using Some byte_range by (simp add: light_restore_def Let_def light_ok_def ramp_ok_set ws2812_rgb_def)
qed

lemma light_ok_changed [simp]: "light_ok (changed l) \<longleftrightarrow> light_ok l"
  by (simp add: changed_def light_ok_def)

lemma light_step_ok:
  assumes "light_ok l"
  shows "light_ok (light_step c l)"
proof (cases c)
  case (Power on now)
  then show ?thesis using assms byte_range
    by (auto simp: light_set_power_def Let_def light_ok_def changed_def intro!: ramp_ok_start [OF ramp_ok_set [where v = 0]])
next
  case (Brightness b now)
  then show ?thesis using assms byte_range
    by (auto simp: light_set_brightness_def light_ok_def changed_def intro: ramp_ok_start)
next
  case (Color col now)
  then show ?thesis using assms by (auto simp: light_set_color_def light_ok_def changed_def ws2812_rgb_def)
next
  case (Mireds m now)
  define x where "x = (if m < LIGHT_MIREDS_MIN then LIGHT_MIREDS_MIN else if LIGHT_MIREDS_MAX < m then LIGHT_MIREDS_MAX else m)"
  have x: "LIGHT_MIREDS_MIN \<le> x" "x \<le> LIGHT_MIREDS_MAX" by (auto simp: x_def)
  show ?thesis using assms x mireds_range [OF x] unfolding Mireds light_step.simps light_set_mireds_def x_def [symmetric] Let_def
    by (auto simp: light_ok_def changed_def intro: ramp_ok_start)
next
  case (Effect e now)
  then show ?thesis using assms by (auto simp: light_set_effect_def light_ok_def changed_def)
next
  case (Tick now)
  have "153 \<le> uint (light_mireds l) \<and> uint (light_mireds l) \<le> 500"
    using assms mireds_range by (simp add: light_ok_def)
  then show ?thesis using Tick assms byte_range ramp_ok_tick by (auto simp: light_tick_def light_ok_def)
qed

lemma light_run_ok: "light_ok l \<Longrightarrow> light_ok (fold light_step cs l)"
  by (induction cs arbitrary: l) (simp_all add: light_step_ok)

lemma light_mode_cases: "light_ok l \<Longrightarrow> light_color_mode l = 0 \<or> light_color_mode l = 1"
proof -
  assume "light_ok l"
  then have "unat (light_color_mode l) \<le> 1" by (simp add: light_ok_def word_le_nat_alt)
  then have "unat (light_color_mode l) = 0 \<or> unat (light_color_mode l) = 1" by linarith
  then show ?thesis by (simp add: word_eq_unat_iff)
qed

text \<open>A light is always well formed. Whatever bytes the flash held and whatever commands and ticks followed,
  the effect has a name, the mode is one of the two, the temperature is within its range, the
  fades stay where the code that shows them need not clamp, and a light that is not fading shows
  exactly the brightness and the temperature it was asked for.
\<close>

theorem light_always_valid:
  fixes stored :: "light_settings_t option" and cs :: "light_call list" and now :: u32
  defines "l \<equiv> fold light_step cs (light_restore stored now)"
  shows "light_effect_name (light_effect l) \<noteq> None \<and> light_color_mode l \<in> {0, 1}
    \<and> LIGHT_MIREDS_MIN \<le> light_mireds l \<and> light_mireds l \<le> LIGHT_MIREDS_MAX
    \<and> uint (light_current_brightness (Some l)) = ramp_current (brightness_ramp l)
    \<and> uint (light_current_mireds (Some l)) = ramp_current (mireds_ramp l)
    \<and> (light_is_fading (Some l) \<or> light_current_brightness (Some l) = light_brightness l
      \<and> light_current_mireds (Some l) = light_mireds l)"
proof (intro conjI)
  have ok: "light_ok l" unfolding l_def by (rule light_run_ok [OF light_ok_restore])
  then show "light_effect_name (light_effect l) \<noteq> None" by (simp add: light_ok_def light_effect_name_def not_le)
  show "light_color_mode l \<in> {0, 1}" using light_mode_cases [OF ok] by simp
  show "LIGHT_MIREDS_MIN \<le> light_mireds l" "light_mireds l \<le> LIGHT_MIREDS_MAX" using ok by (simp_all add: light_ok_def)
  have b: "0 \<le> ramp_current (brightness_ramp l)" "ramp_current (brightness_ramp l) \<le> 255"
    and m: "153 \<le> ramp_current (mireds_ramp l)" "ramp_current (mireds_ramp l) \<le> 500"
    using ok by (simp_all add: light_ok_def ramp_ok_def)
  show shown_b: "uint (light_current_brightness (Some l)) = ramp_current (brightness_ramp l)"
    using b by (simp add: light_current_brightness_def Let_def uint_word_of_int)
  show shown_m: "uint (light_current_mireds (Some l)) = ramp_current (mireds_ramp l)"
    using m by (simp add: light_current_mireds_def Let_def uint_word_of_int)
  show "light_is_fading (Some l) \<or> light_current_brightness (Some l) = light_brightness l
      \<and> light_current_mireds (Some l) = light_mireds l"
    using ok shown_b shown_m unfolding light_is_fading_def light_ok_def ramp_ok_def by (simp add: word_uint_eq_iff) blast
qed

text \<open>Saved settings come back as they were, and the light starts out showing them.\<close>

lemma light_restore_capture:
  assumes "light_ok l"
  shows "light_capture (light_restore (Some (light_capture l)) now) = light_capture l"
    and "\<not> light_is_fading (Some (light_restore (Some (light_capture l)) now))"
proof -
  have "light_color_mode l = 0 \<or> light_color_mode l = 1"
    using light_mode_cases [OF assms] .
  then show "light_capture (light_restore (Some (light_capture l)) now) = light_capture l"
    using assms by (auto simp: light_capture_def light_restore_def Let_def light_ok_def ws2812_rgb_def)
  show "\<not> light_is_fading (Some (light_restore (Some (light_capture l)) now))"
    by (simp add: light_is_fading_def light_restore_def light_capture_def Let_def ramp_set_def)
qed

text \<open>The colour of a temperature is exact at every sample of the table that the range reaches.\<close>

lemma mireds_exact_at_samples:
  assumes "1 \<le> k" and "k \<le> 14"
  shows "light_color_from_mireds (of_nat (150 + 25 * k)) = (case mireds_table ! k of (r, g, b) \<Rightarrow> ws2812_rgb r g b)"
proof -
  have "k = 1 \<or> k = 2 \<or> k = 3 \<or> k = 4 \<or> k = 5 \<or> k = 6 \<or> k = 7 \<or> k = 8 \<or> k = 9 \<or> k = 10 \<or> k = 11 \<or> k = 12
    \<or> k = 13 \<or> k = 14" using assms by presburger
  then show ?thesis
    by (elim disjE) (simp_all add: light_color_from_mireds_def mireds_table_def interpolate_def Let_def)
qed

end
