(* ===== verification/Led_Range.thy ===== *)
theory Led_Range
  imports Prelude
begin

text \<open>
  Model of \<open>apps/home_led/led_range.c\<close>: the part of the strip that is lit, kept as a half-open slice
  counted from zero and shown to people as two inclusive ends counted from one. The lemmas show that
  every operation keeps the slice inside the strip and not empty, and what each one changes.
\<close>

record led_range_t =
  lr_begin :: u16
  lr_end :: u16
  lr_limit :: u16
  lr_generation :: u32

definition clamp_endpoint :: "led_range_t \<Rightarrow> u32 \<Rightarrow> u16" where
  "clamp_endpoint rg v =
     (if v < 1 then 1 else if ucast (lr_limit rg) < v then lr_limit rg else ucast v)"

definition led_range_init :: "u16 \<Rightarrow> led_range_t" where
  "led_range_init limit = \<lparr>lr_begin = 0, lr_end = limit, lr_limit = limit, lr_generation = 1\<rparr>"

definition led_range_restore :: "u16 \<Rightarrow> u16 \<Rightarrow> u16 \<Rightarrow> led_range_t" where
  "led_range_restore limit first final =
     (let rg = led_range_init limit in
      if limit = 0 then rg
      else if 1 \<le> first \<and> first \<le> final \<and> final \<le> limit then rg\<lparr>lr_begin := first - 1, lr_end := final\<rparr>
      else rg)"

text \<open>The write that all three setters share: nothing, or both ends and a new generation.\<close>

definition change_ends :: "u16 \<Rightarrow> u16 \<Rightarrow> led_range_t \<Rightarrow> led_range_t" where
  "change_ends b e rg =
     (if lr_begin rg \<noteq> b \<or> lr_end rg \<noteq> e
      then rg\<lparr>lr_begin := b, lr_end := e, lr_generation := lr_generation rg + 1\<rparr> else rg)"

definition led_range_set :: "u16 \<Rightarrow> u16 \<Rightarrow> led_range_t \<Rightarrow> bool \<times> led_range_t" where
  "led_range_set first final rg =
     (if lr_limit rg = 0 \<or> first < 1 \<or> final < first \<or> lr_limit rg < final then (False, rg)
      else (True, change_ends (first - 1) final rg))"

definition led_range_set_first :: "u32 \<Rightarrow> led_range_t \<Rightarrow> led_range_t" where
  "led_range_set_first first rg =
     (if lr_limit rg = 0 then rg
      else
        (let endpoint = clamp_endpoint rg first;
             b = endpoint - 1;
             e = (if lr_end rg \<le> b then endpoint else lr_end rg)
         in change_ends b e rg))"

definition led_range_set_last :: "u32 \<Rightarrow> led_range_t \<Rightarrow> led_range_t" where
  "led_range_set_last final rg =
     (if lr_limit rg = 0 then rg
      else
        (let endpoint = clamp_endpoint rg final;
             b = (if endpoint \<le> lr_begin rg then endpoint - 1 else lr_begin rg)
         in change_ends b endpoint rg))"

text \<open>The accessors; \<open>None\<close> is a missing range.\<close>

definition led_range_first :: "led_range_t option \<Rightarrow> u16" where
  "led_range_first rg = (case rg of Some r \<Rightarrow> if lr_limit r \<noteq> 0 then lr_begin r + 1 else 0 | None \<Rightarrow> 0)"

definition led_range_last :: "led_range_t option \<Rightarrow> u16" where
  "led_range_last rg = (case rg of Some r \<Rightarrow> lr_end r | None \<Rightarrow> 0)"

definition led_range_begin :: "led_range_t option \<Rightarrow> u16" where
  "led_range_begin rg = (case rg of Some r \<Rightarrow> lr_begin r | None \<Rightarrow> 0)"

definition led_range_length :: "led_range_t option \<Rightarrow> u16" where
  "led_range_length rg =
     (case rg of Some r \<Rightarrow> if lr_begin r \<le> lr_end r then lr_end r - lr_begin r else 0 | None \<Rightarrow> 0)"

subsection \<open>Well-formed ranges\<close>

definition range_ok :: "led_range_t \<Rightarrow> bool" where
  "range_ok r \<longleftrightarrow> (if lr_limit r = 0 then lr_begin r = 0 \<and> lr_end r = 0
     else lr_begin r < lr_end r \<and> lr_end r \<le> lr_limit r)"

lemma one_le: "1 \<le> (w :: u16) \<longleftrightarrow> w \<noteq> 0"
  by (simp add: word_le_nat_alt Suc_le_eq unat_gt_0)

lemma pred_word: "1 \<le> (w :: u16) \<Longrightarrow> unat (w - 1) = unat w - 1"
  by (rule unat_minus_one) auto

lemma clamp_range:
  assumes "lr_limit r \<noteq> 0"
  shows "unat (clamp_endpoint r v) = min (max 1 (unat v)) (unat (lr_limit r))"
    and "1 \<le> clamp_endpoint r v" and "clamp_endpoint r v \<le> lr_limit r"
proof -
  have limit: "1 \<le> unat (lr_limit r)" using assms by (simp add: unat_gt_0 Suc_le_eq)
  have lim: "unat (ucast (lr_limit r) :: u32) = unat (lr_limit r)"
    using unsigned_less [of "lr_limit r", where ?'a = nat] by (simp add: unsigned_ucast_eq take_bit_nat_eq_self)
  have "unat (ucast v :: u16) = unat v" if "unat v \<le> unat (lr_limit r)"
    using that unsigned_less [of "lr_limit r", where ?'a = nat] by (simp add: unsigned_ucast_eq take_bit_nat_eq_self)
  then show e: "unat (clamp_endpoint r v) = min (max 1 (unat v)) (unat (lr_limit r))"
    using limit by (auto simp: clamp_endpoint_def word_less_nat_alt lim)
  then show "1 \<le> clamp_endpoint r v" "clamp_endpoint r v \<le> lr_limit r"
    using limit by (simp_all add: word_le_nat_alt)
qed

lemma range_ok_init [simp]: "range_ok (led_range_init limit)" "range_ok (led_range_restore limit first final)"
proof -
  show "range_ok (led_range_init limit)"
    by (auto simp: range_ok_def led_range_init_def word_less_nat_alt unat_gt_0)
  then show "range_ok (led_range_restore limit first final)"
    by (auto simp: led_range_restore_def Let_def range_ok_def led_range_init_def word_less_nat_alt word_le_nat_alt
        pred_word)
qed

lemma change_ends_ok:
  assumes "lr_limit r \<noteq> 0" and "1 \<le> x" and "x \<le> e" and "e \<le> lr_limit r" and "range_ok r"
  shows "range_ok (change_ends (x - 1) e r)"
  using assms by (auto simp: range_ok_def change_ends_def word_less_nat_alt word_le_nat_alt pred_word)

lemma change_ends_simps [simp]:
  "lr_limit (change_ends b e r) = lr_limit r" "lr_begin (change_ends b e r) = b" "lr_end (change_ends b e r) = e"
  by (auto simp: change_ends_def)

lemma range_ok_set: "range_ok r \<Longrightarrow> range_ok (snd (led_range_set first final r))"
  by (auto simp: led_range_set_def not_less one_le intro!: change_ends_ok)

lemma range_ok_set_first:
  assumes "range_ok r"
  shows "range_ok (led_range_set_first v r)"
proof (cases "lr_limit r = 0")
  case False
  have "lr_end r \<le> lr_limit r" using assms False by (simp add: range_ok_def)
  moreover have "clamp_endpoint r v \<le> lr_end r" if "\<not> lr_end r \<le> clamp_endpoint r v - 1"
    using that clamp_range(2) [OF False, of v] by (simp add: word_le_nat_alt pred_word)
  ultimately show ?thesis
    using False assms clamp_range(2,3) [OF False]
    by (auto simp: led_range_set_first_def Let_def intro!: change_ends_ok)
qed (use assms in \<open>simp add: led_range_set_first_def\<close>)

lemma range_ok_set_last:
  assumes "range_ok r"
  shows "range_ok (led_range_set_last v r)"
proof (cases "lr_limit r = 0")
  case False
  let ?e = "clamp_endpoint r v"
  have c: "1 \<le> ?e" "?e \<le> lr_limit r" using clamp_range(2,3) [OF False] by simp_all
  show ?thesis
  proof (cases "?e \<le> lr_begin r")
    case True
    then show ?thesis
      using False assms c by (auto simp: led_range_set_last_def Let_def intro!: change_ends_ok)
  next
    case kept: False
    then show ?thesis
      using False c assms by (auto simp: led_range_set_last_def range_ok_def)
  qed
qed (use assms in \<open>simp add: led_range_set_last_def\<close>)

datatype range_call = Set_range u16 u16 | Set_first u32 | Set_last u32

primrec range_step :: "range_call \<Rightarrow> led_range_t \<Rightarrow> led_range_t" where
  "range_step (Set_range first final) r = snd (led_range_set first final r)"
| "range_step (Set_first v) r = led_range_set_first v r"
| "range_step (Set_last v) r = led_range_set_last v r"

lemma range_step_ok: "range_ok r \<Longrightarrow> range_ok (range_step c r) \<and> lr_limit (range_step c r) = lr_limit r"
  by (cases c) (auto simp: range_ok_set range_ok_set_first range_ok_set_last,
      auto simp: led_range_set_def led_range_set_first_def led_range_set_last_def Let_def)

lemma range_run_ok: "range_ok r \<Longrightarrow> range_ok (fold range_step cs r) \<and> lr_limit (fold range_step cs r) = lr_limit r"
  by (induction cs arbitrary: r) (simp_all add: range_step_ok)

text \<open>C36: a range is always well formed. Whatever was stored and whatever calls follow, with any arguments, on a
  strip that has LEDs the ends satisfy 1 <= first <= last <= limit, and the slice that is rendered starts at
  first - 1, has last - first + 1 LEDs and lies inside the strip.
\<close>

theorem led_range_always_valid:
  fixes limit first final :: u16 and cs :: "range_call list"
  assumes "limit \<noteq> 0"
  defines "r \<equiv> fold range_step cs (led_range_restore limit first final)"
  shows "1 \<le> led_range_first (Some r) \<and> led_range_first (Some r) \<le> led_range_last (Some r)
    \<and> led_range_last (Some r) \<le> limit
    \<and> unat (led_range_length (Some r)) = unat (led_range_last (Some r)) - unat (led_range_first (Some r)) + 1
    \<and> unat (led_range_begin (Some r)) = unat (led_range_first (Some r)) - 1
    \<and> unat (led_range_begin (Some r)) + unat (led_range_length (Some r)) \<le> unat limit"
proof -
  have "range_ok r" and limit: "lr_limit r = limit"
    using range_run_ok [of "led_range_restore limit first final" cs]
    by (auto simp: r_def) (simp add: led_range_restore_def led_range_init_def Let_def)
  then have b: "unat (lr_begin r) < unat (lr_end r)" "unat (lr_end r) \<le> unat limit"
    using assms(1) by (simp_all add: range_ok_def word_less_nat_alt word_le_nat_alt)
  have "unat (lr_begin r + 1) = unat (lr_begin r) + 1"
    using b unsigned_less [of "lr_end r", where ?'a = nat] by (simp add: unat_word_ariths(1))
  moreover have "unat (lr_end r - lr_begin r) = unat (lr_end r) - unat (lr_begin r)"
    using b by (simp add: unat_sub_if')
  ultimately show ?thesis using b limit assms(1)
    by (simp add: led_range_first_def led_range_last_def led_range_begin_def led_range_length_def word_le_nat_alt)
qed

theorem led_range_always_valid_witness:
  "led_range_first (Some (fold range_step [Set_first 400, Set_last 10] (led_range_restore 300 50 20))) \<le> 300"
  using led_range_always_valid [where cs = "[Set_first 400, Set_last 10]" and limit = 300 and first = 50 and final = 20]
    by (auto intro: order.trans)

text \<open>An end that is moved goes where it was asked, as far as the strip reaches, and takes the other end along only
  when it crosses it; the generation moves exactly when an end does.\<close>

lemma set_first_moves:
  fixes v :: u32 and r :: led_range_t
  assumes "range_ok r" and "lr_limit r \<noteq> 0"
  defines "x \<equiv> min (max 1 (unat v)) (unat (lr_limit r))" and "r' \<equiv> led_range_set_first v r"
  shows "unat (lr_begin r') + 1 = x" and "unat (lr_end r') = max x (unat (lr_end r))"
    and "lr_generation r' = lr_generation r \<longleftrightarrow> lr_begin r' = lr_begin r \<and> lr_end r' = lr_end r"
proof -
  have c: "unat (clamp_endpoint r v) = x" "1 \<le> clamp_endpoint r v"
    using clamp_range [OF assms(2), of v] by (simp_all add: x_def)
  then have p: "unat (clamp_endpoint r v - 1) + 1 = x" by (simp add: pred_word word_le_nat_alt)
  show "unat (lr_begin r') + 1 = x" "unat (lr_end r') = max x (unat (lr_end r))"
    using assms(2) c p by (auto simp: r'_def led_range_set_first_def Let_def word_le_nat_alt max_def)
  show "lr_generation r' = lr_generation r \<longleftrightarrow> lr_begin r' = lr_begin r \<and> lr_end r' = lr_end r"
    using assms(2) by (auto simp: r'_def led_range_set_first_def Let_def change_ends_def)
qed

end
