(* ===== verification/Home_Assistant.thy ===== *)
theory Home_Assistant
  imports Json_Reading Light Led_Range C_Text
begin

text \<open>
  Model of \<open>apps/home_led/ha.c\<close>: what the lamp and Home Assistant say to each other, over the models of the JSON component, of
  the light and of the lit range. A \<open>char\<close> array of \<open>ha_t\<close> is the text in it, without the terminator; a buffer
  that is written is the list of its characters, its size their number. A payload is the memory it starts
  in and its length. The two values of \<open>ha_range_endpoint_t\<close> are a datatype, so the test for others is not needed.
\<close>

subsection \<open>Topics\<close>

abbreviation (input) "HA_TOPIC_MAX_LENGTH \<equiv> (96 :: nat)"
abbreviation (input) "HA_DEVICE_ID_MAX_LENGTH \<equiv> (32 :: nat)"
abbreviation (input) "HA_STATE_BUFFER_SIZE \<equiv> (256 :: nat)"
abbreviation (input) "DEFAULT_DISCOVERY_PREFIX \<equiv> ''homeassistant''"
abbreviation (input) "HA_AVAILABLE \<equiv> ''online''"
abbreviation (input) "HA_UNAVAILABLE \<equiv> ''offline''"

record ha_t =
  ha_device_id :: string
  topic_config :: string
  topic_command :: string
  topic_state :: string
  topic_availability :: string
  topic_range_first_config :: string
  topic_range_first_command :: string
  topic_range_first_state :: string
  topic_range_last_config :: string
  topic_range_last_command :: string
  topic_range_last_state :: string

datatype ha_range_endpoint_t = HA_RANGE_FIRST | HA_RANGE_LAST

definition ha_zero :: ha_t where
  "ha_zero = \<lparr>ha_device_id = [], topic_config = [], topic_command = [], topic_state = [], topic_availability = [],
     topic_range_first_config = [], topic_range_first_command = [], topic_range_first_state = [],
     topic_range_last_config = [], topic_range_last_command = [], topic_range_last_state = []\<rparr>"

definition compose :: "nat \<Rightarrow> string \<Rightarrow> string \<Rightarrow> string \<Rightarrow> string \<Rightarrow> bool \<times> string" where
  "compose capacity topic_root component device leaf =
     (let text = topic_root @ ''/'' @ component @ ''/'' @ device @ ''/'' @ leaf
      in (0 < length text \<and> length text < capacity, truncated capacity text))"

definition compose_range_config :: "nat \<Rightarrow> string \<Rightarrow> string \<Rightarrow> string \<Rightarrow> bool \<times> string" where
  "compose_range_config capacity topic_root device endpoint =
     (let text = topic_root @ ''/number/'' @ device @ ''_range_'' @ endpoint @ ''/config''
      in (0 < length text \<and> length text < capacity, truncated capacity text))"

definition ha_init :: "string option \<Rightarrow> string option \<Rightarrow> ha_t \<Rightarrow> bool \<times> ha_t" where
  "ha_init device_id discovery_prefix ha =
     (if device_id = None \<or> device_id = Some [] then (False, ha)
      else
        (let device = the device_id in
         if HA_DEVICE_ID_MAX_LENGTH < length device then (False, ha_zero)
         else
           (let topic_root = (if discovery_prefix \<noteq> None \<and> discovery_prefix \<noteq> Some [] then the discovery_prefix
                          else DEFAULT_DISCOVERY_PREFIX);
                topic = compose (HA_TOPIC_MAX_LENGTH + 1) topic_root ''light'' device;
                range_config = compose_range_config (HA_TOPIC_MAX_LENGTH + 1) topic_root device
            in case (topic ''config'', topic ''set'', topic ''state'', topic ''status'', range_config ''first'',
                     topic ''range/first/set'', topic ''range/first/state'', range_config ''last'',
                     topic ''range/last/set'', topic ''range/last/state'') of
                 ((a, config), (b, command), (c, state), (d, availability), (e, first_config), (f, first_command),
                  (g, first_state), (h, last_config), (i, last_command), (j, last_state)) \<Rightarrow>
                   if \<not> (a \<and> b \<and> c \<and> d \<and> e \<and> f \<and> g \<and> h \<and> i \<and> j) then (False, ha_zero)
                   else
                     (True, \<lparr>ha_device_id = device, topic_config = config, topic_command = command, topic_state = state,
                        topic_availability = availability, topic_range_first_config = first_config,
                        topic_range_first_command = first_command, topic_range_first_state = first_state,
                        topic_range_last_config = last_config, topic_range_last_command = last_command,
                        topic_range_last_state = last_state\<rparr>))))"

subsection \<open>Discovery\<close>

definition write_device :: "ha_t \<Rightarrow> json_writer_t \<Rightarrow> json_writer_t" where
  "write_device ha writer =
     (let writer = json_writer_object_open writer (Some ''device'');
          writer = json_writer_array_open writer (Some ''identifiers'');
          writer = json_writer_string writer None (Some (ha_device_id ha));
          writer = json_writer_array_close writer;
          writer = json_writer_string writer (Some ''name'') (Some ''Pico LED controller'');
          writer = json_writer_string writer (Some ''manufacturer'') (Some ''pico-framework'');
          writer = json_writer_string writer (Some ''model'') (Some ''home_led'')
      in json_writer_object_close writer)"

text \<open>The last line of each of the builders: the length, or 0, and the buffer.\<close>

definition finished :: "json_writer_t \<Rightarrow> nat \<times> string option" where
  "finished writer =
     (case json_writer_finish writer of (sound, writer) \<Rightarrow> (if sound then json_writer_length writer else 0, jw_buffer writer))"

definition ha_build_discovery :: "ha_t \<Rightarrow> string option \<Rightarrow> nat \<times> string option" where
  "ha_build_discovery ha out =
     (if out = None \<or> out = Some [] \<or> ha_device_id ha = [] then (0, out)
      else
        (let unique_id = ha_device_id ha @ ''_light'';
             writer = json_writer_init out (length (the out));
             writer = json_writer_object_open writer None;
             writer = json_writer_string writer (Some ''name'') (Some ''LED strip'');
             writer = json_writer_string writer (Some ''unique_id'') (Some unique_id);
             writer = json_writer_string writer (Some ''schema'') (Some ''json'');
             writer = json_writer_string writer (Some ''command_topic'') (Some (topic_command ha));
             writer = json_writer_string writer (Some ''state_topic'') (Some (topic_state ha));
             writer = json_writer_string writer (Some ''availability_topic'') (Some (topic_availability ha));
             writer = json_writer_string writer (Some ''payload_available'') (Some HA_AVAILABLE);
             writer = json_writer_string writer (Some ''payload_not_available'') (Some HA_UNAVAILABLE);
             writer = json_writer_bool writer (Some ''brightness'') True;
             writer = json_writer_array_open writer (Some ''supported_color_modes'');
             writer = json_writer_string writer None (Some ''rgb'');
             writer = json_writer_string writer None (Some ''color_temp'');
             writer = json_writer_array_close writer;
             writer = json_writer_int writer (Some ''min_mireds'') (ucast LIGHT_MIREDS_MIN);
             writer = json_writer_int writer (Some ''max_mireds'') (ucast LIGHT_MIREDS_MAX);
             writer = json_writer_bool writer (Some ''effect'') True;
             writer = json_writer_array_open writer (Some ''effect_list'');
             writer = fold (\<lambda>i writer. json_writer_string writer None (light_effect_name i))
                        (map word_of_nat [0..<unat LIGHT_EFFECT_COUNT]) writer;
             writer = json_writer_array_close writer;
             writer = json_writer_int writer (Some ''qos'') 1;
             writer = write_device ha writer;
             writer = json_writer_object_close writer
         in finished writer))"

definition ha_build_range_discovery :: "ha_t \<Rightarrow> ha_range_endpoint_t \<Rightarrow> u16 \<Rightarrow> string option \<Rightarrow> nat \<times> string option" where
  "ha_build_range_discovery ha endpoint led_count out =
     (if out = None \<or> out = Some [] \<or> led_count = 0 \<or> ha_device_id ha = [] then (0, out)
      else
        (let first = (endpoint = HA_RANGE_FIRST);
             name = (if first then ''Range start'' else ''Range end'');
             command_topic = (if first then topic_range_first_command ha else topic_range_last_command ha);
             state_topic = (if first then topic_range_first_state ha else topic_range_last_state ha);
             unique_id = ha_device_id ha @ ''_range_'' @ (if first then ''first'' else ''last'');
             writer = json_writer_init out (length (the out));
             writer = json_writer_object_open writer None;
             writer = json_writer_string writer (Some ''name'') (Some name);
             writer = json_writer_string writer (Some ''unique_id'') (Some unique_id);
             writer = json_writer_string writer (Some ''command_topic'') (Some command_topic);
             writer = json_writer_string writer (Some ''state_topic'') (Some state_topic);
             writer = json_writer_string writer (Some ''availability_topic'') (Some (topic_availability ha));
             writer = json_writer_string writer (Some ''payload_available'') (Some HA_AVAILABLE);
             writer = json_writer_string writer (Some ''payload_not_available'') (Some HA_UNAVAILABLE);
             writer = json_writer_int writer (Some ''min'') 1;
             writer = json_writer_int writer (Some ''max'') (ucast led_count);
             writer = json_writer_int writer (Some ''step'') 1;
             writer = json_writer_string writer (Some ''mode'') (Some ''slider'');
             writer = json_writer_int writer (Some ''qos'') 1;
             writer = write_device ha writer;
             writer = json_writer_object_close writer
         in finished writer))"

subsection \<open>State\<close>

definition ha_build_state :: "light_t \<Rightarrow> string option \<Rightarrow> nat \<times> string option" where
  "ha_build_state light out =
     (if out = None \<or> out = Some [] then (0, out)
      else
        (let writer = json_writer_init out (length (the out));
             writer = json_writer_object_open writer None;
             writer = json_writer_string writer (Some ''state'') (Some (if light_on light then ''ON'' else ''OFF''));
             writer = json_writer_int writer (Some ''brightness'') (ucast (light_brightness light));
             writer = json_writer_string writer (Some ''color_mode'') (Some (light_color_mode_name (light_color_mode light)));
             writer =
               (if light_color_mode light = LIGHT_COLOR_MODE_TEMP
                then json_writer_int writer (Some ''color_temp'') (ucast (light_mireds light))
                else
                  (let writer = json_writer_object_open writer (Some ''color'');
                       writer = json_writer_int writer (Some ''r'') (ucast (color_r (light_color light)));
                       writer = json_writer_int writer (Some ''g'') (ucast (color_g (light_color light)));
                       writer = json_writer_int writer (Some ''b'') (ucast (color_b (light_color light)))
                   in json_writer_object_close writer));
             writer =
               (case light_effect_name (light_effect light) of
                  None \<Rightarrow> writer
                | Some effect \<Rightarrow> json_writer_string writer (Some ''effect'') (Some effect));
             writer = json_writer_object_close writer
         in finished writer))"

definition ha_build_range_state :: "led_range_t option \<Rightarrow> ha_range_endpoint_t \<Rightarrow> string option \<Rightarrow> nat \<times> string option" where
  "ha_build_range_state rg endpoint out =
     (if rg = None \<or> out = None \<or> out = Some [] then (0, out)
      else
        (let v = unat (if endpoint = HA_RANGE_FIRST then led_range_first rg else led_range_last rg);
             text = show_nat v;
             capacity = length (the out)
         in (if 0 < length text \<and> length text < capacity then length text else 0,
             Some (blit 0 (truncated capacity text @ [CHR 0x00]) (the out)))))"

subsection \<open>Commands\<close>

record ha_command_t =
  has_power :: bool
  cmd_power :: bool
  has_brightness :: bool
  cmd_brightness :: u8
  has_color :: bool
  cmd_color :: ws2812_color_t
  has_mireds :: bool
  cmd_mireds :: u16
  has_effect :: bool
  cmd_effect :: light_effect_t
  unknown_effect :: bool

definition ha_command_zero :: ha_command_t where
  "ha_command_zero = \<lparr>has_power = False, cmd_power = False, has_brightness = False, cmd_brightness = 0, has_color = False,
     cmd_color = ws2812_rgb 0 0 0, has_mireds = False, cmd_mireds = 0, has_effect = False, cmd_effect = 0, unknown_effect = False\<rparr>"

definition clamp_byte :: "int \<Rightarrow> u8" where
  "clamp_byte number = word_of_int (if number < 0 then 0 else if 255 < number then 255 else number)"

definition read_channel :: "string \<Rightarrow> json_value_t \<Rightarrow> string \<Rightarrow> u8 option" where
  "read_channel mem object key =
     (case json_find_in mem (Some object) (Some key) of
        (found, val) \<Rightarrow> if \<not> found then None else map_option clamp_byte (json_get_int mem (Some val)))"

fun starts_an_object :: "string \<Rightarrow> bool" where
  "starts_an_object [] \<longleftrightarrow> False"
| "starts_an_object (c # payload) \<longleftrightarrow> (if is_space c then starts_an_object payload else c = CHR ''{'')"

text \<open>The five fields, each found or left as it is.\<close>

definition read_power :: "string \<Rightarrow> nat \<Rightarrow> ha_command_t \<Rightarrow> ha_command_t" where
  "read_power payload n out =
     (case json_find_n payload (Some 0) n (Some ''state'') of
        (found, val) \<Rightarrow>
          if \<not> found then out
          else if json_string_equals payload (Some val) (Some ''ON'') then out\<lparr>has_power := True, cmd_power := True\<rparr>
          else if json_string_equals payload (Some val) (Some ''OFF'') then out\<lparr>has_power := True, cmd_power := False\<rparr>
          else out)"

definition read_brightness :: "string \<Rightarrow> nat \<Rightarrow> ha_command_t \<Rightarrow> ha_command_t" where
  "read_brightness payload n out =
     (case json_find_n payload (Some 0) n (Some ''brightness'') of
        (found, val) \<Rightarrow>
          if \<not> found then out
          else
            (case json_get_int payload (Some val) of
               None \<Rightarrow> out
             | Some number \<Rightarrow> out\<lparr>has_brightness := True, cmd_brightness := clamp_byte number\<rparr>))"

definition read_color :: "string \<Rightarrow> nat \<Rightarrow> ha_command_t \<Rightarrow> ha_command_t" where
  "read_color payload n out =
     (case json_find_n payload (Some 0) n (Some ''color'') of
        (found, val) \<Rightarrow>
          if \<not> found then out
          else
            (case (read_channel payload val ''r'', read_channel payload val ''g'', read_channel payload val ''b'') of
               (Some r, Some g, Some b) \<Rightarrow> out\<lparr>has_color := True, cmd_color := ws2812_rgb r g b\<rparr>
             | _ \<Rightarrow> out))"

definition read_mireds :: "string \<Rightarrow> nat \<Rightarrow> ha_command_t \<Rightarrow> ha_command_t" where
  "read_mireds payload n out =
     (case json_find_n payload (Some 0) n (Some ''color_temp'') of
        (found, val) \<Rightarrow>
          if \<not> found then out
          else
            (case json_get_int payload (Some val) of
               None \<Rightarrow> out
             | Some number \<Rightarrow>
                 if number \<le> 0 then out
                 else out\<lparr>has_mireds := True, cmd_mireds := word_of_int (if 65535 < number then 65535 else number)\<rparr>))"

definition read_effect :: "string \<Rightarrow> nat \<Rightarrow> ha_command_t \<Rightarrow> ha_command_t" where
  "read_effect payload n out =
     (case json_find_n payload (Some 0) n (Some ''effect'') of
        (found, val) \<Rightarrow>
          if \<not> found then out
          else
            (case json_get_string payload (Some val) (Some (replicate 40 CHR 0x00)) of
               (copied, name) \<Rightarrow>
                 if \<not> copied then out\<lparr>unknown_effect := True\<rparr>
                 else
                   (case light_effect_from_name (Some (takeWhile (\<lambda>c. c \<noteq> CHR 0x00) (the name))) True of
                      None \<Rightarrow> out\<lparr>unknown_effect := True\<rparr>
                    | Some effect \<Rightarrow> out\<lparr>has_effect := True, cmd_effect := effect\<rparr>)))"

definition ha_parse_command :: "string option \<Rightarrow> nat \<Rightarrow> bool \<times> ha_command_t" where
  "ha_parse_command payload n =
     (let out = ha_command_zero in
      if payload = None \<or> n = 0 then (False, out)
      else
        (let payload = the payload in
         if \<not> starts_an_object (take n payload) \<or> \<not> json_valid_n payload (Some 0) n then (False, out)
         else
           (let out = read_power payload n out;
                out = read_brightness payload n out;
                out = read_color payload n out;
                out = read_mireds payload n out;
                out = read_effect payload n out
            in (True, out))))"

text \<open>The digits of a number: what follows them, the number, and whether there was one. \<open>None\<close> is an overflow.\<close>

fun range_digits :: "string \<Rightarrow> u32 \<Rightarrow> bool \<Rightarrow> (string \<times> u32 \<times> bool) option" where
  "range_digits [] v has_digit = Some ([], v, has_digit)"
| "range_digits (c # payload) v has_digit =
     (if \<not> decimal c then Some (c # payload, v, has_digit)
      else
        (let digit = word_of_nat (digit_of c) in
         if (- 1 - digit) div 10 < v then None else range_digits payload (v * 10 + digit) True))"

definition ha_parse_range_command :: "string option \<Rightarrow> nat \<Rightarrow> u32 option" where
  "ha_parse_range_command payload n =
     (if payload = None \<or> n = 0 then None
      else
        (let rest = dropWhile is_space (take n (the payload));
             rest = (if rest \<noteq> [] \<and> hd rest = CHR ''+'' then tl rest else rest) in
         case range_digits rest 0 False of
           None \<Rightarrow> None
         | Some (rest, v, has_digit) \<Rightarrow>
             if \<not> has_digit then None
             else
               (let fraction = (rest \<noteq> [] \<and> hd rest = CHR ''.'') in
                if fraction \<and> (tl rest = [] \<or> hd (tl rest) \<noteq> CHR ''0'') then None
                else
                  (let rest = (if fraction then dropWhile (\<lambda>c. c = CHR ''0'') (tl rest) else rest);
                       rest = dropWhile is_space rest
                   in if rest \<noteq> [] then None else Some v))))"

definition ha_apply_command :: "ha_command_t \<Rightarrow> u32 \<Rightarrow> light_t \<Rightarrow> light_t" where
  "ha_apply_command command now_ms light =
     (let light = (if has_brightness command then light_set_brightness (cmd_brightness command) now_ms light else light);
          light = (if has_color command then light_set_color (cmd_color command) now_ms light else light);
          light = (if has_mireds command then light_set_mireds (cmd_mireds command) now_ms light else light);
          light = (if has_effect command then snd (light_set_effect (cmd_effect command) now_ms light) else light);
          light = (if has_power command then light_set_power (cmd_power command) now_ms light else light)
      in light)"

subsection \<open>A state document is understood\<close>

definition state_members :: "light_t \<Rightarrow> (string \<times> json) list" where
  "state_members light =
     [(''state'', JString (if light_on light then ''ON'' else ''OFF'')), (''brightness'', JInt (ucast (light_brightness light))),
      (''color_mode'', JString (light_color_mode_name (light_color_mode light)))]
     @ (if light_color_mode light = LIGHT_COLOR_MODE_TEMP then [(''color_temp'', JInt (ucast (light_mireds light)))]
        else [(''color'', JObject [(''r'', JInt (ucast (color_r (light_color light)))), (''g'', JInt (ucast (color_g (light_color light)))),
                (''b'', JInt (ucast (color_b (light_color light))))])])
     @ (case light_effect_name (light_effect light) of None \<Rightarrow> [] | Some effect \<Rightarrow> [(''effect'', JString effect)])"

lemma build_state_calls:
  assumes "out \<noteq> []"
  shows "ha_build_state light (Some out)
    = finished (fold run_writer_call (calls None (JObject (state_members light))) (json_writer_init (Some out) (length out)))"
  using assms by (auto simp: ha_build_state_def state_members_def Let_def split: option.splits)

lemma length_int_digits: "n < 10 ^ k \<Longrightarrow> 0 < k \<Longrightarrow> length (int_digits n) \<le> k"
proof (induction k arbitrary: n)
  case (Suc k)
  show ?case
  proof (cases "n div 10 = 0")
    case False
    then have "10 \<le> n" by (simp add: div_eq_0_iff)
    moreover from this have "0 < k" using Suc.prems by (cases k) simp_all
    ultimately have "length (int_digits (n div 10)) \<le> k" using Suc by (intro Suc.IH) (simp_all add: div_less_iff_less_mult)
    then show ?thesis using False by (subst int_digits.simps) simp
  qed (subst int_digits.simps, simp)
qed simp

lemma sint_widen:
  fixes b :: u8 and m :: u16
  shows "sint (ucast b :: i32) = uint b" and "sint (ucast m :: i32) = uint m"
proof -
  have small: "signed_take_bit 31 i = i" if "0 \<le> i" "i < 65536" for i :: int
    using that by (intro signed_take_bit_int_eq_self) simp_all
  show "sint (ucast b :: i32) = uint b" "sint (ucast m :: i32) = uint m"
    using unsigned_less [of b, where ?'a = int] unsigned_less [of m, where ?'a = int]
    by (simp_all add: signed_ucast_eq small)
qed

lemma length_int_text:
  fixes b :: u8 and m :: u16
  shows "length (int_text (uint b)) \<le> 3" and "length (int_text (uint m)) \<le> 5"
proof -
  have "unat b < 10 ^ 3" "unat m < 10 ^ 5"
    using unsigned_less [of b, where ?'a = nat] unsigned_less [of m, where ?'a = nat] by simp_all
  then show "length (int_text (uint b)) \<le> 3" "length (int_text (uint m)) \<le> 5"
    using length_int_digits [of "unat b" 3] length_int_digits [of "unat m" 5] by (simp_all add: int_text_def)
qed

lemma state_nests: "nests_within 16 (JObject (state_members light))"
  by (auto simp: state_members_def split: option.splits)

lemma length_quoted: "length (quoted t) = length (escape t) + 2"
  by (simp add: quoted_def)

lemma effect_name_short: "light_effect_name e = Some name \<Longrightarrow> name \<in> set effect_names"
proof -
  assume "light_effect_name e = Some name"
  then have "unat e < length effect_names" "name = effect_names ! unat e"
    by (auto simp: light_effect_name_def effect_names_def word_le_nat_alt split: if_splits)
  then show ?thesis by simp
qed

lemma state_fits: "length (render (JObject (state_members light))) < 120"
proof -
  let ?n = "\<lambda>b :: u8. length (int_text (uint b))"
  have names: "length (quoted ''ON'') = 4" "length (quoted ''OFF'') = 5" "length (quoted ''state'') = 7" "length (quoted ''brightness'') = 12"
    "length (quoted ''color_mode'') = 12" "length (quoted ''color_temp'') = 12" "length (quoted ''rgb'') = 5" "length (quoted ''color'') = 7"
    "length (quoted ''r'') = 3" "length (quoted ''g'') = 3" "length (quoted ''b'') = 3" "length (quoted ''effect'') = 8"
    by code_simp+
  have effect: "length (quoted name) \<le> 11" if "light_effect_name e = Some name" for e name
  proof -
    have "\<forall>name \<in> set effect_names. length (quoted name) \<le> 11" by code_simp
    then show ?thesis using effect_name_short [OF that] by blast
  qed
  show ?thesis
    using length_int_text(1) [of "light_brightness light"] length_int_text(1) [of "color_r (light_color light)"]
      length_int_text(1) [of "color_g (light_color light)"] length_int_text(1) [of "color_b (light_color light)"]
      length_int_text(2) [of "light_mireds light"] effect [of "light_effect light"]
    by (auto simp: state_members_def names sint_widen light_color_mode_name_def split: option.splits)
qed

lemma skip_starts:
  "skip_whitespace s p < length s \<Longrightarrow> s ! skip_whitespace s p = CHR ''{'' \<Longrightarrow> starts_an_object (drop p s)"
proof (induction s p rule: skip_whitespace.induct)
  case (1 s p)
  have p: "p < length s" using 1(2) skip_whitespace_ge [of p s] by simp
  then have "drop p s = s ! p # drop (p + 1) s" by (simp add: Cons_nth_drop_Suc)
  with 1 p show ?case by (cases "is_space (s ! p)") (simp_all add: skip_whitespace.simps [of s p])
qed

lemma find_starts_object:
  assumes "json_find_n mem (Some 0) n key = (True, val)"
  shows "starts_an_object (take n mem)" and "0 < n"
proof -
  have p: "skip_whitespace (take n mem) 0 < length (take n mem)" "take n mem ! skip_whitespace (take n mem) 0 = CHR ''{''"
    using assms by (auto simp: json_find_n_def Let_def not_le split: option.splits if_splits)
  from skip_starts [OF this] show "starts_an_object (take n mem)" by simp
  show "0 < n" using p(1) by simp
qed

text \<open>The document in the buffer, and what a search for a key finds there.\<close>

definition holds_document :: "string \<Rightarrow> nat \<Rightarrow> (string \<times> json) list \<Rightarrow> bool" where
  "holds_document buf n ms \<longleftrightarrow> json_valid_n buf (Some 0) n
     \<and> (\<forall>key. case map_of ms key of
          None \<Rightarrow> json_find_n buf (Some 0) n (Some key) = (False, set_invalid)
        | Some v \<Rightarrow> \<exists>val. json_find_n buf (Some 0) n (Some key) = (True, val) \<and> located buf v val)"

lemma finished_document:
  assumes "nests_within 16 (JObject ms)" and "length (render (JObject ms)) < length out"
  shows "\<exists>n buf. finished (fold run_writer_call (calls None (JObject ms)) (json_writer_init (Some out) (length out))) = (n, Some buf)
    \<and> holds_document buf n ms"
proof -
  from written_object_found [OF assms] obtain w buf where w:
    "json_writer_finish (fold run_writer_call (calls None (JObject ms)) (json_writer_init (Some out) (length out))) = (True, w)"
    "jw_buffer w = Some buf" and found: "json_valid_n buf (Some 0) (json_writer_length w)"
    "\<forall>key. case map_of ms key of
          None \<Rightarrow> json_find_n buf (Some 0) (json_writer_length w) (Some key) = (False, set_invalid)
        | Some v \<Rightarrow> \<exists>val. json_find_n buf (Some 0) (json_writer_length w) (Some key) = (True, val) \<and> located buf v val"
    by blast
  have "holds_document buf (json_writer_length w) ms" unfolding holds_document_def using found by blast
  moreover have "finished (fold run_writer_call (calls None (JObject ms)) (json_writer_init (Some out) (length out)))
      = (json_writer_length w, Some buf)" using w by (simp add: finished_def del: calls.simps)
  ultimately show ?thesis by blast
qed

lemma document_member: "holds_document buf n ms \<Longrightarrow> map_of ms key = Some v \<Longrightarrow>
    \<exists>val. json_find_n buf (Some 0) n (Some key) = (True, val) \<and> located buf v val"
  unfolding holds_document_def by (drule conjunct2, drule spec [of _ key], simp)

lemma document_missing: "holds_document buf n ms \<Longrightarrow> map_of ms key = None \<Longrightarrow> json_find_n buf (Some 0) n (Some key) = (False, set_invalid)"
  unfolding holds_document_def by (drule conjunct2, drule spec [of _ key], simp)

lemma int_located: "located mem (JInt i) val \<Longrightarrow> json_get_int mem (Some val) = Some (sint i)"
  by (rule json_get_int_located)

lemma clamp_byte_uint [simp]: "clamp_byte (uint (b :: u8)) = b"
  using unsigned_less [of b, where ?'a = int] by (simp add: clamp_byte_def)

lemma read_power_document:
  assumes "holds_document buf n ms" and "map_of ms ''state'' = Some (JString (if on then ''ON'' else ''OFF''))"
  shows "read_power buf n out = out\<lparr>has_power := True, cmd_power := on\<rparr>"
proof -
  obtain val where v: "json_find_n buf (Some 0) n (Some ''state'') = (True, val)" "located buf (JString (if on then ''ON'' else ''OFF'')) val"
    using document_member [OF assms] by blast
  have "json_string_equals buf (Some val) (Some u) \<longleftrightarrow> (if on then ''ON'' else ''OFF'') = u" for u
    using json_string_equals_located [OF v(2)] by simp
  with v(1) show ?thesis by (simp add: read_power_def)
qed

lemma read_brightness_document:
  assumes "holds_document buf n ms" and "map_of ms ''brightness'' = Some (JInt (ucast b))"
  shows "read_brightness buf n out = out\<lparr>has_brightness := True, cmd_brightness := b\<rparr>"
proof -
  obtain val where v: "json_find_n buf (Some 0) n (Some ''brightness'') = (True, val)" "located buf (JInt (ucast b)) val"
    using document_member [OF assms] by blast
  then show ?thesis by (simp add: read_brightness_def int_located sint_widen)
qed

lemma read_mireds_document:
  assumes "holds_document buf n ms"
  shows "map_of ms ''color_temp'' = None \<Longrightarrow> read_mireds buf n out = out"
    and "map_of ms ''color_temp'' = Some (JInt (ucast (m :: u16))) \<Longrightarrow> m \<noteq> 0 \<Longrightarrow> read_mireds buf n out = out\<lparr>has_mireds := True, cmd_mireds := m\<rparr>"
proof -
  show "read_mireds buf n out = out" if "map_of ms ''color_temp'' = None"
    using document_missing [OF assms that] by (simp add: read_mireds_def)
  assume m: "map_of ms ''color_temp'' = Some (JInt (ucast m))" "m \<noteq> 0"
  then obtain val where v: "json_find_n buf (Some 0) n (Some ''color_temp'') = (True, val)" "located buf (JInt (ucast m)) val"
    using document_member [OF assms] by blast
  have "\<not> uint m \<le> 0" "\<not> 65535 < uint m"
    using m(2) unsigned_less [of m, where ?'a = int] by (simp_all add: word_less_eq_iff_unsigned [symmetric] uint_0_iff not_le order_less_le)
  then show "read_mireds buf n out = out\<lparr>has_mireds := True, cmd_mireds := m\<rparr>"
    using v by (simp add: read_mireds_def int_located sint_widen)
qed

lemma read_channel_document:
  assumes "located buf (JObject ms) val" and "nests_within 16 (JObject ms)" and "map_of ms key = Some (JInt (ucast (b :: u8)))"
  shows "read_channel buf val key = Some b"
proof -
  have at: "sits buf (jv_start val) (render (JObject ms))" "jv_length val = length (render (JObject ms))" "jv_type val = JSON_TYPE_OBJECT"
    using assms(1) by (simp_all add: located_def)
  from json_find_located [OF at(1) assms(2), of key] assms(3) obtain e
    where "json_find_in buf (Some val) (Some key) = (True, e)" "located buf (JInt (ucast b)) e"
    using at(2,3) by (auto simp: json_find_in_def simp del: render.simps)
  then show ?thesis by (simp add: read_channel_def int_located sint_widen)
qed

lemma read_color_document:
  assumes "holds_document buf n ms"
  shows "map_of ms ''color'' = None \<Longrightarrow> read_color buf n out = out"
    and "map_of ms ''color'' = Some (JObject [(''r'', JInt (ucast (r :: u8))), (''g'', JInt (ucast (g :: u8))), (''b'', JInt (ucast (b :: u8)))])
      \<Longrightarrow> read_color buf n out = out\<lparr>has_color := True, cmd_color := ws2812_rgb r g b\<rparr>"
proof -
  show "read_color buf n out = out" if "map_of ms ''color'' = None"
    using document_missing [OF assms that] by (simp add: read_color_def)
  let ?ms = "[(''r'', JInt (ucast r)), (''g'', JInt (ucast g)), (''b'', JInt (ucast b))]"
  assume "map_of ms ''color'' = Some (JObject ?ms)"
  from document_member [OF assms this] obtain val
    where v: "json_find_n buf (Some 0) n (Some ''color'') = (True, val)" "located buf (JObject ?ms) val" by blast
  have nest: "nests_within 16 (JObject ?ms)" by simp
  have "read_channel buf val ''r'' = Some r" "read_channel buf val ''g'' = Some g" "read_channel buf val ''b'' = Some b"
    using read_channel_document [OF v(2) nest] by simp_all
  with v(1) show "read_color buf n out = out\<lparr>has_color := True, cmd_color := ws2812_rgb r g b\<rparr>"
    by (simp add: read_color_def)
qed

lemma effect_name_back:
  assumes "e < LIGHT_EFFECT_COUNT"
  obtains name where "light_effect_name e = Some name" and "light_effect_from_name (Some name) True = Some e"
    and "length name < 40" and "takeWhile (\<lambda>c. c \<noteq> CHR 0x00) name = name"
proof -
  have e: "unat e < 5" "word_of_nat (unat e) = e" using assms by (simp_all add: word_less_nat_alt)
  have "\<forall>i < 5. light_effect_from_name (Some (effect_names ! i)) True = Some (of_nat i) \<and> length (effect_names ! i) < 40
      \<and> takeWhile (\<lambda>c. c \<noteq> CHR 0x00) (effect_names ! i) = effect_names ! i"
    by (simp add: effect_names_def light_effect_from_name_def All_less_Suc numeral_nat)
  with e have "light_effect_from_name (Some (effect_names ! unat e)) True = Some e" "length (effect_names ! unat e) < 40"
      "takeWhile (\<lambda>c. c \<noteq> CHR 0x00) (effect_names ! unat e) = effect_names ! unat e" by auto
  moreover have "light_effect_name e = Some (effect_names ! unat e)" using assms by (simp add: light_effect_name_def)
  ultimately show thesis using that by blast
qed

lemma read_effect_document:
  assumes "holds_document buf n ms" and "e < LIGHT_EFFECT_COUNT" and "map_of ms ''effect'' = map_option JString (light_effect_name e)"
  shows "read_effect buf n out = out\<lparr>has_effect := True, cmd_effect := e\<rparr>"
proof -
  obtain name where name: "light_effect_name e = Some name" "light_effect_from_name (Some name) True = Some e"
      "length name < 40" "takeWhile (\<lambda>c. c \<noteq> CHR 0x00) name = name"
    using effect_name_back [OF assms(2)] .
  obtain val where v: "json_find_n buf (Some 0) n (Some ''effect'') = (True, val)" "located buf (JString name) val"
    using document_member [OF assms(1)] assms(3) name(1) by auto
  let ?copy = "(blit 0 name (replicate 40 CHR 0x00))[length name := CHR 0x00]"
  have "?copy = name @ CHR 0x00 # replicate (39 - length name) CHR 0x00"
    using name(3) Suc_diff_le [of "length name" 39] by (simp add: blit_def list_update_append)
  then have "takeWhile (\<lambda>c. c \<noteq> CHR 0x00) ?copy = name"
    using name(4) by (simp add: takeWhile_eq_all_conv)
  moreover have "json_get_string buf (Some val) (Some (replicate 40 CHR 0x00)) = (True, Some ?copy)"
    using json_get_string_located [OF v(2), of "replicate 40 CHR 0x00"] name(3) by simp
  ultimately show ?thesis using v(1) name(2) by (simp add: read_effect_def)
qed
lemma parse_document:
  assumes "holds_document buf n ms"
    and "\<exists>key. map_of ms key \<noteq> None"
  shows "ha_parse_command (Some buf) n = (True, read_effect buf n (read_mireds buf n (read_color buf n
    (read_brightness buf n (read_power buf n ha_command_zero)))))"
proof -
  obtain key v where "map_of ms key = Some v" using assms(2) by auto
  from document_member [OF assms(1) this] obtain val where f: "json_find_n buf (Some 0) n (Some key) = (True, val)" by blast
  have "json_valid_n buf (Some 0) n" using assms(1) by (simp add: holds_document_def)
  with find_starts_object [OF f] show ?thesis by (simp add: ha_parse_command_def)
qed

text \<open>The command a state document is read as.\<close>

definition state_command :: "light_t \<Rightarrow> ha_command_t" where
  "state_command light =
     (let command = ha_command_zero\<lparr>has_power := True, cmd_power := light_on light, has_brightness := True,
          cmd_brightness := light_brightness light, has_effect := True, cmd_effect := light_effect light\<rparr>;
          c = light_color light
      in if light_color_mode light = LIGHT_COLOR_MODE_TEMP then command\<lparr>has_mireds := True, cmd_mireds := light_mireds light\<rparr>
         else command\<lparr>has_color := True, cmd_color := ws2812_rgb (color_r c) (color_g c) (color_b c)\<rparr>)"

lemma state_document_read:
  assumes doc: "holds_document buf n (state_members light)" and effect: "light_effect light < LIGHT_EFFECT_COUNT"
    and mireds: "light_mireds light \<noteq> 0"
  shows "ha_parse_command (Some buf) n = (True, state_command light)"
proof -
  obtain name where name: "light_effect_name (light_effect light) = Some name" using effect_name_back [OF effect] by metis
  have members: "map_of (state_members light) ''state'' = Some (JString (if light_on light then ''ON'' else ''OFF''))"
      "map_of (state_members light) ''brightness'' = Some (JInt (ucast (light_brightness light)))"
      "map_of (state_members light) ''effect'' = map_option JString (light_effect_name (light_effect light))"
    by (simp_all add: state_members_def name)
  have fields: "ha_parse_command (Some buf) n = (True, read_effect buf n (read_mireds buf n (read_color buf n
    (read_brightness buf n (read_power buf n ha_command_zero)))))"
    using members(1) by (intro parse_document [OF doc] exI [of _ "''state''"]) simp
  show ?thesis
  proof (cases "light_color_mode light = LIGHT_COLOR_MODE_TEMP")
    case True
    then have "map_of (state_members light) ''color'' = None"
        "map_of (state_members light) ''color_temp'' = Some (JInt (ucast (light_mireds light)))"
      by (simp_all add: state_members_def name)
    with True mireds show ?thesis
      unfolding fields read_power_document [OF doc members(1)] read_brightness_document [OF doc members(2)]
        read_effect_document [OF doc effect members(3)]
      by (simp add: read_color_document(1) [OF doc] read_mireds_document(2) [OF doc] state_command_def Let_def)
  next
    case False
    let ?c = "light_color light"
    have "map_of (state_members light) ''color_temp'' = None" using False by (simp add: state_members_def name)
    moreover have "map_of (state_members light) ''color''
        = Some (JObject [(''r'', JInt (ucast (color_r ?c))), (''g'', JInt (ucast (color_g ?c))), (''b'', JInt (ucast (color_b ?c)))])"
      using False by (simp add: state_members_def name)
    ultimately show ?thesis
      unfolding fields read_power_document [OF doc members(1)] read_brightness_document [OF doc members(2)]
        read_effect_document [OF doc effect members(3)]
      by (simp add: read_color_document(2) [OF doc] read_mireds_document(1) [OF doc] state_command_def Let_def False)
  qed
qed

lemma state_command_applied:
  assumes ok: "light_ok light" and other: "light_ok other"
  shows "light_capture (ha_apply_command (state_command light) now other)
    = (if light_color_mode light = LIGHT_COLOR_MODE_TEMP then (light_capture light)\<lparr>set_color := light_color other\<rparr>
       else (light_capture light)\<lparr>set_mireds := light_mireds other\<rparr>)"
proof -
  have effect: "light_capture (snd (light_set_effect (light_effect light) now l)) = (light_capture l)\<lparr>set_effect := light_effect light\<rparr>"
      for l
    using ok by (simp add: light_ok_def light_set_effect_def light_capture_def changed_def not_le)
  have power: "light_capture (light_set_power on now l) = (light_capture l)\<lparr>set_on := on\<rparr>"
    and level: "light_capture (light_set_brightness b now l) = (light_capture l)\<lparr>set_brightness := b\<rparr>" for on b l
    by (auto simp: light_set_power_def light_set_brightness_def light_capture_def changed_def Let_def)
  have colour: "light_capture (light_set_color (ws2812_rgb r g b) now (light_set_brightness v now other))
        = (light_capture other)\<lparr>set_brightness := v, set_color := ws2812_rgb r g b, set_color_mode := LIGHT_COLOR_MODE_RGB\<rparr>" for r g b v
    using other by (auto simp: light_ok_def light_set_brightness_def light_set_color_def light_capture_def changed_def ws2812_rgb_def)
  have mireds: "light_capture (light_set_mireds (light_mireds light) now l)
        = (light_capture l)\<lparr>set_mireds := light_mireds light, set_color_mode := LIGHT_COLOR_MODE_TEMP\<rparr>" for l
    using ok by (auto simp: light_ok_def light_set_mireds_def light_capture_def changed_def Let_def not_less)
  show ?thesis
    using light_mode_cases [OF ok] ok
    by (auto simp: ha_apply_command_def state_command_def ha_command_zero_def Let_def effect power level colour mireds light_ok_def)
      (simp_all add: light_capture_def ws2812_rgb_def)
qed


text \<open>All ten topics or none: the device's name fits when the longest of them, the configuration of the first end of the
  range, does, and then each is whole.\<close>

lemma truncated_fits: "length t < capacity \<Longrightarrow> truncated capacity t = t"
  by (simp add: truncated_def)

lemma ha_init_exact:
  fixes discovery_prefix :: "string option"
  assumes "device \<noteq> []"
  defines "root \<equiv> (if discovery_prefix \<noteq> None \<and> discovery_prefix \<noteq> Some [] then the discovery_prefix else DEFAULT_DISCOVERY_PREFIX)"
  shows "ha_init (Some device) discovery_prefix ha =
    (if length device \<le> HA_DEVICE_ID_MAX_LENGTH \<and> length root + length device + 27 \<le> HA_TOPIC_MAX_LENGTH
     then (True, \<lparr>ha_device_id = device,
       topic_config = root @ ''/light/'' @ device @ ''/config'', topic_command = root @ ''/light/'' @ device @ ''/set'',
       topic_state = root @ ''/light/'' @ device @ ''/state'', topic_availability = root @ ''/light/'' @ device @ ''/status'',
       topic_range_first_config = root @ ''/number/'' @ device @ ''_range_first/config'',
       topic_range_first_command = root @ ''/light/'' @ device @ ''/range/first/set'',
       topic_range_first_state = root @ ''/light/'' @ device @ ''/range/first/state'',
       topic_range_last_config = root @ ''/number/'' @ device @ ''_range_last/config'',
       topic_range_last_command = root @ ''/light/'' @ device @ ''/range/last/set'',
       topic_range_last_state = root @ ''/light/'' @ device @ ''/range/last/state''\<rparr>)
     else (False, ha_zero))"
proof -
  have root: "(if discovery_prefix \<noteq> None \<and> discovery_prefix \<noteq> Some [] then the discovery_prefix else DEFAULT_DISCOVERY_PREFIX) = root"
    by (simp add: root_def)
  show ?thesis
    unfolding ha_init_def Let_def root
    using assms(1) by (auto simp: compose_def compose_range_config_def Let_def truncated_fits)
qed

text \<open>A number that is published comes back as the command that sets it.\<close>
lemma range_digit_room:
  fixes v :: u32
  assumes "d < 10"
  shows "(- 1 - word_of_nat d) div 10 < v \<longleftrightarrow> 2 ^ 32 \<le> unat v * 10 + d"
proof -
  have "unat (- 1 - word_of_nat d :: u32) = 2 ^ 32 - 1 - d"
    using assms by (subst unat_sub) (simp_all add: word_le_nat_alt unat_of_nat_lt unsigned_minus_1_eq_mask mask_eq_exp_minus_1)
  then have "(- 1 - word_of_nat d) div 10 < v \<longleftrightarrow> (2 ^ 32 - 1 - d) div 10 < unat v"
    by (simp add: word_less_nat_alt unat_div)
  also have "\<dots> \<longleftrightarrow> 2 ^ 32 \<le> unat v * 10 + d" using assms by (simp add: div_less_iff_less_mult) linarith
  finally show ?thesis .
qed

lemma range_digits_show:
  "range_digits (show_nat n @ rest) 0 h = (if n < 2 ^ 32 then range_digits rest (word_of_nat n) True else None)"
proof (induction n arbitrary: rest rule: show_nat.induct)
  case (1 n)
  show ?case
  proof (cases "n < 10")
    case True
    then show ?thesis by (simp add: show_nat_digit range_digit_room)
  next
    case False
    let ?q = "n div 10" and ?d = "n mod 10"
    have n: "n = ?q * 10 + ?d" by simp
    have digits: "range_digits (show_nat n @ rest) 0 h = range_digits (show_nat ?q @ char_of (48 + ?d) # rest) 0 h"
      using False by (subst show_nat.simps) simp
    have whole: "word_of_nat ?q * 10 + word_of_nat ?d = (word_of_nat n :: u32)"
      by (subst (3) n) (simp only: of_nat_add of_nat_mult of_nat_numeral)
    show ?thesis
    proof (cases "?q < 2 ^ 32")
      case True
      then have "unat (word_of_nat ?q :: u32) = ?q" by (simp add: unat_of_nat_lt)
      with True show ?thesis
        unfolding digits 1 [OF False] by (simp add: range_digit_room whole)
    next
      case q: False
      then have "\<not> n < 2 ^ 32" using div_le_dividend [of n 10] by linarith
      with q show ?thesis unfolding digits 1 [OF False] by simp
    qed
  qed
qed

lemma dropWhile_all_then: "list_all P ys \<Longrightarrow> dropWhile P (ys @ zs) = dropWhile P zs"
  by (induction ys) simp_all

text \<open>A whole number is understood however it is written: with blanks around it, with a plus sign, with a fraction of
  zeros; and refused when it does not fit 32 bits.\<close>

lemma ha_range_number_read:
  fixes v :: nat
  assumes "list_all is_space lead" and "list_all is_space trail" and "sign = '''' \<or> sign = ''+''"
    and "fraction = '''' \<or> (\<exists>k. fraction = CHR ''.'' # CHR ''0'' # replicate k CHR ''0'')"
  defines "payload \<equiv> lead @ sign @ show_nat v @ fraction @ trail"
  shows "ha_parse_range_command (Some (payload @ beyond)) (length payload) = (if v < 2 ^ 32 then Some (word_of_nat v) else None)"
proof -
  obtain c cs where digits: "show_nat v = c # cs" "decimal c"
    using show_nat_nonempty [of v] set_show_nat [of _ v] by (cases "show_nat v") auto
  have c: "\<not> is_space c" "c \<noteq> CHR ''+''" using digits(2) by (auto simp: decimal_iff is_space_def)
  have start: "dropWhile is_space payload = sign @ show_nat v @ fraction @ trail"
    using assms(3) c by (auto simp: payload_def dropWhile_all_then [OF assms(1)] digits(1) is_space_def)
  have number: "(if sign @ show_nat v @ fraction @ trail \<noteq> [] \<and> hd (sign @ show_nat v @ fraction @ trail) = CHR ''+''
      then tl (sign @ show_nat v @ fraction @ trail) else sign @ show_nat v @ fraction @ trail) = show_nat v @ fraction @ trail"
    using assms(3) c by (auto simp: digits(1))
  have blank: "\<not> decimal d \<and> d \<noteq> CHR ''.'' \<and> d \<noteq> CHR ''0''" if "is_space d" for d using that by (auto simp: is_space_def decimal_iff)
  have stop: "range_digits (fraction @ trail) w True = Some (fraction @ trail, w, True)" for w
    using assms(4) assms(2) blank by (cases trail) (auto simp: decimal_iff)
  have zeros: "dropWhile (\<lambda>c. c = CHR ''0'') (replicate k CHR ''0'' @ trail) = trail" for k
    using assms(2) blank by (cases trail) (auto simp: dropWhile_append)
  have ends: "dropWhile is_space trail = []" using assms(2) by (simp add: list_all_iff)
  have whole: "payload \<noteq> []" "take (length payload) (payload @ beyond) = payload" using digits(1) by (simp_all add: payload_def)
  have point: "hd trail \<noteq> CHR ''.''" if "trail \<noteq> []" using assms(2) blank that by (cases trail) auto
  have parsed: "ha_parse_range_command (Some (payload @ beyond)) (length payload) =
      (case if v < 2 ^ 32 then Some (fraction @ trail, word_of_nat v, True) else None of
         None \<Rightarrow> None
       | Some (rest, v, has_digit) \<Rightarrow>
           if \<not> has_digit then None
           else if (rest \<noteq> [] \<and> hd rest = CHR ''.'') \<and> (tl rest = [] \<or> hd (tl rest) \<noteq> CHR ''0'') then None
           else if dropWhile is_space (if rest \<noteq> [] \<and> hd rest = CHR ''.'' then dropWhile (\<lambda>c. c = CHR ''0'') (tl rest) else rest) \<noteq> []
             then None else Some v)"
    unfolding ha_parse_range_command_def Let_def option.sel whole(2) start number range_digits_show stop
    using whole(1) by simp
  from assms(4) show ?thesis unfolding parsed using point ends zeros by (elim disjE exE; cases "trail = []") simp_all
qed
text \<open>What \<open>ha_build_range_state\<close> publishes sets the end it was read from to where it is.\<close>

lemma ha_range_state_echo:
  fixes r :: led_range_t and endpoint :: ha_range_endpoint_t
  assumes "6 \<le> length out"
  defines "v \<equiv> (if endpoint = HA_RANGE_FIRST then led_range_first (Some r) else led_range_last (Some r))"
  shows "\<exists>n buf. ha_build_range_state (Some r) endpoint (Some out) = (n, Some buf) \<and> ha_parse_range_command (Some buf) n = Some (ucast v)"
proof -
  have "unat v < 10 ^ 5" using unsigned_less [of v, where ?'a = nat] by simp
  then have l: "length (show_nat (unat v)) \<le> 5" by (rule length_show_nat) simp
  let ?t = "show_nat (unat v)"
  have "ha_build_range_state (Some r) endpoint (Some out) = (length ?t, Some (blit 0 (?t @ [CHR 0x00]) out))"
    using assms(1) l show_nat_nonempty [of "unat v"]
    by (auto simp: ha_build_range_state_def Let_def truncated_fits v_def)
  moreover obtain beyond where "blit 0 (?t @ [CHR 0x00]) out = ?t @ beyond" by (simp add: blit_def)
  moreover have "ha_parse_range_command (Some (?t @ beyond)) (length ?t) = Some (word_of_nat (unat v))" for beyond
    using ha_range_number_read [of "[]" "[]" "''''" "''''" "unat v" beyond] unsigned_less [of v, where ?'a = nat] by simp
  moreover have "word_of_nat (unat v) = (ucast v :: u32)" by (simp add: of_nat_unat)
  ultimately show ?thesis by metis
qed
subsection \<open>The announcements fit\<close>

definition device_member :: "ha_t \<Rightarrow> string \<times> json" where
  "device_member ha = (''device'', JObject [(''identifiers'', JArray [JString (ha_device_id ha)]), (''name'', JString ''Pico LED controller''),
     (''manufacturer'', JString ''pico-framework''), (''model'', JString ''home_led'')])"

definition discovery_members :: "ha_t \<Rightarrow> (string \<times> json) list" where
  "discovery_members ha =
     [(''name'', JString ''LED strip''), (''unique_id'', JString (ha_device_id ha @ ''_light'')), (''schema'', JString ''json''),
      (''command_topic'', JString (topic_command ha)), (''state_topic'', JString (topic_state ha)),
      (''availability_topic'', JString (topic_availability ha)), (''payload_available'', JString HA_AVAILABLE),
      (''payload_not_available'', JString HA_UNAVAILABLE), (''brightness'', JBool True),
      (''supported_color_modes'', JArray [JString ''rgb'', JString ''color_temp'']), (''min_mireds'', JInt 153), (''max_mireds'', JInt 500),
      (''effect'', JBool True), (''effect_list'', JArray (map JString effect_names)), (''qos'', JInt 1), device_member ha]"

definition range_discovery_members :: "ha_t \<Rightarrow> bool \<Rightarrow> u16 \<Rightarrow> (string \<times> json) list" where
  "range_discovery_members ha first led_count =
     [(''name'', JString (if first then ''Range start'' else ''Range end'')),
      (''unique_id'', JString (ha_device_id ha @ ''_range_'' @ (if first then ''first'' else ''last''))),
      (''command_topic'', JString (if first then topic_range_first_command ha else topic_range_last_command ha)),
      (''state_topic'', JString (if first then topic_range_first_state ha else topic_range_last_state ha)),
      (''availability_topic'', JString (topic_availability ha)), (''payload_available'', JString HA_AVAILABLE),
      (''payload_not_available'', JString HA_UNAVAILABLE), (''min'', JInt 1), (''max'', JInt (ucast led_count)), (''step'', JInt 1),
      (''mode'', JString ''slider''), (''qos'', JInt 1), device_member ha]"

lemma build_discovery_calls:
  assumes "out \<noteq> []" and "ha_device_id ha \<noteq> []"
  shows "ha_build_discovery ha (Some out)
    = finished (fold run_writer_call (calls None (JObject (discovery_members ha))) (json_writer_init (Some out) (length out)))"
proof -
  have effects: "map (word_of_nat :: nat \<Rightarrow> light_effect_t) [0..<unat LIGHT_EFFECT_COUNT] = [0, 1, 2, 3, 4]" by (simp add: upt_rec)
  have names: "map light_effect_name [0, 1, 2, 3, 4] = map Some effect_names"
    by (simp add: light_effect_name_def effect_names_def word_le_nat_alt)
  show ?thesis
    using assms names unfolding ha_build_discovery_def effects
    by (simp add: discovery_members_def device_member_def write_device_def effect_names_def Let_def)
qed

lemma build_range_discovery_calls:
  assumes "out \<noteq> []" and "ha_device_id ha \<noteq> []" and "led_count \<noteq> 0"
  shows "ha_build_range_discovery ha endpoint led_count (Some out) = finished (fold run_writer_call
    (calls None (JObject (range_discovery_members ha (endpoint = HA_RANGE_FIRST) led_count))) (json_writer_init (Some out) (length out)))"
  using assms by (simp add: ha_build_range_discovery_def range_discovery_members_def device_member_def write_device_def Let_def)

text \<open>The room they take, for names without a character that JSON escapes.\<close>

lemma escape_append: "escape (s @ t) = escape s @ escape t"
  by (simp add: escape_def)

lemma topics_short:
  fixes prefix_given :: "string option"
  assumes "ha_init (Some device) prefix_given start = (True, ha)" and "escape device = device"
    and "\<forall>p. prefix_given = Some p \<longrightarrow> escape p = p"
  shows "ha_device_id ha = device" and "length (escape device) \<le> 32" and "device \<noteq> []"
    and "\<forall>topic \<in> {topic_command ha, topic_state ha, topic_availability ha, topic_range_first_command ha, topic_range_last_command ha,
      topic_range_first_state ha, topic_range_last_state ha}. length (escape topic) \<le> 96"
proof -
  have device: "device \<noteq> []" using assms(1) by (auto simp: ha_init_def)
  define root where "root = (if prefix_given \<noteq> None \<and> prefix_given \<noteq> Some [] then the prefix_given else DEFAULT_DISCOVERY_PREFIX)"
  have "escape DEFAULT_DISCOVERY_PREFIX = DEFAULT_DISCOVERY_PREFIX" by code_simp
  then have root: "escape root = root" using assms(3) by (simp add: root_def)
  have parts: "escape ''/light/'' = ''/light/''" "escape ''/set'' = ''/set''" "escape ''/state'' = ''/state''" "escape ''/status'' = ''/status''"
    "escape ''/range/first/set'' = ''/range/first/set''" "escape ''/range/last/set'' = ''/range/last/set''"
    "escape ''/range/first/state'' = ''/range/first/state''" "escape ''/range/last/state'' = ''/range/last/state''"
    by code_simp+
  note whole = ha_init_exact [OF device, of prefix_given start, unfolded assms(1), folded root_def]
  have fits: "length device \<le> 32" "length root + length device + 27 \<le> 96" using whole by (auto split: if_splits)
  with whole have ha: "ha = \<lparr>ha_device_id = device,
       topic_config = root @ ''/light/'' @ device @ ''/config'', topic_command = root @ ''/light/'' @ device @ ''/set'',
       topic_state = root @ ''/light/'' @ device @ ''/state'', topic_availability = root @ ''/light/'' @ device @ ''/status'',
       topic_range_first_config = root @ ''/number/'' @ device @ ''_range_first/config'',
       topic_range_first_command = root @ ''/light/'' @ device @ ''/range/first/set'',
       topic_range_first_state = root @ ''/light/'' @ device @ ''/range/first/state'',
       topic_range_last_config = root @ ''/number/'' @ device @ ''_range_last/config'',
       topic_range_last_command = root @ ''/light/'' @ device @ ''/range/last/set'',
       topic_range_last_state = root @ ''/light/'' @ device @ ''/range/last/state''\<rparr>" by simp
  show "ha_device_id ha = device" by (simp add: ha)
  show "length (escape device) \<le> 32" using fits by (simp add: assms(2))
  show "device \<noteq> []" by (rule device)
  show "\<forall>topic \<in> {topic_command ha, topic_state ha, topic_availability ha, topic_range_first_command ha, topic_range_last_command ha,
      topic_range_first_state ha, topic_range_last_state ha}. length (escape topic) \<le> 96"
    using fits unfolding ha by (simp only: ha_t.simps ball_simps insert_iff escape_append parts root assms(2)) simp
qed

lemma discovery_fits:
  assumes "length (escape (ha_device_id ha)) \<le> 32" and "length (escape (topic_command ha)) \<le> 96"
    and "length (escape (topic_state ha)) \<le> 96" and "length (escape (topic_availability ha)) \<le> 96"
  shows "length (render (JObject (discovery_members ha))) < 1024"
proof -
  have "length (render (JObject (discovery_members ha))) = length (render (JObject (discovery_members ha_zero)))
      + 2 * length (escape (ha_device_id ha)) + length (escape (topic_command ha)) + length (escape (topic_state ha))
      + length (escape (topic_availability ha))"
    by (simp add: discovery_members_def device_member_def ha_zero_def length_quoted escape_append) (simp add: escape_def)
  moreover have "length (render (JObject (discovery_members ha_zero))) < 600" by code_simp
  ultimately show ?thesis using assms by linarith
qed

lemma range_discovery_fits:
  assumes "length (escape (ha_device_id ha)) \<le> 32" and "length (escape (topic_availability ha)) \<le> 96"
    and "length (escape (topic_range_first_command ha)) \<le> 96" and "length (escape (topic_range_last_command ha)) \<le> 96"
    and "length (escape (topic_range_first_state ha)) \<le> 96" and "length (escape (topic_range_last_state ha)) \<le> 96"
  shows "length (render (JObject (range_discovery_members ha first n))) < 1024"
proof -
  let ?one = "length (escape (if first then topic_range_first_command ha else topic_range_last_command ha))
      + length (escape (if first then topic_range_first_state ha else topic_range_last_state ha))"
  have "length (int_text (sint (ucast n :: i32))) \<le> 5" by (simp add: sint_widen length_int_text)
  then have "length (render (JObject (range_discovery_members ha first n))) \<le> length (render (JObject (range_discovery_members ha_zero first 0)))
      + 2 * length (escape (ha_device_id ha)) + length (escape (topic_availability ha)) + ?one + 5"
    by (simp add: range_discovery_members_def device_member_def ha_zero_def length_quoted escape_append)
  moreover have "length (render (JObject (range_discovery_members ha_zero True 0))) < 600"
      "length (render (JObject (range_discovery_members ha_zero False 0))) < 600" by code_simp+
  moreover have "?one \<le> 192" using assms by simp
  ultimately show ?thesis using assms by (cases first) simp_all
qed

text \<open>A device that has its topics has its announcements: the three discovery documents fit
  \<open>HA_DISCOVERY_BUFFER_SIZE\<close>, are valid, and hold under each key what was to be announced.\<close>

lemma ha_announcements_fit:
  assumes "ha_init (Some device) prefix_given start = (True, ha)" and "escape device = device"
    and "\<forall>p. prefix_given = Some p \<longrightarrow> escape p = p" and "1024 \<le> length out" and "led_count \<noteq> 0"
  shows "\<exists>n buf. ha_build_discovery ha (Some out) = (n, Some buf) \<and> holds_document buf n (discovery_members ha)"
    and "\<exists>n buf. ha_build_range_discovery ha endpoint led_count (Some out) = (n, Some buf)
      \<and> holds_document buf n (range_discovery_members ha (endpoint = HA_RANGE_FIRST) led_count)"
proof -
  note short = topics_short [OF assms(1-3)]
  have out: "out \<noteq> []" "ha_device_id ha \<noteq> []" using assms(4) short(1,3) by auto
  have nests: "nests_within 16 (JObject (discovery_members ha))" "nests_within 16 (JObject (range_discovery_members ha first n))" for first n
    by (simp_all add: discovery_members_def range_discovery_members_def device_member_def list_all_iff)
  have "length (render (JObject (discovery_members ha))) < length out"
    using discovery_fits [of ha] short assms(4) by simp
  from finished_document [OF nests(1) this]
  show "\<exists>n buf. ha_build_discovery ha (Some out) = (n, Some buf) \<and> holds_document buf n (discovery_members ha)"
    unfolding build_discovery_calls [OF out] .
  have "length (render (JObject (range_discovery_members ha (endpoint = HA_RANGE_FIRST) led_count))) < length out"
    using range_discovery_fits [of ha "endpoint = HA_RANGE_FIRST" led_count] short assms(4) by simp
  from finished_document [OF nests(2) this]
  show "\<exists>n buf. ha_build_range_discovery ha endpoint led_count (Some out) = (n, Some buf)
      \<and> holds_document buf n (range_discovery_members ha (endpoint = HA_RANGE_FIRST) led_count)"
    unfolding build_range_discovery_calls [OF out assms(5)] .
qed

end
