(* ===== verification/Pwm_Out.thy ===== *)
theory Pwm_Out
  imports Pwm_Timing
begin

text \<open>
  PWM outputs, \<open>pwm/pwm.c\<close>. The Pico SDK and the registers it drives are a parameter that acts on a state \<open>'h\<close> of the
  hardware; what the driver relies on is \<open>pwm_sdk_ok\<close>, stated over a view of the block: which slices
  run, their wrap and divider, and the inversion and level of each channel. The lemmas show whose settings an
  output can touch, and that what is on the pin follows from the duty that is stored.
\<close>

subsection \<open>The SDK\<close>

abbreviation (input) "PWM_CHAN_A \<equiv> (0 :: u32)"

record 'h pwm_sdk =
  clock_get_hz :: "'h \<Rightarrow> u32"
  num_bank0_gpios :: u32
  gpio_func_pwm :: u32
  gpio_func_sio :: u32
  ch0_csr_a_inv_bits :: u32
  ch0_csr_b_inv_bits :: u32
  gpio_to_slice_num :: "u32 \<Rightarrow> u32"
  gpio_to_channel :: "u32 \<Rightarrow> u32"
  hw_en :: "'h \<Rightarrow> u32"
  hw_top :: "u32 \<Rightarrow> 'h \<Rightarrow> u32"
  hw_div :: "u32 \<Rightarrow> 'h \<Rightarrow> u32"
  hw_csr :: "u32 \<Rightarrow> 'h \<Rightarrow> u32"
  gpio_get_function :: "u32 \<Rightarrow> 'h \<Rightarrow> u32"
  set_clkdiv_int_frac :: "u32 \<Rightarrow> u8 \<Rightarrow> u8 \<Rightarrow> 'h \<Rightarrow> 'h"
  set_wrap :: "u32 \<Rightarrow> u16 \<Rightarrow> 'h \<Rightarrow> 'h"
  set_output_polarity :: "u32 \<Rightarrow> bool \<Rightarrow> bool \<Rightarrow> 'h \<Rightarrow> 'h"
  set_chan_level :: "u32 \<Rightarrow> u32 \<Rightarrow> u16 \<Rightarrow> 'h \<Rightarrow> 'h"
  set_slice_enabled :: "u32 \<Rightarrow> bool \<Rightarrow> 'h \<Rightarrow> 'h"
  gpio_set_function :: "u32 \<Rightarrow> u32 \<Rightarrow> 'h \<Rightarrow> 'h"
  gpio_set_dir_out :: "u32 \<Rightarrow> 'h \<Rightarrow> 'h"
  gpio_put :: "u32 \<Rightarrow> bool \<Rightarrow> 'h \<Rightarrow> 'h"

subsection \<open>One output\<close>

datatype pwm_result_t = PWM_OK | PWM_ERR_INVALID_ARG | PWM_ERR_FREQUENCY_TOO_HIGH | PWM_ERR_FREQUENCY_TOO_LOW
  | PWM_ERR_SLICE_BUSY

fun pwm_result_name :: "pwm_result_t \<Rightarrow> string" where
  "pwm_result_name PWM_OK = ''ok''"
| "pwm_result_name PWM_ERR_INVALID_ARG = ''invalid argument''"
| "pwm_result_name PWM_ERR_FREQUENCY_TOO_HIGH = ''too fast for this clock''"
| "pwm_result_name PWM_ERR_FREQUENCY_TOO_LOW = ''too slow for the divider''"
| "pwm_result_name PWM_ERR_SLICE_BUSY = ''slice is running at another frequency''"

record pwm_out_config_t =
  cfg_gpio :: u32
  cfg_frequency_hz :: u32
  cfg_duty :: u16
  cfg_invert :: bool
  cfg_start_enabled :: bool

record pwm_out_t =
  po_config :: pwm_out_config_t
  po_timing :: pwm_timing_t
  po_clock_hz :: u32
  po_duty :: u16
  po_slice :: u32
  po_channel :: u32
  po_enabled :: bool
  po_initialised :: bool

definition pwm_gpio_shares_slice :: "'h pwm_sdk \<Rightarrow> u32 \<Rightarrow> u32 \<Rightarrow> bool" where
  "pwm_gpio_shares_slice sdk gpio_a gpio_b \<longleftrightarrow> gpio_to_slice_num sdk gpio_a = gpio_to_slice_num sdk gpio_b"

fun result_for_timing :: "pwm_timing_result_t \<Rightarrow> pwm_result_t" where
  "result_for_timing PWM_TIMING_OK = PWM_OK"
| "result_for_timing PWM_TIMING_TOO_FAST = PWM_ERR_FREQUENCY_TOO_HIGH"
| "result_for_timing PWM_TIMING_TOO_SLOW = PWM_ERR_FREQUENCY_TOO_LOW"
| "result_for_timing PWM_TIMING_INVALID_ARG = PWM_ERR_INVALID_ARG"

definition div_register_value :: "pwm_timing_t \<Rightarrow> u32" where
  "div_register_value timing = push_bit 4 (ucast (divider_int timing)) OR ucast (divider_frac timing)"

definition slice_is_enabled :: "'h pwm_sdk \<Rightarrow> u32 \<Rightarrow> 'h \<Rightarrow> bool" where
  "slice_is_enabled sdk number h \<longleftrightarrow> hw_en sdk h AND push_bit (unat number) 1 \<noteq> 0"

definition slice_conflicts :: "'h pwm_sdk \<Rightarrow> u32 \<Rightarrow> pwm_timing_t \<Rightarrow> 'h \<Rightarrow> bool" where
  "slice_conflicts sdk number timing h \<longleftrightarrow>
     (if \<not> slice_is_enabled sdk number h then False
      else hw_top sdk number h \<noteq> ucast (wrap timing) \<or> hw_div sdk number h \<noteq> div_register_value timing)"

definition apply_timing :: "'h pwm_sdk \<Rightarrow> pwm_out_t \<Rightarrow> 'h \<Rightarrow> 'h" where
  "apply_timing sdk out h =
     (let h = set_clkdiv_int_frac sdk (po_slice out) (divider_int (po_timing out)) (divider_frac (po_timing out)) h
      in pwm_sdk.set_wrap sdk (po_slice out) (wrap (po_timing out)) h)"

definition apply_polarity :: "'h pwm_sdk \<Rightarrow> pwm_out_t \<Rightarrow> bool \<Rightarrow> 'h \<Rightarrow> 'h" where
  "apply_polarity sdk out invert h =
     (let csr = hw_csr sdk (po_slice out) h;
          invert_a = (csr AND ch0_csr_a_inv_bits sdk \<noteq> 0);
          invert_b = (csr AND ch0_csr_b_inv_bits sdk \<noteq> 0)
      in if po_channel out = PWM_CHAN_A then set_output_polarity sdk (po_slice out) invert invert_b h
         else set_output_polarity sdk (po_slice out) invert_a invert h)"

definition apply_duty :: "'h pwm_sdk \<Rightarrow> pwm_out_t \<Rightarrow> 'h \<Rightarrow> 'h" where
  "apply_duty sdk out h =
     set_chan_level sdk (po_slice out) (po_channel out) (pwm_timing_level_for_duty (Some (po_timing out)) (po_duty out)) h"

text \<open>The object \<open>None\<close> is a null pointer. The timing is only used when the computation of it succeeds.\<close>

definition no_timing :: pwm_timing_t where
  "no_timing = \<lparr>divider_int = 0, divider_frac = 0, wrap = 0\<rparr>"

definition pwm_out_init :: "'h pwm_sdk \<Rightarrow> pwm_out_t option \<Rightarrow> pwm_out_config_t option \<Rightarrow> 'h
    \<Rightarrow> pwm_result_t \<times> pwm_out_t option \<times> 'h" where
  "pwm_out_init sdk out config h =
     (if out = None \<or> config = None then (PWM_ERR_INVALID_ARG, out, h)
      else
        (let config = the config in
         if num_bank0_gpios sdk \<le> cfg_gpio config then (PWM_ERR_INVALID_ARG, out, h)
         else
           (let clock_hz = clock_get_hz sdk h in
            case pwm_timing_for_frequency clock_hz (cfg_frequency_hz config) (Some no_timing) of
              (computed, timing) \<Rightarrow>
                if computed \<noteq> PWM_TIMING_OK then (result_for_timing computed, out, h)
                else
                  (let timing = the timing;
                       number = gpio_to_slice_num sdk (cfg_gpio config) in
                   if slice_conflicts sdk number timing h then (PWM_ERR_SLICE_BUSY, out, h)
                   else
                     (let out = \<lparr>po_config = config, po_timing = timing, po_clock_hz = clock_hz, po_duty = cfg_duty config,
                            po_slice = number, po_channel = gpio_to_channel sdk (cfg_gpio config), po_enabled = False,
                            po_initialised = True\<rparr>;
                          h = apply_timing sdk out h;
                          h = apply_polarity sdk out (cfg_invert config) h;
                          h = apply_duty sdk out h;
                          h = gpio_set_function sdk (cfg_gpio config) (gpio_func_pwm sdk) h
                      in if cfg_start_enabled config
                         then (PWM_OK, Some (out\<lparr>po_enabled := True\<rparr>), set_slice_enabled sdk (po_slice out) True h)
                         else (PWM_OK, Some out, h))))))"

definition pwm_out_deinit :: "'h pwm_sdk \<Rightarrow> pwm_out_t option \<Rightarrow> 'h \<Rightarrow> pwm_out_t option \<times> 'h" where
  "pwm_out_deinit sdk out h =
     (case out of
        None \<Rightarrow> (None, h)
      | Some o' \<Rightarrow>
          if \<not> po_initialised o' then (out, h)
          else
            (let h = set_chan_level sdk (po_slice o') (po_channel o') 0 h;
                 gpio = cfg_gpio (po_config o');
                 other_gpio = gpio XOR 1;
                 other_is_ours = (gpio_to_slice_num sdk other_gpio = po_slice o'
                   \<and> gpio_get_function sdk other_gpio h = gpio_func_pwm sdk);
                 h = (if \<not> other_is_ours then set_slice_enabled sdk (po_slice o') False h else h);
                 h = gpio_set_function sdk gpio (gpio_func_sio sdk) h;
                 h = gpio_set_dir_out sdk gpio h;
                 h = gpio_put sdk gpio False h
             in (Some (o'\<lparr>po_enabled := False, po_initialised := False\<rparr>), h)))"

definition usable_out :: "pwm_out_t option \<Rightarrow> bool" where
  "usable_out out \<longleftrightarrow> (case out of None \<Rightarrow> False | Some o' \<Rightarrow> po_initialised o')"

definition pwm_out_resolution :: "pwm_out_t \<Rightarrow> u32" where
  "pwm_out_resolution out = ucast (wrap (po_timing out)) + 1"

definition pwm_out_set_duty :: "'h pwm_sdk \<Rightarrow> pwm_out_t option \<Rightarrow> u16 \<Rightarrow> 'h \<Rightarrow> pwm_result_t \<times> pwm_out_t option \<times> 'h" where
  "pwm_out_set_duty sdk out duty h =
     (if \<not> usable_out out then (PWM_ERR_INVALID_ARG, out, h)
      else (let out = (the out)\<lparr>po_duty := duty\<rparr> in (PWM_OK, Some out, apply_duty sdk out h)))"

definition pwm_out_set_duty_percent :: "'h pwm_sdk \<Rightarrow> pwm_out_t option \<Rightarrow> u8 \<Rightarrow> 'h \<Rightarrow> pwm_result_t \<times> pwm_out_t option \<times> 'h" where
  "pwm_out_set_duty_percent sdk out percent h =
     (if \<not> usable_out out \<or> 100 < percent then (PWM_ERR_INVALID_ARG, out, h)
      else pwm_out_set_duty sdk out (ucast ((ucast percent * (65535 :: u32)) div 100)) h)"

definition pwm_out_set_pulse_us :: "'h pwm_sdk \<Rightarrow> pwm_out_t option \<Rightarrow> u32 \<Rightarrow> 'h \<Rightarrow> pwm_result_t \<times> pwm_out_t option \<times> 'h" where
  "pwm_out_set_pulse_us sdk out pulse_us h =
     (if \<not> usable_out out then (PWM_ERR_INVALID_ARG, out, h)
      else
        (let out = the out;
             level = pwm_timing_level_for_pulse_us (po_clock_hz out) (Some (po_timing out)) pulse_us;
             h = set_chan_level sdk (po_slice out) (po_channel out) level h;
             period = pwm_out_resolution out
         in (PWM_OK, Some (out\<lparr>po_duty := ucast ((ucast level * 65535 + period div 2) div period)\<rparr>), h)))"

definition pwm_out_set_frequency :: "'h pwm_sdk \<Rightarrow> pwm_out_t option \<Rightarrow> u32 \<Rightarrow> 'h \<Rightarrow> pwm_result_t \<times> pwm_out_t option \<times> 'h" where
  "pwm_out_set_frequency sdk out frequency_hz h =
     (if \<not> usable_out out then (PWM_ERR_INVALID_ARG, out, h)
      else
        (case pwm_timing_for_frequency (po_clock_hz (the out)) frequency_hz (Some no_timing) of
           (computed, timing) \<Rightarrow>
             if computed \<noteq> PWM_TIMING_OK then (result_for_timing computed, out, h)
             else
               (let out = (the out)\<lparr>po_timing := the timing, po_config := (po_config (the out))\<lparr>cfg_frequency_hz := frequency_hz\<rparr>\<rparr>;
                    h = apply_timing sdk out h
                in (PWM_OK, Some out, apply_duty sdk out h))))"

definition pwm_out_enable :: "'h pwm_sdk \<Rightarrow> pwm_out_t option \<Rightarrow> bool \<Rightarrow> 'h \<Rightarrow> pwm_out_t option \<times> 'h" where
  "pwm_out_enable sdk out enabled h =
     (if \<not> usable_out out then (out, h)
      else (Some ((the out)\<lparr>po_enabled := enabled\<rparr>), set_slice_enabled sdk (po_slice (the out)) enabled h))"

definition pwm_out_frequency :: "pwm_out_t option \<Rightarrow> u32" where
  "pwm_out_frequency out =
     (if \<not> usable_out out then 0 else pwm_timing_frequency (po_clock_hz (the out)) (Some (po_timing (the out))))"

definition pwm_out_period_us :: "pwm_out_t option \<Rightarrow> u32" where
  "pwm_out_period_us out =
     (if \<not> usable_out out then 0 else pwm_timing_period_us (po_clock_hz (the out)) (Some (po_timing (the out))))"

subsection \<open>What the hardware does\<close>

text \<open>
  The view of the hardware: which slices count, the wrap and divider of each slice, the inversion and level of each of
  its channels, and the function of each pin. The calls change it as the datasheet and the documentation of the SDK
  say, and the registers the code reads show it.
\<close>

record pwm_view =
  vw_running :: "u32 \<Rightarrow> bool"
  vw_top :: "u32 \<Rightarrow> u32"
  vw_div :: "u32 \<Rightarrow> u32"
  vw_inverted :: "u32 \<Rightarrow> u32 \<Rightarrow> bool"
  vw_level :: "u32 \<Rightarrow> u32 \<Rightarrow> u16"
  vw_function :: "u32 \<Rightarrow> u32"

definition pwm_sdk_ok :: "'h pwm_sdk \<Rightarrow> ('h \<Rightarrow> pwm_view) \<Rightarrow> bool" where
  "pwm_sdk_ok sdk view \<longleftrightarrow>
     (\<forall>g. gpio_to_slice_num sdk g < 32 \<and> gpio_to_channel sdk g = g AND 1)
   \<and> gpio_func_pwm sdk \<noteq> gpio_func_sio sdk
   \<and> (\<forall>h s. s < 32 \<longrightarrow> (hw_en sdk h AND push_bit (unat s) 1 \<noteq> 0) = vw_running (view h) s)
   \<and> (\<forall>h s. hw_top sdk s h = vw_top (view h) s \<and> hw_div sdk s h = vw_div (view h) s
        \<and> (hw_csr sdk s h AND ch0_csr_a_inv_bits sdk \<noteq> 0) = vw_inverted (view h) s 0
        \<and> (hw_csr sdk s h AND ch0_csr_b_inv_bits sdk \<noteq> 0) = vw_inverted (view h) s 1
        \<and> gpio_get_function sdk s h = vw_function (view h) s)
   \<and> (\<forall>h s i f. view (set_clkdiv_int_frac sdk s i f h)
        = (view h)\<lparr>vw_div := (vw_div (view h))(s := push_bit 4 (ucast i) OR ucast f)\<rparr>)
   \<and> (\<forall>h s w. view (pwm_sdk.set_wrap sdk s w h) = (view h)\<lparr>vw_top := (vw_top (view h))(s := ucast w)\<rparr>)
   \<and> (\<forall>h s a b. view (set_output_polarity sdk s a b h)
        = (view h)\<lparr>vw_inverted := (vw_inverted (view h))(s := (vw_inverted (view h) s)(0 := a, 1 := b))\<rparr>)
   \<and> (\<forall>h s c l. view (set_chan_level sdk s c l h)
        = (view h)\<lparr>vw_level := (vw_level (view h))(s := (vw_level (view h) s)(c := l))\<rparr>)
   \<and> (\<forall>h s on. s < 32 \<longrightarrow> view (set_slice_enabled sdk s on h) = (view h)\<lparr>vw_running := (vw_running (view h))(s := on)\<rparr>)
   \<and> (\<forall>h g f. view (gpio_set_function sdk g f h) = (view h)\<lparr>vw_function := (vw_function (view h))(g := f)\<rparr>)
   \<and> (\<forall>h g on. view (gpio_set_dir_out sdk g h) = view h \<and> view (gpio_put sdk g on h) = view h)"

lemma pwm_sdk_reads:
  assumes "pwm_sdk_ok sdk view"
  shows "gpio_to_slice_num sdk g < 32" and "gpio_to_channel sdk g = g AND 1" and "hw_top sdk s h = vw_top (view h) s"
    and "hw_div sdk s h = vw_div (view h) s" and "(hw_csr sdk s h AND ch0_csr_a_inv_bits sdk \<noteq> 0) = vw_inverted (view h) s 0"
    and "(hw_csr sdk s h AND ch0_csr_b_inv_bits sdk \<noteq> 0) = vw_inverted (view h) s 1"
    and "gpio_get_function sdk g h = vw_function (view h) g"
    and "s < 32 \<Longrightarrow> slice_is_enabled sdk s h = vw_running (view h) s"
  using assms unfolding pwm_sdk_ok_def slice_is_enabled_def by simp_all

lemma pwm_sdk_writes:
  assumes "pwm_sdk_ok sdk view"
  shows "view (set_clkdiv_int_frac sdk s i f h) = (view h)\<lparr>vw_div := (vw_div (view h))(s := push_bit 4 (ucast i) OR ucast f)\<rparr>"
    and "view (pwm_sdk.set_wrap sdk s w h) = (view h)\<lparr>vw_top := (vw_top (view h))(s := ucast w)\<rparr>"
    and "view (set_output_polarity sdk s a b h)
      = (view h)\<lparr>vw_inverted := (vw_inverted (view h))(s := (vw_inverted (view h) s)(0 := a, 1 := b))\<rparr>"
    and "view (set_chan_level sdk s c l h) = (view h)\<lparr>vw_level := (vw_level (view h))(s := (vw_level (view h) s)(c := l))\<rparr>"
    and "s < 32 \<Longrightarrow> view (set_slice_enabled sdk s on h) = (view h)\<lparr>vw_running := (vw_running (view h))(s := on)\<rparr>"
    and "view (gpio_set_function sdk g fn h) = (view h)\<lparr>vw_function := (vw_function (view h))(g := fn)\<rparr>"
    and "view (gpio_set_dir_out sdk g h) = view h" and "view (gpio_put sdk g on h) = view h"
  using assms unfolding pwm_sdk_ok_def by simp_all

lemma channel_cases: "pwm_sdk_ok sdk view \<Longrightarrow> gpio_to_channel sdk g = 0 \<or> gpio_to_channel sdk g = 1"
  by (simp add: pwm_sdk_reads(2) and_one_eq mod2_eq_if)

subsection \<open>What an output touches\<close>

text \<open>The settings of an output on the hardware: its timing, its polarity and the level of its duty.\<close>

definition shows_output :: "pwm_view \<Rightarrow> pwm_out_t \<Rightarrow> bool" where
  "shows_output v out \<longleftrightarrow> vw_top v (po_slice out) = ucast (wrap (po_timing out))
     \<and> vw_div v (po_slice out) = div_register_value (po_timing out)
     \<and> vw_inverted v (po_slice out) (po_channel out) = cfg_invert (po_config out)
     \<and> vw_level v (po_slice out) (po_channel out) = pwm_timing_level_for_duty (Some (po_timing out)) (po_duty out)"

text \<open>Nothing but one channel, and the wrap and divider of its slice, differs between two views.\<close>

definition only_channel :: "u32 \<Rightarrow> u32 \<Rightarrow> pwm_view \<Rightarrow> pwm_view \<Rightarrow> bool" where
  "only_channel s c v v' \<longleftrightarrow> (\<forall>n k. (n, k) \<noteq> (s, c) \<longrightarrow> vw_level v' n k = vw_level v n k \<and> vw_inverted v' n k = vw_inverted v n k)
     \<and> (\<forall>n. n \<noteq> s \<longrightarrow> vw_top v' n = vw_top v n \<and> vw_div v' n = vw_div v n \<and> vw_running v' n = vw_running v n)"

lemma apply_timing_view:
  "pwm_sdk_ok sdk view \<Longrightarrow> view (apply_timing sdk out h) =
    (view h)\<lparr>vw_div := (vw_div (view h))(po_slice out := div_register_value (po_timing out)),
      vw_top := (vw_top (view h))(po_slice out := ucast (wrap (po_timing out)))\<rparr>"
  by (simp add: apply_timing_def Let_def pwm_sdk_writes div_register_value_def)

lemma apply_polarity_view:
  assumes "pwm_sdk_ok sdk view" and "po_channel out = 0 \<or> po_channel out = 1"
  shows "view (apply_polarity sdk out invert h) = (view h)\<lparr>vw_inverted := (vw_inverted (view h))
    (po_slice out := (vw_inverted (view h) (po_slice out))(po_channel out := invert))\<rparr>"
  using assms(2) by (auto simp: apply_polarity_def Let_def pwm_sdk_reads [OF assms(1)] pwm_sdk_writes [OF assms(1)] fun_eq_iff
    intro!: arg_cong [where f = "\<lambda>x. (view h)\<lparr>vw_inverted := x\<rparr>"])

lemma apply_duty_view:
  "pwm_sdk_ok sdk view \<Longrightarrow> view (apply_duty sdk out h) = (view h)\<lparr>vw_level := (vw_level (view h))
    (po_slice out := (vw_level (view h) (po_slice out))(po_channel out := pwm_timing_level_for_duty (Some (po_timing out)) (po_duty out)))\<rparr>"
  by (simp add: apply_duty_def pwm_sdk_writes)

lemma init_cases:
  assumes "pwm_out_init sdk out config h = (r, out', h')" and "r = PWM_OK"
  obtains cfg clock t o0 where "config = Some cfg" and "cfg_gpio cfg < num_bank0_gpios sdk"
    and "pwm_timing_for_frequency (clock_get_hz sdk h) (cfg_frequency_hz cfg) (Some no_timing) = (PWM_TIMING_OK, Some t)"
    and "\<not> slice_conflicts sdk (gpio_to_slice_num sdk (cfg_gpio cfg)) t h"
    and "o0 = \<lparr>po_config = cfg, po_timing = t, po_clock_hz = clock_get_hz sdk h, po_duty = cfg_duty cfg,
      po_slice = gpio_to_slice_num sdk (cfg_gpio cfg), po_channel = gpio_to_channel sdk (cfg_gpio cfg), po_enabled = False, po_initialised = True\<rparr>"
    and "out' = Some (o0\<lparr>po_enabled := cfg_start_enabled cfg\<rparr>)"
    and "h' = (if cfg_start_enabled cfg then set_slice_enabled sdk (po_slice o0) True else (\<lambda>h. h))
      (gpio_set_function sdk (cfg_gpio cfg) (gpio_func_pwm sdk) (apply_duty sdk o0 (apply_polarity sdk o0 (cfg_invert cfg) (apply_timing sdk o0 h))))"
proof -
  have computed: "x \<noteq> None" if "pwm_timing_for_frequency c f (Some no_timing) = (PWM_TIMING_OK, x)" for c f x
    using that by (auto simp: pwm_timing_for_frequency_def Let_def split: if_splits)
  have unused: "result_for_timing c \<noteq> PWM_OK" if "c \<noteq> PWM_TIMING_OK" for c
    using that by (cases c) simp_all
  show thesis
  proof (cases config)
    case (Some cfg)
    obtain c x where c: "pwm_timing_for_frequency (clock_get_hz sdk h) (cfg_frequency_hz cfg) (Some no_timing) = (c, x)" by fastforce
    have "c = PWM_TIMING_OK" using assms unused c Some by (auto simp: pwm_out_init_def Let_def split: if_splits)
    moreover from this c computed obtain t where "x = Some t" by blast
    ultimately show thesis
      using assms c Some by (intro that [of cfg t]) (auto simp: pwm_out_init_def Let_def split: if_splits)
  qed (use assms in \<open>simp add: pwm_out_init_def\<close>)
qed

lemma init_refused: "pwm_out_init sdk out config h = (r, out', h') \<Longrightarrow> r \<noteq> PWM_OK \<Longrightarrow> out' = out \<and> h' = h"
  by (auto simp: pwm_out_init_def Let_def split: if_splits prod.splits)

lemma init_effect:
  assumes "pwm_sdk_ok sdk view" and "pwm_out_init sdk out config h = (r, out', h')"
  shows "if r \<noteq> PWM_OK then out' = out \<and> h' = h
    else (\<exists>o' cfg. out' = Some o' \<and> config = Some cfg \<and> po_config o' = cfg
      \<and> (\<forall>n. vw_running (view h) n \<and> n < 32 \<longrightarrow> vw_top (view h') n = vw_top (view h) n \<and> vw_div (view h') n = vw_div (view h) n
            \<and> vw_running (view h') n)
      \<and> only_channel (po_slice o') (po_channel o') (view h) (view h') \<and> shows_output (view h') o'
      \<and> vw_function (view h') = (vw_function (view h))(cfg_gpio cfg := gpio_func_pwm sdk)
      \<and> vw_running (view h') (po_slice o') = (vw_running (view h) (po_slice o') \<or> cfg_start_enabled cfg))"
proof (cases "r = PWM_OK")
  case True
  obtain cfg t o0 where cfg: "config = Some cfg" and free: "\<not> slice_conflicts sdk (gpio_to_slice_num sdk (cfg_gpio cfg)) t h"
    and o0: "o0 = \<lparr>po_config = cfg, po_timing = t, po_clock_hz = clock_get_hz sdk h, po_duty = cfg_duty cfg,
      po_slice = gpio_to_slice_num sdk (cfg_gpio cfg), po_channel = gpio_to_channel sdk (cfg_gpio cfg), po_enabled = False, po_initialised = True\<rparr>"
    and out': "out' = Some (o0\<lparr>po_enabled := cfg_start_enabled cfg\<rparr>)"
    and h': "h' = (if cfg_start_enabled cfg then set_slice_enabled sdk (po_slice o0) True else (\<lambda>h. h))
      (gpio_set_function sdk (cfg_gpio cfg) (gpio_func_pwm sdk) (apply_duty sdk o0 (apply_polarity sdk o0 (cfg_invert cfg) (apply_timing sdk o0 h))))"
    using init_cases [OF assms(2) True] by metis
  note ok = assms(1)
  have channel: "po_channel o0 = 0 \<or> po_channel o0 = 1" using channel_cases [OF ok] by (simp add: o0)
  have small: "po_slice o0 < 32" using pwm_sdk_reads(1) [OF ok] by (simp add: o0)
  have settled: "vw_running (view h) (po_slice o0) \<longrightarrow> vw_top (view h) (po_slice o0) = ucast (wrap t)
      \<and> vw_div (view h) (po_slice o0) = div_register_value t"
    using free pwm_sdk_reads(1,3,4,8) [OF ok] by (simp add: slice_conflicts_def o0 split: if_splits)
  have v: "view h' = (view h)\<lparr>
      vw_running := (vw_running (view h))(po_slice o0 := vw_running (view h) (po_slice o0) \<or> cfg_start_enabled cfg),
      vw_top := (vw_top (view h))(po_slice o0 := ucast (wrap t)), vw_div := (vw_div (view h))(po_slice o0 := div_register_value t),
      vw_inverted := (vw_inverted (view h))(po_slice o0 := (vw_inverted (view h) (po_slice o0))(po_channel o0 := cfg_invert cfg)),
      vw_level := (vw_level (view h))(po_slice o0 := (vw_level (view h) (po_slice o0))(po_channel o0 :=
        pwm_timing_level_for_duty (Some t) (cfg_duty cfg))),
      vw_function := (vw_function (view h))(cfg_gpio cfg := gpio_func_pwm sdk)\<rparr>"
    unfolding h' by (simp add: small pwm_sdk_writes [OF ok] apply_duty_view [OF ok] apply_polarity_view [OF ok channel] apply_timing_view [OF ok])
      (simp add: o0)
  show ?thesis
    using True settled unfolding out' cfg v by (auto simp: only_channel_def shows_output_def o0)
qed (use init_refused [OF assms(2)] in simp)

text \<open>C32: configuring an output disturbs no other one. A refused \<open>pwm_out_init\<close> changes nothing. One that succeeds leaves the
  wrap and the divider of every running slice, its own included, as they were, and every running slice running; it changes
  the level and the inversion of its own channel only; and its own settings are what it was asked for: the computed timing, the
  inversion, the level of its duty, and a slice that counts if it counted before or is to be started.\<close>

theorem pwm_init_disturbs_nothing:
  assumes "pwm_sdk_ok sdk view" and "pwm_out_init sdk out config h = (r, out', h')"
  shows "if r \<noteq> PWM_OK then out' = out \<and> h' = h
    else (\<exists>o' cfg. out' = Some o' \<and> config = Some cfg \<and> po_config o' = cfg
      \<and> (\<forall>n. vw_running (view h) n \<and> n < 32 \<longrightarrow> vw_top (view h') n = vw_top (view h) n \<and> vw_div (view h') n = vw_div (view h) n
            \<and> vw_running (view h') n)
      \<and> only_channel (po_slice o') (po_channel o') (view h) (view h') \<and> shows_output (view h') o'
      \<and> vw_function (view h') = (vw_function (view h))(cfg_gpio cfg := gpio_func_pwm sdk)
      \<and> vw_running (view h') (po_slice o') = (vw_running (view h) (po_slice o') \<or> cfg_start_enabled cfg))"
  by (rule init_effect [OF assms])

subsection \<open>Pulses\<close>

lemma pulse_level_bound:
  assumes "unat (wrap t) < 65535"
  shows "unat (pwm_timing_level_for_pulse_us clock_hz (Some t) pulse_us) \<le> period_counts t"
  using assms by (auto simp: pwm_timing_level_for_pulse_us_def Let_def period_counts_def unat_of_nat_lt unat_word_ariths)

lemma scaled_back:
  fixes l p :: nat
  assumes "l \<le> p" and "0 < p" and "p \<le> 65535"
  shows "(((l * 65535 + p div 2) div p) * p + 32767) div 65535 = l" and "(l * 65535 + p div 2) div p \<le> 65535"
proof -
  let ?n = "l * 65535 + p div 2"
  have "?n div p * p + ?n mod p = ?n" "?n mod p < p" using assms(2) by (simp_all del: add_mult_distrib)
  moreover have "p div 2 \<le> 32767" "p - p div 2 \<le> 32768" using assms(3) by linarith+
  ultimately have "l * 65535 \<le> ?n div p * p + 32767" "?n div p * p + 32767 < l * 65535 + 65535" by linarith+
  then show "(?n div p * p + 32767) div 65535 = l" by (intro div_nat_eqI) simp_all
  have "?n < 65536 * p" using assms by linarith
  then have "?n div p < 65536" by (simp add: div_less_iff_less_mult assms(2))
  then show "?n div p \<le> 65535" by simp
qed

text \<open>The duty that is stored when a pulse is set gives back the level of the pulse.\<close>

lemma pulse_duty_level:
  assumes "unat (wrap t) < 65535" and "unat level \<le> period_counts t"
  defines "period \<equiv> ucast (wrap t) + 1 :: u32"
  shows "pwm_timing_level_for_duty (Some t) (ucast ((ucast level * 65535 + period div 2) div period)) = level"
proof -
  have p: "unat period = period_counts t" "0 < period_counts t" "period_counts t \<le> 65535"
    using assms(1) by (simp_all add: period_def period_counts_def unat_word_ariths unsigned_ucast_eq take_bit_nat_eq_self)
  have l: "unat (ucast level :: u32) = unat level"
    using unsigned_less [of level, where ?'a = nat] by (simp add: unsigned_ucast_eq take_bit_nat_eq_self)
  have "unat (ucast level * 65535 + period div 2) = unat level * 65535 + period_counts t div 2"
    using assms(2) p l by (simp add: unat_word_ariths unat_div)
  then have "unat ((ucast level * 65535 + period div 2) div period) = (unat level * 65535 + period_counts t div 2) div period_counts t"
    by (simp add: unat_div p(1))
  moreover note scaled_back [OF assms(2) p(2,3)]
  ultimately have "unat (ucast ((ucast level * 65535 + period div 2) div period) :: u16)
      = (unat level * 65535 + period_counts t div 2) div period_counts t"
    by (simp add: unsigned_ucast_eq take_bit_nat_eq_self)
  then have "unat (pwm_timing_level_for_duty (Some t) (ucast ((ucast level * 65535 + period div 2) div period))) = unat level"
    unfolding level_for_duty_nat [OF assms(1)] using scaled_back(1) [OF assms(2) p(2,3)] by (simp add: div_round_def)
  then show ?thesis by (simp add: word_eq_unat_iff)
qed

subsection \<open>A running output\<close>

datatype pwm_call = Set_duty u16 | Set_percent u8 | Set_pulse u32 | Set_frequency u32 | Enable bool

primrec pwm_step :: "'h pwm_sdk \<Rightarrow> pwm_call \<Rightarrow> pwm_out_t option \<times> 'h \<Rightarrow> pwm_out_t option \<times> 'h" where
  "pwm_step sdk (Set_duty duty) s = snd (pwm_out_set_duty sdk (fst s) duty (snd s))"
| "pwm_step sdk (Set_percent percent) s = snd (pwm_out_set_duty_percent sdk (fst s) percent (snd s))"
| "pwm_step sdk (Set_pulse pulse_us) s = snd (pwm_out_set_pulse_us sdk (fst s) pulse_us (snd s))"
| "pwm_step sdk (Set_frequency hz) s = snd (pwm_out_set_frequency sdk (fst s) hz (snd s))"
| "pwm_step sdk (Enable on) s = pwm_out_enable sdk (fst s) on (snd s)"

text \<open>The invariant: the object in use, on its slice and channel, and the hardware as it says.\<close>

definition driven :: "('h \<Rightarrow> pwm_view) \<Rightarrow> u32 \<Rightarrow> u32 \<Rightarrow> pwm_out_t option \<times> 'h \<Rightarrow> bool" where
  "driven view s c st \<longleftrightarrow> s < 32 \<and> (\<exists>out. fst st = Some out \<and> po_initialised out \<and> po_slice out = s \<and> po_channel out = c
     \<and> unat (wrap (po_timing out)) < 65535 \<and> shows_output (view (snd st)) out)"

lemma computed_wrap:
  assumes "pwm_timing_for_frequency clock_hz hz (Some t0) = (PWM_TIMING_OK, Some t)"
  shows "unat (wrap t) < 65535"
proof -
  have "clock_hz \<noteq> 0" "hz \<noteq> 0" using assms by (auto simp: pwm_timing_for_frequency_def split: if_splits)
  then have t: "16 \<le> period_total clock_hz hz"
      "wrap t = word_of_nat (div_round (period_total clock_hz hz) (smallest_divider (period_total clock_hz hz)) - 1)"
    using assms by (auto simp: for_frequency_cases split: if_splits)
  have "unat (word_of_nat (n - 1) :: u16) < 65535" if "1 \<le> n" "n \<le> 65535" for n
    using that by (subst unat_of_nat_lt) simp_all
  from this [OF counter_fits [OF t(1)]] show ?thesis unfolding t(2) .
qed

lemma only_channel_refl [simp]: "only_channel s c v v"
  by (simp add: only_channel_def)

lemma only_channel_trans: "only_channel s c u v \<Longrightarrow> only_channel s c v w \<Longrightarrow> only_channel s c u w"
  by (simp add: only_channel_def)

lemma duty_step:
  assumes ok: "pwm_sdk_ok sdk view" and d: "driven view s c (out, h)"
  shows "driven view s c (snd (pwm_out_set_duty sdk out duty h))"
    and "only_channel s c (view h) (view (snd (snd (pwm_out_set_duty sdk out duty h))))"
  using d by (auto simp: driven_def pwm_out_set_duty_def usable_out_def Let_def shows_output_def only_channel_def apply_duty_view [OF ok])

lemma frequency_step:
  assumes ok: "pwm_sdk_ok sdk view" and d: "driven view s c (out, h)"
  shows "driven view s c (snd (pwm_out_set_frequency sdk out hz h)) \<and> only_channel s c (view h) (view (snd (snd (pwm_out_set_frequency sdk out hz h))))"
proof -
  obtain o0 where o0: "out = Some o0" "po_initialised o0" "po_slice o0 = s" "po_channel o0 = c" using d by (auto simp: driven_def)
  obtain r x where f: "pwm_timing_for_frequency (po_clock_hz o0) hz (Some no_timing) = (r, x)" by fastforce
  show ?thesis
  proof (cases "r = PWM_TIMING_OK")
    case True
    with f obtain t where t: "pwm_timing_for_frequency (po_clock_hz o0) hz (Some no_timing) = (PWM_TIMING_OK, Some t)"
      by (auto simp: pwm_timing_for_frequency_def Let_def split: if_splits)
    from computed_wrap [OF t] d show ?thesis
      by (auto simp: driven_def pwm_out_set_frequency_def usable_out_def t o0 Let_def shows_output_def only_channel_def
        apply_duty_view [OF ok] apply_timing_view [OF ok])
  next
    case False
    then show ?thesis using d by (simp add: pwm_out_set_frequency_def usable_out_def f o0 Let_def)
  qed
qed

lemma pulse_step:
  assumes ok: "pwm_sdk_ok sdk view" and d: "driven view s c (out, h)"
  shows "driven view s c (snd (pwm_out_set_pulse_us sdk out us h)) \<and> only_channel s c (view h) (view (snd (snd (pwm_out_set_pulse_us sdk out us h))))"
proof -
  obtain o0 where o0: "out = Some o0" "po_initialised o0" "po_slice o0 = s" "po_channel o0 = c"
    "unat (wrap (po_timing o0)) < 65535" using d by (auto simp: driven_def)
  note level_back = pulse_duty_level [OF o0(5) pulse_level_bound [OF o0(5)], of "po_clock_hz o0" us, folded pwm_out_resolution_def]
  from d o0 show ?thesis
    by (auto simp: driven_def pwm_out_set_pulse_us_def usable_out_def Let_def shows_output_def only_channel_def pwm_sdk_writes(4) [OF ok]
      level_back pwm_out_resolution_def [symmetric])
qed

lemma pwm_step_drives:
  assumes ok: "pwm_sdk_ok sdk view" and d: "driven view s c st"
  shows "driven view s c (pwm_step sdk call st) \<and> only_channel s c (view (snd st)) (view (snd (pwm_step sdk call st)))"
proof -
  obtain out h where st: "st = (out, h)" by fastforce
  show ?thesis
  proof (cases call)
    case (Set_percent percent)
    then show ?thesis using duty_step [OF ok d [unfolded st]] d by (simp add: st pwm_out_set_duty_percent_def)
  next
    case (Enable enabled)
    then show ?thesis using d
      by (auto simp: st pwm_out_enable_def driven_def usable_out_def shows_output_def only_channel_def pwm_sdk_writes(5) [OF ok])
  qed (use duty_step [OF ok d [unfolded st]] frequency_step [OF ok d [unfolded st]] pulse_step [OF ok d [unfolded st]] in \<open>simp_all add: st\<close>)
qed

text \<open>Whatever is done with an output once it is configured, the hardware carries what its object says (the pulse that was set
  last as well, through the duty that stands for it), and of the other channels and slices no level, polarity, wrap, divider or
  counter is touched.\<close>

lemma pwm_output_is_shown:
  assumes ok: "pwm_sdk_ok sdk view" and init: "pwm_out_init sdk (Some before) (Some cfg) h = (PWM_OK, out, h')"
  defines "s \<equiv> gpio_to_slice_num sdk (cfg_gpio cfg)" and "c \<equiv> gpio_to_channel sdk (cfg_gpio cfg)"
  shows "driven view s c (fold (pwm_step sdk) cs (out, h'))
    \<and> only_channel s c (view h) (view (snd (fold (pwm_step sdk) cs (out, h'))))"
proof -
  have start: "driven view s c (out, h') \<and> only_channel s c (view h) (view h')"
  proof -
    from init_cases [OF init refl] obtain t where t: "pwm_timing_for_frequency (clock_get_hz sdk h) (cfg_frequency_hz cfg) (Some no_timing) = (PWM_TIMING_OK, Some t)"
      and out: "out = Some \<lparr>po_config = cfg, po_timing = t, po_clock_hz = clock_get_hz sdk h, po_duty = cfg_duty cfg,
        po_slice = s, po_channel = c, po_enabled = cfg_start_enabled cfg, po_initialised = True\<rparr>" unfolding s_def c_def by auto
    from init_effect [OF ok init] computed_wrap [OF t] pwm_sdk_reads(1) [OF ok, of "cfg_gpio cfg"] show ?thesis by (auto simp: driven_def out s_def)
  qed
  have "driven view s c (fold (pwm_step sdk) cs st) \<and> only_channel s c (view h) (view (snd (fold (pwm_step sdk) cs st)))"
    if "driven view s c st \<and> only_channel s c (view h) (view (snd st))" for st
    using that
  proof (induction cs arbitrary: st)
    case (Cons call cs)
    then show ?case using pwm_step_drives [OF ok, of s c st call] only_channel_trans by simp blast
  qed simp
  from this [of "(out, h')"] start show ?thesis by simp
qed

subsection \<open>Stopping an output\<close>

lemma pwm_deinit_view:
  assumes ok: "pwm_sdk_ok sdk view" and "po_initialised out" and "po_slice out < 32"
    and deinit: "pwm_out_deinit sdk (Some out) h = (out', h')"
  defines "gpio \<equiv> cfg_gpio (po_config out)"
  defines "shared \<equiv> gpio_to_slice_num sdk (gpio XOR 1) = po_slice out \<and> vw_function (view h) (gpio XOR 1) = gpio_func_pwm sdk"
  shows "view h' = (view h)\<lparr>vw_level := (vw_level (view h))(po_slice out := (vw_level (view h) (po_slice out))(po_channel out := 0)),
    vw_running := (vw_running (view h))(po_slice out := vw_running (view h) (po_slice out) \<and> shared),
    vw_function := (vw_function (view h))(gpio := gpio_func_sio sdk)\<rparr>"
proof -
  have keep: "(vw_running v)(k := vw_running v k) = vw_running v" for v k by simp
  show ?thesis
    using deinit assms(2,3) unfolding gpio_def shared_def
    by (auto simp: pwm_out_deinit_def Let_def pwm_sdk_writes [OF ok] pwm_sdk_reads(7) [OF ok])
qed

subsection \<open>The block of the RP2040\<close>

text \<open>Its eight slices repeat after sixteen pins. The state is the enable register and the view of the others.\<close>

definition rp2040_view :: "u32 \<times> pwm_view \<Rightarrow> pwm_view" where
  "rp2040_view h = (snd h)\<lparr>vw_running := (\<lambda>s. bit (fst h) (unat s))\<rparr>"

definition rp2040_pwm :: "(u32 \<times> pwm_view) pwm_sdk" where
  "rp2040_pwm = \<lparr>clock_get_hz = (\<lambda>h. 125000000), num_bank0_gpios = 30, gpio_func_pwm = 4, gpio_func_sio = 5,
     ch0_csr_a_inv_bits = 4, ch0_csr_b_inv_bits = 8, gpio_to_slice_num = (\<lambda>g. drop_bit 1 g AND 7), gpio_to_channel = (\<lambda>g. g AND 1),
     hw_en = fst, hw_top = (\<lambda>s h. vw_top (snd h) s), hw_div = (\<lambda>s h. vw_div (snd h) s),
     hw_csr = (\<lambda>s h. (if vw_inverted (snd h) s 0 then 4 else 0) OR (if vw_inverted (snd h) s 1 then 8 else 0)),
     gpio_get_function = (\<lambda>g h. vw_function (snd h) g),
     set_clkdiv_int_frac = (\<lambda>s i f h. (fst h, (snd h)\<lparr>vw_div := (vw_div (snd h))(s := push_bit 4 (ucast i) OR ucast f)\<rparr>)),
     set_wrap = (\<lambda>s w h. (fst h, (snd h)\<lparr>vw_top := (vw_top (snd h))(s := ucast w)\<rparr>)),
     set_output_polarity = (\<lambda>s a b h. (fst h, (snd h)\<lparr>vw_inverted := (vw_inverted (snd h))(s := (vw_inverted (snd h) s)(0 := a, 1 := b))\<rparr>)),
     set_chan_level = (\<lambda>s c l h. (fst h, (snd h)\<lparr>vw_level := (vw_level (snd h))(s := (vw_level (snd h) s)(c := l))\<rparr>)),
     set_slice_enabled = (\<lambda>s on h. (if on then fst h OR push_bit (unat s) 1 else fst h AND NOT (push_bit (unat s) 1), snd h)),
     gpio_set_function = (\<lambda>g f h. (fst h, (snd h)\<lparr>vw_function := (vw_function (snd h))(g := f)\<rparr>)),
     gpio_set_dir_out = (\<lambda>g h. h), gpio_put = (\<lambda>g on h. h)\<rparr>"

lemma rp2040_pwm_ok: "pwm_sdk_ok rp2040_pwm rp2040_view"
proof -
  have "drop_bit 1 g AND 7 < (32 :: u32)" for g :: u32
    by (rule le_less_trans [OF word_and_le1]) simp
  moreover have "(\<lambda>k. bit (en OR 2 ^ unat s) (unat k)) = (\<lambda>k. bit en (unat k))(s := True)"
      "(\<lambda>k. bit (en AND NOT (2 ^ unat s)) (unat k)) = (\<lambda>k. bit en (unat k))(s := False)" if "unat s < 32" for en s :: u32
    using that by (auto simp: fun_eq_iff bit_simps word_eq_unat_iff dest: bit_imp_le_length)
  ultimately show ?thesis
    unfolding pwm_sdk_ok_def
    by (auto simp: rp2040_pwm_def rp2040_view_def and_exp_eq_0_iff_not_bit word_less_nat_alt)
qed

definition idle_block :: "u32 \<times> pwm_view" where
  "idle_block = (0, \<lparr>vw_running = (\<lambda>s. False), vw_top = (\<lambda>s. 0xFFFF), vw_div = (\<lambda>s. 16), vw_inverted = (\<lambda>s c. False),
     vw_level = (\<lambda>s c. 0), vw_function = (\<lambda>g. 31)\<rparr>)"

definition pin :: "u32 \<Rightarrow> pwm_out_config_t" where
  "pin gpio = \<lparr>cfg_gpio = gpio, cfg_frequency_hz = 1000, cfg_duty = 0, cfg_invert = False, cfg_start_enabled = True\<rparr>"

definition blank_out :: pwm_out_t where
  "blank_out = \<lparr>po_config = pin 0, po_timing = no_timing, po_clock_hz = 0, po_duty = 0, po_slice = 0, po_channel = 0,
     po_enabled = False, po_initialised = False\<rparr>"

lemma idle_timing: "pwm_timing_for_frequency 125000000 1000 (Some no_timing)
    = (PWM_TIMING_OK, Some \<lparr>divider_int = 1, divider_frac = 15, wrap = 64515\<rparr>)"
  by (simp add: pwm_timing_for_frequency_def Let_def div_round_def)

lemma pwm_init_disturbs_nothing_witness:
  "\<exists>o' h'. pwm_out_init rp2040_pwm (Some blank_out) (Some (pin 17)) idle_block = (PWM_OK, Some o', h') \<and> po_config o' = pin 17
    \<and> shows_output (rp2040_view h') o' \<and> vw_running (rp2040_view h') (po_slice o')"
proof -
  obtain r out' h' where init: "pwm_out_init rp2040_pwm (Some blank_out) (Some (pin 17)) idle_block = (r, out', h')" by (metis prod_cases3)
  have "r = PWM_OK"
    using init by (simp add: pwm_out_init_def pin_def rp2040_pwm_def idle_block_def slice_conflicts_def slice_is_enabled_def idle_timing Let_def)
  with init pwm_init_disturbs_nothing [OF rp2040_pwm_ok init] show ?thesis by (auto simp: pin_def)
qed

text \<open>The pin beside is not the only one on a slice: with pin 0 and pin 17 in use, which share slice 0, taking pin 0 out of use
  stops the counter that pin 17 runs on, since only pin 1 is asked for.\<close>

lemma pwm_deinit_stops_pin_17:
  assumes "po_initialised out" and "cfg_gpio (po_config out) = 0" and "po_slice out = 0" and "vw_function (snd h) 1 \<noteq> 4"
    and "vw_function (snd h) 17 = 4" and "vw_running (rp2040_view h) 0"
  shows "pwm_gpio_shares_slice rp2040_pwm 0 17"
    and "vw_function (rp2040_view (snd (pwm_out_deinit rp2040_pwm (Some out) h))) 17 = 4"
    and "\<not> vw_running (rp2040_view (snd (pwm_out_deinit rp2040_pwm (Some out) h))) 0"
proof -
  obtain out' h' where d: "pwm_out_deinit rp2040_pwm (Some out) h = (out', h')" by (cases "pwm_out_deinit rp2040_pwm (Some out) h")
  have "po_slice out < 32" by (simp add: assms(3))
  note v = pwm_deinit_view [OF rp2040_pwm_ok assms(1) this d]
  show "pwm_gpio_shares_slice rp2040_pwm 0 17" by (simp add: pwm_gpio_shares_slice_def rp2040_pwm_def)
  show "vw_function (rp2040_view (snd (pwm_out_deinit rp2040_pwm (Some out) h))) 17 = 4"
    "\<not> vw_running (rp2040_view (snd (pwm_out_deinit rp2040_pwm (Some out) h))) 0"
    using assms unfolding d snd_conv v by (simp_all add: rp2040_view_def rp2040_pwm_def)
qed

end
