(* ===== verification/Ws2812.thy ===== *)
theory Ws2812
  imports Ws2812_Color
begin

text \<open>
  The driver of addressable strips, \<open>ws2812/ws2812.c\<close>. The Pico SDK is the parameter \<open>sdk\<close>, which acts on a state \<open>'h\<close> of
  the hardware; the calls that only set something up or start it are one function, \<open>ws_do\<close>, of the call and its
  arguments. The table \<open>g_program\<close> of the file, one entry for each PIO block, is part of the state. A strip holds the
  pixels and the wire buffer its pointers lead to; times are naturals. The busy waits are partial functions: \<open>None\<close> is a
  wait that does not end. The lemmas show how the strips of a block share the program, what is
  sent for a frame, and that the waits end.
\<close>

subsection \<open>The SDK\<close>

datatype ws_setting = Sideset_pins nat | Out_shift bool bool nat | Fifo_join_tx
  | Clkdiv_quotient u32 u32 nat

datatype ws_op = Remove_program nat nat | Sm_unclaim nat nat | Dma_abort nat | Dma_unclaim nat | Pio_gpio_init nat nat
  | Consecutive_pindirs nat nat nat nat bool | Sm_init nat nat nat "ws_setting list" | Sm_enabled nat nat bool
  | Dma_configure nat nat nat nat | Fdebug_write nat u32 | Dma_start nat "u32 list" nat | Sm_put_blocking nat nat u32 | Sleep_us nat

record 'h ws_sdk =
  ws_clk_sys_hz :: u32
  ws_add_program :: "nat \<Rightarrow> 'h \<Rightarrow> int \<times> 'h"
  ws_claim_unused_sm :: "nat \<Rightarrow> 'h \<Rightarrow> int \<times> 'h"
  ws_dma_claim_unused :: "'h \<Rightarrow> int \<times> 'h"
  ws_dma_is_busy :: "nat \<Rightarrow> 'h \<Rightarrow> bool \<times> 'h"
  ws_fdebug :: "nat \<Rightarrow> 'h \<Rightarrow> u32 \<times> 'h"
  ws_time_us :: "'h \<Rightarrow> nat \<times> 'h"
  ws_do :: "ws_op \<Rightarrow> 'h \<Rightarrow> 'h"

definition ws_do_all :: "'h ws_sdk \<Rightarrow> ws_op list \<Rightarrow> 'h \<Rightarrow> 'h" where
  "ws_do_all sdk calls h = fold (ws_do sdk) calls h"

abbreviation (input) "WS2812_DEFAULT_FREQUENCY_HZ \<equiv> (800000 :: u32)"
abbreviation (input) "WS2812_RESET_US \<equiv> (300 :: nat)"
abbreviation (input) "WS2812_CYCLES_PER_BIT \<equiv> (10 :: nat)"
abbreviation (input) "PIO_FDEBUG_TXSTALL_LSB \<equiv> (24 :: nat)"
abbreviation (input) "WS2812_COLOR_BLACK \<equiv> \<lparr>color_r = 0, color_g = 0, color_b = 0, color_w = 0\<rparr>"

subsection \<open>The shared program\<close>

record program_slot =
  offset_plus_one :: u16
  users :: u16

definition program_acquire :: "'h ws_sdk \<Rightarrow> nat \<Rightarrow> program_slot list \<times> 'h \<Rightarrow> nat option \<times> program_slot list \<times> 'h" where
  "program_acquire sdk pio st =
     (case st of (programs, h) \<Rightarrow>
        (let slot = programs ! pio in
         case (if offset_plus_one slot = 0
               then (case ws_add_program sdk pio h of
                       (offset, h) \<Rightarrow> (if offset < 0 then None else Some (slot\<lparr>offset_plus_one := word_of_int (offset + 1)\<rparr>), h))
               else (Some slot, h)) of
           (None, h) \<Rightarrow> (None, programs, h)
         | (Some slot, h) \<Rightarrow>
             (Some (unat (offset_plus_one slot) - 1), programs[pio := slot\<lparr>users := users slot + 1\<rparr>], h)))"

definition program_release :: "'h ws_sdk \<Rightarrow> nat \<Rightarrow> program_slot list \<times> 'h \<Rightarrow> program_slot list \<times> 'h" where
  "program_release sdk pio st =
     (case st of (programs, h) \<Rightarrow>
        (let slot = programs ! pio in
         if users slot = 0 then (programs, h)
         else
           (let slot = slot\<lparr>users := users slot - 1\<rparr> in
            if users slot = 0
            then (programs[pio := slot\<lparr>offset_plus_one := 0\<rparr>],
                  ws_do sdk (Remove_program pio (unat (offset_plus_one slot) - 1)) h)
            else (programs[pio := slot], h))))"

subsection \<open>Strips\<close>

datatype ws2812_result_t = WS2812_OK | WS2812_ERR_INVALID_ARG | WS2812_ERR_NO_STATE_MACHINE | WS2812_ERR_NO_PROGRAM_SPACE
  | WS2812_ERR_NO_DMA_CHANNEL | WS2812_ERR_NO_WIRE_BUFFER | WS2812_ERR_BUSY

record ws2812_config_t =
  wc_pio :: "nat option"
  wc_pin :: nat
  wc_pixels :: "ws2812_color_t list option"
  wc_length :: u16
  wc_is_rgbw :: bool
  wc_order :: ws2812_order_t
  wc_frequency_hz :: u32
  wc_wire_buffer :: "u32 list option"

record ws2812_strip_t =
  ws_pio :: nat
  ws_sm :: nat
  ws_offset :: nat
  ws_pin :: nat
  ws_pixels :: "ws2812_color_t list"
  ws_length :: u16
  ws_is_rgbw :: bool
  ws_order :: ws2812_order_t
  ws_brightness :: u8
  ws_gamma_table :: "u8 list option"
  ws_wire_buffer :: "u32 list option"
  ws_dma_channel :: int
  ws_latch_ready_us :: nat
  ws_initialised :: bool

definition state_machine_configure :: "'h ws_sdk \<Rightarrow> ws2812_strip_t \<Rightarrow> u32 \<Rightarrow> ws_op list" where
  "state_machine_configure sdk strip frequency_hz =
     [Pio_gpio_init (ws_pio strip) (ws_pin strip), Consecutive_pindirs (ws_pio strip) (ws_sm strip) (ws_pin strip) 1 True,
      Sm_init (ws_pio strip) (ws_sm strip) (ws_offset strip)
        [Sideset_pins (ws_pin strip), Out_shift False True (if ws_is_rgbw strip then 32 else 24), Fifo_join_tx,
         Clkdiv_quotient (ws_clk_sys_hz sdk) frequency_hz WS2812_CYCLES_PER_BIT],
      Sm_enabled (ws_pio strip) (ws_sm strip) True]"

definition dma_configure :: "ws2812_strip_t \<Rightarrow> ws_op" where
  "dma_configure strip = Dma_configure (nat (ws_dma_channel strip)) (ws_pio strip) (ws_sm strip) (unat (ws_length strip))"

definition ws2812_fill :: "ws2812_strip_t option \<Rightarrow> ws2812_color_t \<Rightarrow> ws2812_strip_t option" where
  "ws2812_fill strip color =
     (case strip of
        None \<Rightarrow> None
      | Some s \<Rightarrow>
          if \<not> ws_initialised s then strip
          else Some (s\<lparr>ws_pixels := fold (\<lambda>i pixels. pixels[i := color]) [0..<unat (ws_length s)] (ws_pixels s)\<rparr>))"

definition ws2812_clear :: "ws2812_strip_t option \<Rightarrow> ws2812_strip_t option" where
  "ws2812_clear strip = ws2812_fill strip WS2812_COLOR_BLACK"

text \<open>The strip that is passed in is a pointer, \<open>has_strip\<close> whether it is one; what is in it is overwritten.
  \<open>None\<close> for the strip is the object left as it was.\<close>

definition ws2812_init :: "'h ws_sdk \<Rightarrow> bool \<Rightarrow> ws2812_config_t option \<Rightarrow> program_slot list \<times> 'h
    \<Rightarrow> ws2812_result_t \<times> ws2812_strip_t option \<times> program_slot list \<times> 'h" where
  "ws2812_init sdk has_strip config st =
     (case config of
        None \<Rightarrow> (WS2812_ERR_INVALID_ARG, None, st)
      | Some c \<Rightarrow>
          if \<not> has_strip \<or> wc_pio c = None \<or> wc_pixels c = None \<or> wc_length c = 0 then (WS2812_ERR_INVALID_ARG, None, st)
          else
            (let pio = the (wc_pio c) in
             case program_acquire sdk pio st of
               (None, st) \<Rightarrow> (WS2812_ERR_NO_PROGRAM_SPACE, None, st)
             | (Some offset, programs, h) \<Rightarrow>
                 (case ws_claim_unused_sm sdk pio h of
                    (sm, h) \<Rightarrow>
                      if sm < 0 then (WS2812_ERR_NO_STATE_MACHINE, None, program_release sdk pio (programs, h))
                      else
                        (case (if wc_wire_buffer c \<noteq> None then ws_dma_claim_unused sdk h else (- 1, h)) of
                           (dma_channel, h) \<Rightarrow>
                             if wc_wire_buffer c \<noteq> None \<and> dma_channel < 0
                             then (WS2812_ERR_NO_DMA_CHANNEL, None,
                                   program_release sdk pio (programs, ws_do sdk (Sm_unclaim pio (nat sm)) h))
                             else
                               (let strip = \<lparr>ws_pio = pio, ws_sm = nat sm, ws_offset = offset, ws_pin = wc_pin c,
                                      ws_pixels = the (wc_pixels c), ws_length = wc_length c, ws_is_rgbw = wc_is_rgbw c,
                                      ws_order = wc_order c, ws_brightness = 255, ws_gamma_table = None,
                                      ws_wire_buffer = wc_wire_buffer c, ws_dma_channel = dma_channel, ws_latch_ready_us = 0,
                                      ws_initialised = True\<rparr>;
                                    frequency = (if wc_frequency_hz c \<noteq> 0 then wc_frequency_hz c else WS2812_DEFAULT_FREQUENCY_HZ);
                                    h = ws_do_all sdk (state_machine_configure sdk strip frequency) h;
                                    h = (if 0 \<le> ws_dma_channel strip then ws_do sdk (dma_configure strip) h else h)
                                in (WS2812_OK, ws2812_clear (Some strip), programs, h))))))"

definition ws2812_deinit :: "'h ws_sdk \<Rightarrow> ws2812_strip_t option \<Rightarrow> program_slot list \<times> 'h
    \<Rightarrow> ws2812_strip_t option \<times> program_slot list \<times> 'h" where
  "ws2812_deinit sdk strip st =
     (case strip of
        None \<Rightarrow> (None, st)
      | Some s \<Rightarrow>
          if \<not> ws_initialised s then (strip, st)
          else
            (case st of (programs, h) \<Rightarrow>
               (let channel = nat (ws_dma_channel s);
                    dma = 0 \<le> ws_dma_channel s;
                    h = (if dma then ws_do_all sdk [Dma_abort channel, Dma_unclaim channel] h else h);
                    s = (if dma then s\<lparr>ws_dma_channel := - 1\<rparr> else s);
                    h = ws_do_all sdk [Sm_enabled (ws_pio s) (ws_sm s) False, Sm_unclaim (ws_pio s) (ws_sm s)] h;
                    st = program_release sdk (ws_pio s) (programs, h)
                in (Some (s\<lparr>ws_initialised := False\<rparr>), st))))"

definition ws_usable :: "ws2812_strip_t option \<Rightarrow> bool" where
  "ws_usable strip \<longleftrightarrow> (case strip of None \<Rightarrow> False | Some s \<Rightarrow> ws_initialised s)"

definition ws2812_set_pixel :: "ws2812_strip_t option \<Rightarrow> u16 \<Rightarrow> ws2812_color_t \<Rightarrow> ws2812_strip_t option" where
  "ws2812_set_pixel strip index color =
     (if \<not> ws_usable strip \<or> ws_length (the strip) \<le> index then strip
      else Some ((the strip)\<lparr>ws_pixels := (ws_pixels (the strip))[unat index := color]\<rparr>))"

definition ws2812_get_pixel :: "ws2812_strip_t option \<Rightarrow> u16 \<Rightarrow> ws2812_color_t" where
  "ws2812_get_pixel strip index =
     (if \<not> ws_usable strip \<or> ws_length (the strip) \<le> index then WS2812_COLOR_BLACK
      else ws_pixels (the strip) ! unat index)"

definition ws2812_set_brightness :: "ws2812_strip_t option \<Rightarrow> u8 \<Rightarrow> ws2812_strip_t option" where
  "ws2812_set_brightness strip brightness =
     (if \<not> ws_usable strip then strip else Some ((the strip)\<lparr>ws_brightness := brightness\<rparr>))"

definition ws2812_get_brightness :: "ws2812_strip_t option \<Rightarrow> u8" where
  "ws2812_get_brightness strip = (if ws_usable strip then ws_brightness (the strip) else 0)"

definition ws2812_set_gamma :: "ws2812_strip_t option \<Rightarrow> u8 list option \<Rightarrow> ws2812_strip_t option" where
  "ws2812_set_gamma strip table = (if \<not> ws_usable strip then strip else Some ((the strip)\<lparr>ws_gamma_table := table\<rparr>))"

definition ws2812_set_order :: "ws2812_strip_t option \<Rightarrow> ws2812_order_t \<Rightarrow> ws2812_strip_t option" where
  "ws2812_set_order strip order = (if \<not> ws_usable strip then strip else Some ((the strip)\<lparr>ws_order := order\<rparr>))"

definition ws2812_get_order :: "ws2812_strip_t option \<Rightarrow> ws2812_order_t" where
  "ws2812_get_order strip = (if ws_usable strip then ws_order (the strip) else WS2812_ORDER_GRB)"

subsection \<open>Frames\<close>

definition stall_mask :: "ws2812_strip_t \<Rightarrow> u32" where
  "stall_mask strip = push_bit (PIO_FDEBUG_TXSTALL_LSB + ws_sm strip) 1"

definition encode_pixel :: "ws2812_strip_t \<Rightarrow> nat \<Rightarrow> u32" where
  "encode_pixel strip index =
     (let color = ws_pixels strip ! index;
          color = (if ws_brightness strip \<noteq> 255 then ws2812_color_scale color (ws_brightness strip) else color);
          color = (case ws_gamma_table strip of
                     None \<Rightarrow> color
                   | Some table \<Rightarrow> \<lparr>color_r = table ! unat (color_r color), color_g = table ! unat (color_g color),
                       color_b = table ! unat (color_b color), color_w = table ! unat (color_w color)\<rparr>)
      in ws2812_color_to_wire color (ws_is_rgbw strip) (ws_order strip))"

definition fill_wire_buffer :: "ws2812_strip_t \<Rightarrow> ws2812_strip_t" where
  "fill_wire_buffer strip =
     strip\<lparr>ws_wire_buffer := map_option (fold (\<lambda>i buffer. buffer[i := encode_pixel strip i]) [0..<unat (ws_length strip)])
       (ws_wire_buffer strip)\<rparr>"

definition ws2812_is_busy :: "'h ws_sdk \<Rightarrow> ws2812_strip_t option \<Rightarrow> 'h \<Rightarrow> bool \<times> ws2812_strip_t option \<times> 'h" where
  "ws2812_is_busy sdk strip h =
     (if \<not> ws_usable strip then (False, strip, h)
      else
        (let s = the strip in
         case (if 0 \<le> ws_dma_channel s then ws_dma_is_busy sdk (nat (ws_dma_channel s)) h else (False, h)) of
           (feeding, h) \<Rightarrow>
             if feeding then (True, strip, h)
             else
               (case ws_fdebug sdk (ws_pio s) h of
                  (flags, h) \<Rightarrow>
                    if flags AND stall_mask s = 0 then (True, strip, h)
                    else
                      (case (if ws_latch_ready_us s = 0
                             then (case ws_time_us sdk h of (now, h) \<Rightarrow> (s\<lparr>ws_latch_ready_us := now + WS2812_RESET_US\<rparr>, h))
                             else (s, h)) of
                         (s, h) \<Rightarrow>
                           (case ws_time_us sdk h of (now, h) \<Rightarrow> (now < ws_latch_ready_us s, Some s, h))))))"

partial_function (option) ws2812_wait :: "'h ws_sdk \<Rightarrow> ws2812_strip_t option \<Rightarrow> 'h \<Rightarrow> (ws2812_strip_t option \<times> 'h) option" where
  "ws2812_wait sdk strip h =
     (case ws2812_is_busy sdk strip h of
        (busy, strip, h) \<Rightarrow> if busy then ws2812_wait sdk strip h else Some (strip, h))"

definition ws2812_show_async :: "'h ws_sdk \<Rightarrow> ws2812_strip_t option \<Rightarrow> 'h \<Rightarrow> ws2812_result_t \<times> ws2812_strip_t option \<times> 'h" where
  "ws2812_show_async sdk strip h =
     (if \<not> ws_usable strip then (WS2812_ERR_INVALID_ARG, strip, h)
      else if ws_dma_channel (the strip) < 0 then (WS2812_ERR_NO_WIRE_BUFFER, strip, h)
      else
        (case ws2812_is_busy sdk strip h of
           (busy, strip, h) \<Rightarrow>
             if busy then (WS2812_ERR_BUSY, strip, h)
             else
               (let s = fill_wire_buffer (the strip);
                    h = ws_do sdk (Fdebug_write (ws_pio s) (stall_mask s)) h;
                    s = s\<lparr>ws_latch_ready_us := 0\<rparr>;
                    h = ws_do sdk (Dma_start (nat (ws_dma_channel s)) (the (ws_wire_buffer s)) (unat (ws_length s))) h
                in (WS2812_OK, Some s, h))))"

partial_function (option) await_dry :: "'h ws_sdk \<Rightarrow> ws2812_strip_t \<Rightarrow> 'h \<Rightarrow> 'h option" where
  "await_dry sdk s h =
     (case ws_fdebug sdk (ws_pio s) h of
        (flags, h) \<Rightarrow> if flags AND stall_mask s = 0 then await_dry sdk s h else Some h)"

definition ws2812_show :: "'h ws_sdk \<Rightarrow> ws2812_strip_t option \<Rightarrow> 'h \<Rightarrow> (ws2812_strip_t option \<times> 'h) option" where
  "ws2812_show sdk strip h =
     (if \<not> ws_usable strip then Some (strip, h)
      else if 0 \<le> ws_dma_channel (the strip)
      then
        (case ws2812_show_async sdk strip h of
           (result, strip, h) \<Rightarrow>
             if result = WS2812_ERR_BUSY
             then (case ws2812_wait sdk strip h of
                     None \<Rightarrow> None
                   | Some (strip, h) \<Rightarrow> (case ws2812_show_async sdk strip h of (result, strip, h) \<Rightarrow> ws2812_wait sdk strip h))
             else ws2812_wait sdk strip h)
      else
        (let s = the strip;
             h = ws_do_all sdk (map (\<lambda>i. Sm_put_blocking (ws_pio s) (ws_sm s) (encode_pixel s i)) [0..<unat (ws_length s)]) h;
             h = ws_do sdk (Fdebug_write (ws_pio s) (stall_mask s)) h
         in (case await_dry sdk s h of None \<Rightarrow> None | Some h \<Rightarrow> Some (strip, ws_do sdk (Sleep_us WS2812_RESET_US) h))))"
subsection \<open>The program is loaded while a strip needs it\<close>

text \<open>Where the program is on each block: only two calls change that.\<close>

definition ws_sdk_ok :: "'h ws_sdk \<Rightarrow> ('h \<Rightarrow> nat \<Rightarrow> nat option) \<Rightarrow> bool" where
  "ws_sdk_ok sdk loaded \<longleftrightarrow>
     (\<forall>p h. case ws_add_program sdk p h of (offset, h') \<Rightarrow>
        if offset < 0 then loaded h' = loaded h else offset < 32 \<and> loaded h' = (loaded h)(p := Some (nat offset)))
   \<and> (\<forall>p h. loaded (snd (ws_claim_unused_sm sdk p h)) = loaded h) \<and> (\<forall>h. loaded (snd (ws_dma_claim_unused sdk h)) = loaded h)
   \<and> (\<forall>call h. loaded (ws_do sdk call h) = (case call of Remove_program p offset \<Rightarrow> (loaded h)(p := None) | _ \<Rightarrow> loaded h))"

lemma loaded_simps:
  assumes "ws_sdk_ok sdk loaded"
  shows "ws_claim_unused_sm sdk p h = (sm, h') \<Longrightarrow> loaded h' = loaded h" and "ws_dma_claim_unused sdk h = (c, h') \<Longrightarrow> loaded h' = loaded h"
    and "loaded (ws_do sdk call h) = (case call of Remove_program p offset \<Rightarrow> (loaded h)(p := None) | _ \<Rightarrow> loaded h)"
  using assms unfolding ws_sdk_ok_def by (metis snd_conv)+

lemma loaded_do_all:
  assumes "ws_sdk_ok sdk loaded" and "\<forall>call \<in> set calls. \<forall>p offset. call \<noteq> Remove_program p offset"
  shows "loaded (ws_do_all sdk calls h) = loaded h"
  using assms(2) unfolding ws_do_all_def
  by (induction calls arbitrary: h) (auto simp: loaded_simps(3) [OF assms(1)] split: ws_op.splits)

text \<open>An entry of the table for a block with \<open>n\<close> strips.\<close>

definition slot_holds :: "program_slot \<Rightarrow> nat option \<Rightarrow> nat \<Rightarrow> bool" where
  "slot_holds slot l n \<longleftrightarrow> unat (users slot) = n
     \<and> (if n = 0 then offset_plus_one slot = 0 \<and> l = None
        else offset_plus_one slot \<noteq> 0 \<and> l = Some (unat (offset_plus_one slot) - 1))"

lemma acquire_spec:
  assumes ok: "ws_sdk_ok sdk loaded" and p: "p < length programs" and slot: "slot_holds (programs ! p) (loaded h p) n" and "n < 65535"
    and acquire: "program_acquire sdk p (programs, h) = (r, programs', h')"
  shows "case r of None \<Rightarrow> programs' = programs \<and> loaded h' = loaded h
    | Some offset \<Rightarrow> \<exists>slot. programs' = programs[p := slot] \<and> slot_holds slot (loaded h' p) (Suc n)
        \<and> offset = unat (offset_plus_one slot) - 1 \<and> (0 < n \<longrightarrow> offset_plus_one slot = offset_plus_one (programs ! p))
        \<and> (\<forall>q. q \<noteq> p \<longrightarrow> loaded h' q = loaded h q)"
proof -
  have more: "unat (users (programs ! p) + 1) = Suc n"
    using slot assms(4) by (simp add: slot_holds_def unat_word_ariths)
  show ?thesis
  proof (cases "n = 0")
    case True
    obtain offset h1 where add: "ws_add_program sdk p h = (offset, h1)" by fastforce
    have l: "if offset < 0 then loaded h1 = loaded h else offset < 32 \<and> loaded h1 = (loaded h)(p := Some (nat offset))"
      using ok add unfolding ws_sdk_ok_def by (metis (mono_tags, lifting) case_prod_conv)
    have w: "unat (word_of_int (offset + 1) :: u16) = nat (offset + 1)" if "0 \<le> offset" "offset < 32"
    proof -
      have "word_of_int (offset + 1) = (word_of_nat (nat (offset + 1)) :: u16)" using that by (subst of_nat_nat) simp_all
      then show ?thesis using that by (simp only:) (subst unat_of_nat_lt, simp_all)
    qed
    have zero: "offset_plus_one (programs ! p) = 0" using slot True by (simp add: slot_holds_def)
    show ?thesis
    proof (cases "offset < 0")
      case True
      with acquire zero l show ?thesis by (simp add: program_acquire_def add)
    next
      case False
      let ?slot = "(programs ! p)\<lparr>offset_plus_one := word_of_int (offset + 1), users := users (programs ! p) + 1\<rparr>"
      from False l have o: "0 \<le> offset" "offset < 32" "loaded h1 = (loaded h)(p := Some (nat offset))" by simp_all
      have "slot_holds ?slot (loaded h1 p) (Suc n)"
        using more w [OF o(1,2)] o(1) by (auto simp: slot_holds_def o(3) nat_add_distrib)
      moreover have "r = Some (unat (offset_plus_one ?slot) - 1)" "programs' = programs[p := ?slot]" "h' = h1"
        using acquire zero False by (auto simp: program_acquire_def add)
      ultimately show ?thesis using \<open>n = 0\<close> o(3) by (auto intro!: exI [of _ ?slot])
    qed
  next
    case False
    then show ?thesis
      using acquire slot more by (auto simp: program_acquire_def slot_holds_def Let_def intro!: exI)
  qed
qed

lemma release_spec:
  assumes ok: "ws_sdk_ok sdk loaded" and p: "p < length programs" and slot: "slot_holds (programs ! p) (loaded h p) (Suc n)"
    and release: "program_release sdk p (programs, h) = (programs', h')"
  shows "\<exists>slot. programs' = programs[p := slot] \<and> slot_holds slot (loaded h' p) n
    \<and> (0 < n \<longrightarrow> offset_plus_one slot = offset_plus_one (programs ! p)) \<and> (\<forall>q. q \<noteq> p \<longrightarrow> loaded h' q = loaded h q)"
proof -
  have "users (programs ! p) \<noteq> 0" using slot by (auto simp: slot_holds_def)
  then have less: "unat (users (programs ! p) - 1) = n" using slot by (simp add: slot_holds_def unat_minus_one)
  then have "users (programs ! p) - 1 = 0 \<longleftrightarrow> n = 0" by (metis unat_eq_0)
  with slot less release \<open>users (programs ! p) \<noteq> 0\<close> show ?thesis
    by (auto simp: program_release_def Let_def slot_holds_def loaded_simps(3) [OF ok] split: if_splits)
qed

datatype strip_call = Start nat "ws2812_config_t option" | Stop nat

text \<open>Strips are configured and given up in any order. An object in use is not configured again, and a configuration names
  one of the blocks there are.\<close>

fun strip_step :: "'h ws_sdk \<Rightarrow> strip_call \<Rightarrow> ws2812_strip_t list \<times> program_slot list \<times> 'h \<Rightarrow> ws2812_strip_t list \<times> program_slot list \<times> 'h" where
  "strip_step sdk (Start k config) (strips, programs, h) =
     (if length strips \<le> k \<or> ws_initialised (strips ! k)
         \<or> (\<exists>c \<in> set_option config. \<exists>p \<in> set_option (wc_pio c). length programs \<le> p)
      then (strips, programs, h)
      else
        (case ws2812_init sdk True config (programs, h) of
           (result, None, st) \<Rightarrow> (strips, st)
         | (result, Some strip, st) \<Rightarrow> (strips[k := strip], st)))"
| "strip_step sdk (Stop k) (strips, programs, h) =
     (if length strips \<le> k then (strips, programs, h)
      else (case ws2812_deinit sdk (Some (strips ! k)) (programs, h) of (strip, st) \<Rightarrow> (strips[k := the strip], st)))"

definition runs_on :: "nat \<Rightarrow> ws2812_strip_t \<Rightarrow> bool" where
  "runs_on p strip \<longleftrightarrow> ws_initialised strip \<and> ws_pio strip = p"

definition strips_on :: "nat \<Rightarrow> ws2812_strip_t list \<Rightarrow> nat" where
  "strips_on p strips = card {k. k < length strips \<and> runs_on p (strips ! k)}"

text \<open>The invariant: each block has its entry, and the strips that run are on a block there is, at the place of the program.\<close>

definition shared_ok :: "('h \<Rightarrow> nat \<Rightarrow> nat option) \<Rightarrow> ws2812_strip_t list \<times> program_slot list \<times> 'h \<Rightarrow> bool" where
  "shared_ok loaded st \<longleftrightarrow> (case st of (strips, programs, h) \<Rightarrow>
     length strips \<le> 1000
   \<and> (\<forall>p < length programs. slot_holds (programs ! p) (loaded h p) (strips_on p strips))
   \<and> (\<forall>k < length strips. ws_initialised (strips ! k) \<longrightarrow> ws_pio (strips ! k) < length programs
        \<and> ws_offset (strips ! k) = unat (offset_plus_one (programs ! ws_pio (strips ! k))) - 1))"

lemma strips_on_update:
  assumes "k < length strips"
  shows "strips_on p (strips[k := strip]) + (if runs_on p (strips ! k) then 1 else 0) = strips_on p strips + (if runs_on p strip then 1 else 0)"
proof -
  let ?rest = "{j. j < length strips \<and> j \<noteq> k \<and> runs_on p (strips ! j)}"
  have "{j. j < length strips \<and> runs_on p (strips ! j)} = (if runs_on p (strips ! k) then insert k ?rest else ?rest)"
    "{j. j < length (strips[k := strip]) \<and> runs_on p (strips[k := strip] ! j)} = (if runs_on p strip then insert k ?rest else ?rest)"
    using assms by (auto simp: nth_list_update)
  moreover have "finite ?rest" "k \<notin> ?rest" by simp_all
  ultimately show ?thesis by (simp add: strips_on_def)
qed

lemma strips_on_le: "strips_on p strips \<le> length strips"
  unfolding strips_on_def by (rule order_trans [OF card_mono [of "{..<length strips}"]]) auto

lemma strips_on_pos: "k < length strips \<Longrightarrow> runs_on p (strips ! k) \<Longrightarrow> 0 < strips_on p strips"
  unfolding strips_on_def by (subst card_gt_0_iff) auto

text \<open>A block whose entry changes while the others stay.\<close>

lemma shared_ok_change:
  assumes inv: "shared_ok loaded (strips, programs, h)" and p: "p < length programs" and k: "k < length strips"
    and slot: "slot_holds slot (loaded h' p) (strips_on p (strips[k := strip]))"
    and same: "0 < strips_on p strips \<and> 0 < strips_on p (strips[k := strip]) \<longrightarrow> offset_plus_one slot = offset_plus_one (programs ! p)"
    and others: "\<forall>q. q \<noteq> p \<longrightarrow> loaded h' q = loaded h q" and here: "\<forall>q. q \<noteq> p \<longrightarrow> runs_on q strip = runs_on q (strips ! k)"
    and strip: "ws_initialised strip \<longrightarrow> ws_pio strip = p \<and> ws_offset strip = unat (offset_plus_one slot) - 1"
  shows "shared_ok loaded (strips[k := strip], programs[p := slot], h')"
  unfolding shared_ok_def prod.case
proof (intro conjI allI impI)
  show "length (strips[k := strip]) \<le> 1000" using inv by (simp add: shared_ok_def)
next
  fix q assume q: "q < length (programs[p := slot])"
  show "slot_holds (programs[p := slot] ! q) (loaded h' q) (strips_on q (strips[k := strip]))"
  proof (cases "q = p")
    case False
    then have "strips_on q (strips[k := strip]) = strips_on q strips"
      using strips_on_update [OF k, of q strip] here by (simp split: if_splits)
    with False q inv others show ?thesis by (simp add: shared_ok_def)
  qed (use slot p in simp)
next
  fix j assume j: "j < length (strips[k := strip])" "ws_initialised (strips[k := strip] ! j)"
  show "ws_pio (strips[k := strip] ! j) < length (programs[p := slot])"
    using j p k strip inv by (auto simp: nth_list_update shared_ok_def split: if_splits)
  show "ws_offset (strips[k := strip] ! j) = unat (offset_plus_one (programs[p := slot] ! ws_pio (strips[k := strip] ! j))) - 1"
  proof (cases "j = k \<or> ws_pio (strips ! j) \<noteq> p")
    case True
    then show ?thesis using j p k strip inv by (auto simp: nth_list_update shared_ok_def)
  next
    case False
    then have "0 < strips_on p strips" "0 < strips_on p (strips[k := strip])"
      using j strips_on_pos [of j strips p] strips_on_pos [of j "strips[k := strip]" p] by (simp_all add: runs_on_def)
    with False same j p inv show ?thesis by (auto simp: shared_ok_def)
  qed
qed

lemma list_same: "k < length xs \<Longrightarrow> xs[k := xs ! k] = xs"
  by simp

lemma deinit_eq:
  assumes "ws_sdk_ok sdk loaded" and "ws_initialised s"
  obtains h1 s' where "ws2812_deinit sdk (Some s) (programs, h) = (Some s', program_release sdk (ws_pio s) (programs, h1))"
    and "loaded h1 = loaded h" and "\<not> ws_initialised s'"
proof (cases "0 \<le> ws_dma_channel s")
  case True
  let ?stop = "[Sm_enabled (ws_pio s) (ws_sm s) False, Sm_unclaim (ws_pio s) (ws_sm s)]"
  let ?abort = "[Dma_abort (nat (ws_dma_channel s)), Dma_unclaim (nat (ws_dma_channel s))]"
  from True show thesis
    using assms(2) by (intro that [of "s\<lparr>ws_dma_channel := - 1, ws_initialised := False\<rparr>" "ws_do_all sdk ?stop (ws_do_all sdk ?abort h)"])
      (simp_all add: ws2812_deinit_def Let_def loaded_do_all [OF assms(1)])
next
  case False
  let ?stop = "[Sm_enabled (ws_pio s) (ws_sm s) False, Sm_unclaim (ws_pio s) (ws_sm s)]"
  from False show thesis
    using assms(2) by (intro that [of "s\<lparr>ws_initialised := False\<rparr>" "ws_do_all sdk ?stop h"]) (simp_all add: ws2812_deinit_def Let_def loaded_do_all [OF assms(1)])
qed

lemma loaded_configured:
  assumes "ws_sdk_ok sdk loaded"
  shows "loaded (ws_do_all sdk (state_machine_configure sdk s f) h) = loaded h" and "loaded (ws_do sdk (dma_configure s) h) = loaded h"
  by (simp_all add: state_machine_configure_def dma_configure_def loaded_do_all [OF assms] loaded_simps(3) [OF assms])

lemma stop_keeps:
  assumes ok: "ws_sdk_ok sdk loaded" and inv: "shared_ok loaded (strips, programs, h)"
  shows "shared_ok loaded (strip_step sdk (Stop k) (strips, programs, h))"
proof (cases "k < length strips \<and> ws_initialised (strips ! k)")
  case True
  then have k: "k < length strips" "ws_initialised (strips ! k)" by simp_all
  let ?s = "strips ! k" and ?p = "ws_pio (strips ! k)"
  have p: "?p < length programs" using inv k by (simp add: shared_ok_def)
  obtain s' h1 where d: "ws2812_deinit sdk (Some ?s) (programs, h) = (Some s', program_release sdk ?p (programs, h1))"
    and l: "loaded h1 = loaded h" and s': "\<not> ws_initialised s'" using deinit_eq [OF ok k(2)] .
  obtain programs' h' where r: "program_release sdk ?p (programs, h1) = (programs', h')" by fastforce
  have "runs_on ?p ?s" using k by (simp add: runs_on_def)
  then have n: "strips_on ?p strips = Suc (strips_on ?p (strips[k := s']))"
    using strips_on_update [OF k(1), of ?p s'] s' by (simp add: runs_on_def)
  have "slot_holds (programs ! ?p) (loaded h1 ?p) (Suc (strips_on ?p (strips[k := s'])))"
    using inv p unfolding l n [symmetric] by (simp add: shared_ok_def)
  from release_spec [OF ok p this r] obtain slot where slot: "programs' = programs[?p := slot]"
    "slot_holds slot (loaded h' ?p) (strips_on ?p (strips[k := s']))"
    "0 < strips_on ?p (strips[k := s']) \<longrightarrow> offset_plus_one slot = offset_plus_one (programs ! ?p)"
    "\<forall>q. q \<noteq> ?p \<longrightarrow> loaded h' q = loaded h q" unfolding l by (elim exE conjE) (rule that)
  have "shared_ok loaded (strips[k := s'], programs[?p := slot], h')"
    using slot s' k by (intro shared_ok_change [OF inv p k(1)]) (auto simp: runs_on_def)
  then show ?thesis using k d r slot(1) by simp
next
  case False
  then show ?thesis using inv by (auto simp: ws2812_deinit_def)
qed

lemma init_shared:
  assumes ok: "ws_sdk_ok sdk loaded" and p: "p < length programs" and pio: "wc_pio c = Some p"
    and slot: "slot_holds (programs ! p) (loaded h p) n" and n: "n < 65535"
    and init: "ws2812_init sdk True (Some c) (programs, h) = (result, strip, programs', h')"
  shows "\<exists>slot. (programs' = programs[p := slot] \<and> (\<forall>q. q \<noteq> p \<longrightarrow> loaded h' q = loaded h q)
        \<and> (0 < n \<longrightarrow> offset_plus_one slot = offset_plus_one (programs ! p)))
      \<and> (case strip of None \<Rightarrow> slot_holds slot (loaded h' p) n
         | Some s \<Rightarrow> slot_holds slot (loaded h' p) (Suc n) \<and> ws_initialised s \<and> ws_pio s = p \<and> ws_offset s = unat (offset_plus_one slot) - 1)"
proof (cases "wc_pixels c = None \<or> wc_length c = 0")
  case True
  then show ?thesis using init slot by (intro exI [of _ "programs ! p"]) (auto simp: ws2812_init_def)
next
  case False
  obtain r programs1 h1 where a: "program_acquire sdk p (programs, h) = (r, programs1, h1)" by (metis prod_cases3)
  note acquired = acquire_spec [OF ok p slot n a]
  show ?thesis
  proof (cases r)
    case None
    then show ?thesis using init slot acquired False pio a
      by (intro exI [of _ "programs ! p"]) (auto simp: ws2812_init_def)
  next
    case (Some offset)
    with acquired obtain s1 where s1: "programs1 = programs[p := s1]" "slot_holds s1 (loaded h1 p) (Suc n)"
      "offset = unat (offset_plus_one s1) - 1" "0 < n \<longrightarrow> offset_plus_one s1 = offset_plus_one (programs ! p)"
      "\<forall>q. q \<noteq> p \<longrightarrow> loaded h1 q = loaded h q" by auto
    have undone: "\<exists>slot. programs' = programs[p := slot] \<and> (\<forall>q. q \<noteq> p \<longrightarrow> loaded h' q = loaded h q)
        \<and> (0 < n \<longrightarrow> offset_plus_one slot = offset_plus_one (programs ! p)) \<and> slot_holds slot (loaded h' p) n"
      if "program_release sdk p (programs1, h2) = (programs', h')" "loaded h2 = loaded h1" for h2
    proof -
      have "p < length programs1" "slot_holds (programs1 ! p) (loaded h2 p) (Suc n)" using p s1(1,2) that(2) by simp_all
      from release_spec [OF ok this that(1)] s1 that(2) p show ?thesis by auto
    qed
    obtain sm h2 where sm: "ws_claim_unused_sm sdk p h1 = (sm, h2)" by fastforce
    note l2 = loaded_simps(1) [OF ok sm]
    obtain ch h3 where ch: "(if wc_wire_buffer c \<noteq> None then ws_dma_claim_unused sdk h2 else (- 1, h2)) = (ch, h3)" by fastforce
    then have l3: "loaded h3 = loaded h2" using loaded_simps(2) [OF ok] by (auto split: if_splits)
    consider (no_sm) "sm < 0" | (no_dma) "0 \<le> sm" "wc_wire_buffer c \<noteq> None" "ch < 0"
      | (fine) "0 \<le> sm" "\<not> (wc_wire_buffer c \<noteq> None \<and> ch < 0)" by fastforce
    then show ?thesis
    proof cases
      case no_sm
      then have "strip = None" "program_release sdk p (programs1, h2) = (programs', h')"
        using init False pio a Some sm by (auto simp: ws2812_init_def Let_def)
      with undone [OF _ l2] show ?thesis by auto
    next
      case no_dma
      then have "strip = None" "program_release sdk p (programs1, ws_do sdk (Sm_unclaim p (nat sm)) h3) = (programs', h')"
        using init False pio a Some sm ch by (auto simp: ws2812_init_def Let_def)
      moreover have "loaded (ws_do sdk (Sm_unclaim p (nat sm)) h3) = loaded h1" by (simp add: loaded_simps(3) [OF ok] l2 l3)
      ultimately show ?thesis using undone by auto
    next
      case fine
      define s0 where "s0 = \<lparr>ws_pio = p, ws_sm = nat sm, ws_offset = offset, ws_pin = wc_pin c, ws_pixels = the (wc_pixels c),
        ws_length = wc_length c, ws_is_rgbw = wc_is_rgbw c, ws_order = wc_order c, ws_brightness = 255, ws_gamma_table = None,
        ws_wire_buffer = wc_wire_buffer c, ws_dma_channel = ch, ws_latch_ready_us = 0, ws_initialised = True\<rparr>"
      let ?f = "if wc_frequency_hz c \<noteq> 0 then wc_frequency_hz c else WS2812_DEFAULT_FREQUENCY_HZ"
      let ?h = "ws_do_all sdk (state_machine_configure sdk s0 ?f) h3"
      have "ws2812_init sdk True (Some c) (programs, h)
          = (WS2812_OK, ws2812_clear (Some s0), programs1, if 0 \<le> ch then ws_do sdk (dma_configure s0) ?h else ?h)"
        using False fine pio a Some sm ch by (simp add: ws2812_init_def Let_def s0_def)
      then have "programs' = programs1" "loaded h' = loaded h1" "strip = ws2812_clear (Some s0)"
        using init by (auto simp: loaded_configured [OF ok] l2 l3)
      moreover have "\<exists>s. ws2812_clear (Some s0) = Some s \<and> ws_initialised s \<and> ws_pio s = p \<and> ws_offset s = offset"
        by (simp add: ws2812_clear_def ws2812_fill_def s0_def)
      ultimately show ?thesis using s1 by auto
    qed
  qed
qed
lemma start_keeps:
  assumes ok: "ws_sdk_ok sdk loaded" and inv: "shared_ok loaded (strips, programs, h)"
  shows "shared_ok loaded (strip_step sdk (Start k config) (strips, programs, h))"
proof (cases "\<exists>c p. config = Some c \<and> wc_pio c = Some p \<and> p < length programs \<and> k < length strips \<and> \<not> ws_initialised (strips ! k)")
  case True
  then obtain c p where c: "config = Some c" "wc_pio c = Some p" and p: "p < length programs"
    and k: "k < length strips" "\<not> ws_initialised (strips ! k)" by blast
  have slot: "slot_holds (programs ! p) (loaded h p) (strips_on p strips)" and n: "strips_on p strips < 65535"
    using inv p strips_on_le [of p strips] by (simp_all add: shared_ok_def)
  obtain result strip programs' h' where i: "ws2812_init sdk True (Some c) (programs, h) = (result, strip, programs', h')"
    by (metis prod_cases4)
  from init_shared [OF ok p c(2) slot n i] obtain s where s: "programs' = programs[p := s]" "\<forall>q. q \<noteq> p \<longrightarrow> loaded h' q = loaded h q"
    "0 < strips_on p strips \<longrightarrow> offset_plus_one s = offset_plus_one (programs ! p)"
    and got: "case strip of None \<Rightarrow> slot_holds s (loaded h' p) (strips_on p strips)
         | Some t \<Rightarrow> slot_holds s (loaded h' p) (Suc (strips_on p strips)) \<and> ws_initialised t \<and> ws_pio t = p
             \<and> ws_offset t = unat (offset_plus_one s) - 1" by (elim exE conjE) (rule that)
  have idle: "\<not> runs_on q (strips ! k)" for q using k by (simp add: runs_on_def)
  show ?thesis
  proof (cases strip)
    case None
    have "shared_ok loaded (strips[k := strips ! k], programs[p := s], h')"
      using s got None k by (intro shared_ok_change [OF inv p k(1)]) simp_all
    then show ?thesis using c p k i s(1) None by simp
  next
    case (Some t)
    have "strips_on p (strips[k := t]) = Suc (strips_on p strips)"
      using strips_on_update [OF k(1), of p t] idle [of p] got Some by (simp add: runs_on_def [of p t])
    then have "shared_ok loaded (strips[k := t], programs[p := s], h')"
      using s got Some by (intro shared_ok_change [OF inv p k(1)]) (auto simp: runs_on_def k)
    then show ?thesis using c p k i s(1) Some by simp
  qed
next
  case False
  have "ws2812_init sdk True (Some c) st = (WS2812_ERR_INVALID_ARG, None, st)" if "wc_pio c = None" for c st
    using that by (simp add: ws2812_init_def)
  moreover have "ws2812_init sdk True None st = (WS2812_ERR_INVALID_ARG, None, st)" for st by (simp add: ws2812_init_def)
  moreover have "\<exists>p. wc_pio c = Some p" if "wc_pio c \<noteq> None" for c using that by auto
  ultimately show ?thesis using False inv by (cases config; cases "wc_pio (the config)") (auto simp: not_le)
qed

lemma shared_ok_run:
  assumes "ws_sdk_ok sdk loaded" and "shared_ok loaded st"
  shows "shared_ok loaded (fold (strip_step sdk) calls st)"
  using assms(2)
proof (induction calls arbitrary: st)
  case (Cons call calls)
  have "shared_ok loaded (strip_step sdk call st)"
    using start_keeps [OF assms(1)] stop_keeps [OF assms(1)] Cons.prems by (cases st; cases call) simp_all
  then show ?case using Cons.IH by simp
qed simp

definition no_slot :: program_slot where
  "no_slot = \<lparr>offset_plus_one = 0, users = 0\<rparr>"

text \<open>A block where the program always goes to place 20 and there is always a machine and a channel.\<close>

definition roomy_sdk :: "(nat \<Rightarrow> nat option) ws_sdk" where
  "roomy_sdk = \<lparr>ws_clk_sys_hz = 125000000, ws_add_program = (\<lambda>p h. (20, h(p := Some 20))), ws_claim_unused_sm = (\<lambda>p h. (0, h)),
     ws_dma_claim_unused = (\<lambda>h. (0, h)), ws_dma_is_busy = (\<lambda>c h. (False, h)), ws_fdebug = (\<lambda>p h. (- 1, h)),
     ws_time_us = (\<lambda>h. (1000, h)),
     ws_do = (\<lambda>call h. case call of Remove_program p offset \<Rightarrow> h(p := None) | _ \<Rightarrow> h)\<rparr>"

lemma roomy_sdk_ok: "ws_sdk_ok roomy_sdk (\<lambda>h. h)"
  by (simp add: ws_sdk_ok_def roomy_sdk_def)

definition dark_strip :: ws2812_strip_t where
  "dark_strip = \<lparr>ws_pio = 0, ws_sm = 0, ws_offset = 0, ws_pin = 0, ws_pixels = [], ws_length = 0, ws_is_rgbw = False,
     ws_order = WS2812_ORDER_GRB, ws_brightness = 0, ws_gamma_table = None, ws_wire_buffer = None, ws_dma_channel = 0,
     ws_latch_ready_us = 0, ws_initialised = False\<rparr>"

definition one_pixel :: "nat \<Rightarrow> ws2812_config_t" where
  "one_pixel p = \<lparr>wc_pio = Some p, wc_pin = 3, wc_pixels = Some [ws2812_rgb 1 2 3], wc_length = 1, wc_is_rgbw = False,
     wc_order = WS2812_ORDER_GRB, wc_frequency_hz = 0, wc_wire_buffer = None\<rparr>"


subsection \<open>Frames\<close>

lemma fold_updates_take:
  "n \<le> length xs \<Longrightarrow> fold (\<lambda>i xs. xs[i := f i]) [0..<n] xs = map f [0..<n] @ drop n xs"
proof (induction n)
  case (Suc n)
  then have "drop n xs = xs ! n # drop (Suc n) xs" by (simp add: Cons_nth_drop_Suc)
  with Suc show ?case by (simp add: list_update_append)
qed simp

text \<open>A frame that is accepted is the pixels as they are, each through brightness, gamma and the order of its bytes, in order.\<close>

lemma async_sends_pixels:
  assumes "ws_initialised s" and "0 \<le> ws_dma_channel s" and "ws_wire_buffer s = Some buffer" and "unat (ws_length s) \<le> length buffer"
    and idle: "ws2812_is_busy sdk (Some s) h = (False, Some s', h')"
  shows "\<exists>words. ws2812_show_async sdk (Some s) h
      = (WS2812_OK, Some (s'\<lparr>ws_wire_buffer := Some words, ws_latch_ready_us := 0\<rparr>),
         ws_do sdk (Dma_start (nat (ws_dma_channel s)) words (unat (ws_length s))) (ws_do sdk (Fdebug_write (ws_pio s) (stall_mask s)) h'))
    \<and> take (unat (ws_length s)) words = map (encode_pixel s) [0..<unat (ws_length s)]"
proof -
  have same: "\<exists>latch. s' = s\<lparr>ws_latch_ready_us := latch\<rparr>"
    using idle assms(1) by (auto simp: ws2812_is_busy_def ws_usable_def Let_def split: prod.splits if_splits intro: exI [of _ "ws_latch_ready_us s"])
  then obtain latch where s': "s' = s\<lparr>ws_latch_ready_us := latch\<rparr>" by blast
  have "encode_pixel s' = encode_pixel s" by (simp add: fun_eq_iff encode_pixel_def Let_def s' split: option.split)
  then show ?thesis
    using assms by (intro exI [of _ "map (encode_pixel s) [0..<unat (ws_length s)] @ drop (unat (ws_length s)) buffer"])
      (simp add: ws2812_show_async_def ws_usable_def Let_def fill_wire_buffer_def fold_updates_take s' stall_mask_def)
qed

text \<open>Once the transfer has been fed, the latch time counts from the moment the stall flag is seen. The flag is cleared while the
  machine is still stalled, which raises it again at once, so it can be up while the queue of the machine is full.\<close>

lemma latch_counts_from_the_flag:
  assumes "ws_initialised s" and "0 \<le> ws_dma_channel s" and "ws_latch_ready_us s = 0"
    and "ws_dma_is_busy sdk (nat (ws_dma_channel s)) h = (False, h1)" and "ws_fdebug sdk (ws_pio s) h1 = (flags, h2)"
    and "flags AND stall_mask s \<noteq> 0" and "ws_time_us sdk h2 = (t1, h3)" and "ws_time_us sdk h3 = (t2, h4)"
  shows "ws2812_is_busy sdk (Some s) h = (t2 < t1 + WS2812_RESET_US, Some (s\<lparr>ws_latch_ready_us := t1 + WS2812_RESET_US\<rparr>), h4)"
  using assms by (simp add: ws2812_is_busy_def ws_usable_def Let_def)

subsection \<open>The waits end\<close>

text \<open>A transfer that gets done and a machine that runs dry: \<open>left\<close> is what they have left, less at each look that
  finds them at it. A clock that runs: \<open>tick\<close> grows at each reading, \<open>c\<close> ticks to the microsecond.\<close>

definition frame_ends :: "'h ws_sdk \<Rightarrow> ('h \<Rightarrow> nat) \<Rightarrow> ('h \<Rightarrow> nat) \<Rightarrow> nat \<Rightarrow> bool" where
  "frame_ends sdk left tick c \<longleftrightarrow> 0 < c
   \<and> (\<forall>ch h. left (snd (ws_dma_is_busy sdk ch h)) \<le> left h \<and> (fst (ws_dma_is_busy sdk ch h) \<longrightarrow> left (snd (ws_dma_is_busy sdk ch h)) < left h)
        \<and> tick h \<le> tick (snd (ws_dma_is_busy sdk ch h)))
   \<and> (\<forall>p h n. left (snd (ws_fdebug sdk p h)) \<le> left h \<and> tick h \<le> tick (snd (ws_fdebug sdk p h))
        \<and> (n < 32 \<and> fst (ws_fdebug sdk p h) AND push_bit n 1 = 0 \<longrightarrow> left (snd (ws_fdebug sdk p h)) < left h))
   \<and> (\<forall>h. left (snd (ws_time_us sdk h)) \<le> left h \<and> tick h < tick (snd (ws_time_us sdk h))
        \<and> fst (ws_time_us sdk h) = tick (snd (ws_time_us sdk h)) div c)"

definition still_waiting :: "('h \<Rightarrow> nat) \<Rightarrow> ('h \<Rightarrow> nat) \<Rightarrow> nat \<Rightarrow> ws2812_strip_t \<Rightarrow> 'h \<Rightarrow> (nat \<times> nat \<times> nat)" where
  "still_waiting left tick c s h = (left h, if ws_latch_ready_us s = 0 then 1 else 0, ws_latch_ready_us s * c - tick h)"

lemma frame_laws:
  assumes "frame_ends sdk left tick c"
  shows "ws_dma_is_busy sdk ch h = (feeding, h1) \<Longrightarrow> left h1 \<le> left h \<and> tick h \<le> tick h1 \<and> (feeding \<longrightarrow> left h1 < left h)"
    and "ws_fdebug sdk p h = (flags, h1) \<Longrightarrow> left h1 \<le> left h \<and> tick h \<le> tick h1"
    and "ws_fdebug sdk p h = (flags, h1) \<Longrightarrow> n < 32 \<Longrightarrow> flags AND push_bit n 1 = 0 \<Longrightarrow> left h1 < left h"
    and "ws_time_us sdk h = (now, h1) \<Longrightarrow> left h1 \<le> left h \<and> tick h < tick h1 \<and> now = tick h1 div c"
proof -
  have d: "left (snd (ws_dma_is_busy sdk ch h)) \<le> left h \<and> (fst (ws_dma_is_busy sdk ch h) \<longrightarrow> left (snd (ws_dma_is_busy sdk ch h)) < left h)
      \<and> tick h \<le> tick (snd (ws_dma_is_busy sdk ch h))"
    and f: "left (snd (ws_fdebug sdk p h)) \<le> left h \<and> tick h \<le> tick (snd (ws_fdebug sdk p h))
      \<and> (n < 32 \<and> fst (ws_fdebug sdk p h) AND push_bit n 1 = 0 \<longrightarrow> left (snd (ws_fdebug sdk p h)) < left h)"
    and t: "left (snd (ws_time_us sdk h)) \<le> left h \<and> tick h < tick (snd (ws_time_us sdk h))
      \<and> fst (ws_time_us sdk h) = tick (snd (ws_time_us sdk h)) div c"
    using assms unfolding frame_ends_def by blast+
  show "ws_dma_is_busy sdk ch h = (feeding, h1) \<Longrightarrow> left h1 \<le> left h \<and> tick h \<le> tick h1 \<and> (feeding \<longrightarrow> left h1 < left h)"
    using d by auto
  show "ws_fdebug sdk p h = (flags, h1) \<Longrightarrow> left h1 \<le> left h \<and> tick h \<le> tick h1"
    and "ws_fdebug sdk p h = (flags, h1) \<Longrightarrow> n < 32 \<Longrightarrow> flags AND push_bit n 1 = 0 \<Longrightarrow> left h1 < left h" using f by auto
  show "ws_time_us sdk h = (now, h1) \<Longrightarrow> left h1 \<le> left h \<and> tick h < tick h1 \<and> now = tick h1 div c" using t by auto
qed

lemma busy_decreases:
  assumes ends: "frame_ends sdk left tick c" and sm: "ws_sm s < 8" and init: "ws_initialised s"
    and busy: "ws2812_is_busy sdk (Some s) h = (True, strip, h')"
  shows "\<exists>s'. strip = Some s' \<and> ws_sm s' = ws_sm s \<and> ws_initialised s'
    \<and> (still_waiting left tick c s' h', still_waiting left tick c s h) \<in> less_than <*lex*> less_than <*lex*> less_than"
proof -
  obtain feeding h1 where d: "(if 0 \<le> ws_dma_channel s then ws_dma_is_busy sdk (nat (ws_dma_channel s)) h else (False, h)) = (feeding, h1)"
    by fastforce
  have l1: "left h1 \<le> left h \<and> tick h \<le> tick h1 \<and> (feeding \<longrightarrow> left h1 < left h)"
    using d frame_laws(1) [OF ends] by (auto split: if_splits)
  obtain flags h2 where f: "ws_fdebug sdk (ws_pio s) h1 = (flags, h2)" by fastforce
  note l2 = frame_laws(2,3) [OF ends f]
  obtain t1 h3 where t1: "ws_time_us sdk h2 = (t1, h3)" by fastforce
  note l3 = frame_laws(4) [OF ends t1]
  obtain t2 h4 where t2: "ws_time_us sdk h3 = (t2, h4)" by fastforce
  note l4 = frame_laws(4) [OF ends t2]
  consider (feeding) feeding | (sending) "\<not> feeding" "flags AND stall_mask s = 0"
    | (first) "\<not> feeding" "flags AND stall_mask s \<noteq> 0" "ws_latch_ready_us s = 0"
    | (latching) "\<not> feeding" "flags AND stall_mask s \<noteq> 0" "ws_latch_ready_us s \<noteq> 0" by blast
  then show ?thesis
  proof cases
    case feeding
    then have "strip = Some s" "h' = h1" using busy init d by (simp_all add: ws2812_is_busy_def ws_usable_def Let_def)
    then show ?thesis using init feeding l1 by (simp add: still_waiting_def)
  next
    case sending
    then have "strip = Some s" "h' = h2" using busy init d f by (simp_all add: ws2812_is_busy_def ws_usable_def Let_def)
    moreover have "left h2 < left h1" using l2(2) [of "PIO_FDEBUG_TXSTALL_LSB + ws_sm s"] sm sending(2) by (simp add: stall_mask_def)
    ultimately show ?thesis using init l1 by (simp add: still_waiting_def)
  next
    case first
    then have "strip = Some (s\<lparr>ws_latch_ready_us := t1 + WS2812_RESET_US\<rparr>)" "h' = h4"
      using busy init d f t1 t2 by (simp_all add: ws2812_is_busy_def ws_usable_def Let_def)
    then show ?thesis using init l1 l2(1) l3 l4 first(3) by (simp add: still_waiting_def) linarith
  next
    case latching
    then have "strip = Some s" "h' = h3" "t1 < ws_latch_ready_us s"
      using busy init d f t1 by (simp_all add: ws2812_is_busy_def ws_usable_def Let_def)
    moreover from this(3) have "tick h3 < ws_latch_ready_us s * c"
      using l3 ends by (simp add: frame_ends_def div_less_iff_less_mult)
    ultimately show ?thesis using init l1 l2(1) l3 latching(3) by (simp add: still_waiting_def) linarith
  qed
qed

lemma busy_same:
  assumes "ws2812_is_busy sdk (Some s) h = (busy, strip, h')" and "ws_initialised s"
  shows "\<exists>s'. strip = Some s' \<and> ws_sm s' = ws_sm s \<and> ws_initialised s' \<and> ws_wire_buffer s' = ws_wire_buffer s \<and> ws_dma_channel s' = ws_dma_channel s"
  using assms by (auto simp: ws2812_is_busy_def ws_usable_def Let_def split: prod.splits if_splits)

lemma ws2812_wait_returns:
  assumes ends: "frame_ends sdk left tick c"
  shows "ws_sm s < 8 \<Longrightarrow> ws_initialised s \<Longrightarrow> \<exists>s' h'. ws2812_wait sdk (Some s) h = Some (Some s', h') \<and> ws_sm s' = ws_sm s \<and> ws_initialised s'"
proof (induction "still_waiting left tick c s h" arbitrary: s h rule: wf_induct_rule [OF wf_lex_prod [OF wf_less_than wf_lex_prod [OF wf_less_than wf_less_than]]])
  case (1 s h)
  obtain busy strip h' where b: "ws2812_is_busy sdk (Some s) h = (busy, strip, h')" by (metis prod_cases3)
  show ?case
  proof (cases busy)
    case True
    have "ws2812_is_busy sdk (Some s) h = (True, strip, h')" using b True by simp
    from busy_decreases [OF ends 1(2,3) this] obtain s' where s': "strip = Some s'" "ws_sm s' = ws_sm s" "ws_initialised s'"
      "(still_waiting left tick c s' h', still_waiting left tick c s h) \<in> less_than <*lex*> less_than <*lex*> less_than"
      by (elim exE conjE) (rule that)
    from 1(1) [OF s'(4)] s'(2,3) 1(2) show ?thesis by (subst ws2812_wait.simps) (simp add: b True s'(1,2))
  next
    case False
    then show ?thesis using busy_same [OF b 1(3)] by (subst ws2812_wait.simps) (auto simp: b)
  qed
qed

lemma await_dry_returns:
  assumes ends: "frame_ends sdk left tick c" and sm: "ws_sm s < 8"
  shows "await_dry sdk s h \<noteq> None"
proof (induction "left h" arbitrary: h rule: less_induct)
  case less
  obtain flags h' where f: "ws_fdebug sdk (ws_pio s) h = (flags, h')" by fastforce
  show ?case
  proof (cases "flags AND stall_mask s = 0")
    case True
    then have "left h' < left h"
      using frame_laws(3) [OF ends f, of "PIO_FDEBUG_TXSTALL_LSB + ws_sm s"] sm by (simp add: stall_mask_def)
    from less(1) [OF this] show ?thesis by (subst await_dry.simps) (simp add: f True del: not_None_eq)
  next
    case False
    then show ?thesis by (subst await_dry.simps) (simp add: f)
  qed
qed

lemma async_same:
  assumes "ws2812_show_async sdk (Some s) h = (r, strip, h')" and "ws_initialised s"
  shows "\<exists>s'. strip = Some s' \<and> ws_sm s' = ws_sm s \<and> ws_initialised s'"
proof -
  obtain busy strip1 h1 where b: "ws2812_is_busy sdk (Some s) h = (busy, strip1, h1)" by (metis prod_cases3)
  from busy_same [OF b assms(2)] show ?thesis
    using assms by (auto simp: ws2812_show_async_def ws_usable_def b fill_wire_buffer_def Let_def split: if_splits)
qed

text \<open>A blocking frame always comes to an end, whichever way it is sent.\<close>

lemma ws2812_show_returns:
  assumes ends: "frame_ends sdk left tick c" and sm: "ws_sm s < 8"
  shows "ws2812_show sdk (Some s) h \<noteq> None"
proof (cases "ws_initialised s \<and> 0 \<le> ws_dma_channel s")
  case True
  then have init: "ws_initialised s" by simp
  have wait: "ws2812_wait sdk (Some u) g \<noteq> None" if "ws_sm u = ws_sm s" "ws_initialised u" for u g
    using ws2812_wait_returns [OF ends, of u g] that sm by auto
  obtain r strip h1 where a: "ws2812_show_async sdk (Some s) h = (r, strip, h1)" by (metis prod_cases3)
  from async_same [OF a init] obtain s1 where s1: "strip = Some s1" "ws_sm s1 = ws_sm s" "ws_initialised s1" by blast
  obtain s2 h2 where w: "ws2812_wait sdk (Some s1) h1 = Some (Some s2, h2)" "ws_sm s2 = ws_sm s" "ws_initialised s2"
    using ws2812_wait_returns [OF ends, of s1 h1] s1(2,3) sm by auto
  obtain r2 strip2 h3 where a2: "ws2812_show_async sdk (Some s2) h2 = (r2, strip2, h3)" by (metis prod_cases3)
  from async_same [OF a2 w(3)] obtain s3 where s3: "strip2 = Some s3" "ws_sm s3 = ws_sm s" "ws_initialised s3" using w(2) by auto
  show ?thesis
    using True wait [OF s3(2,3)] w(1) by (simp add: ws2812_show_def ws_usable_def a s1(1) a2 s3(1) del: not_None_eq)
next
  case False
  then show ?thesis using await_dry_returns [OF ends sm]
    by (auto simp: ws2812_show_def ws_usable_def Let_def simp del: not_None_eq split: option.split)
qed

end
