(* ===== verification/Can_Bus.thy ===== *)
theory Can_Bus
  imports Can_Frame "HOL-Library.Sublist"
begin

text \<open>
  The driver of a CAN bus on a PIO block, \<open>can/can.c\<close>, over the model of the frames and their queue. The Pico SDK and the
  \<open>can2040\<close> library are the parameter \<open>sdk\<close>, which acts on a state \<open>'h\<close> of the hardware; the calls that only set something
  up are one function of the call and its arguments. A bus is known by its place in the list of the objects
  there are, which is what its address is to the code; \<open>active_buses\<close> is part of the state. The interrupt handler of the
  library gives the list of the callbacks it makes. The lemmas show that a bus that is refused keeps nothing, and that
  every frame seen is delivered in order, waiting, filtered or counted.
\<close>

subsection \<open>The SDK and the controller library\<close>

record can2040_msg =
  c2_id :: u32
  c2_dlc :: u32
  c2_data :: "u8 list"

datatype can2040_notify = CAN2040_NOTIFY_RX | CAN2040_NOTIFY_TX | CAN2040_NOTIFY_ERROR

record can2040_stats =
  rx_total :: u32
  tx_total :: u32
  tx_attempt :: u32
  parse_error :: u32

datatype program_half = Reservation_low | Reservation_high

datatype can_op = Sm_claim nat nat | Sm_unclaim nat nat | Remove_program nat program_half | Can2040_setup nat nat
  | Can2040_callback_config nat | Irq_set_exclusive_handler nat nat | Irq_set_priority nat u8 | Irq_set_enabled nat bool
  | Irq_remove_handler nat nat | Can2040_start nat u32 u32 int int | Can2040_stop nat | Sm_mask_disable nat

record 'h can_sdk =
  num_pios :: nat
  num_gpios :: int
  can_clk_sys_hz :: u32
  pio_irq_num :: "nat \<Rightarrow> nat"
  sm_is_claimed :: "nat \<Rightarrow> nat \<Rightarrow> 'h \<Rightarrow> bool"
  can_add_program_at :: "nat \<Rightarrow> program_half \<Rightarrow> 'h \<Rightarrow> bool"
  add_program_at :: "nat \<Rightarrow> program_half \<Rightarrow> 'h \<Rightarrow> int \<times> 'h"
  irq_has_handler :: "nat \<Rightarrow> 'h \<Rightarrow> bool"
  irq_exclusive_handler :: "nat \<Rightarrow> 'h \<Rightarrow> nat option"
  can2040_transmit :: "nat \<Rightarrow> can2040_msg \<Rightarrow> 'h \<Rightarrow> int \<times> 'h"
  can2040_check_transmit :: "nat \<Rightarrow> 'h \<Rightarrow> int"
  can2040_get_statistics :: "nat \<Rightarrow> 'h \<Rightarrow> can2040_stats"
  can2040_pio_irq_handler :: "nat \<Rightarrow> 'h \<Rightarrow> (can2040_notify \<times> can2040_msg option) list \<times> 'h"
  can_do :: "can_op \<Rightarrow> 'h \<Rightarrow> 'h"

definition can_do_all :: "'h can_sdk \<Rightarrow> can_op list \<Rightarrow> 'h \<Rightarrow> 'h" where
  "can_do_all sdk ops h = fold (can_do sdk) ops h"

abbreviation (input) "CAN_DEFAULT_BITRATE \<equiv> (500000 :: u32)"
abbreviation (input) "CAN_MAX_BITRATE \<equiv> (1000000 :: u32)"
abbreviation (input) "CAN_NO_TX_PIN \<equiv> (- 1 :: int)"
abbreviation (input) "NUM_PIO_STATE_MACHINES \<equiv> (4 :: nat)"

text \<open>\<open>CAN_QUEUE_STORAGE_SIZE\<close> of one frame: its record and the byte a ring buffer keeps free.\<close>

abbreviation (input) "CAN_QUEUE_STORAGE_SIZE_1 \<equiv> (17 :: nat)"

subsection \<open>Buses\<close>

datatype can_result_t = CAN_OK | CAN_ERR_INVALID_ARG | CAN_ERR_PIO_IN_USE | CAN_ERR_IRQ_IN_USE | CAN_ERR_NOT_INITIALISED
  | CAN_ERR_MONITOR_MODE | CAN_ERR_TX_FULL | CAN_ERR_RX_EMPTY

fun can_result_name :: "can_result_t \<Rightarrow> string" where
  "can_result_name CAN_OK = ''ok''"
| "can_result_name CAN_ERR_INVALID_ARG = ''invalid argument''"
| "can_result_name CAN_ERR_PIO_IN_USE = ''PIO block in use''"
| "can_result_name CAN_ERR_IRQ_IN_USE = ''PIO IRQ in use''"
| "can_result_name CAN_ERR_NOT_INITIALISED = ''not initialised''"
| "can_result_name CAN_ERR_MONITOR_MODE = ''monitor mode''"
| "can_result_name CAN_ERR_TX_FULL = ''transmit queue full''"
| "can_result_name CAN_ERR_RX_EMPTY = ''receive queue empty''"

record can_bus_config_t =
  cc_pio :: "nat option"
  cc_rx_pin :: int
  cc_tx_pin :: int
  cc_bitrate :: u32
  cc_filters :: "can_filter_t list option"
  cc_filter_count :: nat
  cc_rx_storage :: "u8 list option"
  cc_rx_storage_size :: nat
  cc_irq_priority :: u8

record can_bus_t =
  cb_rx_queue :: can_queue_t
  cb_pio :: nat
  cb_filters :: "can_filter_t list option"
  cb_bitrate :: u32
  cb_filtered :: u32
  cb_controller_errors :: u32
  cb_irq_num :: nat
  cb_rx_pin :: int
  cb_tx_pin :: int
  cb_initialised :: bool

record 'h can_world =
  cw_buses :: "can_bus_t list"
  cw_active :: "nat option list"
  cw_hw :: 'h

definition bus_is_active :: "'h can_world \<Rightarrow> nat \<Rightarrow> bool" where
  "bus_is_active w bus \<longleftrightarrow> (\<exists>i < length (cw_active w). cw_active w ! i = Some bus)"

text \<open>The handler of a block is known by the number of the block.\<close>

definition irq_handler_for :: "'h can_sdk \<Rightarrow> nat \<Rightarrow> nat option" where
  "irq_handler_for sdk pio_num =
     (if pio_num = 0 then Some 0 else if pio_num = 1 then Some 1
      else if 2 < num_pios sdk \<and> pio_num = 2 then Some 2 else None)"

definition pins_are_compatible :: "'h can_sdk \<Rightarrow> int \<Rightarrow> int \<Rightarrow> bool" where
  "pins_are_compatible sdk rx_pin tx_pin =
     (if rx_pin < 0 \<or> num_gpios sdk \<le> rx_pin \<or> tx_pin < CAN_NO_TX_PIN \<or> num_gpios sdk \<le> tx_pin \<or> tx_pin = rx_pin then False
      else if 32 < num_gpios sdk \<and> 0 \<le> tx_pin \<and> (rx_pin < 16 \<and> 31 < tx_pin \<or> 31 < rx_pin \<and> tx_pin < 16) then False
      else True)"

definition bitrate_is_usable :: "'h can_sdk \<Rightarrow> u32 \<Rightarrow> bool" where
  "bitrate_is_usable sdk bitrate =
     (if bitrate = 0 \<or> CAN_MAX_BITRATE < bitrate then False
      else (let divider = (8 * unat (can_clk_sys_hz sdk)) div unat bitrate in divider \<noteq> 0 \<and> divider \<le> 0x00ffffff))"

definition pio_is_free :: "'h can_sdk \<Rightarrow> nat \<Rightarrow> 'h \<Rightarrow> bool" where
  "pio_is_free sdk pio h =
     (if \<exists>sm < NUM_PIO_STATE_MACHINES. sm_is_claimed sdk pio sm h then False
      else can_add_program_at sdk pio Reservation_low h \<and> can_add_program_at sdk pio Reservation_high h)"

definition claim_pio :: "nat \<Rightarrow> can_op list" where
  "claim_pio pio = map (Sm_claim pio) [0..<NUM_PIO_STATE_MACHINES]"

definition unclaim_pio :: "nat \<Rightarrow> can_op list" where
  "unclaim_pio pio = map (Sm_unclaim pio) [0..<NUM_PIO_STATE_MACHINES]"

text \<open>The object after \<open>memset\<close> and the assignments that follow it.\<close>

definition fresh_bus :: "nat \<Rightarrow> can_bus_config_t \<Rightarrow> u32 \<Rightarrow> nat \<Rightarrow> can_bus_t" where
  "fresh_bus pio c bitrate irq_num =
     \<lparr>cb_rx_queue = can_queue_zero, cb_pio = pio, cb_filters = map_option (take (cc_filter_count c)) (cc_filters c),
      cb_bitrate = bitrate, cb_filtered = 0, cb_controller_errors = 0, cb_irq_num = irq_num, cb_rx_pin = cc_rx_pin c,
      cb_tx_pin = cc_tx_pin c, cb_initialised = False\<rparr>"

definition can_bus_init :: "'h can_sdk \<Rightarrow> nat option \<Rightarrow> can_bus_config_t option \<Rightarrow> 'h can_world \<Rightarrow> can_result_t \<times> 'h can_world" where
  "can_bus_init sdk bus config w =
     (if bus = None \<or> config = None then (CAN_ERR_INVALID_ARG, w)
      else
        (let c = the config; bus = the bus in
         if cc_pio c = None \<or> num_pios sdk \<le> the (cc_pio c) \<or> cc_rx_storage c = None
            \<or> cc_rx_storage_size c < CAN_QUEUE_STORAGE_SIZE_1 \<or> cc_filter_count c \<noteq> 0 \<and> cc_filters c = None
            \<or> \<not> pins_are_compatible sdk (cc_rx_pin c) (cc_tx_pin c)
         then (CAN_ERR_INVALID_ARG, w)
         else
           (let bitrate = (if cc_bitrate c \<noteq> 0 then cc_bitrate c else CAN_DEFAULT_BITRATE) in
            if \<not> bitrate_is_usable sdk bitrate then (CAN_ERR_INVALID_ARG, w)
            else
              (let pio = the (cc_pio c); irq_num = pio_irq_num sdk pio; handler = irq_handler_for sdk pio in
               if handler = None then (CAN_ERR_INVALID_ARG, w)
               else if bus_is_active w bus then (CAN_ERR_PIO_IN_USE, w)
               else if cw_active w ! pio \<noteq> None \<or> \<not> pio_is_free sdk pio (cw_hw w) then (CAN_ERR_PIO_IN_USE, w)
               else if irq_has_handler sdk irq_num (cw_hw w) then (CAN_ERR_IRQ_IN_USE, w)
               else
                 (let h = can_do_all sdk (claim_pio pio) (cw_hw w) in
                  case add_program_at sdk pio Reservation_low h of
                    (low, h) \<Rightarrow>
                      if low < 0 then (CAN_ERR_PIO_IN_USE, w\<lparr>cw_hw := can_do_all sdk (unclaim_pio pio) h\<rparr>)
                      else
                        (case add_program_at sdk pio Reservation_high h of
                           (high, h) \<Rightarrow>
                             if high < 0
                             then (CAN_ERR_PIO_IN_USE,
                                   w\<lparr>cw_hw := can_do_all sdk (Remove_program pio Reservation_low # unclaim_pio pio) h\<rparr>)
                             else
                               (let b = fresh_bus pio c bitrate irq_num in
                                case can_queue_init (cc_rx_storage c) (cc_rx_storage_size c) of
                                  (made, queue) \<Rightarrow>
                                    (let b = b\<lparr>cb_rx_queue := queue\<rparr> in
                                     if \<not> made
                                     then (CAN_ERR_INVALID_ARG,
                                           w\<lparr>cw_buses := (cw_buses w)[bus := b],
                                             cw_hw := can_do_all sdk ([Remove_program pio Reservation_high,
                                               Remove_program pio Reservation_low] @ unclaim_pio pio) h\<rparr>)
                                     else
                                       (CAN_OK,
                                        w\<lparr>cw_buses := (cw_buses w)[bus := b\<lparr>cb_initialised := True\<rparr>],
                                          cw_active := (cw_active w)[pio := Some bus],
                                          cw_hw := can_do_all sdk
                                            [Can2040_setup bus pio, Can2040_callback_config bus,
                                             Irq_set_exclusive_handler irq_num (the handler),
                                             Irq_set_priority irq_num (cc_irq_priority c), Irq_set_enabled irq_num True,
                                             Can2040_start bus (can_clk_sys_hz sdk) bitrate (cc_rx_pin c) (cc_tx_pin c)] h\<rparr>)))))))))"

definition can_bus_deinit :: "'h can_sdk \<Rightarrow> nat option \<Rightarrow> 'h can_world \<Rightarrow> 'h can_world" where
  "can_bus_deinit sdk bus w =
     (if bus = None \<or> \<not> bus_is_active w (the bus) then w
      else
        (let bus = the bus; b = cw_buses w ! bus; pio = cb_pio b; irq_num = cb_irq_num b;
             handler = irq_handler_for sdk pio;
             h = can_do_all sdk [Irq_set_enabled irq_num False, Can2040_stop bus, Sm_mask_disable pio] (cw_hw w);
             h = (if irq_exclusive_handler sdk irq_num h = handler then can_do sdk (Irq_remove_handler irq_num pio) h else h);
             h = can_do_all sdk ([Remove_program pio Reservation_high, Remove_program pio Reservation_low] @ unclaim_pio pio) h
         in w\<lparr>cw_buses := (cw_buses w)[bus := b\<lparr>cb_initialised := False\<rparr>], cw_active := (cw_active w)[pio := None], cw_hw := h\<rparr>))"

subsection \<open>Frames\<close>

text \<open>The message a frame of the controller is turned into, lines 164 to 172.\<close>

definition received_message :: "can2040_msg \<Rightarrow> can_message_t" where
  "received_message m =
     (let len = can_dlc_to_length (c2_dlc m);
          received = can_message_zero\<lparr>msg_id := can_id_value (c2_id m), msg_length := len,
            msg_extended := can_id_is_extended (c2_id m), msg_remote := can_id_is_remote (c2_id m)\<rparr>
      in if \<not> msg_remote received then received\<lparr>msg_data := blit 0 (take (unat len) (c2_data m)) (msg_data received)\<rparr>
         else received)"

definition can2040_callback :: "can_bus_t \<Rightarrow> can2040_notify \<Rightarrow> can2040_msg option \<Rightarrow> can_bus_t option" where
  "can2040_callback bus notify message =
     (if notify = CAN2040_NOTIFY_ERROR then Some (bus\<lparr>cb_controller_errors := cb_controller_errors bus + 1\<rparr>)
      else if notify \<noteq> CAN2040_NOTIFY_RX \<or> message = None then Some bus
      else if \<not> can_filters_accept (cb_filters bus) (c2_id (the message)) then Some (bus\<lparr>cb_filtered := cb_filtered bus + 1\<rparr>)
      else
        (case can_queue_push (cb_rx_queue bus) (Some (received_message (the message))) of
           None \<Rightarrow> None
         | Some (pushed, queue) \<Rightarrow> Some (bus\<lparr>cb_rx_queue := queue\<rparr>)))"

text \<open>The callbacks of one interrupt.\<close>

fun callbacks :: "can_bus_t \<Rightarrow> (can2040_notify \<times> can2040_msg option) list \<Rightarrow> can_bus_t option" where
  "callbacks bus [] = Some bus"
| "callbacks bus ((notify, message) # rest) =
     (case can2040_callback bus notify message of None \<Rightarrow> None | Some bus \<Rightarrow> callbacks bus rest)"

definition can_irq_dispatch :: "'h can_sdk \<Rightarrow> nat \<Rightarrow> 'h can_world \<Rightarrow> 'h can_world option" where
  "can_irq_dispatch sdk pio_num w =
     (case cw_active w ! pio_num of
        None \<Rightarrow> Some w
      | Some bus \<Rightarrow>
          if \<not> cb_initialised (cw_buses w ! bus) then Some w
          else
            (case can2040_pio_irq_handler sdk bus (cw_hw w) of
               (made, h) \<Rightarrow>
                 map_option (\<lambda>b. w\<lparr>cw_buses := (cw_buses w)[bus := b], cw_hw := h\<rparr>) (callbacks (cw_buses w ! bus) made)))"

definition can_bus_send :: "'h can_sdk \<Rightarrow> nat option \<Rightarrow> can_message_t option \<Rightarrow> 'h can_world \<Rightarrow> can_result_t \<times> 'h can_world" where
  "can_bus_send sdk bus message w =
     (if bus = None \<or> \<not> can_message_is_valid message then (CAN_ERR_INVALID_ARG, w)
      else if \<not> bus_is_active w (the bus) then (CAN_ERR_NOT_INITIALISED, w)
      else if cb_tx_pin (cw_buses w ! the bus) = CAN_NO_TX_PIN then (CAN_ERR_MONITOR_MODE, w)
      else
        (let m = the message;
             outgoing = \<lparr>c2_id = can_id_pack (msg_id m) (msg_extended m) (msg_remote m), c2_dlc = ucast (msg_length m),
               c2_data = (if \<not> msg_remote m then blit 0 (take (unat (msg_length m)) (msg_data m)) (replicate 8 0) else replicate 8 0)\<rparr>
         in case can2040_transmit sdk (the bus) outgoing (cw_hw w) of
              (r, h) \<Rightarrow> (if r = 0 then CAN_OK else CAN_ERR_TX_FULL, w\<lparr>cw_hw := h\<rparr>)))"

definition can_bus_can_send :: "'h can_sdk \<Rightarrow> nat option \<Rightarrow> 'h can_world \<Rightarrow> bool" where
  "can_bus_can_send sdk bus w \<longleftrightarrow> bus \<noteq> None \<and> bus_is_active w (the bus) \<and> cb_tx_pin (cw_buses w ! the bus) \<noteq> CAN_NO_TX_PIN
     \<and> can2040_check_transmit sdk (the bus) (cw_hw w) \<noteq> 0"

text \<open>The message is only written when there is one; \<open>has_message\<close> is whether there is an object for it.\<close>

definition can_bus_receive :: "nat option \<Rightarrow> bool \<Rightarrow> 'h can_world \<Rightarrow> (can_result_t \<times> can_message_t option \<times> 'h can_world) option" where
  "can_bus_receive bus has_message w =
     (if bus = None \<or> \<not> has_message then Some (CAN_ERR_INVALID_ARG, None, w)
      else if \<not> bus_is_active w (the bus) then Some (CAN_ERR_NOT_INITIALISED, None, w)
      else
        (let b = cw_buses w ! the bus in
         case can_queue_pop (cb_rx_queue b) of
           None \<Rightarrow> None
         | Some (message, queue) \<Rightarrow>
             Some (if message \<noteq> None then CAN_OK else CAN_ERR_RX_EMPTY, message,
                   w\<lparr>cw_buses := (cw_buses w)[the bus := b\<lparr>cb_rx_queue := queue\<rparr>]\<rparr>)))"

definition can_bus_available :: "nat option \<Rightarrow> 'h can_world \<Rightarrow> nat" where
  "can_bus_available bus w =
     (if bus \<noteq> None \<and> bus_is_active w (the bus) then can_queue_count (cb_rx_queue (cw_buses w ! the bus)) else 0)"

definition can_bus_clear_receive :: "nat option \<Rightarrow> 'h can_world \<Rightarrow> 'h can_world" where
  "can_bus_clear_receive bus w =
     (if bus \<noteq> None \<and> bus_is_active w (the bus)
      then (let b = cw_buses w ! the bus
            in w\<lparr>cw_buses := (cw_buses w)[the bus := b\<lparr>cb_rx_queue := can_queue_clear (cb_rx_queue b)\<rparr>]\<rparr>)
      else w)"

record can_bus_stats_t =
  st_received :: u32
  st_transmitted :: u32
  st_transmit_attempts :: u32
  st_parse_errors :: u32
  st_filtered :: u32
  st_queue_dropped :: u32
  st_controller_errors :: u32

definition can_bus_get_stats :: "'h can_sdk \<Rightarrow> nat option \<Rightarrow> bool \<Rightarrow> 'h can_world \<Rightarrow> can_result_t \<times> can_bus_stats_t option" where
  "can_bus_get_stats sdk bus has_stats w =
     (if bus = None \<or> \<not> has_stats then (CAN_ERR_INVALID_ARG, None)
      else if \<not> bus_is_active w (the bus) then (CAN_ERR_NOT_INITIALISED, None)
      else
        (let b = cw_buses w ! the bus; controller_stats = can2040_get_statistics sdk (the bus) (cw_hw w)
         in (CAN_OK, Some \<lparr>st_received = rx_total controller_stats, st_transmitted = tx_total controller_stats,
               st_transmit_attempts = tx_attempt controller_stats, st_parse_errors = parse_error controller_stats,
               st_filtered = cb_filtered b, st_queue_dropped = cq_dropped (cb_rx_queue b),
               st_controller_errors = cb_controller_errors b\<rparr>)))"
subsection \<open>A bus gives back what it took\<close>

text \<open>What is taken of the blocks: state machines and places for programs. The library takes nothing of its own.\<close>

record can_claims =
  machines :: "(nat \<times> nat) set"
  programs :: "(nat \<times> program_half) set"

definition claims_after :: "can_op \<Rightarrow> can_claims \<Rightarrow> can_claims" where
  "claims_after op c =
     (case op of
        Sm_claim p sm \<Rightarrow> c\<lparr>machines := insert (p, sm) (machines c)\<rparr>
      | Sm_unclaim p sm \<Rightarrow> c\<lparr>machines := machines c - {(p, sm)}\<rparr>
      | Remove_program p half \<Rightarrow> c\<lparr>programs := programs c - {(p, half)}\<rparr>
      | _ \<Rightarrow> c)"

definition can_sdk_ok :: "'h can_sdk \<Rightarrow> ('h \<Rightarrow> can_claims) \<Rightarrow> bool" where
  "can_sdk_ok sdk held \<longleftrightarrow>
     (\<forall>p sm h. sm_is_claimed sdk p sm h \<longleftrightarrow> (p, sm) \<in> machines (held h))
   \<and> (\<forall>p half h. can_add_program_at sdk p half h \<longrightarrow> (p, half) \<notin> programs (held h))
   \<and> (\<forall>p half h. held (snd (add_program_at sdk p half h)) =
        (if fst (add_program_at sdk p half h) < 0 then held h else (held h)\<lparr>programs := insert (p, half) (programs (held h))\<rparr>))
   \<and> (\<forall>op h. held (can_do sdk op h) = claims_after op (held h))"

lemma held_do_all: "can_sdk_ok sdk held \<Longrightarrow> held (can_do_all sdk ops h) = fold claims_after ops (held h)"
  unfolding can_do_all_def by (induction ops arbitrary: h) (simp_all add: can_sdk_ok_def)

lemma held_added:
  assumes "can_sdk_ok sdk held" and "add_program_at sdk p half h = (offset, h')"
  shows "held h' = (if offset < 0 then held h else (held h)\<lparr>programs := insert (p, half) (programs (held h))\<rparr>)"
  using assms unfolding can_sdk_ok_def by (metis fst_conv snd_conv)

definition all_machines :: "nat \<Rightarrow> (nat \<times> nat) set" where
  "all_machines p = {p} \<times> {..<NUM_PIO_STATE_MACHINES}"

lemma claims_claim: "fold claims_after (claim_pio p) c = c\<lparr>machines := machines c \<union> all_machines p\<rparr>"
  by (simp add: claim_pio_def claims_after_def all_machines_def upt_rec numeral_eq_Suc) (auto simp: less_Suc_eq intro!: can_claims.equality)

lemma claims_unclaim: "fold claims_after (unclaim_pio p) c = c\<lparr>machines := machines c - all_machines p\<rparr>"
  by (simp add: unclaim_pio_def claims_after_def all_machines_def upt_rec numeral_eq_Suc) (auto simp: less_Suc_eq intro!: can_claims.equality)
lemma free_claims:
  assumes "can_sdk_ok sdk held" and "pio_is_free sdk p h"
  shows "machines (held h) - all_machines p = machines (held h)" and "(p, half) \<notin> programs (held h)"
proof -
  have m: "(p, sm) \<notin> machines (held h)" if "sm < 4" for sm
    using assms that by (auto simp: can_sdk_ok_def pio_is_free_def split: if_splits)
  show "machines (held h) - all_machines p = machines (held h)" using m by (auto simp: all_machines_def)
  show "(p, half) \<notin> programs (held h)"
    using assms by (cases half) (auto simp: can_sdk_ok_def pio_is_free_def split: if_splits)
qed

lemma undone_claims:
  assumes "machines c - all_machines p = machines c"
  shows "machines c \<union> all_machines p - all_machines p = machines c"
  using assms by blast

text \<open>What a call of \<open>can_bus_init\<close> that gets past its checks does: one of three ways out.\<close>

lemma init_ways:
  assumes ok: "can_sdk_ok sdk held" and init: "can_bus_init sdk bus config w = (r, w')"
  shows "cw_active w' = cw_active w \<and> r \<noteq> CAN_OK \<and> held (cw_hw w') = held (cw_hw w)
    \<or> (\<exists>b p c queue. bus = Some b \<and> config = Some c \<and> cc_pio c = Some p \<and> p < num_pios sdk \<and> pio_is_free sdk p (cw_hw w)
        \<and> \<not> bus_is_active w b \<and> cw_active w ! p = None \<and> r = CAN_OK
        \<and> can_queue_init (cc_rx_storage c) (cc_rx_storage_size c) = (True, queue)
        \<and> cw_active w' = (cw_active w)[p := Some b]
        \<and> cw_buses w' = (cw_buses w)[b := (fresh_bus p c (if cc_bitrate c \<noteq> 0 then cc_bitrate c else CAN_DEFAULT_BITRATE) (pio_irq_num sdk p))
            \<lparr>cb_rx_queue := queue, cb_initialised := True\<rparr>]
        \<and> held (cw_hw w') = \<lparr>machines = machines (held (cw_hw w)) \<union> all_machines p,
            programs = programs (held (cw_hw w)) \<union> {(p, Reservation_low), (p, Reservation_high)}\<rparr>)"
proof (cases "\<exists>b c p. bus = Some b \<and> config = Some c \<and> cc_pio c = Some p \<and> p < num_pios sdk \<and> pio_is_free sdk p (cw_hw w)
    \<and> \<not> bus_is_active w b \<and> cw_active w ! p = None \<and> irq_handler_for sdk p \<noteq> None \<and> \<not> irq_has_handler sdk (pio_irq_num sdk p) (cw_hw w)
    \<and> bitrate_is_usable sdk (if cc_bitrate c \<noteq> 0 then cc_bitrate c else CAN_DEFAULT_BITRATE)
    \<and> \<not> (cc_rx_storage c = None \<or> cc_rx_storage_size c < CAN_QUEUE_STORAGE_SIZE_1 \<or> cc_filter_count c \<noteq> 0 \<and> cc_filters c = None
            \<or> \<not> pins_are_compatible sdk (cc_rx_pin c) (cc_tx_pin c))")
  case False
  then have "r \<noteq> CAN_OK" "w' = w"
    using init by (auto simp: can_bus_init_def Let_def split: if_splits)
  then show ?thesis by simp
next
  case True
  then obtain b c p where given: "bus = Some b" "config = Some c" "cc_pio c = Some p" "p < num_pios sdk" "pio_is_free sdk p (cw_hw w)"
    "\<not> bus_is_active w b" "cw_active w ! p = None" "irq_handler_for sdk p \<noteq> None" "\<not> irq_has_handler sdk (pio_irq_num sdk p) (cw_hw w)"
    "bitrate_is_usable sdk (if cc_bitrate c \<noteq> 0 then cc_bitrate c else CAN_DEFAULT_BITRATE)"
    "\<not> (cc_rx_storage c = None \<or> cc_rx_storage_size c < CAN_QUEUE_STORAGE_SIZE_1 \<or> cc_filter_count c \<noteq> 0 \<and> cc_filters c = None
            \<or> \<not> pins_are_compatible sdk (cc_rx_pin c) (cc_tx_pin c))"
    by (elim exE conjE) (rule that)
  let ?h = "can_do_all sdk (claim_pio p) (cw_hw w)"
  let ?held = "held (cw_hw w)"
  note free = free_claims [OF ok given(5)]
  note undo = undone_claims [OF free(1)]
  obtain low h1 where low: "add_program_at sdk p Reservation_low ?h = (low, h1)" by fastforce
  obtain high h2 where high: "add_program_at sdk p Reservation_high h1 = (high, h2)" by fastforce
  obtain made queue where q: "can_queue_init (cc_rx_storage c) (cc_rx_storage_size c) = (made, queue)" by fastforce
  have h: "held ?h = ?held\<lparr>machines := machines ?held \<union> all_machines p\<rparr>" by (simp add: held_do_all [OF ok] claims_claim)
  note h1 = held_added [OF ok low] and h2 = held_added [OF ok high]
  note ops = held_do_all [OF ok] claims_claim claims_unclaim claims_after_def
  have filters: "(0 < cc_filter_count c \<and> cc_filters c = None) = False" using given(11) by auto
  have step: "can_bus_init sdk bus config w = (let h = ?h in
      if low < 0 then (CAN_ERR_PIO_IN_USE, w\<lparr>cw_hw := can_do_all sdk (unclaim_pio p) h1\<rparr>)
      else if high < 0 then (CAN_ERR_PIO_IN_USE, w\<lparr>cw_hw := can_do_all sdk (Remove_program p Reservation_low # unclaim_pio p) h2\<rparr>)
      else (let bitrate = (if cc_bitrate c \<noteq> 0 then cc_bitrate c else CAN_DEFAULT_BITRATE);
                o' = (fresh_bus p c bitrate (pio_irq_num sdk p))\<lparr>cb_rx_queue := queue\<rparr>
            in if \<not> made then (CAN_ERR_INVALID_ARG, w\<lparr>cw_buses := (cw_buses w)[b := o'],
                 cw_hw := can_do_all sdk ([Remove_program p Reservation_high, Remove_program p Reservation_low] @ unclaim_pio p) h2\<rparr>)
               else (CAN_OK, w\<lparr>cw_buses := (cw_buses w)[b := o'\<lparr>cb_initialised := True\<rparr>], cw_active := (cw_active w)[p := Some b],
                 cw_hw := can_do_all sdk [Can2040_setup b p, Can2040_callback_config b,
                   Irq_set_exclusive_handler (pio_irq_num sdk p) (the (irq_handler_for sdk p)), Irq_set_priority (pio_irq_num sdk p) (cc_irq_priority c),
                   Irq_set_enabled (pio_irq_num sdk p) True,
                   Can2040_start b (can_clk_sys_hz sdk) bitrate (cc_rx_pin c) (cc_tx_pin c)] h2\<rparr>)))"
    using given by (simp add: filters can_bus_init_def Let_def low high q del: not_None_eq split del: if_split cong: if_cong)
  have removed: "programs ?held - {(p, half)} = programs ?held" for half using free(2) by blast
  consider (low) "low < 0" | (high) "0 \<le> low" "high < 0" | (queue) "0 \<le> low" "0 \<le> high" "\<not> made" | (made) "0 \<le> low" "0 \<le> high" made
    by linarith
  then show ?thesis
  proof cases
    case low
    then have "r = CAN_ERR_PIO_IN_USE" "w' = w\<lparr>cw_hw := can_do_all sdk (unclaim_pio p) h1\<rparr>" using init step by simp_all
    then show ?thesis using low by (simp add: ops h1 h undo)
  next
    case high
    then have "r = CAN_ERR_PIO_IN_USE" "w' = w\<lparr>cw_hw := can_do_all sdk (Remove_program p Reservation_low # unclaim_pio p) h2\<rparr>"
      using init step by simp_all
    then show ?thesis using high by (simp add: ops h1 h2 h undo removed)
  next
    case queue
    then have "r = CAN_ERR_INVALID_ARG" "cw_active w' = cw_active w"
        "cw_hw w' = can_do_all sdk ([Remove_program p Reservation_high, Remove_program p Reservation_low] @ unclaim_pio p) h2"
      using init step by (auto simp: Let_def)
    moreover have "insert (p, Reservation_high) (insert (p, Reservation_low) (programs ?held)) - {(p, Reservation_high)} - {(p, Reservation_low)}
        = programs ?held" using removed by auto
    ultimately show ?thesis using queue by (simp add: ops h1 h2 h undo)
  next
    case made
    have "held (cw_hw w') = \<lparr>machines = machines ?held \<union> all_machines p,
        programs = programs ?held \<union> {(p, Reservation_low), (p, Reservation_high)}\<rparr>"
      using init step made by (auto simp: ops h1 h2 h Let_def intro!: can_claims.equality)
    moreover have "r = CAN_OK" "cw_active w' = (cw_active w)[p := Some b]" "cw_buses w' = (cw_buses w)
        [b := (fresh_bus p c (if cc_bitrate c \<noteq> 0 then cc_bitrate c else CAN_DEFAULT_BITRATE) (pio_irq_num sdk p))
            \<lparr>cb_rx_queue := queue, cb_initialised := True\<rparr>]"
      using init step made by (auto simp: Let_def)
    ultimately show ?thesis using given(1-7) q made
      by - (rule disjI2, rule exI [of _ b], rule exI [of _ p], rule exI [of _ c], rule exI [of _ queue], simp)
  qed
qed

subsection \<open>No frame goes astray\<close>

text \<open>The frames among the callbacks, and those of them that the filters let through.\<close>

definition frames_of :: "(can2040_notify \<times> can2040_msg option) list \<Rightarrow> can2040_msg list" where
  "frames_of made = List.map_filter (\<lambda>(notify, message). if notify = CAN2040_NOTIFY_RX then message else None) made"

definition let_through :: "can_bus_t \<Rightarrow> can2040_msg list \<Rightarrow> can2040_msg list" where
  "let_through b frames = filter (\<lambda>m. can_filters_accept (cb_filters b) (c2_id m)) frames"

lemma frames_of_simps [simp]:
  "frames_of [] = []"
  "frames_of ((notify, message) # made) = (if notify = CAN2040_NOTIFY_RX then (case message of None \<Rightarrow> [] | Some m \<Rightarrow> [m]) else []) @ frames_of made"
  by (auto simp: frames_of_def List.map_filter_simps split: option.splits)

lemma received_valid: "can_message_is_valid (Some (received_message m))" and length_received: "length (msg_data (received_message m)) = 8"
proof -
  have len: "can_dlc_to_length d \<le> 8" for d by (simp add: can_dlc_to_length_def word_le_nat_alt word_less_nat_alt unsigned_ucast_eq take_bit_nat_eq_self)
  have ident: "can_id_is_valid (can_id_value i) (can_id_is_extended i)" for i
    by (auto simp: can_id_is_valid_def can_id_value_def word_and_le1)
  show "can_message_is_valid (Some (received_message m))"
    using len ident by (simp add: can_message_is_valid_def received_message_def Let_def)
  show "length (msg_data (received_message m)) = 8"
    using len [of "c2_dlc m"] by (simp add: received_message_def Let_def can_message_zero_def blit_def word_le_nat_alt min_def)
qed

text \<open>What stays the same of a bus while it runs.\<close>

definition same_bus :: "can_bus_t \<Rightarrow> can_bus_t \<Rightarrow> bool" where
  "same_bus b b' \<longleftrightarrow> cb_filters b' = cb_filters b \<and> cb_initialised b' = cb_initialised b \<and> cb_pio b' = cb_pio b
     \<and> can_queue_capacity (cb_rx_queue b') = can_queue_capacity (cb_rx_queue b)"

lemma callback_spec:
  assumes q: "queue_holds (cb_rx_queue b) waiting"
  shows "\<exists>b' taken. can2040_callback b notify message = Some b' \<and> same_bus b b'
    \<and> queue_holds (cb_rx_queue b') (waiting @ map received_message taken) \<and> subseq taken (let_through b (frames_of [(notify, message)]))
    \<and> cb_filtered b' = cb_filtered b + of_nat (length (frames_of [(notify, message)]) - length (let_through b (frames_of [(notify, message)])))
    \<and> cq_dropped (cb_rx_queue b') = cq_dropped (cb_rx_queue b) + of_nat (length (let_through b (frames_of [(notify, message)])) - length taken)"
proof (cases "notify = CAN2040_NOTIFY_RX \<and> message \<noteq> None")
  case False
  then have "frames_of [(notify, message)] = []" by (auto split: option.splits)
  note none = this
  let ?b = "if notify = CAN2040_NOTIFY_ERROR then b\<lparr>cb_controller_errors := cb_controller_errors b + 1\<rparr> else b"
  have call: "can2040_callback b notify message = Some ?b" using False by (auto simp: can2040_callback_def)
  show ?thesis
    unfolding none call using q
    by - (rule exI [of _ ?b], rule exI [of _ "[]"], simp add: same_bus_def let_through_def)
next
  case True
  then obtain m where m: "notify = CAN2040_NOTIFY_RX" "message = Some m" by auto
  show ?thesis
  proof (cases "can_filters_accept (cb_filters b) (c2_id m)")
    case False
    then show ?thesis using q m
      by - (rule exI [of _ "b\<lparr>cb_filtered := cb_filtered b + 1\<rparr>"], rule exI [of _ "[]"], simp add: can2040_callback_def same_bus_def let_through_def)
  next
    case True
    let ?room = "length waiting < can_queue_capacity (cb_rx_queue b)"
    obtain q' where q': "can_queue_push (cb_rx_queue b) (Some (received_message m)) = Some (?room, q')"
      "queue_holds q' (if ?room then waiting @ [received_message m] else waiting)" "can_queue_capacity q' = can_queue_capacity (cb_rx_queue b)"
      "cq_dropped q' = (if ?room then cq_dropped (cb_rx_queue b) else cq_dropped (cb_rx_queue b) + 1)"
      using queue_push [OF q length_received, of m] by (auto simp: received_valid not_less split: if_splits)
    show ?thesis
      using m True q' by - (rule exI [of _ "b\<lparr>cb_rx_queue := q'\<rparr>"], rule exI [of _ "if ?room then [m] else []"],
        auto simp: can2040_callback_def same_bus_def let_through_def)
  qed
qed
lemma same_bus_trans: "same_bus a b \<Longrightarrow> same_bus b c \<Longrightarrow> same_bus a c"
  by (simp add: same_bus_def)

lemma let_through_same: "same_bus b b' \<Longrightarrow> let_through b' = let_through b"
  by (simp add: fun_eq_iff let_through_def same_bus_def)

lemma let_through_append: "let_through b (xs @ ys) = let_through b xs @ let_through b ys"
  by (simp add: let_through_def)

lemma length_let_through: "length (let_through b xs) \<le> length xs"
  by (simp add: let_through_def)

text \<open>The account of a bus between two moments: the frames that came meanwhile, and those taken into the queue.\<close>

definition accounts :: "can_bus_t \<Rightarrow> can2040_msg list \<Rightarrow> can2040_msg list \<Rightarrow> can_bus_t \<Rightarrow> bool" where
  "accounts b seen taken b' \<longleftrightarrow> same_bus b b' \<and> subseq taken (let_through b seen)
     \<and> cb_filtered b' = cb_filtered b + of_nat (length seen - length (let_through b seen))
     \<and> cq_dropped (cb_rx_queue b') = cq_dropped (cb_rx_queue b) + of_nat (length (let_through b seen) - length taken)"

lemma accounts_trans:
  assumes "accounts a xs ts b" and "accounts b ys us c"
  shows "accounts a (xs @ ys) (ts @ us) c"
proof -
  have same: "let_through b = let_through a" using assms(1) by (simp add: accounts_def let_through_same)
  have "length ts \<le> length (let_through a xs)" "length us \<le> length (let_through a ys)"
    using assms list_emb_length by (fastforce simp: accounts_def same)+
  then have "of_nat (length (let_through a (xs @ ys)) - length (ts @ us)) =
      (of_nat (length (let_through a xs) - length ts) + of_nat (length (let_through a ys) - length us) :: u32)"
    "of_nat (length (xs @ ys) - length (let_through a (xs @ ys))) =
      (of_nat (length xs - length (let_through a xs)) + of_nat (length ys - length (let_through a ys)) :: u32)"
    using length_let_through [of a xs] length_let_through [of a ys]
    by (simp_all add: let_through_append of_nat_diff)
  with assms show ?thesis
    unfolding accounts_def same let_through_append
    by (auto intro: same_bus_trans list_emb_append_mono simp: algebra_simps)
qed

lemma callback_accounts:
  assumes "queue_holds (cb_rx_queue b) waiting"
  shows "\<exists>b' taken. can2040_callback b notify message = Some b' \<and> accounts b (frames_of [(notify, message)]) taken b'
    \<and> queue_holds (cb_rx_queue b') (waiting @ map received_message taken)"
  using callback_spec [OF assms, of notify message] unfolding accounts_def by blast

lemma callbacks_account:
  assumes "queue_holds (cb_rx_queue b) waiting"
  shows "\<exists>b' taken. callbacks b made = Some b' \<and> accounts b (frames_of made) taken b'
    \<and> queue_holds (cb_rx_queue b') (waiting @ map received_message taken)"
  using assms
proof (induction made arbitrary: b waiting)
  case Nil
  have "accounts b [] [] b" by (simp add: accounts_def same_bus_def let_through_def)
  with Nil show ?case by (intro exI [of _ b], intro exI [of _ "[]"]) simp
next
  case (Cons call made)
  obtain notify message where call: "call = (notify, message)" by fastforce
  obtain b1 taken where b1: "can2040_callback b notify message = Some b1" "accounts b (frames_of [call]) taken b1"
    "queue_holds (cb_rx_queue b1) (waiting @ map received_message taken)"
    using callback_accounts [OF Cons.prems] call by blast
  obtain b2 more where b2: "callbacks b1 made = Some b2" "accounts b1 (frames_of made) more b2"
    "queue_holds (cb_rx_queue b2) ((waiting @ map received_message taken) @ map received_message more)"
    using Cons.IH [OF b1(3)] by blast
  from accounts_trans [OF b1(2) b2(2)] have "accounts b (frames_of (call # made)) (taken @ more) b2" by (simp add: call)
  with b1(1) b2 show ?case by (intro exI [of _ b2], intro exI [of _ "taken @ more"]) (simp add: call)
qed

text \<open>Interrupts and receptions in any order: what was delivered, what the controller saw, and the state after.\<close>

datatype bus_event = Interrupt | Receive

fun bus_run :: "'h can_sdk \<Rightarrow> nat \<Rightarrow> nat \<Rightarrow> bus_event list \<Rightarrow> 'h can_world \<Rightarrow> (can_message_t list \<times> can2040_msg list \<times> 'h can_world) option" where
  "bus_run sdk pio bus [] w = Some ([], [], w)"
| "bus_run sdk pio bus (Interrupt # events) w =
     (case can_irq_dispatch sdk pio w of
        None \<Rightarrow> None
      | Some w' \<Rightarrow> map_option (\<lambda>(delivered, seen, w''). (delivered, frames_of (fst (can2040_pio_irq_handler sdk bus (cw_hw w))) @ seen, w''))
          (bus_run sdk pio bus events w'))"
| "bus_run sdk pio bus (Receive # events) w =
     (case can_bus_receive (Some bus) True w of
        None \<Rightarrow> None
      | Some (result, message, w') \<Rightarrow>
          map_option (\<lambda>(delivered, rest). ((case message of None \<Rightarrow> [] | Some m \<Rightarrow> [m]) @ delivered, rest)) (bus_run sdk pio bus events w'))"

definition bus_up :: "nat \<Rightarrow> nat \<Rightarrow> can_message_t list \<Rightarrow> 'h can_world \<Rightarrow> bool" where
  "bus_up pio bus waiting w \<longleftrightarrow> pio < length (cw_active w) \<and> cw_active w ! pio = Some bus \<and> bus < length (cw_buses w)
     \<and> cb_initialised (cw_buses w ! bus) \<and> queue_holds (cb_rx_queue (cw_buses w ! bus)) waiting"

lemma run_accounts:
  assumes "bus_up pio bus waiting w"
  shows "\<exists>delivered seen taken w' left. bus_run sdk pio bus events w = Some (delivered, seen, w') \<and> bus_up pio bus left w'
    \<and> accounts (cw_buses w ! bus) seen taken (cw_buses w' ! bus)
    \<and> delivered @ map frame_content left = map frame_content (waiting @ map received_message taken)"
  using assms
proof (induction events arbitrary: w waiting)
  case Nil
  have "accounts b [] [] b" for b by (simp add: accounts_def same_bus_def let_through_def)
  with Nil show ?case by fastforce
next
  case (Cons event events)
  let ?b = "cw_buses w ! bus"
  have up: "cw_active w ! pio = Some bus" "bus < length (cw_buses w)" "cb_initialised ?b" "queue_holds (cb_rx_queue ?b) waiting"
    "pio < length (cw_active w)" using Cons.prems by (simp_all add: bus_up_def)
  then have active: "bus_is_active w bus" by (auto simp: bus_is_active_def)
  show ?case
  proof (cases event)
    case Interrupt
    obtain made h where made: "can2040_pio_irq_handler sdk bus (cw_hw w) = (made, h)" by fastforce
    obtain b1 taken where b1: "callbacks ?b made = Some b1" "accounts ?b (frames_of made) taken b1"
      "queue_holds (cb_rx_queue b1) (waiting @ map received_message taken)"
      using callbacks_account [OF up(4)] by blast
    let ?w = "w\<lparr>cw_buses := (cw_buses w)[bus := b1], cw_hw := h\<rparr>"
    have step: "can_irq_dispatch sdk pio w = Some ?w" using up b1(1) made by (simp add: can_irq_dispatch_def)
    have "bus_up pio bus (waiting @ map received_message taken) ?w" using up b1 by (simp add: bus_up_def accounts_def same_bus_def)
    from Cons.IH [OF this] obtain delivered seen more w' left where rest: "bus_run sdk pio bus events ?w = Some (delivered, seen, w')"
      "bus_up pio bus left w'" "accounts b1 seen more (cw_buses w' ! bus)"
      "delivered @ map frame_content left = map frame_content ((waiting @ map received_message taken) @ map received_message more)"
      using up(2) by auto
    from accounts_trans [OF b1(2) rest(3)] rest Interrupt step made show ?thesis
      by - (rule exI [of _ delivered], rule exI [of _ "frames_of made @ seen"], rule exI [of _ "taken @ more"], rule exI [of _ w'],
        rule exI [of _ left], simp)
  next
    case Receive
    obtain q where q: "can_queue_pop (cb_rx_queue ?b) = Some (case waiting of [] \<Rightarrow> None | m # _ \<Rightarrow> Some (frame_content m), q)"
      "queue_holds q (drop 1 waiting)" "can_queue_capacity q = can_queue_capacity (cb_rx_queue ?b)" "cq_dropped q = cq_dropped (cb_rx_queue ?b)"
      using queue_pop [OF up(4)] by blast
    let ?b1 = "?b\<lparr>cb_rx_queue := q\<rparr>"
    let ?w = "w\<lparr>cw_buses := (cw_buses w)[bus := ?b1]\<rparr>"
    have step: "\<exists>r. can_bus_receive (Some bus) True w = Some (r, case waiting of [] \<Rightarrow> None | m # _ \<Rightarrow> Some (frame_content m), ?w)"
      using active q(1) by (simp add: can_bus_receive_def)
    have acc: "accounts ?b [] [] ?b1" using q by (simp add: accounts_def same_bus_def let_through_def)
    have "bus_up pio bus (drop 1 waiting) ?w" using up q(2) by (simp add: bus_up_def)
    from Cons.IH [OF this] obtain delivered seen more w' left where rest: "bus_run sdk pio bus events ?w = Some (delivered, seen, w')"
      "bus_up pio bus left w'" "accounts ?b1 seen more (cw_buses w' ! bus)"
      "delivered @ map frame_content left = map frame_content (drop 1 waiting @ map received_message more)"
      using up(2) by auto
    from accounts_trans [OF acc rest(3)] rest Receive step show ?thesis
      by - (rule exI [of _ "(case waiting of [] \<Rightarrow> [] | m # _ \<Rightarrow> [frame_content m]) @ delivered"], rule exI [of _ seen], rule exI [of _ more],
        rule exI [of _ w'], rule exI [of _ left], auto split: list.split)
  qed
qed

subsection \<open>A block with a library that sees one frame at a time\<close>

definition ping_frame :: can2040_msg where
  "ping_frame = \<lparr>c2_id = 0x123, c2_dlc = 2, c2_data = [1, 2, 0, 0, 0, 0, 0, 0]\<rparr>"

definition ping_can :: "can_claims can_sdk" where
  "ping_can = \<lparr>num_pios = 2, num_gpios = 30, can_clk_sys_hz = 125000000, pio_irq_num = (\<lambda>p. p),
     sm_is_claimed = (\<lambda>p sm h. (p, sm) \<in> machines h), can_add_program_at = (\<lambda>p half h. (p, half) \<notin> programs h),
     add_program_at = (\<lambda>p half h. (0, h\<lparr>programs := insert (p, half) (programs h)\<rparr>)), irq_has_handler = (\<lambda>i h. False),
     irq_exclusive_handler = (\<lambda>i h. None), can2040_transmit = (\<lambda>b m h. (0, h)), can2040_check_transmit = (\<lambda>b h. 1),
     can2040_get_statistics = (\<lambda>b h. \<lparr>rx_total = 0, tx_total = 0, tx_attempt = 0, parse_error = 0\<rparr>),
     can2040_pio_irq_handler = (\<lambda>b h. ([(CAN2040_NOTIFY_RX, Some ping_frame)], h)), can_do = claims_after\<rparr>"

lemma ping_can_ok: "can_sdk_ok ping_can (\<lambda>h. h)"
  by (simp add: can_sdk_ok_def ping_can_def)

definition ping_config :: can_bus_config_t where
  "ping_config = \<lparr>cc_pio = Some 1, cc_rx_pin = 4, cc_tx_pin = - 1, cc_bitrate = 0, cc_filters = None, cc_filter_count = 0,
     cc_rx_storage = Some (replicate 64 0), cc_rx_storage_size = 64, cc_irq_priority = 0\<rparr>"

definition ping_world :: "can_claims can_world" where
  "ping_world = \<lparr>cw_buses = [fresh_bus 0 ping_config 0 0], cw_active = [None, None], cw_hw = \<lparr>machines = {}, programs = {}\<rparr>\<rparr>"

lemma nobody_active: "\<not> bus_is_active \<lparr>cw_buses = bs, cw_active = [None, None], cw_hw = h\<rparr> b"
  by (auto simp: bus_is_active_def less_Suc_eq nth_Cons split: nat.splits)

lemma ping_starts: "\<exists>w0. can_bus_init ping_can (Some 0) (Some ping_config) ping_world = (CAN_OK, w0)"
  by (simp add: can_bus_init_def ping_can_def ping_config_def ping_world_def Let_def pins_are_compatible_def bitrate_is_usable_def
    irq_handler_for_def nobody_active pio_is_free_def can_queue_init_def ring_buffer_init_def ring_buffer_capacity_def can_do_all_def
    claims_claim)



end
