(* ===== verification/Vl53l0x_Timing.thy ===== *)
theory Vl53l0x_Timing
  imports Prelude
begin

text \<open>
  Model of \<open>components/vl53l0x/vl53l0x_timing.c\<close> and of the inline functions of its header: the macro
  clock, the compressed timeout register and the division of a measurement budget among the phases. All
  arithmetic is that of the code, on 32-bit words that wrap. A decoded exponent of 32 or more, which
  no encoded timeout has, shifts everything out here as it does on the processor; C leaves it open.
\<close>

abbreviation (input) "VL53L0X_START_OVERHEAD_US \<equiv> (1910 :: u32)"
abbreviation (input) "VL53L0X_END_OVERHEAD_US \<equiv> (960 :: u32)"
abbreviation (input) "VL53L0X_MSRC_OVERHEAD_US \<equiv> (660 :: u32)"
abbreviation (input) "VL53L0X_TCC_OVERHEAD_US \<equiv> (590 :: u32)"
abbreviation (input) "VL53L0X_DSS_OVERHEAD_US \<equiv> (690 :: u32)"
abbreviation (input) "VL53L0X_PRE_RANGE_OVERHEAD_US \<equiv> (660 :: u32)"
abbreviation (input) "VL53L0X_FINAL_RANGE_OVERHEAD_US \<equiv> (550 :: u32)"
abbreviation (input) "VL53L0X_MIN_TIMING_BUDGET_US \<equiv> (20000 :: u32)"

record vl53l0x_sequence_steps_t =
  tcc :: bool
  dss :: bool
  msrc :: bool
  pre_range :: bool
  final_range :: bool

record vl53l0x_sequence_timeouts_t =
  pre_range_vcsel_period_pclks :: u8
  final_range_vcsel_period_pclks :: u8
  msrc_dss_tcc_mclks :: u16
  pre_range_mclks :: u16
  final_range_mclks :: u16
  msrc_dss_tcc_us :: u32
  pre_range_us :: u32
  final_range_us :: u32

definition vl53l0x_decode_vcsel_period :: "u8 \<Rightarrow> u8" where
  "vl53l0x_decode_vcsel_period register_value = ucast (push_bit 1 (ucast register_value + 1 :: u32))"

definition vl53l0x_encode_vcsel_period :: "u8 \<Rightarrow> u8" where
  "vl53l0x_encode_vcsel_period period_pclks = ucast (ucast (drop_bit 1 period_pclks) - 1 :: u32)"

definition vl53l0x_macro_period_ns :: "u8 \<Rightarrow> u32" where
  "vl53l0x_macro_period_ns vcsel_period_pclks = (2304 * ucast vcsel_period_pclks * 1655 + 500) div 1000"

definition vl53l0x_timeout_mclks_to_us :: "u16 \<Rightarrow> u8 \<Rightarrow> u32" where
  "vl53l0x_timeout_mclks_to_us timeout_mclks vcsel_period_pclks =
     (let macro_ns = vl53l0x_macro_period_ns vcsel_period_pclks in
      (ucast timeout_mclks * macro_ns + 500) div 1000)"

definition vl53l0x_timeout_us_to_mclks :: "u32 \<Rightarrow> u8 \<Rightarrow> u32" where
  "vl53l0x_timeout_us_to_mclks timeout_us vcsel_period_pclks =
     (let macro_ns = vl53l0x_macro_period_ns vcsel_period_pclks in
      if macro_ns = 0 then 0 else (timeout_us * 1000 + macro_ns div 2) div macro_ns)"

text \<open>The loop that shifts the mantissa into a byte.\<close>

function encode_loop :: "u32 \<Rightarrow> u8 \<Rightarrow> u32 \<times> u8" where
  "encode_loop mantissa exponent =
     (if mantissa AND 0xFFFFFF00 \<noteq> 0 then encode_loop (drop_bit 1 mantissa) (exponent + 1)
      else (mantissa, exponent))"
  by auto

lemma high_bytes_zero: "(m :: u32) AND 0xFFFFFF00 = 0 \<longleftrightarrow> unat m < 256"
proof -
  have high: "(0xFFFFFF00 :: u32) = NOT (mask 8)" by (simp add: mask_eq_decr_exp)
  have "m AND 0xFFFFFF00 = push_bit 8 (drop_bit 8 m)"
    unfolding high by (auto simp: bit_simps intro!: bit_word_eqI)
  moreover have "push_bit 8 (drop_bit 8 m) = 0 \<longleftrightarrow> drop_bit 8 m = 0"
  proof
    assume z: "push_bit 8 (drop_bit 8 m) = 0"
    show "drop_bit 8 m = 0"
    proof (rule bit_word_eqI)
      fix n assume "n < LENGTH(32)"
      have "bit (push_bit 8 (drop_bit 8 m)) (8 + n) = False" using z by simp
      then show "bit (drop_bit 8 m) n = bit 0 n"
        by (auto simp: bit_simps dest: bit_imp_le_length)
    qed
  qed simp
  moreover have "drop_bit 8 m = 0 \<longleftrightarrow> unat m div 256 = 0"
    by (simp add: word_eq_unat_iff unat_drop_bit_div)
  ultimately show ?thesis by (simp add: div_eq_0_iff)
qed

lemma unat_half: "unat (drop_bit (Suc 0) (m :: u32)) = unat m div 2"
  by (simp add: unat_drop_bit_div)

termination encode_loop
  by (relation "measure (\<lambda>(m, e). unat m)") (auto simp: high_bytes_zero unat_half)

declare encode_loop.simps [simp del]

definition vl53l0x_encode_timeout :: "u32 \<Rightarrow> u16" where
  "vl53l0x_encode_timeout timeout_mclks =
     (if timeout_mclks = 0 then 0
      else
        (case encode_loop (timeout_mclks - 1) 0 of
           (mantissa, exponent) \<Rightarrow> push_bit 8 (ucast exponent) OR ucast (mantissa AND 0xFF)))"

definition vl53l0x_decode_timeout :: "u16 \<Rightarrow> u32" where
  "vl53l0x_decode_timeout register_value =
     (let mantissa = ucast register_value AND 0x00FF;
          exponent = drop_bit 8 (ucast register_value AND 0xFF00 :: u32)
      in push_bit (unat exponent) mantissa + 1)"

definition vl53l0x_decode_sequence_steps :: "u8 \<Rightarrow> vl53l0x_sequence_steps_t" where
  "vl53l0x_decode_sequence_steps register_value =
     \<lparr>tcc = (register_value AND 0x10 \<noteq> 0), dss = (register_value AND 0x08 \<noteq> 0),
      msrc = (register_value AND 0x04 \<noteq> 0), pre_range = (register_value AND 0x40 \<noteq> 0),
      final_range = (register_value AND 0x80 \<noteq> 0)\<rparr>"

definition vl53l0x_budget_used_us ::
    "vl53l0x_sequence_steps_t \<Rightarrow> vl53l0x_sequence_timeouts_t \<Rightarrow> u32" where
  "vl53l0x_budget_used_us steps timeouts =
     (let used = VL53L0X_START_OVERHEAD_US + VL53L0X_END_OVERHEAD_US;
          used = (if tcc steps then used + (msrc_dss_tcc_us timeouts + VL53L0X_TCC_OVERHEAD_US) else used);
          used = (if dss steps then used + 2 * (msrc_dss_tcc_us timeouts + VL53L0X_DSS_OVERHEAD_US)
                  else if msrc steps then used + (msrc_dss_tcc_us timeouts + VL53L0X_MSRC_OVERHEAD_US)
                  else used);
          used = (if pre_range steps then used + (pre_range_us timeouts + VL53L0X_PRE_RANGE_OVERHEAD_US)
                  else used);
          used = (if final_range steps then used + (final_range_us timeouts + VL53L0X_FINAL_RANGE_OVERHEAD_US)
                  else used)
      in used)"

text \<open>The value is the timeout the code writes to \<open>final_range_us\<close>, or nothing when it returns false.\<close>

definition vl53l0x_final_range_timeout_us ::
    "vl53l0x_sequence_steps_t \<Rightarrow> vl53l0x_sequence_timeouts_t \<Rightarrow> u32 \<Rightarrow> u32 option" where
  "vl53l0x_final_range_timeout_us steps timeouts budget_us =
     (if budget_us < VL53L0X_MIN_TIMING_BUDGET_US then None
      else if \<not> final_range steps then Some 0
      else
        (let without_final = \<lparr>pre_range_vcsel_period_pclks = 0, final_range_vcsel_period_pclks = 0,
               msrc_dss_tcc_mclks = 0, pre_range_mclks = 0, final_range_mclks = 0,
               msrc_dss_tcc_us = msrc_dss_tcc_us timeouts, pre_range_us = pre_range_us timeouts,
               final_range_us = 0\<rparr>;
             others = steps\<lparr>final_range := False\<rparr>;
             used = vl53l0x_budget_used_us others without_final + VL53L0X_FINAL_RANGE_OVERHEAD_US
         in if budget_us \<le> used then None else Some (budget_us - used)))"

subsection \<open>The compressed timeout\<close>

text \<open>The loop drops as few low bits as make the rest fit a byte.\<close>

lemma encode_loop_shifts:
  "\<exists>k. encode_loop m e = (drop_bit k m, e + of_nat k) \<and> unat m div 2 ^ k < 256
     \<and> (k \<noteq> 0 \<longrightarrow> 128 \<le> unat m div 2 ^ k)"
proof (induction m e rule: encode_loop.induct)
  case (1 m e)
  show ?case
  proof (cases "unat m < 256")
    case True
    then show ?thesis by (intro exI [of _ 0]) (simp add: encode_loop.simps high_bytes_zero)
  next
    case False
    then have "m AND 0xFFFFFF00 \<noteq> 0" by (simp add: high_bytes_zero)
    from 1 [OF this] obtain k where
      k: "encode_loop (drop_bit 1 m) (e + 1) = (drop_bit k (drop_bit 1 m), e + 1 + of_nat k)"
      "unat m div 2 div 2 ^ k < 256" "k \<noteq> 0 \<longrightarrow> 128 \<le> unat m div 2 div 2 ^ k"
      by (simp only: unat_half One_nat_def) blast
    have "unat m div 2 div 2 ^ k = unat m div 2 ^ Suc k" by (simp add: div_mult2_eq)
    moreover have "k = 0 \<longrightarrow> 128 \<le> unat m div 2"
      using False div_le_mono [of 256 "unat m" 2] by simp
    moreover have "encode_loop m e = (drop_bit (Suc k) m, e + of_nat (Suc k))"
      using False k(1) by (subst encode_loop.simps) (simp add: high_bytes_zero ac_simps)
    ultimately show ?thesis using k(2,3) by (intro exI [of _ "Suc k"]) (auto simp del: of_nat_Suc)
  qed
qed

lemma unat_push_bit_byte:
  fixes m :: u32
  assumes "unat m < 256" and "k \<le> 24"
  shows "unat (push_bit k m) = unat m * 2 ^ k"
proof -
  have "unat m * 2 ^ k \<le> 255 * 2 ^ 24"
    using assms by (intro mult_le_mono power_increasing) simp_all
  then have "unat (word_of_nat (unat m * 2 ^ k) :: u32) = unat m * 2 ^ k"
    by (intro unat_of_nat_lt) simp
  moreover have "push_bit k m = word_of_nat (unat m * 2 ^ k)"
    by (simp add: push_bit_eq_mult)
  ultimately show ?thesis by simp
qed

text \<open>Conversely the loop finds any mantissa in normal form again.\<close>

lemma encode_loop_normal:
  assumes "unat m < 256" and "k = 0 \<or> 128 \<le> unat m" and "k \<le> 24"
  shows "encode_loop (push_bit k m) e = (m, e + of_nat k)"
  using assms(2,3)
proof (induction k arbitrary: e)
  case 0
  then show ?case using assms(1) by (simp add: encode_loop.simps high_bytes_zero)
next
  case (Suc k)
  have shift: "unat (push_bit j m) = unat m * 2 ^ j" if "j \<le> 24" for j
    using unat_push_bit_byte [OF assms(1) that] .
  have "256 \<le> unat m * 2 ^ Suc k" using Suc.prems(1) by (cases "2 ^ k :: nat") auto
  then have "push_bit (Suc k) m AND 0xFFFFFF00 \<noteq> 0"
    using shift [of "Suc k"] Suc.prems by (simp add: high_bytes_zero)
  moreover have "drop_bit 1 (push_bit (Suc k) m) = push_bit k m"
    using shift [of "Suc k"] shift [of k] Suc.prems
    by (simp add: word_eq_unat_iff unat_drop_bit_div)
  ultimately have "encode_loop (push_bit (Suc k) m) e = encode_loop (push_bit k m) (e + 1)"
    by (subst encode_loop.simps) simp
  also have "\<dots> = (m, e + 1 + of_nat k)" using Suc by (intro Suc.IH) auto
  finally show ?case by (simp add: ac_simps)
qed

lemma decode_fields:
  fixes q :: u32 and e :: u8
  assumes "unat q < 256"
  shows "vl53l0x_decode_timeout (push_bit 8 (ucast e) OR ucast (q AND 0xFF)) = push_bit (unat e) q + 1"
proof -
  let ?r = "push_bit 8 (ucast e) OR ucast (q AND 0xFF) :: u16"
  have lo: "(0x00FF :: u32) = mask 8" and hi: "(0xFF00 :: u32) = push_bit 8 (mask 8)"
    by (simp_all add: mask_eq_decr_exp)
  have small: "n < 8" if "bit q n" for n
  proof -
    have "take_bit 8 q = q"
      using assms by (simp add: word_eq_unat_iff unsigned_take_bit_eq take_bit_nat_eq_self)
    then show ?thesis using that by (metis bit_take_bit_iff)
  qed
  have "ucast ?r AND 0x00FF = q"
    unfolding lo by (rule bit_word_eqI) (auto simp: bit_simps dest: small)
  moreover have "drop_bit 8 (ucast ?r AND 0xFF00 :: u32) = ucast e"
    unfolding lo hi by (rule bit_word_eqI) (auto simp: bit_simps dest: bit_imp_le_length)
  ultimately show ?thesis
    unfolding vl53l0x_decode_timeout_def Let_def
    by (simp add: unsigned_ucast_eq take_bit_nat_eq_self unat_u8_lt [THEN order_less_trans])
qed

lemma timeout_normal_form:
  assumes "n \<noteq> 0"
  obtains q k where "vl53l0x_encode_timeout n = push_bit 8 (ucast (of_nat k :: u8)) OR ucast (q AND 0xFF)"
    and "vl53l0x_decode_timeout (vl53l0x_encode_timeout n) = push_bit k q + 1"
    and "unat q = (unat n - 1) div 2 ^ k" and "unat q < 256" and "k = 0 \<or> 128 \<le> unat q" and "k \<le> 24"
proof -
  have pred: "unat (n - 1) = unat n - 1" using assms by (rule unat_minus_one)
  obtain k where k: "encode_loop (n - 1) 0 = (drop_bit k (n - 1), of_nat k)"
    "(unat n - 1) div 2 ^ k < 256" "k \<noteq> 0 \<longrightarrow> 128 \<le> (unat n - 1) div 2 ^ k"
    using encode_loop_shifts [of "n - 1" 0] unfolding pred by auto
  have "k \<le> 24"
  proof (rule ccontr)
    assume "\<not> k \<le> 24"
    then have "128 \<le> (unat n - 1) div 2 ^ k" using k(3) by simp
    then have "128 * 2 ^ k \<le> unat n - 1" by (simp add: less_eq_div_iff_mult_less_eq)
    moreover have "(2 :: nat) ^ 25 \<le> 2 ^ k" using \<open>\<not> k \<le> 24\<close> by (intro power_increasing) simp_all
    ultimately have "128 * 2 ^ 25 \<le> unat n" by linarith
    then show False using unat_u32_lt [of n] by simp
  qed
  have q: "unat (drop_bit k (n - 1)) = (unat n - 1) div 2 ^ k" by (simp add: unat_drop_bit_div pred)
  have e: "vl53l0x_encode_timeout n
      = push_bit 8 (ucast (of_nat k :: u8)) OR ucast (drop_bit k (n - 1) AND 0xFF)"
    using assms by (simp add: vl53l0x_encode_timeout_def k(1))
  have "unat (of_nat k :: u8) = k" using \<open>k \<le> 24\<close> by (intro unat_of_nat_lt) simp
  then have "vl53l0x_decode_timeout (vl53l0x_encode_timeout n) = push_bit k (drop_bit k (n - 1)) + 1"
    unfolding e using decode_fields [of "drop_bit k (n - 1)" "of_nat k"] q k(2) by simp
  with e q k(2,3) \<open>k \<le> 24\<close> show ?thesis by (intro that [of k "drop_bit k (n - 1)"]) auto
qed

text \<open>The compressed timeout. Encoding always ends; what is read back from the register is never longer
  than what was asked for, is short by less than one part in 128, is exact up to 256 macro clocks,
  and is written again as the same register value.
\<close>

theorem vl53l0x_timeout_never_longer:
  assumes "n \<noteq> 0"
  defines "d \<equiv> vl53l0x_decode_timeout (vl53l0x_encode_timeout n)"
  shows "d \<noteq> 0" and "d \<le> n" and "128 * (unat n - unat d) < unat n" and "n \<le> 256 \<longrightarrow> d = n"
    and "vl53l0x_encode_timeout d = vl53l0x_encode_timeout n"
proof -
  obtain q k where e: "vl53l0x_encode_timeout n = push_bit 8 (ucast (of_nat k :: u8)) OR ucast (q AND 0xFF)"
    and d: "d = push_bit k q + 1" and q: "unat q = (unat n - 1) div 2 ^ k" "unat q < 256"
    and k: "k = 0 \<or> 128 \<le> unat q" "k \<le> 24"
    unfolding d_def by (rule timeout_normal_form [OF assms(1)])
  let ?p = "2 ^ k :: nat"
  have p: "unat (push_bit k q) = unat q * ?p" using q(2) k(2) by (rule unat_push_bit_byte)
  have "unat q * ?p \<le> unat n - 1" using q(1) by simp
  moreover have n: "0 < unat n" using assms(1) by (simp add: unat_gt_0)
  ultimately have "unat q * ?p + 1 \<le> unat n" by linarith
  then have du: "unat d = unat q * ?p + 1"
    unfolding d using unat_u32_lt [of n] p by (subst unat_word_ariths(1)) simp
  show "d \<noteq> 0" using du by (auto simp: unat_eq_0)
  show "d \<le> n" using du \<open>unat q * ?p + 1 \<le> unat n\<close> by (simp add: word_le_nat_alt)
  have short: "unat n - 1 < unat q * ?p + ?p"
  proof -
    have "(unat n - 1) mod ?p < ?p" by simp
    then show ?thesis using div_mult_mod_eq [of "unat n - 1" ?p] unfolding q(1) by linarith
  qed
  show "128 * (unat n - unat d) < unat n"
  proof (cases "k = 0")
    case False
    then have "128 * ?p \<le> unat q * ?p" using k(1) by simp
    then show ?thesis using short du \<open>unat q * ?p + 1 \<le> unat n\<close> by linarith
  qed (use short du n in simp)
  show "n \<le> 256 \<longrightarrow> d = n"
  proof
    assume "n \<le> 256"
    then have "unat n \<le> 256" by (simp add: word_le_nat_alt)
    have "k = 0"
    proof (rule ccontr)
      assume "k \<noteq> 0"
      then have "128 * 2 \<le> unat q * ?p" using k(1) by (intro mult_le_mono) (cases k; simp)+
      with \<open>unat q * ?p + 1 \<le> unat n\<close> \<open>unat n \<le> 256\<close> show False by linarith
    qed
    then show "d = n" using du q(1) n by (simp add: word_eq_unat_iff)
  qed
  have "encode_loop (d - 1) 0 = (q, of_nat k)"
    using encode_loop_normal [OF q(2) k] by (simp add: d)
  then show "vl53l0x_encode_timeout d = vl53l0x_encode_timeout n"
    using \<open>d \<noteq> 0\<close> unfolding e by (simp add: vl53l0x_encode_timeout_def)
qed

lemma encode_1000: "vl53l0x_encode_timeout 1000 = 0x2F9"
  by (simp add: vl53l0x_encode_timeout_def encode_loop.simps)

theorem vl53l0x_timeout_never_longer_witness:
  "vl53l0x_decode_timeout (vl53l0x_encode_timeout 1000) \<le> 1000 \<and> vl53l0x_decode_timeout 0x2F9 = 997"
  using vl53l0x_timeout_never_longer(2) [of 1000] by (simp add: vl53l0x_decode_timeout_def)

text \<open>The register has no value for no clocks at all: a timeout of zero is read back as one.\<close>

lemma encoded_zero_is_longer: "vl53l0x_decode_timeout (vl53l0x_encode_timeout 0) = 1"
  by (simp add: vl53l0x_encode_timeout_def vl53l0x_decode_timeout_def)

subsection \<open>Periods and macro clocks\<close>

lemma vcsel_period_roundtrip:
  assumes "r < 127"
  shows "vl53l0x_encode_vcsel_period (vl53l0x_decode_vcsel_period r) = r"
    and "unat (vl53l0x_decode_vcsel_period r) = 2 * (unat r + 1)"
proof -
  have r: "unat r < 127" using assms by (simp add: word_less_nat_alt)
  define x :: u32 where "x = ucast r + 1"
  have "unat x = unat r + 1"
    using r by (simp add: x_def unat_word_ariths(1) unsigned_ucast_eq take_bit_nat_eq_self)
  then have "unat (push_bit 1 x) = 2 * (unat r + 1)"
    using r by (simp add: push_bit_eq_mult unat_word_ariths(2))
  then show d: "unat (vl53l0x_decode_vcsel_period r) = 2 * (unat r + 1)"
    using r unfolding vl53l0x_decode_vcsel_period_def x_def [symmetric]
    by (simp only: unsigned_ucast_eq) (simp add: take_bit_nat_eq_self)
  have "unat (drop_bit 1 (vl53l0x_decode_vcsel_period r)) = unat r + 1"
    by (simp add: unat_drop_bit_div d)
  then have "drop_bit 1 (vl53l0x_decode_vcsel_period r) = r + 1"
    using r by (simp add: word_eq_unat_iff unat_word_ariths(1))
  then show "vl53l0x_encode_vcsel_period (vl53l0x_decode_vcsel_period r) = r"
    using r unfolding vl53l0x_encode_vcsel_period_def
    by (simp add: word_eq_unat_iff unsigned_ucast_eq take_bit_nat_eq_self unat_word_ariths(1)
        unat_sub_if')
qed

text \<open>
  Microseconds and macro clocks. A whole number of macro clocks survives the trip through
  microseconds, as long as the nanoseconds fit 32 bits.
\<close>

lemma macro_period_nat:
  "unat (vl53l0x_macro_period_ns p) = (3813120 * unat p + 500) div 1000"
proof -
  have "unat p < 256" by (rule unat_u8_lt)
  then have u: "unat (ucast p :: u32) = unat p"
    by (simp add: unsigned_ucast_eq take_bit_nat_eq_self)
  have "unat (2304 * x * 1655 + 500 :: u32) = 3813120 * n + 500" if "unat x = n" "n < 256" for x n
    using that by (simp add: unat_word_ariths(1,2))
  from this [OF u \<open>unat p < 256\<close>] show ?thesis
    by (simp add: vl53l0x_macro_period_ns_def unat_div)
qed

lemma mclks_roundtrip:
  assumes "p \<noteq> 0" and "(unat m + 1) * unat (vl53l0x_macro_period_ns p) < 2 ^ 32"
  shows "unat (vl53l0x_timeout_us_to_mclks (vl53l0x_timeout_mclks_to_us m p) p) = unat m"
proof -
  define M where "M = vl53l0x_macro_period_ns p"
  let ?M = "unat M"
  have "1 \<le> unat p" using assms(1) by (simp add: unat_gt_0 Suc_le_eq)
  then have big: "3813 \<le> ?M" by (simp add: M_def macro_period_nat)
  have "unat (ucast m :: u32) = unat m"
    using unsigned_less [of m, where ?'a = nat] by (simp add: unsigned_ucast_eq take_bit_nat_eq_self)
  have prod: "unat m * ?M + ?M < 4294967296" using assms(2) by (simp add: M_def)
  then have "unat (ucast m * M) = unat m * ?M"
    by (subst unat_mult_lem [THEN iffD1]) (simp_all add: \<open>unat (ucast m) = unat m\<close>)
  then have us: "unat (vl53l0x_timeout_mclks_to_us m p) = (unat m * ?M + 500) div 1000"
    using prod big by (simp add: vl53l0x_timeout_mclks_to_us_def Let_def M_def [symmetric] unat_div unat_word_ariths(1))
  define u where "u = vl53l0x_timeout_mclks_to_us m p"
  have lo: "unat m * ?M + 500 < unat u * 1000 + 1000" and hi: "unat u * 1000 \<le> unat m * ?M + 500"
    unfolding u_def us by linarith+
  have half: "?M = 2 * (?M div 2) + ?M mod 2" "?M mod 2 < 2" by simp_all
  have "unat (u * 1000) = unat u * 1000" using hi prod big by (simp add: unat_word_ariths(2))
  moreover have h: "unat (M div 2) = ?M div 2" by (simp add: unat_div)
  moreover have "unat u * 1000 + ?M div 2 < 4294967296" using hi half prod big by linarith
  ultimately have n: "unat (u * 1000 + M div 2) = unat u * 1000 + ?M div 2"
    by (simp add: unat_word_ariths(1))
  have "unat m * ?M \<le> unat u * 1000 + ?M div 2" "unat u * 1000 + ?M div 2 < unat m * ?M + ?M"
    using lo hi half big by linarith+
  then have "(unat u * 1000 + ?M div 2) div ?M = unat m"
    using big by (intro div_nat_eqI) (simp_all add: mult.commute)
  moreover have "M \<noteq> 0" using big by auto
  ultimately show ?thesis
    by (simp add: vl53l0x_timeout_us_to_mclks_def Let_def M_def [symmetric] u_def [symmetric] unat_div n)
qed

text \<open>
  Beyond that the conversions wrap: with the long-range period of 18 clocks, the longest timeout the
  code can hold, 4.5 seconds, is taken for 0.2 seconds.
\<close>

lemma mclks_to_us_wraps: "vl53l0x_timeout_mclks_to_us 65535 18 = 203093"
  by (simp add: vl53l0x_timeout_mclks_to_us_def vl53l0x_macro_period_ns_def)

subsection \<open>The budget\<close>

text \<open>The time the enabled phases take, added up without any bound.\<close>

definition phases_us :: "vl53l0x_sequence_steps_t \<Rightarrow> vl53l0x_sequence_timeouts_t \<Rightarrow> nat" where
  "phases_us steps t = 2870
     + (if tcc steps then unat (msrc_dss_tcc_us t) + 590 else 0)
     + (if dss steps then 2 * (unat (msrc_dss_tcc_us t) + 690)
        else if msrc steps then unat (msrc_dss_tcc_us t) + 660 else 0)
     + (if pre_range steps then unat (pre_range_us t) + 660 else 0)
     + (if final_range steps then unat (final_range_us t) + 550 else 0)"

lemma phases_us_bound:
  assumes "unat (msrc_dss_tcc_us t) < 2 ^ 29" and "unat (pre_range_us t) < 2 ^ 29"
  shows "phases_us steps t \<le> 3 * 2 ^ 29 + 2 ^ 29 + 10000 + unat (final_range_us t)"
  using assms by (simp add: phases_us_def)

lemma budget_used_nat:
  assumes "phases_us steps t < 2 ^ 32"
  shows "unat (vl53l0x_budget_used_us steps t) = phases_us steps t"
proof -
  have "vl53l0x_budget_used_us steps t = word_of_nat (phases_us steps t)"
    by (simp add: vl53l0x_budget_used_us_def phases_us_def Let_def)
  then show ?thesis using assms by (simp add: unat_of_nat_lt)
qed

text \<open>The budget is spent exactly. For timeouts below nine minutes, the final phase is refused time only
  when the budget is under the sensor's floor or the other phases leave it none; otherwise
  the phases with the time it was given add up to the budget, to the microsecond, and the sum the
  code computes itself agrees.
\<close>

theorem vl53l0x_budget_spent_exactly:
  assumes "unat (msrc_dss_tcc_us t) < 2 ^ 29" and "unat (pre_range_us t) < 2 ^ 29" and "final_range steps"
  shows "case vl53l0x_final_range_timeout_us steps t budget of
      None \<Rightarrow> budget < 20000 \<or> unat budget \<le> phases_us steps (t\<lparr>final_range_us := 0\<rparr>)
    | Some f \<Rightarrow> 20000 \<le> budget \<and> f \<noteq> 0 \<and> phases_us steps (t\<lparr>final_range_us := f\<rparr>) = unat budget
        \<and> vl53l0x_budget_used_us steps (t\<lparr>final_range_us := f\<rparr>) = budget"
proof -
  let ?others = "steps\<lparr>final_range := False\<rparr>"
  let ?rest = "\<lparr>pre_range_vcsel_period_pclks = 0, final_range_vcsel_period_pclks = 0,
    msrc_dss_tcc_mclks = 0, pre_range_mclks = 0, final_range_mclks = 0,
    msrc_dss_tcc_us = msrc_dss_tcc_us t, pre_range_us = pre_range_us t, final_range_us = 0\<rparr>"
  have b: "phases_us ?others ?rest \<le> 3 * 2 ^ 29 + 2 ^ 29 + 10000"
    using phases_us_bound [of ?rest ?others] assms(1,2) by simp
  have sum: "phases_us steps (t\<lparr>final_range_us := f\<rparr>) = phases_us ?others ?rest + 550 + unat f" for f
    using assms(3) by (simp add: phases_us_def)
  define used where "used = vl53l0x_budget_used_us ?others ?rest + 550"
  have "unat (vl53l0x_budget_used_us ?others ?rest) = phases_us ?others ?rest"
    using b by (intro budget_used_nat) simp
  then have used: "unat used = phases_us ?others ?rest + 550"
    using b by (simp add: used_def unat_word_ariths(1))
  have r: "vl53l0x_final_range_timeout_us steps t budget
      = (if budget < 20000 then None else if budget \<le> used then None else Some (budget - used))"
    using assms(3) by (simp add: vl53l0x_final_range_timeout_us_def Let_def used_def)
  consider "budget < 20000" | "\<not> budget < 20000" "budget \<le> used" | "\<not> budget < 20000" "used < budget"
    by fastforce
  then show ?thesis
  proof cases
    case 3
    have "unat (budget - used) = unat budget - unat used"
      using 3 by (simp add: unat_sub_if' word_less_nat_alt)
    then have "phases_us steps (t\<lparr>final_range_us := budget - used\<rparr>) = unat budget"
      using 3 used unfolding sum by (simp add: word_less_nat_alt)
    moreover from this have "vl53l0x_budget_used_us steps (t\<lparr>final_range_us := budget - used\<rparr>) = budget"
      using budget_used_nat [of steps "t\<lparr>final_range_us := budget - used\<rparr>"] unat_u32_lt [of budget]
      by (simp add: word_eq_unat_iff)
    ultimately show ?thesis using 3 by (auto simp: r)
  qed (use used sum [of 0] in \<open>auto simp: r word_le_nat_alt\<close>)
qed

theorem vl53l0x_budget_spent_exactly_witness:
  "phases_us \<lparr>tcc = True, dss = True, msrc = False, pre_range = True, final_range = True\<rparr>
     \<lparr>pre_range_vcsel_period_pclks = 14, final_range_vcsel_period_pclks = 10, msrc_dss_tcc_mclks = 37,
      pre_range_mclks = 40, final_range_mclks = 512, msrc_dss_tcc_us = 1975, pre_range_us = 2135,
      final_range_us = 18890\<rparr> = 33000"
proof -
  let ?s = "\<lparr>tcc = True, dss = True, msrc = False, pre_range = True, final_range = True\<rparr>"
  let ?t = "\<lparr>pre_range_vcsel_period_pclks = 14, final_range_vcsel_period_pclks = 10, msrc_dss_tcc_mclks = 37,
      pre_range_mclks = 40, final_range_mclks = 512, msrc_dss_tcc_us = 1975, pre_range_us = 2135,
      final_range_us = 0\<rparr>"
  have "vl53l0x_final_range_timeout_us ?s ?t 33000 = Some 18890"
    by (simp add: vl53l0x_final_range_timeout_us_def vl53l0x_budget_used_us_def Let_def)
  then show ?thesis
    using vl53l0x_budget_spent_exactly [of ?t ?s 33000] by simp
qed

end
