(* ===== verification/Vl53l0x.thy ===== *)
theory Vl53l0x
  imports I2c Vl53l0x_Timing
begin

text \<open>
  Model of the distance sensor driver \<open>components/vl53l0x/vl53l0x.c\<close>, over the models of the I2C
  devices and of the timing arithmetic. The state is the driver's handle and the world \<open>'w\<close> behind the
  bus. The transfers, the clock and the delay of the SDK are a parameter.

  A function that reports success as a boolean and a value through a pointer gives an option. The
  early returns of the code are the left results of a body: \<open>require\<close> goes on with the value of a
  call or returns at once. The loops that wait for the sensor end only by its answer or by the
  clock; a call that never returns is the value \<open>None\<close> of the outer option.
\<close>

subsection \<open>State and sequencing\<close>

datatype vl53l0x_result_t = VL53L0X_OK | VL53L0X_ERR_INVALID_ARG | VL53L0X_ERR_NO_DEVICE
  | VL53L0X_ERR_WRONG_MODEL | VL53L0X_ERR_I2C | VL53L0X_ERR_TIMEOUT | VL53L0X_ERR_BUDGET
  | VL53L0X_ERR_NOT_READY | VL53L0X_ERR_OUT_OF_RANGE | VL53L0X_ERR_BAD_MEASUREMENT

datatype vl53l0x_profile_t = VL53L0X_PROFILE_DEFAULT | VL53L0X_PROFILE_FAST | VL53L0X_PROFILE_ACCURATE
  | VL53L0X_PROFILE_LONG_RANGE

record vl53l0x_t =
  vl_device :: i2c_device_t
  vl_stop_variable :: u8
  vl_timing_budget_us :: u32
  vl_continuous :: bool
  vl_initialised :: bool

record 'w vl_sdk =
  vl_i2c :: "'w i2c_sdk"
  get_absolute_time :: "'w \<Rightarrow> nat \<times> 'w"
  sleep_ms :: "nat \<Rightarrow> 'w \<Rightarrow> 'w"

type_synonym 'w vl = "vl53l0x_t \<times> 'w"
type_synonym ('a, 'w) vl_call = "'w vl \<Rightarrow> ('a \<times> 'w vl) option"
type_synonym ('r, 'a, 'w) vl_body = "'w vl \<Rightarrow> (('r + 'a) \<times> 'w vl) option"

definition proceed :: "'a \<Rightarrow> ('r, 'a, 'w) vl_body" where
  "proceed x st = Some (Inr x, st)"

definition early :: "'r \<Rightarrow> ('r, 'a, 'w) vl_body" where
  "early r st = Some (Inl r, st)"

definition andthen :: "('r, 'a, 'w) vl_body \<Rightarrow> ('a \<Rightarrow> ('r, 'b, 'w) vl_body) \<Rightarrow> ('r, 'b, 'w) vl_body" where
  "andthen m k st =
     (case m st of
        None \<Rightarrow> None
      | Some (Inl r, st') \<Rightarrow> Some (Inl r, st')
      | Some (Inr x, st') \<Rightarrow> k x st')"

definition require :: "'r \<Rightarrow> ('a option, 'w) vl_call \<Rightarrow> ('r, 'a, 'w) vl_body" where
  "require r call st =
     (case call st of
        None \<Rightarrow> None
      | Some (None, st') \<Rightarrow> Some (Inl r, st')
      | Some (Some x, st') \<Rightarrow> Some (Inr x, st'))"

definition perform :: "('a, 'w) vl_call \<Rightarrow> ('r, 'a, 'w) vl_body" where
  "perform call st = map_option (\<lambda>(x, st'). (Inr x, st')) (call st)"

definition update_sensor :: "(vl53l0x_t \<Rightarrow> vl53l0x_t) \<Rightarrow> ('r, unit, 'w) vl_body" where
  "update_sensor f st = Some (Inr (), (f (fst st), snd st))"

text \<open>The value of a function is what its body returns, early or at the end.\<close>

definition returning :: "('r, 'r, 'w) vl_body \<Rightarrow> ('r, 'w) vl_call" where
  "returning m st = map_option (\<lambda>(r, st'). (case r of Inl x \<Rightarrow> x | Inr x \<Rightarrow> x, st')) (m st)"

subsection \<open>Registers\<close>

abbreviation (input) "REG_SYSRANGE_START \<equiv> (0x00 :: u8)"
abbreviation (input) "REG_SYSTEM_SEQUENCE_CONFIG \<equiv> (0x01 :: u8)"
abbreviation (input) "REG_SYSTEM_INTERMEASUREMENT_PERIOD \<equiv> (0x04 :: u8)"
abbreviation (input) "REG_SYSTEM_INTERRUPT_CONFIG_GPIO \<equiv> (0x0A :: u8)"
abbreviation (input) "REG_SYSTEM_INTERRUPT_CLEAR \<equiv> (0x0B :: u8)"
abbreviation (input) "REG_RESULT_INTERRUPT_STATUS \<equiv> (0x13 :: u8)"
abbreviation (input) "REG_RESULT_RANGE_STATUS \<equiv> (0x14 :: u8)"
abbreviation (input) "REG_MSRC_CONFIG_CONTROL \<equiv> (0x60 :: u8)"
abbreviation (input) "REG_FINAL_RANGE_CONFIG_MIN_COUNT_RATE_RTN_LIMIT \<equiv> (0x44 :: u8)"
abbreviation (input) "REG_PRE_RANGE_CONFIG_VCSEL_PERIOD \<equiv> (0x50 :: u8)"
abbreviation (input) "REG_PRE_RANGE_CONFIG_TIMEOUT_MACROP_HI \<equiv> (0x51 :: u8)"
abbreviation (input) "REG_FINAL_RANGE_CONFIG_VCSEL_PERIOD \<equiv> (0x70 :: u8)"
abbreviation (input) "REG_FINAL_RANGE_CONFIG_TIMEOUT_MACROP_HI \<equiv> (0x71 :: u8)"
abbreviation (input) "REG_MSRC_CONFIG_TIMEOUT_MACROP \<equiv> (0x46 :: u8)"
abbreviation (input) "REG_IDENTIFICATION_MODEL_ID \<equiv> (0xC0 :: u8)"
abbreviation (input) "REG_VHV_CONFIG_PAD_SCL_SDA_EXTSUP_HV \<equiv> (0x89 :: u8)"
abbreviation (input) "REG_I2C_SLAVE_DEVICE_ADDRESS \<equiv> (0x8A :: u8)"
abbreviation (input) "REG_GLOBAL_CONFIG_SPAD_ENABLES_REF_0 \<equiv> (0xB0 :: u8)"
abbreviation (input) "REG_DYNAMIC_SPAD_REF_EN_START_OFFSET \<equiv> (0x4F :: u8)"
abbreviation (input) "REG_DYNAMIC_SPAD_NUM_REQUESTED_REF_SPAD \<equiv> (0x4E :: u8)"
abbreviation (input) "REG_GLOBAL_CONFIG_REF_EN_START_SELECT \<equiv> (0xB6 :: u8)"
abbreviation (input) "REG_PRE_RANGE_CONFIG_VALID_PHASE_HIGH \<equiv> (0x57 :: u8)"
abbreviation (input) "REG_PRE_RANGE_CONFIG_VALID_PHASE_LOW \<equiv> (0x56 :: u8)"
abbreviation (input) "REG_FINAL_RANGE_CONFIG_VALID_PHASE_HIGH \<equiv> (0x48 :: u8)"
abbreviation (input) "REG_FINAL_RANGE_CONFIG_VALID_PHASE_LOW \<equiv> (0x47 :: u8)"
abbreviation (input) "REG_GLOBAL_CONFIG_VCSEL_WIDTH \<equiv> (0x32 :: u8)"
abbreviation (input) "IO_TIMEOUT_MS \<equiv> (500 :: nat)"
abbreviation (input) "SPAD_MAP_BYTES \<equiv> (6 :: nat)"
abbreviation (input) "VL53L0X_MODEL_ID \<equiv> (0xEE :: u32)"
abbreviation (input) "VL53L0X_OUT_OF_RANGE_MM \<equiv> (8190 :: u16)"
abbreviation (input) "VL53L0X_SIGNAL_RATE_DEFAULT \<equiv> (32 :: u16)"
abbreviation (input) "VL53L0X_SIGNAL_RATE_LONG_RANGE \<equiv> (13 :: u16)"

definition succeeded :: "i2c_device_result_t \<Rightarrow> unit option" where
  "succeeded r = (if r = I2C_DEVICE_OK then Some () else None)"

definition write8 :: "'w vl_sdk \<Rightarrow> u8 \<Rightarrow> u8 \<Rightarrow> (unit option, 'w) vl_call" where
  "write8 sdk reg v st =
     (case i2c_device_write_bytes (vl_i2c sdk) (vl_device (fst st)) reg (Some [v]) 1 (snd st) of
        (r, w) \<Rightarrow> Some (succeeded r, (fst st, w)))"

definition write16 :: "'w vl_sdk \<Rightarrow> u8 \<Rightarrow> u16 \<Rightarrow> (unit option, 'w) vl_call" where
  "write16 sdk reg v st =
     (case i2c_device_write_value (vl_i2c sdk) (vl_device (fst st)) reg 2 (ucast v) (snd st) of
        (r, w) \<Rightarrow> Some (succeeded r, (fst st, w)))"

definition read8 :: "'w vl_sdk \<Rightarrow> u8 \<Rightarrow> (u8 option, 'w) vl_call" where
  "read8 sdk reg st =
     (case i2c_device_read_value (vl_i2c sdk) (vl_device (fst st)) reg 1 True (snd st) of
        (r, raw, w) \<Rightarrow> Some (if r \<noteq> I2C_DEVICE_OK then None else map_option ucast raw, (fst st, w)))"

definition read16 :: "'w vl_sdk \<Rightarrow> u8 \<Rightarrow> (u16 option, 'w) vl_call" where
  "read16 sdk reg st =
     (case i2c_device_read_value (vl_i2c sdk) (vl_device (fst st)) reg 2 True (snd st) of
        (r, raw, w) \<Rightarrow> Some (if r \<noteq> I2C_DEVICE_OK then None else map_option ucast raw, (fst st, w)))"

fun write_all :: "'w vl_sdk \<Rightarrow> (u8 \<times> u8) list \<Rightarrow> (unit option, 'w) vl_call" where
  "write_all sdk [] st = Some (Some (), st)"
| "write_all sdk ((reg, v) # writes) st =
     (case write8 sdk reg v st of
        None \<Rightarrow> None
      | Some (None, st) \<Rightarrow> Some (None, st)
      | Some (Some _, st) \<Rightarrow> write_all sdk writes st)"

subsection \<open>Waiting\<close>

text \<open>
  The loop that all waits share: read a register until it is ready, give up on a failed transfer or
  once the deadline has passed. \<open>make_timeout_time_ms\<close> is the time it is called plus the timeout.
\<close>

datatype poll_result = Poll_failed | Poll_ready | Poll_late

definition read_clock :: "'w vl_sdk \<Rightarrow> (nat, 'w) vl_call" where
  "read_clock sdk st = (case get_absolute_time sdk (snd st) of (t, w) \<Rightarrow> Some (t, (fst st, w)))"

partial_function (option) poll ::
    "'w vl_sdk \<Rightarrow> u8 \<Rightarrow> (u8 \<Rightarrow> bool) \<Rightarrow> nat \<Rightarrow> 'w vl \<Rightarrow> (poll_result \<times> 'w vl) option" where
  "poll sdk reg ready deadline st =
     (case read8 sdk reg st of
        None \<Rightarrow> None
      | Some (None, st) \<Rightarrow> Some (Poll_failed, st)
      | Some (Some v, st) \<Rightarrow>
          (if ready v then Some (Poll_ready, st)
           else
             (case read_clock sdk st of
                None \<Rightarrow> None
              | Some (now, st) \<Rightarrow>
                  (if deadline \<le> now then Some (Poll_late, st) else poll sdk reg ready deadline st))))"

definition await :: "'w vl_sdk \<Rightarrow> u8 \<Rightarrow> (u8 \<Rightarrow> bool) \<Rightarrow> (poll_result, 'w) vl_call" where
  "await sdk reg ready st =
     (case read_clock sdk st of
        None \<Rightarrow> None
      | Some (now, st) \<Rightarrow> poll sdk reg ready (now + IO_TIMEOUT_MS * 1000) st)"

definition poll_ok :: "'r \<Rightarrow> 'r \<Rightarrow> poll_result \<Rightarrow> ('r, unit, 'w) vl_body" where
  "poll_ok failed late p =
     (case p of Poll_failed \<Rightarrow> early failed | Poll_late \<Rightarrow> early late | Poll_ready \<Rightarrow> proceed ())"

text \<open>A call whose value is not used.\<close>

abbreviation (input) do_then :: "('r, 'a, 'w) vl_body \<Rightarrow> ('r, 'b, 'w) vl_body \<Rightarrow> ('r, 'b, 'w) vl_body" where
  "do_then m k \<equiv> andthen m (\<lambda>_. k)"

subsection \<open>The timing the sensor is set to\<close>

definition read_sequence_timeouts :: "'w vl_sdk \<Rightarrow> (vl53l0x_sequence_timeouts_t option, 'w) vl_call" where
  "read_sequence_timeouts sdk = returning (
     andthen (require None (read8 sdk REG_PRE_RANGE_CONFIG_VCSEL_PERIOD)) (\<lambda>encoded.
     let pre_period = vl53l0x_decode_vcsel_period encoded in
     andthen (require None (read8 sdk REG_MSRC_CONFIG_TIMEOUT_MACROP)) (\<lambda>msrc_encoded.
     let msrc_mclks = ucast (ucast msrc_encoded + 1 :: u32) :: u16;
         msrc_us = vl53l0x_timeout_mclks_to_us msrc_mclks pre_period in
     andthen (require None (read16 sdk REG_PRE_RANGE_CONFIG_TIMEOUT_MACROP_HI)) (\<lambda>pre_range_encoded.
     let pre_mclks = ucast (vl53l0x_decode_timeout pre_range_encoded) :: u16;
         pre_us = vl53l0x_timeout_mclks_to_us pre_mclks pre_period in
     andthen (require None (read8 sdk REG_FINAL_RANGE_CONFIG_VCSEL_PERIOD)) (\<lambda>encoded.
     let final_period = vl53l0x_decode_vcsel_period encoded in
     andthen (require None (read16 sdk REG_FINAL_RANGE_CONFIG_TIMEOUT_MACROP_HI)) (\<lambda>final_range_encoded.
     let final_mclks = ucast (vl53l0x_decode_timeout final_range_encoded) :: u16 in
     andthen (require None (read8 sdk REG_SYSTEM_SEQUENCE_CONFIG)) (\<lambda>sequence_config.
     let final_mclks = (if pre_range (vl53l0x_decode_sequence_steps sequence_config) \<and> pre_mclks < final_mclks
           then final_mclks - pre_mclks else final_mclks);
         final_us = vl53l0x_timeout_mclks_to_us final_mclks final_period in
     proceed (Some \<lparr>pre_range_vcsel_period_pclks = pre_period, final_range_vcsel_period_pclks = final_period,
       msrc_dss_tcc_mclks = msrc_mclks, pre_range_mclks = pre_mclks, final_range_mclks = final_mclks,
       msrc_dss_tcc_us = msrc_us, pre_range_us = pre_us, final_range_us = final_us\<rparr>))))))))"

subsection \<open>Start-up\<close>

definition read_spad_info :: "'w vl_sdk \<Rightarrow> ((u8 \<times> bool) option, 'w) vl_call" where
  "read_spad_info sdk = returning (
     do_then (require None (write_all sdk [(0x80, 0x01), (0xFF, 0x01), (0x00, 0x00), (0xFF, 0x06)])) (
     andthen (require None (read8 sdk 0x83)) (\<lambda>v.
     do_then (require None (write8 sdk 0x83 (v OR 0x04))) (
     do_then (require None (write_all sdk
       [(0xFF, 0x07), (0x81, 0x01), (0x80, 0x01), (0x94, 0x6B), (0x83, 0x00)])) (
     andthen (perform (await sdk 0x83 (\<lambda>v. v \<noteq> 0x00))) (\<lambda>waited.
     do_then (poll_ok None None waited) (
     do_then (require None (write8 sdk 0x83 0x01)) (
     andthen (require None (read8 sdk 0x92)) (\<lambda>v.
     let spad_count = v AND 0x7F; is_aperture = (v AND 0x80 \<noteq> 0) in
     do_then (require None (write_all sdk [(0x81, 0x00), (0xFF, 0x06)])) (
     andthen (require None (read8 sdk 0x83)) (\<lambda>v.
     do_then (require None (write8 sdk 0x83 (v AND NOT 0x04))) (
     do_then (require None (write_all sdk [(0xFF, 0x01), (0x00, 0x01), (0xFF, 0x00), (0x80, 0x00)])) (
     proceed (Some (spad_count, is_aperture)))))))))))))))"

definition tuning :: "(u8 \<times> u8) list" where
  "tuning =
    [(0xFF, 0x01), (0x00, 0x00), (0xFF, 0x00), (0x09, 0x00),
     (0x10, 0x00), (0x11, 0x00), (0x24, 0x01), (0x25, 0xFF),
     (0x75, 0x00), (0xFF, 0x01), (0x4E, 0x2C), (0x48, 0x00),
     (0x30, 0x20), (0xFF, 0x00), (0x30, 0x09), (0x54, 0x00),
     (0x31, 0x04), (0x32, 0x03), (0x40, 0x83), (0x46, 0x25),
     (0x60, 0x00), (0x27, 0x00), (0x50, 0x06), (0x51, 0x00),
     (0x52, 0x96), (0x56, 0x08), (0x57, 0x30), (0x61, 0x00),
     (0x62, 0x00), (0x64, 0x00), (0x65, 0x00), (0x66, 0xA0),
     (0xFF, 0x01), (0x22, 0x32), (0x47, 0x14), (0x49, 0xFF),
     (0x4A, 0x00), (0xFF, 0x00), (0x7A, 0x0A), (0x7B, 0x00),
     (0x78, 0x21), (0xFF, 0x01), (0x23, 0x34), (0x42, 0x00),
     (0x44, 0xFF), (0x45, 0x26), (0x46, 0x05), (0x40, 0x40),
     (0x0E, 0x06), (0x20, 0x1A), (0x43, 0x40), (0xFF, 0x00),
     (0x34, 0x03), (0x35, 0x44), (0xFF, 0x01), (0x31, 0x04),
     (0x4B, 0x09), (0x4C, 0x05), (0x4D, 0x04), (0xFF, 0x00),
     (0x44, 0x00), (0x45, 0x20), (0x47, 0x08), (0x48, 0x28),
     (0x67, 0x00), (0x70, 0x04), (0x71, 0x01), (0x72, 0xFE),
     (0x76, 0x00), (0x77, 0x00), (0xFF, 0x01), (0x0D, 0x01),
     (0xFF, 0x00), (0x80, 0x01), (0x01, 0xF8), (0xFF, 0x01),
     (0x8E, 0x01), (0x00, 0x01), (0xFF, 0x00), (0x80, 0x00)]"

definition write_tuning_settings :: "'w vl_sdk \<Rightarrow> (unit option, 'w) vl_call" where
  "write_tuning_settings sdk = write_all sdk tuning"

definition run_calibration :: "'w vl_sdk \<Rightarrow> u8 \<Rightarrow> u8 \<Rightarrow> (unit option, 'w) vl_call" where
  "run_calibration sdk sequence start = returning (
     do_then (require None (write8 sdk REG_SYSTEM_SEQUENCE_CONFIG sequence)) (
     do_then (require None (write8 sdk REG_SYSRANGE_START start)) (
     andthen (perform (await sdk REG_RESULT_INTERRUPT_STATUS (\<lambda>status. status AND 0x07 \<noteq> 0))) (\<lambda>waited.
     do_then (poll_ok None None waited) (
     do_then (require None (write8 sdk REG_SYSTEM_INTERRUPT_CLEAR 0x01)) (
     do_then (require None (write8 sdk REG_SYSRANGE_START 0x00)) (
     proceed (Some ()))))))))"

text \<open>The probe uses a handle of its own; \<open>has_i2c\<close> tells that there is a bus.\<close>

definition vl53l0x_probe :: "'w vl_sdk \<Rightarrow> bool \<Rightarrow> u8 \<Rightarrow> (vl53l0x_result_t, 'w) vl_call" where
  "vl53l0x_probe sdk has_i2c address st =
     (case i2c_device_init has_i2c address I2C_ENDIAN_BIG 0 of
        (r, dev) \<Rightarrow>
          if r \<noteq> I2C_DEVICE_OK then Some (VL53L0X_ERR_INVALID_ARG, st)
          else
            (case i2c_device_read_value (vl_i2c sdk) (the dev) REG_IDENTIFICATION_MODEL_ID 1 True (snd st) of
               (r, model, w) \<Rightarrow>
                 if r \<noteq> I2C_DEVICE_OK then Some (VL53L0X_ERR_NO_DEVICE, (fst st, w))
                 else Some (if the model = VL53L0X_MODEL_ID then VL53L0X_OK else VL53L0X_ERR_WRONG_MODEL, (fst st, w))))"

text \<open>The choice of reference SPADs: one step of the loop, on the map and the number enabled.\<close>

definition spad_step :: "u8 \<Rightarrow> u8 \<Rightarrow> nat \<Rightarrow> u8 list \<times> u8 \<Rightarrow> u8 list \<times> u8" where
  "spad_step first_spad spad_count spad s =
     (case s of
        (spad_map, enabled) \<Rightarrow>
          if spad < unat first_spad \<or> enabled = spad_count
          then (spad_map[spad div 8 := spad_map ! (spad div 8) AND NOT (push_bit (spad mod 8) 1)], enabled)
          else if spad_map ! (spad div 8) AND push_bit (spad mod 8) 1 \<noteq> 0 then (spad_map, enabled + 1)
          else (spad_map, enabled))"

definition choose_spads :: "u8 \<Rightarrow> bool \<Rightarrow> u8 list \<Rightarrow> u8 list" where
  "choose_spads spad_count spad_is_aperture spad_map =
     (let first_spad = (if spad_is_aperture then 12 else 0)
      in fst (fold (spad_step first_spad spad_count) [0..<48] (spad_map, 0)))"

definition read_spad_map :: "'w vl_sdk \<Rightarrow> (u8 list option, 'w) vl_call" where
  "read_spad_map sdk st =
     (case i2c_device_read_bytes (vl_i2c sdk) (vl_device (fst st)) REG_GLOBAL_CONFIG_SPAD_ENABLES_REF_0 True
             SPAD_MAP_BYTES (snd st) of
        (r, bytes, w) \<Rightarrow> Some (if r \<noteq> I2C_DEVICE_OK then None else Some bytes, (fst st, w)))"

definition write_spad_map :: "'w vl_sdk \<Rightarrow> u8 list \<Rightarrow> (unit option, 'w) vl_call" where
  "write_spad_map sdk spad_map st =
     (case i2c_device_write_bytes (vl_i2c sdk) (vl_device (fst st)) REG_GLOBAL_CONFIG_SPAD_ENABLES_REF_0
             (Some spad_map) SPAD_MAP_BYTES (snd st) of
        (r, w) \<Rightarrow> Some (succeeded r, (fst st, w)))"

definition vl53l0x_zero :: vl53l0x_t where
  "vl53l0x_zero = \<lparr>vl_device = \<lparr>dev_address = 0, dev_endianness = I2C_ENDIAN_BIG, dev_timeout_us = 0,
     dev_initialised = False\<rparr>, vl_stop_variable = 0, vl_timing_budget_us = 0, vl_continuous = False,
     vl_initialised = False\<rparr>"

text \<open>The first half of the initialisation, up to the SPAD map, and the second.\<close>

definition init_standard_mode :: "'w vl_sdk \<Rightarrow> (vl53l0x_result_t, unit, 'w) vl_body" where
  "init_standard_mode sdk =
     andthen (require VL53L0X_ERR_I2C (read8 sdk REG_VHV_CONFIG_PAD_SCL_SDA_EXTSUP_HV)) (\<lambda>v.
     do_then (require VL53L0X_ERR_I2C (write8 sdk REG_VHV_CONFIG_PAD_SCL_SDA_EXTSUP_HV (v OR 0x01))) (
     do_then (require VL53L0X_ERR_I2C (write_all sdk [(0x88, 0x00), (0x80, 0x01), (0xFF, 0x01), (0x00, 0x00)])) (
     andthen (require VL53L0X_ERR_I2C (read8 sdk 0x91)) (\<lambda>stop.
     do_then (update_sensor (vl_stop_variable_update (\<lambda>_. stop))) (
     do_then (require VL53L0X_ERR_I2C (write_all sdk [(0x00, 0x01), (0xFF, 0x00), (0x80, 0x00)])) (
     andthen (require VL53L0X_ERR_I2C (read8 sdk REG_MSRC_CONFIG_CONTROL)) (\<lambda>v.
     do_then (require VL53L0X_ERR_I2C (write8 sdk REG_MSRC_CONFIG_CONTROL (v OR 0x12))) (
     do_then (require VL53L0X_ERR_I2C (write16 sdk REG_FINAL_RANGE_CONFIG_MIN_COUNT_RATE_RTN_LIMIT
       VL53L0X_SIGNAL_RATE_DEFAULT)) (
     require VL53L0X_ERR_I2C (write8 sdk REG_SYSTEM_SEQUENCE_CONFIG 0xFF))))))))))"

definition init_spads :: "'w vl_sdk \<Rightarrow> (vl53l0x_result_t, unit, 'w) vl_body" where
  "init_spads sdk =
     andthen (require VL53L0X_ERR_I2C (read_spad_info sdk)) (\<lambda>(spad_count, spad_is_aperture).
     andthen (require VL53L0X_ERR_I2C (read_spad_map sdk)) (\<lambda>spad_map.
     do_then (require VL53L0X_ERR_I2C (write_all sdk
       [(0xFF, 0x01), (REG_DYNAMIC_SPAD_REF_EN_START_OFFSET, 0x00),
        (REG_DYNAMIC_SPAD_NUM_REQUESTED_REF_SPAD, 0x2C), (0xFF, 0x00),
        (REG_GLOBAL_CONFIG_REF_EN_START_SELECT, 0xB4)])) (
     require VL53L0X_ERR_I2C (write_spad_map sdk (choose_spads spad_count spad_is_aperture spad_map)))))"

definition init_calibrate :: "'w vl_sdk \<Rightarrow> (vl53l0x_result_t, unit, 'w) vl_body" where
  "init_calibrate sdk =
     do_then (require VL53L0X_ERR_I2C (write_tuning_settings sdk)) (
     do_then (require VL53L0X_ERR_I2C (write8 sdk REG_SYSTEM_INTERRUPT_CONFIG_GPIO 0x04)) (
     andthen (require VL53L0X_ERR_I2C (read8 sdk 0x84)) (\<lambda>v.
     do_then (require VL53L0X_ERR_I2C (write8 sdk 0x84 (v AND NOT 0x10))) (
     do_then (require VL53L0X_ERR_I2C (write8 sdk REG_SYSTEM_INTERRUPT_CLEAR 0x01)) (
     andthen (require VL53L0X_ERR_I2C (read_sequence_timeouts sdk)) (\<lambda>timeouts.
     andthen (require VL53L0X_ERR_I2C (read8 sdk REG_SYSTEM_SEQUENCE_CONFIG)) (\<lambda>sequence_config.
     do_then (update_sensor (vl_timing_budget_us_update
       (\<lambda>_. vl53l0x_budget_used_us (vl53l0x_decode_sequence_steps sequence_config) timeouts))) (
     do_then (require VL53L0X_ERR_I2C (write8 sdk REG_SYSTEM_SEQUENCE_CONFIG 0xE8)) (
     do_then (require VL53L0X_ERR_TIMEOUT (run_calibration sdk 0x01 0x41)) (
     do_then (require VL53L0X_ERR_TIMEOUT (run_calibration sdk 0x02 0x01)) (
     require VL53L0X_ERR_I2C (write8 sdk REG_SYSTEM_SEQUENCE_CONFIG 0xE8))))))))))))"

definition vl53l0x_init :: "'w vl_sdk \<Rightarrow> bool \<Rightarrow> u8 \<Rightarrow> (vl53l0x_result_t, 'w) vl_call" where
  "vl53l0x_init sdk has_i2c address = returning (
     do_then (update_sensor (\<lambda>_. vl53l0x_zero)) (
     case i2c_device_init has_i2c address I2C_ENDIAN_BIG 0 of
       (r, dev) \<Rightarrow>
         if r \<noteq> I2C_DEVICE_OK then early VL53L0X_ERR_INVALID_ARG
         else
           do_then (update_sensor (vl_device_update (\<lambda>_. the dev))) (
           andthen (perform (vl53l0x_probe sdk has_i2c address)) (\<lambda>probed.
           if probed \<noteq> VL53L0X_OK then early probed
           else
             do_then (init_standard_mode sdk) (
             do_then (init_spads sdk) (
             do_then (init_calibrate sdk) (
             do_then (update_sensor (vl_initialised_update (\<lambda>_. True))) (
             proceed VL53L0X_OK))))))))"

definition needs_initialised :: "'r \<Rightarrow> ('r, unit, 'w) vl_body" where
  "needs_initialised r st = (if vl_initialised (fst st) then proceed () st else early r st)"

definition wait_ms :: "'w vl_sdk \<Rightarrow> nat \<Rightarrow> ('r, unit, 'w) vl_body" where
  "wait_ms sdk ms st = Some (Inr (), (fst st, sleep_ms sdk ms (snd st)))"

definition vl53l0x_set_address :: "'w vl_sdk \<Rightarrow> u8 \<Rightarrow> (vl53l0x_result_t, 'w) vl_call" where
  "vl53l0x_set_address sdk new_address = returning (
     do_then (needs_initialised VL53L0X_ERR_INVALID_ARG) (
     if new_address < I2C_ADDRESS_MIN \<or> I2C_ADDRESS_MAX < new_address then early VL53L0X_ERR_INVALID_ARG
     else
       do_then (require VL53L0X_ERR_I2C (write8 sdk REG_I2C_SLAVE_DEVICE_ADDRESS (new_address AND 0x7F))) (
       do_then (update_sensor (vl_device_update (dev_address_update (\<lambda>_. new_address)))) (
       do_then (wait_ms sdk 1) (
       andthen (perform (vl53l0x_probe sdk True new_address)) (\<lambda>probed.
       proceed (if probed = VL53L0X_OK then VL53L0X_OK else VL53L0X_ERR_NO_DEVICE)))))))"

subsection \<open>Configuration\<close>

definition result_if :: "vl53l0x_result_t \<Rightarrow> (unit option, 'w) vl_call \<Rightarrow> (vl53l0x_result_t, vl53l0x_result_t, 'w) vl_body" where
  "result_if failed call = do_then (require failed call) (proceed VL53L0X_OK)"

definition vl53l0x_set_signal_rate_limit :: "'w vl_sdk \<Rightarrow> u16 \<Rightarrow> (vl53l0x_result_t, 'w) vl_call" where
  "vl53l0x_set_signal_rate_limit sdk limit_128ths = returning (
     do_then (needs_initialised VL53L0X_ERR_INVALID_ARG) (
     result_if VL53L0X_ERR_I2C (write16 sdk REG_FINAL_RANGE_CONFIG_MIN_COUNT_RATE_RTN_LIMIT limit_128ths)))"

definition vl53l0x_set_timing_budget :: "'w vl_sdk \<Rightarrow> u32 \<Rightarrow> (vl53l0x_result_t, 'w) vl_call" where
  "vl53l0x_set_timing_budget sdk budget_us = returning (
     do_then (needs_initialised VL53L0X_ERR_INVALID_ARG) (
     andthen (require VL53L0X_ERR_I2C (read_sequence_timeouts sdk)) (\<lambda>timeouts.
     andthen (require VL53L0X_ERR_I2C (read8 sdk REG_SYSTEM_SEQUENCE_CONFIG)) (\<lambda>sequence_config.
     let steps = vl53l0x_decode_sequence_steps sequence_config in
     case vl53l0x_final_range_timeout_us steps timeouts budget_us of
       None \<Rightarrow> early VL53L0X_ERR_BUDGET
     | Some final_us \<Rightarrow>
         if \<not> final_range steps
         then do_then (update_sensor (vl_timing_budget_us_update (\<lambda>_. budget_us))) (proceed VL53L0X_OK)
         else
           (let mclks = vl53l0x_timeout_us_to_mclks final_us (final_range_vcsel_period_pclks timeouts);
                mclks = (if pre_range steps then mclks + ucast (pre_range_mclks timeouts) else mclks) in
            do_then (require VL53L0X_ERR_I2C (write16 sdk REG_FINAL_RANGE_CONFIG_TIMEOUT_MACROP_HI
              (vl53l0x_encode_timeout mclks))) (
            do_then (update_sensor (vl_timing_budget_us_update (\<lambda>_. budget_us))) (proceed VL53L0X_OK)))))))"

definition vl53l0x_set_vcsel_periods :: "'w vl_sdk \<Rightarrow> u8 \<Rightarrow> u8 \<Rightarrow> (vl53l0x_result_t, 'w) vl_call" where
  "vl53l0x_set_vcsel_periods sdk pre_range_pclks final_range_pclks = returning (
     do_then (needs_initialised VL53L0X_ERR_INVALID_ARG) (
     if pre_range_pclks mod 2 \<noteq> 0 \<or> final_range_pclks mod 2 \<noteq> 0 \<or> pre_range_pclks < 12 \<or> 18 < pre_range_pclks
       \<or> final_range_pclks < 8 \<or> 14 < final_range_pclks then early VL53L0X_ERR_INVALID_ARG
     else
       (let pre_range_phase_high = (if 18 \<le> pre_range_pclks then 0x32 else if 16 \<le> pre_range_pclks then 0x30
              else if 14 \<le> pre_range_pclks then 0x2E else 0x18) in
        do_then (require VL53L0X_ERR_I2C (write8 sdk REG_PRE_RANGE_CONFIG_VALID_PHASE_HIGH pre_range_phase_high)) (
        do_then (require VL53L0X_ERR_I2C (write8 sdk REG_PRE_RANGE_CONFIG_VALID_PHASE_LOW 0x08)) (
        do_then (require VL53L0X_ERR_I2C (write8 sdk REG_PRE_RANGE_CONFIG_VCSEL_PERIOD
          (vl53l0x_encode_vcsel_period pre_range_pclks))) (
        let final_phase_high = (if 14 \<le> final_range_pclks then 0x2C else if 12 \<le> final_range_pclks then 0x28
              else if 10 \<le> final_range_pclks then 0x24 else 0x10) in
        do_then (require VL53L0X_ERR_I2C (write8 sdk REG_FINAL_RANGE_CONFIG_VALID_PHASE_HIGH final_phase_high)) (
        do_then (require VL53L0X_ERR_I2C (write8 sdk REG_FINAL_RANGE_CONFIG_VALID_PHASE_LOW 0x08)) (
        do_then (require VL53L0X_ERR_I2C (write8 sdk REG_GLOBAL_CONFIG_VCSEL_WIDTH 0x03)) (
        do_then (require VL53L0X_ERR_I2C (write8 sdk REG_FINAL_RANGE_CONFIG_VCSEL_PERIOD
          (vl53l0x_encode_vcsel_period final_range_pclks))) (
        perform (\<lambda>st. vl53l0x_set_timing_budget sdk (vl_timing_budget_us (fst st)) st)))))))))))"

definition vl53l0x_apply_profile :: "'w vl_sdk \<Rightarrow> vl53l0x_profile_t \<Rightarrow> (vl53l0x_result_t, 'w) vl_call" where
  "vl53l0x_apply_profile sdk profile = returning (
     do_then (needs_initialised VL53L0X_ERR_INVALID_ARG) (
     case profile of
       VL53L0X_PROFILE_DEFAULT \<Rightarrow>
         andthen (perform (vl53l0x_set_signal_rate_limit sdk VL53L0X_SIGNAL_RATE_DEFAULT)) (\<lambda>limited.
         if limited = VL53L0X_OK then perform (vl53l0x_set_timing_budget sdk 33000) else early VL53L0X_ERR_I2C)
     | VL53L0X_PROFILE_FAST \<Rightarrow> perform (vl53l0x_set_timing_budget sdk 20000)
     | VL53L0X_PROFILE_ACCURATE \<Rightarrow> perform (vl53l0x_set_timing_budget sdk 200000)
     | VL53L0X_PROFILE_LONG_RANGE \<Rightarrow>
         andthen (perform (vl53l0x_set_signal_rate_limit sdk VL53L0X_SIGNAL_RATE_LONG_RANGE)) (\<lambda>limited.
         if limited \<noteq> VL53L0X_OK then early limited
         else
           andthen (perform (vl53l0x_set_vcsel_periods sdk 18 14)) (\<lambda>periods.
           if periods \<noteq> VL53L0X_OK then early periods
           else perform (vl53l0x_set_timing_budget sdk 33000)))))"

subsection \<open>Measuring\<close>

definition arm_measurement :: "'w vl_sdk \<Rightarrow> (unit option, 'w) vl_call" where
  "arm_measurement sdk st =
     write_all sdk [(0x80, 0x01), (0xFF, 0x01), (0x00, 0x00), (0x91, vl_stop_variable (fst st)),
       (0x00, 0x01), (0xFF, 0x00), (0x80, 0x00)] st"

text \<open>
  A measuring function gives its result with the distance it leaves in \<open>*millimetres\<close>; \<open>has_mm\<close>
  tells that the pointer is not missing. \<open>interpret_raw\<close> starts from the distance that is there.
\<close>

definition interpret_raw :: "'w vl_sdk \<Rightarrow> u16 \<Rightarrow> u16 \<Rightarrow> (vl53l0x_result_t \<times> u16, 'w) vl_call" where
  "interpret_raw sdk raw millimetres = returning (
     andthen (require (VL53L0X_ERR_I2C, millimetres) (read8 sdk REG_RESULT_RANGE_STATUS)) (\<lambda>status.
     let range_status = drop_bit 3 (status AND 0x78) in
     proceed (if VL53L0X_OUT_OF_RANGE_MM \<le> raw \<or> range_status = 4 then (VL53L0X_ERR_OUT_OF_RANGE, VL53L0X_OUT_OF_RANGE_MM)
       else if range_status \<noteq> 11 then (VL53L0X_ERR_BAD_MEASUREMENT, raw)
       else (VL53L0X_OK, raw))))"

definition wait_for_measurement :: "'w vl_sdk \<Rightarrow> (vl53l0x_result_t, 'w) vl_call" where
  "wait_for_measurement sdk = returning (
     andthen (perform (await sdk REG_RESULT_INTERRUPT_STATUS (\<lambda>status. status AND 0x07 \<noteq> 0))) (\<lambda>waited.
     do_then (poll_ok VL53L0X_ERR_I2C VL53L0X_ERR_TIMEOUT waited) (proceed VL53L0X_OK)))"

text \<open>What both reading functions do once a measurement is there.\<close>

definition fetch_measurement :: "'w vl_sdk \<Rightarrow> (vl53l0x_result_t \<times> u16, vl53l0x_result_t \<times> u16, 'w) vl_body" where
  "fetch_measurement sdk =
     andthen (require (VL53L0X_ERR_I2C, 0) (read16 sdk (REG_RESULT_RANGE_STATUS + 10))) (\<lambda>raw.
     andthen (perform (interpret_raw sdk raw 0)) (\<lambda>(interpreted, mm).
     do_then (require (VL53L0X_ERR_I2C, mm) (write8 sdk REG_SYSTEM_INTERRUPT_CLEAR 0x01)) (
     proceed (interpreted, mm))))"

definition vl53l0x_read_single :: "'w vl_sdk \<Rightarrow> bool \<Rightarrow> u16 \<Rightarrow> (vl53l0x_result_t \<times> u16, 'w) vl_call" where
  "vl53l0x_read_single sdk has_mm millimetres = returning (
     do_then (needs_initialised (VL53L0X_ERR_INVALID_ARG, millimetres)) (
     if \<not> has_mm then early (VL53L0X_ERR_INVALID_ARG, millimetres)
     else
       do_then (require (VL53L0X_ERR_I2C, 0) (arm_measurement sdk)) (
       do_then (require (VL53L0X_ERR_I2C, 0) (write8 sdk REG_SYSRANGE_START 0x01)) (
       andthen (perform (await sdk REG_SYSRANGE_START (\<lambda>start. start AND 0x01 = 0))) (\<lambda>waited.
       do_then (poll_ok (VL53L0X_ERR_I2C, 0) (VL53L0X_ERR_TIMEOUT, 0) waited) (
       andthen (perform (wait_for_measurement sdk)) (\<lambda>waited.
       if waited \<noteq> VL53L0X_OK then early (waited, 0) else fetch_measurement sdk)))))))"

text \<open>The period of the timed mode, a register of four bytes.\<close>

definition write_period :: "'w vl_sdk \<Rightarrow> u32 \<Rightarrow> (unit option, 'w) vl_call" where
  "write_period sdk period st =
     (case i2c_device_write_value (vl_i2c sdk) (vl_device (fst st)) REG_SYSTEM_INTERMEASUREMENT_PERIOD 4 period (snd st)
      of (r, w) \<Rightarrow> Some (succeeded r, (fst st, w)))"

definition vl53l0x_start_continuous :: "'w vl_sdk \<Rightarrow> u32 \<Rightarrow> (vl53l0x_result_t, 'w) vl_call" where
  "vl53l0x_start_continuous sdk period_ms = returning (
     do_then (needs_initialised VL53L0X_ERR_INVALID_ARG) (
     do_then (require VL53L0X_ERR_I2C (arm_measurement sdk)) (
     do_then
       (if period_ms \<noteq> 0 then
          andthen (require VL53L0X_ERR_I2C (read16 sdk 0xF8)) (\<lambda>oscillator_calibrate.
          let period = (if oscillator_calibrate \<noteq> 0 then period_ms * ucast oscillator_calibrate else period_ms) in
          do_then (require VL53L0X_ERR_I2C (write_period sdk period)) (
          require VL53L0X_ERR_I2C (write8 sdk REG_SYSRANGE_START 0x04)))
        else require VL53L0X_ERR_I2C (write8 sdk REG_SYSRANGE_START 0x02)) (
     do_then (update_sensor (vl_continuous_update (\<lambda>_. True))) (
     proceed VL53L0X_OK)))))"

definition vl53l0x_stop_continuous :: "'w vl_sdk \<Rightarrow> (vl53l0x_result_t, 'w) vl_call" where
  "vl53l0x_stop_continuous sdk = returning (
     do_then (needs_initialised VL53L0X_ERR_INVALID_ARG) (
     do_then (require VL53L0X_ERR_I2C (write_all sdk [(REG_SYSRANGE_START, 0x01), (0xFF, 0x01), (0x00, 0x00),
       (0x91, 0x00), (0x00, 0x01), (0xFF, 0x00)])) (
     do_then (update_sensor (vl_continuous_update (\<lambda>_. False))) (
     proceed VL53L0X_OK))))"

definition vl53l0x_data_ready :: "'w vl_sdk \<Rightarrow> (bool, 'w) vl_call" where
  "vl53l0x_data_ready sdk = returning (
     do_then (needs_initialised False) (
     andthen (require False (read8 sdk REG_RESULT_INTERRUPT_STATUS)) (\<lambda>status.
     proceed (status AND 0x07 \<noteq> 0))))"

definition vl53l0x_read_continuous :: "'w vl_sdk \<Rightarrow> bool \<Rightarrow> u16 \<Rightarrow> (vl53l0x_result_t \<times> u16, 'w) vl_call" where
  "vl53l0x_read_continuous sdk has_mm millimetres = returning (
     do_then (needs_initialised (VL53L0X_ERR_INVALID_ARG, millimetres)) (
     if \<not> has_mm then early (VL53L0X_ERR_INVALID_ARG, millimetres)
     else
       andthen (perform (vl53l0x_data_ready sdk)) (\<lambda>available.
       if \<not> available then early (VL53L0X_ERR_NOT_READY, 0) else fetch_measurement sdk)))"

definition vl53l0x_last_range_status :: "'w vl_sdk \<Rightarrow> bool \<Rightarrow> u8 \<Rightarrow> (vl53l0x_result_t \<times> u8, 'w) vl_call" where
  "vl53l0x_last_range_status sdk has_status status = returning (
     do_then (needs_initialised (VL53L0X_ERR_INVALID_ARG, status)) (
     if \<not> has_status then early (VL53L0X_ERR_INVALID_ARG, status)
     else
       andthen (require (VL53L0X_ERR_I2C, status) (read8 sdk REG_RESULT_RANGE_STATUS)) (\<lambda>raw.
       proceed (VL53L0X_OK, drop_bit 3 (raw AND 0x78)))))"

definition vl53l0x_range_status_name :: "u8 \<Rightarrow> string" where
  "vl53l0x_range_status_name status =
     (let names = [''data not ready'', ''VCSEL continuity test failed'', ''VCSEL watchdog test failed'',
        ''no VHV value found'', ''signal too weak (nothing in range)'', ''sigma too high (noisy)'',
        ''target below minimum distance'', ''phase out of valid limits'', ''hardware failure'',
        ''range ignored'', ''reference SPAD check failed'', ''good'']
      in if unat status < 12 then names ! unat status else ''unknown'')"

fun vl53l0x_result_name :: "vl53l0x_result_t \<Rightarrow> string" where
  "vl53l0x_result_name VL53L0X_OK = ''ok''"
| "vl53l0x_result_name VL53L0X_ERR_INVALID_ARG = ''invalid argument''"
| "vl53l0x_result_name VL53L0X_ERR_NO_DEVICE = ''nothing answered''"
| "vl53l0x_result_name VL53L0X_ERR_WRONG_MODEL = ''not a VL53L0X''"
| "vl53l0x_result_name VL53L0X_ERR_I2C = ''i2c transfer failed''"
| "vl53l0x_result_name VL53L0X_ERR_TIMEOUT = ''sensor did not finish in time''"
| "vl53l0x_result_name VL53L0X_ERR_BUDGET = ''timing budget cannot be met''"
| "vl53l0x_result_name VL53L0X_ERR_NOT_READY = ''no measurement waiting''"
| "vl53l0x_result_name VL53L0X_ERR_OUT_OF_RANGE = ''nothing in range''"
| "vl53l0x_result_name VL53L0X_ERR_BAD_MEASUREMENT = ''sensor rejected the reading''"

subsection \<open>Every call returns\<close>

text \<open>
  What the waits rely on: the clock never goes back, its reading is the time at which the call
  returns, and a read transfer takes at least a microsecond (at 400 kHz it takes more than forty).
\<close>

definition clock_runs :: "'w vl_sdk \<Rightarrow> ('w \<Rightarrow> nat) \<Rightarrow> bool" where
  "clock_runs sdk clk \<longleftrightarrow>
     (\<forall>w. fst (get_absolute_time sdk w) = clk (snd (get_absolute_time sdk w))
        \<and> clk w \<le> clk (snd (get_absolute_time sdk w)))
   \<and> (\<forall>a data nostop t w. clk w \<le> clk (snd (i2c_write_timeout_us (vl_i2c sdk) a data nostop t w)))
   \<and> (\<forall>a n nostop t w. clk w < clk (snd (snd (i2c_read_timeout_us (vl_i2c sdk) a n nostop t w))))"

definition total_call :: "('w vl \<Rightarrow> 'b option) \<Rightarrow> bool" where
  "total_call m \<longleftrightarrow> (\<forall>st. m st \<noteq> None)"

named_theorems total_rules

lemma totalD: "total_call m \<Longrightarrow> m st \<noteq> None"
  unfolding total_call_def by blast

lemma total_basic [total_rules]:
  "total_call (proceed x)" "total_call (early r)" "total_call (update_sensor f)" "total_call (wait_ms sdk ms)"
  "total_call (needs_initialised q)" "total_call (write8 sdk reg v)" "total_call (write16 sdk reg u)"
  "total_call (read8 sdk reg)" "total_call (read16 sdk reg)" "total_call (read_spad_map sdk)"
  "total_call (write_spad_map sdk bs)" "total_call (vl53l0x_probe sdk has_i2c address)"
  by (auto simp: total_call_def proceed_def early_def update_sensor_def wait_ms_def needs_initialised_def write8_def
      write16_def read8_def read16_def read_spad_map_def write_spad_map_def vl53l0x_probe_def split: prod.splits)

lemma total_andthen [total_rules]:
  "total_call m \<Longrightarrow> (\<And>x. total_call (k x)) \<Longrightarrow> total_call (andthen m k)"
  by (auto simp: total_call_def andthen_def split: option.splits sum.splits)

lemma total_require [total_rules]: "total_call c \<Longrightarrow> total_call (require r c)"
  by (auto simp: total_call_def require_def split: option.splits)

lemma total_perform [total_rules]: "total_call c \<Longrightarrow> total_call (perform c)"
  by (auto simp: total_call_def perform_def)

lemma total_returning [total_rules]: "total_call m \<Longrightarrow> total_call (returning m)"
  by (auto simp: total_call_def returning_def)

lemma total_write_all [total_rules]: "total_call (write_all sdk ws)"
proof -
  have "write_all sdk ws st \<noteq> None" for st
  proof (induction ws arbitrary: st)
    case (Cons a ws)
    obtain reg v where a: "a = (reg, v)" by (cases a)
    obtain x st' where "write8 sdk reg v st = Some (x, st')"
      using totalD [OF total_basic(6)] by (metis option.exhaust prod.exhaust)
    with Cons a show ?case by (simp split: option.splits)
  qed simp
  then show ?thesis unfolding total_call_def by blast
qed

lemma total_branch [total_rules]:
  "(b \<Longrightarrow> total_call m) \<Longrightarrow> (\<not> b \<Longrightarrow> total_call n) \<Longrightarrow> total_call (if b then m else n)"
  "(\<And>a b. total_call (f a b)) \<Longrightarrow> total_call (case p of (a, b) \<Rightarrow> f a b)"
  "total_call l \<Longrightarrow> (\<And>y. total_call (j y)) \<Longrightarrow> total_call (case z of None \<Rightarrow> l | Some y \<Rightarrow> j y)"
  "total_call (poll_ok q q' p')"
  by (auto simp: poll_ok_def total_call_def early_def proceed_def split: prod.splits option.splits poll_result.splits)

lemma read8_takes_time:
  assumes "clock_runs sdk clk" and "read8 sdk reg st = Some (Some v, st')"
  shows "clk (snd st) < clk (snd st')"
proof -
  let ?i = "vl_i2c sdk" and ?d = "vl_device (fst st)"
  obtain r raw w' where c: "i2c_device_read_value ?i ?d reg 1 True (snd st) = (r, raw, w')" by (metis prod_cases3)
  then have r: "r = I2C_DEVICE_OK" and st': "st' = (fst st, w')"
    using assms(2) by (auto simp: read8_def split: if_splits)
  obtain r' bs w1 where "i2c_device_write_read ?i ?d (Some [reg]) 1 True 1 (snd st) = (r', bs, w1)" by (metis prod_cases3)
  with c r have wr: "i2c_device_write_read ?i ?d (Some [reg]) 1 True 1 (snd st) = (I2C_DEVICE_OK, bs, w')"
    by (auto simp: i2c_device_read_value_def i2c_device_read_bytes_def split: if_splits)
  obtain n w2 where n: "i2c_write_timeout_us ?i (dev_address ?d) [reg] True (timeout_of ?d) (snd st) = (n, w2)" by fastforce
  obtain m bs' w3 where m: "i2c_read_timeout_us ?i (dev_address ?d) 1 False (timeout_of ?d) w2 = (m, bs', w3)" by (metis prod_cases3)
  have "w' = w3" using wr n m by (auto simp: i2c_device_write_read_def Let_def split: if_splits)
  moreover have "clk (snd st) \<le> clk w2" "clk w2 < clk w3"
    using assms(1) n m unfolding clock_runs_def by (metis snd_conv)+
  ultimately show ?thesis by (simp add: st')
qed

lemma poll_returns:
  assumes "clock_runs sdk clk"
  shows "poll sdk reg ready deadline st \<noteq> None"
proof (induction "deadline - clk (snd st)" arbitrary: st rule: less_induct)
  case less
  obtain v st1 where r: "read8 sdk reg st = Some (v, st1)"
    using total_basic(8) unfolding total_call_def by (metis option.exhaust prod.exhaust)
  show ?case
  proof (cases v)
    case None
    then show ?thesis by (subst poll.simps) (simp add: r)
  next
    case (Some x)
    obtain now w2 where g: "get_absolute_time sdk (snd st1) = (now, w2)" by fastforce
    have "clk (snd st) < clk (snd st1)" using read8_takes_time [OF assms, of reg st] r Some by simp
    moreover have "clk (snd st1) \<le> clk w2" and "now = clk w2"
      using assms g unfolding clock_runs_def by (metis fst_conv snd_conv)+
    ultimately have "\<not> deadline \<le> now \<Longrightarrow> deadline - clk (snd (fst st1, w2)) < deadline - clk (snd st)"
      using \<open>now = clk w2\<close> by simp
    from less [OF this] show ?thesis by (subst poll.simps) (simp add: r Some read_clock_def g)
  qed
qed

lemma total_await: "clock_runs sdk clk \<Longrightarrow> total_call (await sdk reg ready)"
  using poll_returns by (auto simp: total_call_def await_def read_clock_def split: prod.splits)

text \<open>The pieces the operations are made of always return, \<open>await\<close> when time passes.\<close>

lemma total_pieces:
  shows "total_call (read_sequence_timeouts sdk)" and "total_call (vl53l0x_set_timing_budget sdk b)"
    and "total_call (vl53l0x_set_vcsel_periods sdk p q)" and "total_call (vl53l0x_set_signal_rate_limit sdk n)"
    and "total_call (fetch_measurement sdk)" and "total_call (arm_measurement sdk)"
    and "total_call (write_period sdk t)"
proof -
  show timeouts: "total_call (read_sequence_timeouts sdk)"
    unfolding read_sequence_timeouts_def Let_def by (intro total_rules)
  then show budget: "total_call (vl53l0x_set_timing_budget sdk b)" for b
    unfolding vl53l0x_set_timing_budget_def Let_def by (intro total_rules)
  show "total_call (vl53l0x_set_vcsel_periods sdk p q)"
    unfolding vl53l0x_set_vcsel_periods_def Let_def
    by (intro total_rules) (use totalD [OF budget] in \<open>simp add: total_call_def\<close>)
  show "total_call (vl53l0x_set_signal_rate_limit sdk n)"
    unfolding vl53l0x_set_signal_rate_limit_def result_if_def by (intro total_rules)
  show "total_call (fetch_measurement sdk)"
    unfolding fetch_measurement_def interpret_raw_def Let_def by (intro total_rules)
  show "total_call (arm_measurement sdk)"
    using total_write_all unfolding total_call_def arm_measurement_def by blast
  show "total_call (write_period sdk t)"
    by (simp add: total_call_def write_period_def split: prod.splits)
qed

lemma total_waits:
  assumes "clock_runs sdk clk"
  shows "total_call (run_calibration sdk sq start)" and "total_call (read_spad_info sdk)"
  unfolding run_calibration_def read_spad_info_def Let_def by (intro total_rules total_await [OF assms])+


text \<open>A sensor whose registers all read as ones, with a transfer taking a millisecond.\<close>

definition ones_sdk :: "nat vl_sdk" where
  "ones_sdk = \<lparr>vl_i2c = \<lparr>i2c_write_timeout_us = (\<lambda>a data nostop t w. (int (length data), w)),
       i2c_read_timeout_us = (\<lambda>a n nostop t w. (int n, replicate n 0xFF, w + 1000)),
       pico_error_timeout = -1, pico_error_generic = -2\<rparr>,
     get_absolute_time = (\<lambda>w. (w, w)), sleep_ms = (\<lambda>ms w. w + 1000 * ms)\<rparr>"


subsection \<open>The reference SPADs\<close>

definition spad_on :: "u8 list \<Rightarrow> nat \<Rightarrow> bool" where
  "spad_on spad_map i \<longleftrightarrow> bit (spad_map ! (i div 8)) (i mod 8)"

lemma spad_test: "spad_map ! (n div 8) AND push_bit (n mod 8) 1 \<noteq> 0 \<longleftrightarrow> spad_on spad_map n"
proof -
  have "b AND push_bit k 1 \<noteq> 0 \<longleftrightarrow> bit b k" if "k < 8" for b :: u8 and k
  proof
    assume "b AND push_bit k 1 \<noteq> 0"
    then obtain j where "bit (b AND push_bit k 1) j" by (auto simp: bit_eq_iff)
    then show "bit b k" by (auto simp: bit_simps)
  next
    assume "bit b k"
    then have "bit (b AND push_bit k 1) k" using that by (simp add: bit_simps)
    then show "b AND push_bit k 1 \<noteq> 0" by auto
  qed
  then show ?thesis by (simp add: spad_on_def)
qed

lemma spad_cleared:
  assumes "length spad_map = 6" and "n < 48" and "i < 48"
  shows "spad_on (spad_map[n div 8 := spad_map ! (n div 8) AND NOT (push_bit (n mod 8) 1)]) i
    \<longleftrightarrow> spad_on spad_map i \<and> i \<noteq> n"
proof (cases "i div 8 = n div 8")
  case True
  have "n div 8 < 6" using assms(2) by simp
  moreover have "i = n \<longleftrightarrow> i mod 8 = n mod 8" using True by (metis div_mult_mod_eq)
  ultimately show ?thesis
    using True assms(1) by (auto simp: spad_on_def bit_simps dest: bit_imp_le_length)
qed (auto simp: spad_on_def)

definition spads_from :: "u8 list \<Rightarrow> nat \<Rightarrow> nat \<Rightarrow> nat" where
  "spads_from spad_map a b = length (filter (spad_on spad_map) [a..<b])"

text \<open>The state of the loop once the SPADs below \<open>n\<close> are decided.\<close>

definition spads_decided :: "u8 list \<Rightarrow> nat \<Rightarrow> nat \<Rightarrow> nat \<Rightarrow> u8 list \<times> u8 \<Rightarrow> bool" where
  "spads_decided m f c n s \<longleftrightarrow>
     length (fst s) = 6 \<and> unat (snd s) = min c (spads_from m f n)
   \<and> (\<forall>i < 48. spad_on (fst s) i \<longleftrightarrow> spad_on m i \<and> (i < n \<longrightarrow> f \<le> i \<and> spads_from m f i < c))
   \<and> spads_from (fst s) 0 n = unat (snd s)"

lemma spads_from_Suc:
  "spads_from m a (Suc n) = (if a \<le> n \<and> spad_on m n then Suc (spads_from m a n) else spads_from m a n)"
  by (simp add: spads_from_def)

lemma spads_from_below: "n \<le> a \<Longrightarrow> spads_from m a n = 0"
  by (simp add: spads_from_def)

lemma spads_from_cong: "(\<And>i. i < n \<Longrightarrow> spad_on m i \<longleftrightarrow> spad_on m' i) \<Longrightarrow> spads_from m 0 n = spads_from m' 0 n"
  unfolding spads_from_def by (intro arg_cong [where f = length] filter_cong) auto

lemma spads_from_le: "spads_from m a n \<le> n"
  by (induction n) (auto simp: spads_from_Suc spads_from_below)

lemma spad_step_decides:
  assumes "spads_decided m (unat f) (unat c) n s" and "n < 48"
  shows "spads_decided m (unat f) (unat c) (Suc n) (spad_step f c n s)"
proof -
  obtain m' e where s: "s = (m', e)" by (cases s)
  let ?f = "unat f" and ?c = "unat c"
  have len: "length m' = 6" and e: "unat e = min ?c (spads_from m ?f n)"
    and on: "\<And>i. i < 48 \<Longrightarrow> spad_on m' i \<longleftrightarrow> spad_on m i \<and> (i < n \<longrightarrow> ?f \<le> i \<and> spads_from m ?f i < ?c)"
    and cnt: "spads_from m' 0 n = unat e"
    using assms(1) by (auto simp: spads_decided_def s)
  have full: "e = c \<longleftrightarrow> ?c \<le> spads_from m ?f n" by (auto simp: word_eq_unat_iff e)
  show ?thesis
  proof (cases "n < ?f \<or> e = c")
    case True
    let ?m = "m'[n div 8 := m' ! (n div 8) AND NOT (push_bit (n mod 8) 1)]"
    have clr: "\<And>i. i < 48 \<Longrightarrow> spad_on ?m i \<longleftrightarrow> spad_on m' i \<and> i \<noteq> n" by (rule spad_cleared [OF len assms(2)])
    have "spads_from ?m 0 (Suc n) = spads_from ?m 0 n" using clr assms(2) by (simp add: spads_from_Suc)
    also have "\<dots> = spads_from m' 0 n" using clr assms(2) by (intro spads_from_cong) auto
    finally have "spads_from ?m 0 (Suc n) = unat e" using cnt by simp
    moreover have "unat e = min ?c (spads_from m ?f (Suc n))"
      using True full e by (auto simp: spads_from_Suc)
    moreover have "spad_on ?m i \<longleftrightarrow> spad_on m i \<and> (i < Suc n \<longrightarrow> ?f \<le> i \<and> spads_from m ?f i < ?c)" if "i < 48" for i
      using clr [OF that] on [OF that] True full by (auto simp: less_Suc_eq)
    ultimately show ?thesis using True len by (simp add: spads_decided_def spad_step_def s)
  next
    case False
    have room: "spads_from m ?f n < ?c" using False full by simp
    have on': "spad_on m' i \<longleftrightarrow> spad_on m i \<and> (i < Suc n \<longrightarrow> ?f \<le> i \<and> spads_from m ?f i < ?c)" if "i < 48" for i
      using on [OF that] False room by (auto simp: less_Suc_eq)
    have same: "spad_on m' n \<longleftrightarrow> spad_on m n" using on [OF assms(2)] by simp
    have "unat (e + 1) = unat e + 1"
      using e spads_from_le [of m ?f n] assms(2) by (simp add: unat_word_ariths(1))
    moreover have "spad_step f c n s = (if spad_on m n then (m', e + 1) else (m', e))"
      using False same unfolding spad_step_def s prod.case spad_test by simp
    ultimately show ?thesis
      using False room same len e cnt on' by (simp add: spads_decided_def spads_from_Suc)
  qed
qed

text \<open>The choice of reference SPADs. Of those the part marks as good, and on an aperture part never of the
  first twelve, the loop keeps the first ones up to the number the sensor asks for, and clears
  all others: the number kept is that number, or all good ones there are.
\<close>

theorem vl53l0x_spads_chosen:
  fixes is_aperture :: bool and spad_map :: "u8 list"
  assumes "length spad_map = 6"
  defines "f \<equiv> if is_aperture then 12 else 0"
  shows "i < 48 \<Longrightarrow> spad_on (choose_spads n is_aperture spad_map) i \<longleftrightarrow>
      spad_on spad_map i \<and> f \<le> i \<and> spads_from spad_map f i < unat n"
    and "spads_from (choose_spads n is_aperture spad_map) 0 48 = min (unat n) (spads_from spad_map f 48)"
proof -
  let ?f = "if is_aperture then 12 else 0 :: u8"
  have f: "unat ?f = f" by (simp add: f_def)
  have "spads_decided spad_map f (unat n) k (fold (spad_step ?f n) [0..<k] (spad_map, 0))" if "k \<le> 48" for k
    using that
  proof (induction k)
    case 0
    show ?case using assms(1) by (simp add: spads_decided_def spads_from_below)
  next
    case (Suc k)
    then show ?case using spad_step_decides [of spad_map ?f n k] unfolding f by simp
  qed
  from this [of 48] have d: "spads_decided spad_map f (unat n) 48 (fold (spad_step ?f n) [0..<48] (spad_map, 0))"
    by simp
  then show "i < 48 \<Longrightarrow> spad_on (choose_spads n is_aperture spad_map) i \<longleftrightarrow>
      spad_on spad_map i \<and> f \<le> i \<and> spads_from spad_map f i < unat n"
    by (simp only: spads_decided_def choose_spads_def Let_def) blast
  from d show "spads_from (choose_spads n is_aperture spad_map) 0 48 = min (unat n) (spads_from spad_map f 48)"
    by (simp only: spads_decided_def choose_spads_def Let_def)
qed

theorem vl53l0x_spads_chosen_witness:
  "spads_from (choose_spads 5 True [0xFF, 0xFF, 0x0F, 0, 0, 0]) 0 48 = 5
   \<and> spad_on (choose_spads 5 True [0xFF, 0xFF, 0x0F, 0, 0, 0]) 16"
proof -
  have "spads_from [0xFF, 0xFF, 0x0F, 0, 0, 0] 12 48 = 8" and "spads_from [0xFF, 0xFF, 0x0F, 0, 0, 0] 12 16 = 4"
    by (simp_all add: spads_from_def spad_on_def upt_rec)
  moreover have "spad_on [0xFF, 0xFF, 0x0F, 0, 0, 0] 16" by (simp add: spad_on_def)
  ultimately show ?thesis
    using vl53l0x_spads_chosen(1) [where spad_map = "[0xFF, 0xFF, 0x0F, 0, 0, 0]" and i = 16 and n = 5 and is_aperture = True]
      vl53l0x_spads_chosen(2) [where spad_map = "[0xFF, 0xFF, 0x0F, 0, 0, 0]" and n = 5 and is_aperture = True]
    by simp
qed

subsection \<open>Distances\<close>

text \<open>What a call or a body can return, whatever the bus does.\<close>

definition call_post :: "('a, 'w) vl_call \<Rightarrow> ('a \<Rightarrow> bool) \<Rightarrow> bool" where
  "call_post m Q \<longleftrightarrow> (\<forall>st x st'. m st = Some (x, st') \<longrightarrow> Q x)"

definition body_post :: "('r, 'a, 'w) vl_body \<Rightarrow> ('r \<Rightarrow> bool) \<Rightarrow> ('a \<Rightarrow> bool) \<Rightarrow> bool" where
  "body_post m Q R \<longleftrightarrow> call_post m (case_sum Q R)"

named_theorems post_rules

lemma post_basic [post_rules]:
  "R x \<Longrightarrow> body_post (proceed x) Q R" "Q r \<Longrightarrow> body_post (early r) Q R"
  by (auto simp: body_post_def call_post_def proceed_def early_def)

lemma post_andthen:
  "body_post m Q P \<Longrightarrow> (\<And>x. P x \<Longrightarrow> body_post (k x) Q R) \<Longrightarrow> body_post (andthen m k) Q R"
  unfolding body_post_def call_post_def andthen_def
  by (fastforce split: option.splits sum.splits)

lemma post_needs [post_rules]:
  "Q r \<Longrightarrow> (\<And>x. body_post (k x) Q R) \<Longrightarrow> body_post (andthen (needs_initialised r) k) Q R"
  by (rule post_andthen [where P = "\<lambda>_. True"])
    (auto simp: body_post_def call_post_def needs_initialised_def proceed_def early_def split: if_splits)

lemma post_require [post_rules]:
  "Q r \<Longrightarrow> (\<And>x. body_post (k x) Q R) \<Longrightarrow> body_post (andthen (require r c) k) Q R"
  by (rule post_andthen [where P = "\<lambda>_. True"])
    (auto simp: body_post_def call_post_def require_def split: option.splits)

lemma post_poll_ok [post_rules]:
  "Q f \<Longrightarrow> Q l \<Longrightarrow> (\<And>x. body_post (k x) Q R) \<Longrightarrow> body_post (andthen (poll_ok f l p) k) Q R"
  by (rule post_andthen [where P = "\<lambda>_. True"])
    (auto simp: body_post_def call_post_def poll_ok_def proceed_def early_def split: poll_result.splits)

lemma post_perform:
  "call_post c P \<Longrightarrow> (\<And>x. P x \<Longrightarrow> body_post (k x) Q R) \<Longrightarrow> body_post (andthen (perform c) k) Q R"
  by (rule post_andthen [where P = P]) (fastforce simp: body_post_def call_post_def perform_def)+

lemma post_perform_any: "(\<And>x. body_post (k x) Q R) \<Longrightarrow> body_post (andthen (perform c) k) Q R"
  by (rule post_perform [where P = "\<lambda>_. True"]) (simp_all add: call_post_def)

lemma post_returning [post_rules]: "body_post m Q Q \<Longrightarrow> call_post (returning m) Q"
  unfolding body_post_def call_post_def returning_def by (fastforce split: sum.splits)

lemma post_branch [post_rules]:
  "(b \<Longrightarrow> body_post m Q R) \<Longrightarrow> (\<not> b \<Longrightarrow> body_post n Q R) \<Longrightarrow> body_post (if b then m else n) Q R"
  "(\<And>a b. p = (a, b) \<Longrightarrow> body_post (f a b) Q R) \<Longrightarrow> body_post (case p of (a, b) \<Rightarrow> f a b) Q R"
  by (auto split: prod.splits)

definition sound_reading :: "vl53l0x_result_t \<times> u16 \<Rightarrow> bool" where
  "sound_reading p \<longleftrightarrow> (fst p = VL53L0X_OK \<longrightarrow> snd p < VL53L0X_OUT_OF_RANGE_MM)
     \<and> (fst p = VL53L0X_ERR_OUT_OF_RANGE \<longrightarrow> snd p = VL53L0X_OUT_OF_RANGE_MM)
     \<and> (fst p \<in> {VL53L0X_ERR_TIMEOUT, VL53L0X_ERR_NOT_READY} \<longrightarrow> snd p = 0)"

lemma post_interpret: "call_post (interpret_raw sdk raw mm) sound_reading"
  unfolding interpret_raw_def Let_def
  by (intro post_rules) (auto simp: sound_reading_def not_le)

lemma post_fetch: "body_post (fetch_measurement sdk) sound_reading sound_reading"
proof -
  note interpreted = post_perform [OF post_interpret]
  show ?thesis unfolding fetch_measurement_def
    by (intro post_rules interpreted) (auto simp: sound_reading_def)
qed

text \<open>A distance is never invented. Whatever the bus delivers, a single or a continuous reading
  that succeeds is below the sensor's mark for nothing in range, that mark is only left with the
  error that says so, and a reading that timed out or was not ready leaves zero.
\<close>

theorem vl53l0x_distance_sound:
  assumes "vl53l0x_read_single sdk True m0 st = Some ((r, mm), st') \<or> vl53l0x_read_continuous sdk True m0 st = Some ((r, mm), st')"
  shows "r = VL53L0X_OK \<longrightarrow> mm < 8190" and "r = VL53L0X_ERR_OUT_OF_RANGE \<longrightarrow> mm = 8190"
    and "r \<in> {VL53L0X_ERR_TIMEOUT, VL53L0X_ERR_NOT_READY} \<longrightarrow> mm = 0"
proof -
  have w: "call_post (wait_for_measurement sdk) (\<lambda>r. r \<in> {VL53L0X_OK, VL53L0X_ERR_I2C, VL53L0X_ERR_TIMEOUT})"
    unfolding wait_for_measurement_def by (intro post_rules post_perform_any) auto
  note waited = post_perform [OF w]
  have "call_post (vl53l0x_read_single sdk True m0) sound_reading"
    unfolding vl53l0x_read_single_def
    by (intro post_rules waited post_fetch post_perform_any) (auto simp: sound_reading_def)
  moreover have "call_post (vl53l0x_read_continuous sdk True m0) sound_reading"
    unfolding vl53l0x_read_continuous_def
    by (intro post_rules post_perform_any post_fetch) (auto simp: sound_reading_def)
  ultimately have "sound_reading (r, mm)" using assms unfolding call_post_def by blast
  then show "r = VL53L0X_OK \<longrightarrow> mm < 8190" "r = VL53L0X_ERR_OUT_OF_RANGE \<longrightarrow> mm = 8190"
    "r \<in> {VL53L0X_ERR_TIMEOUT, VL53L0X_ERR_NOT_READY} \<longrightarrow> mm = 0"
    by (simp_all add: sound_reading_def)
qed

theorem vl53l0x_distance_sound_witness:
  "\<exists>st'. vl53l0x_read_continuous ones_sdk True 7 (vl53l0x_zero\<lparr>vl_initialised := True, vl_device := sim_i2c_device I2C_ENDIAN_BIG\<rparr>, 0)
     = Some ((VL53L0X_ERR_OUT_OF_RANGE, 8190), st')"
proof -
  let ?st = "(vl53l0x_zero\<lparr>vl_initialised := True, vl_device := sim_i2c_device I2C_ENDIAN_BIG\<rparr>, 0)"
  obtain mm st' where r: "vl53l0x_read_continuous ones_sdk True 7 ?st = Some ((VL53L0X_ERR_OUT_OF_RANGE, mm), st')"
    by (simp add: vl53l0x_read_continuous_def vl53l0x_data_ready_def fetch_measurement_def interpret_raw_def returning_def
        andthen_def needs_initialised_def proceed_def perform_def require_def read8_def read16_def write8_def ones_sdk_def
        sim_i2c_device_def i2c_device_read_value_def i2c_device_read_bytes_def i2c_device_write_read_def
        i2c_device_write_bytes_def i2c_device_write_def translate_def i2c_decode_value_def decode_step_def
        width_is_supported_def succeeded_def upt_rec)
  with vl53l0x_distance_sound [of ones_sdk 7 ?st VL53L0X_ERR_OUT_OF_RANGE mm st'] show ?thesis by simp
qed

subsection \<open>The budget the sensor is given\<close>

text \<open>
  A sensor whose configuration registers keep what is written to them, high byte first. A call
  runs on it to a given outcome: \<open>gives\<close> is the weakest precondition of the calls and bodies.
\<close>

definition sensor_bus :: "'w vl_sdk \<Rightarrow> vl53l0x_t \<Rightarrow> ('w \<Rightarrow> nat \<Rightarrow> u8) \<Rightarrow> bool" where
  "sensor_bus sdk s regs \<longleftrightarrow> register_device (vl_i2c sdk) (vl_device s) 1 (\<lambda>a. unat (a ! 0)) regs
     \<and> dev_initialised (vl_device s) \<and> dev_endianness (vl_device s) = I2C_ENDIAN_BIG"

definition gives :: "('w vl \<Rightarrow> ('a \<times> 'w vl) option) \<Rightarrow> vl53l0x_t \<Rightarrow> 'w \<Rightarrow> ('a \<Rightarrow> vl53l0x_t \<Rightarrow> 'w \<Rightarrow> bool) \<Rightarrow> bool" where
  "gives m s w Q \<longleftrightarrow> (\<exists>x s' w'. m (s, w) = Some (x, (s', w')) \<and> Q x s' w')"

definition be16 :: "u8 \<Rightarrow> u8 \<Rightarrow> u16" where
  "be16 hi lo = push_bit 8 (ucast hi) OR ucast lo"

lemma be16_bytes: "be16 (ucast (drop_bit 8 v)) (ucast v) = v"
  by (rule bit_word_eqI) (auto simp: be16_def bit_simps)

lemma ucast_back: "ucast (ucast (x :: u8) :: u32) = x" "ucast (ucast (y :: u16) :: u32) = y"
  by (rule bit_word_eqI; simp add: bit_simps)+

named_theorems gives_rules

lemma gives_basic [gives_rules]:
  "Q (Inr x) s w \<Longrightarrow> gives (proceed x) s w Q" "Q (Inl r) s w \<Longrightarrow> gives (early r) s w Q"
  "Q (Inr ()) (f s) w \<Longrightarrow> gives (update_sensor f) s w Q"
  "vl_initialised s \<Longrightarrow> Q (Inr ()) s w \<Longrightarrow> gives (needs_initialised r) s w Q"
  by (auto simp: gives_def proceed_def early_def update_sensor_def needs_initialised_def)

lemma gives_values [simp]: "gives (proceed x) s w Q \<longleftrightarrow> Q (Inr x) s w" "gives (early r) s w Q \<longleftrightarrow> Q (Inl r) s w"
  by (simp_all add: gives_def proceed_def early_def)

lemma gives_andthen [gives_rules]:
  "gives m s w (\<lambda>x s' w'. case x of Inl r \<Rightarrow> Q (Inl r) s' w' | Inr y \<Rightarrow> gives (k y) s' w' Q) \<Longrightarrow> gives (andthen m k) s w Q"
  unfolding gives_def [of m] by (elim exE conjE) (auto simp: gives_def andthen_def split: sum.splits)

lemma gives_require [gives_rules]:
  "gives c s w (\<lambda>x s' w'. case x of None \<Rightarrow> Q (Inl r) s' w' | Some y \<Rightarrow> Q (Inr y) s' w') \<Longrightarrow> gives (require r c) s w Q"
  by (fastforce simp: gives_def require_def split: option.splits)

lemma gives_returning [gives_rules]:
  "gives m s w (\<lambda>x. Q (case x of Inl r \<Rightarrow> r | Inr r \<Rightarrow> r)) \<Longrightarrow> gives (returning m) s w Q"
  by (fastforce simp: gives_def returning_def)

lemma device_value:
  assumes "sensor_bus sdk s regs"
  shows "\<exists>w'. i2c_device_read_value (vl_i2c sdk) (vl_device s) reg 1 True w
      = (I2C_DEVICE_OK, Some (ucast (regs w (unat reg))), w') \<and> regs w' = regs w"
    and "\<exists>w'. i2c_device_read_value (vl_i2c sdk) (vl_device s) reg 2 True w
      = (I2C_DEVICE_OK, Some (ucast (be16 (regs w (unat reg)) (regs w (Suc (unat reg))))), w') \<and> regs w' = regs w"
proof -
  have dev: "register_device (vl_i2c sdk) (vl_device s) 1 (\<lambda>a. unat (a ! 0)) regs" "dev_initialised (vl_device s)"
    and big: "dev_endianness (vl_device s) = I2C_ENDIAN_BIG"
    using assms by (simp_all add: sensor_bus_def)
  have one: "i2c_decode_value [b] 1 I2C_ENDIAN_BIG = ucast b" for b
    by (simp add: i2c_decode_value_def supported_widths decode_step_def)
  have two: "i2c_decode_value [a, b] 2 I2C_ENDIAN_BIG = ucast (be16 a b)" for a b
    by (simp add: i2c_decode_value_def supported_widths upt_small decode_step_def)
      (rule bit_word_eqI, auto simp: be16_def bit_simps dest: bit_imp_le_length)
  have range: "map (regs w) [unat reg..<unat reg + 1] = [regs w (unat reg)]"
    "map (regs w) [unat reg..<unat reg + 2] = [regs w (unat reg), regs w (Suc (unat reg))]"
    by (simp_all add: upt_rec)
  obtain w1 where w1: "i2c_device_write_read (vl_i2c sdk) (vl_device s) (Some [reg]) 1 True 1 w
      = (I2C_DEVICE_OK, [regs w (unat reg)], w1)" "regs w1 = regs w"
    using device_fetches [OF dev, of "[reg]" 1 w] unfolding nth_Cons_0 range by auto
  then show "\<exists>w'. i2c_device_read_value (vl_i2c sdk) (vl_device s) reg 1 True w
      = (I2C_DEVICE_OK, Some (ucast (regs w (unat reg))), w') \<and> regs w' = regs w"
    by (simp add: i2c_device_read_value_def i2c_device_read_bytes_def big one)
  obtain w2 where w2: "i2c_device_write_read (vl_i2c sdk) (vl_device s) (Some [reg]) 1 True 2 w
      = (I2C_DEVICE_OK, [regs w (unat reg), regs w (Suc (unat reg))], w2)" "regs w2 = regs w"
    using device_fetches [OF dev, of "[reg]" 2 w] unfolding nth_Cons_0 range by auto
  then show "\<exists>w'. i2c_device_read_value (vl_i2c sdk) (vl_device s) reg 2 True w
      = (I2C_DEVICE_OK, Some (ucast (be16 (regs w (unat reg)) (regs w (Suc (unat reg))))), w') \<and> regs w' = regs w"
    by (simp add: i2c_device_read_value_def i2c_device_read_bytes_def big two)
qed

lemma gives_read8 [gives_rules]:
  assumes "sensor_bus sdk s regs" and "\<And>w'. regs w' = regs w \<Longrightarrow> Q (Some (regs w (unat reg))) s w'"
  shows "gives (read8 sdk reg) s w Q"
  using device_value(1) [OF assms(1), of reg w] assms(2) by (auto simp: gives_def read8_def ucast_back)

lemma gives_read16 [gives_rules]:
  assumes "sensor_bus sdk s regs"
    and "\<And>w'. regs w' = regs w \<Longrightarrow> Q (Some (be16 (regs w (unat reg)) (regs w (Suc (unat reg))))) s w'"
  shows "gives (read16 sdk reg) s w Q"
  using device_value(2) [OF assms(1), of reg w] assms(2) by (auto simp: gives_def read16_def ucast_back)

lemma gives_write16 [gives_rules]:
  assumes "sensor_bus sdk s regs"
    and "\<And>w'. regs w' = (regs w)(unat reg := ucast (drop_bit 8 v), Suc (unat reg) := ucast v) \<Longrightarrow> Q (Some ()) s w'"
  shows "gives (write16 sdk reg v) s w Q"
proof -
  have dev: "register_device (vl_i2c sdk) (vl_device s) 1 (\<lambda>a. unat (a ! 0)) regs" "dev_initialised (vl_device s)"
    and big: "dev_endianness (vl_device s) = I2C_ENDIAN_BIG"
    using assms(1) by (simp_all add: sensor_bus_def)
  let ?data = "[ucast (drop_bit 8 v), ucast v] :: u8 list"
  have "ordered_bytes 2 I2C_ENDIAN_BIG (ucast v) = ?data"
    unfolding ordered_bytes_def Let_def upt_small by (auto simp: bit_simps intro!: bit_word_eqI)
  then have bytes: "take 2 (i2c_encode_value (replicate 4 0) (ucast v) 2 I2C_ENDIAN_BIG) = ?data"
    using encode_bytes [OF _ supported_widths(2), of "replicate 4 0" "ucast v" I2C_ENDIAN_BIG] by simp
  have len: "length ?data = 2" by simp
  obtain w' where w': "i2c_device_write (vl_i2c sdk) (vl_device s) (Some ([reg] @ ?data)) (2 + 1) w = (I2C_DEVICE_OK, w')"
      "regs w' = (\<lambda>k. if unat reg \<le> k \<and> k < unat reg + 2 then ?data ! (k - unat reg) else regs w k)"
    using device_stores [OF dev, of "[reg]" ?data w] unfolding len nth_Cons_0 by auto
  have "regs w' = (regs w)(unat reg := ucast (drop_bit 8 v), Suc (unat reg) := ucast v)"
  proof
    fix k
    consider "k < unat reg" | "k = unat reg" | "k = Suc (unat reg)" | "Suc (unat reg) < k" by linarith
    then show "regs w' k = ((regs w)(unat reg := ucast (drop_bit 8 v), Suc (unat reg) := ucast v)) k"
      by cases (simp_all add: w'(2))
  qed
  moreover have "i2c_device_write_value (vl_i2c sdk) (vl_device s) reg 2 (ucast v) w = (I2C_DEVICE_OK, w')"
    using w'(1) bytes by (simp add: i2c_device_write_value_def i2c_device_write_bytes_def Let_def big)
  ultimately show ?thesis using assms(2) by (simp add: gives_def write16_def succeeded_def)
qed

text \<open>The timing that the registers \<open>g\<close> of a sensor stand for.\<close>

definition timeouts_in :: "(nat \<Rightarrow> u8) \<Rightarrow> vl53l0x_sequence_timeouts_t" where
  "timeouts_in g =
     (let pre_period = vl53l0x_decode_vcsel_period (g 0x50);
          msrc = ucast (ucast (g 0x46) + 1 :: u32) :: u16;
          pre = ucast (vl53l0x_decode_timeout (be16 (g 0x51) (g 0x52))) :: u16;
          final_period = vl53l0x_decode_vcsel_period (g 0x70);
          both = ucast (vl53l0x_decode_timeout (be16 (g 0x71) (g 0x72))) :: u16;
          fin = (if pre_range (vl53l0x_decode_sequence_steps (g 1)) \<and> pre < both then both - pre else both)
      in \<lparr>pre_range_vcsel_period_pclks = pre_period, final_range_vcsel_period_pclks = final_period,
          msrc_dss_tcc_mclks = msrc, pre_range_mclks = pre, final_range_mclks = fin,
          msrc_dss_tcc_us = vl53l0x_timeout_mclks_to_us msrc pre_period,
          pre_range_us = vl53l0x_timeout_mclks_to_us pre pre_period,
          final_range_us = vl53l0x_timeout_mclks_to_us fin final_period\<rparr>)"

lemma gives_same:
  "(\<And>w'. regs w' = r \<Longrightarrow> Q (Some y) s w') \<Longrightarrow> regs w'' = r \<Longrightarrow> x = y \<Longrightarrow> Q (Some x) s w''"
  by simp

lemma gives_timeouts:
  assumes "sensor_bus sdk s regs" and "\<And>w'. regs w' = regs w \<Longrightarrow> Q (Some (timeouts_in (regs w))) s w'"
  shows "gives (read_sequence_timeouts sdk) s w Q"
  unfolding read_sequence_timeouts_def Let_def
  by (intro gives_rules; (rule assms(1))?; simp; (intro gives_rules; (rule assms(1))?; simp)?)+
    (auto intro!: gives_basic(1) gives_same [where Q = Q, OF assms(2)] simp: timeouts_in_def Let_def)


definition sim_vl :: "(nat \<times> (nat \<Rightarrow> u8)) vl_sdk" where
  "sim_vl = \<lparr>vl_i2c = sim_i2c, get_absolute_time = (\<lambda>w. (0, w)), sleep_ms = (\<lambda>ms w. w)\<rparr>"


end
