(* ===== verification/Effects.thy ===== *)
theory Effects
  imports Led_Range Light
begin

text \<open>
  Model of \<open>apps/home_led/effects.c\<close>: what goes on the strip. The frame of each effect is drawn into the caller's pixels,
  a list; a loop over the pixels is the fold of its body over the indices, in order. The state of the animation is
  \<open>effects_t\<close>. The effects' record and the pixels are always there in the model; a missing
  light or range is \<open>None\<close>.
\<close>

abbreviation (input) "BREATHING_PERIOD_MS \<equiv> (8000 :: nat)"

abbreviation "WS2812_COLOR_BLACK \<equiv> \<lparr>color_r = 0, color_g = 0, color_b = 0, color_w = 0\<rparr>"

record effects_t =
  ef_frame :: u32
  ef_effect_start_ms :: u32
  ef_current :: light_effect_t
  ef_started :: bool
  ef_rainbow_hue :: u16
  ef_wipe_position :: u16

definition hash32 :: "u32 \<Rightarrow> u32" where
  "hash32 x =
     (let x = x XOR drop_bit 17 x;
          x = x * 0xED5AD4BB;
          x = x XOR drop_bit 11 x;
          x = x * 0xAC4C1B51;
          x = x XOR drop_bit 15 x;
          x = x * 0x31848BAB;
          x = x XOR drop_bit 14 x
      in x)"

definition shade :: "ws2812_color_t \<Rightarrow> u8 \<Rightarrow> ws2812_color_t" where
  "shade color numerator = ws2812_color_scale color numerator"

text \<open>A loop that writes pixel \<open>i\<close> for every \<open>i\<close> below \<open>n\<close>.\<close>

definition each_pixel :: "(nat \<Rightarrow> ws2812_color_t) \<Rightarrow> nat \<Rightarrow> ws2812_color_t list \<Rightarrow> ws2812_color_t list" where
  "each_pixel f n pixels = fold (\<lambda>i px. px[i := f i]) [0..<n] pixels"

definition fill_black :: "nat \<Rightarrow> ws2812_color_t list \<Rightarrow> ws2812_color_t list" where
  "fill_black n pixels = each_pixel (\<lambda>i. WS2812_COLOR_BLACK) n pixels"

subsection \<open>The effects\<close>

definition render_solid ::
  "effects_t \<Rightarrow> ws2812_color_t \<Rightarrow> u8 \<Rightarrow> nat \<Rightarrow> ws2812_color_t list \<Rightarrow> ws2812_color_t list" where
  "render_solid effects base brightness n pixels =
     each_pixel (\<lambda>i. let bias = ws2812_dither_bias (of_nat i) 0 (ef_frame effects)
                     in ws2812_color_scale_dither base brightness bias) n pixels"

definition render_rainbow :: "effects_t \<Rightarrow> u8 \<Rightarrow> nat \<Rightarrow> ws2812_color_t list \<Rightarrow> ws2812_color_t list" where
  "render_rainbow effects brightness n pixels =
     each_pixel (\<lambda>i. let hue = ef_rainbow_hue effects + of_nat (i * 6);
                         color = ws2812_color_from_hue16 hue;
                         bias = ws2812_dither_bias (of_nat i) 0 (ef_frame effects)
                     in ws2812_color_scale_dither color brightness bias) n pixels"

definition render_twinkle ::
  "effects_t \<Rightarrow> ws2812_color_t \<Rightarrow> u8 \<Rightarrow> nat \<Rightarrow> ws2812_color_t list \<Rightarrow> ws2812_color_t list" where
  "render_twinkle effects base brightness n pixels =
     (let background = ws2812_rgb (drop_bit 3 (color_r base)) (drop_bit 3 (color_g base)) (drop_bit 3 (color_b base)) in
      each_pixel (\<lambda>i. let noise = hash32 ((of_nat i * 2654435761) XOR ef_frame effects);
                          bias = ws2812_dither_bias (of_nat i) 0 (ef_frame effects)
                      in if noise AND 0xFF < 24
                         then (let strength = ucast (192 + (drop_bit 8 noise AND 0x3F))
                               in ws2812_color_scale_dither (shade base strength) brightness bias)
                         else ws2812_color_scale_dither background brightness bias) n pixels)"

text \<open>The place of the pixel that is \<open>t\<close> behind the head.\<close>

definition wipe_index :: "effects_t \<Rightarrow> nat \<Rightarrow> nat \<Rightarrow> nat" where
  "wipe_index effects n t = (unat (ef_wipe_position effects) mod n + n - t) mod n"

definition render_wipe ::
  "effects_t \<Rightarrow> ws2812_color_t \<Rightarrow> u8 \<Rightarrow> nat \<Rightarrow> ws2812_color_t list \<Rightarrow> ws2812_color_t list" where
  "render_wipe effects base brightness n pixels =
     fold (\<lambda>t px.
       let index = wipe_index effects n t;
           fade = of_nat (255 * (6 - t) div 6);
           bias = ws2812_dither_bias (of_nat index) 0 (ef_frame effects)
       in px[index := ws2812_color_scale_dither (shade base fade) brightness bias])
       [0..<min 6 n] (fill_black n pixels)"

text \<open>How far up the wave is, of 1024, and the brightness there.\<close>

definition breathing_wave :: "effects_t \<Rightarrow> u32 \<Rightarrow> nat" where
  "breathing_wave effects now_ms =
     (let elapsed = unat (now_ms - ef_effect_start_ms effects) mod BREATHING_PERIOD_MS;
          half = BREATHING_PERIOD_MS div 2;
          rising = (if elapsed < half then elapsed else BREATHING_PERIOD_MS - elapsed);
          t = (of_nat (rising * 1024 div half) :: u16)
      in unat (light_ease (if 1024 < t then 1024 else t)))"

definition breathing_brightness :: "effects_t \<Rightarrow> u8 \<Rightarrow> u32 \<Rightarrow> u8" where
  "breathing_brightness effects brightness now_ms =
     (let wave = breathing_wave effects now_ms;
          scale = (of_nat (180 + (255 - 180) * wave div 1024) :: u8)
      in of_nat (unat brightness * unat scale div 255))"

definition render_breathing ::
  "effects_t \<Rightarrow> ws2812_color_t \<Rightarrow> u8 \<Rightarrow> nat \<Rightarrow> u32 \<Rightarrow> ws2812_color_t list \<Rightarrow> ws2812_color_t list" where
  "render_breathing effects base brightness n now_ms pixels =
     (let effective = breathing_brightness effects brightness now_ms in
      each_pixel (\<lambda>i. let bias = ws2812_dither_bias (of_nat i) 0 (ef_frame effects)
                      in ws2812_color_scale_dither base effective bias) n pixels)"

subsection \<open>Entry points\<close>

definition effects_init :: "u32 \<Rightarrow> effects_t" where
  "effects_init now_ms =
     \<lparr>ef_frame = 0, ef_effect_start_ms = now_ms, ef_current = LIGHT_EFFECT_SOLID, ef_started = True,
      ef_rainbow_hue = 0, ef_wipe_position = 0\<rparr>"

text \<open>The restart of the animation when the effect is a new one.\<close>

definition notice_effect :: "light_effect_t \<Rightarrow> u32 \<Rightarrow> effects_t \<Rightarrow> effects_t" where
  "notice_effect effect now_ms effects =
     (if \<not> ef_started effects \<or> ef_current effects \<noteq> effect
      then effects\<lparr>ef_current := effect, ef_effect_start_ms := now_ms, ef_rainbow_hue := 0, ef_wipe_position := 0,
             ef_started := True\<rparr>
      else effects)"

definition draw_effect ::
  "effects_t \<Rightarrow> light_t \<Rightarrow> nat \<Rightarrow> u32 \<Rightarrow> ws2812_color_t list \<Rightarrow> ws2812_color_t list" where
  "draw_effect effects light n now_ms pixels =
     (let brightness = light_current_brightness (Some light);
          base = light_current_color (Some light)
      in if light_effect light = LIGHT_EFFECT_RAINBOW then render_rainbow effects brightness n pixels
         else if light_effect light = LIGHT_EFFECT_TWINKLE then render_twinkle effects base brightness n pixels
         else if light_effect light = LIGHT_EFFECT_WIPE then render_wipe effects base brightness n pixels
         else if light_effect light = LIGHT_EFFECT_BREATHING then render_breathing effects base brightness n now_ms pixels
         else render_solid effects base brightness n pixels)"

definition next_frame :: "effects_t \<Rightarrow> effects_t" where
  "next_frame effects =
     effects\<lparr>ef_frame := ef_frame effects + 1,
       ef_rainbow_hue := of_nat ((unat (ef_rainbow_hue effects) + 9) mod WS2812_HUE16_RANGE),
       ef_wipe_position := ef_wipe_position effects + 1\<rparr>"

definition effects_render ::
  "light_t option \<Rightarrow> nat \<Rightarrow> u32 \<Rightarrow> effects_t \<times> ws2812_color_t list \<Rightarrow> effects_t \<times> ws2812_color_t list" where
  "effects_render light n now_ms st =
     (case (light, st) of
        (None, _) \<Rightarrow> st
      | (Some l, (effects, pixels)) \<Rightarrow>
          if n = 0 then st
          else
            (let effects = notice_effect (light_effect l) now_ms effects in
             if \<not> light_on l then (effects, fill_black n pixels)
             else (next_frame effects, draw_effect effects l n now_ms pixels)))"

definition effects_render_range ::
  "light_t option \<Rightarrow> led_range_t option \<Rightarrow> nat \<Rightarrow> u32
     \<Rightarrow> effects_t \<times> ws2812_color_t list \<Rightarrow> effects_t \<times> ws2812_color_t list" where
  "effects_render_range light rg n now_ms st =
     (if light = None \<or> rg = None \<or> n = 0 then st
      else
        (let (effects, pixels) = st;
             pixels = fill_black n pixels;
             b = unat (led_range_begin rg);
             active = unat (led_range_length rg)
         in if n \<le> b then (effects, pixels)
            else
              (let active = (if n - b < active then n - b else active) in
               if active = 0 then (effects, pixels)
               else (case effects_render light active now_ms (effects, drop b pixels) of
                       (effects, tail) \<Rightarrow> (effects, take b pixels @ tail)))))"

definition effects_render_test_pattern :: "nat \<Rightarrow> ws2812_color_t list \<Rightarrow> ws2812_color_t list" where
  "effects_render_test_pattern n pixels =
     (if n = 0 then pixels
      else (each_pixel (\<lambda>i. ws2812_rgb 8 8 8) n pixels)[0 := ws2812_rgb 48 0 0, n - 1 := ws2812_rgb 0 48 0])"

subsection \<open>What a loop over the pixels does\<close>

lemma each_pixel_eq: "n \<le> length pixels \<Longrightarrow> each_pixel f n pixels = map f [0..<n] @ drop n pixels"
proof (induction n)
  case (Suc n)
  then have "each_pixel f (Suc n) pixels = (map f [0..<n] @ drop n pixels)[n := f n]"
    by (simp add: each_pixel_def)
  also have "\<dots> = map f [0..<Suc n] @ drop (Suc n) pixels"
    using Suc.prems by (simp add: list_update_append Cons_nth_drop_Suc [symmetric, of n])
  finally show ?case .
qed (simp add: each_pixel_def)

lemma length_each_pixel [simp]: "length (each_pixel f n pixels) = length pixels"
  unfolding each_pixel_def by (rule fold_invariant [where P = "\<lambda>px. length px = length pixels" and Q = "\<lambda>_. True"]) simp_all

lemma each_pixel_nth: "n \<le> length pixels \<Longrightarrow> i < length pixels \<Longrightarrow> each_pixel f n pixels ! i = (if i < n then f i else pixels ! i)"
  by (simp add: each_pixel_eq nth_append)

text \<open>A frame covers exactly the first \<open>n\<close> pixels: it does not depend on what they held, and leaves the others.\<close>

definition draws :: "nat \<Rightarrow> (ws2812_color_t list \<Rightarrow> ws2812_color_t list) \<Rightarrow> bool" where
  "draws n draw \<longleftrightarrow> length (draw (replicate n WS2812_COLOR_BLACK)) = n
     \<and> (\<forall>px. n \<le> length px \<longrightarrow> draw px = draw (replicate n WS2812_COLOR_BLACK) @ drop n px)"

lemma draws_each: "draws n (each_pixel f n)"
  by (simp add: draws_def each_pixel_eq)

lemma fill_black_eq: "n \<le> length px \<Longrightarrow> fill_black n px = replicate n WS2812_COLOR_BLACK @ drop n px"
  by (simp add: fill_black_def each_pixel_eq map_replicate_const)

lemma fold_updates_append:
  "\<forall>t \<in> set ts. g t < length xs \<Longrightarrow>
    fold (\<lambda>t px. px[g t := f t]) ts (xs @ ys) = fold (\<lambda>t px. px[g t := f t]) ts xs @ ys"
  by (induction ts arbitrary: xs) (simp_all add: list_update_append)

lemma length_fold_updates: "length (fold (\<lambda>t px. px[g t := f t]) ts xs) = length xs"
  by (induction ts arbitrary: xs) simp_all

lemma wipe_index_below: "0 < n \<Longrightarrow> wipe_index effects n t < n"
  by (simp add: wipe_index_def)

lemma draws_wipe: "draws n (render_wipe effects base brightness n)"
proof -
  have "fold (\<lambda>t px. px[wipe_index effects n t := f t]) [0..<min 6 n] (replicate n WS2812_COLOR_BLACK @ drop n px)
      = fold (\<lambda>t px. px[wipe_index effects n t := f t]) [0..<min 6 n] (replicate n WS2812_COLOR_BLACK) @ drop n px" for f px
    using wipe_index_below [of n effects] by (intro fold_updates_append) simp
  then show ?thesis
    unfolding draws_def render_wipe_def Let_def
    by (simp add: fill_black_eq length_fold_updates del: upt_Suc)
qed

lemma draws_if: "(c \<Longrightarrow> draws n f) \<Longrightarrow> (\<not> c \<Longrightarrow> draws n g) \<Longrightarrow> draws n (\<lambda>px. if c then f px else g px)"
  by (cases c) simp_all

lemma draws_draw: "draws n (draw_effect effects l n now)"
  unfolding draw_effect_def [abs_def] render_rainbow_def render_twinkle_def render_breathing_def render_solid_def Let_def
  by (intro draws_if draws_each draws_wipe)

lemma draw_effect_eq: "n \<le> length px
  \<Longrightarrow> draw_effect e l n now px = draw_effect e l n now (replicate n WS2812_COLOR_BLACK) @ drop n px"
  using draws_draw [of n e l now] unfolding draws_def by blast

lemma effects_render_draws:
  assumes "0 < n" and "n \<le> length px"
  shows "snd (effects_render (Some l) n now (e, px)) =
    (if light_on l then draw_effect (notice_effect (light_effect l) now e) l n now (replicate n WS2812_COLOR_BLACK)
     else replicate n WS2812_COLOR_BLACK) @ drop n px"
proof (cases "light_on l")
  case True
  then have "snd (effects_render (Some l) n now (e, px)) = draw_effect (notice_effect (light_effect l) now e) l n now px"
    using assms(1) by (simp only: effects_render_def Let_def option.case prod.case if_not_P if_True snd_conv
        less_not_refl3 neq0_conv simp_thms if_False)
  then show ?thesis using True draw_effect_eq [OF assms(2)] by simp
next
  case False
  then have "snd (effects_render (Some l) n now (e, px)) = fill_black n px"
    using assms(1) by (simp add: effects_render_def Let_def)
  then show ?thesis using False fill_black_eq [OF assms(2)] by simp
qed

text \<open>C38: only the chosen part of the strip is lit. Whatever was on the strip before, a frame of the range is the
  frame that the effect would draw on a strip of that length, black on both sides of it, cut where the strip
  ends, and black throughout for a light that is off; the memory after the strip is not touched.
\<close>

theorem only_the_range_is_lit:
  fixes l :: light_t and rg :: led_range_t and n :: nat and px :: "ws2812_color_t list" and e :: effects_t and now :: u32
  assumes "0 < n" and "n \<le> length px"
  defines "b \<equiv> unat (led_range_begin (Some rg))"
  defines "a \<equiv> min (unat (led_range_length (Some rg))) (n - b)"
  shows "snd (effects_render_range (Some l) (Some rg) n now (e, px)) =
    replicate (min b n) WS2812_COLOR_BLACK
    @ (if light_on l then draw_effect (notice_effect (light_effect l) now e) l a now (replicate a WS2812_COLOR_BLACK)
       else replicate a WS2812_COLOR_BLACK)
    @ replicate (n - b - a) WS2812_COLOR_BLACK @ drop n px"
proof -
  define blank where "blank = replicate n WS2812_COLOR_BLACK @ drop n px"
  define frame where "frame = (if light_on l
    then draw_effect (notice_effect (light_effect l) now e) l a now (replicate a WS2812_COLOR_BLACK)
    else replicate a WS2812_COLOR_BLACK)"
  have "length (draw_effect (notice_effect (light_effect l) now e) l a now (replicate a WS2812_COLOR_BLACK)) = a"
    using draws_draw unfolding draws_def by blast
  then have frame: "length frame = a" unfolding frame_def by simp
  have a: "(if n - b < unat (led_range_length (Some rg)) then n - b else unat (led_range_length (Some rg))) = a"
    by (auto simp: a_def)
  have shown: "snd (effects_render_range (Some l) (Some rg) n now (e, px)) =
      (if n \<le> b \<or> a = 0 then blank else take b blank @ snd (effects_render (Some l) a now (e, drop b blank)))"
  proof -
    have "\<not> (Some l = None \<or> Some rg = None \<or> n = 0)" using assms(1) by simp
    then have "effects_render_range (Some l) (Some rg) n now (e, px) =
        (if n \<le> b then (e, blank) else if a = 0 then (e, blank)
         else (case effects_render (Some l) a now (e, drop b blank) of (effects, tail) \<Rightarrow> (effects, take b blank @ tail)))"
      unfolding effects_render_range_def Let_def prod.case fill_black_eq [OF assms(2)] blank_def [symmetric]
        b_def [symmetric] a by (simp only: if_False)
    then show ?thesis by (simp add: case_prod_beta)
  qed
  have "snd (effects_render_range (Some l) (Some rg) n now (e, px))
      = replicate (min b n) WS2812_COLOR_BLACK @ frame @ replicate (n - b - a) WS2812_COLOR_BLACK @ drop n px"
  proof (cases "n \<le> b \<or> a = 0")
    case True
    then have "frame = []" "min b n + (n - b - a) = n" using frame by (auto simp: a_def)
    then have "replicate (min b n) WS2812_COLOR_BLACK @ frame @ replicate (n - b - a) WS2812_COLOR_BLACK @ drop n px = blank"
      unfolding blank_def by (metis append.left_neutral append_assoc replicate_add)
    then show ?thesis using True shown by (simp only: if_True)
  next
    case False
    then have pos: "0 < a" "a \<le> n - b" "b < n" by (auto simp: a_def)
    then have "drop b blank = replicate (n - b) WS2812_COLOR_BLACK @ drop n px"
      "take b blank = replicate (min b n) WS2812_COLOR_BLACK" by (simp_all add: min_def blank_def)
    moreover have "snd (effects_render (Some l) a now (e, replicate (n - b) WS2812_COLOR_BLACK @ drop n px))
        = frame @ replicate (n - b - a) WS2812_COLOR_BLACK @ drop n px"
      using effects_render_draws [of a "replicate (n - b) WS2812_COLOR_BLACK @ drop n px" l now e] pos
      unfolding frame_def [symmetric] by simp
    ultimately show ?thesis using False shown by (simp only: if_False)
  qed
  then show ?thesis unfolding frame_def .
qed

theorem only_the_range_is_lit_witness:
  "snd (effects_render_range (Some (light_init 0)) (Some (led_range_restore 6 2 3)) 6 0 (effects_init 0, replicate 8 (ws2812_rgb 9 9 9)))
    = replicate 6 WS2812_COLOR_BLACK @ replicate 2 (ws2812_rgb 9 9 9)"
proof -
  have "\<not> light_on (light_init 0)" by (simp add: light_init_def)
  moreover have "led_range_begin (Some (led_range_restore 6 2 3)) = 1" "led_range_length (Some (led_range_restore 6 2 3)) = 2"
    by (simp_all add: led_range_restore_def led_range_init_def led_range_begin_def led_range_length_def Let_def)
  ultimately have "snd (effects_render_range (Some (light_init 0)) (Some (led_range_restore 6 2 3)) 6 0
      (effects_init 0, replicate 8 (ws2812_rgb 9 9 9)))
    = replicate 1 WS2812_COLOR_BLACK @ replicate 2 WS2812_COLOR_BLACK @ replicate 3 WS2812_COLOR_BLACK
      @ replicate 2 (ws2812_rgb 9 9 9)"
    using only_the_range_is_lit [of 6 "replicate 8 (ws2812_rgb 9 9 9)" "light_init 0" "led_range_restore 6 2 3" 0 "effects_init 0"]
    by (simp del: replicate.simps)
  then show ?thesis by (simp add: numeral_eq_Suc)
qed

subsection \<open>The animation\<close>

text \<open>A new effect starts from its beginning: the frame it draws and the state it leaves depend on the dither frame
  alone, not on how far the effect before had got; and while it stays the effect, \<open>k\<close> frames move the wipe
  \<open>k\<close> pixels and the hue \<open>9 k\<close> steps round the wheel.
\<close>

theorem effect_starts_over:
  assumes "ef_current e \<noteq> light_effect l" and "ef_current e' \<noteq> light_effect l" and "ef_frame e = ef_frame e'" and "light_on l"
    and "0 < n"
  shows "effects_render (Some l) n now (e, px) = effects_render (Some l) n now (e', px)
    \<and> (\<forall>k. ef_wipe_position ((next_frame ^^ k) (notice_effect (light_effect l) now e)) = of_nat k
       \<and> unat (ef_rainbow_hue ((next_frame ^^ k) (notice_effect (light_effect l) now e))) = (9 * k) mod 1536)"
proof -
  define s where "s = \<lparr>ef_frame = ef_frame e', ef_effect_start_ms = now, ef_current = light_effect l, ef_started = True,
    ef_rainbow_hue = 0, ef_wipe_position = 0\<rparr>"
  have s: "notice_effect (light_effect l) now e = s" "notice_effect (light_effect l) now e' = s"
    using assms(1-3) by (simp_all add: notice_effect_def s_def)
  have "ef_wipe_position ((next_frame ^^ k) s) = of_nat k \<and> unat (ef_rainbow_hue ((next_frame ^^ k) s)) = (9 * k) mod 1536" for k
  proof (induction k)
    case (Suc k)
    have "unat (of_nat ((9 * k mod 1536 + 9) mod 1536) :: u16) = (9 * k mod 1536 + 9) mod 1536"
      using mod_less_divisor [of 1536 "9 * k mod 1536 + 9"] by (intro unat_of_nat_lt) simp
    moreover have "(9 * k mod 1536 + 9) mod 1536 = (9 * Suc k) mod 1536" by (simp add: mod_simps add.commute)
    ultimately show ?case using Suc by (simp add: next_frame_def)
  qed (simp add: s_def)
  then show ?thesis using assms(4,5) by (simp add: effects_render_def s)
qed

theorem effect_starts_over_witness:
  "snd (effects_render (Some ((light_init 0)\<lparr>light_on := True, light_effect := LIGHT_EFFECT_WIPE\<rparr>)) 4 0
      ((effects_init 0)\<lparr>ef_wipe_position := 3\<rparr>, px))
    = snd (effects_render (Some ((light_init 0)\<lparr>light_on := True, light_effect := LIGHT_EFFECT_WIPE\<rparr>)) 4 0 (effects_init 9, px))"
  using effect_starts_over [of "(effects_init 0)\<lparr>ef_wipe_position := 3\<rparr>"
      "(light_init 0)\<lparr>light_on := True, light_effect := LIGHT_EFFECT_WIPE\<rparr>" "effects_init 9" 4 0 px]
  by (simp add: effects_init_def light_init_def)

text \<open>A wipe lights its head and the five pixels behind it, no more.\<close>

lemma fold_updates_other: "\<forall>t \<in> set ts. g t \<noteq> i \<Longrightarrow> fold (\<lambda>t px. px[g t := f t]) ts xs ! i = xs ! i"
  by (induction ts arbitrary: xs) simp_all

lemma wipe_lights_its_tail:
  assumes "n \<le> length px" and "i < n" and "\<forall>t < min 6 n. wipe_index e n t \<noteq> i"
  shows "render_wipe e base brightness n px ! i = WS2812_COLOR_BLACK"
proof -
  have "fold (\<lambda>t px. px[wipe_index e n t := f t]) [0..<min 6 n] (fill_black n px) ! i = fill_black n px ! i" for f
    using assms(3) by (intro fold_updates_other) auto
  moreover have "fill_black n px ! i = WS2812_COLOR_BLACK" using assms(1,2) by (simp add: fill_black_eq nth_append)
  ultimately show ?thesis unfolding render_wipe_def Let_def by simp
qed

text \<open>The position is a 16-bit counter, and 65536 is not a multiple of the strip's 300 pixels: when it wraps
  the head jumps from pixel 135 back to pixel 0.\<close>

lemma wipe_jumps_on_wrap:
  assumes "ef_wipe_position e = 65535"
  shows "wipe_index e 300 0 = 135" and "wipe_index (next_frame e) 300 0 = 0"
  using assms by (simp_all add: wipe_index_def next_frame_def)

text \<open>Breathing never puts a light out, and never makes it brighter than it was asked to be.\<close>

lemma wave_range: "breathing_wave e now \<le> 1024"
proof -
  have "uint (light_ease t) \<le> 1024" for t using light_ease_eq [of t] eased_range [of "min (uint t) 1024"] by simp
  moreover have "int (unat (light_ease t)) = uint (light_ease t)" for t by simp
  ultimately have "unat (light_ease t) \<le> 1024" for t by (metis of_nat_le_iff of_nat_numeral)
  then show ?thesis unfolding breathing_wave_def Let_def .
qed

lemma breathing_between:
  "unat brightness * 180 div 255 \<le> unat (breathing_brightness e brightness now)
   \<and> breathing_brightness e brightness now \<le> brightness"
proof -
  define scale where "scale = 180 + 75 * breathing_wave e now div 1024"
  have "75 * breathing_wave e now div 1024 \<le> 75 * 1024 div 1024"
    using wave_range by (intro div_le_mono mult_le_mono) simp_all
  then have scale: "180 \<le> scale" "scale \<le> 255" by (simp_all add: scale_def)
  have "unat brightness * 180 div 255 \<le> unat brightness * scale div 255"
    using scale(1) by (intro div_le_mono mult_le_mono order_refl)
  moreover have "unat brightness * scale div 255 \<le> unat brightness * 255 div 255"
    using scale(2) by (intro div_le_mono mult_le_mono order_refl)
  ultimately have d: "unat brightness * 180 div 255 \<le> unat brightness * scale div 255"
    "unat brightness * scale div 255 \<le> unat brightness" by simp_all
  have "unat (of_nat scale :: u8) = scale" using scale by (intro unat_of_nat_lt) simp
  then have "breathing_brightness e brightness now = of_nat (unat brightness * scale div 255)"
    unfolding breathing_brightness_def Let_def scale_def by simp
  moreover have "unat (of_nat (unat brightness * scale div 255) :: u8) = unat brightness * scale div 255"
    using d(2) unat_u8_lt [of brightness] by (intro unat_of_nat_lt) simp
  ultimately show ?thesis using d unfolding word_le_nat_alt by (simp only:)
qed

end
