(* ===== verification/Home_Settings.thy ===== *)
theory Home_Settings
  imports Persistent_Config Cli Led_Range Light
begin

text \<open>
  Model of \<open>apps/home_led/settings.c\<close>: what the lamp keeps in flash, over the models of the
  light, its range, the configuration store and the command line. The nine text settings are told apart by the datatype
  \<open>setting\<close>, which stands for the fields of \<open>stored_settings_t\<close> and for the lines of the macro that
  declares their commands; the state holds the char array of each. The last component of the state is the
  flash, behind the SDK parameter of \<open>Flash_Storage\<close>. The number of LEDs is the profile's constant
  \<open>leds\<close>.
\<close>

subsection \<open>The settings\<close>

datatype setting = Ssid | Password | Hostname | Broker | Port | Mqtt_user | Mqtt_pass | Device_id | Ha_prefix

fun setting_key :: "setting \<Rightarrow> string" where
  "setting_key Ssid = ''wifi_ssid''"
| "setting_key Password = ''wifi_password''"
| "setting_key Hostname = ''wifi_hostname''"
| "setting_key Broker = ''mqtt_broker''"
| "setting_key Port = ''mqtt_port''"
| "setting_key Mqtt_user = ''mqtt_user''"
| "setting_key Mqtt_pass = ''mqtt_pass''"
| "setting_key Device_id = ''device_id''"
| "setting_key Ha_prefix = ''ha_prefix''"

fun setting_size :: "setting \<Rightarrow> nat" where
  "setting_size Ssid = 33"
| "setting_size Password = 64"
| "setting_size Hostname = 33"
| "setting_size Broker = 128"
| "setting_size Port = 8"
| "setting_size Mqtt_user = 64"
| "setting_size Mqtt_pass = 64"
| "setting_size Device_id = 33"
| "setting_size Ha_prefix = 32"

fun setting_default :: "setting \<Rightarrow> string" where
  "setting_default Hostname = ''home-led''"
| "setting_default Port = ''1883''"
| "setting_default Device_id = ''home-led''"
| "setting_default Ha_prefix = ''homeassistant''"
| "setting_default _ = ''''"

fun setting_label :: "setting \<Rightarrow> string" where
  "setting_label Ssid = ''ssid''"
| "setting_label Password = ''password''"
| "setting_label Hostname = ''hostname''"
| "setting_label Broker = ''broker''"
| "setting_label Port = ''port''"
| "setting_label Mqtt_user = ''mqttuser''"
| "setting_label Mqtt_pass = ''mqttpass''"
| "setting_label Device_id = ''deviceid''"
| "setting_label Ha_prefix = ''haprefix''"

fun setting_secret :: "setting \<Rightarrow> bool" where
  "setting_secret Password \<longleftrightarrow> True"
| "setting_secret Mqtt_pass \<longleftrightarrow> True"
| "setting_secret _ \<longleftrightarrow> False"

definition all_settings :: "setting list" where
  "all_settings = [Ssid, Password, Hostname, Broker, Port, Mqtt_user, Mqtt_pass, Device_id, Ha_prefix]"

record home_app =
  home_light :: light_t
  home_range :: led_range_t
  home_config :: persistent_config_t
  home_config_buffer :: "u8 list"
  home_stored :: "setting \<Rightarrow> u8 list"
  home_saved_generation :: u32
  home_saved_range_generation :: u32

abbreviation (input) "KEY_LIGHT_ON \<equiv> ''light_on''"
abbreviation (input) "KEY_LIGHT_BRIGHTNESS \<equiv> ''light_bri''"
abbreviation (input) "KEY_LIGHT_RGB \<equiv> ''light_rgb''"
abbreviation (input) "KEY_LIGHT_MIREDS \<equiv> ''light_ct''"
abbreviation (input) "KEY_LIGHT_MODE \<equiv> ''light_mode''"
abbreviation (input) "KEY_LIGHT_EFFECT \<equiv> ''light_effect''"
abbreviation (input) "KEY_RANGE_FIRST \<equiv> ''led_first''"
abbreviation (input) "KEY_RANGE_LAST \<equiv> ''led_last''"

subsection \<open>Loading and storing\<close>

definition load_strings :: "home_app \<Rightarrow> home_app" where
  "load_strings app =
     fold (\<lambda>s app. app\<lparr>home_stored := (home_stored app)(s :=
       the (snd (config_get_string (persistent_config_store (home_config app)) (Some (setting_key s))
         (Some (home_stored app s)) (setting_size s) (Some (setting_default s)))))\<rparr>) all_settings app"

text \<open>A number read from the store into a variable, which the call always sets.\<close>

definition get_u32 :: "config_store_t \<Rightarrow> string \<Rightarrow> u32 \<Rightarrow> u32" where
  "get_u32 store key fallback = the (snd (config_get_u32 store (Some key) (Some 0) fallback))"

definition load_light :: "u32 \<Rightarrow> home_app \<Rightarrow> home_app" where
  "load_light now_ms app =
     (let store = persistent_config_store (home_config app);
          brightness = get_u32 store KEY_LIGHT_BRIGHTNESS (ucast LIGHT_DEFAULT_BRIGHTNESS);
          rgb = get_u32 store KEY_LIGHT_RGB 0xFFFFFF;
          stored = \<lparr>set_on = False, set_brightness = ucast (if 255 < brightness then 255 else brightness),
            set_color = ws2812_rgb (ucast (drop_bit 16 rgb)) (ucast (drop_bit 8 rgb)) (ucast rgb),
            set_mireds = LIGHT_DEFAULT_MIREDS, set_color_mode = LIGHT_COLOR_MODE_TEMP, set_effect = LIGHT_EFFECT_SOLID\<rparr>
      in app\<lparr>home_light := light_restore (Some stored) now_ms\<rparr>)"

definition load_range :: "u16 \<Rightarrow> home_app \<Rightarrow> home_app" where
  "load_range leds app =
     (let store = persistent_config_store (home_config app);
          first = get_u32 store KEY_RANGE_FIRST 1;
          final = get_u32 store KEY_RANGE_LAST (ucast leds);
          saved_first = (if first \<le> 0xFFFF then ucast first else 0);
          saved_last = (if final \<le> 0xFFFF then ucast final else 0)
      in app\<lparr>home_range := led_range_restore leds saved_first saved_last\<rparr>)"

definition settings_load ::
  "'f flash_sdk \<Rightarrow> flash_layout_t \<Rightarrow> u16 \<Rightarrow> u32 \<Rightarrow> 'f \<Rightarrow> home_app \<Rightarrow> home_app" where
  "settings_load sdk layout leds now_ms f app =
     (let app = app\<lparr>home_config := snd (persistent_config_load sdk layout (home_config app)
                  (Some (home_config_buffer app)) (length (home_config_buffer app)) f)\<rparr>;
          app = load_strings app;
          app = load_light now_ms app
      in load_range leds app)"

definition rgb_word :: "ws2812_color_t \<Rightarrow> u32" where
  "rgb_word c = push_bit 16 (ucast (color_r c)) OR push_bit 8 (ucast (color_g c)) OR ucast (color_b c)"

definition saved_values :: "home_app \<Rightarrow> (string \<times> u32) list" where
  "saved_values app =
     (let current = light_capture (home_light app) in
      [(KEY_LIGHT_ON, if set_on current then 1 else 0),
       (KEY_LIGHT_BRIGHTNESS, ucast (set_brightness current)),
       (KEY_LIGHT_RGB, rgb_word (set_color current)),
       (KEY_LIGHT_MIREDS, ucast (set_mireds current)),
       (KEY_LIGHT_MODE, set_color_mode current),
       (KEY_LIGHT_EFFECT, set_effect current),
       (KEY_RANGE_FIRST, ucast (led_range_first (Some (home_range app)))),
       (KEY_RANGE_LAST, ucast (led_range_last (Some (home_range app))))])"

text \<open>The writes, one after the other; their results are not looked at.\<close>

definition set_all_u32 :: "(string \<times> u32) list \<Rightarrow> config_store_t \<Rightarrow> config_store_t" where
  "set_all_u32 kvs store = fold (\<lambda>(key, v) s. snd (config_set_u32 s (Some key) v)) kvs store"

definition settings_store :: "'f flash_sdk \<Rightarrow> home_app \<times> 'f \<Rightarrow> bool \<times> home_app \<times> 'f" where
  "settings_store sdk st =
     (case st of (app, f) \<Rightarrow>
       (let config = (home_config app)\<lparr>pc_store :=
              set_all_u32 (saved_values app) (persistent_config_store (home_config app))\<rparr> in
        case persistent_config_save sdk config f of
          (result, config, f) \<Rightarrow> (result = PERSISTENT_CONFIG_OK, app\<lparr>home_config := config\<rparr>, f)))"

subsection \<open>Console\<close>

text \<open>The text in a char array.\<close>

definition array_text :: "u8 list \<Rightarrow> string" where
  "array_text a = map (\<lambda>b. char_of (unat b)) (takeWhile (\<lambda>b. b \<noteq> 0) a)"

text \<open>Shows or sets one text; the last result says whether something was written.\<close>

definition setting_command :: "setting \<Rightarrow> cli_t \<times> home_app \<Rightarrow> int \<times> bool \<times> cli_t \<times> home_app" where
  "setting_command s st =
     (case st of (c, app) \<Rightarrow>
       (let v = home_stored app s in
        case cli_rest c of
          (None, c) \<Rightarrow>
            (let shown = (if v ! 0 = 0 then ''<unset>'' else if setting_secret s then ''<set>'' else array_text v)
             in (CLI_OK, False, cli_printf c (setting_label s @ '' '' @ shown @ CRLF), app))
        | (Some start, c) \<Rightarrow>
            (let given = c_str start (cli_line c) in
             if setting_size s \<le> length given
             then (CLI_ERR_ARG, False,
                   cli_printf c (''too long, '' @ show_nat (setting_size s - 1) @ '' characters at most'' @ CRLF), app)
             else
               (let v = blit 0 (text_bytes given @ [0]) v;
                    store = snd (config_set_string (persistent_config_store (home_config app))
                              (Some (setting_key s)) (Some (array_text v)));
                    app = app\<lparr>home_stored := (home_stored app)(s := v),
                            home_config := (home_config app)\<lparr>pc_store := store\<rparr>\<rparr>
                in (CLI_OK, True, cli_write c (Some (''set (run save to keep it)'' @ CRLF)), app)))))"

definition cmd_setting :: "setting \<Rightarrow> cli_t \<times> home_app \<Rightarrow> int \<times> cli_t \<times> home_app" where
  "cmd_setting s st =
     (case setting_command s st of (result, did_set, c, app) \<Rightarrow> (result, c, app))"

definition cmd_deviceid :: "cli_t \<times> home_app \<Rightarrow> int \<times> cli_t \<times> home_app" where
  "cmd_deviceid st =
     (case setting_command Device_id st of
        (result, did_set, c, app) \<Rightarrow>
          (result, if did_set then cli_write c (Some (''reboot to republish under the new id'' @ CRLF)) else c, app))"

definition cmd_save :: "'f flash_sdk \<Rightarrow> cli_t \<times> home_app \<times> 'f \<Rightarrow> int \<times> cli_t \<times> home_app \<times> 'f" where
  "cmd_save sdk st =
     (case st of (c, app, f) \<Rightarrow>
        case settings_store sdk (app, f) of
          (saved, app, f) \<Rightarrow>
            if \<not> saved then (CLI_ERR_FAILED, cli_write c (Some (''save failed'' @ CRLF)), app, f)
            else (CLI_OK, cli_write c (Some (''ok'' @ CRLF)),
                  app\<lparr>home_saved_generation := light_generation (home_light app),
                     home_saved_range_generation := lr_generation (home_range app)\<rparr>, f))"

text \<open>The table of commands with their help, as far as the caller's array takes it.\<close>

definition settings_commands :: "nat \<Rightarrow> (string \<times> string) list" where
  "settings_commands capacity = take capacity
     [(''ssid'', ''ssid [name] - show or set''), (''password'', ''password [value] - set only''),
      (''hostname'', ''hostname [name] - show or set''), (''broker'', ''broker [host] - show or set''),
      (''port'', ''port [n] - show or set''), (''mqttuser'', ''mqttuser [name] - show or set''),
      (''mqttpass'', ''mqttpass [value] - set only''), (''deviceid'', ''deviceid [id] - show or set''),
      (''haprefix'', ''haprefix [prefix] - discovery prefix''), (''save'', ''keep every setting in flash'')]"

subsection \<open>The store after the writes\<close>

lemma set_u32_put: "config_set_u32 s (Some k) v = config_put s k (le32 v)"
  by (simp add: config_set_u32_def config_put_def le32_def)

lemma set_all_u32_lookup:
  assumes "config_reachable s" and "\<forall>(k, v) \<in> set kvs. key_ok k" and "cs_used s + (\<Sum>(k, v) \<leftarrow> kvs. length k + 6) \<le> cs_capacity s"
  shows "config_reachable (set_all_u32 kvs s) \<and> cs_capacity (set_all_u32 kvs s) = cs_capacity s
    \<and> config_lookup (set_all_u32 kvs s) = config_lookup s ++ map_of (rev (map (\<lambda>(k, v). (k, le32 v)) kvs))
    \<and> cs_used (set_all_u32 kvs s) \<le> cs_used s + (\<Sum>(k, v) \<leftarrow> kvs. length k + 6)"
  using assms
proof (induction kvs arbitrary: s)
  case (Cons kv kvs)
  obtain k v where kv: "kv = (k, v)" by fastforce
  obtain e t where put: "config_put s k (le32 v) = (e, t)" by fastforce
  have fits: "cs_used s + length k + 6 \<le> cs_capacity s" using Cons.prems(3) kv by simp
  have t: "config_reachable t" "config_lookup t = (config_lookup s)(k \<mapsto> le32 v)"
      "cs_used t + record_cost k (config_lookup s k) = cs_used s + (length k + 6)"
    using config_put_map [OF Cons.prems(1) _ _ put] Cons.prems(2) kv fits by (auto simp: record_cost_def)
  have cap: "cs_capacity t = cs_capacity s"
    using put by (auto simp: config_put_def config_set_def Let_def split: if_splits sum.splits prod.splits option.splits)
  have "cs_used t + (\<Sum>(k, v) \<leftarrow> kvs. length k + 6) \<le> cs_capacity t"
    using t(3) cap Cons.prems(3) kv by simp
  then have "config_reachable (set_all_u32 kvs t) \<and> cs_capacity (set_all_u32 kvs t) = cs_capacity t
    \<and> config_lookup (set_all_u32 kvs t) = config_lookup t ++ map_of (rev (map (\<lambda>(k, v). (k, le32 v)) kvs))
    \<and> cs_used (set_all_u32 kvs t) \<le> cs_used t + (\<Sum>(k, v) \<leftarrow> kvs. length k + 6)"
    using Cons.IH [OF t(1)] Cons.prems(2) by simp
  moreover have "set_all_u32 (kv # kvs) s = set_all_u32 kvs t"
    by (simp add: set_all_u32_def kv set_u32_put put)
  ultimately show ?case using t cap kv by (simp add: map_add_def fun_eq_iff split: option.splits)
qed (simp add: set_all_u32_def)
subsection \<open>What a restart finds\<close>

lemma rgb_word_bytes:
  "ucast (drop_bit 16 (rgb_word c)) = color_r c" "ucast (drop_bit 8 (rgb_word c)) = color_g c" "ucast (rgb_word c) = color_b c"
  unfolding rgb_word_def by (rule bit_word_eqI; auto simp: bit_simps dest: bit_imp_le_length)+

lemma widened:
  fixes b :: u8 and w :: u16
  shows "unat (ucast b :: u32) = unat b" and "unat (ucast w :: u32) = unat w"
    and "ucast (ucast b :: u32) = b" and "ucast (ucast w :: u32) = w"
proof -
  show b: "unat (ucast b :: u32) = unat b" and w: "unat (ucast w :: u32) = unat w"
    using unsigned_less [of b, where ?'a = nat] unsigned_less [of w, where ?'a = nat]
    by (simp_all add: unsigned_ucast_eq take_bit_nat_eq_self)
  show "ucast (ucast b :: u32) = b" "ucast (ucast w :: u32) = w"
    by (rule bit_word_eqI; auto simp: bit_simps dest: bit_imp_le_length)+
qed

lemma widened_bounds: "\<not> 255 < (ucast (b :: u8) :: u32)" "(ucast (w :: u16) :: u32) \<le> 0xFFFF"
  using unsigned_less [of b, where ?'a = nat] unsigned_less [of w, where ?'a = nat]
  by (simp_all add: word_less_nat_alt word_le_nat_alt widened not_less)

lemma load_strings_keeps [simp]:
  "home_config (load_strings app) = home_config app" "home_range (load_strings app) = home_range app"
proof -
  have "home_config (fold (\<lambda>s app. app\<lparr>home_stored := g s app\<rparr>) ss app) = home_config app
    \<and> home_range (fold (\<lambda>s app. app\<lparr>home_stored := g s app\<rparr>) ss app) = home_range app" for g and ss :: "setting list"
    by (induction ss arbitrary: app) simp_all
  then have keeps: "home_config (fold (\<lambda>s app. app\<lparr>home_stored := g s app\<rparr>) ss app) = home_config app"
    "home_range (fold (\<lambda>s app. app\<lparr>home_stored := g s app\<rparr>) ss app) = home_range app" for g and ss :: "setting list"
    by simp_all
  show "home_config (load_strings app) = home_config app" "home_range (load_strings app) = home_range app"
    unfolding load_strings_def by (rule keeps)+
qed

lemma get_u32_held:
  assumes "holds s es" and "key_ok k" and "config_lookup s k = Some (le32 v)"
  shows "get_u32 s k fallback = v"
  using config_get_u32_held [OF assms(1,2)] assms(3) by (simp add: get_u32_def)

lemma range_restored:
  assumes "range_ok r" and "lr_limit r = leds" and "leds \<noteq> 0"
  shows "lr_begin (led_range_restore leds (led_range_first (Some r)) (led_range_last (Some r))) = lr_begin r"
    and "lr_end (led_range_restore leds (led_range_first (Some r)) (led_range_last (Some r))) = lr_end r"
    and "lr_limit (led_range_restore leds (led_range_first (Some r)) (led_range_last (Some r))) = leds"
proof -
  have r: "unat (lr_begin r) < unat (lr_end r)" "unat (lr_end r) \<le> unat leds"
    using assms by (simp_all add: range_ok_def word_less_nat_alt word_le_nat_alt)
  then have "unat (lr_begin r + 1) = unat (lr_begin r) + 1"
    using unsigned_less [of "lr_end r", where ?'a = nat] by (simp add: unat_word_ariths(1))
  then have "1 \<le> lr_begin r + 1 \<and> lr_begin r + 1 \<le> lr_end r \<and> lr_end r \<le> leds"
    using r by (simp add: word_le_nat_alt)
  then show "lr_begin (led_range_restore leds (led_range_first (Some r)) (led_range_last (Some r))) = lr_begin r"
    "lr_end (led_range_restore leds (led_range_first (Some r)) (led_range_last (Some r))) = lr_end r"
    "lr_limit (led_range_restore leds (led_range_first (Some r)) (led_range_last (Some r))) = leds"
    using assms(2,3) by (simp_all add: led_range_restore_def led_range_init_def led_range_first_def led_range_last_def Let_def)
qed

text \<open>What the load makes of a store that holds the saved values.\<close>

lemma load_saved_values:
  fixes now :: u32
  assumes held: "holds (pc_store (home_config app)) es"
    and kept: "\<forall>(k, v) \<in> set (saved_values old). config_lookup (pc_store (home_config app)) k = Some (le32 v)"
    and old: "light_ok (home_light old)" "range_ok (home_range old)" "lr_limit (home_range old) = leds" "leds \<noteq> 0"
  defines "new \<equiv> load_range leds (load_light now (load_strings app))"
  shows "home_light new = light_restore (Some \<lparr>set_on = False, set_brightness = light_brightness (home_light old),
      set_color = light_color (home_light old), set_mireds = LIGHT_DEFAULT_MIREDS,
      set_color_mode = LIGHT_COLOR_MODE_TEMP, set_effect = LIGHT_EFFECT_SOLID\<rparr>) now"
    and "lr_begin (home_range new) = lr_begin (home_range old)" and "lr_end (home_range new) = lr_end (home_range old)"
    and "lr_limit (home_range new) = leds"
proof -
  let ?s = "pc_store (home_config app)"
  have get: "get_u32 ?s KEY_LIGHT_BRIGHTNESS fb = ucast (light_brightness (home_light old))"
    "get_u32 ?s KEY_LIGHT_RGB fb = rgb_word (light_color (home_light old))"
    "get_u32 ?s KEY_RANGE_FIRST fb = ucast (led_range_first (Some (home_range old)))"
    "get_u32 ?s KEY_RANGE_LAST fb = ucast (led_range_last (Some (home_range old)))" for fb
    using kept by (intro get_u32_held [OF held]; simp add: key_ok_def saved_values_def light_capture_def Let_def)+
  have "ws2812_rgb (color_r (light_color (home_light old))) (color_g (light_color (home_light old)))
      (color_b (light_color (home_light old))) = light_color (home_light old)"
    using old(1) by (simp add: light_ok_def ws2812_rgb_def)
  then show "home_light new = light_restore (Some \<lparr>set_on = False, set_brightness = light_brightness (home_light old),
      set_color = light_color (home_light old), set_mireds = LIGHT_DEFAULT_MIREDS,
      set_color_mode = LIGHT_COLOR_MODE_TEMP, set_effect = LIGHT_EFFECT_SOLID\<rparr>) now"
    unfolding new_def load_range_def load_light_def Let_def persistent_config_store_def
    by (simp add: get rgb_word_bytes widened widened_bounds)
  have "home_range new = led_range_restore leds (led_range_first (Some (home_range old))) (led_range_last (Some (home_range old)))"
    unfolding new_def load_range_def load_light_def Let_def persistent_config_store_def
    by (simp add: get widened widened_bounds)
  then show "lr_begin (home_range new) = lr_begin (home_range old)" "lr_end (home_range new) = lr_end (home_range old)"
    "lr_limit (home_range new) = leds"
    using range_restored [OF old(2-4)] by simp_all
qed

text \<open>A lamp of eight LEDs with an empty store, on the chip of \<open>Persistent_Config\<close>'s examples.\<close>

definition sample_app :: "persistent_config_t \<Rightarrow> home_app" where
  "sample_app c =
     \<lparr>home_light = light_set_brightness 42 0 (light_restore None 0), home_range = led_range_restore 8 2 5,
      home_config = c\<lparr>pc_store := empty_store 256\<rparr>, home_config_buffer = replicate 256 0,
      home_stored = (\<lambda>_. []), home_saved_generation = 0, home_saved_range_generation = 0\<rparr>"

lemma sample_store_saves:
  obtains c f app' g where "session (nor_sdk None) small_slots (home_config (sample_app c), f)"
    and "settings_store (nor_sdk None) (sample_app c, f) = (True, app', g)"
proof -
  obtain c where c: "session (nor_sdk None) small_slots (c, (\<lambda>_. 0xFF, []))" "pc_slot c = slots_of small_slots" "\<not> pc_loaded c"
    by (rule small_session [where ?c0.0 = persistent_config_zero])
  have empty: "config_reachable (empty_store 256)" by (rule empty_store_reachable) simp
  then obtain es0 where "holds (empty_store 256) es0" using reachable_holds by blast
  then have "store_ok (empty_store 256)" by (auto simp: store_ok_def empty_store_def)
  then have s: "session (nor_sdk None) small_slots (home_config (sample_app c), (\<lambda>_. 0xFF, []))"
    using session_edit [OF c(1)] by (simp add: sample_app_def)
  define st where "st = set_all_u32 (saved_values (sample_app c)) (empty_store 256)"
  have keys: "\<forall>(k, v) \<in> set (saved_values (sample_app c)). key_ok k"
    and cost: "(\<Sum>(k, v) \<leftarrow> saved_values (sample_app c). length k + 6) = 121"
    and on: "KEY_LIGHT_ON \<in> fst ` set (saved_values (sample_app c))"
    by (simp_all add: saved_values_def Let_def key_ok_def)
  have "cs_used (empty_store 256) = 0" "cs_capacity (empty_store 256) = 256" by (simp_all add: empty_store_def)
  then have all: "config_reachable st" "cs_capacity st = 256" "cs_used st \<le> 256"
      "config_lookup st = config_lookup (empty_store 256) ++ map_of (rev (map (\<lambda>(k, v). (k, le32 v)) (saved_values (sample_app c))))"
    using set_all_u32_lookup [OF empty keys, unfolded cost] by (auto simp: st_def)
  obtain es where es: "holds st es" using reachable_holds [OF all(1)] by blast
  then have ok: "store_ok st" using all(2) by (auto simp: store_ok_def holds_def)
  have "KEY_LIGHT_ON \<in> dom (config_lookup st)" using on unfolding all(4) by (auto simp: dom_map_of_conv_image_fst image_image split_def)
  then have "es \<noteq> []" using config_lookup_run [OF es] by (auto split: if_splits)
  then have used: "0 < cs_used st" using holds_used [OF es] by (cases es) auto
  have pre: "pc_slot (c\<lparr>pc_store := st\<rparr>) = slots_of small_slots" "unat (save_target (c\<lparr>pc_store := st\<rparr>)) < 2"
      "store_ok (pc_store (c\<lparr>pc_store := st\<rparr>))" "0 < cs_used (pc_store (c\<lparr>pc_store := st\<rparr>))"
      "cs_used (pc_store (c\<lparr>pc_store := st\<rparr>)) \<le> 256"
    using c(2,3) ok used all(3) by (simp_all add: save_target_def)
  obtain c' m' where "persistent_config_save (nor_sdk None) (c\<lparr>pc_store := st\<rparr>) (\<lambda>_. 0xFF, []) = (PERSISTENT_CONFIG_OK, c', (m', []))"
    by (rule nor_save_ok [OF pre])
  then have "settings_store (nor_sdk None) (sample_app c, (\<lambda>_. 0xFF, [])) = (True, (sample_app c)\<lparr>home_config := c'\<rparr>, (m', []))"
    by (simp add: settings_store_def persistent_config_store_def st_def) (simp add: sample_app_def)
  with s that show ?thesis by blast
qed


text \<open>A text typed at the console is what the command then shows, and what goes into the store under its key.\<close>

lemma array_text_of:
  assumes "CHR 0x00 \<notin> set t" and "length t < length a"
  shows "array_text (blit 0 (text_bytes t @ [0]) a) = t"
proof -
  have char: "char_of (unat (of_char c :: u8)) = c" for c by (simp add: unat_of_char)
  have "(of_char c :: u8) = 0 \<longleftrightarrow> c = CHR 0x00" for c using of_char_u8_inj [of c "CHR 0x00"] by simp
  then have "\<forall>c \<in> set t. (of_char c :: u8) \<noteq> 0" using assms(1) by metis
  then have "\<forall>b \<in> set (text_bytes t). b \<noteq> 0" unfolding text_bytes_def set_map by (metis imageE)
  then have "takeWhile (\<lambda>b. b \<noteq> 0) (text_bytes t @ 0 # rest) = text_bytes t @ takeWhile (\<lambda>b. b \<noteq> 0) (0 # rest)" for rest
    by (intro takeWhile_append2) blast
  then have "takeWhile (\<lambda>b. b \<noteq> 0) (text_bytes t @ 0 # rest) = text_bytes t" for rest by simp
  moreover have "map (\<lambda>b. char_of (unat b)) (text_bytes t) = t"
    unfolding text_bytes_def map_map comp_def char by simp
  moreover have "length (text_bytes t) = length t" by (simp add: text_bytes_def)
  ultimately show ?thesis using assms(2) by (simp add: array_text_def blit_def)
qed

lemma setting_is_kept:
  assumes "cli_rest c = (Some start, c')" and "length (home_stored app s) = setting_size s"
    and "length (c_str start (cli_line c')) < setting_size s"
  defines "given \<equiv> c_str start (cli_line c')"
  shows "\<exists>c2 app2. setting_command s (c, app) = (CLI_OK, True, c2, app2) \<and> array_text (home_stored app2 s) = given
    \<and> length (home_stored app2 s) = setting_size s
    \<and> pc_store (home_config app2) = snd (config_set_string (pc_store (home_config app)) (Some (setting_key s)) (Some given))"
proof -
  have "CHR 0x00 \<notin> set given" unfolding given_def c_str_def by (auto dest: set_takeWhileD)
  then have "array_text (blit 0 (text_bytes given @ [0]) (home_stored app s)) = given"
    using assms(2,3) by (intro array_text_of) (simp_all add: given_def)
  then show ?thesis using assms(1-3)
    by (simp add: setting_command_def Let_def persistent_config_store_def given_def [symmetric] not_le)
qed

end
